(* ===== verification/Flipper_Prelude.thy ===== *)
theory Flipper_Prelude
  imports Main "HOL-Library.Word"
begin

text \<open>
  Shared vocabulary of the development: the fixed-width integers of the firmware,
  the faults a C function can end in, checked buffer accesses, and the generic facts
  on words, bit strings and lists that the component theories use.
\<close>

unbundle bit_operations_syntax

section \<open>Machine types and faults\<close>

type_synonym u8 = "8 word"
type_synonym u16 = "16 word"
type_synonym u32 = "32 word"
type_synonym u64 = "64 word"

text \<open>
  What a function of the firmware can end in instead of returning: a failed
  \<^verbatim>\<open>furi_check\<close>, a call of \<^verbatim>\<open>furi_crash\<close>, an access outside a buffer, or another
  undefined behaviour of C (signed overflow, a shift by the width of the type or more).
\<close>

datatype fault = FuriCheck | FuriCrash | OutOfBounds | UndefinedBehaviour

definition rd :: "'a list \<Rightarrow> nat \<Rightarrow> fault + 'a" where
  "rd xs i = (if i < length xs then Inr (xs ! i) else Inl OutOfBounds)"

definition wr :: "'a list \<Rightarrow> nat \<Rightarrow> 'a \<Rightarrow> fault + 'a list" where
  "wr xs i v = (if i < length xs then Inr (xs[i := v]) else Inl OutOfBounds)"

definition bind_r :: "fault + 'a \<Rightarrow> ('a \<Rightarrow> fault + 'b) \<Rightarrow> fault + 'b" where
  "bind_r m f = (case m of Inl e \<Rightarrow> Inl e | Inr x \<Rightarrow> f x)"

text \<open>The result of an operation on \<^verbatim>\<open>int32_t\<close>, which must not overflow.\<close>

definition int32_checked :: "int \<Rightarrow> fault + int" where
  "int32_checked i = (if - (2 ^ 31) \<le> i \<and> i < 2 ^ 31 then Inr i else Inl UndefinedBehaviour)"

lemma rd_Inr [simp]: "i < length xs \<Longrightarrow> rd xs i = Inr (xs ! i)"
  by (simp add: rd_def)

lemma wr_Inr [simp]: "i < length xs \<Longrightarrow> wr xs i v = Inr (xs[i := v])"
  by (simp add: wr_def)

lemma bind_r_simps [simp]:
  "bind_r (Inl e) f = Inl e"
  "bind_r (Inr x) f = f x"
  by (simp_all add: bind_r_def)

lemma bind_r_Inr_iff: "bind_r m f = Inr y \<longleftrightarrow> (\<exists>x. m = Inr x \<and> f x = Inr y)"
  by (cases m) auto

lemma rd_Inr_iff: "rd xs i = Inr y \<longleftrightarrow> i < length xs \<and> y = xs ! i"
  by (auto simp: rd_def)

section \<open>Collections of rewrite rules\<close>

text \<open>
  \<^verbatim>\<open>firmware_const\<close> holds the constant tables of the protocols, \<^verbatim>\<open>firmware_step\<close>
  the definitions that carry out one step of a state machine.
\<close>

named_theorems firmware_const
named_theorems firmware_step

section \<open>Bit strings and shift registers\<close>

text \<open>The lowest \<open>n\<close> bits of a word, most significant first.\<close>

definition bits_msb :: "nat \<Rightarrow> 'a::len word \<Rightarrow> bool list" where
  "bits_msb n w = map (bit w) (rev [0..<n])"

text \<open>Shifting one bit into a register from the right: \<^verbatim>\<open>w << 1 | b\<close>.\<close>

definition shift_in :: "'a::len word \<Rightarrow> bool \<Rightarrow> 'a word" where
  "shift_in w b = (push_bit 1 w OR of_bool b)"

lemma bits_msb_0 [simp]: "bits_msb 0 w = []"
  by (simp add: bits_msb_def)

lemma bits_msb_Suc [simp]: "bits_msb (Suc n) w = bit w n # bits_msb n w"
  by (simp add: bits_msb_def)

lemma length_bits_msb [simp]: "length (bits_msb n w) = n"
  by (simp add: bits_msb_def)

lemma bit_shift_in:
  "bit (shift_in (w :: 'a::len word) b) i \<longleftrightarrow>
     i < LENGTH('a) \<and> (if i = 0 then b else bit w (i - 1))"
  unfolding shift_in_def bit_or_iff bit_push_bit_iff bit_of_bool_iff
  by (auto simp: possible_bit_word dest: bit_imp_le_length)

lemma foldl_shift_in_bits:
  "foldl shift_in a (bits_msb n x) = (push_bit n a OR take_bit n x)"
proof (induction n arbitrary: a)
  case 0
  then show ?case by simp
next
  case (Suc n)
  have "foldl shift_in a (bits_msb (Suc n) x) = push_bit n (shift_in a (bit x n)) OR take_bit n x"
    by (simp add: Suc)
  also have "\<dots> = push_bit (Suc n) a OR take_bit (Suc n) x"
    by (rule bit_word_eqI) (auto simp: bit_shift_in bit_simps less_Suc_eq not_less Suc_diff_le simp del: push_bit_Suc)
  finally show ?case .
qed

text \<open>The word a bit string denotes, most significant bit first.\<close>

definition word_of_bits :: "bool list \<Rightarrow> 'a::len word" where
  "word_of_bits bs = foldl shift_in 0 bs"

lemma word_of_bits_msb: "word_of_bits (bits_msb n x) = take_bit n x"
  by (simp add: word_of_bits_def foldl_shift_in_bits)

lemma bit_word_of_bits:
  "bit (word_of_bits bs :: 'a::len word) i \<longleftrightarrow>
     i < LENGTH('a) \<and> i < length bs \<and> bs ! (length bs - 1 - i)"
proof (induction bs arbitrary: i rule: rev_induct)
  case Nil
  then show ?case by (simp add: word_of_bits_def)
next
  case (snoc b bs)
  have "word_of_bits (bs @ [b]) = shift_in (word_of_bits bs :: 'a word) b"
    by (simp add: word_of_bits_def)
  then show ?case
    by (cases i) (auto simp: bit_shift_in snoc nth_append)
qed

lemma take_bit_word_of_bits:
  "length bs \<le> n \<Longrightarrow> take_bit n (word_of_bits bs :: 'a::len word) = word_of_bits bs"
  by (rule bit_word_eqI) (auto simp: bit_simps bit_word_of_bits)

section \<open>Bytes and shift registers\<close>

text \<open>The lowest \<open>n\<close> bytes of a word, most significant first, and shifting a byte in.\<close>

definition bytes_be :: "nat \<Rightarrow> 'a::len word \<Rightarrow> u8 list" where
  "bytes_be n w = map (\<lambda>i. ucast (drop_bit (8 * i) w)) (rev [0..<n])"

definition byte_in :: "'a::len word \<Rightarrow> u8 \<Rightarrow> 'a word" where
  "byte_in w b = (push_bit 8 w OR ucast b)"

lemma bytes_be_Suc [simp]: "bytes_be (Suc n) w = ucast (drop_bit (8 * n) w) # bytes_be n w"
  by (simp add: bytes_be_def)

lemma bytes_be_0 [simp]: "bytes_be 0 w = []"
  by (simp add: bytes_be_def)

lemma length_bytes_be [simp]: "length (bytes_be n w) = n"
  by (simp add: bytes_be_def)

lemma foldl_byte_in_bytes:
  "foldl byte_in a (bytes_be n x) = (push_bit (8 * n) a OR take_bit (8 * n) (x :: 'a::len word))"
proof (induction n arbitrary: a)
  case 0
  then show ?case by simp
next
  case (Suc n)
  have "foldl byte_in a (bytes_be (Suc n) x) =
      push_bit (8 * n) (push_bit 8 a OR ucast (ucast (drop_bit (8 * n) x) :: u8)) OR take_bit (8 * n) x"
    by (simp add: Suc byte_in_def)
  also have "\<dots> = push_bit (8 * Suc n) a OR take_bit (8 * Suc n) x"
  proof (rule bit_word_eqI)
    fix i assume i: "i < LENGTH('a)"
    consider "i < 8 * n" | "8 * n \<le> i" "i < 8 * n + 8" | "8 * n + 8 \<le> i" by linarith
    then show "bit (push_bit (8 * n) (push_bit 8 a OR ucast (ucast (drop_bit (8 * n) x) :: u8)) OR take_bit (8 * n) x) i
        = bit (push_bit (8 * Suc n) a OR take_bit (8 * Suc n) x) i"
      using i by cases (auto simp: bit_simps add.commute)
  qed
  finally show ?case .
qed

section \<open>Word arithmetic\<close>

lemma unat_ucast_le [simp]:
  "LENGTH('a::len) \<le> LENGTH('b::len) \<Longrightarrow> unat (ucast (x :: 'a word) :: 'b word) = unat x"
proof -
  assume le: "LENGTH('a) \<le> LENGTH('b)"
  have "unat x < 2 ^ LENGTH('a)"
    by (rule unsigned_less)
  also have "(2::nat) ^ LENGTH('a) \<le> 2 ^ LENGTH('b)"
    using le by (rule power_increasing) simp
  finally have "take_bit LENGTH('b) (unat x) = unat x"
    by (simp add: take_bit_nat_eq_self_iff)
  then show ?thesis by (simp add: unsigned_ucast_eq)
qed

lemma and_masks:
  "(x :: 'a::len word) AND 15 = take_bit 4 x"
  "x AND 127 = take_bit 7 x"
  "x AND 255 = take_bit 8 x"
  "x AND 65535 = take_bit 16 x"
  by (simp_all add: take_bit_eq_mask mask_numeral)

lemma ucast_take_bit [simp]:
  "LENGTH('b) \<le> n \<Longrightarrow> ucast (take_bit n x) = (ucast (x :: 'a::len word) :: 'b::len word)"
  by (rule bit_word_eqI) (auto simp: bit_simps)

lemma foldl_index: "n = length xs \<Longrightarrow> foldl (\<lambda>a i. f a (xs ! i)) a [0..<n] = foldl f a xs"
proof (induction xs arbitrary: n rule: rev_induct)
  case Nil
  then show ?case by simp
next
  case (snoc x xs)
  have "foldl (\<lambda>a i. f a ((xs @ [x]) ! i)) a [0..<length xs] = foldl (\<lambda>a i. f a (xs ! i)) a [0..<length xs]"
    by (rule foldl_cong) (auto simp: nth_append)
  with snoc show ?case by simp
qed

lemma word_and_1_of_bool: "(x :: 'a::len word) AND 1 = of_bool (bit x 0)"
  by (rule bit_word_eqI) (auto simp: bit_simps)

lemma drop_bit_and_1: "drop_bit i x AND 1 = (of_bool (bit x i) :: 'a::len word)"
  by (simp add: word_and_1_of_bool bit_simps)

lemma bit_of_bool_word: "bit (of_bool b :: 'a::len word) n = (b \<and> n = 0)"
  by (cases b) (auto simp: bit_simps)

lemma bit_times_2: "bit (y * 2 :: 'a::len word) n \<longleftrightarrow> 0 < n \<and> n < LENGTH('a) \<and> bit y (n - 1)"
  using bit_double_iff [of y n] by (auto simp: mult.commute)

text \<open>Counting down is going through the list backwards.\<close>

lemma foldl_backwards:
  "foldl (\<lambda>x r. f (n - 1 - r) x) x [0..<n] = foldl (\<lambda>x r. f r x) x (rev [0..<n])"
proof -
  have "rev [0..<n] = map (\<lambda>r. n - 1 - r) [0..<n]"
    by (rule nth_equalityI) (auto simp: rev_nth)
  then show ?thesis by (simp add: foldl_map)
qed

section \<open>Bit arrays\<close>

text \<open>A bit of a bit array, most significant bit of each byte first.\<close>

definition arr_bit :: "u8 list \<Rightarrow> nat \<Rightarrow> bool" where
  "arr_bit arr i = bit (arr ! (i div 8)) (7 - i mod 8)"

lemma bit_index: "(i :: nat) < 8 * n \<Longrightarrow> i div 8 < n"
  by (simp add: less_mult_imp_div_less mult.commute)

lemma arr_bit_update:
  "i div 8 < length arr \<Longrightarrow>
    arr_bit (arr[i div 8 := v]) j = (if j div 8 = i div 8 then bit v (7 - j mod 8) else arr_bit arr j)"
  by (auto simp: arr_bit_def)


text \<open>The bits of a data area, least significant bit of each byte first.\<close>

definition lsb_bit :: "u8 list \<Rightarrow> nat \<Rightarrow> bool" where
  "lsb_bit data i = bit (data ! (i div 8)) (i mod 8)"

text \<open>The bytes of a data area are determined by its bits.\<close>

lemma lsb_bits_bytes:
  assumes "\<And>i. i < n \<Longrightarrow> lsb_bit xs i = lsb_bit ys i" and "8 * j + 8 \<le> n"
  shows "xs ! j = ys ! j"
proof (rule bit_eqI)
  fix k
  assume "possible_bit TYPE(8 word) k"
  then have "k < 8" by (simp add: possible_bit_def)
  then show "bit (xs ! j) k = bit (ys ! j) k"
    using assms(1) [of "8 * j + k"] assms(2) by (simp add: lsb_bit_def)
qed

section \<open>Checks, copies and loops\<close>

definition furi_check :: "bool \<Rightarrow> fault + 'a \<Rightarrow> fault + 'a" where
  "furi_check b m = (if b then m else Inl FuriCheck)"

lemma furi_check_simps [simp]: "furi_check True m = m" "furi_check False m = Inl FuriCheck"
  by (simp_all add: furi_check_def)

lemma furi_check_Inr_iff: "furi_check b m = Inr x \<longleftrightarrow> b \<and> m = Inr x"
  by (simp add: furi_check_def)

text \<open>\<^verbatim>\<open>memcpy(dst + d, src + s, n)\<close> between different arrays.\<close>

definition memcpy :: "'a list \<Rightarrow> nat \<Rightarrow> 'a list \<Rightarrow> nat \<Rightarrow> nat \<Rightarrow> fault + 'a list" where
  "memcpy dst d src s n =
     (if d + n \<le> length dst \<and> s + n \<le> length src
      then Inr (take d dst @ take n (drop s src) @ drop (d + n) dst) else Inl OutOfBounds)"

lemma memcpy_Inr:
  "d + n \<le> length dst \<Longrightarrow> s + n \<le> length src \<Longrightarrow>
    memcpy dst d src s n = Inr (take d dst @ take n (drop s src) @ drop (d + n) dst)"
  by (simp add: memcpy_def)

lemma memcpy_length: "memcpy dst d src s n = Inr dst' \<Longrightarrow> length dst' = length dst"
  by (auto simp: memcpy_def split: if_splits)

text \<open>Counting loops run over a list of indices.\<close>

fun for_each :: "('i \<Rightarrow> 's \<Rightarrow> fault + 's) \<Rightarrow> 'i list \<Rightarrow> 's \<Rightarrow> fault + 's" where
  "for_each body [] s = Inr s"
| "for_each body (i # is) s = bind_r (body i s) (for_each body is)"

lemma for_each_range:
  assumes "P k s" and "\<And>i s. k \<le> i \<Longrightarrow> i < n \<Longrightarrow> P i s \<Longrightarrow> \<exists>s'. body i s = Inr s' \<and> P (Suc i) s'" and "k \<le> n"
  shows "\<exists>s'. for_each body [k..<n] s = Inr s' \<and> P n s'"
  using assms
proof (induction "n - k" arbitrary: k s)
  case 0
  then show ?case by simp
next
  case (Suc m)
  then have k: "[k..<n] = k # [Suc k..<n]" "k < n" by (simp_all add: upt_conv_Cons)
  obtain s' where s': "body k s = Inr s'" "P (Suc k) s'"
    using Suc.prems(1,2) k(2) by blast
  have "\<exists>s''. for_each body [Suc k..<n] s' = Inr s'' \<and> P n s''"
    by (rule Suc.hyps(1)) (use Suc s' k in auto)
  then show ?case using k s' by simp
qed

lemmas for_each_upto = for_each_range [where k = 0, simplified]

end
