(* ===== verification/SubGhz_Blocks.thy ===== *)
theory SubGhz_Blocks
  imports Flipper_Prelude
begin

text \<open>
  The building blocks every Sub-GHz protocol shares: \<^verbatim>\<open>lib/toolbox/level_duration.h\<close>
  (one pulse), \<^verbatim>\<open>lib/subghz/blocks/math.h\<close> and \<^verbatim>\<open>math.c\<close> (bit access, key reversal,
  checksums), \<^verbatim>\<open>decoder.c\<close> (the shift register of a decoder) and \<^verbatim>\<open>encoder.c\<close>
  (bit arrays and their pulse trains).
\<close>

unbundle bit_operations_syntax

section \<open>Pulses\<close>

text \<open>
  \<^verbatim>\<open>LevelDuration\<close> is a 30 bit duration and a 2 bit level. A reset or wait marker
  leaves the duration uninitialised; the value found there is the argument \<open>u\<close>.
\<close>

record LevelDuration =
  ld_duration :: "30 word"
  ld_level :: "2 word"

definition level_duration_make :: "bool \<Rightarrow> u32 \<Rightarrow> LevelDuration" where
  "level_duration_make level duration =
     \<lparr>ld_duration = ucast duration, ld_level = (if level then 2 else 1)\<rparr>"

definition level_duration_reset :: "30 word \<Rightarrow> LevelDuration" where
  "level_duration_reset u = \<lparr>ld_duration = u, ld_level = 0\<rparr>"

definition level_duration_wait :: "30 word \<Rightarrow> LevelDuration" where
  "level_duration_wait u = \<lparr>ld_duration = u, ld_level = 3\<rparr>"

definition level_duration_is_reset :: "LevelDuration \<Rightarrow> bool" where
  "level_duration_is_reset ld \<longleftrightarrow> ld_level ld = 0"

definition level_duration_is_wait :: "LevelDuration \<Rightarrow> bool" where
  "level_duration_is_wait ld \<longleftrightarrow> ld_level ld = 3"

definition level_duration_get_level :: "LevelDuration \<Rightarrow> bool" where
  "level_duration_get_level ld \<longleftrightarrow> ld_level ld = 2"

definition level_duration_get_duration :: "LevelDuration \<Rightarrow> u32" where
  "level_duration_get_duration ld = ucast (ld_duration ld)"

section \<open>Bit access and durations (math.h)\<close>

definition bit_read :: "'a::len word \<Rightarrow> nat \<Rightarrow> 'a word" where
  "bit_read v i = (drop_bit i v AND 1)"

definition bit_set :: "'a::len word \<Rightarrow> nat \<Rightarrow> 'a word" where
  "bit_set v i = (v OR push_bit i 1)"

definition bit_clear :: "'a::len word \<Rightarrow> nat \<Rightarrow> 'a word" where
  "bit_clear v i = (v AND NOT (push_bit i 1))"

definition bit_write :: "'a::len word \<Rightarrow> nat \<Rightarrow> bool \<Rightarrow> 'a word" where
  "bit_write v i b = (if b then bit_set v i else bit_clear v i)"

definition duration_diff :: "u32 \<Rightarrow> u32 \<Rightarrow> u32" where
  "duration_diff x y = (if x < y then y - x else x - y)"

section \<open>Keys, parity and checksums (math.c)\<close>

definition subghz_protocol_blocks_reverse_key :: "u64 \<Rightarrow> u8 \<Rightarrow> u64" where
  "subghz_protocol_blocks_reverse_key key bit_count =
     foldl (\<lambda>r i. push_bit 1 r OR bit_read key i) 0 [0..<unat bit_count]"

definition subghz_protocol_blocks_get_parity :: "u64 \<Rightarrow> u8 \<Rightarrow> u8" where
  "subghz_protocol_blocks_get_parity key bit_count =
     (foldl (\<lambda>p i. p + ucast (bit_read key i)) 0 [0..<unat bit_count] AND 1)"

text \<open>One round of the left-shifting registers: shift, then add the polynomial if the
  top bit fell out; and of the right-shifting ones.\<close>

definition crc_shl :: "'a::len word \<Rightarrow> 'a word \<Rightarrow> 'a word" where
  "crc_shl poly r = (if bit r (LENGTH('a) - 1) then push_bit 1 r XOR poly else push_bit 1 r)"

definition crc_shr :: "'a::len word \<Rightarrow> 'a word \<Rightarrow> 'a word" where
  "crc_shr poly r = (if bit r 0 then drop_bit 1 r XOR poly else drop_bit 1 r)"

definition subghz_protocol_blocks_crc4 :: "u8 list \<Rightarrow> u8 \<Rightarrow> u8 \<Rightarrow> u8" where
  "subghz_protocol_blocks_crc4 message polynomial init =
     (drop_bit 4 (foldl (\<lambda>r m. (crc_shl (push_bit 4 polynomial) ^^ 8) (r XOR m))
        (push_bit 4 init) message) AND 0x0f)"

definition subghz_protocol_blocks_crc7 :: "u8 list \<Rightarrow> u8 \<Rightarrow> u8 \<Rightarrow> u8" where
  "subghz_protocol_blocks_crc7 message polynomial init =
     (drop_bit 1 (foldl (\<lambda>r m. (crc_shl (push_bit 1 polynomial) ^^ 8) (r XOR m))
        (push_bit 1 init) message) AND 0x7f)"

definition subghz_protocol_blocks_crc8 :: "u8 list \<Rightarrow> u8 \<Rightarrow> u8 \<Rightarrow> u8" where
  "subghz_protocol_blocks_crc8 message polynomial init =
     foldl (\<lambda>r m. (crc_shl polynomial ^^ 8) (r XOR m)) init message"

definition subghz_protocol_blocks_crc8le :: "u8 list \<Rightarrow> u8 \<Rightarrow> u8 \<Rightarrow> u8" where
  "subghz_protocol_blocks_crc8le message polynomial init =
     (let remainder = ucast (subghz_protocol_blocks_reverse_key (ucast init) 8);
          poly = ucast (subghz_protocol_blocks_reverse_key (ucast polynomial) 8)
      in foldl (\<lambda>r m. (crc_shr poly ^^ 8) (r XOR m)) remainder message)"

definition subghz_protocol_blocks_crc16lsb :: "u8 list \<Rightarrow> u16 \<Rightarrow> u16 \<Rightarrow> u16" where
  "subghz_protocol_blocks_crc16lsb message polynomial init =
     foldl (\<lambda>r m. (crc_shr polynomial ^^ 8) (r XOR ucast m)) init message"

definition subghz_protocol_blocks_crc16 :: "u8 list \<Rightarrow> u16 \<Rightarrow> u16 \<Rightarrow> u16" where
  "subghz_protocol_blocks_crc16 message polynomial init =
     foldl (\<lambda>r m. (crc_shl polynomial ^^ 8) (r XOR push_bit 8 (ucast m))) init message"

text \<open>
  The LFSR digests keep a pair of the sum and the rolling key; the bits of a byte are
  visited from bit 7 down, or from bit 0 up in the reflected variant, which also walks the
  message backwards.
\<close>

definition lfsr_round ::
    "('a::len word \<Rightarrow> 'a word) \<Rightarrow> 'a word \<times> 'a word \<Rightarrow> bool \<Rightarrow> 'a word \<times> 'a word" where
  "lfsr_round roll st b = (if b then fst st XOR snd st else fst st, roll (snd st))"

definition subghz_protocol_blocks_lfsr_digest8 :: "u8 list \<Rightarrow> u8 \<Rightarrow> u8 \<Rightarrow> u8" where
  "subghz_protocol_blocks_lfsr_digest8 message gen key =
     fst (foldl (\<lambda>st m. foldl (lfsr_round (crc_shr gen)) st (map (bit m) (rev [0..<8])))
       (0, key) message)"

definition subghz_protocol_blocks_lfsr_digest8_reflect :: "u8 list \<Rightarrow> u8 \<Rightarrow> u8 \<Rightarrow> u8" where
  "subghz_protocol_blocks_lfsr_digest8_reflect message gen key =
     fst (foldl (\<lambda>st m. foldl (lfsr_round (crc_shl gen)) st (map (bit m) [0..<8]))
       (0, key) (rev message))"

definition subghz_protocol_blocks_lfsr_digest16 :: "u8 list \<Rightarrow> u16 \<Rightarrow> u16 \<Rightarrow> u16" where
  "subghz_protocol_blocks_lfsr_digest16 message gen key =
     fst (foldl (\<lambda>st m. foldl (lfsr_round (crc_shr gen)) st (map (bit m) (rev [0..<8])))
       (0, key) message)"

definition subghz_protocol_blocks_add_bytes :: "u8 list \<Rightarrow> u8" where
  "subghz_protocol_blocks_add_bytes message =
     ucast (foldl (\<lambda>(r::u32) m. r + ucast m) 0 message)"

definition subghz_protocol_blocks_parity8 :: "u8 \<Rightarrow> u8" where
  "subghz_protocol_blocks_parity8 byte =
     (let b = (byte XOR drop_bit 4 byte) AND 0xf
      in ucast (drop_bit (unat b) (0x6996 :: u32) AND 1))"

definition subghz_protocol_blocks_parity_bytes :: "u8 list \<Rightarrow> u8" where
  "subghz_protocol_blocks_parity_bytes message =
     foldl (\<lambda>r m. r XOR subghz_protocol_blocks_parity8 m) 0 message"

definition subghz_protocol_blocks_xor_bytes :: "u8 list \<Rightarrow> u8" where
  "subghz_protocol_blocks_xor_bytes message = foldl (XOR) 0 message"

section \<open>The decoder block (decoder.c)\<close>

record SubGhzBlockDecoder =
  parser_step :: u32
  te_last :: u32
  decode_data :: u64
  decode_count_bit :: u8

definition subghz_protocol_blocks_add_bit :: "SubGhzBlockDecoder \<Rightarrow> u8 \<Rightarrow> SubGhzBlockDecoder" where
  "subghz_protocol_blocks_add_bit d b =
     d\<lparr>decode_data := push_bit 1 (decode_data d) OR ucast b,
       decode_count_bit := decode_count_bit d + 1\<rparr>"

definition subghz_protocol_blocks_add_to_128_bit ::
    "SubGhzBlockDecoder \<Rightarrow> u8 \<Rightarrow> u64 \<Rightarrow> SubGhzBlockDecoder \<times> u64" where
  "subghz_protocol_blocks_add_to_128_bit d b head =
     (let count = decode_count_bit d + 1;
          head' = (if count > 64 then push_bit 1 head OR drop_bit 63 (decode_data d) else head)
      in (d\<lparr>decode_count_bit := count,
            decode_data := push_bit 1 (decode_data d) OR ucast b\<rparr>, head'))"

text \<open>
  The hash walks the bytes of \<^verbatim>\<open>decode_data\<close> in memory order (little endian) and goes on
  into what the structure holds after them when \<open>len\<close> exceeds 8: first
  \<^verbatim>\<open>decode_count_bit\<close>, then bytes this model does not fix (\<open>tail\<close>).
\<close>

definition decoder_byte :: "SubGhzBlockDecoder \<Rightarrow> (nat \<Rightarrow> u8) \<Rightarrow> nat \<Rightarrow> u8" where
  "decoder_byte d tail i =
     (if i < 8 then ucast (drop_bit (8 * i) (decode_data d))
      else if i = 8 then decode_count_bit d else tail i)"

definition subghz_protocol_blocks_get_hash_data ::
    "SubGhzBlockDecoder \<Rightarrow> (nat \<Rightarrow> u8) \<Rightarrow> nat \<Rightarrow> u8" where
  "subghz_protocol_blocks_get_hash_data d tail len =
     foldl (\<lambda>h i. (h XOR decoder_byte d tail i) * 31) 0 [0..<len]"

section \<open>The encoder block (encoder.c)\<close>

record SubGhzProtocolBlockEncoder =
  is_running :: bool
  repeat :: nat
  front :: nat
  size_upload :: nat
  upload :: "LevelDuration list"

datatype SubGhzProtocolBlockAlignBit =
  SubGhzProtocolBlockAlignBitLeft | SubGhzProtocolBlockAlignBitRight

definition subghz_protocol_blocks_set_bit_array ::
    "bool \<Rightarrow> u8 list \<Rightarrow> nat \<Rightarrow> nat \<Rightarrow> fault + u8 list" where
  "subghz_protocol_blocks_set_bit_array bit_value data_array set_index_bit max_size_array =
     (if set_index_bit < max_size_array * 8
      then bind_r (rd data_array (set_index_bit div 8))
        (\<lambda>v. wr data_array (set_index_bit div 8) (bit_write v (7 - set_index_bit mod 8) bit_value))
      else Inl FuriCheck)"

definition subghz_protocol_blocks_get_bit_array :: "u8 list \<Rightarrow> nat \<Rightarrow> fault + bool" where
  "subghz_protocol_blocks_get_bit_array data_array read_index_bit =
     bind_r (rd data_array (read_index_bit div 8))
       (\<lambda>v. Inr (bit_read v (7 - read_index_bit mod 8) \<noteq> 0))"

text \<open>
  The pulse train of a bit array. The loop keeps the index of the next bit, the level of
  the current run and its duration; \<open>out\<close> is the part of the caller's \<^verbatim>\<open>upload\<close> written
  so far, whose length is \<^verbatim>\<open>size_upload\<close>. \<open>n\<close> is the number of iterations left.
\<close>

fun upload_run ::
    "u8 list \<Rightarrow> nat \<Rightarrow> u32 \<Rightarrow> nat \<Rightarrow> nat \<Rightarrow> bool \<Rightarrow> u32 \<Rightarrow> LevelDuration list
      \<Rightarrow> fault + LevelDuration list" where
  "upload_run arr max_size duration_bit 0 index_bit last_bit duration out =
     (if length out \<ge> max_size then Inl FuriCrash
      else bind_r (subghz_protocol_blocks_get_bit_array arr (index_bit - 1))
        (\<lambda>b. Inr (out @ [level_duration_make b duration])))"
| "upload_run arr max_size duration_bit (Suc n) index_bit last_bit duration out =
     bind_r (subghz_protocol_blocks_get_bit_array arr index_bit)
      (\<lambda>b. if last_bit = b
        then upload_run arr max_size duration_bit n (index_bit + 1) last_bit
               (duration + duration_bit) out
        else if length out \<ge> max_size then Inl FuriCrash
        else bind_r (subghz_protocol_blocks_get_bit_array arr (index_bit - 1))
          (\<lambda>p. upload_run arr max_size duration_bit n (index_bit + 1) (\<not> last_bit)
                 duration_bit (out @ [level_duration_make p duration])))"

definition align_bias :: "SubGhzProtocolBlockAlignBit \<Rightarrow> nat \<Rightarrow> nat" where
  "align_bias align_bit count_bit =
     (if align_bit = SubGhzProtocolBlockAlignBitRight \<and> count_bit mod 8 \<noteq> 0
      then 8 - count_bit mod 8 else 0)"

definition subghz_protocol_blocks_get_upload_from_bit_array ::
    "u8 list \<Rightarrow> nat \<Rightarrow> nat \<Rightarrow> u32 \<Rightarrow> SubGhzProtocolBlockAlignBit
      \<Rightarrow> fault + LevelDuration list" where
  "subghz_protocol_blocks_get_upload_from_bit_array data_array count_bit max_size_upload
      duration_bit align_bit =
     (let bias_bit = align_bias align_bit count_bit
      in bind_r (subghz_protocol_blocks_get_bit_array data_array bias_bit)
        (\<lambda>last_bit. upload_run data_array max_size_upload duration_bit (count_bit - 1)
           (bias_bit + 1) last_bit duration_bit []))"

section \<open>Facts\<close>

lemma level_duration_make_simps [simp]:
  "level_duration_get_level (level_duration_make l d) = l"
  "level_duration_get_duration (level_duration_make l d) = take_bit 30 d"
  "\<not> level_duration_is_reset (level_duration_make l d)"
  "\<not> level_duration_is_wait (level_duration_make l d)"
  by (auto simp: level_duration_get_level_def level_duration_get_duration_def
      level_duration_is_reset_def level_duration_is_wait_def level_duration_make_def
      intro!: bit_word_eqI) (auto simp: bit_simps)

lemma level_duration_reset_simps [simp]:
  "level_duration_is_reset (level_duration_reset u)"
  by (simp add: level_duration_is_reset_def level_duration_reset_def)

lemma bit_read_of_bool: "bit_read v i = of_bool (bit v i)"
  by (simp add: bit_read_def drop_bit_and_1)

lemma duration_diff_less:
  "duration_diff x y < d \<longleftrightarrow> unat x < unat y + unat d \<and> unat y < unat x + unat d"
  by (auto simp: duration_diff_def word_less_nat_alt unat_sub word_le_nat_alt split: if_splits)

lemma duration_diff_greater:
  "duration_diff x y > d \<longleftrightarrow> unat x > unat y + unat d \<or> unat y > unat x + unat d"
  by (auto simp: duration_diff_def word_less_nat_alt unat_sub word_le_nat_alt split: if_splits)

lemma reverse_key_word_of_bits:
  "subghz_protocol_blocks_reverse_key key n = word_of_bits (map (bit key) [0..<unat n])"
proof -
  have "foldl (\<lambda>r i. push_bit 1 r OR bit_read key i) a xs = foldl shift_in a (map (bit key) xs)"
    for a xs
    by (induction xs arbitrary: a) (simp_all only: foldl.simps list.map shift_in_def bit_read_of_bool)
  then show ?thesis
    by (simp only: subghz_protocol_blocks_reverse_key_def word_of_bits_def)
qed

lemma bit_reverse_key:
  "bit (subghz_protocol_blocks_reverse_key key n) i \<longleftrightarrow>
     i < 64 \<and> i < unat n \<and> bit key (unat n - 1 - i)"
  by (auto simp: reverse_key_word_of_bits bit_word_of_bits)

text \<open>Reversing a key of at most 64 bits twice gives the key back, cut to its bits.\<close>

theorem reverse_key_involution:
  assumes "n \<le> 64"
  shows "subghz_protocol_blocks_reverse_key (subghz_protocol_blocks_reverse_key key n) n
    = take_bit (unat n) key"
proof (rule bit_word_eqI)
  fix i assume "i < LENGTH(64)"
  moreover have "unat n \<le> 64"
    using assms by (simp add: word_le_nat_alt)
  ultimately show "bit (subghz_protocol_blocks_reverse_key (subghz_protocol_blocks_reverse_key key n) n) i
    = bit (take_bit (unat n) key) i"
    by (auto simp: bit_reverse_key bit_simps)
qed

lemma reverse_key_involution_witness:
  "(24 :: u8) \<le> 64 \<and>
   subghz_protocol_blocks_reverse_key (subghz_protocol_blocks_reverse_key 0xABCDEF 24) 24 = 0xABCDEF"
  using reverse_key_involution [of 24 "0xABCDEF"]
  by (simp add: take_bit_eq_mask mask_numeral)

lemma crc_shl_0 [simp]: "crc_shl p 0 = 0" "crc_shr p 0 = 0"
  by (simp_all add: crc_shl_def crc_shr_def)

lemma crc_funpow_0 [simp]: "(crc_shl p ^^ n) 0 = 0" "(crc_shr p ^^ n) 0 = 0"
  by (induction n) (simp_all)

theorem crc8_residue:
  "subghz_protocol_blocks_crc8 (message @ [subghz_protocol_blocks_crc8 message p i]) p i = 0"
  by (simp add: subghz_protocol_blocks_crc8_def)

lemma crc_shl_no_carry:
  "\<forall>j. LENGTH('a) - n \<le> j \<longrightarrow> \<not> bit r j \<Longrightarrow> n \<le> LENGTH('a) \<Longrightarrow>
     (crc_shl p ^^ n) (r :: 'a::len word) = push_bit n r"
proof (induction n)
  case 0
  then show ?case by simp
next
  case (Suc n)
  then have "(crc_shl p ^^ Suc n) r = crc_shl p (push_bit n r)" by simp
  moreover have "\<not> bit (push_bit n r) (LENGTH('a) - 1)"
    using Suc.prems by (auto simp: bit_simps)
  ultimately have "(crc_shl p ^^ Suc n) r = push_bit 1 (push_bit n r)"
    by (simp only: crc_shl_def if_False)
  then show ?case by (simp only: push_bit_push_bit plus_1_eq_Suc)
qed
lemma crc_shr_no_carry:
  "\<forall>j < n. \<not> bit r j \<Longrightarrow> n \<le> LENGTH('a) \<Longrightarrow>
     (crc_shr p ^^ n) (r :: 'a::len word) = drop_bit n r"
proof (induction n)
  case 0
  then show ?case by simp
next
  case (Suc n)
  then have "(crc_shr p ^^ Suc n) r = crc_shr p (drop_bit n r)" by simp
  moreover have "\<not> bit (drop_bit n r) 0"
    using Suc.prems by (auto simp: bit_simps)
  ultimately have "(crc_shr p ^^ Suc n) r = drop_bit 1 (drop_bit n r)"
    by (simp only: crc_shr_def if_False)
  then show ?case by (simp only: drop_bit_drop_bit plus_1_eq_Suc)
qed

text \<open>A message followed by its CRC-16, high byte first, has the CRC-16 zero: the check a
  receiver makes on a whole frame accepts what the sender computed, for every polynomial.\<close>

theorem crc16_residue:
  "(let c = subghz_protocol_blocks_crc16 message p i
    in subghz_protocol_blocks_crc16 (message @ [ucast (drop_bit 8 c), ucast c]) p i) = 0"
proof -
  define c where "c = subghz_protocol_blocks_crc16 message p i"
  have hi: "c XOR push_bit 8 (ucast (ucast (drop_bit 8 c) :: u8)) = take_bit 8 c"
    by (rule bit_word_eqI) (auto simp: bit_simps)
  have "(crc_shl p ^^ 8) (take_bit 8 c) = push_bit 8 (take_bit 8 c)"
    by (rule crc_shl_no_carry) (auto simp: bit_simps)
  moreover have "push_bit 8 (take_bit 8 c) XOR push_bit 8 (ucast (ucast c :: u8)) = 0"
    by (rule bit_word_eqI) (auto simp: bit_simps)
  ultimately show ?thesis
    using c_def hi by (simp add: Let_def subghz_protocol_blocks_crc16_def)
qed

theorem crc16lsb_residue:
  "(let c = subghz_protocol_blocks_crc16lsb message p i
    in subghz_protocol_blocks_crc16lsb (message @ [ucast c, ucast (drop_bit 8 c)]) p i) = 0"
proof -
  define c where "c = subghz_protocol_blocks_crc16lsb message p i"
  have lo: "c XOR ucast (ucast c :: u8) = push_bit 8 (drop_bit 8 c)"
    by (rule bit_word_eqI) (auto simp: bit_simps)
  have "(crc_shr p ^^ 8) (push_bit 8 (drop_bit 8 c)) = drop_bit 8 (push_bit 8 (drop_bit 8 c))"
    by (rule crc_shr_no_carry) (auto simp: bit_simps)
  moreover have "drop_bit 8 (push_bit 8 (drop_bit 8 c)) XOR ucast (ucast (drop_bit 8 c) :: u8) = 0"
    by (rule bit_word_eqI) (auto simp: bit_simps)
  ultimately show ?thesis
    using c_def lo by (simp add: Let_def subghz_protocol_blocks_crc16lsb_def)
qed

definition rev8 :: "u8 \<Rightarrow> u8" where
  "rev8 x = ucast (subghz_protocol_blocks_reverse_key (ucast x) 8)"

lemma bit_rev8: "bit (rev8 x) i \<longleftrightarrow> i < 8 \<and> bit x (7 - i)"
  by (auto simp: rev8_def bit_reverse_key bit_simps)

lemma rev8_rev8 [simp]: "rev8 (rev8 x) = x"
  by (rule bit_word_eqI) (auto simp: bit_rev8)

lemma rev8_xor: "rev8 (x XOR y) = rev8 x XOR rev8 y"
  by (rule bit_word_eqI) (auto simp: bit_rev8 bit_simps)

lemma rev8_crc_shl: "rev8 (crc_shl p r) = crc_shr (rev8 p) (rev8 r)"
proof -
  have "rev8 (push_bit 1 r) = drop_bit 1 (rev8 r)"
    by (rule bit_word_eqI) (auto simp: bit_rev8 bit_push_bit_iff bit_drop_bit_eq simp del: push_bit_Suc push_bit_0_id)
  then show ?thesis
    by (simp add: crc_shl_def crc_shr_def bit_rev8 rev8_xor)
qed

lemma rev8_crc_shl_funpow: "rev8 ((crc_shl p ^^ n) r) = (crc_shr (rev8 p) ^^ n) (rev8 r)"
  by (induction n) (simp_all add: rev8_crc_shl)

text \<open>The LSB-first CRC-8 is the bit-reflected image of the MSB-first one: on a message with
  each byte reversed it computes the reversed CRC.\<close>

theorem crc8le_is_reflected_crc8:
  "subghz_protocol_blocks_crc8le (map rev8 message) p i = rev8 (subghz_protocol_blocks_crc8 message p i)"
proof -
  have "foldl (\<lambda>r m. (crc_shr (rev8 p) ^^ 8) (r XOR m)) (rev8 r) (map rev8 message)
      = rev8 (foldl (\<lambda>r m. (crc_shl p ^^ 8) (r XOR m)) r message)" for r
    by (induction message arbitrary: r) (simp_all flip: rev8_crc_shl_funpow rev8_xor)
  then show ?thesis
    by (simp add: subghz_protocol_blocks_crc8le_def subghz_protocol_blocks_crc8_def
        flip: rev8_def)
qed

lemma add_bit_shift_in:
  "subghz_protocol_blocks_add_bit d (of_bool b) =
     d\<lparr>decode_data := shift_in (decode_data d) b, decode_count_bit := decode_count_bit d + 1\<rparr>"
  by (simp add: subghz_protocol_blocks_add_bit_def shift_in_def)

lemma parity_nibble:
  assumes "w < (16 :: u8)"
  shows "drop_bit (unat w) (0x6996 :: u32) AND 1 = of_bool (odd (length (filter (bit w) [0..<4])))"
proof -
  have "unat w \<in> set [0..<16]"
    using assms by (simp add: word_less_nat_alt)
  moreover have "list_all (\<lambda>n. drop_bit n (0x6996 :: u32) AND 1
      = of_bool (odd (length (filter (bit (word_of_nat n :: u8)) [0..<4])))) [0..<16]"
    by code_simp
  ultimately have "drop_bit (unat w) (0x6996 :: u32) AND 1
      = of_bool (odd (length (filter (bit (word_of_nat (unat w) :: u8)) [0..<4])))"
    by (simp only: list_all_iff)
  then show ?thesis by simp
qed

text \<open>The nibble table lookup of \<^verbatim>\<open>parity8\<close> computes the parity of the number of set bits
  of the byte.\<close>

theorem parity8_is_parity:
  "subghz_protocol_blocks_parity8 b = of_bool (odd (length (filter (bit b) [0..<8])))"
proof -
  define w where "w = (b XOR drop_bit 4 b) AND 0xf"
  have w: "w = take_bit 4 (b XOR drop_bit 4 b)"
    by (simp add: w_def take_bit_eq_mask mask_numeral)
  have "w < 16"
    by (simp add: w take_bit_eq_mod word_less_nat_alt unat_mod_distrib)
  then have "subghz_protocol_blocks_parity8 b = of_bool (odd (length (filter (bit w) [0..<4])))"
    by (simp add: subghz_protocol_blocks_parity8_def Let_def parity_nibble flip: w_def)
  moreover have "bit w i \<longleftrightarrow> i < 4 \<and> bit b i \<noteq> bit b (i + 4)" for i
    by (auto simp: w bit_simps add.commute)
  moreover have "[0..<4] = [0, 1, 2, 3::nat]" "[0..<8] = [0, 1, 2, 3, 4, 5, 6, 7::nat]"
    by (simp_all add: upt_rec)
  ultimately show ?thesis
    by (simp only: filter.simps) (auto simp: add.commute)
qed

text \<open>The head and the data of a 128 bit frame as one number.\<close>
definition word128 :: "SubGhzBlockDecoder \<times> u64 \<Rightarrow> 128 word" where
  "word128 st = push_bit 64 (ucast (snd st)) OR ucast (decode_data (fst st))"

definition inv128 :: "SubGhzBlockDecoder \<times> u64 \<Rightarrow> nat \<Rightarrow> bool" where
  "inv128 st n \<longleftrightarrow> unat (decode_count_bit (fst st)) = n \<and>
     (n < 64 \<longrightarrow> snd st = 0 \<and> (\<forall>i. bit (decode_data (fst st)) i \<longrightarrow> i < n))"

lemma add_to_128_step:
  assumes "inv128 (d, h) n" "n < 128"
  shows "word128 (subghz_protocol_blocks_add_to_128_bit d (of_bool b) h) = shift_in (word128 (d, h)) b"
    and "inv128 (subghz_protocol_blocks_add_to_128_bit d (of_bool b) h) (Suc n)"
proof -
  have n: "unat (decode_count_bit d + 1) = Suc n"
    using assms by (simp add: inv128_def unat_word_ariths)
  then have c: "(decode_count_bit d + 1 > 64) = (n \<ge> 64)"
    by (auto simp: word_less_nat_alt)
  have step: "subghz_protocol_blocks_add_to_128_bit d (of_bool b) h =
     (d\<lparr>decode_count_bit := decode_count_bit d + 1, decode_data := shift_in (decode_data d) b\<rparr>,
      if n \<ge> 64 then shift_in h (bit (decode_data d) 63) else h)"
  proof -
    have top: "drop_bit 63 (decode_data d) = of_bool (bit (decode_data d) 63)"
    proof (rule bit_word_eqI)
      fix n
      show "bit (drop_bit 63 (decode_data d)) n = bit (of_bool (bit (decode_data d) 63) :: u64) n"
        by (cases "n = 0") (auto simp: bit_simps dest: bit_imp_le_length)
    qed
    show ?thesis
      using c by (simp add: subghz_protocol_blocks_add_to_128_bit_def Let_def shift_in_def top)
  qed
  show "word128 (subghz_protocol_blocks_add_to_128_bit d (of_bool b) h) = shift_in (word128 (d, h)) b"
    using assms unfolding step word128_def inv128_def
    by (intro bit_word_eqI) (auto simp: bit_shift_in bit_simps dest: bit_imp_le_length)
  show "inv128 (subghz_protocol_blocks_add_to_128_bit d (of_bool b) h) (Suc n)"
    using assms n unfolding step inv128_def by (auto simp: bit_shift_in)
qed

text \<open>A decoder that collects up to 128 bits with \<^verbatim>\<open>add_to_128_bit\<close>, from cleared
  registers, holds in head and data exactly the bits received, the first one most significant.\<close>

theorem add_to_128_bit_collects:
  assumes "decode_data d = 0" and "decode_count_bit d = 0" and "length bs \<le> 128"
  shows "word128 (foldl (\<lambda>st b. subghz_protocol_blocks_add_to_128_bit (fst st) (of_bool b) (snd st))
      (d, 0) bs) = word_of_bits bs"
proof -
  have "inv128 (foldl (\<lambda>st b. subghz_protocol_blocks_add_to_128_bit (fst st) (of_bool b) (snd st))
        (d, 0) bs) (length bs) \<and>
      word128 (foldl (\<lambda>st b. subghz_protocol_blocks_add_to_128_bit (fst st) (of_bool b) (snd st))
        (d, 0) bs) = word_of_bits bs"
    using assms(3)
  proof (induction bs rule: rev_induct)
    case Nil
    show ?case
      using assms(1,2) by (simp add: inv128_def word128_def word_of_bits_def)
  next
    case (snoc b bs)
    then show ?case
      using add_to_128_step [of _ _ "length bs" b]
      by (simp add: word_of_bits_def split: prod.splits)
  qed
  then show ?thesis by blast
qed

lemma add_to_128_bit_collects_witness:
  "word128 (foldl (\<lambda>st b. subghz_protocol_blocks_add_to_128_bit (fst st) (of_bool b) (snd st))
      (\<lparr>parser_step = 0, te_last = 0, decode_data = 0, decode_count_bit = 0\<rparr>, 0)
      (replicate 70 True)) = word_of_bits (replicate 70 True)"
  using add_to_128_bit_collects
    [of "\<lparr>parser_step = 0, te_last = 0, decode_data = 0, decode_count_bit = 0\<rparr>" "replicate 70 True"]
  by simp

lemma get_bit_array_Inr [simp]:
  "i < 8 * length arr \<Longrightarrow> subghz_protocol_blocks_get_bit_array arr i = Inr (arr_bit arr i)"
  by (simp add: subghz_protocol_blocks_get_bit_array_def arr_bit_def bit_read_of_bool
      less_mult_imp_div_less mult.commute)

text \<open>The bits a pulse train spells when every bit takes \<open>te\<close>.\<close>
definition expand_upload :: "u32 \<Rightarrow> LevelDuration list \<Rightarrow> bool list" where
  "expand_upload te ups = concat (map (\<lambda>ld. replicate (unat (level_duration_get_duration ld) div unat te)
     (level_duration_get_level ld)) ups)"

lemma expand_upload_append [simp]: "expand_upload te (xs @ ys) = expand_upload te xs @ expand_upload te ys"
  by (simp add: expand_upload_def)

lemma expand_upload_single:
  assumes "0 < unat te" and "k * unat te < 2 ^ 30" and "unat duration = k * unat te"
  shows "expand_upload te [level_duration_make b duration] = replicate k b"
proof -
  have "unat (take_bit 30 duration) = k * unat te"
    using assms(2,3) by (simp add: unsigned_take_bit_eq take_bit_nat_eq_self)
  then show ?thesis
    using assms(1) by (simp add: expand_upload_def)
qed

lemma upload_run_expands:
  assumes "upload_run arr mx te n i l dur out = Inr res"
    and "0 < unat te" and "(k + n) * unat te < 2 ^ 30" and "unat dur = k * unat te"
    and "0 < i" and "i + n \<le> 8 * length arr" and "arr_bit arr (i - 1) = l"
  shows "expand_upload te res = expand_upload te out @ replicate k l @ map (arr_bit arr) [i..<i + n]"
  using assms
proof (induction n arbitrary: i l dur out k)
  case 0
  then show ?case
    by (auto simp: expand_upload_single split: if_splits)
next
  case (Suc n)
  have i: "i < 8 * length arr" "Suc i + n \<le> 8 * length arr" "[i..<i + Suc n] = i # [Suc i..<Suc i + n]"
    using Suc.prems(6) by (simp_all add: upt_conv_Cons)
  have bound: "(Suc k + n) * unat te < 2 ^ 30"
    using Suc.prems(3) by simp
  have k: "Suc k * unat te < 2 ^ 30" "k * unat te < 2 ^ 30" "(1 + n) * unat te < 2 ^ 30"
    by (rule le_less_trans [OF mult_le_mono1 bound], simp)+
  show ?case
  proof (cases "arr_bit arr i = l")
    case True
    have d: "unat (dur + te) = Suc k * unat te"
      using Suc.prems(4) k(1) by (simp add: unat_word_ariths)
    have "upload_run arr mx te n (Suc i) l (dur + te) out = Inr res"
      using Suc.prems(1) i True by simp
    from Suc.IH [OF this Suc.prems(2) bound d _ i(2)] True show ?thesis
      by (simp only: i(3)) (simp add: replicate_app_Cons_same del: upt_Suc)
  next
    case False
    have e: "expand_upload te (out @ [level_duration_make l dur]) = expand_upload te out @ replicate k l"
      using Suc.prems(2,4) k(2) by (simp add: expand_upload_single)
    have "upload_run arr mx te n (Suc i) (\<not> l) te (out @ [level_duration_make l dur]) = Inr res"
      using Suc.prems(1,5,6,7) i False by (simp split: if_splits)
    from Suc.IH [OF this Suc.prems(2) k(3) _ _ i(2)] False e show ?thesis
      by (simp only: i(3)) (simp del: upt_Suc)
  qed
qed

text \<open>Enough room: the run never overflows.\<close>
lemma upload_run_total:
  assumes "0 < i" and "i + n \<le> 8 * length arr" and "length out + n < mx"
  shows "\<exists>res. upload_run arr mx te n i l dur out = Inr res"
  using assms
proof (induction n arbitrary: i l dur out)
  case 0
  then show ?case by simp
next
  case (Suc n)
  then show ?case by simp
qed

text \<open>The pulse train generated from a bit array spells exactly the bits of the array, after
  the alignment bias: reading each pulse as \<open>duration / te\<close> copies of its level gives the bits
  back. The generator neither crashes nor overruns the upload when it has one entry per bit.\<close>

theorem upload_from_bit_array_spells_bits:
  assumes "0 < n" and "n + align_bias align n \<le> 8 * length arr" and "n \<le> mx"
    and "0 < unat te" and "n * unat te < 2 ^ 30"
  shows "\<exists>ups. subghz_protocol_blocks_get_upload_from_bit_array arr n mx te align = Inr ups \<and>
    expand_upload te ups = map (arr_bit arr) [align_bias align n..<align_bias align n + n]"
proof -
  define bias where "bias = align_bias align n"
  have "\<exists>res. upload_run arr mx te (n - 1) (bias + 1) (arr_bit arr bias) te [] = Inr res"
    using assms(1-3) by (intro upload_run_total) (auto simp: bias_def)
  then obtain ups where ups: "upload_run arr mx te (n - 1) (bias + 1) (arr_bit arr bias) te [] = Inr ups"
    by blast
  have "expand_upload te ups = expand_upload te [] @ replicate 1 (arr_bit arr bias) @
      map (arr_bit arr) [bias + 1..<bias + 1 + (n - 1)]"
    by (rule upload_run_expands [OF ups]) (use assms in \<open>auto simp: bias_def\<close>)
  also have "\<dots> = map (arr_bit arr) [bias..<bias + n]"
    using assms(1) by (simp add: expand_upload_def upt_conv_Cons [of bias] del: upt_Suc)
  finally show ?thesis
    using ups assms(1,2)
    by (simp add: subghz_protocol_blocks_get_upload_from_bit_array_def flip: bias_def)
qed

lemma upload_from_bit_array_spells_bits_witness:
  "\<exists>ups. subghz_protocol_blocks_get_upload_from_bit_array [0x0F, 0x5A] 12 12 400
      SubGhzProtocolBlockAlignBitRight = Inr ups \<and>
    expand_upload 400 ups = [True, True, True, True, False, True, False, True, True, False, True, False]"
proof -
  have "map (arr_bit [0x0F, 0x5A]) [4..<16] =
      [True, True, True, True, False, True, False, True, True, False, True, False]"
    by code_simp
  then show ?thesis
    using upload_from_bit_array_spells_bits [of 12 SubGhzProtocolBlockAlignBitRight "[0x0F, 0x5A]" 12 400]
    by (simp add: align_bias_def)
qed

end
