(* ===== verification/SubGhz_Worker.thy ===== *)
theory SubGhz_Worker
  imports SubGhz_Blocks
begin

text \<open>
  The receiving thread of the Sub-GHz stack, \<^verbatim>\<open>lib/subghz/subghz_worker.c\<close>: the interrupt
  callback that queues pulses and the filter that joins glitches before the pulses reach the
  decoders.
\<close>

unbundle bit_operations_syntax

section \<open>The pulse filter of the receiving thread (subghz_worker.c)\<close>

text \<open>
  The worker joins pulses of equal level and pulses shorter than \<^verbatim>\<open>filter_duration\<close> to the
  pulse it holds, and passes the held pulse on when the level changes. Its level field holds
  the 0 or 1 of the C boolean; the sum is cut to 30 bits.
\<close>

record SubGhzWorker =
  filter_level :: bool
  filter_sum :: "30 word"
  filter_duration :: u16

datatype worker_event = Overrun | Pair bool u32

text \<open>
  The interrupt callback queues each pulse for the thread; \<open>sent\<close> tells whether the stream
  buffer had room. After a failed send the next element queued is a reset marker in place of
  the pulse. The result is the element and the new overrun flag.
\<close>

definition subghz_worker_rx_callback ::
    "30 word \<Rightarrow> bool \<Rightarrow> bool \<Rightarrow> bool \<Rightarrow> u32 \<Rightarrow> LevelDuration \<times> bool" where
  "subghz_worker_rx_callback u sent overrun level duration =
     (let ld = (if overrun then level_duration_reset u else level_duration_make level duration)
      in (ld, if sent then (if overrun then False else overrun) else True))"

definition subghz_worker_step ::
    "SubGhzWorker \<Rightarrow> LevelDuration \<Rightarrow> SubGhzWorker \<times> worker_event list" where
  "subghz_worker_step w ld =
     (if level_duration_is_reset ld then (w, [Overrun])
      else let level = level_duration_get_level ld;
               duration = level_duration_get_duration ld
        in if duration < ucast (filter_duration w) \<or> filter_level w = level
           then (w\<lparr>filter_sum := ucast (ucast (filter_sum w) + duration)\<rparr>, [])
           else (w\<lparr>filter_sum := ucast duration, filter_level := level\<rparr>,
                 [Pair (filter_level w) (ucast (filter_sum w))]))"

fun subghz_worker_run :: "SubGhzWorker \<Rightarrow> LevelDuration list \<Rightarrow> SubGhzWorker \<times> worker_event list" where
  "subghz_worker_run w [] = (w, [])"
| "subghz_worker_run w (ld # lds) =
     (let (w1, ev1) = subghz_worker_step w ld; (w2, ev2) = subghz_worker_run w1 lds
      in (w2, ev1 @ ev2))"

section \<open>The filter keeps time and edges\<close>

text \<open>The pulses passed on alternate in level.\<close>

fun alternates :: "bool \<Rightarrow> worker_event list \<Rightarrow> bool" where
  "alternates l [] = True"
| "alternates l (Overrun # es) = alternates l es"
| "alternates l (Pair l' d # es) = (l' = l \<and> alternates (\<not> l) es)"

fun event_time :: "worker_event \<Rightarrow> nat" where
  "event_time Overrun = 0"
| "event_time (Pair l d) = unat d"

definition pulse_time :: "LevelDuration \<Rightarrow> nat" where
  "pulse_time ld = (if level_duration_is_reset ld then 0 else unat (level_duration_get_duration ld))"

lemma worker_step_time:
  assumes "unat (filter_sum w) + pulse_time ld < 2 ^ 30"
  shows "sum_list (map event_time (snd (subghz_worker_step w ld))) + unat (filter_sum (fst (subghz_worker_step w ld)))
    = unat (filter_sum w) + pulse_time ld"
proof -
  have d: "unat (ucast (level_duration_get_duration ld) :: 30 word) = unat (level_duration_get_duration ld)"
    using unsigned_less [of "ld_duration ld", where ?'a = nat]
    by (simp add: level_duration_get_duration_def unsigned_ucast_eq [of "ucast _"] take_bit_nat_eq_self)
  have s: "unat (ucast (ucast (filter_sum w) + level_duration_get_duration ld) :: 30 word)
      = unat (filter_sum w) + unat (level_duration_get_duration ld)"
    if "unat (filter_sum w) + unat (level_duration_get_duration ld) < 2 ^ 30"
    using that by (simp add: unsigned_ucast_eq unat_word_ariths take_bit_nat_eq_self)
  show ?thesis
    using assms d s by (auto simp: subghz_worker_step_def pulse_time_def Let_def)
qed

text \<open>C27 The pulse filter of the worker loses no time and no edge: whatever glitches it swallows,
  the durations it passes on and the one it holds add up to what it was given (as long as the
  total fits the 30 bit duration), and the pulses it passes on alternate in level.\<close>

theorem worker_conserves_time:
  assumes "unat (filter_sum w) + sum_list (map pulse_time lds) < 2 ^ 30"
  shows "sum_list (map event_time (snd (subghz_worker_run w lds)))
      + unat (filter_sum (fst (subghz_worker_run w lds)))
      = unat (filter_sum w) + sum_list (map pulse_time lds) \<and>
    alternates (filter_level w) (snd (subghz_worker_run w lds))"
  using assms
proof (induction lds arbitrary: w)
  case Nil
  then show ?case by simp
next
  case (Cons ld lds)
  obtain w1 ev1 where s: "subghz_worker_step w ld = (w1, ev1)" by fastforce
  obtain w2 ev2 where r: "subghz_worker_run w1 lds = (w2, ev2)" by fastforce
  have t: "sum_list (map event_time ev1) + unat (filter_sum w1) = unat (filter_sum w) + pulse_time ld"
    using worker_step_time [of w ld] Cons.prems s by simp
  have a: "alternates (filter_level w) (ev1 @ es) = alternates (filter_level w1) es" for es
    using s by (auto simp: subghz_worker_step_def Let_def split: if_splits)
  show ?case
    using Cons.IH [of w1] Cons.prems s r t a by simp
qed

lemma worker_conserves_time_witness:
  "sum_list (map event_time (snd (subghz_worker_run
      \<lparr>filter_level = False, filter_sum = 10, filter_duration = 30\<rparr>
      [level_duration_make True 400, level_duration_make False 20, level_duration_make True 5,
       level_duration_make False 700]))) + 700 = 1135 \<and>
   alternates False (snd (subghz_worker_run
      \<lparr>filter_level = False, filter_sum = 10, filter_duration = 30\<rparr>
      [level_duration_make True 400, level_duration_make False 20, level_duration_make True 5,
       level_duration_make False 700]))"
  using worker_conserves_time [of "\<lparr>filter_level = False, filter_sum = 10, filter_duration = 30\<rparr>"
      "[level_duration_make True 400, level_duration_make False 20, level_duration_make True 5,
       level_duration_make False 700]"]
  by (simp add: subghz_worker_step_def pulse_time_def take_bit_eq_mask mask_numeral)
end
