(* ===== verification/SubGhz_Common.thy ===== *)
theory SubGhz_Common
  imports SubGhz_Blocks
begin

text \<open>
  What the Sub-GHz protocols share beyond the blocks: the constant tables
  (\<^verbatim>\<open>blocks/const.h\<close>), the generic part of a frame and the global override state
  (\<^verbatim>\<open>blocks/generic.h\<close>, \<^verbatim>\<open>generic.c\<close>), the custom button state
  (\<^verbatim>\<open>blocks/custom_btn.c\<close>) and the vtable entries shared by the protocols
  (\<^verbatim>\<open>protocols/common.h\<close>, \<^verbatim>\<open>common.c\<close>). The locales state the interfaces the protocols
  meet: what a pulse decoder promises about the bits it collects (\<open>pulse_receiver\<close>), what a
  decoder framed by gaps makes of whole frames (\<open>gap_framed\<close>, \<open>gap_coded\<close>), what an upload
  generator leaves in its buffer (\<open>frame_upload\<close>), and what both sides together give
  (\<open>gap_protocol\<close>).
\<close>

unbundle bit_operations_syntax

section \<open>Data\<close>

record SubGhzBlockConst =
  te_long :: u16
  te_short :: u16
  te_delta :: u16
  min_count_bit_for_found :: u8

text \<open>The timing constants take part in 32 bit arithmetic after the C promotions.\<close>

abbreviation te_short32 :: "SubGhzBlockConst \<Rightarrow> u32" where
  "te_short32 c \<equiv> ucast (te_short c)"

abbreviation te_long32 :: "SubGhzBlockConst \<Rightarrow> u32" where
  "te_long32 c \<equiv> ucast (te_long c)"

abbreviation te_delta32 :: "SubGhzBlockConst \<Rightarrow> u32" where
  "te_delta32 c \<equiv> ucast (te_delta c)"

record SubGhzBlockGeneric =
  protocol_name :: string
  data :: u64
  data_2 :: u64
  serial :: u32
  data_count_bit :: u16
  btn :: u8
  cnt :: u32
  cnt_2 :: u8
  seed :: u32

record SubGhzProtocolDecoderCommon =
  decoder :: SubGhzBlockDecoder
  generic :: SubGhzBlockGeneric

record SubGhzProtocolEncoderCommonGeneric =
  encoder :: SubGhzProtocolBlockEncoder
  encoder_generic :: SubGhzBlockGeneric

section \<open>The global override state (generic.c) and the custom button (custom_btn.c)\<close>

record SubGhzBlockGenericGlobal =
  current_cnt :: u32
  new_cnt :: u32
  cnt_need_override :: bool
  cnt_length_bit :: u8
  cnt_is_available :: bool
  current_btn :: u8
  new_btn :: u8
  btn_need_override :: bool
  btn_length_bit :: u8
  btn_is_available :: bool
  endless_tx :: bool

definition subghz_block_generic_global_counter_override_set ::
    "u32 \<Rightarrow> SubGhzBlockGenericGlobal \<Rightarrow> SubGhzBlockGenericGlobal" where
  "subghz_block_generic_global_counter_override_set counter g =
     g\<lparr>new_cnt := counter, cnt_need_override := True\<rparr>"

text \<open>The getters return the success flag, the updated state and the updated variable.
  (A length of 0 would make the C shift count 32; the lengths in use are 1 to 32.)\<close>

definition subghz_block_generic_global_counter_override_get ::
    "u32 \<Rightarrow> SubGhzBlockGenericGlobal \<Rightarrow> bool \<times> SubGhzBlockGenericGlobal \<times> u32" where
  "subghz_block_generic_global_counter_override_get counter g =
     (if cnt_need_override g
      then (True, g\<lparr>cnt_need_override := False\<rparr>,
            new_cnt g AND drop_bit (32 - unat (cnt_length_bit g)) 0xFFFFFFFF)
      else (False, g, counter))"

definition subghz_block_generic_global_button_override_set ::
    "u8 \<Rightarrow> SubGhzBlockGenericGlobal \<Rightarrow> SubGhzBlockGenericGlobal" where
  "subghz_block_generic_global_button_override_set button g =
     g\<lparr>new_btn := button, btn_need_override := True\<rparr>"

definition subghz_block_generic_global_button_override_get ::
    "u8 \<Rightarrow> SubGhzBlockGenericGlobal \<Rightarrow> bool \<times> SubGhzBlockGenericGlobal \<times> u8" where
  "subghz_block_generic_global_button_override_get button g =
     (if btn_need_override g
      then (True, g\<lparr>btn_need_override := False\<rparr>,
            new_btn g AND drop_bit (8 - unat (btn_length_bit g)) 0xFF)
      else (False, g, button))"

definition subghz_block_generic_global_reset ::
    "SubGhzBlockGenericGlobal \<Rightarrow> SubGhzBlockGenericGlobal" where
  "subghz_block_generic_global_reset g =
     \<lparr>current_cnt = 0, new_cnt = 0, cnt_need_override = False, cnt_length_bit = 0,
      cnt_is_available = False, current_btn = 0, new_btn = 0, btn_need_override = False,
      btn_length_bit = 0, btn_is_available = False, endless_tx = endless_tx g\<rparr>"

record custom_btn =
  custom_btn_id :: u8
  custom_btn_original :: u8
  custom_btn_max_btns :: u8
  controller_programming_mode :: u8

definition subghz_custom_btn_set :: "u8 \<Rightarrow> custom_btn \<Rightarrow> bool \<times> custom_btn" where
  "subghz_custom_btn_set btn_id s =
     (if btn_id > custom_btn_max_btns s then (False, s\<lparr>custom_btn_id := 0\<rparr>)
      else (True, s\<lparr>custom_btn_id := btn_id\<rparr>))"

definition subghz_custom_btn_get :: "custom_btn \<Rightarrow> u8" where
  "subghz_custom_btn_get s = custom_btn_id s"

definition subghz_custom_btn_set_original :: "u8 \<Rightarrow> custom_btn \<Rightarrow> custom_btn" where
  "subghz_custom_btn_set_original btn_code s = s\<lparr>custom_btn_original := btn_code\<rparr>"

definition subghz_custom_btn_get_original :: "custom_btn \<Rightarrow> u8" where
  "subghz_custom_btn_get_original s = custom_btn_original s"

definition subghz_custom_btn_set_max :: "u8 \<Rightarrow> custom_btn \<Rightarrow> custom_btn" where
  "subghz_custom_btn_set_max b s = s\<lparr>custom_btn_max_btns := b\<rparr>"

definition subghz_custom_btn_set_prog_mode :: "u8 \<Rightarrow> custom_btn \<Rightarrow> custom_btn" where
  "subghz_custom_btn_set_prog_mode prog_mode s = s\<lparr>controller_programming_mode := prog_mode\<rparr>"

definition subghz_custom_btn_get_prog_mode :: "custom_btn \<Rightarrow> u8" where
  "subghz_custom_btn_get_prog_mode s = controller_programming_mode s"

definition subghz_custom_btns_reset :: custom_btn where
  "subghz_custom_btns_reset =
     \<lparr>custom_btn_id = 0, custom_btn_original = 0, custom_btn_max_btns = 0,
      controller_programming_mode = 0\<rparr>"

definition subghz_custom_btn_is_allowed :: "custom_btn \<Rightarrow> bool" where
  "subghz_custom_btn_is_allowed s \<longleftrightarrow> custom_btn_max_btns s \<noteq> 0"

section \<open>Keys in files (generic.c)\<close>

text \<open>The \<^verbatim>\<open>Key\<close> field of a file is the 64 bit key as 8 bytes, most significant first.\<close>

definition serialize_key_data :: "u64 \<Rightarrow> u8 list" where
  "serialize_key_data key =
     foldl (\<lambda>kd i. kd[8 - i - 1 := ucast (drop_bit (i * 8) key AND 0xFF)])
       (replicate 8 0) [0..<8]"

definition deserialize_key_data :: "u64 \<Rightarrow> u8 list \<Rightarrow> u64" where
  "deserialize_key_data key key_data =
     foldl (\<lambda>k i. push_bit 8 k OR ucast (key_data ! i)) key [0..<8]"

section \<open>Shared vtable entries (common.c)\<close>

text \<open>
  The firmware's \<^verbatim>\<open>malloc\<close> zero-fills the block, so an allocated decoder starts with every
  field 0 (\<^verbatim>\<open>parser_step\<close> 0 is the reset step of every protocol), and an encoder with a
  zeroed upload buffer of \<^verbatim>\<open>size_upload\<close> entries.
\<close>

definition zero_generic :: "string \<Rightarrow> SubGhzBlockGeneric" where
  "zero_generic name =
     \<lparr>protocol_name = name, data = 0, data_2 = 0, serial = 0, data_count_bit = 0, btn = 0,
      cnt = 0, cnt_2 = 0, seed = 0\<rparr>"

definition subghz_protocol_decoder_common_alloc :: "string \<Rightarrow> SubGhzProtocolDecoderCommon" where
  "subghz_protocol_decoder_common_alloc name =
     \<lparr>decoder = \<lparr>parser_step = 0, te_last = 0, decode_data = 0, decode_count_bit = 0\<rparr>,
      generic = zero_generic name\<rparr>"

definition subghz_protocol_encoder_common_alloc ::
    "string \<Rightarrow> nat \<Rightarrow> nat \<Rightarrow> SubGhzProtocolEncoderCommonGeneric" where
  "subghz_protocol_encoder_common_alloc name rep sz =
     \<lparr>encoder = \<lparr>is_running = False, repeat = rep, front = 0, size_upload = sz,
        upload = replicate sz (level_duration_reset 0)\<rparr>,
      encoder_generic = zero_generic name\<rparr>"

definition subghz_protocol_encoder_common_stop ::
    "SubGhzProtocolBlockEncoder \<Rightarrow> SubGhzProtocolBlockEncoder" where
  "subghz_protocol_encoder_common_stop e = e\<lparr>is_running := False\<rparr>"

definition subghz_protocol_encoder_common_yield ::
    "bool \<Rightarrow> 30 word \<Rightarrow> SubGhzProtocolBlockEncoder
      \<Rightarrow> fault + LevelDuration \<times> SubGhzProtocolBlockEncoder" where
  "subghz_protocol_encoder_common_yield endless u e =
     (if repeat e = 0 \<or> \<not> is_running e
      then Inr (level_duration_reset u, e\<lparr>is_running := False\<rparr>)
      else bind_r (rd (upload e) (front e)) (\<lambda>ret.
        let e1 = e\<lparr>front := front e + 1\<rparr>
        in Inr (ret,
             if front e1 = size_upload e1
             then (let e2 = (if endless then e1 else e1\<lparr>repeat := repeat e1 - 1\<rparr>)
                   in e2\<lparr>front := 0\<rparr>)
             else e1)))"

definition subghz_protocol_decoder_common_reset ::
    "'a SubGhzProtocolDecoderCommon_scheme \<Rightarrow> 'a SubGhzProtocolDecoderCommon_scheme" where
  "subghz_protocol_decoder_common_reset i = i\<lparr>decoder := (decoder i)\<lparr>parser_step := 0\<rparr>\<rparr>"

definition subghz_protocol_decoder_common_get_hash_data ::
    "'a SubGhzProtocolDecoderCommon_scheme \<Rightarrow> (nat \<Rightarrow> u8) \<Rightarrow> u8" where
  "subghz_protocol_decoder_common_get_hash_data i tail =
     subghz_protocol_blocks_get_hash_data (decoder i) tail
       (unat (decode_count_bit (decoder i)) div 8 + 1)"

section \<open>Writing an upload\<close>

text \<open>
  The upload generators write \<^verbatim>\<open>upload[index++] = ...\<close> one pulse after the other; a write
  past the allocated buffer is a fault. They first check the size the frame needs against
  \<^verbatim>\<open>size_upload\<close>, and return false without writing when it does not fit.
\<close>

fun upload_put :: "LevelDuration list \<Rightarrow> nat \<Rightarrow> LevelDuration list \<Rightarrow> fault + LevelDuration list" where
  "upload_put [] i buf = Inr buf"
| "upload_put (p # ps) i buf = bind_r (wr buf i p) (upload_put ps (Suc i))"

definition write_upload ::
    "nat \<Rightarrow> LevelDuration list \<Rightarrow> SubGhzProtocolEncoderCommonGeneric
      \<Rightarrow> fault + bool \<times> SubGhzProtocolEncoderCommonGeneric" where
  "write_upload needed pulses inst =
     (if needed > size_upload (encoder inst) then Inr (False, inst)
      else bind_r (upload_put pulses 0 (upload (encoder inst))) (\<lambda>buf.
        Inr (True, inst\<lparr>encoder := (encoder inst)\<lparr>size_upload := needed, upload := buf\<rparr>\<rparr>)))"

text \<open>The indices \<open>i\<close> of \<^verbatim>\<open>for(uint8_t i = n; i > lo; i--)\<close>, where \<open>n\<close> is a 16 bit count
  cut to 8 bits.\<close>

definition down_to :: "u16 \<Rightarrow> nat \<Rightarrow> nat list" where
  "down_to n lo = rev [Suc lo..<Suc (unat (ucast n :: u8))]"

section \<open>Reception\<close>

text \<open>
  A decoder is fed one pulse at a time. When it has a frame it calls the callback its owner
  installed with the instance and the owner's context; the callback is an argument of the
  model, \<open>None\<close> for a null pointer.
\<close>

type_synonym pulse = "bool \<times> u32"
type_synonym ('i, 'c) rx_callback = "('i \<Rightarrow> 'c \<Rightarrow> 'i \<times> 'c) option"

definition rx_notify :: "('i, 'c) rx_callback \<Rightarrow> 'i \<times> 'c \<Rightarrow> 'i \<times> 'c" where
  "rx_notify cb st = (case cb of None \<Rightarrow> st | Some f \<Rightarrow> f (fst st) (snd st))"

fun feed_all :: "('s \<Rightarrow> bool \<Rightarrow> u32 \<Rightarrow> 's) \<Rightarrow> 's \<Rightarrow> pulse list \<Rightarrow> 's" where
  "feed_all feed s [] = s"
| "feed_all feed s ((l, d) # ps) = feed_all feed (feed s l d) ps"

text \<open>The updates the decoders make, by what they do.\<close>

definition goto_step :: "u32 \<Rightarrow> 'a SubGhzProtocolDecoderCommon_scheme \<Rightarrow> 'a SubGhzProtocolDecoderCommon_scheme" where
  "goto_step step i = i\<lparr>decoder := (decoder i)\<lparr>parser_step := step\<rparr>\<rparr>"

definition save_te :: "u32 \<Rightarrow> 'a SubGhzProtocolDecoderCommon_scheme \<Rightarrow> 'a SubGhzProtocolDecoderCommon_scheme" where
  "save_te duration i = i\<lparr>decoder := (decoder i)\<lparr>te_last := duration\<rparr>\<rparr>"

definition clear_bits :: "'a SubGhzProtocolDecoderCommon_scheme \<Rightarrow> 'a SubGhzProtocolDecoderCommon_scheme" where
  "clear_bits i = i\<lparr>decoder := (decoder i)\<lparr>decode_data := 0, decode_count_bit := 0\<rparr>\<rparr>"

definition add_bit :: "bool \<Rightarrow> 'a SubGhzProtocolDecoderCommon_scheme \<Rightarrow> 'a SubGhzProtocolDecoderCommon_scheme" where
  "add_bit b i = i\<lparr>decoder := subghz_protocol_blocks_add_bit (decoder i) (of_bool b)\<rparr>"

definition take_frame :: "'a SubGhzProtocolDecoderCommon_scheme \<Rightarrow> 'a SubGhzProtocolDecoderCommon_scheme" where
  "take_frame i = i\<lparr>generic := (generic i)\<lparr>data := decode_data (decoder i),
     data_count_bit := ucast (decode_count_bit (decoder i))\<rparr>\<rparr>"

definition clear_serial_btn :: "'a SubGhzProtocolDecoderCommon_scheme \<Rightarrow> 'a SubGhzProtocolDecoderCommon_scheme" where
  "clear_serial_btn i = i\<lparr>generic := (generic i)\<lparr>serial := 0, btn := 0\<rparr>\<rparr>"

lemma add_bit_eq:
  "add_bit b i = i\<lparr>decoder := (decoder i)\<lparr>decode_data := shift_in (decode_data (decoder i)) b,
     decode_count_bit := decode_count_bit (decoder i) + 1\<rparr>\<rparr>"
  by (simp add: add_bit_def add_bit_shift_in)

lemmas decoder_updates = goto_step_def save_te_def clear_bits_def add_bit_eq take_frame_def
  clear_serial_btn_def

text \<open>A callback that records the key and the bit count of every frame.\<close>

definition log_frames ::
    "'a SubGhzProtocolDecoderCommon_scheme \<Rightarrow> (u64 \<times> u16) list
      \<Rightarrow> 'a SubGhzProtocolDecoderCommon_scheme \<times> (u64 \<times> u16) list" where
  "log_frames i log = (i, log @ [(data (generic i), data_count_bit (generic i))])"

text \<open>Views of a decoder and its log.\<close>

definition at_step :: "u32 \<Rightarrow> 'a SubGhzProtocolDecoderCommon_scheme \<times> 'c \<Rightarrow> bool" where
  "at_step step st \<longleftrightarrow> parser_step (decoder (fst st)) = step"

definition bit_regs_of :: "'a SubGhzProtocolDecoderCommon_scheme \<times> 'c \<Rightarrow> u64 \<times> u8" where
  "bit_regs_of st = (decode_data (decoder (fst st)), decode_count_bit (decoder (fst st)))"

lemmas decoder_views = at_step_def bit_regs_of_def rx_notify_def log_frames_def

text \<open>The pulses of an upload as the radio delivers them.\<close>

definition pulse_of :: "LevelDuration \<Rightarrow> pulse" where
  "pulse_of ld = (level_duration_get_level ld, level_duration_get_duration ld)"

text \<open>A received pulse train that follows a sent one with an error below \<open>\<delta>\<close> on each pulse.\<close>

definition jitter :: "u32 \<Rightarrow> pulse list \<Rightarrow> pulse list \<Rightarrow> bool" where
  "jitter \<delta> sent got = list_all2 (\<lambda>(l, d) (l', d'). l' = l \<and> duration_diff d' d < \<delta>) sent got"

section \<open>Decoders as collectors of bits\<close>

text \<open>
  The contract a pulse decoder offers: in a collecting state, the pulses of one bit shift
  this bit into the register, count it, report nothing and leave the decoder collecting.
\<close>

locale pulse_receiver =
  fixes feed :: "'s \<Rightarrow> bool \<Rightarrow> u32 \<Rightarrow> 's"
    and collecting :: "'s \<Rightarrow> bool"
    and regs :: "'s \<Rightarrow> u64 \<times> u8"
    and reports :: "'s \<Rightarrow> 'r list"
    and is_bit :: "bool \<Rightarrow> pulse list \<Rightarrow> bool"
  assumes bit_collecting: "collecting s \<Longrightarrow> is_bit b ps \<Longrightarrow> collecting (feed_all feed s ps)"
    and bit_regs: "collecting s \<Longrightarrow> is_bit b ps \<Longrightarrow>
      regs (feed_all feed s ps) = (shift_in (fst (regs s)) b, snd (regs s) + 1)"
    and bit_reports: "collecting s \<Longrightarrow> is_bit b ps \<Longrightarrow> reports (feed_all feed s ps) = reports s"

lemma feed_all_append [simp]: "feed_all feed s (ps @ qs) = feed_all feed (feed_all feed s ps) qs"
  by (induction ps arbitrary: s) auto

context pulse_receiver begin

lemma bits_run:
  assumes "collecting s" and "list_all2 is_bit bs pss"
  shows "collecting (feed_all feed s (concat pss)) \<and>
    regs (feed_all feed s (concat pss)) =
      (foldl shift_in (fst (regs s)) bs, snd (regs s) + of_nat (length bs)) \<and>
    reports (feed_all feed s (concat pss)) = reports s"
  using assms(2,1)
proof (induction arbitrary: s rule: list_all2_induct)
  case Nil
  then show ?case by simp
next
  case (Cons b bs ps pss)
  from Cons.hyps(1) Cons.prems show ?case
    using Cons.IH [of "feed_all feed s ps"]
    by (simp add: bit_collecting bit_regs bit_reports)
qed

end

text \<open>
  A decoder framed by gaps is armed by a gap, starts to collect at the start pulse and
  closes the frame at the next gap, which arms it again.
\<close>

locale gap_framed = pulse_receiver feed collecting regs reports is_bit
  for feed :: "'s \<Rightarrow> bool \<Rightarrow> u32 \<Rightarrow> 's"
    and collecting :: "'s \<Rightarrow> bool"
    and regs :: "'s \<Rightarrow> u64 \<times> u8"
    and reports :: "'s \<Rightarrow> 'r list"
    and is_bit :: "bool \<Rightarrow> pulse list \<Rightarrow> bool" +
  fixes idle :: "'s \<Rightarrow> bool"
    and armed :: "'s \<Rightarrow> bool"
    and is_gap :: "pulse \<Rightarrow> bool"
    and is_start :: "pulse \<Rightarrow> bool"
    and closes :: "u64 \<times> u8 \<Rightarrow> 'r list"
  assumes idle_gap: "idle s \<Longrightarrow> is_gap p \<Longrightarrow>
      armed (feed_all feed s [p]) \<and> reports (feed_all feed s [p]) = reports s"
    and armed_start: "armed s \<Longrightarrow> is_start p \<Longrightarrow>
      collecting (feed_all feed s [p]) \<and> regs (feed_all feed s [p]) = (0, 0) \<and>
      reports (feed_all feed s [p]) = reports s"
    and collecting_gap: "collecting s \<Longrightarrow> is_gap p \<Longrightarrow>
      armed (feed_all feed s [p]) \<and> reports (feed_all feed s [p]) = reports s @ closes (regs s)"

context gap_framed begin

text \<open>One frame: gap, start pulse, bits.\<close>

definition is_frame :: "bool list \<Rightarrow> pulse list \<Rightarrow> bool" where
  "is_frame bs ps \<longleftrightarrow> (\<exists>g s pss. ps = g # s # concat pss \<and> is_gap g \<and> is_start s \<and>
     list_all2 is_bit bs pss)"

lemma frame_from_idle:
  assumes "idle s" and "is_frame bs ps"
  shows "collecting (feed_all feed s ps) \<and>
    regs (feed_all feed s ps) = (word_of_bits bs, of_nat (length bs)) \<and>
    reports (feed_all feed s ps) = reports s"
proof -
  obtain g st pss where ps: "ps = [g] @ [st] @ concat pss" "is_gap g" "is_start st"
      "list_all2 is_bit bs pss"
    using assms(2) by (auto simp: is_frame_def)
  note ig = idle_gap [OF assms(1) ps(2)]
  note as = armed_start [OF conjunct1 [OF ig] ps(3)]
  note br = bits_run [OF conjunct1 [OF as] ps(4)]
  show ?thesis
    unfolding ps(1) feed_all_append using ig as br by (simp add: word_of_bits_def)
qed

lemma frame_from_collecting:
  assumes "collecting s" and "is_frame bs ps"
  shows "collecting (feed_all feed s ps) \<and>
    regs (feed_all feed s ps) = (word_of_bits bs, of_nat (length bs)) \<and>
    reports (feed_all feed s ps) = reports s @ closes (regs s)"
proof -
  obtain g st pss where ps: "ps = [g] @ [st] @ concat pss" "is_gap g" "is_start st"
      "list_all2 is_bit bs pss"
    using assms(2) by (auto simp: is_frame_def)
  note ig = collecting_gap [OF assms(1) ps(2)]
  note as = armed_start [OF conjunct1 [OF ig] ps(3)]
  note br = bits_run [OF conjunct1 [OF as] ps(4)]
  show ?thesis
    unfolding ps(1) feed_all_append using ig as br by (simp add: word_of_bits_def)
qed

lemma frames_from_collecting:
  assumes "collecting s" and "regs s = (word_of_bits bs, of_nat (length bs))"
    and "list_all (is_frame bs) fs"
  shows "reports (feed_all feed s (concat fs)) =
    reports s @ concat (replicate (length fs) (closes (word_of_bits bs, of_nat (length bs))))"
  using assms
proof (induction fs arbitrary: s)
  case Nil
  then show ?case by simp
next
  case (Cons f fs)
  then have f: "is_frame bs f" by simp
  note ff = frame_from_collecting [OF Cons.prems(1) f]
  with Cons.IH [of "feed_all feed s f"] Cons.prems show ?case by simp
qed

text \<open>A frame sent \<open>n + 1\<close> times is reported \<open>n\<close> times: each gap closes the frame before it.\<close>

theorem transmission:
  assumes "idle s" and "length fs = Suc n" and "list_all (is_frame bs) fs"
  shows "reports (feed_all feed s (concat fs)) =
    reports s @ concat (replicate n (closes (word_of_bits bs, of_nat (length bs))))"
proof -
  obtain f fs' where fs: "fs = f # fs'" "length fs' = n" "is_frame bs f" "list_all (is_frame bs) fs'"
    using assms(2,3) by (cases fs) auto
  note ff = frame_from_idle [OF assms(1) fs(3)]
  with frames_from_collecting [of "feed_all feed s f" bs fs'] fs show ?thesis by simp
qed

end

section \<open>Transmissions with jitter\<close>

lemma jitter_append1:
  "jitter \<delta> (xs @ ys) qs \<longleftrightarrow> (\<exists>ps rs. qs = ps @ rs \<and> jitter \<delta> xs ps \<and> jitter \<delta> ys rs)"
  by (simp add: jitter_def list_all2_append1) (metis list_all2_lengthD)

lemma jitter_Cons1:
  "jitter \<delta> ((l, d) # xs) qs \<longleftrightarrow>
    (\<exists>d' rs. qs = (l, d') # rs \<and> duration_diff d' d < \<delta> \<and> jitter \<delta> xs rs)"
  by (auto simp: jitter_def list_all2_Cons1)

lemma jitter_Nil1 [simp]: "jitter \<delta> [] qs \<longleftrightarrow> qs = []"
  by (simp add: jitter_def)

lemma jitter_concat:
  "jitter \<delta> (concat (map f xs)) qs \<Longrightarrow>
    \<exists>pss. qs = concat pss \<and> list_all2 (\<lambda>x ps. jitter \<delta> (f x) ps) xs pss"
proof (induction xs arbitrary: qs)
  case Nil
  then show ?case by (auto intro: exI [of _ "[]"])
next
  case (Cons x xs)
  then obtain ps rs where "qs = ps @ rs" "jitter \<delta> (f x) ps" "jitter \<delta> (concat (map f xs)) rs"
    by (auto simp: jitter_append1)
  moreover from Cons.IH [OF this(3)] obtain pss where
    "rs = concat pss" "list_all2 (\<lambda>x ps. jitter \<delta> (f x) ps) xs pss" by blast
  ultimately show ?case by (auto intro: exI [of _ "ps # pss"])
qed

lemma jitter_refl: "0 < \<delta> \<Longrightarrow> jitter \<delta> ps ps"
  by (auto simp: jitter_def duration_diff_def list_all2_same)

text \<open>
  A gap-framed decoder together with the pulses its encoder sends for the gap, the start and
  each bit: pulses within the tolerance \<open>tol\<close> of the nominal ones are understood.
\<close>

locale gap_coded = gap_framed feed collecting regs reports is_bit idle armed is_gap is_start closes
  for feed :: "'s \<Rightarrow> bool \<Rightarrow> u32 \<Rightarrow> 's"
    and collecting :: "'s \<Rightarrow> bool"
    and regs :: "'s \<Rightarrow> u64 \<times> u8"
    and reports :: "'s \<Rightarrow> 'r list"
    and is_bit :: "bool \<Rightarrow> pulse list \<Rightarrow> bool"
    and idle :: "'s \<Rightarrow> bool"
    and armed :: "'s \<Rightarrow> bool"
    and is_gap :: "pulse \<Rightarrow> bool"
    and is_start :: "pulse \<Rightarrow> bool"
    and closes :: "u64 \<times> u8 \<Rightarrow> 'r list" +
  fixes tol :: u32
    and sendable :: "bool list \<Rightarrow> bool"
    and gap_pulse :: "bool list \<Rightarrow> pulse"
    and start_pulse :: pulse
    and bit_pulses :: "bool \<Rightarrow> pulse list"
  assumes tol_gap: "sendable bs \<Longrightarrow> jitter tol [gap_pulse bs] [p] \<Longrightarrow> is_gap p"
    and tol_start: "jitter tol [start_pulse] [p] \<Longrightarrow> is_start p"
    and tol_bit: "jitter tol (bit_pulses b) ps \<Longrightarrow> is_bit b ps"

context gap_coded begin

lemma jitter_frame:
  assumes "sendable bs"
    and "jitter tol (gap_pulse bs # start_pulse # concat (map bit_pulses bs)) ps"
  shows "is_frame bs ps"
proof -
  have "jitter tol ([gap_pulse bs] @ [start_pulse] @ concat (map bit_pulses bs)) ps"
    using assms(2) by simp
  then obtain g s rs where ps: "ps = g @ s @ rs" "jitter tol [gap_pulse bs] g"
      "jitter tol [start_pulse] s" "jitter tol (concat (map bit_pulses bs)) rs"
    unfolding jitter_append1 by blast
  obtain pss where "rs = concat pss" "list_all2 (\<lambda>b ps. jitter tol (bit_pulses b) ps) bs pss"
    using jitter_concat [OF ps(4)] by blast
  moreover from this(2) have "list_all2 is_bit bs pss"
    by (rule list_all2_mono) (rule tol_bit)
  moreover obtain g' s' where "g = [g']" "s = [s']"
    using ps(2,3) by (auto simp: jitter_def list_all2_Cons1)
  ultimately show ?thesis
    using ps(1-3) assms(1) tol_gap tol_start unfolding is_frame_def by auto
qed

theorem noisy_transmission:
  assumes "idle s" and "sendable bs"
    and "jitter tol (concat (replicate (Suc n) (gap_pulse bs # start_pulse # concat (map bit_pulses bs)))) ps"
  shows "reports (feed_all feed s ps) =
    reports s @ concat (replicate n (closes (word_of_bits bs, of_nat (length bs))))"
proof -
  let ?up = "gap_pulse bs # start_pulse # concat (map bit_pulses bs)"
  have "jitter tol (concat (map (\<lambda>_. ?up) [0..<Suc n])) ps"
    using assms(3) by (simp only: map_replicate_const length_upt minus_nat.diff_0)
  then obtain fs where fs: "ps = concat fs" "list_all2 (\<lambda>_ f. jitter tol ?up f) [0..<Suc n] fs"
    using jitter_concat by blast
  then have "length fs = Suc n"
    by (simp only: list_all2_lengthD [symmetric] length_upt minus_nat.diff_0)
  moreover have "list_all (is_frame bs) fs"
    using fs(2) assms(2) by (auto simp: list_all2_conv_all_nth list_all_length jitter_frame)
  ultimately show ?thesis
    using transmission [OF assms(1)] fs(1) by simp
qed

end

section \<open>Uploads\<close>

lemma upload_put_spec:
  "i + length ps \<le> length buf \<Longrightarrow>
    upload_put ps i buf = Inr (take i buf @ ps @ drop (i + length ps) buf)"
proof (induction ps arbitrary: i buf)
  case Nil
  then show ?case by simp
next
  case (Cons p ps)
  then show ?case
    by (simp add: upd_conv_take_nth_drop take_Suc_conv_app_nth add.commute)
qed

text \<open>An encoder whose announced size lies within its buffer.\<close>

definition encoder_wf :: "SubGhzProtocolBlockEncoder \<Rightarrow> bool" where
  "encoder_wf e \<longleftrightarrow> size_upload e \<le> length (upload e) \<and> front e < max 1 (size_upload e)"

lemma write_upload_safe:
  assumes "encoder_wf (encoder inst)" and "length pulses = needed" and "front (encoder inst) = 0"
  shows "write_upload needed pulses inst =
    (if needed \<le> size_upload (encoder inst)
     then Inr (True, inst\<lparr>encoder := (encoder inst)\<lparr>size_upload := needed,
            upload := pulses @ drop needed (upload (encoder inst))\<rparr>\<rparr>)
     else Inr (False, inst))"
  using assms by (auto simp: write_upload_def upload_put_spec encoder_wf_def)

text \<open>The common shape of an upload: some leading pulses, then two pulses per bit.\<close>

lemma down_to_bits:
  "map (\<lambda>i. f (bit_read d (i - 1) \<noteq> 0)) (down_to n 0) = map f (bits_msb (unat (ucast n :: u8)) d)"
proof -
  have "rev [1..<Suc k] = map Suc (rev [0..<k])" for k
    by (simp only: rev_map [symmetric] map_Suc_upt One_nat_def)
  then show ?thesis
    by (simp add: down_to_def bits_msb_def bit_read_of_bool)
qed

lemma length_concat_const: "(\<And>x. x \<in> set xs \<Longrightarrow> length (f x) = k) \<Longrightarrow> length (concat (map f xs)) = k * length xs"
  by (induction xs) auto

lemma unat_ucast_8: "unat (n :: u16) < 256 \<Longrightarrow> unat (ucast n :: u8) = unat n"
  by (simp add: unsigned_ucast_eq take_bit_nat_eq_self)

lemma ucast_8_of_16: "unat (n :: u16) < 256 \<Longrightarrow> ucast (ucast n :: u8) = n"
  by (simp add: word_unat_eq_iff unat_ucast_8)

lemma write_upload_frame:
  assumes "encoder_wf (encoder inst)" and "front (encoder inst) = 0" and "size_upload (encoder inst) < 512"
    and "length lead = k" and "\<And>b. length (symbol b) = 2"
  shows "write_upload (unat n * 2 + k)
      (lead @ concat (map (\<lambda>i. symbol (bit_read d (i - 1) \<noteq> 0)) (down_to n 0))) inst =
    (if unat n * 2 + k \<le> size_upload (encoder inst)
     then Inr (True, inst\<lparr>encoder := (encoder inst)\<lparr>size_upload := unat n * 2 + k,
            upload := lead @ concat (map symbol (bits_msb (unat n) d))
                      @ drop (unat n * 2 + k) (upload (encoder inst))\<rparr>\<rparr>)
     else Inr (False, inst))"
proof (cases "unat n * 2 + k \<le> size_upload (encoder inst)")
  case True
  show ?thesis
  proof (cases "unat n < 256")
    case small: True
    have "length (lead @ concat (map symbol (bits_msb (unat n) d))) = unat n * 2 + k"
      using assms(4,5) by (simp add: length_concat_const [where k = 2])
    with True small write_upload_safe [OF assms(1) this assms(2)] show ?thesis
      unfolding down_to_bits by (simp add: unat_ucast_8)
  next
    case False
    with True assms(3) show ?thesis by simp
  qed
next
  case False
  then show ?thesis by (simp add: write_upload_def)
qed

text \<open>An encoder ready to take a frame: what allocation and a completed transmission leave.\<close>

definition encoder_ready :: "SubGhzProtocolEncoderCommonGeneric \<Rightarrow> bool" where
  "encoder_ready inst \<longleftrightarrow> encoder_wf (encoder inst) \<and> front (encoder inst) = 0 \<and>
     size_upload (encoder inst) < 512"

definition sent_pulses :: "SubGhzProtocolEncoderCommonGeneric \<Rightarrow> pulse list" where
  "sent_pulses inst = map pulse_of (take (size_upload (encoder inst)) (upload (encoder inst)))"

lemma size_upload_alloc [simp]:
  "size_upload (encoder (subghz_protocol_encoder_common_alloc name rep sz)) = sz"
  by (simp add: subghz_protocol_encoder_common_alloc_def)

lemma encoder_ready_alloc [simp]:
  "sz < 512 \<Longrightarrow> encoder_ready (subghz_protocol_encoder_common_alloc name rep sz)"
  by (simp add: encoder_ready_def encoder_wf_def subghz_protocol_encoder_common_alloc_def)

text \<open>The bits of the key of an encoder, in the order they are sent.\<close>

definition key_bits :: "SubGhzProtocolEncoderCommonGeneric \<Rightarrow> bool list" where
  "key_bits inst = bits_msb (unat (data_count_bit (encoder_generic inst))) (data (encoder_generic inst))"

lemma length_key_bits [simp]: "length (key_bits inst) = unat (data_count_bit (encoder_generic inst))"
  by (simp add: key_bits_def)

lemma of_nat_length_key_bits [simp]:
  "(of_nat (length (key_bits inst)) :: 'a::len word) = ucast (data_count_bit (encoder_generic inst))"
  by simp

text \<open>A key set on an encoder, as the deserializers do.\<close>

definition with_key ::
    "u64 \<Rightarrow> u16 \<Rightarrow> SubGhzProtocolEncoderCommonGeneric \<Rightarrow> SubGhzProtocolEncoderCommonGeneric" where
  "with_key key n inst =
     inst\<lparr>encoder_generic := (encoder_generic inst)\<lparr>data := key, data_count_bit := n\<rparr>\<rparr>"

lemma encoder_ready_with_key [simp]: "encoder_ready (with_key key n inst) = encoder_ready inst"
  by (simp add: encoder_ready_def with_key_def)

lemma with_key_simps [simp]:
  "encoder (with_key key n inst) = encoder inst"
  "data (encoder_generic (with_key key n inst)) = key"
  "data_count_bit (encoder_generic (with_key key n inst)) = n"
  by (simp_all add: with_key_def)

text \<open>
  An upload generator that writes some leading pulses and then two pulses per bit of the key.
  It cannot fault: on a ready encoder it either refuses (the frame does not fit) or leaves
  exactly the frame of the key in the buffer.
\<close>

locale frame_upload =
  fixes get_upload :: "SubGhzProtocolEncoderCommonGeneric \<Rightarrow> fault + bool \<times> SubGhzProtocolEncoderCommonGeneric"
    and lead :: "u16 \<Rightarrow> LevelDuration list"
    and lead_size :: nat
    and symbol :: "bool \<Rightarrow> LevelDuration list"
  assumes get_upload_writes: "get_upload inst =
      write_upload (unat (data_count_bit (encoder_generic inst)) * 2 + lead_size)
        (lead (data_count_bit (encoder_generic inst)) @
          concat (map (\<lambda>i. symbol (bit_read (data (encoder_generic inst)) (i - 1) \<noteq> 0))
            (down_to (data_count_bit (encoder_generic inst)) 0))) inst"
    and lead_length: "length (lead n) = lead_size"
    and symbol_length: "length (symbol b) = 2"

context frame_upload begin

definition fits :: "SubGhzProtocolEncoderCommonGeneric \<Rightarrow> bool" where
  "fits inst \<longleftrightarrow> 2 * length (key_bits inst) + lead_size \<le> size_upload (encoder inst)"

theorem upload_total:
  assumes "encoder_ready inst"
  shows "\<exists>inst'. get_upload inst = Inr (fits inst, inst') \<and> encoder_ready inst' \<and>
    encoder_generic inst' = encoder_generic inst \<and>
    (fits inst \<longrightarrow> sent_pulses inst' = map pulse_of (lead (data_count_bit (encoder_generic inst)))
       @ concat (map (map pulse_of \<circ> symbol) (key_bits inst)))"
proof -
  have r: "encoder_wf (encoder inst)" "front (encoder inst) = 0" "size_upload (encoder inst) < 512"
    using assms(1) by (simp_all add: encoder_ready_def)
  note eq = write_upload_frame [of inst "lead (data_count_bit (encoder_generic inst))" lead_size symbol,
      OF r lead_length symbol_length]
  show ?thesis
    unfolding get_upload_writes eq
    by (use r in \<open>auto simp: encoder_ready_def encoder_wf_def sent_pulses_def map_concat comp_def
        fits_def key_bits_def mult.commute lead_length symbol_length
        length_concat_const [where k = 2]\<close>)
qed

end

text \<open>
  A protocol whose encoder and decoder agree: the upload consists of the gap, the start and
  the bits the decoder understands, and the decoder starts idle.
\<close>

locale gap_protocol =
  gap_coded feed collecting regs reports is_bit idle armed is_gap is_start closes
    tol sendable gap_pulse start_pulse "map pulse_of \<circ> symbol" +
  frame_upload get_upload lead 2 symbol
  for feed :: "'s \<Rightarrow> bool \<Rightarrow> u32 \<Rightarrow> 's"
    and collecting :: "'s \<Rightarrow> bool"
    and regs :: "'s \<Rightarrow> u64 \<times> u8"
    and reports :: "'s \<Rightarrow> 'r list"
    and is_bit :: "bool \<Rightarrow> pulse list \<Rightarrow> bool"
    and idle :: "'s \<Rightarrow> bool"
    and armed :: "'s \<Rightarrow> bool"
    and is_gap :: "pulse \<Rightarrow> bool"
    and is_start :: "pulse \<Rightarrow> bool"
    and closes :: "u64 \<times> u8 \<Rightarrow> 'r list"
    and tol :: u32
    and sendable :: "bool list \<Rightarrow> bool"
    and gap_pulse :: "bool list \<Rightarrow> pulse"
    and start_pulse :: pulse
    and symbol :: "bool \<Rightarrow> LevelDuration list"
    and get_upload :: "SubGhzProtocolEncoderCommonGeneric \<Rightarrow> fault + bool \<times> SubGhzProtocolEncoderCommonGeneric"
    and lead :: "u16 \<Rightarrow> LevelDuration list" +
  fixes fresh :: 's
  assumes fresh_idle: "idle fresh"
    and lead_pulses: "sendable bs \<Longrightarrow> map pulse_of (lead (of_nat (length bs))) = [gap_pulse bs, start_pulse]"

context gap_protocol begin

theorem round_trip:
  assumes "encoder_ready inst" and "sendable (key_bits inst)" and "fits inst"
  shows "\<exists>inst'. get_upload inst = Inr (True, inst') \<and> encoder_ready inst' \<and>
    (\<forall>n ps. jitter tol (concat (replicate (Suc n) (sent_pulses inst'))) ps \<longrightarrow>
      reports (feed_all feed fresh ps) = reports fresh @ concat (replicate n
        (closes (word_of_bits (key_bits inst), of_nat (length (key_bits inst))))))"
proof -
  obtain inst' where i: "get_upload inst = Inr (True, inst')" "encoder_ready inst'"
      "sent_pulses inst' = gap_pulse (key_bits inst) # start_pulse
        # concat (map (map pulse_of \<circ> symbol) (key_bits inst))"
    using upload_total [OF assms(1)] lead_pulses [OF assms(2)] assms(3) by auto
  then show ?thesis
    using noisy_transmission [OF fresh_idle assms(2)] by metis
qed

end

text \<open>\<open>n\<close> calls of yield in a row.\<close>

fun yields :: "bool \<Rightarrow> 30 word \<Rightarrow> nat \<Rightarrow> SubGhzProtocolBlockEncoder
    \<Rightarrow> fault + LevelDuration list \<times> SubGhzProtocolBlockEncoder" where
  "yields endless u 0 e = Inr ([], e)"
| "yields endless u (Suc n) e =
     bind_r (subghz_protocol_encoder_common_yield endless u e) (\<lambda>(ld, e1).
       bind_r (yields endless u n e1) (\<lambda>(lds, e2). Inr (ld # lds, e2)))"

lemma yields_add:
  "yields endless u (m + n) e =
     bind_r (yields endless u m e) (\<lambda>(xs, e1).
       bind_r (yields endless u n e1) (\<lambda>(ys, e2). Inr (xs @ ys, e2)))"
proof (induction m arbitrary: e)
  case 0
  then show ?case by (cases "yields endless u n e") auto
next
  case (Suc m)
  show ?case
    by (cases "subghz_protocol_encoder_common_yield endless u e")
      (auto simp: Suc bind_r_def split: sum.splits)
qed

text \<open>The rest of one pass over the buffer.\<close>

lemma yields_pass:
  assumes "is_running e" and "repeat e = Suc r" and "size_upload e \<le> length (upload e)"
    and "front e + Suc n = size_upload e"
  shows "yields False u (Suc n) e =
    Inr (take (Suc n) (drop (front e) (upload e)), e\<lparr>front := 0, repeat := r\<rparr>)"
  using assms
proof (induction n arbitrary: e)
  case 0
  then show ?case
    by (simp add: subghz_protocol_encoder_common_yield_def Let_def take_Suc_conv_app_nth Cons_nth_drop_Suc [symmetric])
next
  case (Suc n)
  have "subghz_protocol_encoder_common_yield False u e = Inr (upload e ! front e, e\<lparr>front := Suc (front e)\<rparr>)"
    using Suc.prems by (simp add: subghz_protocol_encoder_common_yield_def Let_def)
  moreover have "drop (front e) (upload e) = upload e ! front e # drop (Suc (front e)) (upload e)"
    using Suc.prems by (simp add: Cons_nth_drop_Suc)
  ultimately show ?case
    using Suc.IH [of "e\<lparr>front := Suc (front e)\<rparr>"] Suc.prems by simp
qed

lemma yields_stopped:
  assumes "repeat e = 0 \<or> \<not> is_running e"
  shows "yields endless u n e =
    Inr (replicate n (level_duration_reset u), if n = 0 then e else e\<lparr>is_running := False\<rparr>)"
  using assms
  by (induction n arbitrary: e) (auto simp: subghz_protocol_encoder_common_yield_def)

text \<open>A started encoder without endless transmission hands out its upload exactly
  \<^verbatim>\<open>repeat\<close> times, pulse by pulse and in order, then only reset markers; no call reads outside
  the buffer.\<close>

theorem yield_sends_upload_repeat_times:
  assumes "is_running e" and "front e = 0" and "0 < size_upload e"
    and "size_upload e \<le> length (upload e)"
  shows "\<exists>e'. yields False u (repeat e * size_upload e + n) e =
    Inr (concat (replicate (repeat e) (take (size_upload e) (upload e)))
         @ replicate n (level_duration_reset u), e')"
  using assms
proof (induction "repeat e" arbitrary: e)
  case 0
  then show ?case by (simp add: yields_stopped)
next
  case (Suc r)
  let ?e = "e\<lparr>front := 0, repeat := r\<rparr>"
  obtain k where k: "size_upload e = Suc k"
    using Suc.prems(3) by (cases "size_upload e") auto
  have pass: "yields False u (size_upload e) e = Inr (take (size_upload e) (upload e), ?e)"
    using yields_pass [of e r k u] Suc.prems Suc.hyps(2) k by simp
  obtain e' where rest: "yields False u (r * size_upload e + n) ?e =
      Inr (concat (replicate r (take (size_upload e) (upload e))) @ replicate n (level_duration_reset u), e')"
    using Suc.hyps(1) [of ?e] Suc.prems by auto
  have n: "repeat e * size_upload e + n = size_upload e + (r * size_upload e + n)"
    using Suc.hyps(2) by (metis add.assoc mult_Suc)
  show ?case
    unfolding n by (subst yields_add) (use pass rest in \<open>simp flip: Suc.hyps(2)\<close>)
qed

lemma yield_sends_upload_repeat_times_witness:
  "\<exists>e'. yields False 0 5 \<lparr>is_running = True, repeat = 2, front = 0, size_upload = 2,
      upload = [level_duration_make True 350, level_duration_make False 700, level_duration_reset 9]\<rparr> =
    Inr ([level_duration_make True 350, level_duration_make False 700,
          level_duration_make True 350, level_duration_make False 700, level_duration_reset 0], e')"
  using yield_sends_upload_repeat_times
    [of "\<lparr>is_running = True, repeat = 2, front = 0, size_upload = 2,
      upload = [level_duration_make True 350, level_duration_make False 700, level_duration_reset 9]\<rparr>" 0 1]
  by (simp add: numeral_2_eq_2 eval_nat_numeral)

text \<open>The key field of a file read back is the key that was written, whatever the field held
  before.\<close>

theorem key_data_roundtrip:
  "deserialize_key_data k (serialize_key_data key) = key"
proof -
  have upt: "[0..<8] = [0, 1, 2, 3, 4, 5, 6, 7::nat]" by (simp add: upt_rec)
  have "serialize_key_data key = bytes_be 8 key"
    unfolding serialize_key_data_def bytes_be_def upt
    by (simp add: and_masks) (simp add: eval_nat_numeral)
  moreover have "deserialize_key_data k bs = foldl byte_in k bs" if "length bs = 8" for bs
    unfolding deserialize_key_data_def byte_in_def [abs_def]
    by (rule foldl_index) (simp add: that)
  ultimately show ?thesis
    by (simp add: foldl_byte_in_bytes take_bit_word_eq_self)
qed

end
