(* ===== verification/GateTX.thy ===== *)
theory GateTX
  imports SubGhz_Common
begin

text \<open>
  The GateTX protocol, \<^verbatim>\<open>lib/subghz/protocols/gate_tx.c\<close>: a 24 bit static code, each bit a
  low and a high pulse, framed by a long low header and a start pulse.
\<close>

unbundle bit_operations_syntax

section \<open>Model\<close>

definition subghz_protocol_gate_tx_const :: SubGhzBlockConst where
  "subghz_protocol_gate_tx_const =
     \<lparr>te_long = 700, te_short = 350, te_delta = 100, min_count_bit_for_found = 24\<rparr>"

lemma gate_tx_const [firmware_const]:
  "te_short32 subghz_protocol_gate_tx_const = 350"
  "te_long32 subghz_protocol_gate_tx_const = 700"
  "te_delta32 subghz_protocol_gate_tx_const = 100"
  "min_count_bit_for_found subghz_protocol_gate_tx_const = 24"
  by (simp_all add: subghz_protocol_gate_tx_const_def)

text \<open>\<^verbatim>\<open>GateTXDecoderStep\<close>: the values of \<^verbatim>\<open>parser_step\<close>.\<close>

abbreviation GateTXDecoderStepReset :: u32 where "GateTXDecoderStepReset \<equiv> 0"
abbreviation GateTXDecoderStepFoundStartBit :: u32 where "GateTXDecoderStepFoundStartBit \<equiv> 1"
abbreviation GateTXDecoderStepSaveDuration :: u32 where "GateTXDecoderStepSaveDuration \<equiv> 2"
abbreviation GateTXDecoderStepCheckDuration :: u32 where "GateTXDecoderStepCheckDuration \<equiv> 3"

definition subghz_protocol_encoder_gate_tx_alloc :: SubGhzProtocolEncoderCommonGeneric where
  "subghz_protocol_encoder_gate_tx_alloc = subghz_protocol_encoder_common_alloc ''GateTX'' 3 52"

definition subghz_protocol_decoder_gate_tx_alloc :: SubGhzProtocolDecoderCommon where
  "subghz_protocol_decoder_gate_tx_alloc = subghz_protocol_decoder_common_alloc ''GateTX''"

text \<open>The header and the start bit, and the two pulses of a bit.\<close>

definition gate_tx_lead :: "u16 \<Rightarrow> LevelDuration list" where
  "gate_tx_lead n =
     (let c = subghz_protocol_gate_tx_const
      in [level_duration_make False (te_short32 c * 49), level_duration_make True (te_long32 c)])"

definition gate_tx_bit :: "bool \<Rightarrow> LevelDuration list" where
  "gate_tx_bit b =
     (let c = subghz_protocol_gate_tx_const
      in if b then [level_duration_make False (te_long32 c), level_duration_make True (te_short32 c)]
         else [level_duration_make False (te_short32 c), level_duration_make True (te_long32 c)])"

definition subghz_protocol_encoder_gate_tx_get_upload ::
    "SubGhzProtocolEncoderCommonGeneric \<Rightarrow> fault + bool \<times> SubGhzProtocolEncoderCommonGeneric" where
  "subghz_protocol_encoder_gate_tx_get_upload inst =
     (let c = subghz_protocol_gate_tx_const; g = encoder_generic inst
      in write_upload (unat (data_count_bit g) * 2 + 2)
        (gate_tx_lead (data_count_bit g)
         @ concat (map (\<lambda>i. gate_tx_bit (bit_read (data g) (i - 1) \<noteq> 0))
             (down_to (data_count_bit g) 0)))
        inst)"

definition subghz_protocol_decoder_gate_tx_feed ::
    "(SubGhzProtocolDecoderCommon, 'c) rx_callback \<Rightarrow> SubGhzProtocolDecoderCommon \<times> 'c
      \<Rightarrow> bool \<Rightarrow> u32 \<Rightarrow> SubGhzProtocolDecoderCommon \<times> 'c" where
  "subghz_protocol_decoder_gate_tx_feed cb st level duration =
     (let (inst, ctx) = st; c = subghz_protocol_gate_tx_const; step = parser_step (decoder inst)
      in if step = GateTXDecoderStepReset then
           (if \<not> level \<and> duration_diff duration (te_short32 c * 47) < te_delta32 c * 47
            then (goto_step GateTXDecoderStepFoundStartBit inst, ctx) else (inst, ctx))
         else if step = GateTXDecoderStepFoundStartBit then
           (if level \<and> duration_diff duration (te_long32 c) < te_delta32 c * 3
            then (clear_bits (goto_step GateTXDecoderStepSaveDuration inst), ctx)
            else (goto_step GateTXDecoderStepReset inst, ctx))
         else if step = GateTXDecoderStepSaveDuration then
           (if \<not> level then
              (if duration \<ge> te_short32 c * 10 + te_delta32 c then
                 (let inst1 = goto_step GateTXDecoderStepFoundStartBit inst;
                      (inst2, ctx2) =
                        (if decode_count_bit (decoder inst1) = min_count_bit_for_found c
                         then rx_notify cb (take_frame inst1, ctx) else (inst1, ctx))
                  in (clear_bits inst2, ctx2))
               else (goto_step GateTXDecoderStepCheckDuration (save_te duration inst), ctx))
            else (inst, ctx))
         else if step = GateTXDecoderStepCheckDuration then
           (if level then
              (if duration_diff (te_last (decoder inst)) (te_short32 c) < te_delta32 c \<and>
                  duration_diff duration (te_long32 c) < te_delta32 c * 3
               then (goto_step GateTXDecoderStepSaveDuration (add_bit False inst), ctx)
               else if duration_diff (te_last (decoder inst)) (te_long32 c) < te_delta32 c * 3 \<and>
                  duration_diff duration (te_short32 c) < te_delta32 c
               then (goto_step GateTXDecoderStepSaveDuration (add_bit True inst), ctx)
               else (goto_step GateTXDecoderStepReset inst, ctx))
            else (goto_step GateTXDecoderStepReset inst, ctx))
         else (inst, ctx))"

definition subghz_protocol_gate_tx_check_remote_controller ::
    "SubGhzBlockGeneric \<Rightarrow> SubGhzBlockGeneric" where
  "subghz_protocol_gate_tx_check_remote_controller g =
     (let r = (ucast (subghz_protocol_blocks_reverse_key (data g) (ucast (data_count_bit g))) :: u32)
      in g\<lparr>serial := push_bit 12 (r AND 0xFF) OR push_bit 4 (drop_bit 8 r AND 0xFF)
                    OR (drop_bit 20 r AND 0x0F),
           btn := ucast (drop_bit 16 r AND 0x0F)\<rparr>)"

section \<open>Reception\<close>

definition gate_tx_closes :: "u64 \<times> u8 \<Rightarrow> (u64 \<times> u16) list" where
  "gate_tx_closes r = (if snd r = 24 then [(fst r, 24)] else [])"

definition gate_tx_is_bit :: "bool \<Rightarrow> pulse list \<Rightarrow> bool" where
  "gate_tx_is_bit b ps \<longleftrightarrow> (\<exists>dl dh. ps = [(False, dl), (True, dh)] \<and>
     (if b then duration_diff dl 700 < 100 \<and> duration_diff dh 350 < 100
      else duration_diff dl 350 < 100 \<and> duration_diff dh 700 < 100))"

lemmas gate_tx_step = subghz_protocol_decoder_gate_tx_feed_def firmware_const decoder_updates
  decoder_views duration_diff_less word_le_nat_alt gate_tx_closes_def gate_tx_is_bit_def

lemma length_gate_tx_bit [simp]: "length (gate_tx_bit b) = 2"
  by (simp add: gate_tx_bit_def Let_def)

interpretation gate_tx: gap_protocol
  "subghz_protocol_decoder_gate_tx_feed (Some log_frames)"
  "at_step GateTXDecoderStepSaveDuration" bit_regs_of snd gate_tx_is_bit
  "at_step GateTXDecoderStepReset" "at_step GateTXDecoderStepFoundStartBit"
  "\<lambda>p. \<not> fst p \<and> duration_diff (snd p) 16450 < 4700"
  "\<lambda>p. fst p \<and> duration_diff (snd p) 700 < 300"
  gate_tx_closes 100 "\<lambda>bs. True" "\<lambda>bs. (False, 17150)" "(True, 700)" gate_tx_bit
  subghz_protocol_encoder_gate_tx_get_upload gate_tx_lead "(subghz_protocol_decoder_gate_tx_alloc, [])"
  by unfold_locales (auto simp: gate_tx_step gate_tx_bit_def gate_tx_lead_def pulse_of_def
      jitter_Cons1 subghz_protocol_encoder_gate_tx_get_upload_def
      subghz_protocol_decoder_gate_tx_alloc_def subghz_protocol_decoder_common_alloc_def Let_def
      split: if_splits)

section \<open>Properties\<close>

text \<open>GateTX: from a ready encoder with room for it, the upload of a 24 bit key is generated
  without fault; sent \<open>n + 1\<close> times in a row, with each pulse off by less than
  \<^verbatim>\<open>te_delta\<close>, it makes a fresh decoder report \<open>n\<close> frames, each the 24 bit key.\<close>

theorem gate_tx_transmission_received:
  assumes "encoder_ready inst" and "data_count_bit (encoder_generic inst) = 24"
    and "50 \<le> size_upload (encoder inst)"
  shows "\<exists>inst'. subghz_protocol_encoder_gate_tx_get_upload inst = Inr (True, inst') \<and>
    encoder_ready inst' \<and>
    (\<forall>n ps. jitter 100 (concat (replicate (Suc n) (sent_pulses inst'))) ps \<longrightarrow>
      snd (feed_all (subghz_protocol_decoder_gate_tx_feed (Some log_frames))
        (subghz_protocol_decoder_gate_tx_alloc, []) ps) =
      replicate n (take_bit 24 (data (encoder_generic inst)), 24))"
  using gate_tx.round_trip [of inst] assms
  by (simp add: gate_tx.fits_def gate_tx_closes_def key_bits_def word_of_bits_msb
      concat_replicate_single)

lemma gate_tx_transmission_received_witness:
  "\<exists>inst'. subghz_protocol_encoder_gate_tx_get_upload
      (with_key 0xABCDEF 24 subghz_protocol_encoder_gate_tx_alloc) = Inr (True, inst') \<and>
    snd (feed_all (subghz_protocol_decoder_gate_tx_feed (Some log_frames))
        (subghz_protocol_decoder_gate_tx_alloc, []) (concat (replicate (Suc 2) (sent_pulses inst')))) =
      replicate 2 (0xABCDEF, 24)"
proof -
  have t: "take_bit 24 (0xABCDEF :: u64) = 0xABCDEF" by code_simp
  have j: "jitter 100 ps ps" for ps by (rule jitter_refl) code_simp
  from gate_tx_transmission_received [of "with_key 0xABCDEF 24 subghz_protocol_encoder_gate_tx_alloc"] j
  show ?thesis
    by (auto simp: subghz_protocol_encoder_gate_tx_alloc_def t simp del: replicate_Suc)
qed

end
