(* ===== verification/Came.thy ===== *)
theory Came
  imports SubGhz_Common
begin

text \<open>
  The CAME protocol with its Prastel and Airforce variants,
  \<^verbatim>\<open>lib/subghz/protocols/came.c\<close>: 12, 18, 24, 25 or 42 bits, with a header whose length
  depends on the number of bits.
\<close>

unbundle bit_operations_syntax

section \<open>Model\<close>

definition subghz_protocol_came_const :: SubGhzBlockConst where
  "subghz_protocol_came_const =
     \<lparr>te_long = 640, te_short = 320, te_delta = 150, min_count_bit_for_found = 12\<rparr>"

lemma came_const [firmware_const]:
  "te_short32 subghz_protocol_came_const = 320"
  "te_long32 subghz_protocol_came_const = 640"
  "te_delta32 subghz_protocol_came_const = 150"
  "min_count_bit_for_found subghz_protocol_came_const = 12"
  by (simp_all add: subghz_protocol_came_const_def)

abbreviation CameDecoderStepReset :: u32 where "CameDecoderStepReset \<equiv> 0"
abbreviation CameDecoderStepFoundStartBit :: u32 where "CameDecoderStepFoundStartBit \<equiv> 1"
abbreviation CameDecoderStepSaveDuration :: u32 where "CameDecoderStepSaveDuration \<equiv> 2"
abbreviation CameDecoderStepCheckDuration :: u32 where "CameDecoderStepCheckDuration \<equiv> 3"

definition subghz_protocol_encoder_came_alloc :: SubGhzProtocolEncoderCommonGeneric where
  "subghz_protocol_encoder_came_alloc = subghz_protocol_encoder_common_alloc ''CAME'' 3 128"

definition subghz_protocol_decoder_came_alloc :: SubGhzProtocolDecoderCommon where
  "subghz_protocol_decoder_came_alloc = subghz_protocol_decoder_common_alloc ''CAME''"

definition came_header_te :: "u16 \<Rightarrow> u32" where
  "came_header_te count =
     (if count = 24 \<or> count = 42 then 76
      else if count = 12 \<or> count = 18 then 47
      else if count = 25 then 36
      else 16)"

text \<open>The header, whose length depends on the number of bits, and the start bit; and the two
  pulses of a bit.\<close>

definition came_lead :: "u16 \<Rightarrow> LevelDuration list" where
  "came_lead n =
     (let c = subghz_protocol_came_const
      in [level_duration_make False (te_short32 c * came_header_te n),
          level_duration_make True (te_short32 c)])"

definition came_bit :: "bool \<Rightarrow> LevelDuration list" where
  "came_bit b =
     (let c = subghz_protocol_came_const
      in if b then [level_duration_make False (te_long32 c), level_duration_make True (te_short32 c)]
         else [level_duration_make False (te_short32 c), level_duration_make True (te_long32 c)])"

definition subghz_protocol_encoder_came_get_upload ::
    "SubGhzProtocolEncoderCommonGeneric \<Rightarrow> fault + bool \<times> SubGhzProtocolEncoderCommonGeneric" where
  "subghz_protocol_encoder_came_get_upload inst =
     (let c = subghz_protocol_came_const; g = encoder_generic inst
      in write_upload (unat (data_count_bit g) * 2 + 2)
        (came_lead (data_count_bit g)
         @ concat (map (\<lambda>i. came_bit (bit_read (data g) (i - 1) \<noteq> 0))
             (down_to (data_count_bit g) 0)))
        inst)"

definition subghz_protocol_decoder_came_feed ::
    "(SubGhzProtocolDecoderCommon, 'c) rx_callback \<Rightarrow> SubGhzProtocolDecoderCommon \<times> 'c
      \<Rightarrow> bool \<Rightarrow> u32 \<Rightarrow> SubGhzProtocolDecoderCommon \<times> 'c" where
  "subghz_protocol_decoder_came_feed cb st level duration =
     (let (inst, ctx) = st; c = subghz_protocol_came_const; step = parser_step (decoder inst)
      in if step = CameDecoderStepReset then
           (if \<not> level \<and> duration_diff duration (te_short32 c * 56) < te_delta32 c * 63
            then (goto_step CameDecoderStepFoundStartBit inst, ctx) else (inst, ctx))
         else if step = CameDecoderStepFoundStartBit then
           (if \<not> level then (inst, ctx)
            else if duration_diff duration (te_short32 c) < te_delta32 c
            then (clear_bits (goto_step CameDecoderStepSaveDuration inst), ctx)
            else (goto_step CameDecoderStepReset inst, ctx))
         else if step = CameDecoderStepSaveDuration then
           (if \<not> level then
              (if duration \<ge> te_short32 c * 4 then
                 (let inst1 = goto_step CameDecoderStepFoundStartBit inst;
                      n = decode_count_bit (decoder inst1)
                  in if n = min_count_bit_for_found c \<or> n = 18 \<or> n = 25 \<or> n = 42 \<or> n = 24
                     then rx_notify cb (take_frame (clear_serial_btn inst1), ctx)
                     else (inst1, ctx))
               else (goto_step CameDecoderStepCheckDuration (save_te duration inst), ctx))
            else (goto_step CameDecoderStepReset inst, ctx))
         else if step = CameDecoderStepCheckDuration then
           (if level then
              (if duration_diff (te_last (decoder inst)) (te_short32 c) < te_delta32 c \<and>
                  duration_diff duration (te_long32 c) < te_delta32 c
               then (goto_step CameDecoderStepSaveDuration (add_bit False inst), ctx)
               else if duration_diff (te_last (decoder inst)) (te_long32 c) < te_delta32 c \<and>
                  duration_diff duration (te_short32 c) < te_delta32 c
               then (goto_step CameDecoderStepSaveDuration (add_bit True inst), ctx)
               else (goto_step CameDecoderStepReset inst, ctx))
            else (goto_step CameDecoderStepReset inst, ctx))
         else (inst, ctx))"

section \<open>Reception\<close>

definition came_closes :: "u64 \<times> u8 \<Rightarrow> (u64 \<times> u16) list" where
  "came_closes r = (if snd r \<in> {12, 18, 24, 25, 42} then [(fst r, ucast (snd r))] else [])"

definition came_is_bit :: "bool \<Rightarrow> pulse list \<Rightarrow> bool" where
  "came_is_bit b ps \<longleftrightarrow> (\<exists>dl dh. ps = [(False, dl), (True, dh)] \<and>
     (if b then duration_diff dl 640 < 150 \<and> duration_diff dh 320 < 150
      else duration_diff dl 320 < 150 \<and> duration_diff dh 640 < 150))"

definition came_count :: "nat \<Rightarrow> bool" where
  "came_count n \<longleftrightarrow> n \<in> {12, 18, 24, 25, 42}"

lemma length_came_bit [simp]: "length (came_bit b) = 2"
  by (simp add: came_bit_def Let_def)

lemmas came_step = subghz_protocol_decoder_came_feed_def firmware_const decoder_updates
  decoder_views duration_diff_less word_le_nat_alt came_closes_def came_is_bit_def

interpretation came: gap_protocol
  "subghz_protocol_decoder_came_feed (Some log_frames)"
  "at_step CameDecoderStepSaveDuration" bit_regs_of snd came_is_bit
  "at_step CameDecoderStepReset" "at_step CameDecoderStepFoundStartBit"
  "\<lambda>p. \<not> fst p \<and> duration_diff (snd p) 17920 < 9450"
  "\<lambda>p. fst p \<and> duration_diff (snd p) 320 < 150"
  came_closes 150 "\<lambda>bs. came_count (length bs)" "\<lambda>bs. (False, 320 * came_header_te (of_nat (length bs)))" "(True, 320)" came_bit
  subghz_protocol_encoder_came_get_upload came_lead "(subghz_protocol_decoder_came_alloc, [])"
  by unfold_locales (auto simp: came_step came_bit_def came_lead_def pulse_of_def
      jitter_Cons1 subghz_protocol_encoder_came_get_upload_def
      subghz_protocol_decoder_came_alloc_def subghz_protocol_decoder_common_alloc_def Let_def
      came_count_def came_header_te_def
      split: if_splits)

section \<open>Properties\<close>

text \<open>A transmission and its reception, as the codec's contract gives them.\<close>

lemma came_reception:
  assumes "encoder_ready inst" and "data_count_bit (encoder_generic inst) \<in> {12, 18, 24, 25, 42}"
    and "2 * unat (data_count_bit (encoder_generic inst)) + 2 \<le> size_upload (encoder inst)"
  shows "\<exists>inst'. subghz_protocol_encoder_came_get_upload inst = Inr (True, inst') \<and>
    encoder_ready inst' \<and>
    (\<forall>n ps. jitter 150 (concat (replicate (Suc n) (sent_pulses inst'))) ps \<longrightarrow>
      snd (feed_all (subghz_protocol_decoder_came_feed (Some log_frames))
        (subghz_protocol_decoder_came_alloc, []) ps) =
      replicate n (take_bit (unat (data_count_bit (encoder_generic inst))) (data (encoder_generic inst)),
        data_count_bit (encoder_generic inst)))"
proof -
  have "came_count (length (key_bits inst))"
    using assms(2) by (auto simp: came_count_def)
  from came.round_trip [OF assms(1) this] assms show ?thesis
    by (auto simp: came.fits_def came_closes_def key_bits_def word_of_bits_msb concat_replicate_single)
qed

text \<open>CAME: from a ready encoder with room for it, the upload of a key of 12, 18, 24, 25 or
  42 bits is generated without fault; sent \<open>n + 1\<close> times in a row, with each pulse off by less
  than \<^verbatim>\<open>te_delta\<close>, it makes a fresh decoder report \<open>n\<close> frames, each the key
  with its bit count.\<close>

theorem came_transmission_received:
  assumes "encoder_ready inst" and "data_count_bit (encoder_generic inst) \<in> {12, 18, 24, 25, 42}"
    and "2 * unat (data_count_bit (encoder_generic inst)) + 2 \<le> size_upload (encoder inst)"
  shows "\<exists>inst'. subghz_protocol_encoder_came_get_upload inst = Inr (True, inst') \<and>
    encoder_ready inst' \<and>
    (\<forall>n ps. jitter 150 (concat (replicate (Suc n) (sent_pulses inst'))) ps \<longrightarrow>
      snd (feed_all (subghz_protocol_decoder_came_feed (Some log_frames))
        (subghz_protocol_decoder_came_alloc, []) ps) =
      replicate n (take_bit (unat (data_count_bit (encoder_generic inst))) (data (encoder_generic inst)),
        data_count_bit (encoder_generic inst)))"
  using assms by (rule came_reception)

lemma came_transmission_received_witness:
  "\<exists>inst'. subghz_protocol_encoder_came_get_upload
      (with_key 0xABCDEF 24 subghz_protocol_encoder_came_alloc) = Inr (True, inst') \<and>
    snd (feed_all (subghz_protocol_decoder_came_feed (Some log_frames))
        (subghz_protocol_decoder_came_alloc, []) (concat (replicate (Suc 2) (sent_pulses inst')))) =
      replicate 2 (0xABCDEF, 24)"
proof -
  have t: "take_bit 24 (0xABCDEF :: u64) = 0xABCDEF" by code_simp
  have j: "jitter 150 ps ps" for ps by (rule jitter_refl) code_simp
  from came_transmission_received [of "with_key 0xABCDEF 24 subghz_protocol_encoder_came_alloc"] j
  show ?thesis
    by (auto simp: subghz_protocol_encoder_came_alloc_def t simp del: replicate_Suc)
qed

end
