(* ===== verification/NiceFlo.thy ===== *)
theory NiceFlo
  imports SubGhz_Common
begin

text \<open>
  The Nice FLO protocol, \<^verbatim>\<open>lib/subghz/protocols/nice_flo.c\<close>: 12 to 24 bits, two pulses per
  bit; the decoder reports any frame of at least 12 bits.
\<close>

unbundle bit_operations_syntax

section \<open>Model\<close>

definition subghz_protocol_nice_flo_const :: SubGhzBlockConst where
  "subghz_protocol_nice_flo_const =
     \<lparr>te_long = 1400, te_short = 700, te_delta = 250, min_count_bit_for_found = 12\<rparr>"

lemma nice_flo_const [firmware_const]:
  "te_short32 subghz_protocol_nice_flo_const = 700"
  "te_long32 subghz_protocol_nice_flo_const = 1400"
  "te_delta32 subghz_protocol_nice_flo_const = 250"
  "min_count_bit_for_found subghz_protocol_nice_flo_const = 12"
  by (simp_all add: subghz_protocol_nice_flo_const_def)

abbreviation NiceFloDecoderStepReset :: u32 where "NiceFloDecoderStepReset \<equiv> 0"
abbreviation NiceFloDecoderStepFoundStartBit :: u32 where "NiceFloDecoderStepFoundStartBit \<equiv> 1"
abbreviation NiceFloDecoderStepSaveDuration :: u32 where "NiceFloDecoderStepSaveDuration \<equiv> 2"
abbreviation NiceFloDecoderStepCheckDuration :: u32 where "NiceFloDecoderStepCheckDuration \<equiv> 3"

definition subghz_protocol_encoder_nice_flo_alloc :: SubGhzProtocolEncoderCommonGeneric where
  "subghz_protocol_encoder_nice_flo_alloc = subghz_protocol_encoder_common_alloc ''Nice FLO'' 3 52"

definition subghz_protocol_decoder_nice_flo_alloc :: SubGhzProtocolDecoderCommon where
  "subghz_protocol_decoder_nice_flo_alloc = subghz_protocol_decoder_common_alloc ''Nice FLO''"

text \<open>The header and the start bit, and the two pulses of a bit.\<close>

definition nice_flo_lead :: "u16 \<Rightarrow> LevelDuration list" where
  "nice_flo_lead n =
     (let c = subghz_protocol_nice_flo_const
      in [level_duration_make False (te_short32 c * 36), level_duration_make True (te_short32 c)])"

definition nice_flo_bit :: "bool \<Rightarrow> LevelDuration list" where
  "nice_flo_bit b =
     (let c = subghz_protocol_nice_flo_const
      in if b then [level_duration_make False (te_long32 c), level_duration_make True (te_short32 c)]
         else [level_duration_make False (te_short32 c), level_duration_make True (te_long32 c)])"

definition subghz_protocol_encoder_nice_flo_get_upload ::
    "SubGhzProtocolEncoderCommonGeneric \<Rightarrow> fault + bool \<times> SubGhzProtocolEncoderCommonGeneric" where
  "subghz_protocol_encoder_nice_flo_get_upload inst =
     (let g = encoder_generic inst
      in write_upload (unat (data_count_bit g) * 2 + 2)
        (nice_flo_lead (data_count_bit g)
         @ concat (map (\<lambda>i. nice_flo_bit (bit_read (data g) (i - 1) \<noteq> 0))
             (down_to (data_count_bit g) 0)))
        inst)"

definition subghz_protocol_decoder_nice_flo_feed ::
    "(SubGhzProtocolDecoderCommon, 'c) rx_callback \<Rightarrow> SubGhzProtocolDecoderCommon \<times> 'c
      \<Rightarrow> bool \<Rightarrow> u32 \<Rightarrow> SubGhzProtocolDecoderCommon \<times> 'c" where
  "subghz_protocol_decoder_nice_flo_feed cb st level duration =
     (let (inst, ctx) = st; c = subghz_protocol_nice_flo_const; step = parser_step (decoder inst)
      in if step = NiceFloDecoderStepReset then
           (if \<not> level \<and> duration_diff duration (te_short32 c * 36) < te_delta32 c * 29
            then (goto_step NiceFloDecoderStepFoundStartBit inst, ctx) else (inst, ctx))
         else if step = NiceFloDecoderStepFoundStartBit then
           (if \<not> level then (inst, ctx)
            else if duration_diff duration (te_short32 c) < te_delta32 c
            then (clear_bits (goto_step NiceFloDecoderStepSaveDuration inst), ctx)
            else (goto_step NiceFloDecoderStepReset inst, ctx))
         else if step = NiceFloDecoderStepSaveDuration then
           (if \<not> level then
              (if duration \<ge> te_short32 c * 4 then
                 (let inst1 = goto_step NiceFloDecoderStepFoundStartBit inst
                  in if decode_count_bit (decoder inst1) \<ge> min_count_bit_for_found c
                     then rx_notify cb (take_frame (clear_serial_btn inst1), ctx)
                     else (inst1, ctx))
               else (goto_step NiceFloDecoderStepCheckDuration (save_te duration inst), ctx))
            else (goto_step NiceFloDecoderStepReset inst, ctx))
         else if step = NiceFloDecoderStepCheckDuration then
           (if level then
              (if duration_diff (te_last (decoder inst)) (te_short32 c) < te_delta32 c \<and>
                  duration_diff duration (te_long32 c) < te_delta32 c
               then (goto_step NiceFloDecoderStepSaveDuration (add_bit False inst), ctx)
               else if duration_diff (te_last (decoder inst)) (te_long32 c) < te_delta32 c \<and>
                  duration_diff duration (te_short32 c) < te_delta32 c
               then (goto_step NiceFloDecoderStepSaveDuration (add_bit True inst), ctx)
               else (goto_step NiceFloDecoderStepReset inst, ctx))
            else (goto_step NiceFloDecoderStepReset inst, ctx))
         else (inst, ctx))"

section \<open>Reception\<close>

definition nice_flo_closes :: "u64 \<times> u8 \<Rightarrow> (u64 \<times> u16) list" where
  "nice_flo_closes r = (if snd r \<ge> 12 then [(fst r, ucast (snd r))] else [])"

definition nice_flo_is_bit :: "bool \<Rightarrow> pulse list \<Rightarrow> bool" where
  "nice_flo_is_bit b ps \<longleftrightarrow> (\<exists>dl dh. ps = [(False, dl), (True, dh)] \<and>
     (if b then duration_diff dl 1400 < 250 \<and> duration_diff dh 700 < 250
      else duration_diff dl 700 < 250 \<and> duration_diff dh 1400 < 250))"

lemma length_nice_flo_bit [simp]: "length (nice_flo_bit b) = 2"
  by (simp add: nice_flo_bit_def Let_def)

lemmas nice_flo_step = subghz_protocol_decoder_nice_flo_feed_def firmware_const decoder_updates
  decoder_views duration_diff_less word_le_nat_alt nice_flo_closes_def nice_flo_is_bit_def

interpretation nice_flo: gap_protocol
  "subghz_protocol_decoder_nice_flo_feed (Some log_frames)"
  "at_step NiceFloDecoderStepSaveDuration" bit_regs_of snd nice_flo_is_bit
  "at_step NiceFloDecoderStepReset" "at_step NiceFloDecoderStepFoundStartBit"
  "\<lambda>p. \<not> fst p \<and> duration_diff (snd p) 25200 < 7250"
  "\<lambda>p. fst p \<and> duration_diff (snd p) 700 < 250"
  nice_flo_closes 250 "\<lambda>bs. True" "\<lambda>bs. (False, 25200)" "(True, 700)" nice_flo_bit
  subghz_protocol_encoder_nice_flo_get_upload nice_flo_lead "(subghz_protocol_decoder_nice_flo_alloc, [])"
  by unfold_locales (auto simp: nice_flo_step nice_flo_bit_def nice_flo_lead_def pulse_of_def
      jitter_Cons1 subghz_protocol_encoder_nice_flo_get_upload_def
      subghz_protocol_decoder_nice_flo_alloc_def subghz_protocol_decoder_common_alloc_def Let_def
      split: if_splits)

section \<open>Properties\<close>

text \<open>Nice FLO: from a ready encoder with room for it, the upload of a key of 12 to 24 bits is
  generated without fault; sent \<open>n + 1\<close> times in a row, with each pulse off by less than
  \<^verbatim>\<open>te_delta\<close>, it makes a fresh decoder report \<open>n\<close> frames, each the key with its bit count.\<close>

theorem nice_flo_transmission_received:
  assumes "encoder_ready inst" and "12 \<le> data_count_bit (encoder_generic inst)"
    and "data_count_bit (encoder_generic inst) \<le> 24"
    and "2 * unat (data_count_bit (encoder_generic inst)) + 2 \<le> size_upload (encoder inst)"
  shows "\<exists>inst'. subghz_protocol_encoder_nice_flo_get_upload inst = Inr (True, inst') \<and>
    encoder_ready inst' \<and>
    (\<forall>n ps. jitter 250 (concat (replicate (Suc n) (sent_pulses inst'))) ps \<longrightarrow>
      snd (feed_all (subghz_protocol_decoder_nice_flo_feed (Some log_frames))
        (subghz_protocol_decoder_nice_flo_alloc, []) ps) =
      replicate n (take_bit (unat (data_count_bit (encoder_generic inst))) (data (encoder_generic inst)),
        data_count_bit (encoder_generic inst)))"
proof -
  have "(12 :: u8) \<le> ucast (data_count_bit (encoder_generic inst))"
      "ucast (ucast (data_count_bit (encoder_generic inst)) :: u8) = data_count_bit (encoder_generic inst)"
    using ucast_8_of_16 [of "data_count_bit (encoder_generic inst)"] assms(2,3)
    by (auto simp: word_le_nat_alt unat_ucast_8)
  with nice_flo.round_trip [OF assms(1)] assms(4) show ?thesis
    by (simp add: nice_flo.fits_def nice_flo_closes_def key_bits_def word_of_bits_msb
        concat_replicate_single)
qed

lemma nice_flo_transmission_received_witness:
  "\<exists>inst'. subghz_protocol_encoder_nice_flo_get_upload
      (with_key 0xABC 12 subghz_protocol_encoder_nice_flo_alloc) = Inr (True, inst') \<and>
    snd (feed_all (subghz_protocol_decoder_nice_flo_feed (Some log_frames))
        (subghz_protocol_decoder_nice_flo_alloc, []) (concat (replicate (Suc 2) (sent_pulses inst')))) =
      replicate 2 (0xABC, 12)"
proof -
  have t: "take_bit 12 (0xABC :: u64) = 0xABC" by code_simp
  have j: "jitter 250 ps ps" for ps by (rule jitter_refl) code_simp
  from nice_flo_transmission_received [of "with_key 0xABC 12 subghz_protocol_encoder_nice_flo_alloc"] j
  show ?thesis
    by (auto simp: subghz_protocol_encoder_nice_flo_alloc_def t simp del: replicate_Suc)
qed

end
