(* ===== verification/Holtek.thy ===== *)
theory Holtek
  imports SubGhz_Common
begin

text \<open>
  The Holtek protocol, \<^verbatim>\<open>lib/subghz/protocols/holtek.c\<close>: 40 bits of which the first four
  are the fixed pattern 5; the decoder drops frames without it.
\<close>

unbundle bit_operations_syntax

section \<open>Model\<close>

abbreviation HOLTEK_HEADER_MASK :: u64 where "HOLTEK_HEADER_MASK \<equiv> 0xF000000000"
abbreviation HOLTEK_HEADER :: u64 where "HOLTEK_HEADER \<equiv> 0x5000000000"

definition subghz_protocol_holtek_const :: SubGhzBlockConst where
  "subghz_protocol_holtek_const =
     \<lparr>te_long = 870, te_short = 430, te_delta = 100, min_count_bit_for_found = 40\<rparr>"

lemma holtek_const [firmware_const]:
  "te_short32 subghz_protocol_holtek_const = 430"
  "te_long32 subghz_protocol_holtek_const = 870"
  "te_delta32 subghz_protocol_holtek_const = 100"
  "min_count_bit_for_found subghz_protocol_holtek_const = 40"
  by (simp_all add: subghz_protocol_holtek_const_def)

abbreviation HoltekDecoderStepReset :: u32 where "HoltekDecoderStepReset \<equiv> 0"
abbreviation HoltekDecoderStepFoundStartBit :: u32 where "HoltekDecoderStepFoundStartBit \<equiv> 1"
abbreviation HoltekDecoderStepSaveDuration :: u32 where "HoltekDecoderStepSaveDuration \<equiv> 2"
abbreviation HoltekDecoderStepCheckDuration :: u32 where "HoltekDecoderStepCheckDuration \<equiv> 3"

definition subghz_protocol_encoder_holtek_alloc :: SubGhzProtocolEncoderCommonGeneric where
  "subghz_protocol_encoder_holtek_alloc = subghz_protocol_encoder_common_alloc ''Holtek'' 3 128"

definition subghz_protocol_decoder_holtek_alloc :: SubGhzProtocolDecoderCommon where
  "subghz_protocol_decoder_holtek_alloc = subghz_protocol_decoder_common_alloc ''Holtek''"

text \<open>The header and the start bit, and the two pulses of a bit.\<close>

definition holtek_lead :: "u16 \<Rightarrow> LevelDuration list" where
  "holtek_lead n =
     (let c = subghz_protocol_holtek_const
      in [level_duration_make False (te_short32 c * 36), level_duration_make True (te_short32 c)])"

definition holtek_bit :: "bool \<Rightarrow> LevelDuration list" where
  "holtek_bit b =
     (let c = subghz_protocol_holtek_const
      in if b then [level_duration_make False (te_long32 c), level_duration_make True (te_short32 c)]
         else [level_duration_make False (te_short32 c), level_duration_make True (te_long32 c)])"

definition subghz_protocol_encoder_holtek_get_upload ::
    "SubGhzProtocolEncoderCommonGeneric \<Rightarrow> fault + bool \<times> SubGhzProtocolEncoderCommonGeneric" where
  "subghz_protocol_encoder_holtek_get_upload inst =
     (let g = encoder_generic inst
      in write_upload (unat (data_count_bit g) * 2 + 2)
        (holtek_lead (data_count_bit g)
         @ concat (map (\<lambda>i. holtek_bit (bit_read (data g) (i - 1) \<noteq> 0))
             (down_to (data_count_bit g) 0)))
        inst)"

definition subghz_protocol_decoder_holtek_feed ::
    "(SubGhzProtocolDecoderCommon, 'c) rx_callback \<Rightarrow> SubGhzProtocolDecoderCommon \<times> 'c
      \<Rightarrow> bool \<Rightarrow> u32 \<Rightarrow> SubGhzProtocolDecoderCommon \<times> 'c" where
  "subghz_protocol_decoder_holtek_feed cb st level duration =
     (let (inst, ctx) = st; c = subghz_protocol_holtek_const; step = parser_step (decoder inst)
      in if step = HoltekDecoderStepReset then
           (if \<not> level \<and> duration_diff duration (te_short32 c * 36) < te_delta32 c * 36
            then (goto_step HoltekDecoderStepFoundStartBit inst, ctx) else (inst, ctx))
         else if step = HoltekDecoderStepFoundStartBit then
           (if level \<and> duration_diff duration (te_short32 c) < te_delta32 c
            then (clear_bits (goto_step HoltekDecoderStepSaveDuration inst), ctx)
            else (goto_step HoltekDecoderStepReset inst, ctx))
         else if step = HoltekDecoderStepSaveDuration then
           (if \<not> level then
              (if duration \<ge> te_short32 c * 10 + te_delta32 c then
                 (let (inst1, ctx1) =
                        (if decode_count_bit (decoder inst) = min_count_bit_for_found c
                         then (if decode_data (decoder inst) AND HOLTEK_HEADER_MASK = HOLTEK_HEADER
                               then rx_notify cb (take_frame inst, ctx) else (inst, ctx))
                         else (inst, ctx))
                  in (goto_step HoltekDecoderStepFoundStartBit (clear_bits inst1), ctx1))
               else (goto_step HoltekDecoderStepCheckDuration (save_te duration inst), ctx))
            else (goto_step HoltekDecoderStepReset inst, ctx))
         else if step = HoltekDecoderStepCheckDuration then
           (if level then
              (if duration_diff (te_last (decoder inst)) (te_short32 c) < te_delta32 c \<and>
                  duration_diff duration (te_long32 c) < te_delta32 c * 2
               then (goto_step HoltekDecoderStepSaveDuration (add_bit False inst), ctx)
               else if duration_diff (te_last (decoder inst)) (te_long32 c) < te_delta32 c * 2 \<and>
                  duration_diff duration (te_short32 c) < te_delta32 c
               then (goto_step HoltekDecoderStepSaveDuration (add_bit True inst), ctx)
               else (goto_step HoltekDecoderStepReset inst, ctx))
            else (goto_step HoltekDecoderStepReset inst, ctx))
         else (inst, ctx))"

definition subghz_protocol_holtek_check_remote_controller ::
    "SubGhzBlockGeneric \<Rightarrow> SubGhzBlockGeneric" where
  "subghz_protocol_holtek_check_remote_controller g =
     (if data g AND HOLTEK_HEADER_MASK = HOLTEK_HEADER then
        (let g1 = g\<lparr>serial := ucast (subghz_protocol_blocks_reverse_key
                       (drop_bit 16 (data g) AND 0xFFFFF) 20)\<rparr>;
             b = (ucast (data g AND 0xFFFF) :: u16)
         in if b AND 0xF \<noteq> 0xA then g1\<lparr>btn := 0x10 OR ucast (b AND 0xF)\<rparr>
            else if drop_bit 4 b AND 0xF \<noteq> 0xA then g1\<lparr>btn := 0x20 OR ucast (drop_bit 4 b AND 0xF)\<rparr>
            else if drop_bit 8 b AND 0xF \<noteq> 0xA then g1\<lparr>btn := 0x30 OR ucast (drop_bit 8 b AND 0xF)\<rparr>
            else if drop_bit 12 b AND 0xF \<noteq> 0xA then g1\<lparr>btn := 0x40 OR ucast (drop_bit 12 b AND 0xF)\<rparr>
            else g1\<lparr>btn := 0\<rparr>)
      else g\<lparr>serial := 0, btn := 0, cnt := 0\<rparr>)"

section \<open>Reception\<close>

definition holtek_closes :: "u64 \<times> u8 \<Rightarrow> (u64 \<times> u16) list" where
  "holtek_closes r = (if snd r = 40 \<and> fst r AND HOLTEK_HEADER_MASK = HOLTEK_HEADER then [(fst r, 40)] else [])"

definition holtek_is_bit :: "bool \<Rightarrow> pulse list \<Rightarrow> bool" where
  "holtek_is_bit b ps \<longleftrightarrow> (\<exists>dl dh. ps = [(False, dl), (True, dh)] \<and>
     (if b then duration_diff dl 870 < 100 \<and> duration_diff dh 430 < 100
      else duration_diff dl 430 < 100 \<and> duration_diff dh 870 < 100))"

lemma length_holtek_bit [simp]: "length (holtek_bit b) = 2"
  by (simp add: holtek_bit_def Let_def)

lemmas holtek_step = subghz_protocol_decoder_holtek_feed_def firmware_const decoder_updates
  decoder_views duration_diff_less word_le_nat_alt holtek_closes_def holtek_is_bit_def

lemma take_bit_40_header: "take_bit 40 w AND HOLTEK_HEADER_MASK = w AND HOLTEK_HEADER_MASK"
proof -
  have "mask 40 AND HOLTEK_HEADER_MASK = HOLTEK_HEADER_MASK" by code_simp
  then show ?thesis
    by (simp add: take_bit_eq_mask and.assoc)
qed

interpretation holtek: gap_protocol
  "subghz_protocol_decoder_holtek_feed (Some log_frames)"
  "at_step HoltekDecoderStepSaveDuration" bit_regs_of snd holtek_is_bit
  "at_step HoltekDecoderStepReset" "at_step HoltekDecoderStepFoundStartBit"
  "\<lambda>p. \<not> fst p \<and> duration_diff (snd p) 15480 < 3600"
  "\<lambda>p. fst p \<and> duration_diff (snd p) 430 < 100"
  holtek_closes 100 "\<lambda>bs. True" "\<lambda>bs. (False, 15480)" "(True, 430)" holtek_bit
  subghz_protocol_encoder_holtek_get_upload holtek_lead "(subghz_protocol_decoder_holtek_alloc, [])"
  by unfold_locales (auto simp: holtek_step holtek_bit_def holtek_lead_def pulse_of_def
      jitter_Cons1 subghz_protocol_encoder_holtek_get_upload_def
      subghz_protocol_decoder_holtek_alloc_def subghz_protocol_decoder_common_alloc_def Let_def
      split: if_splits)

section \<open>Properties\<close>

text \<open>Holtek: from a ready encoder with room for it, the upload of a 40 bit key is generated
  without fault; sent \<open>n + 1\<close> times in a row, with each pulse off by less than
  \<^verbatim>\<open>te_delta\<close>, it makes a fresh decoder report \<open>n\<close> frames, each the 40 bit key, when the key
  carries the header pattern, and nothing otherwise.\<close>

theorem holtek_transmission_received:
  assumes "encoder_ready inst" and "data_count_bit (encoder_generic inst) = 40"
    and "82 \<le> size_upload (encoder inst)"
  shows "\<exists>inst'. subghz_protocol_encoder_holtek_get_upload inst = Inr (True, inst') \<and>
    encoder_ready inst' \<and>
    (\<forall>n ps. jitter 100 (concat (replicate (Suc n) (sent_pulses inst'))) ps \<longrightarrow>
      snd (feed_all (subghz_protocol_decoder_holtek_feed (Some log_frames))
        (subghz_protocol_decoder_holtek_alloc, []) ps) =
      (if data (encoder_generic inst) AND HOLTEK_HEADER_MASK = HOLTEK_HEADER
       then replicate n (take_bit 40 (data (encoder_generic inst)), 40) else []))"
  using holtek.round_trip [of inst] assms
  by (cases "data (encoder_generic inst) AND HOLTEK_HEADER_MASK = HOLTEK_HEADER")
    (simp_all add: holtek.fits_def holtek_closes_def key_bits_def word_of_bits_msb
      concat_replicate_single concat_replicate_trivial take_bit_40_header)

lemma holtek_transmission_received_witness:
  "\<exists>inst'. subghz_protocol_encoder_holtek_get_upload
      (with_key 0x5123456789 40 subghz_protocol_encoder_holtek_alloc) = Inr (True, inst') \<and>
    snd (feed_all (subghz_protocol_decoder_holtek_feed (Some log_frames))
        (subghz_protocol_decoder_holtek_alloc, []) (concat (replicate (Suc 2) (sent_pulses inst')))) =
      replicate 2 (0x5123456789, 40)"
proof -
  have t: "take_bit 40 (0x5123456789 :: u64) = 0x5123456789" by code_simp
  have j: "jitter 100 ps ps" for ps by (rule jitter_refl) code_simp
  from holtek_transmission_received [of "with_key 0x5123456789 40 subghz_protocol_encoder_holtek_alloc"] j
  show ?thesis
    by (auto simp: subghz_protocol_encoder_holtek_alloc_def t simp del: replicate_Suc)
qed

end
