(* ===== verification/Ansonic.thy ===== *)
theory Ansonic
  imports SubGhz_Common
begin

text \<open>
  The Ansonic protocol, \<^verbatim>\<open>lib/subghz/protocols/ansonic.c\<close>: 12 bits, where a set bit is a
  short low and a long high pulse; the decoder reports any frame of at least 12 bits.
\<close>

unbundle bit_operations_syntax

section \<open>Model\<close>

definition subghz_protocol_ansonic_const :: SubGhzBlockConst where
  "subghz_protocol_ansonic_const =
     \<lparr>te_long = 1111, te_short = 555, te_delta = 120, min_count_bit_for_found = 12\<rparr>"

lemma ansonic_const [firmware_const]:
  "te_short32 subghz_protocol_ansonic_const = 555"
  "te_long32 subghz_protocol_ansonic_const = 1111"
  "te_delta32 subghz_protocol_ansonic_const = 120"
  "min_count_bit_for_found subghz_protocol_ansonic_const = 12"
  by (simp_all add: subghz_protocol_ansonic_const_def)

abbreviation AnsonicDecoderStepReset :: u32 where "AnsonicDecoderStepReset \<equiv> 0"
abbreviation AnsonicDecoderStepFoundStartBit :: u32 where "AnsonicDecoderStepFoundStartBit \<equiv> 1"
abbreviation AnsonicDecoderStepSaveDuration :: u32 where "AnsonicDecoderStepSaveDuration \<equiv> 2"
abbreviation AnsonicDecoderStepCheckDuration :: u32 where "AnsonicDecoderStepCheckDuration \<equiv> 3"

definition subghz_protocol_encoder_ansonic_alloc :: SubGhzProtocolEncoderCommonGeneric where
  "subghz_protocol_encoder_ansonic_alloc = subghz_protocol_encoder_common_alloc ''Ansonic'' 3 52"

definition subghz_protocol_decoder_ansonic_alloc :: SubGhzProtocolDecoderCommon where
  "subghz_protocol_decoder_ansonic_alloc = subghz_protocol_decoder_common_alloc ''Ansonic''"

text \<open>The header and the start bit, and the two pulses of a bit.\<close>

definition ansonic_lead :: "u16 \<Rightarrow> LevelDuration list" where
  "ansonic_lead n =
     (let c = subghz_protocol_ansonic_const
      in [level_duration_make False (te_short32 c * 35), level_duration_make True (te_short32 c)])"

definition ansonic_bit :: "bool \<Rightarrow> LevelDuration list" where
  "ansonic_bit b =
     (let c = subghz_protocol_ansonic_const
      in if b then [level_duration_make False (te_short32 c), level_duration_make True (te_long32 c)]
         else [level_duration_make False (te_long32 c), level_duration_make True (te_short32 c)])"

definition subghz_protocol_encoder_ansonic_get_upload ::
    "SubGhzProtocolEncoderCommonGeneric \<Rightarrow> fault + bool \<times> SubGhzProtocolEncoderCommonGeneric" where
  "subghz_protocol_encoder_ansonic_get_upload inst =
     (let g = encoder_generic inst
      in write_upload (unat (data_count_bit g) * 2 + 2)
        (ansonic_lead (data_count_bit g)
         @ concat (map (\<lambda>i. ansonic_bit (bit_read (data g) (i - 1) \<noteq> 0))
             (down_to (data_count_bit g) 0)))
        inst)"

definition subghz_protocol_decoder_ansonic_feed ::
    "(SubGhzProtocolDecoderCommon, 'c) rx_callback \<Rightarrow> SubGhzProtocolDecoderCommon \<times> 'c
      \<Rightarrow> bool \<Rightarrow> u32 \<Rightarrow> SubGhzProtocolDecoderCommon \<times> 'c" where
  "subghz_protocol_decoder_ansonic_feed cb st level duration =
     (let (inst, ctx) = st; c = subghz_protocol_ansonic_const; step = parser_step (decoder inst)
      in if step = AnsonicDecoderStepReset then
           (if \<not> level \<and> duration_diff duration (te_short32 c * 35) < te_delta32 c * 35
            then (goto_step AnsonicDecoderStepFoundStartBit inst, ctx) else (inst, ctx))
         else if step = AnsonicDecoderStepFoundStartBit then
           (if \<not> level then (inst, ctx)
            else if duration_diff duration (te_short32 c) < te_delta32 c
            then (clear_bits (goto_step AnsonicDecoderStepSaveDuration inst), ctx)
            else (goto_step AnsonicDecoderStepReset inst, ctx))
         else if step = AnsonicDecoderStepSaveDuration then
           (if \<not> level then
              (if duration \<ge> te_short32 c * 4 then
                 (let inst1 = goto_step AnsonicDecoderStepFoundStartBit inst
                  in if decode_count_bit (decoder inst1) \<ge> min_count_bit_for_found c
                     then rx_notify cb (take_frame (clear_serial_btn inst1), ctx)
                     else (inst1, ctx))
               else (goto_step AnsonicDecoderStepCheckDuration (save_te duration inst), ctx))
            else (goto_step AnsonicDecoderStepReset inst, ctx))
         else if step = AnsonicDecoderStepCheckDuration then
           (if level then
              (if duration_diff (te_last (decoder inst)) (te_short32 c) < te_delta32 c \<and>
                  duration_diff duration (te_long32 c) < te_delta32 c
               then (goto_step AnsonicDecoderStepSaveDuration (add_bit True inst), ctx)
               else if duration_diff (te_last (decoder inst)) (te_long32 c) < te_delta32 c \<and>
                  duration_diff duration (te_short32 c) < te_delta32 c
               then (goto_step AnsonicDecoderStepSaveDuration (add_bit False inst), ctx)
               else (goto_step AnsonicDecoderStepReset inst, ctx))
            else (goto_step AnsonicDecoderStepReset inst, ctx))
         else (inst, ctx))"

definition subghz_protocol_ansonic_check_remote_controller ::
    "SubGhzBlockGeneric \<Rightarrow> SubGhzBlockGeneric" where
  "subghz_protocol_ansonic_check_remote_controller g =
     g\<lparr>cnt := ucast (data g AND 0xFFF), btn := ucast (drop_bit 1 (data g) AND 0x3)\<rparr>"

section \<open>Reception\<close>

definition ansonic_closes :: "u64 \<times> u8 \<Rightarrow> (u64 \<times> u16) list" where
  "ansonic_closes r = (if snd r \<ge> 12 then [(fst r, ucast (snd r))] else [])"

definition ansonic_is_bit :: "bool \<Rightarrow> pulse list \<Rightarrow> bool" where
  "ansonic_is_bit b ps \<longleftrightarrow> (\<exists>dl dh. ps = [(False, dl), (True, dh)] \<and>
     (if b then duration_diff dl 555 < 120 \<and> duration_diff dh 1111 < 120
      else duration_diff dl 1111 < 120 \<and> duration_diff dh 555 < 120))"

lemma length_ansonic_bit [simp]: "length (ansonic_bit b) = 2"
  by (simp add: ansonic_bit_def Let_def)

lemmas ansonic_step = subghz_protocol_decoder_ansonic_feed_def firmware_const decoder_updates
  decoder_views duration_diff_less word_le_nat_alt ansonic_closes_def ansonic_is_bit_def

interpretation ansonic: gap_protocol
  "subghz_protocol_decoder_ansonic_feed (Some log_frames)"
  "at_step AnsonicDecoderStepSaveDuration" bit_regs_of snd ansonic_is_bit
  "at_step AnsonicDecoderStepReset" "at_step AnsonicDecoderStepFoundStartBit"
  "\<lambda>p. \<not> fst p \<and> duration_diff (snd p) 19425 < 4200"
  "\<lambda>p. fst p \<and> duration_diff (snd p) 555 < 120"
  ansonic_closes 120 "\<lambda>bs. True" "\<lambda>bs. (False, 19425)" "(True, 555)" ansonic_bit
  subghz_protocol_encoder_ansonic_get_upload ansonic_lead "(subghz_protocol_decoder_ansonic_alloc, [])"
  by unfold_locales (auto simp: ansonic_step ansonic_bit_def ansonic_lead_def pulse_of_def
      jitter_Cons1 subghz_protocol_encoder_ansonic_get_upload_def
      subghz_protocol_decoder_ansonic_alloc_def subghz_protocol_decoder_common_alloc_def Let_def
      split: if_splits)

section \<open>Properties\<close>

text \<open>Ansonic: from a ready encoder with room for it, the upload of a 12 bit key is generated
  without fault; sent \<open>n + 1\<close> times in a row, with each pulse off by less than
  \<^verbatim>\<open>te_delta\<close>, it makes a fresh decoder report \<open>n\<close> frames, each the 12 bit key.\<close>

theorem ansonic_transmission_received:
  assumes "encoder_ready inst" and "data_count_bit (encoder_generic inst) = 12"
    and "26 \<le> size_upload (encoder inst)"
  shows "\<exists>inst'. subghz_protocol_encoder_ansonic_get_upload inst = Inr (True, inst') \<and>
    encoder_ready inst' \<and>
    (\<forall>n ps. jitter 120 (concat (replicate (Suc n) (sent_pulses inst'))) ps \<longrightarrow>
      snd (feed_all (subghz_protocol_decoder_ansonic_feed (Some log_frames))
        (subghz_protocol_decoder_ansonic_alloc, []) ps) =
      replicate n (take_bit 12 (data (encoder_generic inst)), 12))"
  using ansonic.round_trip [of inst] assms
  by (simp add: ansonic.fits_def ansonic_closes_def key_bits_def word_of_bits_msb
      concat_replicate_single)

lemma ansonic_transmission_received_witness:
  "\<exists>inst'. subghz_protocol_encoder_ansonic_get_upload
      (with_key 0xABC 12 subghz_protocol_encoder_ansonic_alloc) = Inr (True, inst') \<and>
    snd (feed_all (subghz_protocol_decoder_ansonic_feed (Some log_frames))
        (subghz_protocol_decoder_ansonic_alloc, []) (concat (replicate (Suc 2) (sent_pulses inst')))) =
      replicate 2 (0xABC, 12)"
proof -
  have t: "take_bit 12 (0xABC :: u64) = 0xABC" by code_simp
  have j: "jitter 120 ps ps" for ps by (rule jitter_refl) code_simp
  from ansonic_transmission_received [of "with_key 0xABC 12 subghz_protocol_encoder_ansonic_alloc"] j
  show ?thesis
    by (auto simp: subghz_protocol_encoder_ansonic_alloc_def t simp del: replicate_Suc)
qed

end
