(* ===== verification/Manchester.thy ===== *)
theory Manchester
  imports Flipper_Prelude
begin

text \<open>
  Manchester coding, \<^verbatim>\<open>lib/toolbox/manchester_encoder.c\<close> and
  \<^verbatim>\<open>lib/toolbox/manchester_decoder.c\<close>. The encoder turns bits into short and long pulses,
  a call at a time; the decoder follows the pulses with a four state machine packed into a
  table of two bit entries.
\<close>

unbundle bit_operations_syntax

section \<open>Encoder\<close>

record ManchesterEncoderState =
  prev_bit :: bool
  enc_step :: u8

datatype ManchesterEncoderResult =
  ManchesterEncoderResultShortLow | ManchesterEncoderResultLongLow
  | ManchesterEncoderResultLongHigh | ManchesterEncoderResultShortHigh

text \<open>The result with the numeric value \<^verbatim>\<open>(a << 1) + b\<close>.\<close>

definition encoder_result :: "bool \<Rightarrow> bool \<Rightarrow> ManchesterEncoderResult" where
  "encoder_result a b =
     (if a then (if b then ManchesterEncoderResultShortHigh else ManchesterEncoderResultLongHigh)
      else (if b then ManchesterEncoderResultLongLow else ManchesterEncoderResultShortLow))"

definition manchester_encoder_reset :: "ManchesterEncoderState \<Rightarrow> ManchesterEncoderState" where
  "manchester_encoder_reset s = s\<lparr>enc_step := 0\<rparr>"

definition manchester_encoder_advance ::
    "ManchesterEncoderState \<Rightarrow> bool \<Rightarrow> fault + bool \<times> ManchesterEncoderResult \<times> ManchesterEncoderState" where
  "manchester_encoder_advance s curr_bit =
     (if enc_step s = 0 then
        Inr (True, if curr_bit then ManchesterEncoderResultShortLow else ManchesterEncoderResultShortHigh,
             s\<lparr>prev_bit := curr_bit, enc_step := 1\<rparr>)
      else if enc_step s = 1 then
        (let r = encoder_result (prev_bit s) curr_bit
         in if curr_bit = prev_bit s then Inr (False, r, s\<lparr>enc_step := 2\<rparr>)
            else Inr (True, r, s\<lparr>prev_bit := curr_bit\<rparr>))
      else if enc_step s = 2 then
        Inr (True, if curr_bit then ManchesterEncoderResultShortLow else ManchesterEncoderResultShortHigh,
             s\<lparr>prev_bit := curr_bit, enc_step := 1\<rparr>)
      else Inl FuriCrash)"

definition manchester_encoder_finish ::
    "ManchesterEncoderState \<Rightarrow> ManchesterEncoderResult \<times> ManchesterEncoderState" where
  "manchester_encoder_finish s =
     (encoder_result (prev_bit s) (prev_bit s), s\<lparr>enc_step := 0\<rparr>)"

text \<open>
  How the protocols call the encoder for one bit (\<^verbatim>\<open>protocols/marantec.c\<close> and others): when
  the call does not advance, its result is sent and the call is repeated.
\<close>

definition manchester_encode_bit ::
    "ManchesterEncoderState \<Rightarrow> bool \<Rightarrow> fault + ManchesterEncoderResult list \<times> ManchesterEncoderState" where
  "manchester_encode_bit s b =
     bind_r (manchester_encoder_advance s b) (\<lambda>(adv, r, s1).
       if adv then Inr ([r], s1)
       else bind_r (manchester_encoder_advance s1 b) (\<lambda>(_, r2, s2). Inr ([r, r2], s2)))"

fun manchester_encode_bits ::
    "ManchesterEncoderState \<Rightarrow> bool list \<Rightarrow> fault + ManchesterEncoderResult list \<times> ManchesterEncoderState" where
  "manchester_encode_bits s [] = Inr ([], s)"
| "manchester_encode_bits s (b # bs) =
     bind_r (manchester_encode_bit s b) (\<lambda>(rs, s1).
       bind_r (manchester_encode_bits s1 bs) (\<lambda>(rs', s2). Inr (rs @ rs', s2)))"

section \<open>Decoder\<close>

datatype ManchesterEvent =
  ManchesterEventShortLow | ManchesterEventShortHigh | ManchesterEventLongLow
  | ManchesterEventLongHigh | ManchesterEventReset

datatype ManchesterState =
  ManchesterStateStart1 | ManchesterStateMid1 | ManchesterStateMid0 | ManchesterStateStart0

primrec event_code :: "ManchesterEvent \<Rightarrow> nat" where
  "event_code ManchesterEventShortLow = 0"
| "event_code ManchesterEventShortHigh = 2"
| "event_code ManchesterEventLongLow = 4"
| "event_code ManchesterEventLongHigh = 6"
| "event_code ManchesterEventReset = 8"

primrec state_code :: "ManchesterState \<Rightarrow> nat" where
  "state_code ManchesterStateStart1 = 0"
| "state_code ManchesterStateMid1 = 1"
| "state_code ManchesterStateMid0 = 2"
| "state_code ManchesterStateStart0 = 3"

definition state_of_code :: "u8 \<Rightarrow> ManchesterState" where
  "state_of_code c =
     (if c = 0 then ManchesterStateStart1 else if c = 1 then ManchesterStateMid1
      else if c = 2 then ManchesterStateMid0 else ManchesterStateStart0)"

definition transitions :: "u8 list" where
  "transitions = [0b00000001, 0b10010001, 0b10011011, 0b11111011]"

definition manchester_reset_state :: ManchesterState where
  "manchester_reset_state = ManchesterStateMid1"

text \<open>The next state and the bit that is complete, if any: the C function returns whether there
  is one and writes it through \<^verbatim>\<open>data\<close>.\<close>

definition manchester_advance :: "ManchesterState \<Rightarrow> ManchesterEvent \<Rightarrow> ManchesterState \<times> bool option" where
  "manchester_advance s event =
     (if event = ManchesterEventReset then (manchester_reset_state, None)
      else let new_state = state_of_code (drop_bit (event_code event) (transitions ! state_code s) AND 0x3)
        in if new_state = s then (manchester_reset_state, None)
           else (new_state,
                 if new_state = ManchesterStateMid0 then Some False
                 else if new_state = ManchesterStateMid1 then Some True else None))"

text \<open>A pulse of the encoder as the decoder sees it, and the bits of a pulse train.\<close>

primrec event_of :: "ManchesterEncoderResult \<Rightarrow> ManchesterEvent" where
  "event_of ManchesterEncoderResultShortLow = ManchesterEventShortLow"
| "event_of ManchesterEncoderResultLongLow = ManchesterEventLongLow"
| "event_of ManchesterEncoderResultLongHigh = ManchesterEventLongHigh"
| "event_of ManchesterEncoderResultShortHigh = ManchesterEventShortHigh"

fun manchester_decode :: "ManchesterState \<Rightarrow> ManchesterEvent list \<Rightarrow> ManchesterState \<times> bool list" where
  "manchester_decode s [] = (s, [])"
| "manchester_decode s (e # es) =
     (let (s1, b) = manchester_advance s e; (s2, bs) = manchester_decode s1 es
      in (s2, (case b of None \<Rightarrow> bs | Some x \<Rightarrow> x # bs)))"

section \<open>The transition table\<close>

lemma manchester_advance_table [simp]:
  "manchester_advance s ManchesterEventReset = (ManchesterStateMid1, None)"
  "manchester_advance ManchesterStateStart1 ManchesterEventShortLow = (ManchesterStateMid1, Some True)"
  "manchester_advance ManchesterStateStart1 ManchesterEventShortHigh = (ManchesterStateMid1, None)"
  "manchester_advance ManchesterStateStart1 ManchesterEventLongLow = (ManchesterStateMid1, None)"
  "manchester_advance ManchesterStateStart1 ManchesterEventLongHigh = (ManchesterStateMid1, None)"
  "manchester_advance ManchesterStateMid1 ManchesterEventShortLow = (ManchesterStateMid1, None)"
  "manchester_advance ManchesterStateMid1 ManchesterEventShortHigh = (ManchesterStateStart1, None)"
  "manchester_advance ManchesterStateMid1 ManchesterEventLongLow = (ManchesterStateMid1, None)"
  "manchester_advance ManchesterStateMid1 ManchesterEventLongHigh = (ManchesterStateMid0, Some False)"
  "manchester_advance ManchesterStateMid0 ManchesterEventShortLow = (ManchesterStateStart0, None)"
  "manchester_advance ManchesterStateMid0 ManchesterEventShortHigh = (ManchesterStateMid1, None)"
  "manchester_advance ManchesterStateMid0 ManchesterEventLongLow = (ManchesterStateMid1, Some True)"
  "manchester_advance ManchesterStateMid0 ManchesterEventLongHigh = (ManchesterStateMid1, None)"
  "manchester_advance ManchesterStateStart0 ManchesterEventShortLow = (ManchesterStateMid1, None)"
  "manchester_advance ManchesterStateStart0 ManchesterEventShortHigh = (ManchesterStateMid0, Some False)"
  "manchester_advance ManchesterStateStart0 ManchesterEventLongLow = (ManchesterStateMid1, None)"
  "manchester_advance ManchesterStateStart0 ManchesterEventLongHigh = (ManchesterStateMid1, None)"
  by (simp add: manchester_advance_def manchester_reset_state_def, code_simp+)

section \<open>Encoding and decoding\<close>

text \<open>The encoder in the middle of a bit, as after each encoded bit.\<close>

definition mid_bit :: "ManchesterEncoderState \<Rightarrow> bool \<Rightarrow> bool" where
  "mid_bit s b \<longleftrightarrow> enc_step s = 1 \<and> prev_bit s = b"

abbreviation mid_state :: "bool \<Rightarrow> ManchesterState" where
  "mid_state b \<equiv> (if b then ManchesterStateMid1 else ManchesterStateMid0)"

lemma manchester_decode_append:
  "manchester_decode s (xs @ ys) =
    (let (s1, bs1) = manchester_decode s xs; (s2, bs2) = manchester_decode s1 ys in (s2, bs1 @ bs2))"
  by (induction xs arbitrary: s) (auto split: prod.splits option.splits)

lemma encode_bit_mid:
  assumes "mid_bit s a"
  shows "\<exists>s'. manchester_encode_bit s b = Inr
    (if a = b then [encoder_result a a, encoder_result (\<not> a) (\<not> a)] else [encoder_result a b], s')
    \<and> mid_bit s' b"
  using assms
  by (cases a; cases b) (auto simp: mid_bit_def manchester_encode_bit_def manchester_encoder_advance_def
      Let_def encoder_result_def)

lemma encode_bit_decodes:
  assumes "mid_bit s a" and "manchester_encode_bit s b = Inr (rs, s')"
  shows "manchester_decode (mid_state a) (map event_of rs) = (mid_state b, [b]) \<and> mid_bit s' b"
  using encode_bit_mid [OF assms(1), of b] assms(2)
  by (cases a; cases b) (auto simp: encoder_result_def)

lemma encode_bits_decodes:
  assumes "mid_bit s a"
  shows "\<exists>rs s'. manchester_encode_bits s bs = Inr (rs, s') \<and> mid_bit s' (last (a # bs)) \<and>
    manchester_decode (mid_state a) (map event_of rs) = (mid_state (last (a # bs)), bs)"
  using assms
proof (induction bs arbitrary: s a)
  case Nil
  then show ?case by simp
next
  case (Cons b bs)
  obtain rs s1 where r: "manchester_encode_bit s b = Inr (rs, s1)"
    using encode_bit_mid [OF Cons.prems] by blast
  note d = encode_bit_decodes [OF Cons.prems r]
  from Cons.IH [OF conjunct2 [OF d]] obtain rs' s2 where i:
    "manchester_encode_bits s1 bs = Inr (rs', s2)" "mid_bit s2 (last (b # bs))"
    "manchester_decode (mid_state b) (map event_of rs') = (mid_state (last (b # bs)), bs)" by blast
  with r d show ?case
    by (simp add: manchester_decode_append)
qed

lemma encode_bits_append:
  "manchester_encode_bits s (xs @ ys) =
    bind_r (manchester_encode_bits s xs) (\<lambda>(r1, s1).
      bind_r (manchester_encode_bits s1 ys) (\<lambda>(r2, s2). Inr (r1 @ r2, s2)))"
proof (induction xs arbitrary: s)
  case Nil
  then show ?case by (auto simp: bind_r_def split: sum.splits)
next
  case (Cons x xs)
  show ?case
    by (cases "manchester_encode_bit s x") (auto simp: Cons bind_r_def split: sum.splits)
qed

lemma long_low_synchronises:
  "fst (manchester_advance s ManchesterEventLongLow) = ManchesterStateMid1"
  by (cases s) simp_all

text \<open>The encoder never crashes, and a decoder in the middle of the same bit reads back exactly
  the bits that follow; a decoder in any other state has caught up after the first 0 that is
  followed by a 1 and reads back everything after it.\<close>

theorem manchester_roundtrip:
  assumes "mid_bit s a"
  shows "\<exists>rs s'. manchester_encode_bits s (bs @ [False, True] @ cs) = Inr (rs, s') \<and>
    snd (manchester_decode (mid_state a) (map event_of rs)) = bs @ [False, True] @ cs \<and>
    (\<forall>d. \<exists>noise. snd (manchester_decode d (map event_of rs)) = noise @ cs)"
proof -
  obtain rs1 s1 where 1: "manchester_encode_bits s (bs @ [False]) = Inr (rs1, s1)" "mid_bit s1 False"
      "manchester_decode (mid_state a) (map event_of rs1) = (mid_state False, bs @ [False])"
    using encode_bits_decodes [OF assms, of "bs @ [False]"] by auto
  obtain rs2 s2 where 2: "manchester_encode_bit s1 True = Inr (rs2, s2)" "mid_bit s2 True"
      "rs2 = [ManchesterEncoderResultLongLow]"
    using encode_bit_mid [OF 1(2), of True] by (auto simp: encoder_result_def)
  obtain rs3 s3 where 3: "manchester_encode_bits s2 cs = Inr (rs3, s3)"
      "snd (manchester_decode ManchesterStateMid1 (map event_of rs3)) = cs"
    using encode_bits_decodes [OF 2(2), of cs] by auto
  have "manchester_encode_bits s ((bs @ [False]) @ True # cs) = Inr (rs1 @ rs2 @ rs3, s3)"
    unfolding encode_bits_append [of s "bs @ [False]"] 1(1) using 2 3 by simp
  moreover have "\<exists>noise. snd (manchester_decode d (map event_of (rs1 @ rs2 @ rs3))) = noise @ cs" for d
    using 2(3) 3(2) long_low_synchronises [of "fst (manchester_decode d (map event_of rs1))"]
    by (auto simp: manchester_decode_append split: prod.splits option.splits)
  moreover have "snd (manchester_decode (mid_state a) (map event_of (rs1 @ rs2 @ rs3))) = bs @ [False, True] @ cs"
    using 1(3) 2(3) 3(2) by (auto simp: manchester_decode_append split: prod.splits)
  ultimately show ?thesis
    by (intro exI [of _ "rs1 @ rs2 @ rs3"] exI [of _ s3]) simp
qed

lemma manchester_roundtrip_witness:
  "\<exists>rs s'. manchester_encode_bits \<lparr>prev_bit = True, enc_step = 1\<rparr> [True, False, True, True, False] = Inr (rs, s') \<and>
    snd (manchester_decode ManchesterStateMid1 (map event_of rs)) = [True, False, True, True, False] \<and>
    (\<exists>noise. snd (manchester_decode ManchesterStateStart0 (map event_of rs)) = noise @ [True, False])"
  using manchester_roundtrip [of "\<lparr>prev_bit = True, enc_step = 1\<rparr>" True "[True]" "[True, False]"]
  by (fastforce simp: mid_bit_def)

end
