(* ===== verification/Varint.thy ===== *)
theory Varint
  imports Flipper_Prelude "HOL-Library.Signed_Division"
begin

text \<open>
  Variable length integers, \<^verbatim>\<open>lib/toolbox/varint.c\<close>: seven bits per byte, least significant
  group first, with the top bit of a byte telling that more follow; signed values are mapped to
  unsigned ones with the sign in the lowest bit.
\<close>

unbundle bit_operations_syntax

section \<open>Model\<close>

lemma unat_drop_bit_7: "unat (drop_bit 7 (v :: u32)) = unat v div 128"
proof -
  have "unat (drop_bit 7 v) = drop_bit 7 (unat v)"
    by (rule unat_drop_bit_eq)
  also have "\<dots> = unat v div 128"
    by (simp add: drop_bit_eq_div)
  finally show ?thesis .
qed

lemma drop_bit_7_less: "(0x80 :: u32) \<le> v \<Longrightarrow> unat (drop_bit 7 v) < unat v"
  unfolding unat_drop_bit_7 by (simp add: word_le_nat_alt)

function varint_uint32_pack :: "u32 \<Rightarrow> u8 list" where
  "varint_uint32_pack value =
     (if value \<ge> 0x80 then ucast (value OR 0x80) # varint_uint32_pack (drop_bit 7 value)
      else [ucast value])"
  by auto
termination by (relation "measure unat") (simp_all only: wf_measure in_measure drop_bit_7_less)

function varint_uint32_length :: "u32 \<Rightarrow> nat" where
  "varint_uint32_length value =
     (if value \<ge> 0x80 then Suc (varint_uint32_length (drop_bit 7 value)) else 1)"
  by auto
termination by (relation "measure unat") (simp_all only: wf_measure in_measure drop_bit_7_less)

declare varint_uint32_pack.simps [simp del] varint_uint32_length.simps [simp del]

text \<open>
  The loop of \<^verbatim>\<open>varint_uint32_unpack\<close>, with the number of bytes left to look at. A shift by
  \<open>7 * i\<close> bits of a 32 bit number is undefined from \<open>i = 5\<close> on. The result is the value and the
  index the loop stops at.
\<close>

fun varint_unpack_loop :: "u8 list \<Rightarrow> nat \<Rightarrow> nat \<Rightarrow> u32 \<Rightarrow> fault + u32 \<times> nat" where
  "varint_unpack_loop input 0 i parsed = Inr (parsed, i)"
| "varint_unpack_loop input (Suc n) i parsed =
     bind_r (rd input i) (\<lambda>b.
       if 7 * i \<ge> 32 then Inl UndefinedBehaviour
       else let parsed' = parsed OR push_bit (7 * i) (ucast b AND 0x7F)
         in if b AND 0x80 = 0 then Inr (parsed', i)
            else varint_unpack_loop input n (Suc i) parsed')"

definition varint_uint32_unpack :: "u8 list \<Rightarrow> nat \<Rightarrow> fault + u32 \<times> nat" where
  "varint_uint32_unpack input input_size =
     bind_r (varint_unpack_loop input input_size 0 0) (\<lambda>(parsed, i). Inr (parsed, i + 1))"

text \<open>The unsigned number a signed one is packed as, computed in \<^verbatim>\<open>int32_t\<close>.\<close>

definition varint_zigzag :: "int \<Rightarrow> fault + u32" where
  "varint_zigzag value =
     bind_r (if value \<ge> 0 then int32_checked (value * 2)
             else bind_r (int32_checked (value * -2)) (\<lambda>v. int32_checked (v - 1)))
       (\<lambda>v. Inr (word_of_int v))"

definition varint_int32_pack :: "int \<Rightarrow> fault + u8 list" where
  "varint_int32_pack value = bind_r (varint_zigzag value) (\<lambda>v. Inr (varint_uint32_pack v))"

definition varint_int32_unpack :: "u8 list \<Rightarrow> nat \<Rightarrow> fault + int \<times> nat" where
  "varint_int32_unpack input input_size =
     bind_r (varint_uint32_unpack input input_size) (\<lambda>(v, sz).
       Inr (if v AND 1 \<noteq> 0 then sint (v + 1) sdiv (-2) else uint (v div 2), sz))"

definition varint_int32_length :: "int \<Rightarrow> fault + nat" where
  "varint_int32_length value = bind_r (varint_zigzag value) (\<lambda>v. Inr (varint_uint32_length v))"

section \<open>Round trips\<close>

lemma varint_length: "length (varint_uint32_pack v) = varint_uint32_length v"
  by (induction v rule: varint_uint32_pack.induct)
    (subst varint_uint32_pack.simps, subst varint_uint32_length.simps, simp)

lemma varint_length_bound: "unat v < 2 ^ (7 * Suc k) \<Longrightarrow> varint_uint32_length v \<le> Suc k"
proof (induction k arbitrary: v)
  case 0
  then show ?case
    by (subst varint_uint32_length.simps) (simp add: word_le_nat_alt)
next
  case (Suc k)
  have "unat (drop_bit 7 v) < 2 ^ (7 * Suc k)"
    using Suc.prems unfolding unat_drop_bit_7 by (simp add: div_less_iff_less_mult power_add)
  from Suc.IH [OF this] show ?case
    by (subst varint_uint32_length.simps) simp
qed

text \<open>The byte a step of the packing emits, read by a step of the unpacking.\<close>

lemma bit_0x80: "bit (0x80 :: 'a::len word) j \<longleftrightarrow> j = 7 \<and> 7 < LENGTH('a)"
proof -
  have "(0x80 :: 'a word) = push_bit 7 1" by simp
  then show ?thesis
    by (simp only: bit_push_bit_iff) (auto simp: bit_simps)
qed

lemma last_byte:
  assumes "(v :: u32) < 0x80"
  shows "ucast (ucast v :: u8) AND 0x7F = v" and "(ucast v :: u8) AND 0x80 = 0"
proof -
  have t: "take_bit 7 v = v"
    using assms by (simp add: word_unat_eq_iff unsigned_take_bit_eq take_bit_nat_eq_self word_less_nat_alt)
  have "ucast (ucast v :: u8) AND 0x7F = take_bit 7 v"
    by (rule bit_word_eqI) (auto simp: and_masks bit_simps)
  then show "ucast (ucast v :: u8) AND 0x7F = v" using t by simp
  have "(ucast (take_bit 7 v) :: u8) AND 0x80 = 0"
    by (rule bit_word_eqI) (simp only: bit_and_iff bit_ucast_iff bit_take_bit_iff bit_0x80, auto)
  then show "(ucast v :: u8) AND 0x80 = 0" using t by simp
qed

lemma more_byte:
  fixes v :: u32
  shows "ucast (ucast (v OR 0x80) :: u8) AND 0x7F = take_bit 7 v" and "(ucast (v OR 0x80) :: u8) AND 0x80 \<noteq> 0"
proof -
  show "ucast (ucast (v OR 0x80) :: u8) AND 0x7F = take_bit 7 v"
    by (rule bit_word_eqI)
      (simp only: and_masks bit_take_bit_iff bit_ucast_iff bit_or_iff bit_0x80, auto)
  have "bit ((ucast (v OR 0x80) :: u8) AND 0x80) 7"
    by (simp only: bit_and_iff bit_or_iff bit_ucast_iff bit_0x80) simp
  then show "(ucast (v OR 0x80) :: u8) AND 0x80 \<noteq> 0" by auto
qed

lemma groups:
  "push_bit n (take_bit 7 v) OR push_bit (n + 7) (drop_bit 7 v) = (push_bit n v :: u32)"
proof (rule bit_word_eqI)
  fix j assume "j < LENGTH(32)"
  then show "bit (push_bit n (take_bit 7 v) OR push_bit (n + 7) (drop_bit 7 v)) j = bit (push_bit n v) j"
    by (cases "n + 7 \<le> j") (auto simp: bit_simps)
qed

lemma varint_unpack_loop_pack:
  assumes "unat v < 2 ^ (32 - 7 * i)" and "7 * i < 32"
    and "drop i input = varint_uint32_pack v @ rest" and "length (varint_uint32_pack v) \<le> n"
  shows "varint_unpack_loop input n i parsed =
    Inr (parsed OR push_bit (7 * i) v, i + length (varint_uint32_pack v) - 1)"
  using assms
proof (induction v arbitrary: i n parsed rule: varint_uint32_pack.induct)
  case (1 v)
  let ?b = "if v \<ge> 0x80 then ucast (v OR 0x80) else (ucast v :: u8)"
  let ?t = "if v \<ge> 0x80 then varint_uint32_pack (drop_bit 7 v) else []"
  have p: "varint_uint32_pack v = ?b # ?t"
    by (simp add: varint_uint32_pack.simps)
  then obtain m where n: "n = Suc m" using 1(5) by (cases n) auto
  have d: "drop i input = ?b # ?t @ rest"
    using 1(4) p by simp
  then have b: "rd input i = Inr ?b"
    by (metis drop_eq_Nil2 linorder_not_le list.distinct(1) nth_via_drop rd_Inr)
  have d': "drop (Suc i) input = ?t @ rest"
    using d by (metis drop_Suc list.sel(3) tl_drop)
  show ?case
  proof (cases "v \<ge> 0x80")
    case False
    then show ?thesis
      using n b p 1(3) last_byte [of v] by (simp add: Let_def del: push_bit_and)
  next
    case True
    have "(2::nat) ^ 7 < 2 ^ (32 - 7 * i)"
      using True 1(2) by (simp add: word_le_nat_alt)
    then have i: "7 < 32 - 7 * i"
      by (rule power_less_imp_less_exp [rotated]) simp
    then have e: "32 - 7 * i = 32 - 7 * Suc i + 7" "7 * Suc i < 32" by auto
    have "unat (drop_bit 7 v) < 2 ^ (32 - 7 * Suc i)"
      using 1(2) unfolding unat_drop_bit_7 e(1) power_add by (simp add: div_less_iff_less_mult)
    note IH = 1(1) [OF True this e(2), of m]
    have "varint_unpack_loop input m (Suc i) (parsed OR push_bit (7 * i) (take_bit 7 v)) =
      Inr ((parsed OR push_bit (7 * i) (take_bit 7 v)) OR push_bit (7 * Suc i) (drop_bit 7 v),
           Suc i + length (varint_uint32_pack (drop_bit 7 v)) - 1)"
      by (rule IH) (use d' p n 1(5) True in auto)
    moreover have "(parsed OR push_bit (7 * i) (take_bit 7 v)) OR push_bit (7 * Suc i) (drop_bit 7 v)
        = parsed OR push_bit (7 * i) v"
      using groups [of "7 * i" v] by (simp add: or.assoc add.commute)
    ultimately show ?thesis
      using n b p True 1(3) more_byte [of v] by (simp add: Let_def del: push_bit_and)
  qed
qed

lemma varint_unpack_pack:
  assumes "length (varint_uint32_pack v) \<le> n"
  shows "varint_uint32_unpack (varint_uint32_pack v @ rest) n = Inr (v, length (varint_uint32_pack v)) \<and>
    varint_uint32_length v = length (varint_uint32_pack v) \<and> varint_uint32_length v \<le> 5"
proof -
  have l: "0 < length (varint_uint32_pack v)"
    by (subst varint_uint32_pack.simps) simp
  have "varint_unpack_loop (varint_uint32_pack v @ rest) n 0 0 = Inr (v, length (varint_uint32_pack v) - 1)"
    using varint_unpack_loop_pack [of v 0 "varint_uint32_pack v @ rest" rest n 0] assms
      unsigned_less [of v, where ?'a = nat] by simp
  moreover have "varint_uint32_length v \<le> 5"
    using varint_length_bound [of v 4] unsigned_less [of v, where ?'a = nat] by simp
  ultimately show ?thesis
    using l by (simp add: varint_uint32_unpack_def varint_length)
qed

text \<open>Unpacking what was packed gives the value back and the number of bytes written, whatever
  follows in the input; the length function announces that number, which is at most 5.\<close>

theorem varint_uint32_roundtrip:
  assumes "length (varint_uint32_pack v) \<le> n"
  shows "varint_uint32_unpack (varint_uint32_pack v @ rest) n = Inr (v, length (varint_uint32_pack v)) \<and>
    varint_uint32_length v = length (varint_uint32_pack v) \<and> varint_uint32_length v \<le> 5"
  using assms by (rule varint_unpack_pack)

lemma varint_uint32_roundtrip_witness:
  "varint_uint32_unpack (varint_uint32_pack 300 @ [7]) 3 = Inr (300, 2) \<and> varint_uint32_pack 300 = [0xAC, 2]"
proof -
  have "varint_uint32_pack 300 = [0xAC, 2]" by code_simp
  with varint_uint32_roundtrip [of 300 3 "[7]"] show ?thesis by simp
qed

text \<open>The sign folding and its inverse.\<close>

lemma zigzag_range:
  assumes "- (2 ^ 30) < value" and "value < 2 ^ 30"
  shows "varint_zigzag value = Inr (word_of_int (if value \<ge> 0 then 2 * value else - 2 * value - 1))"
  using assms by (simp add: varint_zigzag_def int32_checked_def mult.commute)

lemma zigzag_inverse:
  assumes "- (2 ^ 30) < value" and "value < 2 ^ 30"
  defines "v \<equiv> (word_of_int (if value \<ge> 0 then 2 * value else - 2 * value - 1) :: u32)"
  shows "(if v AND 1 \<noteq> 0 then sint (v + 1) sdiv (-2) else uint (v div 2)) = value"
proof (cases "value \<ge> 0")
  case True
  have u: "uint v = 2 * value"
    unfolding v_def uint_word_of_int using True assms(1,2) by simp
  then have "v AND 1 = 0"
    by (simp add: and_one_eq word_uint_eq_iff uint_mod_distrib)
  moreover have "uint (v div 2) = value"
    using u by (simp add: uint_div_distrib)
  ultimately show ?thesis by simp
next
  case False
  have u: "uint v = - 2 * value - 1"
    unfolding v_def uint_word_of_int using False assms(1,2) by simp
  have "v AND 1 \<noteq> 0"
  proof -
    have "uint (v mod 2) = 1"
      using u False by (simp add: uint_mod_distrib) presburger
    then show ?thesis unfolding and_one_eq by (metis uint_0_eq zero_neq_one)
  qed
  moreover have "sint (v + 1) = - 2 * value"
  proof -
    have "uint (v + 1) = - 2 * value"
      using u assms(1,2) False by (simp add: uint_word_ariths)
    then show ?thesis
      using assms(1,2) False by (simp add: sint_uint signed_take_bit_int_eq_self)
  qed
  moreover have "(- 2 * value) sdiv (- 2) = value"
    using False by (simp add: signed_divide_int_def sgn_if)
  ultimately show ?thesis by simp
qed

text \<open>Signed values strictly between \<open>-2^30\<close> and \<open>2^30\<close> are packed without overflow and
  unpacked to themselves.\<close>

theorem varint_int32_roundtrip:
  assumes "- (2 ^ 30) < value" and "value < 2 ^ 30"
  shows "\<exists>bytes. varint_int32_pack value = Inr bytes \<and> varint_int32_length value = Inr (length bytes) \<and>
    (\<forall>rest. varint_int32_unpack (bytes @ rest) (length bytes + length rest) = Inr (value, length bytes))"
  using varint_unpack_pack [of "word_of_int (if value \<ge> 0 then 2 * value else - 2 * value - 1)"]
    zigzag_inverse [OF assms]
  by (simp add: varint_int32_pack_def varint_int32_length_def varint_int32_unpack_def
      zigzag_range [OF assms] varint_length)

lemma varint_int32_roundtrip_witness:
  "\<exists>bytes. varint_int32_pack (-300) = Inr bytes \<and> varint_int32_unpack (bytes @ [1]) (length bytes + 1) = Inr (-300, length bytes)"
  using varint_int32_roundtrip [of "-300"] by (auto dest: spec [of _ "[1]"])

text \<open>When every byte of the input asks for another one, the loop runs out of input and the number
  of bytes reported as consumed is one more than the input has.\<close>

lemma varint_unpack_unterminated:
  assumes "length input = n" and "n \<le> 4" and "\<forall>b \<in> set input. b AND 0x80 \<noteq> 0"
  shows "\<exists>v. varint_uint32_unpack input n = Inr (v, n + 1)"
proof -
  have "\<exists>v. varint_unpack_loop input m i parsed = Inr (v, n)" if "i + m = n" for m i parsed
    using that
  proof (induction m arbitrary: i parsed)
    case 0
    then show ?case by simp
  next
    case (Suc m)
    then have "input ! i AND 0x80 \<noteq> 0" using assms(1,3) by simp
    with Suc assms(1,2) show ?case by (simp add: Let_def)
  qed
  from this [of 0 n 0] show ?thesis by (auto simp: varint_uint32_unpack_def)
qed

end
