(* ===== verification/Bit_Lib.thy ===== *)
theory Bit_Lib
  imports SubGhz_Blocks
begin

text \<open>
  Bit arrays, \<^verbatim>\<open>lib/bit_lib/bit_lib.c\<close>: bytes with the most significant bit first. Positions
  and lengths are natural numbers (the C types are \<^verbatim>\<open>size_t\<close> and \<^verbatim>\<open>uint8_t\<close>); an access
  outside the array is a fault.
\<close>

unbundle bit_operations_syntax

section \<open>Access\<close>

definition bit_lib_get_bit :: "u8 list \<Rightarrow> nat \<Rightarrow> fault + bool" where
  "bit_lib_get_bit data position =
     bind_r (rd data (position div 8)) (\<lambda>v. Inr (drop_bit (7 - position mod 8) v AND 1 \<noteq> 0))"

definition bit_lib_set_bit :: "u8 list \<Rightarrow> nat \<Rightarrow> bool \<Rightarrow> fault + u8 list" where
  "bit_lib_set_bit data position b =
     bind_r (rd data (position div 8)) (\<lambda>v.
       wr data (position div 8)
         (if b then v OR push_bit (7 - position mod 8) 1
          else v AND NOT (push_bit (7 - position mod 8) 1)))"

definition bit_lib_push_bit :: "u8 list \<Rightarrow> nat \<Rightarrow> bool \<Rightarrow> fault + u8 list" where
  "bit_lib_push_bit data data_size b =
     (if data_size = 0 then Inl OutOfBounds
      else let last_index = data_size - 1
        in bind_r (for_each (\<lambda>i d. bind_r (rd d i) (\<lambda>x. bind_r (rd d (i + 1)) (\<lambda>y.
               wr d i (push_bit 1 x OR (drop_bit 7 y AND 1))))) [0..<last_index] data)
           (\<lambda>d. bind_r (rd d last_index) (\<lambda>x. wr d last_index (push_bit 1 x OR of_bool b))))"

definition bit_lib_set_bits :: "u8 list \<Rightarrow> nat \<Rightarrow> u8 \<Rightarrow> nat \<Rightarrow> fault + u8 list" where
  "bit_lib_set_bits data position byte len =
     (if len \<le> 8 \<and> len > 0 then
        for_each (\<lambda>i d. bit_lib_set_bit d (position + i) (drop_bit (len - 1 - i) byte AND 1 \<noteq> 0))
          [0..<len] data
      else Inl FuriCheck)"

text \<open>A length above 8 makes the shift count negative.\<close>

definition bit_lib_get_bits :: "u8 list \<Rightarrow> nat \<Rightarrow> nat \<Rightarrow> fault + u8" where
  "bit_lib_get_bits data position len =
     (if len > 8 then Inl UndefinedBehaviour
      else let shift = position mod 8
        in if shift = 0 then bind_r (rd data (position div 8)) (\<lambda>v. Inr (drop_bit (8 - len) v))
           else if shift + len \<le> 8 then
             bind_r (rd data (position div 8)) (\<lambda>v. Inr (drop_bit (8 - len) (push_bit shift v)))
           else bind_r (rd data (position div 8)) (\<lambda>v.
             bind_r (rd data (position div 8 + 1)) (\<lambda>w.
               Inr (drop_bit (8 - len) (push_bit shift v OR drop_bit (8 - shift) w)))))"

text \<open>
  The wider readers take whole bytes, each shifted to its place, and end with the rest:
  \<open>k\<close> is the number of whole bytes the branch of the code reads from byte \<open>j\<close> on.
\<close>

fun get_bits_chain :: "u8 list \<Rightarrow> nat \<Rightarrow> nat \<Rightarrow> nat \<Rightarrow> nat \<Rightarrow> 'a::len word \<Rightarrow> fault + 'a word" where
  "get_bits_chain data position len j 0 v =
     bind_r (bit_lib_get_bits data (position + 8 * j) (len - 8 * j)) (\<lambda>b. Inr (v OR ucast b))"
| "get_bits_chain data position len j (Suc k) v =
     bind_r (bit_lib_get_bits data (position + 8 * j) 8) (\<lambda>b.
       get_bits_chain data position len (Suc j) k (v OR push_bit (len - 8 * Suc j) (ucast b)))"

definition bit_lib_get_bits_16 :: "u8 list \<Rightarrow> nat \<Rightarrow> nat \<Rightarrow> fault + u16" where
  "bit_lib_get_bits_16 data position len =
     (if len \<le> 8 then get_bits_chain data position len 0 0 0
      else get_bits_chain data position len 0 1 0)"

definition bit_lib_get_bits_32 :: "u8 list \<Rightarrow> nat \<Rightarrow> nat \<Rightarrow> fault + u32" where
  "bit_lib_get_bits_32 data position len =
     (if len \<le> 8 then get_bits_chain data position len 0 0 0
      else if len \<le> 16 then get_bits_chain data position len 0 1 0
      else if len \<le> 24 then get_bits_chain data position len 0 2 0
      else get_bits_chain data position len 0 3 0)"

definition bit_lib_get_bits_64 :: "u8 list \<Rightarrow> nat \<Rightarrow> nat \<Rightarrow> fault + u64" where
  "bit_lib_get_bits_64 data position len =
     (if len \<le> 8 then get_bits_chain data position len 0 0 0
      else if len \<le> 16 then get_bits_chain data position len 0 1 0
      else if len \<le> 24 then get_bits_chain data position len 0 2 0
      else if len \<le> 32 then get_bits_chain data position len 0 3 0
      else if len \<le> 40 then get_bits_chain data position len 0 4 0
      else if len \<le> 48 then get_bits_chain data position len 0 5 0
      else if len \<le> 56 then get_bits_chain data position len 0 6 0
      else get_bits_chain data position len 0 7 0)"

section \<open>Parity\<close>

datatype BitLibParity =
  BitLibParityEven | BitLibParityOdd | BitLibParityAlways0 | BitLibParityAlways1

definition builtin_popcount :: "u32 \<Rightarrow> nat" where
  "builtin_popcount w = length (filter (bit w) [0..<32])"

definition bit_lib_get_bit_count :: "u32 \<Rightarrow> u8" where
  "bit_lib_get_bit_count w = of_nat (builtin_popcount w)"

definition bit_lib_test_parity_32 :: "u32 \<Rightarrow> BitLibParity \<Rightarrow> fault + bool" where
  "bit_lib_test_parity_32 bits parity =
     (case parity of
        BitLibParityEven \<Rightarrow> Inr (odd (builtin_popcount bits))
      | BitLibParityOdd \<Rightarrow> Inr (\<not> odd (builtin_popcount bits))
      | _ \<Rightarrow> Inl FuriCrash)"

definition test_parity_block ::
    "u8 list \<Rightarrow> nat \<Rightarrow> BitLibParity \<Rightarrow> nat \<Rightarrow> fault + bool" where
  "test_parity_block bits position parity parity_length =
     (case parity of
        BitLibParityAlways0 \<Rightarrow>
          bind_r (bit_lib_get_bit bits (position + parity_length - 1)) (\<lambda>b. Inr (\<not> b))
      | BitLibParityAlways1 \<Rightarrow> bit_lib_get_bit bits (position + parity_length - 1)
      | _ \<Rightarrow> bind_r (bit_lib_get_bits_32 bits position parity_length)
               (\<lambda>w. bit_lib_test_parity_32 w parity))"

fun test_parity_blocks ::
    "u8 list \<Rightarrow> nat \<Rightarrow> BitLibParity \<Rightarrow> nat \<Rightarrow> nat \<Rightarrow> fault + bool" where
  "test_parity_blocks bits position parity parity_length 0 = Inr True"
| "test_parity_blocks bits position parity parity_length (Suc n) =
     bind_r (test_parity_block bits position parity parity_length) (\<lambda>ok.
       if ok then test_parity_blocks bits (position + parity_length) parity parity_length n
       else Inr False)"

definition bit_lib_test_parity ::
    "u8 list \<Rightarrow> nat \<Rightarrow> nat \<Rightarrow> BitLibParity \<Rightarrow> nat \<Rightarrow> fault + bool" where
  "bit_lib_test_parity bits position len parity parity_length =
     (if parity_length = 0 then Inl UndefinedBehaviour
      else test_parity_blocks bits position parity parity_length (len div parity_length))"

text \<open>
  One block of \<^verbatim>\<open>bit_lib_add_parity\<close>: \<open>n\<close> bits are copied from \<open>spos\<close> to \<open>dpos\<close> while the parity
  word collects them.
\<close>

fun add_parity_copy ::
    "u8 list \<Rightarrow> nat \<Rightarrow> nat \<Rightarrow> nat \<Rightarrow> u32 \<Rightarrow> u8 list \<Rightarrow> fault + u32 \<times> u8 list" where
  "add_parity_copy data spos dpos 0 parity_word dest = Inr (parity_word, dest)"
| "add_parity_copy data spos dpos (Suc n) parity_word dest =
     bind_r (bit_lib_get_bit data spos) (\<lambda>b.
       bind_r (bit_lib_set_bit dest dpos b) (\<lambda>dest'.
         add_parity_copy data (Suc spos) (Suc dpos) n (push_bit 1 parity_word OR of_bool b) dest'))"

definition parity_bit :: "BitLibParity \<Rightarrow> u32 \<Rightarrow> fault + bool" where
  "parity_bit parity parity_word =
     (case parity of
        BitLibParityAlways0 \<Rightarrow> Inr False
      | BitLibParityAlways1 \<Rightarrow> Inr True
      | _ \<Rightarrow> bind_r (bit_lib_test_parity_32 parity_word BitLibParityOdd) (\<lambda>t.
               Inr ((t \<noteq> (parity = BitLibParityOdd)) \<noteq> True)))"

text \<open>
  The blocks, with \<open>n\<close> of them left. A parity length of 0 or 1 makes the loop write one parity
  bit after the other without ever reaching the end of the source: it runs out of the
  destination.
\<close>

fun add_parity_blocks ::
    "u8 list \<Rightarrow> nat \<Rightarrow> nat \<Rightarrow> nat \<Rightarrow> BitLibParity \<Rightarrow> nat \<Rightarrow> u8 list \<Rightarrow> fault + u8 list" where
  "add_parity_blocks data spos dpos parity_length parity 0 dest = Inr dest"
| "add_parity_blocks data spos dpos parity_length parity (Suc n) dest =
     bind_r (add_parity_copy data spos dpos (parity_length - 1) 0 dest) (\<lambda>(parity_word, d1).
       bind_r (parity_bit parity parity_word) (\<lambda>p.
         bind_r (bit_lib_set_bit d1 (dpos + parity_length - 1) p) (\<lambda>d2.
           add_parity_blocks data (spos + (parity_length - 1)) (dpos + parity_length)
             parity_length parity n d2)))"

definition bit_lib_add_parity ::
    "u8 list \<Rightarrow> nat \<Rightarrow> u8 list \<Rightarrow> nat \<Rightarrow> nat \<Rightarrow> nat \<Rightarrow> BitLibParity \<Rightarrow> fault + nat \<times> u8 list" where
  "bit_lib_add_parity data position dest dest_position source_length parity_length parity =
     (if source_length > 0 \<and> parity_length \<le> 1 then Inl OutOfBounds
      else let n = (source_length + parity_length - 2) div (parity_length - 1)
        in bind_r (add_parity_blocks data position dest_position parity_length parity n dest)
             (\<lambda>d. Inr (n * parity_length, d)))"

section \<open>Moving bits\<close>

record remove_state =
  rm_data :: "u8 list"
  rm_result :: nat
  rm_buffer :: u8
  rm_count :: nat

definition remove_step :: "nat \<Rightarrow> nat \<Rightarrow> nat \<Rightarrow> remove_state \<Rightarrow> fault + remove_state" where
  "remove_step position n counter s =
     bind_r (if (counter + 1) mod n \<noteq> 0
             then bind_r (bit_lib_get_bit (rm_data s) (position + counter)) (\<lambda>b.
                    Inr (s\<lparr>rm_buffer := push_bit 1 (rm_buffer s) OR of_bool b, rm_count := rm_count s + 1\<rparr>))
             else Inr s)
       (\<lambda>s1. if rm_count s1 = 8
         then bind_r (bit_lib_set_bits (rm_data s1) (position + rm_result s1) (rm_buffer s1) 8) (\<lambda>d.
                Inr \<lparr>rm_data = d, rm_result = rm_result s1 + 8, rm_buffer = 0, rm_count = 0\<rparr>)
         else Inr s1)"

definition bit_lib_remove_bit_every_nth ::
    "u8 list \<Rightarrow> nat \<Rightarrow> nat \<Rightarrow> nat \<Rightarrow> fault + nat \<times> u8 list" where
  "bit_lib_remove_bit_every_nth data position len n =
     (if n = 0 \<and> len > 0 then Inl UndefinedBehaviour
      else bind_r (for_each (remove_step position n) [0..<len]
             \<lparr>rm_data = data, rm_result = 0, rm_buffer = 0, rm_count = 0\<rparr>)
        (\<lambda>s. if rm_count s \<noteq> 0
          then bind_r (bit_lib_set_bits (rm_data s) (position + rm_result s) (rm_buffer s) (rm_count s))
                 (\<lambda>d. Inr (rm_result s + rm_count s, d))
          else Inr (rm_result s, rm_data s)))"

definition bit_lib_copy_bits ::
    "u8 list \<Rightarrow> nat \<Rightarrow> nat \<Rightarrow> u8 list \<Rightarrow> nat \<Rightarrow> fault + u8 list" where
  "bit_lib_copy_bits data position len source source_position =
     for_each (\<lambda>i d. bind_r (bit_lib_get_bit source (source_position + i)) (\<lambda>b.
         bit_lib_set_bit d (position + i) b)) [0..<len] data"

text \<open>The swaps of \<^verbatim>\<open>bit_lib_reverse_bits\<close>; with a length of 0 the upper index wraps to the
  largest \<^verbatim>\<open>size_t\<close> and the first access is far outside.\<close>

definition swap_bits :: "nat \<Rightarrow> nat \<Rightarrow> u8 list \<Rightarrow> fault + u8 list" where
  "swap_bits a b d =
     bind_r (bit_lib_get_bit d a) (\<lambda>tmp. bind_r (bit_lib_get_bit d b) (\<lambda>v.
       bind_r (bit_lib_set_bit d a v) (\<lambda>d1. bit_lib_set_bit d1 b tmp)))"

definition bit_lib_reverse_bits :: "u8 list \<Rightarrow> nat \<Rightarrow> nat \<Rightarrow> fault + u8 list" where
  "bit_lib_reverse_bits data position len =
     (if len = 0 then Inl OutOfBounds
      else for_each (\<lambda>i. swap_bits (position + i) (position + (len - 1 - i))) [0..<len div 2] data)"

definition bit_lib_reverse_16_fast :: "u16 \<Rightarrow> u16" where
  "bit_lib_reverse_16_fast w =
     (drop_bit 15 (w AND 0x8000) OR drop_bit 13 (w AND 0x4000) OR drop_bit 11 (w AND 0x2000)
      OR drop_bit 9 (w AND 0x1000) OR drop_bit 7 (w AND 0x0800) OR drop_bit 5 (w AND 0x0400)
      OR drop_bit 3 (w AND 0x0200) OR drop_bit 1 (w AND 0x0100) OR push_bit 1 (w AND 0x0080)
      OR push_bit 3 (w AND 0x0040) OR push_bit 5 (w AND 0x0020) OR push_bit 7 (w AND 0x0010)
      OR push_bit 9 (w AND 0x0008) OR push_bit 11 (w AND 0x0004) OR push_bit 13 (w AND 0x0002)
      OR push_bit 15 (w AND 0x0001))"

definition bit_lib_reverse_8_fast :: "u8 \<Rightarrow> u8" where
  "bit_lib_reverse_8_fast byte =
     (let b1 = drop_bit 4 (byte AND 0xF0) OR push_bit 4 (byte AND 0x0F);
          b2 = drop_bit 2 (b1 AND 0xCC) OR push_bit 2 (b1 AND 0x33)
      in drop_bit 1 (b2 AND 0xAA) OR push_bit 1 (b2 AND 0x55))"

section \<open>Checksums\<close>

text \<open>Reversing the bits of one byte with \<^verbatim>\<open>bit_lib_reverse_bits\<close> on an array of one byte.\<close>

definition reverse_byte :: "u8 \<Rightarrow> fault + u8" where
  "reverse_byte b = bind_r (bit_lib_reverse_bits [b] 0 8) (\<lambda>d. rd d 0)"

definition bit_lib_crc8 :: "u8 list \<Rightarrow> u8 \<Rightarrow> u8 \<Rightarrow> bool \<Rightarrow> bool \<Rightarrow> u8 \<Rightarrow> fault + u16" where
  "bit_lib_crc8 data polynom init ref_in ref_out xor_out =
     bind_r (for_each (\<lambda>m crc.
         bind_r (if ref_in then reverse_byte m else Inr m) (\<lambda>byte.
           Inr ((crc_shl polynom ^^ 8) (crc XOR byte)))) data init)
       (\<lambda>crc. bind_r (if ref_out then reverse_byte crc else Inr crc) (\<lambda>c.
         Inr (ucast (c XOR xor_out))))"

definition crc16_bit :: "u16 \<Rightarrow> u16 \<Rightarrow> bool \<Rightarrow> u16" where
  "crc16_bit polynom crc b =
     (if bit crc 15 \<noteq> b then push_bit 1 crc XOR polynom else push_bit 1 crc)"

definition bit_lib_crc16 :: "u8 list \<Rightarrow> u16 \<Rightarrow> u16 \<Rightarrow> bool \<Rightarrow> bool \<Rightarrow> u16 \<Rightarrow> u16" where
  "bit_lib_crc16 data polynom init ref_in ref_out xor_out =
     (let crc = foldl (\<lambda>crc m.
            let byte = (if ref_in then ucast (drop_bit 8 (bit_lib_reverse_16_fast (ucast m))) else m)
            in foldl (crc16_bit polynom) crc (map (\<lambda>j. bit byte (7 - j)) [0..<8])) init data;
          crc' = (if ref_out then bit_lib_reverse_16_fast crc else crc)
      in crc' XOR xor_out)"

section \<open>Numbers\<close>

definition bit_lib_num_to_bytes_be :: "u64 \<Rightarrow> nat \<Rightarrow> u8 list \<Rightarrow> fault + u8 list" where
  "bit_lib_num_to_bytes_be src len dest =
     (if len \<le> 8 then
        bind_r (for_each (\<lambda>i (s, d). bind_r (wr d i (ucast s)) (\<lambda>d'. Inr (drop_bit 8 s, d')))
            (rev [0..<len]) (src, dest)) (\<lambda>(s, d). Inr d)
      else Inl FuriCheck)"

definition bit_lib_num_to_bytes_le :: "u64 \<Rightarrow> nat \<Rightarrow> u8 list \<Rightarrow> fault + u8 list" where
  "bit_lib_num_to_bytes_le src len dest =
     (if len \<le> 8 then for_each (\<lambda>i d. wr d i (ucast (drop_bit (8 * i) src))) [0..<len] dest
      else Inl FuriCheck)"

definition bit_lib_bytes_to_num_be :: "u8 list \<Rightarrow> nat \<Rightarrow> fault + u64" where
  "bit_lib_bytes_to_num_be src len =
     (if len \<le> 8 then
        for_each (\<lambda>i r. bind_r (rd src i) (\<lambda>b. Inr (push_bit 8 r OR ucast b))) [0..<len] 0
      else Inl FuriCheck)"

definition bit_lib_bytes_to_num_le :: "u8 list \<Rightarrow> nat \<Rightarrow> fault + u64" where
  "bit_lib_bytes_to_num_le src len =
     (if len \<le> 8 then
        for_each (\<lambda>i r. bind_r (rd src i) (\<lambda>b. Inr (r OR push_bit (8 * i) (ucast b)))) [0..<len] 0
      else Inl FuriCheck)"

definition bit_lib_bytes_to_num_bcd :: "u8 list \<Rightarrow> nat \<Rightarrow> fault + u64 \<times> bool" where
  "bit_lib_bytes_to_num_bcd src len =
     (if len \<le> 9 then
        for_each (\<lambda>i (r, ok). bind_r (rd src i) (\<lambda>b.
            let n1 = b div 16; n2 = b mod 16
            in Inr ((r * 10 + ucast n1) * 10 + ucast n2, if n1 > 9 \<or> n2 > 9 then False else ok)))
          [0..<len] (0, True)
      else Inl FuriCheck)"

section \<open>Single bits\<close>

definition set_arr_bit :: "u8 list \<Rightarrow> nat \<Rightarrow> bool \<Rightarrow> u8 list" where
  "set_arr_bit d p b = d[p div 8 :=
     if b then d ! (p div 8) OR push_bit (7 - p mod 8) 1
     else d ! (p div 8) AND NOT (push_bit (7 - p mod 8) 1)]"

lemma length_set_arr_bit [simp]: "length (set_arr_bit d p b) = length d"
  by (simp add: set_arr_bit_def)

lemma get_bit_Inr [simp]:
  "p < 8 * length d \<Longrightarrow> bit_lib_get_bit d p = Inr (arr_bit d p)"
  by (simp add: bit_lib_get_bit_def bit_index drop_bit_and_1 arr_bit_def)

lemma set_bit_Inr [simp]:
  "p < 8 * length d \<Longrightarrow> bit_lib_set_bit d p b = Inr (set_arr_bit d p b)"
  by (simp add: bit_lib_set_bit_def set_arr_bit_def bit_index)

lemma arr_bit_set [simp]:
  assumes "p < 8 * length d"
  shows "arr_bit (set_arr_bit d p b) j = (if j = p then b else arr_bit d j)"
proof -
  have one: "bit (2 ^ n :: u8) m \<longleftrightarrow> m = n \<and> n < 8" for n m :: nat
    by (auto simp: bit_simps)
  have "7 - j mod 8 = 7 - p mod 8 \<longleftrightarrow> j mod 8 = p mod 8"
    using mod_less_divisor [of 8 j] mod_less_divisor [of 8 p] by linarith
  moreover have "j = p \<longleftrightarrow> j div 8 = p div 8 \<and> j mod 8 = p mod 8"
    by (metis div_mult_mod_eq)
  ultimately have "j = p \<longleftrightarrow> j div 8 = p div 8 \<and> 7 - j mod 8 = 7 - p mod 8"
    by simp
  then show ?thesis
    using assms unfolding set_arr_bit_def
    by (simp add: arr_bit_update bit_index) (auto simp: arr_bit_def bit_or_iff bit_and_iff bit_not_iff one)
qed

section \<open>Reading several bits\<close>

definition arr_bits :: "u8 list \<Rightarrow> nat \<Rightarrow> nat \<Rightarrow> bool list" where
  "arr_bits d p n = map (arr_bit d) [p..<p + n]"

lemma length_arr_bits [simp]: "length (arr_bits d p n) = n"
  by (simp add: arr_bits_def)

lemma nth_arr_bits [simp]: "i < n \<Longrightarrow> arr_bits d p n ! i = arr_bit d (p + i)"
  by (simp add: arr_bits_def)

lemma arr_bits_append: "arr_bits d p (m + n) = arr_bits d p m @ arr_bits d (p + m) n"
proof -
  have "[p..<p + (m + n)] = [p..<p + m] @ [p + m..<p + m + n]"
    using upt_add_eq_append [of p "p + m" n] by (simp only: add.assoc le_add1)
  then show ?thesis by (simp only: arr_bits_def map_append)
qed

lemma arr_bit_split:
  assumes "s < 8"
  shows "arr_bit d (8 * q + s) = bit (d ! q) (7 - s)"
    and "arr_bit d (8 * q + 8 + s) = bit (d ! Suc q) (7 - s)"
proof -
  have r: "arr_bit d (8 * r + s) = bit (d ! r) (7 - s)" for r
    using assms by (simp add: arr_bit_def)
  show "arr_bit d (8 * q + s) = bit (d ! q) (7 - s)" by (rule r)
  have "8 * q + 8 + s = 8 * Suc q + s" by simp
  then show "arr_bit d (8 * q + 8 + s) = bit (d ! Suc q) (7 - s)" by (simp only: r)
qed

lemma get_bits_spec:
  assumes "n \<le> 8" and "0 < n" and "p + n \<le> 8 * length d"
  shows "bit_lib_get_bits d p n = Inr (word_of_bits (arr_bits d p n))"
proof -
  define q s where "q = p div 8" and "s = p mod 8"
  have p: "p = 8 * q + s" and s: "s < 8" by (simp_all add: q_def s_def)
  have q: "q < length d" using assms p by linarith
  have one: "drop_bit (8 - n) (push_bit s (d ! q)) = word_of_bits (arr_bits d p n)" if "s + n \<le> 8"
  proof (rule bit_word_eqI)
    fix i assume "i < LENGTH(8)"
    then have "arr_bit d (p + (n - 1 - i)) = bit (d ! q) (7 - (s + (n - 1 - i)))" if "i < n"
      using arr_bit_split(1) [of "s + (n - 1 - i)" d q] p \<open>s + n \<le> 8\<close> that by (simp add: add.assoc)
    moreover have "7 - (s + (n - 1 - i)) = 8 - n + i - s" if "i < n"
      using \<open>s + n \<le> 8\<close> that by linarith
    ultimately show "bit (drop_bit (8 - n) (push_bit s (d ! q))) i = bit (word_of_bits (arr_bits d p n) :: u8) i"
      using that \<open>i < LENGTH(8)\<close> assms(1) by (auto simp: bit_simps bit_word_of_bits)
  qed
  have two: "drop_bit (8 - n) (push_bit s (d ! q) OR drop_bit (8 - s) (d ! Suc q))
      = word_of_bits (arr_bits d p n)" if "\<not> s + n \<le> 8"
  proof (rule bit_word_eqI)
    fix i assume i: "i < LENGTH(8)"
    consider "n \<le> i" | "i < n" "s + (n - 1 - i) < 8" | "i < n" "8 \<le> s + (n - 1 - i)" by linarith
    then show "bit (drop_bit (8 - n) (push_bit s (d ! q) OR drop_bit (8 - s) (d ! Suc q))) i
        = bit (word_of_bits (arr_bits d p n) :: u8) i"
    proof cases
      case 1
      then show ?thesis
        using i assms(1) by (auto simp: bit_simps bit_word_of_bits dest: bit_imp_le_length)
    next
      case 2
      then have "arr_bit d (p + (n - 1 - i)) = bit (d ! q) (7 - (s + (n - 1 - i)))"
        using arr_bit_split(1) [of "s + (n - 1 - i)" d q] p by (simp add: add.assoc)
      moreover have "7 - (s + (n - 1 - i)) = 8 - n + i - s" "s \<le> 8 - n + i" "8 \<le> 8 - s + (8 - n + i)"
        using 2 assms(1) by linarith+
      ultimately show ?thesis
        using 2 i assms(1) by (auto simp: bit_simps bit_word_of_bits dest: bit_imp_le_length)
    next
      case 3
      define t where "t = s + (n - 1 - i) - 8"
      have "p + (n - 1 - i) = 8 * q + 8 + t" "t < 8"
        using p 3 s assms(1) unfolding t_def by linarith+
      then have "arr_bit d (p + (n - 1 - i)) = bit (d ! Suc q) (7 - t)"
        by (simp only: arr_bit_split(2))
      moreover have "8 + (8 - s) + i - n = 7 - t" "8 - n + i < s"
        using 3 assms(1) s unfolding t_def by linarith+
      ultimately show ?thesis
        using 3 i assms(1) by (auto simp: bit_simps bit_word_of_bits dest: bit_imp_le_length)
    qed
  qed
  have "Suc q < length d" if "\<not> s + n \<le> 8"
    using assms p that by linarith
  then show ?thesis
    using assms(1) q one two unfolding bit_lib_get_bits_def Let_def
    by (auto simp flip: q_def s_def)
qed

lemma word_of_bits_append:
  "(word_of_bits (xs @ ys) :: 'a::len word) = push_bit (length ys) (word_of_bits xs) OR word_of_bits ys"
  by (rule bit_word_eqI) (auto simp: bit_simps bit_word_of_bits nth_append dest: bit_imp_le_length)

lemma ucast_word_of_bits:
  "length bs \<le> LENGTH('b) \<Longrightarrow> ucast (word_of_bits bs :: 'b::len word) = (word_of_bits bs :: 'a::len word)"
  by (rule bit_word_eqI) (auto simp: bit_simps bit_word_of_bits)

lemma get_bits_chain_spec:
  assumes "8 * (j + k) < n" and "n \<le> 8 * Suc (j + k)" and "p + n \<le> 8 * length d"
    and "v = push_bit (n - 8 * j) (word_of_bits (arr_bits d p (8 * j)))"
  shows "get_bits_chain d p n j k v = Inr (word_of_bits (arr_bits d p n) :: 'a::len word)"
  using assms
proof (induction k arbitrary: j v)
  case 0
  have "bit_lib_get_bits d (p + 8 * j) (n - 8 * j) = Inr (word_of_bits (arr_bits d (p + 8 * j) (n - 8 * j)))"
    by (rule get_bits_spec) (use 0 in auto)
  moreover have "arr_bits d p n = arr_bits d p (8 * j) @ arr_bits d (p + 8 * j) (n - 8 * j)"
    using 0 by (simp flip: arr_bits_append)
  ultimately show ?case
    using 0 by (simp add: word_of_bits_append ucast_word_of_bits)
next
  case (Suc k)
  have "bit_lib_get_bits d (p + 8 * j) 8 = Inr (word_of_bits (arr_bits d (p + 8 * j) 8))"
    by (rule get_bits_spec) (use Suc.prems in auto)
  moreover have "arr_bits d p (8 * Suc j) = arr_bits d p (8 * j) @ arr_bits d (p + 8 * j) 8"
    by (simp flip: arr_bits_append add: add.commute)
  then have "v OR push_bit (n - 8 * Suc j) (word_of_bits (arr_bits d (p + 8 * j) 8)) =
      push_bit (n - 8 * Suc j) (word_of_bits (arr_bits d p (8 * Suc j)) :: 'a word)"
    using Suc.prems by (simp add: word_of_bits_append push_bit_or push_bit_push_bit)
  ultimately show ?case
    using Suc.IH [of "Suc j"] Suc.prems by (simp add: ucast_word_of_bits)
qed

lemma get_bits_chain_0:
  "8 * k < n \<Longrightarrow> n \<le> 8 * Suc k \<Longrightarrow> p + n \<le> 8 * length d \<Longrightarrow>
    get_bits_chain d p n 0 k 0 = Inr (word_of_bits (arr_bits d p n) :: 'a::len word)"
  using get_bits_chain_spec [of 0 k n p d 0] by (simp add: word_of_bits_def arr_bits_def)

text \<open>The 64 bit reader returns the number the bits at the position spell, most significant
  first, in each of its eight branches, and reads nothing outside the array; likewise the 32 bit
  reader up to 32 bits.\<close>

theorem get_bits_64_reads_bits:
  assumes "0 < n" and "n \<le> 64" and "p + n \<le> 8 * length d"
  shows "bit_lib_get_bits_64 d p n = Inr (word_of_bits (arr_bits d p n)) \<and>
    (n \<le> 32 \<longrightarrow> bit_lib_get_bits_32 d p n = Inr (word_of_bits (arr_bits d p n)))"
  using assms
  by (auto simp: bit_lib_get_bits_64_def bit_lib_get_bits_32_def get_bits_chain_0
      simp del: get_bits_chain.simps)

lemma get_bits_64_reads_bits_witness:
  "bit_lib_get_bits_64 [0x12, 0x34, 0x56] 4 12 = Inr 0x234"
proof -
  have "(word_of_bits (arr_bits [0x12, 0x34, 0x56] 4 12) :: u64) = 0x234" by code_simp
  with get_bits_64_reads_bits [of 12 4 "[0x12, 0x34, 0x56]"] show ?thesis by simp
qed

section \<open>Writing\<close>

lemma set_bits_spec:
  assumes "0 < n" and "n \<le> 8" and "p + n \<le> 8 * length d"
  shows "\<exists>d'. bit_lib_set_bits d p w n = Inr d' \<and> length d' = length d \<and>
    (\<forall>j. arr_bit d' j = (if p \<le> j \<and> j < p + n then bit w (n - 1 - (j - p)) else arr_bit d j))"
proof -
  have "\<exists>d'. for_each (\<lambda>i d. bit_lib_set_bit d (p + i) (drop_bit (n - 1 - i) w AND 1 \<noteq> 0)) [0..<n] d = Inr d' \<and>
    (length d' = length d \<and>
    (\<forall>j. arr_bit d' j = (if p \<le> j \<and> j < p + n then bit w (n - 1 - (j - p)) else arr_bit d j)))"
    by (rule for_each_upto) (use assms in \<open>auto simp: drop_bit_and_1\<close>)
  then show ?thesis
    using assms by (simp add: bit_lib_set_bits_def)
qed

text \<open>Bits written to an array read back, and the bits around them are untouched.\<close>

theorem set_bits_get_bits:
  assumes "0 < n" and "n \<le> 8" and "p + n \<le> 8 * length d"
  shows "\<exists>d'. bit_lib_set_bits d p w n = Inr d' \<and> bit_lib_get_bits d' p n = Inr (take_bit n w) \<and>
    length d' = length d \<and> (\<forall>j. j < p \<or> p + n \<le> j \<longrightarrow> arr_bit d' j = arr_bit d j)"
proof -
  obtain d' where d': "bit_lib_set_bits d p w n = Inr d'" "length d' = length d"
    "\<And>j. arr_bit d' j = (if p \<le> j \<and> j < p + n then bit w (n - 1 - (j - p)) else arr_bit d j)"
    using set_bits_spec [OF assms] by blast
  have "word_of_bits (arr_bits d' p n) = take_bit n w"
  proof (rule bit_word_eqI)
    fix i assume "i < LENGTH(8)"
    moreover have "n - 1 - (p + (n - 1 - i) - p) = i" "p \<le> p + (n - 1 - i)" "p + (n - 1 - i) < p + n" if "i < n"
      using that by auto
    ultimately show "bit (word_of_bits (arr_bits d' p n) :: u8) i = bit (take_bit n w) i"
      by (cases "i < n") (simp_all only: bit_word_of_bits bit_take_bit_iff length_arr_bits d'(3) nth_arr_bits, auto)
  qed
  then show ?thesis
    using d' get_bits_spec [of n p d'] assms by auto
qed

lemma set_bits_get_bits_witness:
  "\<exists>d'. bit_lib_set_bits [0xFF, 0xFF] 5 0x15 6 = Inr d' \<and> bit_lib_get_bits d' 5 6 = Inr 0x15"
  using set_bits_get_bits [of 6 5 "[0xFF, 0xFF]" "0x15"] by (auto simp: take_bit_eq_mask mask_numeral)

text \<open>Pushing a bit shifts the whole array left by one: every bit moves to the position before
  it, the first one falls out and the new one comes last.\<close>

theorem push_bit_shifts:
  assumes "d \<noteq> []"
  shows "\<exists>d'. bit_lib_push_bit d (length d) b = Inr d' \<and> length d' = length d \<and>
    (\<forall>j < 8 * length d. arr_bit d' j = (if Suc j = 8 * length d then b else arr_bit d (Suc j)))"
proof -
  define n where "n = length d - 1"
  have n: "length d = Suc n" using assms by (simp add: n_def)
  let ?body = "\<lambda>i d. bind_r (rd d i) (\<lambda>x. bind_r (rd d (i + 1)) (\<lambda>y. wr d i (push_bit 1 x OR (drop_bit 7 y AND 1))))"
  have "\<exists>e. for_each ?body [0..<n] d = Inr e \<and> (length e = length d \<and>
      (\<forall>i < length d. e ! i = (if i < n then shift_in (d ! i) (bit (d ! Suc i) 7) else d ! i)))"
    by (rule for_each_upto) (use n in \<open>auto simp: nth_list_update drop_bit_and_1 shift_in_def simp del: push_bit_Suc\<close>)
  then obtain e where e: "for_each ?body [0..<n] d = Inr e" "length e = length d"
      "\<And>i. i < length d \<Longrightarrow> e ! i = (if i < n then shift_in (d ! i) (bit (d ! Suc i) 7) else d ! i)"
    by blast
  define d' where "d' = e[n := shift_in (d ! n) b]"
  have "bit_lib_push_bit d (length d) b = Inr d'"
    using e n by (simp add: bit_lib_push_bit_def d'_def shift_in_def)
  moreover have "arr_bit d' j = (if Suc j = 8 * length d then b else arr_bit d (Suc j))" if "j < 8 * length d" for j
  proof -
    define q s where "q = j div 8" and "s = j mod 8"
    have j: "j = 8 * q + s" "s < 8" "q < length d" using that by (auto simp: q_def s_def)
    have "d' ! q = shift_in (d ! q) (if q = n then b else bit (d ! Suc q) 7)"
      using e(2,3) j(3) n by (auto simp: d'_def nth_list_update)
    then have l: "arr_bit d' j = (if s = 7 then (if q = n then b else bit (d ! Suc q) 7) else bit (d ! q) (6 - s))"
      using j by (auto simp: arr_bit_split bit_shift_in)
    show ?thesis
    proof (cases "s = 7")
      case True
      then have sj: "Suc j = 8 * Suc q + 0" using j by simp
      have "arr_bit d (Suc j) = bit (d ! Suc q) 7"
        unfolding sj by (subst arr_bit_split(1)) simp_all
      moreover have "Suc j = 8 * length d \<longleftrightarrow> q = n" using j True n by auto
      ultimately show ?thesis using l True by simp
    next
      case False
      then have sj: "Suc j = 8 * q + Suc s" "Suc s < 8" using j by simp_all
      have "arr_bit d (Suc j) = bit (d ! q) (6 - s)"
        unfolding sj(1) using sj(2) by (subst arr_bit_split(1)) simp_all
      moreover have "Suc j \<noteq> 8 * length d" using sj j(3) by linarith
      ultimately show ?thesis using l False by simp
    qed
  qed
  ultimately show ?thesis
    using e(2) by (auto simp: d'_def)
qed

lemma push_bit_shifts_witness:
  "\<exists>d'. bit_lib_push_bit [0x80, 0x01] (length [0x80, 0x01 :: u8]) True = Inr d' \<and> arr_bit d' 14 \<and> arr_bit d' 15"
proof -
  have "arr_bit [0x80, 0x01] 15" by code_simp
  with push_bit_shifts [of "[0x80, 0x01]" True] show ?thesis by fastforce
qed

section \<open>Moving bits\<close>

text \<open>Copying bits moves exactly the requested bits and leaves the rest of the destination.\<close>

theorem copy_bits_copies:
  assumes "p + n \<le> 8 * length d" and "q + n \<le> 8 * length src"
  shows "\<exists>d'. bit_lib_copy_bits d p n src q = Inr d' \<and> length d' = length d \<and>
    (\<forall>j. arr_bit d' j = (if p \<le> j \<and> j < p + n then arr_bit src (q + (j - p)) else arr_bit d j))"
  unfolding bit_lib_copy_bits_def
  by (rule for_each_upto) (use assms in auto)

text \<open>The positions of a region of \<open>n\<close> bits at \<open>p\<close> that the first \<open>i\<close> swaps of a reversal have
  visited.\<close>

definition swapped :: "nat \<Rightarrow> nat \<Rightarrow> nat \<Rightarrow> nat \<Rightarrow> bool" where
  "swapped p n i j \<longleftrightarrow> p \<le> j \<and> j < p + n \<and> (j < p + i \<or> p + n \<le> j + i)"

definition mirrored :: "u8 list \<Rightarrow> nat \<Rightarrow> nat \<Rightarrow> nat \<Rightarrow> u8 list \<Rightarrow> bool" where
  "mirrored d p n i e \<longleftrightarrow> length e = length d \<and>
     (\<forall>j. arr_bit e j = arr_bit d (if swapped p n i j then p + (n - 1 - (j - p)) else j))"

lemma swapped_Suc:
  assumes "i < n div 2"
  shows "swapped p n (Suc i) j \<longleftrightarrow> swapped p n i j \<or> j = p + i \<or> j = p + (n - 1 - i)"
    and "\<not> swapped p n i (p + i)" and "\<not> swapped p n i (p + (n - 1 - i))"
  using assms unfolding swapped_def by linarith+

lemma mirrored_step:
  assumes "i < n div 2" and "p + n \<le> 8 * length d" and "mirrored d p n i e"
  shows "\<exists>e'. swap_bits (p + i) (p + (n - 1 - i)) e = Inr e' \<and> mirrored d p n (Suc i) e'"
proof -
  let ?a = "p + i" and ?b = "p + (n - 1 - i)"
  let ?e = "set_arr_bit (set_arr_bit e ?a (arr_bit e ?b)) ?b (arr_bit e ?a)"
  have l: "length e = length d"
    and e: "\<And>j. arr_bit e j = arr_bit d (if swapped p n i j then p + (n - 1 - (j - p)) else j)"
    using assms(3) by (simp_all add: mirrored_def)
  have b: "?a < 8 * length e" "?b < 8 * length e" "?a < ?b"
    using assms(1,2) l by linarith+
  have ab: "p + (n - 1 - (?a - p)) = ?b" "p + (n - 1 - (?b - p)) = ?a"
    using assms(1) by linarith+
  have "arr_bit ?e j = arr_bit d (if swapped p n (Suc i) j then p + (n - 1 - (j - p)) else j)" for j
  proof (cases "j = ?a \<or> j = ?b")
    case True
    have "swapped p n (Suc i) ?a" "swapped p n (Suc i) ?b"
      using swapped_Suc(1) [OF assms(1)] by blast+
    moreover have "arr_bit e ?a = arr_bit d ?a" "arr_bit e ?b = arr_bit d ?b"
      using e swapped_Suc(2,3) [OF assms(1)] by (simp_all only: if_False)
    ultimately show ?thesis
      using True b ab by auto
  next
    case False
    then have "swapped p n (Suc i) j = swapped p n i j"
      using swapped_Suc(1) [OF assms(1)] by blast
    with False b e show ?thesis by simp
  qed
  then show ?thesis
    using b l by (auto simp: swap_bits_def mirrored_def)
qed

lemma mirrored_done:
  assumes "mirrored d p n (n div 2) e"
  shows "arr_bit e j = (if p \<le> j \<and> j < p + n then arr_bit d (p + (n - 1 - (j - p))) else arr_bit d j)"
proof -
  have "p + (n - 1 - (j - p)) = j" if "p \<le> j" "j < p + n" "\<not> swapped p n (n div 2) j"
    using that unfolding swapped_def by linarith
  then show ?thesis
    using assms unfolding mirrored_def by (auto simp: swapped_def)
qed

text \<open>Reversing mirrors the bits of the region in place and leaves the bits around it.\<close>

theorem reverse_bits_mirrors:
  assumes "0 < n" and "p + n \<le> 8 * length d"
  shows "\<exists>d'. bit_lib_reverse_bits d p n = Inr d' \<and> length d' = length d \<and>
    (\<forall>j. arr_bit d' j = (if p \<le> j \<and> j < p + n then arr_bit d (p + (n - 1 - (j - p))) else arr_bit d j))"
proof -
  have "\<exists>d'. for_each (\<lambda>i. swap_bits (p + i) (p + (n - 1 - i))) [0..<n div 2] d = Inr d' \<and> mirrored d p n (n div 2) d'"
  proof (rule for_each_upto)
    show "mirrored d p n 0 d" by (auto simp: mirrored_def swapped_def)
  qed (rule mirrored_step [OF _ assms(2)])
  then obtain d' where "bit_lib_reverse_bits d p n = Inr d'" "mirrored d p n (n div 2) d'"
    using assms(1) unfolding bit_lib_reverse_bits_def by auto
  moreover from this(2) have "length d' = length d" by (simp add: mirrored_def)
  ultimately show ?thesis
    using mirrored_done by blast
qed

section \<open>Removing every nth bit\<close>

definition kept :: "nat \<Rightarrow> nat \<Rightarrow> nat list" where
  "kept n c = filter (\<lambda>i. (i + 1) mod n \<noteq> 0) [0..<c]"

lemma kept_Suc: "kept n (Suc c) = kept n c @ (if (c + 1) mod n \<noteq> 0 then [c] else [])"
  by (simp add: kept_def)

lemma length_kept: "length (kept n c) \<le> c"
  unfolding kept_def by (rule order_trans [OF length_filter_le]) simp

text \<open>The state of the loop after \<open>c\<close> bits: \<open>8 * (k div 8)\<close> kept bits are written back, the
  other \<open>k mod 8\<close> are in the buffer.\<close>

definition removing :: "u8 list \<Rightarrow> nat \<Rightarrow> nat \<Rightarrow> nat \<Rightarrow> remove_state \<Rightarrow> bool" where
  "removing d p n c s \<longleftrightarrow>
     (let bs = map (\<lambda>i. arr_bit d (p + i)) (kept n c)
      in rm_count s < 8 \<and> rm_result s + rm_count s = length bs \<and>
         rm_buffer s = word_of_bits (drop (rm_result s) bs) \<and> length (rm_data s) = length d \<and>
         (\<forall>j. arr_bit (rm_data s) j =
           (if p \<le> j \<and> j < p + rm_result s then bs ! (j - p) else arr_bit d j)))"

lemma word_of_bits_snoc: "word_of_bits (bs @ [b]) = shift_in (word_of_bits bs) b"
  by (simp add: word_of_bits_def)

text \<open>Writing the buffer back.\<close>

lemma flush_bits:
  assumes "0 < k" and "k \<le> 8" and "p + r + k \<le> 8 * length d" and "length bs = r + k"
    and "length e = length d" and "\<And>j. arr_bit e j = (if p \<le> j \<and> j < p + r then bs ! (j - p) else arr_bit d j)"
  shows "\<exists>e'. bit_lib_set_bits e (p + r) (word_of_bits (drop r bs)) k = Inr e' \<and> length e' = length d \<and>
    (\<forall>j. arr_bit e' j = (if p \<le> j \<and> j < p + (r + k) then bs ! (j - p) else arr_bit d j))"
proof -
  obtain e' where e': "bit_lib_set_bits e (p + r) (word_of_bits (drop r bs)) k = Inr e'" "length e' = length e"
    "\<And>j. arr_bit e' j = (if p + r \<le> j \<and> j < p + r + k then bit (word_of_bits (drop r bs) :: u8) (k - 1 - (j - (p + r)))
       else arr_bit e j)"
    using set_bits_spec [of k "p + r" e "word_of_bits (drop r bs)"] assms by auto
  have "bit (word_of_bits (drop r bs) :: u8) (k - 1 - (j - (p + r))) = bs ! (j - p)"
    if "p + r \<le> j" "j < p + r + k" for j
  proof -
    have "k - 1 - (k - 1 - (j - (p + r))) = j - (p + r)" "r + (j - (p + r)) = j - p"
      using that by linarith+
    with that assms show ?thesis
      by (auto simp: bit_word_of_bits)
  qed
  then have "arr_bit e' j = (if p \<le> j \<and> j < p + (r + k) then bs ! (j - p) else arr_bit d j)" for j
    using e'(3) [of j] assms(6) [of j] by (auto simp: add.assoc)
  with e' assms(5) show ?thesis by auto
qed

lemma remove_step_removing:
  assumes "removing d p n c s" and "p + Suc c \<le> 8 * length d"
  shows "\<exists>s'. remove_step p n c s = Inr s' \<and> removing d p n (Suc c) s'"
proof -
  define bs where "bs = map (\<lambda>i. arr_bit d (p + i)) (kept n c)"
  have s: "rm_count s < 8" "rm_result s + rm_count s = length bs" "rm_buffer s = word_of_bits (drop (rm_result s) bs)"
      "length (rm_data s) = length d"
      "\<And>j. arr_bit (rm_data s) j = (if p \<le> j \<and> j < p + rm_result s then bs ! (j - p) else arr_bit d j)"
    using assms(1) by (simp_all add: removing_def bs_def Let_def)
  have "length bs \<le> c" by (simp add: bs_def length_kept)
  show ?thesis
  proof (cases "(c + 1) mod n = 0")
    case True
    then have "remove_step p n c s = Inr s" using s(1) by (simp add: remove_step_def)
    with True assms(1) show ?thesis by (simp add: removing_def kept_Suc)
  next
    case False
    define b where "b = arr_bit d (p + c)"
    have bs': "map (\<lambda>i. arr_bit d (p + i)) (kept n (Suc c)) = bs @ [b]"
      using False by (simp add: kept_Suc bs_def b_def)
    have g: "bit_lib_get_bit (rm_data s) (p + c) = Inr b"
      using s(2,4,5) assms(2) \<open>length bs \<le> c\<close> by (simp add: b_def)
    have buf: "push_bit 1 (rm_buffer s) OR of_bool b = word_of_bits (drop (rm_result s) (bs @ [b]))"
      using s(2,3) word_of_bits_snoc [of "drop (rm_result s) bs" b, where 'a = 8] by (simp add: shift_in_def)
    show ?thesis
    proof (cases "rm_count s = 7")
      case full: True
      have h: "arr_bit (rm_data s) j = (if p \<le> j \<and> j < p + rm_result s then (bs @ [b]) ! (j - p) else arr_bit d j)" for j
        using s(2,5) by (auto simp: nth_append)
      obtain e where e: "bit_lib_set_bits (rm_data s) (p + rm_result s) (word_of_bits (drop (rm_result s) (bs @ [b]))) 8 = Inr e"
        "length e = length d"
        "\<And>j. arr_bit e j = (if p \<le> j \<and> j < p + (rm_result s + 8) then (bs @ [b]) ! (j - p) else arr_bit d j)"
        using flush_bits [of 8 p "rm_result s" d "bs @ [b]" "rm_data s", OF _ _ _ _ s(4) h] s(2) full assms(2)
          \<open>length bs \<le> c\<close> by auto
      have "remove_step p n c s = Inr \<lparr>rm_data = e, rm_result = rm_result s + 8, rm_buffer = 0, rm_count = 0\<rparr>"
        using False full g e(1) buf by (simp add: remove_step_def)
      then show ?thesis
        using e s(2) full by (simp add: removing_def bs' word_of_bits_def)
    next
      case notfull: False
      have "remove_step p n c s = Inr (s\<lparr>rm_buffer := word_of_bits (drop (rm_result s) (bs @ [b])), rm_count := rm_count s + 1\<rparr>)"
        using False notfull g buf by (simp add: remove_step_def)
      then show ?thesis
        using s notfull by (auto simp: removing_def bs' nth_append)
    qed
  qed
qed

text \<open>Removing every \<open>n\<close>th bit compacts the region in place: the bits that stay come first, in
  order, the count returned is their number, and everything after them is untouched, although
  the array is overwritten while it is read.\<close>

theorem remove_bit_every_nth_compacts:
  assumes "0 < n" and "p + len \<le> 8 * length d"
  shows "\<exists>d'. bit_lib_remove_bit_every_nth d p len n = Inr (length (kept n len), d') \<and> length d' = length d \<and>
    (\<forall>j. arr_bit d' j = (if p \<le> j \<and> j < p + length (kept n len) then arr_bit d (p + kept n len ! (j - p))
                        else arr_bit d j))"
proof -
  let ?s = "\<lparr>rm_data = d, rm_result = 0, rm_buffer = 0, rm_count = 0\<rparr>"
  have "\<exists>s'. for_each (remove_step p n) [0..<len] ?s = Inr s' \<and> removing d p n len s'"
  proof (rule for_each_upto)
    show "removing d p n 0 ?s" by (auto simp: removing_def kept_def word_of_bits_def)
    show "\<exists>s'. remove_step p n i s = Inr s' \<and> removing d p n (Suc i) s'" if "i < len" "removing d p n i s" for i s
      using that assms(2) by (intro remove_step_removing) auto
  qed
  then obtain s where f: "for_each (remove_step p n) [0..<len] ?s = Inr s" and r: "removing d p n len s" by blast
  define bs where "bs = map (\<lambda>i. arr_bit d (p + i)) (kept n len)"
  have s: "rm_count s < 8" "rm_result s + rm_count s = length bs" "rm_buffer s = word_of_bits (drop (rm_result s) bs)"
      "length (rm_data s) = length d"
      "\<And>j. arr_bit (rm_data s) j = (if p \<le> j \<and> j < p + rm_result s then bs ! (j - p) else arr_bit d j)"
    using r by (simp_all add: removing_def bs_def Let_def)
  have l: "length bs = length (kept n len)" "length bs \<le> len" by (simp_all add: bs_def length_kept)
  have nth: "bs ! i = arr_bit d (p + kept n len ! i)" if "i < length bs" for i
    using that by (simp add: bs_def)
  have "\<exists>d'. bit_lib_remove_bit_every_nth d p len n = Inr (length bs, d') \<and> length d' = length d \<and>
      (\<forall>j. arr_bit d' j = (if p \<le> j \<and> j < p + length bs then bs ! (j - p) else arr_bit d j))"
  proof (cases "rm_count s = 0")
    case True
    then show ?thesis using f s assms(1) by (auto simp: bit_lib_remove_bit_every_nth_def)
  next
    case False
    then show ?thesis
      using flush_bits [of "rm_count s" p "rm_result s" d bs "rm_data s"] f s assms l(2)
      by (auto simp: bit_lib_remove_bit_every_nth_def)
  qed
  then show ?thesis
    using l(1) nth by (auto simp: less_diff_conv2)
qed

lemma remove_bit_every_nth_compacts_witness:
  "\<exists>d'. bit_lib_remove_bit_every_nth [0xF0, 0xF0] 0 10 5 = Inr (8, d') \<and> arr_bit d' 4 = False \<and> arr_bit d' 7"
proof -
  have k: "kept 5 10 = [0, 1, 2, 3, 5, 6, 7, 8]" and
    b: "arr_bit [0xF0, 0xF0] 5 = False" "arr_bit [0xF0, 0xF0] 8" by code_simp+
  from remove_bit_every_nth_compacts [of 5 0 10 "[0xF0, 0xF0]"] k b show ?thesis by fastforce
qed

lemma reverse_bits_mirrors_witness:
  "\<exists>d'. bit_lib_reverse_bits [0xE1, 0x00] 2 9 = Inr d' \<and> arr_bit d' 10 = arr_bit [0xE1, 0x00] 2"
  using reverse_bits_mirrors [of 9 2 "[0xE1, 0x00]"] by auto

section \<open>Fast reversals and checksums\<close>

text \<open>The unrolled reversals of a byte and of a 16 bit word mirror the bits.\<close>

theorem fast_reversals_mirror:
  "bit (bit_lib_reverse_8_fast b) i = (i < 8 \<and> bit b (7 - i)) \<and>
   bit (bit_lib_reverse_16_fast w) j = (j < 16 \<and> bit w (15 - j))"
proof
  show "bit (bit_lib_reverse_8_fast b) i = (i < 8 \<and> bit b (7 - i))"
  proof (cases "i < 8")
    case True
    then have "i \<in> {0, 1, 2, 3, 4, 5, 6, 7}" by auto
    with True show ?thesis
      by (elim insertE emptyE; hypsubst; simp only: bit_lib_reverse_8_fast_def Let_def bit_or_iff bit_and_iff bit_drop_bit_eq bit_push_bit_iff comp_apply; simp)
  qed (auto dest: bit_imp_le_length)
  show "bit (bit_lib_reverse_16_fast w) j = (j < 16 \<and> bit w (15 - j))"
  proof (cases "j < 16")
    case True
    then have "j \<in> set [0..<16]" by simp
    also have "[0..<16] = [0, 1, 2, 3, 4, 5, 6, 7, 8, 9, 10, 11, 12, 13, 14, 15 :: nat]"
      by (simp add: upt_rec)
    finally have "j \<in> {0, 1, 2, 3, 4, 5, 6, 7, 8, 9, 10, 11, 12, 13, 14, 15}" by (simp only: list.set)
    with True show ?thesis
      by (elim insertE emptyE; hypsubst; simp only: bit_lib_reverse_16_fast_def bit_or_iff bit_and_iff bit_drop_bit_eq bit_push_bit_iff comp_apply; simp)
  qed (auto dest: bit_imp_le_length)
qed

lemma crc8_no_reflection:
  "bit_lib_crc8 d p i False False 0 = Inr (ucast (subghz_protocol_blocks_crc8 d p i))"
proof -
  have "for_each (\<lambda>m crc. bind_r (if False then reverse_byte m else Inr m) (\<lambda>byte. Inr ((crc_shl p ^^ 8) (crc XOR byte)))) d i
     = Inr (foldl (\<lambda>r m. (crc_shl p ^^ 8) (r XOR m)) i d)" for i
    by (induction d arbitrary: i) simp_all
  then show ?thesis
    by (simp add: bit_lib_crc8_def subghz_protocol_blocks_crc8_def)
qed

text \<open>Feeding the bits of a byte one by one into the register is the same as adding the byte to
  its top and shifting eight times.\<close>

lemma crc16_bits:
  fixes m :: u8
  assumes "n \<le> 8"
  shows "foldl (crc16_bit p) r (map (\<lambda>j. bit m (7 - j)) [0..<n]) XOR push_bit (8 + n) (ucast m)
    = (crc_shl p ^^ n) (r XOR push_bit 8 (ucast m))"
  using assms
proof (induction n)
  case 0
  then show ?case by simp
next
  case (Suc n)
  let ?r = "foldl (crc16_bit p) r (map (\<lambda>j. bit m (7 - j)) [0..<n])"
  have IH: "(crc_shl p ^^ n) (r XOR push_bit 8 (ucast m)) = ?r XOR push_bit (8 + n) (ucast m)"
    using Suc by simp
  have top: "bit (?r XOR push_bit (8 + n) (ucast m)) 15 = (bit ?r 15 \<noteq> bit m (7 - n))"
    using Suc.prems by (auto simp: bit_simps)
  have sh: "push_bit 1 (?r XOR push_bit (8 + n) (ucast m)) = push_bit 1 ?r XOR push_bit (8 + Suc n) (ucast m)"
    by (simp add: push_bit_xor push_bit_push_bit del: push_bit_Suc)
  have "(crc_shl p ^^ Suc n) (r XOR push_bit 8 (ucast m)) =
      (if bit ?r 15 \<noteq> bit m (7 - n) then push_bit 1 (?r XOR push_bit (8 + n) (ucast m)) XOR p
       else push_bit 1 (?r XOR push_bit (8 + n) (ucast m)))"
    by (simp only: funpow.simps comp_apply IH crc_shl_def) (simp add: top)
  also have "\<dots> = crc16_bit p ?r (bit m (7 - n)) XOR push_bit (8 + Suc n) (ucast m)"
    unfolding sh crc16_bit_def by (simp add: xor.assoc xor.commute xor.left_commute)
  finally show ?case by simp
qed

text \<open>The two CRC libraries of the firmware agree: without reflection and final addition,
  \<^verbatim>\<open>bit_lib_crc16\<close> and \<^verbatim>\<open>bit_lib_crc8\<close> compute what the Sub-GHz blocks compute, for every
  polynomial, initial value and message.\<close>

theorem bit_lib_crc_agrees_with_blocks:
  "bit_lib_crc16 d p i False False 0 = subghz_protocol_blocks_crc16 d p i \<and>
   bit_lib_crc8 d p8 i8 False False 0 = Inr (ucast (subghz_protocol_blocks_crc8 d p8 i8))"
proof
  have "foldl (crc16_bit p) r (map (\<lambda>j. bit m (7 - j)) [0..<8]) = (crc_shl p ^^ 8) (r XOR push_bit 8 (ucast m))" for r and m :: u8
  proof -
    have "push_bit (8 + 8) (ucast m) = (0 :: u16)"
      by (rule bit_word_eqI) (simp add: bit_simps)
    with crc16_bits [of 8 p r m] show ?thesis by simp
  qed
  then show "bit_lib_crc16 d p i False False 0 = subghz_protocol_blocks_crc16 d p i"
    by (simp add: bit_lib_crc16_def subghz_protocol_blocks_crc16_def Let_def)
qed (rule crc8_no_reflection)

section \<open>Parity\<close>

lemma popcount_shift_in:
  assumes "\<not> bit w 31"
  shows "builtin_popcount (shift_in w b) = builtin_popcount w + of_bool b"
proof -
  have u: "[0..<32] = 0 # map Suc [0..<31]"
    by (simp add: map_Suc_upt upt_conv_Cons)
  have f: "filter (bit (shift_in w b)) (map Suc [0..<31]) = map Suc (filter (bit w) [0..<31])"
    by (auto simp: filter_map comp_def bit_shift_in intro!: filter_cong arg_cong [of _ _ "map Suc"])
  have "[0..<Suc 31] = [0..<31] @ [31::nat]" by (rule upt_Suc_append) simp
  then have g: "filter (bit w) [0..<32] = filter (bit w) [0..<31]"
    using assms by (simp del: upt_Suc)
  have z: "bit (shift_in w b) 0 = b" by (simp add: bit_shift_in)
  have "builtin_popcount (shift_in w b) = length (filter (bit (shift_in w b)) (0 # map Suc [0..<31]))"
    unfolding builtin_popcount_def u ..
  also have "\<dots> = of_bool b + length (filter (bit w) [0..<31])"
    unfolding filter.simps f z by simp
  finally show ?thesis by (simp add: builtin_popcount_def g)
qed

text \<open>The parity bit \<^verbatim>\<open>bit_lib_add_parity\<close> appends for even or odd parity never satisfies
  \<^verbatim>\<open>bit_lib_test_parity_32\<close> with the same parity argument: the test calls a word of even parity
  when its number of set bits is odd.\<close>

theorem added_parity_fails_test:
  assumes "parity = BitLibParityEven \<or> parity = BitLibParityOdd" and "\<not> bit w 31"
  shows "\<exists>b. parity_bit parity w = Inr b \<and> bit_lib_test_parity_32 (shift_in w b) parity = Inr False \<and>
    even (builtin_popcount (shift_in w b)) = (parity = BitLibParityEven)"
  using assms(1)
  by (elim disjE)
    (simp_all add: parity_bit_def bit_lib_test_parity_32_def popcount_shift_in [OF assms(2)])

lemma added_parity_fails_test_witness:
  "\<exists>b. parity_bit BitLibParityOdd 0x35 = Inr b \<and> bit_lib_test_parity_32 (shift_in 0x35 b) BitLibParityOdd = Inr False"
  using added_parity_fails_test [of BitLibParityOdd "0x35"] by auto

section \<open>Numbers and bytes\<close>

lemma num_to_bytes_be_spec:
  assumes "n \<le> 8" and "n \<le> length dest"
  shows "bit_lib_num_to_bytes_be x n dest = Inr (bytes_be n x @ drop n dest)"
proof -
  have "for_each (\<lambda>i (s, d). bind_r (wr d i (ucast s)) (\<lambda>d'. Inr (drop_bit 8 s, d'))) (rev [0..<n]) (x, d)
      = Inr (drop_bit (8 * n) x, bytes_be n x @ drop n d)" if "n \<le> length d" for d :: "u8 list" and x :: u64
    using that
  proof (induction n arbitrary: x d)
    case 0
    then show ?case by simp
  next
    case (Suc n)
    have "bytes_be (Suc n) x = bytes_be n (drop_bit 8 x) @ [ucast x]" for x :: u64
      by (induction n) (simp_all add: add.commute)
    moreover have "drop n (d[n := ucast x]) = ucast x # drop (Suc n) d"
      using Suc.prems by (simp add: Cons_nth_drop_Suc [symmetric])
    ultimately show ?case
      using Suc by (simp add: add.commute)
  qed
  from this [OF assms(2)] show ?thesis
    using assms(1) by (simp add: bit_lib_num_to_bytes_be_def)
qed

lemma for_each_total:
  "(\<And>i s. i \<in> set is \<Longrightarrow> body i s = Inr (f i s)) \<Longrightarrow> for_each body is s = Inr (foldl (\<lambda>s i. f i s) s is)"
  by (induction "is" arbitrary: s) simp_all

lemma bytes_to_num_be_spec:
  assumes "n \<le> 8" and "n \<le> length src"
  shows "bit_lib_bytes_to_num_be src n = Inr (foldl byte_in 0 (take n src))"
proof -
  have "for_each (\<lambda>i r. bind_r (rd src i) (\<lambda>b. Inr (push_bit 8 r OR ucast b))) [0..<n] (0 :: u64)
      = Inr (foldl (\<lambda>r i. byte_in r (src ! i)) 0 [0..<n])"
    by (rule for_each_total [where f = "\<lambda>i r. byte_in r (src ! i)"]) (use assms(2) in \<open>auto simp: byte_in_def\<close>)
  moreover have "foldl (\<lambda>r i. byte_in r (src ! i)) 0 [0..<n] = foldl (\<lambda>r i. byte_in r (take n src ! i)) (0 :: u64) [0..<n]"
    by (rule foldl_cong) auto
  ultimately show ?thesis
    using assms by (simp add: bit_lib_bytes_to_num_be_def foldl_index)
qed

lemma num_to_bytes_le_spec:
  assumes "n \<le> 8" and "n \<le> length dest"
  shows "bit_lib_num_to_bytes_le x n dest = Inr (rev (bytes_be n x) @ drop n dest)"
proof -
  have "\<exists>d'. for_each (\<lambda>i d. wr d i (ucast (drop_bit (8 * i) x))) [0..<n] dest = Inr d' \<and> d' = rev (bytes_be n x) @ drop n dest"
    by (rule for_each_upto)
      (use assms in \<open>auto simp: list_update_append Cons_nth_drop_Suc [symmetric]\<close>)
  then show ?thesis
    using assms(1) by (simp add: bit_lib_num_to_bytes_le_def)
qed

lemma take_bit_next_byte:
  "take_bit (8 * i) x OR push_bit (8 * i) (ucast (ucast (drop_bit (8 * i) x) :: u8)) = take_bit (8 * Suc i) (x :: u64)"
proof (rule bit_word_eqI)
  fix j assume "j < LENGTH(64)"
  then show "bit (take_bit (8 * i) x OR push_bit (8 * i) (ucast (ucast (drop_bit (8 * i) x) :: u8))) j
      = bit (take_bit (8 * Suc i) x) j"
    by (cases "j < 8 * i") (auto simp: bit_simps)
qed

lemma bytes_to_num_le_spec:
  assumes "n \<le> 8" and "n \<le> length src" and "\<And>i. i < n \<Longrightarrow> src ! i = ucast (drop_bit (8 * i) x)"
  shows "bit_lib_bytes_to_num_le src n = Inr (take_bit (8 * n) x)"
proof -
  have "\<exists>r. for_each (\<lambda>i r. bind_r (rd src i) (\<lambda>b. Inr (r OR push_bit (8 * i) (ucast b)))) [0..<n] 0 = Inr r \<and>
      r = take_bit (8 * n) x"
  proof (rule for_each_upto)
    fix i r assume "i < n" and "r = take_bit (8 * i) x"
    then show "\<exists>s'. bind_r (rd src i) (\<lambda>b. Inr (r OR push_bit (8 * i) (ucast b))) = Inr s' \<and> s' = take_bit (8 * Suc i) x"
      using assms(2,3) take_bit_next_byte [of i x] by simp
  qed simp
  then show ?thesis
    using assms(1) by (simp add: bit_lib_bytes_to_num_le_def)
qed

text \<open>A number written to at most 8 bytes, in either byte order, reads back cut to these bytes,
  and the rest of the destination is untouched.\<close>

theorem num_bytes_roundtrip:
  assumes "n \<le> 8" and "n \<le> length dest"
  shows "\<exists>be le. bit_lib_num_to_bytes_be x n dest = Inr be \<and> bit_lib_bytes_to_num_be be n = Inr (take_bit (8 * n) x) \<and>
    bit_lib_num_to_bytes_le x n dest = Inr le \<and> bit_lib_bytes_to_num_le le n = Inr (take_bit (8 * n) x) \<and>
    drop n be = drop n dest \<and> drop n le = drop n dest"
proof -
  have "bit_lib_bytes_to_num_be (bytes_be n x @ drop n dest) n = Inr (take_bit (8 * n) x)"
    using assms by (subst bytes_to_num_be_spec) (simp_all add: foldl_byte_in_bytes)
  moreover have "bit_lib_bytes_to_num_le (rev (bytes_be n x) @ drop n dest) n = Inr (take_bit (8 * n) x)"
    using assms by (intro bytes_to_num_le_spec) (simp_all add: nth_append bytes_be_def flip: rev_map)
  ultimately show ?thesis
    using assms by (simp add: num_to_bytes_be_spec num_to_bytes_le_spec)
qed

lemma num_bytes_roundtrip_witness:
  "\<exists>be. bit_lib_num_to_bytes_be 0x123456 2 [0, 0, 9] = Inr be \<and> bit_lib_bytes_to_num_be be 2 = Inr 0x3456"
  using num_bytes_roundtrip [of 2 "[0, 0, 9]" "0x123456"] by (auto simp: take_bit_eq_mask mask_numeral)

end
