(* ===== verification/Infrared_Common.thy ===== *)
theory Infrared_Common
  imports Flipper_Prelude
begin

text \<open>
  The protocol independent part of the infrared stack,
  \<^verbatim>\<open>lib/infrared/encoder_decoder/common\<close>: the decoder that collects timings, looks for a preamble,
  turns marks and spaces into bits and hands complete frames to the protocol, and the encoder that
  produces the timings of a message. A protocol is a record of timings, frame lengths and
  functions, as in \<^verbatim>\<open>InfraredCommonProtocolSpec\<close>.
\<close>

unbundle bit_operations_syntax

section \<open>Data\<close>

record InfraredTimings =
  min_split_time :: u32
  silence_time :: u32
  preamble_mark :: u16
  preamble_space :: u16
  bit1_mark :: u16
  bit1_space :: u16
  bit0_mark :: u16
  bit0_space :: u16
  preamble_tolerance :: u32
  bit_tolerance :: u32

datatype InfraredProtocol =
  InfraredProtocolUnknown | InfraredProtocolNEC | InfraredProtocolNECext | InfraredProtocolNEC42
  | InfraredProtocolNEC42ext | InfraredProtocolSamsung32 | InfraredProtocolRC6
  | InfraredProtocolRC5 | InfraredProtocolRC5X | InfraredProtocolSIRC | InfraredProtocolSIRC15
  | InfraredProtocolSIRC20 | InfraredProtocolKaseikyo | InfraredProtocolRCA
  | InfraredProtocolPioneer

record InfraredMessage =
  msg_protocol :: InfraredProtocol
  msg_address :: u32
  msg_command :: u32
  msg_repeat :: bool

datatype InfraredStatus =
  InfraredStatusError | InfraredStatusOk | InfraredStatusDone | InfraredStatusReady

datatype InfraredCommonStateDecoder =
  InfraredCommonDecoderStateWaitPreamble | InfraredCommonDecoderStateDecode
  | InfraredCommonDecoderStateProcessRepeat

datatype InfraredCommonStateEncoder =
  InfraredCommonEncoderStateSilence | InfraredCommonEncoderStatePreamble
  | InfraredCommonEncoderStateEncode | InfraredCommonEncoderStateEncodeRepeat

text \<open>The decoder. \<open>ir_timings\<close> holds the first \<^verbatim>\<open>timings_cnt\<close> entries of the array of six; the code
  never reads beyond them.\<close>

record InfraredCommonDecoder =
  ir_timings :: "u32 list"
  ir_message :: InfraredMessage
  ir_state :: InfraredCommonStateDecoder
  ir_switch_detect :: bool
  ir_level :: bool
  ir_databit_cnt :: u16
  ir_data :: "u8 list"

record InfraredCommonEncoder =
  en_state :: InfraredCommonStateEncoder
  en_switch_detect :: bool
  en_bits_to_encode :: u8
  en_bits_encoded :: u8
  en_timings_sum :: u32
  en_timings_encoded :: u32
  en_data :: "u8 list"

text \<open>The two modulations a protocol can name as its \<^verbatim>\<open>decode\<close> and \<^verbatim>\<open>encode\<close> functions.\<close>

datatype modulation = Pdwm | ManchesterMod

record InfraredCommonProtocolSpec =
  sp_timings :: InfraredTimings
  manchester_start_from_space :: bool
  databit_len :: "u8 list"
  sp_decode :: modulation
  sp_decode_repeat :: "(InfraredCommonDecoder \<Rightarrow> fault + InfraredStatus \<times> InfraredCommonDecoder) option"
  sp_interpret :: "InfraredCommonDecoder \<Rightarrow> fault + bool \<times> InfraredCommonDecoder"
  sp_encode :: modulation
  sp_encode_repeat :: "(InfraredCommonEncoder \<Rightarrow> fault + InfraredStatus \<times> (u32 \<times> bool) \<times> InfraredCommonEncoder) option"

section \<open>Timings\<close>

text \<open>
  \<^verbatim>\<open>MATCH_TIMING\<close> in unsigned arithmetic, as it is used with the 32 bit bit tolerance, and with
  the preamble tolerance held in a float: there the comparison is exact, since the bounds are
  small integers and the conversion of a large timing to float is monotone.
\<close>

definition match_timing :: "u32 \<Rightarrow> u32 \<Rightarrow> u32 \<Rightarrow> bool" where
  "match_timing x v delta \<longleftrightarrow> x < v + delta \<and> x > v - delta"

definition match_timing_float :: "u32 \<Rightarrow> u16 \<Rightarrow> u32 \<Rightarrow> bool" where
  "match_timing_float x v delta \<longleftrightarrow> uint x < uint v + uint delta \<and> uint x > uint v - uint delta"

section \<open>Decoder\<close>

definition accumulate_lsb :: "InfraredCommonDecoder \<Rightarrow> bool \<Rightarrow> fault + InfraredCommonDecoder" where
  "accumulate_lsb d b =
     (let index = unat (ir_databit_cnt d) div 8; shift = unat (ir_databit_cnt d) mod 8
      in bind_r (if shift = 0 then wr (ir_data d) index 0 else Inr (ir_data d)) (\<lambda>d1.
         bind_r (if b then bind_r (rd d1 index) (\<lambda>v. wr d1 index (v OR push_bit shift 1)) else Inr d1) (\<lambda>d2.
           Inr (d\<lparr>ir_data := d2, ir_databit_cnt := ir_databit_cnt d + 1\<rparr>))))"

text \<open>The preamble is searched two timings at a time; what was looked at is consumed.\<close>

fun preamble_scan :: "InfraredTimings \<Rightarrow> u32 list \<Rightarrow> bool \<times> u32 list" where
  "preamble_scan tm (a # b # ts) =
     (if match_timing_float a (preamble_mark tm) (preamble_tolerance tm) \<and>
         match_timing_float b (preamble_space tm) (preamble_tolerance tm)
      then (True, ts) else preamble_scan tm ts)"
| "preamble_scan tm ts = (False, ts)"

definition infrared_check_preamble ::
    "InfraredTimings \<Rightarrow> InfraredCommonDecoder \<Rightarrow> bool \<times> InfraredCommonDecoder" where
  "infrared_check_preamble tm d =
     (let start_level = odd (of_bool (ir_level d) + length (ir_timings d) + 1)
      in if ir_timings d = [] then (False, d)
         else let ts = (if start_level then ir_timings d else tl (ir_timings d))
           in if preamble_mark tm = 0 then (True, d\<lparr>ir_timings := ts\<rparr>)
              else (let (found, ts') = preamble_scan tm ts in (found, d\<lparr>ir_timings := ts'\<rparr>)))"

text \<open>Is the number of bits one of the lengths of the protocol? The lengths end at the first 0.\<close>

definition length_found :: "InfraredCommonProtocolSpec \<Rightarrow> u16 \<Rightarrow> bool" where
  "length_found sp n \<longleftrightarrow> list_ex (\<lambda>l. ucast l = n) (takeWhile (\<lambda>l. l \<noteq> 0) (databit_len sp))"

definition databit_len0 :: "InfraredCommonProtocolSpec \<Rightarrow> u16" where
  "databit_len0 sp = (case databit_len sp of [] \<Rightarrow> 0 | l # _ \<Rightarrow> ucast l)"

definition infrared_common_decode_pdwm ::
    "InfraredTimings \<Rightarrow> InfraredCommonDecoder \<Rightarrow> bool \<Rightarrow> u32 \<Rightarrow> fault + InfraredStatus \<times> InfraredCommonDecoder" where
  "infrared_common_decode_pdwm tm d level timing =
     (let analyze_timing = (level \<noteq> (bit1_mark tm = bit0_mark tm));
          bit1 = (if level then bit1_mark tm else bit1_space tm);
          bit0 = (if level then bit0_mark tm else bit0_space tm);
          no_info_timing = (if bit1_mark tm = bit0_mark tm then bit1_mark tm else bit1_space tm)
      in if analyze_timing then
           (if match_timing timing (ucast bit1) (bit_tolerance tm)
            then bind_r (accumulate_lsb d True) (\<lambda>d'. Inr (InfraredStatusOk, d'))
            else if match_timing timing (ucast bit0) (bit_tolerance tm)
            then bind_r (accumulate_lsb d False) (\<lambda>d'. Inr (InfraredStatusOk, d'))
            else Inr (InfraredStatusError, d))
         else if \<not> match_timing timing (ucast no_info_timing) (bit_tolerance tm)
         then Inr (InfraredStatusError, d) else Inr (InfraredStatusOk, d))"

definition infrared_common_decode_manchester ::
    "InfraredCommonProtocolSpec \<Rightarrow> InfraredCommonDecoder \<Rightarrow> bool \<Rightarrow> u32
      \<Rightarrow> fault + InfraredStatus \<times> InfraredCommonDecoder" where
  "infrared_common_decode_manchester sp d level timing =
     (let tm = sp_timings sp; quant = ucast (bit1_mark tm);
          single_timing = match_timing timing quant (bit_tolerance tm);
          double_timing = match_timing timing (2 * quant) (bit_tolerance tm)
      in if \<not> single_timing \<and> \<not> double_timing then Inr (InfraredStatusError, d)
         else bind_r (if manchester_start_from_space sp \<and> ir_databit_cnt d = 0
                 then accumulate_lsb (d\<lparr>ir_switch_detect := True\<rparr>) False else Inr d) (\<lambda>d1.
           if \<not> ir_switch_detect d1 \<and> double_timing then Inr (InfraredStatusError, d1)
           else let sw = (if \<not> ir_switch_detect d1 then True
                          else if single_timing then False else ir_switch_detect d1);
                    d2 = d1\<lparr>ir_switch_detect := sw\<rparr>
             in if sw then
                  (if databit_len0 sp = ir_databit_cnt d2 then Inr (InfraredStatusError, d2)
                   else bind_r (accumulate_lsb d2 level) (\<lambda>d3. Inr (InfraredStatusOk, d3)))
                else Inr (InfraredStatusOk, d2)))"

definition sp_decode_call ::
    "InfraredCommonProtocolSpec \<Rightarrow> InfraredCommonDecoder \<Rightarrow> bool \<Rightarrow> u32
      \<Rightarrow> fault + InfraredStatus \<times> InfraredCommonDecoder" where
  "sp_decode_call sp d level timing =
     (case sp_decode sp of
        Pdwm \<Rightarrow> infrared_common_decode_pdwm (sp_timings sp) d level timing
      | ManchesterMod \<Rightarrow> infrared_common_decode_manchester sp d level timing)"

text \<open>The loop of \<^verbatim>\<open>infrared_common_decode_bits\<close> over the timings that are left.\<close>

fun decode_bits_loop ::
    "InfraredCommonProtocolSpec \<Rightarrow> u32 list \<Rightarrow> InfraredCommonDecoder
      \<Rightarrow> fault + InfraredStatus \<times> InfraredCommonDecoder" where
  "decode_bits_loop sp [] d = Inr (InfraredStatusOk, d\<lparr>ir_timings := []\<rparr>)"
| "decode_bits_loop sp (timing # ts) d =
     (let level = odd (of_bool (ir_level d) + length (timing # ts) + 1);
          split = min_split_time (sp_timings sp)
      in if split \<noteq> 0 \<and> \<not> level \<and> timing > split \<and> length_found sp (ir_databit_cnt d)
         then Inr (InfraredStatusReady, d\<lparr>ir_timings := timing # ts\<rparr>)
         else if split \<noteq> 0 \<and> \<not> level \<and> \<not> timing > split \<and> databit_len0 sp = ir_databit_cnt d
         then Inr (InfraredStatusError, d\<lparr>ir_timings := timing # ts\<rparr>)
         else bind_r (sp_decode_call sp d level timing) (\<lambda>(status, d').
           if ir_databit_cnt d' > databit_len0 sp then Inl FuriCheck
           else if status = InfraredStatusError
           then Inr (InfraredStatusError, d'\<lparr>ir_timings := timing # ts\<rparr>)
           else if level \<and> databit_len0 sp = ir_databit_cnt d' \<and> split = 0
           then Inr (InfraredStatusReady, d'\<lparr>ir_timings := ts\<rparr>)
           else decode_bits_loop sp ts d'))"

definition infrared_common_decode_bits ::
    "InfraredCommonProtocolSpec \<Rightarrow> InfraredCommonDecoder \<Rightarrow> fault + InfraredStatus \<times> InfraredCommonDecoder" where
  "infrared_common_decode_bits sp d = decode_bits_loop sp (ir_timings d) d"

definition infrared_common_decoder_check_ready ::
    "InfraredCommonProtocolSpec \<Rightarrow> InfraredCommonDecoder
      \<Rightarrow> fault + InfraredMessage option \<times> InfraredCommonDecoder" where
  "infrared_common_decoder_check_ready sp d =
     (if length_found sp (ir_databit_cnt d)
      then bind_r (sp_interpret sp d) (\<lambda>(ok, d1).
        if ok
        then (let d2 = d1\<lparr>ir_databit_cnt := 0, ir_state :=
                (if sp_decode_repeat sp \<noteq> None then InfraredCommonDecoderStateProcessRepeat
                 else InfraredCommonDecoderStateWaitPreamble)\<rparr>
              in Inr (Some (ir_message d2), d2))
        else Inr (None, d1))
      else Inr (None, d))"

definition infrared_common_decoder_reset_state ::
    "InfraredCommonProtocolSpec \<Rightarrow> InfraredCommonDecoder \<Rightarrow> InfraredCommonDecoder" where
  "infrared_common_decoder_reset_state sp d =
     (let d1 = d\<lparr>ir_state := InfraredCommonDecoderStateWaitPreamble, ir_databit_cnt := 0,
            ir_switch_detect := False,
            ir_message := (ir_message d)\<lparr>msg_protocol := InfraredProtocolUnknown\<rparr>\<rparr>
      in if preamble_mark (sp_timings sp) = 0 then d1\<lparr>ir_timings := tl (ir_timings d1)\<rparr> else d1)"

definition infrared_common_decoder_reset ::
    "InfraredCommonProtocolSpec \<Rightarrow> InfraredCommonDecoder \<Rightarrow> InfraredCommonDecoder" where
  "infrared_common_decoder_reset sp d = (infrared_common_decoder_reset_state sp d)\<lparr>ir_timings := []\<rparr>"

text \<open>
  The state machine of \<^verbatim>\<open>infrared_common_decode\<close>: one pass of the endless loop ends with a break
  or goes round again. \<open>fuel\<close> bounds the number of passes; without it the result is \<open>None\<close>.
\<close>

fun decode_machine ::
    "nat \<Rightarrow> InfraredCommonProtocolSpec \<Rightarrow> InfraredCommonDecoder \<Rightarrow> InfraredMessage option
      \<Rightarrow> (fault + InfraredMessage option \<times> InfraredCommonDecoder) option" where
  "decode_machine 0 sp d message = None"
| "decode_machine (Suc fuel) sp d message =
     (case ir_state d of
        InfraredCommonDecoderStateWaitPreamble \<Rightarrow>
          (let (found, d1) = infrared_check_preamble (sp_timings sp) d
           in if found
              then decode_machine fuel sp (d1\<lparr>ir_state := InfraredCommonDecoderStateDecode,
                     ir_databit_cnt := 0, ir_switch_detect := False\<rparr>) message
              else Some (Inr (message, d1)))
      | InfraredCommonDecoderStateDecode \<Rightarrow>
          (case infrared_common_decode_bits sp d of
             Inl e \<Rightarrow> Some (Inl e)
           | Inr (status, d1) \<Rightarrow>
               if status = InfraredStatusReady then
                 (case infrared_common_decoder_check_ready sp d1 of
                    Inl e \<Rightarrow> Some (Inl e)
                  | Inr (Some m, d2) \<Rightarrow> decode_machine fuel sp d2 (Some m)
                  | Inr (None, d2) \<Rightarrow>
                      Some (Inr (None, if databit_len0 sp = ir_databit_cnt d2
                        then d2\<lparr>ir_state := InfraredCommonDecoderStateWaitPreamble\<rparr> else d2)))
               else if status = InfraredStatusError
               then decode_machine fuel sp (infrared_common_decoder_reset_state sp d1) message
               else Some (Inr (message, d1)))
      | InfraredCommonDecoderStateProcessRepeat \<Rightarrow>
          (case sp_decode_repeat sp of
             None \<Rightarrow> Some (Inl UndefinedBehaviour)
           | Some decode_repeat \<Rightarrow>
               (case decode_repeat d of
                  Inl e \<Rightarrow> Some (Inl e)
                | Inr (status, d1) \<Rightarrow>
                    if status = InfraredStatusError
                    then decode_machine fuel sp (infrared_common_decoder_reset_state sp d1) message
                    else if status = InfraredStatusReady
                    then (let d2 = d1\<lparr>ir_message := (ir_message d1)\<lparr>msg_repeat := True\<rparr>\<rparr>
                          in Some (Inr (Some (ir_message d2), d2)))
                    else Some (Inr (message, d1)))))"

definition infrared_common_decode ::
    "nat \<Rightarrow> InfraredCommonProtocolSpec \<Rightarrow> InfraredCommonDecoder \<Rightarrow> bool \<Rightarrow> u32
      \<Rightarrow> (fault + InfraredMessage option \<times> InfraredCommonDecoder) option" where
  "infrared_common_decode fuel sp d level duration =
     (let d1 = (if ir_level d = level then infrared_common_decoder_reset sp d else d);
          d2 = d1\<lparr>ir_level := level, ir_timings := ir_timings d1 @ [duration]\<rparr>
      in if length (ir_timings d2) > 6 then Some (Inl FuriCheck)
         else decode_machine fuel sp d2 None)"

text \<open>The bytes a frame of the longest length needs.\<close>

definition data_bytes :: "InfraredCommonProtocolSpec \<Rightarrow> nat" where
  "data_bytes sp = unat (databit_len0 sp) div 8 + (if unat (databit_len0 sp) mod 8 = 0 then 0 else 1)"

definition infrared_common_decoder_alloc :: "InfraredCommonProtocolSpec \<Rightarrow> InfraredCommonDecoder" where
  "infrared_common_decoder_alloc sp =
     \<lparr>ir_timings = [], ir_message = \<lparr>msg_protocol = InfraredProtocolNEC, msg_address = 0, msg_command = 0, msg_repeat = False\<rparr>,
      ir_state = InfraredCommonDecoderStateWaitPreamble, ir_switch_detect = False, ir_level = True,
      ir_databit_cnt = 0,
      ir_data = replicate (data_bytes sp) 0\<rparr>"

section \<open>Encoder\<close>

definition encoder_bit :: "InfraredCommonEncoder \<Rightarrow> fault + bool" where
  "encoder_bit e =
     bind_r (rd (en_data e) (unat (en_bits_encoded e) div 8)) (\<lambda>v.
       Inr (v AND push_bit (unat (en_bits_encoded e) mod 8) 1 \<noteq> 0))"

definition infrared_common_encode_manchester ::
    "InfraredTimings \<Rightarrow> InfraredCommonEncoder \<Rightarrow> fault + (u32 \<times> bool) \<times> InfraredCommonEncoder" where
  "infrared_common_encode_manchester tm e =
     bind_r (encoder_bit e) (\<lambda>logic_value.
       let even_timing = (en_timings_encoded e mod 2 = 0);
           level = (even_timing \<noteq> logic_value)
       in Inr ((ucast (bit1_mark tm), level),
            if even_timing \<or> level \<and> unat (en_bits_encoded e) + 1 = unat (en_bits_to_encode e)
            then e\<lparr>en_bits_encoded := en_bits_encoded e + 1\<rparr> else e))"

definition infrared_common_encode_pdwm ::
    "InfraredTimings \<Rightarrow> InfraredCommonEncoder \<Rightarrow> fault + (u32 \<times> bool) \<times> InfraredCommonEncoder" where
  "infrared_common_encode_pdwm tm e =
     bind_r (encoder_bit e) (\<lambda>logic_value.
       let pwm = (bit1_space tm = bit0_space tm);
           next_bit = e\<lparr>en_bits_encoded := en_bits_encoded e + 1\<rparr>
       in if en_timings_encoded e mod 2 \<noteq> 0
          then Inr ((ucast (if logic_value then bit1_mark tm else bit0_mark tm), True),
                 if pwm then next_bit else e)
          else Inr ((ucast (if logic_value then bit1_space tm else bit0_space tm), False),
                 if \<not> pwm then next_bit else e))"

definition infrared_common_encode_bits ::
    "InfraredCommonProtocolSpec \<Rightarrow> InfraredCommonEncoder
      \<Rightarrow> fault + InfraredStatus \<times> (u32 \<times> bool) \<times> InfraredCommonEncoder" where
  "infrared_common_encode_bits sp e =
     bind_r (case sp_encode sp of Pdwm \<Rightarrow> infrared_common_encode_pdwm (sp_timings sp) e
             | ManchesterMod \<Rightarrow> infrared_common_encode_manchester (sp_timings sp) e)
       (\<lambda>((duration, level), e1).
         let e2 = e1\<lparr>en_timings_encoded := en_timings_encoded e1 + 1,
                en_timings_sum := en_timings_sum e1 + duration\<rparr>
         in Inr (if en_bits_encoded e2 = en_bits_to_encode e2 \<and> level
                 then InfraredStatusDone else InfraredStatusOk, (duration, level), e2))"

text \<open>The \<^verbatim>\<open>Encode\<close> case of \<^verbatim>\<open>infrared_common_encode\<close>, which the \<^verbatim>\<open>Preamble\<close> case falls into
  when there is no preamble.\<close>

definition encode_payload ::
    "InfraredCommonProtocolSpec \<Rightarrow> InfraredCommonEncoder
      \<Rightarrow> fault + InfraredStatus \<times> (u32 \<times> bool) \<times> InfraredCommonEncoder" where
  "encode_payload sp e =
     bind_r (infrared_common_encode_bits sp e) (\<lambda>(status, out, e1).
       if status = InfraredStatusDone then
         (if sp_encode_repeat sp \<noteq> None
          then Inr (status, out, e1\<lparr>en_state := InfraredCommonEncoderStateEncodeRepeat\<rparr>)
          else Inr (status, out, e1\<lparr>en_timings_encoded := 0, en_timings_sum := 0, en_bits_encoded := 0,
                 en_switch_detect := False, en_state := InfraredCommonEncoderStateSilence\<rparr>))
       else Inr (status, out, e1))"

definition infrared_common_encode ::
    "InfraredCommonProtocolSpec \<Rightarrow> InfraredCommonEncoder
      \<Rightarrow> fault + InfraredStatus \<times> (u32 \<times> bool) \<times> InfraredCommonEncoder" where
  "infrared_common_encode sp e =
     (let tm = sp_timings sp
      in case en_state e of
        InfraredCommonEncoderStateSilence \<Rightarrow>
          Inr (InfraredStatusOk, (silence_time tm, False),
               e\<lparr>en_state := InfraredCommonEncoderStatePreamble,
                 en_timings_encoded := en_timings_encoded e + 1, en_timings_sum := 0\<rparr>)
      | InfraredCommonEncoderStatePreamble \<Rightarrow>
          (if preamble_mark tm \<noteq> 0 then
             (if en_timings_encoded e = 1
              then Inr (InfraredStatusOk, (ucast (preamble_mark tm), True),
                     e\<lparr>en_timings_encoded := en_timings_encoded e + 1,
                       en_timings_sum := en_timings_sum e + ucast (preamble_mark tm)\<rparr>)
              else Inr (InfraredStatusOk, (ucast (preamble_space tm), False),
                     e\<lparr>en_state := InfraredCommonEncoderStateEncode,
                       en_timings_encoded := en_timings_encoded e + 1,
                       en_timings_sum := en_timings_sum e + ucast (preamble_space tm)\<rparr>))
           else encode_payload sp (e\<lparr>en_state := InfraredCommonEncoderStateEncode\<rparr>))
      | InfraredCommonEncoderStateEncode \<Rightarrow> encode_payload sp e
      | InfraredCommonEncoderStateEncodeRepeat \<Rightarrow>
          (case sp_encode_repeat sp of
             None \<Rightarrow> Inl UndefinedBehaviour
           | Some encode_repeat \<Rightarrow> encode_repeat e))"

text \<open>
  The encoder is allocated with the size of the (larger) decoder structure, so its data area has
  \<open>slack\<close> more bytes than the frame needs, all zero.
\<close>

definition infrared_common_encoder_alloc :: "nat \<Rightarrow> InfraredCommonProtocolSpec \<Rightarrow> InfraredCommonEncoder" where
  "infrared_common_encoder_alloc slack sp =
     \<lparr>en_state = InfraredCommonEncoderStateSilence, en_switch_detect = False, en_bits_to_encode = 0,
      en_bits_encoded = 0, en_timings_sum = 0, en_timings_encoded = 0,
      en_data = replicate (data_bytes sp + slack) 0\<rparr>"

text \<open>The reset clears as many bytes as the longest frame has; \<^verbatim>\<open>databit_len[0]\<close> is the longest
  (asserted at allocation).\<close>

definition infrared_common_encoder_reset ::
    "InfraredCommonProtocolSpec \<Rightarrow> InfraredCommonEncoder \<Rightarrow> InfraredCommonEncoder" where
  "infrared_common_encoder_reset sp e =
     e\<lparr>en_timings_encoded := 0, en_timings_sum := 0, en_bits_encoded := 0,
       en_state := InfraredCommonEncoderStateSilence, en_switch_detect := False,
       en_data := replicate (data_bytes sp) 0 @ drop (data_bytes sp) (en_data e)\<rparr>"

section \<open>Decoders that cannot fault\<close>

text \<open>
  What a pulse distance protocol has to guarantee so that no sequence of edges crashes its
  decoder: \<^verbatim>\<open>interpret\<close> may refuse a frame only at the full length, and \<^verbatim>\<open>decode_repeat\<close> gives a
  verdict before the array of timings overflows.
\<close>

definition decoder_fits :: "InfraredCommonProtocolSpec \<Rightarrow> InfraredCommonDecoder \<Rightarrow> bool" where
  "decoder_fits sp d \<longleftrightarrow> length (ir_data d) = data_bytes sp \<and> ir_databit_cnt d \<le> databit_len0 sp"

definition decoder_inv :: "InfraredCommonProtocolSpec \<Rightarrow> InfraredCommonDecoder \<Rightarrow> bool" where
  "decoder_inv sp d \<longleftrightarrow> decoder_fits sp d \<and> length (ir_timings d) \<le> 5 \<and>
     (ir_state d = InfraredCommonDecoderStateDecode \<longrightarrow> ir_timings d = []) \<and>
     (ir_state d = InfraredCommonDecoderStateProcessRepeat \<longrightarrow> sp_decode_repeat sp \<noteq> None)"

lemma decoder_fits_simps [simp]:
  "decoder_fits sp (d\<lparr>ir_timings := x\<rparr>) = decoder_fits sp d"
  "decoder_fits sp (d\<lparr>ir_state := s\<rparr>) = decoder_fits sp d"
  "decoder_fits sp (d\<lparr>ir_message := m\<rparr>) = decoder_fits sp d"
  "decoder_fits sp (d\<lparr>ir_level := l\<rparr>) = decoder_fits sp d"
  "decoder_fits sp (d\<lparr>ir_switch_detect := b\<rparr>) = decoder_fits sp d"
  by (simp_all add: decoder_fits_def)

lemma decoder_fits_data: "decoder_fits sp d \<Longrightarrow> length (ir_data d) = data_bytes sp"
  by (simp add: decoder_fits_def)

lemma decoder_fits_cnt_0 [simp]:
  "decoder_fits sp (d\<lparr>ir_databit_cnt := 0\<rparr>) \<longleftrightarrow> length (ir_data d) = data_bytes sp"
  by (simp add: decoder_fits_def)

locale pulse_distance_protocol =
  fixes sp :: InfraredCommonProtocolSpec
  assumes pdwm: "sp_decode sp = Pdwm"
    and distance: "bit1_mark (sp_timings sp) = bit0_mark (sp_timings sp)"
    and preamble: "preamble_mark (sp_timings sp) \<noteq> 0"
    and split: "min_split_time (sp_timings sp) \<noteq> 0"
    and lengths: "databit_len sp \<noteq> []" "hd (databit_len sp) \<noteq> 0"

locale total_protocol = pulse_distance_protocol +
  assumes interpret_total: "decoder_fits sp d \<Longrightarrow> length_found sp (ir_databit_cnt d) \<Longrightarrow>
      \<exists>ok d'. sp_interpret sp d = Inr (ok, d') \<and> decoder_fits sp d' \<and>
        ir_databit_cnt d' = ir_databit_cnt d \<and> ir_timings d' = ir_timings d \<and> ir_state d' = ir_state d \<and>
        (ok \<or> ir_databit_cnt d = databit_len0 sp)"
    and repeat_total: "sp_decode_repeat sp = Some r \<Longrightarrow>
      \<exists>status ts. r d = Inr (status, d\<lparr>ir_timings := ts\<rparr>) \<and> length ts \<le> length (ir_timings d) \<and>
        (status = InfraredStatusOk \<longrightarrow> length ts \<le> 5) \<and>
        (status = InfraredStatusReady \<longrightarrow> ts = []) \<and> status \<noteq> InfraredStatusDone"

context pulse_distance_protocol begin

lemma databit_len0_found: "length_found sp (databit_len0 sp)"
  using lengths by (cases "databit_len sp") (auto simp: length_found_def databit_len0_def)

lemma databit_len0_small: "unat (databit_len0 sp) < 256"
proof (cases "databit_len sp")
  case (Cons l ls)
  then show ?thesis
    using unsigned_less [of l, where ?'a = nat] by (simp add: databit_len0_def)
qed (simp add: databit_len0_def)

lemma accumulate_total:
  assumes "decoder_fits sp d" and "ir_databit_cnt d < databit_len0 sp"
  shows "\<exists>d'. accumulate_lsb d b = Inr d' \<and> decoder_fits sp d' \<and>
    d' = d\<lparr>ir_data := ir_data d', ir_databit_cnt := ir_databit_cnt d + 1\<rparr>"
proof -
  let ?n = "unat (ir_databit_cnt d)"
  have "?n < unat (databit_len0 sp)" using assms(2) by (simp add: word_less_nat_alt)
  then have i: "?n div 8 < length (ir_data d)"
    using assms(1) unfolding decoder_fits_def data_bytes_def by auto
  have "ir_databit_cnt d + 1 \<le> databit_len0 sp"
    using assms(2) by (simp add: inc_le)
  then show ?thesis
    using i assms(1) by (auto simp: accumulate_lsb_def Let_def decoder_fits_def)
qed

end

context pulse_distance_protocol begin

lemma decode_call_total:
  assumes "decoder_fits sp d" and "level \<or> ir_databit_cnt d < databit_len0 sp"
  shows "\<exists>status d'. sp_decode_call sp d level timing = Inr (status, d') \<and> decoder_fits sp d' \<and>
    d' = d\<lparr>ir_data := ir_data d', ir_databit_cnt := ir_databit_cnt d'\<rparr> \<and>
    status \<in> {InfraredStatusOk, InfraredStatusError}"
proof (cases level)
  case True
  then show ?thesis
    using assms(1) distance by (simp add: sp_decode_call_def pdwm infrared_common_decode_pdwm_def Let_def)
next
  case False
  then obtain d1 d0 where "accumulate_lsb d True = Inr d1" "accumulate_lsb d False = Inr d0"
      "decoder_fits sp d1" "decoder_fits sp d0"
      "d1 = d\<lparr>ir_data := ir_data d1, ir_databit_cnt := ir_databit_cnt d + 1\<rparr>"
      "d0 = d\<lparr>ir_data := ir_data d0, ir_databit_cnt := ir_databit_cnt d + 1\<rparr>"
    using accumulate_total [OF assms(1)] assms(2) by metis
  moreover from this(5,6) have "ir_databit_cnt d1 = ir_databit_cnt d + 1" "ir_databit_cnt d0 = ir_databit_cnt d + 1"
    by (metis InfraredCommonDecoder.select_convs(6) InfraredCommonDecoder.surjective InfraredCommonDecoder.update_convs(6))+
  ultimately show ?thesis
    using False assms(1) distance
    by (auto simp: sp_decode_call_def pdwm infrared_common_decode_pdwm_def Let_def)
qed

lemma decode_bits_total:
  assumes "decoder_fits sp d"
  shows "\<exists>status d'. decode_bits_loop sp ts d = Inr (status, d') \<and> decoder_fits sp d' \<and>
    ir_state d' = ir_state d \<and> length (ir_timings d') \<le> length ts \<and> status \<noteq> InfraredStatusDone \<and>
    (status = InfraredStatusOk \<longrightarrow> ir_timings d' = []) \<and>
    (status = InfraredStatusReady \<longrightarrow> length_found sp (ir_databit_cnt d'))"
  using assms
proof (induction ts arbitrary: d)
  case Nil
  then show ?case by simp
next
  case (Cons t ts)
  let ?level = "odd (of_bool (ir_level d) + length (t # ts) + 1)"
  let ?split = "min_split_time (sp_timings sp)"
  show ?case
  proof (cases "?level \<or> ir_databit_cnt d < databit_len0 sp")
    case False
    then have "ir_databit_cnt d = databit_len0 sp"
      using Cons.prems by (auto simp: decoder_fits_def)
    with False Cons.prems split databit_len0_found show ?thesis
      by (cases "t > ?split") (auto simp: Let_def)
  next
    case True
    from decode_call_total [OF Cons.prems True, of t] obtain status d' where
      c: "sp_decode_call sp d ?level t = Inr (status, d')" "decoder_fits sp d'"
         "d' = d\<lparr>ir_data := ir_data d', ir_databit_cnt := ir_databit_cnt d'\<rparr>"
         "status \<in> {InfraredStatusOk, InfraredStatusError}" by blast
    have st: "ir_state d' = ir_state d"
      by (subst c(3)) simp
    have cnt: "\<not> ir_databit_cnt d' > databit_len0 sp"
      using c(2) by (simp add: decoder_fits_def not_less)
    from Cons.IH [OF c(2)] c cnt st split Cons.prems show ?thesis
      by (auto simp: Let_def simp del: length_Cons)
  qed
qed

end

lemma preamble_scan_length:
  "length (snd (preamble_scan tm ts)) + (if fst (preamble_scan tm ts) then 2 else 0) \<le> length ts \<and>
   (\<not> fst (preamble_scan tm ts) \<longrightarrow> length (snd (preamble_scan tm ts)) \<le> 1)"
  by (induction tm ts rule: preamble_scan.induct) (auto split: if_splits)

primrec state_rank :: "InfraredCommonStateDecoder \<Rightarrow> nat" where
  "state_rank InfraredCommonDecoderStateWaitPreamble = 0"
| "state_rank InfraredCommonDecoderStateProcessRepeat = 1"
| "state_rank InfraredCommonDecoderStateDecode = 2"

context total_protocol begin

lemma reset_state_simps [simp]:
  "ir_state (infrared_common_decoder_reset_state sp d) = InfraredCommonDecoderStateWaitPreamble"
  "ir_timings (infrared_common_decoder_reset_state sp d) = ir_timings d"
  "decoder_fits sp (infrared_common_decoder_reset_state sp d) \<longleftrightarrow> length (ir_data d) = data_bytes sp"
  using preamble by (simp_all add: infrared_common_decoder_reset_state_def Let_def decoder_fits_def)

lemma check_preamble_total:
  "\<exists>found ts. infrared_check_preamble (sp_timings sp) d = (found, d\<lparr>ir_timings := ts\<rparr>) \<and>
    length ts + (if found then 2 else 0) \<le> length (ir_timings d) \<and> (\<not> found \<longrightarrow> length ts \<le> 1)"
proof (cases "ir_timings d = []")
  case True
  then have "d\<lparr>ir_timings := []\<rparr> = d" by simp
  with True show ?thesis
    by (intro exI [of _ False] exI [of _ "[]"]) (simp add: infrared_check_preamble_def)
next
  case False
  define ts where "ts = (if odd (of_bool (ir_level d) + length (ir_timings d) + 1) then ir_timings d else tl (ir_timings d))"
  have "infrared_check_preamble (sp_timings sp) d =
      (fst (preamble_scan (sp_timings sp) ts), d\<lparr>ir_timings := snd (preamble_scan (sp_timings sp) ts)\<rparr>)"
    using False preamble unfolding infrared_check_preamble_def ts_def Let_def
    by (simp add: case_prod_beta)
  moreover have "length ts \<le> length (ir_timings d)" by (simp add: ts_def)
  ultimately show ?thesis
    using preamble_scan_length [of "sp_timings sp" ts]
    by (intro exI [of _ "fst (preamble_scan (sp_timings sp) ts)"] exI [of _ "snd (preamble_scan (sp_timings sp) ts)"]) auto
qed

lemma check_ready_total:
  assumes "decoder_fits sp d" and "length_found sp (ir_databit_cnt d)"
  shows "\<exists>m d'. infrared_common_decoder_check_ready sp d = Inr (m, d') \<and> decoder_fits sp d' \<and>
    ir_timings d' = ir_timings d \<and>
    (m = None \<longrightarrow> ir_databit_cnt d' = databit_len0 sp) \<and>
    (m \<noteq> None \<longrightarrow> ir_state d' = (if sp_decode_repeat sp \<noteq> None then InfraredCommonDecoderStateProcessRepeat
                 else InfraredCommonDecoderStateWaitPreamble))"
proof -
  obtain ok d' where i: "sp_interpret sp d = Inr (ok, d')" "decoder_fits sp d'"
      "ir_databit_cnt d' = ir_databit_cnt d" "ir_timings d' = ir_timings d" "ok \<or> ir_databit_cnt d = databit_len0 sp"
    using interpret_total [OF assms] by blast
  then show ?thesis
    using assms by (cases ok) (auto simp: infrared_common_decoder_check_ready_def Let_def decoder_fits_def)
qed

theorem machine_total:
  assumes "decoder_fits sp d" and "length (ir_timings d) \<le> 6"
    and "ir_state d = InfraredCommonDecoderStateDecode \<longrightarrow> length (ir_timings d) \<le> 4"
    and "ir_state d = InfraredCommonDecoderStateProcessRepeat \<longrightarrow> sp_decode_repeat sp \<noteq> None"
    and "3 * length (ir_timings d) + state_rank (ir_state d) < fuel"
  shows "\<exists>m d'. decode_machine fuel sp d message = Some (Inr (m, d')) \<and> decoder_inv sp d'"
  using assms
proof (induction fuel arbitrary: d message)
  case 0
  then show ?case by simp
next
  case (Suc fuel)
  show ?case
  proof (cases "ir_state d")
    case st: InfraredCommonDecoderStateWaitPreamble
    obtain found ts where p: "infrared_check_preamble (sp_timings sp) d = (found, d\<lparr>ir_timings := ts\<rparr>)"
        "length ts + (if found then 2 else 0) \<le> length (ir_timings d)" "\<not> found \<longrightarrow> length ts \<le> 1"
      using check_preamble_total by blast
    show ?thesis
    proof (cases found)
      case True
      let ?d = "d\<lparr>ir_timings := ts, ir_state := InfraredCommonDecoderStateDecode, ir_databit_cnt := 0, ir_switch_detect := False\<rparr>"
      have "\<exists>m d'. decode_machine fuel sp ?d message = Some (Inr (m, d')) \<and> decoder_inv sp d'"
        using Suc.prems st p True by (intro Suc.IH) (auto dest: decoder_fits_data)
      then show ?thesis using st p True by simp
    next
      case False
      then show ?thesis using st p Suc.prems(1) by (simp add: decoder_inv_def)
    qed
  next
    case st: InfraredCommonDecoderStateDecode
    obtain status d1 where b: "infrared_common_decode_bits sp d = Inr (status, d1)" "decoder_fits sp d1"
        "ir_state d1 = ir_state d" "length (ir_timings d1) \<le> length (ir_timings d)" "status \<noteq> InfraredStatusDone"
        "status = InfraredStatusOk \<longrightarrow> ir_timings d1 = []"
        "status = InfraredStatusReady \<longrightarrow> length_found sp (ir_databit_cnt d1)"
      using decode_bits_total [OF Suc.prems(1), of "ir_timings d"] unfolding infrared_common_decode_bits_def by blast
    consider "status = InfraredStatusOk" | "status = InfraredStatusReady" | "status = InfraredStatusError"
      using b(5) by (cases status) auto
    then show ?thesis
    proof cases
      case 1
      then show ?thesis using st b by (simp add: decoder_inv_def)
    next
      case 2
      with b obtain m d2 where c: "infrared_common_decoder_check_ready sp d1 = Inr (m, d2)" "decoder_fits sp d2"
        "ir_timings d2 = ir_timings d1" "m = None \<longrightarrow> ir_databit_cnt d2 = databit_len0 sp"
        "m \<noteq> None \<longrightarrow> ir_state d2 = (if sp_decode_repeat sp \<noteq> None then InfraredCommonDecoderStateProcessRepeat
                 else InfraredCommonDecoderStateWaitPreamble)"
        using check_ready_total [OF b(2)] by blast
      show ?thesis
      proof (cases m)
        case None
        then show ?thesis using 2 st b c Suc.prems(3) by (simp add: decoder_inv_def)
      next
        case (Some x)
        have "\<exists>m d'. decode_machine fuel sp d2 (Some x) = Some (Inr (m, d')) \<and> decoder_inv sp d'"
          using Suc.prems st b(4) c Some by (intro Suc.IH) (auto dest: decoder_fits_data)
        then show ?thesis using 2 st b c Some by simp
      qed
    next
      case 3
      have "\<exists>m d'. decode_machine fuel sp (infrared_common_decoder_reset_state sp d1) message = Some (Inr (m, d')) \<and> decoder_inv sp d'"
        using Suc.prems st b by (intro Suc.IH) (auto dest: decoder_fits_data)
      then show ?thesis using 3 st b by simp
    qed
  next
    case st: InfraredCommonDecoderStateProcessRepeat
    then obtain r where r: "sp_decode_repeat sp = Some r" using Suc.prems(4) by auto
    obtain status ts where t: "r d = Inr (status, d\<lparr>ir_timings := ts\<rparr>)" "length ts \<le> length (ir_timings d)"
        "status = InfraredStatusOk \<longrightarrow> length ts \<le> 5" "status = InfraredStatusReady \<longrightarrow> ts = []"
        "status \<noteq> InfraredStatusDone"
      using repeat_total [OF r, of d] by blast
    have e: "\<exists>m d'. decode_machine fuel sp (infrared_common_decoder_reset_state sp (d\<lparr>ir_timings := ts\<rparr>)) message
        = Some (Inr (m, d')) \<and> decoder_inv sp d'"
      using Suc.prems st t(2) by (intro Suc.IH) (auto dest: decoder_fits_data)
    show ?thesis
      using st r t e Suc.prems(1) by (cases status) (auto simp: decoder_inv_def Let_def)
  qed
qed

text \<open>No edge makes the decoder fault, and the invariant is kept: by induction, no sequence does.\<close>

theorem decode_total:
  assumes "decoder_inv sp d" and "22 \<le> fuel"
  shows "\<exists>m d'. infrared_common_decode fuel sp d level duration = Some (Inr (m, d')) \<and> decoder_inv sp d'"
proof -
  define d1 where "d1 = (if ir_level d = level then infrared_common_decoder_reset sp d else d)"
  define d2 where "d2 = d1\<lparr>ir_level := level, ir_timings := ir_timings d1 @ [duration]\<rparr>"
  have d1: "decoder_fits sp d1" "length (ir_timings d1) \<le> 5"
     "ir_state d1 = InfraredCommonDecoderStateDecode \<longrightarrow> ir_timings d1 = []"
     "ir_state d1 = InfraredCommonDecoderStateProcessRepeat \<longrightarrow> sp_decode_repeat sp \<noteq> None"
    using assms(1) by (auto simp: d1_def decoder_inv_def infrared_common_decoder_reset_def dest: decoder_fits_data)
  have "3 * length (ir_timings d2) + state_rank (ir_state d2) < fuel"
    using d1(2,3) assms(2) by (cases "ir_state d1") (auto simp: d2_def)
  then have "\<exists>m d'. decode_machine fuel sp d2 None = Some (Inr (m, d')) \<and> decoder_inv sp d'"
    using d1 by (intro machine_total) (auto simp: d2_def)
  moreover have "\<not> length (ir_timings d2) > 6" using d1(2) by (simp add: d2_def)
  ultimately show ?thesis
    unfolding infrared_common_decode_def Let_def d1_def [symmetric] d2_def [symmetric] by simp
qed

end

section \<open>Whole signals\<close>

text \<open>Feeding a sequence of edges; the messages reported on the way are collected.\<close>

fun infrared_decode_all ::
    "nat \<Rightarrow> InfraredCommonProtocolSpec \<Rightarrow> InfraredCommonDecoder \<Rightarrow> (bool \<times> u32) list
      \<Rightarrow> (fault + InfraredMessage list \<times> InfraredCommonDecoder) option" where
  "infrared_decode_all fuel sp d [] = Some (Inr ([], d))"
| "infrared_decode_all fuel sp d ((level, duration) # ps) =
     (case infrared_common_decode fuel sp d level duration of
        None \<Rightarrow> None
      | Some (Inl e) \<Rightarrow> Some (Inl e)
      | Some (Inr (m, d1)) \<Rightarrow>
          (case infrared_decode_all fuel sp d1 ps of
             None \<Rightarrow> None
           | Some (Inl e) \<Rightarrow> Some (Inl e)
           | Some (Inr (ms, d2)) \<Rightarrow> Some (Inr ((case m of None \<Rightarrow> ms | Some x \<Rightarrow> x # ms), d2))))"

lemma decoder_inv_alloc: "decoder_inv sp (infrared_common_decoder_alloc sp)"
  by (simp add: decoder_inv_def decoder_fits_def infrared_common_decoder_alloc_def)

context total_protocol begin

theorem decode_all_total:
  assumes "decoder_inv sp d" and "22 \<le> fuel"
  shows "\<exists>ms d'. infrared_decode_all fuel sp d ps = Some (Inr (ms, d')) \<and> decoder_inv sp d'"
  using assms(1)
proof (induction ps arbitrary: d)
  case Nil
  then show ?case by simp
next
  case (Cons p ps)
  obtain level duration where p: "p = (level, duration)" by fastforce
  obtain m d1 where 1: "infrared_common_decode fuel sp d level duration = Some (Inr (m, d1))" "decoder_inv sp d1"
    using decode_total [OF Cons.prems assms(2)] by blast
  obtain ms d2 where "infrared_decode_all fuel sp d1 ps = Some (Inr (ms, d2))" "decoder_inv sp d2"
    using Cons.IH [OF 1(2)] by blast
  with p 1 show ?case by simp
qed

end

end
