(* ===== verification/Infrared_Protocols.thy ===== *)
theory Infrared_Protocols
  imports Infrared_Common
begin

text \<open>
  The infrared protocols NEC (with its extended and 42 bit variants), Samsung32 and Pioneer,
  \<^verbatim>\<open>lib/infrared/encoder_decoder/nec\<close>, \<^verbatim>\<open>samsung\<close> and \<^verbatim>\<open>pioneer\<close>.
\<close>

unbundle bit_operations_syntax

text \<open>Little endian reads of the data area through \<^verbatim>\<open>uint32_t*\<close> and \<^verbatim>\<open>uint16_t*\<close>.\<close>

definition read_le16 :: "u8 list \<Rightarrow> nat \<Rightarrow> fault + u16" where
  "read_le16 bs i = bind_r (rd bs i) (\<lambda>a. bind_r (rd bs (i + 1)) (\<lambda>b. Inr (ucast a OR push_bit 8 (ucast b))))"

definition read_le32 :: "u8 list \<Rightarrow> nat \<Rightarrow> fault + u32" where
  "read_le32 bs i =
     bind_r (read_le16 bs i) (\<lambda>lo. bind_r (read_le16 bs (i + 2)) (\<lambda>hi.
       Inr (ucast lo OR push_bit 16 (ucast hi))))"

definition write_le32 :: "u8 list \<Rightarrow> nat \<Rightarrow> u32 \<Rightarrow> fault + u8 list" where
  "write_le32 bs i w =
     bind_r (wr bs i (ucast w)) (\<lambda>b1. bind_r (wr b1 (i + 1) (ucast (drop_bit 8 w))) (\<lambda>b2.
       bind_r (wr b2 (i + 2) (ucast (drop_bit 16 w))) (\<lambda>b3. wr b3 (i + 3) (ucast (drop_bit 24 w)))))"

definition set_message ::
    "InfraredProtocol \<Rightarrow> u32 \<Rightarrow> u32 \<Rightarrow> InfraredCommonDecoder \<Rightarrow> InfraredCommonDecoder" where
  "set_message protocol address command d =
     d\<lparr>ir_message := \<lparr>msg_protocol = protocol, msg_address = address, msg_command = command, msg_repeat = False\<rparr>\<rparr>"

section \<open>NEC\<close>

definition nec_timings :: InfraredTimings where
  "nec_timings = \<lparr>min_split_time = 4000, silence_time = 110000, preamble_mark = 9000,
     preamble_space = 4500, bit1_mark = 560, bit1_space = 1690, bit0_mark = 560, bit0_space = 560,
     preamble_tolerance = 200, bit_tolerance = 120\<rparr>"

definition infrared_decoder_nec_interpret :: "InfraredCommonDecoder \<Rightarrow> fault + bool \<times> InfraredCommonDecoder" where
  "infrared_decoder_nec_interpret d =
     (if ir_databit_cnt d = 32 then
        bind_r (rd (ir_data d) 0) (\<lambda>address. bind_r (rd (ir_data d) 1) (\<lambda>address_inverse.
        bind_r (rd (ir_data d) 2) (\<lambda>command. bind_r (rd (ir_data d) 3) (\<lambda>command_inverse.
          if command = NOT command_inverse \<and> address = NOT address_inverse
          then Inr (True, set_message InfraredProtocolNEC (ucast address) (ucast command) d)
          else Inr (True, set_message InfraredProtocolNECext
                 (ucast address OR push_bit 8 (ucast address_inverse))
                 (ucast command OR push_bit 8 (ucast command_inverse)) d)))))
      else if ir_databit_cnt d = 42 then
        bind_r (read_le32 (ir_data d) 0) (\<lambda>data1. bind_r (read_le16 (ir_data d) 4) (\<lambda>data2.
          let address = (ucast (data1 AND 0x1FFF) :: u16);
              address_inverse = (ucast (drop_bit 13 data1 AND 0x1FFF) :: u16);
              command = (ucast (drop_bit 26 data1 AND 0x3F) OR push_bit 6 (data2 AND 0x3) :: u16);
              command_inverse = drop_bit 2 data2 AND 0xFF
          in if address = NOT address_inverse AND 0x1FFF \<and> command = NOT command_inverse AND 0xFF
             then Inr (True, set_message InfraredProtocolNEC42 (ucast address) (ucast command) d)
             else Inr (True, set_message InfraredProtocolNEC42ext
                    (ucast address OR push_bit 13 (ucast address_inverse))
                    (ucast command OR push_bit 8 (ucast command_inverse)) d)))
      else Inr (False, d))"

definition infrared_decoder_nec_decode_repeat ::
    "InfraredCommonDecoder \<Rightarrow> fault + InfraredStatus \<times> InfraredCommonDecoder" where
  "infrared_decoder_nec_decode_repeat d =
     (let ts = ir_timings d; tm = nec_timings
      in if length ts < 4 then Inr (InfraredStatusOk, d)
         else if ts ! 0 > 4000 \<and> ts ! 0 < 150000 \<and>
            match_timing_float (ts ! 1) 9000 (preamble_tolerance tm) \<and>
            match_timing_float (ts ! 2) 2250 (preamble_tolerance tm) \<and>
            match_timing (ts ! 3) (ucast (bit1_mark tm)) (bit_tolerance tm)
         then Inr (InfraredStatusReady, d\<lparr>ir_timings := []\<rparr>)
         else Inr (InfraredStatusError, d))"

definition nec_repeat_timings :: "u32 list" where
  "nec_repeat_timings = [110000 - 9000 - 2250 - 560, 9000, 2250, 560]"

definition infrared_encoder_nec_encode_repeat ::
    "InfraredCommonEncoder \<Rightarrow> fault + InfraredStatus \<times> (u32 \<times> bool) \<times> InfraredCommonEncoder" where
  "infrared_encoder_nec_encode_repeat e =
     (let up_to_repeat = 1 + 2 + ucast (en_bits_to_encode e) * 2 + 1;
          repeat_cnt = en_timings_encoded e - up_to_repeat
      in bind_r (if repeat_cnt > 0 then rd nec_repeat_timings (unat (repeat_cnt mod 4))
                 else Inr (110000 - en_timings_sum e)) (\<lambda>duration.
           Inr (if (repeat_cnt + 1) mod 4 = 0 then InfraredStatusDone else InfraredStatusOk,
                (duration, repeat_cnt mod 2 \<noteq> 0),
                e\<lparr>en_timings_encoded := en_timings_encoded e + 1\<rparr>)))"

definition infrared_protocol_nec :: InfraredCommonProtocolSpec where
  "infrared_protocol_nec = \<lparr>sp_timings = nec_timings, manchester_start_from_space = False,
     databit_len = [42, 32, 0, 0], sp_decode = Pdwm,
     sp_decode_repeat = Some infrared_decoder_nec_decode_repeat,
     sp_interpret = infrared_decoder_nec_interpret, sp_encode = Pdwm,
     sp_encode_repeat = Some infrared_encoder_nec_encode_repeat\<rparr>"

text \<open>The data a message is encoded as: the two 32 bit words and the number of bits.\<close>

definition nec_data :: "InfraredMessage \<Rightarrow> fault + u32 \<times> u32 option \<times> u8" where
  "nec_data m =
     (let address = msg_address m; command = msg_command m
      in case msg_protocol m of
        InfraredProtocolNEC \<Rightarrow>
          (let a = (ucast address :: u8); c = (ucast command :: u8)
           in Inr (ucast a OR push_bit 8 (ucast (NOT a)) OR push_bit 16 (ucast c) OR push_bit 24 (ucast (NOT c)),
                   None, 32))
      | InfraredProtocolNECext \<Rightarrow>
          Inr (ucast (ucast address :: u16) OR push_bit 16 (command AND 0xFFFF), None, 32)
      | InfraredProtocolNEC42 \<Rightarrow>
          Inr ((address AND 0x1FFF) OR push_bit 13 (NOT address AND 0x1FFF) OR push_bit 26 (command AND 0x3F),
               Some (drop_bit 6 (command AND 0xC0) OR push_bit 2 (NOT command AND 0xFF)), 42)
      | InfraredProtocolNEC42ext \<Rightarrow>
          Inr ((address AND 0x3FFFFFF) OR push_bit 26 (command AND 0x3F),
               Some (drop_bit 6 (command AND 0xFFC0)), 42)
      | _ \<Rightarrow> Inl FuriCrash)"

definition infrared_encoder_nec_reset ::
    "InfraredCommonEncoder \<Rightarrow> InfraredMessage \<Rightarrow> fault + InfraredCommonEncoder" where
  "infrared_encoder_nec_reset e m =
     (let e1 = infrared_common_encoder_reset infrared_protocol_nec e
      in bind_r (nec_data m) (\<lambda>(data1, data2, bits).
         bind_r (write_le32 (en_data e1) 0 data1) (\<lambda>b1.
         bind_r (case data2 of None \<Rightarrow> Inr b1 | Some w \<Rightarrow> write_le32 b1 4 w) (\<lambda>b2.
           Inr (e1\<lparr>en_data := b2, en_bits_to_encode := bits\<rparr>)))))"

section \<open>Samsung32\<close>

definition samsung_timings :: InfraredTimings where
  "samsung_timings = \<lparr>min_split_time = 5000, silence_time = 145000, preamble_mark = 4500,
     preamble_space = 4500, bit1_mark = 550, bit1_space = 1650, bit0_mark = 550, bit0_space = 550,
     preamble_tolerance = 200, bit_tolerance = 120\<rparr>"

definition infrared_decoder_samsung32_interpret ::
    "InfraredCommonDecoder \<Rightarrow> fault + bool \<times> InfraredCommonDecoder" where
  "infrared_decoder_samsung32_interpret d =
     bind_r (rd (ir_data d) 0) (\<lambda>address1. bind_r (rd (ir_data d) 1) (\<lambda>address2.
     bind_r (rd (ir_data d) 2) (\<lambda>command. bind_r (rd (ir_data d) 3) (\<lambda>command_inverse.
       if address1 = address2 \<and> command = NOT command_inverse
       then Inr (True, set_message InfraredProtocolSamsung32 (ucast address1) (ucast command) d)
       else Inr (False, d)))))"

definition infrared_decoder_samsung32_decode_repeat ::
    "InfraredCommonDecoder \<Rightarrow> fault + InfraredStatus \<times> InfraredCommonDecoder" where
  "infrared_decoder_samsung32_decode_repeat d =
     (let ts = ir_timings d; tm = samsung_timings
      in if length ts < 6 then Inr (InfraredStatusOk, d)
         else if ts ! 0 > 30000 \<and> ts ! 0 < 140000 \<and>
            match_timing_float (ts ! 1) 4500 (preamble_tolerance tm) \<and>
            match_timing_float (ts ! 2) 4500 (preamble_tolerance tm) \<and>
            match_timing (ts ! 3) (ucast (bit1_mark tm)) (bit_tolerance tm) \<and>
            match_timing (ts ! 4) (ucast (bit1_space tm)) (bit_tolerance tm) \<and>
            match_timing (ts ! 5) (ucast (bit1_mark tm)) (bit_tolerance tm)
         then Inr (InfraredStatusReady, d\<lparr>ir_timings := []\<rparr>)
         else Inr (InfraredStatusError, d))"

definition samsung_repeat_timings :: "u32 list" where
  "samsung_repeat_timings = [97000, 4500, 4500, 550, 1650, 550]"

definition infrared_encoder_samsung32_encode_repeat ::
    "InfraredCommonEncoder \<Rightarrow> fault + InfraredStatus \<times> (u32 \<times> bool) \<times> InfraredCommonEncoder" where
  "infrared_encoder_samsung32_encode_repeat e =
     (let up_to_repeat = 1 + 2 + ucast (en_bits_encoded e) * 2 + 1;
          repeat_cnt = en_timings_encoded e - up_to_repeat
      in bind_r (if repeat_cnt > 0 then rd samsung_repeat_timings (unat (repeat_cnt mod 6))
                 else Inr 46000) (\<lambda>duration.
           Inr (if (repeat_cnt + 1) mod 6 = 0 then InfraredStatusDone else InfraredStatusOk,
                (duration, repeat_cnt mod 2 \<noteq> 0),
                e\<lparr>en_timings_encoded := en_timings_encoded e + 1\<rparr>)))"

definition infrared_protocol_samsung32 :: InfraredCommonProtocolSpec where
  "infrared_protocol_samsung32 = \<lparr>sp_timings = samsung_timings, manchester_start_from_space = False,
     databit_len = [32, 0, 0, 0], sp_decode = Pdwm,
     sp_decode_repeat = Some infrared_decoder_samsung32_decode_repeat,
     sp_interpret = infrared_decoder_samsung32_interpret, sp_encode = Pdwm,
     sp_encode_repeat = Some infrared_encoder_samsung32_encode_repeat\<rparr>"

text \<open>The reset ors the message into the word it has just cleared.\<close>

definition infrared_encoder_samsung32_reset ::
    "InfraredCommonEncoder \<Rightarrow> InfraredMessage \<Rightarrow> fault + InfraredCommonEncoder" where
  "infrared_encoder_samsung32_reset e m =
     (let e1 = infrared_common_encoder_reset infrared_protocol_samsung32 e;
          address = (ucast (msg_address m) :: u8); command = (ucast (msg_command m) :: u8)
      in bind_r (read_le32 (en_data e1) 0) (\<lambda>w.
         bind_r (write_le32 (en_data e1) 0 (w OR ucast address OR push_bit 8 (ucast address)
              OR push_bit 16 (ucast command) OR push_bit 24 (ucast (NOT command)))) (\<lambda>b.
           Inr (e1\<lparr>en_data := b, en_bits_to_encode := ucast (databit_len0 infrared_protocol_samsung32)\<rparr>))))"

section \<open>Pioneer\<close>

definition pioneer_timings :: InfraredTimings where
  "pioneer_timings = \<lparr>min_split_time = 26000, silence_time = 26000, preamble_mark = 8500,
     preamble_space = 4225, bit1_mark = 500, bit1_space = 1500, bit0_mark = 500, bit0_space = 500,
     preamble_tolerance = 200, bit_tolerance = 120\<rparr>"

definition infrared_decoder_pioneer_interpret ::
    "InfraredCommonDecoder \<Rightarrow> fault + bool \<times> InfraredCommonDecoder" where
  "infrared_decoder_pioneer_interpret d =
     (if ir_databit_cnt d = 33 \<or> ir_databit_cnt d = 32 then
        bind_r (read_le32 (ir_data d) 0) (\<lambda>w.
          let address = (ucast (w AND 0xFF) :: u8); address_checksum = ucast (drop_bit 8 w AND 0xFF);
              command = (ucast (drop_bit 16 w AND 0xFF) :: u8); command_checksum = ucast (drop_bit 24 w AND 0xFF)
          in if address_checksum \<noteq> NOT address then Inr (False, d)
             else if command_checksum \<noteq> NOT command then Inr (False, d)
             else Inr (True, set_message InfraredProtocolPioneer (ucast address) (ucast command) d))
      else Inr (False, d))"

definition infrared_encoder_pioneer_encode_repeat ::
    "InfraredCommonEncoder \<Rightarrow> fault + InfraredStatus \<times> (u32 \<times> bool) \<times> InfraredCommonEncoder" where
  "infrared_encoder_pioneer_encode_repeat e =
     Inr (InfraredStatusOk, (26000, False),
          e\<lparr>en_timings_sum := 0, en_timings_encoded := 1, en_bits_encoded := 0,
            en_state := InfraredCommonEncoderStatePreamble\<rparr>)"

definition infrared_protocol_pioneer :: InfraredCommonProtocolSpec where
  "infrared_protocol_pioneer = \<lparr>sp_timings = pioneer_timings, manchester_start_from_space = False,
     databit_len = [33, 32, 0, 0], sp_decode = Pdwm, sp_decode_repeat = None,
     sp_interpret = infrared_decoder_pioneer_interpret, sp_encode = Pdwm,
     sp_encode_repeat = Some infrared_encoder_pioneer_encode_repeat\<rparr>"

definition infrared_encoder_pioneer_reset ::
    "InfraredCommonEncoder \<Rightarrow> InfraredMessage \<Rightarrow> fault + InfraredCommonEncoder" where
  "infrared_encoder_pioneer_reset e m =
     (let e1 = infrared_common_encoder_reset infrared_protocol_pioneer e;
          address = (ucast (msg_address m AND 0xFF) :: u8); command = (ucast (msg_command m AND 0xFF) :: u8)
      in if msg_protocol m = InfraredProtocolPioneer then
           bind_r (wr (en_data e1) 0 address) (\<lambda>b0. bind_r (wr b0 1 (NOT address)) (\<lambda>b1.
           bind_r (wr b1 2 command) (\<lambda>b2. bind_r (wr b2 3 (NOT command)) (\<lambda>b3.
           bind_r (wr b3 4 0) (\<lambda>b4.
             Inr (e1\<lparr>en_data := b4, en_bits_to_encode := ucast (databit_len0 infrared_protocol_pioneer)\<rparr>))))))
         else Inl FuriCrash)"

definition infrared_encoder_pioneer_encode ::
    "InfraredCommonEncoder \<Rightarrow> fault + InfraredStatus \<times> (u32 \<times> bool) \<times> InfraredCommonEncoder" where
  "infrared_encoder_pioneer_encode e =
     bind_r (infrared_common_encode infrared_protocol_pioneer e) (\<lambda>(status, out, e1).
       if status = InfraredStatusOk \<and> en_bits_encoded e1 = en_bits_to_encode e1
       then Inr (InfraredStatusDone, out, e1\<lparr>en_state := InfraredCommonEncoderStateEncodeRepeat\<rparr>)
       else Inr (status, out, e1))"

section \<open>Decoders that never fault\<close>

lemma repeat_verdict:
  fixes d :: InfraredCommonDecoder
  assumes "n \<le> 6"
  shows "\<exists>status ts. (if length (ir_timings d) < n then Inr (InfraredStatusOk, d)
      else if b then Inr (InfraredStatusReady, d\<lparr>ir_timings := []\<rparr>) else Inr (InfraredStatusError, d))
    = Inr (status, d\<lparr>ir_timings := ts\<rparr>) \<and> length ts \<le> length (ir_timings d) \<and>
    (status = InfraredStatusOk \<longrightarrow> length ts \<le> 5) \<and>
    (status = InfraredStatusReady \<longrightarrow> ts = []) \<and> status \<noteq> InfraredStatusDone"
proof (cases "length (ir_timings d) < n")
  case True
  with assms show ?thesis
    by (intro exI [of _ InfraredStatusOk] exI [of _ "ir_timings d"]) simp
next
  case False
  then show ?thesis
    by (cases b) (auto intro: exI [of _ "[]"] exI [of _ "ir_timings d"])
qed

lemmas nec_defs = infrared_protocol_nec_def nec_timings_def
lemmas samsung_defs = infrared_protocol_samsung32_def samsung_timings_def
lemmas pioneer_defs = infrared_protocol_pioneer_def pioneer_timings_def

interpretation nec: total_protocol infrared_protocol_nec
proof unfold_locales
  fix d :: InfraredCommonDecoder
  assume d: "decoder_fits infrared_protocol_nec d" "length_found infrared_protocol_nec (ir_databit_cnt d)"
  then have "length (ir_data d) = 6"
    by (simp add: decoder_fits_def data_bytes_def databit_len0_def nec_defs)
  with d show "\<exists>ok d'. sp_interpret infrared_protocol_nec d = Inr (ok, d') \<and> decoder_fits infrared_protocol_nec d' \<and>
        ir_databit_cnt d' = ir_databit_cnt d \<and> ir_timings d' = ir_timings d \<and> ir_state d' = ir_state d \<and>
        (ok \<or> ir_databit_cnt d = databit_len0 infrared_protocol_nec)"
    by (auto simp: length_found_def nec_defs infrared_decoder_nec_interpret_def set_message_def
        read_le32_def read_le16_def Let_def)
next
  fix r and d :: InfraredCommonDecoder
  assume "sp_decode_repeat infrared_protocol_nec = Some r"
  then have r: "r = infrared_decoder_nec_decode_repeat" by (simp add: nec_defs)
  show "\<exists>status ts. r d = Inr (status, d\<lparr>ir_timings := ts\<rparr>) \<and> length ts \<le> length (ir_timings d) \<and>
        (status = InfraredStatusOk \<longrightarrow> length ts \<le> 5) \<and>
        (status = InfraredStatusReady \<longrightarrow> ts = []) \<and> status \<noteq> InfraredStatusDone"
    unfolding r infrared_decoder_nec_decode_repeat_def Let_def by (rule repeat_verdict) simp
qed (simp_all add: nec_defs)

interpretation samsung: total_protocol infrared_protocol_samsung32
proof unfold_locales
  fix d :: InfraredCommonDecoder
  assume d: "decoder_fits infrared_protocol_samsung32 d" "length_found infrared_protocol_samsung32 (ir_databit_cnt d)"
  then have "length (ir_data d) = 4"
    by (simp add: decoder_fits_def data_bytes_def databit_len0_def samsung_defs)
  with d show "\<exists>ok d'. sp_interpret infrared_protocol_samsung32 d = Inr (ok, d') \<and> decoder_fits infrared_protocol_samsung32 d' \<and>
        ir_databit_cnt d' = ir_databit_cnt d \<and> ir_timings d' = ir_timings d \<and> ir_state d' = ir_state d \<and>
        (ok \<or> ir_databit_cnt d = databit_len0 infrared_protocol_samsung32)"
    by (auto simp: length_found_def databit_len0_def samsung_defs infrared_decoder_samsung32_interpret_def set_message_def)
next
  fix r and d :: InfraredCommonDecoder
  assume "sp_decode_repeat infrared_protocol_samsung32 = Some r"
  then have r: "r = infrared_decoder_samsung32_decode_repeat" by (simp add: samsung_defs)
  show "\<exists>status ts. r d = Inr (status, d\<lparr>ir_timings := ts\<rparr>) \<and> length ts \<le> length (ir_timings d) \<and>
        (status = InfraredStatusOk \<longrightarrow> length ts \<le> 5) \<and>
        (status = InfraredStatusReady \<longrightarrow> ts = []) \<and> status \<noteq> InfraredStatusDone"
    unfolding r infrared_decoder_samsung32_decode_repeat_def Let_def by (rule repeat_verdict) simp
qed (simp_all add: samsung_defs)

text \<open>C29 No sequence of edges, of any levels and durations, makes the NEC or the Samsung32 decoder
  fault or loop: every edge is answered, no access leaves the timing or the data array and no
  \<^verbatim>\<open>furi_check\<close> fails. 22 rounds of the state machine per edge are enough.\<close>

theorem infrared_decoders_never_fault:
  assumes "22 \<le> fuel" and "sp = infrared_protocol_nec \<or> sp = infrared_protocol_samsung32"
  shows "\<exists>ms d'. infrared_decode_all fuel sp (infrared_common_decoder_alloc sp) ps = Some (Inr (ms, d'))"
  using nec.decode_all_total [OF decoder_inv_alloc assms(1)]
    samsung.decode_all_total [OF decoder_inv_alloc assms(1)] assms(2) by blast

lemma infrared_decoders_never_fault_witness:
  "\<exists>ms d'. infrared_decode_all 22 infrared_protocol_nec (infrared_common_decoder_alloc infrared_protocol_nec)
     [(False, 0), (True, 9000), (False, 4500), (False, 70)] = Some (Inr (ms, d'))"
  by (rule infrared_decoders_never_fault) simp_all

definition pioneer_bad_frame :: "(bool \<times> u32) list" where
  "pioneer_bad_frame = [(False, 30000), (True, 8500), (False, 4225)]
     @ concat (replicate 32 [(True, 500), (False, 500)]) @ [(True, 500), (False, 30000)]"

text \<open>The Pioneer decoder can be crashed from outside: a frame of 32 bits whose checksums are
  wrong, followed by a space longer than the split time, stays in the decoder; the next six edges
  overflow the array of timings and fail the \<^verbatim>\<open>furi_check\<close>.\<close>

theorem pioneer_decoder_crash:
  "infrared_decode_all 22 infrared_protocol_pioneer (infrared_common_decoder_alloc infrared_protocol_pioneer)
     (pioneer_bad_frame @ [(True, 500), (False, 500), (True, 500), (False, 500), (True, 500), (False, 500)])
   = Some (Inl FuriCheck)"
  by code_simp

end
