(* ===== verification/Infrared_Frames.thy ===== *)
theory Infrared_Frames
  imports Infrared_Common
begin

text \<open>
  Whole infrared frames of the pulse distance protocols: what the common decoder reports for the
  edges of a frame, what the common encoder sends for the data of a message, and that the two fit.
\<close>

unbundle bit_operations_syntax

section \<open>Receiving a frame\<close>

lemma infrared_decode_all_append:
  "infrared_decode_all fuel sp d (ps @ qs) =
    (case infrared_decode_all fuel sp d ps of
       None \<Rightarrow> None | Some (Inl e) \<Rightarrow> Some (Inl e)
     | Some (Inr (ms, d1)) \<Rightarrow>
         (case infrared_decode_all fuel sp d1 qs of
            None \<Rightarrow> None | Some (Inl e) \<Rightarrow> Some (Inl e)
          | Some (Inr (ms', d2)) \<Rightarrow> Some (Inr (ms @ ms', d2))))"
proof (induction ps arbitrary: d)
  case Nil
  show ?case by (simp split: option.splits sum.splits)
next
  case (Cons p ps)
  show ?case
    by (cases p) (auto simp: Cons split: option.splits sum.splits)
qed

text \<open>A decoder in the middle of a frame, after an edge of the given level, that has collected the
  bits \<open>bs\<close>; the unused bits of the
  current byte are clear.\<close>

definition collected :: "InfraredCommonProtocolSpec \<Rightarrow> bool \<Rightarrow> bool list \<Rightarrow> InfraredCommonDecoder \<Rightarrow> bool" where
  "collected sp level bs d \<longleftrightarrow> decoder_fits sp d \<and> ir_state d = InfraredCommonDecoderStateDecode \<and>
     ir_timings d = [] \<and> ir_level d = level \<and> ir_databit_cnt d = of_nat (length bs) \<and>
     length bs \<le> unat (databit_len0 sp) \<and> (\<forall>i < length bs. lsb_bit (ir_data d) i = bs ! i) \<and>
     (length bs mod 8 \<noteq> 0 \<longrightarrow> (\<forall>j \<ge> length bs mod 8. \<not> bit (ir_data d ! (length bs div 8)) j))"

definition spells_bit :: "InfraredTimings \<Rightarrow> bool \<Rightarrow> u32 \<Rightarrow> bool" where
  "spells_bit tm b s \<longleftrightarrow> s \<le> min_split_time tm \<and>
     (if b then match_timing s (ucast (bit1_space tm)) (bit_tolerance tm)
      else match_timing s (ucast (bit0_space tm)) (bit_tolerance tm) \<and>
           \<not> match_timing s (ucast (bit1_space tm)) (bit_tolerance tm))"

definition frame_edges :: "u32 \<Rightarrow> u32 \<Rightarrow> u32 \<Rightarrow> (u32 \<times> u32) list \<Rightarrow> u32 \<Rightarrow> u32 \<Rightarrow> (bool \<times> u32) list" where
  "frame_edges silence pm ps ms stop gap = [(False, silence), (True, pm), (False, ps)]
     @ concat (map (\<lambda>(m, s). [(True, m), (False, s)]) ms) @ [(True, stop), (False, gap)]"

text \<open>Edges that spell a frame: preamble, bits, stop mark and a gap longer than the split time, each
  within the tolerance of the protocol.\<close>

definition spells_frame :: "InfraredCommonProtocolSpec \<Rightarrow> bool list \<Rightarrow> u32 \<Rightarrow> u32 \<Rightarrow> (u32 \<times> u32) list \<Rightarrow> u32 \<Rightarrow> u32 \<Rightarrow> bool" where
  "spells_frame sp bs pm ps ms stop gap \<longleftrightarrow>
     match_timing_float pm (preamble_mark (sp_timings sp)) (preamble_tolerance (sp_timings sp)) \<and>
     match_timing_float ps (preamble_space (sp_timings sp)) (preamble_tolerance (sp_timings sp)) \<and>
     list_all2 (\<lambda>b (m, s). match_timing m (ucast (bit1_mark (sp_timings sp))) (bit_tolerance (sp_timings sp)) \<and>
           spells_bit (sp_timings sp) b s) bs ms \<and>
     match_timing stop (ucast (bit1_mark (sp_timings sp))) (bit_tolerance (sp_timings sp)) \<and>
     gap > min_split_time (sp_timings sp)"

lemma accumulate_lsb_collects:
  assumes "unat (ir_databit_cnt d) = length bs" and "length bs div 8 < length (ir_data d)"
    and "\<forall>i < length bs. lsb_bit (ir_data d) i = bs ! i"
    and "length bs mod 8 \<noteq> 0 \<longrightarrow> (\<forall>j \<ge> length bs mod 8. \<not> bit (ir_data d ! (length bs div 8)) j)"
  shows "\<exists>data. accumulate_lsb d b = Inr (d\<lparr>ir_data := data, ir_databit_cnt := ir_databit_cnt d + 1\<rparr>) \<and>
    length data = length (ir_data d) \<and>
    (\<forall>i < length (bs @ [b]). lsb_bit data i = (bs @ [b]) ! i) \<and>
    (length (bs @ [b]) mod 8 \<noteq> 0 \<longrightarrow> (\<forall>j \<ge> length (bs @ [b]) mod 8. \<not> bit (data ! (length (bs @ [b]) div 8)) j))"
proof -
  define n q s where "n = length bs" and "q = n div 8" and "s = n mod 8"
  have s: "s < 8" "n = 8 * q + s" by (simp_all add: s_def q_def)
  define v where "v = (if s = 0 then 0 else ir_data d ! q)"
  define v' where "v' = (if b then v OR push_bit s 1 else v)"
  have v: "\<not> bit v j" if "s \<le> j" for j
    using that assms(4) by (auto simp: v_def n_def [symmetric] q_def [symmetric] s_def [symmetric])
  have v': "bit v' j = (if j = s then b else bit v j)" for j
    using v [of s] s(1) by (auto simp: v'_def bit_simps)
  let ?data = "(ir_data d)[q := v']"
  have q: "q < length (ir_data d)" using assms(2) by (simp add: q_def n_def)
  have "accumulate_lsb d b = Inr (d\<lparr>ir_data := ?data, ir_databit_cnt := ir_databit_cnt d + 1\<rparr>)"
    using assms(1) q
    by (auto simp: accumulate_lsb_def Let_def v'_def v_def n_def [symmetric] q_def [symmetric] s_def [symmetric])
  moreover have "lsb_bit ?data i = (bs @ [b]) ! i" if "i < Suc n" for i
  proof (cases "i = n")
    case True
    then show ?thesis using q v' by (simp add: lsb_bit_def n_def q_def s_def)
  next
    case False
    then have i: "i < n" using that by simp
    have "(ir_data d)[q := v'] ! (i div 8) = (if i div 8 = q then v' else ir_data d ! (i div 8))"
      using q by simp
    moreover have "bit v' (i mod 8) = bit (ir_data d ! q) (i mod 8)" if "i div 8 = q"
    proof -
      have "i mod 8 < s" using i that s by (metis div_mult_mod_eq mult.commute nat_add_left_cancel_less)
      then show ?thesis using v' by (auto simp: v_def)
    qed
    ultimately show ?thesis
      using assms(3) i by (auto simp: lsb_bit_def n_def nth_append)
  qed
  moreover have "\<not> bit (?data ! (Suc n div 8)) j" if "Suc n mod 8 \<noteq> 0" "Suc n mod 8 \<le> j" for j
  proof -
    have n: "Suc n = 8 * q + Suc s" using s(2) by simp
    have "Suc s < 8"
      using that(1) s(1) unfolding n by (cases "Suc s = 8") auto
    then have "Suc n div 8 = q" "Suc n mod 8 = Suc s"
      unfolding n by simp_all
    with that v' v q show ?thesis by simp
  qed
  ultimately show ?thesis by (auto simp: n_def)
qed

context pulse_distance_protocol begin

lemma collected_cnt:
  assumes "collected sp level bs d"
  shows "unat (ir_databit_cnt d) = length bs" and "\<not> ir_databit_cnt d > databit_len0 sp"
    and "length bs < unat (databit_len0 sp) \<Longrightarrow> length bs div 8 < length (ir_data d)"
    and "length bs < unat (databit_len0 sp) \<Longrightarrow> databit_len0 sp \<noteq> ir_databit_cnt d"
proof -
  have l: "length bs < 256"
    using assms databit_len0_small by (simp add: collected_def)
  then show u: "unat (ir_databit_cnt d) = length bs"
    using assms by (simp add: collected_def unat_of_nat)
  show "\<not> ir_databit_cnt d > databit_len0 sp"
    using assms by (auto simp: collected_def decoder_fits_def not_less)
  show "length bs div 8 < length (ir_data d)" if "length bs < unat (databit_len0 sp)"
    using assms that by (auto simp: collected_def decoder_fits_def data_bytes_def)
  show "databit_len0 sp \<noteq> ir_databit_cnt d" if "length bs < unat (databit_len0 sp)"
    using u that by auto
qed

lemma receive_mark:
  assumes "collected sp False bs d" and "match_timing m (ucast (bit1_mark (sp_timings sp))) (bit_tolerance (sp_timings sp))"
  shows "\<exists>d'. infrared_common_decode (Suc fuel) sp d True m = Some (Inr (None, d')) \<and> collected sp True bs d' \<and>
    ir_data d' = ir_data d"
proof -
  have st: "ir_state d = InfraredCommonDecoderStateDecode" "ir_timings d = []" "\<not> ir_level d"
    using assms(1) by (auto simp: collected_def)
  have "infrared_common_decode (Suc fuel) sp d True m = Some (Inr (None, d\<lparr>ir_level := True, ir_timings := []\<rparr>))"
    using st assms(2) split distance collected_cnt(2) [OF assms(1)]
    by (simp add: infrared_common_decode_def infrared_common_decode_bits_def sp_decode_call_def pdwm
        infrared_common_decode_pdwm_def Let_def)
  moreover have "collected sp True bs (d\<lparr>ir_level := True, ir_timings := []\<rparr>)"
    using assms(1) by (simp add: collected_def)
  ultimately show ?thesis by auto
qed

lemma receive_space:
  assumes "collected sp True bs d" and "spells_bit (sp_timings sp) b s" and "length bs < unat (databit_len0 sp)"
  shows "\<exists>d'. infrared_common_decode (Suc fuel) sp d False s = Some (Inr (None, d')) \<and> collected sp False (bs @ [b]) d'"
proof -
  let ?d = "d\<lparr>ir_level := False, ir_timings := [s]\<rparr>"
  have st: "ir_state d = InfraredCommonDecoderStateDecode" "ir_timings d = []" "ir_level d"
    using assms(1) by (auto simp: collected_def)
  obtain data where acc: "accumulate_lsb ?d b = Inr (?d\<lparr>ir_data := data, ir_databit_cnt := ir_databit_cnt d + 1\<rparr>)"
    and data: "length data = length (ir_data d)" "\<forall>i < length (bs @ [b]). lsb_bit data i = (bs @ [b]) ! i"
      "length (bs @ [b]) mod 8 \<noteq> 0 \<longrightarrow> (\<forall>j \<ge> length (bs @ [b]) mod 8. \<not> bit (data ! (length (bs @ [b]) div 8)) j)"
    using accumulate_lsb_collects [of ?d bs b] collected_cnt(1,3) [OF assms(1)] assms(1,3)
    by (auto simp: collected_def)
  have le: "ir_databit_cnt d + 1 \<le> databit_len0 sp"
    using collected_cnt(1) [OF assms(1)] assms(3) by (simp add: inc_le word_less_nat_alt)
  have call: "sp_decode_call sp ?d False s = Inr (InfraredStatusOk, ?d\<lparr>ir_data := data, ir_databit_cnt := ir_databit_cnt d + 1\<rparr>)"
    using assms(2) distance acc
    by (auto simp: sp_decode_call_def pdwm infrared_common_decode_pdwm_def Let_def spells_bit_def split: if_splits)
  have "infrared_common_decode_bits sp ?d =
      Inr (InfraredStatusOk, ?d\<lparr>ir_data := data, ir_databit_cnt := ir_databit_cnt d + 1, ir_timings := []\<rparr>)"
    using call assms(2) le collected_cnt(4) [OF assms(1,3)]
    by (simp add: infrared_common_decode_bits_def Let_def spells_bit_def not_less)
  then have "infrared_common_decode (Suc fuel) sp d False s =
      Some (Inr (None, ?d\<lparr>ir_data := data, ir_databit_cnt := ir_databit_cnt d + 1, ir_timings := []\<rparr>))"
    using st by (simp add: infrared_common_decode_def Let_def)
  moreover have "collected sp False (bs @ [b]) (?d\<lparr>ir_data := data, ir_databit_cnt := ir_databit_cnt d + 1, ir_timings := []\<rparr>)"
    using assms(1,3) data le by (auto simp: collected_def decoder_fits_def)
  ultimately show ?thesis by blast
qed

text \<open>The edges of some bits, each a mark and a space.\<close>

lemma receive_bits:
  assumes "collected sp False as d" and "length as + length bs \<le> unat (databit_len0 sp)"
    and "list_all2 (\<lambda>b (m, s). match_timing m (ucast (bit1_mark (sp_timings sp))) (bit_tolerance (sp_timings sp)) \<and>
           spells_bit (sp_timings sp) b s) bs ms"
  shows "\<exists>d'. infrared_decode_all (Suc fuel) sp d (concat (map (\<lambda>(m, s). [(True, m), (False, s)]) ms)) = Some (Inr ([], d')) \<and>
    collected sp False (as @ bs) d'"
  using assms(3,1,2)
proof (induction arbitrary: as d rule: list_all2_induct)
  case Nil
  then show ?case by simp
next
  case (Cons b bs x ms)
  obtain m s where x: "x = (m, s)" by fastforce
  with Cons.hyps(1) have ok: "match_timing m (ucast (bit1_mark (sp_timings sp))) (bit_tolerance (sp_timings sp))"
      "spells_bit (sp_timings sp) b s" by simp_all
  obtain d1 where d1: "infrared_common_decode (Suc fuel) sp d True m = Some (Inr (None, d1))" "collected sp True as d1"
    using receive_mark [OF Cons.prems(1) ok(1)] by blast
  obtain d2 where d2: "infrared_common_decode (Suc fuel) sp d1 False s = Some (Inr (None, d2))" "collected sp False (as @ [b]) d2"
    using receive_space [OF d1(2) ok(2)] Cons.prems(2) by auto
  from Cons.IH [OF d2(2)] Cons.prems(2) obtain d' where
    "infrared_decode_all (Suc fuel) sp d2 (concat (map (\<lambda>(m, s). [(True, m), (False, s)]) ms)) = Some (Inr ([], d'))"
    "collected sp False ((as @ [b]) @ bs) d'" by auto
  with d1 d2 x show ?case by simp
qed

lemma receive_preamble:
  assumes "match_timing_float pm (preamble_mark (sp_timings sp)) (preamble_tolerance (sp_timings sp))"
    and "match_timing_float ps (preamble_space (sp_timings sp)) (preamble_tolerance (sp_timings sp))"
  shows "\<exists>d'. infrared_decode_all (Suc (Suc fuel)) sp (infrared_common_decoder_alloc sp)
      [(False, silence), (True, pm), (False, ps)] = Some (Inr ([], d')) \<and> collected sp False [] d'"
  using assms preamble
  by (simp add: infrared_common_decode_def infrared_common_decoder_alloc_def infrared_check_preamble_def
      infrared_common_decode_bits_def Let_def collected_def decoder_fits_def)

text \<open>The long space after the stop mark hands the frame to the protocol.\<close>

lemma receive_end:
  assumes "collected sp True bs d" and "s > min_split_time (sp_timings sp)" and "length_found sp (of_nat (length bs))"
  shows "infrared_common_decode_bits sp (d\<lparr>ir_level := False, ir_timings := [s]\<rparr>) =
    Inr (InfraredStatusReady, d\<lparr>ir_level := False, ir_timings := [s]\<rparr>)"
  using assms split by (simp add: infrared_common_decode_bits_def Let_def collected_def)

theorem frame_reported:
  assumes "spells_frame sp bs pm ps ms stop gap" and "length bs \<le> unat (databit_len0 sp)"
    and "length_found sp (of_nat (length bs))"
    and interp: "\<And>d. length (ir_data d) = data_bytes sp \<Longrightarrow> ir_databit_cnt d = of_nat (length bs) \<Longrightarrow>
        (\<And>i. i < length bs \<Longrightarrow> lsb_bit (ir_data d) i = bs ! i) \<Longrightarrow>
        sp_interpret sp d = Inr (True, d\<lparr>ir_message := message\<rparr>)"
    and rep: "\<And>r d. sp_decode_repeat sp = Some r \<Longrightarrow> length (ir_timings d) = 1 \<Longrightarrow> r d = Inr (InfraredStatusOk, d)"
    and "3 \<le> fuel"
  shows "\<exists>d'. infrared_decode_all fuel sp (infrared_common_decoder_alloc sp) (frame_edges silence pm ps ms stop gap) =
    Some (Inr ([message], d'))"
proof -
  obtain f where f: "fuel = Suc (Suc (Suc f))"
    using assms(6) that [of "fuel - 3"] by simp
  have sf: "match_timing_float pm (preamble_mark (sp_timings sp)) (preamble_tolerance (sp_timings sp))"
      "match_timing_float ps (preamble_space (sp_timings sp)) (preamble_tolerance (sp_timings sp))"
      "list_all2 (\<lambda>b (m, s). match_timing m (ucast (bit1_mark (sp_timings sp))) (bit_tolerance (sp_timings sp)) \<and>
           spells_bit (sp_timings sp) b s) bs ms"
      "match_timing stop (ucast (bit1_mark (sp_timings sp))) (bit_tolerance (sp_timings sp))"
      "gap > min_split_time (sp_timings sp)"
    using assms(1) unfolding spells_frame_def by blast+
  obtain d0 where d0: "infrared_decode_all fuel sp (infrared_common_decoder_alloc sp)
      [(False, silence), (True, pm), (False, ps)] = Some (Inr ([], d0))" "collected sp False [] d0"
    using receive_preamble [OF sf(1,2), of "Suc f" silence] unfolding f by blast
  have len: "length ([] :: bool list) + length bs \<le> unat (databit_len0 sp)" using assms(2) by simp
  obtain d1 where d1: "infrared_decode_all fuel sp d0 (concat (map (\<lambda>(m, s). [(True, m), (False, s)]) ms)) = Some (Inr ([], d1))"
      "collected sp False bs d1"
    using receive_bits [OF d0(2) len sf(3), of "Suc (Suc f)"] unfolding f append_Nil by blast
  obtain d2 where d2: "infrared_common_decode fuel sp d1 True stop = Some (Inr (None, d2))" "collected sp True bs d2"
    using receive_mark [OF d1(2) sf(4), of "Suc (Suc f)"] unfolding f by blast
  let ?d = "d2\<lparr>ir_level := False, ir_timings := [gap]\<rparr>"
  have c: "ir_state d2 = InfraredCommonDecoderStateDecode" "ir_timings d2 = []" "ir_level d2" "length (ir_data d2) = data_bytes sp"
      "ir_databit_cnt d2 = of_nat (length bs)" "\<And>i. i < length bs \<Longrightarrow> lsb_bit (ir_data d2) i = bs ! i"
    using d2(2) by (auto simp: collected_def decoder_fits_def)
  have "sp_interpret sp ?d = Inr (True, ?d\<lparr>ir_message := message\<rparr>)"
    by (rule interp) (use c in auto)
  then have "infrared_common_decoder_check_ready sp ?d = Inr (Some message, ?d\<lparr>ir_message := message, ir_databit_cnt := 0,
      ir_state := if sp_decode_repeat sp \<noteq> None then InfraredCommonDecoderStateProcessRepeat
                  else InfraredCommonDecoderStateWaitPreamble\<rparr>)"
    using assms(3) c(5) by (simp add: infrared_common_decoder_check_ready_def Let_def)
  note ready = this
  have mach: "infrared_common_decode fuel sp d2 False gap = decode_machine fuel sp ?d None"
    using c(2,3) by (simp add: infrared_common_decode_def Let_def)
  have "infrared_common_decode_bits sp ?d = Inr (InfraredStatusReady, ?d)"
    by (rule receive_end [OF d2(2) sf(5) assms(3)])
  moreover have "ir_state ?d = InfraredCommonDecoderStateDecode" using c(1) by simp
  ultimately have m2: "decode_machine fuel sp ?d None = decode_machine (Suc (Suc f)) sp
      (?d\<lparr>ir_message := message, ir_databit_cnt := 0,
        ir_state := if sp_decode_repeat sp \<noteq> None then InfraredCommonDecoderStateProcessRepeat
                  else InfraredCommonDecoderStateWaitPreamble\<rparr>) (Some message)"
    unfolding f decode_machine.simps(2) [of "Suc (Suc f)"]
    by (simp only: ready InfraredCommonStateDecoder.case sum.case prod.case simp_thms if_True option.case)
  have "\<exists>d3. infrared_common_decode fuel sp d2 False gap = Some (Inr (Some message, d3))"
  proof (cases "sp_decode_repeat sp")
    case None
    then show ?thesis
      unfolding mach m2 using preamble by (simp add: infrared_check_preamble_def)
  next
    case (Some r)
    then show ?thesis
      unfolding mach m2 using rep [OF Some] by simp
  qed
  then obtain d3 where d3: "infrared_common_decode fuel sp d2 False gap = Some (Inr (Some message, d3))" by blast
  have e: "infrared_decode_all fuel sp d1 [(True, stop), (False, gap)] = Some (Inr ([message], d3))"
    using d2(1) d3 by simp
  show ?thesis
    unfolding frame_edges_def infrared_decode_all_append d0(1)
    by (simp only: option.case sum.case prod.case d1(1) e append_Nil)  simp
qed

end

section \<open>Sending a frame\<close>

text \<open>The timings of one transmission: the encoder is called until it answers \<^verbatim>\<open>InfraredStatusDone\<close>.\<close>

fun infrared_encode_all ::
    "nat \<Rightarrow> InfraredCommonProtocolSpec \<Rightarrow> InfraredCommonEncoder
      \<Rightarrow> (fault + (bool \<times> u32) list \<times> InfraredCommonEncoder) option" where
  "infrared_encode_all 0 sp e = None"
| "infrared_encode_all (Suc fuel) sp e =
     (case infrared_common_encode sp e of
        Inl x \<Rightarrow> Some (Inl x)
      | Inr (status, (duration, level), e1) \<Rightarrow>
          if status = InfraredStatusDone then Some (Inr ([(level, duration)], e1))
          else (case infrared_encode_all fuel sp e1 of
             None \<Rightarrow> None
           | Some (Inl x) \<Rightarrow> Some (Inl x)
           | Some (Inr (ps, e2)) \<Rightarrow> Some (Inr ((level, duration) # ps, e2))))"

locale pulse_distance_encoder = pulse_distance_protocol +
  assumes encode_pdwm: "sp_encode sp = Pdwm"
    and spaces: "bit1_space (sp_timings sp) \<noteq> bit0_space (sp_timings sp)"
    and nominal_preamble: "0 < preamble_tolerance (sp_timings sp)"
    and nominal_mark: "match_timing (ucast (bit1_mark (sp_timings sp))) (ucast (bit1_mark (sp_timings sp))) (bit_tolerance (sp_timings sp))"
    and nominal_space: "spells_bit (sp_timings sp) b (ucast (if b then bit1_space (sp_timings sp) else bit0_space (sp_timings sp)))"

definition bit_edges :: "InfraredTimings \<Rightarrow> bool \<Rightarrow> u32 \<times> u32" where
  "bit_edges tm b = (ucast (bit1_mark tm), ucast (if b then bit1_space tm else bit0_space tm))"

lemma even_timings:
  fixes i :: nat
  shows "(3 + 2 * of_nat i :: u32) mod 2 = 1" and "(3 + 2 * of_nat i + 1 :: u32) mod 2 = 0"
proof -
  have "odd (3 + 2 * of_nat i :: u32)" "even (3 + 2 * of_nat i + 1 :: u32)" by simp_all
  then show "(3 + 2 * of_nat i :: u32) mod 2 = 1" "(3 + 2 * of_nat i + 1 :: u32) mod 2 = 0"
    by (metis odd_iff_mod_2_eq_one, metis even_iff_mod_2_eq_zero)
qed

lemma encoder_bit_lsb:
  assumes "unat (en_bits_encoded e) div 8 < length (en_data e)"
  shows "encoder_bit e = Inr (lsb_bit (en_data e) (unat (en_bits_encoded e)))"
proof -
  have "(v AND push_bit k 1 \<noteq> 0) = bit v k" for v :: u8 and k
    by (simp add: bit_iff_and_push_bit_not_eq_0)
  then show ?thesis using assms by (simp add: encoder_bit_def lsb_bit_def)
qed

context pulse_distance_encoder begin

lemma encode_bits_run:
  assumes "en_state e = InfraredCommonEncoderStateEncode" and "unat (en_bits_encoded e) = i"
    and "unat (en_bits_to_encode e) = i + n" and "en_timings_encoded e = 3 + 2 * of_nat i"
    and "unat (en_bits_to_encode e) div 8 < length (en_data e)" and "2 * n < fuel"
  shows "\<exists>e'. infrared_encode_all fuel sp e =
    Some (Inr (concat (map (\<lambda>(m, s). [(True, m), (False, s)])
        (map (\<lambda>k. bit_edges (sp_timings sp) (lsb_bit (en_data e) k)) [i..<i + n]))
      @ [(True, ucast (bit1_mark (sp_timings sp)))], e'))"
  using assms
proof (induction n arbitrary: e i fuel)
  case 0
  then obtain f where f: "fuel = Suc f" by (cases fuel) auto
  have b: "encoder_bit e = Inr (lsb_bit (en_data e) i)"
    using 0 by (simp add: encoder_bit_lsb)
  have odd: "en_timings_encoded e mod 2 \<noteq> 0"
    using even_timings [of i] 0(4) by simp
  have eq: "en_bits_encoded e = en_bits_to_encode e"
    using 0(2,3) by (simp add: unat_arith_simps)
  show ?case
    using 0(1) b odd eq spaces distance
    by (simp add: f infrared_common_encode_def encode_payload_def infrared_common_encode_bits_def encode_pdwm
        infrared_common_encode_pdwm_def Let_def)
next
  case (Suc n)
  then obtain f where f: "fuel = Suc (Suc f)" "2 * n < f"
    by (cases fuel) (auto simp: less_Suc_eq_0_disj gr0_conv_Suc elim: less_natE)
  have i8: "i < 256" "i + 1 < 256"
    using Suc.prems(2,3) unsigned_less [of "en_bits_to_encode e", where ?'a = nat] by simp_all
  have "i div 8 \<le> (i + Suc n) div 8" by (rule div_le_mono) simp
  then have b: "encoder_bit e = Inr (lsb_bit (en_data e) i)"
    using Suc.prems(2,3,5) by (simp add: encoder_bit_lsb)
  define e1 where "e1 = e\<lparr>en_timings_encoded := en_timings_encoded e + 1,
      en_timings_sum := en_timings_sum e + ucast (bit1_mark (sp_timings sp))\<rparr>"
  define space where "space = snd (bit_edges (sp_timings sp) (lsb_bit (en_data e) i))"
  define e2 where "e2 = e1\<lparr>en_bits_encoded := en_bits_encoded e + 1, en_timings_encoded := en_timings_encoded e + 1 + 1,
      en_timings_sum := en_timings_sum e1 + space\<rparr>"
  have ne: "en_bits_encoded e \<noteq> en_bits_to_encode e"
    using Suc.prems(2,3) by auto
  have s1: "infrared_common_encode sp e = Inr (InfraredStatusOk, (ucast (bit1_mark (sp_timings sp)), True), e1)"
    using Suc.prems(1,4) b ne even_timings [of i] spaces distance
    by (simp add: infrared_common_encode_def encode_payload_def infrared_common_encode_bits_def encode_pdwm
        infrared_common_encode_pdwm_def Let_def e1_def)
  have b1: "encoder_bit e1 = Inr (lsb_bit (en_data e) i)"
    using b by (simp add: encoder_bit_def e1_def)
  have "en_timings_encoded e1 mod 2 = 0"
    using even_timings [of i] Suc.prems(4) by (simp add: e1_def add.commute)
  then have s2: "infrared_common_encode sp e1 = Inr (InfraredStatusOk, (space, False), e2)"
    using Suc.prems(1) b1 spaces distance
    by (simp add: infrared_common_encode_def encode_payload_def infrared_common_encode_bits_def encode_pdwm
        infrared_common_encode_pdwm_def Let_def e2_def e1_def space_def bit_edges_def)
  have "unat (en_bits_encoded e + 1) = Suc i"
    using Suc.prems(2) i8 by (simp add: unat_word_ariths)
  then have "\<exists>e'. infrared_encode_all f sp e2 =
    Some (Inr (concat (map (\<lambda>(m, s). [(True, m), (False, s)])
        (map (\<lambda>k. bit_edges (sp_timings sp) (lsb_bit (en_data e2) k)) [Suc i..<Suc i + n]))
      @ [(True, ucast (bit1_mark (sp_timings sp)))], e'))"
    using Suc.prems f by (intro Suc.IH) (auto simp: e2_def e1_def)
  then obtain e' where "infrared_encode_all f sp e2 =
    Some (Inr (concat (map (\<lambda>(m, s). [(True, m), (False, s)])
        (map (\<lambda>k. bit_edges (sp_timings sp) (lsb_bit (en_data e) k)) [Suc i..<Suc i + n]))
      @ [(True, ucast (bit1_mark (sp_timings sp)))], e'))" by (auto simp: e2_def e1_def)
  then have "infrared_encode_all fuel sp e =
    Some (Inr ((True, ucast (bit1_mark (sp_timings sp))) # (False, space) # concat (map (\<lambda>(m, s). [(True, m), (False, s)])
        (map (\<lambda>k. bit_edges (sp_timings sp) (lsb_bit (en_data e) k)) [Suc i..<Suc i + n]))
      @ [(True, ucast (bit1_mark (sp_timings sp)))], e'))"
    using s1 s2 by (simp add: f)
  moreover have "[i..<i + Suc n] = i # [Suc i..<Suc i + n]" by (simp add: upt_rec)
  ultimately show ?case
    by (simp add: space_def bit_edges_def)
qed

lemma encode_frame_run:
  assumes "en_state e = InfraredCommonEncoderStateSilence" and "en_bits_encoded e = 0" and "en_timings_encoded e = 0"
    and "n = unat (en_bits_to_encode e)" and "n div 8 < length (en_data e)" and "2 * n + 4 \<le> fuel"
  shows "\<exists>e'. infrared_encode_all fuel sp e = Some (Inr (
    [(False, silence_time (sp_timings sp)), (True, ucast (preamble_mark (sp_timings sp))),
     (False, ucast (preamble_space (sp_timings sp)))]
    @ concat (map (\<lambda>(m, s). [(True, m), (False, s)])
        (map (\<lambda>k. bit_edges (sp_timings sp) (lsb_bit (en_data e) k)) [0..<n]))
    @ [(True, ucast (bit1_mark (sp_timings sp)))], e'))"
proof -
  obtain f where f: "fuel = Suc (Suc (Suc f))" "2 * n < f"
    using assms(6) that [of "fuel - 3"] by simp
  let ?tm = "sp_timings sp"
  define e3 where "e3 = e\<lparr>en_state := InfraredCommonEncoderStateEncode, en_timings_encoded := 3,
     en_timings_sum := ucast (preamble_mark ?tm) + ucast (preamble_space ?tm)\<rparr>"
  have "\<exists>e'. infrared_encode_all f sp e3 =
    Some (Inr (concat (map (\<lambda>(m, s). [(True, m), (False, s)])
        (map (\<lambda>k. bit_edges ?tm (lsb_bit (en_data e3) k)) [0..<0 + n])) @ [(True, ucast (bit1_mark ?tm))], e'))"
    using assms f(2) by (intro encode_bits_run) (simp_all add: e3_def)
  then obtain e' where r: "infrared_encode_all f sp e3 =
    Some (Inr (concat (map (\<lambda>(m, s). [(True, m), (False, s)])
        (map (\<lambda>k. bit_edges ?tm (lsb_bit (en_data e) k)) [0..<n])) @ [(True, ucast (bit1_mark ?tm))], e'))"
    by (auto simp: e3_def)
  show ?thesis
    using assms(1,3) preamble r
    by (simp add: f(1) infrared_common_encode_def Let_def e3_def)
qed

lemma nominal_frame:
  assumes "gap > min_split_time (sp_timings sp)"
  shows "spells_frame sp bs (ucast (preamble_mark (sp_timings sp))) (ucast (preamble_space (sp_timings sp)))
    (map (bit_edges (sp_timings sp)) bs) (ucast (bit1_mark (sp_timings sp))) gap"
proof -
  have "match_timing_float (ucast v) v (preamble_tolerance (sp_timings sp))" for v :: u16
    using nominal_preamble by (simp add: match_timing_float_def word_less_def uint_up_ucast is_up)
  then show ?thesis
    using assms nominal_mark nominal_space
    by (auto simp: spells_frame_def list_all2_conv_all_nth bit_edges_def)
qed

text \<open>One transmission of the encoder, followed by a long enough silence, makes the decoder report the
  message the protocol reads out of the data.\<close>

theorem transmission_received:
  assumes "en_state e = InfraredCommonEncoderStateSilence" and "en_bits_encoded e = 0" and "en_timings_encoded e = 0"
    and n: "n = unat (en_bits_to_encode e)" "n div 8 < length (en_data e)" "2 * n + 4 \<le> fuel"
    and "n \<le> unat (databit_len0 sp)" and "length_found sp (of_nat n)"
    and interp: "\<And>d. length (ir_data d) = data_bytes sp \<Longrightarrow> ir_databit_cnt d = of_nat n \<Longrightarrow>
        (\<And>i. i < n \<Longrightarrow> lsb_bit (ir_data d) i = lsb_bit (en_data e) i) \<Longrightarrow>
        sp_interpret sp d = Inr (True, d\<lparr>ir_message := message\<rparr>)"
    and rep: "\<And>r d. sp_decode_repeat sp = Some r \<Longrightarrow> length (ir_timings d) = 1 \<Longrightarrow> r d = Inr (InfraredStatusOk, d)"
    and "3 \<le> fuel'" and "gap > min_split_time (sp_timings sp)"
  shows "\<exists>edges e' d'. infrared_encode_all fuel sp e = Some (Inr (edges, e')) \<and>
    infrared_decode_all fuel' sp (infrared_common_decoder_alloc sp) (edges @ [(False, gap)]) = Some (Inr ([message], d'))"
proof -
  let ?tm = "sp_timings sp" and ?bs = "map (lsb_bit (en_data e)) [0..<n]"
  let ?edges = "[(False, silence_time ?tm), (True, ucast (preamble_mark ?tm)), (False, ucast (preamble_space ?tm))]
    @ concat (map (\<lambda>(m, s). [(True, m), (False, s)]) (map (\<lambda>k. bit_edges ?tm (lsb_bit (en_data e) k)) [0..<n]))
    @ [(True, ucast (bit1_mark ?tm))]"
  obtain e' where e': "infrared_encode_all fuel sp e = Some (Inr (?edges, e'))"
    using encode_frame_run [OF assms(1-3) n] by blast
  have edges: "frame_edges (silence_time ?tm) (ucast (preamble_mark ?tm)) (ucast (preamble_space ?tm))
        (map (bit_edges ?tm) ?bs) (ucast (bit1_mark ?tm)) gap = ?edges @ [(False, gap)]"
    by (simp add: frame_edges_def comp_def)
  have "\<exists>d'. infrared_decode_all fuel' sp (infrared_common_decoder_alloc sp)
      (frame_edges (silence_time ?tm) (ucast (preamble_mark ?tm)) (ucast (preamble_space ?tm))
        (map (bit_edges ?tm) ?bs) (ucast (bit1_mark ?tm)) gap) = Some (Inr ([message], d'))"
  proof (rule frame_reported [OF nominal_frame])
    show "sp_interpret sp d = Inr (True, d\<lparr>ir_message := message\<rparr>)"
      if "length (ir_data d) = data_bytes sp" "ir_databit_cnt d = of_nat (length ?bs)"
        "\<And>i. i < length ?bs \<Longrightarrow> lsb_bit (ir_data d) i = ?bs ! i" for d
      using that by (intro interp) simp_all
  qed (use assms in simp_all)
  then show ?thesis using e' unfolding edges by blast
qed

end

end
