(* ===== verification/Infrared_Roundtrip.thy ===== *)
theory Infrared_Roundtrip
  imports Infrared_Protocols Infrared_Frames
begin

text \<open>
  Messages of the NEC and Samsung32 protocols through encoder, air and decoder: the contracts of
  \<^verbatim>\<open>Infrared_Frames\<close> are discharged for the two protocols and the theorems follow from them.
\<close>

unbundle bit_operations_syntax

section \<open>Messages survive the air\<close>

interpretation nec_tx: pulse_distance_encoder infrared_protocol_nec
  by unfold_locales (simp_all add: spells_bit_def match_timing_def nec_defs)

interpretation samsung_tx: pulse_distance_encoder infrared_protocol_samsung32
  by unfold_locales (simp_all add: spells_bit_def match_timing_def samsung_defs)

lemma write_le32_bytes:
  assumes "i + 4 \<le> length xs"
  shows "\<exists>ys. write_le32 xs i w = Inr ys \<and> length ys = length xs \<and>
    (\<forall>k. ys ! k = (if k = i then ucast w else if k = i + 1 then ucast (drop_bit 8 w)
       else if k = i + 2 then ucast (drop_bit 16 w) else if k = i + 3 then ucast (drop_bit 24 w) else xs ! k))"
proof -
  let ?ys = "xs[i := ucast w, i + 1 := ucast (drop_bit 8 w), i + 2 := ucast (drop_bit 16 w), i + 3 := ucast (drop_bit 24 w)]"
  have "write_le32 xs i w = Inr ?ys"
    using assms by (simp add: write_le32_def)
  then show ?thesis using assms by (intro exI [of _ ?ys]) (auto simp: nth_list_update)
qed

lemma reset_fields [simp]:
  "en_state (infrared_common_encoder_reset sp e) = InfraredCommonEncoderStateSilence"
  "en_bits_encoded (infrared_common_encoder_reset sp e) = 0"
  "en_timings_encoded (infrared_common_encoder_reset sp e) = 0"
  "length (en_data (infrared_common_encoder_reset sp e)) = max (data_bytes sp) (length (en_data e))"
  by (simp_all add: infrared_common_encoder_reset_def)

lemma nec_sizes [simp]:
  "databit_len0 infrared_protocol_nec = 42" "data_bytes infrared_protocol_nec = 6"
  "length_found infrared_protocol_nec 42" "length_found infrared_protocol_nec 32"
  "sp_interpret infrared_protocol_nec = infrared_decoder_nec_interpret"
  "sp_decode_repeat infrared_protocol_nec = Some infrared_decoder_nec_decode_repeat"
  "min_split_time (sp_timings infrared_protocol_nec) = 4000"
  by (simp_all add: databit_len0_def data_bytes_def length_found_def nec_defs)

lemma nec_repeat_waits: "length (ir_timings d) = 1 \<Longrightarrow> infrared_decoder_nec_decode_repeat d = Inr (InfraredStatusOk, d)"
  by (simp add: infrared_decoder_nec_decode_repeat_def Let_def)

text \<open>What the encoder holds after the reset: the four bytes of the data word.\<close>

lemma nec_reset_32:
  assumes "nec_data m = Inr (w, None, 32)" and "8 \<le> length (en_data e)"
  shows "\<exists>e1. infrared_encoder_nec_reset e m = Inr e1 \<and> en_state e1 = InfraredCommonEncoderStateSilence \<and>
    en_bits_encoded e1 = 0 \<and> en_timings_encoded e1 = 0 \<and> en_bits_to_encode e1 = 32 \<and> 8 \<le> length (en_data e1) \<and>
    en_data e1 ! 0 = ucast w \<and> en_data e1 ! 1 = ucast (drop_bit 8 w) \<and> en_data e1 ! 2 = ucast (drop_bit 16 w) \<and>
    en_data e1 ! 3 = ucast (drop_bit 24 w)"
proof -
  let ?e = "infrared_common_encoder_reset infrared_protocol_nec e"
  obtain ys where "write_le32 (en_data ?e) 0 w = Inr ys" "length ys = length (en_data ?e)"
      "ys ! 0 = ucast w" "ys ! 1 = ucast (drop_bit 8 w)" "ys ! 2 = ucast (drop_bit 16 w)" "ys ! 3 = ucast (drop_bit 24 w)"
    using write_le32_bytes [of 0 "en_data ?e" w] assms(2) by force
  then show ?thesis
    using assms by (simp add: infrared_encoder_nec_reset_def Let_def)
qed

text \<open>Messages the encoder and the decoder agree on.\<close>

definition nec_message :: "InfraredMessage \<Rightarrow> bool" where
  "nec_message m \<longleftrightarrow> \<not> msg_repeat m \<and>
     (case msg_protocol m of
        InfraredProtocolNEC \<Rightarrow> msg_address m < 0x100 \<and> msg_command m < 0x100
      | InfraredProtocolNECext \<Rightarrow> msg_address m < 0x10000 \<and> msg_command m < 0x10000 \<and>
          \<not> ((ucast (msg_command m) :: u8) = NOT (ucast (drop_bit 8 (msg_command m))) \<and>
             (ucast (msg_address m) :: u8) = NOT (ucast (drop_bit 8 (msg_address m))))
      | _ \<Rightarrow> False)"

lemma narrow_u8: "w < 0x100 \<Longrightarrow> ucast (ucast w :: u8) = (w :: u32)"
  using less_mask_eq [of w 8] by (simp add: unsigned_ucast_eq take_bit_eq_mask)

lemma narrow_u16: "w < 0x10000 \<Longrightarrow> ucast (ucast w :: u16) = (w :: u32)"
  using less_mask_eq [of w 16] by (simp add: unsigned_ucast_eq take_bit_eq_mask)

lemma nec_word_bytes:
  fixes a b c e :: u8
  defines "w \<equiv> (ucast a OR push_bit 8 (ucast b) OR push_bit 16 (ucast c) OR push_bit 24 (ucast e) :: u32)"
  shows "ucast w = a" "ucast (drop_bit 8 w) = b" "ucast (drop_bit 16 w) = c" "ucast (drop_bit 24 w) = e"
  unfolding w_def by (rule bit_word_eqI; auto simp: bit_simps dest: bit_imp_le_length)+

lemma necext_word_bytes:
  fixes a c :: u16
  defines "w \<equiv> (ucast a OR push_bit 16 (ucast c AND 0xFFFF) :: u32)"
  shows "(ucast w :: u8) = ucast a" "(ucast (drop_bit 8 w) :: u8) = ucast (drop_bit 8 a)"
    "(ucast (drop_bit 16 w) :: u8) = ucast c" "(ucast (drop_bit 24 w) :: u8) = ucast (drop_bit 8 c)"
  unfolding w_def and_masks by (rule bit_word_eqI; auto simp: bit_simps dest: bit_imp_le_length)+

lemma u16_u32: "(ucast (ucast (a :: u16) :: u32) :: u16) = a"
  by (rule bit_word_eqI) (auto simp: bit_simps)

lemma u16_low_high:
  fixes c :: u16
  shows "(ucast (ucast c :: u32) :: u8) = ucast c" "(ucast (drop_bit 8 (ucast c :: u32)) :: u8) = ucast (drop_bit 8 c)"
  by (rule bit_word_eqI; auto simp: bit_simps dest: bit_imp_le_length)+

lemma u16_halves:
  fixes a :: u16
  shows "ucast (ucast a :: u8) OR push_bit 8 (ucast (ucast (drop_bit 8 a) :: u8)) = (ucast a :: u32)"
  by (rule bit_word_eqI) (auto simp: bit_simps dest: bit_imp_le_length)

lemma nec_data_interpreted:
  assumes "nec_message m"
  shows "\<exists>w. nec_data m = Inr (w, None, 32) \<and>
    (\<forall>d. ir_databit_cnt d = 32 \<longrightarrow> length (ir_data d) = 6 \<longrightarrow> ir_data d ! 0 = ucast w \<longrightarrow> ir_data d ! 1 = ucast (drop_bit 8 w) \<longrightarrow>
      ir_data d ! 2 = ucast (drop_bit 16 w) \<longrightarrow> ir_data d ! 3 = ucast (drop_bit 24 w) \<longrightarrow>
      infrared_decoder_nec_interpret d = Inr (True, d\<lparr>ir_message := m\<rparr>))"
proof (cases "msg_protocol m")
  case InfraredProtocolNEC
  define a c where "a = (ucast (msg_address m) :: u8)" and "c = (ucast (msg_command m) :: u8)"
  have m: "m = \<lparr>msg_protocol = InfraredProtocolNEC, msg_address = ucast a, msg_command = ucast c, msg_repeat = False\<rparr>"
    using assms(1) InfraredProtocolNEC by (cases m) (simp add: nec_message_def a_def c_def narrow_u8)
  let ?w = "ucast a OR push_bit 8 (ucast (NOT a)) OR push_bit 16 (ucast c) OR push_bit 24 (ucast (NOT c))"
  have "infrared_decoder_nec_interpret d = Inr (True, d\<lparr>ir_message := m\<rparr>)"
    if "ir_databit_cnt d = 32" "length (ir_data d) = 6" "ir_data d ! 0 = a" "ir_data d ! 1 = NOT a" "ir_data d ! 2 = c" "ir_data d ! 3 = NOT c" for d
    unfolding m using that by (simp add: infrared_decoder_nec_interpret_def set_message_def)
  moreover have "nec_data m = Inr (?w, None, 32)"
    using InfraredProtocolNEC by (simp only: nec_data_def Let_def InfraredProtocol.case a_def c_def)
  ultimately show ?thesis by (intro exI [of _ ?w]) (simp only: nec_word_bytes simp_thms; blast)
next
  case InfraredProtocolNECext
  define a c where "a = (ucast (msg_address m) :: u16)" and "c = (ucast (msg_command m) :: u16)"
  have m: "m = \<lparr>msg_protocol = InfraredProtocolNECext, msg_address = ucast a, msg_command = ucast c, msg_repeat = False\<rparr>"
    using assms(1) InfraredProtocolNECext by (cases m) (simp add: nec_message_def a_def c_def narrow_u16)
  have n: "\<not> ((ucast c :: u8) = NOT (ucast (drop_bit 8 c)) \<and> (ucast a :: u8) = NOT (ucast (drop_bit 8 a)))"
    using assms(1) InfraredProtocolNECext by (simp add: nec_message_def m u16_low_high)
  let ?w = "ucast a OR push_bit 16 (ucast c AND 0xFFFF) :: u32"
  have "infrared_decoder_nec_interpret d = Inr (True, d\<lparr>ir_message := m\<rparr>)"
    if "ir_databit_cnt d = 32" "length (ir_data d) = 6" "ir_data d ! 0 = ucast a" "ir_data d ! 1 = ucast (drop_bit 8 a)"
      "ir_data d ! 2 = ucast c" "ir_data d ! 3 = ucast (drop_bit 8 c)" for d
    unfolding m using that n by (auto simp: infrared_decoder_nec_interpret_def set_message_def u16_halves)
  moreover have "nec_data m = Inr (?w, None, 32)"
    unfolding m by (simp only: nec_data_def Let_def InfraredMessage.simps InfraredProtocol.case u16_u32)
  ultimately show ?thesis by (intro exI [of _ ?w]) (simp only: necext_word_bytes simp_thms; blast)
qed (use assms(1) in \<open>simp_all add: nec_message_def\<close>)


text \<open>C6 A NEC message with an address and a command of 8 bits, or an extended NEC message with 16
  bits each that does not look like a plain one, that is loaded into an encoder in any state is
  sent in full, and the timings of the transmission followed by a silence make a fresh NEC decoder
  report exactly this message. The encoder's data area has at least 8 bytes; 68 calls of the
  encoder send the frame.\<close>

theorem nec_message_received:
  assumes "nec_message m" and "8 \<le> length (en_data e)" and "4000 < gap" and "68 \<le> fuel" and "3 \<le> fuel'"
  shows "\<exists>e1 edges e2 d'. infrared_encoder_nec_reset e m = Inr e1 \<and>
    infrared_encode_all fuel infrared_protocol_nec e1 = Some (Inr (edges, e2)) \<and>
    infrared_decode_all fuel' infrared_protocol_nec (infrared_common_decoder_alloc infrared_protocol_nec)
      (edges @ [(False, gap)]) = Some (Inr ([m], d'))"
proof -
  obtain w where w: "nec_data m = Inr (w, None, 32)"
    and i: "\<And>d. ir_databit_cnt d = 32 \<Longrightarrow> length (ir_data d) = 6 \<Longrightarrow> ir_data d ! 0 = ucast w \<Longrightarrow>
      ir_data d ! 1 = ucast (drop_bit 8 w) \<Longrightarrow> ir_data d ! 2 = ucast (drop_bit 16 w) \<Longrightarrow> ir_data d ! 3 = ucast (drop_bit 24 w) \<Longrightarrow>
      infrared_decoder_nec_interpret d = Inr (True, d\<lparr>ir_message := m\<rparr>)"
    using nec_data_interpreted [OF assms(1)] by blast
  obtain e1 where e1: "infrared_encoder_nec_reset e m = Inr e1" "en_state e1 = InfraredCommonEncoderStateSilence"
      "en_bits_encoded e1 = 0" "en_timings_encoded e1 = 0" "en_bits_to_encode e1 = 32" "8 \<le> length (en_data e1)"
    and b: "en_data e1 ! 0 = ucast w" "en_data e1 ! 1 = ucast (drop_bit 8 w)" "en_data e1 ! 2 = ucast (drop_bit 16 w)"
      "en_data e1 ! 3 = ucast (drop_bit 24 w)"
    using nec_reset_32 [OF w assms(2)] by blast
  have "\<exists>edges e' d'. infrared_encode_all fuel infrared_protocol_nec e1 = Some (Inr (edges, e')) \<and>
    infrared_decode_all fuel' infrared_protocol_nec (infrared_common_decoder_alloc infrared_protocol_nec)
      (edges @ [(False, gap)]) = Some (Inr ([m], d'))"
  proof (rule nec_tx.transmission_received [where n = 32])
    show "sp_interpret infrared_protocol_nec d = Inr (True, d\<lparr>ir_message := m\<rparr>)"
      if "length (ir_data d) = data_bytes infrared_protocol_nec" "ir_databit_cnt d = of_nat 32"
        "\<And>i. i < 32 \<Longrightarrow> lsb_bit (ir_data d) i = lsb_bit (en_data e1) i" for d
    proof -
      have "ir_data d ! k = en_data e1 ! k" if "k < 4" for k
        by (rule lsb_bits_bytes [where n = 32]) (use that \<open>\<And>i. i < 32 \<Longrightarrow> _\<close> in auto)
      with that b show ?thesis by (simp add: i)
    qed
  qed (use assms e1 nec_repeat_waits in auto)
  with e1(1) show ?thesis by blast
qed

lemma nec_message_received_witness:
  "\<exists>e1 edges e2 d'. infrared_encoder_nec_reset (infrared_common_encoder_alloc 8 infrared_protocol_nec)
      \<lparr>msg_protocol = InfraredProtocolNEC, msg_address = 4, msg_command = 0x1C, msg_repeat = False\<rparr> = Inr e1 \<and>
    infrared_encode_all 68 infrared_protocol_nec e1 = Some (Inr (edges, e2)) \<and>
    infrared_decode_all 3 infrared_protocol_nec (infrared_common_decoder_alloc infrared_protocol_nec)
      (edges @ [(False, 40000)]) = Some (Inr ([\<lparr>msg_protocol = InfraredProtocolNEC, msg_address = 4,
        msg_command = 0x1C, msg_repeat = False\<rparr>], d'))"
  by (rule nec_message_received) (simp_all add: nec_message_def infrared_common_encoder_alloc_def)

section \<open>Samsung32 messages\<close>

lemma samsung_sizes [simp]:
  "databit_len0 infrared_protocol_samsung32 = 32" "data_bytes infrared_protocol_samsung32 = 4"
  "length_found infrared_protocol_samsung32 32"
  "sp_interpret infrared_protocol_samsung32 = infrared_decoder_samsung32_interpret"
  "sp_decode_repeat infrared_protocol_samsung32 = Some infrared_decoder_samsung32_decode_repeat"
  "min_split_time (sp_timings infrared_protocol_samsung32) = 5000"
  by (simp_all add: databit_len0_def data_bytes_def length_found_def samsung_defs)

lemma samsung_repeat_waits:
  "length (ir_timings d) = 1 \<Longrightarrow> infrared_decoder_samsung32_decode_repeat d = Inr (InfraredStatusOk, d)"
  by (simp add: infrared_decoder_samsung32_decode_repeat_def Let_def)

lemma samsung_reset:
  fixes m :: InfraredMessage
  defines "a \<equiv> (ucast (msg_address m) :: u8)" and "c \<equiv> (ucast (msg_command m) :: u8)"
  assumes "4 < length (en_data e)"
  shows "\<exists>e1. infrared_encoder_samsung32_reset e m = Inr e1 \<and> en_state e1 = InfraredCommonEncoderStateSilence \<and>
    en_bits_encoded e1 = 0 \<and> en_timings_encoded e1 = 0 \<and> en_bits_to_encode e1 = 32 \<and> 4 < length (en_data e1) \<and>
    en_data e1 ! 0 = a \<and> en_data e1 ! 1 = a \<and> en_data e1 ! 2 = c \<and> en_data e1 ! 3 = NOT c"
proof -
  let ?e = "infrared_common_encoder_reset infrared_protocol_samsung32 e"
  let ?w = "ucast a OR push_bit 8 (ucast a) OR push_bit 16 (ucast c) OR push_bit 24 (ucast (NOT c)) :: u32"
  have "read_le32 (en_data ?e) 0 = Inr 0"
    using assms(3) by (simp add: read_le32_def read_le16_def infrared_common_encoder_reset_def nth_append rd_def flip: length_greater_0_conv)
  moreover obtain ys where "write_le32 (en_data ?e) 0 ?w = Inr ys" "length ys = length (en_data ?e)"
      "ys ! 0 = ucast ?w" "ys ! 1 = ucast (drop_bit 8 ?w)" "ys ! 2 = ucast (drop_bit 16 ?w)" "ys ! 3 = ucast (drop_bit 24 ?w)"
    using write_le32_bytes [of 0 "en_data ?e" ?w] assms(3) by force
  ultimately show ?thesis
    using assms(3) unfolding nec_word_bytes
    by (simp add: infrared_encoder_samsung32_reset_def Let_def a_def c_def)
qed

text \<open>A Samsung32 message with an address and a command of 8 bits, loaded into an encoder in any
  state, is sent in full and reported by a fresh Samsung32 decoder. The encoder looks at the bit
  after the last one for the stop mark, so its data area has to be longer than the four bytes of
  the frame (which the allocation provides by using the size of the decoder).\<close>

theorem samsung32_message_received:
  assumes "msg_protocol m = InfraredProtocolSamsung32" "msg_address m < 0x100" "msg_command m < 0x100" "\<not> msg_repeat m"
    and "4 < length (en_data e)" and "5000 < gap" and "68 \<le> fuel" and "3 \<le> fuel'"
  shows "\<exists>e1 edges e2 d'. infrared_encoder_samsung32_reset e m = Inr e1 \<and>
    infrared_encode_all fuel infrared_protocol_samsung32 e1 = Some (Inr (edges, e2)) \<and>
    infrared_decode_all fuel' infrared_protocol_samsung32 (infrared_common_decoder_alloc infrared_protocol_samsung32)
      (edges @ [(False, gap)]) = Some (Inr ([m], d'))"
proof -
  define a c where "a = (ucast (msg_address m) :: u8)" and "c = (ucast (msg_command m) :: u8)"
  have m: "m = \<lparr>msg_protocol = InfraredProtocolSamsung32, msg_address = ucast a, msg_command = ucast c, msg_repeat = False\<rparr>"
    using assms(1-4) by (cases m) (simp add: a_def c_def narrow_u8)
  have i: "infrared_decoder_samsung32_interpret d = Inr (True, d\<lparr>ir_message := m\<rparr>)"
    if "length (ir_data d) = 4" "ir_data d ! 0 = a" "ir_data d ! 1 = a" "ir_data d ! 2 = c" "ir_data d ! 3 = NOT c" for d
    unfolding m using that by (simp add: infrared_decoder_samsung32_interpret_def set_message_def)
  obtain e1 where e1: "infrared_encoder_samsung32_reset e m = Inr e1" "en_state e1 = InfraredCommonEncoderStateSilence"
      "en_bits_encoded e1 = 0" "en_timings_encoded e1 = 0" "en_bits_to_encode e1 = 32" "4 < length (en_data e1)"
    and b: "en_data e1 ! 0 = a" "en_data e1 ! 1 = a" "en_data e1 ! 2 = c" "en_data e1 ! 3 = NOT c"
    using samsung_reset [OF assms(5), of m] unfolding a_def c_def by blast
  have "\<exists>edges e' d'. infrared_encode_all fuel infrared_protocol_samsung32 e1 = Some (Inr (edges, e')) \<and>
    infrared_decode_all fuel' infrared_protocol_samsung32 (infrared_common_decoder_alloc infrared_protocol_samsung32)
      (edges @ [(False, gap)]) = Some (Inr ([m], d'))"
  proof (rule samsung_tx.transmission_received [where n = 32])
    show "sp_interpret infrared_protocol_samsung32 d = Inr (True, d\<lparr>ir_message := m\<rparr>)"
      if "length (ir_data d) = data_bytes infrared_protocol_samsung32" "ir_databit_cnt d = of_nat 32"
        "\<And>i. i < 32 \<Longrightarrow> lsb_bit (ir_data d) i = lsb_bit (en_data e1) i" for d
    proof -
      have "ir_data d ! k = en_data e1 ! k" if "k < 4" for k
        by (rule lsb_bits_bytes [where n = 32]) (use that \<open>\<And>i. i < 32 \<Longrightarrow> _\<close> in auto)
      with that b show ?thesis by (simp add: i)
    qed
  qed (use assms e1 samsung_repeat_waits in auto)
  with e1(1) show ?thesis by blast
qed

lemma samsung32_message_received_witness:
  "\<exists>e1 edges e2 d'. infrared_encoder_samsung32_reset (infrared_common_encoder_alloc 8 infrared_protocol_samsung32)
      \<lparr>msg_protocol = InfraredProtocolSamsung32, msg_address = 7, msg_command = 0xE0, msg_repeat = False\<rparr> = Inr e1 \<and>
    infrared_encode_all 68 infrared_protocol_samsung32 e1 = Some (Inr (edges, e2)) \<and>
    infrared_decode_all 3 infrared_protocol_samsung32 (infrared_common_decoder_alloc infrared_protocol_samsung32)
      (edges @ [(False, 46000)]) = Some (Inr ([\<lparr>msg_protocol = InfraredProtocolSamsung32, msg_address = 7,
        msg_command = 0xE0, msg_repeat = False\<rparr>], d'))"
  by (rule samsung32_message_received) (simp_all add: infrared_common_encoder_alloc_def)

end
