(* ===== verification/Keeloq.thy ===== *)
theory Keeloq
  imports Flipper_Prelude
begin

text \<open>
  The KeeLoq cipher and the key derivations of the rolling code remotes,
  \<^verbatim>\<open>lib/subghz/protocols/keeloq_common.c\<close>, on 32 and 64 bit words. The cipher is shown to be a
  permutation with the decryption as its inverse, from which the derivations are injective; the
  derivation whose shifts leave the width of the operands has no defined result.
\<close>

unbundle bit_operations_syntax

section \<open>Cipher\<close>

definition KEELOQ_NLF :: u32 where
  "KEELOQ_NLF = 0x3A5C742E"

definition keeloq_bit :: "'a::len word \<Rightarrow> nat \<Rightarrow> 'a word" where
  "keeloq_bit x n = drop_bit n x AND 1"

definition g5 :: "u32 \<Rightarrow> nat \<Rightarrow> nat \<Rightarrow> nat \<Rightarrow> nat \<Rightarrow> nat \<Rightarrow> u32" where
  "g5 x a b c d e = keeloq_bit x a + keeloq_bit x b * 2 + keeloq_bit x c * 4 + keeloq_bit x d * 8 + keeloq_bit x e * 16"

text \<open>One round of each direction with the bit of the key it uses.\<close>

definition encrypt_round :: "u32 \<Rightarrow> u32 \<Rightarrow> u32" where
  "encrypt_round k x =
     drop_bit 1 x XOR push_bit 31 (keeloq_bit x 0 XOR keeloq_bit x 16 XOR k XOR
       keeloq_bit KEELOQ_NLF (unat (g5 x 1 9 20 26 31)))"

definition decrypt_round :: "u32 \<Rightarrow> u32 \<Rightarrow> u32" where
  "decrypt_round k x =
     push_bit 1 x XOR keeloq_bit x 31 XOR keeloq_bit x 15 XOR k XOR
       keeloq_bit KEELOQ_NLF (unat (g5 x 0 8 19 25 30))"

definition subghz_protocol_keeloq_common_encrypt :: "u32 \<Rightarrow> u64 \<Rightarrow> u32" where
  "subghz_protocol_keeloq_common_encrypt data key =
     foldl (\<lambda>x r. encrypt_round (ucast (keeloq_bit key (unat ((of_nat r :: u32) AND 63)))) x) data [0..<528]"

definition subghz_protocol_keeloq_common_decrypt :: "u32 \<Rightarrow> u64 \<Rightarrow> u32" where
  "subghz_protocol_keeloq_common_decrypt data key =
     foldl (\<lambda>x r. decrypt_round (ucast (keeloq_bit key (unat ((15 - of_nat r :: u32) AND 63)))) x) data [0..<528]"

section \<open>Key derivations\<close>

definition subghz_protocol_keeloq_common_normal_learning :: "u32 \<Rightarrow> u64 \<Rightarrow> u64" where
  "subghz_protocol_keeloq_common_normal_learning data key =
     (let d1 = data AND 0x0FFFFFFF OR 0x20000000;
          k1 = subghz_protocol_keeloq_common_decrypt d1 key;
          d2 = d1 AND 0x0FFFFFFF OR 0x60000000;
          k2 = subghz_protocol_keeloq_common_decrypt d2 key
      in push_bit 32 (ucast k2) OR ucast k1)"

definition subghz_protocol_keeloq_common_secure_learning :: "u32 \<Rightarrow> u32 \<Rightarrow> u64 \<Rightarrow> u64" where
  "subghz_protocol_keeloq_common_secure_learning data seed key =
     (let k1 = subghz_protocol_keeloq_common_decrypt (data AND 0x0FFFFFFF) key;
          k2 = subghz_protocol_keeloq_common_decrypt seed key
      in push_bit 32 (ucast k1) OR ucast k2)"

definition subghz_protocol_keeloq_common_magic_xor_type1_learning :: "u32 \<Rightarrow> u64 \<Rightarrow> u64" where
  "subghz_protocol_keeloq_common_magic_xor_type1_learning data x =
     (let d = data AND 0x0FFFFFFF in (push_bit 32 (ucast d) OR ucast d) XOR x)"

definition subghz_protocol_keeloq_common_faac_learning :: "u32 \<Rightarrow> u64 \<Rightarrow> u64" where
  "subghz_protocol_keeloq_common_faac_learning seed key =
     (let hs = (ucast (drop_bit 16 seed) :: u16); lsb = push_bit 16 (ucast hs) OR 0x544D
      in push_bit 32 (ucast (subghz_protocol_keeloq_common_encrypt seed key)) OR
         ucast (subghz_protocol_keeloq_common_encrypt lsb key))"

definition subghz_protocol_keeloq_common_magic_serial_type1_learning :: "u32 \<Rightarrow> u64 \<Rightarrow> u64" where
  "subghz_protocol_keeloq_common_magic_serial_type1_learning data man =
     (man AND 0xFFFFFFFF) OR push_bit 40 (ucast data) OR
     push_bit 32 (ucast (((data AND 0xFF) + (drop_bit 8 data AND 0xFF)) AND 0xFF))"

text \<open>Bytes 7 to 4 of the key, little endian, are overwritten with bytes 0 to 3 of the data.\<close>

definition set_byte :: "nat \<Rightarrow> u8 \<Rightarrow> u64 \<Rightarrow> u64" where
  "set_byte i v w = (w AND NOT (push_bit (8 * i) 0xFF)) OR push_bit (8 * i) (ucast v)"

definition subghz_protocol_keeloq_common_magic_serial_type2_learning :: "u32 \<Rightarrow> u64 \<Rightarrow> u64" where
  "subghz_protocol_keeloq_common_magic_serial_type2_learning data man =
     set_byte 4 (ucast (drop_bit 24 data)) (set_byte 5 (ucast (drop_bit 16 data))
       (set_byte 6 (ucast (drop_bit 8 data)) (set_byte 7 (ucast data) man)))"

definition subghz_protocol_keeloq_common_magic_serial_type3_learning :: "u32 \<Rightarrow> u64 \<Rightarrow> u64" where
  "subghz_protocol_keeloq_common_magic_serial_type3_learning data man =
     (man AND 0xFFFFFFFFFF000000) OR ucast (data AND 0xFFFFFF)"

text \<open>Shifts of a 32 bit operand, which C defines for counts below 32 only.\<close>

definition shl32 :: "u32 \<Rightarrow> u32 \<Rightarrow> fault + u32" where
  "shl32 x n = (if n < 32 then Inr (push_bit (unat n) x) else Inl UndefinedBehaviour)"

definition shr32 :: "u32 \<Rightarrow> u32 \<Rightarrow> fault + u32" where
  "shr32 x n = (if n < 32 then Inr (drop_bit (unat n) x) else Inl UndefinedBehaviour)"

text \<open>One pass of the loop for \<open>r5 < 0x210\<close>, the statements in order.\<close>

definition nl_extend_round :: "u32 \<Rightarrow> u32 \<Rightarrow> u32 \<Rightarrow> u32 \<Rightarrow> fault + u32" where
  "nl_extend_round k_lo k_hi r5 x =
     (let r1a = drop_bit 15 x AND 1;
          r7 = r1a XOR (drop_bit 1 x OR push_bit 31 x);
          r1b = (15 - r5) AND 0x3F;
          lr = 32 - r1b;
          ip = r1b - 32
      in bind_r (shl32 k_hi lr) (\<lambda>lr.
         bind_r (shr32 k_lo r1b) (\<lambda>r1.
         bind_r (if r1 < 32 then shr32 k_hi ip else Inr 0) (\<lambda>ip.
           let r1 = ((r1 OR lr OR ip) AND 1) XOR r7;
               i = drop_bit 30 x AND 1;
               r7 = (drop_bit 25 x AND 1) + push_bit 1 i;
               i = (drop_bit 19 x AND 1) + push_bit 1 r7;
               r7 = (drop_bit 8 x AND 1) + push_bit 1 i;
               x = (x AND 1) + push_bit 1 r7;
               x = drop_bit (unat (x AND 31)) KEELOQ_NLF AND 1
           in Inr (x XOR r1)))))"

text \<open>The loop counts \<open>r5\<close> from 0 to the limit; \<open>n\<close> is the number of passes left.\<close>

fun nl_extend_loop :: "nat \<Rightarrow> u32 \<Rightarrow> u32 \<Rightarrow> u32 \<Rightarrow> u32 \<Rightarrow> fault + u32" where
  "nl_extend_loop 0 k_lo k_hi r5 x = Inr x"
| "nl_extend_loop (Suc n) k_lo k_hi r5 x =
     bind_r (if r5 < 0x210 then nl_extend_round k_lo k_hi r5 x else Inr x) (\<lambda>x'.
       nl_extend_loop n k_lo k_hi (r5 + 1) x')"

definition subghz_protocol_keeloq_common_manufacturer_nl_extend :: "u32 \<Rightarrow> u32 \<Rightarrow> u32 \<Rightarrow> u32 \<Rightarrow> fault + u32" where
  "subghz_protocol_keeloq_common_manufacturer_nl_extend x k_lo k_hi outer_limit =
     nl_extend_loop (unat outer_limit) k_lo k_hi 0 x"

definition subghz_protocol_keeloq_common_word_rotate16 :: "u32 \<Rightarrow> u32" where
  "subghz_protocol_keeloq_common_word_rotate16 v = drop_bit 16 v OR push_bit 16 v"

definition subghz_protocol_keeloq_common_decrypt_derived :: "u32 \<Rightarrow> u64 \<Rightarrow> u32 \<Rightarrow> fault + u32" where
  "subghz_protocol_keeloq_common_decrypt_derived hop_encrypted key outer_limit =
     subghz_protocol_keeloq_common_manufacturer_nl_extend hop_encrypted (ucast key) (ucast (drop_bit 32 key)) outer_limit"

definition subghz_protocol_keeloq_common_learning_aerf :: "u32 \<Rightarrow> u64 \<Rightarrow> fault + u64" where
  "subghz_protocol_keeloq_common_learning_aerf data key =
     (let k_lo = ucast key; k_hi = ucast (drop_bit 32 key); d = data AND 0x0FFFFFFF
      in bind_r (subghz_protocol_keeloq_common_manufacturer_nl_extend (d OR 0x20000000) k_lo k_hi 0x40) (\<lambda>k1.
         bind_r (subghz_protocol_keeloq_common_manufacturer_nl_extend (d OR 0x60000000) k_lo k_hi 0x40) (\<lambda>x.
           Inr (push_bit 32 (ucast x) OR ucast k1))))"

definition subghz_protocol_keeloq_common_learning_erreka :: "u32 \<Rightarrow> u32 \<Rightarrow> u64 \<Rightarrow> u64" where
  "subghz_protocol_keeloq_common_learning_erreka data mix key =
     (let d = data AND 0x0FFFFFFF;
          k1 = subghz_protocol_keeloq_common_decrypt (d OR 0x20000000) key;
          r4 = drop_bit 4 mix;
          r1 = push_bit 4 mix AND 0xF000F000;
          r4 = (r4 AND 0x0F000F00) OR r1;
          r5 = mix AND 0x00FF00FF;
          x = r4 OR r5 OR 0x60000000;
          k2 = subghz_protocol_keeloq_common_decrypt x key
      in push_bit 32 (ucast k2) OR ucast k1)"

definition subghz_protocol_keeloq_common_learning_pujol :: "u32 \<Rightarrow> u64 \<Rightarrow> u64" where
  "subghz_protocol_keeloq_common_learning_pujol data key =
     (let d = data AND 0x0FFFFFFF;
          w1 = subghz_protocol_keeloq_common_decrypt (d OR 0x20000000) key;
          w2 = subghz_protocol_keeloq_common_decrypt (d OR 0x60000000) key;
          k1 = subghz_protocol_keeloq_common_word_rotate16 w1;
          k2 = subghz_protocol_keeloq_common_word_rotate16 w2
      in push_bit 32 (ucast k2) OR ucast k1)"

section \<open>The cipher is a permutation\<close>

text \<open>A bit of the key, or of the table, is 0 or 1.\<close>

lemma keeloq_bit_of_bool: "keeloq_bit x n = of_bool (bit x n)"
  by (simp add: keeloq_bit_def drop_bit_and_1)

lemma g5_cong:
  assumes "bit x a = bit y a'" "bit x b = bit y b'" "bit x c = bit y c'" "bit x d = bit y d'" "bit x e = bit y e'"
  shows "g5 x a b c d e = g5 y a' b' c' d' e'"
  using assms by (simp add: g5_def keeloq_bit_of_bool)

lemma decrypt_encrypt_round: "decrypt_round (of_bool k) (encrypt_round (of_bool k) x) = x"
proof -
  define t where "t = (bit x 0 \<noteq> (bit x 16 \<noteq> (k \<noteq> bit KEELOQ_NLF (unat (g5 x 1 9 20 26 31)))))"
  define y where "y = encrypt_round (of_bool k) x"
  have y: "bit y n = (if n = 31 then t else bit x (Suc n))" for n
    by (auto simp: y_def encrypt_round_def keeloq_bit_of_bool bit_simps bit_times_2 bit_of_bool_word t_def dest: bit_imp_le_length)
  have g: "g5 y 0 8 19 25 30 = g5 x 1 9 20 26 31"
    by (rule g5_cong) (simp_all add: y)
  show ?thesis
    unfolding y_def [symmetric]
  proof (rule bit_word_eqI)
    fix n assume "n < LENGTH(32)"
    then show "bit (decrypt_round (of_bool k) y) n = bit x n"
      unfolding decrypt_round_def g keeloq_bit_of_bool
      by (cases n) (auto simp: bit_simps bit_times_2 bit_of_bool_word y t_def)
  qed
qed

lemma encrypt_decrypt_round: "encrypt_round (of_bool k) (decrypt_round (of_bool k) y) = y"
proof -
  define t where "t = (bit y 31 \<noteq> (bit y 15 \<noteq> (k \<noteq> bit KEELOQ_NLF (unat (g5 y 0 8 19 25 30)))))"
  define x where "x = decrypt_round (of_bool k) y"
  have x: "bit x n = (if n = 0 then t else n < 32 \<and> bit y (n - 1))" for n
    by (auto simp: x_def decrypt_round_def keeloq_bit_of_bool bit_simps bit_times_2 bit_of_bool_word t_def)
  have g: "g5 x 1 9 20 26 31 = g5 y 0 8 19 25 30"
    by (rule g5_cong) (simp_all add: x)
  show ?thesis
    unfolding x_def [symmetric]
  proof (rule bit_word_eqI)
    fix n assume "n < LENGTH(32)"
    then consider "n = 31" | "n < 31" by fastforce
    then show "bit (encrypt_round (of_bool k) x) n = bit y n"
      unfolding encrypt_round_def g keeloq_bit_of_bool
      by cases (auto simp: bit_simps bit_of_bool_word x t_def)
  qed
qed


text \<open>Running rounds backwards undoes them.\<close>

lemma foldl_undo:
  assumes "\<And>x r. D r (E r x) = x"
  shows "foldl (\<lambda>x r. D r x) (foldl (\<lambda>x r. E r x) x rs) (rev rs) = x"
  by (induction rs arbitrary: x rule: rev_induct) (simp_all add: assms)

definition key_bit :: "u64 \<Rightarrow> nat \<Rightarrow> bool" where
  "key_bit key r = bit key (r mod 64)"

lemma mask_6: "mask 6 = (63 :: 'a::len word)"
  by (simp add: mask_numeral)

lemma unat_and_63: "unat ((w :: u32) AND 63) = unat w mod 64"
  by (simp add: mask_6 [symmetric] take_bit_eq_mask [symmetric] unsigned_take_bit_eq take_bit_nat_def)
lemma encrypt_key_bit: "ucast (keeloq_bit key (unat ((of_nat r :: u32) AND 63))) = (of_bool (key_bit key r) :: u32)"
  by (simp add: unat_and_63 keeloq_bit_of_bool key_bit_def unsigned_of_nat take_bit_nat_def mod_mod_cancel)

lemma decrypt_key_index:
  assumes "r < 528"
  shows "unat (15 - of_nat r :: u32) mod 64 = (527 - r) mod 64"
proof (cases "r \<le> 15")
  case True
  then have "(15 - of_nat r :: u32) = of_nat (15 - r)" by (simp add: of_nat_diff)
  then have "unat (15 - of_nat r :: u32) = 15 - r" by (simp only: unat_of_nat) simp
  moreover have "527 - r = (15 - r) + 8 * 64" using True by simp
  ultimately show ?thesis by (metis mod_mult_self1)
next
  case False
  have "(15 - of_nat r :: u32) = of_nat (2 ^ 32 + 15 - r)" using assms by (simp add: of_nat_diff)
  then have "unat (15 - of_nat r :: u32) = 2 ^ 32 + 15 - r" using False assms by (simp only: unat_of_nat) simp
  moreover have "2 ^ 32 + 15 - r = (527 - r) + 67108856 * 64" using assms False by simp
  ultimately show ?thesis by (metis mod_mult_self1)
qed

lemma decrypt_key_bit:
  assumes "r < 528"
  shows "ucast (keeloq_bit key (unat ((15 - of_nat r :: u32) AND 63))) = (of_bool (key_bit key (527 - r)) :: u32)"
  using decrypt_key_index [OF assms] by (simp add: unat_and_63 keeloq_bit_of_bool key_bit_def)

lemma encrypt_rounds:
  "subghz_protocol_keeloq_common_encrypt data key =
    foldl (\<lambda>x r. encrypt_round (of_bool (key_bit key r)) x) data [0..<528]"
  unfolding subghz_protocol_keeloq_common_encrypt_def encrypt_key_bit ..

lemma decrypt_rounds:
  "subghz_protocol_keeloq_common_decrypt data key =
    foldl (\<lambda>x r. decrypt_round (of_bool (key_bit key r)) x) data (rev [0..<528])"
proof -
  have "subghz_protocol_keeloq_common_decrypt data key =
      foldl (\<lambda>x r. decrypt_round (of_bool (key_bit key (528 - 1 - r))) x) data [0..<528]"
    unfolding subghz_protocol_keeloq_common_decrypt_def
    by (rule foldl_cong) (simp_all only: decrypt_key_bit set_upt atLeastLessThan_iff, simp)
  also have "\<dots> = foldl (\<lambda>x r. decrypt_round (of_bool (key_bit key r)) x) data (rev [0..<528])"
    by (rule foldl_backwards)
  finally show ?thesis .
qed

lemma decrypt_encrypt: "subghz_protocol_keeloq_common_decrypt (subghz_protocol_keeloq_common_encrypt x key) key = x"
  unfolding encrypt_rounds decrypt_rounds by (rule foldl_undo) (rule decrypt_encrypt_round)

lemma encrypt_decrypt: "subghz_protocol_keeloq_common_encrypt (subghz_protocol_keeloq_common_decrypt x key) key = x"
  unfolding encrypt_rounds decrypt_rounds
  using foldl_undo [of "\<lambda>r. encrypt_round (of_bool (key_bit key r))" "\<lambda>r. decrypt_round (of_bool (key_bit key r))" x "rev [0..<528]"]
  by (simp only: encrypt_decrypt_round rev_rev_ident simp_thms)

text \<open>C20 Under every 64 bit key, KeeLoq decryption is the inverse of KeeLoq encryption in both
  directions: the hopping code of a remote opens to the data it was made of, and no two data give
  the same code.\<close>

theorem keeloq_roundtrip:
  "subghz_protocol_keeloq_common_decrypt (subghz_protocol_keeloq_common_encrypt x key) key = x \<and>
   subghz_protocol_keeloq_common_encrypt (subghz_protocol_keeloq_common_decrypt x key) key = x"
  by (simp add: decrypt_encrypt encrypt_decrypt)


section \<open>Derived keys\<close>

lemma join_words:
  fixes k1 k2 :: u32
  shows "(ucast (push_bit 32 (ucast k2) OR ucast k1 :: u64) :: u32) = k1"
    "(ucast (drop_bit 32 (push_bit 32 (ucast k2) OR ucast k1 :: u64)) :: u32) = k2"
  by (rule bit_word_eqI; auto simp: bit_simps dest: bit_imp_le_length)+

lemma decrypt_inject [simp]:
  "subghz_protocol_keeloq_common_decrypt x key = subghz_protocol_keeloq_common_decrypt y key \<longleftrightarrow> x = y"
  by (metis encrypt_decrypt)

lemma encrypt_inject [simp]:
  "subghz_protocol_keeloq_common_encrypt x key = subghz_protocol_keeloq_common_encrypt y key \<longleftrightarrow> x = y"
  by (metis decrypt_encrypt)

lemma join_words_inject:
  "(push_bit 32 (ucast k2) OR ucast k1 :: u64) = push_bit 32 (ucast l2) OR ucast (l1 :: u32) \<longleftrightarrow> k1 = (l1 :: u32) \<and> k2 = (l2 :: u32)"
  by (metis join_words)

lemma rotate16_inject:
  "subghz_protocol_keeloq_common_word_rotate16 v = subghz_protocol_keeloq_common_word_rotate16 w \<longleftrightarrow> v = w"
proof -
  have r: "bit (subghz_protocol_keeloq_common_word_rotate16 v) n = (if n < 16 then bit v (n + 16) else bit v (n - 16) \<and> n < 32)"
    for v n
    by (auto simp: subghz_protocol_keeloq_common_word_rotate16_def bit_simps add.commute dest: bit_imp_le_length)
  have "bit v n = bit w n" if "subghz_protocol_keeloq_common_word_rotate16 v = subghz_protocol_keeloq_common_word_rotate16 w" "n < 32" for n
    using that r [of v "if n < 16 then n + 16 else n - 16"] r [of w "if n < 16 then n + 16 else n - 16"]
    by (auto split: if_splits)
  then show ?thesis by (auto intro: bit_word_eqI)
qed

lemma serial_masked:
  "x AND 0x0FFFFFFF OR 0x20000000 = y AND 0x0FFFFFFF OR 0x20000000 \<longleftrightarrow> x AND 0x0FFFFFFF = (y AND 0x0FFFFFFF :: u32)"
proof
  assume a: "x AND 0x0FFFFFFF OR 0x20000000 = y AND 0x0FFFFFFF OR (0x20000000 :: u32)"
  have "z AND 0x0FFFFFFF = (z AND 0x0FFFFFFF OR 0x20000000) AND (0x0FFFFFFF :: u32)" for z
    by (simp add: bit.conj_disj_distrib2 and.assoc)
  with a show "x AND 0x0FFFFFFF = (y AND 0x0FFFFFFF :: u32)" by metis
qed simp

lemma normal_learning_inject:
  "subghz_protocol_keeloq_common_normal_learning d key = subghz_protocol_keeloq_common_normal_learning d' key
    \<longleftrightarrow> d AND 0x0FFFFFFF = d' AND 0x0FFFFFFF"
  unfolding subghz_protocol_keeloq_common_normal_learning_def Let_def join_words_inject decrypt_inject serial_masked
  by (auto simp: bit.conj_disj_distrib2 and.assoc)

lemma secure_learning_inject:
  "subghz_protocol_keeloq_common_secure_learning d seed key = subghz_protocol_keeloq_common_secure_learning d' seed' key
    \<longleftrightarrow> d AND 0x0FFFFFFF = d' AND 0x0FFFFFFF \<and> seed = seed'"
  unfolding subghz_protocol_keeloq_common_secure_learning_def Let_def join_words_inject decrypt_inject by blast

lemma pujol_learning_inject:
  "subghz_protocol_keeloq_common_learning_pujol d key = subghz_protocol_keeloq_common_learning_pujol d' key
    \<longleftrightarrow> d AND 0x0FFFFFFF = d' AND 0x0FFFFFFF"
  unfolding subghz_protocol_keeloq_common_learning_pujol_def Let_def join_words_inject rotate16_inject decrypt_inject serial_masked
  by auto

lemma magic_xor_learning_inject:
  "subghz_protocol_keeloq_common_magic_xor_type1_learning d key = subghz_protocol_keeloq_common_magic_xor_type1_learning d' key
    \<longleftrightarrow> d AND 0x0FFFFFFF = d' AND 0x0FFFFFFF"
proof -
  have "x XOR key = y XOR key \<longleftrightarrow> x = y" for x y :: u64
    by (auto simp: bit_eq_iff bit_xor_iff)
  then show ?thesis
    unfolding subghz_protocol_keeloq_common_magic_xor_type1_learning_def Let_def by (simp only: join_words_inject simp_thms)
qed

lemma faac_learning_inject:
  "subghz_protocol_keeloq_common_faac_learning seed key = subghz_protocol_keeloq_common_faac_learning seed' key \<longleftrightarrow> seed = seed'"
  unfolding subghz_protocol_keeloq_common_faac_learning_def Let_def join_words_inject encrypt_inject by blast

text \<open>Learning a remote loses nothing of its serial number: the normal, the secure, the Pujol and
  the XOR derivation give two serial numbers the same device key exactly when the numbers agree in
  the 28 bits the derivations use (for secure learning also in the seed), and the FAAC derivation
  gives two seeds the same key exactly when they are equal.\<close>

theorem keeloq_learning_injective:
  "(subghz_protocol_keeloq_common_normal_learning d key = subghz_protocol_keeloq_common_normal_learning d' key
      \<longleftrightarrow> d AND 0x0FFFFFFF = d' AND 0x0FFFFFFF) \<and>
   (subghz_protocol_keeloq_common_secure_learning d seed key = subghz_protocol_keeloq_common_secure_learning d' seed' key
      \<longleftrightarrow> d AND 0x0FFFFFFF = d' AND 0x0FFFFFFF \<and> seed = seed') \<and>
   (subghz_protocol_keeloq_common_learning_pujol d key = subghz_protocol_keeloq_common_learning_pujol d' key
      \<longleftrightarrow> d AND 0x0FFFFFFF = d' AND 0x0FFFFFFF) \<and>
   (subghz_protocol_keeloq_common_magic_xor_type1_learning d key = subghz_protocol_keeloq_common_magic_xor_type1_learning d' key
      \<longleftrightarrow> d AND 0x0FFFFFFF = d' AND 0x0FFFFFFF) \<and>
   (subghz_protocol_keeloq_common_faac_learning seed key = subghz_protocol_keeloq_common_faac_learning seed' key
      \<longleftrightarrow> seed = seed')"
  by (intro conjI normal_learning_inject secure_learning_inject pujol_learning_inject
      magic_xor_learning_inject faac_learning_inject)

section \<open>Shifts out of range\<close>

text \<open>In the pass with \<open>r5 = 16\<close> the code shifts by 63 bits.\<close>

lemma nl_extend_round_16: "nl_extend_round k_lo k_hi 16 x = Inl UndefinedBehaviour"
  by (simp add: nl_extend_round_def shl32_def)

lemma nl_extend_round_fault: "nl_extend_round k_lo k_hi r5 x = Inl e \<Longrightarrow> e = UndefinedBehaviour"
  by (auto simp: nl_extend_round_def Let_def shl32_def shr32_def split: if_splits)

lemma nl_extend_loop_undefined:
  assumes "r5 \<le> 16" and "17 \<le> r5 + n"
  shows "nl_extend_loop n k_lo k_hi (of_nat r5) x = Inl UndefinedBehaviour"
  using assms
proof (induction n arbitrary: r5 x)
  case 0
  then show ?case by simp
next
  case (Suc n)
  have lt: "(of_nat r5 :: u32) < 0x210"
    using Suc.prems(1) by (simp add: word_less_nat_alt unat_of_nat)
  show ?case
  proof (cases "r5 = 16")
    case True
    then show ?thesis using nl_extend_round_16 by simp
  next
    case False
    then have "nl_extend_loop n k_lo k_hi (of_nat (Suc r5)) y = Inl UndefinedBehaviour" for y
      using Suc.prems by (intro Suc.IH) simp_all
    then show ?thesis
      using lt nl_extend_round_fault by (cases "nl_extend_round k_lo k_hi (of_nat r5) x") (auto simp: add.commute)
  qed
qed

lemma nl_extend_undefined:
  assumes "17 \<le> limit"
  shows "subghz_protocol_keeloq_common_manufacturer_nl_extend x k_lo k_hi limit = Inl UndefinedBehaviour"
proof -
  have "17 \<le> unat limit" using assms by (simp add: word_le_nat_alt)
  then show ?thesis
    using nl_extend_loop_undefined [of 0 "unat limit"]
    by (simp add: subghz_protocol_keeloq_common_manufacturer_nl_extend_def)
qed

text \<open>The derivation for AERF remotes and the derived decryptions with the limits the receiver uses have no
  defined result, whatever the key and the data: by the pass with counter 16 at the latest the code
  shifts a 32 bit operand by 32 or more bits.\<close>

theorem keeloq_aerf_undefined:
  "subghz_protocol_keeloq_common_learning_aerf data key = Inl UndefinedBehaviour \<and>
   subghz_protocol_keeloq_common_decrypt_derived hop key 0x210 = Inl UndefinedBehaviour \<and>
   subghz_protocol_keeloq_common_decrypt_derived hop key 0x240 = Inl UndefinedBehaviour"
  by (simp add: subghz_protocol_keeloq_common_learning_aerf_def subghz_protocol_keeloq_common_decrypt_derived_def
      nl_extend_undefined)

end
