(* ===== verification/Bit_Buffer.thy ===== *)
theory Bit_Buffer
  imports Flipper_Prelude
begin

text \<open>
  The bit buffers of the NFC stack, \<^verbatim>\<open>lib/toolbox/bit_buffer.c\<close>: a data array, an array with a
  parity bit per byte, the capacity and the number of bits in use. Sizes are natural numbers (the
  capacity times eight fits \<^verbatim>\<open>size_t\<close>); the difference that can wrap is written out. Source and
  destination of a copy are different buffers; the code treats a copy of a buffer onto itself as
  no operation.
\<close>

unbundle bit_operations_syntax

section \<open>Buffer and operations\<close>

record BitBuffer =
  bb_data :: "u8 list"
  bb_parity :: "u8 list"
  capacity_bytes :: nat
  size_bits :: nat

definition parity_buf_size :: "nat \<Rightarrow> nat" where
  "parity_buf_size capacity = (capacity + 8 - 1) div 8"

text \<open>The allocator of the firmware returns cleared memory.\<close>

definition bit_buffer_alloc :: "nat \<Rightarrow> fault + BitBuffer" where
  "bit_buffer_alloc capacity = furi_check (capacity \<noteq> 0)
     (Inr \<lparr>bb_data = replicate capacity 0, bb_parity = replicate (parity_buf_size capacity) 0,
           capacity_bytes = capacity, size_bits = 0\<rparr>)"

definition bit_buffer_reset :: "BitBuffer \<Rightarrow> BitBuffer" where
  "bit_buffer_reset buf = buf\<lparr>bb_data := replicate (capacity_bytes buf) 0,
     bb_parity := replicate (parity_buf_size (capacity_bytes buf)) 0, size_bits := 0\<rparr>"

definition bit_buffer_get_size_bytes :: "BitBuffer \<Rightarrow> nat" where
  "bit_buffer_get_size_bytes buf = size_bits buf div 8 + (if size_bits buf mod 8 \<noteq> 0 then 1 else 0)"

definition bit_buffer_copy :: "BitBuffer \<Rightarrow> BitBuffer \<Rightarrow> fault + BitBuffer" where
  "bit_buffer_copy buf other =
     furi_check (capacity_bytes buf * 8 \<ge> size_bits other)
       (bind_r (memcpy (bb_data buf) 0 (bb_data other) 0 (bit_buffer_get_size_bytes other)) (\<lambda>d.
          Inr (buf\<lparr>bb_data := d, size_bits := size_bits other\<rparr>)))"

definition bit_buffer_copy_right :: "BitBuffer \<Rightarrow> BitBuffer \<Rightarrow> nat \<Rightarrow> fault + BitBuffer" where
  "bit_buffer_copy_right buf other start_index =
     (let size = bit_buffer_get_size_bytes other
      in furi_check (size > start_index) (furi_check (capacity_bytes buf \<ge> size - start_index)
         (bind_r (memcpy (bb_data buf) 0 (bb_data other) start_index (size - start_index)) (\<lambda>d.
            Inr (buf\<lparr>bb_data := d, size_bits := size_bits other - start_index * 8\<rparr>)))))"

definition bit_buffer_copy_left :: "BitBuffer \<Rightarrow> BitBuffer \<Rightarrow> nat \<Rightarrow> fault + BitBuffer" where
  "bit_buffer_copy_left buf other end_index =
     furi_check (capacity_bytes buf \<ge> end_index) (furi_check (bit_buffer_get_size_bytes other \<ge> end_index)
       (bind_r (memcpy (bb_data buf) 0 (bb_data other) 0 end_index) (\<lambda>d.
          Inr (buf\<lparr>bb_data := d, size_bits := end_index * 8\<rparr>))))"

definition bit_buffer_copy_bytes :: "BitBuffer \<Rightarrow> u8 list \<Rightarrow> nat \<Rightarrow> fault + BitBuffer" where
  "bit_buffer_copy_bytes buf data size_bytes =
     furi_check (capacity_bytes buf \<ge> size_bytes)
       (bind_r (memcpy (bb_data buf) 0 data 0 size_bytes) (\<lambda>d.
          Inr (buf\<lparr>bb_data := d, size_bits := size_bytes * 8\<rparr>)))"

definition bit_buffer_copy_bits :: "BitBuffer \<Rightarrow> u8 list \<Rightarrow> nat \<Rightarrow> fault + BitBuffer" where
  "bit_buffer_copy_bits buf data n =
     furi_check (capacity_bytes buf * 8 \<ge> n)
       (bind_r (memcpy (bb_data buf) 0 data 0 ((n + 8 - 1) div 8)) (\<lambda>d.
          Inr (buf\<lparr>bb_data := d, size_bits := n\<rparr>)))"

text \<open>Setting a parity bit: the first bit of a byte overwrites the byte, the others are added.\<close>

definition put_parity :: "u8 list \<Rightarrow> nat \<Rightarrow> nat \<Rightarrow> bool \<Rightarrow> fault + u8 list" where
  "put_parity parity index shift b =
     (if shift = 0 then wr parity (index div 8) (of_bool b)
      else bind_r (rd parity (index div 8)) (\<lambda>v. wr parity (index div 8) (v OR push_bit shift (of_bool b))))"

text \<open>One pass of the loop of \<^verbatim>\<open>bit_buffer_copy_bytes_with_parity\<close>: byte \<open>i\<close> starts at bit \<open>9 * i\<close>.\<close>

definition unpack_step :: "u8 list \<Rightarrow> nat \<Rightarrow> BitBuffer \<Rightarrow> fault + BitBuffer" where
  "unpack_step data i buf =
     (let p = 9 * i
      in bind_r (rd data (p div 8)) (\<lambda>lo. bind_r (wr (bb_data buf) i (drop_bit (p mod 8) lo)) (\<lambda>d1.
         bind_r (rd data (p div 8 + 1)) (\<lambda>hi. bind_r (rd d1 i) (\<lambda>v.
         bind_r (wr d1 i (v OR push_bit (8 - p mod 8) hi)) (\<lambda>d2.
         bind_r (put_parity (bb_parity buf) i (p mod 8) (drop_bit (p mod 8) hi AND 1 \<noteq> 0)) (\<lambda>par.
           Inr (buf\<lparr>bb_data := d2, bb_parity := par\<rparr>))))))))"

definition bit_buffer_copy_bytes_with_parity :: "BitBuffer \<Rightarrow> u8 list \<Rightarrow> nat \<Rightarrow> fault + BitBuffer" where
  "bit_buffer_copy_bytes_with_parity buf data n =
     (if n < 9
      then bind_r (rd data 0) (\<lambda>v. bind_r (wr (bb_data buf) 0 v) (\<lambda>d. Inr (buf\<lparr>size_bits := n, bb_data := d\<rparr>)))
      else furi_check (n mod 9 = 0)
        (bind_r (for_each (unpack_step data) [0..<n div 9] buf) (\<lambda>buf'.
           Inr (buf'\<lparr>size_bits := n div 9 * 8\<rparr>))))"

definition bit_buffer_write_bytes :: "BitBuffer \<Rightarrow> u8 list \<Rightarrow> nat \<Rightarrow> fault + u8 list" where
  "bit_buffer_write_bytes buf dest size_bytes =
     furi_check (bit_buffer_get_size_bytes buf \<le> size_bytes)
       (memcpy dest 0 (bb_data buf) 0 (bit_buffer_get_size_bytes buf))"

text \<open>One pass of the loop of \<^verbatim>\<open>bit_buffer_write_bytes_with_parity\<close>; the position has 16 bits.\<close>

definition pack_step :: "BitBuffer \<Rightarrow> nat \<Rightarrow> u16 \<times> u8 list \<Rightarrow> fault + u16 \<times> u8 list" where
  "pack_step buf i = (\<lambda>(curr_bit_pos, bitstream).
     let b = unat curr_bit_pos div 8; s = unat curr_bit_pos mod 8
     in bind_r (rd (bb_parity buf) (i div 8)) (\<lambda>p. let par = (drop_bit (i mod 8) p AND 1 \<noteq> 0) in
        bind_r (rd (bb_data buf) i) (\<lambda>v.
        if s = 0
        then bind_r (wr bitstream b v) (\<lambda>b1.
             bind_r (wr b1 (unat (curr_bit_pos + 8) div 8) (of_bool par)) (\<lambda>b2.
               Inr (curr_bit_pos + 8 + 1, b2)))
        else bind_r (rd bitstream b) (\<lambda>x. bind_r (wr bitstream b (x OR push_bit s v)) (\<lambda>b1.
             bind_r (wr b1 (b + 1) (drop_bit (8 - s) v)) (\<lambda>b2. bind_r (rd b2 (b + 1)) (\<lambda>y.
             bind_r (wr b2 (b + 1) (y OR push_bit s (of_bool par))) (\<lambda>b3.
               Inr (curr_bit_pos + 9, b3)))))))))"

definition bit_buffer_write_bytes_with_parity :: "BitBuffer \<Rightarrow> u8 list \<Rightarrow> nat \<Rightarrow> fault + u8 list \<times> nat" where
  "bit_buffer_write_bytes_with_parity buf dest size_bytes =
     (let n = bit_buffer_get_size_bytes buf
      in furi_check ((n * 9 + 8) div 8 \<le> size_bytes)
        (bind_r (for_each (pack_step buf) [0..<n] (0, dest)) (\<lambda>(pos, dest'). Inr (dest', unat pos))))"

definition bit_buffer_write_bytes_mid :: "BitBuffer \<Rightarrow> u8 list \<Rightarrow> nat \<Rightarrow> nat \<Rightarrow> fault + u8 list" where
  "bit_buffer_write_bytes_mid buf dest start_index size_bytes =
     furi_check (start_index + size_bytes \<le> bit_buffer_get_size_bytes buf)
       (memcpy dest 0 (bb_data buf) start_index size_bytes)"

definition bit_buffer_has_partial_byte :: "BitBuffer \<Rightarrow> bool" where
  "bit_buffer_has_partial_byte buf \<longleftrightarrow> size_bits buf mod 8 \<noteq> 0"

definition bit_buffer_starts_with_byte :: "BitBuffer \<Rightarrow> u8 \<Rightarrow> fault + bool" where
  "bit_buffer_starts_with_byte buf byte =
     (if bit_buffer_get_size_bytes buf = 0 then Inr False
      else bind_r (rd (bb_data buf) 0) (\<lambda>v. Inr (v = byte)))"

definition bit_buffer_get_byte :: "BitBuffer \<Rightarrow> nat \<Rightarrow> fault + u8" where
  "bit_buffer_get_byte buf index = furi_check (capacity_bytes buf > index) (rd (bb_data buf) index)"

definition bit_buffer_get_byte_from_bit :: "BitBuffer \<Rightarrow> nat \<Rightarrow> fault + u8" where
  "bit_buffer_get_byte_from_bit buf index_bits =
     furi_check (capacity_bytes buf * 8 > index_bits)
       (let byte_index = index_bits div 8; bit_offset = index_bits mod 8
        in bind_r (rd (bb_data buf) byte_index) (\<lambda>lo. bind_r (rd (bb_data buf) (byte_index + 1)) (\<lambda>hi.
             Inr (drop_bit bit_offset lo OR push_bit (8 - bit_offset) hi))))"

definition bit_buffer_set_byte :: "BitBuffer \<Rightarrow> nat \<Rightarrow> u8 \<Rightarrow> fault + BitBuffer" where
  "bit_buffer_set_byte buf index byte =
     furi_check (bit_buffer_get_size_bytes buf > index)
       (bind_r (wr (bb_data buf) index byte) (\<lambda>d. Inr (buf\<lparr>bb_data := d\<rparr>)))"

definition bit_buffer_set_byte_with_parity :: "BitBuffer \<Rightarrow> nat \<Rightarrow> u8 \<Rightarrow> bool \<Rightarrow> fault + BitBuffer" where
  "bit_buffer_set_byte_with_parity buff index byte parity =
     furi_check (size_bits buff div 8 > index)
       (bind_r (wr (bb_data buff) index byte) (\<lambda>d.
        bind_r (put_parity (bb_parity buff) index (index mod 8) parity) (\<lambda>p.
          Inr (buff\<lparr>bb_data := d, bb_parity := p\<rparr>))))"

definition bit_buffer_set_size :: "BitBuffer \<Rightarrow> nat \<Rightarrow> fault + BitBuffer" where
  "bit_buffer_set_size buf new_size =
     furi_check (capacity_bytes buf * 8 \<ge> new_size) (Inr (buf\<lparr>size_bits := new_size\<rparr>))"

definition bit_buffer_set_size_bytes :: "BitBuffer \<Rightarrow> nat \<Rightarrow> fault + BitBuffer" where
  "bit_buffer_set_size_bytes buf new_size_bytes =
     furi_check (capacity_bytes buf \<ge> new_size_bytes) (Inr (buf\<lparr>size_bits := new_size_bytes * 8\<rparr>))"

text \<open>Here the difference of the sizes and their sum are those of 32 bit unsigned numbers.\<close>

definition bit_buffer_append_right :: "BitBuffer \<Rightarrow> BitBuffer \<Rightarrow> nat \<Rightarrow> fault + BitBuffer" where
  "bit_buffer_append_right buf other start_index =
     (let size_bytes = bit_buffer_get_size_bytes buf;
          other_size_bytes = (bit_buffer_get_size_bytes other + 2 ^ 32 - start_index) mod 2 ^ 32
      in furi_check (capacity_bytes buf \<ge> (size_bytes + other_size_bytes) mod 2 ^ 32)
        (bind_r (memcpy (bb_data buf) size_bytes (bb_data other) start_index other_size_bytes) (\<lambda>d.
           Inr (buf\<lparr>bb_data := d,
             size_bits := (size_bits buf + (size_bits other + 2 ^ 32 - start_index * 8 mod 2 ^ 32)) mod 2 ^ 32\<rparr>))))"

definition bit_buffer_append :: "BitBuffer \<Rightarrow> BitBuffer \<Rightarrow> fault + BitBuffer" where
  "bit_buffer_append buf other = bit_buffer_append_right buf other 0"

definition bit_buffer_append_byte :: "BitBuffer \<Rightarrow> u8 \<Rightarrow> fault + BitBuffer" where
  "bit_buffer_append_byte buf byte =
     (let n = bit_buffer_get_size_bytes buf
      in furi_check (n + 1 \<le> capacity_bytes buf)
        (bind_r (wr (bb_data buf) n byte) (\<lambda>d. Inr (buf\<lparr>bb_data := d, size_bits := (n + 1) * 8\<rparr>))))"

definition bit_buffer_append_bytes :: "BitBuffer \<Rightarrow> u8 list \<Rightarrow> nat \<Rightarrow> fault + BitBuffer" where
  "bit_buffer_append_bytes buf data size_bytes =
     (let n = bit_buffer_get_size_bytes buf
      in furi_check (capacity_bytes buf \<ge> n + size_bytes)
        (bind_r (memcpy (bb_data buf) n data 0 size_bytes) (\<lambda>d.
           Inr (buf\<lparr>bb_data := d, size_bits := size_bits buf + size_bytes * 8\<rparr>))))"

definition bit_buffer_append_bit :: "BitBuffer \<Rightarrow> bool \<Rightarrow> fault + BitBuffer" where
  "bit_buffer_append_bit buf b =
     furi_check (bit_buffer_get_size_bytes buf \<le>
         capacity_bytes buf - (if bit_buffer_has_partial_byte buf then 0 else 1))
       (bind_r (if b
          then bind_r (rd (bb_data buf) (size_bits buf div 8)) (\<lambda>v.
               wr (bb_data buf) (size_bits buf div 8) (v OR push_bit (size_bits buf mod 8) 1))
          else Inr (bb_data buf)) (\<lambda>d.
        Inr (buf\<lparr>bb_data := d, size_bits := size_bits buf + 1\<rparr>)))"

section \<open>The checked operations stay inside the buffer\<close>

definition bit_buffer_ok :: "BitBuffer \<Rightarrow> bool" where
  "bit_buffer_ok buf \<longleftrightarrow> 0 < capacity_bytes buf \<and> length (bb_data buf) = capacity_bytes buf \<and>
     length (bb_parity buf) = parity_buf_size (capacity_bytes buf) \<and> size_bits buf \<le> 8 * capacity_bytes buf"

text \<open>The calls a client can make; arrays come with their length, as the callers pass it. The calls that write to an array of the
  client or return a value leave the buffer as it is. The functions without an access to the arrays
  (\<^verbatim>\<open>bit_buffer_get_size\<close> and the like) are left out.\<close>

datatype buffer_call =
  Reset | Copy BitBuffer | CopyRight BitBuffer nat | CopyLeft BitBuffer nat
  | CopyBytes "u8 list" | SetByte nat u8 | SetByteWithParity nat u8 bool
  | SetSize nat | SetSizeBytes nat | Append BitBuffer | AppendByte u8 | AppendBytes "u8 list" | AppendBit bool
  | CopyBits "u8 list" nat | CopyBytesWithParity "u8 list" nat | AppendRight BitBuffer nat
  | WriteBytes "u8 list" | WriteBytesMid "u8 list" nat nat | WriteBytesWithParity "u8 list"
  | StartsWithByte u8 | GetByte nat | GetByteFromBit nat

fun exec_call :: "buffer_call \<Rightarrow> BitBuffer \<Rightarrow> fault + BitBuffer" where
  "exec_call Reset buf = Inr (bit_buffer_reset buf)"
| "exec_call (Copy other) buf = bit_buffer_copy buf other"
| "exec_call (CopyRight other i) buf = bit_buffer_copy_right buf other i"
| "exec_call (CopyLeft other i) buf = bit_buffer_copy_left buf other i"
| "exec_call (CopyBytes bs) buf = bit_buffer_copy_bytes buf bs (length bs)"
| "exec_call (SetByte i v) buf = bit_buffer_set_byte buf i v"
| "exec_call (SetByteWithParity i v p) buf = bit_buffer_set_byte_with_parity buf i v p"
| "exec_call (SetSize n) buf = bit_buffer_set_size buf n"
| "exec_call (SetSizeBytes n) buf = bit_buffer_set_size_bytes buf n"
| "exec_call (Append other) buf = bit_buffer_append buf other"
| "exec_call (AppendByte v) buf = bit_buffer_append_byte buf v"
| "exec_call (AppendBytes bs) buf = bit_buffer_append_bytes buf bs (length bs)"
| "exec_call (AppendBit b) buf = bit_buffer_append_bit buf b"
| "exec_call (CopyBits bs n) buf = bit_buffer_copy_bits buf bs n"
| "exec_call (CopyBytesWithParity bs n) buf = bit_buffer_copy_bytes_with_parity buf bs n"
| "exec_call (AppendRight other i) buf = bit_buffer_append_right buf other i"
| "exec_call (WriteBytes dest) buf = bind_r (bit_buffer_write_bytes buf dest (length dest)) (\<lambda>_. Inr buf)"
| "exec_call (WriteBytesMid dest i n) buf = bind_r (bit_buffer_write_bytes_mid buf dest i n) (\<lambda>_. Inr buf)"
| "exec_call (WriteBytesWithParity dest) buf =
     bind_r (bit_buffer_write_bytes_with_parity buf dest (length dest)) (\<lambda>_. Inr buf)"
| "exec_call (StartsWithByte v) buf = bind_r (bit_buffer_starts_with_byte buf v) (\<lambda>_. Inr buf)"
| "exec_call (GetByte i) buf = bind_r (bit_buffer_get_byte buf i) (\<lambda>_. Inr buf)"
| "exec_call (GetByteFromBit i) buf = bind_r (bit_buffer_get_byte_from_bit buf i) (\<lambda>_. Inr buf)"

text \<open>What the calls rely on without checking it: buffers that arguments refer to are intact, and small enough for 32 bit
  sizes; source and destination arrays have the size that is announced; a message unpacked from bits with parity fits the
  capacity; the bytes appended from a start index begin inside the other buffer; and a byte read from a bit position does not begin in
  the last byte of the array.\<close>

primrec call_ok :: "nat \<Rightarrow> buffer_call \<Rightarrow> bool" where
  "call_ok capacity Reset \<longleftrightarrow> True"
| "call_ok capacity (Copy other) \<longleftrightarrow> bit_buffer_ok other"
| "call_ok capacity (CopyRight other i) \<longleftrightarrow> bit_buffer_ok other"
| "call_ok capacity (CopyLeft other i) \<longleftrightarrow> bit_buffer_ok other"
| "call_ok capacity (CopyBytes bs) \<longleftrightarrow> True"
| "call_ok capacity (SetByte i v) \<longleftrightarrow> True"
| "call_ok capacity (SetByteWithParity i v p) \<longleftrightarrow> True"
| "call_ok capacity (SetSize n) \<longleftrightarrow> True"
| "call_ok capacity (SetSizeBytes n) \<longleftrightarrow> True"
| "call_ok capacity (Append other) \<longleftrightarrow> bit_buffer_ok other \<and> capacity_bytes other < 2 ^ 28"
| "call_ok capacity (AppendByte v) \<longleftrightarrow> True"
| "call_ok capacity (AppendBytes bs) \<longleftrightarrow> True"
| "call_ok capacity (AppendBit b) \<longleftrightarrow> True"
| "call_ok capacity (CopyBits bs n) \<longleftrightarrow> n \<le> 8 * length bs"
| "call_ok capacity (CopyBytesWithParity bs n) \<longleftrightarrow> bs \<noteq> [] \<and> n \<le> 8 * length bs \<and> n \<le> 9 * capacity"
| "call_ok capacity (AppendRight other i) \<longleftrightarrow> bit_buffer_ok other \<and> capacity_bytes other < 2 ^ 28 \<and> 8 * i \<le> size_bits other"
| "call_ok capacity (WriteBytes dest) \<longleftrightarrow> True"
| "call_ok capacity (WriteBytesMid dest i n) \<longleftrightarrow> n \<le> length dest"
| "call_ok capacity (WriteBytesWithParity dest) \<longleftrightarrow> True"
| "call_ok capacity (StartsWithByte v) \<longleftrightarrow> True"
| "call_ok capacity (GetByte i) \<longleftrightarrow> True"
| "call_ok capacity (GetByteFromBit i) \<longleftrightarrow> i div 8 \<noteq> capacity - 1"

text \<open>A call either stops at a \<^verbatim>\<open>furi_check\<close> or leaves the buffer intact.\<close>

definition checked :: "nat \<Rightarrow> fault + BitBuffer \<Rightarrow> bool" where
  "checked capacity r \<longleftrightarrow> r = Inl FuriCheck \<or> (\<exists>buf. r = Inr buf \<and> bit_buffer_ok buf \<and> capacity_bytes buf = capacity)"

lemma checked_furi_check [intro]: "(b \<Longrightarrow> checked c m) \<Longrightarrow> checked c (furi_check b m)"
  by (cases b) (simp_all add: checked_def)

lemma checked_Inr [simp]: "checked c (Inr buf) \<longleftrightarrow> bit_buffer_ok buf \<and> capacity_bytes buf = c"
  by (simp add: checked_def)

lemma size_bytes_le:
  assumes "bit_buffer_ok buf"
  shows "bit_buffer_get_size_bytes buf \<le> capacity_bytes buf" and "size_bits buf \<le> 8 * bit_buffer_get_size_bytes buf"
    and "8 * bit_buffer_get_size_bytes buf \<le> size_bits buf + 7"
proof -
  have "size_bits buf = 8 * (size_bits buf div 8) + size_bits buf mod 8" "size_bits buf mod 8 < 8" by simp_all
  then show "size_bits buf \<le> 8 * bit_buffer_get_size_bytes buf" "8 * bit_buffer_get_size_bytes buf \<le> size_bits buf + 7"
    unfolding bit_buffer_get_size_bytes_def by (cases "size_bits buf mod 8 = 0"; simp; linarith)+
  then show "bit_buffer_get_size_bytes buf \<le> capacity_bytes buf"
    using assms by (simp add: bit_buffer_ok_def)
qed

lemma checked_memcpy:
  assumes "bit_buffer_ok buf" and "d + n \<le> capacity_bytes buf" and "s + n \<le> length src" and "bits \<le> 8 * capacity_bytes buf"
  shows "checked (capacity_bytes buf) (bind_r (memcpy (bb_data buf) d src s n) (\<lambda>x. Inr (buf\<lparr>bb_data := x, size_bits := bits\<rparr>)))"
  using assms by (simp add: memcpy_def bit_buffer_ok_def)

lemma put_parity_ok:
  assumes "bit_buffer_ok buf" and "i < capacity_bytes buf"
  shows "\<exists>p. put_parity (bb_parity buf) i s b = Inr p \<and> length p = length (bb_parity buf)"
proof -
  have "i div 8 < length (bb_parity buf)"
    using assms by (auto simp: bit_buffer_ok_def parity_buf_size_def)
  then show ?thesis by (simp add: put_parity_def)
qed

lemma wraps_back: "(x :: nat) < 2 ^ 32 \<Longrightarrow> (x + 2 ^ 32) mod 2 ^ 32 = x"
  by (simp only: mod_add_self2 mod_less)

lemma append_right_ok:
  assumes "bit_buffer_ok buf" and "capacity_bytes buf < 2 ^ 28" and "bit_buffer_ok other" and "capacity_bytes other < 2 ^ 28"
    and "8 * i \<le> size_bits other"
  shows "checked (capacity_bytes buf) (bit_buffer_append_right buf other i)"
proof -
  define M :: nat where "M = 2 ^ 32"
  define a b where "a = bit_buffer_get_size_bytes buf" and "b = bit_buffer_get_size_bytes other"
  note buf = size_bytes_le [OF assms(1), folded a_def] and other = size_bytes_le [OF assms(3), folded b_def]
  have "capacity_bytes buf + capacity_bytes other < 2 ^ 28 + 2 ^ 28" by (rule add_strict_mono [OF assms(2,4)])
  then have small: "8 * capacity_bytes buf + 8 * capacity_bytes other < M" by (simp add: M_def)
  have i: "i \<le> b" using assms(5) other(2) by linarith
  have wrap: "(x + M) mod M = x" if "x < M" for x using that unfolding M_def by (rule wraps_back)
  have "b + M - i = (b - i) + M" using i by linarith
  moreover have "b - i < M" using other(1) small by linarith
  ultimately have bytes: "(b + M - i) mod M = b - i" by (simp only: wrap)
  have "a + (b - i) < M" using buf(1) other(1) small by linarith
  then have sum: "(a + (b - i)) mod M = a + (b - i)" by (rule mod_less)
  have "i * 8 < M" using assms(5) other(1,2) small by linarith
  then have "i * 8 mod M = i * 8" by (rule mod_less)
  then have "size_bits buf + (size_bits other + M - i * 8 mod M) = size_bits buf + (size_bits other - 8 * i) + M"
    using assms(5) by linarith
  moreover have "size_bits buf + (size_bits other - 8 * i) < M" using buf(1,2) other(1,2) small by linarith
  ultimately have bits: "(size_bits buf + (size_bits other + M - i * 8 mod M)) mod M = size_bits buf + (size_bits other - 8 * i)"
    by (simp only: wrap)
  have fits: "size_bits buf + (size_bits other - 8 * i) \<le> 8 * capacity_bytes buf" if "a + (b - i) \<le> capacity_bytes buf"
    using that buf(2) other(2) i by linarith
  have len: "length (bb_data other) = capacity_bytes other" using assms(3) by (simp add: bit_buffer_ok_def)
  show ?thesis
    unfolding bit_buffer_append_right_def Let_def a_def [symmetric] b_def [symmetric] M_def [symmetric] bytes sum bits
  proof (rule checked_furi_check)
    assume room: "a + (b - i) \<le> capacity_bytes buf"
    show "checked (capacity_bytes buf) (bind_r (memcpy (bb_data buf) a (bb_data other) i (b - i)) (\<lambda>d.
        Inr (buf\<lparr>bb_data := d, size_bits := size_bits buf + (size_bits other - 8 * i)\<rparr>)))"
      by (rule checked_memcpy [OF assms(1) room _ fits [OF room]]) (use other(1) len i in simp)
  qed
qed

lemma append_ok:
  assumes "bit_buffer_ok buf" and "capacity_bytes buf < 2 ^ 28" and "bit_buffer_ok other" and "capacity_bytes other < 2 ^ 28"
  shows "checked (capacity_bytes buf) (bit_buffer_append buf other)"
  using append_right_ok [OF assms, of 0] by (simp add: bit_buffer_append_def)

text \<open>A query stops at a check or leaves the buffer.\<close>

lemma checked_query: "r = Inl FuriCheck \<or> (\<exists>v. r = Inr v) \<Longrightarrow> bit_buffer_ok buf \<Longrightarrow>
    checked (capacity_bytes buf) (bind_r r (\<lambda>_. Inr buf))"
  by (auto simp: checked_def)

text \<open>Unpacking from bits with parity: byte \<open>i\<close> lies between the bits \<open>9 * i\<close> and \<open>9 * i + 8\<close>.\<close>

lemma unpack_step_ok:
  assumes "bit_buffer_ok buf" and "i < capacity_bytes buf" and "9 * i + 9 \<le> 8 * length bs"
  shows "\<exists>buf'. unpack_step bs i buf = Inr buf' \<and> bit_buffer_ok buf' \<and> capacity_bytes buf' = capacity_bytes buf"
proof -
  have "9 * i div 8 + 1 < length bs"
  proof -
    have "9 * i div 8 \<le> (8 * length bs - 9) div 8" using assms(3) by (intro div_le_mono) simp
    moreover have "(8 * length bs - 9) div 8 \<le> length bs - 2 \<or> length bs < 2" by linarith
    ultimately show ?thesis using assms(3) by linarith
  qed
  moreover have "\<exists>p. put_parity (bb_parity buf) i s b = Inr p \<and> length p = length (bb_parity buf)" for s b
    by (rule put_parity_ok [OF assms(1,2)])
  then obtain p where "put_parity (bb_parity buf) i (9 * i mod 8) (drop_bit (9 * i mod 8) (bs ! (9 * i div 8 + 1)) AND 1 \<noteq> 0) = Inr p"
    "length p = length (bb_parity buf)" by blast
  ultimately show ?thesis using assms(1,2) by (simp add: unpack_step_def bit_buffer_ok_def Let_def)
qed

lemma unpack_loop_ok:
  assumes "\<forall>i \<in> set is. i < capacity_bytes buf \<and> 9 * i + 9 \<le> 8 * length bs" and "bit_buffer_ok buf"
  shows "\<exists>buf'. for_each (unpack_step bs) is buf = Inr buf' \<and> bit_buffer_ok buf' \<and> capacity_bytes buf' = capacity_bytes buf"
  using assms
proof (induction "is" arbitrary: buf)
  case (Cons i "is")
  then obtain buf1 where "unpack_step bs i buf = Inr buf1" "bit_buffer_ok buf1" "capacity_bytes buf1 = capacity_bytes buf"
    using unpack_step_ok [of buf i bs] by auto
  then show ?case using Cons.IH [of buf1] Cons.prems(1) by simp
qed simp

text \<open>Packing: the position never runs ahead of nine bits per byte, also when its 16 bits wrap around.\<close>

lemma pack_step_ok:
  assumes "bit_buffer_ok buf" and "i < bit_buffer_get_size_bytes buf" and "unat pos \<le> 9 * i"
    and "(bit_buffer_get_size_bytes buf * 9 + 8) div 8 \<le> length dest"
  shows "\<exists>pos' dest'. pack_step buf i (pos, dest) = Inr (pos', dest') \<and> unat pos' \<le> 9 * Suc i \<and> length dest' = length dest"
proof -
  have i: "i < capacity_bytes buf" using assms(1,2) size_bytes_le(1) by fastforce
  then have par: "i div 8 < length (bb_parity buf)" using assms(1) by (auto simp: bit_buffer_ok_def parity_buf_size_def)
  have room: "unat pos div 8 + 1 < length dest"
  proof -
    have "unat pos div 8 + 1 \<le> 9 * i div 8 + 1" using assms(3) by (simp add: div_le_mono)
    also have "9 * i div 8 + 1 = (9 * i + 8) div 8" by simp
    also have "(9 * i + 8) div 8 < (bit_buffer_get_size_bytes buf * 9 + 8) div 8"
    proof -
      have "(9 * i + 8) div 8 + 1 = (9 * i + 8 + 8) div 8" by simp
      also have "\<dots> \<le> (bit_buffer_get_size_bytes buf * 9 + 8) div 8" using assms(2) by (intro div_le_mono) simp
      finally show ?thesis by simp
    qed
    finally show ?thesis using assms(4) by linarith
  qed
  have add: "unat (pos + n) \<le> unat pos + unat n" for n :: u16 by (simp add: unat_word_ariths)
  have next8: "unat (pos + 8) div 8 < length dest"
    using room add [of 8] div_le_mono [of "unat (pos + 8)" "unat pos + 8" 8] by simp
  have nine: "unat (pos + 8 + 1) \<le> 9 * Suc i" "unat (pos + 9) \<le> 9 * Suc i"
    using add [of 9] assms(3) by (simp_all add: add.assoc)
  show ?thesis
    using i par room next8 nine assms(1) by (simp add: pack_step_def Let_def bit_buffer_ok_def)
qed

lemma pack_loop_ok:
  assumes "bit_buffer_ok buf" and "(bit_buffer_get_size_bytes buf * 9 + 8) div 8 \<le> length dest" and "unat pos \<le> 9 * k"
    and "k \<le> n" and "n \<le> bit_buffer_get_size_bytes buf"
  shows "\<exists>pos' dest'. for_each (pack_step buf) [k..<n] (pos, dest) = Inr (pos', dest')"
  using assms(2-4)
proof (induction "n - k" arbitrary: k pos dest)
  case 0
  then show ?case by simp
next
  case (Suc m)
  then have k: "k < n" "[k..<n] = k # [Suc k..<n]" by (simp_all add: upt_conv_Cons)
  obtain pos1 dest1 where step: "pack_step buf k (pos, dest) = Inr (pos1, dest1)" "unat pos1 \<le> 9 * Suc k" "length dest1 = length dest"
    using pack_step_ok [OF assms(1), of k pos dest] Suc.prems k(1) assms(5) by auto
  then show ?case using Suc.hyps(1) [of "Suc k" dest1 pos1] Suc.hyps(2) Suc.prems k by simp
qed

lemma buffer_call_checked:
  assumes "bit_buffer_ok buf" and "capacity_bytes buf < 2 ^ 28" and "call_ok (capacity_bytes buf) call"
  shows "checked (capacity_bytes buf) (exec_call call buf)"
proof (cases call)
  case Reset
  then show ?thesis using assms(1) by (simp add: bit_buffer_reset_def bit_buffer_ok_def)
next
  case (Copy other)
  then have "bit_buffer_ok other" using assms(3) by simp
  then show ?thesis
    using Copy assms(1) size_bytes_le [of other]
    by (auto simp: bit_buffer_copy_def bit_buffer_ok_def intro!: checked_memcpy)
next
  case (CopyRight other i)
  then have "bit_buffer_ok other" using assms(3) by simp
  then show ?thesis
    using CopyRight assms(1) size_bytes_le [of other]
    by (simp add: bit_buffer_copy_right_def Let_def)
      (intro checked_furi_check checked_memcpy, auto simp: bit_buffer_ok_def)
next
  case (CopyLeft other i)
  then have "bit_buffer_ok other" using assms(3) by simp
  then show ?thesis
    using CopyLeft assms(1) size_bytes_le [of other]
    by (simp add: bit_buffer_copy_left_def)
      (intro checked_furi_check checked_memcpy, auto simp: bit_buffer_ok_def)
next
  case (CopyBytes bs)
  then show ?thesis using assms(1) by (auto simp: bit_buffer_copy_bytes_def intro!: checked_memcpy)
next
  case (SetByte i v)
  then show ?thesis
    using assms(1) size_bytes_le(1) [OF assms(1)] by (auto simp: bit_buffer_set_byte_def bit_buffer_ok_def)
next
  case (SetByteWithParity i v p)
  have "checked (capacity_bytes buf) (bit_buffer_set_byte_with_parity buf i v p)"
    unfolding bit_buffer_set_byte_with_parity_def
  proof
    assume "size_bits buf div 8 > i"
    then have i: "i < capacity_bytes buf" using assms(1) by (auto simp: bit_buffer_ok_def)
    then show "checked (capacity_bytes buf)
       (bind_r (wr (bb_data buf) i v) (\<lambda>d. bind_r (put_parity (bb_parity buf) i (i mod 8) p) (\<lambda>p.
          Inr (buf\<lparr>bb_data := d, bb_parity := p\<rparr>))))"
      using assms(1) put_parity_ok [OF assms(1) i, of "i mod 8" p] by (auto simp: bit_buffer_ok_def)
  qed
  with SetByteWithParity show ?thesis by simp
next
  case (SetSize n)
  then show ?thesis using assms(1) by (auto simp: bit_buffer_set_size_def bit_buffer_ok_def)
next
  case (SetSizeBytes n)
  then show ?thesis using assms(1) by (auto simp: bit_buffer_set_size_bytes_def bit_buffer_ok_def)
next
  case (Append other)
  then show ?thesis using assms append_ok by simp
next
  case (AppendByte v)
  then show ?thesis
    using assms(1) by (auto simp: bit_buffer_append_byte_def bit_buffer_ok_def Let_def)
next
  case (AppendBytes bs)
  then show ?thesis
    using assms(1) size_bytes_le [OF assms(1)]
    by (auto simp: bit_buffer_append_bytes_def Let_def intro!: checked_memcpy)
next
  case (AppendBit b)
  have "size_bits buf < 8 * capacity_bytes buf"
    if "bit_buffer_get_size_bytes buf \<le> capacity_bytes buf - (if bit_buffer_has_partial_byte buf then 0 else 1)"
  proof (cases "size_bits buf mod 8 = 0")
    case True
    then show ?thesis
      using that assms(1) by (auto simp: bit_buffer_has_partial_byte_def bit_buffer_get_size_bytes_def bit_buffer_ok_def)
  next
    case False
    then have "size_bits buf \<noteq> 8 * capacity_bytes buf" by auto
    then show ?thesis using assms(1) by (simp add: bit_buffer_ok_def)
  qed
  then show ?thesis
    using AppendBit assms(1) by (auto simp: bit_buffer_append_bit_def bit_buffer_ok_def)
next
  case (CopyBits bs n)
  then show ?thesis
    using assms(1,3) by (simp add: bit_buffer_copy_bits_def) (intro checked_furi_check checked_memcpy, auto)
next
  case (CopyBytesWithParity bs n)
  show ?thesis
  proof (cases "n < 9")
    case True
    have "0 < length bs" "0 < capacity_bytes buf" using CopyBytesWithParity assms by (auto simp: bit_buffer_ok_def)
    then show ?thesis using CopyBytesWithParity assms True by (auto simp: bit_buffer_copy_bytes_with_parity_def bit_buffer_ok_def)
  next
    case False
    show ?thesis
    proof (cases "n mod 9 = 0")
      case dvd: True
      then have n: "n = 9 * (n div 9)" by auto
      then have "\<forall>i \<in> set [0..<n div 9]. i < capacity_bytes buf \<and> 9 * i + 9 \<le> 8 * length bs"
        using CopyBytesWithParity assms(3) by auto
      from unpack_loop_ok [OF this assms(1)] obtain buf' where buf': "for_each (unpack_step bs) [0..<n div 9] buf = Inr buf'"
        "bit_buffer_ok buf'" "capacity_bytes buf' = capacity_bytes buf" by blast
      have "n div 9 \<le> capacity_bytes buf" using n CopyBytesWithParity assms(3) by simp
      then show ?thesis
        using CopyBytesWithParity False dvd buf' by (auto simp: bit_buffer_copy_bytes_with_parity_def bit_buffer_ok_def)
    qed (use CopyBytesWithParity False in \<open>simp add: bit_buffer_copy_bytes_with_parity_def checked_def furi_check_def\<close>)
  qed
next
  case (AppendRight other i)
  then show ?thesis using assms append_right_ok by simp
next
  case (WriteBytes dest)
  have "bit_buffer_write_bytes buf dest (length dest) = Inl FuriCheck \<or> (\<exists>v. bit_buffer_write_bytes buf dest (length dest) = Inr v)"
    using size_bytes_le(1) [OF assms(1)] assms(1)
    by (auto simp: bit_buffer_write_bytes_def furi_check_def memcpy_def bit_buffer_ok_def)
  then show ?thesis using WriteBytes checked_query assms(1) by simp
next
  case (WriteBytesMid dest i n)
  have "bit_buffer_write_bytes_mid buf dest i n = Inl FuriCheck \<or> (\<exists>v. bit_buffer_write_bytes_mid buf dest i n = Inr v)"
    using size_bytes_le(1) [OF assms(1)] assms(1,3) WriteBytesMid
    by (auto simp: bit_buffer_write_bytes_mid_def furi_check_def memcpy_def bit_buffer_ok_def)
  then show ?thesis using WriteBytesMid checked_query assms(1) by simp
next
  case (WriteBytesWithParity dest)
  have "bit_buffer_write_bytes_with_parity buf dest (length dest) = Inl FuriCheck \<or>
      (\<exists>v. bit_buffer_write_bytes_with_parity buf dest (length dest) = Inr v)"
    using pack_loop_ok [OF assms(1), of dest 0 0 "bit_buffer_get_size_bytes buf"]
    by (cases "(bit_buffer_get_size_bytes buf * 9 + 8) div 8 \<le> length dest")
      (auto simp: bit_buffer_write_bytes_with_parity_def furi_check_def Let_def)
  then have "bit_buffer_write_bytes_with_parity buf dest (length dest) = Inl FuriCheck \<or>
      (\<exists>v. bit_buffer_write_bytes_with_parity buf dest (length dest) = Inr v)" by blast
  from checked_query [OF this assms(1)] show ?thesis by (simp only: WriteBytesWithParity exec_call.simps)
next
  case (StartsWithByte v)
  have "0 < length (bb_data buf)" using assms(1) by (simp add: bit_buffer_ok_def)
  then have "\<exists>b. bit_buffer_starts_with_byte buf v = Inr b"
    by (cases "bit_buffer_get_size_bytes buf = 0") (auto simp: bit_buffer_starts_with_byte_def intro: exI [of _ False])
  then have "bit_buffer_starts_with_byte buf v = Inl FuriCheck \<or> (\<exists>b. bit_buffer_starts_with_byte buf v = Inr b)" ..
  from checked_query [OF this assms(1)] show ?thesis by (simp only: StartsWithByte exec_call.simps)
next
  case (GetByte i)
  have "bit_buffer_get_byte buf i = Inl FuriCheck \<or> (\<exists>v. bit_buffer_get_byte buf i = Inr v)"
    using assms(1) by (auto simp: bit_buffer_get_byte_def furi_check_def bit_buffer_ok_def)
  then show ?thesis using GetByte checked_query assms(1) by simp
next
  case (GetByteFromBit i)
  have "bit_buffer_get_byte_from_bit buf i = Inl FuriCheck \<or> (\<exists>v. bit_buffer_get_byte_from_bit buf i = Inr v)"
  proof (cases "i < 8 * capacity_bytes buf")
    case True
    then have "i div 8 + 1 < capacity_bytes buf" using assms(3) GetByteFromBit by auto
    then show ?thesis using assms(1) True by (simp add: bit_buffer_get_byte_from_bit_def bit_buffer_ok_def Let_def mult.commute)
  qed (simp add: bit_buffer_get_byte_from_bit_def furi_check_def mult.commute)
  then show ?thesis using GetByteFromBit checked_query assms(1) by simp
qed

fun exec_calls :: "buffer_call list \<Rightarrow> BitBuffer \<Rightarrow> fault + BitBuffer" where
  "exec_calls [] buf = Inr buf"
| "exec_calls (c # cs) buf = bind_r (exec_call c buf) (exec_calls cs)"



text \<open>Reading a byte that starts in the last byte of the buffer passes the check of
  \<^verbatim>\<open>bit_buffer_get_byte_from_bit\<close> and reads the byte after the array, even at a byte boundary.\<close>

theorem get_byte_from_bit_overruns:
  assumes "bit_buffer_ok buf" and "8 * (capacity_bytes buf - 1) \<le> index" and "index < 8 * capacity_bytes buf"
  shows "bit_buffer_get_byte_from_bit buf index = Inl OutOfBounds"
proof -
  have "index div 8 = capacity_bytes buf - 1"
    using assms by (auto simp: bit_buffer_ok_def)
  with assms show ?thesis
    by (simp add: bit_buffer_get_byte_from_bit_def bit_buffer_ok_def Let_def rd_def mult.commute)
qed

lemma get_byte_from_bit_overruns_witness:
  "bit_buffer_get_byte_from_bit \<lparr>bb_data = [1, 2], bb_parity = [0], capacity_bytes = 2, size_bits = 16\<rparr> 8 = Inl OutOfBounds"
  by (rule get_byte_from_bit_overruns) (simp_all add: bit_buffer_ok_def parity_buf_size_def)

section \<open>Bytes with parity on the air\<close>

text \<open>Bit \<open>q\<close> of the stream of bytes and parity bits: nine bits per byte.\<close>

definition stream_bit :: "u8 list \<Rightarrow> u8 list \<Rightarrow> nat \<Rightarrow> bool" where
  "stream_bit data parity q = (if q mod 9 < 8 then bit (data ! (q div 9)) (q mod 9) else lsb_bit parity (q div 9))"

lemma nine_pos: "9 * i = 8 * (9 * i div 8) + i mod 8" "9 * i mod 8 = i mod (8 :: nat)"
proof -
  have "9 * i = i + 8 * i" by simp
  then show m: "9 * i mod 8 = i mod (8 :: nat)" by (metis mod_mult_self2)
  then show "9 * i = 8 * (9 * i div 8) + i mod 8" by (metis mult_div_mod_eq)
qed

lemma split_9:
  fixes q i :: nat
  assumes "q < 9 * Suc i"
  obtains "q < 9 * i" | r where "q = 9 * i + r" "r < 9"
proof (cases "q < 9 * i")
  case True
  then show ?thesis by (rule that(1))
next
  case False
  then show ?thesis using assms by (intro that(2) [of "q - 9 * i"]) simp_all
qed

lemma lsb_bit_at: "j < 8 \<Longrightarrow> lsb_bit xs (8 * b + j) = bit (xs ! b) j"
  by (simp add: lsb_bit_def)

lemma lsb_bit_at_next: "8 \<le> j \<Longrightarrow> j < 16 \<Longrightarrow> lsb_bit xs (8 * b + j) = bit (xs ! Suc b) (j - 8)"
proof -
  assume "8 \<le> j" "j < 16"
  then have "8 * b + j = 8 * Suc b + (j - 8)" "j - 8 < 8" by simp_all
  then show ?thesis by (metis lsb_bit_at)
qed

lemma below_pos:
  fixes q :: nat
  assumes "q < 8 * b + s" and "s < 8"
  shows "q div 8 < b \<or> q div 8 = b \<and> q mod 8 < s"
proof -
  have "q = 8 * (q div 8) + q mod 8" "q mod 8 < 8" by simp_all
  with assms show ?thesis by (cases "q div 8 < b"; cases "q div 8 = b"; linarith)
qed

text \<open>What the writer has produced after \<open>i\<close> bytes: their bits, and zeroes in the rest of the byte.\<close>

definition packed :: "u8 list \<Rightarrow> u8 list \<Rightarrow> nat \<Rightarrow> u8 list \<Rightarrow> bool" where
  "packed data parity i dest \<longleftrightarrow> (\<forall>q < 9 * i. lsb_bit dest q = stream_bit data parity q) \<and>
     (i mod 8 \<noteq> 0 \<longrightarrow> (\<forall>j \<ge> i mod 8. \<not> bit (dest ! (9 * i div 8)) j))"

lemma packed_Suc:
  assumes "packed data parity i dest" and "9 * i div 8 + 1 < length dest"
  defines "b \<equiv> 9 * i div 8" and "s \<equiv> i mod 8"
  shows "packed data parity (Suc i) (dest[b := (if s = 0 then data ! i else dest ! b OR push_bit s (data ! i)),
      b + 1 := drop_bit (8 - s) (data ! i) OR push_bit s (of_bool (lsb_bit parity i))])"
    (is "packed data parity (Suc i) ?dest")
proof -
  have s: "s < 8" "9 * i = 8 * b + s" by (simp_all add: s_def b_def nine_pos(1) [symmetric])
  have b: "b < length dest" "b + 1 < length dest" using assms(2) by (simp_all add: b_def)
  have at_b: "bit (?dest ! b) j = (if j < s then bit (dest ! b) j else bit (data ! i) (j - s) \<and> j < 8)" for j
    using b assms(1) s(1) by (auto simp: packed_def b_def s_def bit_simps dest: bit_imp_le_length)
  have at_b1: "bit (?dest ! (b + 1)) j = (if j < s then bit (data ! i) (8 - s + j) else j = s \<and> lsb_bit parity i)" for j
    using b s(1) by (auto simp: bit_simps bit_1_iff dest: bit_imp_le_length)
  have "lsb_bit ?dest q = stream_bit data parity q" if "q < 9 * Suc i" for q
    using that
  proof (cases rule: split_9)
    case 1
    then have "q < 8 * b + s" using s by simp
    then consider "q div 8 < b" | "q div 8 = b" "q mod 8 < s" using below_pos s(1) by blast
    then have "lsb_bit ?dest q = lsb_bit dest q"
      using b at_b by cases (auto simp: lsb_bit_def)
    with 1 assms(1) show ?thesis by (simp add: packed_def)
  next
    case (2 r)
    have st: "stream_bit data parity q = (if r < 8 then bit (data ! i) r else lsb_bit parity i)"
      using 2 by (simp add: stream_bit_def)
    have q: "q = 8 * b + (s + r)" using 2(1) s(2) by simp
    show ?thesis
    proof (cases "s + r < 8")
      case True
      then show ?thesis unfolding st using at_b by (simp add: q lsb_bit_at)
    next
      case False
      then have "lsb_bit ?dest q = bit (?dest ! (b + 1)) (s + r - 8)"
        using 2(2) s(1) by (simp add: q lsb_bit_at_next)
      then show ?thesis unfolding st at_b1 using False 2(2) s(1) by auto
    qed
  qed
  moreover have "\<not> bit (?dest ! (9 * Suc i div 8)) j" if "Suc i mod 8 \<noteq> 0" "Suc i mod 8 \<le> j" for j
  proof -
    have "Suc s < 8" "Suc i mod 8 = Suc s"
      using that(1) s(1) by (auto simp: s_def mod_Suc split: if_splits)
    then have "9 * Suc i = 8 * (b + 1) + Suc s" using s(2) by simp
    then have "9 * Suc i div 8 = b + 1" using \<open>Suc s < 8\<close> by simp
    then show ?thesis using that(2) at_b1 \<open>Suc i mod 8 = Suc s\<close> by simp
  qed
  ultimately show ?thesis by (simp add: packed_def)
qed

lemma parity_bit_read: "(drop_bit (i mod 8) (p ! (i div 8)) AND 1 \<noteq> 0) = lsb_bit p i"
  by (simp add: lsb_bit_def drop_bit_and_1)

lemma drop_bit_byte [simp]: "drop_bit 8 (v :: u8) = 0"
  by (rule bit_word_eqI) (auto simp: bit_simps dest: bit_imp_le_length)

lemma pack_step_packs:
  assumes "bit_buffer_ok buf" and "i < capacity_bytes buf" and "unat pos = 9 * i" and "9 * Suc i < 2 ^ 16"
    and "9 * i div 8 + 1 < length dest" and "packed (bb_data buf) (bb_parity buf) i dest"
  shows "\<exists>dest'. pack_step buf i (pos, dest) = Inr (pos + 9, dest') \<and> length dest' = length dest \<and>
    packed (bb_data buf) (bb_parity buf) (Suc i) dest'"
proof -
  have rds: "rd (bb_parity buf) (i div 8) = Inr (bb_parity buf ! (i div 8))" "rd (bb_data buf) i = Inr (bb_data buf ! i)"
    using assms(1,2) by (auto simp: bit_buffer_ok_def parity_buf_size_def)
  have next8: "unat (pos + 8) div 8 = 9 * i div 8 + 1"
    using assms(3,4) by (simp add: unat_word_ariths)
  have "pos + 8 + 1 = pos + 9" by simp
  then have "pack_step buf i (pos, dest) = Inr (pos + 9, dest[9 * i div 8 := (if i mod 8 = 0 then bb_data buf ! i
        else dest ! (9 * i div 8) OR push_bit (i mod 8) (bb_data buf ! i)),
      9 * i div 8 + 1 := drop_bit (8 - i mod 8) (bb_data buf ! i) OR
        push_bit (i mod 8) (of_bool (lsb_bit (bb_parity buf) i))])"
    unfolding pack_step_def prod.case Let_def assms(3) nine_pos(2) rds bind_r_simps parity_bit_read
    using assms(5) next8 by simp
  then show ?thesis
    using packed_Suc [OF assms(6,5)] by auto
qed

lemma write_with_parity_packs:
  assumes "bit_buffer_ok buf" and "9 * bit_buffer_get_size_bytes buf < 2 ^ 16"
    and "9 * bit_buffer_get_size_bytes buf div 8 + 1 \<le> length dest"
  shows "\<exists>dest'. bit_buffer_write_bytes_with_parity buf dest (length dest) =
      Inr (dest', 9 * bit_buffer_get_size_bytes buf) \<and> length dest' = length dest \<and>
    packed (bb_data buf) (bb_parity buf) (bit_buffer_get_size_bytes buf) dest'"
proof -
  let ?n = "bit_buffer_get_size_bytes buf"
  let ?P = "\<lambda>i (pos, dest'). unat pos = 9 * i \<and> length dest' = length dest \<and> packed (bb_data buf) (bb_parity buf) i dest'"
  have "\<exists>r. for_each (pack_step buf) [0..<?n] (0, dest) = Inr r \<and> ?P ?n r"
  proof (rule for_each_upto)
    show "?P 0 (0 :: u16, dest)" by (simp add: packed_def)
    fix i and r :: "u16 \<times> u8 list"
    assume i: "i < ?n" and P: "?P i r"
    obtain pos dst where r: "r = (pos, dst)" by fastforce
    have "9 * i div 8 \<le> 9 * ?n div 8" "9 * i div 8 \<noteq> 9 * ?n div 8"
      using i by (simp_all add: div_le_mono)
    moreover from this have "unat (pos + 9) = 9 * Suc i"
      using P i assms(2) by (simp add: r unat_word_ariths)
    ultimately show "\<exists>r'. pack_step buf i r = Inr r' \<and> ?P (Suc i) r'"
      using pack_step_packs [of buf i pos dst] P i assms size_bytes_le(1) [OF assms(1)] by (auto simp: r)
  qed
  moreover have "(?n * 9 + 8) div 8 \<le> length dest" using assms(3) by (simp add: mult.commute)
  ultimately show ?thesis
    by (auto simp: bit_buffer_write_bytes_with_parity_def Let_def)
qed

text \<open>What the reader has recovered after \<open>i\<close> bytes.\<close>

definition unpacked :: "u8 list \<Rightarrow> nat \<Rightarrow> BitBuffer \<Rightarrow> bool" where
  "unpacked src i buf \<longleftrightarrow> (\<forall>m < i. \<forall>r < 8. bit (bb_data buf ! m) r = lsb_bit src (9 * m + r)) \<and>
     (\<forall>m < i. lsb_bit (bb_parity buf) m = lsb_bit src (9 * m + 8)) \<and>
     (i mod 8 \<noteq> 0 \<longrightarrow> (\<forall>j \<ge> i mod 8. \<not> bit (bb_parity buf ! (i div 8)) j))"

lemma put_parity_collects:
  assumes "i div 8 < length p" and "i mod 8 \<noteq> 0 \<longrightarrow> (\<forall>j \<ge> i mod 8. \<not> bit (p ! (i div 8)) j)"
  shows "\<exists>p'. put_parity p i (i mod 8) b = Inr p' \<and> length p' = length p \<and>
    (\<forall>m \<le> i. lsb_bit p' m = (if m = i then b else lsb_bit p m)) \<and>
    (Suc i mod 8 \<noteq> 0 \<longrightarrow> (\<forall>j \<ge> Suc i mod 8. \<not> bit (p' ! (Suc i div 8)) j))"
proof -
  define v where "v = (if i mod 8 = 0 then of_bool b else p ! (i div 8) OR push_bit (i mod 8) (of_bool b))"
  have "put_parity p i (i mod 8) b = Inr (p[i div 8 := v])"
    using assms(1) by (simp add: put_parity_def v_def)
  moreover have v: "bit v j = (if j < i mod 8 then bit (p ! (i div 8)) j else j = i mod 8 \<and> b)" for j
    using assms(2) by (auto simp: v_def bit_simps bit_1_iff)
  have "lsb_bit (p[i div 8 := v]) m = (if m = i then b else lsb_bit p m)" if "m \<le> i" for m
  proof (cases "m div 8 = i div 8")
    case True
    then have "m mod 8 < i mod 8 \<or> m = i"
      using that by (metis div_mult_mod_eq le_neq_implies_less nat_add_left_cancel_less)
    with True show ?thesis using assms(1) v by (auto simp: lsb_bit_def)
  next
    case False
    then show ?thesis by (auto simp: lsb_bit_def)
  qed
  moreover have "\<not> bit (p[i div 8 := v] ! (Suc i div 8)) j" if "Suc i mod 8 \<noteq> 0" "Suc i mod 8 \<le> j" for j
  proof -
    have "Suc i div 8 = i div 8" "Suc i mod 8 = Suc (i mod 8)"
      using that(1) by (auto simp: mod_Suc div_Suc split: if_splits)
    then show ?thesis using that(2) v assms(1) by simp
  qed
  ultimately show ?thesis by auto
qed

lemma bits_across:
  fixes lo hi :: u8
  assumes "s < 8" "r < 8" "8 \<le> s + r"
  shows "bit (drop_bit s lo OR push_bit (8 - s) hi) r = bit hi (s + r - 8)"
proof -
  have n: "\<not> bit lo (s + r)" using assms(3) bit_imp_le_length [of lo "s + r"] by auto
  obtain k where k: "s + r = 8 + k" "k < 8" using assms le_Suc_ex by (metis add_less_imp_less_left add_strict_mono)
  then have e: "r = k + (8 - s)" "8 - s \<le> 8" using assms(1) by linarith+
  have "bit (push_bit (8 - s) hi) r = bit hi k" using assms(2) unfolding e(1) by (simp add: bit_simps)
  with n k(1) show ?thesis by (simp add: bit_or_iff bit_drop_bit_eq)
qed

lemma unpack_step_unpacks:
  assumes "bit_buffer_ok buf" and "i < capacity_bytes buf" and "9 * i div 8 + 1 < length src" and "unpacked src i buf"
  shows "\<exists>buf'. unpack_step src i buf = Inr buf' \<and> bit_buffer_ok buf' \<and> capacity_bytes buf' = capacity_bytes buf \<and>
    unpacked src (Suc i) buf'"
proof -
  let ?b = "9 * i div 8" and ?s = "i mod 8"
  let ?v = "drop_bit ?s (src ! ?b) OR push_bit (8 - ?s) (src ! (?b + 1))"
  have pos: "9 * i = 8 * ?b + ?s" by (rule nine_pos(1))
  have par: "bit (src ! (?b + 1)) ?s = lsb_bit src (9 * i + 8)"
    unfolding pos [symmetric] using lsb_bit_at_next [of "?s + 8" src ?b] by (simp add: pos [symmetric] add.assoc [symmetric])
  have v: "bit ?v r = lsb_bit src (9 * i + r)" if "r < 8" for r
  proof (cases "?s + r < 8")
    case True
    then have "\<not> 8 - ?s \<le> r" by linarith
    then show ?thesis using lsb_bit_at [of "?s + r" src ?b] that True
      by (simp add: pos [symmetric] add.assoc [symmetric] bit_simps)
  next
    case False
    then have "bit ?v r = bit (src ! (?b + 1)) (?s + r - 8)"
      using that by (intro bits_across) simp_all
    also have "\<dots> = lsb_bit src (8 * ?b + (?s + r))"
      using False that by (simp add: lsb_bit_at_next)
    also have "8 * ?b + (?s + r) = 9 * i + r" using pos by (metis add.assoc)
    finally show ?thesis .
  qed
  have len: "i < length (bb_data buf)" "i div 8 < length (bb_parity buf)"
    using assms(1,2) by (auto simp: bit_buffer_ok_def parity_buf_size_def)
  obtain p' where p': "put_parity (bb_parity buf) i ?s (bit (src ! (?b + 1)) ?s) = Inr p'" "length p' = length (bb_parity buf)"
      "\<forall>m \<le> i. lsb_bit p' m = (if m = i then bit (src ! (?b + 1)) ?s else lsb_bit (bb_parity buf) m)"
      "Suc i mod 8 \<noteq> 0 \<longrightarrow> (\<forall>j \<ge> Suc i mod 8. \<not> bit (p' ! (Suc i div 8)) j)"
    using put_parity_collects [OF len(2), of "bit (src ! (?b + 1)) ?s"] assms(4) unfolding unpacked_def by (elim exE conjE) (auto intro: that)
  have "unpack_step src i buf = Inr (buf\<lparr>bb_data := (bb_data buf)[i := ?v], bb_parity := p'\<rparr>)"
    using assms(3) len p'(1) by (simp add: unpack_step_def Let_def nine_pos(2) drop_bit_and_1)
  moreover have "unpacked src (Suc i) (buf\<lparr>bb_data := (bb_data buf)[i := ?v], bb_parity := p'\<rparr>)"
    using assms(4) p'(3,4) v par len(1) by (auto simp: unpacked_def less_Suc_eq nth_list_update)
  ultimately show ?thesis
    using assms(1) p'(2) by (auto simp: bit_buffer_ok_def)
qed

lemma copy_with_parity_unpacks:
  assumes "bit_buffer_ok buf" and "0 < n" and "n \<le> capacity_bytes buf" and "9 * n div 8 + 1 \<le> length src"
  shows "\<exists>buf'. bit_buffer_copy_bytes_with_parity buf src (9 * n) = Inr buf' \<and> bit_buffer_ok buf' \<and>
    size_bits buf' = 8 * n \<and> unpacked src n buf'"
proof -
  let ?P = "\<lambda>i buf'. bit_buffer_ok buf' \<and> capacity_bytes buf' = capacity_bytes buf \<and> unpacked src i buf'"
  have "\<exists>buf'. for_each (unpack_step src) [0..<n] buf = Inr buf' \<and> ?P n buf'"
  proof (rule for_each_upto)
    show "?P 0 buf" using assms(1) by (simp add: unpacked_def)
    fix i buf'
    assume i: "i < n" and P: "?P i buf'"
    have "9 * i div 8 < 9 * n div 8" using i by simp
    then show "\<exists>b. unpack_step src i buf' = Inr b \<and> ?P (Suc i) b"
      using unpack_step_unpacks [of buf' i src] P i assms(3,4) by auto
  qed
  then show ?thesis
    using assms(2,3) by (auto simp: bit_buffer_copy_bytes_with_parity_def bit_buffer_ok_def unpacked_def)
qed

text \<open>C16 Bytes with their parity bits survive the air: what \<^verbatim>\<open>bit_buffer_write_bytes_with_parity\<close> packs,
  nine bits per byte, \<^verbatim>\<open>bit_buffer_copy_bytes_with_parity\<close> unpacks into the same bytes and the same
  parity bits, whatever the destination array and the receiving buffer held before.\<close>

theorem parity_roundtrip:
  assumes "bit_buffer_ok buf" and "n = bit_buffer_get_size_bytes buf" and "0 < n" and "9 * n < 2 ^ 16"
    and "9 * n div 8 + 1 \<le> length dest" and "bit_buffer_ok buf'" and "n \<le> capacity_bytes buf'"
  shows "\<exists>stream out. bit_buffer_write_bytes_with_parity buf dest (length dest) = Inr (stream, 9 * n) \<and>
    bit_buffer_copy_bytes_with_parity buf' stream (9 * n) = Inr out \<and> bit_buffer_ok out \<and> size_bits out = 8 * n \<and>
    (\<forall>i < n. bb_data out ! i = bb_data buf ! i \<and> lsb_bit (bb_parity out) i = lsb_bit (bb_parity buf) i)"
proof -
  obtain stream where w: "bit_buffer_write_bytes_with_parity buf dest (length dest) = Inr (stream, 9 * n)"
      "length stream = length dest" "packed (bb_data buf) (bb_parity buf) n stream"
    using write_with_parity_packs [of buf dest] assms by auto
  obtain out where c: "bit_buffer_copy_bytes_with_parity buf' stream (9 * n) = Inr out" "bit_buffer_ok out"
      "size_bits out = 8 * n" "unpacked stream n out"
    using copy_with_parity_unpacks [of buf' n stream] assms w(2) by auto
  have s: "lsb_bit stream (9 * i + r) = (if r < 8 then bit (bb_data buf ! i) r else lsb_bit (bb_parity buf) i)"
    if "i < n" "r < 9" for i r
    using w(3) that by (simp add: packed_def stream_bit_def)
  have "bb_data out ! i = bb_data buf ! i" if "i < n" for i
    by (rule bit_word_eqI) (use c(4) s that in \<open>auto simp: unpacked_def\<close>)
  moreover have "lsb_bit (bb_parity out) i = lsb_bit (bb_parity buf) i" if "i < n" for i
    using c(4) s [of i 8] that by (simp add: unpacked_def)
  ultimately show ?thesis using w(1) c by blast
qed

lemma parity_roundtrip_witness:
  "\<exists>stream out. bit_buffer_write_bytes_with_parity
      \<lparr>bb_data = [0x93, 0x20], bb_parity = [2], capacity_bytes = 2, size_bits = 16\<rparr> [9, 9, 9, 9] (length [9, 9, 9, 9 :: u8]) =
      Inr (stream, 9 * 2) \<and>
    bit_buffer_copy_bytes_with_parity \<lparr>bb_data = [1, 2, 3], bb_parity = [255], capacity_bytes = 3, size_bits = 0\<rparr> stream (9 * 2) =
      Inr out \<and> bit_buffer_ok out \<and> size_bits out = 8 * 2 \<and>
    (\<forall>i < 2. bb_data out ! i = [0x93, 0x20] ! i \<and> lsb_bit (bb_parity out) i = lsb_bit [2] i)"
  using parity_roundtrip [of "\<lparr>bb_data = [0x93, 0x20], bb_parity = [2], capacity_bytes = 2, size_bits = 16\<rparr>" 2 "[9, 9, 9, 9]"
      "\<lparr>bb_data = [1, 2, 3], bb_parity = [255], capacity_bytes = 3, size_bits = 0\<rparr>"]
  by (simp add: bit_buffer_ok_def parity_buf_size_def bit_buffer_get_size_bytes_def)

end
