(* ===== verification/Nfc_Crc.thy ===== *)
theory Nfc_Crc
  imports Bit_Buffer SubGhz_Blocks
begin

text \<open>
  The checksums of the NFC stack: byte parity (\<^verbatim>\<open>lib/nfc/helpers/nfc_util.c\<close>) and the CRCs that close
  the frames of ISO 14443, ISO 13239 (ISO 15693, PicoPass) and FeliCa
  (\<^verbatim>\<open>iso14443_crc.c\<close>, \<^verbatim>\<open>iso13239_crc.c\<close>, \<^verbatim>\<open>felica_crc.c\<close>). The three modules append, check and trim in
  the same way; the locale \<open>frame_crc\<close> states what they need of the calculation.
\<close>

unbundle bit_operations_syntax

section \<open>Byte parity\<close>

definition nfc_util_odd_byte_parity :: "u8 list" where
  "nfc_util_odd_byte_parity = [
    1, 0, 0, 1, 0, 1, 1, 0, 0, 1, 1, 0, 1, 0, 0, 1, 0, 1, 1, 0, 1, 0, 0, 1, 1, 0, 0, 1, 0,
    1, 1, 0, 0, 1, 1, 0, 1, 0, 0, 1, 1, 0, 0, 1, 0, 1, 1, 0, 1, 0, 0, 1, 0, 1, 1, 0, 0, 1,
    1, 0, 1, 0, 0, 1, 0, 1, 1, 0, 1, 0, 0, 1, 1, 0, 0, 1, 0, 1, 1, 0, 1, 0, 0, 1, 0, 1, 1,
    0, 0, 1, 1, 0, 1, 0, 0, 1, 1, 0, 0, 1, 0, 1, 1, 0, 0, 1, 1, 0, 1, 0, 0, 1, 0, 1, 1, 0,
    1, 0, 0, 1, 1, 0, 0, 1, 0, 1, 1, 0, 0, 1, 1, 0, 1, 0, 0, 1, 1, 0, 0, 1, 0, 1, 1, 0, 1,
    0, 0, 1, 0, 1, 1, 0, 0, 1, 1, 0, 1, 0, 0, 1, 1, 0, 0, 1, 0, 1, 1, 0, 0, 1, 1, 0, 1, 0,
    0, 1, 0, 1, 1, 0, 1, 0, 0, 1, 1, 0, 0, 1, 0, 1, 1, 0, 1, 0, 0, 1, 0, 1, 1, 0, 0, 1, 1,
    0, 1, 0, 0, 1, 0, 1, 1, 0, 1, 0, 0, 1, 1, 0, 0, 1, 0, 1, 1, 0, 0, 1, 1, 0, 1, 0, 0, 1,
    1, 0, 0, 1, 0, 1, 1, 0, 1, 0, 0, 1, 0, 1, 1, 0, 0, 1, 1, 0, 1, 0, 0, 1]"

definition nfc_util_odd_parity8 :: "u8 \<Rightarrow> u8" where
  "nfc_util_odd_parity8 data = nfc_util_odd_byte_parity ! unat data"

definition nfc_util_even_parity8 :: "u8 \<Rightarrow> u8" where
  "nfc_util_even_parity8 data = of_bool (nfc_util_odd_byte_parity ! unat data = 0)"

text \<open>\<^verbatim>\<open>__builtin_parity\<close> is the sum of the bits of the word modulo 2.\<close>

definition nfc_util_even_parity32 :: "u32 \<Rightarrow> u8" where
  "nfc_util_even_parity32 data = of_bool (foldl (\<lambda>a i. a \<noteq> bit data i) False [0..<32])"

text \<open>The packed parity of an array, most significant bit first: the loop keeps the byte in
  progress, its number of bits and the position in the destination.\<close>

definition odd_parity_step :: "u8 \<Rightarrow> u8 list \<times> nat \<times> u8 \<times> nat \<Rightarrow> fault + u8 list \<times> nat \<times> u8 \<times> nat" where
  "odd_parity_step src = (\<lambda>(dst, pos, parity, b).
     let parity = parity OR push_bit (7 - b) (nfc_util_odd_parity8 src); b = b + 1
     in if b = 8 then bind_r (wr dst pos parity) (\<lambda>dst. Inr (dst, pos + 1, 0, 0))
        else Inr (dst, pos, parity, b))"

definition nfc_util_odd_parity :: "u8 list \<Rightarrow> u8 list \<Rightarrow> u8 \<Rightarrow> fault + u8 list" where
  "nfc_util_odd_parity src dst len =
     bind_r (for_each (\<lambda>i st. bind_r (rd src i) (\<lambda>v. odd_parity_step v st)) [0..<unat len] (dst, 0, 0, 0))
       (\<lambda>(dst, pos, parity, b). if b \<noteq> 0 then wr dst pos parity else Inr dst)"

definition byte_parity :: "u8 \<Rightarrow> bool" where
  "byte_parity b = foldl (\<lambda>a i. a \<noteq> bit b i) False [0..<8]"

lemma byte_parity_table:
  "list_all (\<lambda>n. nfc_util_odd_byte_parity ! n = of_bool (\<not> byte_parity (of_nat n))) [0..<256]"
  by code_simp

lemma odd_parity8: "nfc_util_odd_parity8 b = of_bool (\<not> byte_parity b)"
proof -
  have "unat b < 256" using unsigned_less [of b, where ?'a = nat] by simp
  moreover have "\<forall>n < 256. nfc_util_odd_byte_parity ! n = of_bool (\<not> byte_parity (of_nat n))"
    using byte_parity_table by (simp add: list_all_iff)
  ultimately show ?thesis by (simp add: nfc_util_odd_parity8_def)
qed

section \<open>Checksums of frames\<close>

datatype Iso14443CrcType = Iso14443CrcTypeA | Iso14443CrcTypeB

datatype Iso13239CrcType = Iso13239CrcTypeDefault | Iso13239CrcTypePicopass

definition iso14443_update :: "u16 \<Rightarrow> u8 \<Rightarrow> u16" where
  "iso14443_update crc data =
     (let byte = data XOR ucast (crc AND 0xFF); byte = byte XOR push_bit 4 byte
      in drop_bit 8 crc XOR push_bit 8 (ucast byte) XOR push_bit 3 (ucast byte) XOR ucast (drop_bit 4 byte))"

definition iso14443_crc_calculate :: "Iso14443CrcType \<Rightarrow> u8 list \<Rightarrow> nat \<Rightarrow> fault + u16" where
  "iso14443_crc_calculate type data data_size =
     bind_r (for_each (\<lambda>i crc. bind_r (rd data i) (\<lambda>b. Inr (iso14443_update crc b))) [0..<data_size]
         (case type of Iso14443CrcTypeA \<Rightarrow> 0x6363 | Iso14443CrcTypeB \<Rightarrow> 0xFFFF))
       (\<lambda>crc. Inr (if type = Iso14443CrcTypeA then crc else NOT crc))"

definition iso13239_update :: "u16 \<Rightarrow> u8 \<Rightarrow> u16" where
  "iso13239_update crc data =
     foldl (\<lambda>crc j. if crc AND 1 \<noteq> 0 then drop_bit 1 crc XOR 0x8408 else drop_bit 1 crc) (crc XOR ucast data) [0..<8 :: nat]"

definition iso13239_crc_calculate :: "Iso13239CrcType \<Rightarrow> u8 list \<Rightarrow> nat \<Rightarrow> fault + u16" where
  "iso13239_crc_calculate type data data_size =
     bind_r (for_each (\<lambda>i crc. bind_r (rd data i) (\<lambda>b. Inr (iso13239_update crc b))) [0..<data_size]
         (case type of Iso13239CrcTypeDefault \<Rightarrow> 0xFFFF | Iso13239CrcTypePicopass \<Rightarrow> 0xE012))
       (\<lambda>crc. Inr (if type = Iso13239CrcTypePicopass then crc else NOT crc))"

definition felica_update :: "u16 \<Rightarrow> u8 \<Rightarrow> u16" where
  "felica_update crc data =
     foldl (\<lambda>crc j. if crc AND 0x8000 \<noteq> 0 then push_bit 1 crc XOR 0x1021 else push_bit 1 crc)
       (crc XOR push_bit 8 (ucast data)) [0..<8 :: nat]"

definition felica_crc_calculate :: "u8 list \<Rightarrow> nat \<Rightarrow> fault + u16" where
  "felica_crc_calculate data data_size =
     bind_r (for_each (\<lambda>i crc. bind_r (rd data i) (\<lambda>b. Inr (felica_update crc b))) [0..<data_size] 0)
       (\<lambda>crc. Inr (push_bit 8 crc OR drop_bit 8 crc))"

text \<open>The part the modules share: the checksum travels as the two bytes it has in memory.\<close>

definition crc_append :: "(u8 list \<Rightarrow> nat \<Rightarrow> fault + u16) \<Rightarrow> BitBuffer \<Rightarrow> fault + BitBuffer" where
  "crc_append calculate buf =
     bind_r (calculate (bb_data buf) (bit_buffer_get_size_bytes buf)) (\<lambda>crc.
       bit_buffer_append_bytes buf [ucast crc, ucast (drop_bit 8 crc)] 2)"

definition crc_check :: "(u8 list \<Rightarrow> nat \<Rightarrow> fault + u16) \<Rightarrow> BitBuffer \<Rightarrow> fault + bool" where
  "crc_check calculate buf =
     (let data_size = bit_buffer_get_size_bytes buf
      in if data_size \<le> 2 then Inr False
         else bind_r (bit_buffer_write_bytes_mid buf [0, 0] (data_size - 2) 2) (\<lambda>crc_received.
              bind_r (calculate (bb_data buf) (data_size - 2)) (\<lambda>crc_calc.
                Inr (crc_calc = ucast (crc_received ! 0) OR push_bit 8 (ucast (crc_received ! 1))))))"

definition iso14443_crc_append :: "Iso14443CrcType \<Rightarrow> BitBuffer \<Rightarrow> fault + BitBuffer" where
  "iso14443_crc_append type buf = crc_append (iso14443_crc_calculate type) buf"

definition iso14443_crc_check :: "Iso14443CrcType \<Rightarrow> BitBuffer \<Rightarrow> fault + bool" where
  "iso14443_crc_check type buf = crc_check (iso14443_crc_calculate type) buf"

definition iso14443_crc_trim :: "BitBuffer \<Rightarrow> fault + BitBuffer" where
  "iso14443_crc_trim buf =
     furi_check (bit_buffer_get_size_bytes buf > 2) (bit_buffer_set_size_bytes buf (bit_buffer_get_size_bytes buf - 2))"

definition iso13239_crc_append :: "Iso13239CrcType \<Rightarrow> BitBuffer \<Rightarrow> fault + BitBuffer" where
  "iso13239_crc_append type buf = crc_append (iso13239_crc_calculate type) buf"

definition iso13239_crc_check :: "Iso13239CrcType \<Rightarrow> BitBuffer \<Rightarrow> fault + bool" where
  "iso13239_crc_check type buf = crc_check (iso13239_crc_calculate type) buf"

text \<open>Here the size is only asserted, which release builds drop: it may wrap below zero.\<close>

definition trim_size :: "nat \<Rightarrow> nat" where
  "trim_size n = (n + 2 ^ 32 - 2) mod 2 ^ 32"

definition iso13239_crc_trim :: "BitBuffer \<Rightarrow> fault + BitBuffer" where
  "iso13239_crc_trim buf = bit_buffer_set_size_bytes buf (trim_size (bit_buffer_get_size_bytes buf))"

definition felica_crc_append :: "BitBuffer \<Rightarrow> fault + BitBuffer" where
  "felica_crc_append buf = crc_append felica_crc_calculate buf"

definition felica_crc_check :: "BitBuffer \<Rightarrow> fault + bool" where
  "felica_crc_check buf = crc_check felica_crc_calculate buf"

definition felica_crc_trim :: "BitBuffer \<Rightarrow> fault + BitBuffer" where
  "felica_crc_trim buf = bit_buffer_set_size_bytes buf (trim_size (bit_buffer_get_size_bytes buf))"

section \<open>The calculations are those of the common library\<close>

lemma funpow_foldl: "foldl (\<lambda>x j. f x) a [0..<n] = (f ^^ n) a"
  by (induction n) simp_all

lemma iso13239_update_crc_shr: "iso13239_update crc data = (crc_shr 0x8408 ^^ 8) (crc XOR ucast data)"
proof -
  have "(\<lambda>crc j. if crc AND 1 \<noteq> 0 then drop_bit 1 crc XOR 0x8408 else drop_bit 1 crc) =
      (\<lambda>(x :: u16) (j :: nat). crc_shr 0x8408 x)"
    by (intro ext) (simp add: crc_shr_def word_and_1_of_bool)
  then show ?thesis
    unfolding iso13239_update_def by (simp only: funpow_foldl)
qed

lemma top_bit: "(crc AND 0x8000 \<noteq> 0) = bit (crc :: u16) 15"
  using bit_iff_and_push_bit_not_eq_0 [of crc 15] by simp

lemma felica_update_crc_shl: "felica_update crc data = (crc_shl 0x1021 ^^ 8) (crc XOR push_bit 8 (ucast data))"
proof -
  have "(\<lambda>crc j. if crc AND 0x8000 \<noteq> 0 then push_bit 1 crc XOR 0x1021 else push_bit 1 crc) =
      (\<lambda>(x :: u16) (j :: nat). crc_shl 0x1021 x)"
    unfolding top_bit by (intro ext) (simp add: crc_shl_def)
  then show ?thesis
    unfolding felica_update_def by (simp only: funpow_foldl)
qed

text \<open>The shift of a checksum is linear, and the upper byte moves down unchanged.\<close>

lemma crc_shr_xor: "crc_shr p (x XOR y) = crc_shr p x XOR crc_shr p (y :: u16)"
  by (rule bit_word_eqI) (auto simp: crc_shr_def bit_simps)

lemma crc_shr_pow_xor: "(crc_shr p ^^ n) (x XOR y) = (crc_shr p ^^ n) x XOR (crc_shr p ^^ n) (y :: u16)"
  by (induction n) (simp_all add: crc_shr_xor)

lemma crc_shr_pow_high: "(crc_shr p ^^ 8) (push_bit 8 (drop_bit 8 (c :: u16))) = drop_bit 8 c"
proof -
  have "(crc_shr p ^^ 8) (push_bit 8 (drop_bit 8 c)) = drop_bit 8 (push_bit 8 (drop_bit 8 c))"
    by (rule crc_shr_no_carry) (auto simp: bit_simps)
  also have "\<dots> = drop_bit 8 c"
    by (rule bit_word_eqI) (auto simp: bit_simps dest: bit_imp_le_length)
  finally show ?thesis .
qed

lemma xor_linear_eqI:
  fixes f g :: "u8 \<Rightarrow> u16"
  assumes "\<And>x y. f (x XOR y) = f x XOR f y" and "\<And>x y. g (x XOR y) = g x XOR g y"
    and "\<And>i. i < 8 \<Longrightarrow> f (push_bit i 1) = g (push_bit i 1)"
  shows "f b = g b"
proof -
  have zero: "f 0 = 0" "g 0 = 0"
    using assms(1) [of 0 0] assms(2) [of 0 0] by simp_all
  have "n \<le> 8 \<Longrightarrow> f (take_bit n b) = g (take_bit n b)" for n
  proof (induction n)
    case 0
    then show ?case by (simp add: zero)
  next
    case (Suc n)
    have "take_bit (Suc n) b = take_bit n b XOR (if bit b n then push_bit n 1 else 0)"
      by (rule bit_word_eqI) (auto simp: bit_simps less_Suc_eq)
    with Suc assms(3) [of n] show ?case by (simp add: assms(1,2) zero)
  qed
  moreover have "take_bit 8 b = b" by (rule bit_word_eqI) (simp add: bit_simps)
  ultimately show ?thesis by (metis order_refl)
qed

text \<open>The byte-wise update of ISO 14443 does eight steps of the bit-wise one at once.\<close>

definition iso14443_fold :: "u8 \<Rightarrow> u16" where
  "iso14443_fold b = (let byte = b XOR push_bit 4 b
     in push_bit 8 (ucast byte) XOR push_bit 3 (ucast byte) XOR ucast (drop_bit 4 byte))"

lemma ucast_xor: "ucast (x XOR y) = (ucast x XOR ucast y :: u16)" for x y :: u8
  by (rule bit_word_eqI) (auto simp: bit_simps)

lemma funpow_8: "(f ^^ 8) x = f (f (f (f (f (f (f (f x)))))))"
  by (simp add: eval_nat_numeral)

lemma iso14443_fold_basis:
  "list_all (\<lambda>i. iso14443_fold (push_bit i 1) = (crc_shr 0x8408 ^^ 8) (ucast (push_bit i 1 :: u8))) [0..<8]"
  by (simp add: upt_rec_numeral upt_rec iso14443_fold_def funpow_8 crc_shr_def Let_def)

lemma iso14443_fold_crc_shr: "iso14443_fold b = (crc_shr 0x8408 ^^ 8) (ucast b)"
proof (rule xor_linear_eqI)
  show "iso14443_fold (x XOR y) = iso14443_fold x XOR iso14443_fold y" for x y
    by (simp add: iso14443_fold_def Let_def push_bit_xor drop_bit_xor ucast_xor xor.assoc xor.left_commute xor.commute)
  show "(crc_shr 0x8408 ^^ 8) (ucast (x XOR y)) = (crc_shr 0x8408 ^^ 8) (ucast x) XOR (crc_shr 0x8408 ^^ 8) (ucast y :: u16)"
    for x y :: u8
    by (simp only: ucast_xor crc_shr_pow_xor)
  show "i < 8 \<Longrightarrow> iso14443_fold (push_bit i 1) = (crc_shr 0x8408 ^^ 8) (ucast (push_bit i 1 :: u8))" for i
    using iso14443_fold_basis by (simp add: list_all_iff)
qed

lemma iso14443_update_crc_shr: "iso14443_update crc data = (crc_shr 0x8408 ^^ 8) (crc XOR ucast data)"
proof -
  define b where "b = data XOR ucast (crc AND 0xFF)"
  have c: "crc XOR ucast data = push_bit 8 (drop_bit 8 crc) XOR ucast b"
    by (rule bit_word_eqI) (auto simp: b_def and_masks bit_simps dest: bit_imp_le_length)
  have "(crc_shr 0x8408 ^^ 8) (crc XOR ucast data) = drop_bit 8 crc XOR (crc_shr 0x8408 ^^ 8) (ucast b)"
    unfolding c crc_shr_pow_xor crc_shr_pow_high ..
  then show ?thesis
    unfolding iso14443_fold_crc_shr [symmetric]
    by (simp add: iso14443_update_def iso14443_fold_def Let_def b_def xor.assoc)
qed


lemma for_each_read:
  assumes "n \<le> length data"
  shows "for_each (\<lambda>i crc. bind_r (rd data i) (\<lambda>b. Inr (f crc b))) [0..<n] a = Inr (foldl f a (take n data))"
proof -
  have "\<exists>s'. for_each (\<lambda>i crc. bind_r (rd data i) (\<lambda>b. Inr (f crc b))) [0..<n] a = Inr s' \<and> s' = foldl f a (take n data)"
    by (rule for_each_upto) (use assms in \<open>auto simp: take_Suc_conv_app_nth\<close>)
  then show ?thesis by simp
qed

text \<open>The checksums of the NFC stack are those of the CRC library of the Sub-GHz stack: the unrolled
  byte-wise update of ISO 14443 and the bit-wise one of ISO 13239 both compute the reflected CRC
  with polynomial 0x8408, and FeliCa the CRC with polynomial 0x1021 with its bytes swapped. None of
  them reads beyond the given size.\<close>

theorem nfc_crcs_agree:
  assumes "n \<le> length data"
  shows "iso14443_crc_calculate Iso14443CrcTypeA data n = Inr (subghz_protocol_blocks_crc16lsb (take n data) 0x8408 0x6363) \<and>
    iso14443_crc_calculate Iso14443CrcTypeB data n = Inr (NOT (subghz_protocol_blocks_crc16lsb (take n data) 0x8408 0xFFFF)) \<and>
    iso13239_crc_calculate Iso13239CrcTypeDefault data n = Inr (NOT (subghz_protocol_blocks_crc16lsb (take n data) 0x8408 0xFFFF)) \<and>
    iso13239_crc_calculate Iso13239CrcTypePicopass data n = Inr (subghz_protocol_blocks_crc16lsb (take n data) 0x8408 0xE012) \<and>
    felica_crc_calculate data n = Inr (let crc = subghz_protocol_blocks_crc16 (take n data) 0x1021 0 in push_bit 8 crc OR drop_bit 8 crc)"
  unfolding iso14443_crc_calculate_def iso13239_crc_calculate_def felica_crc_calculate_def for_each_read [OF assms]
    iso14443_update_crc_shr iso13239_update_crc_shr felica_update_crc_shl
    subghz_protocol_blocks_crc16lsb_def subghz_protocol_blocks_crc16_def
  by (simp add: Let_def)

lemma nfc_crcs_agree_witness:
  "iso14443_crc_calculate Iso14443CrcTypeA [0x60, 0x30] 2 = Inr (subghz_protocol_blocks_crc16lsb (take 2 [0x60, 0x30]) 0x8408 0x6363)"
  using nfc_crcs_agree [of 2 "[0x60, 0x30]"] by simp

section \<open>Frames with a checksum\<close>

text \<open>What the frame functions rely on: the calculation succeeds on the bytes in use and depends on
  nothing else.\<close>

locale frame_crc =
  fixes calculate :: "u8 list \<Rightarrow> nat \<Rightarrow> fault + u16" and digest :: "u8 list \<Rightarrow> u16"
  assumes calculate: "n \<le> length data \<Longrightarrow> calculate data n = Inr (digest (take n data))"
begin

lemma append_frame:
  assumes "bit_buffer_ok buf" and "size_bits buf = 8 * n" and "n + 2 \<le> capacity_bytes buf"
  shows "\<exists>buf'. crc_append calculate buf = Inr buf' \<and> bit_buffer_ok buf' \<and> size_bits buf' = 8 * (n + 2) \<and>
    capacity_bytes buf' = capacity_bytes buf \<and>
    take (n + 2) (bb_data buf') = take n (bb_data buf) @
      [ucast (digest (take n (bb_data buf))), ucast (drop_bit 8 (digest (take n (bb_data buf))))]"
proof -
  have n: "bit_buffer_get_size_bytes buf = n" using assms(2) by (simp add: bit_buffer_get_size_bytes_def)
  have len: "length (bb_data buf) = capacity_bytes buf" using assms(1) by (simp add: bit_buffer_ok_def)
  show ?thesis
    using assms len calculate [of n "bb_data buf"]
    by (simp add: crc_append_def n bit_buffer_append_bytes_def memcpy_Inr bit_buffer_ok_def)
qed

lemma le16_bytes: "ucast (ucast w :: u8) OR push_bit 8 (ucast (ucast (drop_bit 8 w) :: u8)) = (w :: u16)"
  by (rule bit_word_eqI) (auto simp: bit_simps)

lemma check_frame:
  assumes "bit_buffer_ok buf" and "bit_buffer_get_size_bytes buf = n + 2" and "0 < n"
  shows "crc_check calculate buf = Inr (digest (take n (bb_data buf)) =
    ucast (bb_data buf ! n) OR push_bit 8 (ucast (bb_data buf ! (n + 1))))"
proof -
  have len: "n + 2 \<le> length (bb_data buf)"
    using size_bytes_le(1) [OF assms(1)] assms(1,2) by (simp add: bit_buffer_ok_def)
  then show ?thesis
    using assms(2,3) calculate [of n "bb_data buf"]
    by (simp add: crc_check_def Let_def bit_buffer_write_bytes_mid_def memcpy_Inr)
qed

text \<open>A frame that was closed with its checksum passes the check, and the payload is in front of it.\<close>

theorem append_check:
  assumes "bit_buffer_ok buf" and "size_bits buf = 8 * n" and "0 < n" and "n + 2 \<le> capacity_bytes buf"
  shows "\<exists>buf'. crc_append calculate buf = Inr buf' \<and> crc_check calculate buf' = Inr True \<and>
    bit_buffer_ok buf' \<and> size_bits buf' = 8 * (n + 2) \<and> capacity_bytes buf' = capacity_bytes buf \<and>
    take n (bb_data buf') = take n (bb_data buf)"
proof -
  obtain buf' where b: "crc_append calculate buf = Inr buf'" "bit_buffer_ok buf'" "size_bits buf' = 8 * (n + 2)"
      "capacity_bytes buf' = capacity_bytes buf"
      "take (n + 2) (bb_data buf') = take n (bb_data buf) @
        [ucast (digest (take n (bb_data buf))), ucast (drop_bit 8 (digest (take n (bb_data buf))))]"
    using append_frame [OF assms(1,2,4)] by blast
  have len: "length (take n (bb_data buf)) = n" using assms(1,4) by (simp add: bit_buffer_ok_def)
  have t: "take n (bb_data buf') = take n (bb_data buf)"
    using arg_cong [OF b(5), of "take n"] len by simp
  have "bb_data buf' ! n = ucast (digest (take n (bb_data buf)))"
       "bb_data buf' ! (n + 1) = ucast (drop_bit 8 (digest (take n (bb_data buf))))"
    using arg_cong [OF b(5), of "\<lambda>l. l ! n"] arg_cong [OF b(5), of "\<lambda>l. l ! (n + 1)"] len by (simp_all add: nth_append)
  moreover have "bit_buffer_get_size_bytes buf' = n + 2" using b(3) by (simp add: bit_buffer_get_size_bytes_def)
  ultimately have "crc_check calculate buf' = Inr True"
    using check_frame [OF b(2)] assms(3) t le16_bytes by simp
  with b t show ?thesis by blast
qed

end

text \<open>The three modules keep the contract.\<close>

interpretation iso14443: frame_crc "iso14443_crc_calculate type"
  "\<lambda>data. let crc = foldl iso14443_update (case type of Iso14443CrcTypeA \<Rightarrow> 0x6363 | Iso14443CrcTypeB \<Rightarrow> 0xFFFF) data
    in if type = Iso14443CrcTypeA then crc else NOT crc" for type
  by unfold_locales (simp add: iso14443_crc_calculate_def for_each_read Let_def)

interpretation iso13239: frame_crc "iso13239_crc_calculate type"
  "\<lambda>data. let crc = foldl iso13239_update (case type of Iso13239CrcTypeDefault \<Rightarrow> 0xFFFF | Iso13239CrcTypePicopass \<Rightarrow> 0xE012) data
    in if type = Iso13239CrcTypePicopass then crc else NOT crc" for type
  by unfold_locales (simp add: iso13239_crc_calculate_def for_each_read Let_def)

interpretation felica: frame_crc felica_crc_calculate
  "\<lambda>data. let crc = foldl felica_update 0 data in push_bit 8 crc OR drop_bit 8 crc"
  by unfold_locales (simp add: felica_crc_calculate_def for_each_read Let_def)

lemma trimmed:
  assumes "bit_buffer_ok buf" and "size_bits buf = 8 * (n + 2)" and "n + 2 < 2 ^ 32"
  shows "bit_buffer_set_size_bytes buf (bit_buffer_get_size_bytes buf - 2) = Inr (buf\<lparr>size_bits := 8 * n\<rparr>)"
    and "trim_size (bit_buffer_get_size_bytes buf) = bit_buffer_get_size_bytes buf - 2"
proof -
  have s: "bit_buffer_get_size_bytes buf = n + 2" using assms(2) by (simp add: bit_buffer_get_size_bytes_def)
  then show "bit_buffer_set_size_bytes buf (bit_buffer_get_size_bytes buf - 2) = Inr (buf\<lparr>size_bits := 8 * n\<rparr>)"
    using size_bytes_le(1) [OF assms(1)] by (simp add: bit_buffer_set_size_bytes_def mult.commute)
  show "trim_size (bit_buffer_get_size_bytes buf) = bit_buffer_get_size_bytes buf - 2"
    unfolding s trim_size_def using assms(3) by simp
qed

text \<open>C26 A whole number of bytes closed with the checksum of any of the three NFC protocols passes the
  check of that protocol, and trimming the checksum gives the original frame back.\<close>

theorem nfc_frame_roundtrip:
  assumes "bit_buffer_ok buf" and "size_bits buf = 8 * n" and "0 < n" and "n + 2 \<le> capacity_bytes buf"
    and "capacity_bytes buf < 2 ^ 28"
    and "(close, verify, strip) \<in> {(iso14443_crc_append t, iso14443_crc_check t, iso14443_crc_trim),
      (iso13239_crc_append t', iso13239_crc_check t', iso13239_crc_trim),
      (felica_crc_append, felica_crc_check, felica_crc_trim)}"
  shows "\<exists>closed out. close buf = Inr closed \<and> verify closed = Inr True \<and> strip closed = Inr out \<and>
    size_bits out = size_bits buf \<and> take n (bb_data out) = take n (bb_data buf)"
proof -
  have trim: "iso14443_crc_trim closed = Inr (closed\<lparr>size_bits := 8 * n\<rparr>)"
      "iso13239_crc_trim closed = Inr (closed\<lparr>size_bits := 8 * n\<rparr>)" "felica_crc_trim closed = Inr (closed\<lparr>size_bits := 8 * n\<rparr>)"
    if "bit_buffer_ok closed" "size_bits closed = 8 * (n + 2)" "capacity_bytes closed = capacity_bytes buf" for closed
  proof -
    have "n + 2 < 2 ^ 32" using assms(4,5) by simp
    note t = trimmed [OF that(1,2) this]
    show "iso13239_crc_trim closed = Inr (closed\<lparr>size_bits := 8 * n\<rparr>)" "felica_crc_trim closed = Inr (closed\<lparr>size_bits := 8 * n\<rparr>)"
      using t by (simp_all add: iso13239_crc_trim_def felica_crc_trim_def)
    have "bit_buffer_get_size_bytes closed > 2" using that(2) assms(3) by (simp add: bit_buffer_get_size_bytes_def)
    with t show "iso14443_crc_trim closed = Inr (closed\<lparr>size_bits := 8 * n\<rparr>)"
      by (simp add: iso14443_crc_trim_def)
  qed
  have ok: "\<exists>closed out. close buf = Inr closed \<and> verify closed = Inr True \<and> strip closed = Inr out \<and>
      size_bits out = size_bits buf \<and> take n (bb_data out) = take n (bb_data buf)"
    if "\<exists>closed. close buf = Inr closed \<and> verify closed = Inr True \<and> bit_buffer_ok closed \<and> size_bits closed = 8 * (n + 2) \<and>
      capacity_bytes closed = capacity_bytes buf \<and> take n (bb_data closed) = take n (bb_data buf)"
    using that trim assms(2,6) by fastforce
  show ?thesis
    using assms(6) iso14443.append_check [OF assms(1-4), of t] iso13239.append_check [OF assms(1-4), of t'] felica.append_check [OF assms(1-4)]
    by (intro ok) (auto simp: iso14443_crc_append_def iso14443_crc_check_def iso13239_crc_append_def iso13239_crc_check_def
        felica_crc_append_def felica_crc_check_def)
qed

lemma nfc_frame_roundtrip_witness:
  "\<exists>closed out. iso14443_crc_append Iso14443CrcTypeA \<lparr>bb_data = [0x50, 0, 0, 0], bb_parity = [0], capacity_bytes = 4, size_bits = 16\<rparr> = Inr closed \<and>
    iso14443_crc_check Iso14443CrcTypeA closed = Inr True \<and> iso14443_crc_trim closed = Inr out \<and> size_bits out = 16 \<and>
    take 2 (bb_data out) = [0x50, 0]"
  using nfc_frame_roundtrip [of "\<lparr>bb_data = [0x50, 0, 0, 0], bb_parity = [0], capacity_bytes = 4, size_bits = 16\<rparr>" 2
      "iso14443_crc_append Iso14443CrcTypeA" "iso14443_crc_check Iso14443CrcTypeA" iso14443_crc_trim Iso14443CrcTypeA]
  by (simp add: bit_buffer_ok_def parity_buf_size_def)

end
