(* ===== verification/Nfc_Crypto1.thy ===== *)
theory Nfc_Crypto1
  imports Nfc_Crc Bit_Lib
begin

text \<open>
  The stream cipher of MIFARE Classic, \<^verbatim>\<open>lib/nfc/helpers/crypto1.c\<close>: the two halves of the shift
  register, the filter, the generators of key stream bits, bytes and words, the nonce generator,
  encryption and decryption of frames and the rollback of the register.
\<close>

unbundle bit_operations_syntax

section \<open>Cipher\<close>

record Crypto1 =
  c1_odd :: u32
  c1_even :: u32

definition furi_bit :: "'a::len word \<Rightarrow> nat \<Rightarrow> bool" where
  "furi_bit x n = (drop_bit n x AND 1 \<noteq> 0)"

definition crypto1_reset :: "Crypto1 \<Rightarrow> Crypto1" where
  "crypto1_reset c = c\<lparr>c1_even := 0, c1_odd := 0\<rparr>"

text \<open>The key is loaded from bit 47 down, two bits per pass; the bytes are in reversed bit order.\<close>

definition crypto1_init :: "Crypto1 \<Rightarrow> u64 \<Rightarrow> Crypto1" where
  "crypto1_init c key =
     foldl (\<lambda>c k. let i = 47 - 2 * k
         in c\<lparr>c1_odd := push_bit 1 (c1_odd c) OR of_bool (furi_bit key (unat (of_nat (i - 1) XOR 7 :: u32))),
             c1_even := push_bit 1 (c1_even c) OR of_bool (furi_bit key (unat (of_nat i XOR 7 :: u32)))\<rparr>)
       (c\<lparr>c1_even := 0, c1_odd := 0\<rparr>) [0..<24]"

definition crypto1_filter :: "u32 \<Rightarrow> bool" where
  "crypto1_filter input =
     (let out = drop_bit (unat (input AND 0xf)) 0xf22c0 AND (16 :: u32);
          out = out OR (drop_bit (unat (drop_bit 4 input AND 0xf)) 0x6c9c0 AND 8);
          out = out OR (drop_bit (unat (drop_bit 8 input AND 0xf)) 0x3c8b0 AND 4);
          out = out OR (drop_bit (unat (drop_bit 12 input AND 0xf)) 0x1e458 AND 2);
          out = out OR (drop_bit (unat (drop_bit 16 input AND 0xf)) 0x0d938 AND 1)
      in furi_bit (0xEC57E80A :: u32) (unat out))"

definition LF_POLY_ODD :: u32 where
  "LF_POLY_ODD = 0x29CE5C"

definition LF_POLY_EVEN :: u32 where
  "LF_POLY_EVEN = 0x870804"

definition crypto1_bit :: "Crypto1 \<Rightarrow> bool \<Rightarrow> bool \<Rightarrow> bool \<times> Crypto1" where
  "crypto1_bit c input is_encrypted =
     (let out = crypto1_filter (c1_odd c);
          feed = of_bool (out \<and> is_encrypted);
          feed = feed XOR of_bool input;
          feed = feed XOR (LF_POLY_ODD AND c1_odd c);
          feed = feed XOR (LF_POLY_EVEN AND c1_even c);
          even = push_bit 1 (c1_even c) OR ucast (nfc_util_even_parity32 feed)
      in (out, \<lparr>c1_odd = even, c1_even = c1_odd c\<rparr>))"

definition crypto1_byte :: "Crypto1 \<Rightarrow> u8 \<Rightarrow> bool \<Rightarrow> u8 \<times> Crypto1" where
  "crypto1_byte c input is_encrypted =
     foldl (\<lambda>(out, c) i. let (b, c') = crypto1_bit c (furi_bit input i) is_encrypted
         in (out OR push_bit i (of_bool b), c')) (0, c) [0..<8]"

text \<open>\<^verbatim>\<open>BEBIT\<close> reads the bits of a word in the order of its bytes in memory.\<close>

definition bebit_index :: "nat \<Rightarrow> nat" where
  "bebit_index i = unat (of_nat i XOR 24 :: u32)"

definition crypto1_word :: "Crypto1 \<Rightarrow> u32 \<Rightarrow> bool \<Rightarrow> u32 \<times> Crypto1" where
  "crypto1_word c input is_encrypted =
     foldl (\<lambda>(out, c) i. let (b, c') = crypto1_bit c (furi_bit input (bebit_index i)) is_encrypted
         in (out OR push_bit (bebit_index i) (of_bool b), c')) (0, c) [0..<32]"

definition swapendian :: "u32 \<Rightarrow> u32" where
  "swapendian x =
     (let x = (drop_bit 8 x AND 0xff00ff) OR push_bit 8 (x AND 0xff00ff)
      in drop_bit 16 x OR push_bit 16 x)"

definition prng_round :: "u32 \<Rightarrow> u32" where
  "prng_round x = drop_bit 1 x OR
     push_bit 31 (drop_bit 16 x XOR drop_bit 18 x XOR drop_bit 19 x XOR drop_bit 21 x)"

definition crypto1_prng_successor :: "u32 \<Rightarrow> u32 \<Rightarrow> u32" where
  "crypto1_prng_successor x n = swapendian ((prng_round ^^ unat n) (swapendian x))"

section \<open>Frames\<close>

definition crypto1_decrypt :: "Crypto1 \<Rightarrow> BitBuffer \<Rightarrow> BitBuffer \<Rightarrow> fault + Crypto1 \<times> BitBuffer" where
  "crypto1_decrypt crypto buff out =
     (let bits = size_bits buff
      in bind_r (bit_buffer_set_size out bits) (\<lambda>out.
         if bits < 8 then
           bind_r (rd (bb_data buff) 0) (\<lambda>encrypted_byte.
             let (c, decrypted_byte) = foldl (\<lambda>(c, acc) i. let (k, c') = crypto1_bit c False False
                   in (c', acc OR push_bit i (of_bool (k \<noteq> furi_bit encrypted_byte i)))) (crypto, 0) [0..<4]
             in bind_r (bit_buffer_set_byte out 0 decrypted_byte) (\<lambda>out. Inr (c, out)))
         else for_each (\<lambda>i (c, out). bind_r (rd (bb_data buff) i) (\<lambda>e.
             let (k, c') = crypto1_byte c 0 False
             in bind_r (bit_buffer_set_byte out i (k XOR e)) (\<lambda>out. Inr (c', out)))) [0..<bits div 8] (crypto, out)))"

text \<open>\<open>keystream\<close> is the optional array that is fed into the register while encrypting.\<close>

definition crypto1_encrypt ::
    "Crypto1 \<Rightarrow> u8 list option \<Rightarrow> BitBuffer \<Rightarrow> BitBuffer \<Rightarrow> fault + Crypto1 \<times> BitBuffer" where
  "crypto1_encrypt crypto keystream buff out =
     (let bits = size_bits buff
      in bind_r (bit_buffer_set_size out bits) (\<lambda>out.
         if bits < 8 then
           bind_r (if bits = 0 then Inr 0 else rd (bb_data buff) 0) (\<lambda>plain.
             let (c, encrypted_byte) = foldl (\<lambda>(c, acc) i. let (k, c') = crypto1_bit c False False
                   in (c', acc OR push_bit i (of_bool (k \<noteq> furi_bit plain i)))) (crypto, 0) [0..<bits]
             in bind_r (bit_buffer_set_byte out 0 encrypted_byte) (\<lambda>out. Inr (c, out)))
         else for_each (\<lambda>i (c, out).
             bind_r (case keystream of None \<Rightarrow> Inr 0 | Some ks \<Rightarrow> rd ks i) (\<lambda>feed.
             bind_r (rd (bb_data buff) i) (\<lambda>p.
             let (k, c') = crypto1_byte c feed False;
                 parity_bit = (crypto1_filter (c1_odd c') \<noteq> (nfc_util_odd_parity8 p AND 1 \<noteq> 0))
             in bind_r (bit_buffer_set_byte_with_parity out i (k XOR p) parity_bit) (\<lambda>out. Inr (c', out)))))
           [0..<bits div 8] (crypto, out)))"

text \<open>The reader's answer: its nonce, then the two successors of the tag's nonce. The nonce array
  is overwritten with what was sent.\<close>

definition crypto1_encrypt_reader_nonce ::
    "Crypto1 \<Rightarrow> u64 \<Rightarrow> u32 \<Rightarrow> u8 list \<Rightarrow> u8 list \<Rightarrow> BitBuffer \<Rightarrow> bool
      \<Rightarrow> fault + Crypto1 \<times> u8 list \<times> BitBuffer" where
  "crypto1_encrypt_reader_nonce crypto key cuid nt nr out is_nested =
     bind_r (bit_buffer_set_size_bytes out 8) (\<lambda>out.
     bind_r (bit_lib_bytes_to_num_be nt 4) (\<lambda>nt64.
       let nt_num = (ucast nt64 :: u32);
           c = crypto1_init crypto key;
           (w, c) = crypto1_word c (nt_num XOR cuid) is_nested;
           nt_num = (if is_nested then w XOR nt_num else nt_num)
       in bind_r (for_each (\<lambda>i (c, nr, out). bind_r (rd nr i) (\<lambda>v.
              let (k, c') = crypto1_byte c v False;
                  byte = k XOR v;
                  parity_bit = (crypto1_filter (c1_odd c') \<noteq> (nfc_util_odd_parity8 v AND 1 \<noteq> 0))
              in bind_r (bit_buffer_set_byte_with_parity out i byte parity_bit) (\<lambda>out.
                 bind_r (wr nr i byte) (\<lambda>nr. Inr (c', nr, out))))) [0..<4] (c, nr, out)) (\<lambda>(c, nr, out).
          bind_r (for_each (\<lambda>i (nt_num, c, out).
              let nt_num = crypto1_prng_successor nt_num 8;
                  (k, c') = crypto1_byte c 0 False;
                  byte = k XOR ucast nt_num;
                  parity_bit = (crypto1_filter (c1_odd c') \<noteq> (nfc_util_odd_parity8 (ucast nt_num) AND 1 \<noteq> 0))
              in bind_r (bit_buffer_set_byte_with_parity out i byte parity_bit) (\<lambda>out. Inr (nt_num, c', out)))
            [4..<8] (crypto1_prng_successor nt_num 32, c, out)) (\<lambda>(_, c, out). Inr (c, nr, out)))))"

section \<open>Rollback and nonces\<close>

definition lfsr_rollback_bit :: "Crypto1 \<Rightarrow> bool \<Rightarrow> bool \<Rightarrow> bool \<times> Crypto1" where
  "lfsr_rollback_bit c input fb =
     (let t = c1_odd c AND 0xffffff;
          odd = c1_even c;
          out = t AND 1;
          even = drop_bit 1 t;
          out = out XOR (LF_POLY_EVEN AND even);
          out = out XOR (LF_POLY_ODD AND odd);
          out = out XOR of_bool input;
          ret = crypto1_filter odd;
          out = out XOR of_bool (ret \<and> fb)
      in (ret, \<lparr>c1_odd = odd, c1_even = even OR push_bit 23 (ucast (nfc_util_even_parity32 out))\<rparr>))"

definition crypto1_lfsr_rollback_word :: "Crypto1 \<Rightarrow> u32 \<Rightarrow> bool \<Rightarrow> u32 \<times> Crypto1" where
  "crypto1_lfsr_rollback_word c input fb =
     foldl (\<lambda>(ret, c) k. let i = 31 - k; (b, c') = lfsr_rollback_bit c (furi_bit input (bebit_index i)) fb
         in (ret OR push_bit (bebit_index i) (of_bool b), c')) (0, c) [0..<32]"

definition crypto1_nonce_matches_encrypted_parity_bits :: "u32 \<Rightarrow> u32 \<Rightarrow> u8 \<Rightarrow> bool" where
  "crypto1_nonce_matches_encrypted_parity_bits nt ks nt_par_enc \<longleftrightarrow>
     nfc_util_even_parity8 (ucast (drop_bit 24 nt AND 0xFF)) = (drop_bit 3 nt_par_enc AND 1) XOR of_bool (furi_bit ks 16) \<and>
     nfc_util_even_parity8 (ucast (drop_bit 16 nt AND 0xFF)) = (drop_bit 2 nt_par_enc AND 1) XOR of_bool (furi_bit ks 8) \<and>
     nfc_util_even_parity8 (ucast (drop_bit 8 nt AND 0xFF)) = (drop_bit 1 nt_par_enc AND 1) XOR of_bool (furi_bit ks 0)"

definition weak_round :: "u16 \<Rightarrow> u16" where
  "weak_round x = drop_bit 1 x OR push_bit 15 (x XOR drop_bit 2 x XOR drop_bit 3 x XOR drop_bit 5 x)"

definition swap16 :: "u16 \<Rightarrow> u16" where
  "swap16 x = push_bit 8 (x AND 0xff) OR drop_bit 8 x"

definition crypto1_is_weak_prng_nonce :: "u32 \<Rightarrow> bool" where
  "crypto1_is_weak_prng_nonce nonce \<longleftrightarrow> nonce \<noteq> 0 \<and>
     ucast (swap16 ((weak_round ^^ 16) (swap16 (ucast (drop_bit 16 nonce))))) = nonce AND 0xFFFF"

text \<open>The 48 bit key of the tag is the six bytes, most significant first.\<close>

definition crypto1_decrypt_nt_enc :: "u32 \<Rightarrow> u32 \<Rightarrow> u8 list \<Rightarrow> fault + u32" where
  "crypto1_decrypt_nt_enc cuid nt_enc known_key =
     bind_r (bit_lib_bytes_to_num_be known_key 6) (\<lambda>key.
       let c = crypto1_init \<lparr>c1_odd = 0, c1_even = 0\<rparr> key;
           (_, c) = crypto1_word c (nt_enc XOR cuid) True;
           (ks, _) = crypto1_lfsr_rollback_word c (nt_enc XOR cuid) True
       in Inr (nt_enc XOR ks))"


section \<open>The register can be rolled back\<close>

definition par32 :: "u32 \<Rightarrow> bool" where
  "par32 w = foldl (\<lambda>a i. a \<noteq> bit w i) False [0..<32]"

lemma even_parity32: "nfc_util_even_parity32 w = of_bool (par32 w)"
  by (simp add: nfc_util_even_parity32_def par32_def)

lemma par32_xor [simp]: "par32 (x XOR y) = (par32 x \<noteq> par32 y)"
proof -
  have "foldl (\<lambda>a i. a \<noteq> bit (x XOR y) i) (p \<noteq> q) is =
      (foldl (\<lambda>a i. a \<noteq> bit x i) p is \<noteq> foldl (\<lambda>a i. a \<noteq> bit y i) q is)" for p q "is"
  proof (induction "is" arbitrary: p q)
    case (Cons i "is")
    have "((p \<noteq> q) \<noteq> bit (x XOR y) i) = ((p \<noteq> bit x i) \<noteq> (q \<noteq> bit y i))" by (auto simp: bit_xor_iff)
    with Cons [of "p \<noteq> bit x i" "q \<noteq> bit y i"] show ?case by simp
  qed simp
  from this [of False False] show ?thesis by (simp add: par32_def)
qed

lemma par32_single: "par32 (of_bool b) = b" "par32 (push_bit 23 (of_bool b)) = b"
  by (cases b; simp add: par32_def upt_rec_numeral upt_rec bit_simps)+

text \<open>Registers that agree in the 24 bits of each half that matter.\<close>

definition same_register :: "Crypto1 \<Rightarrow> Crypto1 \<Rightarrow> bool" where
  "same_register c d \<longleftrightarrow> take_bit 24 (c1_odd c) = take_bit 24 (c1_odd d) \<and> take_bit 24 (c1_even c) = take_bit 24 (c1_even d)"

lemma take_24_bits: "take_bit 24 x = take_bit 24 y \<longleftrightarrow> (\<forall>j < 24. bit x j = bit (y :: u32) j)"
proof
  assume "take_bit 24 x = take_bit 24 y"
  then have "bit (take_bit 24 x) j = bit (take_bit 24 y) j" for j by simp
  then show "\<forall>j < 24. bit x j = bit y j" by (auto simp: bit_take_bit_iff)
qed (auto intro!: bit_word_eqI simp: bit_take_bit_iff)

lemma shift_cong:
  assumes "take_bit 24 x = take_bit 24 (y :: u32)"
  shows "take_bit 24 (push_bit 1 x OR z) = take_bit 24 (push_bit 1 y OR z)"
  unfolding take_24_bits
proof (intro allI impI)
  fix j :: nat
  assume "j < 24"
  then have "bit (push_bit 1 x) j = bit (push_bit 1 y) j"
    using assms by (cases j) (auto simp: take_24_bits bit_times_2)
  then show "bit (push_bit 1 x OR z) j = bit (push_bit 1 y OR z) j" by (simp only: bit_or_iff)
qed

lemma filter_cong:
  assumes "take_bit 24 x = take_bit 24 y"
  shows "crypto1_filter x = crypto1_filter y"
proof -
  have b: "\<And>j. j < 24 \<Longrightarrow> bit x j = bit y j" using assms by (simp add: take_24_bits)
  have "drop_bit k x AND 0xf = drop_bit k y AND 0xf" if "k \<le> 16" for k
    using that b unfolding and_masks by (intro bit_word_eqI) (auto simp: bit_simps)
  from this [of 0] this [of 4] this [of 8] this [of 12] this [of 16] show ?thesis
    by (simp add: crypto1_filter_def)
qed

lemma poly_cong:
  assumes "take_bit 24 x = take_bit 24 y"
  shows "LF_POLY_ODD AND x = LF_POLY_ODD AND y" "LF_POLY_EVEN AND x = LF_POLY_EVEN AND y"
proof -
  have m: "LF_POLY_ODD = take_bit 24 LF_POLY_ODD" "LF_POLY_EVEN = take_bit 24 LF_POLY_EVEN"
    by (simp_all add: LF_POLY_ODD_def LF_POLY_EVEN_def)
  have "take_bit 24 p AND x = take_bit 24 p AND y" for p
    using assms by (intro bit_word_eqI) (auto simp: bit_simps take_24_bits)
  then show "LF_POLY_ODD AND x = LF_POLY_ODD AND y" "LF_POLY_EVEN AND x = LF_POLY_EVEN AND y"
    using m by metis+
qed

lemma crypto1_bit_cong:
  assumes "same_register c d"
  shows "fst (crypto1_bit c i e) = fst (crypto1_bit d i e)" "same_register (snd (crypto1_bit c i e)) (snd (crypto1_bit d i e))"
proof -
  have s: "take_bit 24 (c1_odd c) = take_bit 24 (c1_odd d)" "take_bit 24 (c1_even c) = take_bit 24 (c1_even d)"
    using assms by (simp_all add: same_register_def)
  note f = filter_cong [OF s(1)] and p = poly_cong(1) [OF s(1)] poly_cong(2) [OF s(2)]
  show "fst (crypto1_bit c i e) = fst (crypto1_bit d i e)"
    by (simp add: crypto1_bit_def Let_def f)
  show "same_register (snd (crypto1_bit c i e)) (snd (crypto1_bit d i e))"
    unfolding crypto1_bit_def Let_def snd_conv same_register_def Crypto1.simps f p
    using shift_cong [OF s(2)] s(1) by simp
qed

lemma rollback_cong:
  assumes "same_register c d"
  shows "fst (lfsr_rollback_bit c i e) = fst (lfsr_rollback_bit d i e)"
    "same_register (snd (lfsr_rollback_bit c i e)) (snd (lfsr_rollback_bit d i e))"
proof -
  have s: "take_bit 24 (c1_odd c) = take_bit 24 (c1_odd d)" "take_bit 24 (c1_even c) = take_bit 24 (c1_even d)"
    using assms by (simp_all add: same_register_def)
  have m: "c1_odd c AND 0xffffff = c1_odd d AND 0xffffff"
    using s(1) by (simp add: take_bit_eq_mask mask_numeral)
  note f = filter_cong [OF s(2)] and p = poly_cong(1) [OF s(2)]
  show "fst (lfsr_rollback_bit c i e) = fst (lfsr_rollback_bit d i e)"
    by (simp add: lfsr_rollback_bit_def Let_def f)
  show "same_register (snd (lfsr_rollback_bit c i e)) (snd (lfsr_rollback_bit d i e))"
    unfolding lfsr_rollback_bit_def Let_def snd_conv same_register_def Crypto1.simps f p m
    using s(2) by simp
qed

lemma mask_bits:
  "bit (0xffffff :: u32) n \<longleftrightarrow> n < 24" "bit (0x7fffff :: u32) n \<longleftrightarrow> n < 23"
  using bit_mask_iff [where ?'a = "32 word", of 24 n] bit_mask_iff [where ?'a = "32 word", of 23 n]
  by (auto simp: mask_numeral dest: bit_imp_le_length)

text \<open>The bit the register lost is the only one that the parity of the taps is missing.\<close>

lemma even_taps: "par32 (LF_POLY_EVEN AND x) = (par32 (LF_POLY_EVEN AND (x AND 0x7fffff)) \<noteq> bit x 23)"
proof -
  have m: "LF_POLY_EVEN = take_bit 24 LF_POLY_EVEN" by (simp add: LF_POLY_EVEN_def)
  have top: "bit LF_POLY_EVEN 23" by (simp add: LF_POLY_EVEN_def)
  have "LF_POLY_EVEN AND x = (LF_POLY_EVEN AND (x AND 0x7fffff)) XOR push_bit 23 (of_bool (bit x 23))"
  proof (rule bit_word_eqI)
    fix n assume "n < LENGTH(32)"
    consider "n < 23" | "n = 23" | "24 \<le> n" by linarith
    then show "bit (LF_POLY_EVEN AND x) n = bit ((LF_POLY_EVEN AND (x AND 0x7fffff)) XOR push_bit 23 (of_bool (bit x 23))) n"
    proof cases
      case 3
      have "\<not> bit LF_POLY_EVEN n" by (subst m) (use 3 in \<open>simp add: bit_take_bit_iff\<close>)
      with 3 show ?thesis by (auto simp: bit_and_iff bit_xor_iff bit_push_bit_iff bit_of_bool_word)
    qed (simp_all only: bit_and_iff bit_xor_iff bit_push_bit_iff bit_of_bool_word mask_bits top, auto)
  qed
  then show ?thesis by (simp only: par32_xor par32_single)
qed

lemma ucast_of_bool: "ucast (of_bool b :: 'a::len word) = (of_bool b :: 'b::len word)"
  by (cases b) simp_all

text \<open>One step with the parity of the feedback written out.\<close>

lemma crypto1_bit_state:
  "crypto1_bit c i e = (crypto1_filter (c1_odd c),
    \<lparr>c1_odd = push_bit 1 (c1_even c) OR of_bool ((((crypto1_filter (c1_odd c) \<and> e) \<noteq> i)
        \<noteq> par32 (LF_POLY_ODD AND c1_odd c)) \<noteq> par32 (LF_POLY_EVEN AND c1_even c)),
     c1_even = c1_odd c\<rparr>)"
  unfolding crypto1_bit_def Let_def even_parity32 ucast_of_bool par32_xor par32_single ..

lemma lfsr_rollback_state:
  "lfsr_rollback_bit c i e = (crypto1_filter (c1_even c),
    \<lparr>c1_odd = c1_even c, c1_even = drop_bit 1 (c1_odd c AND 0xffffff) OR
      push_bit 23 (of_bool ((((par32 ((c1_odd c AND 0xffffff) AND 1) \<noteq> par32 (LF_POLY_EVEN AND drop_bit 1 (c1_odd c AND 0xffffff)))
        \<noteq> par32 (LF_POLY_ODD AND c1_even c)) \<noteq> i) \<noteq> (crypto1_filter (c1_even c) \<and> e)))\<rparr>)"
  unfolding lfsr_rollback_bit_def Let_def even_parity32 ucast_of_bool par32_xor par32_single ..

lemma register_shift:
  fixes x :: u32
  shows "((push_bit 1 x OR of_bool p) AND 0xffffff) AND 1 = of_bool p"
    and "drop_bit 1 ((push_bit 1 x OR of_bool p) AND 0xffffff) = x AND 0x7fffff"
proof -
  show "((push_bit 1 x OR of_bool p) AND 0xffffff) AND 1 = of_bool p"
    by (rule bit_word_eqI) (auto simp: bit_or_iff bit_and_iff bit_times_2 bit_of_bool_word bit_1_iff mask_bits)
  show "drop_bit 1 ((push_bit 1 x OR of_bool p) AND 0xffffff) = x AND 0x7fffff"
    by (rule bit_word_eqI)
      (simp only: bit_or_iff bit_and_iff bit_drop_bit_eq bit_push_bit_iff bit_of_bool_word mask_bits comp_apply, auto)
qed

lemma rollback_bit:
  "fst (lfsr_rollback_bit (snd (crypto1_bit c i e)) i e) = fst (crypto1_bit c i e)"
  "same_register (snd (lfsr_rollback_bit (snd (crypto1_bit c i e)) i e)) c"
proof -
  show "fst (lfsr_rollback_bit (snd (crypto1_bit c i e)) i e) = fst (crypto1_bit c i e)"
    by (simp add: crypto1_bit_state lfsr_rollback_state)
  have "snd (lfsr_rollback_bit (snd (crypto1_bit c i e)) i e) =
      \<lparr>c1_odd = c1_odd c, c1_even = c1_even c AND 0x7fffff OR push_bit 23 (of_bool (bit (c1_even c) 23))\<rparr>"
    unfolding crypto1_bit_state lfsr_rollback_state snd_conv Crypto1.simps register_shift par32_single even_taps [of "c1_even c"]
    by (rule arg_cong [where f = "\<lambda>b. \<lparr>c1_odd = c1_odd c, c1_even = c1_even c AND 0x7fffff OR push_bit 23 (of_bool b)\<rparr>"]) auto
  moreover have "take_bit 24 (x AND 0x7fffff OR push_bit 23 (of_bool (bit x 23))) = take_bit 24 x" for x :: u32
  unfolding take_24_bits
  proof (intro allI impI)
    fix j :: nat
    assume "j < 24"
    then consider "j < 23" | "j = 23" by linarith
    then show "bit (x AND 0x7fffff OR push_bit 23 (of_bool (bit x 23))) j = bit x j"
      by cases (simp_all only: bit_or_iff bit_and_iff bit_push_bit_iff bit_of_bool_word mask_bits, auto)
  qed
  ultimately show "same_register (snd (lfsr_rollback_bit (snd (crypto1_bit c i e)) i e)) c"
    by (simp add: same_register_def)
qed


lemma same_register_trans: "same_register c d \<Longrightarrow> same_register d e \<Longrightarrow> same_register c e"
  by (simp add: same_register_def)

text \<open>Running a list of bits forward and rolling the same list back.\<close>

definition forward_step :: "(nat \<Rightarrow> bool) \<Rightarrow> bool \<Rightarrow> u32 \<times> Crypto1 \<Rightarrow> nat \<Rightarrow> u32 \<times> Crypto1" where
  "forward_step f e = (\<lambda>(out, c) i. let (b, c') = crypto1_bit c (f i) e in (out OR push_bit (bebit_index i) (of_bool b), c'))"

definition backward_step :: "(nat \<Rightarrow> bool) \<Rightarrow> bool \<Rightarrow> nat \<Rightarrow> u32 \<times> Crypto1 \<Rightarrow> u32 \<times> Crypto1" where
  "backward_step f e i = (\<lambda>(out, c). let (b, c') = lfsr_rollback_bit c (f i) e in (out OR push_bit (bebit_index i) (of_bool b), c'))"

lemma forward_step_pair:
  "forward_step f e (out, c) i = (out OR push_bit (bebit_index i) (of_bool (fst (crypto1_bit c (f i) e))), snd (crypto1_bit c (f i) e))"
  by (simp add: forward_step_def case_prod_beta)

lemma backward_step_pair:
  "backward_step f e i (out, c) =
    (out OR push_bit (bebit_index i) (of_bool (fst (lfsr_rollback_bit c (f i) e))), snd (lfsr_rollback_bit c (f i) e))"
  by (simp add: backward_step_def case_prod_beta)

lemma rollback_run:
  assumes "foldl (forward_step f e) (0, c) is = (w, c')" and "same_register d c'"
  shows "\<exists>d'. foldl (\<lambda>x i. backward_step f e i x) (acc, d) (rev is) = (acc OR w, d') \<and> same_register d' c"
  using assms
proof (induction "is" arbitrary: w c' d acc rule: rev_induct)
  case Nil
  then show ?case by simp
next
  case (snoc i "is")
  obtain v b where v: "foldl (forward_step f e) (0, c) is = (v, b)" by fastforce
  let ?bit = "fst (crypto1_bit b (f i) e)"
  have w: "w = v OR push_bit (bebit_index i) (of_bool ?bit)" "c' = snd (crypto1_bit b (f i) e)"
    using snoc.prems(1) v by (simp_all add: forward_step_pair)
  note r = rollback_cong [OF snoc.prems(2) [unfolded w(2)], of "f i" e]
  have bit: "fst (lfsr_rollback_bit d (f i) e) = ?bit"
    using r(1) by (simp add: rollback_bit(1))
  have "same_register (snd (lfsr_rollback_bit d (f i) e)) b"
    using r(2) rollback_bit(2) by (rule same_register_trans)
  from snoc.IH [OF v this, of "acc OR push_bit (bebit_index i) (of_bool ?bit)"] bit
  show ?case by (simp add: backward_step_pair w(1) or.assoc or.left_commute or.commute)
qed

lemma crypto1_word_run: "crypto1_word c input e = foldl (forward_step (\<lambda>i. furi_bit input (bebit_index i)) e) (0, c) [0..<32]"
  by (simp add: crypto1_word_def forward_step_def)

lemma rollback_word_run:
  "crypto1_lfsr_rollback_word c input e = foldl (\<lambda>x i. backward_step (\<lambda>i. furi_bit input (bebit_index i)) e i x) (0, c) (rev [0..<32])"
proof -
  have "crypto1_lfsr_rollback_word c input e =
      foldl (\<lambda>x r. backward_step (\<lambda>i. furi_bit input (bebit_index i)) e (32 - 1 - r) x) (0, c) [0..<32]"
    unfolding crypto1_lfsr_rollback_word_def
    by (rule foldl_cong) (auto simp: backward_step_def Let_def)
  also have "\<dots> = foldl (\<lambda>x i. backward_step (\<lambda>i. furi_bit input (bebit_index i)) e i x) (0, c) (rev [0..<32])"
    by (rule foldl_backwards)
  finally show ?thesis .
qed

lemma rollback_word:
  assumes "crypto1_word c input e = (w, c')"
  shows "\<exists>d. crypto1_lfsr_rollback_word c' input e = (w, d) \<and> same_register d c"
proof -
  have "same_register c' c'" by (simp add: same_register_def)
  from rollback_run [OF assms [unfolded crypto1_word_run] this, of 0] show ?thesis
    by (simp only: rollback_word_run or.left_neutral)
qed

text \<open>C33 Rolling the cipher back over a word it was clocked with, encrypted or not, gives the same 32
  bits of key stream and the register it started from, in the 24 bits of each half that matter.\<close>

theorem crypto1_rollback:
  "case crypto1_word c input e of (w, c') \<Rightarrow>
    (case crypto1_lfsr_rollback_word c' input e of (w', d) \<Rightarrow> w' = w \<and> same_register d c)"
proof -
  obtain w c' where w: "crypto1_word c input e = (w, c')" by fastforce
  with rollback_word [OF w] show ?thesis by auto
qed

text \<open>So the decryption of a nested nonce, which clocks and rolls back, is one pass of the cipher.\<close>

lemma decrypt_nt_enc_keystream:
  assumes "bit_lib_bytes_to_num_be known_key 6 = Inr key"
  shows "crypto1_decrypt_nt_enc cuid nt_enc known_key =
    Inr (nt_enc XOR fst (crypto1_word (crypto1_init \<lparr>c1_odd = 0, c1_even = 0\<rparr> key) (nt_enc XOR cuid) True))"
proof -
  obtain w c' where w: "crypto1_word (crypto1_init \<lparr>c1_odd = 0, c1_even = 0\<rparr> key) (nt_enc XOR cuid) True = (w, c')" by fastforce
  obtain d where "crypto1_lfsr_rollback_word c' (nt_enc XOR cuid) True = (w, d)" using rollback_word [OF w] by blast
  with assms w show ?thesis by (simp add: crypto1_decrypt_nt_enc_def)
qed

section \<open>Decryption undoes encryption\<close>

text \<open>The register and the key stream after some bytes.\<close>

primrec register_at :: "Crypto1 \<Rightarrow> nat \<Rightarrow> Crypto1" where
  "register_at c 0 = c"
| "register_at c (Suc n) = snd (crypto1_byte (register_at c n) 0 False)"

definition keystream_at :: "Crypto1 \<Rightarrow> nat \<Rightarrow> u8" where
  "keystream_at c n = fst (crypto1_byte (register_at c n) 0 False)"

lemma crypto1_byte_at: "crypto1_byte (register_at c n) 0 False = (keystream_at c n, register_at c (Suc n))"
  by (simp add: keystream_at_def)

lemma set_byte_ok:
  assumes "bit_buffer_ok buf" and "i < size_bits buf div 8"
  shows "\<exists>buf'. bit_buffer_set_byte buf i v = Inr buf' \<and> bit_buffer_ok buf' \<and> size_bits buf' = size_bits buf \<and>
    bb_data buf' = (bb_data buf)[i := v] \<and> capacity_bytes buf' = capacity_bytes buf"
    "\<exists>buf'. bit_buffer_set_byte_with_parity buf i v p = Inr buf' \<and> bit_buffer_ok buf' \<and> size_bits buf' = size_bits buf \<and>
    bb_data buf' = (bb_data buf)[i := v] \<and> capacity_bytes buf' = capacity_bytes buf"
proof -
  have i: "i < capacity_bytes buf" "bit_buffer_get_size_bytes buf > i"
    using assms by (auto simp: bit_buffer_ok_def bit_buffer_get_size_bytes_def)
  then show "\<exists>buf'. bit_buffer_set_byte buf i v = Inr buf' \<and> bit_buffer_ok buf' \<and> size_bits buf' = size_bits buf \<and>
    bb_data buf' = (bb_data buf)[i := v] \<and> capacity_bytes buf' = capacity_bytes buf"
    using assms(1) by (simp add: bit_buffer_set_byte_def bit_buffer_ok_def)
  show "\<exists>buf'. bit_buffer_set_byte_with_parity buf i v p = Inr buf' \<and> bit_buffer_ok buf' \<and> size_bits buf' = size_bits buf \<and>
    bb_data buf' = (bb_data buf)[i := v] \<and> capacity_bytes buf' = capacity_bytes buf"
    using assms put_parity_ok [OF assms(1) i(1), of "i mod 8" p] i(1)
    by (auto simp: bit_buffer_set_byte_with_parity_def bit_buffer_ok_def)
qed


lemma set_size_ok:
  assumes "bit_buffer_ok out" and "8 * n \<le> 8 * capacity_bytes out"
  shows "bit_buffer_set_size out (8 * n) = Inr (out\<lparr>size_bits := 8 * n\<rparr>)" "bit_buffer_ok (out\<lparr>size_bits := 8 * n\<rparr>)"
  using assms by (simp_all add: bit_buffer_set_size_def bit_buffer_ok_def mult.commute)

lemma bytes_run:
  assumes "bit_buffer_ok out" and "size_bits out = 8 * n" and "n \<le> length data"
    and "\<And>i out'. bit_buffer_ok out' \<Longrightarrow> size_bits out' = 8 * n \<Longrightarrow> i < n \<Longrightarrow>
      \<exists>out''. body i (register_at c i, out') = Inr (register_at c (Suc i), out'') \<and> bit_buffer_ok out'' \<and>
        size_bits out'' = 8 * n \<and> capacity_bytes out'' = capacity_bytes out' \<and>
        bb_data out'' = (bb_data out')[i := keystream_at c i XOR data ! i]"
  shows "\<exists>out'. for_each body [0..<n] (c, out) = Inr (register_at c n, out') \<and> bit_buffer_ok out' \<and>
    size_bits out' = 8 * n \<and> capacity_bytes out' = capacity_bytes out \<and>
    (\<forall>j < n. bb_data out' ! j = keystream_at c j XOR data ! j)"
proof -
  let ?P = "\<lambda>i (c', out'). c' = register_at c i \<and> bit_buffer_ok out' \<and> size_bits out' = 8 * n \<and>
    capacity_bytes out' = capacity_bytes out \<and> (\<forall>j < i. bb_data out' ! j = keystream_at c j XOR data ! j)"
  have "\<exists>r. for_each body [0..<n] (c, out) = Inr r \<and> ?P n r"
  proof (rule for_each_upto [where P = ?P])
    show "?P 0 (c, out)" using assms(1,2) by simp
    fix i r
    assume i: "i < n" and P: "?P i r"
    obtain out' where r: "r = (register_at c i, out')" and o: "bit_buffer_ok out'" "size_bits out' = 8 * n"
      "capacity_bytes out' = capacity_bytes out" "\<And>j. j < i \<Longrightarrow> bb_data out' ! j = keystream_at c j XOR data ! j"
      using P by (cases r) auto
    obtain out'' where b: "body i r = Inr (register_at c (Suc i), out'')" "bit_buffer_ok out''" "size_bits out'' = 8 * n"
        "capacity_bytes out'' = capacity_bytes out'" "bb_data out'' = (bb_data out')[i := keystream_at c i XOR data ! i]"
      using assms(4) [OF o(1,2) i] unfolding r by blast
    have "i < length (bb_data out')" using o(1,2) i by (auto simp: bit_buffer_ok_def)
    then have "bb_data out'' ! j = keystream_at c j XOR data ! j" if "j < Suc i" for j
      using that b(5) o(4) by (auto simp: nth_list_update less_Suc_eq)
    then show "\<exists>r'. body i r = Inr r' \<and> ?P (Suc i) r'" using b o(3) by auto
  qed
  then show ?thesis by auto
qed

lemma encrypt_bytes:
  assumes "bit_buffer_ok buff" and "size_bits buff = 8 * n" and "0 < n" and "bit_buffer_ok out" and "n \<le> capacity_bytes out"
  shows "\<exists>out'. crypto1_encrypt c None buff out = Inr (register_at c n, out') \<and> bit_buffer_ok out' \<and> size_bits out' = 8 * n \<and>
    capacity_bytes out' = capacity_bytes out \<and> (\<forall>j < n. bb_data out' ! j = keystream_at c j XOR bb_data buff ! j)"
proof -
  have n: "n \<le> length (bb_data buff)" using assms(1,2) by (simp add: bit_buffer_ok_def)
  note z = set_size_ok [OF assms(4), of n]
  let ?body = "\<lambda>i (c, out). bind_r (case None of None \<Rightarrow> Inr 0 | Some ks \<Rightarrow> rd ks i) (\<lambda>feed.
             bind_r (rd (bb_data buff) i) (\<lambda>p.
             let (k, c') = crypto1_byte c feed False;
                 parity_bit = (crypto1_filter (c1_odd c') \<noteq> (nfc_util_odd_parity8 p AND 1 \<noteq> 0))
             in bind_r (bit_buffer_set_byte_with_parity out i (k XOR p) parity_bit) (\<lambda>out. Inr (c', out))))"
  have "\<exists>out'. for_each ?body [0..<n] (c, out\<lparr>size_bits := 8 * n\<rparr>) = Inr (register_at c n, out') \<and> bit_buffer_ok out' \<and>
    size_bits out' = 8 * n \<and> capacity_bytes out' = capacity_bytes (out\<lparr>size_bits := 8 * n\<rparr>) \<and>
    (\<forall>j < n. bb_data out' ! j = keystream_at c j XOR bb_data buff ! j)"
  proof (rule bytes_run)
    fix i out'
    assume o: "bit_buffer_ok out'" "size_bits out' = 8 * n" "i < n"
    show "\<exists>out''. ?body i (register_at c i, out') = Inr (register_at c (Suc i), out'') \<and> bit_buffer_ok out'' \<and>
        size_bits out'' = 8 * n \<and> capacity_bytes out'' = capacity_bytes out' \<and>
        bb_data out'' = (bb_data out')[i := keystream_at c i XOR bb_data buff ! i]"
      using o n set_byte_ok(2) [OF o(1), of i] by (simp add: crypto1_byte_at del: register_at.simps) (metis bind_r_simps(2))
  qed (use n z assms(5) in simp_all)
  then show ?thesis
    using assms(2,3,5) z(1) by (simp add: crypto1_encrypt_def Let_def)
qed

lemma decrypt_bytes:
  assumes "bit_buffer_ok buff" and "size_bits buff = 8 * n" and "0 < n" and "bit_buffer_ok out" and "n \<le> capacity_bytes out"
  shows "\<exists>out'. crypto1_decrypt c buff out = Inr (register_at c n, out') \<and> bit_buffer_ok out' \<and> size_bits out' = 8 * n \<and>
    capacity_bytes out' = capacity_bytes out \<and> (\<forall>j < n. bb_data out' ! j = keystream_at c j XOR bb_data buff ! j)"
proof -
  have n: "n \<le> length (bb_data buff)" using assms(1,2) by (simp add: bit_buffer_ok_def)
  note z = set_size_ok [OF assms(4), of n]
  let ?body = "\<lambda>i (c, out). bind_r (rd (bb_data buff) i) (\<lambda>e. let (k, c') = crypto1_byte c 0 False
             in bind_r (bit_buffer_set_byte out i (k XOR e)) (\<lambda>out. Inr (c', out)))"
  have "\<exists>out'. for_each ?body [0..<n] (c, out\<lparr>size_bits := 8 * n\<rparr>) = Inr (register_at c n, out') \<and> bit_buffer_ok out' \<and>
    size_bits out' = 8 * n \<and> capacity_bytes out' = capacity_bytes (out\<lparr>size_bits := 8 * n\<rparr>) \<and>
    (\<forall>j < n. bb_data out' ! j = keystream_at c j XOR bb_data buff ! j)"
  proof (rule bytes_run)
    fix i out'
    assume o: "bit_buffer_ok out'" "size_bits out' = 8 * n" "i < n"
    show "\<exists>out''. ?body i (register_at c i, out') = Inr (register_at c (Suc i), out'') \<and> bit_buffer_ok out'' \<and>
        size_bits out'' = 8 * n \<and> capacity_bytes out'' = capacity_bytes out' \<and>
        bb_data out'' = (bb_data out')[i := keystream_at c i XOR bb_data buff ! i]"
      using o n set_byte_ok(1) [OF o(1), of i] by (simp add: crypto1_byte_at del: register_at.simps) (metis bind_r_simps(2))
  qed (use n z assms(5) in simp_all)
  then show ?thesis
    using assms(2,3,5) z(1) by (simp add: crypto1_decrypt_def Let_def)
qed

text \<open>C19 A frame of whole bytes that one side encrypts, the other side, with its register in the same
  state, decrypts to the same bytes, and both registers end in the same state again, ready for the
  next frame. Nothing is accessed outside the buffers.\<close>

theorem crypto1_frame_roundtrip:
  assumes "bit_buffer_ok buff" and "size_bits buff = 8 * n" and "0 < n"
    and "bit_buffer_ok out" and "n \<le> capacity_bytes out" and "bit_buffer_ok out'" and "n \<le> capacity_bytes out'"
  shows "\<exists>c' enc dec. crypto1_encrypt c None buff out = Inr (c', enc) \<and> crypto1_decrypt c enc out' = Inr (c', dec) \<and>
    size_bits dec = size_bits buff \<and> take n (bb_data dec) = take n (bb_data buff)"
proof -
  obtain enc where e: "crypto1_encrypt c None buff out = Inr (register_at c n, enc)" "bit_buffer_ok enc"
      "size_bits enc = 8 * n" "\<forall>j < n. bb_data enc ! j = keystream_at c j XOR bb_data buff ! j"
    using encrypt_bytes [OF assms(1-5)] by blast
  obtain dec where d: "crypto1_decrypt c enc out' = Inr (register_at c n, dec)" "bit_buffer_ok dec"
      "size_bits dec = 8 * n" "\<forall>j < n. bb_data dec ! j = keystream_at c j XOR bb_data enc ! j"
    using decrypt_bytes [OF e(2,3) assms(3,6,7)] by blast
  have "bb_data dec ! j = bb_data buff ! j" if "j < n" for j
    using d(4) e(4) that by (simp flip: xor.assoc)
  moreover have "n \<le> length (bb_data dec)" "n \<le> length (bb_data buff)"
    using d(2,3) assms(1,2) by (auto simp: bit_buffer_ok_def)
  ultimately have "take n (bb_data dec) = take n (bb_data buff)"
    by (intro nth_equalityI) simp_all
  with e(1) d(1,3) assms(2) show ?thesis by auto
qed

lemma crypto1_frame_roundtrip_witness:
  "\<exists>c' enc dec. crypto1_encrypt \<lparr>c1_odd = 5, c1_even = 9\<rparr> None \<lparr>bb_data = [0x30, 4], bb_parity = [0], capacity_bytes = 2, size_bits = 16\<rparr>
      \<lparr>bb_data = [0, 0], bb_parity = [0], capacity_bytes = 2, size_bits = 0\<rparr> = Inr (c', enc) \<and>
    crypto1_decrypt \<lparr>c1_odd = 5, c1_even = 9\<rparr> enc \<lparr>bb_data = [0, 0], bb_parity = [0], capacity_bytes = 2, size_bits = 0\<rparr> = Inr (c', dec) \<and>
    size_bits dec = 16 \<and> take 2 (bb_data dec) = [0x30, 4]"
  using crypto1_frame_roundtrip [of "\<lparr>bb_data = [0x30, 4], bb_parity = [0], capacity_bytes = 2, size_bits = 16\<rparr>" 2
      "\<lparr>bb_data = [0, 0], bb_parity = [0], capacity_bytes = 2, size_bits = 0\<rparr>"
      "\<lparr>bb_data = [0, 0], bb_parity = [0], capacity_bytes = 2, size_bits = 0\<rparr>" "\<lparr>c1_odd = 5, c1_even = 9\<rparr>"]
  by (simp add: bit_buffer_ok_def parity_buf_size_def)

end
