(* ===== verification/Expansion_Protocol.thy ===== *)
theory Expansion_Protocol
  imports Flipper_Prelude
begin

text \<open>
  The framing of the expansion module protocol, \<^verbatim>\<open>services/expansion/expansion_protocol.h\<close>. A frame
  is the packed C structure itself, 66 bytes: the type, then the contents the type selects. The
  decoder fills it through a receive callback and the encoder sends it through a send callback;
  both callbacks are parameters with a context that is threaded through.
\<close>

unbundle bit_operations_syntax

section \<open>Frames\<close>

datatype ExpansionFrameType =
    ExpansionFrameTypeHeartbeat
  | ExpansionFrameTypeStatus
  | ExpansionFrameTypeBaudRate
  | ExpansionFrameTypeControl
  | ExpansionFrameTypeData
  | ExpansionFrameTypeReserved

text \<open>The type a header byte stands for; every byte without a meaning is of the reserved type.\<close>

definition frame_type :: "u8 \<Rightarrow> ExpansionFrameType" where
  "frame_type t = (if t = 1 then ExpansionFrameTypeHeartbeat else if t = 2 then ExpansionFrameTypeStatus
     else if t = 3 then ExpansionFrameTypeBaudRate else if t = 4 then ExpansionFrameTypeControl
     else if t = 5 then ExpansionFrameTypeData else ExpansionFrameTypeReserved)"

definition EXPANSION_PROTOCOL_MAX_DATA_SIZE :: nat where
  [firmware_const]: "EXPANSION_PROTOCOL_MAX_DATA_SIZE = 64"

type_synonym ExpansionFrame = "u8 list"

text \<open>\<^verbatim>\<open>sizeof(ExpansionFrame)\<close>: the header and the largest of the contents.\<close>

definition sizeof_frame :: nat where
  [firmware_const]: "sizeof_frame = 1 + (1 + EXPANSION_PROTOCOL_MAX_DATA_SIZE)"

definition expansion_frame_get_encoded_size :: "ExpansionFrame \<Rightarrow> nat" where
  "expansion_frame_get_encoded_size frame = (case frame_type (frame ! 0) of
       ExpansionFrameTypeHeartbeat \<Rightarrow> 1
     | ExpansionFrameTypeStatus \<Rightarrow> 1 + 1
     | ExpansionFrameTypeBaudRate \<Rightarrow> 1 + 4
     | ExpansionFrameTypeControl \<Rightarrow> 1 + 1
     | ExpansionFrameTypeData \<Rightarrow> 1 + 1 + unat (frame ! 1)
     | ExpansionFrameTypeReserved \<Rightarrow> 0)"

text \<open>The remaining size is \<^verbatim>\<open>None\<close> where the code reports that it cannot be calculated.\<close>

definition expansion_frame_get_remaining_size :: "ExpansionFrame \<Rightarrow> nat \<Rightarrow> nat option" where
  "expansion_frame_get_remaining_size frame received_size =
     (if received_size < 1 then Some 1
      else
        let received_content_size = received_size - 1;
            content_size = (case frame_type (frame ! 0) of
                ExpansionFrameTypeHeartbeat \<Rightarrow> Some 0
              | ExpansionFrameTypeStatus \<Rightarrow> Some 1
              | ExpansionFrameTypeBaudRate \<Rightarrow> Some 4
              | ExpansionFrameTypeControl \<Rightarrow> Some 1
              | ExpansionFrameTypeData \<Rightarrow>
                  if received_content_size < 1 then Some 1
                  else if unat (frame ! 1) > EXPANSION_PROTOCOL_MAX_DATA_SIZE then None
                  else Some (1 + unat (frame ! 1))
              | ExpansionFrameTypeReserved \<Rightarrow> None)
        in map_option (\<lambda>content_size.
             if content_size > received_content_size then content_size - received_content_size else 0)
             content_size)"

datatype ExpansionProtocolStatus =
    ExpansionProtocolStatusOk
  | ExpansionProtocolStatusErrorFormat
  | ExpansionProtocolStatusErrorChecksum
  | ExpansionProtocolStatusErrorCommunication

definition expansion_protocol_get_checksum :: "u8 list \<Rightarrow> nat \<Rightarrow> fault + u8" where
  "expansion_protocol_get_checksum data data_size =
     for_each (\<lambda>i checksum. bind_r (rd data i) (\<lambda>v. Inr (checksum XOR v))) [0..<data_size] 0"

section \<open>Receiving a frame\<close>

text \<open>
  The loop that fills the frame: it asks for the bytes that are missing and gives up when the
  callback brings none. The callback returns the bytes it wrote to the buffer.
\<close>

function receive_loop ::
  "(nat \<Rightarrow> 's \<Rightarrow> u8 list \<times> 's) \<Rightarrow> ExpansionFrame \<Rightarrow> nat \<Rightarrow> 's \<Rightarrow>
     fault + ExpansionProtocolStatus \<times> ExpansionFrame \<times> nat \<times> 's" where
  "receive_loop receive frame total_size s =
     (case expansion_frame_get_remaining_size frame total_size of
        None \<Rightarrow> Inr (ExpansionProtocolStatusErrorFormat, frame, total_size, s)
      | Some remaining_size \<Rightarrow>
          if remaining_size = 0 then Inr (ExpansionProtocolStatusOk, frame, total_size, s)
          else case receive remaining_size s of (bytes, s') \<Rightarrow>
            if bytes = [] then Inr (ExpansionProtocolStatusErrorCommunication, frame, total_size, s')
            else case memcpy frame total_size bytes 0 (length bytes) of
                Inl e \<Rightarrow> Inl e
              | Inr frame' \<Rightarrow> receive_loop receive frame' (total_size + length bytes) s')"
  by pat_completeness auto
termination
  by (relation "measure (\<lambda>(receive, frame, total_size, s). length frame - total_size)")
     (auto simp: memcpy_def neq_Nil_conv split: if_splits)

declare receive_loop.simps [simp del]

definition expansion_protocol_decode ::
  "ExpansionFrame \<Rightarrow> (nat \<Rightarrow> 's \<Rightarrow> u8 list \<times> 's) \<Rightarrow> 's \<Rightarrow>
     fault + ExpansionProtocolStatus \<times> ExpansionFrame \<times> 's" where
  "expansion_protocol_decode frame receive s =
     bind_r (receive_loop receive frame 0 s) (\<lambda>(status, frame', total_size, s').
       if status \<noteq> ExpansionProtocolStatusOk then Inr (status, frame', s')
       else case receive 1 s' of (bytes, s'') \<Rightarrow>
         if length bytes \<noteq> 1 then Inr (ExpansionProtocolStatusErrorCommunication, frame', s'')
         else bind_r (expansion_protocol_get_checksum frame' total_size) (\<lambda>checksum.
           Inr (if bytes ! 0 \<noteq> checksum then ExpansionProtocolStatusErrorChecksum
                else ExpansionProtocolStatusOk, frame', s'')))"

section \<open>Sending a frame\<close>

definition expansion_protocol_encode ::
  "ExpansionFrame \<Rightarrow> (u8 list \<Rightarrow> 's \<Rightarrow> nat \<times> 's) \<Rightarrow> 's \<Rightarrow> fault + ExpansionProtocolStatus \<times> 's" where
  "expansion_protocol_encode frame send s =
     (let encoded_size = expansion_frame_get_encoded_size frame
      in if encoded_size = 0 then Inr (ExpansionProtocolStatusErrorFormat, s)
         else bind_r (expansion_protocol_get_checksum frame encoded_size) (\<lambda>checksum.
           case send (take encoded_size frame) s of (sent, s') \<Rightarrow>
             if sent \<noteq> encoded_size then Inr (ExpansionProtocolStatusErrorCommunication, s')
             else case send [checksum] s' of (sent', s'') \<Rightarrow>
               Inr (if sent' \<noteq> 1 then ExpansionProtocolStatusErrorCommunication
                    else ExpansionProtocolStatusOk, s'')))"

section \<open>Messages\<close>

text \<open>What the frames mean: the abstract messages and the bytes that carry them.\<close>

datatype expansion_message =
    Heartbeat
  | Status u8
  | BaudRate u32
  | Control u8
  | Data "u8 list"

text \<open>A 32 bit number in memory, lowest byte first.\<close>

definition bytes_le32 :: "u32 \<Rightarrow> u8 list" where
  "bytes_le32 w = map (\<lambda>i. ucast (drop_bit (8 * i) w)) [0..<4]"

definition word_le32 :: "u8 list \<Rightarrow> u32" where
  "word_le32 bs = foldr (\<lambda>b w. push_bit 8 w OR ucast b) bs 0"

fun message_bytes :: "expansion_message \<Rightarrow> u8 list" where
  "message_bytes Heartbeat = [1]"
| "message_bytes (Status e) = [2, e]"
| "message_bytes (BaudRate w) = 3 # bytes_le32 w"
| "message_bytes (Control c) = [4, c]"
| "message_bytes (Data bs) = 5 # of_nat (length bs) # bs"

fun valid_message :: "expansion_message \<Rightarrow> bool" where
  "valid_message (Data bs) = (length bs \<le> EXPANSION_PROTOCOL_MAX_DATA_SIZE)"
| "valid_message _ = True"

text \<open>The message in a complete frame, read through the members of the union.\<close>

definition frame_message :: "ExpansionFrame \<Rightarrow> expansion_message option" where
  "frame_message frame = (case frame_type (frame ! 0) of
       ExpansionFrameTypeHeartbeat \<Rightarrow> Some Heartbeat
     | ExpansionFrameTypeStatus \<Rightarrow> Some (Status (frame ! 1))
     | ExpansionFrameTypeBaudRate \<Rightarrow> Some (BaudRate (word_le32 (take 4 (drop 1 frame))))
     | ExpansionFrameTypeControl \<Rightarrow> Some (Control (frame ! 1))
     | ExpansionFrameTypeData \<Rightarrow> Some (Data (take (unat (frame ! 1)) (drop 2 frame)))
     | ExpansionFrameTypeReserved \<Rightarrow> None)"

definition xor_sum :: "u8 list \<Rightarrow> u8" where
  "xor_sum bs = foldl (XOR) 0 bs"

text \<open>The bytes of a message on the wire.\<close>

definition wire_bytes :: "expansion_message \<Rightarrow> u8 list" where
  "wire_bytes m = message_bytes m @ [xor_sum (message_bytes m)]"

text \<open>
  The parser the decoder implements, on the whole input at once: the status and the number of
  bytes it takes. The body of a frame ends after \<open>n\<close> bytes and the checksum follows.
\<close>

definition parse_body :: "nat \<Rightarrow> u8 list \<Rightarrow> ExpansionProtocolStatus \<times> nat" where
  "parse_body n xs =
     (if length xs \<le> n then (ExpansionProtocolStatusErrorCommunication, length xs)
      else if xs ! n \<noteq> xor_sum (take n xs) then (ExpansionProtocolStatusErrorChecksum, Suc n)
      else (ExpansionProtocolStatusOk, Suc n))"

definition parse_frame :: "u8 list \<Rightarrow> ExpansionProtocolStatus \<times> nat" where
  "parse_frame xs = (case xs of
       [] \<Rightarrow> (ExpansionProtocolStatusErrorCommunication, 0)
     | t # ys \<Rightarrow> (case frame_type t of
           ExpansionFrameTypeReserved \<Rightarrow> (ExpansionProtocolStatusErrorFormat, 1)
         | ExpansionFrameTypeHeartbeat \<Rightarrow> parse_body 1 xs
         | ExpansionFrameTypeStatus \<Rightarrow> parse_body 2 xs
         | ExpansionFrameTypeControl \<Rightarrow> parse_body 2 xs
         | ExpansionFrameTypeBaudRate \<Rightarrow> parse_body 5 xs
         | ExpansionFrameTypeData \<Rightarrow> (case ys of
               [] \<Rightarrow> (ExpansionProtocolStatusErrorCommunication, 1)
             | k # zs \<Rightarrow> if unat k > EXPANSION_PROTOCOL_MAX_DATA_SIZE
                 then (ExpansionProtocolStatusErrorFormat, 2) else parse_body (2 + unat k) xs)))"

section \<open>The decoder and the parser\<close>

lemma xor_sum_simps [simp]:
  "xor_sum [] = 0" "xor_sum (bs @ [b]) = xor_sum bs XOR b"
  by (simp_all add: xor_sum_def)

lemma get_checksum_xor_sum:
  "n \<le> length data \<Longrightarrow> expansion_protocol_get_checksum data n = Inr (xor_sum (take n data))"
proof (induction n)
  case 0
  then show ?case by (simp add: expansion_protocol_get_checksum_def)
next
  case (Suc n)
  have app: "for_each body (is @ js) s = bind_r (for_each body is s) (for_each body js)"
    for body :: "nat \<Rightarrow> u8 \<Rightarrow> fault + u8" and "is" js s
    by (induction "is" arbitrary: s) (auto simp: bind_r_def split: sum.splits)
  show ?case
    using Suc by (simp add: expansion_protocol_get_checksum_def app take_Suc_conv_app_nth)
qed

text \<open>The total size the loop works towards when \<open>t\<close> bytes of \<open>xs\<close> have come.\<close>

definition goal :: "u8 list \<Rightarrow> nat \<Rightarrow> nat option" where
  "goal xs t = (if t = 0 then Some 1 else case frame_type (xs ! 0) of
       ExpansionFrameTypeHeartbeat \<Rightarrow> Some 1
     | ExpansionFrameTypeStatus \<Rightarrow> Some 2
     | ExpansionFrameTypeBaudRate \<Rightarrow> Some 5
     | ExpansionFrameTypeControl \<Rightarrow> Some 2
     | ExpansionFrameTypeData \<Rightarrow> if t = 1 then Some 2
         else if unat (xs ! 1) > EXPANSION_PROTOCOL_MAX_DATA_SIZE then None else Some (2 + unat (xs ! 1))
     | ExpansionFrameTypeReserved \<Rightarrow> None)"

text \<open>The bytes received do not go beyond what the frame has shown to need.\<close>

definition within :: "u8 list \<Rightarrow> nat \<Rightarrow> bool" where
  "within xs t \<longleftrightarrow> t \<le> 1 \<or> (case frame_type (xs ! 0) of
       ExpansionFrameTypeHeartbeat \<Rightarrow> False
     | ExpansionFrameTypeStatus \<Rightarrow> t \<le> 2
     | ExpansionFrameTypeBaudRate \<Rightarrow> t \<le> 5
     | ExpansionFrameTypeControl \<Rightarrow> t \<le> 2
     | ExpansionFrameTypeData \<Rightarrow>
         t \<le> 2 \<or> (unat (xs ! 1) \<le> EXPANSION_PROTOCOL_MAX_DATA_SIZE \<and> t \<le> 2 + unat (xs ! 1))
     | ExpansionFrameTypeReserved \<Rightarrow> False)"

lemma remaining_goal:
  "expansion_frame_get_remaining_size xs t = map_option (\<lambda>g. g - t) (goal xs t)"
  unfolding expansion_frame_get_remaining_size_def goal_def Let_def
  by (auto split: ExpansionFrameType.splits)

lemma goal_bound: "goal xs t = Some g \<Longrightarrow> g \<le> sizeof_frame"
  by (auto simp: goal_def firmware_const split: if_splits ExpansionFrameType.splits)

lemma goal_cong:
  assumes "take t xs = take t ys" and "t \<le> length xs" and "t \<le> length ys"
  shows "goal xs t = goal ys t"
proof -
  have nth: "xs ! i = ys ! i" if "i < t" for i
    using assms(1) nth_take [OF that, of xs] nth_take [OF that, of ys] by simp
  consider "t = 0" | "t = 1" | "1 < t" by linarith
  then show ?thesis
    using nth [of 0] nth [of 1] by cases (auto simp: goal_def split: ExpansionFrameType.split)
qed

lemma within_goal:
  assumes "within xs t" and "goal xs t = Some g" and "u \<le> g" and "t \<le> u"
  shows "within xs u"
  using assms
  by (auto simp: within_def goal_def split: if_splits ExpansionFrameType.splits)

definition status_matches :: "u8 list \<Rightarrow> ExpansionProtocolStatus \<Rightarrow> nat \<Rightarrow> bool" where
  "status_matches xs status t = (case status of
       ExpansionProtocolStatusOk \<Rightarrow> (\<exists>g. goal xs t = Some g \<and> g \<le> t)
     | ExpansionProtocolStatusErrorFormat \<Rightarrow> goal xs t = None
     | ExpansionProtocolStatusErrorCommunication \<Rightarrow> t = length xs \<and> (\<exists>g. goal xs t = Some g \<and> t < g)
     | ExpansionProtocolStatusErrorChecksum \<Rightarrow> False)"

lemma within_le_goal: "within xs t \<Longrightarrow> goal xs t = Some g \<Longrightarrow> t \<le> g"
  by (auto simp: within_def goal_def split: if_splits ExpansionFrameType.splits)

lemma parse_frame_body:
  assumes "t \<le> length xs" and "goal xs t = Some t"
  shows "parse_frame xs = parse_body t xs"
proof (cases xs)
  case Nil
  then show ?thesis using assms by (simp add: goal_def)
next
  case (Cons x ys)
  then show ?thesis
    using assms
    by (cases ys; cases "frame_type x"; cases "t = 1") (auto simp: parse_frame_def goal_def split: if_splits)
qed

lemma parse_frame_format:
  assumes "within xs t" and "t \<le> length xs" and "goal xs t = None"
  shows "parse_frame xs = (ExpansionProtocolStatusErrorFormat, t)"
proof (cases xs)
  case Nil
  then show ?thesis using assms by (simp add: goal_def)
next
  case (Cons x ys)
  then show ?thesis
    using assms
    by (cases ys; cases "frame_type x")
       (auto simp: parse_frame_def goal_def within_def firmware_const split: if_splits)
qed

lemma parse_frame_short:
  assumes "within xs (length xs)" and "goal xs (length xs) = Some g" and "length xs < g"
  shows "parse_frame xs = (ExpansionProtocolStatusErrorCommunication, length xs)"
proof (cases xs)
  case Nil
  then show ?thesis by (simp add: parse_frame_def)
next
  case (Cons x ys)
  then show ?thesis
    using assms
    by (cases ys; cases "frame_type x")
       (auto simp: parse_frame_def parse_body_def goal_def within_def firmware_const split: if_splits)
qed

text \<open>
  A source of bytes: a receive callback whose context holds a stream of which every call takes a
  prefix, never more than asked for and never nothing while there is something and room for it.
\<close>

locale byte_source =
  fixes receive :: "nat \<Rightarrow> 's \<Rightarrow> u8 list \<times> 's"
    and good :: "'s \<Rightarrow> bool"
    and stream :: "'s \<Rightarrow> u8 list"
  assumes receive_prefix:
      "good s \<Longrightarrow> receive n s = (bytes, s') \<Longrightarrow> length bytes \<le> n \<and> stream s = bytes @ stream s' \<and> good s'"
    and receive_progress: "good s \<Longrightarrow> 0 < n \<Longrightarrow> receive n s = ([], s') \<Longrightarrow> stream s = []"
begin

lemma receive_loop_stream:
  assumes "good s" and "length frame = sizeof_frame" and "t \<le> length xs"
    and "take t frame = take t xs" and "stream s = drop t xs" and "within xs t" and "t \<le> sizeof_frame"
  shows "\<exists>status frame' u s'. receive_loop receive frame t s = Inr (status, frame', u, s') \<and> good s' \<and>
      length frame' = sizeof_frame \<and> u \<le> length xs \<and> u \<le> sizeof_frame \<and>
      take u frame' = take u xs \<and> stream s' = drop u xs \<and> within xs u \<and> status_matches xs status u"
  using assms
proof (induction "sizeof_frame - t" arbitrary: frame t s rule: less_induct)
  case less
  note IH = less(1) and prems = less(2-8)
  have goal_frame: "goal frame t = goal xs t"
    using prems by (intro goal_cong) auto
  have stop: ?case if "receive_loop receive frame t s = Inr (status, frame, t, s')" and "good s'"
    and "stream s' = drop t xs" and "status_matches xs status t" for status s'
    using that prems by blast
  show ?case
  proof (cases "goal xs t")
    case None
    then show ?thesis
      by (intro stop [of ExpansionProtocolStatusErrorFormat s])
         (simp_all add: receive_loop.simps remaining_goal goal_frame prems status_matches_def)
  next
    case (Some g)
    have le: "t \<le> g" using within_le_goal [OF prems(6) Some] .
    show ?thesis
    proof (cases "g = t")
      case True
      then show ?thesis
        using Some
        by (intro stop [of ExpansionProtocolStatusOk s])
           (simp_all add: receive_loop.simps remaining_goal goal_frame prems status_matches_def)
    next
      case False
      then have lt: "t < g" using le by simp
      obtain bytes s' where r: "receive (g - t) s = (bytes, s')" by force
      note p = receive_prefix [OF prems(1) r]
      show ?thesis
      proof (cases "bytes = []")
        case True
        then have "stream s = []" using receive_progress [OF prems(1) _ r [unfolded True]] lt by simp
        then show ?thesis
          using Some True lt p prems r
          by (intro stop [of ExpansionProtocolStatusErrorCommunication s'])
             (simp_all add: receive_loop.simps remaining_goal goal_frame status_matches_def)
      next
        case nonempty: False
        let ?u = "t + length bytes"
        let ?f = "take t frame @ bytes @ drop ?u frame"
        have u: "0 < length bytes" "?u \<le> g" "g \<le> sizeof_frame" using p lt nonempty goal_bound [OF Some] by auto
        have mem: "memcpy frame t bytes 0 (length bytes) = Inr ?f"
          using u prems(2) by (simp add: memcpy_Inr)
        have xs: "drop t xs = bytes @ stream s'" using p prems(5) by simp
        have u_xs: "?u \<le> length xs"
          using arg_cong [OF xs, of length] prems(3) by simp
        have bytes: "take (length bytes) (drop t xs) = bytes" by (simp add: xs)
        have take_u: "take ?u ?f = take ?u xs"
          using prems(2,3,4,7) by (simp add: take_add bytes)
        have drop_u: "stream s' = drop ?u xs"
          using arg_cong [OF xs, of "drop (length bytes)"] by (simp add: add.commute)
        have step: "receive_loop receive frame t s = receive_loop receive ?f ?u s'"
          using Some lt nonempty
          by (subst receive_loop.simps) (simp add: remaining_goal goal_frame r mem)
        have less: "sizeof_frame - ?u < sizeof_frame - t" using u by linarith
        show ?thesis
          unfolding step
          using less u u_xs take_u drop_u p prems(2)
          by (intro IH [OF less]) (auto intro: within_goal [OF prems(6) Some])
      qed
    qed
  qed
qed

theorem decode_refines_parser:
  assumes "good s" and "length frame = sizeof_frame"
  shows "\<exists>frame' s'. expansion_protocol_decode frame receive s = Inr (fst (parse_frame (stream s)), frame', s') \<and>
      good s' \<and> length frame' = sizeof_frame \<and> stream s' = drop (snd (parse_frame (stream s))) (stream s) \<and>
      (fst (parse_frame (stream s)) = ExpansionProtocolStatusOk \<longrightarrow>
        (let n = snd (parse_frame (stream s)) - 1 in n \<le> sizeof_frame \<and> take n frame' = take n (stream s)))"
proof -
  obtain status frame' u s' where
    loop: "receive_loop receive frame 0 s = Inr (status, frame', u, s')" "good s'"
      "length frame' = sizeof_frame" "u \<le> length (stream s)" "u \<le> sizeof_frame"
      "take u frame' = take u (stream s)" "stream s' = drop u (stream s)" "within (stream s) u"
      "status_matches (stream s) status u"
    using receive_loop_stream [of s frame 0 "stream s"] assms by (auto simp: within_def)
  show ?thesis
  proof (cases "status = ExpansionProtocolStatusOk")
    case False
    then have "parse_frame (stream s) = (status, u)"
      using loop(4,8,9) parse_frame_format parse_frame_short
      by (auto simp: status_matches_def split: ExpansionProtocolStatus.splits)
    then show ?thesis
      using False loop by (simp add: expansion_protocol_decode_def)
  next
    case True
    then have "goal (stream s) u = Some u"
      using loop(8,9) within_le_goal by (fastforce simp: status_matches_def)
    then have parse: "parse_frame (stream s) = parse_body u (stream s)"
      using loop(4) parse_frame_body by blast
    obtain bytes s'' where r: "receive 1 s' = (bytes, s'')" by force
    note p = receive_prefix [OF loop(2) r]
    have sum: "expansion_protocol_get_checksum frame' u = Inr (xor_sum (take u (stream s)))"
      using loop(3,5,6) by (simp add: get_checksum_xor_sum)
    show ?thesis
    proof (cases "bytes = []")
      case empty: True
      then have "stream s' = []" using receive_progress [OF loop(2) _ r [unfolded empty]] by simp
      then show ?thesis
        using empty True loop r p parse
        by (simp add: expansion_protocol_decode_def parse_body_def)
    next
      case False
      then obtain b where b: "bytes = [b]"
        using p by (cases bytes) auto
      then have next_b: "drop u (stream s) = b # stream s''" using p loop(7) by simp
      have "u < length (stream s)"
        using next_b by (metis drop_all list.distinct(1) not_le)
      moreover have "stream s ! u = b"
        by (rule nth_via_drop [OF next_b])
      moreover have "stream s'' = drop (Suc u) (stream s)"
        using arg_cong [OF next_b, of tl] by (simp add: tl_drop drop_Suc)
      ultimately show ?thesis
        using b True loop r p parse sum
        by (simp add: expansion_protocol_decode_def parse_body_def)
    qed
  qed
qed

end

section \<open>Messages on the wire\<close>

lemma word_le32_bytes [simp]: "word_le32 (bytes_le32 w) = w"
proof (rule bit_word_eqI)
  fix n
  assume "n < LENGTH(32)"
  then consider "n < 8" | "8 \<le> n" "n < 16" | "16 \<le> n" "n < 24" | "24 \<le> n" "n < 32"
    by fastforce
  then show "bit (word_le32 (bytes_le32 w)) n = bit w n"
    by cases (auto simp: word_le32_def bytes_le32_def upt_rec bit_simps)
qed

lemma length_bytes_le32 [simp]: "length (bytes_le32 w) = 4"
  by (simp add: bytes_le32_def)

lemma frame_type_simps [simp]:
  "frame_type 1 = ExpansionFrameTypeHeartbeat" "frame_type 2 = ExpansionFrameTypeStatus"
  "frame_type 3 = ExpansionFrameTypeBaudRate" "frame_type 4 = ExpansionFrameTypeControl"
  "frame_type 5 = ExpansionFrameTypeData"
  by (simp_all add: frame_type_def)

lemma unat_data_size [simp]:
  "length bs \<le> EXPANSION_PROTOCOL_MAX_DATA_SIZE \<Longrightarrow> unat (of_nat (length bs) :: u8) = length bs"
  by (simp add: firmware_const unat_of_nat)

lemma parse_frame_wire:
  assumes "valid_message m"
  shows "parse_frame (wire_bytes m @ rest) = (ExpansionProtocolStatusOk, length (wire_bytes m))"
  using assms
  by (cases m) (auto simp: wire_bytes_def parse_frame_def parse_body_def nth_append)

lemma frame_message_bytes:
  assumes "valid_message m" and "take (length (message_bytes m)) frame = message_bytes m"
  shows "frame_message frame = Some m"
proof -
  obtain rest where "frame = message_bytes m @ rest"
    using assms(2) append_take_drop_id by metis
  then show ?thesis
    using assms(1) by (cases m) (simp_all add: frame_message_def)
qed

lemma encoded_size_message:
  assumes "valid_message m" and "take (length (message_bytes m)) frame = message_bytes m"
  shows "expansion_frame_get_encoded_size frame = length (message_bytes m)"
proof -
  obtain rest where "frame = message_bytes m @ rest"
    using assms(2) append_take_drop_id by metis
  then show ?thesis
    using assms(1) by (cases m) (simp_all add: expansion_frame_get_encoded_size_def)
qed

lemma length_message_bytes: "valid_message m \<Longrightarrow> length (message_bytes m) \<le> sizeof_frame"
  by (cases m) (auto simp: firmware_const)

lemma encode_message:
  assumes "valid_message m" and "take (length (message_bytes m)) frame = message_bytes m"
  shows "expansion_protocol_encode frame send s =
    (case send (message_bytes m) s of (sent, s') \<Rightarrow>
       if sent \<noteq> length (message_bytes m) then Inr (ExpansionProtocolStatusErrorCommunication, s')
       else case send [xor_sum (message_bytes m)] s' of (sent', s'') \<Rightarrow>
         Inr (if sent' \<noteq> 1 then ExpansionProtocolStatusErrorCommunication else ExpansionProtocolStatusOk, s''))"
proof -
  have "length (message_bytes m) \<le> length frame"
    using arg_cong [OF assms(2), of length] by simp
  moreover have "length (message_bytes m) \<noteq> 0" by (cases m) simp_all
  ultimately show ?thesis
    using assms by (simp add: expansion_protocol_encode_def encoded_size_message get_checksum_xor_sum Let_def)
qed

lemma xor_changes: "b \<noteq> v \<Longrightarrow> (a XOR (b XOR v)) \<noteq> (a :: u8)"
proof
  assume "b \<noteq> v" and "a XOR (b XOR v) = a"
  then have "a XOR (a XOR (b XOR v)) = 0" by (simp only: xor_self_eq)
  then have "b XOR v = 0" by (simp flip: xor.assoc)
  then have "(b XOR v) XOR v = v" by simp
  with \<open>b \<noteq> v\<close> show False
    by (simp add: xor.assoc)
qed

lemma xor_sum_update:
  "i < length xs \<Longrightarrow> xor_sum (xs[i := v]) = (xor_sum xs XOR (xs ! i XOR v))"
proof (induction xs rule: rev_induct)
  case Nil
  then show ?case by simp
next
  case (snoc x xs)
  then show ?case
    by (cases "i = length xs") (auto simp: nth_append list_update_append ac_simps)
qed

text \<open>A frame the parser accepts is the wire form of a message, so nothing else is accepted.\<close>

lemma parse_body_Ok:
  "parse_body n xs = (ExpansionProtocolStatusOk, k) \<Longrightarrow>
    k = Suc n \<and> n < length xs \<and> take k xs = take n xs @ [xor_sum (take n xs)]"
  by (auto simp: parse_body_def take_Suc_conv_app_nth split: if_splits)

lemma bit_word_le32:
  "bit (word_le32 bs) n \<longleftrightarrow> n < 32 \<and> n div 8 < length bs \<and> bit (bs ! (n div 8)) (n mod 8)"
proof (induction bs arbitrary: n)
  case Nil
  then show ?case by (simp add: word_le32_def)
next
  case (Cons b bs)
  have word: "word_le32 (b # bs) = (push_bit 8 (word_le32 bs) OR ucast b)"
    by (simp add: word_le32_def)
  show ?case
  proof (cases "n < 8")
    case True
    then show ?thesis by (simp add: word bit_simps)
  next
    case False
    then obtain k where n: "n = 8 + k" using le_Suc_ex by (metis not_less)
    have "(8 + k) div 8 = Suc (k div 8)" "(8 + k) mod 8 = k mod 8" by simp_all
    then show ?thesis
      using Cons [of k] by (auto simp: word n bit_simps dest: bit_imp_le_length)
  qed
qed

lemma bytes_le32_word:
  assumes "length bs = 4"
  shows "bytes_le32 (word_le32 bs) = bs"
proof (rule nth_equalityI)
  fix i
  assume "i < length (bytes_le32 (word_le32 bs))"
  then have i: "i < 4" by simp
  then have "(ucast (drop_bit (8 * i) (word_le32 bs)) :: u8) = bs ! i"
    by (intro bit_word_eqI) (auto simp: bit_simps bit_word_le32 assms)
  with i show "bytes_le32 (word_le32 bs) ! i = bs ! i"
    by (simp add: bytes_le32_def)
qed (simp add: assms)

lemma parse_frame_sound:
  assumes "parse_frame xs = (ExpansionProtocolStatusOk, k)"
  shows "\<exists>m. valid_message m \<and> take k xs = wire_bytes m"
proof -
  obtain t ys where xs: "xs = t # ys"
    using assms by (cases xs) (auto simp: parse_frame_def)
  have body: ?thesis if "parse_body n xs = (ExpansionProtocolStatusOk, k)" and "valid_message m"
      and "n < length xs \<Longrightarrow> take n xs = message_bytes m" for n m
    using parse_body_Ok [OF that(1)] that(2,3) by (auto simp: wire_bytes_def)
  have type: "frame_type t = ExpansionFrameTypeHeartbeat \<Longrightarrow> t = 1"
      "frame_type t = ExpansionFrameTypeStatus \<Longrightarrow> t = 2"
      "frame_type t = ExpansionFrameTypeBaudRate \<Longrightarrow> t = 3"
      "frame_type t = ExpansionFrameTypeControl \<Longrightarrow> t = 4"
      "frame_type t = ExpansionFrameTypeData \<Longrightarrow> t = 5"
    by (auto simp: frame_type_def split: if_splits)
  show ?thesis
  proof (cases "frame_type t")
    case ExpansionFrameTypeHeartbeat
    then show ?thesis
      using assms type(1) by (intro body [of 1 Heartbeat]) (auto simp: parse_frame_def xs)
  next
    case ExpansionFrameTypeStatus
    then show ?thesis
      using assms type(2)
      by (cases ys; intro body [of 2 "Status (xs ! 1)"]) (auto simp: parse_frame_def xs)
  next
    case ExpansionFrameTypeBaudRate
    then show ?thesis
      using assms type(3)
      by (intro body [of 5 "BaudRate (word_le32 (take 4 ys))"]) (auto simp: parse_frame_def xs bytes_le32_word)
  next
    case ExpansionFrameTypeControl
    then show ?thesis
      using assms type(4)
      by (cases ys; intro body [of 2 "Control (xs ! 1)"]) (auto simp: parse_frame_def xs)
  next
    case ExpansionFrameTypeData
    then obtain n zs where ys: "ys = n # zs" and n: "unat n \<le> EXPANSION_PROTOCOL_MAX_DATA_SIZE"
      using assms by (auto simp: parse_frame_def xs split: list.splits if_splits)
    then show ?thesis
      using assms ExpansionFrameTypeData type(5)
      by (intro body [of "2 + unat n" "Data (take (unat n) zs)"]) (auto simp: parse_frame_def xs)
  next
    case ExpansionFrameTypeReserved
    then show ?thesis using assms by (simp add: parse_frame_def xs)
  qed
qed

section \<open>Bounds and corrupted frames\<close>

text \<open>A callback that counts its calls.\<close>

definition counted :: "(nat \<Rightarrow> 's \<Rightarrow> u8 list \<times> 's) \<Rightarrow> nat \<Rightarrow> nat \<times> 's \<Rightarrow> u8 list \<times> nat \<times> 's" where
  "counted receive n = (\<lambda>(k, s). case receive n s of (bytes, s') \<Rightarrow> (bytes, Suc k, s'))"

lemma receive_loop_counted:
  assumes "\<forall>n s. length (fst (receive n s)) \<le> n"
    and "length frame = sizeof_frame" and "t \<le> sizeof_frame" and "k \<le> t"
  shows "\<exists>status frame' u k' s'. receive_loop (counted receive) frame t (k, s) = Inr (status, frame', u, k', s') \<and>
      length frame' = sizeof_frame \<and> u \<le> sizeof_frame \<and>
      (if status = ExpansionProtocolStatusOk then k' \<le> sizeof_frame else k' \<le> Suc sizeof_frame)"
  using assms
proof (induction "sizeof_frame - t" arbitrary: frame t k s rule: less_induct)
  case less
  note IH = less(1) and prems = less(2-5)
  show ?case
  proof (cases "goal frame t")
    case None
    then show ?thesis
      using prems by (simp add: receive_loop.simps remaining_goal)
  next
    case (Some g)
    obtain bytes s' where r: "receive (g - t) s = (bytes, s')" by force
    have len: "length bytes \<le> g - t" using prems(1) r by (metis fst_conv)
    show ?thesis
    proof (cases "g \<le> t \<or> bytes = []")
      case True
      then show ?thesis
        using prems(2,3,4) Some r
        by (auto simp: receive_loop.simps remaining_goal counted_def)
    next
      case False
      let ?u = "t + length bytes"
      let ?f = "take t frame @ bytes @ drop ?u frame"
      have u: "0 < length bytes" "?u \<le> g" "g \<le> sizeof_frame"
        using False len goal_bound [OF Some] by auto
      have mem: "memcpy frame t bytes 0 (length bytes) = Inr ?f"
        using u prems(2) by (simp add: memcpy_Inr)
      have step: "receive_loop (counted receive) frame t (k, s) = receive_loop (counted receive) ?f ?u (Suc k, s')"
        using Some False
        by (subst receive_loop.simps) (simp add: remaining_goal counted_def r mem)
      have less: "sizeof_frame - ?u < sizeof_frame - t" using u by linarith
      then show ?thesis
        unfolding step using prems(1,2,4) u by (intro IH [OF less]) auto
    qed
  qed
qed

text \<open>C30 Receiving a frame ends for every callback that keeps to the size it is asked for: the decoder
  calls it at most 67 times, once per byte of the largest frame and once for the checksum, and writes
  nothing outside the frame, whatever the bytes are.\<close>

theorem expansion_decode_bounded:
  assumes "\<forall>n s. length (fst (receive n s)) \<le> n" and "length frame = sizeof_frame"
  shows "\<exists>status frame' calls s'.
    expansion_protocol_decode frame (counted receive) (0, s) = Inr (status, frame', calls, s') \<and>
    length frame' = sizeof_frame \<and> calls \<le> 67"
proof -
  obtain status frame' u k s' where
    loop: "receive_loop (counted receive) frame 0 (0, s) = Inr (status, frame', u, k, s')"
      "length frame' = sizeof_frame" "u \<le> sizeof_frame"
      "if status = ExpansionProtocolStatusOk then k \<le> sizeof_frame else k \<le> Suc sizeof_frame"
    using receive_loop_counted [of receive frame 0 0 s] assms by auto
  obtain bytes s'' where r: "receive 1 s' = (bytes, s'')" by force
  have "expansion_protocol_get_checksum frame' u = Inr (xor_sum (take u frame'))"
    using loop(2,3) by (simp add: get_checksum_xor_sum)
  then show ?thesis
    using loop r by (cases "status = ExpansionProtocolStatusOk")
      (auto simp: expansion_protocol_decode_def counted_def firmware_const)
qed

theorem expansion_decode_bounded_witness:
  "\<exists>status frame' calls s'.
    expansion_protocol_decode (replicate 66 7) (counted (\<lambda>n s. (take n s, drop n s))) (0, [5, 3, 1, 2, 3, 6]) =
      Inr (status, frame', calls, s') \<and> length frame' = sizeof_frame \<and> calls \<le> 67"
  by (rule expansion_decode_bounded) (simp_all add: firmware_const)

text \<open>The bytes that say how long the frame is.\<close>

fun header_size :: "expansion_message \<Rightarrow> nat" where
  "header_size (Data bs) = 2"
| "header_size _ = 1"

lemma corrupted_frame_rejected:
  assumes "valid_message m" and "header_size m \<le> i" and "i < length (wire_bytes m)" and "v \<noteq> wire_bytes m ! i"
  shows "parse_frame ((wire_bytes m)[i := v] @ rest) =
    (ExpansionProtocolStatusErrorChecksum, length (wire_bytes m))"
proof -
  let ?n = "length (message_bytes m)" and ?xs = "(wire_bytes m)[i := v] @ rest"
  have head: "?xs ! j = message_bytes m ! j" if "j < header_size m" for j
  proof -
    have "header_size m \<le> ?n" by (cases m) simp_all
    then have "j < ?n" "j \<noteq> i" using that assms(2) by linarith+
    then show ?thesis by (simp add: wire_bytes_def nth_append)
  qed
  have "goal ?xs ?n = Some ?n"
    using assms(1) head [of 0] head [of 1] by (cases m) (simp_all add: goal_def)
  then have "parse_frame ?xs = parse_body ?n ?xs"
    by (intro parse_frame_body) (simp_all add: wire_bytes_def)
  moreover have "?xs ! ?n \<noteq> xor_sum (take ?n ?xs)"
  proof (cases "i = ?n")
    case True
    then show ?thesis using assms(4) by (simp add: wire_bytes_def nth_append)
  next
    case False
    then have i: "i < ?n" using assms(3) by (simp add: wire_bytes_def)
    then have "take ?n ?xs = (message_bytes m)[i := v]" "?xs ! ?n = xor_sum (message_bytes m)"
      by (simp_all add: wire_bytes_def list_update_append nth_append)
    moreover have "v \<noteq> message_bytes m ! i"
      using assms(4) i by (simp add: wire_bytes_def nth_append)
    ultimately show ?thesis
      using i xor_changes [of "message_bytes m ! i" v] by (metis xor_sum_update)
  qed
  ultimately show ?thesis
    by (simp add: parse_body_def wire_bytes_def)
qed

section \<open>Sources that run dry\<close>

text \<open>A complete frame as a handler gets it: the size of a data frame fits its bytes.\<close>

definition frame_ok :: "ExpansionFrame \<Rightarrow> bool" where
  "frame_ok frame \<longleftrightarrow> length frame = sizeof_frame \<and>
     (frame_type (frame ! 0) = ExpansionFrameTypeData \<longrightarrow> unat (frame ! 1) \<le> EXPANSION_PROTOCOL_MAX_DATA_SIZE)"

text \<open>
  A receive callback that may fail at any time but draws on a finite supply: every call takes the
  bytes it delivers from the supply, leaves the core of its context alone and keeps it calm.
\<close>

locale finite_source =
  fixes receive :: "nat \<Rightarrow> 's \<Rightarrow> u8 list \<times> 's"
    and stock :: "'s \<Rightarrow> nat"
    and core :: "'s \<Rightarrow> 'c"
    and calm :: "'s \<Rightarrow> bool"
  assumes receive_within:
    "receive n s = (bytes, s') \<Longrightarrow>
       length bytes \<le> n \<and> stock s' + length bytes \<le> stock s \<and> core s' = core s \<and> (calm s \<longrightarrow> calm s')"
begin

lemma receive_loop_stock:
  assumes "length frame = sizeof_frame" and "t \<le> sizeof_frame"
  shows "\<exists>status frame' u s'. receive_loop receive frame t s = Inr (status, frame', u, s') \<and>
      length frame' = sizeof_frame \<and> u \<le> sizeof_frame \<and> stock s' \<le> stock s \<and> core s' = core s \<and>
      (calm s \<longrightarrow> calm s') \<and> (status = ExpansionProtocolStatusOk \<longrightarrow> (\<exists>g. goal frame' u = Some g \<and> g \<le> u))"
  using assms
proof (induction "sizeof_frame - t" arbitrary: frame t s rule: less_induct)
  case less
  note IH = less(1) and prems = less(2,3)
  show ?case
  proof (cases "goal frame t")
    case None
    then show ?thesis using prems by (simp add: receive_loop.simps remaining_goal)
  next
    case (Some g)
    obtain bytes s' where r: "receive (g - t) s = (bytes, s')" by force
    note p = receive_within [OF r]
    show ?thesis
    proof (cases "g \<le> t \<or> bytes = []")
      case True
      then show ?thesis
        using prems Some r p by (auto simp: receive_loop.simps remaining_goal)
    next
      case False
      let ?u = "t + length bytes"
      let ?f = "take t frame @ bytes @ drop ?u frame"
      have u: "0 < length bytes" "?u \<le> g" "g \<le> sizeof_frame"
        using False p goal_bound [OF Some] by auto
      have mem: "memcpy frame t bytes 0 (length bytes) = Inr ?f"
        using u prems by (simp add: memcpy_Inr)
      have step: "receive_loop receive frame t s = receive_loop receive ?f ?u s'"
        using Some False by (subst receive_loop.simps) (simp add: remaining_goal r mem)
      have less: "sizeof_frame - ?u < sizeof_frame - t" using u by linarith
      have "length ?f = sizeof_frame" "?u \<le> sizeof_frame" using prems u by simp_all
      from IH [OF less this, of s'] show ?thesis
        unfolding step using p by fastforce
    qed
  qed
qed

lemma decode_stock:
  assumes "length frame = sizeof_frame"
  shows "\<exists>status frame' s'. expansion_protocol_decode frame receive s = Inr (status, frame', s') \<and>
      length frame' = sizeof_frame \<and> stock s' \<le> stock s \<and> core s' = core s \<and> (calm s \<longrightarrow> calm s') \<and>
      (status = ExpansionProtocolStatusOk \<longrightarrow> frame_ok frame' \<and> frame_message frame' \<noteq> None \<and> stock s' < stock s)"
proof -
  obtain status frame' u s' where
    loop: "receive_loop receive frame 0 s = Inr (status, frame', u, s')"
      "length frame' = sizeof_frame" "u \<le> sizeof_frame" "stock s' \<le> stock s" "core s' = core s"
      "calm s \<longrightarrow> calm s'" "status = ExpansionProtocolStatusOk \<longrightarrow> (\<exists>g. goal frame' u = Some g \<and> g \<le> u)"
    using receive_loop_stock [of frame 0 s] assms by auto
  obtain bytes s'' where r: "receive 1 s' = (bytes, s'')" by force
  note p = receive_within [OF r]
  have "frame_ok frame' \<and> frame_message frame' \<noteq> None" if "goal frame' u = Some g" and "g \<le> u" for g
    using that loop(2)
    by (auto simp: frame_ok_def frame_message_def goal_def split: if_splits ExpansionFrameType.splits)
  moreover have "expansion_protocol_get_checksum frame' u = Inr (xor_sum (take u frame'))"
    using loop(2,3) by (simp add: get_checksum_xor_sum)
  ultimately show ?thesis
    using loop r p by (cases "status = ExpansionProtocolStatusOk") (auto simp: expansion_protocol_decode_def)
qed

end

end
