(* ===== verification/Expansion_Worker.thy ===== *)
theory Expansion_Worker
  imports Expansion_Protocol
begin

text \<open>
  The thread that serves an expansion module, \<^verbatim>\<open>services/expansion/expansion_worker.c\<close>. The state
  is the worker structure with the objects it owns: the receive buffer and the thread flags, which
  interrupts change, the bytes sent, the RPC session with its semaphore and the holder count of the
  RPC record. What happens outside the thread is a list of batches: a batch holds the interrupts and
  requests that come in before the next operation of the thread on its buffer or flags. The RPC
  service and the baud rates of the port are parameters.
\<close>

unbundle bit_operations_syntax

section \<open>The worker and its surroundings\<close>

datatype ExpansionWorkerState =
    ExpansionWorkerStateHandShake
  | ExpansionWorkerStateConnected
  | ExpansionWorkerStateRpcActive

datatype ExpansionWorkerExitReason =
    ExpansionWorkerExitReasonUnknown
  | ExpansionWorkerExitReasonUser
  | ExpansionWorkerExitReasonError
  | ExpansionWorkerExitReasonTimeout

datatype ExpansionWorkerCallbackReason =
    ExpansionWorkerCallbackReasonExit
  | ExpansionWorkerCallbackReasonConnected

definition ExpansionWorkerFlagStop :: u32 where [firmware_const]: "ExpansionWorkerFlagStop = push_bit 0 1"
definition ExpansionWorkerFlagData :: u32 where [firmware_const]: "ExpansionWorkerFlagData = push_bit 1 1"
definition ExpansionWorkerFlagError :: u32 where [firmware_const]: "ExpansionWorkerFlagError = push_bit 2 1"

definition EXPANSION_ALL_FLAGS :: u32 where
  [firmware_const]: "EXPANSION_ALL_FLAGS = (ExpansionWorkerFlagData OR ExpansionWorkerFlagStop OR ExpansionWorkerFlagError)"

definition FuriFlagError :: u32 where [firmware_const]: "FuriFlagError = 0x80000000"
definition FuriFlagErrorTimeout :: u32 where [firmware_const]: "FuriFlagErrorTimeout = 0xFFFFFFFE"

definition EXPANSION_WORKER_BUFFER_SIZE :: nat where
  [firmware_const]: "EXPANSION_WORKER_BUFFER_SIZE = sizeof_frame + 1"

text \<open>What can happen beside the thread: a serial interrupt with the event bits and the bytes in the
  port, a request to stop, a data frame that was not acknowledged in time.\<close>

datatype happening = SerialRx u32 "u8 list" | StopRequest | SendTimeout

record 'w ExpansionWorker =
  rx_buf :: "u8 list"
  thread_flags :: u32
  upcoming :: "happening list list"
  exit_reason :: ExpansionWorkerExitReason
  worker_state :: ExpansionWorkerState
  serial_out :: "u8 list"
  serial_baud :: u32
  serial_acquired :: bool
  insomnia :: int
  rpc_session :: bool
  rpc_session_alive :: bool
  rpc_record_holders :: int
  tx_semaphore :: "nat option"
  otg_enabled :: bool
  callbacks :: "ExpansionWorkerCallbackReason list"
  rpc_context :: 'w

text \<open>The services the worker calls: which baud rates the port has, whether an RPC session can be
  opened, and how many bytes of its input a session takes.\<close>

record 'w expansion_services =
  is_baud_rate_supported :: "u32 \<Rightarrow> bool"
  rpc_session_open :: "'w \<Rightarrow> bool \<times> 'w"
  rpc_session_feed :: "u8 list \<Rightarrow> 'w \<Rightarrow> nat \<times> 'w"

section \<open>Receiving\<close>

definition thread_flags_set :: "u32 \<Rightarrow> 'w ExpansionWorker \<Rightarrow> 'w ExpansionWorker" where
  "thread_flags_set flags w = w\<lparr>thread_flags := thread_flags w OR flags\<rparr>"

text \<open>A full stream buffer drops the byte.\<close>

definition stream_buffer_send :: "u8 \<Rightarrow> 'w ExpansionWorker \<Rightarrow> 'w ExpansionWorker" where
  "stream_buffer_send b w = (if length (rx_buf w) < EXPANSION_WORKER_BUFFER_SIZE
     then w\<lparr>rx_buf := rx_buf w @ [b]\<rparr> else w)"

text \<open>The error bits are those for noise, framing and overrun; bit 0 announces data.\<close>

definition expansion_worker_serial_rx_callback ::
  "u32 \<Rightarrow> u8 list \<Rightarrow> 'w ExpansionWorker \<Rightarrow> 'w ExpansionWorker" where
  "expansion_worker_serial_rx_callback event bytes w =
     (if event AND (8 OR 4 OR 16) \<noteq> 0 then thread_flags_set ExpansionWorkerFlagError w
      else if event AND 1 \<noteq> 0 then thread_flags_set ExpansionWorkerFlagData (fold stream_buffer_send bytes w)
      else w)"

definition expansion_worker_stop_request :: "'w ExpansionWorker \<Rightarrow> 'w ExpansionWorker" where
  "expansion_worker_stop_request w = thread_flags_set ExpansionWorkerFlagStop w"

fun happen :: "happening \<Rightarrow> 'w ExpansionWorker \<Rightarrow> 'w ExpansionWorker" where
  "happen (SerialRx event bytes) w = expansion_worker_serial_rx_callback event bytes w"
| "happen StopRequest w = expansion_worker_stop_request w"
| "happen SendTimeout w = thread_flags_set ExpansionWorkerFlagError w"

definition catch_up :: "'w ExpansionWorker \<Rightarrow> 'w ExpansionWorker" where
  "catch_up w = (case upcoming w of [] \<Rightarrow> w | batch # rest \<Rightarrow> fold happen batch (w\<lparr>upcoming := rest\<rparr>))"

definition stream_buffer_receive :: "nat \<Rightarrow> 'w ExpansionWorker \<Rightarrow> u8 list \<times> 'w ExpansionWorker" where
  "stream_buffer_receive n w =
     (let w1 = catch_up w in (take n (rx_buf w1), w1\<lparr>rx_buf := drop n (rx_buf w1)\<rparr>))"

text \<open>Waiting for the flags times out when nothing has set one.\<close>

definition thread_flags_wait :: "'w ExpansionWorker \<Rightarrow> u32 \<times> 'w ExpansionWorker" where
  "thread_flags_wait w =
     (let w1 = catch_up w
      in if thread_flags w1 AND EXPANSION_ALL_FLAGS \<noteq> 0
         then (thread_flags w1, w1\<lparr>thread_flags := thread_flags w1 AND NOT EXPANSION_ALL_FLAGS\<rparr>)
         else (FuriFlagErrorTimeout, w1))"

lemma upcoming_happen [simp]: "upcoming (happen h w) = upcoming w"
proof -
  have "upcoming (fold stream_buffer_send bs w) = upcoming w" for bs
    by (induction bs arbitrary: w) (simp_all add: stream_buffer_send_def)
  then show ?thesis
    by (cases h) (simp_all add: thread_flags_set_def expansion_worker_serial_rx_callback_def expansion_worker_stop_request_def)
qed

lemma upcoming_fold_happen [simp]: "upcoming (fold happen hs w) = upcoming w"
  by (induction hs arbitrary: w) simp_all

lemma upcoming_catch_up [simp]: "upcoming (catch_up w) = tl (upcoming w)"
  by (simp add: catch_up_def split: list.splits)

text \<open>What is left to wait for: the batches, and flags that are still set.\<close>

definition waits_left :: "'w ExpansionWorker \<Rightarrow> nat" where
  "waits_left w = length (upcoming w) + (if thread_flags w AND EXPANSION_ALL_FLAGS \<noteq> 0 then 1 else 0)"

lemma waits_left_decrease:
  assumes "stream_buffer_receive n w = (bytes, w1)" and "thread_flags_wait w1 = (flags, w2)"
    and "flags AND FuriFlagError = 0"
  shows "waits_left w2 < waits_left w"
proof -
  have flags: "thread_flags (catch_up w1) AND EXPANSION_ALL_FLAGS \<noteq> 0"
    "w2 = (catch_up w1)\<lparr>thread_flags := thread_flags (catch_up w1) AND NOT EXPANSION_ALL_FLAGS\<rparr>"
    using assms(2,3) by (auto simp: thread_flags_wait_def Let_def firmware_const split: if_splits)
  have w1: "upcoming w1 = tl (upcoming w)"
    using assms(1) by (auto simp: stream_buffer_receive_def Let_def)
  have w2: "waits_left w2 = length (tl (tl (upcoming w)))"
    by (simp add: waits_left_def flags(2) w1 and.assoc)
  show ?thesis
  proof (cases "upcoming w")
    case Nil
    then have "w1 = w\<lparr>rx_buf := drop n (rx_buf w)\<rparr>" "catch_up w1 = w1"
      using assms(1) w1 by (auto simp: stream_buffer_receive_def catch_up_def Let_def)
    then show ?thesis using flags(1) w2 Nil by (simp add: waits_left_def)
  next
    case (Cons b bs)
    then show ?thesis unfolding w2 by (simp add: waits_left_def)
  qed
qed

text \<open>The loop of the receive callback; a flag for data, or none, goes back to the buffer.\<close>

function receive_wait :: "nat \<Rightarrow> u8 list \<Rightarrow> 'w ExpansionWorker \<Rightarrow> u8 list \<times> 'w ExpansionWorker" where
  "receive_wait data_size received w =
     (case stream_buffer_receive (data_size - length received) w of (bytes, w1) \<Rightarrow>
        if length (received @ bytes) = data_size then (received @ bytes, w1)
        else case thread_flags_wait w1 of (flags, w2) \<Rightarrow>
          if flags AND FuriFlagError \<noteq> 0
          then (received @ bytes, w2\<lparr>exit_reason := if flags = FuriFlagErrorTimeout
                  then ExpansionWorkerExitReasonTimeout else ExpansionWorkerExitReasonError\<rparr>)
          else if flags AND ExpansionWorkerFlagStop \<noteq> 0
          then (received @ bytes, w2\<lparr>exit_reason := ExpansionWorkerExitReasonUser\<rparr>)
          else if flags AND ExpansionWorkerFlagError \<noteq> 0
          then (received @ bytes, w2\<lparr>exit_reason := ExpansionWorkerExitReasonError\<rparr>)
          else receive_wait data_size (received @ bytes) w2)"
  by pat_completeness auto
termination
  by (relation "measure (\<lambda>(n, received, w). waits_left w)")
     (auto intro: waits_left_decrease [OF sym sym])

declare receive_wait.simps [simp del]

definition expansion_worker_receive_callback :: "nat \<Rightarrow> 'w ExpansionWorker \<Rightarrow> u8 list \<times> 'w ExpansionWorker" where
  "expansion_worker_receive_callback data_size w = receive_wait data_size [] w"

definition expansion_worker_receive_frame ::
  "'w ExpansionWorker \<Rightarrow> ExpansionFrame \<Rightarrow> fault + bool \<times> ExpansionFrame \<times> 'w ExpansionWorker" where
  "expansion_worker_receive_frame w frame =
     bind_r (expansion_protocol_decode frame expansion_worker_receive_callback w) (\<lambda>(status, frame', w').
       Inr (status = ExpansionProtocolStatusOk, frame', w'))"

section \<open>Sending\<close>

definition expansion_worker_send_callback :: "u8 list \<Rightarrow> 'w ExpansionWorker \<Rightarrow> nat \<times> 'w ExpansionWorker" where
  "expansion_worker_send_callback data w = (length data, w\<lparr>serial_out := serial_out w @ data\<rparr>)"

definition expansion_worker_send_frame ::
  "'w ExpansionWorker \<Rightarrow> ExpansionFrame \<Rightarrow> fault + bool \<times> 'w ExpansionWorker" where
  "expansion_worker_send_frame w frame =
     bind_r (expansion_protocol_encode frame expansion_worker_send_callback w) (\<lambda>(status, w').
       Inr (status = ExpansionProtocolStatusOk, w'))"

definition expansion_worker_send_heartbeat :: "'w ExpansionWorker \<Rightarrow> fault + bool \<times> 'w ExpansionWorker" where
  "expansion_worker_send_heartbeat w = expansion_worker_send_frame w (1 # replicate 65 0)"

definition ExpansionFrameErrorNone :: u8 where [firmware_const]: "ExpansionFrameErrorNone = 0"
definition ExpansionFrameErrorBaudRate :: u8 where [firmware_const]: "ExpansionFrameErrorBaudRate = 2"

definition expansion_worker_send_status_response ::
  "'w ExpansionWorker \<Rightarrow> u8 \<Rightarrow> fault + bool \<times> 'w ExpansionWorker" where
  "expansion_worker_send_status_response w error = expansion_worker_send_frame w (2 # error # replicate 64 0)"

definition expansion_worker_send_data_response ::
  "'w ExpansionWorker \<Rightarrow> u8 list \<Rightarrow> nat \<Rightarrow> nat \<Rightarrow> fault + bool \<times> 'w ExpansionWorker" where
  "expansion_worker_send_data_response w data offset data_size =
     bind_r (memcpy (5 # of_nat data_size # replicate 64 0) 2 data offset data_size)
       (expansion_worker_send_frame w)"

text \<open>The callback of the RPC session splits its output into data frames, each of which waits for
  the semaphore that the acknowledgement of the module releases; \<open>acquired\<close> says whether the
  wait for each frame succeeds in time.\<close>

function rpc_send_loop ::
  "(nat \<Rightarrow> bool) \<Rightarrow> u8 list \<Rightarrow> nat \<Rightarrow> nat \<Rightarrow> 'w ExpansionWorker \<Rightarrow> fault + 'w ExpansionWorker" where
  "rpc_send_loop acquired data k sent_data_size w =
     (if \<not> sent_data_size < length data then Inr w
      else if \<not> acquired k then Inr (thread_flags_set ExpansionWorkerFlagError w)
      else let current_data_size = min (length data - sent_data_size) EXPANSION_PROTOCOL_MAX_DATA_SIZE
        in case expansion_worker_send_data_response w data sent_data_size current_data_size of
            Inl e \<Rightarrow> Inl e
          | Inr (ok, w') \<Rightarrow>
              if \<not> ok then Inr w'
              else rpc_send_loop acquired data (Suc k) (sent_data_size + current_data_size) w')"
  by pat_completeness auto
termination
  by (relation "measure (\<lambda>(acquired, data, k, sent, w). length data - sent)") (auto simp: firmware_const)

declare rpc_send_loop.simps [simp del]

definition expansion_worker_rpc_send_callback ::
  "(nat \<Rightarrow> bool) \<Rightarrow> u8 list \<Rightarrow> 'w ExpansionWorker \<Rightarrow> fault + 'w ExpansionWorker" where
  "expansion_worker_rpc_send_callback acquired data w = rpc_send_loop acquired data 0 0 w"

section \<open>The state machine\<close>

definition expansion_worker_rpc_session_open ::
  "'w expansion_services \<Rightarrow> 'w ExpansionWorker \<Rightarrow> bool \<times> 'w ExpansionWorker" where
  "expansion_worker_rpc_session_open services w =
     (case rpc_session_open services (rpc_context w) of (opened, context) \<Rightarrow>
        (opened, w\<lparr>rpc_record_holders := rpc_record_holders w + 1, rpc_context := context,
           rpc_session := opened, rpc_session_alive := opened,
           tx_semaphore := (if opened then Some 1 else tx_semaphore w)\<rparr>))"

text \<open>Closing a session or freeing a semaphore that does not exist is undefined.\<close>

definition expansion_worker_rpc_session_close :: "'w ExpansionWorker \<Rightarrow> fault + 'w ExpansionWorker" where
  "expansion_worker_rpc_session_close w =
     bind_r (if rpc_session w
             then if rpc_session_alive w \<and> tx_semaphore w \<noteq> None
               then Inr (w\<lparr>rpc_session_alive := False, tx_semaphore := None\<rparr>)
               else Inl UndefinedBehaviour
             else Inr w) (\<lambda>w1. Inr (w1\<lparr>rpc_record_holders := rpc_record_holders w1 - 1\<rparr>))"

definition expansion_worker_handle_state_handshake ::
  "'w expansion_services \<Rightarrow> 'w ExpansionWorker \<Rightarrow> ExpansionFrame \<Rightarrow> fault + bool \<times> 'w ExpansionWorker" where
  "expansion_worker_handle_state_handshake services w rx_frame =
     (if frame_type (rx_frame ! 0) \<noteq> ExpansionFrameTypeBaudRate then Inr (False, w)
      else let baud_rate = word_le32 (take 4 (drop 1 rx_frame))
        in if is_baud_rate_supported services baud_rate
           then bind_r (expansion_worker_send_status_response
                 (w\<lparr>worker_state := ExpansionWorkerStateConnected,
                    callbacks := callbacks w @ [ExpansionWorkerCallbackReasonConnected]\<rparr>)
                 ExpansionFrameErrorNone) (\<lambda>(ok, w1).
               if \<not> ok then Inr (False, w1) else Inr (True, w1\<lparr>serial_baud := baud_rate\<rparr>))
           else bind_r (expansion_worker_send_status_response w ExpansionFrameErrorBaudRate) (\<lambda>(ok, w1).
               if \<not> ok then Inr (False, w1) else Inr (True, w1)))"

text \<open>The control commands: 0 starts and 1 stops RPC, 2 and 3 switch the 5V supply.\<close>

definition expansion_worker_handle_state_connected ::
  "'w expansion_services \<Rightarrow> 'w ExpansionWorker \<Rightarrow> ExpansionFrame \<Rightarrow> fault + bool \<times> 'w ExpansionWorker" where
  "expansion_worker_handle_state_connected services w rx_frame =
     (case frame_type (rx_frame ! 0) of
        ExpansionFrameTypeControl \<Rightarrow>
          (let command = rx_frame ! 1;
               (accepted, w1) =
                 (if command = 0
                  then case expansion_worker_rpc_session_open services w of (opened, w') \<Rightarrow>
                    (opened, if opened then w'\<lparr>worker_state := ExpansionWorkerStateRpcActive\<rparr> else w')
                  else if command = 2 then (True, w\<lparr>otg_enabled := True\<rparr>)
                  else if command = 3 then (True, w\<lparr>otg_enabled := False\<rparr>)
                  else (False, w))
           in if \<not> accepted then Inr (False, w1)
              else expansion_worker_send_status_response w1 ExpansionFrameErrorNone)
      | ExpansionFrameTypeHeartbeat \<Rightarrow> expansion_worker_send_heartbeat w
      | _ \<Rightarrow> Inr (False, w))"

definition semaphore_release :: "'w ExpansionWorker \<Rightarrow> fault + 'w ExpansionWorker" where
  "semaphore_release w = (case tx_semaphore w of None \<Rightarrow> Inl FuriCheck | Some n \<Rightarrow> Inr (w\<lparr>tx_semaphore := Some 1\<rparr>))"

definition expansion_worker_handle_state_rpc_active ::
  "'w expansion_services \<Rightarrow> 'w ExpansionWorker \<Rightarrow> ExpansionFrame \<Rightarrow> fault + bool \<times> 'w ExpansionWorker" where
  "expansion_worker_handle_state_rpc_active services w rx_frame =
     (case frame_type (rx_frame ! 0) of
        ExpansionFrameTypeData \<Rightarrow>
          bind_r (expansion_worker_send_status_response w ExpansionFrameErrorNone) (\<lambda>(ok, w1).
            if \<not> ok then Inr (False, w1)
            else if \<not> rpc_session_alive w1 then Inl UndefinedBehaviour
            else if 2 + unat (rx_frame ! 1) > length rx_frame then Inl OutOfBounds
            else case rpc_session_feed services (take (unat (rx_frame ! 1)) (drop 2 rx_frame)) (rpc_context w1) of
              (size_consumed, context) \<Rightarrow>
                Inr (size_consumed = unat (rx_frame ! 1), w1\<lparr>rpc_context := context\<rparr>))
      | ExpansionFrameTypeControl \<Rightarrow>
          if rx_frame ! 1 = 1
          then bind_r (expansion_worker_rpc_session_close (w\<lparr>worker_state := ExpansionWorkerStateConnected\<rparr>)) (\<lambda>w1.
            expansion_worker_send_status_response w1 ExpansionFrameErrorNone)
          else Inr (False, w)
      | ExpansionFrameTypeStatus \<Rightarrow>
          if rx_frame ! 1 \<noteq> ExpansionFrameErrorNone then Inr (False, w)
          else bind_r (semaphore_release w) (\<lambda>w1. Inr (True, w1))
      | ExpansionFrameTypeHeartbeat \<Rightarrow> expansion_worker_send_heartbeat w
      | _ \<Rightarrow> Inr (False, w))"

definition expansion_handlers ::
  "'w expansion_services \<Rightarrow> 'w ExpansionWorker \<Rightarrow> ExpansionFrame \<Rightarrow> fault + bool \<times> 'w ExpansionWorker" where
  "expansion_handlers services w = (case worker_state w of
       ExpansionWorkerStateHandShake \<Rightarrow> expansion_worker_handle_state_handshake services w
     | ExpansionWorkerStateConnected \<Rightarrow> expansion_worker_handle_state_connected services w
     | ExpansionWorkerStateRpcActive \<Rightarrow> expansion_worker_handle_state_rpc_active services w)"

text \<open>One round of the loop, and the loop with a bound on its rounds (\<open>None\<close> when it is too small).\<close>

definition expansion_round ::
  "'w expansion_services \<Rightarrow> 'w ExpansionWorker \<Rightarrow> ExpansionFrame \<Rightarrow>
     fault + bool \<times> ExpansionFrame \<times> 'w ExpansionWorker" where
  "expansion_round services w rx_frame =
     bind_r (expansion_worker_receive_frame w rx_frame) (\<lambda>(received, frame, w1).
       if \<not> received then Inr (False, frame, w1)
       else bind_r (expansion_handlers services w1 frame) (\<lambda>(handled, w2). Inr (handled, frame, w2)))"

fun expansion_worker_state_machine ::
  "'w expansion_services \<Rightarrow> nat \<Rightarrow> 'w ExpansionWorker \<Rightarrow> ExpansionFrame \<Rightarrow> (fault + 'w ExpansionWorker) option" where
  "expansion_worker_state_machine services 0 w rx_frame = None"
| "expansion_worker_state_machine services (Suc fuel) w rx_frame =
     (case expansion_round services w rx_frame of
        Inl e \<Rightarrow> Some (Inl e)
      | Inr (continue, frame, w1) \<Rightarrow>
          if continue then expansion_worker_state_machine services fuel w1 frame else Some (Inr w1))"

text \<open>The body of the thread; \<open>rx_frame\<close> is what its stack holds before the first frame, and
  \<open>available\<close> says whether the serial port can be acquired.\<close>

definition worker_begin :: "'w ExpansionWorker \<Rightarrow> 'w ExpansionWorker" where
  "worker_begin w = w\<lparr>insomnia := insomnia w + 1, serial_acquired := True,
     worker_state := ExpansionWorkerStateHandShake, exit_reason := ExpansionWorkerExitReasonUnknown,
     serial_baud := 9600\<rparr>"

definition worker_end :: "'w ExpansionWorker \<Rightarrow> fault + 'w ExpansionWorker" where
  "worker_end w =
     bind_r (if worker_state w = ExpansionWorkerStateRpcActive then expansion_worker_rpc_session_close w else Inr w)
       (\<lambda>w1. Inr (w1\<lparr>serial_acquired := False, insomnia := insomnia w1 - 1,
          callbacks := (if exit_reason w1 \<noteq> ExpansionWorkerExitReasonUser
            then callbacks w1 @ [ExpansionWorkerCallbackReasonExit] else callbacks w1)\<rparr>))"

definition expansion_worker ::
  "'w expansion_services \<Rightarrow> bool \<Rightarrow> nat \<Rightarrow> ExpansionFrame \<Rightarrow> 'w ExpansionWorker \<Rightarrow> (fault + 'w ExpansionWorker) option" where
  "expansion_worker services available fuel rx_frame w =
     (if \<not> available then Some (Inl FuriCheck)
      else case expansion_worker_send_heartbeat (worker_begin w) of
          Inl e \<Rightarrow> Some (Inl e)
        | Inr (sent, w1) \<Rightarrow>
            map_option (\<lambda>r. bind_r r worker_end)
              (if sent then expansion_worker_state_machine services fuel w1 rx_frame else Some (Inr w1)))"

text \<open>A worker fresh from \<^verbatim>\<open>expansion_worker_alloc\<close>, in cleared memory, with what lies ahead of it.\<close>

definition expansion_worker_alloc :: "happening list list \<Rightarrow> bool \<Rightarrow> int \<Rightarrow> int \<Rightarrow> 'w \<Rightarrow> 'w ExpansionWorker" where
  "expansion_worker_alloc events otg awake holders context =
     \<lparr>rx_buf = [], thread_flags = 0, upcoming = events, exit_reason = ExpansionWorkerExitReasonUnknown,
      worker_state = ExpansionWorkerStateHandShake, serial_out = [], serial_baud = 0, serial_acquired = False,
      insomnia = awake, rpc_session = False, rpc_session_alive = False, rpc_record_holders = holders,
      tx_semaphore = None, otg_enabled = otg, callbacks = [], rpc_context = context\<rparr>"

section \<open>What receiving does to the worker\<close>

fun happening_bytes :: "happening \<Rightarrow> u8 list" where
  "happening_bytes (SerialRx event bytes) = bytes"
| "happening_bytes _ = []"

definition batches_bytes :: "happening list list \<Rightarrow> u8 list" where
  "batches_bytes bs = concat (map happening_bytes (concat bs))"

definition input_left :: "'w ExpansionWorker \<Rightarrow> nat" where
  "input_left w = length (rx_buf w) + length (batches_bytes (upcoming w))"

text \<open>The worker without its input side.\<close>

definition worker_core :: "'w ExpansionWorker \<Rightarrow> 'w ExpansionWorker" where
  "worker_core w = w\<lparr>rx_buf := [], thread_flags := 0, upcoming := [], exit_reason := ExpansionWorkerExitReasonUnknown\<rparr>"

text \<open>No request to stop has been made or lies ahead.\<close>

definition unstopped :: "'w ExpansionWorker \<Rightarrow> bool" where
  "unstopped w \<longleftrightarrow> StopRequest \<notin> set (concat (upcoming w)) \<and> \<not> bit (thread_flags w) 0 \<and>
     exit_reason w \<noteq> ExpansionWorkerExitReasonUser"

lemma worker_core_update [simp]:
  "worker_core (w\<lparr>rx_buf := b\<rparr>) = worker_core w"
  "worker_core (w\<lparr>thread_flags := f\<rparr>) = worker_core w"
  "worker_core (w\<lparr>upcoming := u\<rparr>) = worker_core w"
  "worker_core (w\<lparr>exit_reason := r\<rparr>) = worker_core w"
  by (simp_all add: worker_core_def)

lemma fold_stream_buffer_send:
  "fold stream_buffer_send bs w =
     w\<lparr>rx_buf := rx_buf w @ take (EXPANSION_WORKER_BUFFER_SIZE - length (rx_buf w)) bs\<rparr>"
proof (induction bs arbitrary: w)
  case Nil
  then show ?case by simp
next
  case (Cons b bs)
  then show ?case
    by (cases "length (rx_buf w) < EXPANSION_WORKER_BUFFER_SIZE")
       (auto simp: stream_buffer_send_def take_Cons' Suc_diff_Suc)
qed

lemmas happen_defs = thread_flags_set_def expansion_worker_serial_rx_callback_def
  expansion_worker_stop_request_def fold_stream_buffer_send

lemma flag_bits [simp]:
  "\<not> bit ExpansionWorkerFlagData 0" "\<not> bit ExpansionWorkerFlagError 0"
  by (simp_all add: firmware_const bit_simps)

lemma happen_within:
  "length (rx_buf (happen h w)) \<le> length (rx_buf w) + length (happening_bytes h)"
  "worker_core (happen h w) = worker_core w"
  "exit_reason (happen h w) = exit_reason w"
  "h \<noteq> StopRequest \<Longrightarrow> bit (thread_flags (happen h w)) 0 = bit (thread_flags w) 0"
  by (cases h; simp add: happen_defs bit_or_iff)+

lemma fold_happen_within:
  "length (rx_buf (fold happen hs w)) \<le> length (rx_buf w) + length (concat (map happening_bytes hs))"
  "worker_core (fold happen hs w) = worker_core w"
  "exit_reason (fold happen hs w) = exit_reason w"
  "StopRequest \<notin> set hs \<Longrightarrow> bit (thread_flags (fold happen hs w)) 0 = bit (thread_flags w) 0"
proof (induction hs arbitrary: w)
  case (Cons h hs)
  {
    case 1
    show ?case using Cons(1) [of "happen h w"] happen_within(1) [of h w] by simp
  next
    case 2
    show ?case using Cons(2) [of "happen h w"] happen_within(2) [of h w] by simp
  next
    case 3
    show ?case using Cons(3) [of "happen h w"] happen_within(3) [of h w] by simp
  next
    case 4
    then show ?case using Cons(4) [of "happen h w"] happen_within(4) [of h w] by auto
  }
qed simp_all

lemma catch_up_within:
  "input_left (catch_up w) \<le> input_left w \<and> worker_core (catch_up w) = worker_core w \<and>
   exit_reason (catch_up w) = exit_reason w \<and> (unstopped w \<longrightarrow> unstopped (catch_up w))"
proof (cases "upcoming w")
  case (Cons hs bs)
  then show ?thesis
    using fold_happen_within [of hs "w\<lparr>upcoming := bs\<rparr>"]
    by (simp add: catch_up_def input_left_def batches_bytes_def unstopped_def)
qed (simp add: catch_up_def)

lemma stream_buffer_receive_within:
  assumes "stream_buffer_receive n w = (bytes, w')"
  shows "length bytes \<le> n \<and> input_left w' + length bytes \<le> input_left w \<and> worker_core w' = worker_core w \<and>
    exit_reason w' = exit_reason w \<and> (unstopped w \<longrightarrow> unstopped w')"
proof -
  let ?w = "catch_up w"
  have w': "w' = ?w\<lparr>rx_buf := drop n (rx_buf ?w)\<rparr>" and bytes: "bytes = take n (rx_buf ?w)"
    using assms by (simp_all add: stream_buffer_receive_def Let_def)
  have "input_left w' + length bytes = input_left ?w"
    by (simp add: w' bytes input_left_def)
  moreover have "unstopped w' = unstopped ?w"
    by (simp add: w' unstopped_def)
  ultimately show ?thesis
    using catch_up_within [of w] by (auto simp: w' bytes)
qed

lemma thread_flags_wait_within:
  assumes "thread_flags_wait w = (flags, w')"
  shows "input_left w' \<le> input_left w \<and> worker_core w' = worker_core w \<and> exit_reason w' = exit_reason w \<and>
    (unstopped w \<longrightarrow> unstopped w' \<and> (flags AND FuriFlagError \<noteq> 0 \<or> \<not> bit flags 0))"
proof -
  let ?w = "catch_up w"
  have "input_left w' = input_left ?w \<and> worker_core w' = worker_core ?w \<and> exit_reason w' = exit_reason ?w \<and>
    (unstopped ?w \<longrightarrow> unstopped w' \<and> (flags AND FuriFlagError \<noteq> 0 \<or> \<not> bit flags 0))"
    using assms
    by (auto simp: thread_flags_wait_def Let_def input_left_def unstopped_def firmware_const bit_and_iff split: if_splits)
  then show ?thesis using catch_up_within [of w] by simp
qed

lemma receive_wait_within:
  assumes "length received \<le> n" and "receive_wait n received w = (bytes, w')"
  shows "length bytes \<le> n \<and> length received \<le> length bytes \<and>
    input_left w' + length bytes \<le> input_left w + length received \<and>
    worker_core w' = worker_core w \<and> (unstopped w \<longrightarrow> unstopped w')"
  using assms
proof (induction n received w rule: receive_wait.induct)
  case (1 n received w)
  obtain bs w1 where r: "stream_buffer_receive (n - length received) w = (bs, w1)" by force
  obtain flags w2 where f: "thread_flags_wait w1 = (flags, w2)" by force
  note R = stream_buffer_receive_within [OF r] and F = thread_flags_wait_within [OF f]
  have stop: "flags AND ExpansionWorkerFlagStop \<noteq> 0 \<Longrightarrow> bit flags 0"
    by (simp add: firmware_const word_and_1_of_bool)
  have len: "length (received @ bs) \<le> n" using R 1(2) by auto
  show ?case
  proof (cases "length (received @ bs) = n \<or> flags AND FuriFlagError \<noteq> 0 \<or>
      flags AND ExpansionWorkerFlagStop \<noteq> 0 \<or> flags AND ExpansionWorkerFlagError \<noteq> 0")
    case True
    moreover have "input_left (x\<lparr>exit_reason := e\<rparr>) = input_left x"
      "unstopped x \<Longrightarrow> e \<noteq> ExpansionWorkerExitReasonUser \<Longrightarrow> unstopped (x\<lparr>exit_reason := e\<rparr>)" for x :: "'a ExpansionWorker" and e
      by (simp_all add: input_left_def unstopped_def)
    ultimately show ?thesis
      using 1(3) R F len stop
      by (subst (asm) receive_wait.simps) (auto simp: r f split: if_splits)
  next
    case False
    then have "receive_wait n (received @ bs) w2 = (bytes, w')"
      using 1(3) by (subst (asm) receive_wait.simps) (simp add: r f)
    moreover have "length (received @ bs) \<noteq> n" "\<not> flags AND FuriFlagError \<noteq> 0"
      "\<not> flags AND ExpansionWorkerFlagStop \<noteq> 0" "\<not> flags AND ExpansionWorkerFlagError \<noteq> 0" using False by auto
    ultimately have "length bytes \<le> n \<and> length (received @ bs) \<le> length bytes \<and>
      input_left w' + length bytes \<le> input_left w2 + length (received @ bs) \<and>
      worker_core w' = worker_core w2 \<and> (unstopped w2 \<longrightarrow> unstopped w')"
      using 1(1) [OF r [symmetric] _ f [symmetric]] len by blast
    then show ?thesis using R F by auto
  qed
qed

interpretation worker_input: finite_source expansion_worker_receive_callback input_left worker_core unstopped
  by unfold_locales (use receive_wait_within [of "[]"] in \<open>auto simp: expansion_worker_receive_callback_def\<close>)

lemma receive_frame_within:
  assumes "length frame = sizeof_frame"
  shows "\<exists>ok frame' w'. expansion_worker_receive_frame w frame = Inr (ok, frame', w') \<and>
      length frame' = sizeof_frame \<and> input_left w' \<le> input_left w \<and> worker_core w' = worker_core w \<and>
      (unstopped w \<longrightarrow> unstopped w') \<and>
      (ok \<longrightarrow> frame_ok frame' \<and> frame_message frame' \<noteq> None \<and> input_left w' < input_left w)"
  using worker_input.decode_stock [OF assms, of w] by (auto simp: expansion_worker_receive_frame_def)

section \<open>What the handlers do\<close>

lemma send_message:
  assumes "valid_message m" and "frame = message_bytes m @ rest"
  shows "expansion_worker_send_frame w frame = Inr (True, w\<lparr>serial_out := serial_out w @ wire_bytes m\<rparr>)"
proof -
  have "take (length (message_bytes m)) frame = message_bytes m" by (simp add: assms(2))
  then show ?thesis
    by (simp add: encode_message [OF assms(1)] expansion_worker_send_frame_def
          expansion_worker_send_callback_def wire_bytes_def)
qed

lemma send_simps [simp]:
  "expansion_worker_send_heartbeat w = Inr (True, w\<lparr>serial_out := serial_out w @ wire_bytes Heartbeat\<rparr>)"
  "expansion_worker_send_status_response w e = Inr (True, w\<lparr>serial_out := serial_out w @ wire_bytes (Status e)\<rparr>)"
  unfolding expansion_worker_send_heartbeat_def expansion_worker_send_status_response_def
  by (rule send_message [where rest = "replicate 65 0"] send_message [where rest = "replicate 64 0"]; simp)+

text \<open>
  The protocol between module and worker without frames, buffers and semaphores: the state of the
  link, the messages sent, the RPC service and the 5V supply. A step answers one message and says
  whether the link stays up.
\<close>

record 'w link =
  link_state :: ExpansionWorkerState
  link_sent :: "expansion_message list"
  link_context :: 'w
  link_otg :: bool

definition reply :: "expansion_message \<Rightarrow> 'w link \<Rightarrow> bool \<times> 'w link" where
  "reply m l = (True, l\<lparr>link_sent := link_sent l @ [m]\<rparr>)"

fun handshake_step :: "'w expansion_services \<Rightarrow> 'w link \<Rightarrow> expansion_message \<Rightarrow> bool \<times> 'w link" where
  "handshake_step services l (BaudRate baud) =
     (if is_baud_rate_supported services baud
      then reply (Status 0) (l\<lparr>link_state := ExpansionWorkerStateConnected\<rparr>) else reply (Status 2) l)"
| "handshake_step services l _ = (False, l)"

fun connected_step :: "'w expansion_services \<Rightarrow> 'w link \<Rightarrow> expansion_message \<Rightarrow> bool \<times> 'w link" where
  "connected_step services l Heartbeat = reply Heartbeat l"
| "connected_step services l (Control c) =
     (if c = 0 then case rpc_session_open services (link_context l) of (opened, context) \<Rightarrow>
        if opened then reply (Status 0) (l\<lparr>link_context := context, link_state := ExpansionWorkerStateRpcActive\<rparr>)
        else (False, l\<lparr>link_context := context\<rparr>)
      else if c = 2 then reply (Status 0) (l\<lparr>link_otg := True\<rparr>)
      else if c = 3 then reply (Status 0) (l\<lparr>link_otg := False\<rparr>)
      else (False, l))"
| "connected_step services l _ = (False, l)"

fun rpc_active_step :: "'w expansion_services \<Rightarrow> 'w link \<Rightarrow> expansion_message \<Rightarrow> bool \<times> 'w link" where
  "rpc_active_step services l Heartbeat = reply Heartbeat l"
| "rpc_active_step services l (Data bs) =
     (case rpc_session_feed services bs (link_context l) of (consumed, context) \<Rightarrow>
        (consumed = length bs, snd (reply (Status 0) (l\<lparr>link_context := context\<rparr>))))"
| "rpc_active_step services l (Control c) =
     (if c = 1 then reply (Status 0) (l\<lparr>link_state := ExpansionWorkerStateConnected\<rparr>) else (False, l))"
| "rpc_active_step services l (Status e) = (e = 0, l)"
| "rpc_active_step services l (BaudRate baud) = (False, l)"

definition link_step :: "'w expansion_services \<Rightarrow> 'w link \<Rightarrow> expansion_message \<Rightarrow> bool \<times> 'w link" where
  "link_step services l = (case link_state l of
       ExpansionWorkerStateHandShake \<Rightarrow> handshake_step services l
     | ExpansionWorkerStateConnected \<Rightarrow> connected_step services l
     | ExpansionWorkerStateRpcActive \<Rightarrow> rpc_active_step services l)"

text \<open>A worker implements a link: the same state, the sent messages on the wire, and a session with its
  semaphore exactly while RPC is active.\<close>

definition session_ok :: "'w ExpansionWorker \<Rightarrow> bool" where
  "session_ok w \<longleftrightarrow> (if worker_state w = ExpansionWorkerStateRpcActive
     then rpc_session w \<and> rpc_session_alive w \<and> tx_semaphore w \<noteq> None
     else \<not> rpc_session_alive w \<and> tx_semaphore w = None)"

definition implements :: "'w ExpansionWorker \<Rightarrow> 'w link \<Rightarrow> bool" where
  "implements w l \<longleftrightarrow> session_ok w \<and> worker_state w = link_state l \<and> rpc_context w = link_context l \<and>
     otg_enabled w = link_otg l \<and> serial_out w = concat (map wire_bytes (link_sent l))"

lemmas handler_defs = expansion_handlers_def expansion_worker_handle_state_handshake_def
  expansion_worker_handle_state_connected_def expansion_worker_handle_state_rpc_active_def
  expansion_worker_rpc_session_open_def expansion_worker_rpc_session_close_def semaphore_release_def

text \<open>The outcome of a handler that implements a step of the link.\<close>

definition refined :: "fault + bool \<times> 'w ExpansionWorker \<Rightarrow> bool \<times> 'w link \<Rightarrow> bool" where
  "refined r = (\<lambda>(c, l). case r of Inl e \<Rightarrow> False | Inr (c', w) \<Rightarrow> c' = c \<and> implements w l)"

lemma refined_simps [simp]:
  "refined (Inr (c', w)) (c, l) \<longleftrightarrow> c' = c \<and> implements w l"
  by (simp add: refined_def)

lemma refinedD: "refined r cl \<Longrightarrow> \<exists>w. r = Inr (fst cl, w) \<and> implements w (snd cl)"
  by (cases r; cases cl) (auto simp: refined_def)

lemma frame_message_Some [simp]:
  "frame_message f = Some Heartbeat \<longleftrightarrow> frame_type (f ! 0) = ExpansionFrameTypeHeartbeat"
  "frame_message f = Some (Status e) \<longleftrightarrow> frame_type (f ! 0) = ExpansionFrameTypeStatus \<and> e = f ! 1"
  "frame_message f = Some (BaudRate b) \<longleftrightarrow>
     frame_type (f ! 0) = ExpansionFrameTypeBaudRate \<and> b = word_le32 (take 4 (drop 1 f))"
  "frame_message f = Some (Control e) \<longleftrightarrow> frame_type (f ! 0) = ExpansionFrameTypeControl \<and> e = f ! 1"
  "frame_message f = Some (Data bs) \<longleftrightarrow>
     frame_type (f ! 0) = ExpansionFrameTypeData \<and> bs = take (unat (f ! 1)) (drop 2 f)"
  by (auto simp: frame_message_def split: ExpansionFrameType.splits)

lemmas refine_simps = handler_defs implements_def session_ok_def reply_def firmware_const Let_def

lemma handshake_refines:
  assumes "implements w l" and "frame_message frame = Some m" and "link_state l = ExpansionWorkerStateHandShake"
  shows "refined (expansion_worker_handle_state_handshake services w frame) (handshake_step services l m)"
  using assms by (cases m) (simp_all add: refine_simps)

lemma connected_refines:
  assumes "implements w l" and "frame_message frame = Some m" and "link_state l = ExpansionWorkerStateConnected"
  shows "refined (expansion_worker_handle_state_connected services w frame) (connected_step services l m)"
  using assms by (cases m) (simp_all add: refine_simps split: prod.split)

lemma rpc_active_refines:
  assumes "implements w l" and "frame_message frame = Some m" and "frame_ok frame"
    and "link_state l = ExpansionWorkerStateRpcActive"
  shows "refined (expansion_worker_handle_state_rpc_active services w frame) (rpc_active_step services l m)"
  using assms by (cases m) (auto simp: refine_simps frame_ok_def split: prod.split)

lemma expansion_handlers_refine:
  assumes "implements w l" and "frame_ok frame" and "frame_message frame = Some m"
  shows "refined (expansion_handlers services w frame) (link_step services l m)"
proof -
  have "worker_state w = link_state l" using assms(1) by (simp add: implements_def)
  then show ?thesis
    using assms handshake_refines connected_refines rpc_active_refines
    by (cases "link_state l") (auto simp: expansion_handlers_def link_step_def simp del: frame_message_Some)
qed

text \<open>A port that has one baud rate, with an RPC service that takes everything.\<close>

definition echo_services :: "u8 list expansion_services" where
  "echo_services = \<lparr>is_baud_rate_supported = (\<lambda>baud. baud = 115200), rpc_session_open = (\<lambda>c. (True, c)),
     rpc_session_feed = (\<lambda>bs c. (length bs, c @ bs))\<rparr>"

section \<open>The thread ends and cleans up\<close>

definition input_side :: "'w ExpansionWorker \<Rightarrow> u8 list \<times> u32 \<times> happening list list \<times> ExpansionWorkerExitReason \<times> bool \<times> int" where
  "input_side w = (rx_buf w, thread_flags w, upcoming w, exit_reason w, serial_acquired w, insomnia w)"

text \<open>The holders of the RPC record beside this worker's session.\<close>

definition other_holders :: "'w ExpansionWorker \<Rightarrow> int" where
  "other_holders w = rpc_record_holders w - (if worker_state w = ExpansionWorkerStateRpcActive then 1 else 0)"

definition always_opens :: "'w expansion_services \<Rightarrow> bool" where
  "always_opens services \<longleftrightarrow> (\<forall>context. fst (rpc_session_open services context))"

lemma handlers_input_side:
  assumes "expansion_handlers services w frame = Inr (c, w')"
  shows "input_side w' = input_side w"
  using assms
  by (auto simp: handler_defs input_side_def Let_def bind_r_Inr_iff
      split: ExpansionWorkerState.splits ExpansionFrameType.splits if_splits prod.splits option.splits)

lemma always_opensD: "always_opens services \<Longrightarrow> rpc_session_open services context = (opened, c) \<Longrightarrow> opened"
  by (metis always_opens_def fst_conv)

lemma handlers_other_holders:
  assumes "expansion_handlers services w frame = Inr (c, w')" and "always_opens services"
  shows "other_holders w' = other_holders w"
  using assms
  by (auto simp: handler_defs other_holders_def Let_def bind_r_Inr_iff dest: always_opensD
      split: ExpansionWorkerState.splits ExpansionFrameType.splits if_splits prod.splits option.splits)

lemma worker_core_fields:
  assumes "worker_core w = worker_core w'"
  shows "implements w l = implements w' l" "other_holders w = other_holders w'"
    "serial_acquired w = serial_acquired w'" "insomnia w = insomnia w'"
  using assms
  by (cases w; cases w'; simp add: worker_core_def implements_def session_ok_def other_holders_def)+

text \<open>One round of the loop: it uses up input, and what it leaves is again a worker in order.\<close>

lemma expansion_round_within:
  assumes "implements w l" and "length frame = sizeof_frame"
  shows "\<exists>c frame' w' l'. expansion_round services w frame = Inr (c, frame', w') \<and>
      length frame' = sizeof_frame \<and> implements w' l' \<and> (c \<longrightarrow> input_left w' < input_left w) \<and>
      serial_acquired w' = serial_acquired w \<and> insomnia w' = insomnia w \<and>
      (unstopped w \<longrightarrow> unstopped w') \<and> (always_opens services \<longrightarrow> other_holders w' = other_holders w)"
proof -
  obtain ok frame' w1 where
    r: "expansion_worker_receive_frame w frame = Inr (ok, frame', w1)" "length frame' = sizeof_frame"
      "input_left w1 \<le> input_left w" "worker_core w1 = worker_core w" "unstopped w \<longrightarrow> unstopped w1"
      "ok \<longrightarrow> frame_ok frame' \<and> frame_message frame' \<noteq> None \<and> input_left w1 < input_left w"
    using receive_frame_within [OF assms(2), of w] by auto
  note core = worker_core_fields [OF r(4)]
  show ?thesis
  proof (cases ok)
    case False
    then show ?thesis
      using r core assms(1) by (auto simp: expansion_round_def)
  next
    case True
    then obtain m where m: "frame_ok frame'" "frame_message frame' = Some m" "input_left w1 < input_left w"
      using r(6) by auto
    obtain c l' where l': "link_step services l m = (c, l')" by force
    have "refined (expansion_handlers services w1 frame') (c, l')"
      using expansion_handlers_refine [OF _ m(1,2), of w1 l services] core(1) assms(1) l' by simp
    then obtain w2 where w2: "expansion_handlers services w1 frame' = Inr (c, w2)" "implements w2 l'"
      using refinedD by fastforce
    have side: "input_left w2 = input_left w1" "unstopped w2 = unstopped w1"
      "serial_acquired w2 = serial_acquired w1" "insomnia w2 = insomnia w1"
      using handlers_input_side [OF w2(1)] by (simp_all add: input_side_def input_left_def unstopped_def)
    then show ?thesis
      using True r m(3) core w2 handlers_other_holders [OF w2(1)]
      by (auto simp: expansion_round_def)
  qed
qed

lemma state_machine_ends:
  assumes "implements w l" and "length frame = sizeof_frame" and "input_left w < fuel"
  shows "\<exists>w' l'. expansion_worker_state_machine services fuel w frame = Some (Inr w') \<and> implements w' l' \<and>
      serial_acquired w' = serial_acquired w \<and> insomnia w' = insomnia w \<and>
      (unstopped w \<longrightarrow> unstopped w') \<and> (always_opens services \<longrightarrow> other_holders w' = other_holders w)"
  using assms
proof (induction fuel arbitrary: w l frame)
  case 0
  then show ?case by simp
next
  case (Suc fuel)
  obtain c frame' w1 l1 where
    r: "expansion_round services w frame = Inr (c, frame', w1)" "length frame' = sizeof_frame"
      "implements w1 l1" "c \<longrightarrow> input_left w1 < input_left w"
      "serial_acquired w1 = serial_acquired w" "insomnia w1 = insomnia w" "unstopped w \<longrightarrow> unstopped w1"
      "always_opens services \<longrightarrow> other_holders w1 = other_holders w"
    using expansion_round_within [OF Suc.prems(1,2), of services] by blast
  show ?case
  proof (cases c)
    case False
    then show ?thesis using r by auto
  next
    case True
    then have "input_left w1 < fuel" using r(4) Suc.prems(3) by simp
    from Suc.IH [OF r(3,2) this] show ?thesis
      using True r by auto
  qed
qed

text \<open>C7 The worker thread always ends when the module falls silent: with one round more than there are bytes to
  come it returns, whatever the bytes and interrupts are, and then the RPC session is closed and its
  semaphore freed, the serial port released and sleep allowed again. Unless somebody asked it to stop,
  the owner is told that the module is gone, and the RPC record has as many holders as before when the
  service could open a session.\<close>

theorem expansion_worker_ends:
  assumes "length rx_frame = sizeof_frame" and "length (batches_bytes events) < fuel"
  shows "\<exists>w. expansion_worker services True fuel rx_frame (expansion_worker_alloc events otg awake holders context) =
      Some (Inr w) \<and>
    \<not> rpc_session_alive w \<and> tx_semaphore w = None \<and> \<not> serial_acquired w \<and> insomnia w = awake \<and>
    (StopRequest \<notin> set (concat events) \<longrightarrow>
      callbacks w \<noteq> [] \<and> last (callbacks w) = ExpansionWorkerCallbackReasonExit) \<and>
    (always_opens services \<longrightarrow> rpc_record_holders w = holders)"
proof -
  let ?w0 = "expansion_worker_alloc events otg awake holders context"
  define w1 where "w1 = (worker_begin ?w0)\<lparr>serial_out := wire_bytes Heartbeat\<rparr>"
  note begin_defs = w1_def worker_begin_def expansion_worker_alloc_def
  have hb: "expansion_worker_send_heartbeat (worker_begin ?w0) = Inr (True, w1)"
    by (simp add: begin_defs)
  have "implements w1 \<lparr>link_state = ExpansionWorkerStateHandShake, link_sent = [Heartbeat],
      link_context = context, link_otg = otg\<rparr>"
    by (simp add: begin_defs implements_def session_ok_def)
  moreover have "input_left w1 < fuel"
    using assms(2) by (simp add: begin_defs input_left_def)
  ultimately obtain w2 l where
    sm: "expansion_worker_state_machine services fuel w1 rx_frame = Some (Inr w2)" "implements w2 l"
      "insomnia w2 = insomnia w1" "unstopped w1 \<longrightarrow> unstopped w2"
      "always_opens services \<longrightarrow> other_holders w2 = other_holders w1"
    using state_machine_ends [of w1 _ rx_frame fuel services] assms(1) by blast
  have start: "insomnia w1 = awake + 1" "other_holders w1 = holders"
    "unstopped w1 \<longleftrightarrow> StopRequest \<notin> set (concat events)"
    by (auto simp: begin_defs other_holders_def unstopped_def)
  have "session_ok w2" using sm(2) by (simp add: implements_def)
  then obtain w where w: "worker_end w2 = Inr w" "\<not> rpc_session_alive w" "tx_semaphore w = None"
      "\<not> serial_acquired w" "insomnia w = awake" "rpc_record_holders w = other_holders w2"
      "callbacks w = (if exit_reason w2 \<noteq> ExpansionWorkerExitReasonUser
         then callbacks w2 @ [ExpansionWorkerCallbackReasonExit] else callbacks w2)"
    using sm(3) start(1)
    by (cases "worker_state w2 = ExpansionWorkerStateRpcActive")
       (auto simp: worker_end_def session_ok_def expansion_worker_rpc_session_close_def other_holders_def)
  have "expansion_worker services True fuel rx_frame ?w0 = Some (Inr w)"
    by (simp add: expansion_worker_def hb sm(1) w(1) del: send_simps)
  moreover have "exit_reason w2 \<noteq> ExpansionWorkerExitReasonUser" if "StopRequest \<notin> set (concat events)"
    using that start(3) sm(4) by (simp add: unstopped_def)
  ultimately show ?thesis
    using w sm(5) start(2) by auto
qed

theorem expansion_worker_ends_witness:
  "\<exists>w. expansion_worker echo_services True 13 (replicate 66 0)
        (expansion_worker_alloc [[SerialRx 1 [3, 0, 0xC2]], [SerialRx 1 [1, 0, 0xC0], SerialRx 2 []],
          [SerialRx 1 [4, 0]], [SerialRx 1 [4, 5, 1]]] False 0 1 []) = Some (Inr w) \<and>
    \<not> rpc_session_alive w \<and> tx_semaphore w = None \<and> \<not> serial_acquired w \<and> insomnia w = 0 \<and>
    (callbacks w \<noteq> [] \<and> last (callbacks w) = ExpansionWorkerCallbackReasonExit) \<and> rpc_record_holders w = 1"
  using expansion_worker_ends [of "replicate 66 0"
      "[[SerialRx 1 [3, 0, 0xC2]], [SerialRx 1 [1, 0, 0xC0], SerialRx 2 []], [SerialRx 1 [4, 0]], [SerialRx 1 [4, 5, 1]]]"
      13 echo_services False 0 1 "[]"]
  by (simp add: batches_bytes_def firmware_const always_opens_def echo_services_def)

section \<open>A window of data\<close>

text \<open>
  While a module sends a single frame and waits for the answer, all that happens is that its bytes
  come in, in any number of interrupts; the receive buffer has room for the largest frame.
\<close>

fun is_data :: "happening \<Rightarrow> bool" where
  "is_data (SerialRx event bytes) \<longleftrightarrow> event = 1"
| "is_data _ = False"

definition window :: "'w ExpansionWorker \<Rightarrow> bool" where
  "window w \<longleftrightarrow> (\<forall>batch \<in> set (upcoming w). batch \<noteq> [] \<and> list_all is_data batch) \<and>
     thread_flags w \<in> {0, ExpansionWorkerFlagData} \<and> input_left w \<le> EXPANSION_WORKER_BUFFER_SIZE"

definition pending :: "'w ExpansionWorker \<Rightarrow> u8 list" where
  "pending w = rx_buf w @ batches_bytes (upcoming w)"

lemma fold_happen_window:
  assumes "list_all is_data hs" and "length (rx_buf w) + length (concat (map happening_bytes hs)) \<le> EXPANSION_WORKER_BUFFER_SIZE"
  shows "rx_buf (fold happen hs w) = rx_buf w @ concat (map happening_bytes hs) \<and>
    thread_flags (fold happen hs w) = (if hs = [] then thread_flags w else thread_flags w OR ExpansionWorkerFlagData)"
  using assms
proof (induction hs arbitrary: w)
  case Nil
  then show ?case by simp
next
  case (Cons h hs)
  obtain bytes where h: "h = SerialRx 1 bytes" using Cons.prems(1) by (cases h) auto
  let ?w = "expansion_worker_serial_rx_callback 1 bytes w"
  have w': "rx_buf ?w = rx_buf w @ bytes" "thread_flags ?w = thread_flags w OR ExpansionWorkerFlagData"
    using Cons.prems(2) by (simp_all add: h happen_defs firmware_const)
  show ?case
    using Cons.IH [of ?w] Cons.prems by (simp add: w' h or.assoc)
qed

lemma catch_up_window:
  assumes "window w"
  shows "window (catch_up w) \<and> pending (catch_up w) = pending w \<and>
    (upcoming w \<noteq> [] \<longrightarrow> thread_flags (catch_up w) = ExpansionWorkerFlagData)"
proof (cases "upcoming w")
  case Nil
  then show ?thesis using assms by (simp add: catch_up_def)
next
  case (Cons hs bs)
  have "length (rx_buf w) + length (concat (map happening_bytes hs)) \<le> EXPANSION_WORKER_BUFFER_SIZE"
    using assms Cons by (simp add: window_def input_left_def batches_bytes_def)
  then have "rx_buf (catch_up w) = rx_buf w @ concat (map happening_bytes hs)"
      "thread_flags (catch_up w) = thread_flags w OR ExpansionWorkerFlagData"
    using fold_happen_window [of hs "w\<lparr>upcoming := bs\<rparr>"] assms Cons by (auto simp: window_def catch_up_def)
  moreover have "thread_flags w OR ExpansionWorkerFlagData = ExpansionWorkerFlagData"
    using assms by (auto simp: window_def)
  ultimately show ?thesis
    using assms Cons by (simp add: window_def pending_def input_left_def batches_bytes_def)
qed

lemma stream_buffer_receive_window:
  assumes "window w" and "stream_buffer_receive k w = (bytes, w')"
  shows "window w' \<and> pending w = bytes @ pending w' \<and> length bytes \<le> k \<and> (length bytes < k \<longrightarrow> rx_buf w' = [])"
proof -
  let ?w = "catch_up w"
  have w': "w' = ?w\<lparr>rx_buf := drop k (rx_buf ?w)\<rparr>" and bytes: "bytes = take k (rx_buf ?w)"
    using assms(2) by (simp_all add: stream_buffer_receive_def Let_def)
  have "window w'"
    using catch_up_window [OF assms(1)] by (auto simp: w' window_def input_left_def)
  moreover have "pending ?w = bytes @ pending w'"
    by (simp add: w' bytes pending_def flip: append_assoc)
  moreover have "length bytes < k \<longrightarrow> rx_buf w' = []"
    by (auto simp: w' bytes)
  ultimately show ?thesis
    using catch_up_window [OF assms(1)] by (simp add: bytes)
qed

lemma flags_disjoint [simp]:
  "ExpansionWorkerFlagData AND FuriFlagError = 0" "ExpansionWorkerFlagData AND ExpansionWorkerFlagStop = 0"
  "ExpansionWorkerFlagData AND ExpansionWorkerFlagError = 0" "ExpansionWorkerFlagData AND EXPANSION_ALL_FLAGS \<noteq> 0"
  "ExpansionWorkerFlagData AND NOT EXPANSION_ALL_FLAGS = 0" "FuriFlagErrorTimeout AND FuriFlagError \<noteq> 0"
  by (simp_all add: firmware_const)

lemma thread_flags_wait_window:
  assumes "window w" and "thread_flags_wait w = (flags, w')"
  shows "window w' \<and> pending w' = pending w \<and>
    (flags = ExpansionWorkerFlagData \<or> flags = FuriFlagErrorTimeout \<and> batches_bytes (upcoming w) = [])"
proof -
  let ?w = "catch_up w"
  note c = catch_up_window [OF assms(1)]
  consider "thread_flags ?w = ExpansionWorkerFlagData" | "thread_flags ?w = 0" "upcoming w = []"
    using c by (auto simp: window_def)
  then show ?thesis
  proof cases
    case 1
    then show ?thesis
      using assms(2) c by (auto simp: thread_flags_wait_def window_def pending_def input_left_def)
  next
    case 2
    then show ?thesis
      using assms(2) c by (auto simp: thread_flags_wait_def batches_bytes_def)
  qed
qed

lemma receive_wait_window:
  assumes "window w" and "length received \<le> n" and "receive_wait n received w = (bytes, w')"
  shows "window w' \<and> length bytes \<le> n \<and> received @ pending w = bytes @ pending w' \<and>
    (length bytes < n \<longrightarrow> pending w' = [])"
  using assms
proof (induction n received w rule: receive_wait.induct)
  case (1 n received w)
  obtain bs w1 where r: "stream_buffer_receive (n - length received) w = (bs, w1)" by force
  obtain flags w2 where f: "thread_flags_wait w1 = (flags, w2)" by force
  note R = stream_buffer_receive_window [OF 1(2) r]
  then have F: "window w2 \<and> pending w2 = pending w1 \<and>
    (flags = ExpansionWorkerFlagData \<or> flags = FuriFlagErrorTimeout \<and> batches_bytes (upcoming w1) = [])"
    using thread_flags_wait_window f by blast
  have len: "length (received @ bs) \<le> n" using R 1(3) by auto
  have run: "(bytes, w') = (if length (received @ bs) = n then (received @ bs, w1)
      else if flags = FuriFlagErrorTimeout
      then (received @ bs, w2\<lparr>exit_reason := ExpansionWorkerExitReasonTimeout\<rparr>)
      else receive_wait n (received @ bs) w2)"
    unfolding 1(4) [symmetric] using F by (subst receive_wait.simps) (auto simp: r f)
  consider (full) "length (received @ bs) = n"
    | (timeout) "length (received @ bs) < n" "flags = FuriFlagErrorTimeout" "batches_bytes (upcoming w1) = []"
    | (more) "length (received @ bs) < n" "flags = ExpansionWorkerFlagData"
    using F len by fastforce
  then show ?case
  proof cases
    case full
    then show ?thesis using run R by simp
  next
    case timeout
    then have empty: "pending w1 = []" using R by (simp add: pending_def)
    have "window w'" "pending w' = pending w2" "bytes = received @ bs"
      using run timeout F by (simp_all add: window_def pending_def input_left_def)
    then show ?thesis using R F empty timeout(1) by simp
  next
    case more
    then have "receive_wait n (received @ bs) w2 = (bytes, w')"
      using run by (simp add: firmware_const)
    then have "window w' \<and> length bytes \<le> n \<and> (received @ bs) @ pending w2 = bytes @ pending w' \<and>
        (length bytes < n \<longrightarrow> pending w' = [])"
      using 1(1) [OF r [symmetric] _ f [symmetric]] F len more by simp
    then show ?thesis using R F by simp
  qed
qed

interpretation worker_stream: byte_source expansion_worker_receive_callback window pending
proof
  fix w w' :: "'a ExpansionWorker" and n bytes
  assume w: "window w"
  show "length bytes \<le> n \<and> pending w = bytes @ pending w' \<and> window w'"
    if "expansion_worker_receive_callback n w = (bytes, w')"
    using receive_wait_window [OF w, of "[]" n] that by (simp add: expansion_worker_receive_callback_def)
  show "pending w = []" if "0 < n" and "expansion_worker_receive_callback n w = ([], w')"
    using receive_wait_window [OF w, of "[]" n] that by (fastforce simp: expansion_worker_receive_callback_def)
qed

lemma round_of_parse:
  assumes "window w" and "implements w l" and "length frame = sizeof_frame"
  shows "\<exists>frame' w'. window w' \<and> implements w' l \<and> length frame' = sizeof_frame \<and>
    pending w' = drop (snd (parse_frame (pending w))) (pending w) \<and>
    expansion_worker_receive_frame w frame =
      Inr (fst (parse_frame (pending w)) = ExpansionProtocolStatusOk, frame', w') \<and>
    (fst (parse_frame (pending w)) = ExpansionProtocolStatusOk \<longrightarrow>
      (let n = snd (parse_frame (pending w)) - 1 in frame_ok frame' \<and> take n frame' = take n (pending w)))"
proof -
  obtain frame' w' where
    d: "expansion_protocol_decode frame expansion_worker_receive_callback w =
        Inr (fst (parse_frame (pending w)), frame', w')"
      "window w'" "length frame' = sizeof_frame" "pending w' = drop (snd (parse_frame (pending w))) (pending w)"
      "fst (parse_frame (pending w)) = ExpansionProtocolStatusOk \<longrightarrow>
        (let n = snd (parse_frame (pending w)) - 1 in n \<le> sizeof_frame \<and> take n frame' = take n (pending w))"
    using worker_stream.decode_refines_parser [OF assms(1,3)] by blast
  have r: "expansion_worker_receive_frame w frame =
      Inr (fst (parse_frame (pending w)) = ExpansionProtocolStatusOk, frame', w')"
    by (simp add: expansion_worker_receive_frame_def d(1))
  then have "worker_core w' = worker_core w"
    "fst (parse_frame (pending w)) = ExpansionProtocolStatusOk \<longrightarrow> frame_ok frame'"
    using receive_frame_within [OF assms(3), of w] by auto
  then show ?thesis
    using r d assms(2) worker_core_fields(1) [of w' w l] by (auto simp: Let_def)
qed

lemma window_refines_link:
  assumes "window w" and "implements w l" and "length frame = sizeof_frame"
    and "pending w = wire_bytes m @ rest" and "valid_message m"
  shows "\<exists>frame' w'. expansion_round services w frame = Inr (fst (link_step services l m), frame', w') \<and>
    window w' \<and> implements w' (snd (link_step services l m)) \<and> length frame' = sizeof_frame \<and> pending w' = rest"
proof -
  have parse: "parse_frame (pending w) = (ExpansionProtocolStatusOk, length (wire_bytes m))"
    by (simp only: assms(4) parse_frame_wire [OF assms(5)])
  have body: "take (length (message_bytes m)) (pending w) = message_bytes m"
    "length (wire_bytes m) - 1 = length (message_bytes m)" "drop (length (wire_bytes m)) (pending w) = rest"
    by (simp_all add: assms(4) wire_bytes_def)
  obtain frame' w1 where
    r: "window w1" "implements w1 l" "length frame' = sizeof_frame" "pending w1 = rest"
      "expansion_worker_receive_frame w frame = Inr (True, frame', w1)" "frame_ok frame'"
      "take (length (message_bytes m)) frame' = message_bytes m"
    using round_of_parse [OF assms(1-3)] unfolding parse fst_conv snd_conv body Let_def simp_thms by blast
  have "frame_message frame' = Some m"
    by (rule frame_message_bytes [OF assms(5) r(7)])
  then have "refined (expansion_handlers services w1 frame') (link_step services l m)"
    using expansion_handlers_refine r(2,6) by blast
  then obtain w2 where w2: "expansion_handlers services w1 frame' = Inr (fst (link_step services l m), w2)"
      "implements w2 (snd (link_step services l m))"
    using refinedD by blast
  then have "window w2" "pending w2 = rest"
    using handlers_input_side [OF w2(1)] r(1,4)
    by (simp_all add: input_side_def window_def pending_def input_left_def)
  then show ?thesis using r(3,5) w2 by (simp add: expansion_round_def)
qed

text \<open>C3 A message of the module, arriving in any number of pieces, is taken as a whole from the receive
  buffer and answered as the protocol says; what follows it stays in the buffer.\<close>

theorem expansion_message_answered:
  assumes "window w" and "implements w l" and "length frame = sizeof_frame"
    and "pending w = wire_bytes m @ rest" and "valid_message m"
  shows "\<exists>frame' w'. expansion_round services w frame = Inr (fst (link_step services l m), frame', w') \<and>
    implements w' (snd (link_step services l m)) \<and> pending w' = rest"
  using window_refines_link [OF assms, of services] by blast

theorem expansion_message_answered_witness:
  "\<exists>frame' w'. expansion_round echo_services
      (expansion_worker_alloc [[SerialRx 1 [3, 0, 0xC2]], [SerialRx 1 [1], SerialRx 1 [0, 0xC0, 7]]] False 0 0 [])
      (replicate 66 0) =
    Inr (fst (link_step echo_services
        \<lparr>link_state = ExpansionWorkerStateHandShake, link_sent = [], link_context = [], link_otg = False\<rparr>
        (BaudRate 115200)), frame', w') \<and>
    implements w' (snd (link_step echo_services
        \<lparr>link_state = ExpansionWorkerStateHandShake, link_sent = [], link_context = [], link_otg = False\<rparr>
        (BaudRate 115200))) \<and> pending w' = [7]"
proof (rule expansion_message_answered)
  show "pending (expansion_worker_alloc [[SerialRx 1 [3, 0, 0xC2]], [SerialRx 1 [1], SerialRx 1 [0, 0xC0, 7]]] False 0 0 []) =
      wire_bytes (BaudRate 115200) @ [7]"
    by (simp add: pending_def expansion_worker_alloc_def batches_bytes_def wire_bytes_def xor_sum_def bytes_le32_def upt_rec)
qed (simp_all add: window_def input_left_def batches_bytes_def expansion_worker_alloc_def implements_def
      session_ok_def firmware_const)

text \<open>C22 A frame with one wrong byte after the bytes that say how long it is has no effect but to end the
  connection: nothing is answered, and state, RPC session and 5V supply stay as they are.\<close>

theorem corrupted_frame_ignored:
  assumes "window w" and "implements w l" and "length frame = sizeof_frame" and "valid_message m"
    and "header_size m \<le> i" and "i < length (wire_bytes m)" and "v \<noteq> wire_bytes m ! i"
    and "pending w = (wire_bytes m)[i := v] @ rest"
  shows "\<exists>frame' w'. expansion_round services w frame = Inr (False, frame', w') \<and> implements w' l"
  using round_of_parse [OF assms(1-3)] corrupted_frame_rejected [OF assms(4-7), of rest]
  by (auto simp: assms(8) expansion_round_def)

theorem corrupted_frame_ignored_witness:
  "\<exists>frame' w'. expansion_round echo_services (expansion_worker_alloc [[SerialRx 1 [4, 1, 4]]] False 0 0 [])
      (replicate 66 0) = Inr (False, frame', w') \<and>
    implements w' \<lparr>link_state = ExpansionWorkerStateHandShake, link_sent = [], link_context = [], link_otg = False\<rparr>"
  by (rule corrupted_frame_ignored [where m = "Control 0" and i = 1 and v = 1 and rest = "[]"])
     (simp_all add: window_def input_left_def batches_bytes_def expansion_worker_alloc_def implements_def
        session_ok_def firmware_const pending_def wire_bytes_def xor_sum_def)

section \<open>The output of the RPC session\<close>

lemma send_data_response:
  assumes "offset + n \<le> length data" and "n \<le> EXPANSION_PROTOCOL_MAX_DATA_SIZE"
  shows "expansion_worker_send_data_response w data offset n =
    Inr (True, w\<lparr>serial_out := serial_out w @ wire_bytes (Data (take n (drop offset data)))\<rparr>)"
proof -
  let ?bs = "take n (drop offset data)"
  have len: "length ?bs = n" using assms(1) by simp
  have "memcpy (5 # of_nat n # replicate 64 0) 2 data offset n =
      Inr (message_bytes (Data ?bs) @ replicate (64 - n) 0)"
    using assms by (simp add: memcpy_def firmware_const len numeral_2_eq_2 drop_replicate)
  moreover have "valid_message (Data ?bs)" using assms(2) len by simp
  ultimately show ?thesis
    by (simp add: expansion_worker_send_data_response_def send_message)
qed

lemma rpc_send_loop_frames:
  assumes "sent \<le> length data"
  shows "\<exists>payloads lost. let w1 = w\<lparr>serial_out := serial_out w @ concat (map (\<lambda>bs. wire_bytes (Data bs)) payloads)\<rparr>
    in rpc_send_loop acquired data k sent w = Inr (if lost = [] then w1 else thread_flags_set ExpansionWorkerFlagError w1) \<and>
      list_all (\<lambda>bs. bs \<noteq> [] \<and> valid_message (Data bs)) payloads \<and> concat payloads @ lost = drop sent data \<and>
      (\<forall>j \<in> {k..<k + length payloads}. acquired j) \<and> (if lost = [] then True else \<not> acquired (k + length payloads))"
  using assms
proof (induction "length data - sent" arbitrary: k sent w rule: less_induct)
  case less
  show ?case
  proof (cases "sent < length data \<and> acquired k")
    case False
    then show ?thesis
      using less.prems by (intro exI [where x = "[]"] exI [where x = "drop sent data"]) (auto simp: rpc_send_loop.simps)
  next
    case True
    define n where "n = min (length data - sent) EXPANSION_PROTOCOL_MAX_DATA_SIZE"
    define bs where "bs = take n (drop sent data)"
    define w1 where "w1 = w\<lparr>serial_out := serial_out w @ wire_bytes (Data bs)\<rparr>"
    have n: "0 < n" "sent + n \<le> length data" "n \<le> EXPANSION_PROTOCOL_MAX_DATA_SIZE"
      using True by (auto simp: n_def firmware_const)
    have step: "rpc_send_loop acquired data k sent w = rpc_send_loop acquired data (Suc k) (sent + n) w1"
      using True send_data_response [OF n(2,3), of w]
      by (subst rpc_send_loop.simps) (simp add: Let_def w1_def bs_def flip: n_def)
    have smaller: "length data - (sent + n) < length data - sent" using n by linarith
    obtain ps lost where ps: "rpc_send_loop acquired data (Suc k) (sent + n) w1 = Inr (if lost = []
        then w1\<lparr>serial_out := serial_out w1 @ concat (map (\<lambda>bs. wire_bytes (Data bs)) ps)\<rparr>
        else thread_flags_set ExpansionWorkerFlagError (w1\<lparr>serial_out := serial_out w1 @ concat (map (\<lambda>bs. wire_bytes (Data bs)) ps)\<rparr>))"
      "list_all (\<lambda>bs. bs \<noteq> [] \<and> valid_message (Data bs)) ps" "concat ps @ lost = drop (sent + n) data"
      "\<forall>j \<in> {Suc k..<Suc k + length ps}. acquired j" "if lost = [] then True else \<not> acquired (Suc k + length ps)"
      using less.hyps [OF smaller n(2), of w1 "Suc k"] unfolding Let_def by blast
    have "concat (bs # ps) @ lost = drop sent data"
      by (simp add: bs_def ps(3) add.commute flip: drop_drop)
    moreover have "bs \<noteq> []" "valid_message (Data bs)" using n by (auto simp: bs_def)
    moreover have "\<forall>j \<in> {k..<k + length (bs # ps)}. acquired j"
      using ps(4) True by (auto simp: Suc_le_eq)
    ultimately show ?thesis
      using step ps(1,2,5) by (intro exI [where x = "bs # ps"] exI [where x = lost]) (cases "lost = []"; simp add: w1_def)
  qed
qed

text \<open>C31 What the RPC session sends goes out in order, in data frames that are not empty and fit the frame of the
  protocol, as long as the module acknowledges each frame in time. If the wait for the acknowledgement of some frame times
  out, what was sent until then is a beginning of the data, the rest is dropped and the error flag that ends the worker is set;
  only then anything is lost.\<close>

theorem rpc_output_framed:
  "\<exists>payloads lost. let w1 = w\<lparr>serial_out := serial_out w @ concat (map (\<lambda>bs. wire_bytes (Data bs)) payloads)\<rparr>
    in expansion_worker_rpc_send_callback acquired data w =
        Inr (if lost = [] then w1 else thread_flags_set ExpansionWorkerFlagError w1) \<and>
      list_all (\<lambda>bs. bs \<noteq> [] \<and> valid_message (Data bs)) payloads \<and> concat payloads @ lost = data \<and>
      (\<forall>j < length payloads. acquired j) \<and> (if lost = [] then True else \<not> acquired (length payloads))"
  using rpc_send_loop_frames [of 0 data w acquired 0]
  unfolding expansion_worker_rpc_send_callback_def add_0 drop_0 atLeast0LessThan lessThan_iff Ball_def by simp

theorem rpc_output_framed_witness:
  "\<exists>payloads lost. let w1 = (expansion_worker_alloc [] False 0 0 ())\<lparr>serial_out :=
        serial_out (expansion_worker_alloc [] False 0 0 ()) @ concat (map (\<lambda>bs. wire_bytes (Data bs)) payloads)\<rparr>
    in expansion_worker_rpc_send_callback (\<lambda>j. j < 1) (replicate 100 7) (expansion_worker_alloc [] False 0 0 ()) =
        Inr (if lost = [] then w1 else thread_flags_set ExpansionWorkerFlagError w1) \<and>
      list_all (\<lambda>bs. bs \<noteq> [] \<and> valid_message (Data bs)) payloads \<and> concat payloads @ lost = replicate 100 7 \<and>
      (\<forall>j < length payloads. j < 1) \<and> (if lost = [] then True else \<not> length payloads < 1)"
  by (rule rpc_output_framed)

text \<open>When the RPC service has no session to give, the record stays open: nobody closes it any more.\<close>

lemma rpc_record_leak:
  assumes "worker_state w = ExpansionWorkerStateConnected" and "\<not> fst (rpc_session_open services (rpc_context w))"
    and "frame ! 0 = 4" and "frame ! 1 = 0"
  shows "\<exists>w' w''. expansion_handlers services w frame = Inr (False, w') \<and> worker_end w' = Inr w'' \<and>
    rpc_record_holders w'' = rpc_record_holders w + 1"
  using assms by (auto simp: handler_defs worker_end_def split: prod.splits)

end
