(* ===== verification/Expansion_Control.thy ===== *)
theory Expansion_Control
  imports Flipper_Prelude
begin

text \<open>
  The expansion service, \<^verbatim>\<open>services/expansion/expansion.c\<close>: a thread that takes messages from a queue
  and starts and stops the worker. Workers are numbered; the model keeps the running ones, so that
  stopping or freeing a worker that does not exist is a fault, and the serial ports on which the
  detection callback is armed. A message carries the UART number that loading the settings gives,
  where its handler loads them.
\<close>

section \<open>State and handlers\<close>

datatype ExpansionState =
    ExpansionStateDisabled
  | ExpansionStateEnabled
  | ExpansionStateRunning
  | ExpansionStateConnectionEstablished

datatype ExpansionMessage =
    ExpansionMessageTypeEnable nat
  | ExpansionMessageTypeDisable
  | ExpansionMessageTypeSetListenSerial nat
  | ExpansionMessageTypeReloadSettings nat
  | ExpansionMessageTypeModuleConnected
  | ExpansionMessageTypeModuleDisconnected
  | ExpansionMessageTypeConnectionEstablished
  | ExpansionMessageTypeIsConnected

record Expansion =
  serial_id :: nat
  worker :: nat
  state :: ExpansionState
  live_workers :: "nat list"
  next_worker :: nat
  armed :: "nat list"
  is_connected_answers :: "bool list"

definition FuriHalSerialIdMax :: nat where [firmware_const]: "FuriHalSerialIdMax = 2"

text \<open>\<^verbatim>\<open>furi_hal_serial_control_set_expansion_callback\<close> with the detection callback and with none.\<close>

definition arm :: "nat \<Rightarrow> Expansion \<Rightarrow> Expansion" where
  "arm i e = e\<lparr>armed := i # removeAll i (armed e)\<rparr>"

definition disarm :: "nat \<Rightarrow> Expansion \<Rightarrow> Expansion" where
  "disarm i e = e\<lparr>armed := removeAll i (armed e)\<rparr>"

definition worker_stop :: "Expansion \<Rightarrow> fault + Expansion" where
  "worker_stop e = (if worker e \<in> set (live_workers e) then Inr e else Inl UndefinedBehaviour)"

definition worker_free :: "Expansion \<Rightarrow> fault + Expansion" where
  "worker_free e = (if worker e \<in> set (live_workers e)
     then Inr (e\<lparr>live_workers := removeAll (worker e) (live_workers e)\<rparr>) else Inl UndefinedBehaviour)"

definition is_running :: "Expansion \<Rightarrow> bool" where
  "is_running e \<longleftrightarrow> state e = ExpansionStateRunning \<or> state e = ExpansionStateConnectionEstablished"

definition expansion_control_handler_enable :: "nat \<Rightarrow> Expansion \<Rightarrow> fault + Expansion" where
  "expansion_control_handler_enable uart_index e =
     (if state e \<noteq> ExpansionStateDisabled then Inr e
      else if uart_index < FuriHalSerialIdMax
      then Inr (arm uart_index (e\<lparr>state := ExpansionStateEnabled, serial_id := uart_index\<rparr>))
      else Inr e)"

definition expansion_control_handler_disable :: "Expansion \<Rightarrow> fault + Expansion" where
  "expansion_control_handler_disable e =
     (if state e = ExpansionStateDisabled then Inr e
      else bind_r (if is_running e then bind_r (worker_stop e) worker_free
                   else Inr (disarm (serial_id e) e))
        (\<lambda>e1. Inr (e1\<lparr>state := ExpansionStateDisabled\<rparr>)))"

definition expansion_control_handler_set_listen_serial :: "nat \<Rightarrow> Expansion \<Rightarrow> fault + Expansion" where
  "expansion_control_handler_set_listen_serial i e =
     (if state e \<noteq> ExpansionStateDisabled \<and> serial_id e = i then Inr e
      else bind_r (if is_running e then bind_r (worker_stop e) worker_free
                   else if state e = ExpansionStateEnabled then Inr (disarm (serial_id e) e)
                   else Inr e)
        (\<lambda>e1. Inr (arm i (e1\<lparr>state := ExpansionStateEnabled, serial_id := i\<rparr>))))"

definition expansion_control_handler_reload_settings :: "nat \<Rightarrow> Expansion \<Rightarrow> fault + Expansion" where
  "expansion_control_handler_reload_settings uart_index e =
     (if uart_index < FuriHalSerialIdMax then expansion_control_handler_set_listen_serial uart_index e
      else expansion_control_handler_disable e)"

definition expansion_control_handler_module_connected :: "Expansion \<Rightarrow> fault + Expansion" where
  "expansion_control_handler_module_connected e =
     (if state e \<noteq> ExpansionStateEnabled then Inr e
      else Inr ((disarm (serial_id e) e)\<lparr>state := ExpansionStateRunning, worker := next_worker e,
             live_workers := next_worker e # live_workers e, next_worker := Suc (next_worker e)\<rparr>))"

definition expansion_control_handler_module_disconnected :: "Expansion \<Rightarrow> fault + Expansion" where
  "expansion_control_handler_module_disconnected e =
     (if \<not> is_running e then Inr e
      else bind_r (worker_free (e\<lparr>state := ExpansionStateEnabled\<rparr>)) (\<lambda>e1. Inr (arm (serial_id e1) e1)))"

definition expansion_control_handler_connection_established :: "Expansion \<Rightarrow> fault + Expansion" where
  "expansion_control_handler_connection_established e =
     (if \<not> is_running e then Inr e else Inr (e\<lparr>state := ExpansionStateConnectionEstablished\<rparr>))"

definition expansion_control_handler_is_connected :: "Expansion \<Rightarrow> fault + Expansion" where
  "expansion_control_handler_is_connected e =
     Inr (e\<lparr>is_connected_answers := is_connected_answers e @ [state e = ExpansionStateConnectionEstablished]\<rparr>)"

fun expansion_control_handlers :: "ExpansionMessage \<Rightarrow> Expansion \<Rightarrow> fault + Expansion" where
  "expansion_control_handlers (ExpansionMessageTypeEnable i) = expansion_control_handler_enable i"
| "expansion_control_handlers ExpansionMessageTypeDisable = expansion_control_handler_disable"
| "expansion_control_handlers (ExpansionMessageTypeSetListenSerial i) = expansion_control_handler_set_listen_serial i"
| "expansion_control_handlers (ExpansionMessageTypeReloadSettings i) = expansion_control_handler_reload_settings i"
| "expansion_control_handlers ExpansionMessageTypeModuleConnected = expansion_control_handler_module_connected"
| "expansion_control_handlers ExpansionMessageTypeModuleDisconnected = expansion_control_handler_module_disconnected"
| "expansion_control_handlers ExpansionMessageTypeConnectionEstablished = expansion_control_handler_connection_established"
| "expansion_control_handlers ExpansionMessageTypeIsConnected = expansion_control_handler_is_connected"

text \<open>The control thread on the messages it takes from the queue.\<close>

definition expansion_control :: "ExpansionMessage list \<Rightarrow> Expansion \<Rightarrow> fault + Expansion" where
  "expansion_control messages e = for_each expansion_control_handlers messages e"

definition expansion_alloc :: Expansion where
  "expansion_alloc = \<lparr>serial_id = 0, worker = 0, state = ExpansionStateDisabled, live_workers = [],
     next_worker = 0, armed = [], is_connected_answers = []\<rparr>"

text \<open>The messages the public functions let into the queue.\<close>

fun expansion_message_ok :: "ExpansionMessage \<Rightarrow> bool" where
  "expansion_message_ok (ExpansionMessageTypeSetListenSerial i) \<longleftrightarrow> i < FuriHalSerialIdMax"
| "expansion_message_ok _ = True"

section \<open>The invariant as a relation on steps\<close>

inductive control_step :: "Expansion \<Rightarrow> Expansion \<Rightarrow> bool" where
  handled: "expansion_message_ok m \<Longrightarrow> expansion_control_handlers m e = Inr e' \<Longrightarrow> control_step e e'"

inductive control_reachable :: "Expansion \<Rightarrow> bool" where
  start: "control_reachable expansion_alloc"
| step: "control_reachable e \<Longrightarrow> control_step e e' \<Longrightarrow> control_reachable e'"

text \<open>One worker exactly while one is running, the detection armed on the chosen port exactly while the
  service waits for a module.\<close>

definition control_inv :: "Expansion \<Rightarrow> bool" where
  "control_inv e \<longleftrightarrow>
     live_workers e = (if is_running e then [worker e] else []) \<and>
     armed e = (if state e = ExpansionStateEnabled then [serial_id e] else []) \<and>
     (state e \<noteq> ExpansionStateDisabled \<longrightarrow> serial_id e < FuriHalSerialIdMax)"

lemmas control_defs = expansion_control_handler_enable_def expansion_control_handler_disable_def
  expansion_control_handler_set_listen_serial_def expansion_control_handler_reload_settings_def
  expansion_control_handler_module_connected_def expansion_control_handler_module_disconnected_def
  expansion_control_handler_connection_established_def expansion_control_handler_is_connected_def
  worker_stop_def worker_free_def arm_def disarm_def is_running_def

lemma set_listen_serial_ok:
  assumes "control_inv e" and "i < FuriHalSerialIdMax"
  shows "\<exists>e'. expansion_control_handler_set_listen_serial i e = Inr e' \<and> control_inv e'"
  using assms by (cases "state e") (auto simp: control_inv_def control_defs)

lemma disable_ok:
  assumes "control_inv e"
  shows "\<exists>e'. expansion_control_handler_disable e = Inr e' \<and> control_inv e'"
  using assms by (cases "state e") (auto simp: control_inv_def control_defs)

lemma control_handlers_ok:
  assumes "control_inv e" and "expansion_message_ok m"
  shows "\<exists>e'. expansion_control_handlers m e = Inr e' \<and> control_inv e'"
proof (cases "\<exists>i. m = ExpansionMessageTypeReloadSettings i")
  case True
  then show ?thesis
    using assms set_listen_serial_ok disable_ok
    by (auto simp: expansion_control_handler_reload_settings_def)
next
  case False
  then show ?thesis
    using assms set_listen_serial_ok disable_ok
    by (cases m; cases "state e") (auto simp: control_inv_def control_defs)
qed

lemma control_reachable_inv: "control_reachable e \<Longrightarrow> control_inv e"
proof (induction rule: control_reachable.induct)
  case start
  then show ?case by (simp add: control_inv_def expansion_alloc_def is_running_def)
next
  case (step e e')
  then show ?case using control_handlers_ok by (force elim: control_step.cases)
qed

lemma expansion_control_reachable:
  assumes "list_all expansion_message_ok messages" and "control_reachable e"
  shows "\<exists>e'. expansion_control messages e = Inr e' \<and> control_reachable e'"
  using assms
proof (induction messages arbitrary: e)
  case Nil
  then show ?case by (simp add: expansion_control_def)
next
  case (Cons m messages)
  then have ok: "expansion_message_ok m" by simp
  then obtain e1 where e1: "expansion_control_handlers m e = Inr e1"
    using control_handlers_ok [OF control_reachable_inv [OF Cons.prems(2)]] by blast
  then have "control_reachable e1"
    using Cons.prems(2) ok by (blast intro: control_reachable.step handled)
  then show ?case
    using Cons e1 by (simp add: expansion_control_def)
qed

text \<open>C13 Whatever messages users, modules and workers send, the expansion service never stops or frees a
  worker that does not exist: exactly one worker exists while the service is running and none
  otherwise, and detection is armed on the chosen port exactly while it waits for a module.\<close>

theorem expansion_control_invariant:
  assumes "list_all expansion_message_ok messages"
  shows "\<exists>e. expansion_control messages expansion_alloc = Inr e \<and>
    live_workers e = (if is_running e then [worker e] else []) \<and>
    armed e = (if state e = ExpansionStateEnabled then [serial_id e] else [])"
  using expansion_control_reachable [OF assms control_reachable.start] control_reachable_inv
  by (auto simp: control_inv_def)

theorem expansion_control_invariant_witness:
  "\<exists>e. expansion_control [ExpansionMessageTypeEnable 0, ExpansionMessageTypeModuleConnected,
        ExpansionMessageTypeSetListenSerial 1, ExpansionMessageTypeModuleDisconnected, ExpansionMessageTypeReloadSettings 5]
      expansion_alloc = Inr e \<and>
    live_workers e = (if is_running e then [worker e] else []) \<and>
    armed e = (if state e = ExpansionStateEnabled then [serial_id e] else [])"
  by (rule expansion_control_invariant) (simp add: firmware_const)

end
