(* ===== verification/Scene_Manager.thy ===== *)
theory Scene_Manager
  imports Flipper_Prelude
begin

text \<open>
  Scene navigation, \<^verbatim>\<open>services/gui/scene_manager.c\<close>: a stack of scene numbers, a state word per scene,
  and the handlers of the application. The handlers are parameters; a handler gets the whole scene
  manager, because the handlers of the applications call back into it to change scenes. The stack is
  a list with the current scene last.
\<close>

section \<open>The scene manager\<close>

datatype SceneManagerEvent =
    SceneManagerEventTypeCustom u32
  | SceneManagerEventTypeBack
  | SceneManagerEventTypeTick

record 'c SceneManager =
  scene_id_stack :: "nat list"
  scene :: "u32 list"
  app_context :: 'c

record 'c SceneManagerHandlers =
  on_enter_handlers :: "('c SceneManager \<Rightarrow> fault + 'c SceneManager) list"
  on_event_handlers :: "(SceneManagerEvent \<Rightarrow> 'c SceneManager \<Rightarrow> fault + bool \<times> 'c SceneManager) list"
  on_exit_handlers :: "('c SceneManager \<Rightarrow> fault + 'c SceneManager) list"
  scene_num :: nat

definition call_handler :: "('c SceneManager \<Rightarrow> fault + 'a) list \<Rightarrow> nat \<Rightarrow> 'c SceneManager \<Rightarrow> fault + 'a" where
  "call_handler handlers i m = bind_r (rd handlers i) (\<lambda>f. f m)"

definition call_event_handler ::
  "'c SceneManagerHandlers \<Rightarrow> SceneManagerEvent \<Rightarrow> nat \<Rightarrow> 'c SceneManager \<Rightarrow> fault + bool \<times> 'c SceneManager" where
  "call_event_handler h event i m = bind_r (rd (on_event_handlers h) i) (\<lambda>f. f event m)"

definition scene_manager_alloc :: "'c SceneManagerHandlers \<Rightarrow> 'c \<Rightarrow> 'c SceneManager" where
  "scene_manager_alloc h c = \<lparr>scene_id_stack = [], scene = replicate (scene_num h) 0, app_context = c\<rparr>"

definition scene_manager_set_scene_state ::
  "'c SceneManagerHandlers \<Rightarrow> 'c SceneManager \<Rightarrow> nat \<Rightarrow> u32 \<Rightarrow> fault + 'c SceneManager" where
  "scene_manager_set_scene_state h m scene_id state =
     furi_check (scene_id < scene_num h) (bind_r (wr (scene m) scene_id state) (\<lambda>s. Inr (m\<lparr>scene := s\<rparr>)))"

definition scene_manager_get_scene_state ::
  "'c SceneManagerHandlers \<Rightarrow> 'c SceneManager \<Rightarrow> nat \<Rightarrow> fault + u32" where
  "scene_manager_get_scene_state h m scene_id = furi_check (scene_id < scene_num h) (rd (scene m) scene_id)"

definition scene_manager_handle_custom_event ::
  "'c SceneManagerHandlers \<Rightarrow> 'c SceneManager \<Rightarrow> u32 \<Rightarrow> fault + bool \<times> 'c SceneManager" where
  "scene_manager_handle_custom_event h m custom_event =
     (if length (scene_id_stack m) > 0
      then call_event_handler h (SceneManagerEventTypeCustom custom_event) (last (scene_id_stack m)) m
      else Inr (False, m))"

definition scene_manager_previous_scene ::
  "'c SceneManagerHandlers \<Rightarrow> 'c SceneManager \<Rightarrow> fault + bool \<times> 'c SceneManager" where
  "scene_manager_previous_scene h m =
     (if length (scene_id_stack m) > 0
      then
        let cur_scene_id = last (scene_id_stack m);
            m1 = m\<lparr>scene_id_stack := butlast (scene_id_stack m)\<rparr>
        in if length (scene_id_stack m1) = 0
           then bind_r (call_handler (on_exit_handlers h) cur_scene_id m1) (\<lambda>m2. Inr (False, m2))
           else
             let prev_scene_id = last (scene_id_stack m1)
             in bind_r (call_handler (on_exit_handlers h) cur_scene_id m1) (\<lambda>m2.
                bind_r (call_handler (on_enter_handlers h) prev_scene_id m2) (\<lambda>m3. Inr (True, m3)))
      else Inr (False, m))"

definition scene_manager_handle_back_event ::
  "'c SceneManagerHandlers \<Rightarrow> 'c SceneManager \<Rightarrow> fault + bool \<times> 'c SceneManager" where
  "scene_manager_handle_back_event h m =
     bind_r (if length (scene_id_stack m) > 0
             then call_event_handler h SceneManagerEventTypeBack (last (scene_id_stack m)) m
             else Inr (False, m)) (\<lambda>(consumed, m1).
       if \<not> consumed then scene_manager_previous_scene h m1 else Inr (consumed, m1))"

definition scene_manager_handle_tick_event ::
  "'c SceneManagerHandlers \<Rightarrow> 'c SceneManager \<Rightarrow> fault + 'c SceneManager" where
  "scene_manager_handle_tick_event h m =
     (if length (scene_id_stack m) > 0
      then bind_r (call_event_handler h SceneManagerEventTypeTick (last (scene_id_stack m)) m) (\<lambda>(_, m1). Inr m1)
      else Inr m)"

definition scene_manager_next_scene ::
  "'c SceneManagerHandlers \<Rightarrow> 'c SceneManager \<Rightarrow> nat \<Rightarrow> fault + 'c SceneManager" where
  "scene_manager_next_scene h m next_scene_id =
     furi_check (next_scene_id < scene_num h)
       (bind_r (if length (scene_id_stack m) > 0
                then call_handler (on_exit_handlers h) (last (scene_id_stack m)) m else Inr m) (\<lambda>m1.
          call_handler (on_enter_handlers h) next_scene_id
            (m1\<lparr>scene_id_stack := scene_id_stack m1 @ [next_scene_id]\<rparr>)))"

text \<open>The iterator goes from the element below the current scene down to the bottom of the stack.\<close>

fun search_down :: "nat list \<Rightarrow> nat \<Rightarrow> nat \<Rightarrow> nat option" where
  "search_down stack scene_id 0 = None"
| "search_down stack scene_id (Suc i) = (if stack ! i = scene_id then Some i else search_down stack scene_id i)"

definition scene_manager_search_and_switch_to_previous_scene ::
  "'c SceneManagerHandlers \<Rightarrow> 'c SceneManager \<Rightarrow> nat \<Rightarrow> fault + bool \<times> 'c SceneManager" where
  "scene_manager_search_and_switch_to_previous_scene h m scene_id =
     (if length (scene_id_stack m) > 0
      then
        let cur_scene_id = last (scene_id_stack m)
        in case search_down (scene_id_stack m) scene_id (length (scene_id_stack m) - 1) of
             None \<Rightarrow> Inr (False, m)
           | Some i \<Rightarrow>
               let prev_scene_id = scene_id_stack m ! i;
                   m1 = m\<lparr>scene_id_stack := take (i + 1) (scene_id_stack m)\<rparr>
               in bind_r (call_handler (on_exit_handlers h) cur_scene_id m1) (\<lambda>m2.
                  bind_r (call_handler (on_enter_handlers h) prev_scene_id m2) (\<lambda>m3. Inr (True, m3)))
      else Inr (False, m))"

definition scene_manager_has_previous_scene :: "'c SceneManager \<Rightarrow> nat \<Rightarrow> bool" where
  "scene_manager_has_previous_scene m scene_id \<longleftrightarrow>
     length (scene_id_stack m) > 0 \<and>
     search_down (scene_id_stack m) scene_id (length (scene_id_stack m) - 1) \<noteq> None"

fun scene_manager_search_and_switch_to_previous_scene_one_of ::
  "'c SceneManagerHandlers \<Rightarrow> 'c SceneManager \<Rightarrow> nat list \<Rightarrow> fault + bool \<times> 'c SceneManager" where
  "scene_manager_search_and_switch_to_previous_scene_one_of h m [] = Inr (False, m)"
| "scene_manager_search_and_switch_to_previous_scene_one_of h m (scene_id # scene_ids) =
     (if scene_manager_has_previous_scene m scene_id
      then bind_r (scene_manager_search_and_switch_to_previous_scene h m scene_id) (\<lambda>(_, m1). Inr (True, m1))
      else scene_manager_search_and_switch_to_previous_scene_one_of h m scene_ids)"

definition scene_manager_search_and_switch_to_another_scene ::
  "'c SceneManagerHandlers \<Rightarrow> 'c SceneManager \<Rightarrow> nat \<Rightarrow> fault + bool \<times> 'c SceneManager" where
  "scene_manager_search_and_switch_to_another_scene h m scene_id =
     furi_check (scene_id < scene_num h)
       (if length (scene_id_stack m) > 0
        then
          let cur_scene_id = last (scene_id_stack m);
              m1 = m\<lparr>scene_id_stack := take 1 (scene_id_stack m) @ [scene_id]\<rparr>
          in bind_r (call_handler (on_exit_handlers h) cur_scene_id m1) (\<lambda>m2.
             bind_r (call_handler (on_enter_handlers h) scene_id m2) (\<lambda>m3. Inr (True, m3)))
        else Inr (False, m))"

text \<open>The current scene of an empty stack is an element that does not exist.\<close>

definition scene_manager_get_current_scene :: "'c SceneManager \<Rightarrow> fault + nat" where
  "scene_manager_get_current_scene m =
     (if scene_id_stack m = [] then Inl UndefinedBehaviour else Inr (last (scene_id_stack m)))"

definition scene_manager_stop :: "'c SceneManagerHandlers \<Rightarrow> 'c SceneManager \<Rightarrow> fault + 'c SceneManager" where
  "scene_manager_stop h m =
     (if length (scene_id_stack m) > 0
      then call_handler (on_exit_handlers h) (last (scene_id_stack m)) m else Inr m)"

section \<open>Every call keeps the scene numbers in range\<close>

definition manager_ok :: "'c SceneManagerHandlers \<Rightarrow> 'c SceneManager \<Rightarrow> bool" where
  "manager_ok h m \<longleftrightarrow> list_all (\<lambda>i. i < scene_num h) (scene_id_stack m) \<and> length (scene m) = scene_num h"

text \<open>A failed check, or a scene manager in order.\<close>

definition outcome_ok :: "'c SceneManagerHandlers \<Rightarrow> fault + 'c SceneManager \<Rightarrow> bool" where
  "outcome_ok h r = (case r of Inl e \<Rightarrow> e = FuriCheck | Inr m \<Rightarrow> manager_ok h m)"

definition drop_result :: "fault + bool \<times> 'c SceneManager \<Rightarrow> fault + 'c SceneManager" where
  "drop_result r = bind_r r (\<lambda>(_, m). Inr m)"

text \<open>An application: a handler of each kind for each scene, which keep a scene manager in order.\<close>

definition handlers_ok :: "'c SceneManagerHandlers \<Rightarrow> bool" where
  "handlers_ok h \<longleftrightarrow>
     length (on_enter_handlers h) = scene_num h \<and> length (on_event_handlers h) = scene_num h \<and>
     length (on_exit_handlers h) = scene_num h \<and>
     (\<forall>f \<in> set (on_enter_handlers h) \<union> set (on_exit_handlers h). \<forall>m. manager_ok h m \<longrightarrow> outcome_ok h (f m)) \<and>
     (\<forall>f \<in> set (on_event_handlers h). \<forall>event m. manager_ok h m \<longrightarrow> outcome_ok h (drop_result (f event m)))"

datatype scene_call =
    SetSceneState nat u32
  | CustomEvent u32
  | BackEvent
  | TickEvent
  | NextScene nat
  | PreviousScene
  | SwitchToPrevious nat
  | SwitchToPreviousOneOf "nat list"
  | SwitchToAnother nat
  | Stop

fun do_scene_call :: "'c SceneManagerHandlers \<Rightarrow> scene_call \<Rightarrow> 'c SceneManager \<Rightarrow> fault + 'c SceneManager" where
  "do_scene_call h (SetSceneState i s) m = scene_manager_set_scene_state h m i s"
| "do_scene_call h (CustomEvent e) m = drop_result (scene_manager_handle_custom_event h m e)"
| "do_scene_call h BackEvent m = drop_result (scene_manager_handle_back_event h m)"
| "do_scene_call h TickEvent m = scene_manager_handle_tick_event h m"
| "do_scene_call h (NextScene i) m = scene_manager_next_scene h m i"
| "do_scene_call h PreviousScene m = drop_result (scene_manager_previous_scene h m)"
| "do_scene_call h (SwitchToPrevious i) m = drop_result (scene_manager_search_and_switch_to_previous_scene h m i)"
| "do_scene_call h (SwitchToPreviousOneOf is) m =
     drop_result (scene_manager_search_and_switch_to_previous_scene_one_of h m is)"
| "do_scene_call h (SwitchToAnother i) m = drop_result (scene_manager_search_and_switch_to_another_scene h m i)"
| "do_scene_call h Stop m = scene_manager_stop h m"

lemma outcome_ok_simps [simp]:
  "outcome_ok h (Inl e) \<longleftrightarrow> e = FuriCheck" "outcome_ok h (Inr m) \<longleftrightarrow> manager_ok h m"
  by (simp_all add: outcome_ok_def)

lemma outcome_ok_check [simp]: "outcome_ok h (furi_check b r) \<longleftrightarrow> (b \<longrightarrow> outcome_ok h r)"
  by (cases b) simp_all

lemma outcome_ok_bind:
  assumes "outcome_ok h r" and "\<And>m. manager_ok h m \<Longrightarrow> outcome_ok h (f m)"
  shows "outcome_ok h (bind_r r f)"
  using assms by (cases r) simp_all

lemma drop_result_simps [simp]:
  "drop_result (Inr (b, m)) = Inr m" "drop_result (bind_r r f) = bind_r r (\<lambda>x. drop_result (f x))"
  "drop_result (furi_check c r') = furi_check c (drop_result r')"
  "drop_result (if c then r' else r'') = (if c then drop_result r' else drop_result r'')"
  by (cases r; simp add: drop_result_def furi_check_def)+

lemma call_handler_ok:
  assumes "handlers_ok h" and "manager_ok h m" and "i < scene_num h"
  shows "outcome_ok h (call_handler (on_enter_handlers h) i m)" "outcome_ok h (call_handler (on_exit_handlers h) i m)"
    "outcome_ok h (drop_result (call_event_handler h event i m))"
  using assms by (simp_all add: handlers_ok_def call_handler_def call_event_handler_def)

lemma manager_ok_last: "manager_ok h m \<Longrightarrow> scene_id_stack m \<noteq> [] \<Longrightarrow> last (scene_id_stack m) < scene_num h"
  by (simp add: manager_ok_def list_all_iff)

lemma search_down_bound: "search_down stack i n = Some j \<Longrightarrow> j < n \<and> stack ! j = i"
  by (induction n) (auto split: if_splits)

lemma event_handler_ok:
  assumes "handlers_ok h" and "manager_ok h m"
  shows "outcome_ok h (drop_result (if length (scene_id_stack m) > 0
      then call_event_handler h event (last (scene_id_stack m)) m else Inr (b, m)))"
  using assms by (auto intro: call_handler_ok(3) manager_ok_last)

lemma previous_scene_ok:
  assumes "handlers_ok h" and "manager_ok h m"
  shows "outcome_ok h (drop_result (scene_manager_previous_scene h m))"
proof (cases "scene_id_stack m" rule: rev_cases)
  case Nil
  then show ?thesis using assms(2) by (simp add: scene_manager_previous_scene_def)
next
  case (snoc xs x)
  then have ok: "manager_ok h (m\<lparr>scene_id_stack := xs\<rparr>)" "x < scene_num h" "xs \<noteq> [] \<Longrightarrow> last xs < scene_num h"
    using assms(2) by (auto simp: manager_ok_def list_all_iff)
  then show ?thesis
    using snoc assms(1)
    by (auto simp: scene_manager_previous_scene_def Let_def intro!: outcome_ok_bind call_handler_ok)
qed

lemma back_event_ok:
  assumes "handlers_ok h" and "manager_ok h m"
  shows "outcome_ok h (drop_result (scene_manager_handle_back_event h m))"
proof -
  let ?r = "if length (scene_id_stack m) > 0
    then call_event_handler h SceneManagerEventTypeBack (last (scene_id_stack m)) m else Inr (False, m)"
  have "outcome_ok h (drop_result ?r)" using event_handler_ok [OF assms] .
  then show ?thesis
    using previous_scene_ok [OF assms(1)]
    by (cases ?r) (auto simp: scene_manager_handle_back_event_def drop_result_def split: prod.splits)
qed

lemma switch_ok:
  assumes "handlers_ok h" and "manager_ok h m" and "scene_id_stack m \<noteq> []" and "list_all (\<lambda>i. i < scene_num h) stack"
    and "i < scene_num h"
  shows "outcome_ok h (bind_r (call_handler (on_exit_handlers h) (last (scene_id_stack m)) (m\<lparr>scene_id_stack := stack\<rparr>))
    (call_handler (on_enter_handlers h) i))"
proof -
  have "manager_ok h (m\<lparr>scene_id_stack := stack\<rparr>)" using assms(2,4) by (simp add: manager_ok_def)
  then show ?thesis
    using assms manager_ok_last by (blast intro: outcome_ok_bind call_handler_ok)
qed

lemma bind_r_Inr [simp]: "bind_r r Inr = r"
  by (cases r) simp_all

lemma switch_previous_ok:
  assumes "handlers_ok h" and "manager_ok h m"
  shows "outcome_ok h (drop_result (scene_manager_search_and_switch_to_previous_scene h m i))"
proof (cases "scene_id_stack m = [] \<or> search_down (scene_id_stack m) i (length (scene_id_stack m) - 1) = None")
  case True
  then show ?thesis
    using assms(2) by (auto simp: scene_manager_search_and_switch_to_previous_scene_def)
next
  case False
  then obtain j where j: "search_down (scene_id_stack m) i (length (scene_id_stack m) - 1) = Some j"
    and ne: "scene_id_stack m \<noteq> []" by auto
  have bounds: "j < length (scene_id_stack m)" "scene_id_stack m ! j = i"
    using search_down_bound [OF j] by auto
  have "list_all (\<lambda>i. i < scene_num h) (take (Suc j) (scene_id_stack m))" "i < scene_num h"
    using assms(2) bounds by (auto simp: manager_ok_def list_all_length)
  from switch_ok [OF assms ne this] show ?thesis
    using j ne bounds by (simp add: scene_manager_search_and_switch_to_previous_scene_def Let_def)
qed

lemma switch_one_of_ok:
  assumes "handlers_ok h" and "manager_ok h m"
  shows "outcome_ok h (drop_result (scene_manager_search_and_switch_to_previous_scene_one_of h m is))"
proof (induction "is")
  case Nil
  then show ?case using assms(2) by simp
next
  case (Cons i "is")
  have "drop_result (bind_r r (\<lambda>(b, m). Inr (True, m))) = drop_result r" for r :: "fault + bool \<times> 'a SceneManager"
    by (cases r) (auto simp: drop_result_def)
  then show ?case
    using Cons switch_previous_ok [OF assms, of i] by simp
qed

lemma switch_another_ok:
  assumes "handlers_ok h" and "manager_ok h m"
  shows "outcome_ok h (drop_result (scene_manager_search_and_switch_to_another_scene h m i))"
proof (cases "i < scene_num h \<and> scene_id_stack m \<noteq> []")
  case True
  then have "list_all (\<lambda>i. i < scene_num h) (take 1 (scene_id_stack m) @ [i])"
    using assms(2) by (cases "scene_id_stack m") (simp_all add: manager_ok_def)
  from switch_ok [OF assms _ this, of i] True show ?thesis
    by (simp add: scene_manager_search_and_switch_to_another_scene_def Let_def)
next
  case False
  then show ?thesis
    using assms(2) by (auto simp: scene_manager_search_and_switch_to_another_scene_def)
qed

lemma next_scene_ok:
  assumes "handlers_ok h" and "manager_ok h m"
  shows "outcome_ok h (scene_manager_next_scene h m i)"
proof -
  have "outcome_ok h (if length (scene_id_stack m) > 0
      then call_handler (on_exit_handlers h) (last (scene_id_stack m)) m else Inr m)"
    using assms by (auto intro: call_handler_ok(2) manager_ok_last)
  moreover have "manager_ok h (m1\<lparr>scene_id_stack := scene_id_stack m1 @ [i]\<rparr>)"
    if "manager_ok h m1" and "i < scene_num h" for m1
    using that by (simp add: manager_ok_def)
  ultimately show ?thesis
    using assms(1) unfolding scene_manager_next_scene_def outcome_ok_check
    by (blast intro: outcome_ok_bind call_handler_ok(1))
qed

lemma do_scene_call_ok:
  assumes "handlers_ok h" and "manager_ok h m"
  shows "outcome_ok h (do_scene_call h c m)"
proof (cases c)
  case (SetSceneState i s)
  then show ?thesis using assms(2) by (simp add: scene_manager_set_scene_state_def manager_ok_def)
next
  case TickEvent
  have "scene_manager_handle_tick_event h m = drop_result (if length (scene_id_stack m) > 0
      then call_event_handler h SceneManagerEventTypeTick (last (scene_id_stack m)) m else Inr (False, m))"
    by (simp add: scene_manager_handle_tick_event_def drop_result_def)
  then show ?thesis using TickEvent event_handler_ok [OF assms] by simp
next
  case (CustomEvent e)
  then show ?thesis
    using event_handler_ok [OF assms] by (simp add: scene_manager_handle_custom_event_def)
next
  case Stop
  then show ?thesis
    using assms by (auto simp: scene_manager_stop_def intro: call_handler_ok(2) manager_ok_last)
qed (use assms back_event_ok next_scene_ok previous_scene_ok switch_previous_ok switch_one_of_ok switch_another_ok in simp_all)

text \<open>C21 Scene numbers stay in range: an application whose handlers keep the scene manager in order can make
  any sequence of calls; each one stops at a failed check of its argument or leaves a stack of existing
  scenes and one state word per scene, and no handler table is read outside its bounds.\<close>

theorem scene_manager_calls_ok:
  assumes "handlers_ok h"
  shows "outcome_ok h (for_each (do_scene_call h) calls (scene_manager_alloc h c))"
proof -
  have "outcome_ok h (for_each (do_scene_call h) calls m)" if "manager_ok h m" for m
    using that
  proof (induction calls arbitrary: m)
    case (Cons call calls)
    then show ?case by (auto intro: outcome_ok_bind do_scene_call_ok [OF assms])
  qed simp
  then show ?thesis by (simp add: manager_ok_def scene_manager_alloc_def)
qed

text \<open>An application whose handlers only work on its own context, and never leave the scene by themselves.\<close>

definition context_handlers ::
  "nat \<Rightarrow> (nat \<Rightarrow> 'c \<Rightarrow> 'c) \<Rightarrow> (nat \<Rightarrow> SceneManagerEvent \<Rightarrow> 'c \<Rightarrow> bool \<times> 'c) \<Rightarrow> (nat \<Rightarrow> 'c \<Rightarrow> 'c) \<Rightarrow> 'c SceneManagerHandlers" where
  "context_handlers n enter event leave =
     \<lparr>on_enter_handlers = map (\<lambda>i m. Inr (m\<lparr>app_context := enter i (app_context m)\<rparr>)) [0..<n],
      on_event_handlers = map (\<lambda>i e m. case event i e (app_context m) of (b, c) \<Rightarrow> Inr (b, m\<lparr>app_context := c\<rparr>)) [0..<n],
      on_exit_handlers = map (\<lambda>i m. Inr (m\<lparr>app_context := leave i (app_context m)\<rparr>)) [0..<n],
      scene_num = n\<rparr>"

lemma context_handlers_ok: "handlers_ok (context_handlers n enter event leave)"
  by (auto simp: handlers_ok_def context_handlers_def manager_ok_def drop_result_def split: prod.splits)

theorem scene_manager_calls_ok_witness:
  "outcome_ok (context_handlers 3 (\<lambda>i c. c + i) (\<lambda>i e c. (False, c)) (\<lambda>i c. c))
     (for_each (do_scene_call (context_handlers 3 (\<lambda>i c. c + i) (\<lambda>i e c. (False, c)) (\<lambda>i c. c)))
       [NextScene 0, NextScene 2, CustomEvent 5, SwitchToPreviousOneOf [1, 0], BackEvent, NextScene 7]
       (scene_manager_alloc (context_handlers 3 (\<lambda>i c. c + i) (\<lambda>i e c. (False, c)) (\<lambda>i c. c)) (0 :: nat)))"
  by (rule scene_manager_calls_ok) (rule context_handlers_ok)

section \<open>Going to a scene and back\<close>

lemma context_call_handler [simp]:
  assumes "i < n"
  shows "call_handler (on_enter_handlers (context_handlers n enter event leave)) i m =
      Inr (m\<lparr>app_context := enter i (app_context m)\<rparr>)"
    "call_handler (on_exit_handlers (context_handlers n enter event leave)) i m =
      Inr (m\<lparr>app_context := leave i (app_context m)\<rparr>)"
    "call_event_handler (context_handlers n enter event leave) e i m =
      (case event i e (app_context m) of (b, c) \<Rightarrow> Inr (b, m\<lparr>app_context := c\<rparr>))"
  using assms by (simp_all add: call_handler_def call_event_handler_def context_handlers_def)

lemma context_scene_num [simp]: "scene_num (context_handlers n enter event leave) = n"
  by (simp add: context_handlers_def)

text \<open>In an application whose handlers leave the scene manager alone, opening a scene and pressing back, which the scene
  does not consume, leads to the same stack and scene states; on the way the old scene is left, the new one entered, asked about the key and left,
  and the old one entered again, in this order.\<close>

theorem next_scene_then_back:
  assumes "manager_ok (context_handlers n enter event leave) m" and "scene_id_stack m = xs @ [cur]" and "i < n"
    and "event i SceneManagerEventTypeBack (enter i (leave cur (app_context m))) = (False, c)"
  shows "bind_r (scene_manager_next_scene (context_handlers n enter event leave) m i)
      (scene_manager_handle_back_event (context_handlers n enter event leave)) =
    Inr (True, m\<lparr>app_context := enter cur (leave i c)\<rparr>)"
proof -
  have "cur < n" using assms(1,2) by (simp add: manager_ok_def)
  then show ?thesis
    using assms(2-4)
    by (cases m) (simp add: scene_manager_next_scene_def scene_manager_handle_back_event_def
        scene_manager_previous_scene_def butlast_append Let_def)
qed

theorem next_scene_then_back_witness:
  "bind_r (scene_manager_next_scene (context_handlers 3 (\<lambda>i c. c @ [(True, i)]) (\<lambda>i e c. (False, c)) (\<lambda>i c. c @ [(False, i)]))
        \<lparr>scene_id_stack = [0, 1], scene = [0, 0, 0], app_context = []\<rparr> 2)
      (scene_manager_handle_back_event (context_handlers 3 (\<lambda>i c. c @ [(True, i)]) (\<lambda>i e c. (False, c)) (\<lambda>i c. c @ [(False, i)]))) =
    Inr (True, \<lparr>scene_id_stack = [0, 1], scene = [0, 0, 0],
      app_context = [(False, 1), (True, 2), (False, 2), (True, 1)]\<rparr>)"
  using next_scene_then_back [of 3 "\<lambda>i c. c @ [(True, i)]" "\<lambda>i e c. (False, c)" "\<lambda>i c. c @ [(False, i)]"
      "\<lparr>scene_id_stack = [0, 1], scene = [0, 0, 0], app_context = []\<rparr>" "[0]" 1 2]
  by (simp add: manager_ok_def)

section \<open>Searching the stack\<close>

lemma search_down_None: "search_down stack i n = None \<longleftrightarrow> (\<forall>j < n. stack ! j \<noteq> i)"
  by (induction n) (auto simp: less_Suc_eq)

lemma search_down_Some:
  "search_down stack i n = Some j \<longleftrightarrow> j < n \<and> stack ! j = i \<and> (\<forall>k. j < k \<and> k < n \<longrightarrow> stack ! k \<noteq> i)"
proof (induction n)
  case (Suc n)
  then show ?case
    by (cases "stack ! n = i") (auto simp: less_Suc_eq)
qed simp

text \<open>C35 Switching back to an earlier scene, for handlers that may do anything, also call the scene manager: it succeeds
  exactly when \<^verbatim>\<open>scene_manager_has_previous_scene\<close> says so, that is when the scene lies somewhere below the current one.
  First everything above the highest of its places is taken off the stack; on the manager with this stack the old
  scene is left, and on what that handler made of it the earlier scene is entered, so a change that the handlers make is made after the
  cut and stays. Otherwise no handler is called and nothing changes.\<close>

theorem switch_to_previous_scene_spec:
  assumes "scene_id_stack m = xs @ [cur]"
  shows "scene_manager_search_and_switch_to_previous_scene h m i =
      (if i \<in> set xs
       then bind_r (call_handler (on_exit_handlers h) cur (m\<lparr>scene_id_stack := rev (dropWhile (\<lambda>j. j \<noteq> i) (rev xs))\<rparr>)) (\<lambda>m1.
            bind_r (call_handler (on_enter_handlers h) i m1) (\<lambda>m2. Inr (True, m2)))
       else Inr (False, m)) \<and>
    scene_manager_has_previous_scene m i = (i \<in> set xs)"
proof (cases "search_down (scene_id_stack m) i (length (scene_id_stack m) - 1)")
  case None
  then have "i \<notin> set xs"
    using assms by (fastforce simp: search_down_None in_set_conv_nth nth_append)
  then show ?thesis
    using None assms
    by (simp add: scene_manager_search_and_switch_to_previous_scene_def scene_manager_has_previous_scene_def)
next
  case (Some j)
  then have j: "j < length xs" "xs ! j = i" "\<forall>k. j < k \<and> k < length xs \<longrightarrow> xs ! k \<noteq> i"
    using assms by (auto simp: search_down_Some nth_append split: if_splits)
  have "xs = take j xs @ i # drop (Suc j) xs"
    using id_take_nth_drop [OF j(1)] j(2) by simp
  then have "rev xs = rev (drop (Suc j) xs) @ i # rev (take j xs)"
    by (metis append.assoc append_Cons append_Nil rev.simps(2) rev_append)
  moreover have "dropWhile (\<lambda>j. j \<noteq> i) (ys @ i # zs) = i # zs" if "i \<notin> set ys" for ys zs
    using that by (induction ys) auto
  moreover have "i \<notin> set (rev (drop (Suc j) xs))"
    using j(3) by (auto simp: in_set_conv_nth)
  ultimately have "rev (dropWhile (\<lambda>j. j \<noteq> i) (rev xs)) = take (Suc j) xs"
    using j by (simp add: take_Suc_conv_app_nth)
  then show ?thesis
    using Some assms j nth_mem [OF j(1)]
    by (simp add: scene_manager_search_and_switch_to_previous_scene_def scene_manager_has_previous_scene_def nth_append)
qed

text \<open>An application whose scenes call the manager from their handlers: on leaving, a scene stores 7 as its state, and scene 0
  goes on to scene 2 when it is entered.\<close>

definition calling_handlers :: "unit SceneManagerHandlers" where
  "calling_handlers =
     (let leave = (\<lambda>i m. scene_manager_set_scene_state \<lparr>on_enter_handlers = [], on_event_handlers = [], on_exit_handlers = [], scene_num = 4\<rparr> m i 7);
          next = (\<lambda>m. Inr (m\<lparr>scene_id_stack := scene_id_stack m @ [2]\<rparr>))
      in \<lparr>on_enter_handlers = [next, Inr, Inr, Inr], on_event_handlers = [], on_exit_handlers = map leave [0..<4], scene_num = 4\<rparr>)"

theorem switch_to_previous_scene_spec_witness:
  "scene_manager_search_and_switch_to_previous_scene calling_handlers
      \<lparr>scene_id_stack = [0, 1, 0, 2, 3], scene = [0, 0, 0, 0], app_context = ()\<rparr> 0 =
    Inr (True, \<lparr>scene_id_stack = [0, 1, 0, 2], scene = [0, 0, 0, 7], app_context = ()\<rparr>)"
proof -
  let ?m = "\<lparr>scene_id_stack = [0, 1, 0, 2, 3], scene = [0, 0, 0, 0], app_context = ()\<rparr>"
  have "call_handler (on_exit_handlers calling_handlers) 3 (?m\<lparr>scene_id_stack := [0, 1, 0]\<rparr>) =
      Inr \<lparr>scene_id_stack = [0, 1, 0], scene = [0, 0, 0, 7], app_context = ()\<rparr>"
    "call_handler (on_enter_handlers calling_handlers) 0 \<lparr>scene_id_stack = [0, 1, 0], scene = [0, 0, 0, 7], app_context = ()\<rparr> =
      Inr \<lparr>scene_id_stack = [0, 1, 0, 2], scene = [0, 0, 0, 7], app_context = ()\<rparr>"
    by code_simp+
  then show ?thesis using switch_to_previous_scene_spec [of ?m "[0, 1, 0, 2]" 3 calling_handlers 0] by simp
qed

end
