(* ===== verification/Strint.thy ===== *)
theory Strint
  imports Flipper_Prelude
begin

text \<open>
  Reading integers from text, \<^verbatim>\<open>lib/toolbox/strint.c\<close>. A C string is the list of its characters
  without the terminating zero; the results are 64 bit words and the conversions to the signed types
  are written out. An error leaves the output parameters as they were, so a result is either an error
  or the value with the rest of the string.
\<close>

unbundle bit_operations_syntax

section \<open>The parser\<close>

datatype StrintParseError =
    StrintParseSignError
  | StrintParseAbsentError
  | StrintParseOverflowError

definition code :: "char \<Rightarrow> nat" where
  "code c = of_char c"

fun skip_whitespace :: "string \<Rightarrow> string" where
  "skip_whitespace [] = []"
| "skip_whitespace (c # str) =
     (if (code c \<ge> 9 \<and> code c \<le> 13) \<or> c = CHR '' '' then skip_whitespace str else c # str)"

definition is_sign :: "string \<Rightarrow> bool" where
  "is_sign str \<longleftrightarrow> str \<noteq> [] \<and> (hd str = CHR ''+'' \<or> hd str = CHR ''-'')"

text \<open>\<^verbatim>\<open>strncasecmp(str, "0x", 2) == 0\<close> for the two prefixes.\<close>

definition has_prefix :: "string \<Rightarrow> char \<Rightarrow> char \<Rightarrow> bool" where
  "has_prefix str lower upper \<longleftrightarrow> length str \<ge> 2 \<and> str ! 0 = CHR ''0'' \<and> (str ! 1 = lower \<or> str ! 1 = upper)"

definition infer_base :: "string \<Rightarrow> u8 \<times> string" where
  "infer_base str =
     (if has_prefix str (CHR ''x'') (CHR ''X'') then (16, drop 2 str)
      else if has_prefix str (CHR ''b'') (CHR ''B'') then (2, drop 2 str)
      else if str \<noteq> [] \<and> hd str = CHR ''0'' then (8, drop 1 str)
      else (10, str))"

definition digit_value :: "char \<Rightarrow> nat option" where
  "digit_value c =
     (if code c \<ge> 48 \<and> code c \<le> 57 then Some (code c - 48)
      else if code c \<ge> 65 \<and> code c \<le> 90 then Some (code c - 65 + 10)
      else if code c \<ge> 97 \<and> code c \<le> 122 then Some (code c - 97 + 10)
      else None)"

text \<open>The loop over the digits, with the two checks against the limit.\<close>

fun read_digits :: "u8 \<Rightarrow> u64 \<Rightarrow> u64 \<Rightarrow> nat \<Rightarrow> string \<Rightarrow> StrintParseError + u64 \<times> nat \<times> string" where
  "read_digits base limit result read_total [] = Inr (result, read_total, [])"
| "read_digits base limit result read_total (c # str) =
     (case digit_value c of
        None \<Rightarrow> Inr (result, read_total, c # str)
      | Some d \<Rightarrow>
          if d \<ge> unat base then Inr (result, read_total, c # str)
          else if result > limit div ucast base then Inl StrintParseOverflowError
          else let result = result * ucast base
            in if result > limit - of_nat d then Inl StrintParseOverflowError
               else read_digits base limit (result + of_nat d) (Suc read_total) str)"

definition strint_to_uint64_internal ::
  "string \<Rightarrow> u8 \<Rightarrow> u64 \<Rightarrow> u64 \<Rightarrow> StrintParseError + u64 \<times> bool \<times> string" where
  "strint_to_uint64_internal str base max_abs_negative max_positive =
     (let str = skip_whitespace str;
          negative = (is_sign str \<and> hd str = CHR ''-'');
          str = (if is_sign str then tl str else str)
      in if is_sign str then Inl StrintParseSignError
         else if max_abs_negative = 0 \<and> negative then Inl StrintParseSignError
         else
           let (inferred_base, str) = infer_base str;
               base = (if base = 0 then inferred_base else base);
               limit = (if negative then max_abs_negative else max_positive)
           in case read_digits base limit 0 0 str of
                Inl e \<Rightarrow> Inl e
              | Inr (result, read_total, rest) \<Rightarrow>
                  if read_total = 0
                  then if inferred_base = 8 then Inr (0, negative, rest) else Inl StrintParseAbsentError
                  else Inr (result, negative, rest))"

section \<open>The typed functions\<close>

text \<open>The unsigned types have no negative values, so the conversion takes the absolute value.\<close>

definition unsigned_result ::
  "StrintParseError + u64 \<times> bool \<times> string \<Rightarrow> StrintParseError + 'a::len word \<times> string" where
  "unsigned_result r = (case r of Inl e \<Rightarrow> Inl e
     | Inr (absolute, negative, rest) \<Rightarrow> Inr (if negative then - ucast absolute else ucast absolute, rest))"

definition strint_to_uint64 :: "string \<Rightarrow> u8 \<Rightarrow> StrintParseError + u64 \<times> string" where
  "strint_to_uint64 str base = unsigned_result (strint_to_uint64_internal str base 0 (- 1))"

definition strint_to_uint32 :: "string \<Rightarrow> u8 \<Rightarrow> StrintParseError + u32 \<times> string" where
  "strint_to_uint32 str base = unsigned_result (strint_to_uint64_internal str base 0 (2 ^ 32 - 1))"

definition strint_to_uint16 :: "string \<Rightarrow> u8 \<Rightarrow> StrintParseError + u16 \<times> string" where
  "strint_to_uint16 str base = unsigned_result (strint_to_uint64_internal str base 0 (2 ^ 16 - 1))"

text \<open>
  For a signed type the absolute value is converted first, which wraps, and the negation of the type
  (of \<^verbatim>\<open>int\<close> for 16 bits) must not overflow; its result is converted to the type of the output.
\<close>

definition signed_result ::
  "nat \<Rightarrow> nat \<Rightarrow> StrintParseError + u64 \<times> bool \<times> string \<Rightarrow> fault + StrintParseError + int \<times> string" where
  "signed_result width arith_width r = (case r of Inl e \<Rightarrow> Inr (Inl e)
     | Inr (absolute, negative, rest) \<Rightarrow>
         let converted = signed_take_bit (width - 1) (uint absolute)
         in if \<not> negative then Inr (Inr (converted, rest))
            else if - converted < 2 ^ (arith_width - 1)
            then Inr (Inr (signed_take_bit (width - 1) (- converted), rest))
            else Inl UndefinedBehaviour)"

definition strint_to_int64 :: "string \<Rightarrow> u8 \<Rightarrow> fault + StrintParseError + int \<times> string" where
  "strint_to_int64 str base = signed_result 64 64 (strint_to_uint64_internal str base (2 ^ 63 - 1 + 1) (2 ^ 63 - 1))"

definition strint_to_int32 :: "string \<Rightarrow> u8 \<Rightarrow> fault + StrintParseError + int \<times> string" where
  "strint_to_int32 str base = signed_result 32 32 (strint_to_uint64_internal str base (2 ^ 31 - 1 + 1) (2 ^ 31 - 1))"

definition strint_to_int16 :: "string \<Rightarrow> u8 \<Rightarrow> fault + StrintParseError + int \<times> string" where
  "strint_to_int16 str base = signed_result 16 32 (strint_to_uint64_internal str base (2 ^ 15 - 1 + 1) (2 ^ 15 - 1))"

section \<open>Reading numbers without bounds\<close>

text \<open>The reference: digits are digits of the base, the number is what they spell, and it overflows
  exactly when it exceeds the limit.\<close>

definition is_digit :: "nat \<Rightarrow> char \<Rightarrow> bool" where
  "is_digit base c \<longleftrightarrow> (case digit_value c of None \<Rightarrow> False | Some d \<Rightarrow> d < base)"

definition number :: "nat \<Rightarrow> nat \<Rightarrow> string \<Rightarrow> nat" where
  "number base start ds = foldl (\<lambda>n c. n * base + the (digit_value c)) start ds"

definition read_number :: "nat \<Rightarrow> nat \<Rightarrow> string \<Rightarrow> StrintParseError + nat \<times> nat \<times> string" where
  "read_number base limit str =
     (let ds = takeWhile (is_digit base) str
      in if number base 0 ds > limit then Inl StrintParseOverflowError
         else Inr (number base 0 ds, length ds, drop (length ds) str))"

lemma number_mono: "0 < base \<Longrightarrow> start \<le> number base start ds"
proof (induction ds arbitrary: start)
  case (Cons d ds)
  have "start \<le> start * base + the (digit_value d)" using Cons.prems by (simp add: trans_le_add1)
  also have "\<dots> \<le> number base (start * base + the (digit_value d)) ds" using Cons by blast
  finally show ?case by (simp add: number_def)
qed (simp add: number_def)

text \<open>One digit: the checks of the loop accept it exactly when the new value is within the limit.\<close>

lemma digit_step:
  fixes result limit :: u64
  assumes "unat result \<le> unat limit" and "d < unat base" and "36 \<le> unat limit" and "d < 36"
  shows "(result > limit div ucast (base :: u8) \<or> result * ucast base > limit - of_nat d) \<longleftrightarrow>
      unat limit < unat result * unat base + d" (is ?checks)
    and "unat result * unat base + d \<le> unat limit \<Longrightarrow>
      unat (result * ucast base + of_nat d) = unat result * unat base + d" (is "_ \<Longrightarrow> ?sum")
proof -
  have base: "0 < unat base" using assms(2) by simp
  have limit: "unat limit < 2 ^ 64" using unsigned_less [of limit] by simp
  have d: "unat (of_nat d :: u64) = d" using assms(4) by (simp add: unat_of_nat)
  have quotient: "unat (limit div ucast base) = unat limit div unat base"
    by (simp add: unat_div)
  have product: "unat (result * ucast base) = unat result * unat base" if "unat result * unat base \<le> unat limit"
    using that limit unat_mult_lem [of result "ucast base"] by simp
  have difference: "unat (limit - of_nat d) = unat limit - d"
    using assms(3,4) d by (simp add: unat_sub word_le_nat_alt)
  have fits: "result \<le> limit div ucast base \<longleftrightarrow> unat result * unat base \<le> unat limit"
    using base by (simp add: word_le_nat_alt quotient less_eq_div_iff_mult_less_eq)
  show ?checks
  proof (cases "result \<le> limit div ucast base")
    case True
    then have "unat result * unat base \<le> unat limit" using fits by simp
    then show ?thesis
      using True product difference assms(3,4) by (auto simp: word_less_nat_alt word_le_nat_alt not_le [symmetric])
  next
    case False
    then show ?thesis using fits by (simp add: not_le)
  qed
  show ?sum if v: "unat result * unat base + d \<le> unat limit"
  proof -
    have p: "unat (result * ucast base) = unat result * unat base" using product v by simp
    have "unat (result * ucast base) + unat (of_nat d :: u64) < 2 ^ 64" using p d v limit by simp
    then show ?thesis using unat_add_lem [of "result * ucast base" "of_nat d"] p d by simp
  qed
qed

lemma digit_value_less: "digit_value c = Some d \<Longrightarrow> d < 36"
  by (auto simp: digit_value_def split: if_splits)

lemma read_digits_number:
  assumes "unat result \<le> unat limit" and "36 \<le> unat limit"
  shows "read_digits base limit result n str =
    (let ds = takeWhile (is_digit (unat base)) str
     in if number (unat base) (unat result) ds > unat limit then Inl StrintParseOverflowError
        else Inr (of_nat (number (unat base) (unat result) ds), n + length ds, drop (length ds) str))"
  using assms(1)
proof (induction str arbitrary: result n)
  case Nil
  then show ?case by (simp add: number_def)
next
  case (Cons c str)
  show ?case
  proof (cases "is_digit (unat base) c")
    case False
    then show ?thesis
      using Cons.prems by (auto simp: is_digit_def number_def split: option.splits)
  next
    case True
    then obtain d where d: "digit_value c = Some d" "d < unat base"
      by (auto simp: is_digit_def split: option.splits)
    note step = digit_step [OF Cons.prems d(2) assms(2) digit_value_less [OF d(1)]]
    let ?next = "unat result * unat base + d" and ?ds = "takeWhile (is_digit (unat base)) str"
    have num: "number (unat base) (unat result) (c # ?ds) = number (unat base) ?next ?ds"
      by (simp add: number_def d(1))
    show ?thesis
    proof (cases "?next \<le> unat limit")
      case over: False
      then have "unat limit < number (unat base) ?next ?ds"
        using number_mono [of "unat base" ?next ?ds] d(2) by simp
      then show ?thesis
        using True d over step(1) by (auto simp: num Let_def)
    next
      case within: True
      have run: "read_digits base limit result n (c # str) =
          read_digits base limit (result * ucast base + of_nat d) (Suc n) str"
        using d within step(1) by (auto simp: Let_def)
      show ?thesis
        unfolding run using Cons.IH [of "result * ucast base + of_nat d" "Suc n"] True within step(2)
        by (simp add: num Let_def)
    qed
  qed
qed

lemma read_digits_exact:
  assumes "36 \<le> unat limit"
  shows "read_digits base limit 0 0 str =
    (case read_number (unat base) (unat limit) str of Inl e \<Rightarrow> Inl e
     | Inr (v, n, rest) \<Rightarrow> Inr (of_nat v, n, rest))"
  using read_digits_number [of 0 limit base 0 str] assms by (simp add: read_number_def Let_def)

section \<open>The functions read integers exactly\<close>

text \<open>
  The reference for the whole syntax: white space, at most one sign (no minus where the type has no
  negative values), a prefix that gives the base unless the caller does, digits. It works on
  unbounded numbers and rejects exactly those outside the range from \<open>lo\<close> to \<open>hi\<close>.
\<close>

definition read_signed :: "nat \<Rightarrow> nat \<Rightarrow> u8 \<Rightarrow> string \<Rightarrow> StrintParseError + nat \<times> bool \<times> string" where
  "read_signed max_neg max_pos base str =
     (let str = skip_whitespace str;
          negative = (is_sign str \<and> hd str = CHR ''-'');
          str = (if is_sign str then tl str else str);
          (prefix_base, digits) = infer_base str
      in if is_sign str \<or> (max_neg = 0 \<and> negative) then Inl StrintParseSignError
         else case read_number (unat (if base = 0 then prefix_base else base)) (if negative then max_neg else max_pos) digits of
             Inl e \<Rightarrow> Inl e
           | Inr (v, n, rest) \<Rightarrow>
               if n = 0 \<and> prefix_base \<noteq> 8 then Inl StrintParseAbsentError else Inr (v, negative, rest))"

definition read_integer :: "int \<Rightarrow> int \<Rightarrow> u8 \<Rightarrow> string \<Rightarrow> StrintParseError + int \<times> string" where
  "read_integer lo hi base str =
     (case read_signed (nat (- lo)) (nat hi) base str of Inl e \<Rightarrow> Inl e
      | Inr (v, negative, rest) \<Rightarrow> Inr (if negative then - int v else int v, rest))"

lemma read_number_bound:
  "read_number base limit str = Inr (v, n, rest) \<Longrightarrow> v \<le> limit \<and> (n = 0 \<longrightarrow> v = 0)"
  by (auto simp: read_number_def number_def Let_def split: if_splits)

lemma read_signed_bound:
  "read_signed max_neg max_pos base str = Inr (v, negative, rest) \<Longrightarrow>
    v \<le> (if negative then max_neg else max_pos) \<and> (max_neg = 0 \<longrightarrow> \<not> negative)"
  by (auto simp: read_signed_def Let_def dest: read_number_bound split: if_splits sum.splits prod.splits)

lemma strint_internal_exact:
  assumes "36 \<le> unat max_pos" and "max_neg = 0 \<or> 36 \<le> unat max_neg"
  shows "strint_to_uint64_internal str base max_neg max_pos =
    (case read_signed (unat max_neg) (unat max_pos) base str of Inl e \<Rightarrow> Inl e
     | Inr (v, negative, rest) \<Rightarrow> Inr (of_nat v, negative, rest))"
proof -
  define s where "s = skip_whitespace str"
  define negative where "negative \<longleftrightarrow> is_sign s \<and> hd s = CHR ''-''"
  define s' where "s' = (if is_sign s then tl s else s)"
  obtain prefix_base digits where infer: "infer_base s' = (prefix_base, digits)" by force
  define limit where "limit = (if negative then max_neg else max_pos)"
  define b where "b = (if base = 0 then prefix_base else base)"
  show ?thesis
  proof (cases "is_sign s' \<or> max_neg = 0 \<and> negative")
    case True
    then show ?thesis
      by (auto simp: strint_to_uint64_internal_def read_signed_def infer Let_def simp flip: s_def negative_def s'_def)
  next
    case False
    then have "36 \<le> unat limit" using assms by (auto simp: limit_def)
    note exact = read_digits_exact [OF this, of b digits]
    have "unat limit = (if negative then unat max_neg else unat max_pos)" by (simp add: limit_def)
    then show ?thesis
      using False exact
      by (cases "read_number (unat b) (unat limit) digits")
         (auto simp: strint_to_uint64_internal_def read_signed_def infer Let_def b_def limit_def unsigned_eq_0_iff
           dest: read_number_bound simp flip: s_def negative_def s'_def split: if_splits)
  qed
qed

lemma unat_of_nat_small: "v < 2 ^ 64 \<Longrightarrow> unat (of_nat v :: u64) = v"
  by (simp add: unat_of_nat)

lemma uint_of_nat_small: "v < 2 ^ 64 \<Longrightarrow> uint (of_nat v :: u64) = int v"
  using unat_of_nat_small [of v] by (simp add: uint_nat)

lemma unsigned_exact:
  assumes "36 \<le> unat max_pos" and "unat max_pos < 2 ^ LENGTH('a::len)"
  shows "unsigned_result (strint_to_uint64_internal str base 0 max_pos) =
    map_sum id (apfst (\<lambda>i. word_of_int i :: 'a word)) (read_integer 0 (int (unat max_pos)) base str)"
proof -
  have "ucast (of_nat v :: u64) = (word_of_int (int v) :: 'a word)" if "v \<le> unat max_pos" for v
  proof -
    have "unat max_pos < 2 ^ 64" using unsigned_less [of max_pos] by simp
    then have "v < 2 ^ 64" using that by linarith
    then have "uint (of_nat v :: u64) = int v" by (simp add: uint_of_nat_small)
    then show ?thesis by (simp add: ucast_eq)
  qed
  then show ?thesis
    using read_signed_bound [of 0 "unat max_pos" base str]
    by (cases "read_signed 0 (unat max_pos) base str")
       (auto simp: unsigned_result_def strint_internal_exact assms(1) read_integer_def)
qed

lemma signed_take_bit_small:
  "- (2 ^ k) \<le> i \<Longrightarrow> i < 2 ^ k \<Longrightarrow> signed_take_bit k i = (i :: int)"
  by (simp add: signed_take_bit_int_eq_self)

lemma signed_take_bit_top: "signed_take_bit k (2 ^ k :: int) = - (2 ^ k)"
  by (simp add: signed_take_bit_eq_take_bit_shift take_bit_eq_0_iff)

lemma pow64: "k < 64 \<Longrightarrow> (2 :: nat) ^ k < 2 ^ LENGTH(64)"
  by (intro power_strict_increasing) auto

lemma signed_exact:
  assumes "5 < k" and "k < 64" and "k < arith"
  shows "signed_result (Suc k) arith (strint_to_uint64_internal str base (2 ^ k - 1 + 1) (2 ^ k - 1)) =
    (case read_integer (- (2 ^ k)) (2 ^ k - 1) base str of
       Inl e \<Rightarrow> Inr (Inl e)
     | Inr (i, rest) \<Rightarrow> if i = - (2 ^ k) \<and> arith = Suc k then Inl UndefinedBehaviour else Inr (Inr (i, rest)))"
proof -
  have pow: "unat (2 ^ k :: u64) = 2 ^ k"
    using unat_of_nat_small [of "2 ^ k"] pow64 [OF assms(2)] by simp
  have pos: "unat (2 ^ k - 1 :: u64) = 2 ^ k - 1"
    using pow by (simp add: unat_sub word_le_nat_alt)
  have "(2 :: nat) ^ 6 \<le> 2 ^ k" using assms(1) by (intro power_increasing) auto
  then have big: "37 \<le> (2 :: nat) ^ k" by simp
  have lim: "nat (2 ^ k :: int) = 2 ^ k" "nat (2 ^ k - 1 :: int) = 2 ^ k - 1"
    by (simp_all add: nat_power_eq nat_diff_distrib)
  have neg_limit: "(2 ^ k - 1 + 1 :: u64) = 2 ^ k" by simp
  have internal: "strint_to_uint64_internal str base (2 ^ k) (2 ^ k - 1) =
      (case read_signed (2 ^ k) (2 ^ k - 1) base str of Inl e \<Rightarrow> Inl e
       | Inr (v, negative, rest) \<Rightarrow> Inr (of_nat v, negative, rest))"
    by (subst strint_internal_exact) (use big pow pos in simp_all)
  have "signed_result (Suc k) arith (strint_to_uint64_internal str base (2 ^ k) (2 ^ k - 1)) =
    (case read_integer (- (2 ^ k)) (2 ^ k - 1) base str of
       Inl e \<Rightarrow> Inr (Inl e)
     | Inr (i, rest) \<Rightarrow> if i = - (2 ^ k) \<and> arith = Suc k then Inl UndefinedBehaviour else Inr (Inr (i, rest)))"
    (is ?main)
  proof (cases "read_signed (2 ^ k) (2 ^ k - 1) base str")
    case (Inl e)
    then show ?main by (simp add: internal signed_result_def read_integer_def lim)
  next
    case (Inr r)
    obtain v negative rest where r: "r = (v, negative, rest)" by (cases r)
    have v: "v \<le> (if negative then 2 ^ k else 2 ^ k - 1)"
      using read_signed_bound [of "2 ^ k" "2 ^ k - 1" base str v negative rest] Inr r by simp
    then have v_le: "v \<le> 2 ^ k" by (auto split: if_splits)
    also have "(2 :: nat) ^ k < 2 ^ 64" using assms(2) by (intro power_strict_increasing) auto
    finally have u: "uint (of_nat v :: u64) = int v" by (rule uint_of_nat_small)
    have int_v: "int v \<le> 2 ^ k" using v_le by (metis of_nat_le_iff of_nat_numeral of_nat_power)
    have lower: "- (2 ^ k) < int v"
      using zero_less_power [of "2 :: int" k] by linarith
    have small: "- int v < 2 ^ (arith - Suc 0)"
      using zero_less_power [of "2 :: int" "arith - Suc 0"] by linarith
    have arith: "(2 :: int) ^ k < 2 ^ (arith - 1) \<longleftrightarrow> arith \<noteq> Suc k" using assms(3) by auto
    show ?main
    proof (cases negative)
      case False
      then have "v < 2 ^ k" using v big by simp
      then have "int v < 2 ^ k" by (metis of_nat_less_iff of_nat_numeral of_nat_power)
      then show ?main
        using False Inr u lower by (simp add: r internal signed_result_def read_integer_def lim signed_take_bit_small)
    next
      case True
      then show ?main
        using Inr u int_v arith lower small
        by (cases "int v = 2 ^ k")
           (simp_all add: r internal signed_result_def read_integer_def lim Let_def signed_take_bit_small signed_take_bit_top)
    qed
  qed
  then show ?thesis by (simp only: neg_limit)
qed

text \<open>Whether a string stands for the least value of a signed type; the code negates this value in its own type.\<close>

definition reads_least :: "nat \<Rightarrow> u8 \<Rightarrow> string \<Rightarrow> bool" where
  "reads_least k base str \<longleftrightarrow> (case read_integer (- (2 ^ k)) (2 ^ k - 1) base str of Inl e \<Rightarrow> False | Inr (i, rest) \<Rightarrow> i = - (2 ^ k))"

text \<open>C18 The functions read exactly the integers of their types: for every base and every string, other than those that stand for the
  least value of \<^verbatim>\<open>int32_t\<close> or \<^verbatim>\<open>int64_t\<close>, they return the value, the rest of the string or the error of the reader on
  unbounded numbers, and so reject a number precisely when it is out of range. The unsigned functions and the one for
  \<^verbatim>\<open>int16_t\<close> do so for every string. Of the two excepted values nothing is claimed here, since the C expression that computes them
  overflows.\<close>

theorem strint_exact:
  assumes "\<not> reads_least 63 base str" and "\<not> reads_least 31 base str"
  shows "strint_to_uint64 str' base' = map_sum id (apfst word_of_int) (read_integer 0 (2 ^ 64 - 1) base' str') \<and>
   strint_to_uint32 str' base' = map_sum id (apfst word_of_int) (read_integer 0 (2 ^ 32 - 1) base' str') \<and>
   strint_to_uint16 str' base' = map_sum id (apfst word_of_int) (read_integer 0 (2 ^ 16 - 1) base' str') \<and>
   strint_to_int64 str base = Inr (read_integer (- (2 ^ 63)) (2 ^ 63 - 1) base str) \<and>
   strint_to_int32 str base = Inr (read_integer (- (2 ^ 31)) (2 ^ 31 - 1) base str) \<and>
   strint_to_int16 str' base' = Inr (read_integer (- (2 ^ 15)) (2 ^ 15 - 1) base' str')"
proof (intro conjI)
  have top: "(- 1 :: u64) = 18446744073709551615" by simp
  show "strint_to_uint64 str' base' = map_sum id (apfst word_of_int) (read_integer 0 (2 ^ 64 - 1) base' str')"
    unfolding strint_to_uint64_def top using unsigned_exact [of "18446744073709551615" str' base', where 'a = 64] by simp
  show "strint_to_uint32 str' base' = map_sum id (apfst word_of_int) (read_integer 0 (2 ^ 32 - 1) base' str')"
    using unsigned_exact [of "2 ^ 32 - 1" str' base', where 'a = 32] by (simp add: strint_to_uint32_def)
  show "strint_to_uint16 str' base' = map_sum id (apfst word_of_int) (read_integer 0 (2 ^ 16 - 1) base' str')"
    using unsigned_exact [of "2 ^ 16 - 1" str' base', where 'a = 16] by (simp add: strint_to_uint16_def)
  show "strint_to_int64 str base = Inr (read_integer (- (2 ^ 63)) (2 ^ 63 - 1) base str)"
    using signed_exact [of 63 64 str base] assms(1) by (auto simp: strint_to_int64_def reads_least_def split: sum.splits)
  show "strint_to_int32 str base = Inr (read_integer (- (2 ^ 31)) (2 ^ 31 - 1) base str)"
    using signed_exact [of 31 32 str base] assms(2) by (auto simp: strint_to_int32_def reads_least_def split: sum.splits)
  show "strint_to_int16 str' base' = Inr (read_integer (- (2 ^ 15)) (2 ^ 15 - 1) base' str')"
    using signed_exact [of 15 32 str' base'] by (simp add: strint_to_int16_def split: sum.splits)
qed

theorem strint_exact_witness:
  "strint_to_int32 ''-2147483647 a'' 10 = Inr (Inr (- 2147483647, '' a'')) \<and>
   strint_to_int32 ''2147483648'' 10 = Inr (Inl StrintParseOverflowError) \<and>
   strint_to_int64 ''-9223372036854775807'' 10 = Inr (Inr (- 9223372036854775807, []))"
proof -
  note evals = reads_least_def read_integer_def read_signed_def read_number_def number_def is_digit_def digit_value_def code_def
    infer_base_def has_prefix_def is_sign_def Let_def
  have n: "\<not> reads_least 63 10 ''-2147483647 a''" "\<not> reads_least 31 10 ''-2147483647 a''"
    "\<not> reads_least 63 10 ''2147483648''" "\<not> reads_least 31 10 ''2147483648''"
    "\<not> reads_least 63 10 ''-9223372036854775807''" "\<not> reads_least 31 10 ''-9223372036854775807''"
    by (simp_all add: evals)
  have r: "read_integer (- (2 ^ 31)) (2 ^ 31 - 1) 10 ''-2147483647 a'' = Inr (- 2147483647, '' a'')"
    "read_integer (- (2 ^ 31)) (2 ^ 31 - 1) 10 ''2147483648'' = Inl StrintParseOverflowError"
    "read_integer (- (2 ^ 63)) (2 ^ 63 - 1) 10 ''-9223372036854775807'' = Inr (- 9223372036854775807, [])"
    by (simp_all add: evals)
  show ?thesis
    using strint_exact [OF n(1,2)] strint_exact [OF n(3,4)] strint_exact [OF n(5,6)] unfolding r by blast
qed

text \<open>The least value of \<^verbatim>\<open>int32_t\<close> is accepted by the range check and then overflows; a hexadecimal number
  that starts with \<^verbatim>\<open>0b\<close> loses these two digits even when the caller asks for base 16.\<close>

lemma strint_minimum_undefined: "strint_to_int32 ''-2147483648'' 10 = Inl UndefinedBehaviour"
  by code_simp

lemma strint_prefix_lost: "strint_to_uint32 ''0b1'' 16 = Inr (1, [])"
  by code_simp

end
