(* ===== verification/Em4100.thy ===== *)
theory Em4100
  imports Manchester SubGhz_Blocks
begin

text \<open>
  The EM4100 tag of the 125 kHz reader, \<^verbatim>\<open>lib/lfrfid/protocols/protocol_em4100.c\<close>: five data bytes
  in a frame of 64 bits with a header, a parity bit for each of ten rows and four columns, and a stop
  bit, sent Manchester coded at 64, 32 or 16 carrier clocks per bit.
\<close>

unbundle bit_operations_syntax

section \<open>State and timing\<close>

definition EM_HEADER_MASK :: u64 where "EM_HEADER_MASK = push_bit 55 0x1FF"
definition EM_STOP_MASK :: u64 where "EM_STOP_MASK = push_bit 0 1"
definition EM_HEADER_AND_STOP_MASK :: u64 where "EM_HEADER_AND_STOP_MASK = (EM_HEADER_MASK OR EM_STOP_MASK)"
definition EM_HEADER_AND_STOP_DATA :: u64 where "EM_HEADER_AND_STOP_DATA = EM_HEADER_MASK"
definition EM_EPILOGUE_HEADER :: u64 where "EM_EPILOGUE_HEADER = 0x1FF"
definition EM4100_DECODED_DATA_SIZE :: nat where [simp]: "EM4100_DECODED_DATA_SIZE = 5"

record ProtocolEM4100 =
  em_data :: "u8 list"
  encoded_data :: u64
  encoded_epilogue :: u64
  encoded_data_index :: u8
  encoded_polarity :: bool
  decoder_manchester_state :: ManchesterState
  clock_per_bit :: u8

definition em4100_alloc :: "u8 \<Rightarrow> ProtocolEM4100" where
  "em4100_alloc clock = \<lparr>em_data = replicate 5 0, encoded_data = 0, encoded_epilogue = 0, encoded_data_index = 0,
     encoded_polarity = False, decoder_manchester_state = ManchesterStateStart1, clock_per_bit = clock\<rparr>"

definition protocol_em4100_alloc :: ProtocolEM4100 where "protocol_em4100_alloc = em4100_alloc 64"
definition protocol_em4100_32_alloc :: ProtocolEM4100 where "protocol_em4100_32_alloc = em4100_alloc 32"
definition protocol_em4100_16_alloc :: ProtocolEM4100 where "protocol_em4100_16_alloc = em4100_alloc 16"

definition protocol_em4100_get_time_divisor :: "ProtocolEM4100 \<Rightarrow> nat" where
  "protocol_em4100_get_time_divisor proto =
     (if clock_per_bit proto = 64 then 1 else if clock_per_bit proto = 32 then 2
      else if clock_per_bit proto = 16 then 4 else 1)"

definition protocol_em4100_get_short_time_low :: "ProtocolEM4100 \<Rightarrow> nat" where
  "protocol_em4100_get_short_time_low proto =
     256 div protocol_em4100_get_time_divisor proto - 100 div protocol_em4100_get_time_divisor proto"

definition protocol_em4100_get_short_time_high :: "ProtocolEM4100 \<Rightarrow> nat" where
  "protocol_em4100_get_short_time_high proto =
     256 div protocol_em4100_get_time_divisor proto + 100 div protocol_em4100_get_time_divisor proto"

definition protocol_em4100_get_long_time_low :: "ProtocolEM4100 \<Rightarrow> nat" where
  "protocol_em4100_get_long_time_low proto =
     512 div protocol_em4100_get_time_divisor proto - 100 div protocol_em4100_get_time_divisor proto"

definition protocol_em4100_get_long_time_high :: "ProtocolEM4100 \<Rightarrow> nat" where
  "protocol_em4100_get_long_time_high proto =
     512 div protocol_em4100_get_time_divisor proto + 100 div protocol_em4100_get_time_divisor proto"

section \<open>Frames\<close>

text \<open>Five shifts of the frame; the first four bring in the bits of a nibble.\<close>

definition decode_nibble :: "u64 \<Rightarrow> u64 \<times> u8" where
  "decode_nibble card_data = foldl (\<lambda>(frame, nibble) i.
     (push_bit 1 frame, if i < 4 then shift_in nibble (bit frame 63) else nibble)) (card_data, 0) [0..<(5::nat)]"

definition decode_row ::
  "nat \<Rightarrow> u64 \<times> u8 \<times> u8 list \<times> nat \<Rightarrow> fault + u64 \<times> u8 \<times> u8 list \<times> nat" where
  "decode_row r = (\<lambda>(frame, value, decoded, index).
     let (frame, nibble) = decode_nibble frame; value = push_bit 4 value OR nibble
     in if r mod 2 \<noteq> 0
        then bind_r (rd decoded index) (\<lambda>v. bind_r (wr decoded index (v OR value)) (\<lambda>decoded.
               Inr (frame, 0, decoded, index + 1)))
        else Inr (frame, value, decoded, index))"

definition em4100_decode :: "u64 \<Rightarrow> u8 list \<Rightarrow> fault + u8 list" where
  "em4100_decode card_data decoded =
     furi_check (length decoded \<ge> EM4100_DECODED_DATA_SIZE)
       (bind_r (for_each decode_row [0..<10] (push_bit 9 card_data, 0, replicate (length decoded) 0, 0))
          (\<lambda>(_, _, decoded, _). Inr decoded))"

text \<open>The number of set bits among those at the given positions, in a byte.\<close>

definition parity_sum :: "u64 \<Rightarrow> nat list \<Rightarrow> u8" where
  "parity_sum frame positions = foldl (\<lambda>sum p. sum + ucast (drop_bit p frame AND 1)) 0 positions"

definition em4100_can_be_decoded :: "u64 \<Rightarrow> u64 \<Rightarrow> bool" where
  "em4100_can_be_decoded card_data epilogue \<longleftrightarrow>
     epilogue AND EM_EPILOGUE_HEADER = EM_EPILOGUE_HEADER \<and>
     card_data AND EM_HEADER_AND_STOP_MASK = EM_HEADER_AND_STOP_DATA \<and>
     list_all (\<lambda>i. parity_sum card_data (map (\<lambda>j. 50 - i * 5 + j) [0..<5]) mod 2 = 0) [0..<10] \<and>
     list_all (\<lambda>i. parity_sum card_data (map (\<lambda>j. 4 - i + j * 5) [0..<11]) mod 2 = 0) [0..<4]"

definition em4100_write_nibble :: "bool \<Rightarrow> u8 \<Rightarrow> u64 \<Rightarrow> u64" where
  "em4100_write_nibble low_nibble data encoded =
     (let start = (if low_nibble then 0 else 4);
          (parity, encoded) = foldl (\<lambda>(parity, encoded) i.
             (parity + (drop_bit i data AND 1), shift_in encoded (bit data i)))
             (0 :: u8, encoded) (rev [start..<start + 4])
      in shift_in encoded (parity mod 2 \<noteq> 0))"

definition column_parity_bit :: "u64 \<Rightarrow> u64" where
  "column_parity_bit encoded =
     shift_in encoded (parity_sum encoded (map (\<lambda>i. i * 5 - 1) [1..<11]) mod 2 \<noteq> 0)"

definition protocol_em4100_encoder_start :: "ProtocolEM4100 \<Rightarrow> ProtocolEM4100" where
  "protocol_em4100_encoder_start proto =
     (let encoded = foldl (\<lambda>encoded b. em4100_write_nibble True b (em4100_write_nibble False b encoded))
            0b111111111 (em_data proto);
          encoded = (column_parity_bit ^^ 4) encoded
      in proto\<lparr>encoded_data := shift_in encoded False, encoded_data_index := 0, encoded_polarity := True\<rparr>)"

section \<open>Decoder and encoder\<close>

definition protocol_em4100_decoder_start :: "ProtocolEM4100 \<Rightarrow> ProtocolEM4100" where
  "protocol_em4100_decoder_start proto = proto\<lparr>em_data := replicate 5 0, encoded_data := 0, encoded_epilogue := 0,
     decoder_manchester_state := fst (manchester_advance (decoder_manchester_state proto) ManchesterEventReset)\<rparr>"

definition em4100_event :: "ProtocolEM4100 \<Rightarrow> bool \<Rightarrow> u32 \<Rightarrow> ManchesterEvent" where
  "em4100_event proto level duration =
     (if unat duration > protocol_em4100_get_short_time_low proto \<and> unat duration < protocol_em4100_get_short_time_high proto
      then (if \<not> level then ManchesterEventShortHigh else ManchesterEventShortLow)
      else if unat duration > protocol_em4100_get_long_time_low proto \<and> unat duration < protocol_em4100_get_long_time_high proto
      then (if \<not> level then ManchesterEventLongHigh else ManchesterEventLongLow)
      else ManchesterEventReset)"

text \<open>A bit of the signal: the frame is nine bits behind, and those are in the epilogue.\<close>

definition em4100_bit :: "bool \<Rightarrow> ProtocolEM4100 \<Rightarrow> fault + bool \<times> ProtocolEM4100" where
  "em4100_bit data proto =
     (let carry = bit (encoded_epilogue proto) 8;
          proto = proto\<lparr>encoded_data := shift_in (encoded_data proto) carry,
                        encoded_epilogue := shift_in (encoded_epilogue proto) data AND EM_EPILOGUE_HEADER\<rparr>
      in if em4100_can_be_decoded (encoded_data proto) (encoded_epilogue proto)
         then bind_r (em4100_decode (encoded_data proto) (em_data proto)) (\<lambda>d. Inr (True, proto\<lparr>em_data := d\<rparr>))
         else Inr (False, proto))"

definition protocol_em4100_decoder_feed :: "ProtocolEM4100 \<Rightarrow> bool \<Rightarrow> u32 \<Rightarrow> fault + bool \<times> ProtocolEM4100" where
  "protocol_em4100_decoder_feed proto level duration =
     (let event = em4100_event proto level duration
      in if event = ManchesterEventReset then Inr (False, proto)
         else case manchester_advance (decoder_manchester_state proto) event of (state, data) \<Rightarrow>
           (let proto = proto\<lparr>decoder_manchester_state := state\<rparr>
            in case data of None \<Rightarrow> Inr (False, proto) | Some b \<Rightarrow> em4100_bit b proto))"

text \<open>Half a bit at a time: the level, for half of the clocks of a bit.\<close>

definition protocol_em4100_encoder_yield :: "ProtocolEM4100 \<Rightarrow> LevelDuration \<times> ProtocolEM4100" where
  "protocol_em4100_encoder_yield proto =
     (let level = bit (encoded_data proto) (unat (63 - encoded_data_index proto));
          duration = ucast (clock_per_bit proto div 2)
      in if encoded_polarity proto
         then (level_duration_make level duration, proto\<lparr>encoded_polarity := False\<rparr>)
         else (level_duration_make (\<not> level) duration,
               proto\<lparr>encoded_polarity := True,
                 encoded_data_index := (if encoded_data_index proto + 1 \<ge> 64 then 0 else encoded_data_index proto + 1)\<rparr>))"

section \<open>The bits of a frame\<close>

definition xor_all :: "bool list \<Rightarrow> bool" where
  "xor_all bs = foldr (\<noteq>) bs False"

definition nibble_bits :: "bool \<Rightarrow> u8 \<Rightarrow> bool list" where
  "nibble_bits low b = map (bit b) (if low then [3, 2, 1, 0] else [7, 6, 5, 4])"

definition rows :: "u8 list \<Rightarrow> bool list list" where
  "rows d = concat (map (\<lambda>b. [nibble_bits False b, nibble_bits True b]) d)"

definition with_parity :: "bool list \<Rightarrow> bool list" where
  "with_parity bs = bs @ [xor_all bs]"

definition columns :: "bool list list \<Rightarrow> bool list" where
  "columns R = map (\<lambda>c. xor_all (map (\<lambda>r. r ! c) R)) [0..<4]"

text \<open>The frame as the data sheet draws it.\<close>

definition frame_bits :: "u8 list \<Rightarrow> bool list" where
  "frame_bits d = replicate 9 True @ concat (map with_parity (rows d)) @ columns (rows d) @ [False]"

lemma xor_all_simps [simp]:
  "xor_all [] = False" "xor_all (b # bs) = (b \<noteq> xor_all bs)" "xor_all (bs @ cs) = (xor_all bs \<noteq> xor_all cs)"
  by (induction bs) (auto simp: xor_all_def)

lemma xor_all_rev [simp]: "xor_all (rev bs) = xor_all bs"
  by (induction bs) auto

lemma parity_sum_foldl:
  "(foldl (\<lambda>sum b. sum + of_bool b) (a :: u8) bs mod 2 = 0) = (xor_all bs = bit a 0)"
proof (induction bs arbitrary: a)
  case Nil
  then show ?case by (simp add: bit_0 even_iff_mod_2_eq_zero)
next
  case (Cons b bs)
  have "bit (a + of_bool b) 0 = (bit a 0 \<noteq> b)"
    by (cases b) (simp_all add: bit_0)
  then show ?case by (auto simp: Cons)
qed

lemma ucast_of_bool_u8 [simp]: "ucast (of_bool b :: u64) = (of_bool b :: u8)"
  by (cases b) simp_all

lemma parity_sum_xor: "(parity_sum frame ps mod 2 = 0) = (\<not> xor_all (map (bit frame) ps))"
proof -
  have "parity_sum frame ps = foldl (\<lambda>sum b. sum + of_bool b) 0 (map (bit frame) ps)"
    by (simp add: parity_sum_def foldl_map drop_bit_and_1)
  then show ?thesis by (simp add: parity_sum_foldl)
qed

lemma length_rows [simp]: "length (rows d) = 2 * length d"
  by (induction d) (simp_all add: rows_def)

lemma rows_nibbles: "r \<in> set (rows d) \<Longrightarrow> length r = 4"
  by (auto simp: rows_def nibble_bits_def)

lemma length_columns [simp]: "length (columns R) = 4"
  by (simp add: columns_def)

lemma length_concat_rows: "(\<And>r. r \<in> set R \<Longrightarrow> length r = 4) \<Longrightarrow> length (concat (map with_parity R)) = 5 * length R"
  by (induction R) (auto simp: with_parity_def)

lemma nth_concat_rows:
  assumes "\<And>r. r \<in> set R \<Longrightarrow> length r = 4" and "i < length R" and "j < 5"
  shows "concat (map with_parity R) ! (5 * i + j) = with_parity (R ! i) ! j"
  using assms
proof (induction R arbitrary: i)
  case (Cons r R)
  have "length (with_parity r) = 5" using Cons.prems(1) by (simp add: with_parity_def)
  then show ?case
    using Cons by (cases i) (simp_all add: nth_append)
qed simp

section \<open>The encoder builds the frame\<close>

lemma write_nibble_bits:
  "em4100_write_nibble low b w = foldl shift_in w (with_parity (nibble_bits low b))"
proof -
  have "foldl (\<lambda>(parity, encoded) i. (parity + (drop_bit i b AND 1), shift_in encoded (bit b i))) (p, e) is =
      (foldl (\<lambda>sum x. sum + of_bool x) p (map (bit b) is), foldl shift_in e (map (bit b) is))"
    for p and e :: u64 and "is"
    by (induction "is" arbitrary: p e) (simp_all add: drop_bit_and_1)
  moreover have "map (bit b) (rev [if low then 0 else 4..<(if low then 0 else 4) + 4]) = nibble_bits low b"
    by (simp add: nibble_bits_def upt_rec numeral_2_eq_2 numeral_3_eq_3)
  ultimately show ?thesis
    using parity_sum_foldl [of 0 "nibble_bits low b"]
    by (simp add: em4100_write_nibble_def with_parity_def Let_def del: not_mod_2_eq_0_eq_1)
qed

lemma header_word: "(0b111111111 :: u64) = word_of_bits (replicate 9 True)"
  by code_simp

definition rows_prefix :: "u8 list \<Rightarrow> bool list" where
  "rows_prefix d = replicate 9 True @ concat (map with_parity (rows d))"

lemma write_rows:
  "foldl (\<lambda>w b. em4100_write_nibble True b (em4100_write_nibble False b w)) 0b111111111 d = word_of_bits (rows_prefix d)"
proof (induction d rule: rev_induct)
  case Nil
  then show ?case using header_word by (simp add: rows_prefix_def rows_def)
next
  case (snoc b d)
  then show ?case
    by (simp add: write_nibble_bits word_of_bits_def rows_prefix_def rows_def)
qed

lemma length_rows_prefix: "length (rows_prefix d) = 9 + 10 * length d"
  using length_concat_rows [of "rows d"] rows_nibbles by (auto simp: rows_prefix_def)

lemma rows_prefix_nth:
  assumes "i < 2 * length d" and "j < 5"
  shows "rows_prefix d ! (9 + 5 * i + j) = with_parity (rows d ! i) ! j"
  using nth_concat_rows [of "rows d" i j] rows_nibbles assms
  by (auto simp: rows_prefix_def nth_append add.assoc)

lemma with_parity_nth: "i < length R \<Longrightarrow> (\<And>r. r \<in> set R \<Longrightarrow> length r = 4) \<Longrightarrow> j < 4 \<Longrightarrow> with_parity (R ! i) ! j = R ! i ! j"
  by (simp add: with_parity_def nth_append)

lemma column_step:
  assumes "length d = 5" and "c < 4"
  shows "column_parity_bit (word_of_bits (rows_prefix d @ take c (columns (rows d)))) =
    word_of_bits (rows_prefix d @ take (Suc c) (columns (rows d)))"
proof -
  let ?L = "rows_prefix d @ take c (columns (rows d))" and ?R = "rows d"
  have lenp: "length (rows_prefix d) = 59" using assms(1) by (simp add: length_rows_prefix)
  then have len: "length ?L = 59 + c" using assms by simp
  have bits: "bit (word_of_bits ?L :: u64) (i * 5 - 1) = ?R ! (10 - i) ! c" if "1 \<le> i" "i < 11" for i
  proof -
    have "59 + c - 1 - (i * 5 - 1) = 9 + 5 * (10 - i) + c" using that assms(2) by simp
    moreover have "rows_prefix d ! (9 + 5 * (10 - i) + c) = ?R ! (10 - i) ! c"
      using rows_prefix_nth [of "10 - i" d c] with_parity_nth [of "10 - i" ?R c] rows_nibbles that assms by simp
    moreover have "9 + 5 * (10 - i) + c < length (rows_prefix d)"
      using that assms by (simp add: length_rows_prefix)
    moreover have "i * 5 - 1 < 59 + c" "i * 5 - 1 < 64" using that by auto
    ultimately show ?thesis
      using that assms by (simp add: bit_word_of_bits len nth_append lenp)
  qed
  have "map (\<lambda>i. bit (word_of_bits ?L :: u64) (i * 5 - 1)) [1..<11] = rev (map (\<lambda>r. r ! c) ?R)"
  proof (rule nth_equalityI)
    fix n assume "n < length (map (\<lambda>i. bit (word_of_bits ?L :: u64) (i * 5 - 1)) [1..<11])"
    then show "map (\<lambda>i. bit (word_of_bits ?L :: u64) (i * 5 - 1)) [1..<11] ! n = rev (map (\<lambda>r. r ! c) ?R) ! n"
      using bits [of "n + 1"] assms(1) by (simp add: rev_nth)
  qed (use assms(1) in simp)
  then have "parity_sum (word_of_bits ?L) (map (\<lambda>i. i * 5 - 1) [1..<11]) mod 2 \<noteq> 0 \<longleftrightarrow> columns ?R ! c"
    using assms(2) by (simp add: parity_sum_xor columns_def comp_def)
  moreover have "take (Suc c) (columns ?R) = take c (columns ?R) @ [columns ?R ! c]"
    using assms(2) by (simp add: take_Suc_conv_app_nth)
  ultimately show ?thesis
    by (simp add: column_parity_bit_def word_of_bits_def)
qed

lemma encoder_start_frame:
  assumes "length (em_data proto) = 5"
  shows "encoded_data (protocol_em4100_encoder_start proto) = word_of_bits (frame_bits (em_data proto))"
proof -
  let ?d = "em_data proto"
  have step: "(column_parity_bit ^^ c) (word_of_bits (rows_prefix ?d)) =
      word_of_bits (rows_prefix ?d @ take c (columns (rows ?d)))" if "c \<le> 4" for c
    using that by (induction c) (simp_all add: column_step [OF assms])
  show ?thesis
    using step [of 4] by (simp add: protocol_em4100_encoder_start_def Let_def write_rows frame_bits_def rows_prefix_def word_of_bits_def)
qed

section \<open>A frame is recognised and read\<close>

lemma length_frame_bits: "length d = 5 \<Longrightarrow> length (frame_bits d) = 64"
  using length_rows_prefix [of d] by (simp add: frame_bits_def rows_prefix_def)

lemma frame_bits_prefix: "frame_bits d = rows_prefix d @ columns (rows d) @ [False]"
  by (simp add: frame_bits_def rows_prefix_def)

lemma frame_nth:
  assumes "length d = 5"
  shows "i < 9 \<Longrightarrow> frame_bits d ! i"
    and "i < 10 \<Longrightarrow> j < 5 \<Longrightarrow> frame_bits d ! (9 + 5 * i + j) = with_parity (rows d ! i) ! j"
    and "c < 4 \<Longrightarrow> frame_bits d ! (59 + c) = columns (rows d) ! c"
    and "\<not> frame_bits d ! 63"
proof -
  have len: "length (rows_prefix d) = 59" using assms by (simp add: length_rows_prefix)
  show "frame_bits d ! i" if "i < 9" using that by (simp add: frame_bits_def nth_append)
  show "frame_bits d ! (9 + 5 * i + j) = with_parity (rows d ! i) ! j" if "i < 10" "j < 5"
    using rows_prefix_nth [of i d j] that assms len by (simp add: frame_bits_prefix nth_append)
  show "frame_bits d ! (59 + c) = columns (rows d) ! c" if "c < 4"
    using that len by (simp add: frame_bits_prefix nth_append)
  show "\<not> frame_bits d ! 63"
    using len by (simp add: frame_bits_prefix nth_append)
qed

lemma frame_word_bit:
  assumes "length d = 5" and "k < 64"
  shows "bit (word_of_bits (frame_bits d) :: u64) k = frame_bits d ! (63 - k)"
  using assms by (simp add: bit_word_of_bits length_frame_bits)

lemma row_parity_ok:
  assumes "length d = 5" and "i < 10"
  shows "parity_sum (word_of_bits (frame_bits d)) (map (\<lambda>j. 50 - i * 5 + j) [0..<5]) mod 2 = 0"
proof -
  let ?r = "with_parity (rows d ! i)"
  have len: "length ?r = 5" using rows_nibbles [of "rows d ! i" d] assms by (simp add: with_parity_def)
  have "map (\<lambda>j. bit (word_of_bits (frame_bits d) :: u64) (50 - i * 5 + j)) [0..<5] = rev ?r"
  proof (rule nth_equalityI)
    fix j assume "j < length (map (\<lambda>j. bit (word_of_bits (frame_bits d) :: u64) (50 - i * 5 + j)) [0..<5])"
    then have j: "j < 5" by simp
    have "63 - (50 - i * 5 + j) = 9 + 5 * i + (4 - j)" using assms(2) j by simp
    then have "bit (word_of_bits (frame_bits d) :: u64) (50 - i * 5 + j) = ?r ! (4 - j)"
      using frame_word_bit [OF assms(1), of "50 - i * 5 + j"] frame_nth(2) [OF assms, of "4 - j"] j assms(2) by simp
    then show "map (\<lambda>j. bit (word_of_bits (frame_bits d) :: u64) (50 - i * 5 + j)) [0..<5] ! j = rev ?r ! j"
      using j len by (simp add: rev_nth)
  qed (simp add: len)
  then show ?thesis by (simp add: parity_sum_xor comp_def) (simp add: with_parity_def)
qed

lemma column_parity_ok:
  assumes "length d = 5" and "c < 4"
  shows "parity_sum (word_of_bits (frame_bits d)) (map (\<lambda>j. 4 - c + j * 5) [0..<11]) mod 2 = 0"
proof -
  let ?col = "map (\<lambda>r. r ! c) (rows d)"
  have "map (\<lambda>j. bit (word_of_bits (frame_bits d) :: u64) (4 - c + j * 5)) [0..<11] = xor_all ?col # rev ?col"
  proof (rule nth_equalityI)
    fix j assume "j < length (map (\<lambda>j. bit (word_of_bits (frame_bits d) :: u64) (4 - c + j * 5)) [0..<11])"
    then have j: "j < 11" by simp
    have bit: "bit (word_of_bits (frame_bits d) :: u64) (4 - c + j * 5) = frame_bits d ! (63 - (4 - c + j * 5))"
      using frame_word_bit [OF assms(1), of "4 - c + j * 5"] j by simp
    show "map (\<lambda>j. bit (word_of_bits (frame_bits d) :: u64) (4 - c + j * 5)) [0..<11] ! j = (xor_all ?col # rev ?col) ! j"
    proof (cases j)
      case 0
      have "63 - (4 - c) = 59 + c" using assms(2) by simp
      then show ?thesis
        using 0 bit frame_nth(3) [OF assms] assms(2) by (simp add: columns_def)
    next
      case (Suc k)
      then have k: "k < 10" using j by simp
      have "63 - (4 - c + j * 5) = 9 + 5 * (9 - k) + c" using Suc k assms(2) by simp
      then have "bit (word_of_bits (frame_bits d) :: u64) (4 - c + j * 5) = rows d ! (9 - k) ! c"
        using bit frame_nth(2) [OF assms(1), of "9 - k" c] with_parity_nth [of "9 - k" "rows d" c] rows_nibbles assms k
        by simp
      then show ?thesis
        using Suc k j assms(1) by (simp add: rev_nth)
    qed
  qed (simp add: assms(1))
  then show ?thesis by (simp add: parity_sum_xor comp_def)
qed

lemma can_be_decoded_frame:
  assumes "length d = 5"
  shows "em4100_can_be_decoded (word_of_bits (frame_bits d)) EM_EPILOGUE_HEADER"
proof -
  have mask: "bit EM_HEADER_AND_STOP_MASK k = (55 \<le> k \<and> k < 64 \<or> k = 0)"
    "bit EM_HEADER_AND_STOP_DATA k = (55 \<le> k \<and> k < 64)" for k
  proof -
    have ones: "bit (0x1FF :: u64) j = (j < 9)" for j
    proof -
      have "(0x1FF :: u64) = mask 9" by (simp add: mask_eq_exp_minus_1)
      then show ?thesis by (simp only: bit_mask_iff) (auto simp: possible_bit_word)
    qed
    show "bit EM_HEADER_AND_STOP_DATA k = (55 \<le> k \<and> k < 64)"
      unfolding EM_HEADER_AND_STOP_DATA_def EM_HEADER_MASK_def
      by (simp only: bit_push_bit_iff ones possible_bit_word) auto
    show "bit EM_HEADER_AND_STOP_MASK k = (55 \<le> k \<and> k < 64 \<or> k = 0)"
      unfolding EM_HEADER_AND_STOP_MASK_def EM_HEADER_MASK_def EM_STOP_MASK_def
      by (simp only: bit_or_iff bit_push_bit_iff ones possible_bit_word bit_1_iff) auto
  qed
  have "word_of_bits (frame_bits d) AND EM_HEADER_AND_STOP_MASK = EM_HEADER_AND_STOP_DATA"
  proof (rule bit_word_eqI)
    fix k assume "k < LENGTH(64)"
    moreover from this have "63 - k < 9 \<longleftrightarrow> 55 \<le> k" by auto
    ultimately show "bit (word_of_bits (frame_bits d) AND EM_HEADER_AND_STOP_MASK) k = bit EM_HEADER_AND_STOP_DATA k"
      using frame_nth(1) [OF assms, of "63 - k"] frame_nth(4) [OF assms] frame_word_bit [OF assms, of k]
      by (auto simp: bit_and_iff mask)
  qed
  then show ?thesis
    unfolding em4100_can_be_decoded_def list_all_iff set_upt atLeastLessThan_iff Ball_def
    using row_parity_ok [OF assms] column_parity_ok [OF assms] and.idem [of EM_EPILOGUE_HEADER] by blast
qed

text \<open>The decoder's loop over the rows, on the bits the frame is shifted through.\<close>

lemma decode_nibble_bits:
  assumes "\<And>j. j < 4 \<Longrightarrow> bit frame (63 - j) = ns ! j" and "length ns = 4"
  shows "decode_nibble frame = (push_bit 5 frame, word_of_bits ns)"
proof -
  let ?step = "\<lambda>(frame :: u64, nibble :: u8) i :: nat.
    (push_bit 1 frame, if i < 4 then shift_in nibble (bit frame 63) else nibble)"
  have "foldl ?step (frame, 0) [0..<m] =
      (push_bit m frame, word_of_bits (map (\<lambda>j. bit frame (63 - j)) [0..<min m 4]))" if "m \<le> 5" for m :: nat
    using that
  proof (induction m)
    case 0
    then show ?case by (simp add: word_of_bits_def)
  next
    case (Suc m)
    have "bit (push_bit m frame) 63 = bit frame (63 - m)"
      using Suc.prems by (simp add: bit_push_bit_iff possible_bit_word)
    moreover have "push_bit 1 (push_bit m frame) = push_bit (Suc m) frame"
      by (simp only: push_bit_push_bit plus_1_eq_Suc)
    moreover have "foldl ?step (frame, 0) [0..<Suc m] = ?step (foldl ?step (frame, 0) [0..<m]) m"
      by simp
    ultimately have "foldl ?step (frame, 0) [0..<Suc m] = (push_bit (Suc m) frame,
        if m < 4 then shift_in (word_of_bits (map (\<lambda>j. bit frame (63 - j)) [0..<min m 4])) (bit frame (63 - m))
        else word_of_bits (map (\<lambda>j. bit frame (63 - j)) [0..<min m 4]))"
      using Suc by (simp only: prod.case)
    moreover have "[0..<min (Suc m) 4] = (if m < 4 then [0..<min m 4] @ [m] else [0..<min m 4])"
      by (auto simp: min_def)
    ultimately show ?case
      by (cases "m < 4") (simp_all only: word_of_bits_def if_True if_False map_append list.map foldl_append foldl.simps simp_thms)
  qed
  from this [of 5] have "decode_nibble frame = (push_bit 5 frame, word_of_bits (map (\<lambda>j. bit frame (63 - j)) [0..<4]))"
    by (simp only: decode_nibble_def) simp
  moreover have "map (\<lambda>j. bit frame (63 - j)) [0..<4] = ns"
    by (rule nth_equalityI) (simp_all add: assms)
  ultimately show ?thesis by simp
qed

lemma nibble_bits_nth: "j < 4 \<Longrightarrow> nibble_bits low b ! j = bit b ((if low then 3 else 7) - j)"
proof -
  assume "j < 4"
  then consider "j = 0" | "j = 1" | "j = 2" | "j = 3" by linarith
  then show ?thesis by cases (simp_all add: nibble_bits_def)
qed

lemma length_nibble_bits [simp]: "length (nibble_bits low b) = 4"
  by (simp add: nibble_bits_def)

lemma byte_of_nibbles:
  "(push_bit 4 (word_of_bits (nibble_bits False b)) OR word_of_bits (nibble_bits True b) :: u8) = b"
proof (rule bit_word_eqI)
  fix n assume n: "n < LENGTH(8)"
  show "bit (push_bit 4 (word_of_bits (nibble_bits False b)) OR word_of_bits (nibble_bits True b) :: u8) n = bit b n"
  proof (cases "n < 4")
    case True
    then show ?thesis
      using nibble_bits_nth [of "3 - n" True b]
      by (simp only: bit_or_iff bit_push_bit_iff bit_word_of_bits) auto
  next
    case False
    then have "n - 4 < 4" using n by simp
    then show ?thesis
      using False n nibble_bits_nth [of "3 - (n - 4)" False b]
      by (simp only: bit_or_iff bit_push_bit_iff bit_word_of_bits possible_bit_word) auto
  qed
qed

lemma rows_nth: "k < length d \<Longrightarrow> i < 2 \<Longrightarrow> rows d ! (2 * k + i) = nibble_bits (i = 1) (d ! k)"
proof (induction d arbitrary: k)
  case (Cons b d)
  have "rows (b # d) = nibble_bits False b # nibble_bits True b # rows d"
    by (simp add: rows_def)
  then show ?case
    using Cons by (cases k; cases i) auto
qed simp

text \<open>Two rows give a byte.\<close>

lemma decode_two_rows:
  assumes "length d = 5" and "k < 5" and "length decoded = 5" and "\<forall>j. k \<le> j \<and> j < 5 \<longrightarrow> decoded ! j = 0"
  shows "bind_r (decode_row (2 * k) (push_bit (9 + 10 * k) (word_of_bits (frame_bits d)), 0, decoded, k)) (decode_row (2 * k + 1)) =
    Inr (push_bit (9 + 10 * Suc k) (word_of_bits (frame_bits d)), 0, decoded[k := d ! k], Suc k)"
proof -
  let ?f = "word_of_bits (frame_bits d) :: u64"
  have row: "rows d ! (2 * k) = nibble_bits False (d ! k)" "rows d ! (2 * k + 1) = nibble_bits True (d ! k)"
    using rows_nth [of k d 0] rows_nth [of k d 1] assms(1,2) by simp_all
  have nibble: "decode_nibble (push_bit (9 + 5 * r) ?f) = (push_bit (9 + 5 * Suc r) ?f, word_of_bits (rows d ! r))"
    if "r < 10" for r
  proof -
    have len: "length (rows d ! r) = 4" using that assms(1) rows_nibbles [of "rows d ! r" d] by simp
    have "bit (push_bit (9 + 5 * r) ?f) (63 - j) = rows d ! r ! j" if "j < 4" for j
    proof -
      have "bit (push_bit (9 + 5 * r) ?f) (63 - j) = bit ?f (63 - j - (9 + 5 * r))"
        using \<open>r < 10\<close> \<open>j < 4\<close> by (simp only: bit_push_bit_iff possible_bit_word) auto
      also have "\<dots> = frame_bits d ! (9 + 5 * r + j)"
        using \<open>r < 10\<close> \<open>j < 4\<close> frame_word_bit [OF assms(1), of "63 - j - (9 + 5 * r)"] by (simp add: ac_simps)
      also have "\<dots> = rows d ! r ! j"
        using frame_nth(2) [OF assms(1) \<open>r < 10\<close>, of j] with_parity_nth [of r "rows d" j] rows_nibbles [of _ d] assms(1) \<open>r < 10\<close> \<open>j < 4\<close>
        by simp
      finally show ?thesis .
    qed
    from decode_nibble_bits [OF this len] show ?thesis
      by (simp add: push_bit_push_bit add.commute)
  qed
  have first: "push_bit 4 0 OR word_of_bits ns = (word_of_bits ns :: u8)" for ns by simp
  have byte: "decoded ! k OR (push_bit 4 (word_of_bits (rows d ! (2 * k))) OR word_of_bits (rows d ! (2 * k + 1))) = d ! k"
    using assms(2,4) by (simp only: row byte_of_nibbles) simp
  have n1: "decode_nibble (push_bit (9 + 10 * k) ?f) = (push_bit (9 + 5 * Suc (2 * k)) ?f, word_of_bits (rows d ! (2 * k)))"
    using nibble [of "2 * k"] assms(2) by simp
  have n2: "decode_nibble (push_bit (9 + 5 * Suc (2 * k)) ?f) = (push_bit (9 + 10 * Suc k) ?f, word_of_bits (rows d ! (2 * k + 1)))"
    using nibble [of "2 * k + 1"] assms(2) by simp
  have even: "2 * k mod 2 = 0" "(2 * k + 1) mod 2 \<noteq> 0" by simp_all
  show ?thesis
    unfolding decode_row_def Let_def case_prod_conv n1 first even bind_r_simps
    using assms(2,3) byte by (simp add: n2 [simplified])
qed

lemma decode_frame:
  assumes "length d = 5" and "length decoded = 5"
  shows "em4100_decode (word_of_bits (frame_bits d)) decoded = Inr d"
proof -
  let ?f = "word_of_bits (frame_bits d) :: u64"
  let ?state = "\<lambda>k. (push_bit (9 + 10 * k) ?f, 0 :: u8, take k d @ replicate (5 - k) 0, k)"
  have two: "bind_r (decode_row (2 * k) (?state k)) (decode_row (2 * k + 1)) = Inr (?state (Suc k))" if "k < 5" for k
  proof -
    have "(take k d @ replicate (5 - k) 0)[k := d ! k] = take (Suc k) d @ replicate (5 - Suc k) 0"
      using that assms(1) by (simp add: list_update_append take_Suc_conv_app_nth Suc_diff_Suc)
        (cases "5 - k", simp_all)
    moreover have "\<forall>j. k \<le> j \<and> j < 5 \<longrightarrow> (take k d @ replicate (5 - k) (0 :: u8)) ! j = 0"
      using that assms(1) by (auto simp: nth_append diff_less_mono)
    ultimately show ?thesis
      using decode_two_rows [OF assms(1) that, of "take k d @ replicate (5 - k) 0"] that assms(1) by simp
  qed
  have "for_each decode_row [2 * k..<10] (?state k) = Inr (?state 5)" if "k \<le> 5" for k
    using that
  proof (induction "5 - k" arbitrary: k)
    case 0
    then show ?case by simp
  next
    case (Suc n)
    then have k: "k < 5" "[2 * k..<10] = 2 * k # (2 * k + 1) # [2 * Suc k..<10]"
      by (simp_all add: upt_conv_Cons)
    have IH: "for_each decode_row [2 * Suc k..<10] (?state (Suc k)) = Inr (?state 5)"
      by (rule Suc.hyps(1)) (use Suc in auto)
    have "for_each decode_row (2 * k # (2 * k + 1) # is) x =
        bind_r (bind_r (decode_row (2 * k) x) (decode_row (2 * k + 1))) (for_each decode_row is)" for "is" x
      by (cases "decode_row (2 * k) x") simp_all
    then show ?case
      unfolding k(2) using two [OF k(1)] IH by (simp only: bind_r_simps)
  qed
  from this [of 0] show ?thesis
    using assms by (simp add: em4100_decode_def)
qed

section \<open>The signal\<close>

fun em4100_yields :: "nat \<Rightarrow> ProtocolEM4100 \<Rightarrow> LevelDuration list" where
  "em4100_yields 0 proto = []"
| "em4100_yields (Suc n) proto =
     (case protocol_em4100_encoder_yield proto of (ld, proto') \<Rightarrow> ld # em4100_yields n proto')"

text \<open>Each bit is its level for half a bit and the opposite for the other half.\<close>

definition half_bit :: "bool list \<Rightarrow> nat \<Rightarrow> bool" where
  "half_bit bs k = (bs ! (k div 2) \<noteq> odd k)"

lemma level_make [simp]: "level_duration_get_level (level_duration_make l t) = l"
  by (simp add: level_duration_make_def level_duration_get_level_def)

lemma yields_levels:
  assumes "encoded_data proto = word_of_bits (frame_bits d)" and "length d = 5"
    and "encoded_data_index proto = of_nat (k div 2 mod 64)" and "encoded_polarity proto = even k"
  shows "map level_duration_get_level (em4100_yields n proto) =
    map (\<lambda>j. frame_bits d ! (j div 2 mod 64) \<noteq> odd j) [k..<k + n]"
  using assms(1,3,4)
proof (induction n arbitrary: proto k)
  case 0
  then show ?case by simp
next
  case (Suc n)
  let ?i = "k div 2 mod 64"
  have i: "?i < 64" by simp
  have sub: "(63 - of_nat ?i :: u8) = of_nat (63 - ?i)" using i by (simp add: of_nat_diff)
  have val: "unat (of_nat (63 - ?i) :: u8) = 63 - ?i"
    by (simp only: unat_of_nat) (simp add: take_bit_nat_eq_self)
  have "unat (63 - encoded_data_index proto) = 63 - ?i"
    unfolding Suc.prems(2) sub val ..
  then have level: "bit (encoded_data proto) (unat (63 - encoded_data_index proto)) = frame_bits d ! ?i"
    using i frame_word_bit [OF assms(2), of "63 - ?i"] Suc.prems(1) by simp
  obtain ld proto' where y: "protocol_em4100_encoder_yield proto = (ld, proto')" by force
  have "level_duration_get_level ld = (frame_bits d ! ?i \<noteq> odd k)"
    using y level Suc.prems(3) by (auto simp: protocol_em4100_encoder_yield_def Let_def split: if_splits)
  moreover have "encoded_data_index proto' = of_nat (Suc k div 2 mod 64)"
  proof (cases "even k")
    case True
    then show ?thesis
      using y Suc.prems(2,3) by (auto simp: protocol_em4100_encoder_yield_def Let_def)
  next
    case False
    then have half: "Suc k div 2 = Suc (k div 2)" by presburger
    have inc: "(of_nat ?i + 1 :: u8) = of_nat (Suc ?i)" by simp
    have "(64 :: u8) \<le> of_nat (Suc ?i) \<longleftrightarrow> Suc ?i = 64"
      using i by (simp only: word_le_nat_alt unat_of_nat) (auto simp: take_bit_nat_eq_self)
    then have "64 \<le> encoded_data_index proto + 1 \<longleftrightarrow> Suc ?i = 64"
      unfolding Suc.prems(2) inc .
    then show ?thesis
      using y Suc.prems(2,3) False i inc
      by (auto simp: protocol_em4100_encoder_yield_def Let_def half mod_Suc)
  qed
  moreover have "encoded_data proto' = encoded_data proto" "encoded_polarity proto' = even (Suc k)"
    using y Suc.prems(3) by (auto simp: protocol_em4100_encoder_yield_def Let_def split: if_splits)
  moreover have "[k..<k + Suc n] = k # [Suc k..<Suc k + n]"
    by (simp add: upt_conv_Cons del: upt_Suc)
  ultimately show ?case
    using Suc.IH [of proto' "Suc k"] Suc.prems(1) y by (simp del: upt_Suc)
qed

text \<open>Consecutive half bits of the same level are one pulse.\<close>

fun joins :: "bool list \<Rightarrow> (bool \<times> nat) list" where
  "joins [] = []"
| "joins (l # ls) = (case joins ls of
       [] \<Rightarrow> [(l, 1)]
     | (l', n) # rs \<Rightarrow> if l = l' then (l, Suc n) # rs else (l, 1) # (l', n) # rs)"

text \<open>The levels, and the pulses, from the middle of one bit to the middle of the last.\<close>

fun mid_levels :: "bool \<Rightarrow> bool list \<Rightarrow> bool list" where
  "mid_levels a [] = []"
| "mid_levels a (b # bs) = (\<not> a) # b # mid_levels b bs"

fun mid_runs :: "bool \<Rightarrow> bool list \<Rightarrow> (bool \<times> nat) list" where
  "mid_runs a [] = []"
| "mid_runs a (b # bs) = (if a = b then [(\<not> a, 1), (a, 1)] else [(\<not> a, 2)]) @ mid_runs b bs"

lemma joins_mid: "joins (mid_levels a bs) = mid_runs a bs"
proof (induction bs arbitrary: a)
  case (Cons b bs)
  show ?case
  proof (cases bs)
    case Nil
    then show ?thesis by auto
  next
    case (Cons c cs)
    then have "\<exists>n rs. mid_runs b bs = (\<not> b, n) # rs" by auto
    then show ?thesis using Cons.IH [of b] by auto
  qed
qed simp

lemma joins_mid_first:
  assumes "bs \<noteq> []"
  shows "joins (a # mid_levels a bs) = (a, 1) # mid_runs a bs"
proof -
  have "\<exists>n rs. mid_runs a bs = (\<not> a, n) # rs" using assms by (cases bs) auto
  then show ?thesis by (auto simp: joins_mid)
qed

lemma half_bits_mid:
  "map (\<lambda>j. half_bit (b # bs) j) [0..<2 * length bs + 1] = b # mid_levels b bs"
proof (induction bs arbitrary: b)
  case Nil
  then show ?case by (simp add: half_bit_def)
next
  case (Cons c bs)
  have "map (half_bit (b # c # bs)) [0..<Suc (Suc (2 * length bs + 1))] =
      half_bit (b # c # bs) 0 # half_bit (b # c # bs) 1 # map (half_bit (c # bs)) [0..<2 * length bs + 1]"
    unfolding map_upt_Suc by (simp add: half_bit_def)
  also have "\<dots> = b # mid_levels b (c # bs)"
    unfolding Cons [of c] by (simp add: half_bit_def)
  finally show ?case by simp
qed

section \<open>Receiving the signal\<close>

text \<open>Feeding pulses; the flag is the answer of the last call.\<close>

fun feed_pulses :: "bool \<Rightarrow> (bool \<times> u32) list \<Rightarrow> ProtocolEM4100 \<Rightarrow> fault + bool \<times> ProtocolEM4100" where
  "feed_pulses r [] proto = Inr (r, proto)"
| "feed_pulses r ((level, duration) # ps) proto =
     bind_r (protocol_em4100_decoder_feed proto level duration) (\<lambda>(r', proto'). feed_pulses r' ps proto')"

text \<open>A pulse of \<open>n\<close> half bits as it is measured: right in time up to the jitter.\<close>

definition measured :: "u8 \<Rightarrow> bool \<times> nat \<Rightarrow> bool \<times> u32 \<Rightarrow> bool" where
  "measured clock run pulse \<longleftrightarrow> fst pulse = fst run \<and>
     (let ideal = snd run * 4 * unat clock; jitter = (if clock = 32 then 50 else if clock = 16 then 25 else 100)
      in ideal < unat (snd pulse) + jitter \<and> unat (snd pulse) < ideal + jitter)"

definition run_event :: "bool \<times> nat \<Rightarrow> ManchesterEvent" where
  "run_event run = (if snd run = 1 then (if fst run then ManchesterEventShortLow else ManchesterEventShortHigh)
     else (if fst run then ManchesterEventLongLow else ManchesterEventLongHigh))"

lemma measured_event:
  assumes "measured (clock_per_bit proto) run (level, duration)" and "clock_per_bit proto \<in> {16, 32, 64}"
    and "snd run = 1 \<or> snd run = 2"
  shows "em4100_event proto level duration = run_event run"
proof -
  note times = em4100_event_def run_event_def measured_def protocol_em4100_get_short_time_low_def
    protocol_em4100_get_short_time_high_def protocol_em4100_get_long_time_low_def
    protocol_em4100_get_long_time_high_def protocol_em4100_get_time_divisor_def
  consider "clock_per_bit proto = 16" | "clock_per_bit proto = 32" | "clock_per_bit proto = 64"
    using assms(2) by auto
  then show ?thesis
    using assms(1,3) by cases (auto simp: times)
qed

fun feed_bits :: "bool \<Rightarrow> bool list \<Rightarrow> ProtocolEM4100 \<Rightarrow> fault + bool \<times> ProtocolEM4100" where
  "feed_bits r [] proto = Inr (r, proto)"
| "feed_bits r (b # bs) proto =
     bind_r (em4100_bit b (proto\<lparr>decoder_manchester_state := mid_state b\<rparr>)) (\<lambda>(r', proto'). feed_bits r' bs proto')"

lemma bit_keeps:
  "em4100_bit b proto = Inr (r, proto') \<Longrightarrow>
    decoder_manchester_state proto' = decoder_manchester_state proto \<and> clock_per_bit proto' = clock_per_bit proto"
  by (auto simp: em4100_bit_def Let_def bind_r_Inr_iff split: if_splits)

lemma feed_event:
  assumes "measured (clock_per_bit proto) run (level, duration)" and "clock_per_bit proto \<in> {16, 32, 64}"
    and "snd run = 1 \<or> snd run = 2"
  shows "protocol_em4100_decoder_feed proto level duration =
    (case manchester_advance (decoder_manchester_state proto) (run_event run) of
       (state, None) \<Rightarrow> Inr (False, proto\<lparr>decoder_manchester_state := state\<rparr>)
     | (state, Some b) \<Rightarrow> em4100_bit b (proto\<lparr>decoder_manchester_state := state\<rparr>))"
  using measured_event [OF assms]
  by (auto simp: protocol_em4100_decoder_feed_def run_event_def split: prod.splits option.splits)

lemma feed_pulses_bits:
  assumes "list_all2 (measured (clock_per_bit proto)) (mid_runs a bs) pulses"
    and "clock_per_bit proto \<in> {16, 32, 64}" and "decoder_manchester_state proto = mid_state a"
  shows "feed_pulses r pulses proto = feed_bits r bs proto"
  using assms
proof (induction bs arbitrary: a r pulses proto)
  case Nil
  then show ?case by simp
next
  case (Cons b bs)
  have step: "feed_pulses r2 ps proto' = feed_bits r2 bs proto'"
    if "em4100_bit b (proto\<lparr>decoder_manchester_state := mid_state b\<rparr>) = Inr (r2, proto')"
      and "list_all2 (measured (clock_per_bit proto)) (mid_runs b bs) ps" for r2 ps proto'
    using Cons.IH [of proto' b ps r2] bit_keeps [OF that(1)] that(2) Cons.prems(2) by simp
  show ?case
  proof (cases "a = b")
    case True
    obtain l1 t1 l2 t2 ps where pulses: "pulses = (l1, t1) # (l2, t2) # ps"
        "measured (clock_per_bit proto) (\<not> a, 1) (l1, t1)" "measured (clock_per_bit proto) (a, 1) (l2, t2)"
        "list_all2 (measured (clock_per_bit proto)) (mid_runs b bs) ps"
      using Cons.prems(1) True by (auto simp: list_all2_Cons1)
    have "feed_pulses r pulses proto = bind_r (em4100_bit b (proto\<lparr>decoder_manchester_state := mid_state b\<rparr>))
        (\<lambda>(r', proto'). feed_pulses r' ps proto')"
      using feed_event [OF pulses(2) Cons.prems(2)] Cons.prems(2,3) True pulses(3)
      by (cases b) (simp_all add: pulses(1) feed_event run_event_def)
    then show ?thesis
      using step [OF _ pulses(4)] by (cases "em4100_bit b (proto\<lparr>decoder_manchester_state := mid_state b\<rparr>)") auto
  next
    case False
    obtain l t ps where pulses: "pulses = (l, t) # ps" "measured (clock_per_bit proto) (\<not> a, 2) (l, t)"
        "list_all2 (measured (clock_per_bit proto)) (mid_runs b bs) ps"
      using Cons.prems(1) False by (auto simp: list_all2_Cons1)
    have "feed_pulses r pulses proto = bind_r (em4100_bit b (proto\<lparr>decoder_manchester_state := mid_state b\<rparr>))
        (\<lambda>(r', proto'). feed_pulses r' ps proto')"
      using feed_event [OF pulses(2) Cons.prems(2)] Cons.prems(3) False
      by (cases b) (simp_all add: pulses(1) run_event_def)
    then show ?thesis
      using step [OF _ pulses(3)] by (cases "em4100_bit b (proto\<lparr>decoder_manchester_state := mid_state b\<rparr>)") auto
  qed
qed

section \<open>The registers hold the last bits\<close>

lemma em4100_decode_total:
  assumes "length decoded = 5"
  shows "\<exists>d. em4100_decode frame decoded = Inr d \<and> length d = 5"
proof -
  let ?P = "\<lambda>r (frame :: u64, value :: u8, decoded, index). length (decoded :: u8 list) = 5 \<and> index = r div 2"
  have "\<exists>s'. for_each decode_row [0..<10] (push_bit 9 frame, 0, replicate (length decoded) 0, 0) = Inr s' \<and> ?P 10 s'"
  proof (rule for_each_upto [where P = ?P])
    fix r and s :: "u64 \<times> u8 \<times> u8 list \<times> nat"
    assume "r < 10" and P: "?P r s"
    then have "r div 2 < 5" by linarith
    moreover have "Suc r div 2 = (if odd r then Suc (r div 2) else r div 2)" by presburger
    ultimately show "\<exists>s'. decode_row r s = Inr s' \<and> ?P (Suc r) s'"
      using P by (cases s) (auto simp: decode_row_def Let_def odd_iff_mod_2_eq_one split: prod.splits)
  qed (use assms in simp_all)
  then show ?thesis using assms by (force simp: em4100_decode_def)
qed

text \<open>After the bits \<open>bs\<close> the epilogue holds the last nine of them and the frame the 64 before.\<close>

definition holds_bits :: "ProtocolEM4100 \<Rightarrow> bool list \<Rightarrow> bool" where
  "holds_bits proto bs \<longleftrightarrow> length (em_data proto) = 5 \<and>
     (\<forall>k. bit (encoded_epilogue proto) k \<longleftrightarrow> k < 9 \<and> k < length bs \<and> rev bs ! k) \<and>
     (\<forall>k < 64. 9 + k < length bs \<longrightarrow> bit (encoded_data proto) k = rev bs ! (9 + k))"

lemma epilogue_header_bit: "bit EM_EPILOGUE_HEADER k \<longleftrightarrow> k < 9"
proof -
  have eq: "EM_EPILOGUE_HEADER = mask 9" by (simp add: EM_EPILOGUE_HEADER_def mask_eq_exp_minus_1)
  show ?thesis by (simp only: eq bit_mask_iff possible_bit_word) auto
qed

lemma em4100_bit_holds:
  assumes "holds_bits proto bs"
  shows "\<exists>r proto'. em4100_bit b proto = Inr (r, proto') \<and> holds_bits proto' (bs @ [b])"
proof -
  let ?p = "proto\<lparr>encoded_data := shift_in (encoded_data proto) (bit (encoded_epilogue proto) 8),
    encoded_epilogue := shift_in (encoded_epilogue proto) b AND EM_EPILOGUE_HEADER\<rparr>"
  have "holds_bits ?p (bs @ [b])"
    unfolding holds_bits_def
  proof (intro conjI allI impI)
    show "length (em_data ?p) = 5" using assms by (simp add: holds_bits_def)
    show "bit (encoded_epilogue ?p) k \<longleftrightarrow> k < 9 \<and> k < length (bs @ [b]) \<and> rev (bs @ [b]) ! k" for k
      using assms by (cases k) (auto simp: holds_bits_def bit_and_iff bit_shift_in epilogue_header_bit)
    show "bit (encoded_data ?p) k = rev (bs @ [b]) ! (9 + k)" if "k < 64" "9 + k < length (bs @ [b])" for k
      using assms that by (cases k) (auto simp: holds_bits_def bit_shift_in)
  qed
  moreover have "holds_bits (?p\<lparr>em_data := d\<rparr>) (bs @ [b]) = (length d = 5 \<and> holds_bits ?p (bs @ [b]))"
    if "length d = 5" for d
    using that calculation by (simp add: holds_bits_def)
  ultimately show ?thesis
    using em4100_decode_total [of "em_data proto" "encoded_data ?p"] assms
    by (auto simp: em4100_bit_def Let_def holds_bits_def)
qed

lemma feed_bits_append:
  "feed_bits r (xs @ ys) proto = bind_r (feed_bits r xs proto) (\<lambda>(r', proto'). feed_bits r' ys proto')"
proof (induction xs arbitrary: r proto)
  case (Cons x xs)
  show ?case
    by (cases "em4100_bit x (proto\<lparr>decoder_manchester_state := mid_state x\<rparr>)") (auto simp: Cons)
qed simp

lemma holds_bits_state [simp]: "holds_bits (proto\<lparr>decoder_manchester_state := s\<rparr>) bs = holds_bits proto bs"
  by (simp add: holds_bits_def)

lemma feed_bits_holds:
  assumes "holds_bits proto xs"
  shows "\<exists>r' proto'. feed_bits r bs proto = Inr (r', proto') \<and> holds_bits proto' (xs @ bs)"
  using assms
proof (induction bs arbitrary: r proto xs)
  case (Cons b bs)
  obtain r1 p1 where "em4100_bit b (proto\<lparr>decoder_manchester_state := mid_state b\<rparr>) = Inr (r1, p1)" "holds_bits p1 (xs @ [b])"
    using em4100_bit_holds [of "proto\<lparr>decoder_manchester_state := mid_state b\<rparr>" xs b] Cons.prems by auto
  then show ?case using Cons.IH [of p1 "xs @ [b]" r1] by simp
qed simp

text \<open>A frame followed by the header of the next one is reported at the last bit of this header.\<close>

lemma feed_frame:
  assumes "holds_bits proto xs" and "length d = 5"
  shows "\<exists>proto'. feed_bits r (ys @ frame_bits d @ replicate 9 True) proto = Inr (True, proto') \<and> em_data proto' = d"
proof -
  let ?bs = "ys @ frame_bits d @ replicate 8 True"
  obtain r1 p1 where p1: "feed_bits r ?bs proto = Inr (r1, p1)" "holds_bits p1 (xs @ ?bs)"
    using feed_bits_holds [OF assms(1)] by blast
  let ?p1 = "p1\<lparr>decoder_manchester_state := mid_state True\<rparr>"
  have all: "ys @ frame_bits d @ replicate 9 True = ?bs @ [True]"
    by (simp flip: replicate_append_same add: numeral_eq_Suc)
  have ones: "rev (xs @ ?bs) ! k" if "k < 8" for k
    using that by (simp add: nth_append)
  have middle: "rev (xs @ ?bs) ! (8 + k) = frame_bits d ! (63 - k)" if "k < 64" for k
    using that length_frame_bits [OF assms(2)] by (simp add: nth_append rev_nth)
  have epilogue: "shift_in (encoded_epilogue p1) True AND EM_EPILOGUE_HEADER = EM_EPILOGUE_HEADER"
    using p1(2) ones by (intro bit_word_eqI) (auto simp: bit_and_iff bit_shift_in epilogue_header_bit holds_bits_def)
  have "shift_in (encoded_data p1) (bit (encoded_epilogue p1) 8) = word_of_bits (frame_bits d)"
  proof (rule bit_word_eqI)
    fix k assume "k < LENGTH(64)"
    then have k: "k < 64" by simp
    show "bit (shift_in (encoded_data p1) (bit (encoded_epilogue p1) 8)) k = bit (word_of_bits (frame_bits d) :: u64) k"
      using p1(2) middle [of k] k frame_word_bit [OF assms(2) k] length_frame_bits [OF assms(2)]
      by (cases k) (auto simp: bit_shift_in holds_bits_def simp del: rev_append)
  qed
  moreover have "length (em_data p1) = 5" using p1(2) by (simp add: holds_bits_def)
  ultimately have "em4100_bit True ?p1 = Inr (True, ?p1\<lparr>encoded_data := word_of_bits (frame_bits d),
      encoded_epilogue := EM_EPILOGUE_HEADER, em_data := d\<rparr>)"
    using epilogue can_be_decoded_frame [OF assms(2)] decode_frame [OF assms(2)]
    by (simp add: em4100_bit_def Let_def)
  then show ?thesis
    unfolding all feed_bits_append [of r ?bs "[True]"] p1(1) by simp
qed

section \<open>A tag is read\<close>

text \<open>The pulses of two frames and a header: after the first, those of all bits but the first.\<close>

lemma tag_pulses:
  assumes "length (em_data tag) = 5"
  shows "joins (map level_duration_get_level (em4100_yields 273 (protocol_em4100_encoder_start tag))) =
    (True, 1) # mid_runs True (tl (frame_bits (em_data tag)) @ frame_bits (em_data tag) @ replicate 9 True)"
proof -
  let ?d = "em_data tag"
  let ?f = "frame_bits ?d"
  define B where "B = tl ?f @ ?f @ replicate 9 True"
  have lenf: "length ?f = 64" using assms by (rule length_frame_bits)
  have f: "?f = True # tl ?f" using frame_nth(1) [OF assms, of 0] lenf by (cases ?f) auto
  have B: "True # B = ?f @ ?f @ replicate 9 True" using f by (simp add: B_def flip: append_Cons)
  have lenB: "length B = 136" by (simp add: B_def lenf)
  have stream: "(True # B) ! i = ?f ! (i mod 64)" if "i < 137" for i
  proof (cases "i < 128")
    case True
    then show ?thesis
      unfolding B using lenf by (cases "i < 64") (auto simp: nth_append mod_if)
  next
    case False
    then have "i mod 64 = i - 128" "i - 128 < 9" "\<not> i - 64 < 64" using that by (auto simp: mod_if)
    then show ?thesis
      unfolding B using lenf False frame_nth(1) [OF assms, of "i - 128"] by (simp add: nth_append)
  qed
  have "map level_duration_get_level (em4100_yields 273 (protocol_em4100_encoder_start tag)) =
      map (\<lambda>j. ?f ! (j div 2 mod 64) \<noteq> odd j) [0..<0 + 273]"
    by (rule yields_levels)
       (use encoder_start_frame [OF assms] assms in \<open>simp_all add: protocol_em4100_encoder_start_def Let_def\<close>)
  also have "\<dots> = map (half_bit (True # B)) [0..<2 * length B + 1]"
    using stream by (intro map_cong) (auto simp: half_bit_def lenB)
  also have "\<dots> = True # mid_levels True B" using half_bits_mid [of True B] by simp
  finally show ?thesis
    unfolding B_def [symmetric] using joins_mid_first [of B True] lenB by (metis list.size(3) zero_neq_numeral)
qed

lemma mid_runs_size: "run \<in> set (mid_runs a bs) \<Longrightarrow> snd run = 1 \<or> snd run = 2"
  by (induction bs arbitrary: a) (auto split: if_splits)

text \<open>C5 What the emulation sends is what the reader reads: of a tag with any five data bytes, at 64, 32 or 16
  clocks per bit, two frames and the header of a third are sent half bit by half bit, joined to pulses
  and measured with any jitter below the tolerance; the last pulse makes the decoder report a tag, and
  its data are the bytes.\<close>

theorem em4100_tag_received:
  assumes "length (em_data tag) = 5" and "clock_per_bit tag \<in> {16, 32, 64}"
    and "clock_per_bit reader = clock_per_bit tag"
    and "list_all2 (measured (clock_per_bit tag))
      (joins (map level_duration_get_level (em4100_yields 273 (protocol_em4100_encoder_start tag)))) pulses"
  shows "\<exists>reader'. feed_pulses False pulses (protocol_em4100_decoder_start reader) = Inr (True, reader') \<and>
    em_data reader' = em_data tag"
proof -
  let ?d = "em_data tag" and ?start = "protocol_em4100_decoder_start reader"
  define B where "B = tl (frame_bits ?d) @ frame_bits ?d @ replicate 9 True"
  obtain l t ps where pulses: "pulses = (l, t) # ps" "measured (clock_per_bit tag) (True, 1) (l, t)"
      "list_all2 (measured (clock_per_bit tag)) (mid_runs True B) ps"
    using assms(4) unfolding tag_pulses [OF assms(1)] B_def by (auto simp: list_all2_Cons1)
  have start: "clock_per_bit ?start = clock_per_bit tag" "decoder_manchester_state ?start = ManchesterStateMid1"
      "holds_bits ?start []" "?start\<lparr>decoder_manchester_state := ManchesterStateMid1\<rparr> = ?start"
    using assms(3) by (simp_all add: protocol_em4100_decoder_start_def holds_bits_def)
  have "feed_pulses False pulses ?start = feed_pulses False ps ?start"
    using feed_event [of ?start "(True, 1)" l t] start pulses(1,2) assms(2) by (simp add: run_event_def)
  also have "\<dots> = feed_bits False B ?start"
    using feed_pulses_bits [of ?start True B ps False] start pulses(3) assms(2) by simp
  finally show ?thesis
    using feed_frame [OF start(3) assms(1), of False "tl (frame_bits ?d)"] by (simp add: B_def)
qed

definition sample_tag :: ProtocolEM4100 where
  "sample_tag = protocol_em4100_32_alloc\<lparr>em_data := [0x12, 0x34, 0x56, 0x78, 0x9A]\<rparr>"

theorem em4100_tag_received_witness:
  "\<exists>reader'. feed_pulses False (map (\<lambda>(l, n). (l, of_nat (128 * n + 30)))
        (joins (map level_duration_get_level (em4100_yields 273 (protocol_em4100_encoder_start sample_tag)))))
      (protocol_em4100_decoder_start protocol_em4100_32_alloc) = Inr (True, reader') \<and>
    em_data reader' = em_data sample_tag"
proof (rule em4100_tag_received)
  show "length (em_data sample_tag) = 5" by (simp add: sample_tag_def)
  show "clock_per_bit sample_tag \<in> {16, 32, 64}" "clock_per_bit protocol_em4100_32_alloc = clock_per_bit sample_tag"
    by (simp_all add: sample_tag_def protocol_em4100_32_alloc_def em4100_alloc_def)
  have clock: "clock_per_bit sample_tag = 32"
    by (simp add: sample_tag_def protocol_em4100_32_alloc_def em4100_alloc_def)
  have "measured 32 run (case run of (l, n) \<Rightarrow> (l, of_nat (128 * n + 30)))"
    if "run \<in> set (joins (map level_duration_get_level (em4100_yields 273 (protocol_em4100_encoder_start sample_tag))))" for run
  proof -
    obtain l n where run: "run = (l, n)" by (cases run)
    have "n = 1 \<or> n = 2"
      using that mid_runs_size [of run] unfolding tag_pulses [of sample_tag, OF \<open>length (em_data sample_tag) = 5\<close>]
      by (auto simp: run)
    then show ?thesis by (auto simp: run measured_def)
  qed
  then show "list_all2 (measured (clock_per_bit sample_tag))
      (joins (map level_duration_get_level (em4100_yields 273 (protocol_em4100_encoder_start sample_tag))))
      (map (\<lambda>(l, n). (l, of_nat (128 * n + 30)))
        (joins (map level_duration_get_level (em4100_yields 273 (protocol_em4100_encoder_start sample_tag)))))"
    unfolding clock by (simp add: list_all2_conv_all_nth)
qed

end
