(* ===== verification/Datetime.thy ===== *)
theory Datetime
  imports Flipper_Prelude
begin

text \<open>
  Dates and timestamps, \<^verbatim>\<open>lib/datetime/datetime.c\<close>. A date is the C structure; the loops over years
  and months are recursions, the reads of the month table are checked, and the one product the code
  computes in the type \<^verbatim>\<open>int\<close> is checked for overflow.
\<close>

section \<open>The code\<close>

record DateTime =
  hour :: u8
  minute :: u8
  second :: u8
  day :: u8
  month :: u8
  year :: u16
  weekday :: u8

definition SECONDS_PER_MINUTE :: nat where [firmware_const]: "SECONDS_PER_MINUTE = 60"
definition SECONDS_PER_HOUR :: nat where [firmware_const]: "SECONDS_PER_HOUR = SECONDS_PER_MINUTE * 60"
definition SECONDS_PER_DAY :: nat where [firmware_const]: "SECONDS_PER_DAY = SECONDS_PER_HOUR * 24"
definition EPOCH_START_YEAR :: nat where [firmware_const]: "EPOCH_START_YEAR = 1970"

definition datetime_days_per_month :: "bool \<Rightarrow> u8 list" where
  "datetime_days_per_month leap_year =
     (if leap_year then [31, 29, 31, 30, 31, 30, 31, 31, 30, 31, 30, 31]
      else [31, 28, 31, 30, 31, 30, 31, 31, 30, 31, 30, 31])"

definition datetime_validate_datetime :: "DateTime \<Rightarrow> bool" where
  "datetime_validate_datetime dt \<longleftrightarrow> \<not> (second dt > 59 \<or> minute dt > 59 \<or> hour dt > 23 \<or>
     year dt < 2000 \<or> year dt > 2099 \<or> month dt = 0 \<or> month dt > 12 \<or> day dt = 0 \<or> day dt > 31 \<or>
     weekday dt = 0 \<or> weekday dt > 7)"

definition datetime_is_leap_year :: "u16 \<Rightarrow> bool" where
  "datetime_is_leap_year y \<longleftrightarrow>
     unat y mod 4 = 0 \<and> unat y mod 100 \<noteq> 0 \<or> unat y mod 400 = 0"

definition datetime_get_days_per_year :: "u16 \<Rightarrow> u16" where
  "datetime_get_days_per_year y = (if datetime_is_leap_year y then 366 else 365)"

text \<open>Month 0 reads the entry before the table.\<close>

definition datetime_get_days_per_month :: "bool \<Rightarrow> u8 \<Rightarrow> fault + u8" where
  "datetime_get_days_per_month leap_year m =
     (if m = 0 then Inl OutOfBounds else rd (datetime_days_per_month leap_year) (unat m - 1))"

text \<open>The counters of common and leap years are bytes.\<close>

definition count_year :: "u8 \<times> u8 \<Rightarrow> nat \<Rightarrow> u8 \<times> u8" where
  "count_year = (\<lambda>(years, leap_years) y.
     if datetime_is_leap_year (of_nat y) then (years, leap_years + 1) else (years + 1, leap_years))"

text \<open>The days of the years are multiplied by the seconds of a day in the type \<^verbatim>\<open>int\<close>.\<close>

definition datetime_datetime_to_timestamp :: "DateTime \<Rightarrow> fault + u32" where
  "datetime_datetime_to_timestamp dt =
     (let (years, leap_years) = foldl count_year (0, 0) [EPOCH_START_YEAR..<unat (year dt)];
          leap_year = datetime_is_leap_year (year dt)
      in bind_r (int32_checked ((uint years * 365 + uint leap_years * 366) * int SECONDS_PER_DAY)) (\<lambda>s.
         bind_r (for_each (\<lambda>m timestamp.
             bind_r (datetime_get_days_per_month leap_year (of_nat m)) (\<lambda>d.
               Inr (timestamp + ucast d * of_nat SECONDS_PER_DAY)))
           [1..<unat (month dt)] (word_of_int s)) (\<lambda>timestamp.
         Inr (timestamp + (ucast (day dt) - 1) * of_nat SECONDS_PER_DAY + ucast (hour dt) * of_nat SECONDS_PER_HOUR +
           ucast (minute dt) * of_nat SECONDS_PER_MINUTE + ucast (second dt)))))"

lemma days_per_year_pos: "ucast (datetime_get_days_per_year y) \<noteq> (0 :: u32)"
  by (simp add: datetime_get_days_per_year_def)

lemma word_minus_decreases: "b \<le> a \<Longrightarrow> b \<noteq> 0 \<Longrightarrow> unat (a - b) < unat (a :: u32)"
  using unat_sub [of b a] unat_eq_0 [of b] by (simp add: word_le_nat_alt)

function year_loop :: "u32 \<Rightarrow> u16 \<Rightarrow> u32 \<times> u16" where
  "year_loop days y =
     (if days \<ge> ucast (datetime_get_days_per_year y)
      then year_loop (days - ucast (datetime_get_days_per_year y)) (y + 1)
      else (days, y))"
  by pat_completeness auto
termination
  by (relation "measure (\<lambda>(days, y). unat days)") (auto intro: word_minus_decreases simp: days_per_year_pos)

declare year_loop.simps [simp del]

lemma days_per_month_pos: "datetime_get_days_per_month l m = Inr d \<Longrightarrow> ucast d \<noteq> (0 :: u32)"
proof -
  assume "datetime_get_days_per_month l m = Inr d"
  then have "d \<in> set (datetime_days_per_month l)"
    by (auto simp: datetime_get_days_per_month_def rd_def split: if_splits)
  then show ?thesis by (auto simp: datetime_days_per_month_def split: if_splits)
qed

function month_loop :: "bool \<Rightarrow> u32 \<Rightarrow> u8 \<Rightarrow> fault + u32 \<times> u8" where
  "month_loop leap_year days m =
     (case datetime_get_days_per_month leap_year m of
        Inl e \<Rightarrow> Inl e
      | Inr d \<Rightarrow> if days \<ge> ucast d then month_loop leap_year (days - ucast d) (m + 1) else Inr (days, m))"
  by pat_completeness auto
termination
  by (relation "measure (\<lambda>(leap_year, days, m). unat days)")
     (auto intro: word_minus_decreases simp: days_per_month_pos)

declare month_loop.simps [simp del]

definition datetime_timestamp_to_datetime :: "u32 \<Rightarrow> fault + DateTime" where
  "datetime_timestamp_to_datetime timestamp =
     (let days = timestamp div of_nat SECONDS_PER_DAY;
          seconds_in_day = timestamp mod of_nat SECONDS_PER_DAY;
          (days_in_year, y) = year_loop days (of_nat EPOCH_START_YEAR)
      in bind_r (month_loop (datetime_is_leap_year y) days_in_year 1) (\<lambda>(days_in_month, m).
         Inr \<lparr>hour = ucast (seconds_in_day div of_nat SECONDS_PER_HOUR),
              minute = ucast (seconds_in_day mod of_nat SECONDS_PER_HOUR div of_nat SECONDS_PER_MINUTE),
              second = ucast (seconds_in_day mod of_nat SECONDS_PER_MINUTE),
              day = ucast (days_in_month + 1), month = m, year = y,
              weekday = ucast ((days + 3) mod 7 + 1)\<rparr>))"

section \<open>The calendar\<close>

text \<open>The calendar on numbers without bounds: the days before a year, counted from 1970, the days before a
  month of a year, and the number of a second.\<close>

definition leap :: "nat \<Rightarrow> bool" where
  "leap y \<longleftrightarrow> y mod 4 = 0 \<and> y mod 100 \<noteq> 0 \<or> y mod 400 = 0"

definition year_length :: "nat \<Rightarrow> nat" where
  "year_length y = (if leap y then 366 else 365)"

definition month_length :: "bool \<Rightarrow> nat \<Rightarrow> nat" where
  "month_length l m = (if m = 2 then if l then 29 else 28 else if m \<in> {4, 6, 9, 11} then 30 else 31)"

definition year_start :: "nat \<Rightarrow> nat" where
  "year_start y = sum_list (map year_length [1970..<y])"

definition month_start :: "bool \<Rightarrow> nat \<Rightarrow> nat" where
  "month_start l m = sum_list (map (month_length l) [1..<m])"

definition day_number :: "DateTime \<Rightarrow> nat" where
  "day_number dt = year_start (unat (year dt)) + month_start (leap (unat (year dt))) (unat (month dt)) + (unat (day dt) - 1)"

definition second_number :: "DateTime \<Rightarrow> nat" where
  "second_number dt = day_number dt * 86400 + unat (hour dt) * 3600 + unat (minute dt) * 60 + unat (second dt)"

definition calendar_date :: "DateTime \<Rightarrow> bool" where
  "calendar_date dt \<longleftrightarrow> 1970 \<le> unat (year dt) \<and> unat (month dt) \<in> {1..12} \<and>
     unat (day dt) \<in> {1..month_length (leap (unat (year dt))) (unat (month dt))} \<and>
     unat (hour dt) < 24 \<and> unat (minute dt) < 60 \<and> unat (second dt) < 60"

definition right_weekday :: "DateTime \<Rightarrow> bool" where
  "right_weekday dt \<longleftrightarrow> unat (weekday dt) = (day_number dt + 3) mod 7 + 1"

lemma is_leap_year [simp]: "datetime_is_leap_year y = leap (unat y)"
  by (simp add: datetime_is_leap_year_def leap_def)

lemma days_per_year [simp]: "unat (datetime_get_days_per_year y) = year_length (unat y)"
  by (simp add: datetime_get_days_per_year_def year_length_def)

lemma days_per_month:
  assumes "unat m \<in> {1..12}"
  shows "\<exists>d. datetime_get_days_per_month l m = Inr d \<and> unat d = month_length l (unat m)"
proof -
  have m: "m \<noteq> 0" using assms by auto
  have "unat m - 1 < 12" using assms by auto
  moreover have "list_all (\<lambda>k. unat (datetime_days_per_month l ! k) = month_length l (Suc k)) [0..<12]"
    by (cases l) (simp_all add: datetime_days_per_month_def month_length_def upt_rec)
  then have "unat (datetime_days_per_month l ! (unat m - 1)) = month_length l (unat m)"
    using assms by (auto simp: list_all_iff dest: bspec [of _ _ "unat m - 1"])
  moreover have "length (datetime_days_per_month l) = 12" by (simp add: datetime_days_per_month_def)
  ultimately show ?thesis by (simp add: datetime_get_days_per_month_def m)
qed

lemma year_start_Suc: "1970 \<le> y \<Longrightarrow> year_start (Suc y) = year_start y + year_length y"
  by (simp add: year_start_def)

lemma month_start_Suc: "1 \<le> m \<Longrightarrow> month_start l (Suc m) = month_start l m + month_length l m"
  by (simp add: month_start_def)

lemma starts [simp]: "year_start 1970 = 0" "month_start l (Suc 0) = 0"
  by (simp_all add: year_start_def month_start_def)

lemma year_length_bounds: "365 \<le> year_length y" "year_length y \<le> 366"
  by (simp_all add: year_length_def)

lemma month_length_bounds: "28 \<le> month_length l m" "month_length l m \<le> 31"
  by (simp_all add: month_length_def)

lemma year_start_lower: "365 * (y - 1970) \<le> year_start y"
proof (induction y)
  case (Suc y)
  then show ?case
    using year_length_bounds [of y] by (cases "1970 \<le> y") (auto simp: year_start_Suc Suc_diff_le)
qed (simp add: year_start_def)

lemma year_start_mono: "y \<le> z \<Longrightarrow> 1970 \<le> y \<Longrightarrow> year_start y \<le> year_start z"
  by (induction rule: dec_induct) (auto simp: year_start_Suc)

lemma year_unique:
  assumes "year_start y + d = year_start z + e" and "d < year_length y" and "e < year_length z"
    and "1970 \<le> y" and "1970 \<le> z"
  shows "y = z \<and> d = e"
proof -
  have "year_start (Suc y) \<le> year_start z" if "y < z"
    using year_start_mono [of "Suc y" z] that assms(4) by simp
  moreover have "year_start (Suc z) \<le> year_start y" if "z < y"
    using year_start_mono [of "Suc z" y] that assms(5) by simp
  ultimately have "y = z"
    using assms by (cases y z rule: linorder_cases) (auto simp: year_start_Suc)
  then show ?thesis using assms(1) by simp
qed

lemma month_start_mono: "m \<le> n \<Longrightarrow> 1 \<le> m \<Longrightarrow> month_start l m \<le> month_start l n"
  by (induction rule: dec_induct) (auto simp: month_start_Suc)

lemma month_unique:
  assumes "month_start l m + d = month_start l n + e" and "d < month_length l m" and "e < month_length l n"
    and "1 \<le> m" and "1 \<le> n"
  shows "m = n \<and> d = e"
proof -
  have "month_start l (Suc m) \<le> month_start l n" if "m < n"
    using month_start_mono [of "Suc m" n l] that assms(4) by simp
  moreover have "month_start l (Suc n) \<le> month_start l m" if "n < m"
    using month_start_mono [of "Suc n" m l] that assms(5) by simp
  ultimately have "m = n"
    using assms by (cases m n rule: linorder_cases) (auto simp: month_start_Suc)
  then show ?thesis using assms(1) by simp
qed

lemma year_is_its_months: "month_start l 13 = (if l then 366 else 365)"
  by (cases l) (simp_all add: month_start_def month_length_def upt_rec)

lemma years_to_2039: "year_start 2039 = 25202"
  by (simp add: year_start_def year_length_def leap_def)

section \<open>The code follows the calendar\<close>

lemma year_loop_calendar:
  assumes "1970 \<le> unat y" and "unat y \<le> 1970 + (49710 - unat days) div 365" and "unat days \<le> 49710"
  shows "case year_loop days y of (d, z) \<Rightarrow> year_start (unat z) + unat d = year_start (unat y) + unat days \<and>
    unat d < year_length (unat z) \<and> unat y \<le> unat z \<and> unat z \<le> 1970 + 49710 div 365"
  using assms
proof (induction days y rule: year_loop.induct)
  case (1 days y)
  let ?n = "datetime_get_days_per_year y"
  show ?case
  proof (cases "ucast ?n \<le> days")
    case True
    then have le: "year_length (unat y) \<le> unat days" by (simp add: word_le_nat_alt)
    have days: "unat (days - ucast ?n) = unat days - year_length (unat y)"
      using True by (simp add: unat_sub)
    have "unat y + 1 < 2 ^ 16" using "1.prems" by simp
    then have y: "unat (y + 1) = Suc (unat y)" using unat_add_lem [of y 1] by simp
    have "unat y + 1 \<le> 1970 + (49710 - (unat days - year_length (unat y))) div 365"
      using "1.prems" le year_length_bounds [of "unat y"] by linarith
    then have "case year_loop (days - ucast ?n) (y + 1) of (d, z) \<Rightarrow>
        year_start (unat z) + unat d = year_start (Suc (unat y)) + (unat days - year_length (unat y)) \<and>
        unat d < year_length (unat z) \<and> Suc (unat y) \<le> unat z \<and> unat z \<le> 1970 + 49710 div 365"
      using "1.IH" [OF True] "1.prems" days y by simp
    then show ?thesis
      using le "1.prems" True by (subst year_loop.simps) (auto simp: year_start_Suc)
  next
    case False
    then have "unat days < year_length (unat y)" by (simp add: word_le_nat_alt)
    moreover have "(49710 - unat days) div 365 \<le> 49710 div 365" by (rule div_le_mono) simp
    ultimately show ?thesis using False "1.prems" by (subst year_loop.simps) simp
  qed
qed

lemma month_loop_calendar:
  assumes "unat m \<in> {1..12}" and "month_start l (unat m) + unat days < month_start l 13"
  shows "\<exists>d n. month_loop l days m = Inr (d, n) \<and> month_start l (unat n) + unat d = month_start l (unat m) + unat days \<and>
    unat d < month_length l (unat n) \<and> unat n \<in> {1..12}"
  using assms
proof (induction l days m rule: month_loop.induct)
  case (1 l days m)
  obtain d where d: "datetime_get_days_per_month l m = Inr d" "unat d = month_length l (unat m)"
    using days_per_month [OF "1.prems"(1)] by blast
  show ?case
  proof (cases "ucast d \<le> days")
    case True
    then have le: "month_length l (unat m) \<le> unat days" by (simp add: word_le_nat_alt d(2))
    have days: "unat (days - ucast d) = unat days - month_length l (unat m)"
      using True by (simp add: unat_sub d(2))
    have m: "unat (m + 1) = Suc (unat m)"
      using "1.prems"(1) unat_add_lem [of m 1] by auto
    have "unat m < 12"
    proof (rule ccontr)
      assume "\<not> unat m < 12"
      then have "unat m = 12" using "1.prems"(1) by simp
      then show False using "1.prems"(2) le month_start_Suc [of 12 l] by simp
    qed
    then have "\<exists>d' n. month_loop l (days - ucast d) (m + 1) = Inr (d', n) \<and>
        month_start l (unat n) + unat d' = month_start l (Suc (unat m)) + (unat days - month_length l (unat m)) \<and>
        unat d' < month_length l (unat n) \<and> unat n \<in> {1..12}"
      using "1.IH" [OF d(1) True] "1.prems" m days le by (simp add: month_start_Suc)
    then show ?thesis
      using True d(1) le "1.prems"(1) by (subst month_loop.simps) (auto simp: month_start_Suc)
  next
    case False
    then have "unat days < month_length l (unat m)" by (simp add: word_le_nat_alt d(2))
    then show ?thesis using False d(1) "1.prems"(1) by (subst month_loop.simps) simp
  qed
qed

lemma date_of_timestamp:
  "\<exists>dt. datetime_timestamp_to_datetime t = Inr dt \<and> calendar_date dt \<and> right_weekday dt \<and> second_number dt = unat t"
proof -
  let ?days = "t div of_nat SECONDS_PER_DAY" and ?secs = "t mod of_nat SECONDS_PER_DAY"
  have t: "unat t < 2 ^ 32" using unsigned_less [of t, where ?'a = nat] by simp
  have days: "unat ?days = unat t div 86400" "unat ?secs = unat t mod 86400"
    by (simp_all add: firmware_const unat_div unat_mod)
  then have bound: "unat ?days \<le> 49710" using t by simp
  obtain d z where yl: "year_loop ?days (of_nat EPOCH_START_YEAR) = (d, z)"
    "year_start (unat z) + unat d = unat ?days" "unat d < year_length (unat z)" "1970 \<le> unat z"
    using year_loop_calendar [of "of_nat EPOCH_START_YEAR" ?days] bound
    by (auto simp: firmware_const split: prod.splits)
  obtain e m where ml: "month_loop (leap (unat z)) d 1 = Inr (e, m)"
    "month_start (leap (unat z)) (unat m) + unat e = unat d"
    "unat e < month_length (leap (unat z)) (unat m)" "unat m \<in> {1..12}"
    using month_loop_calendar [of 1 "leap (unat z)" d] yl(3)
    by (auto simp: year_is_its_months year_length_def)
  have e: "unat e < 31" using ml(3) month_length_bounds [of "leap (unat z)" "unat m"] by linarith
  then have "unat (e + 1) = unat e + 1" using unat_add_lem [of e 1] by simp
  then have day: "unat (ucast (e + 1) :: u8) = unat e + 1"
    using e by (simp add: unsigned_ucast_eq take_bit_nat_eq_self_iff)
  have "unat (?days + 3) = unat ?days + 3" using unat_add_lem [of ?days 3] bound by simp
  then have "unat ((?days + 3) mod 7) = (unat ?days + 3) mod 7" by (simp add: unat_mod)
  moreover have "(unat ?days + 3) mod 7 < 7" by simp
  then have "(unat ?days + 3) mod 7 < 4294967295" by linarith
  ultimately have w: "unat ((?days + 3) mod 7 + 1) = (unat ?days + 3) mod 7 + 1"
    using unat_add_lem [of "(?days + 3) mod 7" 1] by simp
  have weekday: "unat (ucast ((?days + 3) mod 7 + 1) :: u8) = (unat ?days + 3) mod 7 + 1"
    using \<open>(unat ?days + 3) mod 7 < 7\<close> unfolding unsigned_ucast_eq w by (simp add: take_bit_nat_eq_self_iff)
  have small: "unat (ucast x :: u8) = unat x" if "unat (x :: u32) < 256" for x
    using that by (simp add: unsigned_ucast_eq take_bit_nat_eq_self_iff)
  have hms: "unat (ucast (?secs div of_nat SECONDS_PER_HOUR) :: u8) = unat ?secs div 3600"
    "unat (ucast (?secs mod of_nat SECONDS_PER_HOUR div of_nat SECONDS_PER_MINUTE) :: u8) = unat ?secs mod 3600 div 60"
    "unat (ucast (?secs mod of_nat SECONDS_PER_MINUTE) :: u8) = unat ?secs mod 60"
    using days(2) by (subst small; simp add: firmware_const unat_div unat_mod; presburger?)+
  let ?dt = "\<lparr>hour = ucast (?secs div of_nat SECONDS_PER_HOUR),
      minute = ucast (?secs mod of_nat SECONDS_PER_HOUR div of_nat SECONDS_PER_MINUTE),
      second = ucast (?secs mod of_nat SECONDS_PER_MINUTE),
      day = ucast (e + 1), month = m, year = z, weekday = ucast ((?days + 3) mod 7 + 1)\<rparr>"
  have secs: "unat ?secs < 86400" unfolding days by simp
  have "datetime_timestamp_to_datetime t = Inr ?dt"
    unfolding datetime_timestamp_to_datetime_def Let_def yl(1) by (simp add: ml(1))
  moreover have "calendar_date ?dt"
    using yl(4) ml(3,4) secs by (simp add: calendar_date_def day hms less_mult_imp_div_less)
  moreover have number: "day_number ?dt = unat ?days"
    using yl(2) ml(2) by (simp add: day_number_def day)
  moreover have "right_weekday ?dt"
    by (simp add: right_weekday_def number weekday)
  moreover have "second_number ?dt = unat t"
  proof -
    have "unat ?secs mod 3600 mod 60 = unat ?secs mod 60" by (simp add: mod_mod_cancel)
    then have "unat ?secs div 3600 * 3600 + unat ?secs mod 3600 div 60 * 60 + unat ?secs mod 60 = unat ?secs"
      using div_mult_mod_eq [of "unat ?secs" 3600] div_mult_mod_eq [of "unat ?secs mod 3600" 60] by linarith
    moreover have "unat ?days * 86400 + unat ?secs = unat t"
      unfolding days by (rule div_mult_mod_eq)
    ultimately show ?thesis
      by (simp add: second_number_def number hms)
  qed
  ultimately show ?thesis by blast
qed

lemma count_years:
  assumes "1970 \<le> y" and "y \<le> 2200"
  shows "\<exists>a b. foldl count_year (0, 0) [1970..<y] = (a, b) \<and> unat a * 365 + unat b * 366 = year_start y \<and>
    unat a + unat b = y - 1970"
  using assms
proof (induction y rule: dec_induct)
  case base
  then show ?case by simp
next
  case (step n)
  then obtain a b where ab: "foldl count_year (0, 0) [1970..<n] = (a, b)"
    "unat a * 365 + unat b * 366 = year_start n" "unat a + unat b = n - 1970" by auto
  have n: "unat (of_nat n :: u16) = n" using step by (simp add: unat_of_nat take_bit_nat_eq_self_iff)
  have "unat a < 255" "unat b < 255" using ab(3) step by linarith+
  then have "unat (a + 1) = unat a + 1" "unat (b + 1) = unat b + 1"
    using unat_add_lem [of a 1] unat_add_lem [of b 1] by simp_all
  then show ?case
    using step ab by (auto simp: count_year_def n year_start_Suc year_length_def)
qed

lemma add_months:
  assumes "m \<le> 12"
  shows "for_each (\<lambda>m t. bind_r (datetime_get_days_per_month l (of_nat m)) (\<lambda>d. Inr (t + ucast d * of_nat SECONDS_PER_DAY)))
    [1..<m] t = Inr (t + of_nat (month_start l m * 86400) :: u32)"
proof -
  have "for_each (\<lambda>m t. bind_r (datetime_get_days_per_month l (of_nat m)) (\<lambda>d. Inr (t + ucast d * of_nat SECONDS_PER_DAY))) ms t =
      Inr (t + of_nat (sum_list (map (month_length l) ms) * 86400) :: u32)" if "set ms \<subseteq> {1..12}" for ms
    using that
  proof (induction ms arbitrary: t)
    case (Cons m ms)
    then have "unat (of_nat m :: u8) = m" by (simp add: unat_of_nat take_bit_nat_eq_self_iff)
    then obtain d where d: "datetime_get_days_per_month l (of_nat m) = Inr d" "unat d = month_length l m"
      using days_per_month [of "of_nat m" l] Cons.prems by auto
    then have "(ucast d :: u32) = of_nat (month_length l m)" by (metis unat_ucast_le of_nat_unat)
    then show ?case
      using Cons by (simp add: d(1) firmware_const algebra_simps)
  qed simp
  moreover have "set [1..<m] \<subseteq> {1..12}" using assms by auto
  ultimately show ?thesis unfolding month_start_def by blast
qed

lemma timestamp_of_date:
  assumes "calendar_date dt" and "unat (year dt) \<le> 2200"
  shows "datetime_datetime_to_timestamp dt =
    (if unat (year dt) < 2039 then Inr (of_nat (second_number dt)) else Inl UndefinedBehaviour)"
proof -
  have *: "1970 \<le> unat (year dt)" "unat (month dt) \<le> 12" "1 \<le> unat (day dt)"
    using assms(1) by (auto simp: calendar_date_def)
  obtain a b where ab: "foldl count_year (0, 0) [1970..<unat (year dt)] = (a, b)"
    "unat a * 365 + unat b * 366 = year_start (unat (year dt))"
    using count_years [OF *(1) assms(2)] by blast
  have y: "(uint a * 365 + uint b * 366) * 86400 = int (year_start (unat (year dt)) * 86400)"
    by (simp flip: ab(2))
  have days: "int32_checked (int (year_start (unat (year dt)) * 86400)) =
      (if unat (year dt) < 2039 then Inr (int (year_start (unat (year dt)) * 86400)) else Inl UndefinedBehaviour)"
  proof (cases "unat (year dt) < 2039")
    case True
    then have "year_start (unat (year dt)) \<le> year_start 2038" using * by (intro year_start_mono) auto
    then have "year_start (unat (year dt)) \<le> 24837"
      using years_to_2039 year_start_Suc [of 2038] by (simp add: year_length_def leap_def)
    then show ?thesis using True by (simp add: int32_checked_def)
  next
    case False
    then have "year_start 2039 \<le> year_start (unat (year dt))" by (intro year_start_mono) auto
    then show ?thesis using False by (simp add: int32_checked_def years_to_2039)
  qed
  have secs: "SECONDS_PER_DAY = 86400" "SECONDS_PER_HOUR = 3600" "SECONDS_PER_MINUTE = 60" "EPOCH_START_YEAR = 1970"
    by (simp_all add: firmware_const)
  have day: "ucast (day dt) - 1 = (of_nat (unat (day dt) - 1) :: u32)"
    using *(3) by (simp add: of_nat_diff)
  have checked: "int32_checked ((uint a * 365 + uint b * 366) * int SECONDS_PER_DAY) =
      (if unat (year dt) < 2039 then Inr (int (year_start (unat (year dt)) * 86400)) else Inl UndefinedBehaviour)"
    using y days by (simp add: secs)
  have "of_nat (year_start (unat (year dt)) * 86400) + of_nat (month_start (leap (unat (year dt))) (unat (month dt)) * 86400) +
      (ucast (day dt) - 1) * of_nat SECONDS_PER_DAY + ucast (hour dt) * of_nat SECONDS_PER_HOUR +
      ucast (minute dt) * of_nat SECONDS_PER_MINUTE + ucast (second dt) = (of_nat (second_number dt) :: u32)"
    unfolding day second_number_def day_number_def secs by (simp add: distrib_right)
  then show ?thesis
    unfolding datetime_datetime_to_timestamp_def secs(4) ab(1)
    by (simp add: checked add_months [OF *(2), simplified])
qed

section \<open>Timestamps and dates\<close>

lemma day_number_bound:
  assumes "calendar_date dt"
  shows "month_start (leap (unat (year dt))) (unat (month dt)) + (unat (day dt) - 1) < year_length (unat (year dt))"
proof -
  let ?l = "leap (unat (year dt))" and ?m = "unat (month dt)"
  have "unat (day dt) - 1 < month_length ?l ?m" "1 \<le> ?m" "?m \<le> 12" using assms by (auto simp: calendar_date_def)
  then have "month_start ?l ?m + (unat (day dt) - 1) < month_start ?l (Suc ?m)" by (simp add: month_start_Suc)
  also have "\<dots> \<le> month_start ?l 13" using \<open>?m \<le> 12\<close> by (intro month_start_mono) auto
  also have "\<dots> = year_length (unat (year dt))" by (simp add: year_is_its_months year_length_def)
  finally show ?thesis .
qed

lemma split_seconds:
  assumes "d * 86400 + (h :: nat) * 3600 + m * 60 + s = d' * 86400 + h' * 3600 + m' * 60 + s'"
    and "h < 24" "m < 60" "s < 60" "h' < 24" "m' < 60" "s' < 60"
  shows "d = d' \<and> h = h' \<and> m = m' \<and> s = s'"
proof -
  have "d = d'" using assms by linarith
  moreover from this have "h = h'" using assms by linarith
  moreover from calculation have "m = m'" using assms by linarith
  ultimately show ?thesis using assms by linarith
qed

lemma date_unique:
  assumes "calendar_date dt" "right_weekday dt" "calendar_date dt'" "right_weekday dt'"
    and "second_number dt = second_number dt'"
  shows "dt = dt'"
proof -
  have parts: "day_number dt = day_number dt' \<and> unat (hour dt) = unat (hour dt') \<and> unat (minute dt) = unat (minute dt') \<and>
      unat (second dt) = unat (second dt')"
    using assms(1,3,5) by (intro split_seconds) (auto simp: second_number_def calendar_date_def)
  then have years: "unat (year dt) = unat (year dt') \<and>
      month_start (leap (unat (year dt))) (unat (month dt)) + (unat (day dt) - 1) =
      month_start (leap (unat (year dt'))) (unat (month dt')) + (unat (day dt') - 1)"
    using assms(1,3) day_number_bound [OF assms(1)] day_number_bound [OF assms(3)]
    by (intro year_unique) (auto simp: day_number_def calendar_date_def)
  then have "unat (month dt) = unat (month dt') \<and> unat (day dt) - 1 = unat (day dt') - 1"
    using assms(1,3) by (intro month_unique [of "leap (unat (year dt))"]) (auto simp: calendar_date_def)
  moreover from this have "unat (day dt) = unat (day dt')" using assms(1,3) by (auto simp: calendar_date_def)
  moreover have "unat (weekday dt) = unat (weekday dt')" using assms(2,4) parts by (simp add: right_weekday_def)
  ultimately show ?thesis using parts years by (intro DateTime.equality) (simp_all add: word_unat_eq_iff)
qed

text \<open>C15 Every 32 bit timestamp has a date: the code finds a date of the calendar, with the right day of the
  week, whose second number is the timestamp, and there is no other.\<close>

theorem timestamp_has_date:
  "\<exists>dt. datetime_timestamp_to_datetime t = Inr dt \<and> {dt'. calendar_date dt' \<and> right_weekday dt' \<and> second_number dt' = unat t} = {dt}"
proof -
  obtain dt where dt: "datetime_timestamp_to_datetime t = Inr dt" "calendar_date dt" "right_weekday dt"
    "second_number dt = unat t" using date_of_timestamp by blast
  moreover from this have "dt' = dt" if "calendar_date dt'" "right_weekday dt'" "second_number dt' = unat t" for dt'
    using date_unique [of dt' dt] that by simp
  ultimately show ?thesis by blast
qed

text \<open>C25 Every date of the calendar from 1970 to 2038 with its day of the week survives the conversion to a
  timestamp and back.\<close>

theorem date_timestamp_roundtrip:
  assumes "calendar_date dt" and "right_weekday dt" and "unat (year dt) < 2039"
  shows "\<exists>t. datetime_datetime_to_timestamp dt = Inr t \<and> datetime_timestamp_to_datetime t = Inr dt"
proof -
  have t: "datetime_datetime_to_timestamp dt = Inr (of_nat (second_number dt))"
    using timestamp_of_date [OF assms(1)] assms(3) by simp
  have y: "1970 \<le> unat (year dt)" using assms(1) by (simp add: calendar_date_def)
  then have "day_number dt < year_start (Suc (unat (year dt)))"
    using day_number_bound [OF assms(1)] by (simp add: day_number_def year_start_Suc)
  also have "\<dots> \<le> year_start 2039" using assms(3) y by (intro year_start_mono) auto
  finally have "second_number dt < 2 ^ 32"
    using assms(1) by (simp add: second_number_def calendar_date_def years_to_2039)
  then have n: "unat (of_nat (second_number dt) :: u32) = second_number dt"
    by (simp add: unat_of_nat take_bit_nat_eq_self_iff)
  obtain dt' where dt': "datetime_timestamp_to_datetime (of_nat (second_number dt)) = Inr dt'" "calendar_date dt'"
    "right_weekday dt'" "second_number dt' = second_number dt"
    using date_of_timestamp [of "of_nat (second_number dt)"] n by auto
  then have "dt' = dt" by (intro date_unique) (use assms in auto)
  then show ?thesis using t dt'(1) by blast
qed

theorem date_timestamp_roundtrip_witness:
  "\<exists>t. datetime_datetime_to_timestamp \<lparr>hour = 23, minute = 59, second = 58, day = 29, month = 2, year = 2024, weekday = 4\<rparr> =
      Inr t \<and>
    datetime_timestamp_to_datetime t =
      Inr \<lparr>hour = 23, minute = 59, second = 58, day = 29, month = 2, year = 2024, weekday = 4\<rparr>"
proof (rule date_timestamp_roundtrip)
  have "leap 2024" by (simp add: leap_def)
  then show "calendar_date \<lparr>hour = 23, minute = 59, second = 58, day = 29, month = 2, year = 2024, weekday = 4\<rparr>"
    by (simp add: calendar_date_def month_length_def)
  show "right_weekday \<lparr>hour = 23, minute = 59, second = 58, day = 29, month = 2, year = 2024, weekday = 4\<rparr>"
    by (simp add: right_weekday_def day_number_def year_start_def month_start_def year_length_def month_length_def leap_def
        upt_rec)
qed simp

text \<open>Dates the validation accepts although they have no timestamp, and a date that is none.\<close>

lemma valid_date_without_timestamp:
  assumes "datetime_validate_datetime dt" and "calendar_date dt" and "2039 \<le> unat (year dt)"
  shows "datetime_datetime_to_timestamp dt = Inl UndefinedBehaviour"
proof -
  have "unat (year dt) \<le> 2099"
    using assms(1) by (simp add: datetime_validate_datetime_def word_less_nat_alt not_less)
  then show ?thesis using timestamp_of_date [OF assms(2)] assms(3) by simp
qed

lemma february_31_validates:
  "datetime_validate_datetime \<lparr>hour = 0, minute = 0, second = 0, day = 31, month = 2, year = 2023, weekday = 1\<rparr>"
  by (simp add: datetime_validate_datetime_def)

end
