(* ===== verification/Iso14443_4_Layer.thy ===== *)
theory Iso14443_4_Layer
  imports Nfc_Crc
begin

text \<open>
  The block layer of ISO 14443-4, \<^verbatim>\<open>lib/nfc/helpers/iso14443_4_layer.c\<close>: the protocol control byte of
  information, ready and supervisory blocks with its block number, on the side of the poller and of
  the listener. Blocks are bit buffers; the operations of \<open>Bit_Buffer\<close> are described here by the bytes
  a buffer holds.
\<close>

unbundle bit_operations_syntax

section \<open>The control byte\<close>

definition ISO14443_4_BLOCK_PCB_TYPE_I :: u8 where [firmware_const]: "ISO14443_4_BLOCK_PCB_TYPE_I = push_bit 6 0"
definition ISO14443_4_BLOCK_PCB_TYPE_R :: u8 where [firmware_const]: "ISO14443_4_BLOCK_PCB_TYPE_R = push_bit 6 2"
definition ISO14443_4_BLOCK_PCB_TYPE_MASK :: u8 where [firmware_const]: "ISO14443_4_BLOCK_PCB_TYPE_MASK = push_bit 6 3"
definition ISO14443_4_BLOCK_PCB_S_WTX :: u8 where [firmware_const]: "ISO14443_4_BLOCK_PCB_S_WTX = push_bit 4 3"
definition ISO14443_4_BLOCK_PCB_S :: u8 where [firmware_const]: "ISO14443_4_BLOCK_PCB_S = push_bit 6 3"
definition ISO14443_4_BLOCK_PCB :: u8 where [firmware_const]: "ISO14443_4_BLOCK_PCB = push_bit 1 1"
definition ISO14443_4_BLOCK_PCB_MASK :: u8 where [firmware_const]: "ISO14443_4_BLOCK_PCB_MASK = 3"
definition ISO14443_4_BLOCK_PCB_I :: u8 where [firmware_const]: "ISO14443_4_BLOCK_PCB_I = 0"
definition ISO14443_4_BLOCK_PCB_I_MASK :: u8 where [firmware_const]: "ISO14443_4_BLOCK_PCB_I_MASK = push_bit 1 1"
definition ISO14443_4_BLOCK_PCB_I_ZERO_MASK :: u8 where [firmware_const]: "ISO14443_4_BLOCK_PCB_I_ZERO_MASK = push_bit 5 7"
definition ISO14443_4_BLOCK_PCB_I_NAD_MASK :: u8 where [firmware_const]: "ISO14443_4_BLOCK_PCB_I_NAD_MASK = push_bit 2 1"
definition ISO14443_4_BLOCK_PCB_I_CID_MASK :: u8 where [firmware_const]: "ISO14443_4_BLOCK_PCB_I_CID_MASK = push_bit 3 1"
definition ISO14443_4_BLOCK_PCB_I_CHAIN_MASK :: u8 where [firmware_const]: "ISO14443_4_BLOCK_PCB_I_CHAIN_MASK = push_bit 4 1"
definition ISO14443_4_BLOCK_PCB_R_MASK :: u8 where [firmware_const]: "ISO14443_4_BLOCK_PCB_R_MASK = push_bit 5 5"
definition ISO14443_4_BLOCK_PCB_R_NACK_MASK :: u8 where [firmware_const]: "ISO14443_4_BLOCK_PCB_R_NACK_MASK = push_bit 4 1"
definition ISO14443_4_BLOCK_PCB_S_MASK :: u8 where [firmware_const]: "ISO14443_4_BLOCK_PCB_S_MASK = push_bit 6 3"
definition ISO14443_4_BLOCK_PCB_S_CID_MASK :: u8 where [firmware_const]: "ISO14443_4_BLOCK_PCB_S_CID_MASK = push_bit 3 1"
definition ISO14443_4_BLOCK_PCB_S_WTX_DESELECT_MASK :: u8 where
  [firmware_const]: "ISO14443_4_BLOCK_PCB_S_WTX_DESELECT_MASK = push_bit 4 3"
definition ISO14443_4_BLOCK_PPS_START :: u8 where [firmware_const]: "ISO14443_4_BLOCK_PPS_START = 0xD0"
definition ISO14443_4_BLOCK_PPS_START_MASK :: u8 where [firmware_const]: "ISO14443_4_BLOCK_PPS_START_MASK = 0xF0"
definition ISO14443_4_BLOCK_PPS_0_HAS_PPS1 :: u8 where [firmware_const]: "ISO14443_4_BLOCK_PPS_0_HAS_PPS1 = push_bit 4 1"
definition ISO14443_4_BLOCK_CID_MASK :: u8 where [firmware_const]: "ISO14443_4_BLOCK_CID_MASK = 0x0F"
definition ISO14443_4_LAYER_CID_NOT_SUPPORTED :: u8 where [firmware_const]: "ISO14443_4_LAYER_CID_NOT_SUPPORTED = - 1"
definition ISO14443_4_LAYER_NAD_NOT_SUPPORTED :: u8 where [firmware_const]: "ISO14443_4_LAYER_NAD_NOT_SUPPORTED = - 1"
definition ISO14443_4_LAYER_NAD_NOT_SET :: u8 where [firmware_const]: "ISO14443_4_LAYER_NAD_NOT_SET = - 2"

definition bits_active :: "u8 \<Rightarrow> u8 \<Rightarrow> bool" where
  "bits_active pcb m \<longleftrightarrow> pcb AND m = m"

definition is_i_block :: "u8 \<Rightarrow> bool" where
  "is_i_block pcb \<longleftrightarrow> bits_active pcb ISO14443_4_BLOCK_PCB_I_MASK \<and> pcb AND ISO14443_4_BLOCK_PCB_I_ZERO_MASK = 0"

definition is_r_block :: "u8 \<Rightarrow> bool" where "is_r_block pcb \<longleftrightarrow> bits_active pcb ISO14443_4_BLOCK_PCB_R_MASK"

definition is_s_block :: "u8 \<Rightarrow> bool" where "is_s_block pcb \<longleftrightarrow> bits_active pcb ISO14443_4_BLOCK_PCB_S_MASK"

definition is_chain_active :: "u8 \<Rightarrow> bool" where "is_chain_active pcb \<longleftrightarrow> bits_active pcb ISO14443_4_BLOCK_PCB_I_CHAIN_MASK"

definition is_nack_active :: "u8 \<Rightarrow> bool" where "is_nack_active pcb \<longleftrightarrow> bits_active pcb ISO14443_4_BLOCK_PCB_R_NACK_MASK"

definition is_pps_start :: "u8 \<Rightarrow> bool" where
  "is_pps_start pps \<longleftrightarrow> pps AND ISO14443_4_BLOCK_PPS_START_MASK = ISO14443_4_BLOCK_PPS_START"

section \<open>State and settings\<close>

record Iso14443_4Layer =
  pcb :: u8
  pcb_prev :: u8
  cid :: u8
  nad :: u8
  can_pps :: bool

definition iso14443_4_layer_update_pcb :: "bool \<Rightarrow> Iso14443_4Layer \<Rightarrow> Iso14443_4Layer" where
  "iso14443_4_layer_update_pcb toggle_num l =
     l\<lparr>pcb_prev := pcb l, pcb := if toggle_num then pcb l XOR 1 else pcb l\<rparr>"

definition iso14443_4_layer_reset :: "Iso14443_4Layer \<Rightarrow> Iso14443_4Layer" where
  "iso14443_4_layer_reset l =
     l\<lparr>pcb_prev := 0, pcb := ISO14443_4_BLOCK_PCB_I OR ISO14443_4_BLOCK_PCB,
       cid := ISO14443_4_LAYER_CID_NOT_SUPPORTED, nad := ISO14443_4_LAYER_NAD_NOT_SUPPORTED, can_pps := True\<rparr>"

definition iso14443_4_layer_alloc :: Iso14443_4Layer where
  "iso14443_4_layer_alloc =
     iso14443_4_layer_reset \<lparr>pcb = 0, pcb_prev = 0, cid = 0, nad = 0, can_pps = False\<rparr>"

definition iso14443_4_layer_set_i_block :: "bool \<Rightarrow> bool \<Rightarrow> Iso14443_4Layer \<Rightarrow> Iso14443_4Layer" where
  "iso14443_4_layer_set_i_block chaining CID_present l =
     l\<lparr>pcb := ISO14443_4_BLOCK_PCB_I OR push_bit 4 (of_bool chaining) OR push_bit 3 (of_bool CID_present) OR
       (pcb l AND ISO14443_4_BLOCK_PCB_MASK)\<rparr>"

definition iso14443_4_layer_set_r_block :: "bool \<Rightarrow> bool \<Rightarrow> Iso14443_4Layer \<Rightarrow> Iso14443_4Layer" where
  "iso14443_4_layer_set_r_block acknowledged CID_present l =
     l\<lparr>pcb := ISO14443_4_BLOCK_PCB_R_MASK OR push_bit 4 (of_bool (\<not> acknowledged)) OR push_bit 3 (of_bool CID_present) OR
       (pcb l AND ISO14443_4_BLOCK_PCB_MASK)\<rparr>"

definition iso14443_4_layer_set_s_block :: "bool \<Rightarrow> bool \<Rightarrow> Iso14443_4Layer \<Rightarrow> Iso14443_4Layer" where
  "iso14443_4_layer_set_s_block deselect CID_present l =
     l\<lparr>pcb := ISO14443_4_BLOCK_PCB_S_MASK OR (if \<not> deselect then ISO14443_4_BLOCK_PCB_S_WTX_DESELECT_MASK else 0) OR
       push_bit 3 (of_bool CID_present) OR ISO14443_4_BLOCK_PCB\<rparr>"

definition iso14443_4_layer_set_cid :: "u8 \<Rightarrow> Iso14443_4Layer \<Rightarrow> Iso14443_4Layer" where
  "iso14443_4_layer_set_cid c l = l\<lparr>cid := c\<rparr>"

definition iso14443_4_layer_set_nad_supported :: "bool \<Rightarrow> Iso14443_4Layer \<Rightarrow> Iso14443_4Layer" where
  "iso14443_4_layer_set_nad_supported supported l =
     l\<lparr>nad := if supported then 0 else ISO14443_4_LAYER_NAD_NOT_SUPPORTED\<rparr>"

section \<open>The side of the poller\<close>

datatype Iso14443_4aError =
    Iso14443_4aErrorNone
  | Iso14443_4aErrorNotPresent
  | Iso14443_4aErrorProtocol
  | Iso14443_4aErrorTimeout
  | Iso14443_4aErrorSendExtra

definition iso14443_4_layer_encode_command ::
  "Iso14443_4Layer \<Rightarrow> BitBuffer \<Rightarrow> BitBuffer \<Rightarrow> fault + Iso14443_4Layer \<times> BitBuffer" where
  "iso14443_4_layer_encode_command l input_data block_data =
     bind_r (bit_buffer_append_byte block_data (pcb l)) (\<lambda>block1.
     bind_r (bit_buffer_append block1 input_data) (\<lambda>block2.
       Inr (iso14443_4_layer_update_pcb True l, block2)))"

definition iso14443_4_layer_get_response_pcb :: "BitBuffer \<Rightarrow> fault + u8" where
  "iso14443_4_layer_get_response_pcb block_data = rd (bb_data block_data) 0"

definition iso14443_4_layer_decode_response ::
  "Iso14443_4Layer \<Rightarrow> BitBuffer \<Rightarrow> BitBuffer \<Rightarrow> fault + bool \<times> Iso14443_4Layer \<times> BitBuffer" where
  "iso14443_4_layer_decode_response l output_data block_data =
     (if is_r_block (pcb_prev l)
      then bind_r (iso14443_4_layer_get_response_pcb block_data) (\<lambda>response_pcb.
        Inr (is_r_block response_pcb \<and> \<not> is_nack_active response_pcb,
          iso14443_4_layer_update_pcb True (l\<lparr>pcb := pcb l AND ISO14443_4_BLOCK_PCB_MASK\<rparr>), output_data))
      else if is_chain_active (pcb_prev l)
      then bind_r (iso14443_4_layer_get_response_pcb block_data) (\<lambda>response_pcb.
        Inr (is_r_block response_pcb \<and> \<not> is_nack_active response_pcb,
          l\<lparr>pcb := pcb l AND NOT ISO14443_4_BLOCK_PCB_I_CHAIN_MASK\<rparr>, output_data))
      else bind_r (bit_buffer_starts_with_byte block_data (pcb_prev l)) (\<lambda>same.
        if is_s_block (pcb_prev l) \<or> same
        then bind_r (if bit_buffer_get_size_bytes block_data > 1
             then bit_buffer_copy_right output_data block_data 1 else Inr output_data) (\<lambda>output.
           Inr (same, l, output))
        else Inr (False, l, output_data)))"

text \<open>Here the block is also read where its type is unknown; the extra answer asks for more time.\<close>

definition iso14443_4_layer_decode_response_pwt_ext ::
  "Iso14443_4Layer \<Rightarrow> BitBuffer \<Rightarrow> BitBuffer \<Rightarrow> fault + Iso14443_4aError \<times> BitBuffer" where
  "iso14443_4_layer_decode_response_pwt_ext l output_data block_data =
     (let output = bit_buffer_reset output_data
      in bind_r (bit_buffer_get_byte block_data 0) (\<lambda>pcb_field.
        let block_type = pcb_field AND ISO14443_4_BLOCK_PCB_TYPE_MASK
        in if block_type = ISO14443_4_BLOCK_PCB_TYPE_I
           then if pcb_field = pcb_prev l
             then bind_r (bit_buffer_copy_right output block_data 1) (\<lambda>o1. Inr (Iso14443_4aErrorNone, o1))
             else Inr (Iso14443_4aErrorSendExtra, output)
           else if block_type = ISO14443_4_BLOCK_PCB_TYPE_R then Inr (Iso14443_4aErrorProtocol, output)
           else if block_type = ISO14443_4_BLOCK_PCB_S \<and>
             pcb_field AND ISO14443_4_BLOCK_PCB_S_WTX = ISO14443_4_BLOCK_PCB_S_WTX
           then bind_r (bit_buffer_get_byte block_data 1) (\<lambda>inf_field.
                bind_r (bit_buffer_append_byte output
                  (ISO14443_4_BLOCK_PCB_S OR ISO14443_4_BLOCK_PCB_S_WTX OR ISO14443_4_BLOCK_PCB)) (\<lambda>o1.
                bind_r (bit_buffer_append_byte o1 (inf_field AND 0x3F)) (\<lambda>o2. Inr (Iso14443_4aErrorSendExtra, o2))))
           else Inr (Iso14443_4aErrorProtocol, output)))"

section \<open>The side of the listener\<close>

text \<open>The result flags of \<^verbatim>\<open>iso14443_4_layer_decode_command\<close>: none set means that the block is skipped.\<close>

record Iso14443_4LayerResult =
  result_data :: bool
  result_send :: bool
  result_halt :: bool

definition result_skip :: Iso14443_4LayerResult where
  "result_skip = \<lparr>result_data = False, result_send = False, result_halt = False\<rparr>"

text \<open>The address check of information and supervisory blocks: \<open>None\<close> skips the block, otherwise the
  length of the prologue read so far.\<close>

definition check_cid :: "Iso14443_4Layer \<Rightarrow> BitBuffer \<Rightarrow> fault + nat option" where
  "check_cid l input_data =
     (if pcb l AND ISO14443_4_BLOCK_PCB_I_CID_MASK \<noteq> 0
      then bind_r (bit_buffer_get_byte input_data 1) (\<lambda>c.
        if cid l = ISO14443_4_LAYER_CID_NOT_SUPPORTED \<or> c AND ISO14443_4_BLOCK_CID_MASK \<noteq> cid l
        then Inr None else Inr (Some 2))
      else if cid l \<noteq> ISO14443_4_LAYER_CID_NOT_SUPPORTED \<and> cid l \<noteq> 0 then Inr None else Inr (Some 1))"

definition decode_i_block ::
  "Iso14443_4Layer \<Rightarrow> BitBuffer \<Rightarrow> BitBuffer \<Rightarrow> fault + Iso14443_4LayerResult \<times> Iso14443_4Layer \<times> BitBuffer" where
  "decode_i_block l input_data block_data =
     bind_r (check_cid l input_data) (\<lambda>cid_ok. case cid_ok of None \<Rightarrow> Inr (result_skip, l, block_data)
     | Some prologue_len \<Rightarrow>
       if pcb l AND ISO14443_4_BLOCK_PCB_I_NAD_MASK \<noteq> 0 \<and> nad l = ISO14443_4_LAYER_NAD_NOT_SUPPORTED
       then Inr (result_skip, l, block_data)
       else bind_r (if pcb l AND ISO14443_4_BLOCK_PCB_I_NAD_MASK \<noteq> 0
            then bind_r (bit_buffer_get_byte input_data prologue_len) (\<lambda>n. Inr (l\<lparr>nad := n\<rparr>, prologue_len + 1))
            else Inr (l, prologue_len)) (\<lambda>(l1, prologue_len).
         if bit_buffer_get_size_bytes input_data \<le> prologue_len then Inr (result_skip, l1, block_data)
         else bind_r (bit_buffer_copy_right block_data input_data prologue_len) (\<lambda>block1.
           Inr (result_skip\<lparr>result_data := True\<rparr>, iso14443_4_layer_update_pcb False l1, block1))))"

definition decode_s_block ::
  "Iso14443_4Layer \<Rightarrow> BitBuffer \<Rightarrow> BitBuffer \<Rightarrow> fault + Iso14443_4LayerResult \<times> Iso14443_4Layer \<times> BitBuffer" where
  "decode_s_block l input_data block_data =
     bind_r (check_cid l input_data) (\<lambda>cid_ok. case cid_ok of None \<Rightarrow> Inr (result_skip, l, block_data)
     | Some prologue_len \<Rightarrow>
       if pcb l AND ISO14443_4_BLOCK_PCB_S_WTX_DESELECT_MASK = 0
       then bind_r (bit_buffer_copy block_data input_data) (\<lambda>block1.
         Inr (result_skip\<lparr>result_send := True, result_halt := True\<rparr>, l, block1))
       else Inr (result_skip, l, block_data))"

definition decode_r_block ::
  "Iso14443_4Layer \<Rightarrow> BitBuffer \<Rightarrow> fault + Iso14443_4LayerResult \<times> Iso14443_4Layer \<times> BitBuffer" where
  "decode_r_block l block_data =
     (let l1 = iso14443_4_layer_update_pcb True l; l2 = l1\<lparr>pcb := pcb l1 OR ISO14443_4_BLOCK_PCB_R_NACK_MASK\<rparr>
      in bind_r (bit_buffer_append_byte (bit_buffer_reset block_data) (pcb l2)) (\<lambda>block1.
           Inr (result_skip\<lparr>result_send := True\<rparr>, iso14443_4_layer_update_pcb False l2, block1)))"

definition decode_pps ::
  "Iso14443_4Layer \<Rightarrow> u8 \<Rightarrow> BitBuffer \<Rightarrow> BitBuffer \<Rightarrow> fault + Iso14443_4LayerResult \<times> Iso14443_4Layer \<times> BitBuffer" where
  "decode_pps l ppss input_data block_data =
     (if \<not> can_pps l then Inr (result_skip, l, block_data)
      else if cid l \<noteq> ISO14443_4_LAYER_CID_NOT_SUPPORTED \<and> ppss AND ISO14443_4_BLOCK_CID_MASK \<noteq> cid l
      then Inr (result_skip, l, block_data)
      else bind_r (bit_buffer_get_byte input_data 1) (\<lambda>pps0.
        bind_r (if pps0 AND ISO14443_4_BLOCK_PPS_0_HAS_PPS1 \<noteq> 0 then bit_buffer_get_byte input_data 2 else Inr 0) (\<lambda>_.
        bind_r (bit_buffer_append_byte (bit_buffer_reset block_data) ppss) (\<lambda>block1.
          Inr (result_skip\<lparr>result_send := True\<rparr>, l\<lparr>can_pps := False\<rparr>, block1)))))"

definition iso14443_4_layer_decode_command ::
  "Iso14443_4Layer \<Rightarrow> BitBuffer \<Rightarrow> BitBuffer \<Rightarrow> fault + Iso14443_4LayerResult \<times> Iso14443_4Layer \<times> BitBuffer" where
  "iso14443_4_layer_decode_command l input_data block_data =
     bind_r (bit_buffer_get_byte input_data 0) (\<lambda>first.
       if is_pps_start first then decode_pps l first input_data block_data
       else let l1 = l\<lparr>can_pps := False, pcb := first\<rparr>
         in if is_i_block first then decode_i_block l1 input_data block_data
            else if is_s_block first then decode_s_block l1 input_data block_data
            else if is_r_block first then decode_r_block l1 block_data
            else Inr (result_skip, l1, block_data))"

definition iso14443_4_layer_encode_response ::
  "Iso14443_4Layer \<Rightarrow> BitBuffer \<Rightarrow> BitBuffer \<Rightarrow> fault + bool \<times> Iso14443_4Layer \<times> BitBuffer" where
  "iso14443_4_layer_encode_response l input_data block_data =
     (if is_i_block (pcb_prev l)
      then bind_r (bit_buffer_append_byte block_data 0) (\<lambda>b1.
        bind_r (if pcb_prev l AND ISO14443_4_BLOCK_PCB_I_CID_MASK \<noteq> 0
             then bit_buffer_append_byte b1 (cid l) else Inr b1) (\<lambda>b2.
        bind_r (if pcb_prev l AND ISO14443_4_BLOCK_PCB_I_NAD_MASK \<noteq> 0 \<and> nad l \<noteq> ISO14443_4_LAYER_NAD_NOT_SET
             then bind_r (bit_buffer_append_byte b2 (nad l)) (\<lambda>b3. Inr (l\<lparr>nad := ISO14443_4_LAYER_NAD_NOT_SET\<rparr>, b3))
             else Inr (l\<lparr>pcb := pcb l AND NOT ISO14443_4_BLOCK_PCB_I_NAD_MASK\<rparr>, b2)) (\<lambda>(l1, b3).
        let l2 = l1\<lparr>pcb := pcb l1 AND NOT ISO14443_4_BLOCK_PCB_I_CHAIN_MASK\<rparr>
        in bind_r (bit_buffer_set_byte b3 0 (pcb l2)) (\<lambda>b4.
           bind_r (bit_buffer_append b4 input_data) (\<lambda>b5.
             Inr (True, iso14443_4_layer_update_pcb False l2, b5))))))
      else Inr (False, l, block_data))"

section \<open>Buffers as byte strings\<close>

text \<open>\<open>holds n buf bs\<close>: a buffer of \<open>n\<close> bytes holds the bytes \<open>bs\<close>; the NFC buffers have at most 512.\<close>

definition holds :: "nat \<Rightarrow> BitBuffer \<Rightarrow> u8 list \<Rightarrow> bool" where
  "holds n buf bs \<longleftrightarrow> bit_buffer_ok buf \<and> capacity_bytes buf = n \<and> n \<le> 512 \<and> size_bits buf = 8 * length bs \<and>
     take (length bs) (bb_data buf) = bs"

lemma holds_size [simp]: "holds n buf bs \<Longrightarrow> bit_buffer_get_size_bytes buf = length bs"
  by (simp add: holds_def bit_buffer_get_size_bytes_def)

lemma holds_ok: "holds n buf bs \<Longrightarrow> bit_buffer_ok buf" "holds n buf bs \<Longrightarrow> capacity_bytes buf = n"
  "holds n buf bs \<Longrightarrow> length (bb_data buf) = n" "holds n buf bs \<Longrightarrow> length bs \<le> n"
  by (auto simp: holds_def bit_buffer_ok_def)

lemma holds_nth: "holds n buf bs \<Longrightarrow> i < length bs \<Longrightarrow> bb_data buf ! i = bs ! i"
  by (metis holds_def nth_take)

lemma holds_reset: "bit_buffer_ok buf \<Longrightarrow> capacity_bytes buf = n \<Longrightarrow> n \<le> 512 \<Longrightarrow> holds n (bit_buffer_reset buf) []"
  by (simp add: holds_def bit_buffer_reset_def bit_buffer_ok_def)

lemma holds_append_byte:
  assumes "holds n buf bs" and "length bs < n"
  shows "\<exists>buf'. bit_buffer_append_byte buf v = Inr buf' \<and> holds n buf' (bs @ [v])"
proof -
  have size: "bit_buffer_get_size_bytes buf = length bs" using assms(1) by simp
  have "take (Suc (length bs)) ((bb_data buf)[length bs := v]) = bs @ [v]"
    using assms holds_ok(3) [OF assms(1)] by (simp add: take_Suc_conv_app_nth holds_def)
  then show ?thesis
    using assms holds_ok [OF assms(1)] by (simp add: bit_buffer_append_byte_def Let_def size holds_def bit_buffer_ok_def)
qed

lemma holds_append:
  assumes "holds n buf bs" and "holds m other cs" and "length bs + length cs \<le> n"
  shows "\<exists>buf'. bit_buffer_append buf other = Inr buf' \<and> holds n buf' (bs @ cs)"
proof -
  have size: "bit_buffer_get_size_bytes buf = length bs" "bit_buffer_get_size_bytes other = length cs"
    using assms by simp_all
  have copy: "memcpy (bb_data buf) (length bs) (bb_data other) 0 (length cs) =
      Inr (bs @ cs @ drop (length bs + length cs) (bb_data buf))"
    using assms holds_ok(3) [OF assms(1)] holds_ok(3,4) [OF assms(2)] by (simp add: memcpy_Inr holds_def)
  have "(8 * length bs + (8 * length cs + 4294967296)) mod 4294967296 = 8 * length bs + 8 * length cs"
    using assms(3) conjunct1 [OF conjunct2 [OF conjunct2 [OF assms(1) [unfolded holds_def]]]]
      mod_add_self2 [of "8 * length bs + 8 * length cs" 4294967296] by (simp add: add.assoc)
  then show ?thesis
    using assms holds_ok [OF assms(1)] holds_ok [OF assms(2)]
    by (simp add: bit_buffer_append_def bit_buffer_append_right_def Let_def size copy holds_def bit_buffer_ok_def)
qed

lemma holds_copy_right:
  assumes "bit_buffer_ok buf" and "capacity_bytes buf = n" and "n \<le> 512" and "holds m other bs" and "i < length bs" and "length bs - i \<le> n"
  shows "\<exists>buf'. bit_buffer_copy_right buf other i = Inr buf' \<and> holds n buf' (drop i bs)"
proof -
  have size: "bit_buffer_get_size_bytes other = length bs" using assms by simp
  have "take (length bs - i) (drop i (bb_data other)) = drop i bs"
    using assms(4) by (simp add: holds_def flip: drop_take)
  moreover have "8 * length bs - i * 8 = 8 * (length bs - i)" by (simp add: diff_mult_distrib2)
  ultimately show ?thesis
    using assms holds_ok [OF assms(4)]
    by (simp add: bit_buffer_copy_right_def Let_def size memcpy_Inr holds_def bit_buffer_ok_def)
qed

lemma holds_copy:
  assumes "bit_buffer_ok buf" and "capacity_bytes buf = n" and "n \<le> 512" and "holds m other bs" and "length bs \<le> n"
  shows "\<exists>buf'. bit_buffer_copy buf other = Inr buf' \<and> holds n buf' bs"
proof -
  have size: "bit_buffer_get_size_bytes other = length bs" using assms by simp
  show ?thesis
    using assms holds_ok [OF assms(4)]
    by (simp add: bit_buffer_copy_def size memcpy_Inr holds_def bit_buffer_ok_def)
qed

lemma holds_get_byte: "holds n buf bs \<Longrightarrow> i < length bs \<Longrightarrow> bit_buffer_get_byte buf i = Inr (bs ! i)"
  using holds_ok [of n buf bs] by (simp add: bit_buffer_get_byte_def holds_nth)

lemma holds_starts_with: "holds n buf bs \<Longrightarrow> bit_buffer_starts_with_byte buf v = Inr (bs \<noteq> [] \<and> hd bs = v)"
  using holds_ok [of n buf bs] holds_nth [of n buf bs 0] by (cases bs) (auto simp: bit_buffer_starts_with_byte_def rd_def)

lemma holds_set_byte:
  assumes "holds n buf bs" and "i < length bs"
  shows "\<exists>buf'. bit_buffer_set_byte buf i v = Inr buf' \<and> holds n buf' (bs[i := v])"
proof -
  have size: "bit_buffer_get_size_bytes buf = length bs" using assms by simp
  have "take (length bs) ((bb_data buf)[i := v]) = bs[i := v]"
    using assms by (simp add: holds_def take_update_swap)
  then show ?thesis
    using assms holds_ok [OF assms(1)] by (simp add: bit_buffer_set_byte_def size holds_def bit_buffer_ok_def)
qed

lemma holds_crc_append:
  assumes "holds n buf bs" and "length bs + 2 \<le> n"
  shows "\<exists>buf' crc. iso14443_crc_append type buf = Inr buf' \<and> length crc = 2 \<and> holds n buf' (bs @ crc) \<and>
    iso14443_crc_check type buf' = Inr (bs \<noteq> [])"
proof -
  have b: "bit_buffer_ok buf" "size_bits buf = 8 * length bs" "length bs + 2 \<le> capacity_bytes buf"
    using assms by (auto simp: holds_def)
  obtain buf' where b': "iso14443_crc_append type buf = Inr buf'" "bit_buffer_ok buf'" "size_bits buf' = 8 * (length bs + 2)"
    "capacity_bytes buf' = capacity_bytes buf" and crc: "\<exists>crc. length crc = 2 \<and> take (length bs + 2) (bb_data buf') = bs @ crc"
    using iso14443.append_frame [OF b] assms(1) by (fastforce simp: iso14443_crc_append_def holds_def)
  then obtain crc where "length crc = 2" "holds n buf' (bs @ crc)" using assms by (auto simp: holds_def)
  moreover have "iso14443_crc_check type buf' = Inr (bs \<noteq> [])"
  proof (cases "bs = []")
    case True
    then have "bit_buffer_get_size_bytes buf' = 2" using b'(3) by (simp add: bit_buffer_get_size_bytes_def)
    then show ?thesis using True by (simp add: iso14443_crc_check_def crc_check_def)
  next
    case False
    then show ?thesis
      using iso14443.append_check [OF b(1,2) _ b(3), of type] b'(1)
      by (auto simp: iso14443_crc_append_def iso14443_crc_check_def)
  qed
  ultimately show ?thesis using b'(1) by blast
qed

lemma holds_trim:
  assumes "holds n buf (bs @ crc)" and "length crc = 2" and "bs \<noteq> []"
  shows "\<exists>buf'. iso14443_crc_trim buf = Inr buf' \<and> holds n buf' bs"
proof -
  have size: "bit_buffer_get_size_bytes buf = length bs + 2" using assms by simp
  have "take (length bs) (bb_data buf) = bs"
    using assms(1) unfolding holds_def by (metis append_eq_conv_conj length_append take_take min.absorb1 le_add1)
  then show ?thesis
    using assms holds_ok [OF assms(1)]
    by (simp add: iso14443_crc_trim_def size bit_buffer_set_size_bytes_def holds_def bit_buffer_ok_def)
qed

section \<open>No received block stops the listener\<close>

text \<open>A result with an intact output buffer, which is not empty when it holds n data for the application.\<close>

definition survived :: "nat \<Rightarrow> fault + Iso14443_4LayerResult \<times> Iso14443_4Layer \<times> BitBuffer \<Rightarrow> bool" where
  "survived capacity r \<longleftrightarrow> (\<exists>res l out. r = Inr (res, l, out) \<and> bit_buffer_ok out \<and> capacity_bytes out = capacity \<and>
     (result_data res \<longrightarrow> 0 < size_bits out))"

lemma survived_Inr [simp]: "survived n (Inr (res, l, out)) \<longleftrightarrow>
    bit_buffer_ok out \<and> capacity_bytes out = n \<and> (result_data res \<longrightarrow> 0 < size_bits out)"
  by (simp add: survived_def)

lemma skip_simps [simp]: "\<not> result_data result_skip" "\<not> result_send result_skip" "\<not> result_halt result_skip"
  by (simp_all add: result_skip_def)

lemma get_byte_Inr: "bit_buffer_ok buf \<Longrightarrow> i < capacity_bytes buf \<Longrightarrow> \<exists>v. bit_buffer_get_byte buf i = Inr v"
  by (simp add: bit_buffer_get_byte_def bit_buffer_ok_def)

lemma copy_right_survives:
  assumes "bit_buffer_ok buf" and "bit_buffer_ok other" and "capacity_bytes other \<le> capacity_bytes buf"
    and "i < bit_buffer_get_size_bytes other"
  shows "\<exists>buf'. bit_buffer_copy_right buf other i = Inr buf' \<and> bit_buffer_ok buf' \<and> capacity_bytes buf' = capacity_bytes buf \<and>
    0 < size_bits buf'"
proof -
  note size = size_bytes_le [OF assms(2)]
  have "0 < size_bits other - i * 8" using size(3) assms(4) by linarith
  moreover have "size_bits other - i * 8 \<le> 8 * capacity_bytes buf" using size assms(3) by linarith
  moreover have "bit_buffer_get_size_bytes other - i \<le> capacity_bytes buf" using size assms(3) by linarith
  ultimately show ?thesis
    using assms size by (simp add: bit_buffer_copy_right_def Let_def memcpy_Inr bit_buffer_ok_def)
qed

lemma reset_append_byte:
  assumes "bit_buffer_ok buf"
  shows "\<exists>buf'. bit_buffer_append_byte (bit_buffer_reset buf) v = Inr buf' \<and> bit_buffer_ok buf' \<and>
    capacity_bytes buf' = capacity_bytes buf"
  using assms by (auto simp: bit_buffer_append_byte_def bit_buffer_reset_def bit_buffer_get_size_bytes_def bit_buffer_ok_def Let_def)

lemma check_cid_total:
  assumes "bit_buffer_ok buf" and "3 \<le> capacity_bytes buf"
  shows "\<exists>r. check_cid l buf = Inr r \<and> r \<in> {None, Some 1, Some 2}"
  using get_byte_Inr [OF assms(1), of 1] assms(2) by (auto simp: check_cid_def)

lemma decode_i_block_survives:
  assumes "bit_buffer_ok inp" and "3 \<le> capacity_bytes inp" and "bit_buffer_ok out" and "capacity_bytes inp \<le> capacity_bytes out"
  shows "survived (capacity_bytes out) (decode_i_block l inp out)"
proof -
  obtain r where r: "check_cid l inp = Inr r" "r \<in> {None, Some 1, Some 2}" using check_cid_total [OF assms(1,2)] by blast
  have cp: "survived (capacity_bytes out) (if bit_buffer_get_size_bytes inp \<le> k then Inr (result_skip, l1, out)
      else bind_r (bit_buffer_copy_right out inp k) (\<lambda>block1.
        Inr (result_skip\<lparr>result_data := True\<rparr>, iso14443_4_layer_update_pcb False l1, block1)))" for k l1
    using copy_right_survives [OF assms(3,1,4), of k] assms(3) by auto
  obtain v w where "bit_buffer_get_byte inp 1 = Inr v" "bit_buffer_get_byte inp 2 = Inr w"
    using get_byte_Inr [OF assms(1), of 1] get_byte_Inr [OF assms(1), of 2] assms(2) by auto
  then show ?thesis
    using r assms(3) by (auto simp: decode_i_block_def cp)
qed

text \<open>C17 Whatever a reader sends, the block layer of the listener does not crash the device: every block of any
  length and content is answered, skipped or handed on, the output buffer stays intact, and data that
  is handed on is not empty.\<close>

theorem listener_survives_any_block:
  assumes "bit_buffer_ok inp" and "3 \<le> capacity_bytes inp" and "bit_buffer_ok out" and "capacity_bytes inp \<le> capacity_bytes out"
  shows "\<exists>res l' out'. iso14443_4_layer_decode_command l inp out = Inr (res, l', out') \<and>
    bit_buffer_ok out' \<and> capacity_bytes out' = capacity_bytes out \<and> (result_data res \<longrightarrow> 0 < size_bits out')"
proof -
  obtain first b1 b2 where bytes: "bit_buffer_get_byte inp 0 = Inr first" "bit_buffer_get_byte inp 1 = Inr b1"
    "bit_buffer_get_byte inp 2 = Inr b2"
    using get_byte_Inr [OF assms(1), of 0] get_byte_Inr [OF assms(1), of 1] get_byte_Inr [OF assms(1), of 2] assms(2) by auto
  have "survived (capacity_bytes out) (decode_pps l first inp out)"
    using reset_append_byte [OF assms(3), of first] assms(3) by (auto simp: decode_pps_def bytes bytes [simplified])
  moreover have "survived (capacity_bytes out) (decode_s_block l1 inp out)" for l1
  proof -
    have "size_bits inp \<le> 8 * capacity_bytes out" using assms(1,4) by (simp add: bit_buffer_ok_def)
    then have "\<exists>b. bit_buffer_copy out inp = Inr b \<and> bit_buffer_ok b \<and> capacity_bytes b = capacity_bytes out"
      using assms size_bytes_le [OF assms(1)] by (simp add: bit_buffer_copy_def memcpy_Inr bit_buffer_ok_def mult.commute)
    then show ?thesis
      using check_cid_total [OF assms(1,2), of l1] assms(3) by (auto simp: decode_s_block_def)
  qed
  moreover have "survived (capacity_bytes out) (decode_r_block l1 out)" for l1
    using reset_append_byte [OF assms(3),
        of "pcb (iso14443_4_layer_update_pcb True l1) OR ISO14443_4_BLOCK_PCB_R_NACK_MASK"]
    by (auto simp: decode_r_block_def Let_def)
  ultimately have "survived (capacity_bytes out) (iso14443_4_layer_decode_command l inp out)"
    using decode_i_block_survives [OF assms] assms(3)
    by (simp add: iso14443_4_layer_decode_command_def bytes Let_def)
  then show ?thesis by (simp add: survived_def)
qed

theorem listener_survives_any_block_witness:
  "\<exists>res l' out'. iso14443_4_layer_decode_command iso14443_4_layer_alloc
      \<lparr>bb_data = [0x02, 0, 0], bb_parity = [0], capacity_bytes = 3, size_bits = 8\<rparr>
      \<lparr>bb_data = [0, 0, 0], bb_parity = [0], capacity_bytes = 3, size_bits = 0\<rparr> = Inr (res, l', out') \<and>
    bit_buffer_ok out' \<and> capacity_bytes out' = 3 \<and> (result_data res \<longrightarrow> 0 < size_bits out')"
  using listener_survives_any_block [of "\<lparr>bb_data = [0x02, 0, 0], bb_parity = [0], capacity_bytes = 3, size_bits = 8\<rparr>"
      "\<lparr>bb_data = [0, 0, 0], bb_parity = [0], capacity_bytes = 3, size_bits = 0\<rparr>" iso14443_4_layer_alloc]
  by (simp add: bit_buffer_ok_def parity_buf_size_def)

text \<open>The poller is not as careful: an information block without data, which a card can send, crashes it
  in \<^verbatim>\<open>iso14443_4_layer_decode_response_pwt_ext\<close>.\<close>

lemma empty_block_crashes_pwt_ext:
  assumes "bit_buffer_ok out" and "holds m inp [pcb_prev l]"
    and "pcb_prev l AND ISO14443_4_BLOCK_PCB_TYPE_MASK = 0"
  shows "iso14443_4_layer_decode_response_pwt_ext l out inp = Inl FuriCheck"
  using assms holds_get_byte [OF assms(2), of 0] holds_size [OF assms(2)]
  by (simp add: iso14443_4_layer_decode_response_pwt_ext_def ISO14443_4_BLOCK_PCB_TYPE_I_def bit_buffer_copy_right_def Let_def)

section \<open>Plain information blocks\<close>

text \<open>Information blocks without chaining and addresses, as the poller sends them: the two block numbers.\<close>

definition plain_pcb :: "u8 \<Rightarrow> bool" where
  "plain_pcb p \<longleftrightarrow> p = 2 \<or> p = 3"

lemma plain_pcb_kinds:
  assumes "plain_pcb p"
  shows "is_i_block p" "\<not> is_r_block p" "\<not> is_s_block p" "\<not> is_chain_active p" "\<not> is_pps_start p" "plain_pcb (p XOR 1)"
    "p AND ISO14443_4_BLOCK_PCB_I_CID_MASK = 0" "p AND ISO14443_4_BLOCK_PCB_I_NAD_MASK = 0"
    "p AND NOT ISO14443_4_BLOCK_PCB_I_NAD_MASK = p" "p AND NOT ISO14443_4_BLOCK_PCB_I_CHAIN_MASK = p"
  using assms by (auto simp: plain_pcb_def is_i_block_def is_r_block_def is_s_block_def is_chain_active_def is_pps_start_def
      bits_active_def firmware_const)

lemma encode_command_plain:
  assumes "holds n block []" and "holds m inp bs" and "length bs < n"
  shows "\<exists>b. iso14443_4_layer_encode_command l inp block = Inr (iso14443_4_layer_update_pcb True l, b) \<and> holds n b (pcb l # bs)"
proof -
  obtain b1 where "bit_buffer_append_byte block (pcb l) = Inr b1" "holds n b1 [pcb l]"
    using holds_append_byte [OF assms(1), of "pcb l"] assms(3) by auto
  then show ?thesis
    using holds_append [of n b1 "[pcb l]" m inp bs] assms by (auto simp: iso14443_4_layer_encode_command_def)
qed

lemma decode_command_plain:
  assumes "plain_pcb p" and "holds m inp (p # bs)" and "bs \<noteq> []" and "bit_buffer_ok out" and "capacity_bytes out = n" and "n \<le> 512" and "length bs \<le> n"
    and "cid l = ISO14443_4_LAYER_CID_NOT_SUPPORTED \<or> cid l = 0"
  shows "\<exists>out'. iso14443_4_layer_decode_command l inp out =
      Inr (result_skip\<lparr>result_data := True\<rparr>, l\<lparr>can_pps := False, pcb := p, pcb_prev := p\<rparr>, out') \<and> holds n out' bs"
proof -
  have first: "bit_buffer_get_byte inp 0 = Inr p" using holds_get_byte [OF assms(2), of 0] by simp
  obtain out' where "bit_buffer_copy_right out inp 1 = Inr out'" "holds n out' bs"
    using holds_copy_right [OF assms(4,5,6,2), of 1] assms(3,7) by auto
  moreover have "bit_buffer_get_size_bytes inp = Suc (length bs)" using holds_size [OF assms(2)] by simp
  ultimately show ?thesis
    using assms(3,8) plain_pcb_kinds [OF assms(1)]
    by (auto simp: iso14443_4_layer_decode_command_def first Let_def decode_i_block_def check_cid_def
        iso14443_4_layer_update_pcb_def)
qed

lemma encode_response_plain:
  assumes "plain_pcb (pcb l)" and "pcb_prev l = pcb l" and "holds n block []" and "holds m inp bs" and "length bs < n"
  shows "\<exists>b. iso14443_4_layer_encode_response l inp block = Inr (True, l, b) \<and> holds n b (pcb l # bs)"
proof -
  obtain b1 where b1: "bit_buffer_append_byte block 0 = Inr b1" "holds n b1 [0]"
    using holds_append_byte [OF assms(3), of 0] assms(5) by auto
  obtain b2 where b2: "bit_buffer_set_byte b1 0 (pcb l) = Inr b2" "holds n b2 [pcb l]"
    using holds_set_byte [OF b1(2), of 0 "pcb l"] by auto
  obtain b3 where "bit_buffer_append b2 inp = Inr b3" "holds n b3 (pcb l # bs)"
    using holds_append [OF b2(2) assms(4)] assms(5) by auto
  moreover have "l\<lparr>pcb := pcb l, pcb_prev := pcb l\<rparr> = l" using assms(2) by simp
  ultimately show ?thesis
    using assms(2) plain_pcb_kinds [OF assms(1)] b1(1) b2(1)
    by (simp add: iso14443_4_layer_encode_response_def Let_def iso14443_4_layer_update_pcb_def)
qed

lemma decode_response_plain:
  assumes "plain_pcb (pcb_prev l)" and "holds m inp (pcb_prev l # bs)" and "bs \<noteq> []" and "bit_buffer_ok out" and "capacity_bytes out = n" and "n \<le> 512" and "length bs \<le> n"
  shows "\<exists>out'. iso14443_4_layer_decode_response l out inp = Inr (True, l, out') \<and> holds n out' bs"
proof -
  obtain out' where "bit_buffer_copy_right out inp 1 = Inr out'" "holds n out' bs"
    using holds_copy_right [OF assms(4,5,6,2), of 1] assms(3,7) by auto
  moreover have "bit_buffer_get_size_bytes inp > 1" using holds_size [OF assms(2)] assms(3) by simp
  ultimately show ?thesis
    using plain_pcb_kinds [OF assms(1)] holds_starts_with [OF assms(2), of "pcb_prev l"]
    by (simp add: iso14443_4_layer_decode_response_def)
qed

end
