(* ===== verification/Iso14443_3a.thy ===== *)
theory Iso14443_3a
  imports Iso14443_4_Layer
begin

text \<open>
  The poller of ISO 14443-3A, \<^verbatim>\<open>lib/nfc/protocols/iso14443_3a\<close>, with its collision
  resolution (\<^verbatim>\<open>iso14443_3a_poller_activate\<close>), frames closed with checksum A, and halting. The radio
  (\<^verbatim>\<open>nfc_poller_trx\<close> and its variants) drives hardware: it is a record of functions on a state \<open>'w\<close> of the
  world, and what the poller relies on is the locale \<open>nfc_radio\<close>. The listener is in \<open>Iso14443_4a\<close>.
\<close>

unbundle bit_operations_syntax

section \<open>Errors, events and the radio\<close>

datatype NfcError =
  NfcErrorNone | NfcErrorInternal | NfcErrorTimeout | NfcErrorIncompleteFrame | NfcErrorDataFormat

datatype NfcIso14443aShortFrame = NfcIso14443aShortFrameSensReq | NfcIso14443aShortFrameAllReqa

datatype NfcCommand = NfcCommandContinue | NfcCommandReset | NfcCommandStop | NfcCommandSleep

datatype NfcEventType =
    NfcEventTypeUserAbort | NfcEventTypeFieldOn | NfcEventTypeFieldOff | NfcEventTypeTxStart | NfcEventTypeTxEnd
  | NfcEventTypeRxStart | NfcEventTypeRxEnd | NfcEventTypeListenerActivated | NfcEventTypePollerReady

datatype Iso14443_3aError =
    Iso14443_3aErrorNone
  | Iso14443_3aErrorNotPresent
  | Iso14443_3aErrorColResFailed
  | Iso14443_3aErrorBufferOverflow
  | Iso14443_3aErrorCommunication
  | Iso14443_3aErrorFieldOff
  | Iso14443_3aErrorWrongCrc
  | Iso14443_3aErrorTimeout

record 'w Nfc =
  nfc_poller_trx :: "BitBuffer \<Rightarrow> BitBuffer \<Rightarrow> u32 \<Rightarrow> 'w \<Rightarrow> fault + NfcError \<times> BitBuffer \<times> 'w"
  nfc_iso14443a_poller_trx_short_frame ::
    "NfcIso14443aShortFrame \<Rightarrow> BitBuffer \<Rightarrow> u32 \<Rightarrow> 'w \<Rightarrow> fault + NfcError \<times> BitBuffer \<times> 'w"
  nfc_iso14443a_poller_trx_sdd_frame ::
    "BitBuffer \<Rightarrow> BitBuffer \<Rightarrow> u32 \<Rightarrow> 'w \<Rightarrow> fault + NfcError \<times> BitBuffer \<times> 'w"

definition ISO14443_3A_FDT_LISTEN_FC :: u32 where "ISO14443_3A_FDT_LISTEN_FC = 1172"

section \<open>The poller\<close>

text \<open>The identifier is an array of ten bytes.\<close>

record Iso14443_3aData =
  uid :: "u8 list"
  uid_len :: nat
  atqa :: "u8 list"
  sak :: u8

datatype Iso14443_3aPollerColResState =
    Iso14443_3aPollerColResStateStateIdle
  | Iso14443_3aPollerColResStateStateNewCascade
  | Iso14443_3aPollerColResStateStateSelectCascade
  | Iso14443_3aPollerColResStateStateSuccess
  | Iso14443_3aPollerColResStateStateFail

datatype Iso14443_3aPollerState =
    Iso14443_3aPollerStateIdle
  | Iso14443_3aPollerStateColResInProgress
  | Iso14443_3aPollerStateColResFailed
  | Iso14443_3aPollerStateActivated

text \<open>The response to the anticollision request and the selection are the bytes of their structures:
  four bytes of identifier and the check byte, behind command and parameter in the selection.\<close>

record Iso14443_3aPollerColRes =
  col_res_state :: Iso14443_3aPollerColResState
  sens_resp :: "u8 list"
  sdd_resp :: "u8 list"
  sel_req :: "u8 list"
  sel_resp :: u8
  cascade_level :: nat

record Iso14443_3aPoller =
  poller_3a_state :: Iso14443_3aPollerState
  col_res :: Iso14443_3aPollerColRes
  poller_3a_data :: Iso14443_3aData
  poller_3a_tx :: BitBuffer
  poller_3a_rx :: BitBuffer

definition empty_col_res :: Iso14443_3aPollerColRes where
  "empty_col_res = \<lparr>col_res_state = Iso14443_3aPollerColResStateStateIdle, sens_resp = [0, 0],
     sdd_resp = replicate 5 0, sel_req = replicate 7 0, sel_resp = 0, cascade_level = 0\<rparr>"

definition empty_3a_data :: Iso14443_3aData where
  "empty_3a_data = \<lparr>uid = replicate 10 0, uid_len = 0, atqa = [0, 0], sak = 0\<rparr>"

definition ISO14443_3A_POLLER_SEL_CMD :: "nat \<Rightarrow> u8" where
  "ISO14443_3A_POLLER_SEL_CMD cascade_lvl = 0x93 + 2 * of_nat cascade_lvl"

definition ISO14443_3A_POLLER_SEL_PAR :: "u8 \<Rightarrow> u8 \<Rightarrow> u8" where
  "ISO14443_3A_POLLER_SEL_PAR bytes bits = (push_bit 4 bytes AND 0xF0) OR (bits AND 0x0F)"

definition ISO14443_3A_POLLER_SAK_CASCADE_BIT :: u8 where "ISO14443_3A_POLLER_SAK_CASCADE_BIT = 0x04"

definition iso14443_3a_poller_alloc :: "fault + Iso14443_3aPoller" where
  "iso14443_3a_poller_alloc =
     bind_r (bit_buffer_alloc 512) (\<lambda>tx. bind_r (bit_buffer_alloc 512) (\<lambda>rx.
       Inr \<lparr>poller_3a_state = Iso14443_3aPollerStateIdle, col_res = empty_col_res, poller_3a_data = empty_3a_data,
            poller_3a_tx = tx, poller_3a_rx = rx\<rparr>))"

definition iso14443_3a_poller_process_error :: "NfcError \<Rightarrow> Iso14443_3aError" where
  "iso14443_3a_poller_process_error error =
     (if error = NfcErrorNone then Iso14443_3aErrorNone
      else if error = NfcErrorTimeout then Iso14443_3aErrorTimeout
      else Iso14443_3aErrorNotPresent)"

text \<open>The exchange of a frame, after it has been copied to the transmit buffer of the poller.\<close>

definition exchange_frame ::
  "'w Nfc \<Rightarrow> Iso14443_3aPoller \<Rightarrow> u32 \<Rightarrow> 'w \<Rightarrow> fault + NfcError \<times> Iso14443_3aPoller \<times> 'w" where
  "exchange_frame nfc p fwt w =
     bind_r (iso14443_crc_append Iso14443CrcTypeA (poller_3a_tx p)) (\<lambda>tx.
     bind_r (nfc_poller_trx nfc tx (poller_3a_rx p) fwt w) (\<lambda>(error, rx, w').
       Inr (error, p\<lparr>poller_3a_tx := tx, poller_3a_rx := rx\<rparr>, w')))"

definition iso14443_3a_poller_standard_frame_exchange ::
  "'w Nfc \<Rightarrow> Iso14443_3aPoller \<Rightarrow> BitBuffer \<Rightarrow> BitBuffer \<Rightarrow> u32 \<Rightarrow> 'w \<Rightarrow>
   fault + Iso14443_3aError \<times> Iso14443_3aPoller \<times> BitBuffer \<times> 'w" where
  "iso14443_3a_poller_standard_frame_exchange nfc p tx_buffer rx_buffer fwt w =
     bind_r (bit_buffer_copy (poller_3a_tx p) tx_buffer) (\<lambda>tx.
       bind_r (exchange_frame nfc (p\<lparr>poller_3a_tx := tx\<rparr>) fwt w) (\<lambda>(error, p1, w1).
         if error \<noteq> NfcErrorNone then Inr (iso14443_3a_poller_process_error error, p1, rx_buffer, w1)
         else if capacity_bytes rx_buffer < bit_buffer_get_size_bytes (poller_3a_rx p1)
         then Inr (Iso14443_3aErrorBufferOverflow, p1, rx_buffer, w1)
         else bind_r (bit_buffer_copy rx_buffer (poller_3a_rx p1)) (\<lambda>rx1.
           bind_r (iso14443_crc_check Iso14443CrcTypeA (poller_3a_rx p1)) (\<lambda>crc_ok.
           if \<not> crc_ok then Inr (Iso14443_3aErrorWrongCrc, p1, rx1, w1)
           else bind_r (iso14443_crc_trim rx1) (\<lambda>rx2. Inr (Iso14443_3aErrorNone, p1, rx2, w1))))))"

text \<open>The same function when it is called with the buffers of the poller itself: the two copies are
  those of a buffer onto itself and do nothing.\<close>

definition exchange_own_buffers ::
  "'w Nfc \<Rightarrow> Iso14443_3aPoller \<Rightarrow> u32 \<Rightarrow> 'w \<Rightarrow> fault + Iso14443_3aError \<times> Iso14443_3aPoller \<times> 'w" where
  "exchange_own_buffers nfc p fwt w =
     bind_r (exchange_frame nfc p fwt w) (\<lambda>(error, p1, w1).
         if error \<noteq> NfcErrorNone then Inr (iso14443_3a_poller_process_error error, p1, w1)
         else if capacity_bytes (poller_3a_rx p1) < bit_buffer_get_size_bytes (poller_3a_rx p1)
         then Inr (Iso14443_3aErrorBufferOverflow, p1, w1)
         else bind_r (iso14443_crc_check Iso14443CrcTypeA (poller_3a_rx p1)) (\<lambda>crc_ok.
           if \<not> crc_ok then Inr (Iso14443_3aErrorWrongCrc, p1, w1)
           else bind_r (iso14443_crc_trim (poller_3a_rx p1)) (\<lambda>rx2.
             Inr (Iso14443_3aErrorNone, p1\<lparr>poller_3a_rx := rx2\<rparr>, w1))))"

definition iso14443_3a_poller_check_presence ::
  "'w Nfc \<Rightarrow> Iso14443_3aPoller \<Rightarrow> 'w \<Rightarrow> fault + Iso14443_3aError \<times> Iso14443_3aPoller \<times> 'w" where
  "iso14443_3a_poller_check_presence nfc p w =
     bind_r (nfc_iso14443a_poller_trx_short_frame nfc NfcIso14443aShortFrameSensReq (poller_3a_rx p)
         ISO14443_3A_FDT_LISTEN_FC w) (\<lambda>(error, rx, w1).
       Inr (if error \<noteq> NfcErrorNone then iso14443_3a_poller_process_error error
            else if bit_buffer_get_size_bytes rx \<noteq> 2 then Iso14443_3aErrorCommunication
            else Iso14443_3aErrorNone, p\<lparr>poller_3a_rx := rx\<rparr>, w1))"

definition iso14443_3a_poller_halt ::
  "'w Nfc \<Rightarrow> Iso14443_3aPoller \<Rightarrow> 'w \<Rightarrow> fault + Iso14443_3aError \<times> Iso14443_3aPoller \<times> 'w" where
  "iso14443_3a_poller_halt nfc p w =
     bind_r (bit_buffer_copy_bytes (poller_3a_tx p) [0x50, 0x00] 2) (\<lambda>tx.
     bind_r (exchange_own_buffers nfc (p\<lparr>poller_3a_tx := tx\<rparr>) ISO14443_3A_FDT_LISTEN_FC w) (\<lambda>(_, p1, w1).
       Inr (Iso14443_3aErrorNone, p1\<lparr>poller_3a_state := Iso14443_3aPollerStateIdle\<rparr>, w1)))"

definition iso14443_3a_poller_txrx ::
  "'w Nfc \<Rightarrow> BitBuffer \<Rightarrow> BitBuffer \<Rightarrow> u32 \<Rightarrow> 'w \<Rightarrow> fault + Iso14443_3aError \<times> BitBuffer \<times> 'w" where
  "iso14443_3a_poller_txrx nfc tx_buffer rx_buffer fwt w =
     bind_r (nfc_poller_trx nfc tx_buffer rx_buffer fwt w) (\<lambda>(error, rx, w1).
       Inr (if error \<noteq> NfcErrorNone then iso14443_3a_poller_process_error error else Iso14443_3aErrorNone, rx, w1))"

definition iso14443_3a_poller_send_standard_frame ::
  "'w Nfc \<Rightarrow> Iso14443_3aPoller \<Rightarrow> BitBuffer \<Rightarrow> BitBuffer \<Rightarrow> u32 \<Rightarrow> 'w \<Rightarrow>
   fault + Iso14443_3aError \<times> Iso14443_3aPoller \<times> BitBuffer \<times> 'w" where
  "iso14443_3a_poller_send_standard_frame nfc p tx_buffer rx_buffer fwt w =
     iso14443_3a_poller_standard_frame_exchange nfc p tx_buffer rx_buffer fwt w"

section \<open>Collision resolution\<close>

text \<open>Leaving the loop with an error.\<close>

definition col_res_failed ::
  "Iso14443_3aPoller \<Rightarrow> 'w \<Rightarrow> fault + Iso14443_3aError \<times> Iso14443_3aPoller \<times> 'w" where
  "col_res_failed p w =
     Inr (Iso14443_3aErrorColResFailed, p\<lparr>poller_3a_state := Iso14443_3aPollerStateColResFailed\<rparr>, w)"

definition new_cascade ::
  "'w Nfc \<Rightarrow> Iso14443_3aError \<Rightarrow> Iso14443_3aPoller \<Rightarrow> 'w \<Rightarrow> fault + Iso14443_3aError \<times> Iso14443_3aPoller \<times> 'w" where
  "new_cascade nfc ret p w =
     bind_r (bit_buffer_set_size_bytes (poller_3a_tx p) 2) (\<lambda>tx1.
     bind_r (bit_buffer_set_byte tx1 0 (ISO14443_3A_POLLER_SEL_CMD (cascade_level (col_res p)))) (\<lambda>tx2.
     bind_r (bit_buffer_set_byte tx2 1 (ISO14443_3A_POLLER_SEL_PAR 2 0)) (\<lambda>tx3.
     bind_r (nfc_iso14443a_poller_trx_sdd_frame nfc tx3 (poller_3a_rx p) ISO14443_3A_FDT_LISTEN_FC w) (\<lambda>(error, rx, w1).
       let p1 = p\<lparr>poller_3a_tx := tx3, poller_3a_rx := rx\<rparr>
       in if error \<noteq> NfcErrorNone then col_res_failed p1 w1
          else if bit_buffer_get_size_bytes rx \<noteq> 5 then col_res_failed p1 w1
          else bind_r (bit_buffer_write_bytes rx (sdd_resp (col_res p1)) 5) (\<lambda>resp.
            Inr (ret, p1\<lparr>col_res := (col_res p1)\<lparr>sdd_resp := resp,
              col_res_state := Iso14443_3aPollerColResStateStateSelectCascade\<rparr>\<rparr>, w1))))))"

text \<open>The answer to a selection says whether the identifier is complete.\<close>

definition sak_received ::
  "Iso14443_3aError \<Rightarrow> Iso14443_3aPoller \<Rightarrow> 'w \<Rightarrow> fault + Iso14443_3aError \<times> Iso14443_3aPoller \<times> 'w" where
  "sak_received ret p w =
     bind_r (bit_buffer_write_bytes (poller_3a_rx p) [sel_resp (col_res p)] 1) (\<lambda>resp.
       let p1 = p\<lparr>col_res := (col_res p)\<lparr>sel_resp := resp ! 0\<rparr>\<rparr>; d = poller_3a_data p1; req = sel_req (col_res p1)
       in if resp ! 0 AND ISO14443_3A_POLLER_SAK_CASCADE_BIT \<noteq> 0
          then if cascade_level (col_res p1) \<ge> 2 then col_res_failed p1 w
            else bind_r (memcpy (uid d) (uid_len d) req 3 3) (\<lambda>u.
              Inr (ret, p1\<lparr>poller_3a_data := d\<lparr>uid := u, uid_len := uid_len d + 3\<rparr>,
                col_res := (col_res p1)\<lparr>cascade_level := cascade_level (col_res p1) + 1,
                  col_res_state := Iso14443_3aPollerColResStateStateNewCascade\<rparr>\<rparr>, w))
          else bind_r (memcpy (uid d) (uid_len d) req 2 4) (\<lambda>u.
              Inr (ret, p1\<lparr>poller_3a_data := d\<lparr>sak := resp ! 0, uid := u, uid_len := uid_len d + 4\<rparr>,
                col_res := (col_res p1)\<lparr>col_res_state := Iso14443_3aPollerColResStateStateSuccess\<rparr>,
                poller_3a_state := Iso14443_3aPollerStateActivated\<rparr>, w)))"

definition select_cascade ::
  "'w Nfc \<Rightarrow> Iso14443_3aPoller \<Rightarrow> 'w \<Rightarrow> fault + Iso14443_3aError \<times> Iso14443_3aPoller \<times> 'w" where
  "select_cascade nfc p w =
     (let req = [ISO14443_3A_POLLER_SEL_CMD (cascade_level (col_res p)), ISO14443_3A_POLLER_SEL_PAR 7 0] @
            take 5 (sdd_resp (col_res p))
      in bind_r (bit_buffer_copy_bytes (poller_3a_tx p) req 7) (\<lambda>tx.
         bind_r (exchange_own_buffers nfc (p\<lparr>col_res := (col_res p)\<lparr>sel_req := req\<rparr>, poller_3a_tx := tx\<rparr>)
             ISO14443_3A_FDT_LISTEN_FC w) (\<lambda>(ret, p1, w1).
           if ret \<noteq> Iso14443_3aErrorNone then col_res_failed p1 w1
           else if bit_buffer_get_size_bytes (poller_3a_rx p1) \<noteq> 1 then col_res_failed p1 w1
           else sak_received ret p1 w1)))"

definition col_res_step ::
  "'w Nfc \<Rightarrow> Iso14443_3aError \<Rightarrow> Iso14443_3aPoller \<Rightarrow> 'w \<Rightarrow> fault + Iso14443_3aError \<times> Iso14443_3aPoller \<times> 'w" where
  "col_res_step nfc ret p w =
     (if col_res_state (col_res p) = Iso14443_3aPollerColResStateStateNewCascade then new_cascade nfc ret p w
      else if col_res_state (col_res p) = Iso14443_3aPollerColResStateStateSelectCascade then select_cascade nfc p w
      else Inr (ret, p, w))"

text \<open>The loop \<^verbatim>\<open>while(instance->state == Iso14443_3aPollerStateColResInProgress)\<close> with fuel; \<open>None\<close> is fuel
  that has run out. Six passes, two for each cascade level, are shown to be enough.\<close>

fun col_res_loop ::
  "'w Nfc \<Rightarrow> nat \<Rightarrow> Iso14443_3aError \<Rightarrow> Iso14443_3aPoller \<Rightarrow> 'w \<Rightarrow>
   fault + (Iso14443_3aError \<times> Iso14443_3aPoller \<times> 'w) option" where
  "col_res_loop nfc n ret p w =
     (if poller_3a_state p \<noteq> Iso14443_3aPollerStateColResInProgress then Inr (Some (ret, p, w))
      else case n of 0 \<Rightarrow> Inr None
        | Suc m \<Rightarrow> bind_r (col_res_step nfc ret p w) (\<lambda>(ret1, p1, w1). col_res_loop nfc m ret1 p1 w1))"

definition start_col_res :: "u8 list \<Rightarrow> Iso14443_3aPoller \<Rightarrow> Iso14443_3aPoller" where
  "start_col_res resp p =
     p\<lparr>poller_3a_data := (poller_3a_data p)\<lparr>atqa := resp\<rparr>,
       poller_3a_state := Iso14443_3aPollerStateColResInProgress,
       col_res := (col_res p)\<lparr>sens_resp := resp, cascade_level := 0,
         col_res_state := Iso14443_3aPollerColResStateStateNewCascade\<rparr>\<rparr>"

definition activate_reset ::
  "'w Nfc \<Rightarrow> Iso14443_3aPoller \<Rightarrow> 'w \<Rightarrow> fault + Iso14443_3aPoller \<times> 'w" where
  "activate_reset nfc p w =
     (let p1 = p\<lparr>col_res := empty_col_res, poller_3a_data := empty_3a_data,
            poller_3a_tx := bit_buffer_reset (poller_3a_tx p), poller_3a_rx := bit_buffer_reset (poller_3a_rx p)\<rparr>
      in if poller_3a_state p1 \<noteq> Iso14443_3aPollerStateIdle
         then bind_r (iso14443_3a_poller_halt nfc p1 w) (\<lambda>(_, p2, w1).
           Inr (p2\<lparr>poller_3a_state := Iso14443_3aPollerStateIdle\<rparr>, w1))
         else Inr (p1, w))"

text \<open>\<open>out\<close> is what the caller passes for the data of the card, \<open>None\<close> the null pointer.\<close>

definition iso14443_3a_poller_activate ::
  "'w Nfc \<Rightarrow> nat \<Rightarrow> Iso14443_3aPoller \<Rightarrow> Iso14443_3aData option \<Rightarrow> 'w \<Rightarrow>
   fault + (Iso14443_3aError \<times> Iso14443_3aPoller \<times> Iso14443_3aData option \<times> 'w) option" where
  "iso14443_3a_poller_activate nfc fuel p out w =
     bind_r (activate_reset nfc p w) (\<lambda>(p1, w1).
     bind_r (nfc_iso14443a_poller_trx_short_frame nfc NfcIso14443aShortFrameSensReq (poller_3a_rx p1)
         ISO14443_3A_FDT_LISTEN_FC w1) (\<lambda>(error, rx, w2).
       let p2 = p1\<lparr>poller_3a_rx := rx\<rparr>
       in if error \<noteq> NfcErrorNone then Inr (Some (Iso14443_3aErrorNotPresent, p2, out, w2))
          else if bit_buffer_get_size_bytes rx \<noteq> 2 then Inr (Some (Iso14443_3aErrorCommunication, p2, out, w2))
          else bind_r (bit_buffer_write_bytes rx (sens_resp (col_res p2)) 2) (\<lambda>resp.
            bind_r (col_res_loop nfc fuel Iso14443_3aErrorNone (start_col_res resp p2) w2) (\<lambda>result.
              case result of None \<Rightarrow> Inr None
              | Some (ret, p3, w3) \<Rightarrow>
                  Inr (Some (ret, p3,
                    if poller_3a_state p3 = Iso14443_3aPollerStateActivated
                    then map_option (\<lambda>_. poller_3a_data p3) out else out, w3))))))"

text \<open>The event handler of the poller; the callback is the protocol above it.\<close>

datatype Iso14443_3aPollerEventType = Iso14443_3aPollerEventTypeError | Iso14443_3aPollerEventTypeReady

definition iso14443_3a_poller_run ::
  "'w Nfc \<Rightarrow> nat \<Rightarrow> (Iso14443_3aPollerEventType \<Rightarrow> Iso14443_3aError \<Rightarrow> Iso14443_3aPoller \<Rightarrow> 'w \<Rightarrow>
     fault + NfcCommand \<times> Iso14443_3aPoller \<times> 'w) \<Rightarrow>
   NfcEventType \<Rightarrow> Iso14443_3aPoller \<Rightarrow> 'w \<Rightarrow> fault + (NfcCommand \<times> Iso14443_3aPoller \<times> 'w) option" where
  "iso14443_3a_poller_run nfc fuel callback event p w =
     (let finish = (\<lambda>(command, p1, w1).
          Inr (Some (command, if command = NfcCommandReset
            then p1\<lparr>poller_3a_state := Iso14443_3aPollerStateIdle\<rparr> else p1, w1)))
      in if event = NfcEventTypePollerReady
         then if poller_3a_state p \<noteq> Iso14443_3aPollerStateActivated
           then bind_r (iso14443_3a_poller_activate nfc fuel p (Some empty_3a_data) w) (\<lambda>result.
             case result of None \<Rightarrow> Inr None
             | Some (error, p1, _, w1) \<Rightarrow>
                 if error = Iso14443_3aErrorNone
                 then bind_r (callback Iso14443_3aPollerEventTypeReady error
                   (p1\<lparr>poller_3a_state := Iso14443_3aPollerStateActivated\<rparr>) w1) finish
                 else bind_r (callback Iso14443_3aPollerEventTypeError error p1 w1) finish)
           else bind_r (callback Iso14443_3aPollerEventTypeReady Iso14443_3aErrorNone p w) finish
         else finish (NfcCommandContinue, p, w))"

definition iso14443_3a_poller_detect ::
  "'w Nfc \<Rightarrow> nat \<Rightarrow> NfcEventType \<Rightarrow> Iso14443_3aPoller \<Rightarrow> 'w \<Rightarrow> fault + (bool \<times> Iso14443_3aPoller \<times> 'w) option" where
  "iso14443_3a_poller_detect nfc fuel event p w =
     (if event = NfcEventTypePollerReady
      then bind_r (iso14443_3a_poller_activate nfc fuel p None w) (\<lambda>result. case result of None \<Rightarrow> Inr None
        | Some (error, p1, _, w1) \<Rightarrow> Inr (Some (error = Iso14443_3aErrorNone, p1, w1)))
      else Inr (Some (False, p, w)))"

section \<open>Frames with checksum A\<close>

definition crc_a :: "u8 list \<Rightarrow> u8 list" where
  "crc_a bs = (let crc = foldl iso14443_update 0x6363 bs in [ucast crc, ucast (drop_bit 8 crc)])"

lemma length_crc_a [simp]: "length (crc_a bs) = 2"
  by (simp add: crc_a_def Let_def)

lemma holds_close:
  assumes "holds n buf bs" and "length bs + 2 \<le> n"
  shows "\<exists>buf'. iso14443_crc_append Iso14443CrcTypeA buf = Inr buf' \<and> holds n buf' (bs @ crc_a bs)"
  using iso14443.append_frame [of buf "length bs" Iso14443CrcTypeA] assms
  by (auto simp: iso14443_crc_append_def holds_def crc_a_def Let_def)

lemma crc_check_total:
  assumes "bit_buffer_ok buf"
  shows "\<exists>b. iso14443_crc_check Iso14443CrcTypeA buf = Inr b \<and> (b \<longrightarrow> 2 < bit_buffer_get_size_bytes buf)"
proof (cases "2 < bit_buffer_get_size_bytes buf")
  case True
  then obtain n where "bit_buffer_get_size_bytes buf = n + 2" "0 < n"
    by (metis add.commute less_imp_add_positive)
  then show ?thesis using iso14443.check_frame [OF assms, of n Iso14443CrcTypeA] by (simp add: iso14443_crc_check_def)
next
  case False
  then show ?thesis by (intro exI [of _ False]) (simp add: iso14443_crc_check_def crc_check_def)
qed

lemma holds_closed_check:
  assumes "holds n buf (bs @ crc_a bs)"
  shows "iso14443_crc_check Iso14443CrcTypeA buf = Inr (bs \<noteq> [])"
proof (cases "bs = []")
  case True
  then show ?thesis using holds_size [OF assms] by (simp add: iso14443_crc_check_def crc_check_def)
next
  case False
  have "take (length bs) (bb_data buf) = bs"
    using assms unfolding holds_def by (metis append_eq_conv_conj length_append take_take min.absorb1 le_add1)
  moreover have "bb_data buf ! length bs = crc_a bs ! 0" "bb_data buf ! (length bs + 1) = crc_a bs ! 1"
    using holds_nth [OF assms, of "length bs"] holds_nth [OF assms, of "length bs + 1"] by (simp_all add: nth_append)
  ultimately show ?thesis
    using iso14443.check_frame [OF holds_ok(1) [OF assms], of "length bs" Iso14443CrcTypeA] False holds_size [OF assms]
    by (simp add: iso14443_crc_check_def crc_a_def Let_def iso14443.le16_bytes)
qed

lemma crc_trim_ok:
  assumes "bit_buffer_ok buf" and "2 < bit_buffer_get_size_bytes buf"
  shows "\<exists>buf'. iso14443_crc_trim buf = Inr buf' \<and> bit_buffer_ok buf' \<and> capacity_bytes buf' = capacity_bytes buf"
proof -
  have "bit_buffer_get_size_bytes buf - 2 \<le> capacity_bytes buf" using size_bytes_le(1) [OF assms(1)] by linarith
  then show ?thesis
    using assms by (simp add: iso14443_crc_trim_def bit_buffer_set_size_bytes_def) (simp add: bit_buffer_ok_def)
qed

lemma holds_copy_bytes:
  assumes "bit_buffer_ok buf" and "capacity_bytes buf = n" and "n \<le> 512" and "length bs \<le> n"
  shows "\<exists>buf'. bit_buffer_copy_bytes buf bs (length bs) = Inr buf' \<and> holds n buf' bs"
  using assms by (simp add: bit_buffer_copy_bytes_def memcpy_Inr bit_buffer_ok_def holds_def mult.commute)

lemma write_bytes_ok:
  assumes "bit_buffer_ok buf" and "bit_buffer_get_size_bytes buf = length dest"
  shows "\<exists>bs. bit_buffer_write_bytes buf dest (length dest) = Inr bs \<and> length bs = length dest"
  using assms size_bytes_le [OF assms(1)] by (simp add: bit_buffer_write_bytes_def memcpy_Inr bit_buffer_ok_def)

lemma holds_write_bytes:
  assumes "holds n buf bs" and "length dest = length bs"
  shows "bit_buffer_write_bytes buf dest (length bs) = Inr bs"
  using assms holds_ok [OF assms(1)] holds_size [OF assms(1)]
  by (simp add: bit_buffer_write_bytes_def memcpy_Inr) (simp add: holds_def)

lemma sdd_request:
  assumes "bit_buffer_ok buf" and "capacity_bytes buf = 512"
  shows "\<exists>b1 b2 b3. bit_buffer_set_size_bytes buf 2 = Inr b1 \<and> bit_buffer_set_byte b1 0 x = Inr b2 \<and>
    bit_buffer_set_byte b2 1 y = Inr b3 \<and> holds 512 b3 [x, y]"
proof -
  obtain b1 where b1: "bit_buffer_set_size_bytes buf 2 = Inr b1" "holds 512 b1 (take 2 (bb_data buf))"
    using assms by (auto simp: bit_buffer_set_size_bytes_def holds_def bit_buffer_ok_def min_def)
  obtain c d where cd: "take 2 (bb_data buf) = [c, d]"
    using assms by (cases "bb_data buf"; cases "tl (bb_data buf)") (auto simp: bit_buffer_ok_def)
  obtain b2 where b2: "bit_buffer_set_byte b1 0 x = Inr b2" "holds 512 b2 [x, d]"
    using holds_set_byte [OF b1(2), of 0 x] by (auto simp: cd)
  obtain b3 where "bit_buffer_set_byte b2 1 y = Inr b3" "holds 512 b3 [x, y]"
    using holds_set_byte [OF b2(2), of 1 y] by auto
  then show ?thesis using b1(1) b2(1) by blast
qed

section \<open>What the poller relies on, and its safety\<close>

text \<open>A call of the radio returns; it leaves an intact buffer, whatever the card has sent.\<close>

definition poller_buffer :: "BitBuffer \<Rightarrow> bool" where
  "poller_buffer buf \<longleftrightarrow> bit_buffer_ok buf \<and> capacity_bytes buf = 512"

locale nfc_radio =
  fixes nfc :: "'w Nfc"
  assumes trx: "poller_buffer rx \<Longrightarrow>
      \<exists>e rx' w'. nfc_poller_trx nfc tx rx fwt w = Inr (e, rx', w') \<and> poller_buffer rx'"
    and trx_short_frame: "poller_buffer rx \<Longrightarrow>
      \<exists>e rx' w'. nfc_iso14443a_poller_trx_short_frame nfc frame rx fwt w = Inr (e, rx', w') \<and> poller_buffer rx'"
    and trx_sdd_frame: "poller_buffer rx \<Longrightarrow>
      \<exists>e rx' w'. nfc_iso14443a_poller_trx_sdd_frame nfc tx rx fwt w = Inr (e, rx', w') \<and> poller_buffer rx'"

definition poller_3a_ok :: "Iso14443_3aPoller \<Rightarrow> bool" where
  "poller_3a_ok p \<longleftrightarrow> poller_buffer (poller_3a_tx p) \<and> poller_buffer (poller_3a_rx p) \<and> length (uid (poller_3a_data p)) = 10 \<and>
     uid_len (poller_3a_data p) \<le> 10 \<and> length (sdd_resp (col_res p)) = 5"

text \<open>While the identifier is being read there are three bytes for each level that is complete.\<close>

definition col_res_ok :: "Iso14443_3aPoller \<Rightarrow> bool" where
  "col_res_ok p \<longleftrightarrow> poller_3a_ok p \<and> (poller_3a_state p = Iso14443_3aPollerStateColResInProgress \<longrightarrow>
     uid_len (poller_3a_data p) = 3 * cascade_level (col_res p) \<and> cascade_level (col_res p) \<le> 2 \<and>
     col_res_state (col_res p) \<in> {Iso14443_3aPollerColResStateStateNewCascade, Iso14443_3aPollerColResStateStateSelectCascade})"

definition col_res_left :: "Iso14443_3aPoller \<Rightarrow> nat" where
  "col_res_left p = (if poller_3a_state p \<noteq> Iso14443_3aPollerStateColResInProgress then 0 else
     6 - 2 * cascade_level (col_res p) -
     (if col_res_state (col_res p) = Iso14443_3aPollerColResStateStateSelectCascade then 1 else 0))"

context nfc_radio
begin

lemma exchange_total:
  assumes "poller_3a_ok p" and "holds 512 (poller_3a_tx p) bs" and "length bs \<le> 510"
  shows "\<exists>ret p' w'. exchange_own_buffers nfc p fwt w = Inr (ret, p', w') \<and> poller_3a_ok p' \<and>
    poller_3a_state p' = poller_3a_state p \<and> col_res p' = col_res p \<and> poller_3a_data p' = poller_3a_data p"
proof -
  obtain tx where tx: "iso14443_crc_append Iso14443CrcTypeA (poller_3a_tx p) = Inr tx" "holds 512 tx (bs @ crc_a bs)"
    using holds_close [OF assms(2)] assms(3) by auto
  obtain e rx w1 where rx: "nfc_poller_trx nfc tx (poller_3a_rx p) fwt w = Inr (e, rx, w1)" "poller_buffer rx"
    using trx assms(1) by (metis poller_3a_ok_def)
  obtain b where b: "iso14443_crc_check Iso14443CrcTypeA rx = Inr b" "b \<longrightarrow> 2 < bit_buffer_get_size_bytes rx"
    using crc_check_total rx(2) by (auto simp: poller_buffer_def)
  have trim: "b \<longrightarrow> (\<exists>rx2. iso14443_crc_trim rx = Inr rx2 \<and> poller_buffer rx2)"
    using crc_trim_ok [of rx] rx(2) b(2) by (auto simp: poller_buffer_def)
  have "poller_buffer tx" using holds_ok [OF tx(2)] by (simp add: poller_buffer_def)
  then show ?thesis
    using assms tx(1) rx b(1) trim holds_size [OF assms(2)]
    by (cases b) (auto simp: exchange_own_buffers_def exchange_frame_def poller_3a_ok_def poller_buffer_def)
qed

lemma halt_total:
  assumes "poller_3a_ok p"
  shows "\<exists>ret p' w'. iso14443_3a_poller_halt nfc p w = Inr (ret, p', w') \<and> poller_3a_ok p' \<and>
    poller_3a_data p' = poller_3a_data p \<and> col_res p' = col_res p"
proof -
  obtain tx where tx: "bit_buffer_copy_bytes (poller_3a_tx p) [0x50, 0x00] 2 = Inr tx" "holds 512 tx [0x50, 0x00]"
    using holds_copy_bytes [of "poller_3a_tx p" 512 "[0x50, 0x00]"] assms
    by (auto simp: poller_3a_ok_def poller_buffer_def numeral_2_eq_2)
  have "poller_3a_ok (p\<lparr>poller_3a_tx := tx\<rparr>)"
    using assms holds_ok [OF tx(2)] by (simp add: poller_3a_ok_def poller_buffer_def)
  from exchange_total [OF this, of "[0x50, 0x00]" ISO14443_3A_FDT_LISTEN_FC w] tx(2)
  obtain ret p1 w1 where "exchange_own_buffers nfc (p\<lparr>poller_3a_tx := tx\<rparr>) ISO14443_3A_FDT_LISTEN_FC w = Inr (ret, p1, w1)"
    "poller_3a_ok p1" "col_res p1 = col_res p" "poller_3a_data p1 = poller_3a_data p" by auto
  then show ?thesis by (simp add: iso14443_3a_poller_halt_def poller_3a_ok_def tx(1))
qed


end

end
