(* ===== verification/Iso14443_4a.thy ===== *)
theory Iso14443_4a
  imports Iso14443_3a
begin

text \<open>
  ISO 14443-4A, \<^verbatim>\<open>lib/nfc/protocols/iso14443_4a\<close>, over the listener and the poller of ISO 14443-3A and the
  block layer: the answer to select (ATS) with what it says about a card, the poller that reads it and
  sends blocks, with the time extensions a card may ask for, and the listener that answers. The
  transmission of the listener (\<^verbatim>\<open>nfc_listener_tx\<close>) and the application callbacks are parameters.
\<close>

unbundle bit_operations_syntax

section \<open>The answer to select\<close>

record Iso14443_4aAtsData =
  ats_tl :: u8
  ats_t0 :: u8
  ats_ta_1 :: u8
  ats_tb_1 :: u8
  ats_tc_1 :: u8
  t1_tk :: "u8 list"

definition ISO14443_4A_CMD_READ_ATS :: u8 where "ISO14443_4A_CMD_READ_ATS = 0xE0"
definition ISO14443_4A_READ_ATS_CID_MASK :: u8 where "ISO14443_4A_READ_ATS_CID_MASK = 0x0F"
definition ISO14443_4A_ATS_T0_TA1 :: u8 where [firmware_const]: "ISO14443_4A_ATS_T0_TA1 = push_bit 4 1"
definition ISO14443_4A_ATS_T0_TB1 :: u8 where [firmware_const]: "ISO14443_4A_ATS_T0_TB1 = push_bit 5 1"
definition ISO14443_4A_ATS_T0_TC1 :: u8 where [firmware_const]: "ISO14443_4A_ATS_T0_TC1 = push_bit 6 1"
definition ISO14443_4A_ATS_TC1_NAD :: u8 where [firmware_const]: "ISO14443_4A_ATS_TC1_NAD = push_bit 0 1"
definition ISO14443_4A_ATS_TC1_CID :: u8 where [firmware_const]: "ISO14443_4A_ATS_TC1_CID = push_bit 1 1"

definition has :: "u8 \<Rightarrow> u8 \<Rightarrow> bool" where
  "has flags m \<longleftrightarrow> flags AND m \<noteq> 0"

text \<open>\<^verbatim>\<open>iso14443_4a_reset\<close>, as far as the answer to select goes.\<close>

definition iso14443_4a_reset :: Iso14443_4aAtsData where
  "iso14443_4a_reset = \<lparr>ats_tl = 1, ats_t0 = 0, ats_ta_1 = 0, ats_tb_1 = 0, ats_tc_1 = 0, t1_tk = []\<rparr>"

definition iso14443_4a_get_frame_size_max :: "Iso14443_4aAtsData \<Rightarrow> u16" where
  "iso14443_4a_get_frame_size_max data =
     (let fsci = unat (ats_t0 data AND 0x0F)
      in if fsci < 5 then of_nat (fsci * 8 + 16)
         else if fsci = 5 then 64
         else if fsci = 6 then 96
         else if fsci < 13 then push_bit (fsci - 7) 128
         else 0)"

definition iso14443_4a_get_fwt_fc_max :: "Iso14443_4aAtsData \<Rightarrow> u32" where
  "iso14443_4a_get_fwt_fc_max data =
     (if \<not> unat (ats_tl data) > 1 then 1620
      else if \<not> has (ats_t0 data) ISO14443_4A_ATS_T0_TB1 then 1620
      else let fwi = drop_bit 4 (ats_tb_1 data)
        in if fwi = 0x0F then 1620 else push_bit (unat fwi) 4096)"

definition iso14443_4a_get_historical_bytes :: "Iso14443_4aAtsData \<Rightarrow> u8 list option \<times> nat" where
  "iso14443_4a_get_historical_bytes data =
     (if length (t1_tk data) > 0 then Some (t1_tk data) else None, length (t1_tk data))"

datatype Iso14443_4aBitRate =
    Iso14443_4aBitRateBoth106Kbit
  | Iso14443_4aBitRatePiccToPcd212Kbit
  | Iso14443_4aBitRatePiccToPcd424Kbit
  | Iso14443_4aBitRatePiccToPcd848Kbit
  | Iso14443_4aBitRatePcdToPicc212Kbit
  | Iso14443_4aBitRatePcdToPicc424Kbit
  | Iso14443_4aBitRatePcdToPicc848Kbit

definition iso14443_4a_supports_bit_rate :: "Iso14443_4aAtsData \<Rightarrow> Iso14443_4aBitRate \<Rightarrow> bool" where
  "iso14443_4a_supports_bit_rate data bit_rate =
     (if \<not> has (ats_t0 data) ISO14443_4A_ATS_T0_TA1 then bit_rate = Iso14443_4aBitRateBoth106Kbit
      else case bit_rate of
        Iso14443_4aBitRateBoth106Kbit \<Rightarrow> ats_ta_1 data = push_bit 7 1
      | Iso14443_4aBitRatePiccToPcd212Kbit \<Rightarrow> has (ats_ta_1 data) (push_bit 0 1)
      | Iso14443_4aBitRatePiccToPcd424Kbit \<Rightarrow> has (ats_ta_1 data) (push_bit 1 1)
      | Iso14443_4aBitRatePiccToPcd848Kbit \<Rightarrow> has (ats_ta_1 data) (push_bit 2 1)
      | Iso14443_4aBitRatePcdToPicc212Kbit \<Rightarrow> has (ats_ta_1 data) (push_bit 4 1)
      | Iso14443_4aBitRatePcdToPicc424Kbit \<Rightarrow> has (ats_ta_1 data) (push_bit 5 1)
      | Iso14443_4aBitRatePcdToPicc848Kbit \<Rightarrow> has (ats_ta_1 data) (push_bit 6 1))"

datatype Iso14443_4aFrameOption = Iso14443_4aFrameOptionNad | Iso14443_4aFrameOptionCid

definition iso14443_4a_supports_frame_option :: "Iso14443_4aAtsData \<Rightarrow> Iso14443_4aFrameOption \<Rightarrow> bool" where
  "iso14443_4a_supports_frame_option data opt =
     (has (ats_t0 data) ISO14443_4A_ATS_T0_TC1 \<and>
      (case opt of Iso14443_4aFrameOptionNad \<Rightarrow> has (ats_tc_1 data) ISO14443_4A_ATS_TC1_NAD
       | Iso14443_4aFrameOptionCid \<Rightarrow> has (ats_tc_1 data) ISO14443_4A_ATS_TC1_CID))"

text \<open>An interface byte that is read when its flag is set; otherwise the value in the structure stays.\<close>

definition interface_byte :: "bool \<Rightarrow> BitBuffer \<Rightarrow> nat \<Rightarrow> u8 \<Rightarrow> fault + u8 \<times> nat" where
  "interface_byte present buf i old =
     (if present then bind_r (bit_buffer_get_byte buf i) (\<lambda>b. Inr (b, i + 1)) else Inr (old, i))"

definition iso14443_4a_ats_parse :: "Iso14443_4aAtsData \<Rightarrow> BitBuffer \<Rightarrow> fault + bool \<times> Iso14443_4aAtsData" where
  "iso14443_4a_ats_parse data buf =
     (let buf_size = bit_buffer_get_size_bytes buf
      in if buf_size = 0 then Inr (False, data)
         else bind_r (bit_buffer_get_byte buf 0) (\<lambda>tl_byte.
           if unat tl_byte \<noteq> buf_size then Inr (False, data)
           else let d1 = data\<lparr>ats_tl := tl_byte\<rparr>
             in if \<not> unat tl_byte > 1 then Inr (True, d1)
                else bind_r (bit_buffer_get_byte buf 1) (\<lambda>t0.
                  let has_ta_1 = has t0 ISO14443_4A_ATS_T0_TA1; has_tb_1 = has t0 ISO14443_4A_ATS_T0_TB1;
                      has_tc_1 = has t0 ISO14443_4A_ATS_T0_TC1;
                      buf_size_min = 2 + of_bool has_ta_1 + of_bool has_tb_1 + of_bool has_tc_1
                  in if buf_size < buf_size_min then Inr (False, d1)
                     else bind_r (interface_byte has_ta_1 buf 2 (ats_ta_1 d1)) (\<lambda>(ta, i1).
                       bind_r (interface_byte has_tb_1 buf i1 (ats_tb_1 d1)) (\<lambda>(tb, i2).
                       bind_r (interface_byte has_tc_1 buf i2 (ats_tc_1 d1)) (\<lambda>(tc, i3).
                       let d2 = d1\<lparr>ats_t0 := t0, ats_ta_1 := ta, ats_tb_1 := tb, ats_tc_1 := tc\<rparr>;
                           t1_tk_size = buf_size - buf_size_min
                       in if t1_tk_size > 0
                          then bind_r (bit_buffer_write_bytes_mid buf (replicate t1_tk_size 0) i3 t1_tk_size) (\<lambda>bytes.
                            Inr (True, d2\<lparr>t1_tk := bytes\<rparr>))
                          else Inr (True, d2)))))))"

definition iso14443_4a_process_error :: "Iso14443_3aError \<Rightarrow> Iso14443_4aError" where
  "iso14443_4a_process_error error = (case error of
     Iso14443_3aErrorNone \<Rightarrow> Iso14443_4aErrorNone
   | Iso14443_3aErrorNotPresent \<Rightarrow> Iso14443_4aErrorNotPresent
   | Iso14443_3aErrorTimeout \<Rightarrow> Iso14443_4aErrorTimeout
   | _ \<Rightarrow> Iso14443_4aErrorProtocol)"

section \<open>The poller\<close>

datatype Iso14443_4aPollerState =
    Iso14443_4aPollerStateIdle
  | Iso14443_4aPollerStateReadAts
  | Iso14443_4aPollerStateError
  | Iso14443_4aPollerStateReady

datatype Iso14443_4aPollerEventType = Iso14443_4aPollerEventTypeError | Iso14443_4aPollerEventTypeReady

record Iso14443_4aPoller =
  iso14443_3a_poller :: Iso14443_3aPoller
  poller_state :: Iso14443_4aPollerState
  poller_event_type :: Iso14443_4aPollerEventType
  poller_error :: Iso14443_4aError
  poller_base_data :: Iso14443_3aData
  poller_ats :: Iso14443_4aAtsData
  poller_layer :: Iso14443_4Layer
  poller_tx :: BitBuffer
  poller_rx :: BitBuffer

definition ISO14443_4A_FSDI_256 :: u8 where "ISO14443_4A_FSDI_256 = 0x8"
definition ISO14443_4A_SEND_BLOCK_MAX_ATTEMPTS :: nat where "ISO14443_4A_SEND_BLOCK_MAX_ATTEMPTS = 20"
definition ISO14443_4A_FWT_MAX :: u32 where "ISO14443_4A_FWT_MAX = push_bit 14 4096"
definition ISO14443_4A_WTXM_MASK :: u8 where "ISO14443_4A_WTXM_MASK = 0x3F"
definition ISO14443_4A_WTXM_MAX :: u8 where "ISO14443_4A_WTXM_MAX = 0x3B"
definition ISO14443_4A_SWTX :: u8 where "ISO14443_4A_SWTX = 0xF2"
definition ISO14443_4A_POLLER_ATS_FWT_FC :: u32 where "ISO14443_4A_POLLER_ATS_FWT_FC = 40000"

definition iso14443_4a_poller_alloc :: "Iso14443_3aPoller \<Rightarrow> fault + Iso14443_4aPoller" where
  "iso14443_4a_poller_alloc p3 =
     bind_r (bit_buffer_alloc 256) (\<lambda>tx. bind_r (bit_buffer_alloc 256) (\<lambda>rx.
       Inr \<lparr>iso14443_3a_poller = p3, poller_state = Iso14443_4aPollerStateIdle, poller_event_type = Iso14443_4aPollerEventTypeError,
            poller_error = Iso14443_4aErrorNone,
            poller_base_data = empty_3a_data, poller_ats = iso14443_4a_reset, poller_layer = iso14443_4_layer_alloc,
            poller_tx = tx, poller_rx = rx\<rparr>))"

definition iso14443_4a_poller_halt ::
  "'w Nfc \<Rightarrow> Iso14443_4aPoller \<Rightarrow> 'w \<Rightarrow> fault + Iso14443_4aError \<times> Iso14443_4aPoller \<times> 'w" where
  "iso14443_4a_poller_halt nfc p w =
     bind_r (iso14443_3a_poller_halt nfc (iso14443_3a_poller p) w) (\<lambda>(_, p3, w1).
       Inr (Iso14443_4aErrorNone, p\<lparr>iso14443_3a_poller := p3, poller_state := Iso14443_4aPollerStateIdle\<rparr>, w1))"

text \<open>Sending the transmit buffer and receiving into the receive buffer.\<close>

definition poller_exchange ::
  "'w Nfc \<Rightarrow> Iso14443_4aPoller \<Rightarrow> u32 \<Rightarrow> 'w \<Rightarrow> fault + Iso14443_3aError \<times> Iso14443_4aPoller \<times> 'w" where
  "poller_exchange nfc p fwt w =
     bind_r (iso14443_3a_poller_send_standard_frame nfc (iso14443_3a_poller p) (poller_tx p) (poller_rx p) fwt w)
       (\<lambda>(error, p3, rx, w1). Inr (error, p\<lparr>iso14443_3a_poller := p3, poller_rx := rx\<rparr>, w1))"

definition iso14443_4a_poller_read_ats ::
  "'w Nfc \<Rightarrow> Iso14443_4aPoller \<Rightarrow> 'w \<Rightarrow> fault + Iso14443_4aError \<times> Iso14443_4aPoller \<times> 'w" where
  "iso14443_4a_poller_read_ats nfc p w =
     bind_r (bit_buffer_append_byte (bit_buffer_reset (poller_tx p)) ISO14443_4A_CMD_READ_ATS) (\<lambda>tx1.
     bind_r (bit_buffer_append_byte tx1 (push_bit 4 ISO14443_4A_FSDI_256)) (\<lambda>tx2.
     bind_r (poller_exchange nfc (p\<lparr>poller_tx := tx2\<rparr>) ISO14443_4A_POLLER_ATS_FWT_FC w) (\<lambda>(error, p1, w1).
       if error \<noteq> Iso14443_3aErrorNone then Inr (iso14443_4a_process_error error, p1, w1)
       else bind_r (iso14443_4a_ats_parse (poller_ats p1) (poller_rx p1)) (\<lambda>(parsed, data).
         Inr (if parsed then Iso14443_4aErrorNone else Iso14443_4aErrorProtocol, p1\<lparr>poller_ats := data\<rparr>, w1)))))"

text \<open>The loop that grants a card the time it asks for. It ends only when the card stops asking: \<open>n\<close> is
  fuel, \<open>None\<close> that it has run out. The first component says whether the function is left.\<close>

fun swtx_loop ::
  "'w Nfc \<Rightarrow> nat \<Rightarrow> Iso14443_4aPoller \<Rightarrow> 'w \<Rightarrow> fault + (Iso14443_4aError option \<times> Iso14443_4aPoller \<times> 'w) option" where
  "swtx_loop nfc n p w =
     bind_r (bit_buffer_starts_with_byte (poller_rx p) ISO14443_4A_SWTX) (\<lambda>swtx.
       if \<not> swtx then Inr (Some (None, p, w))
       else case n of 0 \<Rightarrow> Inr None
       | Suc m \<Rightarrow>
         bind_r (bit_buffer_get_byte (poller_rx p) 1) (\<lambda>b. let wtxm = b AND ISO14443_4A_WTXM_MASK
         in if wtxm > ISO14443_4A_WTXM_MAX then Inr (Some (Some Iso14443_4aErrorProtocol, p, w))
            else bind_r (bit_buffer_copy_left (bit_buffer_reset (poller_tx p)) (poller_rx p) 1) (\<lambda>tx1.
              bind_r (bit_buffer_append_byte tx1 wtxm) (\<lambda>tx2.
              bind_r (poller_exchange nfc (p\<lparr>poller_tx := tx2\<rparr>)
                (max (iso14443_4a_get_fwt_fc_max (poller_ats p) * ucast wtxm) ISO14443_4A_FWT_MAX) w) (\<lambda>(error, p1, w1).
                if error \<noteq> Iso14443_3aErrorNone then Inr (Some (Some (iso14443_4a_process_error error), p1, w1))
                else swtx_loop nfc m p1 w1)))))"

declare swtx_loop.simps [simp del]

definition iso14443_4a_poller_send_block ::
  "'w Nfc \<Rightarrow> nat \<Rightarrow> Iso14443_4aPoller \<Rightarrow> BitBuffer \<Rightarrow> BitBuffer \<Rightarrow> 'w \<Rightarrow>
   fault + (Iso14443_4aError \<times> Iso14443_4aPoller \<times> BitBuffer \<times> 'w) option" where
  "iso14443_4a_poller_send_block nfc fuel p tx_buffer rx_buffer w =
     bind_r (iso14443_4_layer_encode_command (poller_layer p) tx_buffer (bit_buffer_reset (poller_tx p))) (\<lambda>(layer, tx).
     bind_r (poller_exchange nfc (p\<lparr>poller_layer := layer, poller_tx := tx\<rparr>) (iso14443_4a_get_fwt_fc_max (poller_ats p)) w)
       (\<lambda>(error, p1, w1).
       if error \<noteq> Iso14443_3aErrorNone then Inr (Some (iso14443_4a_process_error error, p1, rx_buffer, w1))
       else bind_r (swtx_loop nfc fuel p1 w1) (\<lambda>result. case result of
           None \<Rightarrow> Inr None
         | Some (Some error, p2, w2) \<Rightarrow> Inr (Some (error, p2, rx_buffer, w2))
         | Some (None, p2, w2) \<Rightarrow>
             bind_r (iso14443_4_layer_decode_response (poller_layer p2) rx_buffer (poller_rx p2)) (\<lambda>(decoded, layer, rx).
               Inr (Some (if decoded then Iso14443_4aErrorNone else Iso14443_4aErrorProtocol,
                 p2\<lparr>poller_layer := layer\<rparr>, rx, w2))))))"

definition iso14443_4a_poller_send_chain_block ::
  "'w Nfc \<Rightarrow> nat \<Rightarrow> Iso14443_4aPoller \<Rightarrow> BitBuffer \<Rightarrow> BitBuffer \<Rightarrow> 'w \<Rightarrow>
   fault + (Iso14443_4aError \<times> Iso14443_4aPoller \<times> BitBuffer \<times> 'w) option" where
  "iso14443_4a_poller_send_chain_block nfc fuel p tx_buffer rx_buffer w =
     iso14443_4a_poller_send_block nfc fuel
       (p\<lparr>poller_layer := iso14443_4_layer_set_i_block True False (poller_layer p)\<rparr>) tx_buffer rx_buffer w"

definition iso14443_4a_poller_send_receive_ready_block ::
  "'w Nfc \<Rightarrow> nat \<Rightarrow> Iso14443_4aPoller \<Rightarrow> bool \<Rightarrow> BitBuffer \<Rightarrow> BitBuffer \<Rightarrow> 'w \<Rightarrow>
   fault + (Iso14443_4aError \<times> Iso14443_4aPoller \<times> BitBuffer \<times> 'w) option" where
  "iso14443_4a_poller_send_receive_ready_block nfc fuel p acknowledged tx_buffer rx_buffer w =
     iso14443_4a_poller_send_block nfc fuel (p\<lparr>poller_layer := iso14443_4_layer_set_r_block acknowledged
       (bit_buffer_get_size_bytes tx_buffer \<noteq> 0) (poller_layer p)\<rparr>) tx_buffer rx_buffer w"

definition iso14443_4a_poller_send_supervisory_block ::
  "'w Nfc \<Rightarrow> nat \<Rightarrow> Iso14443_4aPoller \<Rightarrow> bool \<Rightarrow> BitBuffer \<Rightarrow> BitBuffer \<Rightarrow> 'w \<Rightarrow>
   fault + (Iso14443_4aError \<times> Iso14443_4aPoller \<times> BitBuffer \<times> 'w) option" where
  "iso14443_4a_poller_send_supervisory_block nfc fuel p deselect tx_buffer rx_buffer w =
     iso14443_4a_poller_send_block nfc fuel (p\<lparr>poller_layer := iso14443_4_layer_set_s_block deselect
       (bit_buffer_get_size_bytes tx_buffer \<noteq> 0) (poller_layer p)\<rparr>) tx_buffer rx_buffer w"

text \<open>The other sending function counts its attempts; \<open>attempts_left\<close> starts at twenty.\<close>

fun pwt_ext_loop ::
  "'w Nfc \<Rightarrow> nat \<Rightarrow> Iso14443_4aPoller \<Rightarrow> BitBuffer \<Rightarrow> 'w \<Rightarrow>
   fault + Iso14443_4aError \<times> Iso14443_4aPoller \<times> BitBuffer \<times> 'w" where
  "pwt_ext_loop nfc attempts_left p rx_buffer w =
     bind_r (poller_exchange nfc (p\<lparr>poller_rx := bit_buffer_reset (poller_rx p)\<rparr>) (iso14443_4a_get_fwt_fc_max (poller_ats p)) w)
       (\<lambda>(error, p1, w1).
       if error \<noteq> Iso14443_3aErrorNone then Inr (iso14443_4a_process_error error, p1, rx_buffer, w1)
       else bind_r (iso14443_4_layer_decode_response_pwt_ext (poller_layer p1) rx_buffer (poller_rx p1)) (\<lambda>(error, rx1).
         if error = Iso14443_4aErrorSendExtra
         then if attempts_left - 1 = 0 then Inr (error, p1, rx1, w1)
           else bind_r (if bit_buffer_get_size_bytes rx1 \<noteq> 0 then bit_buffer_copy (poller_tx p1) rx1 else Inr (poller_tx p1))
             (\<lambda>tx. pwt_ext_loop nfc (attempts_left - 1) (p1\<lparr>poller_tx := tx\<rparr>) rx1 w1)
         else Inr (error, p1, rx1, w1)))"

declare pwt_ext_loop.simps [simp del]

definition iso14443_4a_poller_send_block_pwt_ext ::
  "'w Nfc \<Rightarrow> Iso14443_4aPoller \<Rightarrow> BitBuffer \<Rightarrow> BitBuffer \<Rightarrow> 'w \<Rightarrow>
   fault + Iso14443_4aError \<times> Iso14443_4aPoller \<times> BitBuffer \<times> 'w" where
  "iso14443_4a_poller_send_block_pwt_ext nfc p tx_buffer rx_buffer w =
     bind_r (iso14443_4_layer_encode_command (poller_layer p) tx_buffer (bit_buffer_reset (poller_tx p))) (\<lambda>(layer, tx).
       pwt_ext_loop nfc ISO14443_4A_SEND_BLOCK_MAX_ATTEMPTS (p\<lparr>poller_layer := layer, poller_tx := tx\<rparr>) rx_buffer w)"

text \<open>The state machine of the poller. The callback gets the type of the event, which keeps its last value,
  and the error.\<close>

type_synonym 'w poller_4a_callback =
  "Iso14443_4aPollerEventType \<Rightarrow> Iso14443_4aError \<Rightarrow> Iso14443_4aPoller \<Rightarrow> 'w \<Rightarrow> fault + NfcCommand \<times> Iso14443_4aPoller \<times> 'w"

definition iso14443_4a_poller_handler_idle :: "Iso14443_4aPoller \<Rightarrow> NfcCommand \<times> Iso14443_4aPoller" where
  "iso14443_4a_poller_handler_idle p =
     (NfcCommandContinue, p\<lparr>poller_base_data := poller_3a_data (iso14443_3a_poller p),
        poller_layer := iso14443_4_layer_reset (poller_layer p), poller_state := Iso14443_4aPollerStateReadAts\<rparr>)"

definition iso14443_4a_poller_handler_read_ats ::
  "'w Nfc \<Rightarrow> Iso14443_4aPoller \<Rightarrow> 'w \<Rightarrow> fault + NfcCommand \<times> Iso14443_4aPoller \<times> 'w" where
  "iso14443_4a_poller_handler_read_ats nfc p w =
     bind_r (iso14443_4a_poller_read_ats nfc p w) (\<lambda>(error, p1, w1).
       Inr (NfcCommandContinue, p1\<lparr>poller_state := if error = Iso14443_4aErrorNone
         then Iso14443_4aPollerStateReady else Iso14443_4aPollerStateError\<rparr>, w1))"

definition iso14443_4a_poller_handler_error ::
  "'w Nfc \<Rightarrow> 'w poller_4a_callback \<Rightarrow> Iso14443_4aPoller \<Rightarrow> 'w \<Rightarrow> fault + NfcCommand \<times> Iso14443_4aPoller \<times> 'w" where
  "iso14443_4a_poller_handler_error nfc callback p w =
     bind_r (iso14443_3a_poller_halt nfc (iso14443_3a_poller p) w) (\<lambda>(_, p3, w1).
     bind_r (callback (poller_event_type p) (poller_error p) (p\<lparr>iso14443_3a_poller := p3\<rparr>) w1) (\<lambda>(command, p1, w2).
       Inr (command, p1\<lparr>poller_state := Iso14443_4aPollerStateIdle\<rparr>, w2)))"

definition iso14443_4a_poller_handler_ready ::
  "'w poller_4a_callback \<Rightarrow> Iso14443_4aPoller \<Rightarrow> 'w \<Rightarrow> fault + NfcCommand \<times> Iso14443_4aPoller \<times> 'w" where
  "iso14443_4a_poller_handler_ready callback p w =
     callback Iso14443_4aPollerEventTypeReady (poller_error p) (p\<lparr>poller_event_type := Iso14443_4aPollerEventTypeReady\<rparr>) w"

definition iso14443_4a_poller_run ::
  "'w Nfc \<Rightarrow> 'w poller_4a_callback \<Rightarrow> Iso14443_3aPollerEventType \<Rightarrow> Iso14443_4aPoller \<Rightarrow> 'w \<Rightarrow>
   fault + NfcCommand \<times> Iso14443_4aPoller \<times> 'w" where
  "iso14443_4a_poller_run nfc callback event p w = (case event of
     Iso14443_3aPollerEventTypeReady \<Rightarrow> (case poller_state p of
         Iso14443_4aPollerStateIdle \<Rightarrow> let (command, p1) = iso14443_4a_poller_handler_idle p in Inr (command, p1, w)
       | Iso14443_4aPollerStateReadAts \<Rightarrow> iso14443_4a_poller_handler_read_ats nfc p w
       | Iso14443_4aPollerStateError \<Rightarrow> iso14443_4a_poller_handler_error nfc callback p w
       | Iso14443_4aPollerStateReady \<Rightarrow> iso14443_4a_poller_handler_ready callback p w)
   | Iso14443_3aPollerEventTypeError \<Rightarrow>
       callback Iso14443_4aPollerEventTypeError (poller_error p)
         (p\<lparr>poller_event_type := Iso14443_4aPollerEventTypeError\<rparr>) w)"

section \<open>The listener\<close>

datatype Iso14443_3aListenerState = Iso14443_3aListenerStateIdle | Iso14443_3aListenerStateActive

datatype Iso14443_3aListenerEventType =
    Iso14443_3aListenerEventTypeFieldOff
  | Iso14443_3aListenerEventTypeHalted
  | Iso14443_3aListenerEventTypeReceivedStandardFrame
  | Iso14443_3aListenerEventTypeReceivedData

record Iso14443_3aListener =
  listener_3a_state :: Iso14443_3aListenerState
  listener_3a_tx :: BitBuffer

type_synonym 'w nfc_listener_tx = "BitBuffer \<Rightarrow> 'w \<Rightarrow> NfcError \<times> 'w"

definition iso14443_3a_listener_process_nfc_error :: "NfcError \<Rightarrow> Iso14443_3aError" where
  "iso14443_3a_listener_process_nfc_error error =
     (if error = NfcErrorNone then Iso14443_3aErrorNone
      else if error = NfcErrorTimeout then Iso14443_3aErrorTimeout
      else Iso14443_3aErrorFieldOff)"

definition iso14443_3a_listener_tx :: "'w nfc_listener_tx \<Rightarrow> BitBuffer \<Rightarrow> 'w \<Rightarrow> Iso14443_3aError \<times> 'w" where
  "iso14443_3a_listener_tx transmit tx_buffer w =
     (let (error, w1) = transmit tx_buffer w
      in (if error \<noteq> NfcErrorNone then iso14443_3a_listener_process_nfc_error error else Iso14443_3aErrorNone, w1))"

definition iso14443_3a_listener_send_standard_frame ::
  "'w nfc_listener_tx \<Rightarrow> Iso14443_3aListener \<Rightarrow> BitBuffer \<Rightarrow> 'w \<Rightarrow> fault + Iso14443_3aError \<times> Iso14443_3aListener \<times> 'w" where
  "iso14443_3a_listener_send_standard_frame transmit l tx_buffer w =
     bind_r (bit_buffer_copy (listener_3a_tx l) tx_buffer) (\<lambda>tx1.
     bind_r (iso14443_crc_append Iso14443CrcTypeA tx1) (\<lambda>tx2.
       let (error, w1) = transmit tx2 w
       in Inr (if error \<noteq> NfcErrorNone then iso14443_3a_listener_process_nfc_error error else Iso14443_3aErrorNone,
            l\<lparr>listener_3a_tx := tx2\<rparr>, w1)))"

definition iso14443_3a_listener_halt_received :: "BitBuffer \<Rightarrow> fault + bool" where
  "iso14443_3a_listener_halt_received buf =
     (if bit_buffer_get_size_bytes buf \<noteq> 4 then Inr False
      else bind_r (iso14443_crc_check Iso14443CrcTypeA buf) (\<lambda>crc_ok.
        if \<not> crc_ok then Inr False
        else bind_r (bit_buffer_get_byte buf 0) (\<lambda>b0. if b0 \<noteq> 0x50 then Inr False
        else bind_r (bit_buffer_get_byte buf 1) (\<lambda>b1. Inr (b1 = 0x00)))))"

datatype Iso14443_4aListenerState = Iso14443_4aListenerStateIdle | Iso14443_4aListenerStateActive

datatype Iso14443_4aListenerEventType =
    Iso14443_4aListenerEventTypeHalted
  | Iso14443_4aListenerEventTypeFieldOff
  | Iso14443_4aListenerEventTypeReceivedData

record Iso14443_4aListener =
  iso14443_3a_listener :: Iso14443_3aListener
  listener_ats :: Iso14443_4aAtsData
  listener_layer :: Iso14443_4Layer
  listener_state :: Iso14443_4aListenerState
  listener_rx :: BitBuffer
  listener_tx :: BitBuffer

type_synonym 'w listener_4a_callback =
  "Iso14443_4aListenerEventType \<Rightarrow> Iso14443_4aListener \<Rightarrow> 'w \<Rightarrow> fault + NfcCommand \<times> Iso14443_4aListener \<times> 'w"

definition iso14443_4a_listener_alloc :: "Iso14443_4aAtsData \<Rightarrow> fault + Iso14443_4aListener" where
  "iso14443_4a_listener_alloc data =
     bind_r (bit_buffer_alloc 256) (\<lambda>tx3. bind_r (bit_buffer_alloc 256) (\<lambda>rx. bind_r (bit_buffer_alloc 256) (\<lambda>tx.
       Inr \<lparr>iso14443_3a_listener = \<lparr>listener_3a_state = Iso14443_3aListenerStateIdle, listener_3a_tx = tx3\<rparr>,
            listener_ats = data, listener_layer = iso14443_4_layer_alloc, listener_state = Iso14443_4aListenerStateIdle,
            listener_rx = rx, listener_tx = tx\<rparr>)))"

definition iso14443_4a_listener_reset :: "Iso14443_4aListener \<Rightarrow> Iso14443_4aListener" where
  "iso14443_4a_listener_reset l =
     l\<lparr>listener_state := Iso14443_4aListenerStateIdle, listener_layer := iso14443_4_layer_reset (listener_layer l)\<rparr>"

text \<open>Passing a buffer to the listener below.\<close>

definition listener_send ::
  "'w nfc_listener_tx \<Rightarrow> Iso14443_4aListener \<Rightarrow> BitBuffer \<Rightarrow> 'w \<Rightarrow> fault + Iso14443_3aError \<times> Iso14443_4aListener \<times> 'w" where
  "listener_send transmit l buf w =
     bind_r (iso14443_3a_listener_send_standard_frame transmit (iso14443_3a_listener l) buf w) (\<lambda>(error, l3, w1).
       Inr (error, l\<lparr>iso14443_3a_listener := l3\<rparr>, w1))"

definition append_if :: "bool \<Rightarrow> u8 \<Rightarrow> BitBuffer \<Rightarrow> fault + BitBuffer" where
  "append_if present b buf = (if present then bit_buffer_append_byte buf b else Inr buf)"

definition ats_frame :: "Iso14443_4aAtsData \<Rightarrow> BitBuffer \<Rightarrow> fault + BitBuffer" where
  "ats_frame data buf =
     bind_r (bit_buffer_append_byte (bit_buffer_reset buf) (ats_tl data)) (\<lambda>b1.
       if \<not> unat (ats_tl data) > 1 then Inr b1
       else bind_r (bit_buffer_append_byte b1 (ats_t0 data)) (\<lambda>b2.
         bind_r (append_if (has (ats_t0 data) ISO14443_4A_ATS_T0_TA1) (ats_ta_1 data) b2) (\<lambda>b3.
         bind_r (append_if (has (ats_t0 data) ISO14443_4A_ATS_T0_TB1) (ats_tb_1 data) b3) (\<lambda>b4.
         bind_r (append_if (has (ats_t0 data) ISO14443_4A_ATS_T0_TC1) (ats_tc_1 data) b4) (\<lambda>b5.
           if length (t1_tk data) \<noteq> 0 then bit_buffer_append_bytes b5 (t1_tk data) (length (t1_tk data))
           else Inr b5)))))"

definition iso14443_4a_listener_send_ats ::
  "'w nfc_listener_tx \<Rightarrow> Iso14443_4aListener \<Rightarrow> 'w \<Rightarrow> fault + Iso14443_4aError \<times> Iso14443_4aListener \<times> 'w" where
  "iso14443_4a_listener_send_ats transmit l w =
     bind_r (ats_frame (listener_ats l) (listener_tx l)) (\<lambda>tx.
     bind_r (listener_send transmit (l\<lparr>listener_tx := tx\<rparr>) tx w) (\<lambda>(error, l1, w1).
       Inr (iso14443_4a_process_error error, l1, w1)))"

definition iso14443_4a_listener_send_block ::
  "'w nfc_listener_tx \<Rightarrow> Iso14443_4aListener \<Rightarrow> BitBuffer \<Rightarrow> 'w \<Rightarrow> fault + Iso14443_4aError \<times> Iso14443_4aListener \<times> 'w" where
  "iso14443_4a_listener_send_block transmit l tx_buffer w =
     bind_r (iso14443_4_layer_encode_response (listener_layer l) tx_buffer (bit_buffer_reset (listener_tx l))) (\<lambda>(encoded, layer, tx).
       let l1 = l\<lparr>listener_layer := layer, listener_tx := tx\<rparr>
       in if \<not> encoded then Inr (Iso14443_4aErrorProtocol, l1, w)
          else bind_r (listener_send transmit l1 tx w) (\<lambda>(error, l2, w1). Inr (iso14443_4a_process_error error, l2, w1)))"

text \<open>A frame in state idle: only the request for the answer to select is answered.\<close>

definition rats_received ::
  "'w nfc_listener_tx \<Rightarrow> BitBuffer \<Rightarrow> Iso14443_4aListener \<Rightarrow> 'w \<Rightarrow> fault + Iso14443_4aListener \<times> 'w" where
  "rats_received transmit rx_buffer l w =
     (if bit_buffer_get_size_bytes rx_buffer \<noteq> 2 then Inr (l, w)
      else bind_r (bit_buffer_get_byte rx_buffer 0) (\<lambda>b0. if b0 \<noteq> ISO14443_4A_CMD_READ_ATS then Inr (l, w)
      else bind_r (iso14443_4a_listener_send_ats transmit l w) (\<lambda>(error, l1, w1).
        if error \<noteq> Iso14443_4aErrorNone then Inr (l1, w1)
        else bind_r (bit_buffer_get_byte rx_buffer 1) (\<lambda>b1.
          let layer1 = (if iso14443_4a_supports_frame_option (listener_ats l1) Iso14443_4aFrameOptionCid
                then iso14443_4_layer_set_cid (b1 AND ISO14443_4A_READ_ATS_CID_MASK) (listener_layer l1)
                else listener_layer l1);
              layer2 = iso14443_4_layer_set_nad_supported
                (iso14443_4a_supports_frame_option (listener_ats l1) Iso14443_4aFrameOptionNad) layer1
          in Inr (l1\<lparr>listener_state := Iso14443_4aListenerStateActive, listener_layer := layer2\<rparr>, w1)))))"

text \<open>A frame in state active, which the block layer decodes.\<close>

definition block_received ::
  "'w nfc_listener_tx \<Rightarrow> 'w listener_4a_callback option \<Rightarrow> BitBuffer \<Rightarrow> Iso14443_4aListener \<Rightarrow> 'w \<Rightarrow>
   fault + NfcCommand \<times> Iso14443_4aListener \<times> 'w" where
  "block_received transmit callback rx_buffer l w =
     bind_r (iso14443_4_layer_decode_command (listener_layer l) rx_buffer (listener_rx l)) (\<lambda>(status, layer, rx).
     bind_r (let l1 = l\<lparr>listener_layer := layer, listener_rx := rx\<rparr>
        in if result_send status
           then bind_r (listener_send transmit l1 rx w) (\<lambda>(_, l2, w1). Inr (l2, w1)) else Inr (l1, w)) (\<lambda>(l2, w1).
     bind_r (if result_halt status
        then let l3 = iso14443_4a_listener_reset l2
          in bind_r (case callback of None \<Rightarrow> Inr (l3, w1)
              | Some f \<Rightarrow> bind_r (f Iso14443_4aListenerEventTypeHalted l3 w1) (\<lambda>(_, l4, w2). Inr (l4, w2)))
            (\<lambda>(l4, w2). Inr (NfcCommandSleep, l4, w2))
        else Inr (NfcCommandContinue, l2, w1)) (\<lambda>(command, l4, w2).
     if result_data status
     then case callback of None \<Rightarrow> Inr (command, l4, w2) | Some f \<Rightarrow> f Iso14443_4aListenerEventTypeReceivedData l4 w2
     else Inr (command, l4, w2))))"

definition iso14443_4a_listener_run ::
  "'w nfc_listener_tx \<Rightarrow> 'w listener_4a_callback option \<Rightarrow> Iso14443_3aListenerEventType \<Rightarrow> BitBuffer \<Rightarrow>
   Iso14443_4aListener \<Rightarrow> 'w \<Rightarrow> fault + NfcCommand \<times> Iso14443_4aListener \<times> 'w" where
  "iso14443_4a_listener_run transmit callback event rx_buffer l w =
     (if event = Iso14443_3aListenerEventTypeReceivedStandardFrame
      then if listener_state l = Iso14443_4aListenerStateIdle
        then bind_r (rats_received transmit rx_buffer l w) (\<lambda>(l1, w1). Inr (NfcCommandContinue, l1, w1))
        else block_received transmit callback rx_buffer l w
      else if event = Iso14443_3aListenerEventTypeHalted \<or> event = Iso14443_3aListenerEventTypeFieldOff
      then let l1 = iso14443_4a_listener_reset l
        in case callback of None \<Rightarrow> Inr (NfcCommandContinue, l1, w)
           | Some f \<Rightarrow> f (if event = Iso14443_3aListenerEventTypeHalted
               then Iso14443_4aListenerEventTypeHalted else Iso14443_4aListenerEventTypeFieldOff) l1 w
      else Inr (NfcCommandContinue, l, w))"

text \<open>The handler below, with the listener above as its callback; \<open>rx_buffer\<close> is the buffer of the
  event.\<close>

definition set_3a_state :: "Iso14443_3aListenerState \<Rightarrow> Iso14443_4aListener \<Rightarrow> Iso14443_4aListener" where
  "set_3a_state s l = l\<lparr>iso14443_3a_listener := (iso14443_3a_listener l)\<lparr>listener_3a_state := s\<rparr>\<rparr>"

definition iso14443_3a_listener_run ::
  "(Iso14443_3aListenerEventType \<Rightarrow> BitBuffer \<Rightarrow> Iso14443_4aListener \<Rightarrow> 'w \<Rightarrow> fault + NfcCommand \<times> Iso14443_4aListener \<times> 'w) option \<Rightarrow>
   NfcEventType \<Rightarrow> BitBuffer \<Rightarrow> Iso14443_4aListener \<Rightarrow> 'w \<Rightarrow> fault + NfcCommand \<times> Iso14443_4aListener \<times> 'w" where
  "iso14443_3a_listener_run callback event rx_buffer l w =
     (if event = NfcEventTypeListenerActivated
      then Inr (NfcCommandContinue, set_3a_state Iso14443_3aListenerStateActive l, w)
      else if event = NfcEventTypeFieldOff
      then let l1 = set_3a_state Iso14443_3aListenerStateIdle l
        in case callback of None \<Rightarrow> Inr (NfcCommandSleep, l1, w)
           | Some f \<Rightarrow> bind_r (f Iso14443_3aListenerEventTypeFieldOff rx_buffer l1 w) (\<lambda>(_, l2, w1). Inr (NfcCommandSleep, l2, w1))
      else if event = NfcEventTypeRxEnd
      then bind_r (iso14443_3a_listener_halt_received rx_buffer) (\<lambda>halt.
        if halt
        then case callback of None \<Rightarrow> Inr (NfcCommandSleep, l, w)
           | Some f \<Rightarrow> bind_r (f Iso14443_3aListenerEventTypeHalted rx_buffer l w) (\<lambda>(_, l2, w1). Inr (NfcCommandSleep, l2, w1))
        else bind_r (iso14443_crc_check Iso14443CrcTypeA rx_buffer) (\<lambda>crc_ok.
          bind_r (if crc_ok then iso14443_crc_trim rx_buffer else Inr rx_buffer) (\<lambda>rx1.
            case callback of None \<Rightarrow> Inr (NfcCommandContinue, l, w)
            | Some f \<Rightarrow> f (if crc_ok then Iso14443_3aListenerEventTypeReceivedStandardFrame
                else Iso14443_3aListenerEventTypeReceivedData) rx1 l w)))
      else Inr (NfcCommandContinue, l, w))"

end
