(* ===== verification/Iso14443_3a_Poller.thy ===== *)
theory Iso14443_3a_Poller
  imports Iso14443_3a
begin

text \<open>
  The collision resolution of \<^verbatim>\<open>iso14443_3a_poller_activate\<close>: it ends within six passes and stays inside
  the ten bytes of the identifier whatever the card answers, and it reads the identifier of a card that
  follows the standard.
\<close>

unbundle bit_operations_syntax

declare col_res_loop.simps [simp del]

section \<open>Safety and termination\<close>

text \<open>One pass of the loop keeps the invariant and comes closer to the end.\<close>

context nfc_radio
begin

lemma new_cascade_total:
  assumes "col_res_ok p" and "poller_3a_state p = Iso14443_3aPollerStateColResInProgress"
    and "col_res_state (col_res p) = Iso14443_3aPollerColResStateStateNewCascade"
  shows "\<exists>ret' p' w'. new_cascade nfc ret p w = Inr (ret', p', w') \<and> col_res_ok p' \<and> col_res_left p' < col_res_left p"
proof -
  have p: "poller_3a_ok p" using assms(1) by (simp add: col_res_ok_def)
  obtain b1 b2 b3 where b: "bit_buffer_set_size_bytes (poller_3a_tx p) 2 = Inr b1"
      "bit_buffer_set_byte b1 0 (ISO14443_3A_POLLER_SEL_CMD (cascade_level (col_res p))) = Inr b2"
      "bit_buffer_set_byte b2 1 (ISO14443_3A_POLLER_SEL_PAR 2 0) = Inr b3"
      "holds 512 b3 [ISO14443_3A_POLLER_SEL_CMD (cascade_level (col_res p)), ISO14443_3A_POLLER_SEL_PAR 2 0]"
    using sdd_request [of "poller_3a_tx p"] p unfolding poller_3a_ok_def poller_buffer_def by blast
  obtain e rx w1 where rx: "nfc_iso14443a_poller_trx_sdd_frame nfc b3 (poller_3a_rx p) ISO14443_3A_FDT_LISTEN_FC w = Inr (e, rx, w1)"
      "poller_buffer rx"
    using trx_sdd_frame [of "poller_3a_rx p" b3] p unfolding poller_3a_ok_def by blast
  define p1 where "p1 = p\<lparr>poller_3a_tx := b3, poller_3a_rx := rx\<rparr>"
  have nc: "new_cascade nfc ret p w = (if e \<noteq> NfcErrorNone \<or> bit_buffer_get_size_bytes rx \<noteq> 5 then col_res_failed p1 w1
      else bind_r (bit_buffer_write_bytes rx (sdd_resp (col_res p1)) 5) (\<lambda>resp.
            Inr (ret, p1\<lparr>col_res := (col_res p1)\<lparr>sdd_resp := resp,
              col_res_state := Iso14443_3aPollerColResStateStateSelectCascade\<rparr>\<rparr>, w1)))"
    unfolding new_cascade_def Let_def b(1,2,3) bind_r_simps rx(1) prod.case p1_def [symmetric] by simp
  have ok: "col_res_ok p1" "col_res_left p1 = col_res_left p" "0 < col_res_left p"
    using assms p holds_ok(1,2) [OF b(4)] rx(2)
    by (auto simp: p1_def col_res_ok_def poller_3a_ok_def poller_buffer_def col_res_left_def)
  show ?thesis
  proof (cases "e \<noteq> NfcErrorNone \<or> bit_buffer_get_size_bytes rx \<noteq> 5")
    case True
    then show ?thesis using ok by (auto simp: nc col_res_failed_def col_res_ok_def poller_3a_ok_def col_res_left_def)
  next
    case False
    then obtain resp where "bit_buffer_write_bytes rx (sdd_resp (col_res p1)) 5 = Inr resp" "length resp = 5"
      using write_bytes_ok [of rx "sdd_resp (col_res p)"] rx(2) p by (auto simp: poller_buffer_def poller_3a_ok_def p1_def)
    then show ?thesis
      using False ok assms by (auto simp: nc col_res_ok_def poller_3a_ok_def col_res_left_def p1_def)
  qed
qed

end

lemma sak_received_total:
  assumes "col_res_ok p" and "poller_3a_state p = Iso14443_3aPollerStateColResInProgress"
    and "col_res_state (col_res p) = Iso14443_3aPollerColResStateStateSelectCascade"
    and "length (sel_req (col_res p)) = 7" and "bit_buffer_get_size_bytes (poller_3a_rx p) = 1"
  shows "\<exists>ret' p'. sak_received ret p w = Inr (ret', p', w) \<and> col_res_ok p' \<and> col_res_left p' < col_res_left p"
proof -
  obtain resp where "bit_buffer_write_bytes (poller_3a_rx p) [sel_resp (col_res p)] (Suc 0) = Inr [resp]"
    using write_bytes_ok [of "poller_3a_rx p" "[sel_resp (col_res p)]"] assms(1,5)
    by (auto simp: col_res_ok_def poller_3a_ok_def poller_buffer_def length_Suc_conv)
  then show ?thesis
    using assms by (auto simp: sak_received_def Let_def memcpy_Inr col_res_failed_def col_res_ok_def poller_3a_ok_def col_res_left_def)
qed

context nfc_radio
begin

lemma select_cascade_total:
  assumes "col_res_ok p" and "poller_3a_state p = Iso14443_3aPollerStateColResInProgress"
    and "col_res_state (col_res p) = Iso14443_3aPollerColResStateStateSelectCascade"
  shows "\<exists>ret' p' w'. select_cascade nfc p w = Inr (ret', p', w') \<and> col_res_ok p' \<and> col_res_left p' < col_res_left p"
proof -
  have p: "poller_3a_ok p" and n: "uid_len (poller_3a_data p) = 3 * cascade_level (col_res p)" "cascade_level (col_res p) \<le> 2"
    using assms by (auto simp: col_res_ok_def)
  define req where "req = [ISO14443_3A_POLLER_SEL_CMD (cascade_level (col_res p)), ISO14443_3A_POLLER_SEL_PAR 7 0] @
    take 5 (sdd_resp (col_res p))"
  have len: "length req = 7" using p by (simp add: req_def poller_3a_ok_def)
  obtain tx where tx: "bit_buffer_copy_bytes (poller_3a_tx p) req 7 = Inr tx" "holds 512 tx req"
    using holds_copy_bytes [of "poller_3a_tx p" 512 req] p len by (auto simp: poller_3a_ok_def poller_buffer_def)
  define p1 where "p1 = p\<lparr>col_res := (col_res p)\<lparr>sel_req := req\<rparr>, poller_3a_tx := tx\<rparr>"
  have "poller_3a_ok p1" using p holds_ok [OF tx(2)] by (simp add: p1_def poller_3a_ok_def poller_buffer_def)
  from exchange_total [OF this, of req ISO14443_3A_FDT_LISTEN_FC w] tx(2) len
  obtain ret p2 w1 where ex: "exchange_own_buffers nfc p1 ISO14443_3A_FDT_LISTEN_FC w = Inr (ret, p2, w1)"
      "poller_3a_ok p2" "poller_3a_state p2 = poller_3a_state p" "col_res p2 = (col_res p)\<lparr>sel_req := req\<rparr>"
      "poller_3a_data p2 = poller_3a_data p" by (auto simp: p1_def)
  have sel: "select_cascade nfc p w = (if ret \<noteq> Iso14443_3aErrorNone \<or> bit_buffer_get_size_bytes (poller_3a_rx p2) \<noteq> 1
      then col_res_failed p2 w1 else sak_received ret p2 w1)"
    unfolding select_cascade_def Let_def req_def [symmetric] tx(1) bind_r_simps p1_def [symmetric] ex(1) by simp
  have ok: "col_res_ok p2" "col_res_left p2 = col_res_left p" "0 < col_res_left p"
    using ex assms n by (auto simp: col_res_ok_def col_res_left_def)
  show ?thesis
  proof (cases "ret \<noteq> Iso14443_3aErrorNone \<or> bit_buffer_get_size_bytes (poller_3a_rx p2) \<noteq> 1")
    case True
    then show ?thesis using ok ex(2) by (auto simp: sel col_res_failed_def col_res_ok_def poller_3a_ok_def col_res_left_def)
  next
    case False
    then show ?thesis using sak_received_total [of p2 ret w1] ok ex assms len by (auto simp: sel)
  qed
qed

lemma col_res_loop_total:
  assumes "col_res_ok p" and "col_res_left p \<le> n"
  shows "\<exists>ret' p' w'. col_res_loop nfc n ret p w = Inr (Some (ret', p', w')) \<and> poller_3a_ok p'"
  using assms
proof (induction n arbitrary: ret p w)
  case 0
  then show ?case by (auto simp: col_res_ok_def col_res_left_def col_res_loop.simps split: if_splits)
next
  case (Suc n)
  show ?case
  proof (cases "poller_3a_state p = Iso14443_3aPollerStateColResInProgress")
    case True
    have "\<exists>ret' p' w'. col_res_step nfc ret p w = Inr (ret', p', w') \<and> col_res_ok p' \<and> col_res_left p' < col_res_left p"
      using Suc.prems(1) True new_cascade_total [OF Suc.prems(1) True, of ret w] select_cascade_total [OF Suc.prems(1) True, of w]
      by (auto simp: col_res_step_def col_res_ok_def)
    then obtain ret' p' w' where step: "col_res_step nfc ret p w = Inr (ret', p', w')" "col_res_ok p'" "col_res_left p' \<le> n"
      using Suc.prems(2) by (metis less_Suc_eq_le order_less_le_trans)
    then show ?thesis using Suc.IH [OF step(2,3), of ret' w'] True by (simp add: col_res_loop.simps [of nfc "Suc n"])
  next
    case False
    then show ?thesis using Suc.prems by (simp add: col_res_ok_def col_res_loop.simps)
  qed
qed

lemma activate_reset_total:
  assumes "poller_buffer (poller_3a_tx p)" and "poller_buffer (poller_3a_rx p)"
  shows "\<exists>p' w'. activate_reset nfc p w = Inr (p', w') \<and> poller_3a_ok p' \<and> poller_3a_data p' = empty_3a_data \<and>
    poller_3a_state p' = Iso14443_3aPollerStateIdle \<and> col_res p' = empty_col_res"
proof -
  define p1 where "p1 = p\<lparr>col_res := empty_col_res, poller_3a_data := empty_3a_data,
    poller_3a_tx := bit_buffer_reset (poller_3a_tx p), poller_3a_rx := bit_buffer_reset (poller_3a_rx p)\<rparr>"
  have "poller_3a_ok p1"
    using assms by (simp add: p1_def poller_3a_ok_def poller_buffer_def empty_3a_data_def empty_col_res_def bit_buffer_reset_def bit_buffer_ok_def)
  with halt_total [OF this, of w] show ?thesis
    by (auto simp: activate_reset_def Let_def p1_def [symmetric] poller_3a_ok_def) (simp_all add: p1_def)
qed

lemma activate_total:
  assumes "poller_buffer (poller_3a_tx p)" and "poller_buffer (poller_3a_rx p)" and "6 \<le> fuel"
  shows "\<exists>ret p' out' w'. iso14443_3a_poller_activate nfc fuel p out w = Inr (Some (ret, p', out', w')) \<and> poller_3a_ok p'"
proof -
  obtain p1 w1 where p1: "activate_reset nfc p w = Inr (p1, w1)" "poller_3a_ok p1" "poller_3a_data p1 = empty_3a_data"
      "col_res p1 = empty_col_res"
    using activate_reset_total [OF assms(1,2), of w] by auto
  obtain e rx w2 where rx: "nfc_iso14443a_poller_trx_short_frame nfc NfcIso14443aShortFrameSensReq (poller_3a_rx p1)
      ISO14443_3A_FDT_LISTEN_FC w1 = Inr (e, rx, w2)" "poller_buffer rx"
    using trx_short_frame p1(2) by (metis poller_3a_ok_def)
  define p2 where "p2 = p1\<lparr>poller_3a_rx := rx\<rparr>"
  have ok: "poller_3a_ok p2" using p1(2) rx(2) by (simp add: p2_def poller_3a_ok_def)
  obtain resp where resp: "bit_buffer_get_size_bytes rx = 2 \<Longrightarrow> bit_buffer_write_bytes rx (sens_resp (col_res p2)) 2 = Inr resp"
    using write_bytes_ok [of rx "sens_resp (col_res p2)"] rx(2) p1(4)
    by (auto simp: p2_def empty_col_res_def poller_buffer_def numeral_2_eq_2)
  have "col_res_ok (start_col_res resp p2)" "col_res_left (start_col_res resp p2) \<le> fuel"
    using ok p1(3,4) assms(3) by (simp_all add: start_col_res_def col_res_ok_def poller_3a_ok_def p2_def empty_3a_data_def col_res_left_def)
  from col_res_loop_total [OF this, of Iso14443_3aErrorNone w2]
  obtain ret' p' w' where "col_res_loop nfc fuel Iso14443_3aErrorNone (start_col_res resp p2) w2 = Inr (Some (ret', p', w'))" "poller_3a_ok p'"
    by auto
  then show ?thesis
    using p1(1) rx(1) ok resp by (simp add: iso14443_3a_poller_activate_def Let_def p2_def [symmetric])
qed

end

text \<open>C14 Whatever a card answers, at any length and with any number of cascade levels, the activation of a
  card returns: the collision resolution needs at most six passes, no buffer check fails, and the
  identifier that is collected never leaves its array of ten bytes.\<close>

theorem activation_safe:
  assumes "nfc_radio nfc" and "poller_buffer (poller_3a_tx p)" and "poller_buffer (poller_3a_rx p)" and "6 \<le> fuel"
  shows "\<exists>ret p' out' w'. iso14443_3a_poller_activate nfc fuel p out w = Inr (Some (ret, p', out', w')) \<and>
    length (uid (poller_3a_data p')) = 10 \<and> uid_len (poller_3a_data p') \<le> 10 \<and>
    poller_buffer (poller_3a_tx p') \<and> poller_buffer (poller_3a_rx p')"
  using nfc_radio.activate_total [OF assms] unfolding poller_3a_ok_def by blast

lemma fresh_poller: "\<exists>p. iso14443_3a_poller_alloc = Inr p \<and> poller_buffer (poller_3a_tx p) \<and> poller_buffer (poller_3a_rx p)"
  by (simp add: iso14443_3a_poller_alloc_def bit_buffer_alloc_def poller_buffer_def bit_buffer_ok_def)

section \<open>A card that follows the standard\<close>

text \<open>The card, as ISO 14443-3 describes it: its identifier is sent in levels of four bytes and a check
  byte, all but the last one starting with the cascade tag.\<close>

record card =
  card_uid :: "u8 list"
  card_atqa :: "u8 \<times> u8"
  card_sak :: u8

fun uid_levels :: "u8 list \<Rightarrow> u8 list list" where
  "uid_levels bs = (if length bs \<le> 4 then [bs] else (0x88 # take 3 bs) # uid_levels (drop 3 bs))"

declare uid_levels.simps [simp del]

definition block_check :: "u8 list \<Rightarrow> u8" where
  "block_check bs = foldl (XOR) 0 bs"

definition level_of :: "card \<Rightarrow> u8 \<Rightarrow> nat option" where
  "level_of c cmd = (let l = unat (cmd - 0x93) div 2
     in if cmd \<in> {0x93, 0x95, 0x97} \<and> l < length (uid_levels (card_uid c)) then Some l else None)"

definition card_anticollision :: "card \<Rightarrow> u8 list \<Rightarrow> u8 list option" where
  "card_anticollision c frame = (case frame of [cmd, par] \<Rightarrow> (case level_of c cmd of None \<Rightarrow> None
     | Some l \<Rightarrow> if par = 0x20 then let lv = uid_levels (card_uid c) ! l in Some (lv @ [block_check lv]) else None)
     | _ \<Rightarrow> None)"

definition card_select :: "card \<Rightarrow> u8 list \<Rightarrow> u8 list option" where
  "card_select c frame = (case frame of [] \<Rightarrow> None | cmd # _ \<Rightarrow> (case level_of c cmd of None \<Rightarrow> None
     | Some l \<Rightarrow> let lv = uid_levels (card_uid c) ! l; req = [cmd, 0x70] @ lv @ [block_check lv];
         s = (if l + 1 < length (uid_levels (card_uid c)) then ISO14443_3A_POLLER_SAK_CASCADE_BIT else card_sak c)
       in if frame = req @ crc_a req then Some (s # crc_a [s]) else None))"

text \<open>The radio with this card in the field: frames arrive unchanged, and silence is a timeout.\<close>

definition answer_frame :: "BitBuffer \<Rightarrow> u8 list option \<Rightarrow> 'w \<Rightarrow> fault + NfcError \<times> BitBuffer \<times> 'w" where
  "answer_frame rx answer w = (case answer of None \<Rightarrow> Inr (NfcErrorTimeout, rx, w)
     | Some bs \<Rightarrow> bind_r (bit_buffer_copy_bytes rx bs (length bs)) (\<lambda>rx'. Inr (NfcErrorNone, rx', w)))"

definition sent_bytes :: "BitBuffer \<Rightarrow> u8 list" where
  "sent_bytes tx = take (bit_buffer_get_size_bytes tx) (bb_data tx)"

definition card_radio :: "card \<Rightarrow> 'w Nfc" where
  "card_radio c =
     \<lparr>nfc_poller_trx = (\<lambda>tx rx fwt w. answer_frame rx (card_select c (sent_bytes tx)) w),
      nfc_iso14443a_poller_trx_short_frame = (\<lambda>frame rx fwt w. answer_frame rx (Some [fst (card_atqa c), snd (card_atqa c)]) w),
      nfc_iso14443a_poller_trx_sdd_frame = (\<lambda>tx rx fwt w. answer_frame rx (card_anticollision c (sent_bytes tx)) w)\<rparr>"

lemma holds_sent: "holds n buf bs \<Longrightarrow> sent_bytes buf = bs"
  by (simp add: sent_bytes_def) (simp add: holds_def)

lemma answer_some:
  assumes "poller_buffer rx" and "length bs \<le> 512"
  shows "\<exists>rx'. answer_frame rx (Some bs) w = Inr (NfcErrorNone, rx', w) \<and> holds 512 rx' bs"
  using holds_copy_bytes [of rx 512 bs] assms by (auto simp: answer_frame_def poller_buffer_def)

lemma answer_total:
  assumes "poller_buffer rx" and "\<And>bs. answer = Some bs \<Longrightarrow> length bs \<le> 512"
  shows "\<exists>e rx' w'. answer_frame rx answer w = Inr (e, rx', w') \<and> poller_buffer rx'"
  using assms answer_some [OF assms(1), of _ w] holds_ok(1,2)
  by (cases answer) (fastforce simp: answer_frame_def poller_buffer_def)+

lemma uid_levels_short: "lv \<in> set (uid_levels bs) \<Longrightarrow> length lv \<le> 4"
proof (induction bs rule: uid_levels.induct)
  case (1 bs)
  then show ?case by (cases "length bs \<le> 4") (auto simp: uid_levels.simps [of bs])
qed

lemma level_of_less: "level_of c cmd = Some l \<Longrightarrow> length (uid_levels (card_uid c) ! l) \<le> 4"
  by (rule uid_levels_short [of _ "card_uid c"]) (auto simp: level_of_def Let_def split: if_splits)

lemma card_anticollision_short: "card_anticollision c frame = Some bs \<Longrightarrow> length bs \<le> 5"
  using level_of_less by (auto simp: card_anticollision_def Let_def split: list.splits option.splits if_splits)

lemma card_select_short: "card_select c frame = Some bs \<Longrightarrow> length bs \<le> 3"
  by (auto simp: card_select_def Let_def split: list.splits option.splits if_splits)

interpretation card: nfc_radio "card_radio c" for c
proof unfold_locales
  fix rx tx :: BitBuffer and fwt :: u32 and w :: 'a and frame assume rx: "poller_buffer rx"
  show "\<exists>e rx' w'. nfc_poller_trx (card_radio c) tx rx fwt w = Inr (e, rx', w') \<and> poller_buffer rx'"
    unfolding card_radio_def Nfc.simps
    by (rule answer_total [OF rx]) (drule card_select_short, simp)
  show "\<exists>e rx' w'. nfc_iso14443a_poller_trx_short_frame (card_radio c) frame rx fwt w = Inr (e, rx', w') \<and> poller_buffer rx'"
    unfolding card_radio_def Nfc.simps by (rule answer_total [OF rx]) simp
  show "\<exists>e rx' w'. nfc_iso14443a_poller_trx_sdd_frame (card_radio c) tx rx fwt w = Inr (e, rx', w') \<and> poller_buffer rx'"
    unfolding card_radio_def Nfc.simps
    by (rule answer_total [OF rx]) (drule card_anticollision_short, simp)
qed

theorem activation_safe_witness:
  "\<exists>p ret p' out' w'. iso14443_3a_poller_alloc = Inr p \<and>
    iso14443_3a_poller_activate (card_radio \<lparr>card_uid = [1, 2, 3, 4], card_atqa = (4, 0), card_sak = 8\<rparr>) 6 p None () =
      Inr (Some (ret, p', out', w')) \<and>
    length (uid (poller_3a_data p')) = 10 \<and> uid_len (poller_3a_data p') \<le> 10 \<and>
    poller_buffer (poller_3a_tx p') \<and> poller_buffer (poller_3a_rx p')"
proof -
  obtain p where p: "iso14443_3a_poller_alloc = Inr p" "poller_buffer (poller_3a_tx p)" "poller_buffer (poller_3a_rx p)"
    using fresh_poller by blast
  have "\<exists>ret p' out' w'. iso14443_3a_poller_activate (card_radio \<lparr>card_uid = [1, 2, 3, 4], card_atqa = (4, 0), card_sak = 8\<rparr>)
      6 p None () = Inr (Some (ret, p', out', w')) \<and>
    length (uid (poller_3a_data p')) = 10 \<and> uid_len (poller_3a_data p') \<le> 10 \<and>
    poller_buffer (poller_3a_tx p') \<and> poller_buffer (poller_3a_rx p')"
    by (rule activation_safe [OF card.nfc_radio_axioms p(2,3) order_refl])
  then show ?thesis using p(1) by auto
qed

text \<open>One level of the collision resolution with such a card: an anticollision frame and a selection.\<close>

lemma card_new_cascade:
  assumes "poller_3a_ok p" and "level_of c (ISO14443_3A_POLLER_SEL_CMD (cascade_level (col_res p))) = Some l"
    and "length (uid_levels (card_uid c) ! l) = 4"
  shows "\<exists>tx rx. new_cascade (card_radio c) ret p w = Inr (ret, p\<lparr>poller_3a_tx := tx, poller_3a_rx := rx,
      col_res := (col_res p)\<lparr>sdd_resp := uid_levels (card_uid c) ! l @ [block_check (uid_levels (card_uid c) ! l)],
        col_res_state := Iso14443_3aPollerColResStateStateSelectCascade\<rparr>\<rparr>, w) \<and> poller_buffer tx \<and> poller_buffer rx"
proof -
  let ?lv = "uid_levels (card_uid c) ! l" let ?cmd = "ISO14443_3A_POLLER_SEL_CMD (cascade_level (col_res p))"
  obtain b1 b2 b3 where b: "bit_buffer_set_size_bytes (poller_3a_tx p) 2 = Inr b1"
      "bit_buffer_set_byte b1 0 ?cmd = Inr b2" "bit_buffer_set_byte b2 1 (ISO14443_3A_POLLER_SEL_PAR 2 0) = Inr b3"
      "holds 512 b3 [?cmd, ISO14443_3A_POLLER_SEL_PAR 2 0]"
    using sdd_request [of "poller_3a_tx p"] assms(1) unfolding poller_3a_ok_def poller_buffer_def by blast
  have "card_anticollision c [?cmd, ISO14443_3A_POLLER_SEL_PAR 2 0] = Some (?lv @ [block_check ?lv])"
    using assms(2) by (simp add: card_anticollision_def ISO14443_3A_POLLER_SEL_PAR_def Let_def)
  then obtain rx where rx: "nfc_iso14443a_poller_trx_sdd_frame (card_radio c) b3 (poller_3a_rx p) ISO14443_3A_FDT_LISTEN_FC w =
      Inr (NfcErrorNone, rx, w)" "holds 512 rx (?lv @ [block_check ?lv])"
    using answer_some [of "poller_3a_rx p" "?lv @ [block_check ?lv]" w] assms(1,3) holds_sent [OF b(4)]
    by (auto simp: card_radio_def poller_3a_ok_def)
  have resp: "bit_buffer_write_bytes rx (sdd_resp (col_res p)) 5 = Inr (?lv @ [block_check ?lv])"
    using holds_write_bytes [OF rx(2), of "sdd_resp (col_res p)"] assms(1,3) by (simp add: poller_3a_ok_def)
  have size: "bit_buffer_get_size_bytes rx = 5" using holds_size [OF rx(2)] assms(3) by simp
  have "poller_buffer b3" "poller_buffer rx" using holds_ok(1,2) b(4) rx(2) by (auto simp: poller_buffer_def)
  then show ?thesis
    unfolding new_cascade_def b(1,2,3) bind_r_simps rx(1) prod.case Let_def
    using size resp by (intro exI [of _ b3] exI [of _ rx]) simp
qed

lemma card_exchange:
  assumes "poller_3a_ok p" and "holds 512 (poller_3a_tx p) req" and "length req \<le> 510"
    and "card_select c (req @ crc_a req) = Some (s # crc_a [s])"
  shows "\<exists>tx rx. exchange_own_buffers (card_radio c) p fwt w = Inr (Iso14443_3aErrorNone,
      p\<lparr>poller_3a_tx := tx, poller_3a_rx := rx\<rparr>, w) \<and> poller_buffer tx \<and> holds 512 rx [s]"
proof -
  obtain tx where tx: "iso14443_crc_append Iso14443CrcTypeA (poller_3a_tx p) = Inr tx" "holds 512 tx (req @ crc_a req)"
    using holds_close [OF assms(2)] assms(3) by auto
  obtain rx where rx: "nfc_poller_trx (card_radio c) tx (poller_3a_rx p) fwt w = Inr (NfcErrorNone, rx, w)" "holds 512 rx ([s] @ crc_a [s])"
    using answer_some [of "poller_3a_rx p" "s # crc_a [s]" w] assms(1,4) holds_sent [OF tx(2)]
    by (auto simp: card_radio_def poller_3a_ok_def)
  obtain rx2 where rx2: "iso14443_crc_trim rx = Inr rx2" "holds 512 rx2 [s]"
    using holds_trim [OF rx(2)] by auto
  have "poller_buffer tx" using holds_ok(1,2) tx(2) by (auto simp: poller_buffer_def)
  then show ?thesis
    using assms(1,3) holds_size [OF assms(2)] tx(1) rx(1) rx2 holds_closed_check [OF rx(2)] holds_size [OF rx(2)] holds_ok [OF rx(2)]
    by (auto simp: exchange_own_buffers_def exchange_frame_def poller_3a_ok_def poller_buffer_def)
qed

lemma card_select_cascade:
  assumes "poller_3a_ok p" and "level_of c (ISO14443_3A_POLLER_SEL_CMD (cascade_level (col_res p))) = Some l"
    and "length (uid_levels (card_uid c) ! l) = 4"
    and "sdd_resp (col_res p) = uid_levels (card_uid c) ! l @ [block_check (uid_levels (card_uid c) ! l)]"
    and "s = (if l + 1 < length (uid_levels (card_uid c)) then ISO14443_3A_POLLER_SAK_CASCADE_BIT else card_sak c)"
  shows "\<exists>tx rx req. select_cascade (card_radio c) p w = sak_received Iso14443_3aErrorNone (p\<lparr>poller_3a_tx := tx, poller_3a_rx := rx,
      col_res := (col_res p)\<lparr>sel_req := req\<rparr>\<rparr>) w \<and> poller_buffer tx \<and> holds 512 rx [s] \<and>
      req = [ISO14443_3A_POLLER_SEL_CMD (cascade_level (col_res p)), 0x70] @ sdd_resp (col_res p)"
proof -
  let ?lv = "uid_levels (card_uid c) ! l" let ?cmd = "ISO14443_3A_POLLER_SEL_CMD (cascade_level (col_res p))"
  define req where "req = [?cmd, 0x70] @ sdd_resp (col_res p)"
  have req: "[?cmd, ISO14443_3A_POLLER_SEL_PAR 7 0] @ take 5 (sdd_resp (col_res p)) = req" "length req = 7"
    using assms(3,4) by (simp_all add: req_def ISO14443_3A_POLLER_SEL_PAR_def)
  obtain tx where tx: "bit_buffer_copy_bytes (poller_3a_tx p) req 7 = Inr tx" "holds 512 tx req"
    using holds_copy_bytes [of "poller_3a_tx p" 512 req] assms(1) req(2) by (auto simp: poller_3a_ok_def poller_buffer_def)
  define p1 where "p1 = p\<lparr>col_res := (col_res p)\<lparr>sel_req := req\<rparr>, poller_3a_tx := tx\<rparr>"
  have "poller_3a_ok p1" "holds 512 (poller_3a_tx p1) req"
    using assms(1) tx(2) holds_ok(1,2) by (auto simp: p1_def poller_3a_ok_def poller_buffer_def)
  moreover have "card_select c (req @ crc_a req) = Some (s # crc_a [s])"
    using assms(2,4,5) by (simp add: card_select_def Let_def req_def)
  ultimately obtain tx' rx where ex: "exchange_own_buffers (card_radio c) p1 ISO14443_3A_FDT_LISTEN_FC w =
      Inr (Iso14443_3aErrorNone, p1\<lparr>poller_3a_tx := tx', poller_3a_rx := rx\<rparr>, w)" "poller_buffer tx'" "holds 512 rx [s]"
    using card_exchange [of p1 req c s ISO14443_3A_FDT_LISTEN_FC w] req(2) by auto
  have "select_cascade (card_radio c) p w = sak_received Iso14443_3aErrorNone (p1\<lparr>poller_3a_tx := tx', poller_3a_rx := rx\<rparr>) w"
    unfolding select_cascade_def Let_def req(1) tx(1) bind_r_simps p1_def [symmetric] ex(1) prod.case
    using holds_size [OF ex(3)] by simp
  moreover have "p1\<lparr>poller_3a_tx := tx', poller_3a_rx := rx\<rparr> = p\<lparr>poller_3a_tx := tx', poller_3a_rx := rx, col_res := (col_res p)\<lparr>sel_req := req\<rparr>\<rparr>"
    by (simp add: p1_def)
  ultimately show ?thesis using ex(2,3) by (metis req_def)
qed

text \<open>Both passes for one level.\<close>

lemma card_level:
  assumes "poller_3a_ok p" and "poller_3a_state p = Iso14443_3aPollerStateColResInProgress"
    and "col_res_state (col_res p) = Iso14443_3aPollerColResStateStateNewCascade"
    and "level_of c (ISO14443_3A_POLLER_SEL_CMD (cascade_level (col_res p))) = Some l" and "length (uid_levels (card_uid c) ! l) = 4"
    and "s = (if l + 1 < length (uid_levels (card_uid c)) then ISO14443_3A_POLLER_SAK_CASCADE_BIT else card_sak c)"
  shows "\<exists>p'. col_res_loop (card_radio c) (Suc (Suc m)) ret p w =
      bind_r (sak_received Iso14443_3aErrorNone p' w) (\<lambda>(ret1, p1, w1). col_res_loop (card_radio c) m ret1 p1 w1) \<and>
    poller_3a_ok p' \<and> poller_3a_state p' = Iso14443_3aPollerStateColResInProgress \<and> poller_3a_data p' = poller_3a_data p \<and>
    holds 512 (poller_3a_rx p') [s] \<and> cascade_level (col_res p') = cascade_level (col_res p) \<and>
    (\<exists>cmd bcc. sel_req (col_res p') = [cmd, 0x70] @ uid_levels (card_uid c) ! l @ [bcc])"
proof -
  obtain tx rx where new: "new_cascade (card_radio c) ret p w = Inr (ret, p\<lparr>poller_3a_tx := tx, poller_3a_rx := rx,
      col_res := (col_res p)\<lparr>sdd_resp := uid_levels (card_uid c) ! l @ [block_check (uid_levels (card_uid c) ! l)],
        col_res_state := Iso14443_3aPollerColResStateStateSelectCascade\<rparr>\<rparr>, w)" "poller_buffer tx" "poller_buffer rx"
    using card_new_cascade [OF assms(1,4,5), of ret w] by (elim exE conjE) (rule that)
  define p1 where "p1 = p\<lparr>poller_3a_tx := tx, poller_3a_rx := rx,
      col_res := (col_res p)\<lparr>sdd_resp := uid_levels (card_uid c) ! l @ [block_check (uid_levels (card_uid c) ! l)],
        col_res_state := Iso14443_3aPollerColResStateStateSelectCascade\<rparr>\<rparr>"
  have p1: "poller_3a_ok p1" "level_of c (ISO14443_3A_POLLER_SEL_CMD (cascade_level (col_res p1))) = Some l"
    "sdd_resp (col_res p1) = uid_levels (card_uid c) ! l @ [block_check (uid_levels (card_uid c) ! l)]"
    using assms(1,4,5) new(2,3) by (simp_all add: p1_def poller_3a_ok_def)
  obtain tx' rx' req where sel: "select_cascade (card_radio c) p1 w = sak_received Iso14443_3aErrorNone (p1\<lparr>poller_3a_tx := tx',
      poller_3a_rx := rx', col_res := (col_res p1)\<lparr>sel_req := req\<rparr>\<rparr>) w" "poller_buffer tx'" "holds 512 rx' [s]"
      "req = [ISO14443_3A_POLLER_SEL_CMD (cascade_level (col_res p1)), 0x70] @ sdd_resp (col_res p1)"
    using card_select_cascade [OF p1(1,2) assms(5) p1(3) assms(6), of w] by (elim exE conjE) (rule that)
  define p2 where "p2 = p1\<lparr>poller_3a_tx := tx', poller_3a_rx := rx', col_res := (col_res p1)\<lparr>sel_req := req\<rparr>\<rparr>"
  have state: "poller_3a_state p1 = Iso14443_3aPollerStateColResInProgress"
    "col_res_state (col_res p1) = Iso14443_3aPollerColResStateStateSelectCascade" using assms(2) by (simp_all add: p1_def)
  have "col_res_loop (card_radio c) (Suc (Suc m)) ret p w = col_res_loop (card_radio c) (Suc m) ret p1 w"
    using assms(2,3) new(1) by (subst col_res_loop.simps) (simp add: col_res_step_def p1_def)
  also have "\<dots> = bind_r (sak_received Iso14443_3aErrorNone p2 w) (\<lambda>(ret1, p1, w1). col_res_loop (card_radio c) m ret1 p1 w1)"
    using state sel(1) by (subst col_res_loop.simps) (simp add: col_res_step_def p2_def)
  finally show ?thesis
    using sel(2,3,4) p1 state holds_ok(1,2) [OF sel(3)]
    by (intro exI [of _ p2]) (auto simp: p2_def poller_3a_ok_def poller_buffer_def, simp_all add: p1_def)
qed

lemma level_of_cmd: "l < length (uid_levels (card_uid c)) \<Longrightarrow> l \<le> 2 \<Longrightarrow> level_of c (ISO14443_3A_POLLER_SEL_CMD l) = Some l"
  by (cases l; cases "l - 1") (auto simp: level_of_def ISO14443_3A_POLLER_SEL_CMD_def Let_def)

lemma length_uid_levels: "uid_levels bs \<noteq> []" "length bs \<le> 4 \<Longrightarrow> uid_levels bs = [bs]"
  "4 < length bs \<Longrightarrow> uid_levels bs = (0x88 # take 3 bs) # uid_levels (drop 3 bs)"
  by (simp_all add: uid_levels.simps [of bs])

lemma card_loop:
  assumes "poller_3a_ok p" and "poller_3a_state p = Iso14443_3aPollerStateColResInProgress"
    and "col_res_state (col_res p) = Iso14443_3aPollerColResStateStateNewCascade"
    and "drop l (uid_levels (card_uid c)) = uid_levels rest" and "length rest mod 3 = 1" and "4 \<le> length rest"
    and "3 * l + length rest \<le> 10" and "cascade_level (col_res p) = l" and "uid_len (poller_3a_data p) = 3 * l"
    and "uid (poller_3a_data p) = pre @ replicate (10 - 3 * l) 0" and "length pre = 3 * l"
    and "card_sak c AND ISO14443_3A_POLLER_SAK_CASCADE_BIT = 0" and "2 * length (uid_levels rest) \<le> n"
  shows "\<exists>p'. col_res_loop (card_radio c) n ret p w = Inr (Some (Iso14443_3aErrorNone, p', w)) \<and>
    poller_3a_state p' = Iso14443_3aPollerStateActivated \<and>
    poller_3a_data p' = (poller_3a_data p)\<lparr>uid := pre @ rest @ replicate (10 - 3 * l - length rest) 0,
      uid_len := 3 * l + length rest, sak := card_sak c\<rparr>"
  using assms
proof (induction rest arbitrary: p l pre n ret rule: uid_levels.induct)
  case (1 rest)
  let ?lv = "uid_levels (card_uid c) ! l"
  let ?s = "if l + 1 < length (uid_levels (card_uid c)) then ISO14443_3A_POLLER_SAK_CASCADE_BIT else card_sak c"
  have len: "l < length (uid_levels (card_uid c))"
    using "1.prems"(4) length_uid_levels(1) [of rest] by (metis drop_eq_Nil not_le)
  have lv: "?lv = hd (uid_levels rest)" using len "1.prems"(4) by (metis hd_drop_conv_nth)
  have l: "l \<le> 2" using "1.prems"(6,7) by linarith
  have lv4: "length ?lv = 4" using "1.prems"(5,6) length_uid_levels(2,3) [of rest] by (cases "length rest \<le> 4") (auto simp: lv)
  have "0 < length (uid_levels rest)" using length_uid_levels(1) [of rest] by simp
  then have "n = Suc (Suc (n - 2))" using "1.prems"(13) by linarith
  then obtain m where n: "n = Suc (Suc m)" and m: "2 * length (uid_levels rest) \<le> Suc (Suc m)"
    using "1.prems"(13) by metis
  have lo: "level_of c (ISO14443_3A_POLLER_SEL_CMD (cascade_level (col_res p))) = Some l"
    using level_of_cmd [OF len l] "1.prems"(8) by simp
  obtain p' cmd bcc where p': "col_res_loop (card_radio c) n ret p w =
      bind_r (sak_received Iso14443_3aErrorNone p' w) (\<lambda>(ret1, p1, w1). col_res_loop (card_radio c) m ret1 p1 w1)"
      "poller_3a_ok p'" "poller_3a_state p' = Iso14443_3aPollerStateColResInProgress" "poller_3a_data p' = poller_3a_data p"
      "holds 512 (poller_3a_rx p') [?s]" "cascade_level (col_res p') = l" "sel_req (col_res p') = [cmd, 0x70] @ ?lv @ [bcc]"
    using card_level [OF "1.prems"(1-3) lo lv4 refl, of m ret w, folded n, unfolded "1.prems"(8)]
    by (elim exE conjE) (rule that)
  have resp: "bit_buffer_write_bytes (poller_3a_rx p') [sel_resp (col_res p')] 1 = Inr [?s]"
    using holds_write_bytes [OF p'(5), of "[sel_resp (col_res p')]"] by simp
  have levels: "length (uid_levels (card_uid c)) = l + length (uid_levels rest)"
    using "1.prems"(4) len by (metis add_diff_inverse_nat length_drop not_less_iff_gr_or_eq order_less_imp_le add.commute le_add_diff_inverse)
  show ?case
  proof (cases "length rest \<le> 4")
    case True
    then have r: "uid_levels rest = [rest]" "length rest = 4" "?lv = rest" using length_uid_levels(2) "1.prems"(6) lv by simp_all
    then have s: "?s = card_sak c" using levels by simp
    have "uid (poller_3a_data p) = pre @ replicate 4 0 @ replicate (10 - 3 * l - 4) 0"
      using "1.prems"(7,10) r(2) by (simp add: replicate_add [symmetric])
    then have "sak_received Iso14443_3aErrorNone p' w = Inr (Iso14443_3aErrorNone, p'\<lparr>
        poller_3a_data := (poller_3a_data p)\<lparr>uid := pre @ rest @ replicate (10 - 3 * l - length rest) 0,
          uid_len := 3 * l + length rest, sak := card_sak c\<rparr>,
        col_res := (col_res p')\<lparr>sel_resp := card_sak c, col_res_state := Iso14443_3aPollerColResStateStateSuccess\<rparr>,
        poller_3a_state := Iso14443_3aPollerStateActivated\<rparr>, w)"
      using resp s "1.prems"(7,9,11,12) p'(4,7) r(2,3)
      by (simp add: sak_received_def Let_def memcpy_Inr)
    then show ?thesis using p'(1) by (simp add: col_res_loop.simps)
  next
    case False
    then have r: "uid_levels rest = (0x88 # take 3 rest) # uid_levels (drop 3 rest)" "?lv = 0x88 # take 3 rest" "7 \<le> length rest"
      using length_uid_levels(3) "1.prems"(5,6) lv by (simp_all, presburger)
    then have s: "?s = ISO14443_3A_POLLER_SAK_CASCADE_BIT" using levels length_uid_levels(1) [of "drop 3 rest"] by simp
    have l1: "l \<le> 1" using r(3) "1.prems"(7) by linarith
    define p1 where "p1 = p'\<lparr>poller_3a_data := (poller_3a_data p)\<lparr>uid := (pre @ take 3 rest) @ replicate (10 - 3 * Suc l) 0,
          uid_len := 3 * Suc l\<rparr>,
        col_res := (col_res p')\<lparr>sel_resp := ISO14443_3A_POLLER_SAK_CASCADE_BIT, cascade_level := Suc l,
          col_res_state := Iso14443_3aPollerColResStateStateNewCascade\<rparr>\<rparr>"
    have "uid (poller_3a_data p) = pre @ replicate 3 0 @ replicate (10 - 3 * Suc l) 0"
      using "1.prems"(10) l1 by (simp add: replicate_add [symmetric])
    then have sak: "sak_received Iso14443_3aErrorNone p' w = Inr (Iso14443_3aErrorNone, p1, w)"
      using resp s "1.prems"(7,9,11) p'(4,6,7) r(2,3) l1
      by (simp add: sak_received_def Let_def memcpy_Inr p1_def ISO14443_3A_POLLER_SAK_CASCADE_BIT_def)
    have "drop (Suc l) (uid_levels (card_uid c)) = uid_levels (drop 3 rest)"
      using "1.prems"(4) r(1) by (metis drop_Suc list.sel(3) drop_drop add.commute plus_1_eq_Suc tl_drop)
    moreover have "length (drop 3 rest) mod 3 = 1" "4 \<le> length (drop 3 rest)" "3 * Suc l + length (drop 3 rest) \<le> 10"
      using r(3) "1.prems"(5,7) by (simp_all add: le_mod_geq)
    moreover have "poller_3a_ok p1" "2 * length (uid_levels (drop 3 rest)) \<le> m"
      using p'(2) "1.prems"(11,7) r(3) m r(1) l1 by (simp_all add: p1_def poller_3a_ok_def)
    ultimately have IH: "\<exists>p'. col_res_loop (card_radio c) m Iso14443_3aErrorNone p1 w = Inr (Some (Iso14443_3aErrorNone, p', w)) \<and>
        poller_3a_state p' = Iso14443_3aPollerStateActivated \<and>
        poller_3a_data p' = (poller_3a_data p1)\<lparr>uid := (pre @ take 3 rest) @ drop 3 rest @ replicate (10 - 3 * Suc l - length (drop 3 rest)) 0,
          uid_len := 3 * Suc l + length (drop 3 rest), sak := card_sak c\<rparr>"
      using "1.prems"(11,12) p'(3) r(3) False by (intro "1.IH") (simp_all add: p1_def)
    have append: "(pre @ take 3 rest) @ drop 3 rest @ zs = pre @ rest @ zs" for zs
      by (metis append.assoc append_take_drop_id)
    have nums: "10 - 3 * Suc l - length (drop 3 rest) = 10 - 3 * l - length rest" "3 * Suc l + length (drop 3 rest) = 3 * l + length rest"
      using r(3) by simp_all
    have data: "poller_3a_data p1\<lparr>uid := u, uid_len := k, sak := v\<rparr> = poller_3a_data p\<lparr>uid := u, uid_len := k, sak := v\<rparr>" for u k v
      by (simp add: p1_def)
    show ?thesis using IH [unfolded append nums data] unfolding p'(1) sak bind_r_simps prod.case .
  qed
qed

text \<open>Such a card is silent when it is halted, and its radio has no state of its own.\<close>

lemma card_answer_world: "answer_frame rx answer w = Inr (e, rx', w') \<Longrightarrow> w' = w"
  by (auto simp: answer_frame_def bind_r_Inr_iff split: option.splits)

lemma card_exchange_world: "exchange_own_buffers (card_radio c) p fwt w = Inr (e, p', w') \<Longrightarrow> w' = w"
  by (auto simp: exchange_own_buffers_def exchange_frame_def bind_r_Inr_iff furi_check_def card_radio_def
      split: if_splits dest!: card_answer_world)

lemma card_reset_world: "activate_reset (card_radio c) p w = Inr (p', w') \<Longrightarrow> w' = w"
  by (auto simp: activate_reset_def iso14443_3a_poller_halt_def bind_r_Inr_iff Let_def split: if_splits dest!: card_exchange_world)

text \<open>C4 A card that follows the standard, with an identifier of four, seven or ten bytes, is activated: the
  poller reports no error and hands on exactly the identifier, the answer to the request and the
  acknowledge byte of the card, whatever the poller was doing before.\<close>

theorem activation_reads_identifier:
  assumes "length (card_uid c) \<in> {4, 7, 10}" and "card_sak c AND ISO14443_3A_POLLER_SAK_CASCADE_BIT = 0"
    and "poller_buffer (poller_3a_tx p)" and "poller_buffer (poller_3a_rx p)" and "6 \<le> fuel"
  shows "\<exists>p'. iso14443_3a_poller_activate (card_radio c) fuel p (Some d) w = Inr (Some (Iso14443_3aErrorNone, p',
    Some \<lparr>uid = card_uid c @ replicate (10 - length (card_uid c)) 0, uid_len = length (card_uid c),
          atqa = [fst (card_atqa c), snd (card_atqa c)], sak = card_sak c\<rparr>, w))"
proof -
  obtain p1 w1 where p1: "activate_reset (card_radio c) p w = Inr (p1, w1)" "poller_3a_ok p1" "poller_3a_data p1 = empty_3a_data"
      "col_res p1 = empty_col_res"
    using card.activate_reset_total [OF assms(3,4), of c w] by auto
  have w1: "w1 = w" using p1(1) by (rule card_reset_world)
  obtain rx where rx: "nfc_iso14443a_poller_trx_short_frame (card_radio c) NfcIso14443aShortFrameSensReq (poller_3a_rx p1)
      ISO14443_3A_FDT_LISTEN_FC w1 = Inr (NfcErrorNone, rx, w)" "holds 512 rx [fst (card_atqa c), snd (card_atqa c)]"
    using answer_some [of "poller_3a_rx p1" "[fst (card_atqa c), snd (card_atqa c)]" w] p1(2) by (auto simp: card_radio_def poller_3a_ok_def w1)
  define p2 where "p2 = start_col_res [fst (card_atqa c), snd (card_atqa c)] (p1\<lparr>poller_3a_rx := rx\<rparr>)"
  have resp: "bit_buffer_write_bytes rx [0, 0] 2 = Inr [fst (card_atqa c), snd (card_atqa c)]"
    using holds_write_bytes [OF rx(2), of "[0, 0]"] by (simp add: numeral_2_eq_2)
  have levels: "2 * length (uid_levels (card_uid c)) \<le> fuel"
    using assms(1,5) length_uid_levels(2,3) by (auto simp: length_uid_levels)
  have "poller_3a_ok p2" using p1(2) holds_ok(1,2) [OF rx(2)]
    by (simp add: p2_def start_col_res_def poller_3a_ok_def poller_buffer_def)
  then obtain p3 where p3: "col_res_loop (card_radio c) fuel Iso14443_3aErrorNone p2 w = Inr (Some (Iso14443_3aErrorNone, p3, w))"
      "poller_3a_state p3 = Iso14443_3aPollerStateActivated"
      "poller_3a_data p3 = (poller_3a_data p2)\<lparr>uid := card_uid c @ replicate (10 - length (card_uid c)) 0,
        uid_len := length (card_uid c), sak := card_sak c\<rparr>"
    using card_loop [of p2 0 c "card_uid c" "[]" fuel Iso14443_3aErrorNone w] assms(1,2) levels p1(3)
    by (auto simp: p2_def start_col_res_def empty_3a_data_def)
  show ?thesis
    unfolding iso14443_3a_poller_activate_def p1(1) bind_r_simps prod.case rx(1) Let_def
    using resp p1(3,4) p3 holds_size [OF rx(2)]
    by (simp add: empty_col_res_def p2_def [symmetric]) (simp add: p2_def start_col_res_def empty_3a_data_def)
qed

theorem activation_reads_identifier_witness:
  "\<exists>p p'. iso14443_3a_poller_alloc = Inr p \<and>
    iso14443_3a_poller_activate (card_radio \<lparr>card_uid = [4, 0x1F, 0x62, 0x8A, 0x5B, 0x61, 0x80], card_atqa = (0x44, 0), card_sak = 0x20\<rparr>)
      6 p (Some empty_3a_data) () = Inr (Some (Iso14443_3aErrorNone, p',
      Some \<lparr>uid = [4, 0x1F, 0x62, 0x8A, 0x5B, 0x61, 0x80, 0, 0, 0], uid_len = 7, atqa = [0x44, 0], sak = 0x20\<rparr>, ()))"
proof -
  obtain p where p: "iso14443_3a_poller_alloc = Inr p" "poller_buffer (poller_3a_tx p)" "poller_buffer (poller_3a_rx p)"
    using fresh_poller by blast
  then show ?thesis
    using activation_reads_identifier [of "\<lparr>card_uid = [4, 0x1F, 0x62, 0x8A, 0x5B, 0x61, 0x80], card_atqa = (0x44, 0), card_sak = 0x20\<rparr>"
        p 6 empty_3a_data "()"]
    by (auto simp: ISO14443_3A_POLLER_SAK_CASCADE_BIT_def numeral_3_eq_3)
qed

end
