(* ===== verification/Iso14443_4a_Session.thy ===== *)
theory Iso14443_4a_Session
  imports Iso14443_4a Iso14443_3a_Poller
begin

text \<open>
  The two sides of ISO 14443-4A together: the answer to select survives its frame, a whole session of
  commands and answers crosses the stack of both sides (block layer, frames with checksum, field), and
  the poller that counts its attempts ends after twenty of them.
\<close>

unbundle bit_operations_syntax

section \<open>The answer to select\<close>

definition ats_bytes :: "Iso14443_4aAtsData \<Rightarrow> u8 list" where
  "ats_bytes data = ats_tl data # (if \<not> unat (ats_tl data) > 1 then [] else
     ats_t0 data # (if has (ats_t0 data) ISO14443_4A_ATS_T0_TA1 then [ats_ta_1 data] else []) @
       (if has (ats_t0 data) ISO14443_4A_ATS_T0_TB1 then [ats_tb_1 data] else []) @
       (if has (ats_t0 data) ISO14443_4A_ATS_T0_TC1 then [ats_tc_1 data] else []) @ t1_tk data)"

text \<open>Well-formed data: the length byte is right and what is not sent has its reset value.\<close>

definition ats_ok :: "Iso14443_4aAtsData \<Rightarrow> bool" where
  "ats_ok data \<longleftrightarrow> unat (ats_tl data) = length (ats_bytes data) \<and>
     (\<not> unat (ats_tl data) > 1 \<longrightarrow> data = iso14443_4a_reset) \<and>
     (has (ats_t0 data) ISO14443_4A_ATS_T0_TA1 \<or> ats_ta_1 data = 0) \<and>
     (has (ats_t0 data) ISO14443_4A_ATS_T0_TB1 \<or> ats_tb_1 data = 0) \<and>
     (has (ats_t0 data) ISO14443_4A_ATS_T0_TC1 \<or> ats_tc_1 data = 0)"

lemma holds_append_if:
  assumes "holds n buf bs" and "length bs < n"
  shows "\<exists>buf'. append_if present b buf = Inr buf' \<and> holds n buf' (bs @ (if present then [b] else []))"
  using holds_append_byte [OF assms, of b] assms(1) by (simp add: append_if_def)

lemma holds_append_bytes:
  assumes "holds n buf bs" and "length bs + length cs \<le> n"
  shows "\<exists>buf'. bit_buffer_append_bytes buf cs (length cs) = Inr buf' \<and> holds n buf' (bs @ cs)"
  using assms holds_ok [OF assms(1)] holds_size [OF assms(1)]
  by (simp add: bit_buffer_append_bytes_def Let_def memcpy_Inr) (simp add: holds_def bit_buffer_ok_def)

lemma ats_frame_bytes:
  assumes "ats_ok data" and "bit_buffer_ok buf" and "capacity_bytes buf = 256"
  shows "\<exists>b. ats_frame data buf = Inr b \<and> holds 256 b (ats_bytes data)"
proof -
  obtain b1 where b1: "bit_buffer_append_byte (bit_buffer_reset buf) (ats_tl data) = Inr b1" "holds 256 b1 [ats_tl data]"
    using holds_append_byte [OF holds_reset [OF assms(2,3)], of "ats_tl data"] by auto
  show ?thesis
  proof (cases "unat (ats_tl data) > 1")
    case False
    then show ?thesis using b1 by (simp add: ats_frame_def ats_bytes_def)
  next
    case True
    let ?ta = "if has (ats_t0 data) ISO14443_4A_ATS_T0_TA1 then [ats_ta_1 data] else []"
    let ?tb = "if has (ats_t0 data) ISO14443_4A_ATS_T0_TB1 then [ats_tb_1 data] else []"
    let ?tc = "if has (ats_t0 data) ISO14443_4A_ATS_T0_TC1 then [ats_tc_1 data] else []"
    have len: "length ([ats_tl data] @ [ats_t0 data] @ ?ta @ ?tb @ ?tc @ t1_tk data) \<le> 255"
    proof -
      have "unat (ats_tl data) < 2 ^ LENGTH(8)" by (rule unsigned_less)
      moreover have "ats_bytes data = [ats_tl data] @ [ats_t0 data] @ ?ta @ ?tb @ ?tc @ t1_tk data"
        using True by (simp add: ats_bytes_def)
      ultimately show ?thesis using assms(1) by (simp add: ats_ok_def del: length_append)
    qed
    obtain b2 where b2: "bit_buffer_append_byte b1 (ats_t0 data) = Inr b2" "holds 256 b2 ([ats_tl data] @ [ats_t0 data])"
      using holds_append_byte [OF b1(2), of "ats_t0 data"] by auto
    obtain b3 where b3: "append_if (has (ats_t0 data) ISO14443_4A_ATS_T0_TA1) (ats_ta_1 data) b2 = Inr b3"
        "holds 256 b3 (([ats_tl data] @ [ats_t0 data]) @ ?ta)"
      using holds_append_if [OF b2(2)] len by auto
    obtain b4 where b4: "append_if (has (ats_t0 data) ISO14443_4A_ATS_T0_TB1) (ats_tb_1 data) b3 = Inr b4"
        "holds 256 b4 ((([ats_tl data] @ [ats_t0 data]) @ ?ta) @ ?tb)"
      using holds_append_if [OF b3(2)] len by auto
    obtain b5 where b5: "append_if (has (ats_t0 data) ISO14443_4A_ATS_T0_TC1) (ats_tc_1 data) b4 = Inr b5"
        "holds 256 b5 (((([ats_tl data] @ [ats_t0 data]) @ ?ta) @ ?tb) @ ?tc)"
      using holds_append_if [OF b4(2)] len by auto
    obtain b6 where "bit_buffer_append_bytes b5 (t1_tk data) (length (t1_tk data)) = Inr b6"
        "holds 256 b6 ((((([ats_tl data] @ [ats_t0 data]) @ ?ta) @ ?tb) @ ?tc) @ t1_tk data)"
      using holds_append_bytes [OF b5(2), of "t1_tk data"] len by auto
    then show ?thesis
      using True b1(1) b2(1) b3(1) b4(1) b5 by (cases "t1_tk data = []") (simp_all add: ats_frame_def ats_bytes_def)
  qed
qed

lemma interface_byte_read:
  assumes "holds n buf (pre @ (if present then [b] else []) @ post)"
  shows "interface_byte present buf (length pre) old = Inr (if present then b else old, length (pre @ (if present then [b] else [])))"
  using holds_get_byte [OF assms, of "length pre"] by (simp add: interface_byte_def nth_append)

lemma holds_write_mid:
  assumes "holds n buf (pre @ bs)"
  shows "bit_buffer_write_bytes_mid buf (replicate (length bs) 0) (length pre) (length bs) = Inr bs"
proof -
  have "take (length bs) (drop (length pre) (bb_data buf)) = drop (length pre) (take (length (pre @ bs)) (bb_data buf))"
    by (simp add: take_drop add.commute)
  then show ?thesis
    using assms holds_size [OF assms] holds_ok(3,4) [OF assms]
    by (simp add: bit_buffer_write_bytes_mid_def memcpy_Inr) (simp add: holds_def)
qed

lemma ats_parse_bytes:
  assumes "ats_ok data" and "holds n buf (ats_bytes data)"
  shows "iso14443_4a_ats_parse iso14443_4a_reset buf = Inr (True, data)"
proof -
  have size: "bit_buffer_get_size_bytes buf = unat (ats_tl data)" using assms by (simp add: ats_ok_def)
  have b0: "bit_buffer_get_byte buf 0 = Inr (ats_tl data)"
    using holds_get_byte [OF assms(2), of 0] by (simp add: ats_bytes_def)
  show ?thesis
  proof (cases "unat (ats_tl data) > 1")
    case False
    then have "data = iso14443_4a_reset" using assms(1) by (simp add: ats_ok_def)
    then show ?thesis using False size b0 by (simp add: iso14443_4a_ats_parse_def Let_def iso14443_4a_reset_def)
  next
    case True
    let ?ta = "if has (ats_t0 data) ISO14443_4A_ATS_T0_TA1 then [ats_ta_1 data] else []"
    let ?tb = "if has (ats_t0 data) ISO14443_4A_ATS_T0_TB1 then [ats_tb_1 data] else []"
    let ?tc = "if has (ats_t0 data) ISO14443_4A_ATS_T0_TC1 then [ats_tc_1 data] else []"
    let ?min = "2 + of_bool (has (ats_t0 data) ISO14443_4A_ATS_T0_TA1) + of_bool (has (ats_t0 data) ISO14443_4A_ATS_T0_TB1) +
      of_bool (has (ats_t0 data) ISO14443_4A_ATS_T0_TC1) :: nat"
    have bytes: "ats_bytes data = [ats_tl data, ats_t0 data] @ ?ta @ ?tb @ ?tc @ t1_tk data"
      using True by (simp add: ats_bytes_def)
    have len: "unat (ats_tl data) = ?min + length (t1_tk data)"
      using assms(1) bytes by (simp add: ats_ok_def)
    have b1: "bit_buffer_get_byte buf 1 = Inr (ats_t0 data)"
      using holds_get_byte [OF assms(2), of 1] by (simp add: bytes)
    note h = assms(2) [unfolded bytes]
    have i1: "interface_byte (has (ats_t0 data) ISO14443_4A_ATS_T0_TA1) buf 2 old =
        Inr (if has (ats_t0 data) ISO14443_4A_ATS_T0_TA1 then ats_ta_1 data else old, length ([ats_tl data, ats_t0 data] @ ?ta))" for old
      using interface_byte_read [OF h, of old] by (simp add: numeral_2_eq_2)
    have i2: "interface_byte (has (ats_t0 data) ISO14443_4A_ATS_T0_TB1) buf (length ([ats_tl data, ats_t0 data] @ ?ta)) old =
        Inr (if has (ats_t0 data) ISO14443_4A_ATS_T0_TB1 then ats_tb_1 data else old, length (([ats_tl data, ats_t0 data] @ ?ta) @ ?tb))" for old
      using interface_byte_read [of n buf "[ats_tl data, ats_t0 data] @ ?ta", of _ "ats_tb_1 data" "?tc @ t1_tk data" old] h by simp
    have i3: "interface_byte (has (ats_t0 data) ISO14443_4A_ATS_T0_TC1) buf (length (([ats_tl data, ats_t0 data] @ ?ta) @ ?tb)) old =
        Inr (if has (ats_t0 data) ISO14443_4A_ATS_T0_TC1 then ats_tc_1 data else old,
          length ((([ats_tl data, ats_t0 data] @ ?ta) @ ?tb) @ ?tc))" for old
      using interface_byte_read [of n buf "([ats_tl data, ats_t0 data] @ ?ta) @ ?tb", of _ "ats_tc_1 data" "t1_tk data" old] h by simp
    have mid: "bit_buffer_write_bytes_mid buf (replicate (length (t1_tk data)) 0)
        (length ((([ats_tl data, ats_t0 data] @ ?ta) @ ?tb) @ ?tc)) (length (t1_tk data)) = Inr (t1_tk data)"
      using holds_write_mid [of n buf "(([ats_tl data, ats_t0 data] @ ?ta) @ ?tb) @ ?tc" "t1_tk data"] h by simp
    have d: "iso14443_4a_reset\<lparr>ats_tl := ats_tl data, ats_t0 := ats_t0 data,
        ats_ta_1 := if has (ats_t0 data) ISO14443_4A_ATS_T0_TA1 then ats_ta_1 data else 0,
        ats_tb_1 := if has (ats_t0 data) ISO14443_4A_ATS_T0_TB1 then ats_tb_1 data else 0,
        ats_tc_1 := if has (ats_t0 data) ISO14443_4A_ATS_T0_TC1 then ats_tc_1 data else 0, t1_tk := t1_tk data\<rparr> = data"
      using assms(1) by (auto simp: ats_ok_def iso14443_4a_reset_def)
    have size_nz: "unat (ats_tl data) \<noteq> 0" using True by linarith
    have diff: "unat (ats_tl data) - ?min = length (t1_tk data)" "(unat (ats_tl data) < ?min) = False" using len by simp_all
    show ?thesis
      unfolding iso14443_4a_ats_parse_def size Let_def b0 b1 bind_r_simps i1 i2 i3 prod.case diff mid if_False
      using True size_nz d by (cases "t1_tk data = []") (simp_all add: iso14443_4a_reset_def split del: if_split cong: if_cong)
  qed
qed

text \<open>C23 The answer to select a listener builds from its data is read by the parser of the poller as the same
  data: length, format byte, the interface bytes that are announced, and the historical bytes.\<close>

theorem ats_roundtrip:
  assumes "ats_ok data" and "bit_buffer_ok buf" and "capacity_bytes buf = 256"
  shows "\<exists>b. ats_frame data buf = Inr b \<and> iso14443_4a_ats_parse iso14443_4a_reset b = Inr (True, data)"
  using ats_frame_bytes [OF assms] ats_parse_bytes [OF assms(1)] by blast

theorem ats_roundtrip_witness:
  "\<exists>buf b. bit_buffer_alloc 256 = Inr buf \<and>
    ats_frame \<lparr>ats_tl = 6, ats_t0 = 0x75, ats_ta_1 = 0x77, ats_tb_1 = 0x81, ats_tc_1 = 2, t1_tk = [0x80]\<rparr> buf = Inr b \<and>
    iso14443_4a_ats_parse iso14443_4a_reset b =
      Inr (True, \<lparr>ats_tl = 6, ats_t0 = 0x75, ats_ta_1 = 0x77, ats_tb_1 = 0x81, ats_tc_1 = 2, t1_tk = [0x80]\<rparr>)"
proof -
  obtain buf where "bit_buffer_alloc 256 = Inr buf" "bit_buffer_ok buf" "capacity_bytes buf = 256"
    by (simp add: bit_buffer_alloc_def bit_buffer_ok_def)
  then show ?thesis
    using ats_roundtrip [of "\<lparr>ats_tl = 6, ats_t0 = 0x75, ats_ta_1 = 0x77, ats_tb_1 = 0x81, ats_tc_1 = 2, t1_tk = [0x80]\<rparr>" buf]
    by (simp add: ats_ok_def ats_bytes_def has_def firmware_const)
qed

text \<open>Historical bytes are only stored when there are any: those of the card before stay.\<close>

lemma ats_parse_keeps_old_bytes:
  assumes "holds n buf [2, 0]"
  shows "iso14443_4a_ats_parse data buf = Inr (True, data\<lparr>ats_tl := 2, ats_t0 := 0\<rparr>)"
  using holds_get_byte [OF assms, of 0] holds_get_byte [OF assms, of 1] holds_size [OF assms]
  by (simp add: iso14443_4a_ats_parse_def Let_def interface_byte_def has_def)

section \<open>The field between poller and listener\<close>

text \<open>A listener in front of a poller: what one side transmits the other one receives, and a listener that
  does not answer is a timeout. The application on the listener answers every command \<open>c\<close> with
  \<open>app c\<close> and keeps the commands; frames of more than 256 bytes are not received.\<close>

record field_world =
  fw_listener :: Iso14443_4aListener
  fw_sent :: "BitBuffer option"
  fw_log :: "u8 list list"

type_synonym listener_world = "BitBuffer option \<times> u8 list list"

definition field_transmit :: "listener_world nfc_listener_tx" where
  "field_transmit buf = (\<lambda>(_, log). (NfcErrorNone, Some buf, log))"

definition empty_buffer :: BitBuffer where
  "empty_buffer = \<lparr>bb_data = replicate 256 0, bb_parity = replicate 32 0, capacity_bytes = 256, size_bits = 0\<rparr>"

definition field_application :: "(u8 list \<Rightarrow> u8 list) \<Rightarrow> listener_world listener_4a_callback" where
  "field_application app event l v = (case event of
     Iso14443_4aListenerEventTypeReceivedData \<Rightarrow>
       let command = sent_bytes (listener_rx l); answer = app command
       in bind_r (bit_buffer_copy_bytes empty_buffer answer (length answer)) (\<lambda>reply.
          bind_r (iso14443_4a_listener_send_block field_transmit l reply (fst v, snd v @ [command])) (\<lambda>(_, l1, v1).
            Inr (NfcCommandContinue, l1, v1)))
   | _ \<Rightarrow> Inr (NfcCommandContinue, l, v))"

definition field_trx ::
  "(u8 list \<Rightarrow> u8 list) \<Rightarrow> BitBuffer \<Rightarrow> BitBuffer \<Rightarrow> u32 \<Rightarrow> field_world \<Rightarrow> fault + NfcError \<times> BitBuffer \<times> field_world" where
  "field_trx app tx rx fwt w =
     (let frame = sent_bytes tx
      in if length frame > 256 then Inr (NfcErrorTimeout, rx, w)
         else bind_r (bit_buffer_copy_bytes empty_buffer frame (length frame)) (\<lambda>event_buffer.
           bind_r (iso14443_3a_listener_run (Some (iso14443_4a_listener_run field_transmit (Some (field_application app))))
               NfcEventTypeRxEnd event_buffer (fw_listener w) (None, fw_log w)) (\<lambda>(_, l, sent, log).
             answer_frame rx (map_option sent_bytes sent) \<lparr>fw_listener = l, fw_sent = sent, fw_log = log\<rparr>)))"

definition field_radio :: "(u8 list \<Rightarrow> u8 list) \<Rightarrow> field_world Nfc" where
  "field_radio app = \<lparr>nfc_poller_trx = field_trx app,
     nfc_iso14443a_poller_trx_short_frame = (\<lambda>frame rx fwt w. Inr (NfcErrorTimeout, rx, w)),
     nfc_iso14443a_poller_trx_sdd_frame = (\<lambda>tx rx fwt w. Inr (NfcErrorTimeout, rx, w))\<rparr>"

definition buffer_256 :: "BitBuffer \<Rightarrow> bool" where
  "buffer_256 buf \<longleftrightarrow> bit_buffer_ok buf \<and> capacity_bytes buf = 256"

definition poller_4a_ok :: "Iso14443_4aPoller \<Rightarrow> bool" where
  "poller_4a_ok p \<longleftrightarrow> poller_buffer (poller_3a_tx (iso14443_3a_poller p)) \<and> poller_buffer (poller_3a_rx (iso14443_3a_poller p)) \<and>
     buffer_256 (poller_tx p) \<and> buffer_256 (poller_rx p)"

definition listener_4a_ok :: "Iso14443_4aListener \<Rightarrow> bool" where
  "listener_4a_ok l \<longleftrightarrow> buffer_256 (listener_3a_tx (iso14443_3a_listener l)) \<and> buffer_256 (listener_rx l) \<and> buffer_256 (listener_tx l)"

lemma empty_buffer_ok: "buffer_256 empty_buffer"
  by (simp add: buffer_256_def empty_buffer_def bit_buffer_ok_def parity_buf_size_def)

lemma holds_buffer_256: "holds 256 buf bs \<Longrightarrow> buffer_256 buf"
  using holds_ok(1,2) by (simp add: buffer_256_def)

text \<open>What the listener sends is a frame closed with its checksum.\<close>

lemma listener_send_frame:
  assumes "listener_4a_ok l" and "holds 256 buf bs" and "length bs \<le> 254"
  shows "\<exists>tx3. listener_send field_transmit l buf v = Inr (Iso14443_3aErrorNone,
      l\<lparr>iso14443_3a_listener := (iso14443_3a_listener l)\<lparr>listener_3a_tx := tx3\<rparr>\<rparr>, Some tx3, snd v) \<and>
    holds 256 tx3 (bs @ crc_a bs)"
proof -
  obtain tx1 where tx1: "bit_buffer_copy (listener_3a_tx (iso14443_3a_listener l)) buf = Inr tx1" "holds 256 tx1 bs"
    using holds_copy [of "listener_3a_tx (iso14443_3a_listener l)" 256 256 buf bs] assms
    by (auto simp: listener_4a_ok_def buffer_256_def)
  obtain tx3 where tx3: "iso14443_crc_append Iso14443CrcTypeA tx1 = Inr tx3" "holds 256 tx3 (bs @ crc_a bs)"
    using holds_close [OF tx1(2)] assms(3) by auto
  then show ?thesis
    by (cases v) (simp add: listener_send_def iso14443_3a_listener_send_standard_frame_def tx1(1) field_transmit_def)
qed

text \<open>A frame of the poller, closed with its checksum, is a standard frame for the listener; if the listener
  answers with such a frame, the poller receives its contents.\<close>

lemma field_exchange:
  assumes "poller_4a_ok p" and "holds 256 (poller_tx p) req" and "req \<noteq> []" and "length req \<le> 254" and "req \<noteq> [0x50, 0x00]"
    and run: "\<And>rx. holds 256 rx req \<Longrightarrow> \<exists>command l' tx3.
      iso14443_4a_listener_run field_transmit (Some (field_application app)) Iso14443_3aListenerEventTypeReceivedStandardFrame rx
        (fw_listener w) (None, fw_log w) = Inr (command, l', Some tx3, log) \<and>
      holds 256 tx3 (resp @ crc_a resp) \<and> P l'"
    and "resp \<noteq> []" and "length resp \<le> 254"
  shows "\<exists>p3 rx l' sent. poller_exchange (field_radio app) p fwt w = Inr (Iso14443_3aErrorNone,
      p\<lparr>iso14443_3a_poller := p3, poller_rx := rx\<rparr>, \<lparr>fw_listener = l', fw_sent = sent, fw_log = log\<rparr>) \<and>
    holds 256 rx resp \<and> P l' \<and> poller_4a_ok (p\<lparr>iso14443_3a_poller := p3, poller_rx := rx\<rparr>)"
proof -
  let ?p3 = "iso14443_3a_poller p"
  have p: "poller_buffer (poller_3a_tx ?p3)" "poller_buffer (poller_3a_rx ?p3)" "buffer_256 (poller_tx p)" "buffer_256 (poller_rx p)"
    using assms(1) by (simp_all add: poller_4a_ok_def)
  obtain tx1 where tx1: "bit_buffer_copy (poller_3a_tx ?p3) (poller_tx p) = Inr tx1" "holds 512 tx1 req"
    using holds_copy [of "poller_3a_tx ?p3" 512 256 "poller_tx p" req] p(1) assms(2,4) by (auto simp: poller_buffer_def)
  obtain tx2 where tx2: "iso14443_crc_append Iso14443CrcTypeA tx1 = Inr tx2" "holds 512 tx2 (req @ crc_a req)"
    using holds_close [OF tx1(2)] assms(4) by auto
  obtain ev where ev: "bit_buffer_copy_bytes empty_buffer (req @ crc_a req) (length (req @ crc_a req)) = Inr ev" "holds 256 ev (req @ crc_a req)"
    using holds_copy_bytes [of empty_buffer 256 "req @ crc_a req"] empty_buffer_ok assms(4) by (auto simp: buffer_256_def)
  obtain ev1 where ev1: "iso14443_crc_trim ev = Inr ev1" "holds 256 ev1 req" using holds_trim [OF ev(2)] assms(3) by auto
  have check: "iso14443_crc_check Iso14443CrcTypeA ev = Inr True" using holds_closed_check [OF ev(2)] assms(3) by simp
  have halt: "iso14443_3a_listener_halt_received ev = Inr False"
  proof (cases "length req = 2")
    case True
    then obtain a b where r: "req = [a, b]" by (auto simp: length_Suc_conv numeral_2_eq_2)
    then show ?thesis
      using holds_get_byte [OF ev(2), of 0] holds_get_byte [OF ev(2), of 1] holds_size [OF ev(2)] check assms(5)
      by (auto simp: iso14443_3a_listener_halt_received_def)
  next
    case False
    then show ?thesis using holds_size [OF ev(2)] by (simp add: iso14443_3a_listener_halt_received_def)
  qed
  obtain command l' tx3 where l': "iso14443_4a_listener_run field_transmit (Some (field_application app))
      Iso14443_3aListenerEventTypeReceivedStandardFrame ev1 (fw_listener w) (None, fw_log w) = Inr (command, l', Some tx3, log)"
      "holds 256 tx3 (resp @ crc_a resp)" "P l'"
    using run [OF ev1(2)] by blast
  define w1 where "w1 = \<lparr>fw_listener = l', fw_sent = Some tx3, fw_log = log\<rparr>"
  obtain rx3 where rx3: "answer_frame (poller_3a_rx ?p3) (Some (resp @ crc_a resp)) w1 = Inr (NfcErrorNone, rx3, w1)"
      "holds 512 rx3 (resp @ crc_a resp)"
    using answer_some [OF p(2), of "resp @ crc_a resp" w1] assms(8) by auto
  have trx: "nfc_poller_trx (field_radio app) tx2 (poller_3a_rx ?p3) fwt w = Inr (NfcErrorNone, rx3, w1)"
    using assms(4) ev(1) rx3(1)
    by (simp add: field_radio_def field_trx_def holds_sent [OF tx2(2)] Let_def iso14443_3a_listener_run_def halt check ev1(1) l'(1)
        holds_sent [OF l'(2)] w1_def)
  obtain rx where rx: "bit_buffer_copy (poller_rx p) rx3 = Inr rx" "holds 256 rx (resp @ crc_a resp)"
    using holds_copy [of "poller_rx p" 256 512 rx3 "resp @ crc_a resp"] rx3(2) p(4) assms(8) by (auto simp: buffer_256_def)
  obtain rx2 where rx2: "iso14443_crc_trim rx = Inr rx2" "holds 256 rx2 resp" using holds_trim [OF rx(2)] assms(7) by auto
  have size: "bit_buffer_get_size_bytes (poller_tx p) = length req" "bit_buffer_get_size_bytes rx3 = length resp + 2"
    using holds_size [OF assms(2)] holds_size [OF rx3(2)] by simp_all
  have caps: "capacity_bytes (poller_3a_tx ?p3) = 512" "capacity_bytes (poller_rx p) = 256"
    using p by (simp_all add: poller_buffer_def buffer_256_def)
  have ex: "poller_exchange (field_radio app) p fwt w = Inr (Iso14443_3aErrorNone,
      p\<lparr>iso14443_3a_poller := ?p3\<lparr>poller_3a_tx := tx2, poller_3a_rx := rx3\<rparr>, poller_rx := rx2\<rparr>, w1)"
    using assms(4,7,8) holds_closed_check [OF rx3(2)]
    by (simp add: poller_exchange_def iso14443_3a_poller_send_standard_frame_def iso14443_3a_poller_standard_frame_exchange_def
        exchange_frame_def size caps tx1(1) tx2(1) trx rx(1) rx2(1))
  have "poller_4a_ok (p\<lparr>iso14443_3a_poller := ?p3\<lparr>poller_3a_tx := tx2, poller_3a_rx := rx3\<rparr>, poller_rx := rx2\<rparr>)"
    using p holds_ok(1,2) [OF tx2(2)] holds_ok(1,2) [OF rx3(2)] holds_buffer_256 [OF rx2(2)]
    by (simp add: poller_4a_ok_def poller_buffer_def)
  then show ?thesis using ex rx2(2) l'(3) unfolding w1_def by blast
qed

section \<open>A session\<close>

text \<open>Both sides are ready to exchange blocks: the poller with one of the two block numbers, the listener
  active and without an address of its own.\<close>

definition poller_ready :: "Iso14443_4aPoller \<Rightarrow> bool" where
  "poller_ready p \<longleftrightarrow> poller_4a_ok p \<and> plain_pcb (pcb (poller_layer p))"

definition listener_ready :: "Iso14443_4aListener \<Rightarrow> bool" where
  "listener_ready l \<longleftrightarrow> listener_4a_ok l \<and> listener_state l = Iso14443_4aListenerStateActive \<and>
     (cid (listener_layer l) = ISO14443_4_LAYER_CID_NOT_SUPPORTED \<or> cid (listener_layer l) = 0)"

text \<open>A block with a command: the application gets the command, and its answer goes back in a block with
  the same control byte.\<close>

lemma listener_answers_block:
  assumes "listener_ready l" and "plain_pcb b" and "holds 256 rx (b # command)" and "command \<noteq> []" and "length command \<le> 253"
    and "app command \<noteq> []" and "length (app command) \<le> 253"
  shows "\<exists>c l' tx3. iso14443_4a_listener_run field_transmit (Some (field_application app))
      Iso14443_3aListenerEventTypeReceivedStandardFrame rx l (None, log) = Inr (c, l', Some tx3, log @ [command]) \<and>
    holds 256 tx3 ((b # app command) @ crc_a (b # app command)) \<and> listener_ready l'"
proof -
  have l: "listener_4a_ok l" "buffer_256 (listener_rx l)" "buffer_256 (listener_tx l)"
      "cid (listener_layer l) = ISO14443_4_LAYER_CID_NOT_SUPPORTED \<or> cid (listener_layer l) = 0"
      "listener_state l = Iso14443_4aListenerStateActive"
    using assms(1) by (auto simp: listener_ready_def listener_4a_ok_def)
  define layer where "layer = (listener_layer l)\<lparr>can_pps := False, pcb := b, pcb_prev := b\<rparr>"
  obtain rx1 where rx1: "iso14443_4_layer_decode_command (listener_layer l) rx (listener_rx l) =
      Inr (result_skip\<lparr>result_data := True\<rparr>, layer, rx1)" "holds 256 rx1 command"
    using decode_command_plain [OF assms(2,3,4), of "listener_rx l" 256 "listener_layer l"] l assms(5)
    by (auto simp: buffer_256_def layer_def)
  define l1 where "l1 = l\<lparr>listener_layer := layer, listener_rx := rx1\<rparr>"
  obtain reply where reply: "bit_buffer_copy_bytes empty_buffer (app command) (length (app command)) = Inr reply" "holds 256 reply (app command)"
    using holds_copy_bytes [of empty_buffer 256 "app command"] empty_buffer_ok assms(7) by (auto simp: buffer_256_def)
  have "holds 256 (bit_buffer_reset (listener_tx l1)) []" using holds_reset l(3) by (simp add: l1_def buffer_256_def)
  then obtain tx where tx: "iso14443_4_layer_encode_response layer reply (bit_buffer_reset (listener_tx l1)) = Inr (True, layer, tx)"
      "holds 256 tx (b # app command)"
    using encode_response_plain [of layer 256 "bit_buffer_reset (listener_tx l1)" 256 reply "app command"] assms(2,7) reply(2)
    by (auto simp: layer_def)
  define l2 where "l2 = l1\<lparr>listener_layer := layer, listener_tx := tx\<rparr>"
  have ok2: "listener_4a_ok l2"
    using l(1) holds_buffer_256 [OF rx1(2)] holds_buffer_256 [OF tx(2)] by (simp add: l2_def l1_def listener_4a_ok_def)
  obtain tx3 where tx3: "listener_send field_transmit l2 tx (None, log @ [command]) = Inr (Iso14443_3aErrorNone,
      l2\<lparr>iso14443_3a_listener := (iso14443_3a_listener l2)\<lparr>listener_3a_tx := tx3\<rparr>\<rparr>, Some tx3, log @ [command])"
      "holds 256 tx3 ((b # app command) @ crc_a (b # app command))"
    using listener_send_frame [OF ok2 tx(2), of "(None, log @ [command])"] assms(7) by auto
  have app: "field_application app Iso14443_4aListenerEventTypeReceivedData l1 (None, log) = Inr (NfcCommandContinue,
      l2\<lparr>iso14443_3a_listener := (iso14443_3a_listener l2)\<lparr>listener_3a_tx := tx3\<rparr>\<rparr>, Some tx3, log @ [command])"
    using holds_sent [OF rx1(2)] tx(1) tx3(1) reply(1)
    by (simp add: field_application_def iso14443_4a_listener_send_block_def Let_def l1_def l2_def)
  have "listener_ready (l2\<lparr>iso14443_3a_listener := (iso14443_3a_listener l2)\<lparr>listener_3a_tx := tx3\<rparr>\<rparr>)"
    using ok2 l(4,5) holds_buffer_256 [OF tx3(2)] by (simp add: listener_ready_def listener_4a_ok_def l2_def l1_def layer_def)
  then show ?thesis
    using app tx3(2) rx1(1) l(5)
    by (simp add: iso14443_4a_listener_run_def block_received_def l1_def [symmetric] Let_def)
qed

lemma send_block_delivers:
  assumes "poller_ready p" and "listener_ready (fw_listener w)" and "holds 256 tx command" and "command \<noteq> []"
    and "length command \<le> 253" and "app command \<noteq> []" and "length (app command) \<le> 253" and "buffer_256 rx"
  shows "\<exists>p' rx' w'. iso14443_4a_poller_send_block (field_radio app) fuel p tx rx w = Inr (Some (Iso14443_4aErrorNone, p', rx', w')) \<and>
    holds 256 rx' (app command) \<and> poller_ready p' \<and> listener_ready (fw_listener w') \<and> fw_log w' = fw_log w @ [command]"
proof -
  let ?b = "pcb (poller_layer p)"
  have p: "poller_4a_ok p" "plain_pcb ?b" "holds 256 (bit_buffer_reset (poller_tx p)) []"
    using assms(1) holds_reset by (auto simp: poller_ready_def poller_4a_ok_def buffer_256_def)
  define layer where "layer = iso14443_4_layer_update_pcb True (poller_layer p)"
  have layer: "pcb_prev layer = ?b" "plain_pcb (pcb layer)"
    using plain_pcb_kinds [OF p(2)] by (simp_all add: layer_def iso14443_4_layer_update_pcb_def)
  obtain tx1 where tx1: "iso14443_4_layer_encode_command (poller_layer p) tx (bit_buffer_reset (poller_tx p)) = Inr (layer, tx1)"
      "holds 256 tx1 (?b # command)"
    using encode_command_plain [OF p(3) assms(3)] assms(5) by (auto simp: layer_def)
  define p1 where "p1 = p\<lparr>poller_layer := layer, poller_tx := tx1\<rparr>"
  have p1: "poller_4a_ok p1" "holds 256 (poller_tx p1) (?b # command)"
    using p(1) tx1(2) holds_buffer_256 by (auto simp: p1_def poller_4a_ok_def)
  have "?b # command \<noteq> [0x50, 0x00]" using p(2) by (auto simp: plain_pcb_def)
  then obtain p3 rx1 l' sent where ex: "poller_exchange (field_radio app) p1 (iso14443_4a_get_fwt_fc_max (poller_ats p)) w =
      Inr (Iso14443_3aErrorNone, p1\<lparr>iso14443_3a_poller := p3, poller_rx := rx1\<rparr>,
        \<lparr>fw_listener = l', fw_sent = sent, fw_log = fw_log w @ [command]\<rparr>)"
      "holds 256 rx1 (?b # app command)" "listener_ready l'" "poller_4a_ok (p1\<lparr>iso14443_3a_poller := p3, poller_rx := rx1\<rparr>)"
    using field_exchange [OF p1, of app w "fw_log w @ [command]" "?b # app command" listener_ready "iso14443_4a_get_fwt_fc_max (poller_ats p)"]
      listener_answers_block [of "fw_listener w" ?b _ command app "fw_log w"] assms(2,4-7) p(2) by auto
  have swtx: "swtx_loop (field_radio app) fuel p2 w2 = Inr (Some (None, p2, w2))" if "poller_rx p2 = rx1" for p2 w2
    using holds_starts_with [OF ex(2), of ISO14443_4A_SWTX] p(2) that
    by (subst swtx_loop.simps) (auto simp: plain_pcb_def ISO14443_4A_SWTX_def)
  obtain rx' where rx': "iso14443_4_layer_decode_response layer rx rx1 = Inr (True, layer, rx')" "holds 256 rx' (app command)"
    using decode_response_plain [of layer 256 rx1 "app command" rx 256] layer p(2) ex(2) assms(6,7,8) by (auto simp: buffer_256_def)
  have "poller_ready (p1\<lparr>iso14443_3a_poller := p3, poller_rx := rx1, poller_layer := layer\<rparr>)"
    using ex(4) layer by (simp add: poller_ready_def poller_4a_ok_def)
  then show ?thesis
    using ex(1,3) swtx rx'
    by (simp add: iso14443_4a_poller_send_block_def tx1(1) p1_def [symmetric]) (simp add: p1_def)
qed

text \<open>A list of commands, each sent with fresh buffers; the result is what the poller has received.\<close>

fun converse ::
  "'w Nfc \<Rightarrow> nat \<Rightarrow> u8 list list \<Rightarrow> Iso14443_4aPoller \<Rightarrow> 'w \<Rightarrow>
   fault + ((Iso14443_4aError \<times> u8 list) list \<times> Iso14443_4aPoller \<times> 'w) option" where
  "converse nfc fuel [] p w = Inr (Some ([], p, w))"
| "converse nfc fuel (command # commands) p w =
     bind_r (bit_buffer_copy_bytes empty_buffer command (length command)) (\<lambda>tx.
     bind_r (iso14443_4a_poller_send_block nfc fuel p tx empty_buffer w) (\<lambda>result. case result of None \<Rightarrow> Inr None
       | Some (error, p1, rx, w1) \<Rightarrow> bind_r (converse nfc fuel commands p1 w1) (\<lambda>rest. case rest of None \<Rightarrow> Inr None
           | Some (answers, p2, w2) \<Rightarrow> Inr (Some ((error, sent_bytes rx) # answers, p2, w2)))))"

lemma converse_delivers:
  assumes "poller_ready p" and "listener_ready (fw_listener w)"
    and "\<And>c. c \<in> set commands \<Longrightarrow> c \<noteq> [] \<and> length c \<le> 253 \<and> app c \<noteq> [] \<and> length (app c) \<le> 253"
  shows "\<exists>p' w'. converse (field_radio app) fuel commands p w =
      Inr (Some (map (\<lambda>c. (Iso14443_4aErrorNone, app c)) commands, p', w')) \<and> fw_log w' = fw_log w @ commands"
  using assms
proof (induction commands arbitrary: p w)
  case Nil
  then show ?case by simp
next
  case (Cons c commands)
  obtain tx where tx: "bit_buffer_copy_bytes empty_buffer c (length c) = Inr tx" "holds 256 tx c"
    using holds_copy_bytes [of empty_buffer 256 c] empty_buffer_ok Cons.prems(3) [of c] by (auto simp: buffer_256_def)
  obtain p1 rx w1 where step: "iso14443_4a_poller_send_block (field_radio app) fuel p tx empty_buffer w =
      Inr (Some (Iso14443_4aErrorNone, p1, rx, w1))" "holds 256 rx (app c)" "poller_ready p1" "listener_ready (fw_listener w1)"
      "fw_log w1 = fw_log w @ [c]"
    using send_block_delivers [OF Cons.prems(1,2) tx(2) _ _ _ _ empty_buffer_ok, of app fuel] Cons.prems(3) [of c] by auto
  obtain p' w' where "converse (field_radio app) fuel commands p1 w1 =
      Inr (Some (map (\<lambda>c. (Iso14443_4aErrorNone, app c)) commands, p', w'))" "fw_log w' = fw_log w1 @ commands"
    using Cons.IH [OF step(3,4)] Cons.prems(3) by auto
  then show ?case using tx(1) step(1,5) holds_sent [OF step(2)] by simp
qed

text \<open>Activation of this protocol: the request for the answer to select, and the answer.\<close>

lemma listener_answers_rats:
  assumes "listener_4a_ok l" and "listener_state l = Iso14443_4aListenerStateIdle" and "ats_ok (listener_ats l)"
    and "length (ats_bytes (listener_ats l)) \<le> 254" and "holds 256 rx [0xE0, 0x80]"
    and "cid (listener_layer l) = ISO14443_4_LAYER_CID_NOT_SUPPORTED"
  shows "\<exists>c l' tx3. iso14443_4a_listener_run field_transmit (Some (field_application app))
      Iso14443_3aListenerEventTypeReceivedStandardFrame rx l (None, log) = Inr (c, l', Some tx3, log) \<and>
    holds 256 tx3 (ats_bytes (listener_ats l) @ crc_a (ats_bytes (listener_ats l))) \<and> listener_ready l'"
proof -
  obtain tx where tx: "ats_frame (listener_ats l) (listener_tx l) = Inr tx" "holds 256 tx (ats_bytes (listener_ats l))"
    using ats_frame_bytes [OF assms(3)] assms(1) by (auto simp: listener_4a_ok_def buffer_256_def)
  have ok: "listener_4a_ok (l\<lparr>listener_tx := tx\<rparr>)" using assms(1) holds_buffer_256 [OF tx(2)] by (simp add: listener_4a_ok_def)
  obtain tx3 where tx3: "listener_send field_transmit (l\<lparr>listener_tx := tx\<rparr>) tx (None, log) = Inr (Iso14443_3aErrorNone,
      l\<lparr>listener_tx := tx, iso14443_3a_listener := (iso14443_3a_listener l)\<lparr>listener_3a_tx := tx3\<rparr>\<rparr>, Some tx3, log)"
      "holds 256 tx3 (ats_bytes (listener_ats l) @ crc_a (ats_bytes (listener_ats l)))"
    using listener_send_frame [OF ok tx(2) assms(4), of "(None, log)"] by auto
  have bytes: "bit_buffer_get_byte rx 0 = Inr 0xE0" "bit_buffer_get_byte rx (Suc 0) = Inr 0x80" "bit_buffer_get_size_bytes rx = 2"
    using holds_get_byte [OF assms(5), of 0] holds_get_byte [OF assms(5), of 1] holds_size [OF assms(5)] by simp_all
  show ?thesis
    using ok holds_buffer_256 [OF tx3(2)] tx3(2) assms(2,6)
    by (simp add: iso14443_4a_listener_run_def rats_received_def bytes ISO14443_4A_CMD_READ_ATS_def iso14443_4a_listener_send_ats_def tx(1)
        tx3(1) iso14443_4a_process_error_def Let_def ISO14443_4A_READ_ATS_CID_MASK_def listener_ready_def listener_4a_ok_def
        iso14443_4_layer_set_cid_def iso14443_4_layer_set_nad_supported_def)
qed

lemma read_ats_activates:
  assumes "poller_ready p" and "poller_ats p = iso14443_4a_reset" and "listener_4a_ok (fw_listener w)"
    and "listener_state (fw_listener w) = Iso14443_4aListenerStateIdle" and "ats_ok (listener_ats (fw_listener w))"
    and "length (ats_bytes (listener_ats (fw_listener w))) \<le> 254"
    and "cid (listener_layer (fw_listener w)) = ISO14443_4_LAYER_CID_NOT_SUPPORTED"
  shows "\<exists>p' w'. iso14443_4a_poller_read_ats (field_radio app) p w = Inr (Iso14443_4aErrorNone, p', w') \<and>
    poller_ready p' \<and> poller_ats p' = listener_ats (fw_listener w) \<and> listener_ready (fw_listener w') \<and> fw_log w' = fw_log w"
proof -
  let ?ats = "ats_bytes (listener_ats (fw_listener w))"
  have p: "poller_4a_ok p" "holds 256 (bit_buffer_reset (poller_tx p)) []"
    using assms(1) holds_reset by (auto simp: poller_ready_def poller_4a_ok_def buffer_256_def)
  obtain tx1 where tx1: "bit_buffer_append_byte (bit_buffer_reset (poller_tx p)) ISO14443_4A_CMD_READ_ATS = Inr tx1" "holds 256 tx1 [0xE0]"
    using holds_append_byte [OF p(2), of ISO14443_4A_CMD_READ_ATS] by (auto simp: ISO14443_4A_CMD_READ_ATS_def)
  obtain tx2 where tx2: "bit_buffer_append_byte tx1 (push_bit 4 ISO14443_4A_FSDI_256) = Inr tx2" "holds 256 tx2 [0xE0, 0x80]"
    using holds_append_byte [OF tx1(2), of "push_bit 4 ISO14443_4A_FSDI_256"] by (auto simp: ISO14443_4A_FSDI_256_def)
  define p1 where "p1 = p\<lparr>poller_tx := tx2\<rparr>"
  have p1: "poller_4a_ok p1" "holds 256 (poller_tx p1) [0xE0, 0x80]"
    using p(1) tx2(2) holds_buffer_256 by (auto simp: p1_def poller_4a_ok_def)
  have ne: "?ats \<noteq> []" by (simp add: ats_bytes_def)
  obtain p3 rx l' sent where ex: "poller_exchange (field_radio app) p1 ISO14443_4A_POLLER_ATS_FWT_FC w =
      Inr (Iso14443_3aErrorNone, p1\<lparr>iso14443_3a_poller := p3, poller_rx := rx\<rparr>,
        \<lparr>fw_listener = l', fw_sent = sent, fw_log = fw_log w\<rparr>)"
      "holds 256 rx ?ats" "listener_ready l'" "poller_4a_ok (p1\<lparr>iso14443_3a_poller := p3, poller_rx := rx\<rparr>)"
    using field_exchange [OF p1, of app w "fw_log w" ?ats listener_ready ISO14443_4A_POLLER_ATS_FWT_FC]
      listener_answers_rats [OF assms(3-6) _ assms(7), of _ app "fw_log w"] ne assms(6) by auto
  have "poller_ready (p1\<lparr>iso14443_3a_poller := p3, poller_rx := rx, poller_ats := listener_ats (fw_listener w)\<rparr>)"
    using ex(4) assms(1) by (simp add: poller_ready_def poller_4a_ok_def p1_def)
  then show ?thesis
    using ex(1,3) ats_parse_bytes [OF assms(5) ex(2)] assms(2)
    by (simp add: iso14443_4a_poller_read_ats_def tx1(1) tx2(1) p1_def [symmetric]) (simp add: p1_def)
qed

text \<open>C2 A whole session between the two stacks: after the request for the answer to select the poller holds the
  data of the listener, and then every command of up to 253 bytes reaches the application on the
  other side exactly once and in order, and every answer of up to 253 bytes comes back to the poller
  unchanged, without an error.\<close>

theorem session_delivers:
  assumes "iso14443_3a_poller_alloc = Inr p3" and "iso14443_4a_poller_alloc p3 = Inr p" and "iso14443_4a_listener_alloc ats = Inr l"
    and "ats_ok ats" and "unat (ats_tl ats) \<le> 254"
    and "\<forall>c\<in>set commands. c \<noteq> [] \<and> length c \<le> 253 \<and> app c \<noteq> [] \<and> length (app c) \<le> 253"
  shows "\<exists>p1 w1 p2 w2.
    iso14443_4a_poller_read_ats (field_radio app) p \<lparr>fw_listener = l, fw_sent = None, fw_log = []\<rparr> = Inr (Iso14443_4aErrorNone, p1, w1) \<and>
    poller_ats p1 = ats \<and>
    converse (field_radio app) fuel commands p1 w1 = Inr (Some (map (\<lambda>c. (Iso14443_4aErrorNone, app c)) commands, p2, w2)) \<and>
    fw_log w2 = commands"
proof -
  have p: "poller_ready p" "poller_ats p = iso14443_4a_reset"
    using assms(1,2) by (auto simp: iso14443_3a_poller_alloc_def iso14443_4a_poller_alloc_def bit_buffer_alloc_def poller_ready_def
        poller_4a_ok_def poller_buffer_def buffer_256_def bit_buffer_ok_def plain_pcb_def iso14443_4_layer_alloc_def
        iso14443_4_layer_reset_def firmware_const)
  have l: "listener_4a_ok l" "listener_state l = Iso14443_4aListenerStateIdle" "listener_ats l = ats"
      "cid (listener_layer l) = ISO14443_4_LAYER_CID_NOT_SUPPORTED"
    using assms(3) by (auto simp: iso14443_4a_listener_alloc_def bit_buffer_alloc_def listener_4a_ok_def buffer_256_def bit_buffer_ok_def
        iso14443_4_layer_alloc_def iso14443_4_layer_reset_def)
  have "length (ats_bytes ats) \<le> 254" using assms(4,5) by (simp add: ats_ok_def)
  then obtain p1 w1 where "iso14443_4a_poller_read_ats (field_radio app) p \<lparr>fw_listener = l, fw_sent = None, fw_log = []\<rparr> =
      Inr (Iso14443_4aErrorNone, p1, w1)" "poller_ready p1" "poller_ats p1 = ats" "listener_ready (fw_listener w1)" "fw_log w1 = []"
    using read_ats_activates [OF p, of "\<lparr>fw_listener = l, fw_sent = None, fw_log = []\<rparr>" app] l assms(4) by auto
  moreover obtain p2 w2 where "converse (field_radio app) fuel commands p1 w1 =
      Inr (Some (map (\<lambda>c. (Iso14443_4aErrorNone, app c)) commands, p2, w2))" "fw_log w2 = commands"
    using converse_delivers [OF calculation(2,4), of commands app fuel] assms(6) calculation(5) by auto
  ultimately show ?thesis by blast
qed

lemma ats_tl_reset: "ats_tl iso14443_4a_reset = 1"
  by (simp add: iso14443_4a_reset_def)

theorem session_delivers_witness:
  "\<exists>p3 p l p1 w1 p2 w2. iso14443_3a_poller_alloc = Inr p3 \<and> iso14443_4a_poller_alloc p3 = Inr p \<and>
    iso14443_4a_listener_alloc iso14443_4a_reset = Inr l \<and>
    iso14443_4a_poller_read_ats (field_radio (\<lambda>c. c @ [0x90, 0])) p \<lparr>fw_listener = l, fw_sent = None, fw_log = []\<rparr> =
      Inr (Iso14443_4aErrorNone, p1, w1) \<and> poller_ats p1 = iso14443_4a_reset \<and>
    converse (field_radio (\<lambda>c. c @ [0x90, 0])) 0 [[0, 0xA4], [0xB0]] p1 w1 =
      Inr (Some ([(Iso14443_4aErrorNone, [0, 0xA4, 0x90, 0]), (Iso14443_4aErrorNone, [0xB0, 0x90, 0])], p2, w2)) \<and>
    fw_log w2 = [[0, 0xA4], [0xB0]]"
proof -
  obtain p3 p l where a: "iso14443_3a_poller_alloc = Inr p3" "iso14443_4a_poller_alloc p3 = Inr p"
      "iso14443_4a_listener_alloc iso14443_4a_reset = Inr l"
    by (simp add: iso14443_3a_poller_alloc_def iso14443_4a_poller_alloc_def iso14443_4a_listener_alloc_def bit_buffer_alloc_def)
  have "ats_ok iso14443_4a_reset" by (simp add: ats_ok_def ats_bytes_def iso14443_4a_reset_def)
  from session_delivers [OF a this, of "[[0, 0xA4], [0xB0]]" "\<lambda>c. c @ [0x90, 0]" 0]
  have "\<exists>p1 w1 p2 w2.
    iso14443_4a_poller_read_ats (field_radio (\<lambda>c. c @ [0x90, 0])) p \<lparr>fw_listener = l, fw_sent = None, fw_log = []\<rparr> =
      Inr (Iso14443_4aErrorNone, p1, w1) \<and> poller_ats p1 = iso14443_4a_reset \<and>
    converse (field_radio (\<lambda>c. c @ [0x90, 0])) 0 [[0, 0xA4], [0xB0]] p1 w1 =
      Inr (Some ([(Iso14443_4aErrorNone, [0, 0xA4, 0x90, 0]), (Iso14443_4aErrorNone, [0xB0, 0x90, 0])], p2, w2)) \<and>
    fw_log w2 = [[0, 0xA4], [0xB0]]"
    by (simp add: ats_tl_reset del: converse.simps)
  then show ?thesis using a by fast
qed

section \<open>Time extensions\<close>

text \<open>A radio that counts the exchanges.\<close>

definition counting :: "'w Nfc \<Rightarrow> ('w \<times> nat) Nfc" where
  "counting nfc =
     \<lparr>nfc_poller_trx = (\<lambda>tx rx fwt (w, k). bind_r (nfc_poller_trx nfc tx rx fwt w) (\<lambda>(e, rx1, w1). Inr (e, rx1, w1, k + 1))),
      nfc_iso14443a_poller_trx_short_frame = (\<lambda>frame rx fwt (w, k). bind_r (nfc_iso14443a_poller_trx_short_frame nfc frame rx fwt w)
        (\<lambda>(e, rx1, w1). Inr (e, rx1, w1, k + 1))),
      nfc_iso14443a_poller_trx_sdd_frame = (\<lambda>tx rx fwt (w, k). bind_r (nfc_iso14443a_poller_trx_sdd_frame nfc tx rx fwt w)
        (\<lambda>(e, rx1, w1). Inr (e, rx1, w1, k + 1)))\<rparr>"

lemma exchange_counted:
  "poller_exchange (counting nfc) p fwt (w, k) = Inr (e, p', w', k') \<Longrightarrow> k' = k + 1"
  by (auto simp: poller_exchange_def iso14443_3a_poller_send_standard_frame_def iso14443_3a_poller_standard_frame_exchange_def
      exchange_frame_def counting_def bind_r_Inr_iff furi_check_def split: if_splits)

lemma pwt_ext_loop_counted:
  "pwt_ext_loop (counting nfc) n p rx (w, k) = Inr (e, p', rx', w', k') \<Longrightarrow> k' \<le> k + max n 1"
proof (induction n arbitrary: p rx w k)
  case 0
  then show ?case
    by (subst (asm) pwt_ext_loop.simps) (auto simp: bind_r_Inr_iff dest!: exchange_counted split: if_splits)
next
  case (Suc n)
  obtain e1 p1 w1 k1 where ex: "poller_exchange (counting nfc) (p\<lparr>poller_rx := bit_buffer_reset (poller_rx p)\<rparr>)
      (iso14443_4a_get_fwt_fc_max (poller_ats p)) (w, k) = Inr (e1, p1, w1, k1)"
    using Suc.prems by (subst (asm) pwt_ext_loop.simps) (auto simp: bind_r_Inr_iff)
  have k1: "k1 = k + 1" using ex by (rule exchange_counted)
  show ?case
    using Suc.prems Suc.IH [of _ _ w1 k1]
    by (subst (asm) (1) pwt_ext_loop.simps) (fastforce simp: ex k1 bind_r_Inr_iff split: if_splits)
qed

text \<open>C24 However often a card asks for more time, the sending function for extended waiting times ends after at
  most twenty exchanges: with every radio and every card, if it does not stop on a failed check it
  returns, and it has used the radio no more than twenty times.\<close>

theorem pwt_ext_bounded:
  "case iso14443_4a_poller_send_block_pwt_ext (counting nfc) p tx rx (w, k) of
     Inl _ \<Rightarrow> True | Inr (_, _, _, _, k') \<Rightarrow> k' \<le> k + 20"
  by (auto simp: iso14443_4a_poller_send_block_pwt_ext_def ISO14443_4A_SEND_BLOCK_MAX_ATTEMPTS_def bind_r_Inr_iff
      dest!: pwt_ext_loop_counted split: sum.split)

text \<open>The ordinary sending function has no such limit: a card that always asks for more time keeps it
  forever, whatever the fuel.\<close>

definition nagging_radio :: "'w Nfc" where
  "nagging_radio =
     \<lparr>nfc_poller_trx = (\<lambda>tx rx fwt w. answer_frame rx (Some ([0xF2, 1] @ crc_a [0xF2, 1])) w),
      nfc_iso14443a_poller_trx_short_frame = (\<lambda>frame rx fwt w. Inr (NfcErrorTimeout, rx, w)),
      nfc_iso14443a_poller_trx_sdd_frame = (\<lambda>tx rx fwt w. Inr (NfcErrorTimeout, rx, w))\<rparr>"

lemma nagging_exchange:
  assumes "poller_4a_ok p" and "holds 256 (poller_tx p) req" and "length req \<le> 254"
  shows "\<exists>p3 rx. poller_exchange nagging_radio p fwt w = Inr (Iso14443_3aErrorNone, p\<lparr>iso14443_3a_poller := p3, poller_rx := rx\<rparr>, w) \<and>
    holds 256 rx [0xF2, 1] \<and> poller_4a_ok (p\<lparr>iso14443_3a_poller := p3, poller_rx := rx\<rparr>)"
proof -
  let ?p3 = "iso14443_3a_poller p"
  have p: "poller_buffer (poller_3a_tx ?p3)" "poller_buffer (poller_3a_rx ?p3)" "buffer_256 (poller_tx p)" "buffer_256 (poller_rx p)"
    using assms(1) by (simp_all add: poller_4a_ok_def)
  obtain tx1 where tx1: "bit_buffer_copy (poller_3a_tx ?p3) (poller_tx p) = Inr tx1" "holds 512 tx1 req"
    using holds_copy [of "poller_3a_tx ?p3" 512 256 "poller_tx p" req] p(1) assms(2,3) by (auto simp: poller_buffer_def)
  obtain tx2 where tx2: "iso14443_crc_append Iso14443CrcTypeA tx1 = Inr tx2" "holds 512 tx2 (req @ crc_a req)"
    using holds_close [OF tx1(2)] assms(3) by auto
  obtain rx3 where rx3: "answer_frame (poller_3a_rx ?p3) (Some ([0xF2, 1] @ crc_a [0xF2, 1])) w = Inr (NfcErrorNone, rx3, w)"
      "holds 512 rx3 ([0xF2, 1] @ crc_a [0xF2, 1])"
    using answer_some [OF p(2), of "[0xF2, 1] @ crc_a [0xF2, 1]" w] by auto
  obtain rx where rx: "bit_buffer_copy (poller_rx p) rx3 = Inr rx" "holds 256 rx ([0xF2, 1] @ crc_a [0xF2, 1])"
    using holds_copy [OF _ _ _ rx3(2), of "poller_rx p" 256] p(4) by (auto simp: buffer_256_def)
  obtain rx2 where rx2: "iso14443_crc_trim rx = Inr rx2" "holds 256 rx2 [0xF2, 1]" using holds_trim [OF rx(2)] by auto
  have size: "bit_buffer_get_size_bytes (poller_tx p) = length req" "bit_buffer_get_size_bytes rx3 = 4"
    using holds_size [OF assms(2)] holds_size [OF rx3(2)] by simp_all
  have caps: "capacity_bytes (poller_3a_tx ?p3) = 512" "capacity_bytes (poller_rx p) = 256"
    using p by (simp_all add: poller_buffer_def buffer_256_def)
  have "poller_exchange nagging_radio p fwt w = Inr (Iso14443_3aErrorNone,
      p\<lparr>iso14443_3a_poller := ?p3\<lparr>poller_3a_tx := tx2, poller_3a_rx := rx3\<rparr>, poller_rx := rx2\<rparr>, w)"
    using assms(3) holds_closed_check [OF rx3(2)] rx3(1)
    by (simp add: poller_exchange_def iso14443_3a_poller_send_standard_frame_def iso14443_3a_poller_standard_frame_exchange_def
        exchange_frame_def size caps tx1(1) tx2(1) nagging_radio_def rx(1) rx2(1))
  moreover have "poller_4a_ok (p\<lparr>iso14443_3a_poller := ?p3\<lparr>poller_3a_tx := tx2, poller_3a_rx := rx3\<rparr>, poller_rx := rx2\<rparr>)"
    using p holds_ok(1,2) [OF tx2(2)] holds_ok(1,2) [OF rx3(2)] holds_buffer_256 [OF rx2(2)]
    by (simp add: poller_4a_ok_def poller_buffer_def)
  ultimately show ?thesis using rx2(2) by blast
qed

lemma swtx_loop_endless:
  "poller_4a_ok p \<Longrightarrow> holds 256 (poller_rx p) [0xF2, 1] \<Longrightarrow> swtx_loop nagging_radio n p w = Inr None"
proof (induction n arbitrary: p)
  case 0
  then show ?case
    using holds_starts_with [OF 0(2), of ISO14443_4A_SWTX] by (subst swtx_loop.simps) (simp add: ISO14443_4A_SWTX_def)
next
  case (Suc n)
  have rx: "bit_buffer_starts_with_byte (poller_rx p) ISO14443_4A_SWTX = Inr True" "bit_buffer_get_byte (poller_rx p) 1 = Inr 1"
    using holds_starts_with [OF Suc.prems(2), of ISO14443_4A_SWTX] holds_get_byte [OF Suc.prems(2), of 1]
    by (simp_all add: ISO14443_4A_SWTX_def)
  obtain tx1 where tx1: "bit_buffer_copy_left (bit_buffer_reset (poller_tx p)) (poller_rx p) 1 = Inr tx1" "holds 256 tx1 [0xF2]"
  proof -
    have "take (Suc 0) (bb_data (poller_rx p)) = [0xF2]"
      using holds_nth [OF Suc.prems(2), of 0] holds_ok(3) [OF Suc.prems(2)] by (simp add: take_Suc_conv_app_nth)
    then have "bit_buffer_copy_left (bit_buffer_reset (poller_tx p)) (poller_rx p) 1 =
        Inr ((bit_buffer_reset (poller_tx p))\<lparr>bb_data := 0xF2 # replicate 255 0, size_bits := 8\<rparr>)"
      using Suc.prems holds_size [OF Suc.prems(2)] holds_ok(3) [OF Suc.prems(2)]
      by (simp add: bit_buffer_copy_left_def bit_buffer_reset_def memcpy_Inr poller_4a_ok_def buffer_256_def)
    moreover have "holds 256 ((bit_buffer_reset (poller_tx p))\<lparr>bb_data := 0xF2 # replicate 255 0, size_bits := 8\<rparr>) [0xF2]"
      using Suc.prems(1) by (simp add: holds_def bit_buffer_reset_def bit_buffer_ok_def poller_4a_ok_def buffer_256_def)
    ultimately show ?thesis using that by blast
  qed
  obtain tx2 where tx2: "bit_buffer_append_byte tx1 1 = Inr tx2" "holds 256 tx2 [0xF2, 1]"
    using holds_append_byte [OF tx1(2), of 1] by auto
  have "poller_4a_ok (p\<lparr>poller_tx := tx2\<rparr>)" using Suc.prems(1) holds_buffer_256 [OF tx2(2)] by (simp add: poller_4a_ok_def)
  then obtain p3 rx1 where "poller_exchange nagging_radio (p\<lparr>poller_tx := tx2\<rparr>)
      (max (iso14443_4a_get_fwt_fc_max (poller_ats p) * 1) ISO14443_4A_FWT_MAX) w =
      Inr (Iso14443_3aErrorNone, p\<lparr>poller_tx := tx2, iso14443_3a_poller := p3, poller_rx := rx1\<rparr>, w)"
      "holds 256 rx1 [0xF2, 1]" "poller_4a_ok (p\<lparr>poller_tx := tx2, iso14443_3a_poller := p3, poller_rx := rx1\<rparr>)"
    using nagging_exchange [of "p\<lparr>poller_tx := tx2\<rparr>" "[0xF2, 1]"] tx2(2) by force
  then show ?case
    using Suc.IH [of "p\<lparr>poller_tx := tx2, iso14443_3a_poller := p3, poller_rx := rx1\<rparr>"] rx tx1(1) tx2(1)
    by (subst swtx_loop.simps) (simp add: ISO14443_4A_WTXM_MASK_def ISO14443_4A_WTXM_MAX_def)
qed

text \<open>The time that is granted is never less than the longest one: the larger of the two is taken.\<close>

lemma extension_at_least_maximum: "ISO14443_4A_FWT_MAX \<le> max (iso14443_4a_get_fwt_fc_max data * ucast wtxm) ISO14443_4A_FWT_MAX"
  by simp

text \<open>The error a failed activation reports to the application is the one stored in the poller, which no
  function ever sets.\<close>

lemma exchange_keeps_error: "poller_exchange nfc p fwt w = Inr (e, p', w') \<Longrightarrow> poller_error p' = poller_error p"
  by (auto simp: poller_exchange_def bind_r_Inr_iff)

lemma read_ats_keeps_error: "iso14443_4a_poller_read_ats nfc p w = Inr (e, p', w') \<Longrightarrow> poller_error p' = poller_error p"
  by (auto simp: iso14443_4a_poller_read_ats_def bind_r_Inr_iff split: if_splits dest!: exchange_keeps_error)

lemma activation_error_lost:
  assumes "poller_state p = Iso14443_4aPollerStateReadAts" and "poller_error p = Iso14443_4aErrorNone"
    and "iso14443_4a_poller_run nfc callback Iso14443_3aPollerEventTypeReady p w = Inr (command, p', w')"
  shows "poller_error p' = Iso14443_4aErrorNone"
  using assms by (auto simp: iso14443_4a_poller_run_def iso14443_4a_poller_handler_read_ats_def bind_r_Inr_iff
      dest!: read_ats_keeps_error)

end
