(* ===== verification/Input_Service.thy ===== *)
theory Input_Service
  imports Flipper_Prelude
begin

text \<open>
  The input service, \<^verbatim>\<open>applications/services/input/input.c\<close>: the thread that debounces the buttons and
  publishes press, short and release events, and the timer callbacks that publish long and repeat events. Thread and
  timer task interleave: a step of the system is one pass of the thread over one button, the two halves of stopping a timer,
  sleeping and waking, or the expiry of a running timer. A timer that is started in a pass does not expire
  before the press event of that pass is out (its period is 150 ticks). A counter of a pin that was never set
  is \<open>None\<close>.
\<close>

unbundle bit_operations_syntax

section \<open>Buttons and events\<close>

datatype InputKey = InputKeyUp | InputKeyDown | InputKeyRight | InputKeyLeft | InputKeyOk | InputKeyBack

record InputPin =
  input_key :: InputKey
  inverted :: bool
  pin_name :: string

definition input_pins :: "InputPin list" where
  "input_pins =
     [\<lparr>input_key = InputKeyUp, inverted = True, pin_name = ''Up''\<rparr>,
      \<lparr>input_key = InputKeyDown, inverted = True, pin_name = ''Down''\<rparr>,
      \<lparr>input_key = InputKeyRight, inverted = True, pin_name = ''Right''\<rparr>,
      \<lparr>input_key = InputKeyLeft, inverted = True, pin_name = ''Left''\<rparr>,
      \<lparr>input_key = InputKeyOk, inverted = False, pin_name = ''OK''\<rparr>,
      \<lparr>input_key = InputKeyBack, inverted = True, pin_name = ''Back''\<rparr>]"

text \<open>The search of the table of pins; the result after the loop is \<^verbatim>\<open>Unknown\<close>.\<close>

fun find_key_name :: "InputPin list \<Rightarrow> InputKey \<Rightarrow> string" where
  "find_key_name [] key = ''Unknown''"
| "find_key_name (pin # pins) key = (if input_key pin = key then pin_name pin else find_key_name pins key)"

definition input_get_key_name :: "InputKey \<Rightarrow> string" where
  "input_get_key_name key = find_key_name input_pins key"

datatype InputType = InputTypePress | InputTypeRelease | InputTypeShort | InputTypeLong | InputTypeRepeat

fun input_get_type_name :: "InputType \<Rightarrow> string" where
  "input_get_type_name InputTypePress = ''Press''"
| "input_get_type_name InputTypeRelease = ''Release''"
| "input_get_type_name InputTypeShort = ''Short''"
| "input_get_type_name InputTypeLong = ''Long''"
| "input_get_type_name InputTypeRepeat = ''Repeat''"

fun input_type_number :: "InputType \<Rightarrow> nat" where
  "input_type_number InputTypePress = 0"
| "input_type_number InputTypeRelease = 1"
| "input_type_number InputTypeShort = 2"
| "input_type_number InputTypeLong = 3"
| "input_type_number InputTypeRepeat = 4"

record InputEvent =
  sequence_source :: u8
  sequence_counter :: "30 word option"
  event_key :: InputKey
  event_type :: InputType

definition INPUT_SEQUENCE_SOURCE_HARDWARE :: u8 where "INPUT_SEQUENCE_SOURCE_HARDWARE = 0"
definition INPUT_DEBOUNCE_TICKS :: u8 where "INPUT_DEBOUNCE_TICKS = 4"
definition INPUT_DEBOUNCE_TICKS_HALF :: u8 where "INPUT_DEBOUNCE_TICKS_HALF = INPUT_DEBOUNCE_TICKS div 2"
definition INPUT_LONG_PRESS_COUNTS :: u8 where "INPUT_LONG_PRESS_COUNTS = 2"

record InputPinState =
  input_pin :: InputPin
  pin_state :: bool
  debounce :: u8
  timer_active :: bool
  press_counter :: u8
  pin_counter :: "u32 option"

text \<open>Where the thread is: before the pass over a button, waiting for the timer of a button to stop, or
  asleep until the next tick or interrupt.\<close>

datatype thread_place = Scanning nat | Stopping nat | Sleeping

record InputService =
  pin_states :: "InputPinState list"
  srv_counter :: u32
  is_changing :: bool
  vibro_touch_level :: u8
  vibro_touch_trigger_mask :: u8
  place :: thread_place
  published :: "InputEvent list"
  vibrations :: "u8 list"

definition GPIO_Read :: "bool \<Rightarrow> InputPin \<Rightarrow> bool" where
  "GPIO_Read level pin \<longleftrightarrow> level \<noteq> inverted pin"

definition event_of :: "InputPinState \<Rightarrow> InputType \<Rightarrow> InputEvent" where
  "event_of p t = \<lparr>sequence_source = INPUT_SEQUENCE_SOURCE_HARDWARE, sequence_counter = map_option ucast (pin_counter p),
     event_key = input_key (input_pin p), event_type = t\<rparr>"

definition furi_pubsub_publish :: "InputEvent \<Rightarrow> InputService \<Rightarrow> InputService" where
  "furi_pubsub_publish e s = s\<lparr>published := published s @ [e]\<rparr>"

definition set_pin :: "nat \<Rightarrow> InputPinState \<Rightarrow> InputService \<Rightarrow> InputService" where
  "set_pin i p s = s\<lparr>pin_states := (pin_states s)[i := p]\<rparr>"

definition vibrate :: "InputType \<Rightarrow> InputService \<Rightarrow> InputService" where
  "vibrate t s =
     (if vibro_touch_level s \<noteq> 0 \<and> bit (vibro_touch_trigger_mask s) (input_type_number t)
      then s\<lparr>vibrations := vibrations s @ [vibro_touch_level s]\<rparr> else s)"

section \<open>Timer callback and thread\<close>

definition input_press_timer_callback :: "nat \<Rightarrow> InputService \<Rightarrow> InputService" where
  "input_press_timer_callback i s =
     (let p = pin_states s ! i; p1 = p\<lparr>press_counter := press_counter p + 1\<rparr>
      in if press_counter p1 = INPUT_LONG_PRESS_COUNTS
         then furi_pubsub_publish (event_of p1 InputTypeLong) (set_pin i p1 s)
         else if press_counter p1 > INPUT_LONG_PRESS_COUNTS
         then let p2 = p1\<lparr>press_counter := press_counter p1 - 1\<rparr>
           in furi_pubsub_publish (event_of p2 InputTypeRepeat) (set_pin i p2 s)
         else set_pin i p1 s)"

definition debounce_step :: "bool \<Rightarrow> u8 \<Rightarrow> u8" where
  "debounce_step state d =
     (if state then if d < INPUT_DEBOUNCE_TICKS then d + 1 else d
      else if d > 0 then d - 1 else d)"

text \<open>The start of the service: the levels are those of the buttons at that moment.\<close>

definition input_srv_start :: "bool list \<Rightarrow> u8 \<Rightarrow> u8 \<Rightarrow> InputService" where
  "input_srv_start levels vibro_level vibro_mask =
     \<lparr>pin_states = map (\<lambda>(pin, level). \<lparr>input_pin = pin, pin_state = GPIO_Read level pin, debounce = INPUT_DEBOUNCE_TICKS_HALF,
        timer_active = False, press_counter = 0, pin_counter = None\<rparr>) (zip input_pins levels),
      srv_counter = 1, is_changing = False, vibro_touch_level = vibro_level, vibro_touch_trigger_mask = vibro_mask,
      place = Scanning 0, published = [], vibrations = []\<rparr>"

text \<open>The pass over button \<open>i\<close>, up to the point where the thread waits for a timer to stop.\<close>

definition scan_pin :: "nat \<Rightarrow> bool \<Rightarrow> InputService \<Rightarrow> InputService" where
  "scan_pin i level s =
     (let p = pin_states s ! i; state = GPIO_Read level (input_pin p);
          p1 = p\<lparr>debounce := debounce_step state (debounce p)\<rparr>; s1 = s\<lparr>place := Scanning (Suc i)\<rparr>
      in if debounce p1 > 0 \<and> debounce p1 < INPUT_DEBOUNCE_TICKS then set_pin i p1 (s1\<lparr>is_changing := True\<rparr>)
         else if pin_state p1 = state then set_pin i p1 s1
         else if state
         then let p2 = p1\<lparr>pin_state := True, pin_counter := Some (srv_counter s), timer_active := True\<rparr>
           in vibrate InputTypePress (furi_pubsub_publish (event_of p2 InputTypePress)
                (set_pin i p2 (s1\<lparr>srv_counter := srv_counter s + 1\<rparr>)))
         else set_pin i (p1\<lparr>pin_state := False\<rparr>) (s\<lparr>place := Stopping i\<rparr>))"

text \<open>The rest of the pass after \<^verbatim>\<open>furi_timer_is_running\<close> has returned false.\<close>

definition finish_release :: "nat \<Rightarrow> InputService \<Rightarrow> InputService" where
  "finish_release i s =
     (let p = pin_states s ! i;
          s1 = (if press_counter p < INPUT_LONG_PRESS_COUNTS then furi_pubsub_publish (event_of p InputTypeShort) s else s);
          p1 = p\<lparr>press_counter := 0\<rparr>
      in vibrate InputTypeRelease (furi_pubsub_publish (event_of p1 InputTypeRelease)
           (set_pin i p1 (s1\<lparr>place := Scanning (Suc i)\<rparr>))))"

definition timer_stopped :: "nat \<Rightarrow> InputService \<Rightarrow> InputService" where
  "timer_stopped i s = set_pin i ((pin_states s ! i)\<lparr>timer_active := False\<rparr>) s"

text \<open>The steps of the system. The timer task handles the stop request at some time after it was made; until
  then the timer can still expire.\<close>

inductive input_step :: "InputService \<Rightarrow> InputService \<Rightarrow> bool" where
  scan: "place s = Scanning i \<Longrightarrow> i < length (pin_states s) \<Longrightarrow> input_step s (scan_pin i level s)"
| stop: "place s = Stopping i \<Longrightarrow> i < length (pin_states s) \<Longrightarrow> input_step s (timer_stopped i s)"
| resume: "place s = Stopping i \<Longrightarrow> i < length (pin_states s) \<Longrightarrow> \<not> timer_active (pin_states s ! i) \<Longrightarrow>
    input_step s (finish_release i s)"
| sleep: "place s = Scanning (length (pin_states s)) \<Longrightarrow> input_step s (s\<lparr>place := Sleeping\<rparr>)"
| wake: "place s = Sleeping \<Longrightarrow> input_step s (s\<lparr>place := Scanning 0, is_changing := False\<rparr>)"
| expire: "i < length (pin_states s) \<Longrightarrow> timer_active (pin_states s ! i) \<Longrightarrow> input_step s (input_press_timer_callback i s)"

inductive input_reachable :: "bool list \<Rightarrow> InputService \<Rightarrow> bool" for levels where
  start: "input_reachable levels (input_srv_start levels vibro_level vibro_mask)"
| step: "input_reachable levels s \<Longrightarrow> input_step s s' \<Longrightarrow> input_reachable levels s'"

inductive_cases input_stepE: "input_step s s'"

section \<open>What a listener of the events relies on\<close>

text \<open>The life of a button in events: a press; then either a short event and a release, next to each other, or a
  long event, any number of repeats and a release. All events of one press carry the counter of the press. The order of the short
  event and its release is left open, since the header and the service disagree on it.\<close>

datatype phase = Released | Pressed "30 word option" | Held "30 word option" | Short_Sent "30 word option" | Release_Sent "30 word option"

fun phase_step :: "phase \<Rightarrow> InputType \<times> 30 word option \<Rightarrow> phase option" where
  "phase_step Released (t, c) = (if t = InputTypePress then Some (Pressed c) else None)"
| "phase_step (Pressed n) (t, c) =
     (if c \<noteq> n then None else if t = InputTypeShort then Some (Short_Sent n) else if t = InputTypeRelease then Some (Release_Sent n)
      else if t = InputTypeLong then Some (Held n) else None)"
| "phase_step (Held n) (t, c) =
     (if c \<noteq> n then None else if t = InputTypeRepeat then Some (Held n) else if t = InputTypeRelease then Some Released else None)"
| "phase_step (Short_Sent n) (t, c) = (if c = n \<and> t = InputTypeRelease then Some Released else None)"
| "phase_step (Release_Sent n) (t, c) = (if c = n \<and> t = InputTypeShort then Some Released else None)"

definition phase_after :: "(InputType \<times> 30 word option) list \<Rightarrow> phase option" where
  "phase_after es = foldl (\<lambda>q e. Option.bind q (\<lambda>p. phase_step p e)) (Some Released) es"

definition events_of :: "InputKey \<Rightarrow> InputService \<Rightarrow> (InputType \<times> 30 word option) list" where
  "events_of k s = map (\<lambda>e. (event_type e, sequence_counter e)) (filter (\<lambda>e. event_key e = k) (published s))"

lemma phase_after_snoc: "phase_after (es @ [e]) = Option.bind (phase_after es) (\<lambda>p. phase_step p e)"
  by (simp add: phase_after_def)

lemma events_of_publish: "events_of k (furi_pubsub_publish e s) =
    events_of k s @ (if event_key e = k then [(event_type e, sequence_counter e)] else [])"
  by (simp add: events_of_def furi_pubsub_publish_def)

lemma events_of_same [simp]: "events_of k (set_pin i p s) = events_of k s" "events_of k (vibrate t s) = events_of k s"
  "events_of k (s\<lparr>place := pl\<rparr>) = events_of k s" "events_of k (s\<lparr>is_changing := ch\<rparr>) = events_of k s"
  "events_of k (s\<lparr>srv_counter := n\<rparr>) = events_of k s"
  by (simp_all add: events_of_def set_pin_def vibrate_def)

lemma service_fields [simp]: "pin_states (furi_pubsub_publish e s) = pin_states s" "place (furi_pubsub_publish e s) = place s"
  "pin_states (vibrate t s) = pin_states s" "place (vibrate t s) = place s"
  "pin_states (set_pin i p s) = (pin_states s)[i := p]" "place (set_pin i p s) = place s"
  by (simp_all add: furi_pubsub_publish_def vibrate_def set_pin_def)

lemma event_of_fields [simp]: "event_key (event_of p t) = input_key (input_pin p)" "event_type (event_of p t) = t"
  "sequence_counter (event_of p t) = map_option ucast (pin_counter p)"
  by (simp_all add: event_of_def)

text \<open>The phase a button must be in, read off its state: it is busy from the press until the release is
  published.\<close>

definition pin_phase :: "bool \<Rightarrow> InputPinState \<Rightarrow> phase" where
  "pin_phase busy p = (if \<not> busy then Released
     else if press_counter p < INPUT_LONG_PRESS_COUNTS then Pressed (map_option ucast (pin_counter p))
     else Held (map_option ucast (pin_counter p)))"

definition pin_ok :: "bool \<Rightarrow> InputPinState \<Rightarrow> bool" where
  "pin_ok stopping p \<longleftrightarrow> press_counter p \<le> INPUT_LONG_PRESS_COUNTS \<and>
     (pin_state p \<longrightarrow> timer_active p) \<and> (\<not> pin_state p \<and> \<not> stopping \<longrightarrow> \<not> timer_active p \<and> press_counter p = 0)"

definition button_ok :: "nat \<Rightarrow> InputService \<Rightarrow> bool" where
  "button_ok i s \<longleftrightarrow> (let p = pin_states s ! i; stopping = (place s = Stopping i)
     in pin_ok stopping p \<and> (stopping \<longrightarrow> \<not> pin_state p) \<and>
        phase_after (events_of (input_key (input_pin p)) s) = Some (pin_phase (pin_state p \<or> stopping) p))"

definition pins_of :: "InputService \<Rightarrow> InputPin list" where
  "pins_of s = map input_pin (pin_states s)"


section \<open>The invariant\<close>

lemma button_ok_frame:
  assumes "pin_states s' ! i = pin_states s ! i"
    and "events_of (input_key (input_pin (pin_states s ! i))) s' = events_of (input_key (input_pin (pin_states s ! i))) s"
    and "place s' = Stopping i \<longleftrightarrow> place s = Stopping i"
  shows "button_ok i s' = button_ok i s"
  using assms by (simp add: button_ok_def Let_def)

lemma counter_cases: "(c :: u8) \<le> INPUT_LONG_PRESS_COUNTS \<Longrightarrow> c = 0 \<or> c = 1 \<or> c = 2"
proof -
  assume "c \<le> INPUT_LONG_PRESS_COUNTS"
  then have "unat c \<le> 2" by (simp add: INPUT_LONG_PRESS_COUNTS_def word_le_nat_alt)
  then have "unat c = 0 \<or> unat c = 1 \<or> unat c = 2" by arith
  then show ?thesis by (simp add: word_unat_eq_iff)
qed

lemma scan_own:
  assumes "place s = Scanning i" and "i < length (pin_states s)" and "button_ok i s"
  shows "button_ok i (scan_pin i level s)"
  using assms unfolding button_ok_def scan_pin_def pin_ok_def pin_phase_def Let_def
  by (auto simp: events_of_publish phase_after_snoc INPUT_LONG_PRESS_COUNTS_def)

lemma finish_own:
  assumes "place s = Stopping i" and "i < length (pin_states s)" and "\<not> timer_active (pin_states s ! i)" and "button_ok i s"
  shows "button_ok i (finish_release i s)"
  using assms unfolding button_ok_def finish_release_def pin_ok_def pin_phase_def Let_def
  by (auto simp: events_of_publish phase_after_snoc INPUT_LONG_PRESS_COUNTS_def)

lemma timer_stopped_own:
  assumes "place s = Stopping i" and "i < length (pin_states s)" and "button_ok i s"
  shows "button_ok i (timer_stopped i s)"
  using assms unfolding button_ok_def timer_stopped_def pin_ok_def pin_phase_def Let_def
  by auto

lemma expire_own:
  assumes "i < length (pin_states s)" and "timer_active (pin_states s ! i)" and "button_ok i s"
  shows "button_ok i (input_press_timer_callback i s)"
proof -
  have "press_counter (pin_states s ! i) \<le> INPUT_LONG_PRESS_COUNTS"
    using assms(3) by (simp add: button_ok_def pin_ok_def Let_def)
  from counter_cases [OF this] show ?thesis
    using assms unfolding button_ok_def input_press_timer_callback_def pin_ok_def pin_phase_def Let_def
    by (elim disjE) (auto simp: events_of_publish phase_after_snoc INPUT_LONG_PRESS_COUNTS_def)
qed


lemma pins_of_update: "i < length xs \<Longrightarrow> input_pin p = input_pin (xs ! i) \<Longrightarrow> map input_pin (xs[i := p]) = map input_pin xs"
  by (metis list_update_id map_update)

lemma pins_of_keeps: "input_step s s' \<Longrightarrow> pins_of s' = pins_of s"
  by (erule input_stepE)
    (auto simp: pins_of_def pins_of_update scan_pin_def timer_stopped_def finish_release_def input_press_timer_callback_def Let_def)

text \<open>A step on one button leaves another alone.\<close>

definition own_key :: "nat \<Rightarrow> InputService \<Rightarrow> InputKey" where
  "own_key i s = input_key (input_pin (pin_states s ! i))"

lemma scan_other: "i \<noteq> j \<Longrightarrow> pin_states (scan_pin j level s) ! i = pin_states s ! i"
    "k \<noteq> own_key j s \<Longrightarrow> events_of k (scan_pin j level s) = events_of k s"
    "i \<noteq> j \<Longrightarrow> place (scan_pin j level s) \<noteq> Stopping i"
  by (auto simp: scan_pin_def own_key_def Let_def events_of_publish)

lemma finish_other: "i \<noteq> j \<Longrightarrow> pin_states (finish_release j s) ! i = pin_states s ! i"
    "k \<noteq> own_key j s \<Longrightarrow> events_of k (finish_release j s) = events_of k s"
    "place (finish_release j s) \<noteq> Stopping i"
  by (auto simp: finish_release_def own_key_def Let_def events_of_publish)

lemma callback_other: "i \<noteq> j \<Longrightarrow> pin_states (input_press_timer_callback j s) ! i = pin_states s ! i"
    "k \<noteq> own_key j s \<Longrightarrow> events_of k (input_press_timer_callback j s) = events_of k s"
    "place (input_press_timer_callback j s) = place s"
  by (auto simp: input_press_timer_callback_def own_key_def Let_def events_of_publish)

lemma timer_stopped_other: "i \<noteq> j \<Longrightarrow> pin_states (timer_stopped j s) ! i = pin_states s ! i"
    "events_of k (timer_stopped j s) = events_of k s" "place (timer_stopped j s) = place s"
  by (simp_all add: timer_stopped_def)

lemma button_ok_step:
  assumes "input_step s s'" and "distinct (map input_key (pins_of s))" and i: "i < length (pin_states s)" and ok: "button_ok i s"
  shows "button_ok i s'"
proof -
  have other: "own_key i s \<noteq> own_key j s" if "j < length (pin_states s)" "i \<noteq> j" for j
    using assms(2) i that by (auto simp: distinct_conv_nth pins_of_def own_key_def)
  show ?thesis
    using assms(1)
  proof (cases rule: input_step.cases)
    case (scan j level)
    show ?thesis
    proof (cases "i = j")
      case False
      then show ?thesis using scan ok other [OF scan(3) False]
        by (subst scan(1), subst button_ok_frame [of _ _ s]) (simp_all add: scan_other own_key_def)
    qed (use scan ok scan_own in auto)
  next
    case (stop j)
    show ?thesis
    proof (cases "i = j")
      case False
      then show ?thesis using stop ok
        by (subst stop(1), subst button_ok_frame [of _ _ s]) (simp_all add: timer_stopped_other)
    qed (use stop ok timer_stopped_own in auto)
  next
    case (resume j)
    show ?thesis
    proof (cases "i = j")
      case False
      then show ?thesis using resume ok other [OF resume(3) False]
        by (subst resume(1), subst button_ok_frame [of _ _ s]) (simp_all add: finish_other own_key_def)
    qed (use resume ok finish_own in auto)
  next
    case (expire j)
    show ?thesis
    proof (cases "i = j")
      case False
      then show ?thesis using expire ok other [OF expire(2) False]
        by (subst expire(1), subst button_ok_frame [of _ _ s]) (simp_all add: callback_other own_key_def)
    qed (use expire ok expire_own in auto)
  next
    case sleep
    then show ?thesis using ok by (subst sleep(1), subst button_ok_frame [of _ _ s]) simp_all
  next
    case wake
    then show ?thesis using ok by (subst wake(1), subst button_ok_frame [of _ _ s]) simp_all
  qed
qed

lemma length_input_pins: "length input_pins = 6"
  by (simp add: input_pins_def)

lemma start_pins: "pins_of (input_srv_start levels l m) = map fst (zip input_pins levels)"
  by (auto simp: pins_of_def input_srv_start_def)

lemma reachable_pins: "input_reachable levels s \<Longrightarrow> pins_of s = map fst (zip input_pins levels)"
  by (induction rule: input_reachable.induct) (simp_all add: start_pins pins_of_keeps)

lemma take_min_length: "take (min (length xs) n) xs = take n xs"
  by (simp add: min_def)

lemma keys_distinct: "distinct (map input_key (map fst (zip input_pins levels)))"
proof -
  have "map fst (zip input_pins levels) = take (length levels) input_pins" by (simp add: map_fst_zip_take take_min_length)
  moreover have "distinct (map input_key input_pins)" by (simp add: input_pins_def)
  ultimately show ?thesis by (metis distinct_take take_map)
qed

lemma reachable_length: "input_reachable levels s \<Longrightarrow> length (pin_states s) = min 6 (length levels)"
  by (drule reachable_pins, drule arg_cong [of _ _ length]) (simp add: pins_of_def length_input_pins)

lemma reachable_pin: "input_reachable levels s \<Longrightarrow> i < length levels \<Longrightarrow> i < 6 \<Longrightarrow> input_pin (pin_states s ! i) = input_pins ! i"
  using reachable_length [of levels s] reachable_pins [of levels s]
  by (metis (no_types, lifting) length_input_pins min_less_iff_conj nth_map nth_zip fst_conv pins_of_def length_zip)

lemma start_button_ok:
  "i < length levels \<Longrightarrow> i < 6 \<Longrightarrow> \<not> GPIO_Read (levels ! i) (input_pins ! i) \<Longrightarrow> button_ok i (input_srv_start levels l m)"
  by (simp add: button_ok_def input_srv_start_def length_input_pins pin_ok_def pin_phase_def events_of_def phase_after_def
      INPUT_LONG_PRESS_COUNTS_def Let_def)

lemma reachable_button_ok:
  assumes "input_reachable levels s" and "i < length levels" and "i < 6" and "\<not> GPIO_Read (levels ! i) (input_pins ! i)"
  shows "button_ok i s"
  using assms
proof (induction rule: input_reachable.induct)
  case (start l m)
  then show ?case by (simp add: start_button_ok)
next
  case (step s s')
  then show ?case
    using keys_distinct [of levels] by (intro button_ok_step [OF step.hyps(2)]) (simp_all add: reachable_pins reachable_length del: map_map)
qed


section \<open>Runs given by choices\<close>

text \<open>What the environment decides: the level a button shows, and when timers stop and expire.\<close>

datatype choice = Scan bool | Stop | Resume | Sleep | Wake | Expire nat

fun input_do :: "choice \<Rightarrow> InputService \<Rightarrow> InputService option" where
  "input_do (Scan level) s = (case place s of Scanning i \<Rightarrow>
     if i < length (pin_states s) then Some (scan_pin i level s) else None | _ \<Rightarrow> None)"
| "input_do Stop s = (case place s of Stopping i \<Rightarrow>
     if i < length (pin_states s) then Some (timer_stopped i s) else None | _ \<Rightarrow> None)"
| "input_do Resume s = (case place s of Stopping i \<Rightarrow>
     if i < length (pin_states s) \<and> \<not> timer_active (pin_states s ! i) then Some (finish_release i s) else None | _ \<Rightarrow> None)"
| "input_do Sleep s = (if place s = Scanning (length (pin_states s)) then Some (s\<lparr>place := Sleeping\<rparr>) else None)"
| "input_do Wake s = (if place s = Sleeping then Some (s\<lparr>place := Scanning 0, is_changing := False\<rparr>) else None)"
| "input_do (Expire i) s = (if i < length (pin_states s) \<and> timer_active (pin_states s ! i)
     then Some (input_press_timer_callback i s) else None)"

fun input_run :: "choice list \<Rightarrow> InputService \<Rightarrow> InputService option" where
  "input_run [] s = Some s"
| "input_run (c # cs) s = (case input_do c s of None \<Rightarrow> None | Some s1 \<Rightarrow> input_run cs s1)"

lemma input_do_step: "input_do c s = Some s' \<Longrightarrow> input_step s s'"
  by (cases c) (auto simp: input_step.simps split: thread_place.splits if_splits)

lemma input_step_do:
  assumes "input_step s s'"
  shows "\<exists>c. input_do c s = Some s'"
  using assms
proof (cases rule: input_step.cases)
  case (scan i level)
  then show ?thesis by (intro exI [of _ "Scan level"]) simp
next
  case (stop i)
  then show ?thesis by (intro exI [of _ Stop]) simp
next
  case (resume i)
  then show ?thesis by (intro exI [of _ Resume]) simp
next
  case sleep
  then show ?thesis by (intro exI [of _ Sleep]) simp
next
  case wake
  then show ?thesis by (intro exI [of _ Wake]) simp
next
  case (expire i)
  then show ?thesis by (intro exI [of _ "Expire i"]) simp
qed

lemma input_run_reachable: "input_reachable levels s \<Longrightarrow> input_run cs s = Some s' \<Longrightarrow> input_reachable levels s'"
  by (induction cs arbitrary: s) (auto split: option.splits dest: input_do_step intro: input_reachable.step)

definition all_released :: "bool list" where
  "all_released = map inverted input_pins"

definition pass_with :: "bool \<Rightarrow> choice list" where
  "pass_with level = Scan level # map Scan (tl all_released) @ [Sleep, Wake]"

text \<open>One long press of the first button (whose level is inverted), with two repeats.\<close>

definition long_press_run :: "choice list" where
  "long_press_run = pass_with False @ pass_with False @ [Expire 0, Expire 0, Expire 0, Expire 0] @
     concat (replicate 3 (pass_with True)) @ [Scan True, Stop, Resume]"

lemma long_press_events:
  "map_option (\<lambda>s. (events_of InputKeyUp s, place s)) (input_run long_press_run (input_srv_start all_released 0 0)) =
     Some ([(InputTypePress, Some 1), (InputTypeLong, Some 1), (InputTypeRepeat, Some 1), (InputTypeRepeat, Some 1),
       (InputTypeRelease, Some 1)], Scanning 1)"
  by code_simp


section \<open>Debouncing\<close>

text \<open>The passes over one button that shows the given levels.\<close>

fun scan_levels :: "nat \<Rightarrow> bool list \<Rightarrow> InputService \<Rightarrow> InputService" where
  "scan_levels i [] s = s"
| "scan_levels i (level # levels) s = scan_levels i levels (scan_pin i level s)"

definition presses :: "nat \<Rightarrow> bool list \<Rightarrow> InputService \<Rightarrow> nat" where
  "presses i levels s = length (filter (\<lambda>level. GPIO_Read level (input_pin (pin_states s ! i))) levels)"

lemma presses_scan: "i < length (pin_states s) \<Longrightarrow> presses i levels (scan_pin i level s) = presses i levels s"
  by (simp add: presses_def scan_pin_def Let_def)

lemma scan_pin_idle:
  assumes "i < length (pin_states s)" and "\<not> pin_state (pin_states s ! i)" and "unat (debounce (pin_states s ! i)) < 4"
    and "unat (debounce (pin_states s ! i)) = 3 \<Longrightarrow> \<not> GPIO_Read level (input_pin (pin_states s ! i))"
  shows "published (scan_pin i level s) = published s" "\<not> pin_state (pin_states (scan_pin i level s) ! i)"
    "unat (debounce (pin_states (scan_pin i level s) ! i)) =
       (if GPIO_Read level (input_pin (pin_states s ! i)) then unat (debounce (pin_states s ! i)) + 1
        else unat (debounce (pin_states s ! i)) - 1)"
proof -
  let ?d = "debounce (pin_states s ! i)"
  have cases: "?d = 0 \<or> ?d = 1 \<or> ?d = 2 \<or> ?d = 3"
  proof -
    have "unat ?d = 0 \<or> unat ?d = 1 \<or> unat ?d = 2 \<or> unat ?d = 3" using assms(3) by arith
    then show ?thesis by (simp add: word_unat_eq_iff)
  qed
  show "published (scan_pin i level s) = published s" "\<not> pin_state (pin_states (scan_pin i level s) ! i)"
    "unat (debounce (pin_states (scan_pin i level s) ! i)) =
       (if GPIO_Read level (input_pin (pin_states s ! i)) then unat ?d + 1 else unat ?d - 1)"
    using cases assms(1,2,4)
    by (auto simp: scan_pin_def debounce_step_def INPUT_DEBOUNCE_TICKS_def Let_def set_pin_def)
qed

lemma scan_pin_fixed [simp]: "length (pin_states (scan_pin i level s)) = length (pin_states s)"
  by (simp add: scan_pin_def Let_def)

lemma scan_pin_same: "i < length (pin_states s) \<Longrightarrow> input_pin (pin_states (scan_pin i level s) ! i) = input_pin (pin_states s ! i)"
  by (simp add: scan_pin_def Let_def)

lemma scan_levels_idle:
  assumes "i < length (pin_states s)" and "\<not> pin_state (pin_states s ! i)"
    and "unat (debounce (pin_states s ! i)) + presses i levels s < 4"
  shows "published (scan_levels i levels s) = published s \<and> \<not> pin_state (pin_states (scan_levels i levels s) ! i)"
  using assms
proof (induction levels arbitrary: s)
  case (Cons level levels)
  let ?s = "scan_pin i level s"
  have "published ?s = published s \<and> \<not> pin_state (pin_states ?s ! i) \<and>
      unat (debounce (pin_states ?s ! i)) + presses i levels ?s < 4"
    using Cons.prems scan_pin_idle [of i s level]
    by (auto simp: presses_scan) (auto simp: presses_def split: if_splits)
  then show ?case using Cons.IH [of ?s] Cons.prems(1) by simp
qed simp


lemma scan_pin_rising:
  assumes "i < length (pin_states s)" and "pin_states s ! i = p" and "debounce p < 3" and "GPIO_Read level (input_pin p)"
  shows "published (scan_pin i level s) = published s" "srv_counter (scan_pin i level s) = srv_counter s"
    "pin_states (scan_pin i level s) ! i = p\<lparr>debounce := debounce p + 1\<rparr>"
proof -
  have "unat (debounce p) < 3" using assms(3) by (simp add: word_less_nat_alt)
  then have "unat (debounce p) = 0 \<or> unat (debounce p) = 1 \<or> unat (debounce p) = 2" by arith
  then have "debounce p = 0 \<or> debounce p = 1 \<or> debounce p = 2" by (simp add: word_unat_eq_iff)
  then show "published (scan_pin i level s) = published s" "srv_counter (scan_pin i level s) = srv_counter s"
    "pin_states (scan_pin i level s) ! i = p\<lparr>debounce := debounce p + 1\<rparr>"
    using assms by (auto simp: scan_pin_def debounce_step_def INPUT_DEBOUNCE_TICKS_def Let_def set_pin_def)
qed

lemma scan_pin_press:
  assumes "i < length (pin_states s)" and "pin_states s ! i = p" and "debounce p = 3" and "GPIO_Read level (input_pin p)"
    and "\<not> pin_state p"
  shows "published (scan_pin i level s) = published s @ [event_of (p\<lparr>pin_counter := Some (srv_counter s)\<rparr>) InputTypePress]"
    "pin_state (pin_states (scan_pin i level s) ! i)"
  using assms by (simp_all add: scan_pin_def debounce_step_def INPUT_DEBOUNCE_TICKS_def Let_def set_pin_def
      furi_pubsub_publish_def vibrate_def event_of_def)

lemma scan_levels_press:
  assumes i: "i < length (pin_states s)" and p: "pin_states s ! i = p" "\<not> pin_state p" "debounce p = 0"
    and pressed: "GPIO_Read level (input_pin p)"
  shows "published (scan_levels i (replicate 4 level) s) = published s @
      [event_of (p\<lparr>pin_counter := Some (srv_counter s)\<rparr>) InputTypePress]"
    "pin_state (pin_states (scan_levels i (replicate 4 level) s) ! i)"
proof -
  let ?s1 = "scan_pin i level s" let ?s2 = "scan_pin i level ?s1" let ?s3 = "scan_pin i level ?s2"
  note r1 = scan_pin_rising [OF i p(1) _ pressed]
  have s1: "published ?s1 = published s" "srv_counter ?s1 = srv_counter s" "pin_states ?s1 ! i = p\<lparr>debounce := 1\<rparr>"
    using r1 p(3) by simp_all
  have s2: "published ?s2 = published s" "srv_counter ?s2 = srv_counter s" "pin_states ?s2 ! i = p\<lparr>debounce := 2\<rparr>"
    using scan_pin_rising [OF _ s1(3), of level] s1 i pressed by simp_all
  have s3: "published ?s3 = published s" "srv_counter ?s3 = srv_counter s" "pin_states ?s3 ! i = p\<lparr>debounce := 3\<rparr>"
    using scan_pin_rising [OF _ s2(3), of level] s2 i pressed by simp_all
  have s4: "scan_levels i (replicate 4 level) s = scan_pin i level ?s3" by (simp add: numeral_eq_Suc)
  show "published (scan_levels i (replicate 4 level) s) = published s @
      [event_of (p\<lparr>pin_counter := Some (srv_counter s)\<rparr>) InputTypePress]"
    "pin_state (pin_states (scan_levels i (replicate 4 level) s) ! i)"
    using scan_pin_press [OF _ s3(3), of level] s3 i pressed p(2) by (simp_all add: s4 event_of_def)
qed

section \<open>A button that is held when the service starts\<close>

text \<open>Its state is pressed from the start, no press event is published and no counter is set, so its release
  publishes a short event and a release event with a counter that was never written.\<close>

definition released_run :: "choice list" where
  "released_run = pass_with True @ [Scan True, Stop, Resume]"

theorem held_at_boot_short_without_press:
  "map_option (\<lambda>s. events_of InputKeyUp s) (input_run released_run (input_srv_start (all_released[0 := False]) 0 0)) =
     Some [(InputTypeShort, None), (InputTypeRelease, None)]"
  by code_simp


section \<open>The order of the events\<close>

text \<open>A short press publishes its short event before the release, and a held button publishes a repeat at
  every expiry after the long event.\<close>

definition short_press_run :: "choice list" where
  "short_press_run = pass_with False @ pass_with False @ [Expire 0] @ concat (replicate 3 (pass_with True)) @ [Scan True, Stop, Resume]"

theorem short_before_release:
  "map_option (\<lambda>s. events_of InputKeyUp s) (input_run short_press_run (input_srv_start all_released 0 0)) =
     Some [(InputTypePress, Some 1), (InputTypeShort, Some 1), (InputTypeRelease, Some 1)]"
  by code_simp

theorem repeat_at_every_expiry:
  assumes "press_counter (pin_states s ! i) = INPUT_LONG_PRESS_COUNTS"
  shows "published (input_press_timer_callback i s) = published s @ [event_of (pin_states s ! i) InputTypeRepeat]"
  using assms by (simp add: input_press_timer_callback_def Let_def furi_pubsub_publish_def set_pin_def event_of_def
      INPUT_LONG_PRESS_COUNTS_def)

text \<open>The names the command line prints tell the buttons apart.\<close>

lemma key_names_differ: "input_get_key_name k = input_get_key_name k' \<Longrightarrow> k = k'"
  by (cases k; cases k') (simp_all add: input_get_key_name_def input_pins_def)

section \<open>Properties\<close>

text \<open>C11 In every state the service can reach, however readings, timer expiries and
  timer stops interleave, the events published for a button that was released at boot are those of whole presses and at most one
  press in progress: a press event, then either exactly one short event with the release, or exactly one long
  event, any number of repeats and the release, never a short event for a press that had a long one, all with the counter of the
  press. The sequence agrees with the state of the pin, and the counter of expiries stays at most two.\<close>

theorem button_events_in_order:
  assumes "input_reachable levels s" and "i < length levels" and "i < 6"
    and "\<not> GPIO_Read (levels ! i) (input_pins ! i)"
  shows "phase_after (events_of (input_key (input_pins ! i)) s) =
      Some (pin_phase (pin_state (pin_states s ! i) \<or> place s = Stopping i) (pin_states s ! i)) \<and>
    press_counter (pin_states s ! i) \<le> INPUT_LONG_PRESS_COUNTS"
  using reachable_button_ok [OF assms] reachable_pin [OF assms(1-3)]
  by (simp add: button_ok_def pin_ok_def Let_def)

theorem button_events_in_order_witness:
  "\<exists>s. input_reachable all_released s \<and> map fst (events_of InputKeyUp s) =
      [InputTypePress, InputTypeLong, InputTypeRepeat, InputTypeRepeat, InputTypeRelease] \<and>
    phase_after (events_of (input_key (input_pins ! 0)) s) =
      Some (pin_phase (pin_state (pin_states s ! 0) \<or> place s = Stopping 0) (pin_states s ! 0)) \<and>
    press_counter (pin_states s ! 0) \<le> INPUT_LONG_PRESS_COUNTS"
proof -
  obtain s where s: "input_run long_press_run (input_srv_start all_released 0 0) = Some s"
    "events_of InputKeyUp s = [(InputTypePress, Some 1), (InputTypeLong, Some 1), (InputTypeRepeat, Some 1),
      (InputTypeRepeat, Some 1), (InputTypeRelease, Some 1)]"
    using long_press_events by auto
  have r: "input_reachable all_released s" using input_run_reachable [OF input_reachable.start s(1)] .
  have "\<not> GPIO_Read (all_released ! 0) (input_pins ! 0)" "0 < length all_released"
    by (simp_all add: GPIO_Read_def all_released_def input_pins_def)
  from button_events_in_order [OF r this(2) _ this(1)] show ?thesis using r s(2) by auto
qed

text \<open>C37 Debouncing: while a button is at rest, any sequence of readings with
  fewer than four pressed ones among them publishes nothing and leaves it released, and four pressed readings in
  a row publish exactly one press event, which carries the next sequence counter.\<close>

theorem debounce_rejects_glitches:
  assumes "i < length (pin_states s)" and "pin_states s ! i = p" and "\<not> pin_state p" and "debounce p = 0"
    and "presses i levels s < 4" and "GPIO_Read level (input_pin p)"
  shows "published (scan_levels i levels s) = published s \<and> \<not> pin_state (pin_states (scan_levels i levels s) ! i) \<and>
    published (scan_levels i (replicate 4 level) s) =
      published s @ [event_of (p\<lparr>pin_counter := Some (srv_counter s)\<rparr>) InputTypePress] \<and>
    pin_state (pin_states (scan_levels i (replicate 4 level) s) ! i)"
  using assms scan_levels_idle [of i s levels] scan_levels_press [of i s p level] by simp

definition rested :: InputService where
  "rested = the (input_run (pass_with True @ pass_with True) (input_srv_start all_released 0 0))"

lemma rested_pin: "length (pin_states rested) = 6"
  "pin_states rested ! 0 = \<lparr>input_pin = \<lparr>input_key = InputKeyUp, inverted = True, pin_name = ''Up''\<rparr>, pin_state = False, debounce = 0,
     timer_active = False, press_counter = 0, pin_counter = None\<rparr>"
  by code_simp+

theorem debounce_rejects_glitches_witness:
  "published (scan_levels 0 [False, True, False, False, True, True] rested) = published rested \<and>
    \<not> pin_state (pin_states (scan_levels 0 [False, True, False, False, True, True] rested) ! 0) \<and>
    published (scan_levels 0 (replicate 4 False) rested) = published rested @
      [event_of ((pin_states rested ! 0)\<lparr>pin_counter := Some (srv_counter rested)\<rparr>) InputTypePress] \<and>
    pin_state (pin_states (scan_levels 0 (replicate 4 False) rested) ! 0)"
  by (rule debounce_rejects_glitches) (simp_all add: rested_pin presses_def GPIO_Read_def)

end
