(* ===== verification/Event_Loop_Timer.thy ===== *)
theory Event_Loop_Timer
  imports Flipper_Prelude
begin

text \<open>
  The timers and the tick of an event loop, \<^verbatim>\<open>furi/core/event_loop_timer.c\<close> and
  \<^verbatim>\<open>furi/core/event_loop_tick.c\<close>. Timers are objects with an address; a request to start, stop or free one waits in
  a queue until the loop handles it; running timers are in a list, the next to expire in front. The tick counter of the
  kernel wraps around and is part of the state. A callback is recorded by its number; what it does to timers are the
  operations after it. The use of a freed timer and a division by zero are faults.
\<close>

section \<open>Timers\<close>

datatype FuriEventLoopTimerRequest =
    FuriEventLoopTimerRequestNone
  | FuriEventLoopTimerRequestStart
  | FuriEventLoopTimerRequestStop
  | FuriEventLoopTimerRequestFree

record FuriEventLoopTimer =
  callback :: nat
  interval :: u32
  start_time :: u32
  next_interval :: u32
  request :: FuriEventLoopTimerRequest
  active :: bool
  periodic :: bool

record TimerLoop =
  timers :: "nat \<Rightarrow> FuriEventLoopTimer option"
  timer_list :: "nat list"
  timer_queue :: "nat list"
  tick_count :: u32
  timer_flag :: bool
  called :: "nat list"

definition FuriWaitForever :: u32 where [firmware_const]: "FuriWaitForever = 0xFFFFFFFF"

definition furi_event_loop_timer_get_elapsed_time :: "u32 \<Rightarrow> FuriEventLoopTimer \<Rightarrow> u32" where
  "furi_event_loop_timer_get_elapsed_time now timer = now - start_time timer"

definition furi_event_loop_timer_get_remaining_time :: "u32 \<Rightarrow> FuriEventLoopTimer \<Rightarrow> u32" where
  "furi_event_loop_timer_get_remaining_time now timer =
     (let elapsed = furi_event_loop_timer_get_elapsed_time now timer
      in if elapsed < interval timer then interval timer - elapsed else 0)"

definition furi_event_loop_timer_is_expired :: "u32 \<Rightarrow> FuriEventLoopTimer \<Rightarrow> bool" where
  "furi_event_loop_timer_is_expired now timer \<longleftrightarrow> furi_event_loop_timer_get_elapsed_time now timer \<ge> interval timer"

text \<open>A read through the pointer of a timer.\<close>

definition timer_at :: "TimerLoop \<Rightarrow> nat \<Rightarrow> fault + FuriEventLoopTimer" where
  "timer_at lp t = (case timers lp t of None \<Rightarrow> Inl UndefinedBehaviour | Some timer \<Rightarrow> Inr timer)"

definition set_timer :: "nat \<Rightarrow> FuriEventLoopTimer \<Rightarrow> TimerLoop \<Rightarrow> TimerLoop" where
  "set_timer t timer lp = lp\<lparr>timers := (timers lp)(t := Some timer)\<rparr>"

text \<open>The remaining time of a timer of the list.\<close>

definition remaining :: "TimerLoop \<Rightarrow> nat \<Rightarrow> u32" where
  "remaining lp t = (case timers lp t of None \<Rightarrow> 0 | Some timer \<Rightarrow>
     furi_event_loop_timer_get_remaining_time (tick_count lp) timer)"

text \<open>The search goes from the end of the list towards its front, here over the reversed list.\<close>

fun push_from_last :: "(nat \<Rightarrow> u32) \<Rightarrow> nat \<Rightarrow> nat list \<Rightarrow> nat list" where
  "push_from_last r t [] = [t]"
| "push_from_last r t (x # xs) = (if r t \<ge> r x then t # x # xs else x # push_from_last r t xs)"

definition furi_event_loop_schedule_timer :: "nat \<Rightarrow> TimerLoop \<Rightarrow> TimerLoop" where
  "furi_event_loop_schedule_timer t lp =
     lp\<lparr>timer_list := rev (push_from_last (remaining lp) t (rev (timer_list lp)))\<rparr>"

definition furi_event_loop_timer_enqueue_request ::
    "nat \<Rightarrow> FuriEventLoopTimerRequest \<Rightarrow> TimerLoop \<Rightarrow> fault + TimerLoop" where
  "furi_event_loop_timer_enqueue_request t req lp =
     bind_r (timer_at lp t) (\<lambda>timer.
       furi_check (request timer \<noteq> FuriEventLoopTimerRequestFree)
         (let queue = (if request timer \<noteq> FuriEventLoopTimerRequestNone then removeAll t (timer_queue lp) else timer_queue lp)
          in Inr ((set_timer t (timer\<lparr>request := req\<rparr>) lp)\<lparr>timer_queue := queue @ [t], timer_flag := True\<rparr>)))"

definition furi_event_loop_get_timer_wait_time :: "TimerLoop \<Rightarrow> u32" where
  "furi_event_loop_get_timer_wait_time lp =
     (case timer_list lp of [] \<Rightarrow> FuriWaitForever | t # ts \<Rightarrow> remaining lp t)"

text \<open>One round of the loop over the queue: the timer was taken from the front.\<close>

definition process_request :: "nat \<Rightarrow> TimerLoop \<Rightarrow> fault + TimerLoop" where
  "process_request t lp =
     bind_r (timer_at lp t) (\<lambda>timer.
       let lp1 = (if active timer then lp\<lparr>timer_list := removeAll t (timer_list lp)\<rparr> else lp)
       in case request timer of
            FuriEventLoopTimerRequestStart \<Rightarrow>
              Inr (furi_event_loop_schedule_timer t
                (set_timer t (timer\<lparr>active := True, interval := next_interval timer, start_time := tick_count lp,
                   request := FuriEventLoopTimerRequestNone\<rparr>) lp1))
          | FuriEventLoopTimerRequestStop \<Rightarrow>
              Inr (set_timer t (timer\<lparr>active := False, request := FuriEventLoopTimerRequestNone\<rparr>) lp1)
          | FuriEventLoopTimerRequestFree \<Rightarrow> Inr (lp1\<lparr>timers := (timers lp1)(t := None)\<rparr>)
          | FuriEventLoopTimerRequestNone \<Rightarrow> Inl FuriCrash)"

fun process_requests :: "nat list \<Rightarrow> TimerLoop \<Rightarrow> fault + TimerLoop" where
  "process_requests [] lp = Inr lp"
| "process_requests (t # ts) lp = bind_r (process_request t (lp\<lparr>timer_queue := ts\<rparr>)) (process_requests ts)"

definition furi_event_loop_process_timer_queue :: "TimerLoop \<Rightarrow> fault + TimerLoop" where
  "furi_event_loop_process_timer_queue lp = process_requests (timer_queue lp) lp"

definition furi_event_loop_process_expired_timers :: "TimerLoop \<Rightarrow> fault + bool \<times> TimerLoop" where
  "furi_event_loop_process_expired_timers lp =
     (case timer_list lp of
        [] \<Rightarrow> Inr (False, lp)
      | t # ts \<Rightarrow>
          bind_r (timer_at lp t) (\<lambda>timer.
            if \<not> furi_event_loop_timer_is_expired (tick_count lp) timer then Inr (False, lp)
            else let lp1 = lp\<lparr>timer_list := ts\<rparr>
              in if periodic timer
                 then if interval timer = 0 then Inl UndefinedBehaviour
                      else let num_events = furi_event_loop_timer_get_elapsed_time (tick_count lp) timer div interval timer;
                               lp2 = furi_event_loop_schedule_timer t
                                 (set_timer t (timer\<lparr>start_time := start_time timer + interval timer * num_events\<rparr>) lp1)
                           in Inr (True, lp2\<lparr>called := called lp2 @ [callback timer]\<rparr>)
                 else let lp2 = set_timer t (timer\<lparr>active := False\<rparr>) lp1
                      in Inr (True, lp2\<lparr>called := called lp2 @ [callback timer]\<rparr>)))"

section \<open>The interface of timers\<close>

text \<open>Memory is cleared when it is allocated; the address of the new timer is free.\<close>

definition furi_event_loop_timer_alloc :: "nat \<Rightarrow> nat \<Rightarrow> bool \<Rightarrow> TimerLoop \<Rightarrow> TimerLoop" where
  "furi_event_loop_timer_alloc t cb per lp =
     set_timer t \<lparr>callback = cb, interval = 0, start_time = 0, next_interval = 0, request = FuriEventLoopTimerRequestNone,
       active = False, periodic = per\<rparr> lp"

definition furi_event_loop_timer_free :: "nat \<Rightarrow> TimerLoop \<Rightarrow> fault + TimerLoop" where
  "furi_event_loop_timer_free t lp = furi_event_loop_timer_enqueue_request t FuriEventLoopTimerRequestFree lp"

definition furi_event_loop_timer_start :: "nat \<Rightarrow> u32 \<Rightarrow> TimerLoop \<Rightarrow> fault + TimerLoop" where
  "furi_event_loop_timer_start t i lp =
     bind_r (timer_at lp t) (\<lambda>timer.
       furi_event_loop_timer_enqueue_request t FuriEventLoopTimerRequestStart (set_timer t (timer\<lparr>next_interval := i\<rparr>) lp))"

definition furi_event_loop_timer_restart :: "nat \<Rightarrow> TimerLoop \<Rightarrow> fault + TimerLoop" where
  "furi_event_loop_timer_restart t lp =
     bind_r (timer_at lp t) (\<lambda>timer.
       furi_event_loop_timer_enqueue_request t FuriEventLoopTimerRequestStart
         (set_timer t (timer\<lparr>next_interval := interval timer\<rparr>) lp))"

definition furi_event_loop_timer_stop :: "nat \<Rightarrow> TimerLoop \<Rightarrow> fault + TimerLoop" where
  "furi_event_loop_timer_stop t lp = furi_event_loop_timer_enqueue_request t FuriEventLoopTimerRequestStop lp"

section \<open>Runs\<close>

text \<open>What happens to the timers of a loop: the calls of its thread, the two ways the loop serves them, and time.
  Time does not pass beyond the range of the counter while a running timer is not served (49 days).\<close>

datatype timer_op = Alloc nat nat bool | Free nat | Start nat u32 | Restart nat | Halt nat | ServeQueue | ServeExpired | Pass u32

definition stalls :: "u32 \<Rightarrow> TimerLoop \<Rightarrow> bool" where
  "stalls dt lp \<longleftrightarrow> (\<exists>t \<in> set (timer_list lp). case timers lp t of None \<Rightarrow> False
     | Some timer \<Rightarrow> let elapsed = furi_event_loop_timer_get_elapsed_time (tick_count lp) timer in elapsed + dt < elapsed)"

fun timer_do :: "timer_op \<Rightarrow> TimerLoop \<Rightarrow> fault + TimerLoop" where
  "timer_do (Alloc t cb per) lp = Inr (if timers lp t = None then furi_event_loop_timer_alloc t cb per lp else lp)"
| "timer_do (Free t) lp = furi_event_loop_timer_free t lp"
| "timer_do (Start t i) lp = furi_event_loop_timer_start t i lp"
| "timer_do (Restart t) lp = furi_event_loop_timer_restart t lp"
| "timer_do (Halt t) lp = furi_event_loop_timer_stop t lp"
| "timer_do ServeQueue lp = furi_event_loop_process_timer_queue lp"
| "timer_do ServeExpired lp = bind_r (furi_event_loop_process_expired_timers lp) (\<lambda>(b, lp1). Inr lp1)"
| "timer_do (Pass dt) lp = Inr (if stalls dt lp then lp else lp\<lparr>tick_count := tick_count lp + dt\<rparr>)"

definition timer_run :: "timer_op list \<Rightarrow> TimerLoop \<Rightarrow> fault + TimerLoop" where
  "timer_run ops lp = for_each timer_do ops lp"

definition timers_alloc :: "u32 \<Rightarrow> TimerLoop" where
  "timers_alloc now = \<lparr>timers = \<lambda>t. None, timer_list = [], timer_queue = [], tick_count = now, timer_flag = False, called = []\<rparr>"


section \<open>The invariant\<close>

definition timers_ok :: "TimerLoop \<Rightarrow> bool" where
  "timers_ok lp \<longleftrightarrow> distinct (timer_list lp) \<and> distinct (timer_queue lp) \<and>
     (\<forall>t. t \<in> set (timer_list lp) \<longleftrightarrow> (\<exists>timer. timers lp t = Some timer \<and> active timer)) \<and>
     (\<forall>t. t \<in> set (timer_queue lp) \<longleftrightarrow> (\<exists>timer. timers lp t = Some timer \<and> request timer \<noteq> FuriEventLoopTimerRequestNone)) \<and>
     sorted (map (remaining lp) (timer_list lp))"

lemma set_push [simp]: "set (push_from_last r t xs) = insert t (set xs)"
  by (induction xs) auto

lemma distinct_push: "distinct xs \<Longrightarrow> t \<notin> set xs \<Longrightarrow> distinct (push_from_last r t xs)"
  by (induction xs) auto

lemma sorted_push: "sorted (map r (rev xs)) \<Longrightarrow> sorted (map r (rev (push_from_last r t xs)))"
proof (induction xs)
  case (Cons x xs)
  then show ?case by (auto simp: sorted_append)
qed simp

lemma timer_at_Inr: "timer_at lp t = Inr timer \<longleftrightarrow> timers lp t = Some timer"
  by (auto simp: timer_at_def split: option.splits)

lemma set_timer_simps [simp]: "timers (set_timer t timer lp) = (timers lp)(t := Some timer)"
  "timer_list (set_timer t timer lp) = timer_list lp" "timer_queue (set_timer t timer lp) = timer_queue lp"
  "tick_count (set_timer t timer lp) = tick_count lp" "called (set_timer t timer lp) = called lp"
  by (simp_all add: set_timer_def)

lemma schedule_simps [simp]: "timers (furi_event_loop_schedule_timer t lp) = timers lp"
  "timer_queue (furi_event_loop_schedule_timer t lp) = timer_queue lp"
  "tick_count (furi_event_loop_schedule_timer t lp) = tick_count lp"
  "called (furi_event_loop_schedule_timer t lp) = called lp"
  by (simp_all add: furi_event_loop_schedule_timer_def)

lemma remaining_cong: "timers lp' t = timers lp t \<Longrightarrow> tick_count lp' = tick_count lp \<Longrightarrow> remaining lp' t = remaining lp t"
  by (cases "timers lp t") (simp_all add: remaining_def)

lemma remaining_same_time: "timers lp t = Some timer \<Longrightarrow> timers lp' t = Some timer' \<Longrightarrow> tick_count lp' = tick_count lp \<Longrightarrow>
    interval timer' = interval timer \<Longrightarrow> start_time timer' = start_time timer \<Longrightarrow> remaining lp' t = remaining lp t"
  by (simp add: remaining_def furi_event_loop_timer_get_remaining_time_def furi_event_loop_timer_get_elapsed_time_def
      Let_def)

lemma sorted_cong: "sorted (map f xs) \<Longrightarrow> (\<And>x. x \<in> set xs \<Longrightarrow> g x = f x) \<Longrightarrow> sorted (map g xs)"
  by (subst map_cong [of xs xs g f]) simp_all

lemma sorted_removeAll: "sorted (map f xs) \<Longrightarrow> sorted (map f (removeAll t xs))"
  by (induction xs) auto

lemma timers_ok_enqueue:
  assumes "timers_ok lp" and "furi_event_loop_timer_enqueue_request t req lp = Inr lp'" and "req \<noteq> FuriEventLoopTimerRequestNone"
  shows "timers_ok lp'"
proof -
  obtain timer where timer: "timers lp t = Some timer"
    and lp': "lp' = (set_timer t (timer\<lparr>request := req\<rparr>) lp)\<lparr>timer_queue := (if request timer \<noteq> FuriEventLoopTimerRequestNone
      then removeAll t (timer_queue lp) else timer_queue lp) @ [t], timer_flag := True\<rparr>"
    using assms(2) by (auto simp: furi_event_loop_timer_enqueue_request_def bind_r_Inr_iff furi_check_Inr_iff timer_at_Inr Let_def)
  have r: "remaining lp' u = remaining lp u" for u
  proof (cases "u = t")
    case True
    then show ?thesis by (intro remaining_same_time [of lp u timer lp' "timer\<lparr>request := req\<rparr>"]) (simp_all add: timer lp')
  next
    case False
    then show ?thesis by (intro remaining_cong) (simp_all add: lp')
  qed
  have q: "set (timer_queue lp') = insert t (set (timer_queue lp))" by (auto simp: lp')
  have nq: "request timer = FuriEventLoopTimerRequestNone \<Longrightarrow> t \<notin> set (timer_queue lp)"
    using assms(1) timer by (auto simp: timers_ok_def)
  have d: "distinct (timer_queue lp')" using assms(1) nq by (auto simp: lp' timers_ok_def distinct_removeAll)
  have s: "sorted (map (remaining lp') (timer_list lp'))"
    using assms(1) by (intro sorted_cong [OF _ r]) (simp add: lp' timers_ok_def)
  show ?thesis
    unfolding timers_ok_def using assms(1,3) timer d q s
    by (auto simp: timers_ok_def lp')
qed


lemma sorted_schedule:
  assumes "sorted (map (remaining lp) (timer_list lp))"
  shows "sorted (map (remaining (furi_event_loop_schedule_timer t lp)) (timer_list (furi_event_loop_schedule_timer t lp)))"
proof -
  have r: "remaining (furi_event_loop_schedule_timer t lp) u = remaining lp u" for u by (intro remaining_cong) simp_all
  show ?thesis
    using sorted_push [of "remaining lp" "rev (timer_list lp)" t] assms
    by (intro sorted_cong [OF _ r]) (simp add: furi_event_loop_schedule_timer_def)
qed

lemma schedule_list: "set (timer_list (furi_event_loop_schedule_timer t lp)) = insert t (set (timer_list lp))"
  "distinct (timer_list lp) \<Longrightarrow> t \<notin> set (timer_list lp) \<Longrightarrow> distinct (timer_list (furi_event_loop_schedule_timer t lp))"
  by (simp_all add: furi_event_loop_schedule_timer_def distinct_push)

text \<open>The list without one timer, whose fields may change.\<close>

lemma sorted_others:
  assumes "sorted (map (remaining lp) (timer_list lp))" and "tick_count lp' = tick_count lp"
    and "\<And>u. u \<noteq> t \<Longrightarrow> timers lp' u = timers lp u"
  shows "sorted (map (remaining lp') (removeAll t (timer_list lp)))"
  by (rule sorted_cong [OF sorted_removeAll [OF assms(1)]]) (auto intro: remaining_cong assms(2,3))

lemma timers_ok_process_request:
  assumes ok: "timers_ok lp" and q: "timer_queue lp = t # ts" and p: "process_request t (lp\<lparr>timer_queue := ts\<rparr>) = Inr lp'"
  shows "timers_ok lp'" "timer_queue lp' = ts"
proof -
  let ?lp1 = "lp\<lparr>timer_queue := ts, timer_list := removeAll t (timer_list lp)\<rparr>"
  obtain timer where timer: "timers lp t = Some timer"
    using p by (auto simp: process_request_def bind_r_Inr_iff timer_at_Inr)
  have lp1: "(if active timer then lp\<lparr>timer_queue := ts, timer_list := removeAll t (timer_list lp)\<rparr> else lp\<lparr>timer_queue := ts\<rparr>) = ?lp1"
    using ok timer by (auto simp: timers_ok_def removeAll_id)
  have p2: "(case request timer of
            FuriEventLoopTimerRequestStart \<Rightarrow>
              Inr (furi_event_loop_schedule_timer t
                (set_timer t (timer\<lparr>active := True, interval := next_interval timer, start_time := tick_count lp,
                   request := FuriEventLoopTimerRequestNone\<rparr>) ?lp1))
          | FuriEventLoopTimerRequestStop \<Rightarrow>
              Inr (set_timer t (timer\<lparr>active := False, request := FuriEventLoopTimerRequestNone\<rparr>) ?lp1)
          | FuriEventLoopTimerRequestFree \<Rightarrow> Inr (?lp1\<lparr>timers := (timers lp)(t := None)\<rparr>)
          | FuriEventLoopTimerRequestNone \<Rightarrow> Inl FuriCrash) = Inr lp'"
    using p timer lp1 by (auto simp: process_request_def timer_at_def Let_def split: FuriEventLoopTimerRequest.splits if_splits)
  have basics: "distinct (timer_list lp)" "t \<notin> set ts" "distinct ts" "sorted (map (remaining lp) (timer_list lp))"
    "\<And>u. u \<in> set (timer_list lp) \<longleftrightarrow> (\<exists>timer. timers lp u = Some timer \<and> active timer)"
    "\<And>u. u = t \<or> u \<in> set ts \<longleftrightarrow> (\<exists>timer. timers lp u = Some timer \<and> request timer \<noteq> FuriEventLoopTimerRequestNone)"
    using ok q unfolding timers_ok_def by auto
  have "timers_ok lp' \<and> timer_queue lp' = ts"
  proof (cases "request timer")
    case FuriEventLoopTimerRequestNone
    then show ?thesis using p2 by simp
  next
    case FuriEventLoopTimerRequestStart
    let ?lp2 = "set_timer t (timer\<lparr>active := True, interval := next_interval timer, start_time := tick_count lp,
                   request := FuriEventLoopTimerRequestNone\<rparr>) ?lp1"
    have lp': "lp' = furi_event_loop_schedule_timer t ?lp2" using p2 FuriEventLoopTimerRequestStart by simp
    have "sorted (map (remaining ?lp2) (timer_list ?lp2))"
      using sorted_others [OF basics(4), of ?lp2 t] by simp
    from sorted_schedule [OF this, of t] have s: "sorted (map (remaining lp') (timer_list lp'))" by (simp add: lp')
    have "distinct (timer_list lp')" unfolding lp' by (rule schedule_list(2)) (simp_all add: basics distinct_removeAll)
    then show ?thesis using s basics unfolding timers_ok_def by (auto simp: lp' schedule_list)
  next
    case FuriEventLoopTimerRequestStop
    then have lp': "lp' = set_timer t (timer\<lparr>active := False, request := FuriEventLoopTimerRequestNone\<rparr>) ?lp1" using p2 by simp
    have "sorted (map (remaining lp') (timer_list lp'))"
      using sorted_others [OF basics(4), of lp' t] by (simp add: lp')
    then show ?thesis using basics unfolding timers_ok_def by (auto simp: lp' distinct_removeAll)
  next
    case FuriEventLoopTimerRequestFree
    then have lp': "lp' = ?lp1\<lparr>timers := (timers lp)(t := None)\<rparr>" using p2 by simp
    have "sorted (map (remaining lp') (timer_list lp'))"
      using sorted_others [OF basics(4), of lp' t] by (simp add: lp')
    then show ?thesis using basics unfolding timers_ok_def by (auto simp: lp' distinct_removeAll)
  qed
  then show "timers_ok lp'" "timer_queue lp' = ts" by simp_all
qed


lemma timers_ok_process_requests:
  "timers_ok lp \<Longrightarrow> timer_queue lp = ts \<Longrightarrow> process_requests ts lp = Inr lp' \<Longrightarrow> timers_ok lp' \<and> timer_queue lp' = []"
proof (induction ts arbitrary: lp)
  case (Cons t ts)
  then obtain lp1 where lp1: "process_request t (lp\<lparr>timer_queue := ts\<rparr>) = Inr lp1" "process_requests ts lp1 = Inr lp'"
    by (auto simp: bind_r_Inr_iff)
  from timers_ok_process_request [OF Cons.prems(1,2) lp1(1)] Cons.IH lp1(2) show ?case by blast
qed simp

lemma remaining_elapsed: "unat (furi_event_loop_timer_get_remaining_time now timer) =
    unat (interval timer) - unat (furi_event_loop_timer_get_elapsed_time now timer)"
proof (cases "furi_event_loop_timer_get_elapsed_time now timer < interval timer")
  case True
  then have "furi_event_loop_timer_get_elapsed_time now timer \<le> interval timer" by simp
  then show ?thesis using True by (simp add: furi_event_loop_timer_get_remaining_time_def Let_def unat_sub)
next
  case False
  then show ?thesis by (simp add: furi_event_loop_timer_get_remaining_time_def Let_def word_less_nat_alt)
qed

lemma expired_remaining: "furi_event_loop_timer_is_expired now timer \<longleftrightarrow> furi_event_loop_timer_get_remaining_time now timer = 0"
  using remaining_elapsed [of now timer]
  by (auto simp: furi_event_loop_timer_is_expired_def word_le_nat_alt unat_eq_0 [symmetric])

lemma elapsed_later: "unat (furi_event_loop_timer_get_elapsed_time now timer) + unat dt < 2 ^ 32 \<Longrightarrow>
    unat (furi_event_loop_timer_get_elapsed_time (now + dt) timer) = unat (furi_event_loop_timer_get_elapsed_time now timer) + unat dt"
proof -
  assume l: "unat (furi_event_loop_timer_get_elapsed_time now timer) + unat dt < 2 ^ 32"
  have "furi_event_loop_timer_get_elapsed_time (now + dt) timer = furi_event_loop_timer_get_elapsed_time now timer + dt"
    by (simp add: furi_event_loop_timer_get_elapsed_time_def)
  then show ?thesis using l by (simp add: unat_add_lem [THEN iffD1])
qed

lemma timers_ok_pass:
  assumes ok: "timers_ok lp" and "\<not> stalls dt lp"
  shows "timers_ok (lp\<lparr>tick_count := tick_count lp + dt\<rparr>)"
proof -
  let ?lp = "lp\<lparr>tick_count := tick_count lp + dt\<rparr>"
  have r: "unat (remaining ?lp t) = unat (remaining lp t) - unat dt" if m: "t \<in> set (timer_list lp)" for t
  proof -
    obtain timer where timer: "timers lp t = Some timer" using ok m by (auto simp: timers_ok_def)
    then have "unat (furi_event_loop_timer_get_elapsed_time (tick_count lp) timer) + unat dt < 2 ^ 32"
      using assms(2) m no_olen_add_nat [of "furi_event_loop_timer_get_elapsed_time (tick_count lp) timer" dt]
      by (force simp: stalls_def Let_def not_less)
    then show ?thesis using timer by (simp add: remaining_def remaining_elapsed elapsed_later)
  qed
  have "sorted (map (remaining ?lp) (timer_list lp))"
    unfolding sorted_map
  proof (rule sorted_wrt_mono_rel)
    show "sorted_wrt (\<lambda>x y. remaining lp x \<le> remaining lp y) (timer_list lp)"
      using ok by (simp add: timers_ok_def sorted_map)
    show "remaining ?lp x \<le> remaining ?lp y"
      if "x \<in> set (timer_list lp)" "y \<in> set (timer_list lp)" "remaining lp x \<le> remaining lp y" for x y
      using that by (simp add: word_le_nat_alt r diff_le_mono)
  qed
  then show ?thesis using ok by (simp add: timers_ok_def)
qed

lemma timers_ok_alloc: "timers_ok lp \<Longrightarrow> timers lp t = None \<Longrightarrow> timers_ok (furi_event_loop_timer_alloc t cb per lp)"
proof -
  assume ok: "timers_ok lp" and t: "timers lp t = None"
  have "t \<notin> set (timer_list lp)" using ok t by (auto simp: timers_ok_def)
  then have "sorted (map (remaining (furi_event_loop_timer_alloc t cb per lp)) (timer_list lp))"
    using sorted_others [of lp "furi_event_loop_timer_alloc t cb per lp" t] ok
    by (simp add: timers_ok_def furi_event_loop_timer_alloc_def removeAll_id)
  then show ?thesis using ok t by (auto simp: timers_ok_def furi_event_loop_timer_alloc_def)
qed


lemma timers_ok_replace:
  assumes ok: "timers_ok lp" and timer: "timers lp t = Some timer" and "timers lp' = (timers lp)(t \<mapsto> timer')"
    and req: "request timer' = request timer" and "timer_queue lp' = timer_queue lp" and "distinct (timer_list lp')"
    and l: "set (timer_list lp') = (if active timer' then insert t (set (timer_list lp) - {t}) else set (timer_list lp) - {t})"
    and "sorted (map (remaining lp') (timer_list lp'))"
  shows "timers_ok lp'"
  unfolding timers_ok_def
proof (intro conjI allI)
  have m: "u \<in> set (timer_list lp) \<longleftrightarrow> (\<exists>timer. timers lp u = Some timer \<and> active timer)"
    "u \<in> set (timer_queue lp) \<longleftrightarrow> (\<exists>timer. timers lp u = Some timer \<and> request timer \<noteq> FuriEventLoopTimerRequestNone)" for u
    using ok by (simp_all add: timers_ok_def)
  show "u \<in> set (timer_list lp') \<longleftrightarrow> (\<exists>timer. timers lp' u = Some timer \<and> active timer)" for u
    using m(1) [of u] by (simp add: l assms(3))
  show "u \<in> set (timer_queue lp') \<longleftrightarrow> (\<exists>timer. timers lp' u = Some timer \<and> request timer \<noteq> FuriEventLoopTimerRequestNone)" for u
    using m(2) [of u] timer by (simp add: assms(3,5) req)
qed (use assms in \<open>simp_all add: timers_ok_def\<close>)

text \<open>Serving an expired timer: its callback runs, a periodic timer goes back into the list with a start time
  that is a multiple of its interval later, another one becomes inactive.\<close>

lemma served:
  assumes ok: "timers_ok lp" and p: "furi_event_loop_process_expired_timers lp = Inr (True, lp')"
  obtains t timer timer' where "timers lp t = Some timer" "active timer" "furi_event_loop_timer_is_expired (tick_count lp) timer"
    "timers lp' = (timers lp)(t \<mapsto> timer')" "called lp' = called lp @ [callback timer]" "tick_count lp' = tick_count lp"
    "timer_queue lp' = timer_queue lp" "request timer' = request timer" "timers_ok lp'"
    "active timer' = periodic timer" "periodic timer' = periodic timer" "interval timer' = interval timer"
    "callback timer' = callback timer" "next_interval timer' = next_interval timer"
    "if periodic timer then interval timer \<noteq> 0 \<and> start_time timer' = start_time timer + interval timer *
        (furi_event_loop_timer_get_elapsed_time (tick_count lp) timer div interval timer)
     else start_time timer' = start_time timer"
proof -
  obtain t ts where l: "timer_list lp = t # ts"
    using p by (auto simp: furi_event_loop_process_expired_timers_def split: list.splits)
  have "t \<in> set (timer_list lp)" using l by simp
  then obtain timer where timer: "timers lp t = Some timer" "active timer" using ok unfolding timers_ok_def by blast
  have e: "furi_event_loop_timer_is_expired (tick_count lp) timer"
    using p l timer by (auto simp: furi_event_loop_process_expired_timers_def timer_at_def split: if_splits)
  have basics: "distinct ts" "t \<notin> set ts" "ts = removeAll t (timer_list lp)"
    using ok l by (auto simp: timers_ok_def removeAll_id)
  let ?lp1 = "lp\<lparr>timer_list := ts\<rparr>"
  show thesis
  proof (cases "periodic timer")
    case True
    define timer' where "timer' = timer\<lparr>start_time := start_time timer + interval timer *
        (furi_event_loop_timer_get_elapsed_time (tick_count lp) timer div interval timer)\<rparr>"
    let ?lp2 = "furi_event_loop_schedule_timer t (set_timer t timer' ?lp1)"
    have z: "interval timer \<noteq> 0" and lp': "lp' = ?lp2\<lparr>called := called lp @ [callback timer]\<rparr>"
      using p l timer e True
      by (auto simp: furi_event_loop_process_expired_timers_def timer_at_def timer'_def Let_def split: if_splits)
    have "sorted (map (remaining (set_timer t timer' ?lp1)) (timer_list (set_timer t timer' ?lp1)))"
      using sorted_others [of lp "set_timer t timer' ?lp1" t] ok basics(3) by (simp add: timers_ok_def)
    from sorted_schedule [OF this, of t] have s: "sorted (map (remaining lp') (timer_list lp'))"
      by (simp add: lp' sorted_cong [OF _ remaining_cong])
    have d: "distinct (timer_list lp')" "set (timer_list lp') = insert t (set ts)"
      using schedule_list(2) [of "set_timer t timer' ?lp1" t] basics by (simp_all add: lp' schedule_list(1))
    have ok': "timers_ok lp'"
      by (rule timers_ok_replace [OF ok timer(1), of lp' timer'])
        (use d s timer basics(1,2) in \<open>simp_all add: lp' timer'_def l\<close>)
    show thesis
      by (rule that [of t timer timer']) (simp_all add: timer e lp' timer'_def True z ok' [unfolded lp' timer'_def])
  next
    case False
    define timer' where "timer' = timer\<lparr>active := False\<rparr>"
    have lp': "lp' = (set_timer t timer' ?lp1)\<lparr>called := called lp @ [callback timer]\<rparr>"
      using p l timer e False by (auto simp: furi_event_loop_process_expired_timers_def timer_at_def timer'_def Let_def)
    have s: "sorted (map (remaining lp') (timer_list lp'))"
      using sorted_others [of lp lp' t] ok basics(3) by (simp add: timers_ok_def lp')
    have ok': "timers_ok lp'"
      by (rule timers_ok_replace [OF ok timer(1), of lp' timer'])
        (use s basics(1,2) in \<open>simp_all add: lp' timer'_def l\<close>)
    show thesis
      by (rule that [of t timer timer']) (simp_all add: timer e lp' timer'_def False ok' [unfolded lp' timer'_def])
  qed
qed

lemma not_served: "furi_event_loop_process_expired_timers lp = Inr (False, lp') \<Longrightarrow> lp' = lp"
  by (auto simp: furi_event_loop_process_expired_timers_def bind_r_Inr_iff Let_def split: list.splits if_splits)


lemma timers_ok_expired:
  assumes "timers_ok lp" and p: "furi_event_loop_process_expired_timers lp = Inr (b, lp')"
  shows "timers_ok lp'"
proof (cases b)
  case True
  then show ?thesis using served [OF assms(1), of lp'] p by metis
next
  case False
  then show ?thesis using not_served [of lp lp'] p assms(1) by simp
qed

lemma timers_ok_set_next:
  assumes ok: "timers_ok lp" and timer: "timers lp t = Some timer"
  shows "timers_ok (set_timer t (timer\<lparr>next_interval := i\<rparr>) lp)"
proof (rule timers_ok_replace [OF ok timer, of _ "timer\<lparr>next_interval := i\<rparr>"])
  let ?lp = "set_timer t (timer\<lparr>next_interval := i\<rparr>) lp"
  have r: "remaining ?lp u = remaining lp u" for u
  proof (cases "u = t")
    case True
    then show ?thesis by (intro remaining_same_time [of lp u timer ?lp "timer\<lparr>next_interval := i\<rparr>"]) (simp_all add: timer)
  qed (intro remaining_cong; simp)
  have "sorted (map (remaining lp) (timer_list lp))" using ok by (simp add: timers_ok_def)
  then show "sorted (map (remaining ?lp) (timer_list ?lp))" by (simp add: r cong: map_cong)
  have "t \<in> set (timer_list lp) \<longleftrightarrow> active timer" using ok timer by (simp add: timers_ok_def)
  then show "set (timer_list ?lp) = (if active (timer\<lparr>next_interval := i\<rparr>) then insert t (set (timer_list lp) - {t})
      else set (timer_list lp) - {t})" by auto
qed (use ok in \<open>simp_all add: timers_ok_def\<close>)

lemma timers_ok_do: "timers_ok lp \<Longrightarrow> timer_do op lp = Inr lp' \<Longrightarrow> timers_ok lp'"
proof (cases op)
  case (Free t)
  then show "timers_ok lp \<Longrightarrow> timer_do op lp = Inr lp' \<Longrightarrow> ?thesis"
    using timers_ok_enqueue by (simp add: furi_event_loop_timer_free_def)
next
  case (Start t i)
  then show "timers_ok lp \<Longrightarrow> timer_do op lp = Inr lp' \<Longrightarrow> ?thesis"
    using timers_ok_enqueue [of _ t FuriEventLoopTimerRequestStart lp'] timers_ok_set_next [of lp t]
    by (auto simp: furi_event_loop_timer_start_def bind_r_Inr_iff timer_at_Inr)
next
  case (Restart t)
  then show "timers_ok lp \<Longrightarrow> timer_do op lp = Inr lp' \<Longrightarrow> ?thesis"
    using timers_ok_enqueue [of _ t FuriEventLoopTimerRequestStart lp'] timers_ok_set_next [of lp t]
    by (auto simp: furi_event_loop_timer_restart_def bind_r_Inr_iff timer_at_Inr)
next
  case (Halt t)
  then show "timers_ok lp \<Longrightarrow> timer_do op lp = Inr lp' \<Longrightarrow> ?thesis"
    using timers_ok_enqueue by (simp add: furi_event_loop_timer_stop_def)
next
  case ServeQueue
  then show "timers_ok lp \<Longrightarrow> timer_do op lp = Inr lp' \<Longrightarrow> ?thesis"
    using timers_ok_process_requests [of lp "timer_queue lp" lp'] by (simp add: furi_event_loop_process_timer_queue_def)
next
  case ServeExpired
  then show "timers_ok lp \<Longrightarrow> timer_do op lp = Inr lp' \<Longrightarrow> ?thesis"
    using timers_ok_expired by (auto simp: bind_r_Inr_iff)
qed (auto simp: timers_ok_alloc timers_ok_pass split: if_splits)

lemma timers_ok_run: "timers_ok lp \<Longrightarrow> timer_run ops lp = Inr lp' \<Longrightarrow> timers_ok lp'"
  unfolding timer_run_def by (induction ops arbitrary: lp) (auto simp: bind_r_Inr_iff dest: timers_ok_do)

lemma timers_ok_start: "timers_ok (timers_alloc now)"
  by (simp add: timers_ok_def timers_alloc_def)


section \<open>Clients that use timers as they may\<close>

text \<open>Calls on timers that exist and are not to be freed; no periodic timer with interval zero.\<close>

definition usable :: "TimerLoop \<Rightarrow> nat \<Rightarrow> (FuriEventLoopTimer \<Rightarrow> bool) \<Rightarrow> bool" where
  "usable lp t ok = (case timers lp t of None \<Rightarrow> False
     | Some timer \<Rightarrow> request timer \<noteq> FuriEventLoopTimerRequestFree \<and> ok timer)"

fun allowed :: "timer_op \<Rightarrow> TimerLoop \<Rightarrow> bool" where
  "allowed (Free t) lp = usable lp t (\<lambda>timer. True)"
| "allowed (Start t i) lp = usable lp t (\<lambda>timer. periodic timer \<longrightarrow> i \<noteq> 0)"
| "allowed (Restart t) lp = usable lp t (\<lambda>timer. periodic timer \<longrightarrow> interval timer \<noteq> 0)"
| "allowed (Halt t) lp = usable lp t (\<lambda>timer. True)"
| "allowed op lp = True"

fun all_allowed :: "timer_op list \<Rightarrow> TimerLoop \<Rightarrow> bool" where
  "all_allowed [] lp = True"
| "all_allowed (op # ops) lp = (allowed op lp \<and> (case timer_do op lp of Inl e \<Rightarrow> True | Inr lp1 \<Rightarrow> all_allowed ops lp1))"

definition intervals_ok :: "TimerLoop \<Rightarrow> bool" where
  "intervals_ok lp \<longleftrightarrow> (\<forall>t timer. timers lp t = Some timer \<longrightarrow> periodic timer \<longrightarrow>
     (active timer \<longrightarrow> interval timer \<noteq> 0) \<and> (request timer = FuriEventLoopTimerRequestStart \<longrightarrow> next_interval timer \<noteq> 0))"

lemma intervals_okD: "intervals_ok lp \<Longrightarrow> timers lp t = Some timer \<Longrightarrow> periodic timer \<Longrightarrow> active timer \<Longrightarrow> interval timer \<noteq> 0"
  "intervals_ok lp \<Longrightarrow> timers lp t = Some timer \<Longrightarrow> periodic timer \<Longrightarrow> request timer = FuriEventLoopTimerRequestStart \<Longrightarrow>
    next_interval timer \<noteq> 0"
  by (simp_all add: intervals_ok_def)

lemma intervals_ok_set:
  assumes "intervals_ok lp" and "timers lp' = (timers lp)(t \<mapsto> timer)"
    and "periodic timer \<Longrightarrow> active timer \<Longrightarrow> interval timer \<noteq> 0"
    and "periodic timer \<Longrightarrow> request timer = FuriEventLoopTimerRequestStart \<Longrightarrow> next_interval timer \<noteq> 0"
  shows "intervals_ok lp'"
  using assms by (auto simp: intervals_ok_def split: if_splits)

lemma intervals_ok_drop: "intervals_ok lp \<Longrightarrow> timers lp' = (timers lp)(t := None) \<Longrightarrow> intervals_ok lp'"
  by (auto simp: intervals_ok_def split: if_splits)

lemma intervals_ok_cong: "timers lp' = timers lp \<Longrightarrow> intervals_ok lp' = intervals_ok lp"
  by (simp add: intervals_ok_def)

lemma enqueue_total:
  assumes "timers lp t = Some timer" and "request timer \<noteq> FuriEventLoopTimerRequestFree"
  obtains lp' where "furi_event_loop_timer_enqueue_request t req lp = Inr lp'" "timers lp' = (timers lp)(t \<mapsto> timer\<lparr>request := req\<rparr>)"
  using assms by (simp add: furi_event_loop_timer_enqueue_request_def timer_at_def Let_def)

lemma process_request_total:
  assumes "timers lp t = Some timer" and "request timer \<noteq> FuriEventLoopTimerRequestNone" and i: "intervals_ok lp"
  obtains lp' where "process_request t lp = Inr lp'" "intervals_ok lp'"
proof (cases "request timer")
  case FuriEventLoopTimerRequestStart
  let ?timer = "timer\<lparr>active := True, interval := next_interval timer, start_time := tick_count lp,
    request := FuriEventLoopTimerRequestNone\<rparr>"
  let ?lp = "furi_event_loop_schedule_timer t (set_timer t ?timer
    (if active timer then lp\<lparr>timer_list := removeAll t (timer_list lp)\<rparr> else lp))"
  have "process_request t lp = Inr ?lp" using assms FuriEventLoopTimerRequestStart by (simp add: process_request_def timer_at_def Let_def)
  moreover have "intervals_ok ?lp"
    by (rule intervals_ok_set [OF i, of _ t ?timer])
      (use intervals_okD(2) [OF i assms(1)] FuriEventLoopTimerRequestStart in simp_all)
  ultimately show thesis by (rule that)
next
  case FuriEventLoopTimerRequestStop
  let ?timer = "timer\<lparr>active := False, request := FuriEventLoopTimerRequestNone\<rparr>"
  let ?lp = "set_timer t ?timer (if active timer then lp\<lparr>timer_list := removeAll t (timer_list lp)\<rparr> else lp)"
  have "process_request t lp = Inr ?lp" using assms FuriEventLoopTimerRequestStop by (simp add: process_request_def timer_at_def Let_def)
  moreover have "intervals_ok ?lp" by (rule intervals_ok_set [OF i, of _ t ?timer]) simp_all
  ultimately show thesis by (rule that)
next
  case FuriEventLoopTimerRequestFree
  let ?lp1 = "if active timer then lp\<lparr>timer_list := removeAll t (timer_list lp)\<rparr> else lp"
  let ?lp = "?lp1\<lparr>timers := (timers ?lp1)(t := None)\<rparr>"
  have "process_request t lp = Inr ?lp" using assms FuriEventLoopTimerRequestFree by (simp add: process_request_def timer_at_def Let_def)
  moreover have "intervals_ok ?lp" by (rule intervals_ok_drop [OF i, of _ t]) simp
  ultimately show thesis by (rule that)
qed (use assms(2) in simp)

lemma process_requests_total:
  "timers_ok lp \<Longrightarrow> intervals_ok lp \<Longrightarrow> timer_queue lp = ts \<Longrightarrow> \<exists>lp'. process_requests ts lp = Inr lp' \<and> intervals_ok lp'"
proof (induction ts arbitrary: lp)
  case (Cons t ts)
  have "t \<in> set (timer_queue lp)" using Cons.prems(3) by simp
  then obtain timer where timer: "timers lp t = Some timer" "request timer \<noteq> FuriEventLoopTimerRequestNone"
    using Cons.prems(1) unfolding timers_ok_def by blast
  obtain lp1 where lp1: "process_request t (lp\<lparr>timer_queue := ts\<rparr>) = Inr lp1" "intervals_ok lp1"
    using process_request_total [of "lp\<lparr>timer_queue := ts\<rparr>" t timer] timer Cons.prems(2)
    by (auto simp: intervals_ok_cong [of "lp\<lparr>timer_queue := ts\<rparr>" lp])
  from timers_ok_process_request [OF Cons.prems(1,3) lp1(1)] Cons.IH [of lp1] lp1 show ?case by auto
qed simp

lemma expired_total:
  assumes ok: "timers_ok lp" and i: "intervals_ok lp"
  obtains b lp' where "furi_event_loop_process_expired_timers lp = Inr (b, lp')" "intervals_ok lp'"
proof -
  have "furi_event_loop_process_expired_timers lp \<noteq> Inl e" for e
  proof (cases "timer_list lp")
    case Nil
    then show ?thesis by (auto simp: furi_event_loop_process_expired_timers_def)
  next
    case (Cons t ts)
    then have "t \<in> set (timer_list lp)" by simp
    then obtain timer where timer: "timers lp t = Some timer" "active timer" using ok unfolding timers_ok_def by blast
    then show ?thesis using intervals_okD(1) [OF i timer(1)] Cons
      by (simp add: furi_event_loop_process_expired_timers_def timer_at_def Let_def)
  qed
  then obtain r where r: "furi_event_loop_process_expired_timers lp = Inr r"
    by (cases "furi_event_loop_process_expired_timers lp") auto
  obtain b lp' where "r = (b, lp')" by (cases r)
  then have p: "furi_event_loop_process_expired_timers lp = Inr (b, lp')" using r by simp
  have "intervals_ok lp'"
  proof (cases b)
    case True
    then have "furi_event_loop_process_expired_timers lp = Inr (True, lp')" using p by simp
    then show ?thesis
    proof (cases rule: served [OF ok, consumes 1])
      case (1 t timer timer')
      show ?thesis
        by (rule intervals_ok_set [OF i 1(4)])
          (use 1 intervals_okD [OF i 1(1)] in simp_all)
    qed
  next
    case False
    then show ?thesis using p i not_served [of lp lp'] by simp
  qed
  then show thesis using p that by blast
qed

lemma usableD: "usable lp t ok \<Longrightarrow> \<exists>timer. timers lp t = Some timer \<and> request timer \<noteq> FuriEventLoopTimerRequestFree \<and> ok timer"
  by (auto simp: usable_def split: option.splits)

lemma request_total:
  assumes timer: "timers lp t = Some timer" "request timer \<noteq> FuriEventLoopTimerRequestFree" and i: "intervals_ok lp"
    and n: "req = FuriEventLoopTimerRequestStart \<Longrightarrow> periodic timer \<Longrightarrow> next_interval timer \<noteq> 0"
  obtains lp' where "furi_event_loop_timer_enqueue_request t req lp = Inr lp'" "intervals_ok lp'"
proof (rule enqueue_total [OF timer, of req])
  fix lp' assume lp': "furi_event_loop_timer_enqueue_request t req lp = Inr lp'" "timers lp' = (timers lp)(t \<mapsto> timer\<lparr>request := req\<rparr>)"
  have "intervals_ok lp'"
    by (rule intervals_ok_set [OF i lp'(2)]) (use n intervals_okD(1) [OF i timer(1)] in simp_all)
  then show thesis using lp'(1) that by blast
qed

lemma start_total:
  assumes timer: "timers lp t = Some timer" "request timer \<noteq> FuriEventLoopTimerRequestFree" and i: "intervals_ok lp"
    and n: "periodic timer \<Longrightarrow> v \<noteq> 0"
  obtains lp' where "furi_event_loop_timer_enqueue_request t FuriEventLoopTimerRequestStart
      (set_timer t (timer\<lparr>next_interval := v\<rparr>) lp) = Inr lp'" "intervals_ok lp'"
proof -
  let ?lp = "set_timer t (timer\<lparr>next_interval := v\<rparr>) lp"
  have "intervals_ok ?lp" by (rule intervals_ok_set [OF i, of _ t "timer\<lparr>next_interval := v\<rparr>"])
      (use n intervals_okD [OF i timer(1)] in simp_all)
  then show thesis
    using request_total [of ?lp t "timer\<lparr>next_interval := v\<rparr>" FuriEventLoopTimerRequestStart] timer n that by auto
qed

lemma do_total:
  assumes ok: "timers_ok lp" and i: "intervals_ok lp" and a: "allowed op lp"
  shows "\<exists>lp'. timer_do op lp = Inr lp' \<and> intervals_ok lp'"
proof (cases op)
  case (Alloc t cb per)
  show ?thesis
  proof (cases "timers lp t")
    case None
    have "intervals_ok (furi_event_loop_timer_alloc t cb per lp)"
      unfolding furi_event_loop_timer_alloc_def by (rule intervals_ok_set [OF i set_timer_simps(1)]) simp_all
    then show ?thesis using Alloc None by simp
  qed (use Alloc i in simp)
next
  case (Free t)
  then obtain timer where timer: "timers lp t = Some timer" "request timer \<noteq> FuriEventLoopTimerRequestFree"
    using a usableD [of lp t "\<lambda>timer. True"] by auto
  from request_total [OF timer i, of FuriEventLoopTimerRequestFree] show ?thesis
    using Free by (auto simp: furi_event_loop_timer_free_def)
next
  case (Start t v)
  then obtain timer where timer: "timers lp t = Some timer" "request timer \<noteq> FuriEventLoopTimerRequestFree" "periodic timer \<longrightarrow> v \<noteq> 0"
    using a usableD by fastforce
  from start_total [OF timer(1,2) i, of v] timer(3) show ?thesis
    using Start timer(1) by (auto simp: furi_event_loop_timer_start_def timer_at_def)
next
  case (Restart t)
  then obtain timer where timer: "timers lp t = Some timer" "request timer \<noteq> FuriEventLoopTimerRequestFree"
      "periodic timer \<longrightarrow> interval timer \<noteq> 0"
    using a usableD by fastforce
  from start_total [OF timer(1,2) i, of "interval timer"] timer(3) show ?thesis
    using Restart timer(1) by (auto simp: furi_event_loop_timer_restart_def timer_at_def)
next
  case (Halt t)
  then obtain timer where timer: "timers lp t = Some timer" "request timer \<noteq> FuriEventLoopTimerRequestFree"
    using a usableD [of lp t "\<lambda>timer. True"] by auto
  from request_total [OF timer i, of FuriEventLoopTimerRequestStop] show ?thesis
    using Halt by (auto simp: furi_event_loop_timer_stop_def)
next
  case ServeQueue
  then show ?thesis using process_requests_total [OF ok i refl] by (simp add: furi_event_loop_process_timer_queue_def)
next
  case ServeExpired
  from expired_total [OF ok i] show ?thesis using ServeExpired by (metis bind_r_simps(2) case_prod_conv timer_do.simps(7))
next
  case (Pass dt)
  then show ?thesis using i by (simp add: intervals_ok_cong [of "lp\<lparr>tick_count := tick_count lp + dt\<rparr>" lp])
qed

lemma run_total: "timers_ok lp \<Longrightarrow> intervals_ok lp \<Longrightarrow> all_allowed ops lp \<Longrightarrow> \<exists>lp'. timer_run ops lp = Inr lp'"
proof (induction ops arbitrary: lp)
  case Nil
  then show ?case by (simp add: timer_run_def)
next
  case (Cons op ops)
  then obtain lp1 where lp1: "timer_do op lp = Inr lp1" "intervals_ok lp1" using do_total by fastforce
  then show ?case using Cons.IH [of lp1] Cons.prems timers_ok_do [OF Cons.prems(1) lp1(1)] by (auto simp: timer_run_def)
qed

text \<open>The loop sleeps no longer than the first running timer allows.\<close>

lemma wait_time_least:
  assumes ok: "timers_ok lp" and u: "timers lp u = Some timer'" "active timer'"
  shows "furi_event_loop_get_timer_wait_time lp \<le> furi_event_loop_timer_get_remaining_time (tick_count lp) timer'"
proof -
  have m: "u \<in> set (timer_list lp)" using ok u unfolding timers_ok_def by blast
  then obtain t ts where l: "timer_list lp = t # ts" by (cases "timer_list lp") auto
  have "remaining lp t \<le> remaining lp u" using ok m l by (auto simp: timers_ok_def)
  then show ?thesis using u by (simp add: furi_event_loop_get_timer_wait_time_def l remaining_def [of lp u])
qed

section \<open>Properties\<close>

text \<open>C12 Whatever the thread asks of its timers, in whatever order, and however time passes around the wrap of
  the tick counter: the running timers are exactly those of the list, the next to expire in front, the requests are exactly
  those of the queue, and the time the loop sleeps is the least remaining time of a running timer.\<close>

theorem loop_wakes_in_time:
  assumes "timer_run ops (timers_alloc now) = Inr lp"
  shows "timers_ok lp \<and>
    (\<forall>t timer. timers lp t = Some timer \<longrightarrow> active timer \<longrightarrow>
      furi_event_loop_get_timer_wait_time lp \<le> furi_event_loop_timer_get_remaining_time (tick_count lp) timer) \<and>
    (furi_event_loop_get_timer_wait_time lp = FuriWaitForever \<or>
      (\<exists>t timer. timers lp t = Some timer \<and> active timer \<and>
        furi_event_loop_get_timer_wait_time lp = furi_event_loop_timer_get_remaining_time (tick_count lp) timer))"
proof -
  have ok: "timers_ok lp" using timers_ok_run [OF timers_ok_start assms] .
  then have m: "t \<in> set (timer_list lp) \<longleftrightarrow> (\<exists>timer. timers lp t = Some timer \<and> active timer)" for t by (simp add: timers_ok_def)
  show ?thesis
  proof (cases "timer_list lp")
    case Nil
    then have "\<not> active timer" if "timers lp t = Some timer" for t timer using m [of t] that by auto
    then show ?thesis using ok Nil by (auto simp: furi_event_loop_get_timer_wait_time_def)
  next
    case (Cons t ts)
    then obtain timer where timer: "timers lp t = Some timer" "active timer" using m [of t] by auto
    have w: "furi_event_loop_get_timer_wait_time lp = remaining lp t" by (simp add: furi_event_loop_get_timer_wait_time_def Cons)
    show ?thesis using ok timer w wait_time_least [OF ok] by (auto simp: remaining_def [of lp t])
  qed
qed

definition demo_ops :: "timer_op list" where
  "demo_ops = [Alloc 0 7 True, Alloc 1 8 False, Start 0 100, Start 1 30, ServeQueue, Pass 250, ServeExpired, ServeExpired, ServeExpired]"

lemma demo_run:
  "(case timer_run demo_ops (timers_alloc (0 - 50)) of Inl e \<Rightarrow> False
    | Inr lp \<Rightarrow> called lp = [8, 7] \<and> furi_event_loop_get_timer_wait_time lp = 50 \<and> timer_list lp = [0])"
  by code_simp

theorem loop_wakes_in_time_witness:
  "\<exists>lp. timer_run demo_ops (timers_alloc (0 - 50)) = Inr lp \<and> called lp = [8, 7] \<and>
    furi_event_loop_get_timer_wait_time lp = 50 \<and> timers_ok lp"
  using demo_run loop_wakes_in_time [of demo_ops "0 - 50"] by (auto split: sum.splits)

text \<open>C38 Timers are served when they expire and only then: the loop runs a callback exactly when a running timer
  has expired, the callback of such a timer; a periodic timer stays on the grid of its interval, however late
  the loop is, and a timer that fires once stops.\<close>

theorem expired_timer_served:
  assumes "timer_run ops (timers_alloc now) = Inr lp" and "furi_event_loop_process_expired_timers lp = Inr (served_one, lp')"
  shows "(served_one \<longleftrightarrow> (\<exists>t timer. timers lp t = Some timer \<and> active timer \<and> furi_event_loop_timer_is_expired (tick_count lp) timer)) \<and>
    (served_one \<longrightarrow> (\<exists>t timer timer'. timers lp t = Some timer \<and> active timer \<and>
      furi_event_loop_timer_is_expired (tick_count lp) timer \<and> timers lp' = (timers lp)(t \<mapsto> timer') \<and>
      called lp' = called lp @ [callback timer] \<and>
      (if periodic timer
       then active timer' \<and> furi_event_loop_timer_get_elapsed_time (tick_count lp) timer' =
          furi_event_loop_timer_get_elapsed_time (tick_count lp) timer mod interval timer
       else \<not> active timer')))"
proof -
  have ok: "timers_ok lp" using timers_ok_run [OF timers_ok_start assms(1)] .
  show ?thesis
  proof (cases served_one)
    case True
    then have p: "furi_event_loop_process_expired_timers lp = Inr (True, lp')" using assms(2) by simp
    obtain t timer timer' where s: "timers lp t = Some timer" "active timer"
      "furi_event_loop_timer_is_expired (tick_count lp) timer" "timers lp' = (timers lp)(t \<mapsto> timer')"
      "called lp' = called lp @ [callback timer]" "active timer' = periodic timer"
      "if periodic timer then interval timer \<noteq> 0 \<and> start_time timer' = start_time timer + interval timer *
          (furi_event_loop_timer_get_elapsed_time (tick_count lp) timer div interval timer)
        else start_time timer' = start_time timer"
      using served [OF ok p] by metis
    have "furi_event_loop_timer_get_elapsed_time (tick_count lp) timer' =
        furi_event_loop_timer_get_elapsed_time (tick_count lp) timer mod interval timer" if "periodic timer"
      using s(7) that minus_mult_div_eq_mod [of "tick_count lp - start_time timer" "interval timer"]
      by (simp add: furi_event_loop_timer_get_elapsed_time_def algebra_simps)
    then show ?thesis using True s(1-6) by (intro conjI impI) (blast, intro exI [of _ t] exI [of _ timer] exI [of _ timer'], simp)
  next
    case False
    have "\<not> furi_event_loop_timer_is_expired (tick_count lp) timer" if u: "timers lp u = Some timer" "active timer" for u timer
    proof -
      have "u \<in> set (timer_list lp)" using ok u unfolding timers_ok_def by blast
      then obtain t ts where l: "timer_list lp = t # ts" by (cases "timer_list lp") auto
      then have "t \<in> set (timer_list lp)" by simp
      then obtain first where f: "timers lp t = Some first" using ok unfolding timers_ok_def by blast
      have "\<not> furi_event_loop_timer_is_expired (tick_count lp) first"
        using assms(2) False l f by (auto simp: furi_event_loop_process_expired_timers_def timer_at_def Let_def split: if_splits)
      then have "remaining lp t \<noteq> 0" using f by (simp add: remaining_def expired_remaining)
      moreover have "remaining lp t \<le> remaining lp u" using ok \<open>u \<in> set (timer_list lp)\<close> l by (auto simp: timers_ok_def)
      ultimately show ?thesis using u by (auto simp: remaining_def expired_remaining)
    qed
    then show ?thesis using False by blast
  qed
qed

lemma demo_serve:
  "(case timer_run (take 6 demo_ops) (timers_alloc (0 - 50)) of Inl e \<Rightarrow> False
    | Inr lp \<Rightarrow> (case furi_event_loop_process_expired_timers lp of Inl e \<Rightarrow> False | Inr (b, lp') \<Rightarrow> b \<and> called lp' = [8]))"
  by code_simp

theorem expired_timer_served_witness:
  "\<exists>lp lp'. timer_run (take 6 demo_ops) (timers_alloc (0 - 50)) = Inr lp \<and>
    furi_event_loop_process_expired_timers lp = Inr (True, lp') \<and> called lp' = [8] \<and>
    (\<exists>t timer. timers lp t = Some timer \<and> active timer \<and> furi_event_loop_timer_is_expired (tick_count lp) timer \<and>
      called lp' = called lp @ [callback timer])"
proof -
  obtain lp lp' where r: "timer_run (take 6 demo_ops) (timers_alloc (0 - 50)) = Inr lp"
    "furi_event_loop_process_expired_timers lp = Inr (True, lp')" "called lp' = [8]"
    using demo_serve by (auto split: sum.splits prod.splits)
  from expired_timer_served [OF r(1,2)] show ?thesis using r by blast
qed

text \<open>C39 A thread never runs into a fault (no failed check, no use of a freed timer, no division by zero) if it calls
  existing timers only, starts a periodic timer with an interval other than zero, and restarts a periodic timer only when an interval
  other than zero is in effect already, that is after the loop has served a start of it. The last condition is needed:
  \<open>restart_forgets_interval\<close> divides by zero without it.\<close>

theorem timers_never_fault:
  assumes "all_allowed ops (timers_alloc now)"
  shows "\<exists>lp. timer_run ops (timers_alloc now) = Inr lp"
  using run_total [OF timers_ok_start _ assms] by (simp add: intervals_ok_def timers_alloc_def)


theorem timers_never_fault_witness:
  "all_allowed demo_ops (timers_alloc 0) \<and> (\<exists>lp. timer_run demo_ops (timers_alloc 0) = Inr lp)"
proof -
  have "all_allowed demo_ops (timers_alloc 0)" by code_simp
  then show ?thesis using timers_never_fault by blast
qed

section \<open>A timer that is restarted before it was started\<close>

text \<open>The interval given to start becomes the interval of the timer when the loop serves the queue. A restart
  before that, which should use the interval set before, takes the old one, zero for a new timer: one that
  fires once fires at once, and a periodic one divides by zero.\<close>

theorem restart_forgets_interval:
  "(case timer_run [Alloc 0 7 False, Start 0 1000, Restart 0, ServeQueue, ServeExpired] (timers_alloc 0) of
      Inl e \<Rightarrow> False | Inr lp \<Rightarrow> called lp = [7])"
  "timer_run [Alloc 0 7 True, Start 0 1000, Restart 0, ServeQueue, ServeExpired] (timers_alloc 0) = Inl UndefinedBehaviour"
  by (code_simp, simp add: timer_run_def timers_alloc_def furi_event_loop_timer_alloc_def furi_event_loop_timer_start_def
      furi_event_loop_timer_restart_def timer_at_def set_timer_def furi_event_loop_timer_enqueue_request_def
      furi_event_loop_process_timer_queue_def process_request_def furi_event_loop_schedule_timer_def
      furi_event_loop_process_expired_timers_def furi_event_loop_timer_is_expired_def furi_event_loop_timer_get_elapsed_time_def
      Let_def)

end
