(* ===== verification/Event_Loop.thy ===== *)
theory Event_Loop
  imports Event_Loop_Timer
begin

text \<open>
  The event loop, \<^verbatim>\<open>furi/core/event_loop.c\<close> and \<^verbatim>\<open>furi/core/event_loop_tick.c\<close>. Subscriptions are items
  behind addresses, the objects subscribed to are numbers with a level for each direction and a link to the items. The task
  notification of the kernel is a word of flags. What a callback does is a script, a list of calls; the scripts
  of the callbacks a turn runs are given with the turn. The use of a freed item is a fault.
\<close>

unbundle bit_operations_syntax

section \<open>State\<close>

datatype FuriEventLoopEvent = FuriEventLoopEventIn | FuriEventLoopEventOut

record FuriEventLoopItem =
  owned :: bool
  direction :: FuriEventLoopEvent
  edge :: bool
  once :: bool
  object :: nat
  item_callback :: nat

record FuriEventLoopTick =
  tick_interval :: u32
  prev_time :: u32
  tick_callback :: "nat option"

datatype FuriEventLoopState = FuriEventLoopStateStopped | FuriEventLoopStateRunning

record FuriEventLoop =
  loop_state :: FuriEventLoopState
  current_item :: "nat option"
  items :: "nat \<Rightarrow> FuriEventLoopItem option"
  next_item :: nat
  tree :: "nat \<Rightarrow> nat option"
  item_in :: "nat \<Rightarrow> nat option"
  item_out :: "nat \<Rightarrow> nat option"
  level_in :: "nat \<Rightarrow> bool"
  level_out :: "nat \<Rightarrow> bool"
  waiting_list :: "nat list"
  pending_queue :: "nat list"
  tick :: FuriEventLoopTick
  thread_flags_callback :: "nat option"
  notified :: u32
  loop_timers :: TimerLoop
  ran :: "nat list"

definition FuriEventLoopFlagEvent :: u32 where [firmware_const]: "FuriEventLoopFlagEvent = 1"
definition FuriEventLoopFlagStop :: u32 where [firmware_const]: "FuriEventLoopFlagStop = 2"
definition FuriEventLoopFlagTimer :: u32 where [firmware_const]: "FuriEventLoopFlagTimer = 4"
definition FuriEventLoopFlagPending :: u32 where [firmware_const]: "FuriEventLoopFlagPending = 8"
definition FuriEventLoopFlagThreadFlag :: u32 where [firmware_const]: "FuriEventLoopFlagThreadFlag = 16"

definition furi_event_loop_alloc :: "u32 \<Rightarrow> FuriEventLoop" where
  "furi_event_loop_alloc now =
     \<lparr>loop_state = FuriEventLoopStateStopped, current_item = None, items = \<lambda>i. None, next_item = 0, tree = \<lambda>obj. None,
      item_in = \<lambda>obj. None, item_out = \<lambda>obj. None, level_in = \<lambda>obj. False, level_out = \<lambda>obj. False, waiting_list = [],
      pending_queue = [], tick = \<lparr>tick_interval = 0, prev_time = 0, tick_callback = None\<rparr>, thread_flags_callback = None,
      notified = 0, loop_timers = timers_alloc now, ran = []\<rparr>"

definition furi_event_loop_notify :: "u32 \<Rightarrow> FuriEventLoop \<Rightarrow> FuriEventLoop" where
  "furi_event_loop_notify flag l = l\<lparr>notified := notified l OR flag\<rparr>"

definition item_at :: "FuriEventLoop \<Rightarrow> nat \<Rightarrow> fault + FuriEventLoopItem" where
  "item_at l i = (case items l i of None \<Rightarrow> Inl UndefinedBehaviour | Some item \<Rightarrow> Inr item)"

definition get_link :: "FuriEventLoopEvent \<Rightarrow> FuriEventLoop \<Rightarrow> nat \<Rightarrow> nat option" where
  "get_link ev l = (case ev of FuriEventLoopEventIn \<Rightarrow> item_in l | FuriEventLoopEventOut \<Rightarrow> item_out l)"

definition set_link :: "FuriEventLoopEvent \<Rightarrow> nat \<Rightarrow> nat option \<Rightarrow> FuriEventLoop \<Rightarrow> FuriEventLoop" where
  "set_link ev obj i l = (case ev of FuriEventLoopEventIn \<Rightarrow> l\<lparr>item_in := (item_in l)(obj := i)\<rparr>
     | FuriEventLoopEventOut \<Rightarrow> l\<lparr>item_out := (item_out l)(obj := i)\<rparr>)"

definition get_level :: "FuriEventLoopEvent \<Rightarrow> FuriEventLoop \<Rightarrow> nat \<Rightarrow> bool" where
  "get_level ev l = (case ev of FuriEventLoopEventIn \<Rightarrow> level_in l | FuriEventLoopEventOut \<Rightarrow> level_out l)"

definition set_level :: "FuriEventLoopEvent \<Rightarrow> nat \<Rightarrow> bool \<Rightarrow> FuriEventLoop \<Rightarrow> FuriEventLoop" where
  "set_level ev obj b l = (case ev of FuriEventLoopEventIn \<Rightarrow> l\<lparr>level_in := (level_in l)(obj := b)\<rparr>
     | FuriEventLoopEventOut \<Rightarrow> l\<lparr>level_out := (level_out l)(obj := b)\<rparr>)"

section \<open>Items and subscriptions\<close>

definition furi_event_loop_item_notify :: "nat \<Rightarrow> FuriEventLoop \<Rightarrow> fault + FuriEventLoop" where
  "furi_event_loop_item_notify i l =
     bind_r (item_at l i) (\<lambda>item.
       if \<not> owned item then Inl UndefinedBehaviour
       else Inr (furi_event_loop_notify FuriEventLoopFlagEvent
         (if i \<in> set (waiting_list l) then l else l\<lparr>waiting_list := waiting_list l @ [i]\<rparr>)))"

definition furi_event_loop_item_free :: "nat \<Rightarrow> FuriEventLoop \<Rightarrow> FuriEventLoop" where
  "furi_event_loop_item_free i l = l\<lparr>items := (items l)(i := None)\<rparr>"

definition furi_event_loop_object_subscribe ::
    "nat \<Rightarrow> FuriEventLoopEvent \<Rightarrow> bool \<Rightarrow> bool \<Rightarrow> nat \<Rightarrow> FuriEventLoop \<Rightarrow> fault + FuriEventLoop" where
  "furi_event_loop_object_subscribe obj ev edg onc cb l =
     furi_check (tree l obj = None)
       (let i = next_item l;
            item = \<lparr>owned = True, direction = ev, edge = edg, once = onc, object = obj, item_callback = cb\<rparr>;
            l1 = l\<lparr>items := (items l)(i := Some item), next_item := Suc i, tree := (tree l)(obj := Some i)\<rparr>
        in furi_check (get_link ev l1 obj = None)
             (let l2 = set_link ev obj (Some i) l1
              in if \<not> edg \<and> get_level ev l2 obj then furi_event_loop_item_notify i l2 else Inr l2))"

definition furi_event_loop_unsubscribe :: "nat \<Rightarrow> FuriEventLoop \<Rightarrow> fault + FuriEventLoop" where
  "furi_event_loop_unsubscribe obj l =
     (case tree l obj of
        None \<Rightarrow> Inl FuriCheck
      | Some i \<Rightarrow>
          bind_r (item_at l i) (\<lambda>item.
            furi_check (owned item \<and> get_link (direction item) l obj = Some i)
              (let l1 = set_link (direction item) obj None (l\<lparr>tree := (tree l)(obj := None)\<rparr>);
                   l2 = l1\<lparr>waiting_list := removeAll i (waiting_list l1)\<rparr>
               in Inr (if current_item l2 = Some i then l2\<lparr>items := (items l2)(i := Some (item\<lparr>owned := False\<rparr>))\<rparr>
                       else furi_event_loop_item_free i l2))))"

definition furi_event_loop_is_subscribed :: "nat \<Rightarrow> FuriEventLoop \<Rightarrow> bool" where
  "furi_event_loop_is_subscribed obj l \<longleftrightarrow> tree l obj \<noteq> None"

definition furi_event_loop_link_notify :: "nat \<Rightarrow> FuriEventLoopEvent \<Rightarrow> FuriEventLoop \<Rightarrow> fault + FuriEventLoop" where
  "furi_event_loop_link_notify obj ev l =
     (case get_link ev l obj of None \<Rightarrow> Inr l | Some i \<Rightarrow> furi_event_loop_item_notify i l)"

definition furi_event_loop_subscribe_thread_flags :: "nat \<Rightarrow> FuriEventLoop \<Rightarrow> fault + FuriEventLoop" where
  "furi_event_loop_subscribe_thread_flags cb l =
     furi_check (thread_flags_callback l = None) (Inr (l\<lparr>thread_flags_callback := Some cb\<rparr>))"

definition furi_event_loop_unsubscribe_thread_flags :: "FuriEventLoop \<Rightarrow> fault + FuriEventLoop" where
  "furi_event_loop_unsubscribe_thread_flags l =
     furi_check (thread_flags_callback l \<noteq> None) (Inr (l\<lparr>thread_flags_callback := None\<rparr>))"

definition furi_event_loop_pend_callback :: "nat \<Rightarrow> FuriEventLoop \<Rightarrow> FuriEventLoop" where
  "furi_event_loop_pend_callback cb l =
     furi_event_loop_notify FuriEventLoopFlagPending (l\<lparr>pending_queue := cb # pending_queue l\<rparr>)"

section \<open>The tick\<close>

definition furi_event_loop_tick_get_elapsed_time :: "FuriEventLoop \<Rightarrow> u32" where
  "furi_event_loop_tick_get_elapsed_time l = tick_count (loop_timers l) - prev_time (tick l)"

definition furi_event_loop_tick_get_remaining_time :: "FuriEventLoop \<Rightarrow> u32" where
  "furi_event_loop_tick_get_remaining_time l =
     (let elapsed = furi_event_loop_tick_get_elapsed_time l
      in if elapsed < tick_interval (tick l) then tick_interval (tick l) - elapsed else 0)"

definition furi_event_loop_tick_is_expired :: "FuriEventLoop \<Rightarrow> bool" where
  "furi_event_loop_tick_is_expired l \<longleftrightarrow> furi_event_loop_tick_get_elapsed_time l \<ge> tick_interval (tick l)"

definition furi_event_loop_init_tick :: "FuriEventLoop \<Rightarrow> FuriEventLoop" where
  "furi_event_loop_init_tick l =
     (if tick_callback (tick l) \<noteq> None then l\<lparr>tick := (tick l)\<lparr>prev_time := tick_count (loop_timers l)\<rparr>\<rparr> else l)"

definition furi_event_loop_get_tick_wait_time :: "FuriEventLoop \<Rightarrow> u32" where
  "furi_event_loop_get_tick_wait_time l =
     (if tick_callback (tick l) \<noteq> None then furi_event_loop_tick_get_remaining_time l else FuriWaitForever)"

definition furi_event_loop_tick_set :: "u32 \<Rightarrow> nat option \<Rightarrow> FuriEventLoop \<Rightarrow> fault + FuriEventLoop" where
  "furi_event_loop_tick_set i cb l =
     furi_check (cb \<noteq> None \<longrightarrow> i > 0)
       (Inr (l\<lparr>tick := \<lparr>tick_interval = i, prev_time = tick_count (loop_timers l), tick_callback = cb\<rparr>\<rparr>))"

section \<open>Calls\<close>

text \<open>The calls of the thread of the loop, and what other threads do to objects: the level of an object rises, with a
  notification of its link, or falls.\<close>

datatype loop_call =
    Subscribe nat FuriEventLoopEvent bool bool nat
  | Unsubscribe nat
  | Rise nat FuriEventLoopEvent
  | Fall nat FuriEventLoopEvent
  | Pend nat
  | Stop
  | SubscribeThreadFlags nat
  | UnsubscribeThreadFlags
  | ThreadFlags
  | SetTick u32 "nat option"
  | TimerAlloc nat nat bool
  | TimerFree nat
  | TimerStart nat u32
  | TimerRestart nat
  | TimerStop nat

text \<open>A call on a timer that queues a request sets the flag of the loop.\<close>

definition on_timers :: "timer_op \<Rightarrow> FuriEventLoop \<Rightarrow> fault + FuriEventLoop" where
  "on_timers op l =
     bind_r (timer_do op (loop_timers l)) (\<lambda>lp.
       let l1 = l\<lparr>loop_timers := lp\<lparr>timer_flag := False\<rparr>\<rparr>
       in Inr (if timer_flag lp then furi_event_loop_notify FuriEventLoopFlagTimer l1 else l1))"

fun do_call :: "loop_call \<Rightarrow> FuriEventLoop \<Rightarrow> fault + FuriEventLoop" where
  "do_call (Subscribe obj ev edg onc cb) l = furi_event_loop_object_subscribe obj ev edg onc cb l"
| "do_call (Unsubscribe obj) l = furi_event_loop_unsubscribe obj l"
| "do_call (Rise obj ev) l = furi_event_loop_link_notify obj ev (set_level ev obj True l)"
| "do_call (Fall obj ev) l = Inr (set_level ev obj False l)"
| "do_call (Pend cb) l = Inr (furi_event_loop_pend_callback cb l)"
| "do_call Stop l = Inr (furi_event_loop_notify FuriEventLoopFlagStop l)"
| "do_call (SubscribeThreadFlags cb) l = furi_event_loop_subscribe_thread_flags cb l"
| "do_call UnsubscribeThreadFlags l = furi_event_loop_unsubscribe_thread_flags l"
| "do_call ThreadFlags l = Inr (furi_event_loop_notify FuriEventLoopFlagThreadFlag l)"
| "do_call (SetTick i cb) l = furi_event_loop_tick_set i cb l"
| "do_call (TimerAlloc t cb per) l = on_timers (Alloc t cb per) l"
| "do_call (TimerFree t) l = on_timers (Free t) l"
| "do_call (TimerStart t i) l = on_timers (Start t i) l"
| "do_call (TimerRestart t) l = on_timers (Restart t) l"
| "do_call (TimerStop t) l = on_timers (Halt t) l"

definition run_callback :: "nat \<Rightarrow> loop_call list \<Rightarrow> FuriEventLoop \<Rightarrow> fault + FuriEventLoop" where
  "run_callback cb script l = for_each do_call script (l\<lparr>ran := ran l @ [cb]\<rparr>)"

section \<open>The loop\<close>

datatype FuriEventLoopProcessStatus =
    FuriEventLoopProcessStatusComplete
  | FuriEventLoopProcessStatusIncomplete
  | FuriEventLoopProcessStatusFreeLater

definition furi_event_loop_process_edge_event ::
    "nat \<Rightarrow> loop_call list \<Rightarrow> FuriEventLoop \<Rightarrow> fault + FuriEventLoopProcessStatus \<times> FuriEventLoop" where
  "furi_event_loop_process_edge_event i script l =
     bind_r (item_at l i) (\<lambda>item.
       bind_r (run_callback (item_callback item) script l) (\<lambda>l1. Inr (FuriEventLoopProcessStatusComplete, l1)))"

text \<open>The level is read through the item again after the callback. The functions of the contracts know the two plain
  directions only, and crash when the event carries a flag.\<close>

definition furi_event_loop_process_level_event ::
    "nat \<Rightarrow> loop_call list \<Rightarrow> FuriEventLoop \<Rightarrow> fault + FuriEventLoopProcessStatus \<times> FuriEventLoop" where
  "furi_event_loop_process_level_event i script l =
     bind_r (item_at l i) (\<lambda>item.
       if once item then Inl FuriCrash
       else if get_level (direction item) l (object item)
       then bind_r (run_callback (item_callback item) script l) (\<lambda>l1.
         bind_r (item_at l1 i) (\<lambda>item1.
           Inr (if get_level (direction item1) l1 (object item1) then FuriEventLoopProcessStatusIncomplete
             else FuriEventLoopProcessStatusComplete, l1)))
       else Inr (FuriEventLoopProcessStatusComplete, l))"

definition furi_event_loop_process_event ::
    "nat \<Rightarrow> loop_call list \<Rightarrow> FuriEventLoop \<Rightarrow> fault + FuriEventLoopProcessStatus \<times> FuriEventLoop" where
  "furi_event_loop_process_event i script l =
     bind_r (item_at l i) (\<lambda>item.
     bind_r (if once item then furi_event_loop_unsubscribe (object item) l else Inr l) (\<lambda>l1.
     let l2 = l1\<lparr>current_item := Some i\<rparr>
     in bind_r (item_at l2 i) (\<lambda>item2.
        bind_r (if edge item2 then furi_event_loop_process_edge_event i script l2
                else furi_event_loop_process_level_event i script l2) (\<lambda>(status, l3).
        let l4 = l3\<lparr>current_item := None\<rparr>
        in bind_r (item_at l4 i) (\<lambda>item4.
           Inr (if \<not> owned item4 then FuriEventLoopProcessStatusFreeLater else status, l4))))))"

definition furi_event_loop_sync_flags :: "FuriEventLoop \<Rightarrow> FuriEventLoop" where
  "furi_event_loop_sync_flags l =
     (if waiting_list l \<noteq> [] then furi_event_loop_notify FuriEventLoopFlagEvent l else l)"

definition furi_event_loop_process_waiting_list :: "loop_call list \<Rightarrow> FuriEventLoop \<Rightarrow> fault + FuriEventLoop" where
  "furi_event_loop_process_waiting_list script l =
     (case waiting_list l of
        [] \<Rightarrow> Inr l
      | i # is \<Rightarrow>
          bind_r (furi_event_loop_process_event i script (l\<lparr>waiting_list := is\<rparr>)) (\<lambda>(status, l1).
          bind_r (case status of
              FuriEventLoopProcessStatusComplete \<Rightarrow> Inr l1
            | FuriEventLoopProcessStatusIncomplete \<Rightarrow> furi_event_loop_item_notify i l1
            | FuriEventLoopProcessStatusFreeLater \<Rightarrow> Inr (furi_event_loop_item_free i l1)) (\<lambda>l2.
          Inr (furi_event_loop_sync_flags l2))))"

text \<open>A callback is taken from the queue after it has run. Callbacks beyond the given scripts make no calls.\<close>

fun furi_event_loop_process_pending_callbacks :: "loop_call list list \<Rightarrow> FuriEventLoop \<Rightarrow> fault + FuriEventLoop" where
  "furi_event_loop_process_pending_callbacks [] l =
     Inr (l\<lparr>ran := ran l @ rev (pending_queue l), pending_queue := []\<rparr>)"
| "furi_event_loop_process_pending_callbacks (script # scripts) l =
     (if pending_queue l = [] then Inr l
      else bind_r (run_callback (last (pending_queue l)) script l) (\<lambda>l1.
        furi_event_loop_process_pending_callbacks scripts (l1\<lparr>pending_queue := butlast (pending_queue l1)\<rparr>)))"

text \<open>Freeing a loop handles the timer requests that are left, and insists that nothing else is.\<close>

definition furi_event_loop_free :: "FuriEventLoop \<Rightarrow> fault + unit" where
  "furi_event_loop_free l =
     furi_check (loop_state l = FuriEventLoopStateStopped)
       (bind_r (furi_event_loop_process_timer_queue (loop_timers l)) (\<lambda>lp.
         furi_check (timer_list lp = [] \<and> waiting_list l = [] \<and> thread_flags_callback l = None) (Inr ())))"

definition furi_event_loop_restore_flags :: "u32 \<Rightarrow> FuriEventLoop \<Rightarrow> FuriEventLoop" where
  "furi_event_loop_restore_flags flags l = (if flags \<noteq> 0 then furi_event_loop_notify flags l else l)"

definition serve_expired :: "loop_call list \<Rightarrow> FuriEventLoop \<Rightarrow> fault + bool \<times> FuriEventLoop" where
  "serve_expired script l =
     bind_r (furi_event_loop_process_expired_timers (loop_timers l)) (\<lambda>(b, lp).
       let l1 = l\<lparr>loop_timers := lp\<rparr>
       in if b then bind_r (run_callback (last (called lp)) script l1) (\<lambda>l2. Inr (True, l2)) else Inr (False, l1))"

definition furi_event_loop_process_tick :: "loop_call list \<Rightarrow> FuriEventLoop \<Rightarrow> fault + FuriEventLoop" where
  "furi_event_loop_process_tick script l =
     (case tick_callback (tick l) of
        None \<Rightarrow> Inr l
      | Some cb \<Rightarrow>
          if furi_event_loop_tick_is_expired l
          then run_callback cb script (l\<lparr>tick := (tick l)\<lparr>prev_time := prev_time (tick l) + tick_interval (tick l)\<rparr>\<rparr>)
          else Inr l)"

definition ticks_to_sleep :: "FuriEventLoop \<Rightarrow> u32" where
  "ticks_to_sleep l = min (furi_event_loop_get_timer_wait_time (loop_timers l)) (furi_event_loop_get_tick_wait_time l)"

definition script_of :: "loop_call list list \<Rightarrow> loop_call list" where
  "script_of scripts = (case scripts of [] \<Rightarrow> [] | s # ss \<Rightarrow> s)"

text \<open>One turn of the loop of \<^verbatim>\<open>furi_event_loop_run\<close>, after the wait: with the flags taken from the
  notification, or none of them when the wait has timed out.\<close>

definition loop_turn :: "loop_call list list \<Rightarrow> FuriEventLoop \<Rightarrow> fault + FuriEventLoop" where
  "loop_turn scripts l =
     (let flags = notified l; l1 = l\<lparr>notified := 0\<rparr>
      in if flags \<noteq> 0
         then if flags AND FuriEventLoopFlagStop \<noteq> 0 then Inr (l1\<lparr>loop_state := FuriEventLoopStateStopped\<rparr>)
              else if flags AND FuriEventLoopFlagEvent \<noteq> 0
              then bind_r (furi_event_loop_process_waiting_list (script_of scripts) l1) (\<lambda>l2.
                Inr (furi_event_loop_restore_flags (flags AND NOT FuriEventLoopFlagEvent) l2))
              else if flags AND FuriEventLoopFlagTimer \<noteq> 0
              then bind_r (furi_event_loop_process_timer_queue (loop_timers l1)) (\<lambda>lp.
                Inr (furi_event_loop_restore_flags (flags AND NOT FuriEventLoopFlagTimer) (l1\<lparr>loop_timers := lp\<rparr>)))
              else if flags AND FuriEventLoopFlagPending \<noteq> 0
              then furi_event_loop_process_pending_callbacks scripts l1
              else if flags AND FuriEventLoopFlagThreadFlag \<noteq> 0
              then (case thread_flags_callback l1 of None \<Rightarrow> Inr l1 | Some cb \<Rightarrow> run_callback cb (script_of scripts) l1)
              else Inl FuriCrash
         else bind_r (serve_expired (script_of scripts) l1) (\<lambda>(b, l2).
           if b then Inr l2 else furi_event_loop_process_tick (script_of scripts) l2))"

section \<open>Runs\<close>

text \<open>The start of \<^verbatim>\<open>furi_event_loop_run\<close>, calls, time, and turns while the loop is running. A turn without
  flags is a timeout: it comes when the time to sleep is over.\<close>

datatype loop_step = Begin | Call loop_call | Time u32 | Turn "loop_call list list"

fun loop_do :: "loop_step \<Rightarrow> FuriEventLoop \<Rightarrow> fault + FuriEventLoop" where
  "loop_do Begin l = Inr ((furi_event_loop_init_tick l)\<lparr>loop_state := FuriEventLoopStateRunning\<rparr>)"
| "loop_do (Call c) l = do_call c l"
| "loop_do (Time dt) l = on_timers (Pass dt) l"
| "loop_do (Turn scripts) l =
     (if loop_state l = FuriEventLoopStateRunning \<and> (notified l \<noteq> 0 \<or> ticks_to_sleep l = 0) then loop_turn scripts l else Inr l)"

definition loop_run :: "loop_step list \<Rightarrow> FuriEventLoop \<Rightarrow> fault + FuriEventLoop" where
  "loop_run steps l = for_each loop_do steps l"


section \<open>The invariant\<close>

text \<open>Addresses, subscriptions and links belong together, and a subscription by level whose object is ready waits,
  unless it is among the items \<open>E\<close>.\<close>

definition loop_ex :: "nat set \<Rightarrow> FuriEventLoop \<Rightarrow> bool" where
  "loop_ex E l \<longleftrightarrow> distinct (waiting_list l) \<and>
     (\<forall>i. items l i \<noteq> None \<longrightarrow> i < next_item l) \<and>
     (\<forall>i \<in> set (waiting_list l). \<exists>item. items l i = Some item \<and> tree l (object item) = Some i) \<and>
     (\<forall>obj i. tree l obj = Some i \<longrightarrow> (\<exists>item. items l i = Some item \<and> owned item \<and> object item = obj \<and>
        get_link (direction item) l obj = Some i)) \<and>
     (\<forall>ev obj i. get_link ev l obj = Some i \<longrightarrow> tree l obj = Some i \<and> (\<exists>item. items l i = Some item \<and> direction item = ev)) \<and>
     (\<forall>obj i item. tree l obj = Some i \<longrightarrow> items l i = Some item \<longrightarrow> \<not> edge item \<longrightarrow> get_level (direction item) l obj \<longrightarrow>
        i \<notin> E \<longrightarrow> i \<in> set (waiting_list l)) \<and>
     timers_ok (loop_timers l) \<and>
     (\<forall>i item. items l i = Some item \<longrightarrow> owned item \<longrightarrow> tree l (object item) = Some i)"

lemma loop_exI:
  assumes "distinct (waiting_list l)" and "\<And>i. items l i \<noteq> None \<Longrightarrow> i < next_item l"
    and "\<And>i. i \<in> set (waiting_list l) \<Longrightarrow> \<exists>item. items l i = Some item \<and> tree l (object item) = Some i"
    and "\<And>obj i. tree l obj = Some i \<Longrightarrow> \<exists>item. items l i = Some item \<and> owned item \<and> object item = obj \<and>
        get_link (direction item) l obj = Some i"
    and "\<And>ev obj i. get_link ev l obj = Some i \<Longrightarrow> tree l obj = Some i \<and> (\<exists>item. items l i = Some item \<and> direction item = ev)"
    and "\<And>obj i item. tree l obj = Some i \<Longrightarrow> items l i = Some item \<Longrightarrow> \<not> edge item \<Longrightarrow> get_level (direction item) l obj \<Longrightarrow>
        i \<notin> E \<Longrightarrow> i \<in> set (waiting_list l)"
    and "timers_ok (loop_timers l)"
    and "\<And>i item. items l i = Some item \<Longrightarrow> owned item \<Longrightarrow> tree l (object item) = Some i"
  shows "loop_ex E l"
  unfolding loop_ex_def using assms by simp

lemma loop_exD:
  assumes "loop_ex E l"
  shows "distinct (waiting_list l)" and "items l i \<noteq> None \<Longrightarrow> i < next_item l"
    and "i \<in> set (waiting_list l) \<Longrightarrow> \<exists>item. items l i = Some item \<and> tree l (object item) = Some i"
    and "tree l obj = Some i \<Longrightarrow> \<exists>item. items l i = Some item \<and> owned item \<and> object item = obj \<and>
        get_link (direction item) l obj = Some i"
    and "get_link ev l obj = Some i \<Longrightarrow> tree l obj = Some i \<and> (\<exists>item. items l i = Some item \<and> direction item = ev)"
    and "tree l obj = Some i \<Longrightarrow> items l i = Some item \<Longrightarrow> \<not> edge item \<Longrightarrow> get_level (direction item) l obj \<Longrightarrow>
        i \<notin> E \<Longrightarrow> i \<in> set (waiting_list l)"
    and "timers_ok (loop_timers l)"
    and "items l i = Some item \<Longrightarrow> owned item \<Longrightarrow> tree l (object item) = Some i"
  using assms unfolding loop_ex_def by simp_all

text \<open>Fields the invariant does not mention.\<close>

lemma loop_ex_fields:
  assumes "loop_ex E l"
    and "waiting_list l' = waiting_list l" and "items l' = items l" and "next_item l' = next_item l" and "tree l' = tree l"
    and "item_in l' = item_in l" and "item_out l' = item_out l" and "level_in l' = level_in l" and "level_out l' = level_out l"
    and "timers_ok (loop_timers l')"
  shows "loop_ex E l'"
proof -
  have "get_link = (\<lambda>ev l. case ev of FuriEventLoopEventIn \<Rightarrow> item_in l | FuriEventLoopEventOut \<Rightarrow> item_out l)"
    by (intro ext) (simp add: get_link_def)
  have g: "get_link ev l' = get_link ev l" "get_level ev l' = get_level ev l" for ev
    using assms by (cases ev; simp add: get_link_def get_level_def)+
  show ?thesis
    by (rule loop_exI) (use loop_exD [OF assms(1)] in \<open>simp_all add: assms(2-5,10) g\<close>)
qed

lemma loop_ex_notify [simp]: "loop_ex E (furi_event_loop_notify flag l) = loop_ex E l"
proof
  assume l: "loop_ex E (furi_event_loop_notify flag l)"
  then show "loop_ex E l"
    by (rule loop_ex_fields) (use loop_exD(7) [OF l] in \<open>simp_all add: furi_event_loop_notify_def\<close>)
next
  assume l: "loop_ex E l"
  then show "loop_ex E (furi_event_loop_notify flag l)"
    by (rule loop_ex_fields) (use loop_exD(7) [OF l] in \<open>simp_all add: furi_event_loop_notify_def\<close>)
qed

lemma loop_ex_mono: "loop_ex E l \<Longrightarrow> E \<subseteq> E' \<Longrightarrow> loop_ex E' l"
  by (rule loop_exI) (auto dest: loop_exD)

lemma get_set_link: "get_link ev (set_link ev' obj i l) = (if ev = ev' then (get_link ev l)(obj := i) else get_link ev l)"
  by (cases ev; cases ev') (simp_all add: get_link_def set_link_def)

lemma get_set_level: "get_level ev (set_level ev' obj b l) = (if ev = ev' then (get_level ev l)(obj := b) else get_level ev l)"
  by (cases ev; cases ev') (simp_all add: get_level_def set_level_def)

lemma set_link_fields [simp]: "waiting_list (set_link ev obj i l) = waiting_list l" "items (set_link ev obj i l) = items l"
  "next_item (set_link ev obj i l) = next_item l" "tree (set_link ev obj i l) = tree l"
  "get_level ev' (set_link ev obj i l) = get_level ev' l" "loop_timers (set_link ev obj i l) = loop_timers l"
  "current_item (set_link ev obj i l) = current_item l" "notified (set_link ev obj i l) = notified l"
  "pending_queue (set_link ev obj i l) = pending_queue l"
  by (cases ev; simp add: set_link_def get_level_def split: FuriEventLoopEvent.splits)+

lemma set_level_fields [simp]: "waiting_list (set_level ev obj b l) = waiting_list l" "items (set_level ev obj b l) = items l"
  "next_item (set_level ev obj b l) = next_item l" "tree (set_level ev obj b l) = tree l"
  "get_link ev' (set_level ev obj b l) = get_link ev' l" "loop_timers (set_level ev obj b l) = loop_timers l"
  "current_item (set_level ev obj b l) = current_item l" "notified (set_level ev obj b l) = notified l"
  "pending_queue (set_level ev obj b l) = pending_queue l"
  by (cases ev; simp add: set_level_def get_link_def split: FuriEventLoopEvent.splits)+

lemma get_fields [simp]: "get_link ev (l\<lparr>waiting_list := w\<rparr>) = get_link ev l" "get_level ev (l\<lparr>waiting_list := w\<rparr>) = get_level ev l"
  "get_link ev (l\<lparr>items := m\<rparr>) = get_link ev l" "get_level ev (l\<lparr>items := m\<rparr>) = get_level ev l"
  "get_link ev (l\<lparr>tree := r\<rparr>) = get_link ev l" "get_level ev (l\<lparr>tree := r\<rparr>) = get_level ev l"
  "get_link ev (l\<lparr>next_item := n\<rparr>) = get_link ev l" "get_level ev (l\<lparr>next_item := n\<rparr>) = get_level ev l"
  by (cases ev; simp add: get_link_def get_level_def)+

lemma item_at_Inr: "item_at l i = Inr item \<longleftrightarrow> items l i = Some item"
  by (auto simp: item_at_def split: option.splits)

lemma item_notify_ex:
  assumes l: "loop_ex E l" and n: "furi_event_loop_item_notify i l = Inr l'" and t: "\<And>item. items l i = Some item \<Longrightarrow> tree l (object item) = Some i"
  shows "loop_ex (E - {i}) l'"
proof -
  obtain item where item: "items l i = Some item"
    and l': "l' = furi_event_loop_notify FuriEventLoopFlagEvent (if i \<in> set (waiting_list l) then l else l\<lparr>waiting_list := waiting_list l @ [i]\<rparr>)"
    using n by (auto simp: furi_event_loop_item_notify_def bind_r_Inr_iff item_at_Inr split: if_splits)
  note d = loop_exD [OF l]
  have "loop_ex (E - {i}) (if i \<in> set (waiting_list l) then l else l\<lparr>waiting_list := waiting_list l @ [i]\<rparr>)"
  proof (cases "i \<in> set (waiting_list l)")
    case True
    then show ?thesis by (simp, intro loop_exI) (use d in auto)
  next
    case False
    have "loop_ex (E - {i}) (l\<lparr>waiting_list := waiting_list l @ [i]\<rparr>)"
    proof (rule loop_exI)
      fix j assume "j \<in> set (waiting_list (l\<lparr>waiting_list := waiting_list l @ [i]\<rparr>))"
      then show "\<exists>item. items (l\<lparr>waiting_list := waiting_list l @ [i]\<rparr>) j = Some item \<and>
          tree (l\<lparr>waiting_list := waiting_list l @ [i]\<rparr>) (object item) = Some j"
        using d(3) [of j] item t by auto
    qed (use d False in auto)
    then show ?thesis using False by simp
  qed
  then show ?thesis by (simp add: l')
qed


lemma link_notify_ex:
  assumes l: "loop_ex (E \<union> set_option (get_link ev l obj)) l" and n: "furi_event_loop_link_notify obj ev l = Inr l'"
  shows "loop_ex E l'"
proof (cases "get_link ev l obj")
  case None
  then show ?thesis using l n by (simp add: furi_event_loop_link_notify_def)
next
  case (Some i)
  then have n': "furi_event_loop_item_notify i l = Inr l'" using n by (simp add: furi_event_loop_link_notify_def)
  have tr: "tree l obj = Some i" using loop_exD(5) [OF l Some] by simp
  have "tree l (object item) = Some i" if "items l i = Some item" for item
    using loop_exD(4) [OF l tr] tr that by auto
  from item_notify_ex [OF l n' this] show ?thesis by (rule loop_ex_mono) (auto simp: Some)
qed

lemma set_level_ex:
  assumes l: "loop_ex E l"
  shows "loop_ex (if b then E \<union> set_option (get_link ev l obj) else E) (set_level ev obj b l)"
proof (rule loop_exI)
  note d = loop_exD [OF l]
  fix obj' i item
  assume a: "tree (set_level ev obj b l) obj' = Some i" "items (set_level ev obj b l) i = Some item" "\<not> edge item"
    "get_level (direction item) (set_level ev obj b l) obj'" "i \<notin> (if b then E \<union> set_option (get_link ev l obj) else E)"
  have "get_link (direction item) l obj' = Some i" using d(4) [of obj' i] a(1,2) by auto
  then have "get_level (direction item) l obj'"
    using a(4,5) by (auto simp: get_set_level split: if_splits)
  then show "i \<in> set (waiting_list (set_level ev obj b l))" using d(6) [of obj' i item] a by (auto split: if_splits)
qed (use loop_exD [OF l] in auto)

lemma subscribe_ex:
  assumes l: "loop_ex E l" and n: "furi_event_loop_object_subscribe obj ev edg onc cb l = Inr l'"
  shows "loop_ex E l'"
proof -
  let ?i = "next_item l"
  let ?item = "\<lparr>owned = True, direction = ev, edge = edg, once = onc, object = obj, item_callback = cb\<rparr>"
  let ?l1 = "l\<lparr>items := (items l)(?i := Some ?item), next_item := Suc ?i, tree := (tree l)(obj := Some ?i)\<rparr>"
  let ?l2 = "set_link ev obj (Some ?i) ?l1"
  note d = loop_exD [OF l]
  have c: "tree l obj = None" "get_link ev l obj = None"
    and l': "(if \<not> edg \<and> get_level ev ?l2 obj then furi_event_loop_item_notify ?i ?l2 else Inr ?l2) = Inr l'"
    using n by (auto simp: furi_event_loop_object_subscribe_def furi_check_Inr_iff Let_def)
  have f: "items l ?i = None" using d(2) [of ?i] by (cases "items l ?i") auto
  have nw: "?i \<notin> set (waiting_list l)" using d(3) [of ?i] f by auto
  have nt: "tree l obj' \<noteq> Some ?i" for obj' using d(4) [of obj' ?i] f by auto
  have nl: "get_link ev' l obj = None" for ev' using d(5) [of ev' obj] c(1) by (cases "get_link ev' l obj") auto
  have l2: "loop_ex (E \<union> {j. j = ?i \<and> \<not> edg \<and> get_level ev l obj}) ?l2"
  proof (rule loop_exI)
    fix i assume "items ?l2 i \<noteq> None"
    then show "i < next_item ?l2" using d(2) [of i] by (auto split: if_splits)
  next
    fix i assume "i \<in> set (waiting_list ?l2)"
    then obtain it where it: "items l i = Some it" "tree l (object it) = Some i" "i \<noteq> ?i" using d(3) [of i] nw by auto
    then have "object it \<noteq> obj" using c by auto
    then show "\<exists>item. items ?l2 i = Some item \<and> tree ?l2 (object item) = Some i"
      using it by (intro exI [of _ it]) simp
  next
    fix obj' i assume "tree ?l2 obj' = Some i"
    then show "\<exists>item. items ?l2 i = Some item \<and> owned item \<and> object item = obj' \<and> get_link (direction item) ?l2 obj' = Some i"
      using d(4) [of obj' i] nt by (auto simp: get_set_link split: if_splits)
  next
    fix ev' obj' i assume "get_link ev' ?l2 obj' = Some i"
    then show "tree ?l2 obj' = Some i \<and> (\<exists>item. items ?l2 i = Some item \<and> direction item = ev')"
      using d(5) [of ev' obj' i] nl nt [of obj'] by (auto simp: get_set_link split: if_splits)
  next
    fix obj' i item
    assume a: "tree ?l2 obj' = Some i" "items ?l2 i = Some item" "\<not> edge item" "get_level (direction item) ?l2 obj'"
      "i \<notin> E \<union> {j. j = ?i \<and> \<not> edg \<and> get_level ev l obj}"
    show "i \<in> set (waiting_list ?l2)"
    proof (cases "i = ?i")
      case True
      then have "obj' = obj" using a(1) nt [of obj'] by (auto split: if_splits)
      moreover have "item = ?item" using a(2) True by simp
      ultimately show ?thesis using a True by auto
    next
      case False
      then show ?thesis using a d(6) [of obj' i item] by (auto split: if_splits)
    qed
  next
    fix i item assume a: "items ?l2 i = Some item" "owned item"
    show "tree ?l2 (object item) = Some i"
    proof (cases "i = ?i")
      case False
      then have "tree l (object item) = Some i" using a d(8) [of i item] by simp
      moreover have "object item \<noteq> obj" using calculation c by auto
      ultimately show ?thesis by simp
    qed (use a in auto)
  qed (use d in auto)
  show ?thesis
  proof (cases "\<not> edg \<and> get_level ev ?l2 obj")
    case True
    then have "furi_event_loop_item_notify ?i ?l2 = Inr l'" using l' by simp
    then have "loop_ex (E \<union> {j. j = ?i \<and> \<not> edg \<and> get_level ev l obj} - {?i}) l'" by (rule item_notify_ex [OF l2]) simp
    then show ?thesis by (rule loop_ex_mono) auto
  next
    case False
    then show ?thesis using l' l2 by (auto intro: loop_ex_mono)
  qed
qed

lemma unsubscribe_result:
  assumes n: "furi_event_loop_unsubscribe obj l = Inr l'"
  obtains i item where "tree l obj = Some i" "items l i = Some item"
    "l' = (set_link (direction item) obj None (l\<lparr>tree := (tree l)(obj := None)\<rparr>))\<lparr>waiting_list := removeAll i (waiting_list l),
      items := (items l)(i := if current_item l = Some i then Some (item\<lparr>owned := False\<rparr>) else None)\<rparr>"
proof -
  obtain i where tr: "tree l obj = Some i" using n by (auto simp: furi_event_loop_unsubscribe_def split: option.splits)
  obtain item where item: "items l i = Some item"
    using n tr by (auto simp: furi_event_loop_unsubscribe_def bind_r_Inr_iff item_at_Inr)
  have c: "owned item \<and> get_link (direction item) l obj = Some i"
    using n tr item by (auto simp: furi_event_loop_unsubscribe_def item_at_def furi_check_Inr_iff)
  show thesis
    by (rule that [OF tr item])
      (use n tr item c in \<open>auto simp: furi_event_loop_unsubscribe_def item_at_def Let_def furi_event_loop_item_free_def split: if_splits\<close>)
qed

lemma unsubscribe_ex:
  assumes l: "loop_ex E l" and n: "furi_event_loop_unsubscribe obj l = Inr l'"
  shows "loop_ex E l'"
proof -
  note d = loop_exD [OF l]
  obtain i item where tr: "tree l obj = Some i" and it: "items l i = Some item"
    and l': "l' = (set_link (direction item) obj None (l\<lparr>tree := (tree l)(obj := None)\<rparr>))\<lparr>waiting_list := removeAll i (waiting_list l),
      items := (items l)(i := if current_item l = Some i then Some (item\<lparr>owned := False\<rparr>) else None)\<rparr>"
    using unsubscribe_result [OF n] .
  have item: "items l i = Some item" "object item = obj" "get_link (direction item) l obj = Some i"
    using d(4) [OF tr] it by auto
  have u: "obj' = obj" if "tree l obj' = Some i" for obj' using d(4) [OF that] item by auto
  show ?thesis
  proof (rule loop_exI)
    fix j assume "items l' j \<noteq> None"
    then show "j < next_item l'" using d(2) [of j] item by (auto simp: l' split: if_splits)
  next
    fix j assume "j \<in> set (waiting_list l')"
    then obtain it where it: "items l j = Some it" "tree l (object it) = Some j" "j \<noteq> i"
      using d(3) [of j] by (auto simp: l')
    then have "object it \<noteq> obj" using tr by auto
    then show "\<exists>item. items l' j = Some item \<and> tree l' (object item) = Some j"
      using it by (intro exI [of _ it]) (simp add: l')
  next
    fix obj' j assume "tree l' obj' = Some j"
    then show "\<exists>item. items l' j = Some item \<and> owned item \<and> object item = obj' \<and> get_link (direction item) l' obj' = Some j"
      using d(4) [of obj' j] u [of obj'] by (auto simp: l' get_set_link split: if_splits)
  next
    fix ev' obj' j assume a: "get_link ev' l' obj' = Some j"
    then have g: "get_link ev' l obj' = Some j" and ne: "\<not> (ev' = direction item \<and> obj' = obj)"
      by (auto simp: l' get_set_link split: if_splits)
    have "obj' \<noteq> obj" using d(5) [OF g] tr item ne by auto
    moreover have "j \<noteq> i" using d(5) [OF g] u [of obj'] calculation by auto
    ultimately show "tree l' obj' = Some j \<and> (\<exists>item. items l' j = Some item \<and> direction item = ev')"
      using d(5) [OF g] by (auto simp: l')
  next
    fix obj' j item'
    assume a: "tree l' obj' = Some j" "items l' j = Some item'" "\<not> edge item'" "get_level (direction item') l' obj'" "j \<notin> E"
    then have "obj' \<noteq> obj" "tree l obj' = Some j" by (auto simp: l' split: if_splits)
    moreover have "j \<noteq> i" using u [of obj'] calculation by auto
    ultimately show "j \<in> set (waiting_list l')" using a d(6) [of obj' j item'] by (auto simp: l')
  next
    fix j item' assume a: "items l' j = Some item'" "owned item'"
    then have "j \<noteq> i" by (auto simp: l' split: if_splits)
    moreover have "tree l (object item') = Some j" using a d(8) [of j item'] calculation by (auto simp: l')
    moreover have "object item' \<noteq> obj" using calculation tr by auto
    ultimately show "tree l' (object item') = Some j" by (simp add: l')
  qed (use d in \<open>auto simp: l' distinct_removeAll\<close>)
qed


text \<open>The flags: while a list is not empty, its flag is set, or will be set again by the turn (\<open>f\<close>).\<close>

definition waiting_flagged :: "bool \<Rightarrow> FuriEventLoop \<Rightarrow> bool" where
  "waiting_flagged f l \<longleftrightarrow> (waiting_list l \<noteq> [] \<longrightarrow> bit (notified l) 0 \<or> f)"

definition requests_flagged :: "bool \<Rightarrow> FuriEventLoop \<Rightarrow> bool" where
  "requests_flagged f l \<longleftrightarrow> (timer_queue (loop_timers l) \<noteq> [] \<longrightarrow> bit (notified l) 2 \<or> f)"

definition pending_flagged :: "bool \<Rightarrow> FuriEventLoop \<Rightarrow> bool" where
  "pending_flagged f l \<longleftrightarrow> (pending_queue l \<noteq> [] \<longrightarrow> bit (notified l) 3 \<or> f)"

definition flagged :: "bool \<Rightarrow> bool \<Rightarrow> bool \<Rightarrow> FuriEventLoop \<Rightarrow> bool" where
  "flagged fw fr fp l \<longleftrightarrow> waiting_flagged fw l \<and> requests_flagged fr l \<and> pending_flagged fp l"

lemma loop_flag_bits: "x AND FuriEventLoopFlagEvent \<noteq> 0 \<longleftrightarrow> bit x 0" "x AND FuriEventLoopFlagStop \<noteq> 0 \<longleftrightarrow> bit x 1"
  "x AND FuriEventLoopFlagTimer \<noteq> 0 \<longleftrightarrow> bit x 2" "x AND FuriEventLoopFlagPending \<noteq> 0 \<longleftrightarrow> bit x 3"
  using and_exp_eq_0_iff_not_bit [of x 0] and_exp_eq_0_iff_not_bit [of x 1] and_exp_eq_0_iff_not_bit [of x 2]
    and_exp_eq_0_iff_not_bit [of x 3]
  by (simp_all add: FuriEventLoopFlagEvent_def FuriEventLoopFlagStop_def FuriEventLoopFlagTimer_def FuriEventLoopFlagPending_def)

lemma bit_flags: "bit FuriEventLoopFlagEvent n \<longleftrightarrow> n = 0" "bit FuriEventLoopFlagTimer n \<longleftrightarrow> n = 2"
  "bit FuriEventLoopFlagPending n \<longleftrightarrow> n = 3"
proof -
  have p: "bit (push_bit k 1 :: u32) n \<longleftrightarrow> n = k" if "k < 32" for k
    using that by (auto simp: bit_simps possible_bit_word)
  show "bit FuriEventLoopFlagEvent n \<longleftrightarrow> n = 0" "bit FuriEventLoopFlagTimer n \<longleftrightarrow> n = 2"
    "bit FuriEventLoopFlagPending n \<longleftrightarrow> n = 3"
    using p [of 0] p [of 2] p [of 3]
    by (simp_all add: FuriEventLoopFlagEvent_def FuriEventLoopFlagTimer_def FuriEventLoopFlagPending_def push_bit_eq_mult)
qed

lemma notify_fields [simp]: "waiting_list (furi_event_loop_notify flag l) = waiting_list l"
  "loop_timers (furi_event_loop_notify flag l) = loop_timers l" "pending_queue (furi_event_loop_notify flag l) = pending_queue l"
  "bit (notified (furi_event_loop_notify flag l)) n \<longleftrightarrow> bit (notified l) n \<or> bit flag n"
  "current_item (furi_event_loop_notify flag l) = current_item l" "tree (furi_event_loop_notify flag l) = tree l"
  "items (furi_event_loop_notify flag l) = items l" "next_item (furi_event_loop_notify flag l) = next_item l"
  by (auto simp: furi_event_loop_notify_def bit_or_iff)

lemma item_notify_fields:
  assumes "furi_event_loop_item_notify i l = Inr l'"
  shows "loop_timers l' = loop_timers l" "pending_queue l' = pending_queue l" "bit (notified l') n \<longleftrightarrow> bit (notified l) n \<or> n = 0"
    "current_item l' = current_item l"
  using assms by (auto simp: furi_event_loop_item_notify_def bind_r_Inr_iff bit_flags split: if_splits)

lemma flagged_item_notify:
  assumes "flagged fw fr fp l" and n: "furi_event_loop_item_notify i l = Inr l'"
  shows "flagged fw fr fp l'"
  using assms(1) item_notify_fields [OF n]
  by (auto simp: flagged_def waiting_flagged_def requests_flagged_def pending_flagged_def)

lemma flagged_notify: "flagged fw fr fp l \<Longrightarrow> flagged fw fr fp (furi_event_loop_notify flag l)"
  by (auto simp: flagged_def waiting_flagged_def requests_flagged_def pending_flagged_def)


section \<open>Calls keep the invariant\<close>

lemma timers_ok_flag: "timers_ok (lp\<lparr>timer_flag := b\<rparr>) = timers_ok lp"
proof -
  have r: "remaining (lp\<lparr>timer_flag := b\<rparr>) = remaining lp" by (intro ext remaining_cong) simp_all
  show ?thesis by (simp add: timers_ok_def r)
qed

lemma timer_do_flag:
  "op \<noteq> ServeQueue \<Longrightarrow> op \<noteq> ServeExpired \<Longrightarrow> timer_do op lp = Inr lp' \<Longrightarrow> timer_flag lp' \<or> timer_queue lp' = timer_queue lp"
  by (cases op) (auto simp: furi_event_loop_timer_alloc_def furi_event_loop_timer_free_def furi_event_loop_timer_start_def
      furi_event_loop_timer_restart_def furi_event_loop_timer_stop_def furi_event_loop_timer_enqueue_request_def
      bind_r_Inr_iff furi_check_Inr_iff Let_def split: if_splits)

definition loop_good :: "nat set \<Rightarrow> bool \<Rightarrow> bool \<Rightarrow> bool \<Rightarrow> nat option \<Rightarrow> FuriEventLoop \<Rightarrow> bool" where
  "loop_good E fw fr fp c l \<longleftrightarrow> loop_ex E l \<and> flagged fw fr fp l \<and> current_item l = c"

lemma on_timers_good:
  assumes l: "loop_good E fw fr fp c l" and n: "on_timers op l = Inr l'" and op: "op \<noteq> ServeQueue" "op \<noteq> ServeExpired"
  shows "loop_good E fw fr fp c l'"
proof -
  obtain lp where lp: "timer_do op (loop_timers l) = Inr lp"
    and l': "l' = (if timer_flag lp then furi_event_loop_notify FuriEventLoopFlagTimer (l\<lparr>loop_timers := lp\<lparr>timer_flag := False\<rparr>\<rparr>)
      else l\<lparr>loop_timers := lp\<lparr>timer_flag := False\<rparr>\<rparr>)"
    using n by (auto simp: on_timers_def bind_r_Inr_iff Let_def)
  have "timers_ok lp" using timers_ok_do [OF _ lp] l loop_exD(7) by (auto simp: loop_good_def)
  then have "loop_ex E (l\<lparr>loop_timers := lp\<lparr>timer_flag := False\<rparr>\<rparr>)"
    using l by (auto simp: loop_good_def timers_ok_flag intro: loop_ex_fields)
  then show ?thesis
    using l timer_do_flag [OF op lp]
    by (auto simp: l' loop_good_def flagged_def waiting_flagged_def requests_flagged_def pending_flagged_def bit_flags)
qed

lemma item_notify_current: "furi_event_loop_item_notify i l = Inr l' \<Longrightarrow> current_item l' = current_item l"
  by (rule item_notify_fields(4))

lemma link_notify_good:
  assumes "loop_ex (E \<union> set_option (get_link ev l obj)) l" and "flagged fw fr fp l" and "current_item l = c"
    and n: "furi_event_loop_link_notify obj ev l = Inr l'"
  shows "loop_good E fw fr fp c l'"
  using link_notify_ex [OF assms(1) n] n assms(2,3) flagged_item_notify item_notify_current
  by (auto simp: loop_good_def furi_event_loop_link_notify_def split: option.splits)

lemma flagged_subscribe:
  assumes "flagged fw fr fp l" and n: "furi_event_loop_object_subscribe obj ev edg onc cb l = Inr l'"
  shows "flagged fw fr fp l'" "current_item l' = current_item l"
proof -
  let ?i = "next_item l"
  let ?l2 = "set_link ev obj (Some ?i) (l\<lparr>items := (items l)(?i := Some \<lparr>owned = True, direction = ev, edge = edg, once = onc,
    object = obj, item_callback = cb\<rparr>), next_item := Suc ?i, tree := (tree l)(obj := Some ?i)\<rparr>)"
  have l': "(if \<not> edg \<and> get_level ev ?l2 obj then furi_event_loop_item_notify ?i ?l2 else Inr ?l2) = Inr l'"
    using n by (auto simp: furi_event_loop_object_subscribe_def furi_check_Inr_iff Let_def)
  have f: "flagged fw fr fp ?l2" using assms(1) by (simp add: flagged_def waiting_flagged_def requests_flagged_def pending_flagged_def)
  show "flagged fw fr fp l'" "current_item l' = current_item l"
    using l' f flagged_item_notify [OF f] item_notify_current [of ?i ?l2 l'] by (auto split: if_splits)
qed

lemma flagged_unsubscribe:
  assumes f: "flagged fw fr fp l" and n: "furi_event_loop_unsubscribe obj l = Inr l'"
  shows "flagged fw fr fp l'" "current_item l' = current_item l"
proof -
  obtain i item where l': "l' = (set_link (direction item) obj None (l\<lparr>tree := (tree l)(obj := None)\<rparr>))\<lparr>waiting_list :=
      removeAll i (waiting_list l), items := (items l)(i := if current_item l = Some i then Some (item\<lparr>owned := False\<rparr>) else None)\<rparr>"
    using unsubscribe_result [OF n] by metis
  show "current_item l' = current_item l" by (simp add: l')
  show "flagged fw fr fp l'"
    using f by (cases "waiting_list l") (simp_all add: l' flagged_def waiting_flagged_def requests_flagged_def pending_flagged_def)
qed

lemma call_good:
  assumes l: "loop_good E fw fr fp c l" and n: "do_call call l = Inr l'"
  shows "loop_good E fw fr fp c l'"
proof -
  have d: "loop_ex E l" "flagged fw fr fp l" "current_item l = c" using l by (simp_all add: loop_good_def)
  have t: "timers_ok (loop_timers l)" using loop_exD(7) [OF d(1)] .
  show ?thesis
  proof (cases call)
    case (Subscribe obj ev edg onc cb)
    then show ?thesis using n d subscribe_ex [OF d(1)] flagged_subscribe [OF d(2)] by (simp add: loop_good_def)
  next
    case (Unsubscribe obj)
    then show ?thesis using n d unsubscribe_ex [OF d(1)] flagged_unsubscribe [OF d(2)] by (simp add: loop_good_def)
  next
    case (Rise obj ev)
    then show ?thesis using n d set_level_ex [OF d(1), of True ev obj]
      by (intro link_notify_good [of E ev "set_level ev obj True l" obj])
        (simp_all add: flagged_def waiting_flagged_def requests_flagged_def pending_flagged_def)
  next
    case (Fall obj ev)
    then show ?thesis using n d set_level_ex [OF d(1), of False ev obj]
      by (auto simp: loop_good_def flagged_def waiting_flagged_def requests_flagged_def pending_flagged_def)
  next
    case (Pend cb)
    have "loop_ex E (l\<lparr>pending_queue := cb # pending_queue l\<rparr>)" by (rule loop_ex_fields [OF d(1)]) (simp_all add: t)
    then show ?thesis using n d Pend
      by (auto simp: loop_good_def furi_event_loop_pend_callback_def flagged_def waiting_flagged_def requests_flagged_def
          pending_flagged_def bit_flags)
  next
    case (SubscribeThreadFlags cb)
    then have l': "l' = l\<lparr>thread_flags_callback := Some cb\<rparr>"
      using n by (auto simp: furi_event_loop_subscribe_thread_flags_def furi_check_Inr_iff)
    have "loop_ex E l'" by (rule loop_ex_fields [OF d(1)]) (simp_all add: t l')
    then show ?thesis using d by (simp add: l' loop_good_def flagged_def waiting_flagged_def requests_flagged_def pending_flagged_def)
  next
    case UnsubscribeThreadFlags
    then have l': "l' = l\<lparr>thread_flags_callback := None\<rparr>"
      using n by (auto simp: furi_event_loop_unsubscribe_thread_flags_def furi_check_Inr_iff)
    have "loop_ex E l'" by (rule loop_ex_fields [OF d(1)]) (simp_all add: t l')
    then show ?thesis using d by (simp add: l' loop_good_def flagged_def waiting_flagged_def requests_flagged_def pending_flagged_def)
  next
    case (SetTick i cb)
    then obtain v where l': "l' = l\<lparr>tick := v\<rparr>" using n by (auto simp: furi_event_loop_tick_set_def furi_check_Inr_iff)
    have "loop_ex E l'" by (rule loop_ex_fields [OF d(1)]) (simp_all add: t l')
    then show ?thesis using d by (simp add: l' loop_good_def flagged_def waiting_flagged_def requests_flagged_def pending_flagged_def)
  qed (use n d on_timers_good [OF l] flagged_notify in \<open>auto simp: loop_good_def\<close>)
qed

lemma calls_good: "loop_good E fw fr fp c l \<Longrightarrow> for_each do_call script l = Inr l' \<Longrightarrow> loop_good E fw fr fp c l'"
proof (induction script arbitrary: l)
  case (Cons call script)
  then show ?case using call_good by (fastforce simp: bind_r_Inr_iff)
qed simp

lemma callback_good:
  assumes l: "loop_good E fw fr fp c l" and n: "run_callback cb script l = Inr l'"
  shows "loop_good E fw fr fp c l'"
proof -
  have "loop_ex E (l\<lparr>ran := ran l @ [cb]\<rparr>)"
    by (rule loop_ex_fields [of E l]) (use l loop_exD(7) [of E l] in \<open>simp_all add: loop_good_def\<close>)
  then have "loop_good E fw fr fp c (l\<lparr>ran := ran l @ [cb]\<rparr>)"
    using l by (simp add: loop_good_def flagged_def waiting_flagged_def requests_flagged_def pending_flagged_def)
  then show ?thesis using n calls_good by (simp add: run_callback_def)
qed


text \<open>An item keeps what was given at its subscription; addresses are not used twice.\<close>

lemma item_notify_items: "furi_event_loop_item_notify i l = Inr l' \<Longrightarrow> items l' = items l \<and> next_item l' = next_item l"
  by (auto simp: furi_event_loop_item_notify_def bind_r_Inr_iff furi_event_loop_notify_def split: if_splits)

definition keeps_item :: "nat \<Rightarrow> FuriEventLoop \<Rightarrow> FuriEventLoop \<Rightarrow> bool" where
  "keeps_item i l l' \<longleftrightarrow> next_item l \<le> next_item l' \<and>
     (\<forall>item'. i < next_item l \<longrightarrow> items l' i = Some item' \<longrightarrow> (\<exists>item. items l i = Some item \<and> edge item = edge item'))"

lemma keeps_itemI: "items l' = items l \<Longrightarrow> next_item l' = next_item l \<Longrightarrow> keeps_item i l l'"
  by (simp add: keeps_item_def)

lemma keeps_item_trans: "keeps_item i l l1 \<Longrightarrow> keeps_item i l1 l2 \<Longrightarrow> keeps_item i l l2"
  unfolding keeps_item_def by (meson le_trans less_le_trans)

lemma on_timers_items: "on_timers op l = Inr l' \<Longrightarrow> items l' = items l \<and> next_item l' = next_item l"
  by (auto simp: on_timers_def bind_r_Inr_iff Let_def furi_event_loop_notify_def)

lemma call_keeps_item:
  assumes n: "do_call call l = Inr l'"
  shows "keeps_item i l l'"
proof (cases call)
  case (Subscribe obj ev edg onc cb)
  let ?j = "next_item l"
  let ?l2 = "set_link ev obj (Some ?j) (l\<lparr>items := (items l)(?j := Some \<lparr>owned = True, direction = ev, edge = edg, once = onc,
    object = obj, item_callback = cb\<rparr>), next_item := Suc ?j, tree := (tree l)(obj := Some ?j)\<rparr>)"
  have l': "(if \<not> edg \<and> get_level ev ?l2 obj then furi_event_loop_item_notify ?j ?l2 else Inr ?l2) = Inr l'"
    using n Subscribe by (auto simp: furi_event_loop_object_subscribe_def furi_check_Inr_iff Let_def)
  have "items l' = items ?l2 \<and> next_item l' = next_item ?l2"
    using l' item_notify_items [of ?j ?l2 l'] by (auto split: if_splits)
  then show ?thesis by (simp add: keeps_item_def)
next
  case (Unsubscribe obj)
  then have n': "furi_event_loop_unsubscribe obj l = Inr l'" using n by simp
  obtain j item where "items l j = Some item"
    and l': "l' = (set_link (direction item) obj None (l\<lparr>tree := (tree l)(obj := None)\<rparr>))\<lparr>waiting_list :=
      removeAll j (waiting_list l), items := (items l)(j := if current_item l = Some j then Some (item\<lparr>owned := False\<rparr>) else None)\<rparr>"
    using unsubscribe_result [OF n'] by metis
  then show ?thesis by (auto simp: keeps_item_def split: if_splits)
next
  case (Rise obj ev)
  show ?thesis
  proof (cases "get_link ev (set_level ev obj True l) obj")
    case None
    then show ?thesis using n Rise by (auto simp: furi_event_loop_link_notify_def intro: keeps_itemI)
  next
    case (Some j)
    then have "furi_event_loop_item_notify j (set_level ev obj True l) = Inr l'" using n Rise by (simp add: furi_event_loop_link_notify_def)
    from item_notify_items [OF this] show ?thesis by (intro keeps_itemI) simp_all
  qed
next
  case (SetTick v cb)
  then show ?thesis using n by (auto simp: furi_event_loop_tick_set_def furi_check_Inr_iff intro!: keeps_itemI)
qed (use n on_timers_items in \<open>auto simp: furi_event_loop_subscribe_thread_flags_def
    furi_event_loop_unsubscribe_thread_flags_def furi_check_Inr_iff furi_event_loop_pend_callback_def intro!: keeps_itemI\<close>)

lemma callback_keeps_item:
  assumes "run_callback cb script l = Inr l'"
  shows "keeps_item i l l'"
proof -
  have "keeps_item i l0 l'" if "for_each do_call script l0 = Inr l'" for l0
    using that
  proof (induction script arbitrary: l0)
    case Nil
    then show ?case by (simp add: keeps_item_def)
  next
    case (Cons call script)
    then obtain l1 where "do_call call l0 = Inr l1" "for_each do_call script l1 = Inr l'" by (auto simp: bind_r_Inr_iff)
    then show ?case using Cons.IH call_keeps_item keeps_item_trans by blast
  qed
  then have "keeps_item i (l\<lparr>ran := ran l @ [cb]\<rparr>) l'" using assms by (simp add: run_callback_def)
  then show ?thesis by (simp add: keeps_item_def)
qed

section \<open>Turns keep the invariant\<close>

lemma loop_good_current: "loop_good E fw fr fp c l \<Longrightarrow> loop_good E fw fr fp c' (l\<lparr>current_item := c'\<rparr>)"
proof -
  assume l: "loop_good E fw fr fp c l"
  have "loop_ex E (l\<lparr>current_item := c'\<rparr>)"
    by (rule loop_ex_fields [of E l]) (use l loop_exD(7) [of E l] in \<open>simp_all add: loop_good_def\<close>)
  then show ?thesis using l by (simp add: loop_good_def flagged_def waiting_flagged_def requests_flagged_def pending_flagged_def)
qed

text \<open>The exemption of an item ends when it is not ready, or reacts to edges.\<close>

lemma not_ready:
  assumes l: "loop_ex {i} l" and i: "items l i = Some item" and r: "edge item \<or> \<not> get_level (direction item) l (object item)"
  shows "loop_ex {} l"
proof (rule loop_exI)
  note d = loop_exD [OF l]
  fix obj j item' assume a: "tree l obj = Some j" "items l j = Some item'" "\<not> edge item'" "get_level (direction item') l obj"
  have "j \<noteq> i"
  proof
    assume "j = i"
    then have "item' = item" "object item = obj" using a(2) i d(4) [OF a(1)] by auto
    then show False using a r by simp
  qed
  then show "j \<in> set (waiting_list l)" using d(6) [OF a] by simp
qed (use loop_exD [OF l] in auto)

lemma free_later_ex:
  assumes l: "loop_ex {i} l" and i: "items l i = Some item" and o: "\<not> owned item"
  shows "loop_ex {} (furi_event_loop_item_free i l)"
proof -
  note d = loop_exD [OF l]
  have nt: "tree l obj \<noteq> Some i" for obj using d(4) [of obj i] i o by auto
  have nw: "i \<notin> set (waiting_list l)" using d(3) [of i] nt by auto
  show ?thesis
    unfolding furi_event_loop_item_free_def
  proof (rule loop_exI)
    fix j assume "j \<in> set (waiting_list (l\<lparr>items := (items l)(i := None)\<rparr>))"
    then show "\<exists>item. items (l\<lparr>items := (items l)(i := None)\<rparr>) j = Some item \<and>
        tree (l\<lparr>items := (items l)(i := None)\<rparr>) (object item) = Some j"
      using d(3) [of j] nw by auto
  next
    fix obj j assume "tree (l\<lparr>items := (items l)(i := None)\<rparr>) obj = Some j"
    then show "\<exists>item. items (l\<lparr>items := (items l)(i := None)\<rparr>) j = Some item \<and> owned item \<and> object item = obj \<and>
        get_link (direction item) (l\<lparr>items := (items l)(i := None)\<rparr>) obj = Some j"
      using d(4) [of obj j] nt [of obj] by auto
  next
    fix ev obj j assume "get_link ev (l\<lparr>items := (items l)(i := None)\<rparr>) obj = Some j"
    then show "tree (l\<lparr>items := (items l)(i := None)\<rparr>) obj = Some j \<and>
        (\<exists>item. items (l\<lparr>items := (items l)(i := None)\<rparr>) j = Some item \<and> direction item = ev)"
      using d(5) [of ev obj j] nt [of obj] by auto
  qed (use d in \<open>auto split: if_splits\<close>)
qed


text \<open>What processing an event leaves, by its status.\<close>

lemma process_event_good:
  assumes l: "loop_good {i} fw fr fp None l" and item: "items l i = Some item" and tr: "tree l (object item) = Some i"
    and p: "furi_event_loop_process_event i script l = Inr (status, l')"
  obtains item' where "items l' i = Some item'" "loop_good {i} fw fr fp None l'"
    "status = FuriEventLoopProcessStatusComplete \<Longrightarrow> loop_ex {} l'"
    "status = FuriEventLoopProcessStatusIncomplete \<Longrightarrow> owned item'"
    "status = FuriEventLoopProcessStatusFreeLater \<Longrightarrow> \<not> owned item'"
proof -
  have cur: "current_item l = None" using l by (simp add: loop_good_def)
  have no: "\<not> once item"
  proof
    assume o: "once item"
    then obtain l1 where l1: "furi_event_loop_unsubscribe (object item) l = Inr l1" "item_at (l1\<lparr>current_item := Some i\<rparr>) i \<noteq> Inl UndefinedBehaviour"
      using p item by (auto simp: furi_event_loop_process_event_def item_at_def bind_r_Inr_iff Let_def split: option.splits)
    obtain j item1 where j: "tree l (object item) = Some j"
      "l1 = (set_link (direction item1) (object item) None (l\<lparr>tree := (tree l)(object item := None)\<rparr>))\<lparr>waiting_list :=
        removeAll j (waiting_list l), items := (items l)(j := if current_item l = Some j then Some (item1\<lparr>owned := False\<rparr>) else None)\<rparr>"
      using unsubscribe_result [OF l1(1)] by metis
    then have "items l1 i = None" using tr cur by simp
    then show False using l1(2) by (simp add: item_at_def)
  qed
  let ?l2 = "l\<lparr>current_item := Some i\<rparr>"
  have l2: "loop_good {i} fw fr fp (Some i) ?l2" "items ?l2 i = Some item" using loop_good_current [OF l] item by simp_all
  obtain st l3 item4 where l3: "(if edge item then furi_event_loop_process_edge_event i script ?l2
      else furi_event_loop_process_level_event i script ?l2) = Inr (st, l3)" "items (l3\<lparr>current_item := None\<rparr>) i = Some item4"
    and r: "status = (if \<not> owned item4 then FuriEventLoopProcessStatusFreeLater else st)" "l' = l3\<lparr>current_item := None\<rparr>"
    using p item no by (auto simp: furi_event_loop_process_event_def item_at_Inr bind_r_Inr_iff Let_def)
  have g: "loop_good {i} fw fr fp (Some i) l3 \<and> st \<noteq> FuriEventLoopProcessStatusFreeLater \<and>
      (st = FuriEventLoopProcessStatusComplete \<longrightarrow> edge item4 \<or> \<not> get_level (direction item4) l3 (object item4))"
  proof (cases "edge item")
    case True
    then have cb: "run_callback (item_callback item) script ?l2 = Inr l3" and st: "st = FuriEventLoopProcessStatusComplete"
      using l3(1) item by (auto simp: furi_event_loop_process_edge_event_def item_at_def bind_r_Inr_iff)
    have "i < next_item ?l2" using loop_exD(2) [of "{i}" l i] l item by (simp add: loop_good_def)
    then have "edge item4" using callback_keeps_item [OF cb, of i] l3(2) item True by (auto simp: keeps_item_def)
    then show ?thesis using callback_good [OF l2(1) cb] st by simp
  next
    case False
    then have lev: "furi_event_loop_process_level_event i script ?l2 = Inr (st, l3)" using l3(1) by simp
    show ?thesis
    proof (cases "get_level (direction item) ?l2 (object item)")
      case True
      then obtain item1 where cb: "run_callback (item_callback item) script ?l2 = Inr l3" "items l3 i = Some item1"
        "st = (if get_level (direction item1) l3 (object item1) then FuriEventLoopProcessStatusIncomplete
             else FuriEventLoopProcessStatusComplete)"
        using lev item no by (auto simp: furi_event_loop_process_level_event_def item_at_def bind_r_Inr_iff split: option.splits)
      then show ?thesis using callback_good [OF l2(1) cb(1)] l3(2) by (auto split: if_splits)
    next
      case False
      then have "l3 = ?l2" "st = FuriEventLoopProcessStatusComplete"
        using lev item no by (auto simp: furi_event_loop_process_level_event_def item_at_def)
      then show ?thesis using l2 l3(2) False by auto
    qed
  qed
  have l': "loop_good {i} fw fr fp None l'" using loop_good_current g r(2) by blast
  have lv: "get_level (direction item4) l' (object item4) = get_level (direction item4) l3 (object item4)"
    by (cases "direction item4") (simp_all add: r(2) get_level_def)
  have i4: "items l' i = Some item4" using l3(2) r(2) by simp
  show thesis
  proof (rule that [OF i4 l'])
    assume "status = FuriEventLoopProcessStatusComplete"
    then have "st = FuriEventLoopProcessStatusComplete" using r(1) by (auto split: if_splits)
    then show "loop_ex {} l'" using not_ready [OF _ i4] l' g lv by (auto simp: loop_good_def)
  qed (use r(1) g in \<open>auto split: if_splits\<close>)
qed

lemma process_waiting_good:
  assumes l: "loop_good {} True fr fp None l" and p: "furi_event_loop_process_waiting_list script l = Inr l'"
  shows "loop_good {} False fr fp None l'"
proof (cases "waiting_list l")
  case Nil
  then show ?thesis using l p
    by (simp add: furi_event_loop_process_waiting_list_def loop_good_def flagged_def waiting_flagged_def)
next
  case (Cons i ws)
  let ?l0 = "l\<lparr>waiting_list := ws\<rparr>"
  note d = loop_exD [of "{}" l]
  have lx: "loop_ex {} l" using l by (simp add: loop_good_def)
  obtain item where item: "items l i = Some item" "tree l (object item) = Some i" using loop_exD(3) [OF lx, of i] Cons by auto
  have l0x: "loop_ex {i} ?l0"
  proof (rule loop_exI)
    fix j assume "j \<in> set (waiting_list ?l0)"
    then show "\<exists>item. items ?l0 j = Some item \<and> tree ?l0 (object item) = Some j" using loop_exD(3) [OF lx, of j] Cons by simp
  next
    fix obj j item assume "tree ?l0 obj = Some j" "items ?l0 j = Some item" "\<not> edge item" "get_level (direction item) ?l0 obj"
      "j \<notin> {i}"
    then show "j \<in> set (waiting_list ?l0)" using loop_exD(6) [OF lx, of obj j item] Cons by simp
  qed (use loop_exD [OF lx] Cons in auto)
  have l0: "loop_good {i} True fr fp None ?l0"
    using l l0x by (simp add: loop_good_def flagged_def waiting_flagged_def requests_flagged_def pending_flagged_def)
  obtain status l1 l2 where l1: "furi_event_loop_process_event i script ?l0 = Inr (status, l1)"
    and l2: "(case status of FuriEventLoopProcessStatusComplete \<Rightarrow> Inr l1
            | FuriEventLoopProcessStatusIncomplete \<Rightarrow> furi_event_loop_item_notify i l1
            | FuriEventLoopProcessStatusFreeLater \<Rightarrow> Inr (furi_event_loop_item_free i l1)) = Inr l2"
    and l': "l' = furi_event_loop_sync_flags l2"
    using p Cons by (auto simp: furi_event_loop_process_waiting_list_def bind_r_Inr_iff)
  obtain item' where i': "items l1 i = Some item'" "loop_good {i} True fr fp None l1"
    "status = FuriEventLoopProcessStatusComplete \<Longrightarrow> loop_ex {} l1"
    "status = FuriEventLoopProcessStatusIncomplete \<Longrightarrow> owned item'"
    "status = FuriEventLoopProcessStatusFreeLater \<Longrightarrow> \<not> owned item'"
    using process_event_good [OF l0 _ _ l1] item by auto
  have g2: "loop_good {} True fr fp None l2"
  proof (cases status)
    case FuriEventLoopProcessStatusComplete
    then show ?thesis using l2 i' by (simp add: loop_good_def)
  next
    case FuriEventLoopProcessStatusIncomplete
    then have n: "furi_event_loop_item_notify i l1 = Inr l2" using l2 by simp
    have x: "loop_ex {i} l1" using i'(2) by (simp add: loop_good_def)
    have "tree l1 (object item') = Some i"
      using loop_exD(8) [OF x i'(1)] i'(4) FuriEventLoopProcessStatusIncomplete by simp
    then have "loop_ex ({i} - {i}) l2" by (intro item_notify_ex [OF x n]) (use i'(1) in simp)
    then show ?thesis using i'(2) flagged_item_notify [OF _ n] item_notify_current [OF n] by (simp add: loop_good_def)
  next
    case FuriEventLoopProcessStatusFreeLater
    then have e: "l2 = furi_event_loop_item_free i l1" using l2 by simp
    have "loop_ex {} l2" using free_later_ex [OF _ i'(1)] i'(2,5) FuriEventLoopProcessStatusFreeLater by (simp add: loop_good_def e)
    then show ?thesis using i'(2)
      by (simp add: loop_good_def e furi_event_loop_item_free_def flagged_def waiting_flagged_def requests_flagged_def pending_flagged_def)
  qed
  show ?thesis
    using g2 Cons
    by (auto simp: l' furi_event_loop_sync_flags_def loop_good_def flagged_def waiting_flagged_def requests_flagged_def
        pending_flagged_def bit_flags)
qed


lemma loop_good_weaken: "loop_good E fw fr fp c l \<Longrightarrow> (fw \<Longrightarrow> fw') \<Longrightarrow> (fr \<Longrightarrow> fr') \<Longrightarrow> (fp \<Longrightarrow> fp') \<Longrightarrow> loop_good E fw' fr' fp' c l"
  by (auto simp: loop_good_def flagged_def waiting_flagged_def requests_flagged_def pending_flagged_def)

text \<open>Taking the flags off the notification.\<close>

lemma take_flags:
  assumes "loop_good {} False False False None l"
  shows "loop_good {} (bit (notified l) 0) (bit (notified l) 2) (bit (notified l) 3) None (l\<lparr>notified := 0\<rparr>)"
proof -
  have "loop_ex {} (l\<lparr>notified := 0\<rparr>)"
    by (rule loop_ex_fields [of "{}" l]) (use assms loop_exD(7) [of "{}" l] in \<open>simp_all add: loop_good_def\<close>)
  then show ?thesis using assms
    by (auto simp: loop_good_def flagged_def waiting_flagged_def requests_flagged_def pending_flagged_def)
qed

lemma restore_good:
  assumes "loop_good {} fw fr fp None l" and "fw \<Longrightarrow> bit flags 0" and "fr \<Longrightarrow> bit flags 2" and "fp \<Longrightarrow> bit flags 3"
  shows "loop_good {} False False False None (furi_event_loop_restore_flags flags l)"
proof (cases "flags = 0")
  case True
  then show ?thesis using assms(1) assms(2-4) by (auto simp: furi_event_loop_restore_flags_def intro: loop_good_weaken)
next
  case False
  then show ?thesis using assms
    by (auto simp: furi_event_loop_restore_flags_def loop_good_def flagged_def waiting_flagged_def requests_flagged_def
        pending_flagged_def)
qed

lemma set_timers_good:
  assumes "loop_good E fw fr fp c l" and "timers_ok lp" and "timer_queue lp = [] \<or> timer_queue lp = timer_queue (loop_timers l)"
  shows "loop_good E fw (fr \<and> timer_queue lp \<noteq> []) fp c (l\<lparr>loop_timers := lp\<rparr>)"
proof -
  have "loop_ex E (l\<lparr>loop_timers := lp\<rparr>)"
    by (rule loop_ex_fields [of E l]) (use assms in \<open>simp_all add: loop_good_def\<close>)
  then show ?thesis using assms(1,3)
    by (auto simp: loop_good_def flagged_def waiting_flagged_def requests_flagged_def pending_flagged_def)
qed

lemma set_pending_good:
  assumes "loop_good E fw fr fp c l"
  shows "loop_good E fw fr True c (l\<lparr>pending_queue := q\<rparr>)" "loop_good E fw fr False c (l\<lparr>ran := r, pending_queue := []\<rparr>)"
proof -
  have t: "timers_ok (loop_timers l)" using assms loop_exD(7) [of E l] by (simp add: loop_good_def)
  have "loop_ex E (l\<lparr>pending_queue := q\<rparr>)" "loop_ex E (l\<lparr>ran := r, pending_queue := []\<rparr>)"
    by (rule loop_ex_fields [of E l]; use assms t in \<open>simp add: loop_good_def\<close>)+
  then show "loop_good E fw fr True c (l\<lparr>pending_queue := q\<rparr>)" "loop_good E fw fr False c (l\<lparr>ran := r, pending_queue := []\<rparr>)"
    using assms by (simp_all add: loop_good_def flagged_def waiting_flagged_def requests_flagged_def pending_flagged_def)
qed

lemma process_pending_good:
  "loop_good E fw fr True c l \<Longrightarrow> furi_event_loop_process_pending_callbacks scripts l = Inr l' \<Longrightarrow> loop_good E fw fr False c l'"
proof (induction scripts arbitrary: l)
  case Nil
  then show ?case using set_pending_good(2) by auto
next
  case (Cons script scripts)
  show ?case
  proof (cases "pending_queue l = []")
    case True
    then show ?thesis using Cons.prems by (simp add: loop_good_def flagged_def pending_flagged_def)
  next
    case False
    then obtain l1 where l1: "run_callback (last (pending_queue l)) script l = Inr l1"
      "furi_event_loop_process_pending_callbacks scripts (l1\<lparr>pending_queue := butlast (pending_queue l1)\<rparr>) = Inr l'"
      using Cons.prems(2) by (auto simp: bind_r_Inr_iff)
    show ?thesis using Cons.IH [OF set_pending_good(1) l1(2)] callback_good [OF Cons.prems(1) l1(1)] by simp
  qed
qed

lemma tick_good:
  assumes l: "loop_good E fw fr fp c l" and n: "furi_event_loop_process_tick script l = Inr l'"
  shows "loop_good E fw fr fp c l'"
proof (cases "tick_callback (tick l) = None \<or> \<not> furi_event_loop_tick_is_expired l")
  case True
  then show ?thesis using l n by (auto simp: furi_event_loop_process_tick_def split: option.splits)
next
  case False
  then obtain cb v where cb: "run_callback cb script (l\<lparr>tick := v\<rparr>) = Inr l'"
    using n by (auto simp: furi_event_loop_process_tick_def)
  have "loop_ex E (l\<lparr>tick := v\<rparr>)"
    by (rule loop_ex_fields [of E l]) (use l loop_exD(7) [of E l] in \<open>simp_all add: loop_good_def\<close>)
  then have "loop_good E fw fr fp c (l\<lparr>tick := v\<rparr>)"
    using l by (simp add: loop_good_def flagged_def waiting_flagged_def requests_flagged_def pending_flagged_def)
  then show ?thesis using callback_good cb by blast
qed

lemma serve_expired_good:
  assumes l: "loop_good E fw fr fp c l" and n: "serve_expired script l = Inr (b, l')"
  shows "loop_good E fw fr fp c l'"
proof -
  obtain lp where lp: "furi_event_loop_process_expired_timers (loop_timers l) = Inr (b, lp)"
    and r: "if b then run_callback (last (called lp)) script (l\<lparr>loop_timers := lp\<rparr>) = Inr l' else l' = l\<lparr>loop_timers := lp\<rparr>"
    using n by (auto simp: serve_expired_def bind_r_Inr_iff Let_def split: if_splits)
  have t: "timers_ok (loop_timers l)" using l loop_exD(7) [of E l] by (simp add: loop_good_def)
  have q: "timer_queue lp = timer_queue (loop_timers l)"
  proof (cases b)
    case True
    then show ?thesis using served [OF t, of lp] lp by metis
  next
    case False
    then show ?thesis using not_served [of "loop_timers l" lp] lp by simp
  qed
  have "loop_good E fw fr fp c (l\<lparr>loop_timers := lp\<rparr>)"
    using set_timers_good [OF l timers_ok_expired [OF t lp]] q by (auto intro: loop_good_weaken)
  then show ?thesis using r callback_good by (cases b) auto
qed

lemma turn_good:
  assumes l: "loop_good {} False False False None l" and n: "loop_turn scripts l = Inr l'"
  shows "loop_good {} False False False None l' \<or> loop_state l' = FuriEventLoopStateStopped"
proof -
  let ?f = "notified l" let ?l1 = "l\<lparr>notified := 0\<rparr>"
  have l1: "loop_good {} (bit ?f 0) (bit ?f 2) (bit ?f 3) None ?l1" by (rule take_flags [OF l])
  have t: "timers_ok (loop_timers l)" using l loop_exD(7) [of "{}" l] by (simp add: loop_good_def)
  consider (stop) "bit ?f 1" | (event) "?f \<noteq> 0" "\<not> bit ?f 1" "bit ?f 0"
    | (timer) "?f \<noteq> 0" "\<not> bit ?f 1" "\<not> bit ?f 0" "bit ?f 2"
    | (pending) "?f \<noteq> 0" "\<not> bit ?f 1" "\<not> bit ?f 0" "\<not> bit ?f 2" "bit ?f 3"
    | (other) "?f \<noteq> 0" "\<not> bit ?f 1" "\<not> bit ?f 0" "\<not> bit ?f 2" "\<not> bit ?f 3" | (timeout) "?f = 0" by blast
  then show ?thesis
  proof cases
    case stop
    then have "?f \<noteq> 0" by auto
    then show ?thesis using n stop by (auto simp: loop_turn_def loop_flag_bits Let_def)
  next
    case event
    then obtain l2 where l2: "furi_event_loop_process_waiting_list (script_of scripts) ?l1 = Inr l2"
      "l' = furi_event_loop_restore_flags (?f AND NOT FuriEventLoopFlagEvent) l2"
      using n by (auto simp: loop_turn_def loop_flag_bits Let_def bind_r_Inr_iff)
    have "loop_good {} True (bit ?f 2) (bit ?f 3) None ?l1" using l1 event by simp
    from process_waiting_good [OF this l2(1)] have "loop_good {} False (bit ?f 2) (bit ?f 3) None l2" .
    then have "loop_good {} False False False None l'" unfolding l2(2)
      by (rule restore_good) (simp_all add: bit_and_iff bit_not_iff bit_flags possible_bit_word)
    then show ?thesis ..
  next
    case timer
    then obtain lp where lp: "furi_event_loop_process_timer_queue (loop_timers l) = Inr lp"
      "l' = furi_event_loop_restore_flags (?f AND NOT FuriEventLoopFlagTimer) (?l1\<lparr>loop_timers := lp\<rparr>)"
      using n by (auto simp: loop_turn_def loop_flag_bits Let_def bind_r_Inr_iff)
    have "timers_ok lp" "timer_queue lp = []"
      using timers_ok_process_requests [OF t refl, of lp] lp(1) by (simp_all add: furi_event_loop_process_timer_queue_def)
    then have "loop_good {} False False (bit ?f 3) None (?l1\<lparr>loop_timers := lp\<rparr>)"
      using set_timers_good [OF l1, of lp] timer by simp
    then have "loop_good {} False False False None l'" unfolding lp(2)
      by (rule restore_good) (simp_all add: bit_and_iff bit_not_iff bit_flags possible_bit_word)
    then show ?thesis ..
  next
    case pending
    then have "furi_event_loop_process_pending_callbacks scripts ?l1 = Inr l'"
      using n by (simp add: loop_turn_def loop_flag_bits Let_def)
    then show ?thesis using process_pending_good [of "{}" False False None ?l1 scripts l'] l1 pending by simp
  next
    case other
    then have "(case thread_flags_callback ?l1 of None \<Rightarrow> Inr ?l1 | Some cb \<Rightarrow> run_callback cb (script_of scripts) ?l1) = Inr l'"
      using n by (auto simp: loop_turn_def loop_flag_bits Let_def split: if_splits)
    then have "loop_good {} False False False None l'"
      using l1 other callback_good [of "{}" False False False None ?l1 _ "script_of scripts" l'] by (auto split: option.splits)
    then show ?thesis ..
  next
    case timeout
    then obtain b l2 where l2: "serve_expired (script_of scripts) ?l1 = Inr (b, l2)"
      "if b then l' = l2 else furi_event_loop_process_tick (script_of scripts) l2 = Inr l'"
      using n by (auto simp: loop_turn_def Let_def bind_r_Inr_iff split: if_splits)
    have "loop_good {} False False False None l2" using serve_expired_good [OF _ l2(1)] l1 timeout by simp
    then have "loop_good {} False False False None l'"
      using l2(2) tick_good [of "{}" False False False None l2 "script_of scripts" l'] by (cases b) auto
    then show ?thesis ..
  qed
qed

lemma state_fields [simp]: "loop_state (furi_event_loop_notify f l) = loop_state l"
  "loop_state (set_link ev obj i l) = loop_state l" "loop_state (set_level ev obj b l) = loop_state l"
  by (cases ev; simp add: furi_event_loop_notify_def set_link_def set_level_def)+

lemma item_notify_state: "furi_event_loop_item_notify i l = Inr l' \<Longrightarrow> loop_state l' = loop_state l"
  by (auto simp: furi_event_loop_item_notify_def bind_r_Inr_iff split: if_splits)

lemma on_timers_state: "on_timers op l = Inr l' \<Longrightarrow> loop_state l' = loop_state l"
  by (auto simp: on_timers_def bind_r_Inr_iff Let_def)

lemma call_state:
  assumes n: "do_call call l = Inr l'"
  shows "loop_state l' = loop_state l"
proof (cases call)
  case (Subscribe obj ev edg onc cb)
  let ?j = "next_item l"
  let ?l2 = "set_link ev obj (Some ?j) (l\<lparr>items := (items l)(?j := Some \<lparr>owned = True, direction = ev, edge = edg, once = onc,
    object = obj, item_callback = cb\<rparr>), next_item := Suc ?j, tree := (tree l)(obj := Some ?j)\<rparr>)"
  have l': "(if \<not> edg \<and> get_level ev ?l2 obj then furi_event_loop_item_notify ?j ?l2 else Inr ?l2) = Inr l'"
    using n Subscribe by (auto simp: furi_event_loop_object_subscribe_def furi_check_Inr_iff Let_def)
  then show ?thesis using item_notify_state [of ?j ?l2 l'] by (auto split: if_splits)
next
  case (Unsubscribe obj)
  then have n': "furi_event_loop_unsubscribe obj l = Inr l'" using n by simp
  obtain j item where
    l': "l' = (set_link (direction item) obj None (l\<lparr>tree := (tree l)(obj := None)\<rparr>))\<lparr>waiting_list :=
      removeAll j (waiting_list l), items := (items l)(j := if current_item l = Some j then Some (item\<lparr>owned := False\<rparr>) else None)\<rparr>"
    using unsubscribe_result [OF n'] by metis
  show ?thesis by (simp add: l')
next
  case (Rise obj ev)
  then show ?thesis using n item_notify_state [of _ "set_level ev obj True l" l']
    by (auto simp: furi_event_loop_link_notify_def split: option.splits)
next
  case (SetTick v cb)
  then show ?thesis using n by (auto simp: furi_event_loop_tick_set_def furi_check_Inr_iff)
qed (use n on_timers_state in \<open>auto simp: furi_event_loop_subscribe_thread_flags_def
    furi_event_loop_unsubscribe_thread_flags_def furi_check_Inr_iff furi_event_loop_pend_callback_def\<close>)

lemma for_each_append: "for_each body (xs @ ys) s = bind_r (for_each body xs s) (for_each body ys)"
  by (induction xs arbitrary: s) (auto simp: bind_r_def split: sum.splits)

text \<open>The steps between two starts of the loop.\<close>

lemma step_good:
  assumes n: "loop_do step l = Inr l'" and b: "step \<noteq> Begin"
  shows "loop_state l = FuriEventLoopStateStopped \<Longrightarrow> loop_state l' = FuriEventLoopStateStopped"
    and "loop_good {} False False False None l \<Longrightarrow> loop_state l = FuriEventLoopStateStopped \<Longrightarrow>
      loop_good {} False False False None l'"
    and "loop_good {} False False False None l \<Longrightarrow>
      loop_good {} False False False None l' \<or> loop_state l' = FuriEventLoopStateStopped"
proof -
  show "loop_state l' = FuriEventLoopStateStopped" if "loop_state l = FuriEventLoopStateStopped"
    using n b that call_state on_timers_state by (cases step) auto
  show "loop_good {} False False False None l'" if g: "loop_good {} False False False None l" and "loop_state l = FuriEventLoopStateStopped"
    using n b that(2) g call_good [OF g] on_timers_good [OF g] by (cases step) auto
  show "loop_good {} False False False None l' \<or> loop_state l' = FuriEventLoopStateStopped" if g: "loop_good {} False False False None l"
    using n b call_good [OF g] on_timers_good [OF g] turn_good [OF g] g by (cases step) (auto split: if_splits)
qed

lemma steps_good:
  assumes "loop_good {} False False False None l \<or> loop_state l = FuriEventLoopStateStopped" and "loop_run steps l = Inr l'"
    and "Begin \<notin> set steps"
  shows "loop_good {} False False False None l' \<or> loop_state l' = FuriEventLoopStateStopped"
  using assms unfolding loop_run_def
proof (induction steps arbitrary: l)
  case (Cons step steps)
  then obtain l1 where "loop_do step l = Inr l1" "for_each loop_do steps l1 = Inr l'" by (auto simp: bind_r_Inr_iff)
  then show ?case using Cons.IH [of l1] Cons.prems step_good(1,3) [of step l l1] by auto
qed simp

lemma steps_before_good:
  assumes "loop_good {} False False False None l" and "loop_state l = FuriEventLoopStateStopped" and "loop_run steps l = Inr l'"
    and "Begin \<notin> set steps"
  shows "loop_good {} False False False None l'"
  using assms unfolding loop_run_def
proof (induction steps arbitrary: l)
  case (Cons step steps)
  then obtain l1 where l1: "loop_do step l = Inr l1" "for_each loop_do steps l1 = Inr l'" by (auto simp: bind_r_Inr_iff)
  then show ?case using Cons.IH [of l1] Cons.prems step_good(1,2) [OF l1(1)] by auto
qed simp

lemma alloc_good: "loop_good {} False False False None (furi_event_loop_alloc now)"
proof -
  have "loop_ex {} (furi_event_loop_alloc now)"
    by (rule loop_exI) (simp_all add: furi_event_loop_alloc_def timers_ok_start get_link_def split: FuriEventLoopEvent.splits)
  then show ?thesis
    by (simp add: loop_good_def flagged_def waiting_flagged_def requests_flagged_def pending_flagged_def furi_event_loop_alloc_def
        timers_alloc_def)
qed

lemma begin_good:
  assumes l: "loop_good {} False False False None l"
  shows "loop_good {} False False False None ((furi_event_loop_init_tick l)\<lparr>loop_state := FuriEventLoopStateRunning\<rparr>)"
proof -
  have "loop_ex {} ((furi_event_loop_init_tick l)\<lparr>loop_state := FuriEventLoopStateRunning\<rparr>)"
    by (rule loop_ex_fields [of "{}" l])
      (use l loop_exD(7) [of "{}" l] in \<open>simp_all add: loop_good_def furi_event_loop_init_tick_def\<close>)
  then show ?thesis using l
    by (simp add: loop_good_def flagged_def waiting_flagged_def requests_flagged_def pending_flagged_def furi_event_loop_init_tick_def)
qed

section \<open>Properties\<close>


definition demo_before :: "loop_step list" where
  "demo_before = map Call [TimerAlloc 0 7 True, TimerStart 0 100, Subscribe 5 FuriEventLoopEventIn False False 1, Rise 5 FuriEventLoopEventIn]"

definition demo_after :: "loop_step list" where
  "demo_after = [Turn [[Pend 2]], Turn [[Fall 5 FuriEventLoopEventIn]], Turn [], Turn [], Turn [], Turn [], Time 60]"

lemma demo_loop:
  "(case loop_run (demo_before @ Begin # demo_after) (furi_event_loop_alloc 0) of Inl e \<Rightarrow> False
    | Inr l \<Rightarrow> loop_state l = FuriEventLoopStateRunning \<and> notified l = 0 \<and> ran l = [1, 1, 2] \<and> ticks_to_sleep l = 40)"
  by code_simp


section \<open>What goes wrong\<close>

text \<open>A subscription for one event is freed before its callback is called: it is unsubscribed before it becomes the
  current item, so that it is not kept for later.\<close>

theorem once_subscription_used_after_free:
  assumes "items l i = Some item" and "once item" and "current_item l = None" and "furi_event_loop_unsubscribe (object item) l = Inr l1"
    and "tree l (object item) = Some i"
  shows "furi_event_loop_process_event i script l = Inl UndefinedBehaviour"
proof -
  obtain j item1 where j: "tree l (object item) = Some j"
      "l1 = (set_link (direction item1) (object item) None (l\<lparr>tree := (tree l)(object item := None)\<rparr>))\<lparr>waiting_list :=
        removeAll j (waiting_list l), items := (items l)(j := if current_item l = Some j then Some (item1\<lparr>owned := False\<rparr>) else None)\<rparr>"
    using unsubscribe_result [OF assms(4)] by metis
  then have "items l1 i = None" using assms(3,5) by simp
  then show ?thesis using assms(1,2,4) by (simp add: furi_event_loop_process_event_def item_at_def Let_def)
qed

theorem once_subscription_faults:
  "(case loop_run [Call (Subscribe 0 FuriEventLoopEventIn True True 1), Call (Rise 0 FuriEventLoopEventIn), Begin, Turn []]
      (furi_event_loop_alloc 0) of Inl e \<Rightarrow> e = UndefinedBehaviour | Inr l \<Rightarrow> False)"
  by code_simp

text \<open>Deferred calls and thread flags that arrive together: the flags are taken off the notification together, and the branch
  for the deferred calls does not put the other one back.\<close>

theorem thread_flags_lost:
  "(case loop_run [Call (SubscribeThreadFlags 9), Call (Pend 5), Call ThreadFlags, Begin, Turn []] (furi_event_loop_alloc 0) of
      Inl e \<Rightarrow> False | Inr l \<Rightarrow> ran l = [5] \<and> notified l = 0)"
  by code_simp

text \<open>A loop that is stopped drops the other flags with the stop flag, so that a second run sleeps over what was waiting.\<close>

theorem second_run_sleeps:
  "(case loop_run [Call (Subscribe 5 FuriEventLoopEventIn False False 1), Begin, Call Stop, Call (Rise 5 FuriEventLoopEventIn),
      Turn [], Begin] (furi_event_loop_alloc 0) of
      Inl e \<Rightarrow> False | Inr l \<Rightarrow> notified l = 0 \<and> waiting_list l = [0] \<and> level_in l 5 \<and> ticks_to_sleep l = FuriWaitForever)"
  by code_simp

section \<open>Deferred calls\<close>

text \<open>Deferred calls that make no calls themselves run in the order in which they were deferred.\<close>

fun pend_all :: "nat list \<Rightarrow> FuriEventLoop \<Rightarrow> FuriEventLoop" where
  "pend_all [] l = l"
| "pend_all (cb # cbs) l = pend_all cbs (furi_event_loop_pend_callback cb l)"

lemma pend_all_queue: "pending_queue (pend_all cbs l) = rev cbs @ pending_queue l" "ran (pend_all cbs l) = ran l"
  by (induction cbs arbitrary: l) (simp_all add: furi_event_loop_pend_callback_def furi_event_loop_notify_def)

lemma pending_in_order:
  assumes "pending_queue l = []"
  shows "\<exists>l'. furi_event_loop_process_pending_callbacks [] (pend_all cbs l) = Inr l' \<and> ran l' = ran l @ cbs \<and> pending_queue l' = []"
  using assms by (simp add: pend_all_queue)

end
