(* ===== verification/Saved_Struct.thy ===== *)
theory Saved_Struct
  imports Flipper_Prelude
begin

text \<open>
  Structures in files with a header, \<^verbatim>\<open>lib/toolbox/saved_struct.c\<close>, and the settings of the input service
  on top of it, \<^verbatim>\<open>services/input/input_settings.c\<close>. The storage service is a parameter: how a file is created,
  what a write and a read return. A structure is the list of its bytes.
\<close>

section \<open>The storage service\<close>

text \<open>The calls on a path that the code makes, over a state \<open>'s\<close> of the storage: opening for writing
  (created or truncated), opening for reading, a write at the end of what was written, a read at an offset,
  the size of a file.\<close>

record 's storage_api =
  storage_create :: "string \<Rightarrow> 's \<Rightarrow> bool \<times> 's"
  storage_exists :: "string \<Rightarrow> 's \<Rightarrow> bool"
  storage_write :: "string \<Rightarrow> u8 list \<Rightarrow> 's \<Rightarrow> nat \<times> 's"
  storage_bytes :: "string \<Rightarrow> nat \<Rightarrow> nat \<Rightarrow> 's \<Rightarrow> u8 list"
  storage_size :: "string \<Rightarrow> 's \<Rightarrow> nat"

text \<open>A read fills a buffer of the given size at most.\<close>

definition storage_file_read :: "'s storage_api \<Rightarrow> string \<Rightarrow> nat \<Rightarrow> nat \<Rightarrow> 's \<Rightarrow> u8 list" where
  "storage_file_read api path offset n s = take n (storage_bytes api path offset n s)"

section \<open>Saving and loading\<close>

record SavedStructHeader =
  hdr_magic :: u8
  hdr_version :: u8
  hdr_checksum :: u8
  hdr_flags :: u8
  hdr_timestamp :: u32

definition header_size :: nat where [firmware_const]: "header_size = 8"

definition header_bytes :: "SavedStructHeader \<Rightarrow> u8 list" where
  "header_bytes h = [hdr_magic h, hdr_version h, hdr_checksum h, hdr_flags h] @ rev (bytes_be 4 (hdr_timestamp h))"

definition saved_struct_checksum :: "u8 list \<Rightarrow> u8" where
  "saved_struct_checksum data = foldl (\<lambda>checksum b. checksum + b) 0 data"

definition saved_struct_save :: "'s storage_api \<Rightarrow> string \<Rightarrow> u8 list \<Rightarrow> u8 \<Rightarrow> u8 \<Rightarrow> 's \<Rightarrow> fault + bool \<times> 's" where
  "saved_struct_save api path data magic version s =
     furi_check (length data \<noteq> 0)
       (let (saved, s1) = storage_create api path s
        in if \<not> saved then Inr (False, s1)
           else let header = \<lparr>hdr_magic = magic, hdr_version = version, hdr_checksum = saved_struct_checksum data, hdr_flags = 0,
                  hdr_timestamp = 0\<rparr>;
                (n1, s2) = storage_write api path (header_bytes header) s1;
                (n2, s3) = storage_write api path data s2
              in Inr (n1 + n2 = length data + header_size, s3))"

text \<open>The bytes loaded, or nothing. The header is read first, the structure behind what was read.\<close>

definition saved_struct_load :: "'s storage_api \<Rightarrow> string \<Rightarrow> nat \<Rightarrow> u8 \<Rightarrow> u8 \<Rightarrow> 's \<Rightarrow> fault + u8 list option" where
  "saved_struct_load api path sz magic version s =
     furi_check (sz \<noteq> 0)
       (if \<not> storage_exists api path s then Inr None
        else let header = storage_file_read api path 0 header_size s;
                 data = storage_file_read api path (length header) sz s
             in if length header + length data \<noteq> header_size + sz then Inr None
                else bind_r (rd header 0) (\<lambda>m. bind_r (rd header 1) (\<lambda>v. bind_r (rd header 2) (\<lambda>c.
                  if m \<noteq> magic \<or> v \<noteq> version then Inr None
                  else if c \<noteq> saved_struct_checksum data then Inr None
                  else Inr (Some data)))))"

text \<open>Magic, version and payload size; the size is a difference of 64 bit numbers cut to 32 bits.\<close>

definition saved_struct_get_metadata :: "'s storage_api \<Rightarrow> string \<Rightarrow> 's \<Rightarrow> (u8 \<times> u8 \<times> u32) option" where
  "saved_struct_get_metadata api path s =
     (if \<not> storage_exists api path s then None
      else let header = storage_file_read api path 0 header_size s
           in if length header \<noteq> header_size then None
              else Some (header ! 0, header ! 1, ucast (of_nat (storage_size api path s) - (8 :: u64))))"

section \<open>Settings of the input service\<close>

record InputSettings =
  vibro_level :: u8
  vibro_trigger_mask :: u8

definition INPUT_SETTINGS_VER :: u8 where [firmware_const]: "INPUT_SETTINGS_VER = 2"
definition INPUT_SETTINGS_PATH :: string where [firmware_const]: "INPUT_SETTINGS_PATH = ''/int/.input.settings''"
definition INPUT_SETTINGS_MAGIC :: u8 where [firmware_const]: "INPUT_SETTINGS_MAGIC = 0x29"
definition INPUT_SETTINGS_VIBRO_TOUCH_TRIGGER_MASK_DEFAULT :: u8 where [firmware_const]:
  "INPUT_SETTINGS_VIBRO_TOUCH_TRIGGER_MASK_DEFAULT = (push_bit 0 1 OR push_bit 1 1)"

definition default_settings :: InputSettings where
  "default_settings = \<lparr>vibro_level = 0, vibro_trigger_mask = INPUT_SETTINGS_VIBRO_TOUCH_TRIGGER_MASK_DEFAULT\<rparr>"

definition input_settings_load :: "'s storage_api \<Rightarrow> 's \<Rightarrow> fault + InputSettings" where
  "input_settings_load api s =
     (case saved_struct_get_metadata api INPUT_SETTINGS_PATH s of
        None \<Rightarrow> Inr default_settings
      | Some (m, version, n) \<Rightarrow>
          if version = 1 then
            bind_r (saved_struct_load api INPUT_SETTINGS_PATH 1 INPUT_SETTINGS_MAGIC 1 s) (\<lambda>r. case r of
              None \<Rightarrow> Inr default_settings
            | Some data \<Rightarrow> bind_r (rd data 0) (\<lambda>level.
                Inr \<lparr>vibro_level = level, vibro_trigger_mask = INPUT_SETTINGS_VIBRO_TOUCH_TRIGGER_MASK_DEFAULT\<rparr>))
          else if version = INPUT_SETTINGS_VER then
            bind_r (saved_struct_load api INPUT_SETTINGS_PATH 2 INPUT_SETTINGS_MAGIC INPUT_SETTINGS_VER s) (\<lambda>r. case r of
              None \<Rightarrow> Inr default_settings
            | Some data \<Rightarrow> bind_r (rd data 0) (\<lambda>level. bind_r (rd data 1) (\<lambda>mask.
                Inr \<lparr>vibro_level = level, vibro_trigger_mask = mask\<rparr>)))
          else Inr default_settings)"

definition input_settings_save :: "'s storage_api \<Rightarrow> InputSettings \<Rightarrow> 's \<Rightarrow> fault + bool \<times> 's" where
  "input_settings_save api settings s =
     saved_struct_save api INPUT_SETTINGS_PATH [vibro_level settings, vibro_trigger_mask settings] INPUT_SETTINGS_MAGIC
       INPUT_SETTINGS_VER s"

section \<open>What is relied on of the storage\<close>

text \<open>A file: a reading storage gives back the bytes at the offset, as many as there are.\<close>

definition holds_file :: "'s storage_api \<Rightarrow> string \<Rightarrow> u8 list \<Rightarrow> 's \<Rightarrow> bool" where
  "holds_file api path bytes s \<longleftrightarrow> storage_exists api path s \<and> storage_size api path s = length bytes \<and>
     (\<forall>offset n. storage_bytes api path offset n s = take n (drop offset bytes))"

text \<open>Creating a file gives an empty one; a write that reports all bytes has appended them.\<close>

definition keeps_files :: "'s storage_api \<Rightarrow> bool" where
  "keeps_files api \<longleftrightarrow>
     (\<forall>path s s'. storage_create api path s = (True, s') \<longrightarrow> holds_file api path [] s') \<and>
     (\<forall>path new s. fst (storage_write api path new s) \<le> length new) \<and>
     (\<forall>path bytes new s s'. holds_file api path bytes s \<longrightarrow> storage_write api path new s = (length new, s') \<longrightarrow>
        holds_file api path (bytes @ new) s')"

lemma keeps_filesD:
  assumes "keeps_files api"
  shows "storage_create api path s = (True, s') \<Longrightarrow> holds_file api path [] s'"
    and "storage_write api path new s = (n, s') \<Longrightarrow> n \<le> length new"
    and "holds_file api path bytes s \<Longrightarrow> storage_write api path new s = (length new, s') \<Longrightarrow> holds_file api path (bytes @ new) s'"
proof -
  note k = assms [unfolded keeps_files_def]
  show "storage_create api path s = (True, s') \<Longrightarrow> holds_file api path [] s'" using k by simp
  have "fst (storage_write api path new s) \<le> length new" using k by simp
  then show "storage_write api path new s = (n, s') \<Longrightarrow> n \<le> length new" by simp
  show "holds_file api path bytes s \<Longrightarrow> storage_write api path new s = (length new, s') \<Longrightarrow> holds_file api path (bytes @ new) s'"
    using k by simp
qed

section \<open>Lemmas\<close>

lemma length_header_bytes [simp]: "length (header_bytes h) = header_size"
  by (simp add: header_bytes_def header_size_def)

lemma header_bytes_nth: "header_bytes h ! 0 = hdr_magic h" "header_bytes h ! Suc 0 = hdr_version h" "header_bytes h ! 2 = hdr_checksum h"
  by (simp_all add: header_bytes_def)

lemma checksum_sum: "saved_struct_checksum data = sum_list data"
proof -
  have "foldl (\<lambda>checksum b. checksum + b) a data = a + sum_list data" for a
    by (induction data arbitrary: a) (simp_all add: add.assoc)
  then show ?thesis by (simp add: saved_struct_checksum_def)
qed

lemma sum_list_change: "k < length xs \<Longrightarrow> sum_list (xs[k := b]) = sum_list xs - xs ! k + (b :: u8)"
  by (induction xs arbitrary: k) (auto simp: algebra_simps split: nat.splits)

lemma save_holds:
  assumes "keeps_files api" and "saved_struct_save api path data magic version s = Inr (True, s')"
  shows "holds_file api path (header_bytes \<lparr>hdr_magic = magic, hdr_version = version,
      hdr_checksum = saved_struct_checksum data, hdr_flags = 0, hdr_timestamp = 0\<rparr> @ data) s'"
    and "data \<noteq> []"
proof -
  let ?h = "\<lparr>hdr_magic = magic, hdr_version = version, hdr_checksum = saved_struct_checksum data, hdr_flags = 0, hdr_timestamp = 0\<rparr>"
  note keeps = keeps_filesD [OF assms(1)]
  show "data \<noteq> []" using assms(2) by (auto simp: saved_struct_save_def furi_check_def)
  obtain s1 where s1: "storage_create api path s = (True, s1)"
    using assms(2) by (auto simp: saved_struct_save_def furi_check_def split: if_splits prod.splits)
  obtain n1 s2 where s2: "storage_write api path (header_bytes ?h) s1 = (n1, s2)" by fastforce
  obtain n2 where s3: "storage_write api path data s2 = (n2, s')" and n: "n1 + n2 = length data + header_size"
    using assms(2) s1 s2 by (auto simp: saved_struct_save_def furi_check_def split: if_splits prod.splits)
  have f1: "holds_file api path [] s1" using keeps(1) s1 .
  have "n1 = header_size" "n2 = length data" using keeps(2) [OF s2] keeps(2) [OF s3] n by simp_all
  then have "holds_file api path (header_bytes ?h) s2" using keeps(3) [OF f1, of "header_bytes ?h" s2] s2 by simp
  then show "holds_file api path (header_bytes ?h @ data) s'" using keeps(3) s3 \<open>n2 = length data\<close> by blast
qed

text \<open>What loading gives for a file that is at least as long as header and structure.\<close>

lemma load_file:
  assumes "holds_file api path bytes s" and "header_size + sz \<le> length bytes" and "sz \<noteq> 0"
  shows "saved_struct_load api path sz magic version s =
    Inr (if bytes ! 0 = magic \<and> bytes ! 1 = version \<and> bytes ! 2 = sum_list (take sz (drop header_size bytes))
      then Some (take sz (drop header_size bytes)) else None)"
  using assms by (simp add: saved_struct_load_def holds_file_def storage_file_read_def header_size_def checksum_sum rd_def Let_def)

lemma load_short_file:
  assumes "holds_file api path bytes s" and "length bytes < header_size + sz" and "sz \<noteq> 0"
  shows "saved_struct_load api path sz magic version s = Inr None"
  using assms by (simp add: saved_struct_load_def holds_file_def storage_file_read_def header_size_def)

lemma ucast_of_nat_down: "ucast (of_nat n :: u64) = (of_nat n :: u32)"
  by (simp add: word_unat_eq_iff unsigned_ucast_eq unsigned_of_nat)

lemma metadata_file:
  assumes "holds_file api path bytes s" and "header_size \<le> length bytes"
  shows "saved_struct_get_metadata api path s = Some (bytes ! 0, bytes ! 1, of_nat (length bytes - header_size))"
proof -
  have "(of_nat (length bytes) :: u64) - 8 = of_nat (length bytes - header_size)"
    using assms(2) by (simp add: header_size_def of_nat_diff)
  then have "ucast ((of_nat (length bytes) :: u64) - 8) = (of_nat (length bytes - header_size) :: u32)"
    by (simp only: ucast_of_nat_down)
  then show ?thesis
    using assms by (simp add: saved_struct_get_metadata_def holds_file_def storage_file_read_def header_size_def)
qed

lemma file_unique: "holds_file api path bytes s \<Longrightarrow> holds_file api path bytes' s \<Longrightarrow> bytes = bytes'"
proof -
  assume b: "holds_file api path bytes s" and b': "holds_file api path bytes' s"
  have "storage_bytes api path 0 (length bytes) s = bytes" using b by (simp add: holds_file_def)
  moreover have "storage_bytes api path 0 (length bytes) s = bytes'" using b b' by (simp add: holds_file_def)
  ultimately show ?thesis by simp
qed

section \<open>A storage in memory\<close>

text \<open>A storage that does what it is relied on to do.\<close>

definition memory_storage :: "(string \<Rightarrow> u8 list option) storage_api" where
  "memory_storage = \<lparr>storage_create = (\<lambda>path s. (True, s(path \<mapsto> []))),
     storage_exists = (\<lambda>path s. s path \<noteq> None),
     storage_write = (\<lambda>path new s. (length new, s(path \<mapsto> (case s path of None \<Rightarrow> new | Some bytes \<Rightarrow> bytes @ new)))),
     storage_bytes = (\<lambda>path offset n s. case s path of None \<Rightarrow> [] | Some bytes \<Rightarrow> take n (drop offset bytes)),
     storage_size = (\<lambda>path s. case s path of None \<Rightarrow> 0 | Some bytes \<Rightarrow> length bytes)\<rparr>"

lemma holds_memory: "holds_file memory_storage path bytes s \<longleftrightarrow> s path = Some bytes"
proof -
  have "holds_file memory_storage path bytes s \<Longrightarrow> s path = Some bytes"
  proof -
    assume h: "holds_file memory_storage path bytes s"
    then obtain b where b: "s path = Some b" by (auto simp: holds_file_def memory_storage_def)
    then have "holds_file memory_storage path b s" by (simp add: holds_file_def memory_storage_def)
    from file_unique [OF this h] b show ?thesis by simp
  qed
  then show ?thesis by (auto simp: holds_file_def memory_storage_def)
qed

lemma keeps_memory: "keeps_files memory_storage"
  unfolding keeps_files_def holds_memory
proof (intro conjI allI impI)
  fix path :: string and s s' assume "storage_create memory_storage path s = (True, s')"
  then have "s' = s(path \<mapsto> [])" by (simp add: memory_storage_def)
  then show "s' path = Some []" by simp
next
  fix path :: string and new s show "fst (storage_write memory_storage path new s) \<le> length new" by (simp add: memory_storage_def)
next
  fix path :: string and bytes new s s'
  assume "s path = Some bytes" "storage_write memory_storage path new s = (length new, s')"
  then have "s' = s(path \<mapsto> bytes @ new)" by (simp add: memory_storage_def)
  then show "s' path = Some (bytes @ new)" by simp
qed

section \<open>Properties\<close>

text \<open>A structure that was saved is loaded byte for byte with the same magic, version and size, is
  refused under every other magic or version, and its metadata is what was saved.\<close>

theorem saved_struct_roundtrip:
  assumes "keeps_files api" and "saved_struct_save api path data magic version s = Inr (True, s')"
  shows "saved_struct_load api path (length data) magic' version' s' =
      Inr (if magic' = magic \<and> version' = version then Some data else None) \<and>
    saved_struct_get_metadata api path s' = Some (magic, version, of_nat (length data))"
  using load_file [OF save_holds(1) [OF assms], of "length data" magic' version'] metadata_file [OF save_holds(1) [OF assms]]
    save_holds(2) [OF assms]
  by (auto simp: nth_append header_bytes_nth checksum_sum header_size_def)

theorem saved_struct_roundtrip_witness:
  "\<exists>s'. saved_struct_save memory_storage ''/int/x'' [1, 2, 255] 7 1 Map.empty = Inr (True, s') \<and>
    saved_struct_load memory_storage ''/int/x'' 3 7 1 s' = Inr (Some [1, 2, 255]) \<and>
    saved_struct_load memory_storage ''/int/x'' 3 7 2 s' = Inr None"
proof -
  obtain s' where s': "saved_struct_save memory_storage ''/int/x'' [1, 2, 255] 7 1 Map.empty = Inr (True, s')"
    by (simp add: saved_struct_save_def memory_storage_def header_size_def)
  from saved_struct_roundtrip [OF keeps_memory s', of 7 1] saved_struct_roundtrip [OF keeps_memory s', of 7 2] s'
  show ?thesis by (auto simp: numeral_3_eq_3)
qed

text \<open>C40 Damage is found: when one byte of the file differs from what was saved, other than the unused flags
  and time of the header, the structure is not loaded.\<close>

theorem damaged_struct_refused:
  assumes "keeps_files api" and "saved_struct_save api path data magic version s = Inr (True, s1)"
    and "holds_file api path bytes s1" and "k < length bytes" and "b \<noteq> bytes ! k" and "k < 3 \<or> header_size \<le> k"
    and "holds_file api path (bytes[k := b]) s2"
  shows "saved_struct_load api path (length data) magic version s2 = Inr None"
proof -
  let ?h = "\<lparr>hdr_magic = magic, hdr_version = version, hdr_checksum = saved_struct_checksum data, hdr_flags = 0, hdr_timestamp = 0\<rparr>"
  have bytes: "bytes = header_bytes ?h @ data"
    using file_unique [OF assms(3) save_holds(1) [OF assms(1,2)]] .
  have l: "saved_struct_load api path (length data) magic version s2 =
      Inr (if bytes[k := b] ! 0 = magic \<and> bytes[k := b] ! 1 = version \<and>
          bytes[k := b] ! 2 = sum_list (take (length data) (drop header_size (bytes[k := b])))
        then Some (take (length data) (drop header_size (bytes[k := b]))) else None)"
    using load_file [OF assms(7), of "length data" magic version] save_holds(2) [OF assms(1,2)] by (simp add: bytes)
  consider "k = 0" | "k = 1" | "k = 2" | "header_size \<le> k" using assms(6) by linarith
  then show ?thesis
  proof cases
    case 4
    then have d: "drop header_size (bytes[k := b]) = data[k - header_size := b]"
      by (simp add: bytes list_update_append)
    have kd: "k - header_size < length data" using assms(4) 4 by (simp add: bytes)
    have "b \<noteq> data ! (k - header_size)" using assms(5) 4 by (simp add: bytes nth_append)
    then have "sum_list (data[k - header_size := b]) \<noteq> sum_list data"
      by (simp add: sum_list_change [OF kd])
    moreover have "bytes[k := b] ! 2 = sum_list data" using 4 by (simp add: bytes header_size_def nth_append header_bytes_nth checksum_sum)
    ultimately show ?thesis using l d by simp
  qed (use assms(4,5) l in \<open>auto simp: bytes nth_append header_bytes_nth checksum_sum header_size_def list_update_append\<close>)
qed

theorem damaged_struct_refused_witness:
  "\<exists>s' bytes. saved_struct_save memory_storage ''/int/x'' [1, 2, 255] 7 1 Map.empty = Inr (True, s') \<and>
    s' ''/int/x'' = Some bytes \<and>
    saved_struct_load memory_storage ''/int/x'' 3 7 1 (s'(''/int/x'' \<mapsto> bytes[9 := 0])) = Inr None"
proof -
  obtain s' where s': "saved_struct_save memory_storage ''/int/x'' [1, 2, 255] 7 1 Map.empty = Inr (True, s')"
    by (simp add: saved_struct_save_def memory_storage_def header_size_def)
  have bytes: "s' ''/int/x'' = Some [7, 1, 2, 0, 0, 0, 0, 0, 1, 2, 255]"
    using s' by (auto simp: saved_struct_save_def memory_storage_def header_size_def header_bytes_def bytes_be_def
        saved_struct_checksum_def upt_rec)
  have "saved_struct_load memory_storage ''/int/x'' (length [1, 2, 255 :: u8]) 7 1
      (s'(''/int/x'' \<mapsto> [7, 1, 2, 0, 0, 0, 0, 0, 1, 2, 255][9 := 0])) = Inr None"
    by (rule damaged_struct_refused [OF keeps_memory s', of "[7, 1, 2, 0, 0, 0, 0, 0, 1, 2, 255]" 9 0])
      (simp_all only: holds_memory bytes, simp_all add: header_size_def)
  then show ?thesis using s' bytes by (auto simp: numeral_3_eq_3)
qed

text \<open>The settings of the input service survive saving and loading; a file of version 1, which has no
  trigger mask, is loaded with the default mask.\<close>

theorem input_settings_roundtrip:
  assumes "keeps_files api"
  shows "input_settings_save api settings s = Inr (True, s') \<Longrightarrow> input_settings_load api s' = Inr settings"
    and "saved_struct_save api INPUT_SETTINGS_PATH [level] INPUT_SETTINGS_MAGIC 1 s = Inr (True, s') \<Longrightarrow>
      input_settings_load api s' = Inr \<lparr>vibro_level = level, vibro_trigger_mask = INPUT_SETTINGS_VIBRO_TOUCH_TRIGGER_MASK_DEFAULT\<rparr>"
proof -
  show "input_settings_load api s' = Inr settings" if "input_settings_save api settings s = Inr (True, s')"
  proof -
    note s = that [unfolded input_settings_save_def]
    have "saved_struct_get_metadata api INPUT_SETTINGS_PATH s' = Some (INPUT_SETTINGS_MAGIC, INPUT_SETTINGS_VER, 2)"
      "saved_struct_load api INPUT_SETTINGS_PATH 2 INPUT_SETTINGS_MAGIC INPUT_SETTINGS_VER s' =
        Inr (Some [vibro_level settings, vibro_trigger_mask settings])"
      using load_file [OF save_holds(1) [OF assms s], of 2 INPUT_SETTINGS_MAGIC INPUT_SETTINGS_VER]
        metadata_file [OF save_holds(1) [OF assms s]]
      by (simp_all add: nth_append header_bytes_nth checksum_sum header_size_def)
    then show ?thesis by (simp add: input_settings_load_def INPUT_SETTINGS_VER_def)
  qed
  show "input_settings_load api s' = Inr \<lparr>vibro_level = level, vibro_trigger_mask = INPUT_SETTINGS_VIBRO_TOUCH_TRIGGER_MASK_DEFAULT\<rparr>"
    if s: "saved_struct_save api INPUT_SETTINGS_PATH [level] INPUT_SETTINGS_MAGIC 1 s = Inr (True, s')"
  proof -
    have "saved_struct_get_metadata api INPUT_SETTINGS_PATH s' = Some (INPUT_SETTINGS_MAGIC, 1, 1)"
      "saved_struct_load api INPUT_SETTINGS_PATH 1 INPUT_SETTINGS_MAGIC 1 s' = Inr (Some [level])"
      using load_file [OF save_holds(1) [OF assms s], of 1 INPUT_SETTINGS_MAGIC 1]
        metadata_file [OF save_holds(1) [OF assms s]]
      by (simp_all add: nth_append header_bytes_nth checksum_sum header_size_def)
    then show ?thesis by (simp add: input_settings_load_def)
  qed
qed

end
