(* ===== verification/Dolphin.thy ===== *)
theory Dolphin
  imports Datetime Saved_Struct
begin

text \<open>
  The dolphin service, \<^verbatim>\<open>services/dolphin/dolphin.c\<close>, \<^verbatim>\<open>helpers/dolphin_state.c\<close> and
  \<^verbatim>\<open>helpers/dolphin_deed.c\<close>: the experience and the mood of the device's mascot, with daily limits. The time of
  the clock is an argument, the storage is the interface of \<open>Saved_Struct\<close>, and timers are the intervals with which
  they were last started. Assertions count when \<open>debug\<close> is set.
\<close>

unbundle bit_operations_syntax

section \<open>Deeds\<close>

datatype DolphinApp =
    DolphinAppSubGhz | DolphinAppRfid | DolphinAppNfc | DolphinAppIr | DolphinAppIbutton | DolphinAppBadusb | DolphinAppPlugin

fun app_number :: "DolphinApp \<Rightarrow> nat" where
  "app_number DolphinAppSubGhz = 0"
| "app_number DolphinAppRfid = 1"
| "app_number DolphinAppNfc = 2"
| "app_number DolphinAppIr = 3"
| "app_number DolphinAppIbutton = 4"
| "app_number DolphinAppBadusb = 5"
| "app_number DolphinAppPlugin = 6"

definition DolphinAppMAX :: nat where [firmware_const]: "DolphinAppMAX = 7"

text \<open>The last three are no ordinary deeds.\<close>

datatype DolphinDeed =
    DolphinDeedSubGhzReceiverInfo | DolphinDeedSubGhzSave | DolphinDeedSubGhzRawRec | DolphinDeedSubGhzAddManually
  | DolphinDeedSubGhzSend | DolphinDeedSubGhzFrequencyAnalyzer | DolphinDeedRfidRead | DolphinDeedRfidReadSuccess
  | DolphinDeedRfidSave | DolphinDeedRfidEmulate | DolphinDeedRfidAdd | DolphinDeedNfcRead
  | DolphinDeedNfcReadSuccess | DolphinDeedNfcSave | DolphinDeedNfcDetectReader | DolphinDeedNfcEmulate
  | DolphinDeedNfcKeyAdd | DolphinDeedNfcAddSave | DolphinDeedNfcAddEmulate | DolphinDeedIrSend
  | DolphinDeedIrLearnSuccess | DolphinDeedIrSave | DolphinDeedIbuttonRead | DolphinDeedIbuttonReadSuccess
  | DolphinDeedIbuttonSave | DolphinDeedIbuttonEmulate | DolphinDeedIbuttonAdd | DolphinDeedBadUsbPlayScript
  | DolphinDeedU2fAuthorized | DolphinDeedGpioUartBridge | DolphinDeedPluginStart | DolphinDeedPluginGameStart
  | DolphinDeedPluginGameWin | DolphinDeedMAX | DolphinDeedTestLeft | DolphinDeedTestRight

fun deed_number :: "DolphinDeed \<Rightarrow> nat" where
  "deed_number DolphinDeedSubGhzReceiverInfo = 0"
| "deed_number DolphinDeedSubGhzSave = 1"
| "deed_number DolphinDeedSubGhzRawRec = 2"
| "deed_number DolphinDeedSubGhzAddManually = 3"
| "deed_number DolphinDeedSubGhzSend = 4"
| "deed_number DolphinDeedSubGhzFrequencyAnalyzer = 5"
| "deed_number DolphinDeedRfidRead = 6"
| "deed_number DolphinDeedRfidReadSuccess = 7"
| "deed_number DolphinDeedRfidSave = 8"
| "deed_number DolphinDeedRfidEmulate = 9"
| "deed_number DolphinDeedRfidAdd = 10"
| "deed_number DolphinDeedNfcRead = 11"
| "deed_number DolphinDeedNfcReadSuccess = 12"
| "deed_number DolphinDeedNfcSave = 13"
| "deed_number DolphinDeedNfcDetectReader = 14"
| "deed_number DolphinDeedNfcEmulate = 15"
| "deed_number DolphinDeedNfcKeyAdd = 16"
| "deed_number DolphinDeedNfcAddSave = 17"
| "deed_number DolphinDeedNfcAddEmulate = 18"
| "deed_number DolphinDeedIrSend = 19"
| "deed_number DolphinDeedIrLearnSuccess = 20"
| "deed_number DolphinDeedIrSave = 21"
| "deed_number DolphinDeedIbuttonRead = 22"
| "deed_number DolphinDeedIbuttonReadSuccess = 23"
| "deed_number DolphinDeedIbuttonSave = 24"
| "deed_number DolphinDeedIbuttonEmulate = 25"
| "deed_number DolphinDeedIbuttonAdd = 26"
| "deed_number DolphinDeedBadUsbPlayScript = 27"
| "deed_number DolphinDeedU2fAuthorized = 28"
| "deed_number DolphinDeedGpioUartBridge = 29"
| "deed_number DolphinDeedPluginStart = 30"
| "deed_number DolphinDeedPluginGameStart = 31"
| "deed_number DolphinDeedPluginGameWin = 32"
| "deed_number DolphinDeedMAX = 33"
| "deed_number DolphinDeedTestLeft = 34"
| "deed_number DolphinDeedTestRight = 35"

definition dolphin_deed_weights :: "(u8 \<times> DolphinApp) list" where
  "dolphin_deed_weights =
     [(1, DolphinAppSubGhz), (3, DolphinAppSubGhz), (1, DolphinAppSubGhz), (2, DolphinAppSubGhz), (2, DolphinAppSubGhz),
      (1, DolphinAppSubGhz),
      (1, DolphinAppRfid), (3, DolphinAppRfid), (3, DolphinAppRfid), (2, DolphinAppRfid), (2, DolphinAppRfid),
      (1, DolphinAppNfc), (3, DolphinAppNfc), (3, DolphinAppNfc), (1, DolphinAppNfc), (2, DolphinAppNfc), (2, DolphinAppNfc),
      (1, DolphinAppNfc), (1, DolphinAppNfc),
      (1, DolphinAppIr), (3, DolphinAppIr), (3, DolphinAppIr),
      (1, DolphinAppIbutton), (3, DolphinAppIbutton), (3, DolphinAppIbutton), (2, DolphinAppIbutton), (2, DolphinAppIbutton),
      (3, DolphinAppBadusb), (3, DolphinAppPlugin), (1, DolphinAppPlugin), (2, DolphinAppPlugin), (1, DolphinAppPlugin),
      (10, DolphinAppPlugin)]"

definition dolphin_deed_limits :: "u8 list" where
  "dolphin_deed_limits = [20, 20, 20, 20, 20, 20, 20]"

definition dolphin_deed_get_weight :: "DolphinDeed \<Rightarrow> fault + u8" where
  "dolphin_deed_get_weight deed =
     furi_check (deed_number deed < deed_number DolphinDeedMAX) (bind_r (rd dolphin_deed_weights (deed_number deed)) (\<lambda>(weight, app). Inr weight))"

definition dolphin_deed_get_app :: "DolphinDeed \<Rightarrow> fault + DolphinApp" where
  "dolphin_deed_get_app deed =
     furi_check (deed_number deed < deed_number DolphinDeedMAX) (bind_r (rd dolphin_deed_weights (deed_number deed)) (\<lambda>(weight, app). Inr app))"

definition dolphin_deed_get_app_limit :: "DolphinApp \<Rightarrow> fault + u8" where
  "dolphin_deed_get_app_limit app =
     furi_check (app_number app < DolphinAppMAX) (rd dolphin_deed_limits (app_number app))"

section \<open>State\<close>

record DolphinStoreData =
  icounter_daily_limit :: "u8 list"
  butthurt_daily_limit :: u8
  dolphin_flags :: u32
  icounter :: u32
  butthurt :: int
  dolphin_timestamp :: u64

record DolphinState =
  dolphin_data :: DolphinStoreData
  dirty :: bool

definition LEVEL2_THRESHOLD :: u32 where [firmware_const]: "LEVEL2_THRESHOLD = 300"
definition LEVEL3_THRESHOLD :: u32 where [firmware_const]: "LEVEL3_THRESHOLD = 1800"
definition BUTTHURT_MAX :: int where [firmware_const]: "BUTTHURT_MAX = 14"
definition BUTTHURT_MIN :: int where [firmware_const]: "BUTTHURT_MIN = 0"
definition UINT32_MAX :: u32 where [firmware_const]: "UINT32_MAX = 0xFFFFFFFF"

definition CLAMP :: "int \<Rightarrow> int \<Rightarrow> int \<Rightarrow> int" where
  "CLAMP x upper lower = min upper (max x lower)"

definition dolphin_state_timestamp :: "DateTime \<Rightarrow> fault + u64" where
  "dolphin_state_timestamp now = bind_r (datetime_datetime_to_timestamp now) (\<lambda>t. Inr (ucast t))"

definition dolphin_state_is_levelup :: "u32 \<Rightarrow> bool" where
  "dolphin_state_is_levelup ic \<longleftrightarrow> ic = LEVEL2_THRESHOLD \<or> ic = LEVEL3_THRESHOLD"

definition dolphin_get_level :: "u32 \<Rightarrow> u8" where
  "dolphin_get_level ic = (if ic \<le> LEVEL2_THRESHOLD then 1 else if ic \<le> LEVEL3_THRESHOLD then 2 else 3)"

definition dolphin_state_xp_above_last_levelup :: "u32 \<Rightarrow> u32" where
  "dolphin_state_xp_above_last_levelup ic =
     ic - (if ic \<le> LEVEL2_THRESHOLD then 0 else if ic \<le> LEVEL3_THRESHOLD then LEVEL2_THRESHOLD + 1 else LEVEL3_THRESHOLD + 1)"

definition dolphin_state_xp_to_levelup :: "u32 \<Rightarrow> u32" where
  "dolphin_state_xp_to_levelup ic =
     (if ic \<le> LEVEL2_THRESHOLD then LEVEL2_THRESHOLD else if ic \<le> LEVEL3_THRESHOLD then LEVEL3_THRESHOLD else - 1) - ic"

text \<open>How many of the steps of 1, 16, 31 and 46 deeds a day were taken.\<close>

definition butthurt_level :: "u8 \<Rightarrow> u8" where
  "butthurt_level n = n div 15 + of_bool (n mod 15 \<noteq> 0)"

definition on_test_deed :: "DateTime \<Rightarrow> DolphinDeed \<Rightarrow> DolphinState \<Rightarrow> fault + DolphinState" where
  "on_test_deed now deed st =
     (let d = dolphin_data st
      in if deed = DolphinDeedTestLeft then
           bind_r (int32_checked (butthurt d + 1)) (\<lambda>b.
           bind_r (dolphin_state_timestamp now) (\<lambda>t.
             Inr (st\<lparr>dolphin_data := d\<lparr>butthurt := CLAMP b BUTTHURT_MAX BUTTHURT_MIN,
               icounter := (if icounter d > 0 then icounter d - 1 else icounter d), dolphin_timestamp := t\<rparr>, dirty := True\<rparr>)))
         else if deed = DolphinDeedTestRight then
           bind_r (dolphin_state_timestamp now) (\<lambda>t.
             Inr (st\<lparr>dolphin_data := d\<lparr>butthurt := BUTTHURT_MIN,
               icounter := (if icounter d < UINT32_MAX then icounter d + 1 else icounter d), dolphin_timestamp := t\<rparr>, dirty := True\<rparr>))
         else Inr st)"

text \<open>The experience of a deed is within the daily limit of its application, and only up to the next level.
  The difference of the limits is converted to a signed byte, the clamped weight to an unsigned one.\<close>

definition clamped_weight :: "u8 \<Rightarrow> u8 \<Rightarrow> u8 \<Rightarrow> u8" where
  "clamped_weight limit used weight =
     word_of_int (CLAMP (uint weight) (sint (word_of_int (uint limit - uint used) :: u8)) 0)"

definition earn :: "DolphinDeed \<Rightarrow> DolphinStoreData \<Rightarrow> fault + u8 \<times> DolphinStoreData" where
  "earn deed d =
     bind_r (dolphin_deed_get_app deed) (\<lambda>app.
     bind_r (dolphin_deed_get_app_limit app) (\<lambda>limit.
     bind_r (rd (icounter_daily_limit d) (app_number app)) (\<lambda>used.
     bind_r (dolphin_deed_get_weight deed) (\<lambda>weight.
       let deed_weight = clamped_weight limit used weight;
           xp_to_levelup = dolphin_state_xp_to_levelup (icounter d)
       in if xp_to_levelup \<noteq> 0
          then let w = (if xp_to_levelup < ucast deed_weight then ucast xp_to_levelup else deed_weight)
            in Inr (w, d\<lparr>icounter := icounter d + ucast w,
                 icounter_daily_limit := (icounter_daily_limit d)[app_number app := used + w]\<rparr>)
          else Inr (deed_weight, d)))))"

definition dolphin_state_on_deed :: "DateTime \<Rightarrow> DolphinDeed \<Rightarrow> DolphinState \<Rightarrow> fault + DolphinState" where
  "dolphin_state_on_deed now deed st =
     (if deed_number deed > deed_number DolphinDeedMAX then on_test_deed now deed st
      else bind_r (earn deed (dolphin_data st)) (\<lambda>(deed_weight, d).
        let old_level = butthurt_level (butthurt_daily_limit d);
            daily = word_of_int (CLAMP (uint (butthurt_daily_limit d) + uint deed_weight) 46 0);
            new_level = butthurt_level daily
        in bind_r (int32_checked (butthurt d - of_bool (old_level \<noteq> new_level))) (\<lambda>b.
           bind_r (dolphin_state_timestamp now) (\<lambda>t.
             Inr (st\<lparr>dolphin_data := d\<lparr>butthurt_daily_limit := daily, butthurt := CLAMP b BUTTHURT_MAX BUTTHURT_MIN,
               dolphin_timestamp := t\<rparr>, dirty := True\<rparr>)))))"

definition dolphin_state_butthurted :: "DateTime \<Rightarrow> DolphinState \<Rightarrow> fault + DolphinState" where
  "dolphin_state_butthurted now st =
     (if butthurt (dolphin_data st) < BUTTHURT_MAX
      then bind_r (dolphin_state_timestamp now) (\<lambda>t.
        Inr (st\<lparr>dolphin_data := (dolphin_data st)\<lparr>butthurt := butthurt (dolphin_data st) + 1, dolphin_timestamp := t\<rparr>, dirty := True\<rparr>))
      else Inr st)"

definition dolphin_state_increase_level :: "bool \<Rightarrow> DolphinState \<Rightarrow> fault + DolphinState" where
  "dolphin_state_increase_level debug st =
     (if debug \<and> \<not> dolphin_state_is_levelup (icounter (dolphin_data st)) then Inl FuriCrash
      else Inr (st\<lparr>dolphin_data := (dolphin_data st)\<lparr>icounter := icounter (dolphin_data st) + 1\<rparr>, dirty := True\<rparr>))"

definition dolphin_state_clear_limits :: "DolphinState \<Rightarrow> DolphinState" where
  "dolphin_state_clear_limits st =
     st\<lparr>dolphin_data := (dolphin_data st)\<lparr>icounter_daily_limit := replicate DolphinAppMAX 0, butthurt_daily_limit := 0\<rparr>, dirty := True\<rparr>"


section \<open>Saving and loading the state\<close>

definition DOLPHIN_STATE_PATH :: string where [firmware_const]: "DOLPHIN_STATE_PATH = ''/int/.dolphin.state''"
definition DOLPHIN_STATE_HEADER_MAGIC :: u8 where [firmware_const]: "DOLPHIN_STATE_HEADER_MAGIC = 0xD0"
definition DOLPHIN_STATE_HEADER_VERSION :: u8 where [firmware_const]: "DOLPHIN_STATE_HEADER_VERSION = 1"

text \<open>The structure as its 32 bytes: the limits, the counters from byte 8 on, four bytes of padding, which are zero, and the time
  aligned to eight bytes.\<close>

definition store_bytes :: "DolphinStoreData \<Rightarrow> u8 list" where
  "store_bytes d = icounter_daily_limit d @ [butthurt_daily_limit d] @ rev (bytes_be 4 (dolphin_flags d)) @
     rev (bytes_be 4 (icounter d)) @ rev (bytes_be 4 (word_of_int (butthurt d) :: u32)) @ replicate 4 0 @
     rev (bytes_be 8 (dolphin_timestamp d))"

definition store_of_bytes :: "u8 list \<Rightarrow> DolphinStoreData" where
  "store_of_bytes bs =
     \<lparr>icounter_daily_limit = take DolphinAppMAX bs, butthurt_daily_limit = bs ! DolphinAppMAX,
      dolphin_flags = foldl byte_in 0 (rev (take 4 (drop 8 bs))), icounter = foldl byte_in 0 (rev (take 4 (drop 12 bs))),
      butthurt = sint (foldl byte_in 0 (rev (take 4 (drop 16 bs))) :: u32),
      dolphin_timestamp = foldl byte_in 0 (rev (take 8 (drop 24 bs)))\<rparr>"

definition empty_store :: DolphinStoreData where
  "empty_store = \<lparr>icounter_daily_limit = replicate DolphinAppMAX 0, butthurt_daily_limit = 0, dolphin_flags = 0, icounter = 0,
     butthurt = 0, dolphin_timestamp = 0\<rparr>"

definition dolphin_state_alloc :: DolphinState where
  "dolphin_state_alloc = \<lparr>dolphin_data = empty_store, dirty = False\<rparr>"

definition dolphin_state_save :: "'s storage_api \<Rightarrow> DolphinState \<times> 's \<Rightarrow> fault + DolphinState \<times> 's" where
  "dolphin_state_save api = (\<lambda>(st, s).
     if \<not> dirty st then Inr (st, s)
     else bind_r (saved_struct_save api DOLPHIN_STATE_PATH (store_bytes (dolphin_data st)) DOLPHIN_STATE_HEADER_MAGIC
         DOLPHIN_STATE_HEADER_VERSION s) (\<lambda>(success, s1).
       Inr (if success then st\<lparr>dirty := False\<rparr> else st, s1)))"

text \<open>A failed load leaves the structure as it was, but then it is cleared; so is one with a mood out of range.\<close>

definition dolphin_state_load :: "'s storage_api \<Rightarrow> DolphinState \<times> 's \<Rightarrow> fault + DolphinState \<times> 's" where
  "dolphin_state_load api = (\<lambda>(st, s).
     bind_r (saved_struct_load api DOLPHIN_STATE_PATH 32 DOLPHIN_STATE_HEADER_MAGIC DOLPHIN_STATE_HEADER_VERSION s) (\<lambda>r.
     case r of
       Some bs \<Rightarrow>
         if butthurt (store_of_bytes bs) > BUTTHURT_MAX \<or> butthurt (store_of_bytes bs) < BUTTHURT_MIN
         then dolphin_state_save api (\<lparr>dolphin_data = empty_store, dirty = True\<rparr>, s)
         else Inr (st\<lparr>dolphin_data := store_of_bytes bs\<rparr>, s)
     | None \<Rightarrow> dolphin_state_save api (\<lparr>dolphin_data = empty_store, dirty = True\<rparr>, s)))"

section \<open>The service\<close>

datatype DolphinEvent =
    DolphinEventTypeDeed DolphinDeed
  | DolphinEventTypeStats
  | DolphinEventTypeFlush
  | DolphinEventTypeLevel
  | DolphinEventTypeReloadState
  | DolphinEventTypeSettingsGet
  | DolphinEventTypeSettingsSet bool

record DolphinStats =
  stats_icounter :: u32
  stats_butthurt :: u32
  stats_timestamp :: u64
  stats_level :: u8
  level_up_is_pending :: bool

datatype dolphin_answer = NoAnswer | Stats DolphinStats | HappyMode bool

record 's Dolphin =
  dolphin_state :: DolphinState
  dolphin_storage :: 's
  butthurt_timer :: "u32 option"
  flush_timer :: "u32 option"
  clear_limits_timer :: "u32 option"
  updates_published :: nat

definition HOURS_IN_TICKS :: "u32 \<Rightarrow> u32" where [firmware_const]: "HOURS_IN_TICKS x = x * 1000 * 60 * 60"
definition DATE_IN_TICKS :: "u8 \<Rightarrow> u8 \<Rightarrow> u8 \<Rightarrow> u32" where
  "DATE_IN_TICKS h m s = HOURS_IN_TICKS (ucast h) + ucast m * 1000 * 60 + ucast s * 1000"
definition FLUSH_TIMEOUT_TICKS :: u32 where [firmware_const]: "FLUSH_TIMEOUT_TICKS = 30 * 1000"
definition BUTTHURT_INCREASE_PERIOD_TICKS :: u32 where [firmware_const]: "BUTTHURT_INCREASE_PERIOD_TICKS = HOURS_IN_TICKS 48"
definition CLEAR_LIMITS_PERIOD_TICKS :: u32 where [firmware_const]: "CLEAR_LIMITS_PERIOD_TICKS = HOURS_IN_TICKS 24"
definition CLEAR_LIMITS_UPDATE_THRESHOLD_TICKS :: u32 where [firmware_const]: "CLEAR_LIMITS_UPDATE_THRESHOLD_TICKS = 5 * 1000 * 60"
definition CLEAR_LIMITS_TIME_HOURS :: nat where [firmware_const]: "CLEAR_LIMITS_TIME_HOURS = 5"
definition CLEAR_LIMITS_TIME_TICKS :: u32 where [firmware_const]:
  "CLEAR_LIMITS_TIME_TICKS = HOURS_IN_TICKS (of_nat CLEAR_LIMITS_TIME_HOURS)"
definition DolphinFlagHappyMode :: u32 where [firmware_const]: "DolphinFlagHappyMode = 1"

definition on_state :: "(DolphinState \<times> 's \<Rightarrow> fault + DolphinState \<times> 's) \<Rightarrow> 's Dolphin \<Rightarrow> fault + 's Dolphin" where
  "on_state f p = bind_r (f (dolphin_state p, dolphin_storage p)) (\<lambda>(st, s). Inr (p\<lparr>dolphin_state := st, dolphin_storage := s\<rparr>))"

definition dolphin_butthurt_timer_callback :: "'s storage_api \<Rightarrow> DateTime \<Rightarrow> 's Dolphin \<Rightarrow> fault + 's Dolphin" where
  "dolphin_butthurt_timer_callback api now p =
     bind_r (dolphin_state_butthurted now (dolphin_state p)) (\<lambda>st. on_state (dolphin_state_save api) (p\<lparr>dolphin_state := st\<rparr>))"

definition dolphin_flush_timer_callback :: "'s storage_api \<Rightarrow> 's Dolphin \<Rightarrow> fault + 's Dolphin" where
  "dolphin_flush_timer_callback api p = on_state (dolphin_state_save api) p"

definition dolphin_clear_limits_timer_callback :: "'s storage_api \<Rightarrow> 's Dolphin \<Rightarrow> fault + 's Dolphin" where
  "dolphin_clear_limits_timer_callback api p =
     on_state (dolphin_state_save api) (p\<lparr>dolphin_state := dolphin_state_clear_limits (dolphin_state p)\<rparr>)"

text \<open>The remaining time of the timer that clears the limits is an argument.\<close>

definition dolphin_update_clear_limits_timer_period :: "u32 \<Rightarrow> DateTime \<Rightarrow> 's Dolphin \<Rightarrow> 's Dolphin" where
  "dolphin_update_clear_limits_timer_period time_to_clear_limits date p =
     (if time_to_clear_limits > CLEAR_LIMITS_UPDATE_THRESHOLD_TICKS
      then let now_time_ticks = DATE_IN_TICKS (hour date) (minute date) (second date);
               t = (if unat (hour date) < CLEAR_LIMITS_TIME_HOURS then CLEAR_LIMITS_TIME_TICKS - now_time_ticks
                    else CLEAR_LIMITS_PERIOD_TICKS + CLEAR_LIMITS_TIME_TICKS - now_time_ticks)
           in p\<lparr>clear_limits_timer := Some t\<rparr>
      else p)"

definition dolphin_process_event ::
    "bool \<Rightarrow> 's storage_api \<Rightarrow> DateTime \<Rightarrow> DolphinEvent \<Rightarrow> 's Dolphin \<Rightarrow> fault + dolphin_answer \<times> 's Dolphin" where
  "dolphin_process_event debug api now event p =
     (let st = dolphin_state p; d = dolphin_data st
      in case event of
        DolphinEventTypeDeed deed \<Rightarrow>
          bind_r (dolphin_state_on_deed now deed st) (\<lambda>st1.
            Inr (NoAnswer, p\<lparr>dolphin_state := st1, updates_published := updates_published p + 1,
              butthurt_timer := Some BUTTHURT_INCREASE_PERIOD_TICKS, flush_timer := Some FLUSH_TIMEOUT_TICKS\<rparr>))
      | DolphinEventTypeStats \<Rightarrow>
          Inr (Stats \<lparr>stats_icounter = icounter d,
             stats_butthurt = (if dolphin_flags d AND DolphinFlagHappyMode \<noteq> 0 then 0 else word_of_int (butthurt d)),
             stats_timestamp = dolphin_timestamp d, stats_level = dolphin_get_level (icounter d),
             level_up_is_pending = (dolphin_state_xp_to_levelup (icounter d) = 0)\<rparr>, p)
      | DolphinEventTypeFlush \<Rightarrow> Inr (NoAnswer, p\<lparr>flush_timer := Some FLUSH_TIMEOUT_TICKS\<rparr>)
      | DolphinEventTypeLevel \<Rightarrow>
          bind_r (dolphin_state_increase_level debug st) (\<lambda>st1.
            Inr (NoAnswer, p\<lparr>dolphin_state := st1, flush_timer := Some FLUSH_TIMEOUT_TICKS\<rparr>))
      | DolphinEventTypeReloadState \<Rightarrow>
          bind_r (on_state (dolphin_state_load api) p) (\<lambda>p1.
            Inr (NoAnswer, p1\<lparr>butthurt_timer := Some BUTTHURT_INCREASE_PERIOD_TICKS\<rparr>))
      | DolphinEventTypeSettingsGet \<Rightarrow> Inr (HappyMode (dolphin_flags d AND DolphinFlagHappyMode \<noteq> 0), p)
      | DolphinEventTypeSettingsSet happy_mode \<Rightarrow>
          let flags = dolphin_flags d AND NOT DolphinFlagHappyMode;
              st1 = st\<lparr>dolphin_data := d\<lparr>dolphin_flags := (if happy_mode then flags OR DolphinFlagHappyMode else flags)\<rparr>, dirty := True\<rparr>
          in bind_r (on_state (dolphin_state_save api) (p\<lparr>dolphin_state := st1\<rparr>)) (\<lambda>p1. Inr (NoAnswer, p1)))"

section \<open>Deeds within the limits\<close>

definition ordinary :: "DolphinDeed \<Rightarrow> bool" where
  "ordinary deed \<longleftrightarrow> deed_number deed < deed_number DolphinDeedMAX"

definition store_ok :: "DolphinStoreData \<Rightarrow> bool" where
  "store_ok d \<longleftrightarrow> length (icounter_daily_limit d) = DolphinAppMAX \<and> (\<forall>u \<in> set (icounter_daily_limit d). u \<le> 20) \<and>
     butthurt_daily_limit d \<le> 46 \<and> BUTTHURT_MIN \<le> butthurt d \<and> butthurt d \<le> BUTTHURT_MAX"

lemma weights_table: "length dolphin_deed_weights = 33" "\<forall>e \<in> set dolphin_deed_weights. fst e \<le> 10"
  by (simp_all add: dolphin_deed_weights_def)

lemma app_number_bound: "app_number app < 7"
  by (cases app) simp_all

lemma deed_table:
  assumes "ordinary deed"
  obtains app weight where "dolphin_deed_get_app deed = Inr app" "dolphin_deed_get_weight deed = Inr weight" "unat weight \<le> 10"
proof -
  let ?e = "dolphin_deed_weights ! deed_number deed"
  have n: "deed_number deed < length dolphin_deed_weights" using assms by (simp add: ordinary_def weights_table)
  then have "fst ?e \<le> 10" using weights_table(2) nth_mem by blast
  then have w: "unat (fst ?e) \<le> 10" by (simp add: word_le_nat_alt)
  have "dolphin_deed_get_app deed = Inr (snd ?e)" "dolphin_deed_get_weight deed = Inr (fst ?e)"
    using n assms by (simp_all add: dolphin_deed_get_app_def dolphin_deed_get_weight_def ordinary_def split_beta)
  then show thesis using w that by blast
qed

lemma app_limit: "dolphin_deed_get_app_limit app = Inr 20"
  by (cases app) (simp_all add: dolphin_deed_get_app_limit_def dolphin_deed_limits_def DolphinAppMAX_def)

text \<open>The byte arithmetic of the weight.\<close>

lemma weight_clamped:
  assumes "unat weight \<le> 10" and "unat used \<le> 20"
  shows "unat (clamped_weight 20 used weight) = min (unat weight) (20 - unat used)"
proof -
  have s: "sint (word_of_int k :: u8) = k" if "- 128 \<le> k" "k < 128" for k
    using that by (simp add: signed_of_int signed_take_bit_int_eq_self)
  define m where "m = unat used"
  define n where "n = unat weight"
  have mn: "uint used = int m" "uint weight = int n" "unat used = m" "unat weight = n" by (simp_all add: m_def n_def)
  have i: "m \<le> 20" "n \<le> 10" using assms by (simp_all add: m_def n_def)
  have "sint (word_of_int (20 - int m) :: u8) = 20 - int m" by (rule s) (use i in simp_all)
  have uint_20: "uint (20 :: u8) = 20" by simp
  have c: "CLAMP (uint weight) (sint (word_of_int (uint (20 :: u8) - uint used) :: u8)) 0 = int (min n (20 - m))"
  proof -
    have "min (20 - int m) (max (int n) 0) = int (min n (20 - m))" using i by (cases "n \<le> 20 - m") auto
    then show ?thesis using \<open>sint (word_of_int (20 - int m) :: u8) = 20 - int m\<close> by (simp only: CLAMP_def mn uint_20)
  qed
  have "min n (20 - m) < 256" using i by simp
  then have "unat (word_of_int (int (min n (20 - m))) :: u8) = min n (20 - m)"
    by (simp add: unat_of_nat take_bit_nat_eq_self_iff del: of_nat_min)
  also have "\<dots> = min (unat weight) (20 - unat used)" by (simp add: mn)
  finally show ?thesis unfolding clamped_weight_def c .
qed

text \<open>Experience up to the next threshold neither wraps nor changes the level.\<close>

lemma level_kept:
  assumes "unat v \<le> unat (dolphin_state_xp_to_levelup ic)"
  shows "unat (ic + v) = unat ic + unat v" "dolphin_get_level (ic + v) = dolphin_get_level ic"
proof -
  define T where "T = (if ic \<le> LEVEL2_THRESHOLD then LEVEL2_THRESHOLD else if ic \<le> LEVEL3_THRESHOLD then LEVEL3_THRESHOLD else - 1)"
  have T: "ic \<le> T" by (simp add: T_def)
  have xp: "unat (dolphin_state_xp_to_levelup ic) = unat T - unat ic"
    using T by (simp add: dolphin_state_xp_to_levelup_def T_def [symmetric] unat_sub)
  then have le: "unat ic + unat v \<le> unat T" using assms T by (simp add: word_le_nat_alt)
  moreover have "unat T < 2 ^ 32" using unsigned_less [of T] by simp
  ultimately show s: "unat (ic + v) = unat ic + unat v" by (simp add: unat_add_lem [THEN iffD1])
  have "ic \<le> ic + v" "ic + v \<le> T" using s le by (simp_all add: word_le_nat_alt)
  then show "dolphin_get_level (ic + v) = dolphin_get_level ic"
    by (auto simp: dolphin_get_level_def T_def split: if_splits)
qed

lemma earn_ok:
  assumes "ordinary deed" and ok: "store_ok d"
  obtains app weight v where "earn deed d = Inr (weight, d\<lparr>icounter := icounter d + ucast v,
      icounter_daily_limit := (icounter_daily_limit d)[app_number app := icounter_daily_limit d ! app_number app + v]\<rparr>)"
    "unat v \<le> 20 - unat (icounter_daily_limit d ! app_number app)" "unat v \<le> unat (dolphin_state_xp_to_levelup (icounter d))"
    "unat weight \<le> 10"
proof -
  obtain app weight where t: "dolphin_deed_get_app deed = Inr app" "dolphin_deed_get_weight deed = Inr weight" "unat weight \<le> 10"
    by (rule deed_table [OF assms(1)])
  let ?used = "icounter_daily_limit d ! app_number app" let ?xp = "dolphin_state_xp_to_levelup (icounter d)"
  have n: "app_number app < length (icounter_daily_limit d)" using ok app_number_bound [of app] by (simp add: store_ok_def DolphinAppMAX_def)
  then have "?used \<le> 20" using ok nth_mem by (auto simp: store_ok_def)
  then have used: "unat ?used \<le> 20" by (simp add: word_le_nat_alt)
  define dw where "dw = clamped_weight 20 ?used weight"
  have dw: "unat dw = min (unat weight) (20 - unat ?used)" unfolding dw_def by (rule weight_clamped [OF t(3) used])
  have e: "earn deed d = (if ?xp \<noteq> 0
      then let w = (if ?xp < ucast dw then ucast ?xp else dw)
        in Inr (w, d\<lparr>icounter := icounter d + ucast w,
                 icounter_daily_limit := (icounter_daily_limit d)[app_number app := ?used + w]\<rparr>)
      else Inr (dw, d))"
    using n by (simp add: earn_def t(1,2) app_limit dw_def [symmetric] Let_def)
  show thesis
  proof (cases "?xp = 0")
    case True
    then show thesis using dw t(3) by (intro that [where app = app and weight = dw and v = 0]) (simp_all add: e)
  next
    case False
    define w :: u8 where "w = (if ?xp < ucast dw then ucast ?xp else dw)"
    have uw: "unat w = min (unat ?xp) (unat dw)"
    proof (cases "?xp < ucast dw")
      case True
      then have "unat ?xp < unat dw" by (simp add: word_less_nat_alt)
      moreover have "unat dw < 256" using unsigned_less [of dw] by simp
      ultimately show ?thesis using True by (simp add: w_def unsigned_ucast_eq take_bit_nat_eq_self_iff)
    next
      case False
      then show ?thesis by (simp add: w_def word_less_nat_alt not_less)
    qed
    show thesis
      by (rule that [where app = app and weight = w and v = w]) (use False uw dw t(3) in \<open>simp_all add: e w_def [symmetric] Let_def\<close>)
  qed
qed


section \<open>One deed\<close>

definition clock_ok :: "DateTime \<Rightarrow> bool" where
  "clock_ok now \<longleftrightarrow> calendar_date now \<and> unat (year now) < 2039"

lemma clock_timestamp: "clock_ok now \<Longrightarrow> \<exists>t. dolphin_state_timestamp now = Inr t"
  by (simp add: clock_ok_def dolphin_state_timestamp_def timestamp_of_date)

definition day_xp :: "DolphinStoreData \<Rightarrow> nat" where
  "day_xp d = sum_list (map unat (icounter_daily_limit d))"

definition day_steps :: "DolphinStoreData \<Rightarrow> nat" where
  "day_steps d = unat (butthurt_level (butthurt_daily_limit d))"

lemma butthurt_level_number: "unat (butthurt_level n) = (unat n + 14) div 15"
proof -
  define x where "x = n div 15"
  define k where "k = unat n"
  have k: "k < 256" unfolding k_def using unsigned_less [of n] by simp
  have x: "unat x = k div 15" by (simp add: x_def k_def unat_div)
  have m: "n mod 15 \<noteq> 0 \<longleftrightarrow> k mod 15 \<noteq> 0" using unat_eq_0 [of "n mod 15"] by (simp add: k_def unat_mod)
  have "k div 15 < 255" using k by auto
  then have "unat x + unat (1 :: u8) < 2 ^ LENGTH(8)" by (simp add: x)
  then have x1: "unat (x + 1) = k div 15 + 1" by (subst unat_add_lem [THEN iffD1]) (simp_all add: x)
  have "unat (butthurt_level n) = k div 15 + (if k mod 15 \<noteq> 0 then 1 else 0)"
    unfolding butthurt_level_def x_def [symmetric] m using x x1 by simp
  also have "\<dots> = (k + 14) div 15"
  proof -
    define q r where "q = k div 15" and "r = k mod 15"
    have "k + 14 = 15 * q + (r + 14)" by (simp add: q_def r_def)
    then have "(k + 14) div 15 = q + (r + 14) div 15" by simp
    moreover have "(r + 14) div 15 = (if r \<noteq> 0 then 1 else 0)"
    proof (cases "r = 0")
      case False
      moreover have "r < 15" by (simp add: r_def)
      ultimately have "r + 14 = 15 + (r - 1)" "r - 1 < 15" by auto
      then show ?thesis using False by (simp only: div_add_self1) simp
    qed simp
    ultimately show ?thesis by (simp add: q_def r_def)
  qed
  finally show ?thesis by (simp add: k_def)
qed


lemma daily_clamped: "b \<le> 46 \<Longrightarrow> unat (word_of_int (CLAMP (uint b + uint w) 46 0) :: u8) = min 46 (unat b + unat (w :: u8))"
proof -
  define m n where "m = unat b" and "n = unat w"
  have mn: "uint b = int m" "uint w = int n" "unat b = m" "unat w = n" by (simp_all add: m_def n_def)
  have c: "CLAMP (uint b + uint w) 46 0 = int (min 46 (m + n))" unfolding CLAMP_def mn by (simp add: min_def max_def)
  have "min 46 (m + n) < 256" by simp
  then have "unat (word_of_int (int (min 46 (m + n))) :: u8) = min 46 (m + n)"
    by (simp add: unat_of_nat take_bit_nat_eq_self_iff del: of_nat_min)
  then show ?thesis unfolding c by (simp only: mn)
qed

lemma earn_day:
  assumes ok: "store_ok d" and v: "unat v \<le> 20 - unat (icounter_daily_limit d ! app_number app)"
  defines "d' \<equiv> d\<lparr>icounter := icounter d + ucast v,
      icounter_daily_limit := (icounter_daily_limit d)[app_number app := icounter_daily_limit d ! app_number app + v]\<rparr>"
  shows "store_ok d'" "day_xp d' = day_xp d + unat v"
proof -
  let ?l = "icounter_daily_limit d" let ?u = "?l ! app_number app"
  have n: "app_number app < length ?l" using ok app_number_bound [of app] by (simp add: store_ok_def DolphinAppMAX_def)
  then have "?u \<le> 20" using ok nth_mem by (auto simp: store_ok_def)
  then have u: "unat ?u \<le> 20" by (simp add: word_le_nat_alt)
  then have "unat ?u + unat v < 2 ^ LENGTH(8)" using v by simp
  then have s: "unat (?u + v) = unat ?u + unat v" by (rule unat_add_lem [THEN iffD1])
  have "?u + v \<le> 20" using s u v by (simp add: word_le_nat_alt)
  then show "store_ok d'" using ok set_update_subset_insert [of ?l "app_number app" "?u + v"] by (auto simp: store_ok_def d'_def)
  have "sum_list ((map unat ?l)[app_number app := unat (?u + v)]) = sum_list (map unat ?l) + unat v"
    using n s by (simp add: sum_list_update)
  then show "day_xp d' = day_xp d + unat v" by (simp add: day_xp_def d'_def map_update)
qed

lemma deed_step:
  assumes "ordinary deed" and ok: "store_ok (dolphin_data st)" and "clock_ok now"
  obtains st' where "dolphin_state_on_deed now deed st = Inr st'" "store_ok (dolphin_data st')"
    "dolphin_get_level (icounter (dolphin_data st')) = dolphin_get_level (icounter (dolphin_data st))"
    "unat (icounter (dolphin_data st')) + day_xp (dolphin_data st) = unat (icounter (dolphin_data st)) + day_xp (dolphin_data st')"
    "unat (icounter (dolphin_data st)) \<le> unat (icounter (dolphin_data st'))"
    "butthurt (dolphin_data st') \<le> butthurt (dolphin_data st)"
    "butthurt (dolphin_data st) + int (day_steps (dolphin_data st)) \<le> butthurt (dolphin_data st') + int (day_steps (dolphin_data st'))"
proof -
  let ?d = "dolphin_data st"
  obtain app weight v where e: "earn deed ?d = Inr (weight, ?d\<lparr>icounter := icounter ?d + ucast v,
      icounter_daily_limit := (icounter_daily_limit ?d)[app_number app := icounter_daily_limit ?d ! app_number app + v]\<rparr>)"
    and v: "unat v \<le> 20 - unat (icounter_daily_limit ?d ! app_number app)" "unat v \<le> unat (dolphin_state_xp_to_levelup (icounter ?d))"
    by (rule earn_ok [OF assms(1) ok])
  define d where "d = ?d\<lparr>icounter := icounter ?d + ucast v,
      icounter_daily_limit := (icounter_daily_limit ?d)[app_number app := icounter_daily_limit ?d ! app_number app + v]\<rparr>"
  have d: "store_ok d" "day_xp d = day_xp ?d + unat v" unfolding d_def by (rule earn_day [OF ok v(1)])+
  have same: "butthurt d = butthurt ?d" "butthurt_daily_limit d = butthurt_daily_limit ?d" by (simp_all add: d_def)
  have "unat (ucast v :: u32) \<le> unat (dolphin_state_xp_to_levelup (icounter ?d))" using v(2) by simp
  from level_kept [OF this] have ic: "unat (icounter d) = unat (icounter ?d) + unat v"
    "dolphin_get_level (icounter d) = dolphin_get_level (icounter ?d)" by (simp_all add: d_def)
  define daily :: u8 where "daily = word_of_int (CLAMP (uint (butthurt_daily_limit ?d) + uint weight) 46 0)"
  have b46: "butthurt_daily_limit ?d \<le> 46" using ok by (simp add: store_ok_def)
  have daily: "unat daily = min 46 (unat (butthurt_daily_limit ?d) + unat weight)" unfolding daily_def by (rule daily_clamped [OF b46])
  define c where "c = (butthurt_level (butthurt_daily_limit ?d) \<noteq> butthurt_level daily)"
  define b where "b = butthurt ?d - of_bool c"
  have br: "0 \<le> butthurt ?d" "butthurt ?d \<le> 14" using ok by (simp_all add: store_ok_def BUTTHURT_MIN_def BUTTHURT_MAX_def)
  obtain t where t: "dolphin_state_timestamp now = Inr t" using clock_timestamp [OF assms(3)] by blast
  let ?st = "st\<lparr>dolphin_data := d\<lparr>butthurt_daily_limit := daily, butthurt := CLAMP b BUTTHURT_MAX BUTTHURT_MIN,
               dolphin_timestamp := t\<rparr>, dirty := True\<rparr>"
  have "int32_checked b = Inr b" using br by (simp add: int32_checked_def b_def)
  then have run: "dolphin_state_on_deed now deed st = Inr ?st"
    using assms(1) e t
    by (simp add: dolphin_state_on_deed_def ordinary_def d_def [symmetric] same daily_def [symmetric] c_def [symmetric]
        b_def [symmetric] Let_def)
  have le: "unat (butthurt_daily_limit ?d) \<le> unat daily" using daily b46 by (simp add: word_le_nat_alt)
  then have "unat (butthurt_level (butthurt_daily_limit ?d)) \<le> unat (butthurt_level daily)"
    by (simp add: butthurt_level_number div_le_mono)
  moreover have "c \<Longrightarrow> unat (butthurt_level (butthurt_daily_limit ?d)) \<noteq> unat (butthurt_level daily)"
    by (simp add: c_def word_unat_eq_iff)
  ultimately have steps: "unat (butthurt_level (butthurt_daily_limit ?d)) + of_bool c \<le> unat (butthurt_level daily)"
    by (cases c) auto
  have bb: "butthurt ?d - of_bool c \<le> CLAMP b BUTTHURT_MAX BUTTHURT_MIN" "CLAMP b BUTTHURT_MAX BUTTHURT_MIN \<le> butthurt ?d"
    "0 \<le> CLAMP b BUTTHURT_MAX BUTTHURT_MIN" "CLAMP b BUTTHURT_MAX BUTTHURT_MIN \<le> 14"
    using br by (cases c; simp add: CLAMP_def b_def BUTTHURT_MAX_def BUTTHURT_MIN_def)+
  show thesis
  proof (rule that [OF run])
    show "store_ok (dolphin_data ?st)"
      using d(1) bb daily by (simp add: store_ok_def word_le_nat_alt BUTTHURT_MAX_def BUTTHURT_MIN_def)
    show "butthurt ?d + int (day_steps ?d) \<le> butthurt (dolphin_data ?st) + int (day_steps (dolphin_data ?st))"
    proof -
      define k0 k1 where "k0 = unat (butthurt_level (butthurt_daily_limit ?d))" and "k1 = unat (butthurt_level daily)"
      have "k0 + of_bool c \<le> k1" using steps by (simp only: k0_def k1_def)
      then have "int k0 + of_bool c \<le> int k1" by (cases c) simp_all
      moreover have "day_steps ?d = k0" "day_steps (dolphin_data ?st) = k1" by (simp_all add: day_steps_def k0_def k1_def)
      ultimately show ?thesis using bb(1) by simp
    qed
  qed (use ic d(2) bb in \<open>simp_all add: day_xp_def\<close>)
qed


section \<open>A day of deeds\<close>

fun do_deeds :: "(DateTime \<times> DolphinDeed) list \<Rightarrow> DolphinState \<Rightarrow> fault + DolphinState" where
  "do_deeds [] st = Inr st"
| "do_deeds ((now, deed) # deeds) st = bind_r (dolphin_state_on_deed now deed st) (do_deeds deeds)"

lemma deeds_run:
  assumes "\<forall>(now, deed) \<in> set deeds. clock_ok now \<and> ordinary deed" and "store_ok (dolphin_data st)"
  shows "\<exists>st'. do_deeds deeds st = Inr st' \<and> store_ok (dolphin_data st') \<and>
    dolphin_get_level (icounter (dolphin_data st')) = dolphin_get_level (icounter (dolphin_data st)) \<and>
    unat (icounter (dolphin_data st')) + day_xp (dolphin_data st) = unat (icounter (dolphin_data st)) + day_xp (dolphin_data st') \<and>
    unat (icounter (dolphin_data st)) \<le> unat (icounter (dolphin_data st')) \<and>
    butthurt (dolphin_data st') \<le> butthurt (dolphin_data st) \<and>
    butthurt (dolphin_data st) + int (day_steps (dolphin_data st)) \<le> butthurt (dolphin_data st') + int (day_steps (dolphin_data st'))"
  using assms
proof (induction deeds arbitrary: st)
  case (Cons e deeds)
  obtain now deed where e: "e = (now, deed)" by (cases e)
  have o: "ordinary deed" "clock_ok now" using Cons.prems(1) by (simp_all add: e)
  obtain st1 where st1: "dolphin_state_on_deed now deed st = Inr st1" "store_ok (dolphin_data st1)"
    "dolphin_get_level (icounter (dolphin_data st1)) = dolphin_get_level (icounter (dolphin_data st))"
    "unat (icounter (dolphin_data st1)) + day_xp (dolphin_data st) = unat (icounter (dolphin_data st)) + day_xp (dolphin_data st1)"
    "unat (icounter (dolphin_data st)) \<le> unat (icounter (dolphin_data st1))"
    "butthurt (dolphin_data st1) \<le> butthurt (dolphin_data st)"
    "butthurt (dolphin_data st) + int (day_steps (dolphin_data st)) \<le> butthurt (dolphin_data st1) + int (day_steps (dolphin_data st1))"
    by (rule deed_step [OF o(1) Cons.prems(2) o(2)])
  have "\<forall>(now, deed) \<in> set deeds. clock_ok now \<and> ordinary deed" using Cons.prems(1) by simp
  from Cons.IH [OF this st1(2)] obtain st2 where st2: "do_deeds deeds st1 = Inr st2" "store_ok (dolphin_data st2)"
    "dolphin_get_level (icounter (dolphin_data st2)) = dolphin_get_level (icounter (dolphin_data st1))"
    "unat (icounter (dolphin_data st2)) + day_xp (dolphin_data st1) = unat (icounter (dolphin_data st1)) + day_xp (dolphin_data st2)"
    "unat (icounter (dolphin_data st1)) \<le> unat (icounter (dolphin_data st2))"
    "butthurt (dolphin_data st2) \<le> butthurt (dolphin_data st1)"
    "butthurt (dolphin_data st1) + int (day_steps (dolphin_data st1)) \<le> butthurt (dolphin_data st2) + int (day_steps (dolphin_data st2))"
    by blast
  show ?case by (rule exI [of _ st2]) (use st1 st2 in \<open>simp add: e\<close>)
qed simp

lemma day_xp_bound: "store_ok d \<Longrightarrow> day_xp d \<le> 140"
proof -
  assume ok: "store_ok d"
  have "\<forall>u \<in> set (icounter_daily_limit d). unat u \<le> 20" using ok by (auto simp: store_ok_def word_le_nat_alt)
  moreover have "\<forall>u \<in> set xs. unat (u :: u8) \<le> 20 \<Longrightarrow> sum_list (map unat xs) \<le> 20 * length xs" for xs
    by (induction xs) auto
  ultimately have "sum_list (map unat (icounter_daily_limit d)) \<le> 20 * length (icounter_daily_limit d)" by blast
  then show ?thesis using ok by (simp add: day_xp_def store_ok_def DolphinAppMAX_def)
qed

lemma day_steps_bound: "store_ok d \<Longrightarrow> day_steps d \<le> 4"
proof -
  assume "store_ok d"
  then have "unat (butthurt_daily_limit d) \<le> 46" by (simp add: store_ok_def word_le_nat_alt)
  then have "(unat (butthurt_daily_limit d) + 14) div 15 \<le> 60 div 15" by (intro div_le_mono) simp
  then show ?thesis by (simp add: day_steps_def butthurt_level_number)
qed

section \<open>Bytes of the state\<close>

lemma word_of_bytes: "foldl byte_in 0 (bytes_be n x) = take_bit (8 * n) (x :: 'a::len word)"
  by (simp add: foldl_byte_in_bytes)

lemma store_of_store_bytes: "store_ok d \<Longrightarrow> store_of_bytes (store_bytes d) = d"
proof -
  assume ok: "store_ok d"
  let ?bs = "store_bytes d"
  have l: "length (icounter_daily_limit d) = 7" using ok by (simp add: store_ok_def DolphinAppMAX_def)
  have p: "take 7 ?bs = icounter_daily_limit d" "?bs ! 7 = butthurt_daily_limit d"
    "take 4 (drop 8 ?bs) = rev (bytes_be 4 (dolphin_flags d))" "take 4 (drop 12 ?bs) = rev (bytes_be 4 (icounter d))"
    "take 4 (drop 16 ?bs) = rev (bytes_be 4 (word_of_int (butthurt d) :: u32))"
    "take 8 (drop 24 ?bs) = rev (bytes_be 8 (dolphin_timestamp d))"
    using l by (simp_all add: store_bytes_def nth_append)
  have "sint (word_of_int (butthurt d) :: u32) = butthurt d"
    using ok by (simp add: store_ok_def BUTTHURT_MIN_def BUTTHURT_MAX_def signed_of_int signed_take_bit_int_eq_self)
  then show "store_of_bytes ?bs = d"
    unfolding store_of_bytes_def DolphinAppMAX_def p rev_rev_ident word_of_bytes
    by (simp add: take_bit_word_eq_self)
qed

lemma length_store_bytes: "store_ok d \<Longrightarrow> length (store_bytes d) = 32"
  by (simp add: store_ok_def store_bytes_def DolphinAppMAX_def)

section \<open>Properties\<close>

text \<open>C32 A day of deeds of the applications, whichever and how many: from a state in its ranges with cleared limits, with a
  clock that shows dates of the calendar before 2039, the service does not fault, the experience grows
  by at most 140 (20 for each of seven applications) without wrapping around, a level is never passed without
  the level-up, and the mood improves, by at most four; the limits and the mood stay in their ranges. The deeds are those
  below \<^verbatim>\<open>DolphinDeedMAX\<close>; this end marker itself fails a check, and the two deeds for tests behind it are not limited.\<close>

theorem day_of_deeds:
  assumes "\<forall>(now, deed) \<in> set deeds. clock_ok now \<and> ordinary deed" and "store_ok (dolphin_data st)"
  shows "\<exists>st'. do_deeds deeds (dolphin_state_clear_limits st) = Inr st' \<and> store_ok (dolphin_data st') \<and>
    dolphin_get_level (icounter (dolphin_data st')) = dolphin_get_level (icounter (dolphin_data st)) \<and>
    unat (icounter (dolphin_data st)) \<le> unat (icounter (dolphin_data st')) \<and>
    unat (icounter (dolphin_data st')) \<le> unat (icounter (dolphin_data st)) + 140 \<and>
    butthurt (dolphin_data st) - 4 \<le> butthurt (dolphin_data st') \<and> butthurt (dolphin_data st') \<le> butthurt (dolphin_data st)"
proof -
  let ?st = "dolphin_state_clear_limits st"
  have ok: "store_ok (dolphin_data ?st)" using assms(2) by (simp add: store_ok_def dolphin_state_clear_limits_def)
  have z: "day_xp (dolphin_data ?st) = 0" "day_steps (dolphin_data ?st) = 0" "icounter (dolphin_data ?st) = icounter (dolphin_data st)"
    "butthurt (dolphin_data ?st) = butthurt (dolphin_data st)"
    by (simp_all add: dolphin_state_clear_limits_def day_xp_def day_steps_def butthurt_level_number DolphinAppMAX_def sum_list_replicate)
  obtain st' where st': "do_deeds deeds ?st = Inr st'" "store_ok (dolphin_data st')"
    "dolphin_get_level (icounter (dolphin_data st')) = dolphin_get_level (icounter (dolphin_data ?st))"
    "unat (icounter (dolphin_data st')) + day_xp (dolphin_data ?st) = unat (icounter (dolphin_data ?st)) + day_xp (dolphin_data st')"
    "unat (icounter (dolphin_data ?st)) \<le> unat (icounter (dolphin_data st'))"
    "butthurt (dolphin_data st') \<le> butthurt (dolphin_data ?st)"
    "butthurt (dolphin_data ?st) + int (day_steps (dolphin_data ?st)) \<le> butthurt (dolphin_data st') + int (day_steps (dolphin_data st'))"
    using deeds_run [OF assms(1) ok] by blast
  show ?thesis
    by (rule exI [of _ st']) (use st' z day_xp_bound [OF st'(2)] day_steps_bound [OF st'(2)] in simp)
qed

theorem day_of_deeds_witness:
  "\<exists>st'. do_deeds (replicate 3 (\<lparr>hour = 9, minute = 30, second = 0, day = 29, month = 2, year = 2024, weekday = 4\<rparr>, DolphinDeedNfcSave) @
        [(\<lparr>hour = 9, minute = 31, second = 0, day = 29, month = 2, year = 2024, weekday = 4\<rparr>, DolphinDeedPluginGameWin)])
      (dolphin_state_clear_limits dolphin_state_alloc) = Inr st' \<and> store_ok (dolphin_data st')"
proof -
  have "leap 2024" by (simp add: leap_def)
  then have c: "clock_ok \<lparr>hour = 9, minute = m, second = 0, day = 29, month = 2, year = 2024, weekday = 4\<rparr>" if "unat m < 60" for m
    using that by (simp add: clock_ok_def calendar_date_def month_length_def)
  have "store_ok (dolphin_data dolphin_state_alloc)"
    by (simp add: dolphin_state_alloc_def empty_store_def store_ok_def DolphinAppMAX_def BUTTHURT_MIN_def BUTTHURT_MAX_def)
  from day_of_deeds [OF _ this, of "replicate 3 (\<lparr>hour = 9, minute = 30, second = 0, day = 29, month = 2, year = 2024, weekday = 4\<rparr>, DolphinDeedNfcSave) @
        [(\<lparr>hour = 9, minute = 31, second = 0, day = 29, month = 2, year = 2024, weekday = 4\<rparr>, DolphinDeedPluginGameWin)]"]
  show ?thesis using c by (auto simp: ordinary_def)
qed

text \<open>C36 Whenever the time of the limits is set anew, at any time of day, it ends at the next five o'clock: the
  32-bit arithmetic gives the exact distance, which is positive and at most a day.\<close>

theorem limits_cleared_at_five:
  assumes "CLEAR_LIMITS_UPDATE_THRESHOLD_TICKS < remaining"
    and "unat (hour date) < 24" and "unat (minute date) < 60" and "unat (second date) < 60"
  shows "\<exists>t. dolphin_update_clear_limits_timer_period remaining date p = p\<lparr>clear_limits_timer := Some t\<rparr> \<and>
    0 < unat t \<and> unat t \<le> 24 * 3600000 \<and>
    (((unat (hour date) * 60 + unat (minute date)) * 60 + unat (second date)) * 1000 + unat t) mod (24 * 3600000) = 5 * 3600000"
proof -
  define h m s where "h = unat (hour date)" and "m = unat (minute date)" and "s = unat (second date)"
  define N where "N = ((h * 60 + m) * 60 + s) * 1000"
  define t :: nat where "t = (if h < 5 then 18000000 - N else 104400000 - N)"
  have hms: "h < 24" "m < 60" "s < 60" using assms(2-4) by (simp_all add: h_def m_def s_def)
  have words: "ucast (hour date) = (of_nat h :: u32)" "ucast (minute date) = (of_nat m :: u32)" "ucast (second date) = (of_nat s :: u32)"
    by (simp_all add: h_def m_def s_def)
  have now: "DATE_IN_TICKS (hour date) (minute date) (second date) = of_nat N"
    unfolding DATE_IN_TICKS_def HOURS_IN_TICKS_def words N_def by (simp add: algebra_simps)
  have N: "h < 5 \<Longrightarrow> N < 18000000" "\<not> h < 5 \<Longrightarrow> 18000000 \<le> N" "N < 86400000"
    using hms by (simp_all add: N_def)
  have t: "0 < t" "t \<le> 86400000" using N by (auto simp: t_def)
  have "(if unat (hour date) < CLEAR_LIMITS_TIME_HOURS then CLEAR_LIMITS_TIME_TICKS - of_nat N
      else CLEAR_LIMITS_PERIOD_TICKS + CLEAR_LIMITS_TIME_TICKS - of_nat N) = (of_nat t :: u32)"
  proof (cases "h < 5")
    case True
    then have "(18000000 :: u32) - of_nat N = of_nat (18000000 - N)" using N by (subst of_nat_diff) simp_all
    then show ?thesis using True by (simp add: firmware_const h_def [symmetric] t_def)
  next
    case False
    then have "(104400000 :: u32) - of_nat N = of_nat (104400000 - N)" using N by (subst of_nat_diff) simp_all
    then show ?thesis using False by (simp add: firmware_const h_def [symmetric] t_def)
  qed
  then have run: "dolphin_update_clear_limits_timer_period remaining date p = p\<lparr>clear_limits_timer := Some (of_nat t)\<rparr>"
    using assms(1) by (simp only: dolphin_update_clear_limits_timer_period_def now if_True Let_def)
  have ut: "unat (of_nat t :: u32) = t" using t by (simp add: unat_of_nat take_bit_nat_eq_self_iff)
  have mod: "(N + t) mod 86400000 = 18000000"
  proof (cases "h < 5")
    case True
    then have "N + t = 18000000" using N by (simp add: t_def)
    then show ?thesis by simp
  next
    case False
    then have "N + t = 104400000" using N by (simp add: t_def)
    then show ?thesis by simp
  qed
  show ?thesis
    by (rule exI [of _ "of_nat t"]) (use run t mod in \<open>simp add: ut h_def [symmetric] m_def [symmetric] s_def [symmetric] N_def algebra_simps\<close>)
qed

theorem limits_cleared_at_five_witness:
  "\<exists>t. dolphin_update_clear_limits_timer_period 86400000
      \<lparr>hour = 23, minute = 59, second = 58, day = 29, month = 2, year = 2024, weekday = 4\<rparr>
      \<lparr>dolphin_state = dolphin_state_alloc, dolphin_storage = (), butthurt_timer = None, flush_timer = None,
        clear_limits_timer = None, updates_published = 0\<rparr> =
      \<lparr>dolphin_state = dolphin_state_alloc, dolphin_storage = (), butthurt_timer = None, flush_timer = None,
        clear_limits_timer = Some t, updates_published = 0\<rparr> \<and> 0 < unat t"
  using limits_cleared_at_five [of 86400000
      "\<lparr>hour = 23, minute = 59, second = 58, day = 29, month = 2, year = 2024, weekday = 4\<rparr>"
      "\<lparr>dolphin_state = dolphin_state_alloc, dolphin_storage = (), butthurt_timer = None, flush_timer = None,
        clear_limits_timer = None, updates_published = 0\<rparr>"]
  by (auto simp: firmware_const)

text \<open>A state that was saved is loaded again as it was, into whatever state, and does not count as changed.\<close>

theorem dolphin_state_roundtrip:
  assumes "keeps_files api" and "store_ok (dolphin_data st)" and "dirty st"
    and "dolphin_state_save api (st, s) = Inr (st1, s1)" and "\<not> dirty st1"
  shows "st1 = st\<lparr>dirty := False\<rparr> \<and> dolphin_state_load api (st0, s1) = Inr (st0\<lparr>dolphin_data := dolphin_data st\<rparr>, s1)"
proof -
  let ?d = "dolphin_data st"
  obtain success s2 where sv: "saved_struct_save api DOLPHIN_STATE_PATH (store_bytes ?d) DOLPHIN_STATE_HEADER_MAGIC
      DOLPHIN_STATE_HEADER_VERSION s = Inr (success, s2)"
    and st1: "st1 = (if success then st\<lparr>dirty := False\<rparr> else st)" "s1 = s2"
    using assms(3,4) by (cases "saved_struct_save api DOLPHIN_STATE_PATH (store_bytes ?d) DOLPHIN_STATE_HEADER_MAGIC
        DOLPHIN_STATE_HEADER_VERSION s") (auto simp: dolphin_state_save_def split: if_splits)
  have success using assms(3,5) st1 by (auto split: if_splits)
  then have "saved_struct_save api DOLPHIN_STATE_PATH (store_bytes ?d) DOLPHIN_STATE_HEADER_MAGIC
      DOLPHIN_STATE_HEADER_VERSION s = Inr (True, s1)" using sv st1 by simp
  note holds = save_holds [OF assms(1) this]
  have "saved_struct_load api DOLPHIN_STATE_PATH 32 DOLPHIN_STATE_HEADER_MAGIC DOLPHIN_STATE_HEADER_VERSION s1 =
      Inr (Some (store_bytes ?d))"
    using load_file [OF holds(1), of 32 DOLPHIN_STATE_HEADER_MAGIC DOLPHIN_STATE_HEADER_VERSION] holds(2) length_store_bytes [OF assms(2)]
    by (simp add: nth_append header_bytes_nth checksum_sum header_size_def)
  moreover have "\<not> BUTTHURT_MAX < butthurt ?d" "\<not> butthurt ?d < BUTTHURT_MIN" using assms(2) by (simp_all add: store_ok_def)
  ultimately show ?thesis
    using st1 \<open>success\<close> by (simp add: dolphin_state_load_def store_of_store_bytes [OF assms(2)])
qed

theorem dolphin_state_roundtrip_witness:
  "\<exists>st1 s1. dolphin_state_save memory_storage (\<lparr>dolphin_data = empty_store\<lparr>icounter := 301, butthurt := 3\<rparr>, dirty = True\<rparr>, Map.empty) = Inr (st1, s1) \<and>
    dolphin_state_load memory_storage (dolphin_state_alloc, s1) =
      Inr (\<lparr>dolphin_data = empty_store\<lparr>icounter := 301, butthurt := 3\<rparr>, dirty = False\<rparr>, s1)"
proof -
  let ?st = "\<lparr>dolphin_data = empty_store\<lparr>icounter := 301, butthurt := 3\<rparr>, dirty = True\<rparr>"
  have ok: "store_ok (dolphin_data ?st)"
    by (simp add: empty_store_def store_ok_def DolphinAppMAX_def BUTTHURT_MIN_def BUTTHURT_MAX_def)
  obtain s1 where s1: "dolphin_state_save memory_storage (?st, Map.empty) = Inr (?st\<lparr>dirty := False\<rparr>, s1)"
    by (simp add: dolphin_state_save_def saved_struct_save_def memory_storage_def header_size_def store_bytes_def)
  from dolphin_state_roundtrip [OF keeps_memory ok _ s1, of dolphin_state_alloc]
  show ?thesis using s1 by (auto simp: dolphin_state_alloc_def)
qed

text \<open>The update of the time is the interval of a timer that repeats. Set at 4:54:59, the timer expires at five
  and then every 301 seconds; the hourly update finds less than five minutes left, at each of the following three hundred
  hours, and leaves it so.\<close>

lemma limits_cleared_every_five_minutes:
  assumes "CLEAR_LIMITS_UPDATE_THRESHOLD_TICKS < remaining" and "hour date = 4" "minute date = 54" "second date = 59"
  shows "dolphin_update_clear_limits_timer_period remaining date p = p\<lparr>clear_limits_timer := Some 301000\<rparr>"
    and "0 < k \<Longrightarrow> k \<le> 300 \<Longrightarrow>
      dolphin_update_clear_limits_timer_period (of_nat (301000 - 3600000 * k mod 301000)) date' q = q"
proof -
  show "dolphin_update_clear_limits_timer_period remaining date p = p\<lparr>clear_limits_timer := Some 301000\<rparr>"
    using assms by (simp add: dolphin_update_clear_limits_timer_period_def DATE_IN_TICKS_def firmware_const)
  assume k: "0 < k" "k \<le> 300"
  have "3600 * k mod 301 \<noteq> 0"
  proof
    assume "3600 * k mod 301 = 0"
    then have "301 dvd 3600 * k" by auto
    moreover have "coprime (301 :: nat) 3600" by (simp add: coprime_iff_gcd_eq_1 gcd_non_0_nat)
    ultimately have "301 dvd k" by (simp add: coprime_dvd_mult_right_iff)
    then show False using k by (auto dest: dvd_imp_le)
  qed
  moreover have "3600000 * k mod 301000 = 1000 * (3600 * k mod 301)"
    using mult_mod_right [of 1000 "3600 * k" 301] by simp
  ultimately have le: "301000 - 3600000 * k mod 301000 \<le> 300000" by simp
  have "unat (of_nat n :: u32) \<le> 300000" if "n \<le> 300000" for n
    using that by (simp add: unat_of_nat take_bit_nat_eq_self_iff)
  then have "unat (of_nat (301000 - 3600000 * k mod 301000) :: u32) \<le> 300000" using le by blast
  then have "\<not> CLEAR_LIMITS_UPDATE_THRESHOLD_TICKS < of_nat (301000 - 3600000 * k mod 301000)"
    by (simp add: firmware_const word_less_nat_alt del: of_nat_diff)
  then show "dolphin_update_clear_limits_timer_period (of_nat (301000 - 3600000 * k mod 301000)) date' q = q"
    by (simp add: dolphin_update_clear_limits_timer_period_def)
qed

text \<open>A flush only starts the timer again; the state is saved when it expires. The limits of a loaded file are not checked: with 50 units used, the signed byte is negative and a deed
  of weight 3 counts 226.\<close>

lemma flush_saves_nothing:
  "dolphin_process_event debug api now DolphinEventTypeFlush p = Inr (NoAnswer, p\<lparr>flush_timer := Some FLUSH_TIMEOUT_TICKS\<rparr>)"
  by (simp add: dolphin_process_event_def)

lemma unchecked_limit_raises_weight: "clamped_weight 20 50 3 = 226"
  by (simp add: clamped_weight_def CLAMP_def)

end
