(* ===== verification/String_Stream.thy ===== *)
theory String_Stream
  imports Flipper_Prelude
begin

text \<open>
  Streams in memory, \<^verbatim>\<open>lib/toolbox/stream/string_stream.c\<close>, and the helpers of \<^verbatim>\<open>lib/toolbox/stream/stream.c\<close>
  on them. A stream is a string and an index into it; strings are lists of characters, and where the code goes through
  a C string, the part before the first zero. Sizes are far below \<open>2 ^ 31\<close>, so offsets are integers. The
  functions of \<^verbatim>\<open>stream.c\<close> that only dispatch are the functions of the string stream.
\<close>

section \<open>The stream\<close>

record StringStream =
  stream_string :: string
  stream_index :: nat

datatype StreamOffset = StreamOffsetFromCurrent | StreamOffsetFromStart | StreamOffsetFromEnd

definition cstr :: "string \<Rightarrow> string" where
  "cstr s = takeWhile (\<lambda>c. c \<noteq> CHR 0x00) s"

definition string_stream_alloc :: StringStream where
  "string_stream_alloc = \<lparr>stream_string = [], stream_index = 0\<rparr>"

definition string_stream_tell :: "StringStream \<Rightarrow> nat" where
  "string_stream_tell s = stream_index s"

definition string_stream_size :: "StringStream \<Rightarrow> nat" where
  "string_stream_size s = length (stream_string s)"

definition string_stream_eof :: "StringStream \<Rightarrow> bool" where
  "string_stream_eof s \<longleftrightarrow> string_stream_tell s \<ge> string_stream_size s"

definition string_stream_clean :: "StringStream \<Rightarrow> StringStream" where
  "string_stream_clean s = s\<lparr>stream_index := 0, stream_string := []\<rparr>"

definition string_stream_seek :: "int \<Rightarrow> StreamOffset \<Rightarrow> StringStream \<Rightarrow> bool \<times> StringStream" where
  "string_stream_seek offset offset_type s =
     (let target = (case offset_type of
            StreamOffsetFromStart \<Rightarrow> offset
          | StreamOffsetFromCurrent \<Rightarrow> int (stream_index s) + offset
          | StreamOffsetFromEnd \<Rightarrow> int (length (stream_string s)) + offset);
          (result, index) = (if target \<ge> 0 then (True, nat target) else (False, 0))
      in if index > length (stream_string s)
         then (False, s\<lparr>stream_index := length (stream_string s)\<rparr>)
         else (result, s\<lparr>stream_index := index\<rparr>))"

definition string_stream_write_char :: "char \<Rightarrow> StringStream \<Rightarrow> StringStream" where
  "string_stream_write_char c s =
     (let str = stream_string s
      in s\<lparr>stream_string := (if string_stream_eof s then str @ [c] else str[stream_index s := c]),
           stream_index := stream_index s + 1\<rparr>)"

definition string_stream_write :: "string \<Rightarrow> StringStream \<Rightarrow> nat \<times> StringStream" where
  "string_stream_write data s = (length data, fold string_stream_write_char data s)"

text \<open>One character at a time, until the buffer is full or the stream ends.\<close>

fun read_chars :: "nat \<Rightarrow> StringStream \<Rightarrow> string \<times> StringStream" where
  "read_chars 0 s = ([], s)"
| "read_chars (Suc n) s =
     (let c = stream_string s ! stream_index s; s1 = snd (string_stream_seek 1 StreamOffsetFromCurrent s)
      in if string_stream_eof s1 then ([c], s1) else let (cs, s2) = read_chars n s1 in (c # cs, s2))"

definition string_stream_read :: "nat \<Rightarrow> StringStream \<Rightarrow> string \<times> StringStream" where
  "string_stream_read n s = (if string_stream_eof s then ([], s) else read_chars n s)"

text \<open>The part behind the index is taken as a C string while the callback writes at the end.\<close>

definition string_stream_delete_and_insert ::
    "nat \<Rightarrow> (StringStream \<Rightarrow> bool \<times> StringStream) option \<Rightarrow> StringStream \<Rightarrow> bool \<times> StringStream" where
  "string_stream_delete_and_insert delete_size write_callback s =
     (let remain_size = min delete_size (string_stream_size s - string_stream_tell s);
          s1 = s\<lparr>stream_string := take (stream_index s) (stream_string s) @ drop (stream_index s + remain_size) (stream_string s)\<rparr>
      in case write_callback of
           None \<Rightarrow> (True, s1)
         | Some write \<Rightarrow>
             let right = cstr (drop (stream_index s1) (stream_string s1));
                 (result, s2) = write (s1\<lparr>stream_string := take (string_stream_tell s1) (stream_string s1)\<rparr>)
             in (result, s2\<lparr>stream_string := stream_string s2 @ right\<rparr>))"

section \<open>What the operations do\<close>

text \<open>The index is inside the string, or at its end.\<close>

definition stream_ok :: "StringStream \<Rightarrow> bool" where
  "stream_ok s \<longleftrightarrow> stream_index s \<le> length (stream_string s)"

definition rest :: "StringStream \<Rightarrow> string" where
  "rest s = drop (stream_index s) (stream_string s)"

lemma alloc_ok [simp]: "stream_ok string_stream_alloc"
  by (simp add: stream_ok_def string_stream_alloc_def)

lemma seek_ok: "string_stream_seek offset t s = (b, s') \<Longrightarrow> stream_ok s' \<and> stream_string s' = stream_string s"
  by (auto simp: string_stream_seek_def stream_ok_def Let_def split: if_splits)

lemma seek_inside:
  assumes "stream_ok s" and "n \<le> length (rest s)"
  shows "string_stream_seek (int n) StreamOffsetFromCurrent s = (True, s\<lparr>stream_index := stream_index s + n\<rparr>)"
proof -
  have n: "nat (int (stream_index s) + int n) = stream_index s + n" by (simp flip: of_nat_add)
  show ?thesis using assms by (simp add: string_stream_seek_def n stream_ok_def rest_def)
qed

lemma seek_outside:
  assumes "stream_ok s" and "length (rest s) < n"
  shows "string_stream_seek (int n) StreamOffsetFromCurrent s = (False, s\<lparr>stream_index := length (stream_string s)\<rparr>)"
proof -
  have n: "nat (int (stream_index s) + int n) = stream_index s + n" by (simp flip: of_nat_add)
  show ?thesis using assms by (simp add: string_stream_seek_def n stream_ok_def rest_def)
qed

lemma seek_back:
  assumes "stream_ok s" and "i + n \<le> stream_index s"
  shows "string_stream_seek (int i - int (i + n)) StreamOffsetFromCurrent s = (True, s\<lparr>stream_index := stream_index s - n\<rparr>)"
proof -
  have n: "int (stream_index s) + (int i - int (i + n)) = int (stream_index s - n)" using assms(2) by simp
  have m: "\<not> length (stream_string s) < stream_index s - n" using assms by (simp add: stream_ok_def)
  show ?thesis unfolding string_stream_seek_def StreamOffset.case Let_def n using m by simp
qed

lemma seek_start: "string_stream_seek (int i) StreamOffsetFromStart s =
    (if i \<le> length (stream_string s) then (True, s\<lparr>stream_index := i\<rparr>) else (False, s\<lparr>stream_index := length (stream_string s)\<rparr>))"
  by (simp add: string_stream_seek_def)

lemma seek_end: "string_stream_seek 0 StreamOffsetFromEnd s = (True, s\<lparr>stream_index := length (stream_string s)\<rparr>)"
  by (simp add: string_stream_seek_def)

lemma eof_rest: "string_stream_eof s \<longleftrightarrow> rest s = []"
  by (simp add: string_stream_eof_def string_stream_tell_def string_stream_size_def rest_def)

lemma read_chars_take:
  assumes "stream_index s < length (stream_string s)"
  shows "read_chars n s = (take n (rest s), s\<lparr>stream_index := stream_index s + min n (length (rest s))\<rparr>)"
  using assms
proof (induction n arbitrary: s)
  case (Suc n)
  let ?s1 = "s\<lparr>stream_index := stream_index s + 1\<rparr>"
  have "string_stream_seek (int 1) StreamOffsetFromCurrent s = (True, ?s1)"
    by (rule seek_inside) (use Suc.prems in \<open>simp_all add: stream_ok_def rest_def\<close>)
  then have s1: "snd (string_stream_seek 1 StreamOffsetFromCurrent s) = ?s1" by simp
  have r: "rest s = stream_string s ! stream_index s # rest ?s1" using Suc.prems by (simp add: rest_def Cons_nth_drop_Suc)
  show ?case
  proof (cases "string_stream_eof ?s1")
    case True
    then have "rest ?s1 = []" by (simp add: eof_rest)
    then show ?thesis using True by (simp add: s1 r Let_def)
  next
    case False
    then have "stream_index ?s1 < length (stream_string ?s1)" by (simp add: string_stream_eof_def string_stream_tell_def string_stream_size_def)
    from Suc.IH [OF this] show ?thesis using False by (simp add: s1 r Let_def)
  qed
qed simp

lemma read_take:
  "string_stream_read n s = (take n (rest s), s\<lparr>stream_index := stream_index s + min n (length (rest s))\<rparr>)"
proof (cases "string_stream_eof s")
  case True
  then show ?thesis by (simp add: string_stream_read_def eof_rest)
next
  case False
  then have "stream_index s < length (stream_string s)" by (simp add: string_stream_eof_def string_stream_tell_def string_stream_size_def)
  then show ?thesis using False by (simp add: string_stream_read_def read_chars_take)
qed

lemma write_chars: "stream_ok s \<Longrightarrow> fold string_stream_write_char data s =
    s\<lparr>stream_string := take (stream_index s) (stream_string s) @ data @ drop (stream_index s + length data) (stream_string s),
      stream_index := stream_index s + length data\<rparr>"
proof (induction data arbitrary: s)
  case (Cons c data)
  let ?s1 = "string_stream_write_char c s" and ?str = "stream_string s" and ?i = "stream_index s"
  have s1: "?s1 = s\<lparr>stream_string := take ?i ?str @ [c] @ drop (Suc ?i) ?str, stream_index := Suc ?i\<rparr>"
  proof (cases "?i = length ?str")
    case True
    then show ?thesis by (simp add: string_stream_write_char_def eof_rest rest_def Let_def)
  next
    case False
    then have "?i < length ?str" using Cons.prems by (simp add: stream_ok_def)
    then show ?thesis by (simp add: string_stream_write_char_def eof_rest rest_def Let_def upd_conv_take_nth_drop)
  qed
  have "stream_ok ?s1" using Cons.prems by (simp add: s1 stream_ok_def)
  from Cons.IH [OF this] show ?case using Cons.prems by (simp add: s1 stream_ok_def add.commute)
qed (simp add: stream_ok_def)

lemma write_spec: "stream_ok s \<Longrightarrow> string_stream_write data s = (length data,
    s\<lparr>stream_string := take (stream_index s) (stream_string s) @ data @ drop (stream_index s + length data) (stream_string s),
      stream_index := stream_index s + length data\<rparr>)"
  by (simp add: string_stream_write_def write_chars)

text \<open>At the end of the stream writing appends.\<close>

definition at_end :: "string \<Rightarrow> StringStream" where
  "at_end str = \<lparr>stream_string = str, stream_index = length str\<rparr>"

lemma at_end_ok [simp]: "stream_ok (at_end str)" "stream_string (at_end str) = str" "stream_index (at_end str) = length str"
  by (simp_all add: at_end_def stream_ok_def)

lemma write_at_end: "string_stream_write data (at_end str) = (length data, at_end (str @ data))"
  by (subst write_spec) (simp_all add: at_end_def stream_ok_def)


text \<open>A block read from the stream, and going back into it.\<close>

definition advance :: "nat \<Rightarrow> StringStream \<Rightarrow> StringStream" where
  "advance n s = s\<lparr>stream_index := stream_index s + n\<rparr>"

lemma advance_simps [simp]: "stream_string (advance n s) = stream_string s" "stream_index (advance n s) = stream_index s + n"
  "advance m (advance n s) = advance (n + m) s" "advance 0 s = s" "rest (advance n s) = drop n (rest s)"
  by (simp_all add: advance_def rest_def add.commute)

lemma advance_ok [simp]: "stream_ok s \<Longrightarrow> stream_ok (advance n s) \<longleftrightarrow> n \<le> length (rest s)"
  by (auto simp: stream_ok_def rest_def)

lemma read_block: "string_stream_read n s = (take n (rest s), advance (min (length (rest s)) n) s)"
  by (simp add: read_take advance_def min.commute)

lemma seek_forward: "stream_ok s \<Longrightarrow> string_stream_seek (int n) StreamOffsetFromCurrent s =
    (if n \<le> length (rest s) then (True, advance n s) else (False, advance (length (rest s)) s))"
  using seek_inside [of s n] seek_outside [of s n] by (simp add: advance_def stream_ok_def rest_def)

lemma seek_into_block:
  assumes "stream_ok s" and "i \<le> min (length (rest s)) n"
  shows "string_stream_seek (int i - int (min (length (rest s)) n)) StreamOffsetFromCurrent (advance (min (length (rest s)) n) s) =
    (True, advance i s)"
proof -
  let ?m = "min (length (rest s)) n"
  have "string_stream_seek (int i - int (i + (?m - i))) StreamOffsetFromCurrent (advance ?m s) =
      (True, advance ?m s\<lparr>stream_index := stream_index (advance ?m s) - (?m - i)\<rparr>)"
    by (rule seek_back) (use assms in \<open>auto simp: stream_ok_def rest_def\<close>)
  moreover have "i + (?m - i) = ?m" "stream_index (advance ?m s) - (?m - i) = stream_index s + i" using assms(2) by simp_all
  ultimately show ?thesis by (simp add: advance_def)
qed

section \<open>Helpers on streams\<close>

datatype StreamDirection = StreamDirectionForward | StreamDirectionBackward

definition STREAM_BUFFER_SIZE :: nat where "STREAM_BUFFER_SIZE = 32"
definition STREAM_CACHE_SIZE :: nat where "STREAM_CACHE_SIZE = 512"

fun find_char :: "char \<Rightarrow> string \<Rightarrow> nat option" where
  "find_char c [] = None"
| "find_char c (b # buffer) = (if b = c then Some 0 else map_option Suc (find_char c buffer))"

function seek_forward_loop :: "char \<Rightarrow> StringStream \<Rightarrow> bool \<times> StringStream" where
  "seek_forward_loop c s =
     (let (buffer, s1) = string_stream_read STREAM_BUFFER_SIZE s; ret = length buffer
      in case find_char c buffer of
           Some i \<Rightarrow> (True, snd (string_stream_seek (int i - int ret) StreamOffsetFromCurrent s1))
         | None \<Rightarrow> if ret \<noteq> STREAM_BUFFER_SIZE then (False, s1) else seek_forward_loop c s1)"
  by pat_completeness auto

termination
  by (relation "measure (\<lambda>(c, s). length (rest s))") (auto simp: read_block STREAM_BUFFER_SIZE_def)

definition stream_seek_to_char_forward :: "char \<Rightarrow> StringStream \<Rightarrow> bool \<times> StringStream" where
  "stream_seek_to_char_forward c s =
     (let (ok, s1) = string_stream_seek 1 StreamOffsetFromCurrent s
      in if \<not> ok then (False, s1) else seek_forward_loop c s1)"

function seek_backward_loop :: "char \<Rightarrow> nat \<Rightarrow> StringStream \<Rightarrow> fault + bool \<times> StringStream" where
  "seek_backward_loop c anchor s =
     (let to_read = (if STREAM_BUFFER_SIZE > anchor then anchor else STREAM_BUFFER_SIZE);
          anchor1 = anchor - to_read;
          (ok, s1) = string_stream_seek (int anchor1) StreamOffsetFromStart s
      in if \<not> ok then Inl FuriCheck
         else let (buffer, s2) = string_stream_read to_read s1; ret = length buffer
           in case find_char c (rev buffer) of
                Some i \<Rightarrow>
                  let (ok2, s3) = string_stream_seek (int (anchor1 + (ret - i - 1))) StreamOffsetFromStart s2
                  in if ok2 then Inr (True, s3) else Inl FuriCheck
              | None \<Rightarrow> if ret \<noteq> STREAM_BUFFER_SIZE then Inr (False, s2) else seek_backward_loop c anchor1 s2)"
  by pat_completeness auto

termination
  by (relation "measure (\<lambda>(c, anchor, s). anchor)") (auto simp: read_block STREAM_BUFFER_SIZE_def split: if_splits)

definition stream_seek_to_char_backward :: "char \<Rightarrow> StringStream \<Rightarrow> fault + bool \<times> StringStream" where
  "stream_seek_to_char_backward c s =
     (if string_stream_tell s = 0 then Inr (False, s) else seek_backward_loop c (string_stream_tell s) s)"

definition stream_seek_to_char :: "char \<Rightarrow> StreamDirection \<Rightarrow> StringStream \<Rightarrow> fault + bool \<times> StringStream" where
  "stream_seek_to_char c direction s =
     bind_r (case direction of StreamDirectionForward \<Rightarrow> Inr (stream_seek_to_char_forward c s)
         | StreamDirectionBackward \<Rightarrow> stream_seek_to_char_backward c s) (\<lambda>(result, s1).
       Inr (result, if result then s1 else snd (string_stream_seek (int (string_stream_tell s)) StreamOffsetFromStart s1)))"

text \<open>The characters of a block up to the end of a line, without carriage returns, and where the line ends.\<close>

fun line_chars :: "string \<Rightarrow> string \<times> nat option" where
  "line_chars [] = ([], None)"
| "line_chars (c # buffer) =
     (if c = CHR 0x0A then ([], Some 0)
      else let (cs, eol) = line_chars buffer in (if c = CHR 0x0D then cs else c # cs, map_option Suc eol))"

function stream_read_line_loop :: "string \<Rightarrow> StringStream \<Rightarrow> string \<times> StringStream" where
  "stream_read_line_loop str s =
     (let (buffer, s1) = string_stream_read STREAM_BUFFER_SIZE s
      in if buffer = [] then (str, s1)
         else case line_chars buffer of
             (cs, Some i) \<Rightarrow>
               let (ok, s2) = string_stream_seek (int i - int (length buffer) + 1) StreamOffsetFromCurrent s1
               in (if ok then str @ cs @ [CHR 0x0A] else str @ cs, s2)
           | (cs, None) \<Rightarrow> stream_read_line_loop (str @ cs) s1)"
  by pat_completeness auto

termination
  by (relation "measure (\<lambda>(str, s). length (rest s))") (auto simp: read_block STREAM_BUFFER_SIZE_def)

definition stream_read_line :: "StringStream \<Rightarrow> bool \<times> string \<times> StringStream" where
  "stream_read_line s = (let (str, s1) = stream_read_line_loop [] s in (str \<noteq> [], str, s1))"

definition stream_rewind :: "StringStream \<Rightarrow> bool \<times> StringStream" where
  "stream_rewind s = string_stream_seek 0 StreamOffsetFromStart s"

definition stream_write_struct :: "string \<Rightarrow> StringStream \<Rightarrow> bool \<times> StringStream" where
  "stream_write_struct data s = (let (written, s1) = string_stream_write data s in (written = length data, s1))"

definition stream_insert :: "string \<Rightarrow> StringStream \<Rightarrow> bool \<times> StringStream" where
  "stream_insert data s = string_stream_delete_and_insert 0 (Some (stream_write_struct data)) s"

definition stream_delete_and_insert_char :: "nat \<Rightarrow> char \<Rightarrow> StringStream \<Rightarrow> bool \<times> StringStream" where
  "stream_delete_and_insert_char n c s = string_stream_delete_and_insert n (Some (stream_write_struct [c])) s"

definition stream_delete_and_insert_string :: "nat \<Rightarrow> string \<Rightarrow> StringStream \<Rightarrow> bool \<times> StringStream" where
  "stream_delete_and_insert_string n str s = string_stream_delete_and_insert n (Some (stream_write_struct str)) s"

definition stream_delete :: "nat \<Rightarrow> StringStream \<Rightarrow> bool \<times> StringStream" where
  "stream_delete n s = string_stream_delete_and_insert n None s"

function stream_copy_loop :: "nat \<Rightarrow> nat \<Rightarrow> StringStream \<times> StringStream \<Rightarrow> nat \<times> StringStream \<times> StringStream" where
  "stream_copy_loop copied n (from, to) =
     (let bytes_count = min STREAM_CACHE_SIZE (n - copied)
      in if bytes_count = 0 then (copied, from, to)
         else let (buffer, from1) = string_stream_read bytes_count from
           in if length buffer \<noteq> bytes_count then (copied, from1, to)
              else let (written, to1) = string_stream_write buffer to
                in if written \<noteq> bytes_count then (copied, from1, to1) else stream_copy_loop (copied + bytes_count) n (from1, to1))"
  by pat_completeness auto

termination
  by (relation "measure (\<lambda>(copied, n, ss). n - copied)") (auto simp: STREAM_CACHE_SIZE_def)

definition stream_copy :: "nat \<Rightarrow> StringStream \<times> StringStream \<Rightarrow> nat \<times> StringStream \<times> StringStream" where
  "stream_copy n ss = stream_copy_loop 0 n ss"

definition stream_copy_full :: "StringStream \<times> StringStream \<Rightarrow> nat \<times> StringStream \<times> StringStream" where
  "stream_copy_full = (\<lambda>(from, to).
     let (ok, from1) = string_stream_seek 0 StreamOffsetFromStart from
     in if \<not> ok then (0, from1, to)
        else let (ok2, to1) = string_stream_seek 0 StreamOffsetFromStart to
          in if \<not> ok2 then (0, from1, to1) else stream_copy (string_stream_size from1) (from1, to1))"

definition stream_split :: "StringStream \<times> StringStream \<times> StringStream \<Rightarrow> bool \<times> StringStream \<times> StringStream \<times> StringStream" where
  "stream_split = (\<lambda>(s, left, right).
     let n = string_stream_size s; tell = string_stream_tell s;
         (copied, s1, right1) = stream_copy (n - tell) (s, right)
     in if copied \<noteq> n - tell then (False, s1, left, right1)
        else let (ok, s2) = stream_rewind s1
          in if \<not> ok then (False, s2, left, right1)
             else let (copied2, s3, left1) = stream_copy tell (s2, left)
               in if copied2 \<noteq> tell then (False, s3, left1, right1)
                  else let (ok2, s4) = string_stream_seek (int tell) StreamOffsetFromStart s3
                    in (ok2, s4, left1, right1))"


declare seek_forward_loop.simps [simp del] seek_backward_loop.simps [simp del] stream_read_line_loop.simps [simp del]
  stream_copy_loop.simps [simp del]

section \<open>The nearest character\<close>

lemma find_char_append: "find_char c (xs @ ys) =
    (case find_char c xs of Some i \<Rightarrow> Some i | None \<Rightarrow> map_option ((+) (length xs)) (find_char c ys))"
proof (induction xs)
  case Nil
  then show ?case by (cases "find_char c ys") simp_all
next
  case (Cons x xs)
  then show ?case by (cases "find_char c ys") (auto split: option.splits)
qed

lemma find_char_Some: "find_char c xs = Some i \<longleftrightarrow> i < length xs \<and> xs ! i = c \<and> (\<forall>j < i. xs ! j \<noteq> c)"
proof (induction xs arbitrary: i)
  case (Cons x xs)
  show ?case
  proof (cases i)
    case (Suc k)
    then show ?thesis using Cons.IH [of k] by (auto simp: All_less_Suc2)
  qed auto
qed simp

lemma find_char_None: "find_char c xs = None \<longleftrightarrow> c \<notin> set xs"
  by (induction xs) auto

lemma forward_loop_finds: "stream_ok s \<Longrightarrow> seek_forward_loop c s =
    (case find_char c (rest s) of Some i \<Rightarrow> (True, advance i s) | None \<Rightarrow> (False, advance (length (rest s)) s))"
proof (induction c s rule: seek_forward_loop.induct)
  case (1 c s)
  let ?t = "rest s" and ?m = "min (length (rest s)) STREAM_BUFFER_SIZE"
  have t: "?t = take STREAM_BUFFER_SIZE ?t @ drop STREAM_BUFFER_SIZE ?t" by simp
  have m: "length (take STREAM_BUFFER_SIZE ?t) = ?m" by simp
  show ?case
  proof (cases "find_char c (take STREAM_BUFFER_SIZE ?t)")
    case (Some i)
    then have i: "i < ?m" by (auto simp: find_char_Some)
    have "string_stream_seek (int i - int ?m) StreamOffsetFromCurrent (advance ?m s) = (True, advance i s)"
      by (rule seek_into_block [OF 1(2)]) (use i in simp)
    moreover have "find_char c ?t = Some i" using Some by (subst t, subst find_char_append) simp
    ultimately show ?thesis using Some by (simp add: seek_forward_loop.simps [of c s] read_block m)
  next
    case None
    then have f: "find_char c ?t = map_option ((+) ?m) (find_char c (drop STREAM_BUFFER_SIZE ?t))"
      by (subst t, subst find_char_append) (simp add: m)
    show ?thesis
    proof (cases "?m = STREAM_BUFFER_SIZE")
      case False
      then have "drop STREAM_BUFFER_SIZE ?t = []" "?m = length ?t" "length ?t \<noteq> STREAM_BUFFER_SIZE" by (auto simp: min_def split: if_splits)
      then show ?thesis using None f False by (simp add: seek_forward_loop.simps [of c s] read_block m)
    next
      case True
      have "seek_forward_loop c (advance ?m s) = (case find_char c (rest (advance ?m s)) of Some i \<Rightarrow> (True, advance i (advance ?m s))
          | None \<Rightarrow> (False, advance (length (rest (advance ?m s))) (advance ?m s)))"
        by (rule 1(1) [OF read_block [symmetric, unfolded] _ _ _]) (use None True 1(2) m in \<open>simp_all add: read_block\<close>)
      moreover have "?m \<le> length ?t" by simp
      ultimately show ?thesis
        using None f True by (simp add: seek_forward_loop.simps [of c s] read_block m split: option.splits)
    qed
  qed
qed


lemma backward_loop_finds:
  assumes "anchor \<le> length (stream_string s)"
  shows "\<exists>s'. seek_backward_loop c anchor s =
    Inr (case find_char c (rev (take anchor (stream_string s))) of
      Some i \<Rightarrow> (True, s\<lparr>stream_index := anchor - i - 1\<rparr>) | None \<Rightarrow> (False, s')) \<and> stream_string s' = stream_string s"
  using assms
proof (induction c anchor s rule: seek_backward_loop.induct)
  case (1 c anchor s)
  let ?str = "stream_string s"
  define n where "n = (if STREAM_BUFFER_SIZE > anchor then anchor else STREAM_BUFFER_SIZE)"
  define a where "a = anchor - n"
  have n: "a + n = anchor" "n \<le> STREAM_BUFFER_SIZE" by (auto simp: a_def n_def)
  let ?s1 = "s\<lparr>stream_index := a\<rparr>"
  define buffer where "buffer = take n (drop a ?str)"
  have len: "length buffer = n" using n 1(2) by (simp add: buffer_def)
  have seek: "string_stream_seek (int a) StreamOffsetFromStart s = (True, ?s1)" using n 1(2) by (simp add: seek_start)
  have read: "string_stream_read n ?s1 = (buffer, advance n ?s1)"
    using n 1(2) by (simp add: read_block buffer_def rest_def)
  have "take anchor ?str = take a ?str @ buffer" by (simp add: buffer_def take_add flip: n(1))
  then have f: "find_char c (rev (take anchor ?str)) = (case find_char c (rev buffer) of Some i \<Rightarrow> Some i
      | None \<Rightarrow> map_option ((+) n) (find_char c (rev (take a ?str))))"
    by (simp add: find_char_append len split: option.split)
  have unfold: "seek_backward_loop c anchor s =
      (case find_char c (rev buffer) of
         Some i \<Rightarrow> let (ok2, s3) = string_stream_seek (int (a + (n - i - 1))) StreamOffsetFromStart (advance n ?s1)
           in if ok2 then Inr (True, s3) else Inl FuriCheck
       | None \<Rightarrow> if n \<noteq> STREAM_BUFFER_SIZE then Inr (False, advance n ?s1) else seek_backward_loop c a (advance n ?s1))"
    by (subst seek_backward_loop.simps, simp only: n_def [symmetric] Let_def, simp only: a_def [symmetric] seek read split len
        if_False not_True_eq_False)
  show ?case
  proof (cases "find_char c (rev buffer)")
    case (Some i)
    then have i: "i < n" using len by (auto simp: find_char_Some)
    have p: "a + (n - i - 1) = anchor - i - 1" using i n(1) by simp
    have "string_stream_seek (int (a + (n - i - 1))) StreamOffsetFromStart (advance n ?s1) = (True, s\<lparr>stream_index := anchor - i - 1\<rparr>)"
      unfolding p by (subst seek_start) (use 1(2) in \<open>simp add: advance_def\<close>)
    then show ?thesis
      unfolding unfold using Some f by (intro exI [of _ s]) (simp del: of_nat_add of_nat_diff)
  next
    case None
    show ?thesis
    proof (cases "n = STREAM_BUFFER_SIZE")
      case False
      then have "a = 0" by (auto simp: a_def n_def)
      then have "find_char c (rev (take anchor ?str)) = None" using None f by simp
      then show ?thesis unfolding unfold using None False by simp
    next
      case True
      have "\<exists>s'. seek_backward_loop c a (advance n ?s1) =
          Inr (case find_char c (rev (take a (stream_string (advance n ?s1)))) of
            Some i \<Rightarrow> (True, (advance n ?s1)\<lparr>stream_index := a - i - 1\<rparr>) | None \<Rightarrow> (False, s')) \<and> stream_string s' = stream_string (advance n ?s1)"
        by (rule 1(1) [OF n_def a_def refl seek [symmetric] _ refl read [symmetric] refl None])
          (use True n 1(2) in \<open>auto simp: len\<close>)
      then obtain s' where "seek_backward_loop c a (advance n ?s1) =
          Inr (case find_char c (rev (take a ?str)) of Some i \<Rightarrow> (True, s\<lparr>stream_index := a - i - 1\<rparr>) | None \<Rightarrow> (False, s'))"
          "stream_string s' = ?str"
        by (simp add: advance_def cong: option.case_cong) blast
      moreover have "anchor - (n + i) - 1 = a - i - 1" for i using n(1) by simp
      ultimately show ?thesis unfolding unfold using None f True
        by (intro exI [of _ s']) (simp split: option.splits)
    qed
  qed
qed


text \<open>The character sought is the nearest one before or behind the index, not at it; when there is none, the stream
  is as it was. No check of the search ever fails.\<close>

theorem seek_to_char_nearest:
  assumes "stream_ok s"
  shows "\<exists>b s'. stream_seek_to_char c direction s = Inr (b, s') \<and> stream_string s' = stream_string s \<and>
    (let str = stream_string s; i = stream_index s; j = stream_index s'
     in if b then (case direction of
            StreamDirectionForward \<Rightarrow> i < j \<and> j < length str \<and> str ! j = c \<and> (\<forall>k. i < k \<and> k < j \<longrightarrow> str ! k \<noteq> c)
          | StreamDirectionBackward \<Rightarrow> j < i \<and> str ! j = c \<and> (\<forall>k. j < k \<and> k < i \<longrightarrow> str ! k \<noteq> c))
        else s' = s \<and> (case direction of
            StreamDirectionForward \<Rightarrow> \<forall>k. i < k \<and> k < length str \<longrightarrow> str ! k \<noteq> c
          | StreamDirectionBackward \<Rightarrow> \<forall>k < i. str ! k \<noteq> c))"
proof -
  let ?str = "stream_string s" and ?i = "stream_index s"
  have rollback: "snd (string_stream_seek (int ?i) StreamOffsetFromStart s1) = s" if "stream_string s1 = ?str" for s1
    using assms that by (simp add: seek_start stream_ok_def)
  show ?thesis
  proof (cases direction)
    case StreamDirectionForward
    show ?thesis
    proof (cases "rest s = []")
      case True
      then have "length ?str \<le> ?i" by (simp add: rest_def)
      moreover have "stream_seek_to_char_forward c s = (False, s)"
        using seek_forward [OF assms, of 1] True by (simp add: stream_seek_to_char_forward_def)
      ultimately show ?thesis
        by (intro exI [of _ False] exI [of _ s]) (auto simp: stream_seek_to_char_def Let_def StreamDirectionForward rollback string_stream_tell_def)
    next
      case False
      then have 1: "1 \<le> length (rest s)" by (cases "rest s") auto
      have sub: "\<And>k. k < length (rest s) - 1 \<Longrightarrow> tl (rest s) ! k = ?str ! (?i + 1 + k)"
        by (simp add: rest_def nth_tl)
      have len: "length (rest s) = length ?str - ?i" by (simp add: rest_def)
      have run: "stream_seek_to_char_forward c s = (case find_char c (tl (rest s)) of
          Some j \<Rightarrow> (True, advance (1 + j) s) | None \<Rightarrow> (False, advance (length (rest s)) s))"
        using seek_forward [OF assms, of 1] 1 forward_loop_finds [of "advance 1 s" c] assms
        by (simp add: stream_seek_to_char_forward_def drop_Suc split: option.splits)
      show ?thesis
      proof (cases "find_char c (tl (rest s))")
        case None
        have "?str ! k \<noteq> c" if "?i < k" "k < length ?str" for k
        proof -
          have "tl (rest s) ! (k - ?i - 1) = ?str ! k" using that by (subst sub) (simp_all add: len)
          moreover have "tl (rest s) ! (k - ?i - 1) \<in> set (tl (rest s))" using that by (intro nth_mem) (simp add: len)
          ultimately show ?thesis using None by (auto simp: find_char_None)
        qed
        then show ?thesis
          by (intro exI [of _ False] exI [of _ s])
            (simp add: stream_seek_to_char_def Let_def StreamDirectionForward run None rollback string_stream_tell_def)
      next
        case (Some j)
        then have j: "j < length (rest s) - 1" "tl (rest s) ! j = c" "\<forall>k < j. tl (rest s) ! k \<noteq> c"
          by (simp_all add: find_char_Some)
        have "?str ! k \<noteq> c" if "?i < k" "k < ?i + Suc j" for k
        proof -
          have "k - ?i - 1 < j" using that by simp
          then have "tl (rest s) ! (k - ?i - 1) \<noteq> c" using j(3) by blast
          then show ?thesis using that j(1) by (subst (asm) sub) (simp_all add: len)
        qed
        moreover have "?str ! (?i + Suc j) = c" using j sub [OF j(1)] by simp
        ultimately show ?thesis using j(1)
          by (intro exI [of _ True] exI [of _ "advance (1 + j) s"])
            (simp add: stream_seek_to_char_def Let_def StreamDirectionForward run Some len)
      qed
    qed
  next
    case StreamDirectionBackward
    have nth: "rev (take ?i ?str) ! k = ?str ! (?i - k - 1)" if "k < ?i" for k
      using that assms by (simp add: rev_nth stream_ok_def)
    have len: "length (take ?i ?str) = ?i" using assms by (simp add: stream_ok_def)
    obtain s' where run: "stream_seek_to_char_backward c s = Inr (case find_char c (rev (take ?i ?str)) of
        Some j \<Rightarrow> (True, s\<lparr>stream_index := ?i - j - 1\<rparr>) | None \<Rightarrow> (False, s'))" "stream_string s' = ?str"
    proof (cases "?i = 0")
      case True
      then have "stream_seek_to_char_backward c s = Inr (case find_char c (rev (take ?i ?str)) of
        Some j \<Rightarrow> (True, s\<lparr>stream_index := ?i - j - 1\<rparr>) | None \<Rightarrow> (False, s))"
        by (simp add: stream_seek_to_char_backward_def string_stream_tell_def)
      then show thesis using that by blast
    next
      case False
      show thesis
        using backward_loop_finds [of ?i s c] assms False that
        by (auto simp: stream_seek_to_char_backward_def string_stream_tell_def stream_ok_def)
    qed
    show ?thesis
    proof (cases "find_char c (rev (take ?i ?str))")
      case None
      have "?str ! k \<noteq> c" if "k < ?i" for k
      proof -
        have "take ?i ?str ! k \<in> set (take ?i ?str)" using that len by (intro nth_mem) simp
        then show ?thesis using None that by (auto simp: find_char_None)
      qed
      then show ?thesis
        by (intro exI [of _ False] exI [of _ s])
          (simp add: stream_seek_to_char_def Let_def StreamDirectionBackward run None rollback string_stream_tell_def)
    next
      case (Some j)
      then have j: "j < ?i" "rev (take ?i ?str) ! j = c" "\<forall>k < j. rev (take ?i ?str) ! k \<noteq> c"
        using len by (simp_all add: find_char_Some)
      have "?str ! k \<noteq> c" if "?i - j - 1 < k" "k < ?i" for k
      proof -
        have "?i - k - 1 < j" using that by simp
        then have "rev (take ?i ?str) ! (?i - k - 1) \<noteq> c" using j(3) by blast
        moreover have "?i - (?i - k - 1) - 1 = k" using that by simp
        ultimately show ?thesis using nth [of "?i - k - 1"] that by simp
      qed
      moreover have "?str ! (?i - j - 1) = c" using nth [OF j(1)] j(2) by simp
      ultimately show ?thesis using j(1)
        by (intro exI [of _ True] exI [of _ "s\<lparr>stream_index := ?i - j - 1\<rparr>"])
          (simp add: stream_seek_to_char_def Let_def StreamDirectionBackward run Some)
    qed
  qed
qed


section \<open>Lines\<close>

abbreviation line_of :: "string \<Rightarrow> string" where
  "line_of t \<equiv> takeWhile (\<lambda>c. c \<noteq> CHR 0x0A) t"

abbreviation no_returns :: "string \<Rightarrow> string" where
  "no_returns t \<equiv> filter (\<lambda>c. c \<noteq> CHR 0x0D) t"

lemma line_chars_line: "line_chars t = (no_returns (line_of t), if length (line_of t) < length t then Some (length (line_of t)) else None)"
  by (induction t) (auto simp: Let_def)

lemma line_of_append: "line_of (xs @ ys) = (if length (line_of xs) < length xs then line_of xs else xs @ line_of ys)"
  by (induction xs) auto

lemma line_of_le: "length (line_of t) \<le> length t"
  by (rule length_takeWhile_le)

lemma line_of_short: "length (line_of t) < length t \<longleftrightarrow> CHR 0x0A \<in> set t"
  by (induction t) auto

lemma line_of_all: "CHR 0x0A \<notin> set t \<Longrightarrow> line_of t = t"
  by (simp add: takeWhile_eq_all_conv) metis

lemma read_line_loop: "stream_ok s \<Longrightarrow> stream_read_line_loop str s =
    (str @ no_returns (line_of (rest s)) @ (if length (line_of (rest s)) < length (rest s) then [CHR 0x0A] else []),
     advance (min (length (rest s)) (length (line_of (rest s)) + 1)) s)"
proof (induction "length (rest s)" arbitrary: str s rule: less_induct)
  case less
  let ?t = "rest s" and ?m = "min (length (rest s)) STREAM_BUFFER_SIZE"
  define b where "b = take STREAM_BUFFER_SIZE ?t"
  define t' where "t' = drop STREAM_BUFFER_SIZE ?t"
  have t: "?t = b @ t'" by (simp add: b_def t'_def)
  have m: "length b = ?m" by (simp add: b_def)
  have unfold: "stream_read_line_loop str s = (if b = [] then (str, advance ?m s)
      else case line_chars b of
          (cs, Some i) \<Rightarrow>
            let (ok, s2) = string_stream_seek (int i - int ?m + 1) StreamOffsetFromCurrent (advance ?m s)
            in (if ok then str @ cs @ [CHR 0x0A] else str @ cs, s2)
        | (cs, None) \<Rightarrow> stream_read_line_loop (str @ cs) (advance ?m s))"
    by (subst stream_read_line_loop.simps) (simp only: read_block b_def [symmetric] split Let_def m)
  show ?case
  proof (cases "b = []")
    case True
    then have "?t = []" by (auto simp: b_def STREAM_BUFFER_SIZE_def)
    then show ?thesis by (simp add: unfold True)
  next
    case b: False
    show ?thesis
    proof (cases "length (line_of b) < length b")
      case True
      then have l: "line_of ?t = line_of b" by (simp add: t line_of_append)
      have lt: "length (line_of b) + 1 \<le> ?m" using True m by linarith
      have i: "int (length (line_of b)) - int ?m + 1 = int (length (line_of b) + 1) - int ?m" by simp
      have "string_stream_seek (int (length (line_of b) + 1) - int ?m) StreamOffsetFromCurrent (advance ?m s) =
          (True, advance (length (line_of b) + 1) s)"
        by (rule seek_into_block [OF less.prems lt])
      moreover have "min (length ?t) (length (line_of b) + 1) = length (line_of b) + 1" "length (line_of b) < length ?t"
        using lt by simp_all
      ultimately show ?thesis unfolding unfold l using b True by (simp add: line_chars_line i del: of_nat_add)
    next
      case False
      then have lb: "line_of b = b" by (intro line_of_all) (simp add: line_of_short)
      then have l: "line_of ?t = b @ line_of t'" "no_returns (line_of b) = no_returns b" "line_of b = b"
        using False by (simp_all only: t line_of_append if_False lb)
      have r: "rest (advance ?m s) = t'" by (cases "length ?t \<le> STREAM_BUFFER_SIZE") (simp_all add: t'_def)
      have ok: "stream_ok (advance ?m s)" using less.prems by simp
      have "stream_read_line_loop (str @ no_returns b) (advance ?m s) = ((str @ no_returns b) @ no_returns (line_of t') @
          (if length (line_of t') < length t' then [CHR 0x0A] else []),
          advance (min (length t') (length (line_of t') + 1)) (advance ?m s))"
        using less.hyps [OF _ ok, of "str @ no_returns b", unfolded r] b by (simp add: t)
      moreover have "?m + min (length t') (length (line_of t') + 1) = min (length ?t) (length (line_of ?t) + 1)"
        using m l(1) by (simp add: t)
      moreover have "length (line_of t') < length t' \<longleftrightarrow> length (line_of ?t) < length ?t"
        using l(1) by (simp add: t)
      ultimately show ?thesis unfolding unfold using b l(1) False by (simp add: line_chars_line lb)
    qed
  qed
qed

lemma read_line_spec: "stream_ok s \<Longrightarrow> stream_read_line s =
    (let t = rest s; text = no_returns (line_of t) @ (if length (line_of t) < length t then [CHR 0x0A] else [])
     in (text \<noteq> [], text, advance (min (length t) (length (line_of t) + 1)) s))"
  by (simp add: stream_read_line_def read_line_loop Let_def)

section \<open>Copies\<close>

lemma copy_loop: "stream_ok from \<Longrightarrow> copied \<le> n \<Longrightarrow> n - copied \<le> length (rest from) \<Longrightarrow>
    stream_copy_loop copied n (from, at_end str) = (n, advance (n - copied) from, at_end (str @ take (n - copied) (rest from)))"
proof (induction "n - copied" arbitrary: copied "from" str rule: less_induct)
  case less
  let ?k = "min STREAM_CACHE_SIZE (n - copied)"
  show ?case
  proof (cases "?k = 0")
    case True
    then have "n = copied" using less.prems(2) by (simp add: STREAM_CACHE_SIZE_def split: if_splits)
    then show ?thesis by (simp add: stream_copy_loop.simps)
  next
    case False
    have len: "min (length (rest from)) ?k = ?k" using less.prems(3) by simp
    have "stream_copy_loop copied n (from, at_end str) =
        stream_copy_loop (copied + ?k) n (advance ?k from, at_end (str @ take ?k (rest from)))"
      by (subst stream_copy_loop.simps) (simp only: read_block write_at_end Let_def split len False if_False length_take
          not_True_eq_False simp_thms)
    also have "\<dots> = (n, advance (n - (copied + ?k)) (advance ?k from),
        at_end ((str @ take ?k (rest from)) @ take (n - (copied + ?k)) (rest (advance ?k from))))"
      by (rule less.hyps) (use less.prems False in \<open>auto simp: advance_ok\<close>)
    also have "\<dots> = (n, advance (n - copied) from, at_end (str @ take (n - copied) (rest from)))"
    proof -
      have k: "?k + (n - (copied + ?k)) = n - copied" by simp
      moreover have "take ?k (rest from) @ take (n - (copied + ?k)) (drop ?k (rest from)) = take (n - copied) (rest from)"
        unfolding take_add [symmetric] k ..
      ultimately show ?thesis by simp
    qed
    finally show ?thesis .
  qed
qed

text \<open>Splitting copies the part before the index to one stream and the rest to the other, and leaves the stream as it was.\<close>

theorem stream_split_parts:
  assumes "stream_ok s"
  shows "stream_split (s, at_end left, at_end right) =
    (True, s, at_end (left @ take (stream_index s) (stream_string s)), at_end (right @ drop (stream_index s) (stream_string s)))"
proof -
  let ?n = "length (rest s)" and ?i = "stream_index s"
  have n: "string_stream_size s - string_stream_tell s = ?n" by (simp add: string_stream_size_def string_stream_tell_def rest_def)
  have c1: "stream_copy ?n (s, at_end right) = (?n, advance ?n s, at_end (right @ rest s))"
    using copy_loop [OF assms, of 0 ?n right] by (simp add: stream_copy_def)
  let ?s0 = "s\<lparr>stream_index := 0\<rparr>"
  have r: "stream_rewind (advance ?n s) = (True, ?s0)"
    using seek_start [of 0 "advance ?n s"] by (simp add: stream_rewind_def advance_def)
  have "stream_ok ?s0" "rest ?s0 = stream_string s" by (simp_all add: stream_ok_def rest_def)
  then have c2: "stream_copy ?i (?s0, at_end left) = (?i, advance ?i ?s0, at_end (left @ take ?i (stream_string s)))"
    using copy_loop [of ?s0 0 ?i left] assms by (simp add: stream_copy_def stream_ok_def)
  have "string_stream_seek (int ?i) StreamOffsetFromStart (advance ?i ?s0) = (True, s)"
    using assms by (subst seek_start) (simp add: stream_ok_def advance_def)
  then show ?thesis
    using n c1 r c2 by (simp add: stream_split_def string_stream_tell_def [of s] rest_def [of s, symmetric])
qed


text \<open>One block of a loop that reads the stream in blocks.\<close>

lemma block_read:
  assumes "stream_ok s" and "0 < n"
  obtains b s1 t where "string_stream_read n s = (b, s1)" "rest s = b @ t" "rest s1 = t" "stream_ok s1"
    "stream_string s1 = stream_string s" "\<forall>k. advance k s1 = advance (length b + k) s"
    "\<forall>i \<le> length b. string_stream_seek (int i - int (length b)) StreamOffsetFromCurrent s1 = (True, advance i s)"
    "b = [] \<longleftrightarrow> rest s = []" "s1 = advance (length b) s"
proof (rule that)
  let ?s1 = "advance (min (length (rest s)) n) s"
  show "string_stream_read n s = (take n (rest s), ?s1)" by (rule read_block)
  show "rest s = take n (rest s) @ drop n (rest s)" by simp
  show "rest ?s1 = drop n (rest s)" by (cases "length (rest s) \<le> n") simp_all
  show "stream_ok ?s1" using assms(1) by simp
  show "\<forall>i \<le> length (take n (rest s)). string_stream_seek (int i - int (length (take n (rest s)))) StreamOffsetFromCurrent ?s1 = (True, advance i s)"
    using seek_into_block [OF assms(1), of _ n] by simp
  show "take n (rest s) = [] \<longleftrightarrow> rest s = []" using assms(2) by auto
qed simp_all

end
