(* ===== verification/Flipper_Format.thy ===== *)
theory Flipper_Format
  imports String_Stream Strint
begin

text \<open>
  The text format of all saved data, \<^verbatim>\<open>lib/flipper_format/flipper_format_stream.c\<close> and
  \<^verbatim>\<open>flipper_format.c\<close> on a stream in memory, with \<^verbatim>\<open>lib/toolbox/hex.c\<close>. Writing to such a stream never fails; what
  the code does when it fails is kept as the branches on the results. Values are lists of the type of the value, floating point
  values are left out. The array for the values read is the list of those stored; a value that cannot be read stores nothing.
\<close>

unbundle bit_operations_syntax

section \<open>Hexadecimal digits\<close>

definition hex_char_to_hex_nibble :: "char \<Rightarrow> u8 option" where
  "hex_char_to_hex_nibble c =
     (if code c \<ge> 48 \<and> code c \<le> 57 then Some (of_nat (code c) - 48)
      else if code c \<ge> 65 \<and> code c \<le> 70 then Some (of_nat (code c) - 65 + 10)
      else if code c \<ge> 97 \<and> code c \<le> 102 then Some (of_nat (code c) - 97 + 10)
      else None)"

definition hex_char_to_uint8 :: "char \<Rightarrow> char \<Rightarrow> u8 option" where
  "hex_char_to_uint8 hi low =
     (case hex_char_to_hex_nibble hi of None \<Rightarrow> None
      | Some h \<Rightarrow> (case hex_char_to_hex_nibble low of None \<Rightarrow> None | Some l \<Rightarrow> Some (push_bit 4 h OR l)))"

text \<open>The bytes parsed before the first pair that is none, and whether the last pair was one.\<close>

fun hex_chars_to_uint8 :: "string \<Rightarrow> bool \<times> u8 list" where
  "hex_chars_to_uint8 (hi # low # str) =
     (case hex_char_to_uint8 hi low of None \<Rightarrow> (False, [])
      | Some v \<Rightarrow> (let (success, vs) = hex_chars_to_uint8 str in (if str = [] \<or> length str = 1 then True else success, v # vs)))"
| "hex_chars_to_uint8 str = (False, [])"

text \<open>The eight bytes go into the word from its most significant byte on.\<close>

fun hex_bytes :: "nat \<Rightarrow> string \<Rightarrow> u8 list option" where
  "hex_bytes 0 str = Some []"
| "hex_bytes (Suc n) (hi # low # str) =
     (case hex_char_to_uint8 hi low of None \<Rightarrow> None | Some v \<Rightarrow> map_option ((#) v) (hex_bytes n str))"
| "hex_bytes (Suc n) str = None"

definition hex_chars_to_uint64 :: "string \<Rightarrow> u64 option" where
  "hex_chars_to_uint64 str = map_option (foldl byte_in 0) (hex_bytes 8 str)"

definition hex_digit :: "nat \<Rightarrow> char" where
  "hex_digit n = ''0123456789ABCDEF'' ! n"

definition uint8_to_hex_chars :: "u8 list \<Rightarrow> nat \<Rightarrow> string" where
  "uint8_to_hex_chars src len = map (\<lambda>i. hex_digit (unat (drop_bit (4 * (1 - i mod 2)) (src ! (i div 2)) AND 0xF))) [0..<len]"

section \<open>Formats of the C library\<close>

fun decimal :: "nat \<Rightarrow> string" where
  "decimal n = (if n < 10 then [hex_digit n] else decimal (n div 10) @ [hex_digit (n mod 10)])"

declare decimal.simps [simp del]

text \<open>\<^verbatim>\<open>%i\<close>, \<^verbatim>\<open>%u\<close>, \<^verbatim>\<open>%02X\<close> and \<^verbatim>\<open>%08lX%08lX\<close>: a digit for every four bits.\<close>

definition print_int :: "int \<Rightarrow> string" where
  "print_int i = (if i < 0 then CHR ''-'' # decimal (nat (- i)) else decimal (nat i))"

definition print_hex :: "nat \<Rightarrow> 'a::len word \<Rightarrow> string" where
  "print_hex n w = map (\<lambda>i. hex_digit (unat (drop_bit (4 * i) w AND 0xF))) (rev [0..<n])"

section \<open>Keys and values on the stream\<close>

definition flipper_format_delimiter :: char where "flipper_format_delimiter = CHR '':''"
definition flipper_format_comment :: char where "flipper_format_comment = CHR ''#''"
definition flipper_format_eoln :: char where "flipper_format_eoln = CHR 0x0A"
definition flipper_format_eolr :: char where "flipper_format_eolr = CHR 0x0D"

lemmas format_chars = flipper_format_delimiter_def flipper_format_comment_def flipper_format_eoln_def flipper_format_eolr_def

datatype FlipperStreamValue =
    FlipperStreamValueIgnore | FlipperStreamValueStr | FlipperStreamValueHex | FlipperStreamValueInt32
  | FlipperStreamValueUint32 | FlipperStreamValueHexUint64 | FlipperStreamValueBool

text \<open>A type with the data of that type.\<close>

datatype stream_data =
    IgnoreData | StrData string | HexData "u8 list" | Int32Data "int list" | Uint32Data "u32 list"
  | HexUint64Data "u64 list" | BoolData "bool list"

record FlipperStreamWriteData =
  write_key :: string
  write_data :: stream_data

definition flipper_format_stream_is_space :: "char \<Rightarrow> bool" where
  "flipper_format_stream_is_space c \<longleftrightarrow> c = CHR '' '' \<or> c = CHR 0x09 \<or> c = flipper_format_eolr"

definition flipper_format_stream_write :: "string \<Rightarrow> StringStream \<Rightarrow> bool \<times> StringStream" where
  "flipper_format_stream_write data s = (let (bytes_written, s1) = string_stream_write data s in (bytes_written = length data, s1))"

definition flipper_format_stream_write_key :: "string \<Rightarrow> StringStream \<Rightarrow> bool \<times> StringStream" where
  "flipper_format_stream_write_key key s =
     (let (ok, s1) = flipper_format_stream_write key s
      in if \<not> ok then (False, s1)
         else let (ok, s2) = flipper_format_stream_write [flipper_format_delimiter] s1
           in if \<not> ok then (False, s2) else flipper_format_stream_write '' '' s2)"

definition flipper_format_stream_write_eol :: "StringStream \<Rightarrow> bool \<times> StringStream" where
  "flipper_format_stream_write_eol s = flipper_format_stream_write [flipper_format_eoln] s"

text \<open>One character of the search for a key: the next key, \<^verbatim>\<open>accumulate\<close> and \<^verbatim>\<open>new_line\<close>, or that a key ends.\<close>

fun key_char :: "char \<Rightarrow> string \<times> bool \<times> bool \<Rightarrow> (string \<times> bool \<times> bool) option" where
  "key_char c (key, accumulate, new_line) =
     (if c = flipper_format_eoln then Some ([], True, True)
      else if c = flipper_format_eolr then Some (key, accumulate, new_line)
      else if c = flipper_format_comment \<and> new_line then Some (key, False, False)
      else if c = flipper_format_delimiter
      then if new_line then Some ([], False, False) else if accumulate then None else Some (key, accumulate, new_line)
      else Some (if accumulate then key @ [c] else key, accumulate, False))"

fun key_block :: "string \<Rightarrow> string \<times> bool \<times> bool \<Rightarrow> nat option \<times> string \<times> bool \<times> bool" where
  "key_block [] st = (None, st)"
| "key_block (c # buffer) st =
     (case key_char c st of None \<Rightarrow> (Some 0, st)
      | Some st1 \<Rightarrow> (let (found, st2) = key_block buffer st1 in (map_option Suc found, st2)))"

function read_key_loop :: "string \<times> bool \<times> bool \<Rightarrow> StringStream \<Rightarrow> bool \<times> string \<times> StringStream" where
  "read_key_loop st s =
     (let (buffer, s1) = string_stream_read 32 s; was_read = length buffer
      in if was_read = 0 then (False, fst st, s1)
         else case key_block buffer st of
             (Some i, st1) \<Rightarrow>
               let (ok, s2) = string_stream_seek (int i - int was_read) StreamOffsetFromCurrent s1 in (ok, fst st1, s2)
           | (None, st1) \<Rightarrow> read_key_loop st1 s1)"
  by pat_completeness auto

termination
  by (relation "measure (\<lambda>(st, s). length (rest s))") (auto simp: read_block)

definition flipper_format_stream_read_valid_key :: "StringStream \<Rightarrow> bool \<times> string \<times> StringStream" where
  "flipper_format_stream_read_valid_key s = read_key_loop ([], True, True) s"


declare read_key_loop.simps [simp del]

text \<open>What the search finds does not depend on the blocks.\<close>

lemma key_block_append: "key_block (xs @ ys) st =
    (case key_block xs st of (Some i, st1) \<Rightarrow> (Some i, st1)
     | (None, st1) \<Rightarrow> (let (found, st2) = key_block ys st1 in (map_option ((+) (length xs)) found, st2)))"
proof (induction xs arbitrary: st)
  case Nil
  obtain found st2 where "key_block ys st = (found, st2)" by (rule prod.exhaust)
  then show ?case by (cases found) simp_all
next
  case (Cons x xs)
  then show ?case
    by (cases "key_char x st") (auto simp: option.map_comp comp_def add_Suc [symmetric] simp del: add_Suc split: prod.splits option.splits
        intro!: option.map_cong)
qed

lemma key_block_length: "key_block xs st = (Some i, st1) \<Longrightarrow> i < length xs"
  by (induction xs arbitrary: st i) (auto split: option.splits prod.splits)

lemma key_block_positive: "key_block xs ([], True, True) = (Some i, st1) \<Longrightarrow> 0 < i"
  by (cases xs) (auto split: option.splits prod.splits if_splits)

lemma read_key_scan: "stream_ok s \<Longrightarrow> read_key_loop st s =
    (case key_block (rest s) st of (Some i, st1) \<Rightarrow> (True, fst st1, advance i s)
     | (None, st1) \<Rightarrow> (False, fst st1, advance (length (rest s)) s))"
proof (induction "length (rest s)" arbitrary: st s rule: less_induct)
  case less
  obtain b s1 t where b: "string_stream_read 32 s = (b, s1)" "rest s = b @ t" "rest s1 = t" "stream_ok s1"
    "stream_string s1 = stream_string s" "\<forall>k. advance k s1 = advance (length b + k) s"
    "\<forall>i \<le> length b. string_stream_seek (int i - int (length b)) StreamOffsetFromCurrent s1 = (True, advance i s)"
    "b = [] \<longleftrightarrow> rest s = []" "s1 = advance (length b) s"
    by (rule block_read [where n = 32, OF less.prems zero_less_numeral])
  show ?case
  proof (cases "b = []")
    case True
    then have "rest s = []" "s1 = s" using b(8,9) by simp_all
    then show ?thesis using b(1) True by (simp add: read_key_loop.simps [of st s])
  next
    case False
    obtain found st1 where k: "key_block b st = (found, st1)" by (rule prod.exhaust)
    show ?thesis
    proof (cases found)
      case (Some i)
      then have "i \<le> length b" using key_block_length [of b st i st1] k by simp
      then show ?thesis using False k Some b(1,2,7) by (simp add: read_key_loop.simps [of st s] key_block_append)
    next
      case None
      have "read_key_loop st1 s1 = (case key_block t st1 of (Some i, st2) \<Rightarrow> (True, fst st2, advance i s1)
          | (None, st2) \<Rightarrow> (False, fst st2, advance (length t) s1))"
        using less.hyps [OF _ b(4), of st1, unfolded b(3)] False b(2) by simp
      then show ?thesis using False k None b(1,2,6)
        by (simp add: read_key_loop.simps [of st s] key_block_append split: prod.splits option.splits)
    qed
  qed
qed


lemma read_valid_key_scan: "stream_ok s \<Longrightarrow> flipper_format_stream_read_valid_key s =
    (case key_block (rest s) ([], True, True) of (Some i, st1) \<Rightarrow> (True, fst st1, advance i s)
     | (None, st1) \<Rightarrow> (False, fst st1, advance (length (rest s)) s))"
  by (simp add: flipper_format_stream_read_valid_key_def read_key_scan)

lemma rest_ok: "rest s \<noteq> [] \<Longrightarrow> stream_ok s"
  by (simp add: rest_def stream_ok_def)

text \<open>Each search consumes at least the first character.\<close>

lemma read_valid_key_consumes:
  assumes "(valid, read_key, s1) = flipper_format_stream_read_valid_key s" and "\<not> string_stream_eof s"
  shows "length (rest s1) < length (rest s)"
proof -
  have ne: "rest s \<noteq> []" using assms(2) by (simp add: eof_rest)
  obtain found st1 where k: "key_block (rest s) ([], True, True) = (found, st1)" by (rule prod.exhaust)
  show ?thesis
  proof (cases found)
    case None
    then show ?thesis using assms(1) ne k rest_ok [OF ne] by (simp add: read_valid_key_scan)
  next
    case (Some i)
    then have "0 < i" using key_block_positive k by blast
    then show ?thesis using assms(1) ne k Some rest_ok [OF ne] by (simp add: read_valid_key_scan)
  qed
qed

function flipper_format_stream_seek_to_key :: "string \<Rightarrow> bool \<Rightarrow> StringStream \<Rightarrow> bool \<times> StringStream" where
  "flipper_format_stream_seek_to_key key strict_mode s =
     (if string_stream_eof s then (False, s)
      else let (valid, read_key, s1) = flipper_format_stream_read_valid_key s
        in if valid
           then if cstr read_key = key then string_stream_seek 2 StreamOffsetFromCurrent s1
                else if strict_mode then (False, s1)
                else flipper_format_stream_seek_to_key key strict_mode s1
           else flipper_format_stream_seek_to_key key strict_mode s1)"
  by pat_completeness auto

termination
  by (relation "measure (\<lambda>(key, strict_mode, s). length (rest s))") (auto intro: read_valid_key_consumes)

declare flipper_format_stream_seek_to_key.simps [simp del]

text \<open>One character of a value: the value ends here, with whether it is the last, or an error, or the next state.\<close>

datatype value_state = LeadingSpace | ReadValue | TrailingSpace

fun value_char :: "char \<Rightarrow> value_state \<times> string \<Rightarrow> bool option + value_state \<times> string" where
  "value_char c (LeadingSpace, value) =
     (if flipper_format_stream_is_space c then Inr (LeadingSpace, value)
      else if c = flipper_format_eoln then Inl None
      else Inr (ReadValue, value @ [c]))"
| "value_char c (ReadValue, value) =
     (if flipper_format_stream_is_space c then Inr (TrailingSpace, value)
      else if c = flipper_format_eoln then Inl (Some True)
      else Inr (ReadValue, value @ [c]))"
| "value_char c (TrailingSpace, value) =
     (if flipper_format_stream_is_space c then Inr (TrailingSpace, value) else Inl (Some (c = flipper_format_eoln)))"

fun value_block :: "string \<Rightarrow> value_state \<times> string \<Rightarrow> (nat \<times> bool option) option \<times> value_state \<times> string" where
  "value_block [] st = (None, st)"
| "value_block (c # buffer) st =
     (case value_char c st of Inl ends \<Rightarrow> (Some (0, ends), st)
      | Inr st1 \<Rightarrow> (let (found, st2) = value_block buffer st1 in (map_option (apfst Suc) found, st2)))"

text \<open>A result is whether the value was the last of its line.\<close>

function read_value_loop :: "value_state \<times> string \<Rightarrow> StringStream \<Rightarrow> bool option \<times> string \<times> StringStream" where
  "read_value_loop st s =
     (let (buffer, s1) = string_stream_read 32 s; was_read = length buffer
      in if was_read = 0
         then (if fst st \<noteq> LeadingSpace \<and> string_stream_eof s1 then Some True else None, snd st, s1)
         else case value_block buffer st of
             (Some (i, ends), st1) \<Rightarrow>
               let (ok, s2) = string_stream_seek (int i - int was_read) StreamOffsetFromCurrent s1
               in (if ok then ends else None, snd st1, s2)
           | (None, st1) \<Rightarrow> read_value_loop st1 s1)"
  by pat_completeness auto

termination
  by (relation "measure (\<lambda>(st, s). length (rest s))") (auto simp: read_block)

declare read_value_loop.simps [simp del]

definition flipper_format_stream_read_value :: "StringStream \<Rightarrow> bool option \<times> string \<times> StringStream" where
  "flipper_format_stream_read_value s = read_value_loop (LeadingSpace, []) s"

function format_read_line_loop :: "string \<Rightarrow> StringStream \<Rightarrow> string \<times> StringStream" where
  "format_read_line_loop str s =
     (let (buffer, s1) = string_stream_read 32 s
      in if buffer = [] then (str, s1)
         else case line_chars buffer of
             (cs, Some i) \<Rightarrow> (str @ cs, snd (string_stream_seek (int i - int (length buffer)) StreamOffsetFromCurrent s1))
           | (cs, None) \<Rightarrow> format_read_line_loop (str @ cs) s1)"
  by pat_completeness auto

termination
  by (relation "measure (\<lambda>(str, s). length (rest s))") (auto simp: read_block)

declare format_read_line_loop.simps [simp del]

definition flipper_format_stream_read_line :: "StringStream \<Rightarrow> bool \<times> string \<times> StringStream" where
  "flipper_format_stream_read_line s = (let (str, s1) = format_read_line_loop [] s in (str \<noteq> [], str, s1))"

function flipper_format_stream_seek_to_next_line :: "StringStream \<Rightarrow> bool \<times> StringStream" where
  "flipper_format_stream_seek_to_next_line s =
     (let (buffer, s1) = string_stream_read 32 s
      in if buffer = [] \<and> string_stream_eof s1 then (True, s1)
         else case find_char flipper_format_eoln buffer of
             Some i \<Rightarrow> string_stream_seek (int i - int (length buffer)) StreamOffsetFromCurrent s1
           | None \<Rightarrow> flipper_format_stream_seek_to_next_line s1)"
  by pat_completeness auto

termination
  by (relation "measure (\<lambda>s. length (rest s))") (auto simp: read_block eof_rest)

declare flipper_format_stream_seek_to_next_line.simps [simp del]


text \<open>These loops, too, do not depend on the blocks.\<close>

lemma value_block_append: "value_block (xs @ ys) st =
    (case value_block xs st of (Some found, st1) \<Rightarrow> (Some found, st1)
     | (None, st1) \<Rightarrow> (let (found, st2) = value_block ys st1 in (map_option (apfst ((+) (length xs))) found, st2)))"
proof (induction xs arbitrary: st)
  case Nil
  obtain found st2 where "value_block ys st = (found, st2)" by (rule prod.exhaust)
  then show ?case by (cases found) auto
next
  case (Cons x xs)
  then show ?case
    by (cases "value_char x st") (auto simp: option.map_comp comp_def apfst_compose [symmetric] split: prod.splits option.splits
        intro!: option.map_cong)
qed

lemma value_block_length: "value_block xs st = (Some (i, ends), st1) \<Longrightarrow> i < length xs"
  by (induction xs arbitrary: st i) (auto split: sum.splits prod.splits)

lemma read_value_scan: "stream_ok s \<Longrightarrow> read_value_loop st s =
    (case value_block (rest s) st of (Some (i, ends), st1) \<Rightarrow> (ends, snd st1, advance i s)
     | (None, st1) \<Rightarrow> (if fst st1 \<noteq> LeadingSpace then Some True else None, snd st1, advance (length (rest s)) s))"
proof (induction "length (rest s)" arbitrary: st s rule: less_induct)
  case less
  obtain b s1 t where b: "string_stream_read 32 s = (b, s1)" "rest s = b @ t" "rest s1 = t" "stream_ok s1"
    "stream_string s1 = stream_string s" "\<forall>k. advance k s1 = advance (length b + k) s"
    "\<forall>i \<le> length b. string_stream_seek (int i - int (length b)) StreamOffsetFromCurrent s1 = (True, advance i s)"
    "b = [] \<longleftrightarrow> rest s = []" "s1 = advance (length b) s"
    by (rule block_read [where n = 32, OF less.prems zero_less_numeral])
  show ?case
  proof (cases "b = []")
    case True
    then have "rest s = []" "s1 = s" using b(8,9) by simp_all
    then show ?thesis using b(1) True by (simp add: read_value_loop.simps [of st s] eof_rest)
  next
    case False
    obtain found st1 where k: "value_block b st = (found, st1)" by (rule prod.exhaust)
    show ?thesis
    proof (cases found)
      case (Some e)
      obtain i ends where e: "e = (i, ends)" by (rule prod.exhaust)
      then have "i \<le> length b" using value_block_length [of b st i ends st1] k Some by simp
      then show ?thesis using False k Some e b(1,2,7) by (simp add: read_value_loop.simps [of st s] value_block_append)
    next
      case None
      have "read_value_loop st1 s1 = (case value_block t st1 of (Some (i, ends), st2) \<Rightarrow> (ends, snd st2, advance i s1)
          | (None, st2) \<Rightarrow> (if fst st2 \<noteq> LeadingSpace then Some True else None, snd st2, advance (length t) s1))"
        using less.hyps [OF _ b(4), of st1, unfolded b(3)] False b(2) by simp
      then show ?thesis using False k None b(1,2,6)
        by (simp add: read_value_loop.simps [of st s] value_block_append split: prod.splits option.splits)
    qed
  qed
qed

lemma read_line_scan: "stream_ok s \<Longrightarrow> format_read_line_loop str s =
    (str @ no_returns (line_of (rest s)), advance (length (line_of (rest s))) s)"
proof (induction "length (rest s)" arbitrary: str s rule: less_induct)
  case less
  obtain b s1 t where b: "string_stream_read 32 s = (b, s1)" "rest s = b @ t" "rest s1 = t" "stream_ok s1"
    "stream_string s1 = stream_string s" "\<forall>k. advance k s1 = advance (length b + k) s"
    "\<forall>i \<le> length b. string_stream_seek (int i - int (length b)) StreamOffsetFromCurrent s1 = (True, advance i s)"
    "b = [] \<longleftrightarrow> rest s = []" "s1 = advance (length b) s"
    by (rule block_read [where n = 32, OF less.prems zero_less_numeral])
  show ?case
  proof (cases "CHR 0x0A \<in> set b")
    case True
    then have l: "length (line_of b) < length b" "line_of (rest s) = line_of b" "b \<noteq> []"
      by (simp_all only: line_of_short line_of_append b(2) if_True) auto
    then show ?thesis using b(1,7) by (simp add: format_read_line_loop.simps [of str s] line_chars_line)
  next
    case no: False
    show ?thesis
    proof (cases "b = []")
      case True
      then have "rest s = []" "s1 = s" using b(8,9) by simp_all
      then show ?thesis using b(1) True by (simp add: format_read_line_loop.simps [of str s])
    next
      case False
      have lb: "line_of b = b" using no by (rule line_of_all)
      have l: "line_of (rest s) = b @ line_of t" using no by (simp only: b(2) line_of_append line_of_short if_False)
      have "format_read_line_loop (str @ no_returns b) s1 = ((str @ no_returns b) @ no_returns (line_of t), advance (length (line_of t)) s1)"
        using less.hyps [OF _ b(4), of "str @ no_returns b", unfolded b(3)] False b(2) by simp
      then show ?thesis using b(1,6) False by (simp add: format_read_line_loop.simps [of str s] line_chars_line lb l)
    qed
  qed
qed

lemma find_eoln: "find_char (CHR 0x0A) t = (if CHR 0x0A \<in> set t then Some (length (line_of t)) else None)"
  by (induction t) auto

lemma next_line_scan: "stream_ok s \<Longrightarrow> flipper_format_stream_seek_to_next_line s = (True, advance (length (line_of (rest s))) s)"
proof (induction "length (rest s)" arbitrary: s rule: less_induct)
  case less
  obtain b s1 t where b: "string_stream_read 32 s = (b, s1)" "rest s = b @ t" "rest s1 = t" "stream_ok s1"
    "stream_string s1 = stream_string s" "\<forall>k. advance k s1 = advance (length b + k) s"
    "\<forall>i \<le> length b. string_stream_seek (int i - int (length b)) StreamOffsetFromCurrent s1 = (True, advance i s)"
    "b = [] \<longleftrightarrow> rest s = []" "s1 = advance (length b) s"
    by (rule block_read [where n = 32, OF less.prems zero_less_numeral])
  show ?case
  proof (cases "CHR 0x0A \<in> set b")
    case True
    then have l: "length (line_of b) < length b" "line_of (rest s) = line_of b" "b \<noteq> []"
      by (simp_all only: line_of_short line_of_append b(2) if_True) auto
    then show ?thesis using b(1,7) True by (simp add: flipper_format_stream_seek_to_next_line.simps [of s] find_eoln format_chars)
  next
    case no: False
    show ?thesis
    proof (cases "b = []")
      case True
      then have "rest s = []" "s1 = s" using b(8,9) by simp_all
      then show ?thesis using b(1) True by (simp add: flipper_format_stream_seek_to_next_line.simps [of s] eof_rest)
    next
      case False
      have l: "line_of (rest s) = b @ line_of t" using no by (simp only: b(2) line_of_append line_of_short if_False)
      have "flipper_format_stream_seek_to_next_line s1 = (True, advance (length (line_of t)) s1)"
        using less.hyps [OF _ b(4), unfolded b(3)] False b(2) by simp
      then show ?thesis using b(1,6) False no by (simp add: flipper_format_stream_seek_to_next_line.simps [of s] find_eoln format_chars l)
    qed
  qed
qed


section \<open>Lines of values\<close>

text \<open>The texts of the values, written with a space after each but the last.\<close>

fun value_texts :: "stream_data \<Rightarrow> string list" where
  "value_texts IgnoreData = []"
| "value_texts (StrData str) = [str]"
| "value_texts (HexData xs) = map (print_hex 2) xs"
| "value_texts (Int32Data xs) = map print_int xs"
| "value_texts (Uint32Data xs) = map (\<lambda>x. decimal (unat x)) xs"
| "value_texts (HexUint64Data xs) = map (\<lambda>x. print_hex 8 (ucast (drop_bit 32 x) :: u32) @ print_hex 8 (ucast x :: u32)) xs"
| "value_texts (BoolData xs) = map (\<lambda>x. if x then ''true'' else ''false'') xs"

fun write_values :: "string list \<Rightarrow> StringStream \<Rightarrow> bool \<times> StringStream" where
  "write_values [] s = (True, s)"
| "write_values (text # texts) s =
     (let value = (if texts \<noteq> [] then text @ '' '' else text); (ok, s1) = flipper_format_stream_write value s
      in if \<not> ok then (False, s1) else write_values texts s1)"

definition flipper_format_stream_write_value_line :: "FlipperStreamWriteData \<Rightarrow> StringStream \<Rightarrow> bool \<times> StringStream" where
  "flipper_format_stream_write_value_line wd s =
     (if write_data wd = IgnoreData then (True, s)
      else let (ok, s1) = flipper_format_stream_write_key (write_key wd) s
        in if \<not> ok then (False, s1)
           else let (ok, s2) = write_values (value_texts (write_data wd)) s1
             in if \<not> ok then (False, s2) else flipper_format_stream_write_eol s2)"

text \<open>Reading stops at the first value that cannot be read, and when a line ends early.\<close>

fun read_values :: "(string \<Rightarrow> fault + 'a option) \<Rightarrow> nat \<Rightarrow> StringStream \<Rightarrow> fault + 'a list option \<times> StringStream" where
  "read_values scan 0 s = Inr (Some [], s)"
| "read_values scan (Suc n) s =
     (case flipper_format_stream_read_value s of
        (None, value, s1) \<Rightarrow> Inr (None, s1)
      | (Some final, value, s1) \<Rightarrow>
          bind_r (scan value) (\<lambda>r. case r of
            None \<Rightarrow> Inr (None, s1)
          | Some x \<Rightarrow> if final \<and> n \<noteq> 0 then Inr (None, s1)
              else bind_r (read_values scan n s1) (\<lambda>(xs, s2). Inr (map_option ((#) x) xs, s2))))"

definition scan_hex :: "string \<Rightarrow> fault + u8 option" where
  "scan_hex value = Inr (if length value \<ge> 2 then hex_char_to_uint8 (value ! 0) (value ! 1) else None)"

definition scan_int32 :: "string \<Rightarrow> fault + int option" where
  "scan_int32 value = bind_r (strint_to_int32 (cstr value) 10) (\<lambda>r. case r of Inl e \<Rightarrow> Inr None | Inr (i, end_str) \<Rightarrow> Inr (Some i))"

definition scan_uint32 :: "string \<Rightarrow> fault + u32 option" where
  "scan_uint32 value = (case strint_to_uint32 (cstr value) 10 of Inl e \<Rightarrow> Inr None | Inr (i, end_str) \<Rightarrow> Inr (Some i))"

definition scan_hex_uint64 :: "string \<Rightarrow> fault + u64 option" where
  "scan_hex_uint64 value = Inr (if length value \<ge> 16 then hex_chars_to_uint64 value else None)"

definition lower_case :: "char \<Rightarrow> char" where
  "lower_case c = (if code c \<ge> 65 \<and> code c \<le> 90 then char_of (code c + 32) else c)"

definition scan_bool :: "string \<Rightarrow> fault + bool option" where
  "scan_bool value = Inr (Some (map lower_case (cstr value) = ''true''))"

definition data_of :: "('a list \<Rightarrow> stream_data) \<Rightarrow> fault + 'a list option \<times> StringStream \<Rightarrow> fault + stream_data option \<times> StringStream" where
  "data_of f r = bind_r r (\<lambda>(xs, s). Inr (map_option f xs, s))"

definition flipper_format_stream_read_value_line ::
    "string \<Rightarrow> FlipperStreamValue \<Rightarrow> nat \<Rightarrow> bool \<Rightarrow> StringStream \<Rightarrow> fault + stream_data option \<times> StringStream" where
  "flipper_format_stream_read_value_line key type data_size strict_mode s =
     (let (found, s1) = flipper_format_stream_seek_to_key key strict_mode s
      in if \<not> found then Inr (None, s1)
         else case type of
           FlipperStreamValueStr \<Rightarrow>
             let (ok, str, s2) = flipper_format_stream_read_line s1 in Inr (if ok then Some (StrData str) else None, s2)
         | FlipperStreamValueHex \<Rightarrow> data_of HexData (read_values scan_hex data_size s1)
         | FlipperStreamValueInt32 \<Rightarrow> data_of Int32Data (read_values scan_int32 data_size s1)
         | FlipperStreamValueUint32 \<Rightarrow> data_of Uint32Data (read_values scan_uint32 data_size s1)
         | FlipperStreamValueHexUint64 \<Rightarrow> data_of HexUint64Data (read_values scan_hex_uint64 data_size s1)
         | FlipperStreamValueBool \<Rightarrow> data_of BoolData (read_values scan_bool data_size s1)
         | FlipperStreamValueIgnore \<Rightarrow>
             data_of (\<lambda>_. IgnoreData) (read_values (\<lambda>_. Inl FuriCrash :: fault + unit option) data_size s1))"

lemma value_block_leading: "value_block xs (LeadingSpace, []) = (Some (0, ends), st) \<Longrightarrow> ends = None"
  by (cases xs) (auto split: if_splits prod.splits)

lemma read_value_consumes:
  assumes "flipper_format_stream_read_value s = (Some final, value, s1)"
  shows "length (rest s1) < length (rest s)"
proof (cases "stream_ok s")
  case False
  then have "rest s = []" using rest_ok by blast
  then have "read_value_loop (LeadingSpace, []) s = (None, [], s)" by (subst read_value_loop.simps) (simp add: read_block)
  then show ?thesis using assms by (simp add: flipper_format_stream_read_value_def)
next
  case True
  obtain found st1 where k: "value_block (rest s) (LeadingSpace, []) = (found, st1)" by (rule prod.exhaust)
  show ?thesis
  proof (cases found)
    case None
    then have "rest s \<noteq> []" using assms k True by (auto simp: flipper_format_stream_read_value_def read_value_scan split: if_splits)
    moreover have "s1 = advance (length (rest s)) s" using assms k None True
      by (simp add: flipper_format_stream_read_value_def read_value_scan split: if_splits)
    ultimately show ?thesis by simp
  next
    case (Some e)
    obtain i ends where e: "e = (i, ends)" by (rule prod.exhaust)
    have "ends \<noteq> None" "s1 = advance i s" using assms k Some e True
      by (simp_all add: flipper_format_stream_read_value_def read_value_scan)
    then have "i \<noteq> 0" using value_block_leading [of "rest s" ends st1] k Some e by (intro notI) simp
    moreover have "i < length (rest s)" using value_block_length k Some e by blast
    ultimately show ?thesis using \<open>s1 = advance i s\<close> by simp
  qed
qed

function count_values :: "u32 \<Rightarrow> StringStream \<Rightarrow> bool \<times> u32 \<times> StringStream" where
  "count_values count s =
     (case flipper_format_stream_read_value s of
        (None, value, s1) \<Rightarrow> (False, count, s1)
      | (Some final, value, s1) \<Rightarrow> if final then (True, count + 1, s1) else count_values (count + 1) s1)"
  by pat_completeness auto

termination
  by (relation "measure (\<lambda>(count, s). length (rest s))") (auto intro: read_value_consumes simp: eq_commute)

declare count_values.simps [simp del]

definition flipper_format_stream_get_value_count :: "string \<Rightarrow> bool \<Rightarrow> u32 \<Rightarrow> StringStream \<Rightarrow> bool \<times> u32 \<times> StringStream" where
  "flipper_format_stream_get_value_count key strict_mode count s =
     (let position = string_stream_tell s;
          (found, s1) = flipper_format_stream_seek_to_key key strict_mode s;
          (result, count1, s2) = (if found then count_values 0 s1 else (False, count, s1));
          (ok, s3) = string_stream_seek (int position) StreamOffsetFromStart s2
      in (result \<and> ok, count1, s3))"

definition flipper_format_stream_delete_key_and_write ::
    "FlipperStreamWriteData \<Rightarrow> bool \<Rightarrow> StringStream \<Rightarrow> bool \<times> StringStream" where
  "flipper_format_stream_delete_key_and_write wd strict_mode s =
     (if string_stream_size s = 0 then (False, s)
      else let (ok, s1) = stream_rewind s
        in if \<not> ok then (False, s1)
           else let (found, s2) = flipper_format_stream_seek_to_key (write_key wd) strict_mode s1
             in if \<not> found then (False, s2)
                else let start_position = string_stream_tell s2 - length (write_key wd)
                  in if start_position < 2 then (False, s2)
                     else let start_position = start_position - 2; (ok, s3) = flipper_format_stream_seek_to_next_line s2
                       in if \<not> ok then (False, s3)
                          else let end_position = string_stream_tell s3;
                                   end_position = (if end_position < string_stream_size s then end_position + 1 else end_position);
                                   (ok, s4) = string_stream_seek (int start_position) StreamOffsetFromStart s3
                            in if \<not> ok then (False, s4)
                               else string_stream_delete_and_insert (end_position - start_position)
                                 (Some (flipper_format_stream_write_value_line wd)) s4)"

definition flipper_format_stream_write_comment_cstr :: "string \<Rightarrow> StringStream \<Rightarrow> bool \<times> StringStream" where
  "flipper_format_stream_write_comment_cstr data s =
     (let (ok, s1) = flipper_format_stream_write [flipper_format_comment, CHR '' ''] s
      in if \<not> ok then (False, s1)
         else let (ok, s2) = flipper_format_stream_write data s1
           in if \<not> ok then (False, s2) else flipper_format_stream_write_eol s2)"


section \<open>The format\<close>

record FlipperFormat =
  ff_stream :: StringStream
  strict_mode :: bool

definition flipper_format_filetype_key :: string where "flipper_format_filetype_key = ''Filetype''"
definition flipper_format_version_key :: string where "flipper_format_version_key = ''Version''"

definition on_stream :: "(StringStream \<Rightarrow> 'a \<times> StringStream) \<Rightarrow> FlipperFormat \<Rightarrow> 'a \<times> FlipperFormat" where
  "on_stream f ff = (let (r, s) = f (ff_stream ff) in (r, ff\<lparr>ff_stream := s\<rparr>))"

definition flipper_format_string_alloc :: FlipperFormat where
  "flipper_format_string_alloc = \<lparr>ff_stream = string_stream_alloc, strict_mode = False\<rparr>"

definition flipper_format_set_strict_mode :: "bool \<Rightarrow> FlipperFormat \<Rightarrow> FlipperFormat" where
  "flipper_format_set_strict_mode strict ff = ff\<lparr>strict_mode := strict\<rparr>"

definition flipper_format_rewind :: "FlipperFormat \<Rightarrow> bool \<times> FlipperFormat" where
  "flipper_format_rewind = on_stream stream_rewind"

definition flipper_format_tell :: "FlipperFormat \<Rightarrow> nat" where
  "flipper_format_tell ff = string_stream_tell (ff_stream ff)"

definition flipper_format_seek :: "int \<Rightarrow> StreamOffset \<Rightarrow> FlipperFormat \<Rightarrow> bool \<times> FlipperFormat" where
  "flipper_format_seek offset anchor = on_stream (string_stream_seek offset anchor)"

definition flipper_format_seek_to_end :: "FlipperFormat \<Rightarrow> bool \<times> FlipperFormat" where
  "flipper_format_seek_to_end = on_stream (string_stream_seek 0 StreamOffsetFromEnd)"

definition flipper_format_key_exist :: "string \<Rightarrow> FlipperFormat \<Rightarrow> bool \<times> FlipperFormat" where
  "flipper_format_key_exist key = on_stream (\<lambda>s.
     let pos = string_stream_tell s;
         s1 = snd (string_stream_seek 0 StreamOffsetFromStart s);
         (result, s2) = flipper_format_stream_seek_to_key key False s1
     in (result, snd (string_stream_seek (int pos) StreamOffsetFromStart s2)))"

definition flipper_format_get_value_count :: "string \<Rightarrow> u32 \<Rightarrow> FlipperFormat \<Rightarrow> (bool \<times> u32) \<times> FlipperFormat" where
  "flipper_format_get_value_count key count ff =
     on_stream (\<lambda>s. let (ok, n, s1) = flipper_format_stream_get_value_count key (strict_mode ff) count s in ((ok, n), s1)) ff"

text \<open>Reading, writing and updating for each type of values.\<close>

definition read_data :: "FlipperStreamValue \<Rightarrow> string \<Rightarrow> nat \<Rightarrow> FlipperFormat \<Rightarrow> fault + stream_data option \<times> FlipperFormat" where
  "read_data type key data_size ff =
     bind_r (flipper_format_stream_read_value_line key type data_size (strict_mode ff) (ff_stream ff)) (\<lambda>(data, s).
       Inr (data, ff\<lparr>ff_stream := s\<rparr>))"

definition write_line :: "string \<Rightarrow> stream_data \<Rightarrow> FlipperFormat \<Rightarrow> bool \<times> FlipperFormat" where
  "write_line key data = on_stream (flipper_format_stream_write_value_line \<lparr>write_key = key, write_data = data\<rparr>)"

definition update_line :: "string \<Rightarrow> stream_data \<Rightarrow> FlipperFormat \<Rightarrow> bool \<times> FlipperFormat" where
  "update_line key data ff =
     on_stream (flipper_format_stream_delete_key_and_write \<lparr>write_key = key, write_data = data\<rparr> (strict_mode ff)) ff"

definition insert_or_update_line :: "string \<Rightarrow> stream_data \<Rightarrow> FlipperFormat \<Rightarrow> bool \<times> FlipperFormat" where
  "insert_or_update_line key data ff =
     (let (exist, ff1) = flipper_format_key_exist key ff
      in if \<not> exist then write_line key data (snd (flipper_format_seek_to_end ff1)) else update_line key data ff1)"

definition flipper_format_read_string :: "string \<Rightarrow> FlipperFormat \<Rightarrow> fault + stream_data option \<times> FlipperFormat" where
  "flipper_format_read_string key = read_data FlipperStreamValueStr key 1"

definition flipper_format_write_string_cstr :: "string \<Rightarrow> string \<Rightarrow> FlipperFormat \<Rightarrow> bool \<times> FlipperFormat" where
  "flipper_format_write_string_cstr key data = write_line key (StrData data)"

definition flipper_format_write_string :: "string \<Rightarrow> string \<Rightarrow> FlipperFormat \<Rightarrow> bool \<times> FlipperFormat" where
  "flipper_format_write_string key data = write_line key (StrData (cstr data))"

definition flipper_format_update_string_cstr :: "string \<Rightarrow> string \<Rightarrow> FlipperFormat \<Rightarrow> bool \<times> FlipperFormat" where
  "flipper_format_update_string_cstr key data = update_line key (StrData data)"

definition flipper_format_update_string :: "string \<Rightarrow> string \<Rightarrow> FlipperFormat \<Rightarrow> bool \<times> FlipperFormat" where
  "flipper_format_update_string key data = update_line key (StrData (cstr data))"

definition flipper_format_insert_or_update_string_cstr :: "string \<Rightarrow> string \<Rightarrow> FlipperFormat \<Rightarrow> bool \<times> FlipperFormat" where
  "flipper_format_insert_or_update_string_cstr key data = insert_or_update_line key (StrData data)"

definition flipper_format_insert_or_update_string :: "string \<Rightarrow> string \<Rightarrow> FlipperFormat \<Rightarrow> bool \<times> FlipperFormat" where
  "flipper_format_insert_or_update_string key data = insert_or_update_line key (StrData (cstr data))"

definition flipper_format_read_hex_uint64 :: "string \<Rightarrow> nat \<Rightarrow> FlipperFormat \<Rightarrow> fault + stream_data option \<times> FlipperFormat" where
  "flipper_format_read_hex_uint64 = read_data FlipperStreamValueHexUint64"

definition flipper_format_write_hex_uint64 :: "string \<Rightarrow> u64 list \<Rightarrow> FlipperFormat \<Rightarrow> bool \<times> FlipperFormat" where
  "flipper_format_write_hex_uint64 key data = write_line key (HexUint64Data data)"

definition flipper_format_read_uint32 :: "string \<Rightarrow> nat \<Rightarrow> FlipperFormat \<Rightarrow> fault + stream_data option \<times> FlipperFormat" where
  "flipper_format_read_uint32 = read_data FlipperStreamValueUint32"

definition flipper_format_write_uint32 :: "string \<Rightarrow> u32 list \<Rightarrow> FlipperFormat \<Rightarrow> bool \<times> FlipperFormat" where
  "flipper_format_write_uint32 key data = write_line key (Uint32Data data)"

definition flipper_format_update_uint32 :: "string \<Rightarrow> u32 list \<Rightarrow> FlipperFormat \<Rightarrow> bool \<times> FlipperFormat" where
  "flipper_format_update_uint32 key data = update_line key (Uint32Data data)"

definition flipper_format_insert_or_update_uint32 :: "string \<Rightarrow> u32 list \<Rightarrow> FlipperFormat \<Rightarrow> bool \<times> FlipperFormat" where
  "flipper_format_insert_or_update_uint32 key data = insert_or_update_line key (Uint32Data data)"

definition flipper_format_read_int32 :: "string \<Rightarrow> nat \<Rightarrow> FlipperFormat \<Rightarrow> fault + stream_data option \<times> FlipperFormat" where
  "flipper_format_read_int32 = read_data FlipperStreamValueInt32"

definition flipper_format_write_int32 :: "string \<Rightarrow> int list \<Rightarrow> FlipperFormat \<Rightarrow> bool \<times> FlipperFormat" where
  "flipper_format_write_int32 key data = write_line key (Int32Data data)"

definition flipper_format_update_int32 :: "string \<Rightarrow> int list \<Rightarrow> FlipperFormat \<Rightarrow> bool \<times> FlipperFormat" where
  "flipper_format_update_int32 key data = update_line key (Int32Data data)"

definition flipper_format_insert_or_update_int32 :: "string \<Rightarrow> int list \<Rightarrow> FlipperFormat \<Rightarrow> bool \<times> FlipperFormat" where
  "flipper_format_insert_or_update_int32 key data = insert_or_update_line key (Int32Data data)"

definition flipper_format_read_bool :: "string \<Rightarrow> nat \<Rightarrow> FlipperFormat \<Rightarrow> fault + stream_data option \<times> FlipperFormat" where
  "flipper_format_read_bool = read_data FlipperStreamValueBool"

definition flipper_format_write_bool :: "string \<Rightarrow> bool list \<Rightarrow> FlipperFormat \<Rightarrow> bool \<times> FlipperFormat" where
  "flipper_format_write_bool key data = write_line key (BoolData data)"

definition flipper_format_update_bool :: "string \<Rightarrow> bool list \<Rightarrow> FlipperFormat \<Rightarrow> bool \<times> FlipperFormat" where
  "flipper_format_update_bool key data = update_line key (BoolData data)"

definition flipper_format_insert_or_update_bool :: "string \<Rightarrow> bool list \<Rightarrow> FlipperFormat \<Rightarrow> bool \<times> FlipperFormat" where
  "flipper_format_insert_or_update_bool key data = insert_or_update_line key (BoolData data)"

definition flipper_format_read_hex :: "string \<Rightarrow> nat \<Rightarrow> FlipperFormat \<Rightarrow> fault + stream_data option \<times> FlipperFormat" where
  "flipper_format_read_hex = read_data FlipperStreamValueHex"

definition flipper_format_write_hex :: "string \<Rightarrow> u8 list \<Rightarrow> FlipperFormat \<Rightarrow> bool \<times> FlipperFormat" where
  "flipper_format_write_hex key data = write_line key (HexData data)"

definition flipper_format_update_hex :: "string \<Rightarrow> u8 list \<Rightarrow> FlipperFormat \<Rightarrow> bool \<times> FlipperFormat" where
  "flipper_format_update_hex key data = update_line key (HexData data)"

definition flipper_format_insert_or_update_hex :: "string \<Rightarrow> u8 list \<Rightarrow> FlipperFormat \<Rightarrow> bool \<times> FlipperFormat" where
  "flipper_format_insert_or_update_hex key data = insert_or_update_line key (HexData data)"

definition flipper_format_read_header :: "FlipperFormat \<Rightarrow> fault + (string \<times> u32) option \<times> FlipperFormat" where
  "flipper_format_read_header ff =
     bind_r (flipper_format_read_string flipper_format_filetype_key ff) (\<lambda>(filetype, ff1).
     case filetype of
       Some (StrData name) \<Rightarrow>
         bind_r (flipper_format_read_uint32 flipper_format_version_key 1 ff1) (\<lambda>(version, ff2).
         Inr (case version of Some (Uint32Data [v]) \<Rightarrow> Some (name, v) | _ \<Rightarrow> None, ff2))
     | _ \<Rightarrow> Inr (None, ff1))"

definition flipper_format_write_header_cstr :: "string \<Rightarrow> u32 \<Rightarrow> FlipperFormat \<Rightarrow> bool \<times> FlipperFormat" where
  "flipper_format_write_header_cstr filetype version ff =
     (let (ok, ff1) = flipper_format_write_string_cstr flipper_format_filetype_key filetype ff
      in if ok then flipper_format_write_uint32 flipper_format_version_key [version] ff1 else (False, ff1))"

definition flipper_format_write_header :: "string \<Rightarrow> u32 \<Rightarrow> FlipperFormat \<Rightarrow> bool \<times> FlipperFormat" where
  "flipper_format_write_header filetype = flipper_format_write_header_cstr (cstr filetype)"

definition flipper_format_write_comment_cstr :: "string \<Rightarrow> FlipperFormat \<Rightarrow> bool \<times> FlipperFormat" where
  "flipper_format_write_comment_cstr data = on_stream (flipper_format_stream_write_comment_cstr data)"

definition flipper_format_write_comment :: "string \<Rightarrow> FlipperFormat \<Rightarrow> bool \<times> FlipperFormat" where
  "flipper_format_write_comment data = flipper_format_write_comment_cstr (cstr data)"

definition flipper_format_write_empty_line :: "FlipperFormat \<Rightarrow> bool \<times> FlipperFormat" where
  "flipper_format_write_empty_line = on_stream flipper_format_stream_write_eol"

definition flipper_format_delete_key :: "string \<Rightarrow> FlipperFormat \<Rightarrow> bool \<times> FlipperFormat" where
  "flipper_format_delete_key key = update_line key IgnoreData"

section \<open>Which line a key is found in\<close>

text \<open>The key of a line, if it is not a comment and does not begin with the delimiter.\<close>

definition line_key :: "string \<Rightarrow> string option" where
  "line_key l =
     (let l = no_returns l
      in if l = [] \<or> hd l = CHR ''#'' \<or> hd l = CHR '':'' \<or> CHR '':'' \<notin> set l then None
         else Some (takeWhile (\<lambda>c. c \<noteq> CHR '':'') l))"

definition key_end :: "string \<Rightarrow> nat" where
  "key_end l = length (takeWhile (\<lambda>c. c \<noteq> CHR '':'') l)"

lemma key_block_rest: "CHR 0x0A \<notin> set l \<Longrightarrow> key_block l (key, True, False) =
    (if CHR '':'' \<in> set l then (Some (key_end l), key @ takeWhile (\<lambda>c. c \<noteq> CHR '':'') (no_returns l), True, False)
     else (None, key @ no_returns l, True, False))"
  by (induction l arbitrary: key) (auto simp: format_chars key_end_def)

lemma key_block_skip: "CHR 0x0A \<notin> set l \<Longrightarrow> key_block l (key, False, False) = (None, key, False, False)"
  by (induction l arbitrary: key) (auto simp: format_chars)

lemma key_block_line: "CHR 0x0A \<notin> set l \<Longrightarrow> case line_key l of
    Some k \<Rightarrow> key_block l ([], True, True) = (Some (key_end l), k, True, False)
  | None \<Rightarrow> fst (key_block l ([], True, True)) = None"
proof (induction l)
  case (Cons c l)
  consider "c = CHR 0x0D" | "c = CHR ''#''" | "c = CHR '':''" | "c \<notin> {CHR 0x0D, CHR ''#'', CHR '':''}" by blast
  then show ?case
  proof cases
    case 1
    obtain found st where k: "key_block l ([], True, True) = (found, st)" by (rule prod.exhaust)
    show ?thesis using Cons 1 k by (auto simp: format_chars line_key_def key_end_def Let_def split: option.splits if_splits)
  next
    case 4
    then show ?thesis using Cons.prems by (auto simp: format_chars line_key_def key_block_rest key_end_def Let_def)
  qed (use Cons.prems in \<open>auto simp: format_chars line_key_def key_block_skip Let_def\<close>)
qed (simp add: line_key_def)


function find_key :: "string \<Rightarrow> bool \<Rightarrow> string \<Rightarrow> nat option" where
  "find_key key strict t =
     (if t = [] then None
      else let l = line_of t; next = map_option ((+) (Suc (length l))) (find_key key strict (drop (Suc (length l)) t))
        in case line_key l of
             Some k \<Rightarrow> if cstr k = key then Some (key_end l) else if strict then None else next
           | None \<Rightarrow> next)"
  by pat_completeness auto

termination
  by (relation "measure (\<lambda>(key, strict, t). length t)") auto

declare find_key.simps [simp del]

lemma find_key_Nil [simp]: "find_key key strict [] = None"
  by (simp add: find_key.simps)

lemma line_no_eol: "CHR 0x0A \<notin> set (line_of t)"
  by (auto dest: set_takeWhileD)

lemma key_block_eol: "key_block (CHR 0x0A # t) st = (let (found, st1) = key_block t ([], True, True) in (map_option Suc found, st1))"
  by (cases st) (simp add: format_chars)

text \<open>The search in the text of several lines.\<close>

lemma key_block_text:
  assumes "t \<noteq> []"
  shows "case line_key (line_of t) of
      Some k \<Rightarrow> key_block t ([], True, True) = (Some (key_end (line_of t)), k, True, False)
    | None \<Rightarrow> case key_block (drop (Suc (length (line_of t))) t) ([], True, True) of
        (Some i, st) \<Rightarrow> key_block t ([], True, True) = (Some (Suc (length (line_of t)) + i), st)
      | (None, st) \<Rightarrow> fst (key_block t ([], True, True)) = None"
proof -
  let ?l = "line_of t" and ?u = "drop (Suc (length (line_of t))) t"
  note line = key_block_line [OF line_no_eol [of t]]
  show ?thesis
  proof (cases "CHR 0x0A \<in> set t")
    case True
    then have "length ?l < length t" by (simp add: line_of_short)
    then have t: "t = ?l @ CHR 0x0A # ?u"
      using nth_length_takeWhile [of "\<lambda>c. c \<noteq> CHR 0x0A" t] takeWhile_dropWhile_id [of "\<lambda>c. c \<noteq> CHR 0x0A" t]
      by (metis (mono_tags) append_take_drop_id id_take_nth_drop takeWhile_eq_take)
    obtain found st where k: "key_block ?l ([], True, True) = (found, st)" by (rule prod.exhaust)
    obtain found2 st2 where k2: "key_block ?u ([], True, True) = (found2, st2)" by (rule prod.exhaust)
    have "key_block t ([], True, True) = (case (found, st) of (Some i, st1) \<Rightarrow> (Some i, st1)
        | (None, st1) \<Rightarrow> (map_option ((+) (length ?l)) (map_option Suc found2), st2))"
      by (subst t, subst key_block_append) (simp add: k k2 key_block_eol del: key_block.simps(2) split: option.split)
    then show ?thesis using line k k2 by (auto split: option.splits)
  next
    case False
    then have l: "?l = t" by (rule line_of_all)
    have u: "?u = []" using arg_cong [OF l, of length] by simp
    have "key_block ?l ([], True, True) = key_block t ([], True, True)" by (rule arg_cong [OF l])
    then show ?thesis using line unfolding u by (cases "line_key ?l") simp_all
  qed
qed

lemma key_end_colon: "CHR '':'' \<in> set l \<Longrightarrow> key_end l < length l \<and> drop (key_end l) l = CHR '':'' # drop (Suc (key_end l)) l"
  by (induction l) (auto simp: key_end_def)

lemma line_key_colon: "line_key l = Some k \<Longrightarrow> CHR '':'' \<in> set l \<and> 0 < key_end l"
  by (cases l) (auto simp: line_key_def key_end_def Let_def split: if_splits)

lemma key_end_le: "key_end l \<le> length l"
  by (simp add: key_end_def length_takeWhile_le)

lemma find_key_from_delimiter:
  assumes "line_key (line_of t) = Some k"
  shows "find_key key False (drop (key_end (line_of t)) t) =
    (if drop (key_end (line_of t)) t = [] then None
     else map_option ((+) (Suc (length (line_of t) - key_end (line_of t)))) (find_key key False (drop (Suc (length (line_of t))) t)))"
proof -
  let ?l = "line_of t" let ?n = "key_end ?l"
  have n: "?n \<le> length ?l" by (rule key_end_le)
  have t: "t = ?l @ drop (length ?l) t" by (metis append_take_drop_id takeWhile_eq_take)
  obtain u where u: "drop ?n ?l = CHR '':'' # u" using key_end_colon line_key_colon assms by blast
  have line: "line_of (drop ?n t) = drop ?n ?l"
  proof -
    have "drop ?n t = drop ?n ?l @ drop (length ?l) t" using n by (subst t) simp
    moreover have "CHR 0x0A \<notin> set (drop ?n ?l)" using line_no_eol [of t] by (auto dest: in_set_dropD)
    moreover have "line_of (drop (length ?l) t) = []"
      by (metis dropWhile_eq_drop hd_dropWhile takeWhile.simps(1) takeWhile_eq_Nil_iff)
    moreover have "CHR 0x0A \<notin> set (drop ?n ?l)" using line_no_eol [of t] by (auto dest: in_set_dropD)
    ultimately show ?thesis by (simp only: line_of_append line_of_short if_False append_Nil2)
  qed
  have "line_key (drop ?n ?l) = None" by (simp add: u line_key_def)
  moreover have "drop (Suc (length (drop ?n ?l))) (drop ?n t) = drop (Suc (length ?l)) t" using n by (simp add: add.commute)
  ultimately show ?thesis by (subst find_key.simps) (simp add: line Let_def)
qed

lemma no_key: "fst (key_block t ([], True, True)) = None \<Longrightarrow> find_key key strict t = None"
proof (induction "length t" arbitrary: t rule: less_induct)
  case less
  show ?case
  proof (cases "t = []")
    case ne: False
    let ?u = "drop (Suc (length (line_of t))) t"
    have none: "line_key (line_of t) = None" using key_block_text [OF ne] less.prems by (auto split: option.splits)
    obtain found st where k: "key_block ?u ([], True, True) = (found, st)" by (rule prod.exhaust)
    have "found = None" using key_block_text [OF ne] less.prems none k by (auto split: option.splits)
    then have "find_key key strict ?u = None" using less.hyps [of ?u] k ne by simp
    then show ?thesis by (subst find_key.simps) (simp add: none Let_def)
  qed simp
qed

text \<open>The search on the stream is the search line by line.\<close>

lemma seek_to_key_finds: "stream_ok s \<Longrightarrow>
    case find_key key strict (rest s) of
      Some n \<Rightarrow> flipper_format_stream_seek_to_key key strict s =
        (if n + 2 \<le> length (rest s) then (True, advance (n + 2) s) else (False, advance (length (rest s)) s))
    | None \<Rightarrow> \<exists>k \<le> length (rest s). flipper_format_stream_seek_to_key key strict s = (False, advance k s)"
proof (induction "length (rest s)" arbitrary: s rule: less_induct)
  case less
  let ?t = "rest s"
  show ?case
  proof (cases "?t = []")
    case True
    then show ?thesis by (auto simp: flipper_format_stream_seek_to_key.simps [of key strict s] eof_rest intro: exI [of _ 0])
  next
    case ne: False
    let ?l = "line_of ?t" and ?u = "drop (Suc (length (line_of (rest s)))) (rest s)"
    note ok = less.prems
    have unfold: "flipper_format_stream_seek_to_key key strict s = (case flipper_format_stream_read_valid_key s of (valid, read_key, s1) \<Rightarrow>
        if valid then if cstr read_key = key then string_stream_seek 2 StreamOffsetFromCurrent s1
          else if strict then (False, s1) else flipper_format_stream_seek_to_key key strict s1
        else flipper_format_stream_seek_to_key key strict s1)"
      by (subst flipper_format_stream_seek_to_key.simps) (simp add: eof_rest ne)
    have find: "find_key key strict ?t = (case line_key ?l of
        Some k \<Rightarrow> if cstr k = key then Some (key_end ?l) else if strict then None
          else map_option ((+) (Suc (length ?l))) (find_key key strict ?u)
      | None \<Rightarrow> map_option ((+) (Suc (length ?l))) (find_key key strict ?u))"
      by (subst find_key.simps) (simp add: ne Let_def)
    show ?thesis
    proof (cases "line_key ?l")
      case (Some k)
      let ?e = "key_end ?l" let ?s1 = "advance (key_end ?l) s"
      have e: "0 < ?e" "?e < length ?l" "length ?l \<le> length ?t"
        using line_key_colon [OF Some] key_end_colon [of ?l] line_of_le [of ?t] by auto
      have "key_block ?t ([], True, True) = (Some ?e, k, True, False)" using key_block_text [OF ne] Some by simp
      then have run: "flipper_format_stream_read_valid_key s = (True, k, ?s1)" by (simp add: read_valid_key_scan ok)
      have ok1: "stream_ok ?s1" using ok e by simp
      show ?thesis
      proof (cases "cstr k = key")
        case True
        then have "find_key key strict ?t = Some ?e" unfolding find Some by simp
        then show ?thesis using True seek_forward [OF ok1, of 2] e by (auto simp: unfold run)
      next
        case other: False
        show ?thesis
        proof (cases strict)
          case True
          then have "find_key key strict ?t = None" unfolding find Some using other by simp
          moreover have "flipper_format_stream_seek_to_key key strict s = (False, ?s1)" unfolding unfold run using other True by simp
          ultimately show ?thesis using e by (auto intro: exI [of _ ?e])
        next
          case lax: False
          have ne1: "drop ?e ?t \<noteq> []" using e by simp
          have sum: "?e + (Suc (length ?l - ?e) + n) = Suc (length ?l) + n" for n using e by simp
          have step: "flipper_format_stream_seek_to_key key strict s = flipper_format_stream_seek_to_key key strict ?s1"
            unfolding unfold run using other lax by simp
          have f: "find_key key strict ?t = map_option ((+) (Suc (length ?l))) (find_key key strict ?u)"
            unfolding find Some using other lax by simp
          have "find_key key strict (rest ?s1) = map_option ((+) (Suc (length ?l - ?e))) (find_key key strict ?u)"
            using find_key_from_delimiter [OF Some, of key] ne1 lax by simp
          then have f1: "find_key key strict (rest ?s1) = map_option ((+) (Suc (length ?l - ?e))) (find_key key strict ?u)" .
          have shorter: "length (rest ?s1) < length ?t" using e by simp
          show ?thesis
          proof (cases "find_key key strict ?u")
            case None
            then obtain k where "k \<le> length (rest ?s1)" "flipper_format_stream_seek_to_key key strict ?s1 = (False, advance k ?s1)"
              using less.hyps [OF shorter ok1] f1 by auto
            then show ?thesis using e by (auto simp: step f None intro!: exI [of _ "?e + k"])
          next
            case (Some n)
            then show ?thesis using less.hyps [OF shorter ok1] f1 e sum by (auto simp: step f add.assoc [symmetric])
          qed
        qed
      qed
    next
      case None
      obtain found st where k: "key_block ?u ([], True, True) = (found, st)" by (rule prod.exhaust)
      show ?thesis
      proof (cases found)
        case no: None
        have t0: "fst (key_block ?t ([], True, True)) = None" using key_block_text [OF ne] None k no by simp
        then obtain st2 where "key_block ?t ([], True, True) = (None, st2)" by (cases "key_block ?t ([], True, True)") auto
        then have run: "flipper_format_stream_read_valid_key s = (False, fst st2, advance (length ?t) s)"
          by (simp add: read_valid_key_scan ok)
        have "flipper_format_stream_seek_to_key key strict (advance (length ?t) s) = (False, advance (length ?t) s)"
          by (subst flipper_format_stream_seek_to_key.simps) (simp add: eof_rest)
        then show ?thesis using no_key [OF t0, of key strict] by (auto simp: unfold run intro: exI [of _ "length ?t"])
      next
        case (Some i)
        let ?s1 = "advance (Suc (length ?l)) s"
        have une: "?u \<noteq> []" using k Some by auto
        then have len: "Suc (length ?l) < length ?t" by simp
        have ok1: "stream_ok ?s1" using ok len by simp
        have "key_block ?t ([], True, True) = (Some (Suc (length ?l) + i), st)" using key_block_text [OF ne] None k Some by simp
        then have run: "flipper_format_stream_read_valid_key s = (True, fst st, advance i ?s1)"
          by (simp add: read_valid_key_scan ok)
        have run1: "flipper_format_stream_read_valid_key ?s1 = (True, fst st, advance i ?s1)"
          using k Some by (simp add: read_valid_key_scan ok1)
        have f: "find_key key strict ?t = map_option ((+) (Suc (length ?l))) (find_key key strict ?u)"
          unfolding find None by simp
        have step: "flipper_format_stream_seek_to_key key strict s = flipper_format_stream_seek_to_key key strict ?s1"
          by (subst (2) flipper_format_stream_seek_to_key.simps) (use une in \<open>simp add: unfold run run1 eof_rest\<close>)
        have shorter: "length (rest ?s1) < length ?t" using len by simp
        show ?thesis
        proof (cases "find_key key strict ?u")
          case None
          then obtain k where "k \<le> length (rest ?s1)" "flipper_format_stream_seek_to_key key strict ?s1 = (False, advance k ?s1)"
            using less.hyps [OF shorter ok1] by auto
          then show ?thesis using len by (auto simp: step f None intro!: exI [of _ "Suc (length ?l) + k"])
        next
          case (Some n)
          then show ?thesis using less.hyps [OF shorter ok1] len by (auto simp: step f add.assoc [symmetric])
        qed
      qed
    qed
  qed
qed

end
