(* ===== verification/Flipper_Format_Text.thy ===== *)
theory Flipper_Format_Text
  imports Flipper_Format
begin

text \<open>
  Documents of the text format: what is written as a list of entries, their text, and that reading, updating and
  deleting on the text is reading, updating and deleting in the list.
\<close>

unbundle bit_operations_syntax

section \<open>Numbers and their texts\<close>

lemma hex_digits_table: "\<forall>d \<in> set [0..<16]. hex_char_to_hex_nibble (hex_digit d) = Some (of_nat d) \<and> hex_digit d \<in> set ''0123456789ABCDEF''"
  by code_simp

lemma hex_digit_nibble: "d < 16 \<Longrightarrow> hex_char_to_hex_nibble (hex_digit d) = Some (of_nat d)"
  and hex_digit_set: "d < 16 \<Longrightarrow> hex_digit d \<in> set ''0123456789ABCDEF''"
  using hex_digits_table by (auto simp del: list.set)

lemma decimal_digits_table: "\<forall>d \<in> set [0..<10]. digit_value (hex_digit d) = Some d \<and> hex_digit d \<in> set ''0123456789''"
  by code_simp

lemma hex_digit_value: "d < 10 \<Longrightarrow> digit_value (hex_digit d) = Some d \<and> hex_digit d \<in> set ''0123456789''"
  using decimal_digits_table by (auto simp del: list.set)

lemma decimal_digits: "set (decimal n) \<subseteq> set ''0123456789'' \<and> decimal n \<noteq> []"
proof (induction n rule: decimal.induct)
  case (1 n)
  then show ?case using hex_digit_value [of n] hex_digit_value [of "n mod 10"] by (subst (1 2) decimal.simps) auto
qed

lemma decimal_number: "number 10 0 (decimal n) = n"
proof (induction n rule: decimal.induct)
  case (1 n)
  show ?case
  proof (cases "n < 10")
    case True
    then show ?thesis using hex_digit_value [of n] by (subst decimal.simps) (simp add: number_def)
  next
    case False
    then have "foldl (\<lambda>n c. n * 10 + the (digit_value c)) 0 (decimal (n div 10)) = n div 10" using 1 by (simp add: number_def)
    then show ?thesis using False hex_digit_value [of "n mod 10"] by (subst decimal.simps) (simp add: number_def)
  qed
qed

lemma decimal_zero: "hd (decimal n) = CHR ''0'' \<Longrightarrow> n = 0"
proof (induction n rule: decimal.induct)
  case (1 n)
  show ?case
  proof (cases "n < 10")
    case True
    then have "hex_digit n = CHR ''0''" using 1(2) by (subst (asm) decimal.simps) simp
    then have "digit_value (CHR ''0'') = Some n" using hex_digit_value [OF True] by simp
    then show ?thesis by (simp add: digit_value_def code_def)
  next
    case False
    then have "hd (decimal (n div 10)) = CHR ''0''" using 1(2) decimal_digits [of "n div 10"] by (subst (asm) decimal.simps) (simp add: hd_append)
    then have "n div 10 = 0" using 1(1) False by simp
    then show ?thesis using False by simp
  qed
qed

lemma digit_char: "\<forall>c \<in> set ''0123456789''. is_digit 10 c \<and> c \<noteq> CHR ''-'' \<and> c \<noteq> CHR ''+'' \<and> \<not> (9 \<le> code c \<and> code c \<le> 13) \<and>
    c \<noteq> CHR '' '' \<and> c \<noteq> CHR ''x'' \<and> c \<noteq> CHR ''X'' \<and> c \<noteq> CHR ''b'' \<and> c \<noteq> CHR ''B''"
  by code_simp

lemma read_number_decimal: "n \<le> limit \<Longrightarrow> read_number 10 limit (decimal n) = Inr (n, length (decimal n), [])"
proof -
  assume n: "n \<le> limit"
  have tw: "takeWhile (is_digit 10) (decimal n) = decimal n" using decimal_digits [of n] digit_char by (subst takeWhile_eq_all_conv) blast
  show ?thesis using n decimal_number [of n] by (simp add: read_number_def Let_def tw)
qed

text \<open>A digit sequence behind the sign, as \<^verbatim>\<open>strint\<close> takes it.\<close>

lemma infer_decimal: "infer_base (decimal n) = (if n = 0 then (8, []) else (10, decimal n))"
proof (cases "n = 0")
  case True
  have "decimal 0 = ''0''" by (subst decimal.simps) (simp add: hex_digit_def)
  then show ?thesis using True by (simp add: infer_base_def has_prefix_def)
next
  case False
  then have "hd (decimal n) \<noteq> CHR ''0''" using decimal_zero by blast
  moreover from this have "\<not> has_prefix (decimal n) a b" for a b
    by (cases "decimal n") (auto simp: has_prefix_def)
  ultimately show ?thesis using False by (simp add: infer_base_def)
qed

lemma skip_decimal: "skip_whitespace (decimal n) = decimal n" "\<not> is_sign (decimal n)"
proof -
  obtain c ds where d: "decimal n = c # ds" "c \<in> set ''0123456789''" using decimal_digits [of n] by (cases "decimal n") auto
  then show "skip_whitespace (decimal n) = decimal n" "\<not> is_sign (decimal n)"
    using bspec [OF digit_char d(2)] by (auto simp: is_sign_def)
qed

lemma read_integer_print:
  assumes "lo \<le> i" and "i \<le> hi" and "lo \<le> 0"
  shows "read_integer lo hi 10 (print_int i) = Inr (i, [])"
proof -
  have digits: "(case (if m = 0 then (8, []) else (10 :: u8, decimal m)) of (b, ds) \<Rightarrow> read_number 10 limit ds) =
      Inr (m, if m = 0 then 0 else length (decimal m), [])" if "m \<le> limit" for m limit
    using read_number_decimal [OF that] by (auto simp: read_number_def number_def)
  show ?thesis
  proof (cases "i < 0")
    case False
    define m where "m = nat i"
    have m: "i = int m" "m \<le> nat hi" using False assms(2) by (auto simp: m_def)
    have "read_signed (nat (- lo)) (nat hi) 10 (decimal m) = Inr (m, False, [])"
      using digits [OF m(2)] decimal_digits [of m]
      by (simp add: read_signed_def skip_decimal infer_decimal Let_def split: if_splits)
    then show ?thesis using m(1) by (simp add: read_integer_def print_int_def)
  next
    case True
    define m where "m = nat (- i)"
    have m: "i = - int m" "0 < m" "m \<le> nat (- lo)" "nat (- lo) \<noteq> 0" using True assms by (auto simp: m_def)
    have "skip_whitespace (CHR ''-'' # decimal m) = CHR ''-'' # decimal m" by (simp add: code_def)
    moreover have "is_sign (CHR ''-'' # decimal m)" by (simp add: is_sign_def)
    ultimately have "read_signed (nat (- lo)) (nat hi) 10 (CHR ''-'' # decimal m) = Inr (m, True, [])"
      using digits [OF m(3)] decimal_digits [of m] m(2,4)
      by (simp add: read_signed_def skip_decimal infer_decimal Let_def split: if_splits)
    then show ?thesis using m True by (simp add: read_integer_def print_int_def m_def [symmetric])
  qed
qed


lemma scan_uint32_print: "scan_uint32 (decimal (unat x)) = Inr (Some x)"
proof -
  have "int (unat x) \<le> 2 ^ 32 - 1" using unsigned_less [of x, where ?'a = int] by simp
  then have "read_integer 0 (2 ^ 32 - 1) 10 (decimal (unat x)) = Inr (int (unat x), [])"
    using read_integer_print [of 0 "int (unat x)" "2 ^ 32 - 1"] by (simp add: print_int_def)
  moreover have "strint_to_uint32 str base = map_sum id (apfst word_of_int) (read_integer 0 (2 ^ 32 - 1) base str)" for str base
    using unsigned_exact [of "2 ^ 32 - 1" str base, where 'a = 32] by (simp add: strint_to_uint32_def)
  moreover have "cstr (decimal n) = decimal n" for n
    using decimal_digits [of n] by (auto simp: cstr_def takeWhile_eq_all_conv)
  ultimately show ?thesis by (simp add: scan_uint32_def)
qed

lemma scan_int32_print: "- (2 ^ 31) < i \<Longrightarrow> i < 2 ^ 31 \<Longrightarrow> scan_int32 (print_int i) = Inr (Some i)"
proof -
  assume i: "- (2 ^ 31) < i" "i < 2 ^ 31"
  then have "read_integer (- (2 ^ 31)) (2 ^ 31 - 1) 10 (print_int i) = Inr (i, [])" by (intro read_integer_print) simp_all
  moreover have "strint_to_int32 str base = (case read_integer (- (2 ^ 31)) (2 ^ 31 - 1) base str of Inl e \<Rightarrow> Inr (Inl e)
     | Inr (i, str') \<Rightarrow> if i = - (2 ^ 31) then Inl UndefinedBehaviour else Inr (Inr (i, str')))" for str base
    using signed_exact [of 31 32 str base] by (simp add: strint_to_int32_def split: sum.splits)
  moreover have "cstr (print_int i) = print_int i"
    using decimal_digits [of "nat i"] decimal_digits [of "nat (- i)"] by (auto simp: print_int_def cstr_def takeWhile_eq_all_conv)
  ultimately show ?thesis using i by (simp add: scan_int32_def)
qed

lemma nibble_16: "unat (drop_bit n (w :: 'a::len word) AND 0xF) < 16"
proof -
  have "(drop_bit n w AND 0xF) = take_bit 4 (drop_bit n w)" by (simp add: take_bit_eq_mask mask_numeral)
  then show ?thesis using take_bit_nat_less_exp [of 4 "unat (drop_bit n w)"] by (simp add: unsigned_take_bit_eq)
qed

lemma word_of_unat: "(of_nat (unat w) :: u8) = ucast w"
  by (rule bit_word_eqI) (simp add: bit_simps)

lemma hex_pair: "hex_char_to_uint8 (hex_digit (unat (drop_bit (8 * n + 4) w AND 0xF))) (hex_digit (unat (drop_bit (8 * n) w AND 0xF))) =
    Some (ucast (drop_bit (8 * n) (w :: 'a::len word)))"
proof -
  have m: "(0xF :: 'a word) = mask 4" by (simp add: mask_numeral)
  have "push_bit 4 (ucast (drop_bit (8 * n + 4) w AND 0xF)) OR ucast (drop_bit (8 * n) w AND 0xF) = (ucast (drop_bit (8 * n) w) :: u8)"
    unfolding m by (rule bit_word_eqI) (auto simp: bit_simps add.assoc [symmetric] dest: bit_imp_le_length)
  then show ?thesis by (simp add: hex_char_to_uint8_def hex_digit_nibble nibble_16 word_of_unat)
qed

lemma print_hex_Suc: "print_hex (Suc n) w = hex_digit (unat (drop_bit (4 * n) w AND 0xF)) # print_hex n w"
  by (simp add: print_hex_def)

lemma hex_bytes_print: "hex_bytes n (print_hex (2 * n) w) = Some (bytes_be n w)"
proof (induction n)
  case (Suc n)
  have p: "print_hex (2 * Suc n) w =
      hex_digit (unat (drop_bit (8 * n + 4) w AND 0xF)) # hex_digit (unat (drop_bit (8 * n) w AND 0xF)) # print_hex (2 * n) w"
  proof -
    have "2 * Suc n = Suc (Suc (2 * n))" "4 * Suc (2 * n) = 8 * n + 4" "4 * (2 * n) = 8 * n" by simp_all
    then show ?thesis by (simp only: print_hex_Suc)
  qed
  show ?case unfolding p by (simp add: hex_pair Suc)
qed (simp add: print_hex_def)

lemma scan_hex_print: "scan_hex (print_hex 2 x) = Inr (Some x)"
proof -
  have "hex_bytes 1 (print_hex 2 x) = Some [x]" using hex_bytes_print [of 1 x] by (simp add: bytes_be_def)
  then have "hex_char_to_uint8 (print_hex 2 x ! 0) (print_hex 2 x ! 1) = Some x"
    by (simp add: print_hex_def upt_rec split: option.splits)
  then show ?thesis by (simp add: scan_hex_def print_hex_def)
qed

lemma print_hex_halves: "print_hex 8 (ucast (drop_bit 32 x) :: u32) @ print_hex 8 (ucast x :: u32) = print_hex 16 (x :: u64)"
proof -
  have n: "unat (drop_bit (4 * i) (ucast (drop_bit k x) :: u32) AND 0xF) = unat (drop_bit (4 * i + k) x AND 0xF)" if "i < 8" for i k
  proof -
    have m: "(0xF :: u32) = mask 4" "(0xF :: u64) = mask 4" by (simp_all add: mask_numeral)
    have "ucast (drop_bit (4 * i) (ucast (drop_bit k x) :: u32) AND 0xF) = (drop_bit (4 * i + k) x AND 0xF)"
      unfolding m by (rule bit_word_eqI) (use that in \<open>auto simp: bit_simps add.assoc [symmetric] add.commute\<close>)
    then have "unat (ucast (drop_bit (4 * i) (ucast (drop_bit k x) :: u32) AND 0xF) :: u64) = unat (drop_bit (4 * i + k) x AND 0xF)" by simp
    moreover have "unat (drop_bit (4 * i) (ucast (drop_bit k x) :: u32) AND 0xF) < 2 ^ 64" by (rule less_trans [OF nibble_16]) simp
    ultimately show ?thesis by (simp add: unsigned_ucast_eq take_bit_nat_eq_self)
  qed
  have "rev [0..<16] = map (\<lambda>i. i + 8) (rev [0..<8]) @ rev [0..<8]" by (simp add: upt_rec)
  then show ?thesis unfolding print_hex_def
    using n [of _ 32] n [of _ 0] by (simp add: algebra_simps)
qed

lemma scan_hex_uint64_print: "scan_hex_uint64 (print_hex 16 x) = Inr (Some x)"
proof -
  have "hex_bytes 8 (print_hex 16 x) = Some (bytes_be 8 x)" using hex_bytes_print [of 8 x] by simp
  then show ?thesis by (simp add: scan_hex_uint64_def hex_chars_to_uint64_def foldl_byte_in_bytes print_hex_def take_bit_word_eq_self)
qed

lemma scan_bool_print: "scan_bool (if b then ''true'' else ''false'') = Inr (Some b)"
proof -
  have "scan_bool ''true'' = Inr (Some True)" "scan_bool ''false'' = Inr (Some False)" by code_simp+
  then show ?thesis by simp
qed


section \<open>Documents\<close>

datatype format_entry = Entry string stream_data | Comment string | Empty_Line

fun joined :: "string list \<Rightarrow> string" where
  "joined [] = []"
| "joined [t] = t"
| "joined (t # ts) = t @ '' '' @ joined ts"

fun entry_line :: "format_entry \<Rightarrow> string" where
  "entry_line (Entry k d) = k @ '': '' @ joined (value_texts d)"
| "entry_line (Comment c) = ''# '' @ c"
| "entry_line Empty_Line = []"

definition entry_text :: "format_entry \<Rightarrow> string" where
  "entry_text e = entry_line e @ [CHR 0x0A]"

definition document :: "format_entry list \<Rightarrow> string" where
  "document es = concat (map entry_text es)"

lemma document_simps [simp]: "document [] = []" "document (e # es) = entry_text e @ document es"
  "document (es @ es') = document es @ document es'"
  by (simp_all add: document_def)

text \<open>What can be written so that it is read: keys without special characters, texts of one line that are not empty, and not
  the least value of \<^verbatim>\<open>int32_t\<close>.\<close>

definition plain :: "string \<Rightarrow> bool" where
  "plain str \<longleftrightarrow> CHR 0x0A \<notin> set str \<and> CHR 0x0D \<notin> set str \<and> CHR 0x00 \<notin> set str"

definition good_key :: "string \<Rightarrow> bool" where
  "good_key k \<longleftrightarrow> plain k \<and> k \<noteq> [] \<and> hd k \<noteq> CHR ''#'' \<and> CHR '':'' \<notin> set k"

fun good_data :: "stream_data \<Rightarrow> bool" where
  "good_data IgnoreData \<longleftrightarrow> False"
| "good_data (StrData str) \<longleftrightarrow> str \<noteq> [] \<and> plain str"
| "good_data (Int32Data xs) \<longleftrightarrow> (\<forall>i \<in> set xs. - (2 ^ 31) < i \<and> i < 2 ^ 31)"
| "good_data d \<longleftrightarrow> True"

fun good_entry :: "format_entry \<Rightarrow> bool" where
  "good_entry (Entry k d) \<longleftrightarrow> good_key k \<and> good_data d"
| "good_entry (Comment c) \<longleftrightarrow> plain c"
| "good_entry Empty_Line \<longleftrightarrow> True"

section \<open>Writing\<close>

lemma format_write_at_end: "flipper_format_stream_write data (at_end str) = (True, at_end (str @ data))"
  by (simp add: flipper_format_stream_write_def write_at_end)

lemma joined_Cons: "joined (t # ts) = (if ts = [] then t else t @ '' '' @ joined ts)"
  by (cases ts) simp_all

lemma write_values_at_end: "write_values texts (at_end str) = (True, at_end (str @ joined texts))"
proof (induction texts arbitrary: str)
  case (Cons t ts)
  then show ?case by (simp add: joined_Cons format_write_at_end)
qed simp

lemma write_line_at_end: "d \<noteq> IgnoreData \<Longrightarrow>
    flipper_format_stream_write_value_line \<lparr>write_key = k, write_data = d\<rparr> (at_end str) = (True, at_end (str @ entry_text (Entry k d)))"
  by (simp add: flipper_format_stream_write_value_line_def flipper_format_stream_write_key_def flipper_format_stream_write_eol_def
      format_write_at_end write_values_at_end entry_text_def format_chars)

lemma write_comment_at_end: "flipper_format_stream_write_comment_cstr c (at_end str) = (True, at_end (str @ entry_text (Comment c)))"
  by (simp add: flipper_format_stream_write_comment_cstr_def flipper_format_stream_write_eol_def format_write_at_end
      entry_text_def format_chars)

lemma write_eol_at_end: "flipper_format_stream_write_eol (at_end str) = (True, at_end (str @ entry_text Empty_Line))"
  by (simp add: flipper_format_stream_write_eol_def format_write_at_end entry_text_def format_chars)

section \<open>The texts of values\<close>

definition good_value :: "string \<Rightarrow> bool" where
  "good_value v \<longleftrightarrow> plain v \<and> v \<noteq> [] \<and> (\<forall>c \<in> set v. \<not> flipper_format_stream_is_space c)"

lemma number_chars: "\<forall>c \<in> set ''-0123456789ABCDEFtruefals''. \<not> flipper_format_stream_is_space c \<and> c \<notin> {CHR 0x0A, CHR 0x0D, CHR 0x00}"
  by (simp add: flipper_format_stream_is_space_def format_chars)

lemma good_number: "v \<noteq> [] \<Longrightarrow> set v \<subseteq> set ''-0123456789ABCDEFtruefals'' \<Longrightarrow> good_value v"
  using number_chars unfolding good_value_def plain_def by blast

lemma print_hex_chars: "set (print_hex n w) \<subseteq> set ''0123456789ABCDEF''"
  using hex_digit_set nibble_16 unfolding print_hex_def set_map by (intro image_subsetI) blast

lemma char_sets: "set ''0123456789'' \<subseteq> set ''-0123456789ABCDEFtruefals''" "set ''0123456789ABCDEF'' \<subseteq> set ''-0123456789ABCDEFtruefals''"
  "set ''true'' \<subseteq> set ''-0123456789ABCDEFtruefals''" "set ''false'' \<subseteq> set ''-0123456789ABCDEFtruefals''"
  "CHR ''-'' \<in> set ''-0123456789ABCDEFtruefals''"
  by code_simp+

lemma good_decimal: "good_value (decimal n)"
  using decimal_digits [of n] char_sets(1) by (intro good_number) blast+

lemma good_int: "good_value (print_int i)"
proof -
  obtain D where D: "D = set ''0123456789''" by blast
  have "set (print_int i) \<subseteq> insert (CHR ''-'') D" "print_int i \<noteq> []"
    using decimal_digits [of "nat i", folded D] decimal_digits [of "nat (- i)", folded D] by (auto simp: print_int_def)
  note this [unfolded D]
  moreover have "insert (CHR ''-'') (set ''0123456789'') \<subseteq> set ''-0123456789ABCDEFtruefals''"
    using char_sets(1,5) by blast
  ultimately show ?thesis by (intro good_number) blast+
qed

lemma good_hex: "0 < n \<Longrightarrow> good_value (print_hex n w)"
  using print_hex_chars [of n w] char_sets(2) by (intro good_number) (auto simp: print_hex_def simp del: list.set)

lemma good_boolean: "good_value ''true''" "good_value ''false''"
  using char_sets(3,4) by (simp_all add: good_number del: list.set)

lemma good_texts:
  assumes "good_data d" and "\<forall>str. d \<noteq> StrData str"
  shows "\<forall>v \<in> set (value_texts d). good_value v"
proof (cases d)
  case (BoolData xs)
  have "good_value (if b then ''true'' else ''false'')" for b by (cases b) (simp_all only: good_boolean if_True if_False)
  then show ?thesis unfolding BoolData value_texts.simps set_map by blast
qed (use assms in \<open>simp_all add: good_decimal good_int good_hex print_hex_halves\<close>)


section \<open>Reading the values of a line\<close>

lemma value_block_word: "\<forall>c \<in> set v. \<not> flipper_format_stream_is_space c \<and> c \<noteq> CHR 0x0A \<Longrightarrow>
    value_block (v @ u) (ReadValue, p) =
      (let (found, st) = value_block u (ReadValue, p @ v) in (map_option (apfst ((+) (length v))) found, st))"
proof (induction v arbitrary: p)
  case Nil
  obtain found st where k: "value_block u (ReadValue, p) = (found, st)" by (rule prod.exhaust)
  have "map_option (apfst (\<lambda>a. a)) found = found" by (cases found) auto
  then show ?case by (simp add: k)
next
  case (Cons c v)
  obtain found st where k: "value_block u (ReadValue, p @ c # v) = (found, st)" by (rule prod.exhaust)
  have c: "value_char c (ReadValue, p) = Inr (ReadValue, p @ [c])" using Cons.prems by (simp add: format_chars)
  have "value_block (v @ u) (ReadValue, p @ [c]) = (map_option (apfst ((+) (length v))) found, st)"
    using Cons.IH [of "p @ [c]"] Cons.prems k by simp
  moreover have "map_option (apfst Suc) (map_option (apfst ((+) (length v))) found) = map_option (apfst ((+) (length (c # v)))) found"
    by (cases found) auto
  ultimately show ?case by (simp only: append_Cons value_block.simps(2) c sum.case k Let_def split)
qed

lemma value_block_good:
  assumes "good_value v"
  shows "value_block (v @ CHR 0x0A # t) (LeadingSpace, []) = (Some (length v, Some True), ReadValue, v)"
    and "\<not> flipper_format_stream_is_space c \<Longrightarrow> c \<noteq> CHR 0x0A \<Longrightarrow>
      value_block (v @ CHR '' '' # c # t) (LeadingSpace, []) = (Some (length v + 1, Some False), TrailingSpace, v)"
proof -
  obtain a w where v: "v = a # w" using assms by (cases v) (auto simp: good_value_def)
  have a: "\<not> flipper_format_stream_is_space a" "a \<noteq> CHR 0x0A" using assms by (auto simp: v good_value_def plain_def)
  have w: "\<forall>c \<in> set w. \<not> flipper_format_stream_is_space c \<and> c \<noteq> CHR 0x0A" using assms by (auto simp: v good_value_def plain_def)
  have lead: "value_block (v @ u) (LeadingSpace, []) =
      (let (found, st) = value_block u (ReadValue, v) in (map_option (apfst Suc) (map_option (apfst ((+) (length w))) found), st))" for u
    using value_block_word [OF w, of u "[a]"] a by (simp add: v format_chars split: prod.splits)
  have eol: "\<not> flipper_format_stream_is_space (CHR 0x0A)" "flipper_format_stream_is_space (CHR '' '')"
    by (simp_all add: flipper_format_stream_is_space_def format_chars)
  show "value_block (v @ CHR 0x0A # t) (LeadingSpace, []) = (Some (length v, Some True), ReadValue, v)"
    unfolding lead using eol by (simp add: v format_chars)
  show "value_block (v @ CHR '' '' # c # t) (LeadingSpace, []) = (Some (length v + 1, Some False), TrailingSpace, v)"
    if "\<not> flipper_format_stream_is_space c" "c \<noteq> CHR 0x0A"
    unfolding lead using eol that by (simp add: v format_chars)
qed

lemma read_values_joined:
  assumes "stream_ok s" and "rest s = joined vs @ CHR 0x0A # t"
    and "list_all2 (\<lambda>v x. good_value v \<and> scan v = Inr (Some x)) vs xs"
  shows "read_values scan (length vs) s = Inr (Some xs, advance (length (joined vs)) s)"
  using assms
proof (induction vs arbitrary: s xs)
  case (Cons v vs)
  obtain x ys where xs: "xs = x # ys" and v: "good_value v" "scan v = Inr (Some x)"
    and vs: "list_all2 (\<lambda>v x. good_value v \<and> scan v = Inr (Some x)) vs ys"
    using Cons.prems(3) by (auto simp: list_all2_Cons1)
  note ok = Cons.prems(1)
  show ?case
  proof (cases vs)
    case Nil
    then have "rest s = v @ CHR 0x0A # t" using Cons.prems(2) by simp
    then have "flipper_format_stream_read_value s = (Some True, v, advance (length v) s)"
      using value_block_good(1) [OF v(1), of t] by (simp add: flipper_format_stream_read_value_def read_value_scan ok)
    then show ?thesis using v(2) vs Nil by (simp add: xs)
  next
    case (Cons w ws)
    have w: "good_value w" using vs Cons by (auto simp: list_all2_Cons1)
    then obtain c u where c: "joined vs = c # u" "\<not> flipper_format_stream_is_space c" "c \<noteq> CHR 0x0A"
      using Cons by (cases w; cases ws) (auto simp: good_value_def plain_def joined_Cons)
    then have r: "rest s = v @ CHR '' '' # c # (u @ CHR 0x0A # t)" using Cons.prems(2) Cons by (simp add: joined_Cons)
    then have read: "flipper_format_stream_read_value s = (Some False, v, advance (length v + 1) s)"
      using value_block_good(2) [OF v(1) c(2,3), of "u @ CHR 0x0A # t"]
      by (simp add: flipper_format_stream_read_value_def read_value_scan ok)
    let ?s1 = "advance (length v + 1) s"
    have "stream_ok ?s1" "rest ?s1 = joined vs @ CHR 0x0A # t" using ok r c(1) by simp_all
    from Cons.IH [OF this vs] show ?thesis using read v(2) Cons
      by (simp add: xs joined_Cons [of v] algebra_simps)
  qed
qed simp

lemma read_line_plain:
  assumes "stream_ok s" and "rest s = str @ CHR 0x0A # t" and "plain str" and "str \<noteq> []"
  shows "flipper_format_stream_read_line s = (True, str, advance (length str) s)"
proof -
  have "line_of (rest s) = str" using assms(2,3) by (simp add: takeWhile_append2 plain_def) (auto simp: takeWhile_eq_all_conv line_of_append)
  moreover have "no_returns str = str" using assms(3) by (auto simp: plain_def filter_id_conv)
  ultimately show ?thesis using assms(1,4) by (simp add: flipper_format_stream_read_line_def read_line_scan)
qed

fun data_type :: "stream_data \<Rightarrow> FlipperStreamValue" where
  "data_type IgnoreData = FlipperStreamValueIgnore"
| "data_type (StrData str) = FlipperStreamValueStr"
| "data_type (HexData xs) = FlipperStreamValueHex"
| "data_type (Int32Data xs) = FlipperStreamValueInt32"
| "data_type (Uint32Data xs) = FlipperStreamValueUint32"
| "data_type (HexUint64Data xs) = FlipperStreamValueHexUint64"
| "data_type (BoolData xs) = FlipperStreamValueBool"

definition data_count :: "stream_data \<Rightarrow> nat" where
  "data_count d = length (value_texts d)"

text \<open>Behind its key, a value is read as what was written.\<close>

lemma read_written_values:
  assumes "flipper_format_stream_seek_to_key key strict s = (True, s1)" and "stream_ok s1"
    and "rest s1 = joined (value_texts d) @ CHR 0x0A # t" and "good_data d"
  shows "flipper_format_stream_read_value_line key (data_type d) (data_count d) strict s =
    Inr (Some d, advance (length (joined (value_texts d))) s1)"
proof (cases "\<exists>str. d = StrData str")
  case True
  then obtain str where d: "d = StrData str" by blast
  have "flipper_format_stream_read_line s1 = (True, str, advance (length str) s1)"
    by (rule read_line_plain [OF assms(2)]) (use assms(3,4) d in simp_all)
  then show ?thesis using assms(1) by (simp add: flipper_format_stream_read_value_line_def d)
next
  case False
  then have good: "\<forall>v \<in> set (value_texts d). good_value v" using good_texts assms(4) by blast
  have vals: "read_values scan (length (value_texts d)) s1 = Inr (Some xs, advance (length (joined (value_texts d))) s1)"
    if "value_texts d = map f xs" "\<forall>x \<in> set xs. scan (f x) = Inr (Some x)" for scan f and xs :: "'x list"
    by (rule read_values_joined [OF assms(2,3)]) (use good that in \<open>auto simp: list_all2_conv_all_nth\<close>)
  show ?thesis
  proof (cases d)
    case (HexData xs)
    show ?thesis using vals [of "print_hex 2" xs scan_hex] assms(1)
      by (simp add: flipper_format_stream_read_value_line_def HexData data_count_def data_of_def scan_hex_print)
  next
    case (Int32Data xs)
    have "\<forall>x \<in> set xs. scan_int32 (print_int x) = Inr (Some x)" using assms(4) Int32Data scan_int32_print by simp
    then show ?thesis using vals [of print_int xs scan_int32] assms(1)
      by (simp add: flipper_format_stream_read_value_line_def Int32Data data_count_def data_of_def)
  next
    case (Uint32Data xs)
    show ?thesis using vals [of "\<lambda>x. decimal (unat x)" xs scan_uint32] assms(1)
      by (simp add: flipper_format_stream_read_value_line_def Uint32Data data_count_def data_of_def scan_uint32_print)
  next
    case (HexUint64Data xs)
    show ?thesis using vals [of "print_hex 16" xs scan_hex_uint64] assms(1)
      by (simp add: flipper_format_stream_read_value_line_def HexUint64Data data_count_def data_of_def scan_hex_uint64_print print_hex_halves)
  next
    case (BoolData xs)
    show ?thesis using vals [of "\<lambda>x. if x then ''true'' else ''false''" xs scan_bool] assms(1) scan_bool_print
      by (simp add: flipper_format_stream_read_value_line_def BoolData data_count_def data_of_def)
  qed (use False assms(4) in auto)
qed


section \<open>Finding a key in a document\<close>

lemma takeWhile_until: "x \<notin> set k \<Longrightarrow> takeWhile (\<lambda>c. c \<noteq> x) (k @ x # u) = k"
  by (induction k) auto

lemma joined_chars: "set (joined ts) \<subseteq> insert (CHR '' '') (\<Union> (set ` set ts))"
  by (induction ts) (auto simp: joined_Cons)

lemma data_no_eol: "good_data d \<Longrightarrow> CHR 0x0A \<notin> set (joined (value_texts d)) \<and> CHR 0x00 \<notin> set (joined (value_texts d))"
proof (cases "\<exists>str. d = StrData str")
  case False
  assume "good_data d"
  then have "\<forall>v \<in> set (value_texts d). good_value v" using good_texts False by blast
  then show ?thesis using joined_chars [of "value_texts d"] by (auto simp: good_value_def plain_def)
qed (auto simp: plain_def)

lemma entry_line_chars: "good_entry e \<Longrightarrow> CHR 0x0A \<notin> set (entry_line e) \<and> CHR 0x00 \<notin> set (entry_line e)"
  using data_no_eol by (cases e) (auto simp: good_key_def plain_def)

lemma entry_line_key:
  assumes "good_entry e"
  shows "line_key (entry_line e) = (case e of Entry k d \<Rightarrow> Some k | _ \<Rightarrow> None)"
    and "e = Entry k d \<Longrightarrow> key_end (entry_line e) = length k \<and> cstr k = k"
proof -
  have key: "takeWhile (\<lambda>c. c \<noteq> CHR '':'') (k @ CHR '':'' # u) = k" "no_returns k = k" "cstr k = k" if "good_key k" for k u
    using that by (simp add: good_key_def takeWhile_until) (use that in \<open>auto simp: good_key_def plain_def cstr_def takeWhile_eq_all_conv filter_id_conv\<close>)
  show "line_key (entry_line e) = (case e of Entry k d \<Rightarrow> Some k | _ \<Rightarrow> None)"
  proof (cases e)
    case (Entry k d)
    then have k: "good_key k" using assms by simp
    then have "hd (k @ u) = hd k" "hd k \<noteq> CHR ''#''" "hd k \<noteq> CHR '':''" "k \<noteq> []" for u
      by (cases k; auto simp: good_key_def)+
    then show ?thesis using key [OF k] by (simp add: Entry line_key_def Let_def)
  qed (auto simp: line_key_def Let_def)
  show "key_end (entry_line e) = length k \<and> cstr k = k" if "e = Entry k d"
    using assms key(1) [of k "CHR '' '' # joined (value_texts d)"] key(3) [of k] that by (simp add: key_end_def)
qed

lemma line_of_entry: "good_entry e \<Longrightarrow> line_of (entry_text e @ t) = entry_line e"
  using entry_line_chars [of e] by (simp add: entry_text_def takeWhile_until)

lemma find_key_entry:
  assumes "good_entry e"
  shows "find_key key strict (entry_text e @ t) =
    (case e of Entry k d \<Rightarrow> if k = key then Some (length key) else if strict then None
        else map_option ((+) (length (entry_text e))) (find_key key strict t)
     | _ \<Rightarrow> map_option ((+) (length (entry_text e))) (find_key key strict t))"
proof -
  have "drop (Suc (length (entry_line e))) (entry_text e @ t) = t" "length (entry_text e) = Suc (length (entry_line e))"
    by (simp_all add: entry_text_def)
  moreover have "entry_text e @ t \<noteq> []" by (simp add: entry_text_def)
  ultimately have find: "find_key key strict (entry_text e @ t) = (case line_key (entry_line e) of
      Some k \<Rightarrow> if cstr k = key then Some (key_end (entry_line e)) else if strict then None
        else map_option ((+) (length (entry_text e))) (find_key key strict t)
    | None \<Rightarrow> map_option ((+) (length (entry_text e))) (find_key key strict t))"
    by (subst find_key.simps) (simp only: line_of_entry [OF assms] if_False Let_def)
  show ?thesis
  proof (cases e)
    case (Entry k d)
    then show ?thesis using entry_line_key [OF assms] unfolding find by (cases "k = key") simp_all
  next
    case (Comment c)
    then show ?thesis using entry_line_key(1) [OF assms] unfolding find by simp
  next
    case Empty_Line
    then show ?thesis using entry_line_key(1) [OF assms] unfolding find by simp
  qed
qed

text \<open>The entries before the one with the key, its data, and the entries behind it.\<close>

fun split_entry :: "string \<Rightarrow> format_entry list \<Rightarrow> (format_entry list \<times> stream_data \<times> format_entry list) option" where
  "split_entry key [] = None"
| "split_entry key (e # es) =
     (case e of
        Entry k d \<Rightarrow> if k = key then Some ([], d, es) else map_option (\<lambda>(a, d, b). (e # a, d, b)) (split_entry key es)
      | _ \<Rightarrow> map_option (\<lambda>(a, d, b). (e # a, d, b)) (split_entry key es))"

lemma split_entry_Some: "split_entry key es = Some (a, d, b) \<Longrightarrow> es = a @ Entry key d # b"
  by (induction es arbitrary: a) (auto split: format_entry.splits if_splits)

lemma find_key_document: "\<forall>e \<in> set es. good_entry e \<Longrightarrow> find_key key False (document es) =
    map_option (\<lambda>(a, d, b). length (document a) + length key) (split_entry key es)"
proof (induction es)
  case (Cons e es)
  then show ?case by (cases "split_entry key es") (auto simp: find_key_entry split: format_entry.splits)
qed simp

text \<open>Entries without keys are passed over, in strict mode too.\<close>

fun keyless :: "format_entry \<Rightarrow> bool" where
  "keyless (Entry k d) \<longleftrightarrow> False"
| "keyless e \<longleftrightarrow> True"

lemma find_next_key: "\<forall>e \<in> set pre. keyless e \<and> good_entry e \<Longrightarrow> good_entry (Entry k d) \<Longrightarrow>
    find_key k strict (document (pre @ Entry k d # es)) = Some (length (document pre) + length k)"
  by (induction pre) (auto simp: find_key_entry split: format_entry.splits)

lemma read_next_entry:
  assumes "\<forall>e \<in> set pre. keyless e \<and> good_entry e" and "good_entry (Entry k d)" and "stream_ok s"
    and "rest s = document (pre @ Entry k d # es)"
  obtains s1 where "flipper_format_stream_read_value_line k (data_type d) (data_count d) strict s = Inr (Some d, s1)"
    "stream_ok s1" "rest s1 = document (Empty_Line # es)"
proof -
  let ?n = "length (document pre) + length k"
  have f: "find_key k strict (rest s) = Some ?n" using find_next_key [OF assms(1,2)] assms(4) by simp
  have len: "?n + 2 \<le> length (rest s)" by (simp add: assms(4) entry_text_def)
  have seek: "flipper_format_stream_seek_to_key k strict s = (True, advance (?n + 2) s)"
    using seek_to_key_finds [OF assms(3), of k strict] len by (simp add: f)
  let ?v = "joined (value_texts d)"
  have r: "rest (advance (?n + 2) s) = ?v @ CHR 0x0A # document es"
    by (simp add: assms(4) entry_text_def)
  have ok: "stream_ok (advance (?n + 2) s)" using assms(3) len by simp
  have "flipper_format_stream_read_value_line k (data_type d) (data_count d) strict s = Inr (Some d, advance (length ?v) (advance (?n + 2) s))"
    by (rule read_written_values [OF seek ok r]) (use assms(2) in simp)
  moreover have "stream_ok (advance (length ?v) (advance (?n + 2) s))" using ok by (subst advance_ok) (simp_all only: r, simp)
  moreover have "rest (advance (length ?v) (advance (?n + 2) s)) = document (Empty_Line # es)"
    unfolding advance_simps(5) [of _ "advance (?n + 2) s"] r by (simp add: entry_text_def)
  ultimately show thesis by (rule that)
qed


section \<open>Writing and reading documents\<close>

fun write_entry :: "format_entry \<Rightarrow> FlipperFormat \<Rightarrow> bool \<times> FlipperFormat" where
  "write_entry (Entry k IgnoreData) ff = (True, ff)"
| "write_entry (Entry k (StrData x)) ff = flipper_format_write_string_cstr k x ff"
| "write_entry (Entry k (HexData xs)) ff = flipper_format_write_hex k xs ff"
| "write_entry (Entry k (Int32Data xs)) ff = flipper_format_write_int32 k xs ff"
| "write_entry (Entry k (Uint32Data xs)) ff = flipper_format_write_uint32 k xs ff"
| "write_entry (Entry k (HexUint64Data xs)) ff = flipper_format_write_hex_uint64 k xs ff"
| "write_entry (Entry k (BoolData xs)) ff = flipper_format_write_bool k xs ff"
| "write_entry (Comment c) ff = flipper_format_write_comment_cstr c ff"
| "write_entry Empty_Line ff = flipper_format_write_empty_line ff"

fun write_entries :: "format_entry list \<Rightarrow> FlipperFormat \<Rightarrow> bool \<times> FlipperFormat" where
  "write_entries [] ff = (True, ff)"
| "write_entries (e # es) ff = (let (ok, ff1) = write_entry e ff in if ok then write_entries es ff1 else (False, ff1))"

fun read_entry :: "string \<Rightarrow> stream_data \<Rightarrow> FlipperFormat \<Rightarrow> fault + stream_data option \<times> FlipperFormat" where
  "read_entry k IgnoreData ff = Inr (None, ff)"
| "read_entry k (StrData x) ff = flipper_format_read_string k ff"
| "read_entry k (HexData xs) ff = flipper_format_read_hex k (length xs) ff"
| "read_entry k (Int32Data xs) ff = flipper_format_read_int32 k (length xs) ff"
| "read_entry k (Uint32Data xs) ff = flipper_format_read_uint32 k (length xs) ff"
| "read_entry k (HexUint64Data xs) ff = flipper_format_read_hex_uint64 k (length xs) ff"
| "read_entry k (BoolData xs) ff = flipper_format_read_bool k (length xs) ff"

fun read_entries :: "format_entry list \<Rightarrow> FlipperFormat \<Rightarrow> fault + stream_data option list \<times> FlipperFormat" where
  "read_entries [] ff = Inr ([], ff)"
| "read_entries (Entry k d # es) ff =
     bind_r (read_entry k d ff) (\<lambda>(r, ff1). bind_r (read_entries es ff1) (\<lambda>(rs, ff2). Inr (r # rs, ff2)))"
| "read_entries (e # es) ff = read_entries es ff"

fun entry_data :: "format_entry \<Rightarrow> stream_data option list" where
  "entry_data (Entry k d) = [Some d]"
| "entry_data e = []"

lemma write_entry_at_end:
  assumes "good_entry e" and "ff_stream ff = at_end str"
  shows "write_entry e ff = (True, ff\<lparr>ff_stream := at_end (str @ entry_text e)\<rparr>)"
proof (cases e)
  case (Entry k d)
  have "write_entry (Entry k d) ff = write_line k d ff"
    using assms(1) Entry
    by (cases d) (simp_all add: flipper_format_write_string_cstr_def flipper_format_write_hex_def flipper_format_write_int32_def
        flipper_format_write_uint32_def flipper_format_write_hex_uint64_def flipper_format_write_bool_def)
  moreover have "d \<noteq> IgnoreData" using assms(1) Entry by auto
  ultimately show ?thesis using Entry assms(2) by (simp add: write_line_def on_stream_def write_line_at_end)
qed (simp_all add: flipper_format_write_comment_cstr_def flipper_format_write_empty_line_def on_stream_def assms(2)
    write_comment_at_end write_eol_at_end)

lemma write_entries_at_end:
  "\<forall>e \<in> set es. good_entry e \<Longrightarrow> ff_stream ff = at_end str \<Longrightarrow>
    write_entries es ff = (True, ff\<lparr>ff_stream := at_end (str @ document es)\<rparr>)"
proof (induction es arbitrary: ff str)
  case (Cons e es)
  then show ?case using write_entry_at_end [of e ff str] Cons.IH [of "ff\<lparr>ff_stream := at_end (str @ entry_text e)\<rparr>" "str @ entry_text e"]
    by simp
qed simp

lemma read_entry_data: "good_data d \<Longrightarrow> read_entry k d ff = read_data (data_type d) k (data_count d) ff"
  by (cases d) (simp_all add: flipper_format_read_string_def flipper_format_read_hex_def flipper_format_read_int32_def
      flipper_format_read_uint32_def flipper_format_read_hex_uint64_def flipper_format_read_bool_def data_count_def)

lemma read_entries_document:
  assumes "\<forall>e \<in> set pre. keyless e \<and> good_entry e" and "\<forall>e \<in> set es. good_entry e"
    and "stream_ok (ff_stream ff)" and "rest (ff_stream ff) = document (pre @ es)"
  shows "\<exists>ff'. read_entries es ff = Inr (concat (map entry_data es), ff')"
  using assms
proof (induction es arbitrary: pre ff)
  case (Cons e es)
  have pre: "\<exists>ff'. read_entries es ff = Inr (concat (map entry_data es), ff')" if "keyless e"
    by (rule Cons.IH [of "pre @ [e]"]) (use Cons.prems that in auto)
  show ?case
  proof (cases e)
    case (Entry k d)
    obtain s1 where s1: "flipper_format_stream_read_value_line k (data_type d) (data_count d) (strict_mode ff) (ff_stream ff) = Inr (Some d, s1)"
      "stream_ok s1" "rest s1 = document (Empty_Line # es)"
      by (rule read_next_entry [OF Cons.prems(1) _ Cons.prems(3), of k d]) (use Cons.prems Entry in auto)
    have "\<exists>ff'. read_entries es (ff\<lparr>ff_stream := s1\<rparr>) = Inr (concat (map entry_data es), ff')"
      by (rule Cons.IH [of "[Empty_Line]"]) (use Cons.prems s1 in auto)
    then show ?thesis using Cons.prems(2) s1(1) by (auto simp: Entry read_entry_data read_data_def)
  qed (use pre in auto)
qed simp

text \<open>C8 A text of good entries is read back as it was written, in the same order, with or without the strict mode. Good means:
  a key is not empty, has no colon, does not begin with \<^verbatim>\<open>#\<close>, and it, a comment and a string are one line without carriage
  return and null character; a string is not empty; a number of type \<^verbatim>\<open>int32_t\<close> is not the least one. Bytes, unsigned numbers and truth
  values are arbitrary. For an empty string and the least number the claim does not hold: see the lemmas
  \<open>empty_string_unread\<close> and \<open>least_int32_undefined\<close>.\<close>

theorem format_roundtrip:
  assumes "\<forall>e \<in> set es. good_entry e"
  shows "\<exists>ff ff'. write_entries es (flipper_format_set_strict_mode strict flipper_format_string_alloc) = (True, ff) \<and>
    read_entries es (snd (flipper_format_rewind ff)) = Inr (concat (map entry_data es), ff')"
proof -
  let ?ff0 = "flipper_format_set_strict_mode strict flipper_format_string_alloc"
  have "ff_stream ?ff0 = at_end []" by (simp add: flipper_format_set_strict_mode_def flipper_format_string_alloc_def string_stream_alloc_def at_end_def)
  then have w: "write_entries es ?ff0 = (True, ?ff0\<lparr>ff_stream := at_end (document es)\<rparr>)"
    using write_entries_at_end [OF assms] by fastforce
  let ?ff1 = "snd (flipper_format_rewind (?ff0\<lparr>ff_stream := at_end (document es)\<rparr>))"
  have "ff_stream ?ff1 = \<lparr>stream_string = document es, stream_index = 0\<rparr>"
    using seek_start [of 0 "at_end (document es)"] by (simp add: flipper_format_rewind_def on_stream_def stream_rewind_def at_end_def)
  then have "\<exists>ff'. read_entries es ?ff1 = Inr (concat (map entry_data es), ff')"
    by (intro read_entries_document [of "[]"] assms) (simp_all add: stream_ok_def rest_def)
  then show ?thesis using w by blast
qed

theorem format_roundtrip_witness:
  "\<exists>ff ff'. write_entries
      [Entry ''Filetype'' (StrData ''Flipper SubGhz Key File''), Entry ''Version'' (Uint32Data [1]), Comment ''keys'', Empty_Line,
       Entry ''Key'' (HexData [0, 0xAB, 0xFF]), Entry ''T'' (Int32Data [- 5, 0, 2147483647]), Entry ''U'' (HexUint64Data [0xDEADBEEF12345678]),
       Entry ''B'' (BoolData [True, False])]
      (flipper_format_set_strict_mode True flipper_format_string_alloc) = (True, ff) \<and>
    read_entries
      [Entry ''Filetype'' (StrData ''Flipper SubGhz Key File''), Entry ''Version'' (Uint32Data [1]), Comment ''keys'', Empty_Line,
       Entry ''Key'' (HexData [0, 0xAB, 0xFF]), Entry ''T'' (Int32Data [- 5, 0, 2147483647]), Entry ''U'' (HexUint64Data [0xDEADBEEF12345678]),
       Entry ''B'' (BoolData [True, False])]
      (snd (flipper_format_rewind ff)) =
      Inr ([Some (StrData ''Flipper SubGhz Key File''), Some (Uint32Data [1]), Some (HexData [0, 0xAB, 0xFF]),
        Some (Int32Data [- 5, 0, 2147483647]), Some (HexUint64Data [0xDEADBEEF12345678]), Some (BoolData [True, False])], ff')"
  using format_roundtrip [of "[Entry ''Filetype'' (StrData ''Flipper SubGhz Key File''), Entry ''Version'' (Uint32Data [1]), Comment ''keys'',
      Empty_Line, Entry ''Key'' (HexData [0, 0xAB, 0xFF]), Entry ''T'' (Int32Data [- 5, 0, 2147483647]),
      Entry ''U'' (HexUint64Data [0xDEADBEEF12345678]), Entry ''B'' (BoolData [True, False])]" True]
  by (simp add: good_key_def plain_def)


section \<open>The document as a dictionary\<close>

definition lookup_entry :: "string \<Rightarrow> format_entry list \<Rightarrow> stream_data option" where
  "lookup_entry key es = map_option (\<lambda>(a, d, b). d) (split_entry key es)"

definition update_entry :: "string \<Rightarrow> stream_data \<Rightarrow> format_entry list \<Rightarrow> format_entry list" where
  "update_entry key d es = (case split_entry key es of Some (a, d0, b) \<Rightarrow> a @ Entry key d # b | None \<Rightarrow> es @ [Entry key d])"

definition delete_entry :: "string \<Rightarrow> format_entry list \<Rightarrow> format_entry list" where
  "delete_entry key es = (case split_entry key es of Some (a, d0, b) \<Rightarrow> a @ b | None \<Rightarrow> es)"

lemma split_entry_before: "split_entry key es = Some (a, d, b) \<Longrightarrow> split_entry key (a @ es') = map_option (\<lambda>(a', d', b'). (a @ a', d', b')) (split_entry key es')"
proof (induction es arbitrary: a)
  case (Cons e es)
  show ?case
  proof (cases "\<exists>d. e = Entry key d")
    case True
    then show ?thesis using Cons.prems by (cases "split_entry key es'") auto
  next
    case False
    then obtain a' where a': "a = e # a'" "split_entry key es = Some (a', d, b)"
      using Cons.prems by (auto split: format_entry.splits if_splits)
    then show ?thesis using Cons.IH [OF a'(2)] False by (cases "split_entry key es'") (auto split: format_entry.splits)
  qed
qed simp

lemma lookup_Cons: "lookup_entry key (e # es) = (case e of Entry k d \<Rightarrow> if k = key then Some d else lookup_entry key es | _ \<Rightarrow> lookup_entry key es)"
  by (cases "split_entry key es") (auto simp: lookup_entry_def split: format_entry.splits)

lemma lookup_append: "lookup_entry key (a @ b) = (case lookup_entry key a of Some d \<Rightarrow> Some d | None \<Rightarrow> lookup_entry key b)"
  by (induction a) (auto simp: lookup_Cons lookup_entry_def [of key "[]"] split: format_entry.splits)

lemma lookup_update: "lookup_entry k (update_entry key d es) = (if k = key then Some d else lookup_entry k es)"
proof (cases "split_entry key es")
  case None
  then have "lookup_entry key es = None" "update_entry key d es = es @ [Entry key d]" by (simp_all add: lookup_entry_def update_entry_def)
  moreover have "lookup_entry k [] = None" by (simp add: lookup_entry_def)
  ultimately show ?thesis by (auto simp: lookup_append lookup_Cons split: option.splits)
next
  case (Some x)
  obtain a d0 b where x: "x = (a, d0, b)" by (rule prod_cases3)
  have es: "es = a @ Entry key d0 # b" using split_entry_Some Some x by blast
  have "lookup_entry key a = None"
    using split_entry_before [of key es a d0 b "[]"] Some x by (simp add: lookup_entry_def)
  then show ?thesis using Some x by (auto simp: update_entry_def es lookup_append lookup_Cons split: option.splits)
qed

definition holds_document :: "FlipperFormat \<Rightarrow> format_entry list \<Rightarrow> bool" where
  "holds_document ff es \<longleftrightarrow> stream_ok (ff_stream ff) \<and> stream_string (ff_stream ff) = document es \<and> (\<forall>e \<in> set es. good_entry e) \<and>
     \<not> strict_mode ff"

text \<open>Finding a key from the start, and what is behind it.\<close>

lemma seek_from_start:
  assumes "stream_string s = document es" and "stream_index s = 0" and "\<forall>e \<in> set es. good_entry e"
  shows "case split_entry key es of
      Some (a, d, b) \<Rightarrow> flipper_format_stream_seek_to_key key False s = (True, advance (length (document a) + length key + 2) s) \<and>
        rest (advance (length (document a) + length key + 2) s) = joined (value_texts d) @ CHR 0x0A # document b
    | None \<Rightarrow> \<exists>s'. flipper_format_stream_seek_to_key key False s = (False, s') \<and> stream_string s' = document es"
proof -
  have ok: "stream_ok s" "rest s = document es" using assms(1,2) by (simp_all add: stream_ok_def rest_def)
  note seek = seek_to_key_finds [OF ok(1), of key False, unfolded ok(2) find_key_document [OF assms(3), of key]]
  show ?thesis
  proof (cases "split_entry key es")
    case None
    then show ?thesis using seek assms(1) by auto
  next
    case (Some x)
    obtain a d b where x: "x = (a, d, b)" by (rule prod_cases3)
    have es: "es = a @ Entry key d # b" using split_entry_Some Some x by blast
    have "length (document a) + length key + 2 \<le> length (document es)" by (simp add: es entry_text_def)
    then show ?thesis using seek Some x ok(2) by (simp add: es entry_text_def)
  qed
qed

lemma key_exist_document:
  assumes "holds_document ff es"
  shows "flipper_format_key_exist key ff = (lookup_entry key es \<noteq> None, ff)"
proof -
  let ?s = "ff_stream ff" let ?start = "(ff_stream ff)\<lparr>stream_index := 0\<rparr>"
  have doc: "stream_string ?s = document es" "\<forall>e \<in> set es. good_entry e" "stream_ok ?s" using assms by (simp_all add: holds_document_def)
  have s0: "snd (string_stream_seek 0 StreamOffsetFromStart ?s) = ?start" using seek_start [of 0 ?s] by simp
  obtain b s' where s': "flipper_format_stream_seek_to_key key False ?start = (b, s')" "stream_string s' = document es"
    "b \<longleftrightarrow> lookup_entry key es \<noteq> None"
    using seek_from_start [of ?start es key] doc(1,2) by (cases "split_entry key es") (auto simp: lookup_entry_def)
  have "snd (string_stream_seek (int (stream_index ?s)) StreamOffsetFromStart s') = ?s"
    using s'(2) doc by (auto simp: seek_start stream_ok_def)
  then show ?thesis using s'(1,3) s0
    by (simp add: flipper_format_key_exist_def on_stream_def Let_def string_stream_tell_def)
qed

text \<open>The line of a key is cut out and the callback writes in its place.\<close>

lemma delete_and_write_document:
  assumes "holds_document ff es"
  shows "case split_entry key es of
      Some (a, d0, b) \<Rightarrow> \<exists>ff'. update_line key d ff = (True, ff') \<and> strict_mode ff' = strict_mode ff \<and> stream_ok (ff_stream ff') \<and>
        stream_string (ff_stream ff') = document a @ (if d = IgnoreData then [] else entry_text (Entry key d)) @ document b
    | None \<Rightarrow> \<exists>ff'. update_line key d ff = (False, ff') \<and> strict_mode ff' = strict_mode ff \<and> stream_ok (ff_stream ff') \<and>
        stream_string (ff_stream ff') = document es"
proof -
  let ?s = "ff_stream ff" let ?start = "(ff_stream ff)\<lparr>stream_index := 0\<rparr>"
  have doc: "stream_string ?s = document es" "\<forall>e \<in> set es. good_entry e" "stream_ok ?s" "\<not> strict_mode ff"
    using assms by (simp_all add: holds_document_def)
  have rewind: "stream_rewind ?s = (True, ?start)" using seek_start [of 0 ?s] by (simp add: stream_rewind_def)
  note seek = seek_from_start [of ?start es key]
  show ?thesis
  proof (cases "split_entry key es")
    case None
    then obtain s' where s': "flipper_format_stream_seek_to_key key False ?start = (False, s')" "stream_string s' = document es"
      using seek doc(1,2) by auto
    have ok: "stream_ok s'"
      using seek_to_key_finds [of ?start key False] s'(1) by (auto simp: stream_ok_def rest_def split: option.splits if_splits)
    show ?thesis
    proof (cases "document es = []")
      case True
      then show ?thesis using None doc
        by (auto simp: update_line_def on_stream_def flipper_format_stream_delete_key_and_write_def string_stream_size_def)
    next
      case False
      then show ?thesis using None doc s' ok rewind
        by (auto simp: update_line_def on_stream_def flipper_format_stream_delete_key_and_write_def string_stream_size_def)
    qed
  next
    case (Some x)
    obtain a d0 b where x: "x = (a, d0, b)" by (rule prod_cases3)
    have es: "es = a @ Entry key d0 # b" using split_entry_Some Some x by blast
    let ?v = "joined (value_texts d0)"
    define n where "n = length (document a)"
    define m where "m = length (entry_text (Entry key d0))"
    have m: "m = length key + 2 + length ?v + 1" by (simp add: m_def entry_text_def)
    let ?found = "advance (n + length key + 2) ?start"
    have s2: "flipper_format_stream_seek_to_key key False ?start = (True, ?found)" "rest ?found = ?v @ CHR 0x0A # document b"
      using seek doc(1,2) Some x by (simp_all add: n_def)
    have size: "length (document es) = n + m + length (document b)" by (simp add: es n_def m_def)
    have ok2: "stream_ok ?found" using size m doc(1) by (simp add: stream_ok_def)
    have good: "good_entry (Entry key d0)" "\<forall>e \<in> set b. good_entry e" using doc(2) es by auto
    have line: "line_of (rest ?found) = ?v" unfolding s2(2) using data_no_eol [of d0] good(1) by (simp add: takeWhile_until)
    let ?eol = "advance (length ?v) ?found"
    have s3: "flipper_format_stream_seek_to_next_line ?found = (True, ?eol)" using next_line_scan [OF ok2] line by simp
    let ?cut = "(ff_stream ff)\<lparr>stream_index := n\<rparr>"
    have s4: "string_stream_seek (int n) StreamOffsetFromStart ?eol = (True, ?cut)"
      using size doc(1) by (subst seek_start) (simp add: advance_def)
    have "CHR 0x00 \<notin> set (document b)" using entry_line_chars good(2) by (auto simp: document_def entry_text_def)
    then have right: "cstr (document b) = document b" by (auto simp: cstr_def takeWhile_eq_all_conv)
    let ?wd = "\<lparr>write_key = key, write_data = d\<rparr>"
    have writes: "flipper_format_stream_write_value_line ?wd (at_end str) =
        (True, at_end (str @ (if d = IgnoreData then [] else entry_text (Entry key d))))" for str
      using write_line_at_end [of d key str] by (simp add: flipper_format_stream_write_value_line_def)
    have cut: "take n (document es) = document a" "drop (n + m) (document es) = document b" by (simp_all add: es n_def m_def)
    have left: "?cut\<lparr>stream_string := document a\<rparr> = at_end (document a)" by (simp add: at_end_def n_def)
    have insert: "string_stream_delete_and_insert m (Some (flipper_format_stream_write_value_line ?wd)) ?cut =
        (True, at_end (document a @ (if d = IgnoreData then [] else entry_text (Entry key d)))\<lparr>stream_string :=
          (document a @ (if d = IgnoreData then [] else entry_text (Entry key d))) @ document b\<rparr>)"
    proof -
      have "min m (string_stream_size ?cut - string_stream_tell ?cut) = m"
        using size doc(1) by (simp add: string_stream_size_def string_stream_tell_def)
      moreover have "length (document a) = n" by (simp add: n_def)
      ultimately show ?thesis
        unfolding string_stream_delete_and_insert_def
        by (simp add: doc(1) cut right string_stream_tell_def left writes Let_def)
    qed
    have pos: "stream_index ?found - length key = n + 2" "stream_index ?eol + 1 = n + m" "stream_index ?eol < length (document es)"
      using m size by simp_all
    have "flipper_format_stream_delete_key_and_write ?wd False ?s =
        string_stream_delete_and_insert m (Some (flipper_format_stream_write_value_line ?wd)) ?cut"
      unfolding flipper_format_stream_delete_key_and_write_def
      using rewind s2(1) s3 s4 pos size m doc(1)
      by (simp add: string_stream_size_def string_stream_tell_def Let_def numeral_3_eq_3)
    then show ?thesis
      using Some x doc(4) insert by (simp add: update_line_def on_stream_def stream_ok_def)
  qed
qed


lemma insert_or_update_document:
  assumes "holds_document ff es" and "good_key key" and "good_data d"
  shows "\<exists>ff'. insert_or_update_line key d ff = (True, ff') \<and> holds_document ff' (update_entry key d es)"
proof -
  have good: "good_entry (Entry key d)" "d \<noteq> IgnoreData" using assms(2,3) by auto
  have doc: "stream_string (ff_stream ff) = document es" "\<forall>e \<in> set es. good_entry e" "\<not> strict_mode ff"
    using assms(1) by (simp_all add: holds_document_def)
  show ?thesis
  proof (cases "split_entry key es")
    case None
    then have "flipper_format_key_exist key ff = (False, ff)" using key_exist_document [OF assms(1)] by (simp add: lookup_entry_def)
    moreover have "snd (flipper_format_seek_to_end ff) = ff\<lparr>ff_stream := at_end (document es)\<rparr>"
      using doc(1) by (simp add: flipper_format_seek_to_end_def on_stream_def seek_end at_end_def)
    ultimately have "insert_or_update_line key d ff = (True, ff\<lparr>ff_stream := at_end (document es @ entry_text (Entry key d))\<rparr>)"
      using write_line_at_end [OF good(2)] by (simp add: insert_or_update_line_def write_line_def on_stream_def)
    moreover have "update_entry key d es = es @ [Entry key d]" using None by (simp add: update_entry_def)
    ultimately show ?thesis using doc good(1) by (simp add: holds_document_def)
  next
    case (Some x)
    obtain a d0 b where x: "x = (a, d0, b)" by (rule prod_cases3)
    have es: "es = a @ Entry key d0 # b" using split_entry_Some Some x by blast
    have "flipper_format_key_exist key ff = (True, ff)" using key_exist_document [OF assms(1)] Some x by (simp add: lookup_entry_def)
    then have "insert_or_update_line key d ff = update_line key d ff" by (simp add: insert_or_update_line_def)
    moreover have "update_entry key d es = a @ Entry key d # b" using Some x by (simp add: update_entry_def)
    ultimately show ?thesis using delete_and_write_document [OF assms(1), of key d] Some x doc(2,3) es good
      by (auto simp: holds_document_def)
  qed
qed

lemma delete_document:
  assumes "holds_document ff es"
  shows "\<exists>ff'. flipper_format_delete_key key ff = (lookup_entry key es \<noteq> None, ff') \<and> holds_document ff' (delete_entry key es)"
proof (cases "split_entry key es")
  case None
  then show ?thesis using delete_and_write_document [OF assms, of key IgnoreData] assms
    by (auto simp: holds_document_def flipper_format_delete_key_def lookup_entry_def delete_entry_def)
next
  case (Some x)
  obtain a d0 b where x: "x = (a, d0, b)" by (rule prod_cases3)
  then have "es = a @ Entry key d0 # b" using split_entry_Some Some by blast
  then show ?thesis using delete_and_write_document [OF assms, of key IgnoreData] assms Some x
    by (auto simp: holds_document_def flipper_format_delete_key_def lookup_entry_def delete_entry_def)
qed

lemma read_document:
  assumes "holds_document ff es" and "lookup_entry key es = Some d"
  shows "\<exists>ff'. read_entry key d (snd (flipper_format_rewind ff)) = Inr (Some d, ff') \<and> holds_document ff' es"
proof -
  let ?s = "ff_stream ff" let ?start = "(ff_stream ff)\<lparr>stream_index := 0\<rparr>"
  have doc: "stream_string ?s = document es" "\<forall>e \<in> set es. good_entry e" "\<not> strict_mode ff"
    using assms(1) by (simp_all add: holds_document_def)
  obtain a b where split: "split_entry key es = Some (a, d, b)" using assms(2) by (auto simp: lookup_entry_def)
  have es: "es = a @ Entry key d # b" using split_entry_Some split by blast
  let ?found = "advance (length (document a) + length key + 2) ?start"
  have found: "flipper_format_stream_seek_to_key key False ?start = (True, ?found)" "rest ?found = joined (value_texts d) @ CHR 0x0A # document b"
    using seek_from_start [of ?start es key] doc(1,2) split by simp_all
  have ok: "stream_ok ?found" using doc(1) es by (simp add: stream_ok_def entry_text_def)
  have good: "good_data d" using doc(2) es by simp
  note read = read_written_values [OF found(1) ok found(2) good]
  have ok': "stream_ok (advance (length (joined (value_texts d))) ?found)" using ok by (subst advance_ok) (simp_all only: found(2), simp)
  have rewind: "snd (flipper_format_rewind ff) = ff\<lparr>ff_stream := ?start\<rparr>"
    using seek_start [of 0 ?s] by (simp add: flipper_format_rewind_def on_stream_def stream_rewind_def)
  have "read_entry key d (snd (flipper_format_rewind ff)) =
      Inr (Some d, ff\<lparr>ff_stream := advance (length (joined (value_texts d))) ?found\<rparr>)"
    unfolding rewind read_entry_data [OF good] using read doc(3) by (simp add: read_data_def)
  moreover have "holds_document (ff\<lparr>ff_stream := advance (length (joined (value_texts d))) ?found\<rparr>) es"
    using ok' doc unfolding holds_document_def by simp
  ultimately show ?thesis by blast
qed

text \<open>C9 The text is a dictionary: on a document of good entries in the mode that is not strict, asking for a key, reading, inserting or updating and
  deleting do on the text what they do on the list of its entries, with the first entry of a key, and change nothing else: comments,
  empty lines and the other keys stay. After an update the key has the new data and every other key what it had.\<close>

theorem format_is_dictionary:
  assumes "holds_document ff es" and "good_key key"
  shows "flipper_format_key_exist key ff = (lookup_entry key es \<noteq> None, ff) \<and>
    (\<forall>d. lookup_entry key es = Some d \<longrightarrow>
      (\<exists>ff'. read_entry key d (snd (flipper_format_rewind ff)) = Inr (Some d, ff') \<and> holds_document ff' es)) \<and>
    (\<forall>d. good_data d \<longrightarrow> (\<exists>ff'. insert_or_update_line key d ff = (True, ff') \<and> holds_document ff' (update_entry key d es)) \<and>
      (\<forall>k. lookup_entry k (update_entry key d es) = (if k = key then Some d else lookup_entry k es))) \<and>
    (\<exists>ff'. flipper_format_delete_key key ff = (lookup_entry key es \<noteq> None, ff') \<and> holds_document ff' (delete_entry key es))"
  by (intro conjI allI impI key_exist_document [OF assms(1)] read_document [OF assms(1)] insert_or_update_document [OF assms]
      lookup_update delete_document [OF assms(1)])

theorem format_is_dictionary_witness:
  "\<exists>ff ff'. flipper_format_insert_or_update_uint32 ''T'' [433]
      \<lparr>ff_stream = at_end (document [Entry ''K'' (HexData [0xAB]), Comment ''c'', Entry ''T'' (Uint32Data [1]), Entry ''E'' (BoolData [True])]),
       strict_mode = False\<rparr> = (True, ff) \<and>
    stream_string (ff_stream ff) =
      document [Entry ''K'' (HexData [0xAB]), Comment ''c'', Entry ''T'' (Uint32Data [433]), Entry ''E'' (BoolData [True])] \<and>
    flipper_format_delete_key ''T''
      \<lparr>ff_stream = at_end (document [Entry ''K'' (HexData [0xAB]), Comment ''c'', Entry ''T'' (Uint32Data [1]), Entry ''E'' (BoolData [True])]),
       strict_mode = False\<rparr> = (True, ff')"
proof -
  define es where "es = [Entry ''K'' (HexData [0xAB]), Comment ''c'', Entry ''T'' (Uint32Data [1]), Entry ''E'' (BoolData [True])]"
  define ff0 where "ff0 = \<lparr>ff_stream = at_end (document es), strict_mode = False\<rparr>"
  have k: "good_key ''T''" by (simp add: good_key_def plain_def)
  have "\<forall>e \<in> set es. good_entry e" by (simp add: es_def good_key_def plain_def)
  then have h: "holds_document ff0 es" by (simp add: holds_document_def ff0_def)
  have u: "update_entry ''T'' (Uint32Data [433]) es =
      [Entry ''K'' (HexData [0xAB]), Comment ''c'', Entry ''T'' (Uint32Data [433]), Entry ''E'' (BoolData [True])]"
    "lookup_entry ''T'' es \<noteq> None"
    by (simp_all add: es_def update_entry_def lookup_entry_def)
  note d = format_is_dictionary [OF h k]
  have "good_data (Uint32Data [433])" by simp
  from d [THEN conjunct2, THEN conjunct2, THEN conjunct1, rule_format, OF this, THEN conjunct1]
  obtain ff where ff: "insert_or_update_line ''T'' (Uint32Data [433]) ff0 = (True, ff)"
    "holds_document ff (update_entry ''T'' (Uint32Data [433]) es)" by blast
  from d [THEN conjunct2, THEN conjunct2, THEN conjunct2]
  obtain ff' where ff': "flipper_format_delete_key ''T'' ff0 = (lookup_entry ''T'' es \<noteq> None, ff')" by blast
  show ?thesis
    unfolding flipper_format_insert_or_update_uint32_def es_def [symmetric] ff0_def [symmetric] u(1) [symmetric]
    using ff ff' u(2) by (auto simp only: holds_document_def)
qed

text \<open>C34 A key is found line by line: whatever characters a stream holds, the search in blocks of 32 ends at the delimiter of the
  first line with the key, or in strict mode of the next line with any key if it is this key, and skips two characters.\<close>

theorem key_search_line_by_line:
  assumes "stream_ok s"
  shows "case find_key key strict (rest s) of
      Some n \<Rightarrow> flipper_format_stream_seek_to_key key strict s =
        (if n + 2 \<le> length (rest s) then (True, advance (n + 2) s) else (False, advance (length (rest s)) s))
    | None \<Rightarrow> \<exists>k \<le> length (rest s). flipper_format_stream_seek_to_key key strict s = (False, advance k s)"
  using assms by (rule seek_to_key_finds)

theorem key_search_line_by_line_witness:
  "flipper_format_stream_seek_to_key ''B'' False \<lparr>stream_string = ''#B: 1'' @ [CHR 0x0A] @ ''A: 2'' @ [CHR 0x0A] @ ''B: 3'', stream_index = 0\<rparr> =
    (True, \<lparr>stream_string = ''#B: 1'' @ [CHR 0x0A] @ ''A: 2'' @ [CHR 0x0A] @ ''B: 3'', stream_index = 14\<rparr>)"
proof -
  let ?s = "\<lparr>stream_string = ''#B: 1'' @ [CHR 0x0A] @ ''A: 2'' @ [CHR 0x0A] @ ''B: 3'', stream_index = 0\<rparr>"
  have "find_key ''B'' False (rest ?s) = Some 12" by code_simp
  then show ?thesis using key_search_line_by_line [of ?s "''B''" False] by (simp add: stream_ok_def rest_def advance_def)
qed

section \<open>Texts that are not read as they look\<close>

text \<open>A key is found by the delimiter alone and two characters are skipped: an empty value without a space reads the next line, and
  a value without a space before it loses its first digit. An empty string cannot be read back, nor the least 32-bit number.\<close>

lemma empty_value_reads_next_line:
  "flipper_format_stream_read_value_line ''A'' FlipperStreamValueStr 1 False
      \<lparr>stream_string = ''A:'' @ [CHR 0x0A] @ ''B: 5'' @ [CHR 0x0A], stream_index = 0\<rparr> =
    Inr (Some (StrData ''B: 5''), \<lparr>stream_string = ''A:'' @ [CHR 0x0A] @ ''B: 5'' @ [CHR 0x0A], stream_index = 7\<rparr>)"
  by code_simp

lemma value_without_space:
  "flipper_format_stream_read_value_line ''A'' FlipperStreamValueUint32 1 False \<lparr>stream_string = ''A:15'', stream_index = 0\<rparr> =
    Inr (Some (Uint32Data [5]), \<lparr>stream_string = ''A:15'', stream_index = 4\<rparr>)"
  by code_simp

lemma empty_string_unread:
  "flipper_format_stream_write_value_line \<lparr>write_key = ''A'', write_data = StrData []\<rparr> string_stream_alloc =
      (True, \<lparr>stream_string = ''A: '' @ [CHR 0x0A], stream_index = 4\<rparr>) \<and>
    flipper_format_stream_read_value_line ''A'' FlipperStreamValueStr 1 False \<lparr>stream_string = ''A: '' @ [CHR 0x0A], stream_index = 0\<rparr> =
      Inr (None, \<lparr>stream_string = ''A: '' @ [CHR 0x0A], stream_index = 3\<rparr>)"
  by code_simp

lemma least_int32_undefined: "scan_int32 (print_int (- (2 ^ 31))) = Inl UndefinedBehaviour"
proof -
  have "read_integer (- (2 ^ 31)) (2 ^ 31 - 1) 10 (print_int (- (2 ^ 31))) = Inr (- (2 ^ 31), [])" by (rule read_integer_print) simp_all
  then have "strint_to_int32 (print_int (- (2 ^ 31))) 10 = Inl UndefinedBehaviour"
    using signed_exact [of 31 32 "print_int (- (2 ^ 31))" 10] by (simp add: strint_to_int32_def)
  moreover have "cstr (print_int (- (2 ^ 31))) = print_int (- (2 ^ 31))"
    using decimal_digits [of "nat (2 ^ 31)"] by (auto simp: print_int_def cstr_def takeWhile_eq_all_conv)
  ultimately show ?thesis by (simp add: scan_int32_def)
qed

end
