(* ===== verification/SubGhz_Files.thy ===== *)
theory SubGhz_Files
  imports SubGhz_Common Flipper_Format_Text
begin

text \<open>
  Keys in files: the functions of \<^verbatim>\<open>lib/subghz/blocks/generic.c\<close> and \<^verbatim>\<open>lib/subghz/protocols/common.c\<close> that
  write what a decoder holds to a text and read it back, on the text format of \<open>Flipper_Format\<close>. The lemmas
  describe the text as a list of entries.
\<close>

unbundle bit_operations_syntax

section \<open>Model\<close>

record SubGhzRadioPreset =
  preset_name :: string
  frequency :: u32
  preset_data :: "u8 list"

datatype SubGhzProtocolStatus = SubGhzProtocolStatusOk | SubGhzProtocolStatusError
  | SubGhzProtocolStatusErrorParserHeader | SubGhzProtocolStatusErrorParserFrequency
  | SubGhzProtocolStatusErrorParserPreset | SubGhzProtocolStatusErrorParserCustomPreset
  | SubGhzProtocolStatusErrorParserProtocolName | SubGhzProtocolStatusErrorParserBitCount
  | SubGhzProtocolStatusErrorParserKey | SubGhzProtocolStatusErrorParserTe | SubGhzProtocolStatusErrorParserOthers
  | SubGhzProtocolStatusErrorValueBitCount | SubGhzProtocolStatusErrorEncoderGetUpload
  | SubGhzProtocolStatusErrorProtocolNotFound | SubGhzProtocolStatusReserved

definition SUBGHZ_KEY_FILE_VERSION :: u32 where "SUBGHZ_KEY_FILE_VERSION = 1"
definition SUBGHZ_KEY_FILE_TYPE :: string where "SUBGHZ_KEY_FILE_TYPE = ''Flipper SubGhz Key File''"

definition subghz_block_generic_get_preset_name :: "string \<Rightarrow> string" where
  "subghz_block_generic_get_preset_name name =
     (if name = ''AM270'' then ''FuriHalSubGhzPresetOok270Async''
      else if name = ''AM650'' then ''FuriHalSubGhzPresetOok650Async''
      else if name = ''FM238'' then ''FuriHalSubGhzPreset2FSKDev238Async''
      else if name = ''FM12K'' then ''FuriHalSubGhzPreset2FSKDev12KAsync''
      else if name = ''FM476'' then ''FuriHalSubGhzPreset2FSKDev476Async''
      else ''FuriHalSubGhzPresetCustom'')"

text \<open>A write that must succeed for the rest to be done; otherwise its error is the result.\<close>

definition or_break ::
    "(FlipperFormat \<Rightarrow> bool \<times> FlipperFormat) \<Rightarrow> 'e \<Rightarrow> (FlipperFormat \<Rightarrow> 'e \<times> FlipperFormat) \<Rightarrow> FlipperFormat \<Rightarrow> 'e \<times> FlipperFormat" where
  "or_break w err next ff = (let (ok, ff1) = w ff in if ok then next ff1 else (err, ff1))"

definition subghz_block_generic_serialize ::
    "SubGhzBlockGeneric \<Rightarrow> SubGhzRadioPreset \<Rightarrow> FlipperFormat \<Rightarrow> SubGhzProtocolStatus \<times> FlipperFormat" where
  "subghz_block_generic_serialize inst preset ff =
     (let ff0 = snd (on_stream (\<lambda>s. ((), string_stream_clean s)) ff);
          temp_str = subghz_block_generic_get_preset_name (cstr (preset_name preset));
          write_data = (\<lambda>ff.
            if data_count_bit inst = 72 \<and> protocol_name inst = ''Nice FloR-S'' then
              or_break (flipper_format_write_uint32 ''Data'' [ucast (drop_bit 4 (data_2 inst) AND 0xFFFFF)])
                SubGhzProtocolStatusError (\<lambda>ff. (SubGhzProtocolStatusOk, ff)) ff
            else (SubGhzProtocolStatusOk, ff));
          write_key =
            or_break (flipper_format_write_string_cstr ''Protocol'' (protocol_name inst)) SubGhzProtocolStatusErrorParserProtocolName
           (or_break (flipper_format_write_uint32 ''Bit'' [ucast (data_count_bit inst)]) SubGhzProtocolStatusErrorParserBitCount
           (or_break (flipper_format_write_hex ''Key'' (serialize_key_data (data inst))) SubGhzProtocolStatusErrorParserKey
            write_data));
          write_custom =
           (if temp_str = ''FuriHalSubGhzPresetCustom'' then
              or_break (flipper_format_write_string_cstr ''Custom_preset_module'' ''CC1101'') SubGhzProtocolStatusErrorParserCustomPreset
             (or_break (flipper_format_write_hex ''Custom_preset_data'' (preset_data preset)) SubGhzProtocolStatusErrorParserCustomPreset
              write_key)
            else write_key)
      in or_break (flipper_format_write_header_cstr SUBGHZ_KEY_FILE_TYPE SUBGHZ_KEY_FILE_VERSION) SubGhzProtocolStatusErrorParserHeader
        (or_break (flipper_format_write_uint32 ''Frequency'' [frequency preset]) SubGhzProtocolStatusErrorParserFrequency
        (or_break (flipper_format_write_string_cstr ''Preset'' temp_str) SubGhzProtocolStatusErrorParserPreset
         write_custom)) ff0)"

text \<open>The values of a number or of bytes that were read.\<close>

definition uint32_of :: "stream_data option \<Rightarrow> u32 option" where
  "uint32_of d = (case d of Some (Uint32Data [n]) \<Rightarrow> Some n | _ \<Rightarrow> None)"

definition hex_of :: "stream_data option \<Rightarrow> u8 list option" where
  "hex_of d = (case d of Some (HexData xs) \<Rightarrow> Some xs | _ \<Rightarrow> None)"

definition subghz_block_generic_deserialize ::
    "SubGhzBlockGeneric \<Rightarrow> FlipperFormat \<Rightarrow> fault + SubGhzProtocolStatus \<times> SubGhzBlockGeneric \<times> FlipperFormat" where
  "subghz_block_generic_deserialize inst ff =
     (let (ok, ff0) = flipper_format_rewind ff
      in if \<not> ok then Inr (SubGhzProtocolStatusErrorParserOthers, inst, ff0)
         else bind_r (flipper_format_read_uint32 ''Bit'' 1 ff0) (\<lambda>(bits, ff1).
           case uint32_of bits of
             None \<Rightarrow> Inr (SubGhzProtocolStatusErrorParserBitCount, inst, ff1)
           | Some temp_data \<Rightarrow>
               let inst1 = inst\<lparr>data_count_bit := ucast temp_data\<rparr>
               in bind_r (flipper_format_read_hex ''Key'' 8 ff1) (\<lambda>(key, ff2).
                 case hex_of key of
                   None \<Rightarrow> Inr (SubGhzProtocolStatusErrorParserKey, inst1, ff2)
                 | Some key_data \<Rightarrow>
                     Inr (SubGhzProtocolStatusOk, inst1\<lparr>data := deserialize_key_data (data inst1) key_data\<rparr>, ff2))))"

definition subghz_block_generic_deserialize_check_count_bit ::
    "u16 \<Rightarrow> SubGhzBlockGeneric \<Rightarrow> FlipperFormat \<Rightarrow> fault + SubGhzProtocolStatus \<times> SubGhzBlockGeneric \<times> FlipperFormat" where
  "subghz_block_generic_deserialize_check_count_bit count_bit inst ff =
     bind_r (subghz_block_generic_deserialize inst ff) (\<lambda>(ret, inst1, ff1).
       Inr (if ret = SubGhzProtocolStatusOk \<and> data_count_bit inst1 \<noteq> count_bit
            then SubGhzProtocolStatusErrorValueBitCount else ret, inst1, ff1))"

subsection \<open>Shared vtable entries (common.c)\<close>

record SubGhzProtocolDecoderCommonTe = SubGhzProtocolDecoderCommon +
  te :: u32

definition subghz_protocol_decoder_common_serialize ::
    "'a SubGhzProtocolDecoderCommon_scheme \<Rightarrow> SubGhzRadioPreset \<Rightarrow> FlipperFormat \<Rightarrow> SubGhzProtocolStatus \<times> FlipperFormat" where
  "subghz_protocol_decoder_common_serialize inst = subghz_block_generic_serialize (generic inst)"

definition subghz_protocol_common_append_data_2 ::
    "SubGhzProtocolStatus \<Rightarrow> SubGhzBlockGeneric \<Rightarrow> FlipperFormat \<Rightarrow> SubGhzProtocolStatus \<times> FlipperFormat" where
  "subghz_protocol_common_append_data_2 status g ff =
     (let (ok, ff1) = flipper_format_rewind ff;
          status1 = (if ok then status else SubGhzProtocolStatusErrorParserOthers)
      in if status1 = SubGhzProtocolStatusOk then
           or_break (flipper_format_insert_or_update_hex ''Data'' (serialize_key_data (data_2 g)))
             SubGhzProtocolStatusErrorParserOthers (\<lambda>ff. (status1, ff)) ff1
         else (status1, ff1))"

definition subghz_protocol_decoder_common_serialize_data_2 ::
    "'a SubGhzProtocolDecoderCommon_scheme \<Rightarrow> SubGhzRadioPreset \<Rightarrow> FlipperFormat \<Rightarrow> SubGhzProtocolStatus \<times> FlipperFormat" where
  "subghz_protocol_decoder_common_serialize_data_2 inst preset ff =
     (let (ret, ff1) = subghz_block_generic_serialize (generic inst) preset ff
      in subghz_protocol_common_append_data_2 ret (generic inst) ff1)"

definition subghz_protocol_decoder_common_serialize_te ::
    "SubGhzProtocolDecoderCommonTe \<Rightarrow> SubGhzRadioPreset \<Rightarrow> FlipperFormat \<Rightarrow> SubGhzProtocolStatus \<times> FlipperFormat" where
  "subghz_protocol_decoder_common_serialize_te inst preset ff =
     (let (ret, ff1) = subghz_block_generic_serialize (generic inst) preset ff
      in if ret = SubGhzProtocolStatusOk then
           or_break (flipper_format_write_uint32 ''TE'' [te inst]) SubGhzProtocolStatusErrorParserTe (\<lambda>ff. (ret, ff)) ff1
         else (ret, ff1))"

text \<open>The optional number of repetitions, the upload and the start of an encoder, once its key is read.\<close>

definition start_encoder ::
    "(SubGhzProtocolEncoderCommonGeneric \<Rightarrow> fault + bool \<times> SubGhzProtocolEncoderCommonGeneric)
      \<Rightarrow> SubGhzProtocolEncoderCommonGeneric \<Rightarrow> FlipperFormat
      \<Rightarrow> fault + SubGhzProtocolStatus \<times> SubGhzProtocolEncoderCommonGeneric \<times> FlipperFormat" where
  "start_encoder get_upload inst ff =
     bind_r (flipper_format_read_uint32 ''Repeat'' 1 ff) (\<lambda>(r, ff1).
       let inst1 = (case uint32_of r of None \<Rightarrow> inst | Some n \<Rightarrow> inst\<lparr>encoder := (encoder inst)\<lparr>repeat := unat n\<rparr>\<rparr>)
       in bind_r (get_upload inst1) (\<lambda>(ok, inst2).
         Inr (if ok then (SubGhzProtocolStatusOk, inst2\<lparr>encoder := (encoder inst2)\<lparr>is_running := True\<rparr>\<rparr>, ff1)
              else (SubGhzProtocolStatusErrorEncoderGetUpload, inst2, ff1))))"

definition subghz_protocol_encoder_common_deserialize ::
    "u16 \<Rightarrow> (SubGhzProtocolEncoderCommonGeneric \<Rightarrow> fault + bool \<times> SubGhzProtocolEncoderCommonGeneric)
      \<Rightarrow> SubGhzProtocolEncoderCommonGeneric \<Rightarrow> FlipperFormat
      \<Rightarrow> fault + SubGhzProtocolStatus \<times> SubGhzProtocolEncoderCommonGeneric \<times> FlipperFormat" where
  "subghz_protocol_encoder_common_deserialize min_count_bit get_upload inst ff =
     bind_r (subghz_block_generic_deserialize_check_count_bit min_count_bit (encoder_generic inst) ff) (\<lambda>(ret, g, ff1).
       let inst1 = inst\<lparr>encoder_generic := g\<rparr>
       in if ret \<noteq> SubGhzProtocolStatusOk then Inr (ret, inst1, ff1) else start_encoder get_upload inst1 ff1)"

definition subghz_protocol_decoder_common_deserialize_te ::
    "u16 \<Rightarrow> SubGhzProtocolDecoderCommonTe \<Rightarrow> FlipperFormat
      \<Rightarrow> fault + SubGhzProtocolStatus \<times> SubGhzProtocolDecoderCommonTe \<times> FlipperFormat" where
  "subghz_protocol_decoder_common_deserialize_te min_count_bit inst ff =
     bind_r (subghz_block_generic_deserialize_check_count_bit min_count_bit (generic inst) ff) (\<lambda>(ret, g, ff1).
       let inst1 = inst\<lparr>generic := g\<rparr>
       in if ret \<noteq> SubGhzProtocolStatusOk then Inr (ret, inst1, ff1)
          else let (ok, ff2) = flipper_format_rewind ff1
            in if \<not> ok then Inr (SubGhzProtocolStatusErrorParserOthers, inst1, ff2)
               else bind_r (flipper_format_read_uint32 ''TE'' 1 ff2) (\<lambda>(t, ff3).
                 Inr (case uint32_of t of
                   None \<Rightarrow> (SubGhzProtocolStatusErrorParserTe, inst1, ff3)
                 | Some n \<Rightarrow> (ret, inst1\<lparr>te := n\<rparr>, ff3))))"

text \<open>A decoder that only checks the number of bits of the key it loads.\<close>

definition decoder_deserialize_check ::
    "u16 \<Rightarrow> SubGhzProtocolDecoderCommon \<Rightarrow> FlipperFormat
      \<Rightarrow> fault + SubGhzProtocolStatus \<times> SubGhzProtocolDecoderCommon \<times> FlipperFormat" where
  "decoder_deserialize_check count_bit inst ff =
     bind_r (subghz_block_generic_deserialize_check_count_bit count_bit (generic inst) ff) (\<lambda>(ret, g, ff1).
       Inr (ret, inst\<lparr>generic := g\<rparr>, ff1))"

section \<open>The text of a saved key\<close>

definition saved_entries :: "SubGhzBlockGeneric \<Rightarrow> SubGhzRadioPreset \<Rightarrow> format_entry list" where
  "saved_entries g preset =
     (let temp_str = subghz_block_generic_get_preset_name (cstr (preset_name preset))
      in [Entry ''Filetype'' (StrData SUBGHZ_KEY_FILE_TYPE), Entry ''Version'' (Uint32Data [SUBGHZ_KEY_FILE_VERSION]),
          Entry ''Frequency'' (Uint32Data [frequency preset]), Entry ''Preset'' (StrData temp_str)]
        @ (if temp_str = ''FuriHalSubGhzPresetCustom''
           then [Entry ''Custom_preset_module'' (StrData ''CC1101''), Entry ''Custom_preset_data'' (HexData (preset_data preset))] else [])
        @ [Entry ''Protocol'' (StrData (protocol_name g)), Entry ''Bit'' (Uint32Data [ucast (data_count_bit g)]),
           Entry ''Key'' (HexData (serialize_key_data (data g)))]
        @ (if data_count_bit g = 72 \<and> protocol_name g = ''Nice FloR-S''
           then [Entry ''Data'' (Uint32Data [ucast (drop_bit 4 (data_2 g) AND 0xFFFFF)])] else []))"

lemma or_break_entry:
  assumes "good_entry e"
  shows "or_break (write_entry e) err next (ff\<lparr>ff_stream := at_end str\<rparr>) = next (ff\<lparr>ff_stream := at_end (str @ entry_text e)\<rparr>)"
  using write_entry_at_end [OF assms, of "ff\<lparr>ff_stream := at_end str\<rparr>" str] by (simp add: or_break_def)

lemma writes_as_entries:
  "flipper_format_write_string_cstr k x = write_entry (Entry k (StrData x))"
  "flipper_format_write_uint32 k ns = write_entry (Entry k (Uint32Data ns))"
  "flipper_format_write_hex k xs = write_entry (Entry k (HexData xs))"
  by (simp_all add: fun_eq_iff)

lemma or_break_header: "or_break (flipper_format_write_header_cstr t v) err next =
    or_break (write_entry (Entry ''Filetype'' (StrData t))) err (or_break (write_entry (Entry ''Version'' (Uint32Data [v]))) err next)"
  by (simp add: fun_eq_iff or_break_def flipper_format_write_header_cstr_def flipper_format_filetype_key_def flipper_format_version_key_def
      split: prod.splits)

lemma file_keys: "good_key ''Filetype''" "good_key ''Version''" "good_key ''Frequency''" "good_key ''Preset''"
  "good_key ''Custom_preset_module''" "good_key ''Custom_preset_data''" "good_key ''Protocol''" "good_key ''Bit''" "good_key ''Key''"
  "good_key ''Data''" "good_key ''TE''" "good_key ''Repeat''"
  by (simp_all add: good_key_def plain_def)

lemma plain_texts: "plain SUBGHZ_KEY_FILE_TYPE" "SUBGHZ_KEY_FILE_TYPE \<noteq> []" "plain ''CC1101''"
  "plain (subghz_block_generic_get_preset_name name)" "subghz_block_generic_get_preset_name name \<noteq> []"
  by (simp_all add: plain_def SUBGHZ_KEY_FILE_TYPE_def subghz_block_generic_get_preset_name_def)

lemma saved_entries_good:
  assumes "plain (protocol_name g)" and "protocol_name g \<noteq> []"
  shows "\<forall>e \<in> set (saved_entries g preset). good_entry e"
  unfolding saved_entries_def Let_def using assms by (auto simp: file_keys plain_texts)

lemma clean_at_end: "string_stream_clean s = at_end []"
  by (simp add: string_stream_clean_def at_end_def)

text \<open>What is written is the list of entries, whatever the text was before.\<close>

lemma serialize_document:
  assumes "plain (protocol_name g)" and "protocol_name g \<noteq> []"
  shows "subghz_block_generic_serialize g preset ff =
    (SubGhzProtocolStatusOk, ff\<lparr>ff_stream := at_end (document (saved_entries g preset))\<rparr>)"
  unfolding subghz_block_generic_serialize_def Let_def writes_as_entries or_break_header saved_entries_def
  by (simp add: on_stream_def clean_at_end or_break_entry file_keys plain_texts assms)

section \<open>Loading\<close>

text \<open>Reading a key of the document from some place in it.\<close>

lemma read_entry_on:
  assumes "\<not> strict_mode ff" and "stream_ok (ff_stream ff)" and "rest (ff_stream ff) = document es" and "\<forall>e \<in> set es. good_entry e"
  shows "split_entry k es = Some (a, d, b) \<Longrightarrow> \<exists>s. read_data (data_type d) k (data_count d) ff = Inr (Some d, ff\<lparr>ff_stream := s\<rparr>) \<and>
      stream_ok s \<and> rest s = document (Empty_Line # b) \<and> stream_string s = stream_string (ff_stream ff)"
    and "split_entry k es = None \<Longrightarrow> \<exists>s. read_data type k n ff = Inr (None, ff\<lparr>ff_stream := s\<rparr>)"
proof -
  let ?s = "ff_stream ff"
  note seek = seek_to_key_finds [OF assms(2), of k False, unfolded assms(3) find_key_document [OF assms(4), of k]]
  show "\<exists>s. read_data type k n ff = Inr (None, ff\<lparr>ff_stream := s\<rparr>)" if "split_entry k es = None"
    using seek that assms(1) by (auto simp: read_data_def flipper_format_stream_read_value_line_def)
  assume split: "split_entry k es = Some (a, d, b)"
  have es: "es = a @ Entry k d # b" using split_entry_Some split by blast
  let ?n = "length (document a) + length k"
  have len: "?n + 2 \<le> length (rest ?s)" by (simp add: assms(3) es entry_text_def)
  have found: "flipper_format_stream_seek_to_key k False ?s = (True, advance (?n + 2) ?s)"
    using seek len assms(3) split by simp
  let ?v = "joined (value_texts d)"
  have r: "rest (advance (?n + 2) ?s) = ?v @ CHR 0x0A # document b" by (simp add: assms(3) es entry_text_def)
  have ok: "stream_ok (advance (?n + 2) ?s)" using assms(2) len by simp
  have good: "good_data d" using assms(4) es by simp
  have "flipper_format_stream_read_value_line k (data_type d) (data_count d) False ?s = Inr (Some d, advance (length ?v) (advance (?n + 2) ?s))"
    by (rule read_written_values [OF found ok r good])
  moreover have "stream_ok (advance (length ?v) (advance (?n + 2) ?s))" using ok by (subst advance_ok) (simp_all only: r, simp)
  moreover have "rest (advance (length ?v) (advance (?n + 2) ?s)) = document (Empty_Line # b)"
    unfolding advance_simps(5) [of _ "advance (?n + 2) ?s"] r by (simp add: entry_text_def)
  ultimately show "\<exists>s. read_data (data_type d) k (data_count d) ff = Inr (Some d, ff\<lparr>ff_stream := s\<rparr>) \<and> stream_ok s \<and>
      rest s = document (Empty_Line # b) \<and> stream_string s = stream_string (ff_stream ff)"
    using assms(1) by (auto simp: read_data_def)
qed

lemma read_uint32_on:
  assumes "\<not> strict_mode ff" and "stream_ok (ff_stream ff)" and "rest (ff_stream ff) = document es" and "\<forall>e \<in> set es. good_entry e"
  shows "split_entry k es = Some (a, Uint32Data [n], b) \<Longrightarrow> \<exists>s. flipper_format_read_uint32 k 1 ff =
      Inr (Some (Uint32Data [n]), ff\<lparr>ff_stream := s\<rparr>) \<and> stream_ok s \<and> rest s = document (Empty_Line # b) \<and>
      stream_string s = stream_string (ff_stream ff)"
    and "split_entry k es = None \<Longrightarrow> \<exists>s. flipper_format_read_uint32 k 1 ff = Inr (None, ff\<lparr>ff_stream := s\<rparr>)"
  using read_entry_on(1) [OF assms, of k a "Uint32Data [n]" b] read_entry_on(2) [OF assms, of k FlipperStreamValueUint32 1]
  by (simp_all add: flipper_format_read_uint32_def data_count_def)

lemma read_hex_on:
  assumes "\<not> strict_mode ff" and "stream_ok (ff_stream ff)" and "rest (ff_stream ff) = document es" and "\<forall>e \<in> set es. good_entry e"
  shows "split_entry k es = Some (a, HexData xs, b) \<Longrightarrow> \<exists>s. flipper_format_read_hex k (length xs) ff =
      Inr (Some (HexData xs), ff\<lparr>ff_stream := s\<rparr>) \<and> stream_ok s \<and> rest s = document (Empty_Line # b) \<and>
      stream_string s = stream_string (ff_stream ff)"
    and "split_entry k es = None \<Longrightarrow> \<exists>s. flipper_format_read_hex k m ff = Inr (None, ff\<lparr>ff_stream := s\<rparr>)"
  using read_entry_on(1) [OF assms, of k a "HexData xs" b] read_entry_on(2) [OF assms, of k FlipperStreamValueHex m]
  by (simp_all add: flipper_format_read_hex_def data_count_def)

lemma rewind_document:
  assumes "holds_document ff es"
  shows "flipper_format_rewind ff = (True, ff\<lparr>ff_stream := (ff_stream ff)\<lparr>stream_index := 0\<rparr>\<rparr>)"
    and "stream_ok ((ff_stream ff)\<lparr>stream_index := 0\<rparr>)" and "rest ((ff_stream ff)\<lparr>stream_index := 0\<rparr>) = document es"
  using assms seek_start [of 0 "ff_stream ff"]
  by (simp_all add: holds_document_def flipper_format_rewind_def on_stream_def stream_rewind_def stream_ok_def rest_def)

text \<open>What loading makes of a list of entries: the number of bits is the first \<^verbatim>\<open>Bit\<close>, cut to 16 bits; the key is the first
  \<^verbatim>\<open>Key\<close> behind it. A key before the number of bits is not found, and the number has then been changed.\<close>

definition load_entries :: "format_entry list \<Rightarrow> SubGhzBlockGeneric \<Rightarrow> SubGhzProtocolStatus \<times> SubGhzBlockGeneric \<times> format_entry list" where
  "load_entries es g =
     (case split_entry ''Bit'' es of
        Some (a, Uint32Data [n], b) \<Rightarrow>
          let g1 = g\<lparr>data_count_bit := ucast n\<rparr>
          in (case split_entry ''Key'' b of
                Some (a', HexData kd, b') \<Rightarrow> (SubGhzProtocolStatusOk, g1\<lparr>data := deserialize_key_data (data g1) kd\<rparr>, b')
              | _ \<Rightarrow> (SubGhzProtocolStatusErrorParserKey, g1, b))
      | _ \<Rightarrow> (SubGhzProtocolStatusErrorParserBitCount, g, es))"

definition typed_entries :: "format_entry list \<Rightarrow> bool" where
  "typed_entries es \<longleftrightarrow> (\<forall>d. Entry ''Bit'' d \<in> set es \<longrightarrow> (\<exists>n. d = Uint32Data [n])) \<and>
     (\<forall>d. Entry ''Key'' d \<in> set es \<longrightarrow> (\<exists>kd. d = HexData kd \<and> length kd = 8))"

lemma deserialize_document:
  assumes "holds_document ff es" and "typed_entries es"
  shows "\<exists>s. subghz_block_generic_deserialize g ff =
      Inr (fst (load_entries es g), fst (snd (load_entries es g)), ff\<lparr>ff_stream := s\<rparr>) \<and>
    (fst (load_entries es g) = SubGhzProtocolStatusOk \<longrightarrow> stream_ok s \<and> rest s = document (Empty_Line # snd (snd (load_entries es g))) \<and>
      stream_string s = document es)"
proof -
  have doc: "\<not> strict_mode ff" "\<forall>e \<in> set es. good_entry e" using assms(1) by (simp_all add: holds_document_def)
  let ?ff0 = "ff\<lparr>ff_stream := (ff_stream ff)\<lparr>stream_index := 0\<rparr>\<rparr>"
  have ff0: "\<not> strict_mode ?ff0" "stream_ok (ff_stream ?ff0)" "rest (ff_stream ?ff0) = document es"
    using doc(1) rewind_document(2,3) [OF assms(1)] by simp_all
  note bits = read_uint32_on [OF ff0 doc(2), of "''Bit''"]
  show ?thesis
  proof (cases "split_entry ''Bit'' es")
    case None
    then show ?thesis using bits(2) rewind_document(1) [OF assms(1)]
      by (auto simp: subghz_block_generic_deserialize_def load_entries_def uint32_of_def)
  next
    case (Some x)
    obtain a d b where x: "x = (a, d, b)" by (rule prod_cases3)
    have es: "es = a @ Entry ''Bit'' d # b" using split_entry_Some Some x by blast
    then obtain n where d: "d = Uint32Data [n]" using assms(2) by (auto simp: typed_entries_def)
    obtain s where s: "flipper_format_read_uint32 ''Bit'' 1 ?ff0 = Inr (Some (Uint32Data [n]), ?ff0\<lparr>ff_stream := s\<rparr>)"
      "stream_ok s" "rest s = document (Empty_Line # b)" "stream_string s = document es"
      using bits(1) Some x d assms(1) unfolding holds_document_def by fastforce
    let ?ff1 = "ff\<lparr>ff_stream := s\<rparr>"
    have ff1: "\<not> strict_mode ?ff1" "stream_ok (ff_stream ?ff1)" "rest (ff_stream ?ff1) = document (Empty_Line # b)"
      "\<forall>e \<in> set (Empty_Line # b). good_entry e"
      using doc es s by simp_all
    have split: "split_entry ''Key'' (Empty_Line # b) = map_option (\<lambda>(a, d, b). (Empty_Line # a, d, b)) (split_entry ''Key'' b)" by simp
    show ?thesis
    proof (cases "split_entry ''Key'' b")
      case None
      then obtain s' where "flipper_format_read_hex ''Key'' 8 ?ff1 = Inr (None, ff\<lparr>ff_stream := s'\<rparr>)"
        using read_hex_on(2) [OF ff1, of "''Key''" 8] split by auto
      then show ?thesis using Some None x d s(1) rewind_document(1) [OF assms(1)]
        by (auto simp: subghz_block_generic_deserialize_def load_entries_def uint32_of_def hex_of_def Let_def)
    next
      case (Some y)
      obtain a' d' b' where y: "y = (a', d', b')" by (rule prod_cases3)
      have "b = a' @ Entry ''Key'' d' # b'" using split_entry_Some Some y by blast
      then obtain kd where kd: "d' = HexData kd" "length kd = 8" using assms(2) es by (auto simp: typed_entries_def)
      obtain s' where "flipper_format_read_hex ''Key'' 8 ?ff1 = Inr (Some (HexData kd), ff\<lparr>ff_stream := s'\<rparr>)"
        "stream_ok s'" "rest s' = document (Empty_Line # b')" "stream_string s' = document es"
        using read_hex_on(1) [OF ff1, of "''Key''" _ kd b'] split Some y kd s(4) by auto
      then show ?thesis using \<open>split_entry ''Bit'' es = Some x\<close> Some x y d kd s(1) rewind_document(1) [OF assms(1)]
        by (auto simp: subghz_block_generic_deserialize_def load_entries_def uint32_of_def hex_of_def Let_def)
    qed
  qed
qed

section \<open>What was saved is loaded\<close>

lemma length_serialize_key [simp]: "length (serialize_key_data k) = 8"
proof -
  have "length (foldl (\<lambda>kd i. kd[f i := h i]) xs is) = length xs" for f and h :: "nat \<Rightarrow> u8" and xs "is"
    by (induction "is" arbitrary: xs) auto
  then show ?thesis by (simp add: serialize_key_data_def)
qed

lemma saved_holds:
  assumes "plain (protocol_name g)" and "protocol_name g \<noteq> []" and "\<not> strict_mode ff"
  shows "holds_document (ff\<lparr>ff_stream := at_end (document (saved_entries g preset))\<rparr>) (saved_entries g preset)"
    and "typed_entries (saved_entries g preset)"
  using saved_entries_good [OF assms(1,2)] assms(3)
  by (simp add: holds_document_def) (auto simp: typed_entries_def saved_entries_def Let_def)

definition data_entry :: "SubGhzBlockGeneric \<Rightarrow> format_entry list" where
  "data_entry g = (if data_count_bit g = 72 \<and> protocol_name g = ''Nice FloR-S''
     then [Entry ''Data'' (Uint32Data [ucast (drop_bit 4 (data_2 g) AND 0xFFFFF)])] else [])"

lemma load_saved: "load_entries (saved_entries g preset @ es) g' =
    (SubGhzProtocolStatusOk, g'\<lparr>data_count_bit := data_count_bit g, data := data g\<rparr>, data_entry g @ es)"
proof -
  have "ucast (ucast (data_count_bit g) :: u32) = data_count_bit g" by (rule bit_word_eqI) (simp add: bit_simps)
  then show ?thesis
    by (auto simp: load_entries_def saved_entries_def data_entry_def Let_def deserialize_key_data_def [symmetric] key_data_roundtrip)
qed

text \<open>A saved key is loaded: what a decoder or a new remote holds, written with any radio preset over whatever the text was
  before, is read into any other instance with the same key and the same number of bits, and nothing else of the instance changes.\<close>

theorem saved_key_loaded:
  assumes "plain (protocol_name g)" and "protocol_name g \<noteq> []" and "\<not> strict_mode ff"
  shows "\<exists>ff1 ff2. subghz_block_generic_serialize g preset ff = (SubGhzProtocolStatusOk, ff1) \<and>
    subghz_block_generic_deserialize g' ff1 = Inr (SubGhzProtocolStatusOk, g'\<lparr>data_count_bit := data_count_bit g, data := data g\<rparr>, ff2)"
  using serialize_document [OF assms(1,2), of preset ff] deserialize_document [OF saved_holds [OF assms], of g' preset]
    load_saved [of g preset "[]" g']
  by auto

theorem saved_key_loaded_witness:
  "\<exists>ff1 ff2. subghz_block_generic_serialize (zero_generic ''CAME'' \<lparr>data := 0xABCDEF, data_count_bit := 24\<rparr>)
      \<lparr>preset_name = ''AM650'', frequency = 433920000, preset_data = []\<rparr> flipper_format_string_alloc = (SubGhzProtocolStatusOk, ff1) \<and>
    subghz_block_generic_deserialize (zero_generic ''CAME'') ff1 =
      Inr (SubGhzProtocolStatusOk, zero_generic ''CAME'' \<lparr>data_count_bit := 24, data := 0xABCDEF\<rparr>, ff2)"
  using saved_key_loaded [of "zero_generic ''CAME'' \<lparr>data := 0xABCDEF, data_count_bit := 24\<rparr>" flipper_format_string_alloc
      "\<lparr>preset_name = ''AM650'', frequency = 433920000, preset_data = []\<rparr>" "zero_generic ''CAME''"]
  by (simp add: zero_generic_def plain_def flipper_format_string_alloc_def)

text \<open>Loading from any text of entries: the status and the instance are those that the list of entries gives, on every branch;
  the first number of bits counts, the key is looked for behind it only, and a text with a number of bits and no key
  behind it fails after the number was changed.\<close>

theorem loading_reads_entries:
  assumes "holds_document ff es" and "typed_entries es"
  shows "\<exists>ff'. subghz_block_generic_deserialize g ff = Inr (fst (load_entries es g), fst (snd (load_entries es g)), ff')"
  using deserialize_document [OF assms, of g] by blast

theorem loading_reads_entries_witness:
  "\<exists>ff'. subghz_block_generic_deserialize (zero_generic ''CAME'')
      \<lparr>ff_stream = at_end (document [Entry ''Key'' (HexData [0, 0, 0, 0, 0, 0xAB, 0xCD, 0xEF]), Entry ''Bit'' (Uint32Data [24])]), strict_mode = False\<rparr> =
    Inr (SubGhzProtocolStatusErrorParserKey, zero_generic ''CAME'' \<lparr>data_count_bit := 24\<rparr>, ff')"
  using loading_reads_entries [of "\<lparr>ff_stream = at_end (document [Entry ''Key'' (HexData [0, 0, 0, 0, 0, 0xAB, 0xCD, 0xEF]),
      Entry ''Bit'' (Uint32Data [24])]), strict_mode = False\<rparr>" "[Entry ''Key'' (HexData [0, 0, 0, 0, 0, 0xAB, 0xCD, 0xEF]),
      Entry ''Bit'' (Uint32Data [24])]" "zero_generic ''CAME''"]
  by (simp add: holds_document_def file_keys typed_entries_def load_entries_def Let_def)

section \<open>Starting an encoder\<close>

definition set_repeat :: "format_entry list \<Rightarrow> SubGhzProtocolEncoderCommonGeneric \<Rightarrow> SubGhzProtocolEncoderCommonGeneric" where
  "set_repeat es inst = (case split_entry ''Repeat'' es of
     Some (a, Uint32Data [n], b) \<Rightarrow> inst\<lparr>encoder := (encoder inst)\<lparr>repeat := unat n\<rparr>\<rparr> | _ \<Rightarrow> inst)"

definition set_running :: "SubGhzProtocolEncoderCommonGeneric \<Rightarrow> SubGhzProtocolEncoderCommonGeneric" where
  "set_running inst = inst\<lparr>encoder := (encoder inst)\<lparr>is_running := True\<rparr>\<rparr>"

lemma start_encoder_on:
  assumes "\<not> strict_mode ff" and "stream_ok (ff_stream ff)" and "rest (ff_stream ff) = document es" and "\<forall>e \<in> set es. good_entry e"
    and "\<forall>d. Entry ''Repeat'' d \<in> set es \<longrightarrow> (\<exists>n. d = Uint32Data [n])"
    and "get_upload (set_repeat es inst) = Inr (ok, inst')"
  shows "\<exists>s. start_encoder get_upload inst ff =
    Inr (if ok then (SubGhzProtocolStatusOk, set_running inst', ff\<lparr>ff_stream := s\<rparr>)
         else (SubGhzProtocolStatusErrorEncoderGetUpload, inst', ff\<lparr>ff_stream := s\<rparr>))"
proof (cases "split_entry ''Repeat'' es")
  case None
  then show ?thesis using read_uint32_on(2) [OF assms(1-4), of "''Repeat''"] assms(6)
    by (auto simp: start_encoder_def uint32_of_def set_repeat_def set_running_def)
next
  case (Some x)
  obtain a d b where x: "x = (a, d, b)" by (rule prod_cases3)
  then have "es = a @ Entry ''Repeat'' d # b" using split_entry_Some Some by blast
  then obtain n where "d = Uint32Data [n]" using assms(5) by auto
  then show ?thesis using read_uint32_on(1) [OF assms(1-4), of "''Repeat''" a n b] Some x assms(6)
    by (auto simp: start_encoder_def uint32_of_def set_repeat_def set_running_def)
qed

text \<open>The deserializers of the encoders have one shape: load, check the number of bits, start.\<close>

definition load_then_start ::
    "(u16 \<Rightarrow> bool) \<Rightarrow> (SubGhzProtocolEncoderCommonGeneric \<Rightarrow> fault + bool \<times> SubGhzProtocolEncoderCommonGeneric)
      \<Rightarrow> SubGhzProtocolEncoderCommonGeneric \<Rightarrow> FlipperFormat
      \<Rightarrow> fault + SubGhzProtocolStatus \<times> SubGhzProtocolEncoderCommonGeneric \<times> FlipperFormat" where
  "load_then_start accepts get_upload inst ff =
     bind_r (subghz_block_generic_deserialize (encoder_generic inst) ff) (\<lambda>(ret, g, ff1).
       let inst1 = inst\<lparr>encoder_generic := g\<rparr>
       in if ret \<noteq> SubGhzProtocolStatusOk then Inr (ret, inst1, ff1)
          else if \<not> accepts (data_count_bit g) then Inr (SubGhzProtocolStatusErrorValueBitCount, inst1, ff1)
          else start_encoder get_upload inst1 ff1)"

lemma bind_r_assoc: "bind_r (bind_r m f) h = bind_r m (\<lambda>x. bind_r (f x) h)"
  by (cases m) (simp_all add: bind_r_def)

lemma common_deserialize_shape:
  "subghz_protocol_encoder_common_deserialize n get_upload = load_then_start (\<lambda>m. m = n) get_upload"
proof (rule ext)+
  show "subghz_protocol_encoder_common_deserialize n get_upload inst ff = load_then_start (\<lambda>m. m = n) get_upload inst ff" for inst ff
    by (cases "subghz_block_generic_deserialize (encoder_generic inst) ff")
      (auto simp: subghz_protocol_encoder_common_deserialize_def load_then_start_def
        subghz_block_generic_deserialize_check_count_bit_def Let_def)
qed

lemma load_then_start_saved:
  assumes "plain (protocol_name g)" and "protocol_name g \<noteq> []" and "\<not> strict_mode ff"
    and "accepts (data_count_bit g)" and "get_upload (with_key (data g) (data_count_bit g) inst) = Inr (True, inst')"
  shows "\<exists>ff2. load_then_start accepts get_upload inst (ff\<lparr>ff_stream := at_end (document (saved_entries g preset))\<rparr>) =
    Inr (SubGhzProtocolStatusOk, set_running inst', ff2)"
proof -
  let ?ff = "ff\<lparr>ff_stream := at_end (document (saved_entries g preset))\<rparr>"
  obtain s where s: "subghz_block_generic_deserialize (encoder_generic inst) ?ff =
      Inr (SubGhzProtocolStatusOk, (encoder_generic inst)\<lparr>data_count_bit := data_count_bit g, data := data g\<rparr>, ?ff\<lparr>ff_stream := s\<rparr>)"
    "stream_ok s" "rest s = document (Empty_Line # data_entry g)"
    using deserialize_document [OF saved_holds [OF assms(1-3)], of "encoder_generic inst" preset]
      load_saved [of g preset "[]" "encoder_generic inst"]
    by auto
  have inst: "inst\<lparr>encoder_generic := (encoder_generic inst)\<lparr>data_count_bit := data_count_bit g, data := data g\<rparr>\<rparr> =
      with_key (data g) (data_count_bit g) inst"
    by (simp add: with_key_def)
  have "set_repeat (Empty_Line # data_entry g) i = i" for i
    by (simp add: set_repeat_def data_entry_def)
  with assms(5) have up: "get_upload (set_repeat (Empty_Line # data_entry g) (with_key (data g) (data_count_bit g) inst)) = Inr (True, inst')"
    by simp
  let ?ff1 = "?ff\<lparr>ff_stream := s\<rparr>"
  have "\<not> strict_mode ?ff1" "stream_ok (ff_stream ?ff1)" "rest (ff_stream ?ff1) = document (Empty_Line # data_entry g)"
    "\<forall>e \<in> set (Empty_Line # data_entry g). good_entry e"
    "\<forall>d. Entry ''Repeat'' d \<in> set (Empty_Line # data_entry g) \<longrightarrow> (\<exists>n. d = Uint32Data [n])"
    using assms(3) s by (simp_all add: data_entry_def file_keys)
  then obtain s' where "start_encoder get_upload (with_key (data g) (data_count_bit g) inst) ?ff1 =
      Inr (SubGhzProtocolStatusOk, set_running inst', ?ff1\<lparr>ff_stream := s'\<rparr>)"
    using start_encoder_on [of ?ff1 "Empty_Line # data_entry g" get_upload "with_key (data g) (data_count_bit g) inst" True inst'] up by auto
  then show ?thesis
    using s(1) assms(4) by (simp add: load_then_start_def inst)
qed

section \<open>The duration and the second key\<close>

text \<open>Decoders that keep the measured duration of a pulse save it with the key and load both; with another number of bits than
  the protocol has, loading fails.\<close>

theorem duration_saved_and_loaded:
  assumes "plain (protocol_name (generic inst))" and "protocol_name (generic inst) \<noteq> []" and "\<not> strict_mode ff"
  shows "\<exists>ff1. subghz_protocol_decoder_common_serialize_te inst preset ff = (SubGhzProtocolStatusOk, ff1) \<and>
    (\<exists>ff2 i. subghz_protocol_decoder_common_deserialize_te n inst' ff1 = Inr
      (if data_count_bit (generic inst) = n then SubGhzProtocolStatusOk else SubGhzProtocolStatusErrorValueBitCount, i, ff2) \<and>
      generic i = (generic inst')\<lparr>data_count_bit := data_count_bit (generic inst), data := data (generic inst)\<rparr> \<and>
      te i = (if data_count_bit (generic inst) = n then te inst else te inst'))"
proof -
  define es where "es = saved_entries (generic inst) preset @ [Entry ''TE'' (Uint32Data [te inst])]"
  let ?ff1 = "ff\<lparr>ff_stream := at_end (document es)\<rparr>"
  have good: "good_entry (Entry ''TE'' (Uint32Data [te inst]))" by (simp add: file_keys)
  have ser: "subghz_protocol_decoder_common_serialize_te inst preset ff = (SubGhzProtocolStatusOk, ?ff1)"
    using serialize_document [OF assms(1,2), of preset ff]
      or_break_entry [OF good]
    by (simp add: subghz_protocol_decoder_common_serialize_te_def writes_as_entries es_def)
  have doc: "holds_document ?ff1 es" "typed_entries es"
    using saved_holds [OF assms, of preset] good by (auto simp: holds_document_def es_def typed_entries_def)
  obtain s where s: "subghz_block_generic_deserialize (generic inst') ?ff1 = Inr (SubGhzProtocolStatusOk,
      (generic inst')\<lparr>data_count_bit := data_count_bit (generic inst), data := data (generic inst)\<rparr>, ?ff1\<lparr>ff_stream := s\<rparr>)"
    "stream_ok s" "stream_string s = document es"
    using deserialize_document [OF doc, of "generic inst'"] load_saved [of "generic inst" preset "[Entry ''TE'' (Uint32Data [te inst])]" "generic inst'"]
    by (auto simp: es_def)
  have "holds_document (ff\<lparr>ff_stream := s\<rparr>) es" using doc(1) s(2,3) by (simp add: holds_document_def)
  note again = rewind_document [OF this]
  have "split_entry ''TE'' es = Some (saved_entries (generic inst) preset, Uint32Data [te inst], [])"
    by (simp add: es_def saved_entries_def Let_def)
  moreover have "\<not> strict_mode ff" "\<forall>e \<in> set es. good_entry e" using doc(1) by (simp_all add: holds_document_def)
  ultimately obtain s' where "flipper_format_read_uint32 ''TE'' 1 (ff\<lparr>ff_stream := s\<lparr>stream_index := 0\<rparr>\<rparr>) =
      Inr (Some (Uint32Data [te inst]), ff\<lparr>ff_stream := s'\<rparr>)"
    using read_uint32_on(1) [of "ff\<lparr>ff_stream := s\<lparr>stream_index := 0\<rparr>\<rparr>" es "''TE''" _ "te inst" "[]"] again(2,3) by auto
  then show ?thesis
    using ser s(1) again(1)
    by (auto simp: subghz_protocol_decoder_common_deserialize_te_def subghz_block_generic_deserialize_check_count_bit_def
        uint32_of_def Let_def)
qed

end
