(* ===== verification/SubGhz_Remotes.thy ===== *)
theory SubGhz_Remotes
  imports SubGhz_Files GateTX Came NiceFlo Holtek Ansonic
begin

text \<open>
  The remotes of \<^verbatim>\<open>lib/subghz/protocols\<close> and their files: how the encoders and decoders of GateTX, CAME, Nice FLO, Holtek
  and Ansonic load a key, and the way of a key from the decoder that received it through the text of a file to the encoder
  that sends it again.
\<close>

section \<open>Loading a key\<close>

definition subghz_protocol_encoder_gate_tx_deserialize ::
    "SubGhzProtocolEncoderCommonGeneric \<Rightarrow> FlipperFormat
      \<Rightarrow> fault + SubGhzProtocolStatus \<times> SubGhzProtocolEncoderCommonGeneric \<times> FlipperFormat" where
  "subghz_protocol_encoder_gate_tx_deserialize =
     subghz_protocol_encoder_common_deserialize (ucast (min_count_bit_for_found subghz_protocol_gate_tx_const))
       subghz_protocol_encoder_gate_tx_get_upload"

definition subghz_protocol_encoder_holtek_deserialize ::
    "SubGhzProtocolEncoderCommonGeneric \<Rightarrow> FlipperFormat
      \<Rightarrow> fault + SubGhzProtocolStatus \<times> SubGhzProtocolEncoderCommonGeneric \<times> FlipperFormat" where
  "subghz_protocol_encoder_holtek_deserialize =
     subghz_protocol_encoder_common_deserialize (ucast (min_count_bit_for_found subghz_protocol_holtek_const))
       subghz_protocol_encoder_holtek_get_upload"

definition subghz_protocol_encoder_ansonic_deserialize ::
    "SubGhzProtocolEncoderCommonGeneric \<Rightarrow> FlipperFormat
      \<Rightarrow> fault + SubGhzProtocolStatus \<times> SubGhzProtocolEncoderCommonGeneric \<times> FlipperFormat" where
  "subghz_protocol_encoder_ansonic_deserialize inst ff =
     bind_r (subghz_block_generic_deserialize_check_count_bit
         (ucast (min_count_bit_for_found subghz_protocol_ansonic_const)) (encoder_generic inst) ff) (\<lambda>(res, g, ff1).
       let inst1 = inst\<lparr>encoder_generic := g\<rparr>
       in if res \<noteq> SubGhzProtocolStatusOk then Inr (res, inst1, ff1)
          else start_encoder subghz_protocol_encoder_ansonic_get_upload inst1 ff1)"

definition subghz_protocol_encoder_came_deserialize ::
    "SubGhzProtocolEncoderCommonGeneric \<Rightarrow> FlipperFormat
      \<Rightarrow> fault + SubGhzProtocolStatus \<times> SubGhzProtocolEncoderCommonGeneric \<times> FlipperFormat" where
  "subghz_protocol_encoder_came_deserialize inst ff =
     bind_r (subghz_block_generic_deserialize (encoder_generic inst) ff) (\<lambda>(ret, g, ff1).
       let inst1 = inst\<lparr>encoder_generic := g\<rparr>
       in if ret \<noteq> SubGhzProtocolStatusOk then Inr (ret, inst1, ff1)
          else if data_count_bit g > 42 then Inr (SubGhzProtocolStatusErrorValueBitCount, inst1, ff1)
          else start_encoder subghz_protocol_encoder_came_get_upload inst1 ff1)"

definition subghz_protocol_encoder_nice_flo_deserialize ::
    "SubGhzProtocolEncoderCommonGeneric \<Rightarrow> FlipperFormat
      \<Rightarrow> fault + SubGhzProtocolStatus \<times> SubGhzProtocolEncoderCommonGeneric \<times> FlipperFormat" where
  "subghz_protocol_encoder_nice_flo_deserialize inst ff =
     bind_r (subghz_block_generic_deserialize (encoder_generic inst) ff) (\<lambda>(ret, g, ff1).
       let inst1 = inst\<lparr>encoder_generic := g\<rparr>; n = unat (min_count_bit_for_found subghz_protocol_nice_flo_const)
       in if ret \<noteq> SubGhzProtocolStatusOk then Inr (ret, inst1, ff1)
          else if unat (data_count_bit g) < n \<or> unat (data_count_bit g) > 2 * n
          then Inr (SubGhzProtocolStatusErrorValueBitCount, inst1, ff1)
          else start_encoder subghz_protocol_encoder_nice_flo_get_upload inst1 ff1)"

text \<open>The decoders load a key to show it; they check the number of bits in the same way.\<close>

definition subghz_protocol_decoder_gate_tx_deserialize ::
    "SubGhzProtocolDecoderCommon \<Rightarrow> FlipperFormat \<Rightarrow> fault + SubGhzProtocolStatus \<times> SubGhzProtocolDecoderCommon \<times> FlipperFormat" where
  "subghz_protocol_decoder_gate_tx_deserialize =
     decoder_deserialize_check (ucast (min_count_bit_for_found subghz_protocol_gate_tx_const))"

definition subghz_protocol_decoder_holtek_deserialize ::
    "SubGhzProtocolDecoderCommon \<Rightarrow> FlipperFormat \<Rightarrow> fault + SubGhzProtocolStatus \<times> SubGhzProtocolDecoderCommon \<times> FlipperFormat" where
  "subghz_protocol_decoder_holtek_deserialize =
     decoder_deserialize_check (ucast (min_count_bit_for_found subghz_protocol_holtek_const))"

definition subghz_protocol_decoder_ansonic_deserialize ::
    "SubGhzProtocolDecoderCommon \<Rightarrow> FlipperFormat \<Rightarrow> fault + SubGhzProtocolStatus \<times> SubGhzProtocolDecoderCommon \<times> FlipperFormat" where
  "subghz_protocol_decoder_ansonic_deserialize =
     decoder_deserialize_check (ucast (min_count_bit_for_found subghz_protocol_ansonic_const))"

definition subghz_protocol_decoder_came_deserialize ::
    "SubGhzProtocolDecoderCommon \<Rightarrow> FlipperFormat \<Rightarrow> fault + SubGhzProtocolStatus \<times> SubGhzProtocolDecoderCommon \<times> FlipperFormat" where
  "subghz_protocol_decoder_came_deserialize inst ff =
     bind_r (subghz_block_generic_deserialize (generic inst) ff) (\<lambda>(ret, g, ff1).
       Inr (if ret = SubGhzProtocolStatusOk \<and> data_count_bit g > 42 then SubGhzProtocolStatusErrorValueBitCount else ret,
         inst\<lparr>generic := g\<rparr>, ff1))"

definition subghz_protocol_decoder_nice_flo_deserialize ::
    "SubGhzProtocolDecoderCommon \<Rightarrow> FlipperFormat \<Rightarrow> fault + SubGhzProtocolStatus \<times> SubGhzProtocolDecoderCommon \<times> FlipperFormat" where
  "subghz_protocol_decoder_nice_flo_deserialize inst ff =
     (let n = unat (min_count_bit_for_found subghz_protocol_nice_flo_const)
      in bind_r (subghz_block_generic_deserialize (generic inst) ff) (\<lambda>(ret, g, ff1).
       Inr (if ret = SubGhzProtocolStatusOk \<and> (unat (data_count_bit g) < n \<or> unat (data_count_bit g) > 2 * n)
            then SubGhzProtocolStatusErrorValueBitCount else ret,
         inst\<lparr>generic := g\<rparr>, ff1)))"

section \<open>From the file to the air\<close>

lemma gate_tx_deserialize_shape:
  "subghz_protocol_encoder_gate_tx_deserialize = load_then_start (\<lambda>m. m = 24) subghz_protocol_encoder_gate_tx_get_upload"
  by (simp add: subghz_protocol_encoder_gate_tx_deserialize_def common_deserialize_shape gate_tx_const)

lemma holtek_deserialize_shape:
  "subghz_protocol_encoder_holtek_deserialize = load_then_start (\<lambda>m. m = 40) subghz_protocol_encoder_holtek_get_upload"
  by (simp add: subghz_protocol_encoder_holtek_deserialize_def common_deserialize_shape holtek_const)

lemma ansonic_deserialize_shape:
  "subghz_protocol_encoder_ansonic_deserialize = load_then_start (\<lambda>m. m = 12) subghz_protocol_encoder_ansonic_get_upload"
  unfolding common_deserialize_shape [symmetric]
  by (simp add: fun_eq_iff subghz_protocol_encoder_ansonic_deserialize_def subghz_protocol_encoder_common_deserialize_def ansonic_const)

lemma came_deserialize_shape:
  "subghz_protocol_encoder_came_deserialize = load_then_start (\<lambda>m. m \<le> 42) subghz_protocol_encoder_came_get_upload"
proof (rule ext)+
  show "subghz_protocol_encoder_came_deserialize inst ff = load_then_start (\<lambda>m. m \<le> 42) subghz_protocol_encoder_came_get_upload inst ff" for inst ff
    by (cases "subghz_block_generic_deserialize (encoder_generic inst) ff")
      (auto simp: subghz_protocol_encoder_came_deserialize_def load_then_start_def Let_def)
qed

lemma nice_flo_deserialize_shape:
  "subghz_protocol_encoder_nice_flo_deserialize =
     load_then_start (\<lambda>m. 12 \<le> unat m \<and> unat m \<le> 24) subghz_protocol_encoder_nice_flo_get_upload"
proof (rule ext)+
  show "subghz_protocol_encoder_nice_flo_deserialize inst ff =
      load_then_start (\<lambda>m. 12 \<le> unat m \<and> unat m \<le> 24) subghz_protocol_encoder_nice_flo_get_upload inst ff" for inst ff
    by (cases "subghz_block_generic_deserialize (encoder_generic inst) ff")
      (auto simp: subghz_protocol_encoder_nice_flo_deserialize_def load_then_start_def Let_def nice_flo_const)
qed

lemma run_sends [simp]: "sent_pulses (set_running inst) = sent_pulses inst" "encoder_ready (set_running inst) = encoder_ready inst"
  by (simp_all add: set_running_def sent_pulses_def encoder_ready_def encoder_wf_def)

text \<open>What one encoder sends of a key, a new one sends that loads the key from a file.\<close>

lemma key_saved_and_sent:
  assumes "deserialize = load_then_start accepts get_upload"
    and "plain (protocol_name g)" and "protocol_name g \<noteq> []" and "\<not> strict_mode ff"
    and "accepts (data_count_bit g)"
    and "\<exists>inst'. get_upload (with_key (data g) (data_count_bit g) enc) = Inr (True, inst') \<and> P (sent_pulses inst')"
  shows "\<exists>ff1 ff2 inst. subghz_block_generic_serialize g preset ff = (SubGhzProtocolStatusOk, ff1) \<and>
    deserialize enc ff1 = Inr (SubGhzProtocolStatusOk, inst, ff2) \<and> is_running (encoder inst) \<and> P (sent_pulses inst)"
proof -
  obtain inst' where inst': "get_upload (with_key (data g) (data_count_bit g) enc) = Inr (True, inst')" "P (sent_pulses inst')"
    using assms(6) by blast
  have "is_running (encoder (set_running inst'))" by (simp add: set_running_def)
  with load_then_start_saved [where accepts = accepts and get_upload = get_upload and inst = enc and inst' = inst', OF assms(2-5) inst'(1), of preset] serialize_document [OF assms(2,3), of preset ff]
    inst'(2) show ?thesis
    unfolding assms(1) by (metis run_sends(1))
qed

text \<open>A CAME key goes from one device to the other: what a decoder holds is written to a text, loaded by a new encoder, which then
  runs, and what it sends, \<open>n + 1\<close> times and with jitter on every pulse, is reported \<open>n\<close> times by a fresh decoder as the
  key that was saved.\<close>

theorem came_key_saved_and_sent:
  assumes "plain (protocol_name g)" and "protocol_name g \<noteq> []" and "\<not> strict_mode ff"
    and "data_count_bit g \<in> {12, 18, 24, 25, 42}"
  shows "\<exists>ff1 ff2 inst. subghz_block_generic_serialize g preset ff = (SubGhzProtocolStatusOk, ff1) \<and>
    subghz_protocol_encoder_came_deserialize subghz_protocol_encoder_came_alloc ff1 = Inr (SubGhzProtocolStatusOk, inst, ff2) \<and>
    is_running (encoder inst) \<and>
    (\<forall>n ps. jitter 150 (concat (replicate (Suc n) (sent_pulses inst))) ps \<longrightarrow>
      snd (feed_all (subghz_protocol_decoder_came_feed (Some log_frames)) (subghz_protocol_decoder_came_alloc, []) ps) =
      replicate n (take_bit (unat (data_count_bit g)) (data g), data_count_bit g))"
proof (rule key_saved_and_sent [OF came_deserialize_shape assms(1-3)])
  let ?inst = "with_key (data g) (data_count_bit g) subghz_protocol_encoder_came_alloc"
  have "encoder_ready ?inst" by (simp add: subghz_protocol_encoder_came_alloc_def)
  then show "\<exists>inst'. subghz_protocol_encoder_came_get_upload ?inst = Inr (True, inst') \<and>
    (\<forall>n ps. jitter 150 (concat (replicate (Suc n) (sent_pulses inst'))) ps \<longrightarrow>
      snd (feed_all (subghz_protocol_decoder_came_feed (Some log_frames)) (subghz_protocol_decoder_came_alloc, []) ps) =
      replicate n (take_bit (unat (data_count_bit g)) (data g), data_count_bit g))"
    using came_transmission_received [of ?inst] assms(4) by (auto simp: subghz_protocol_encoder_came_alloc_def simp del: replicate_Suc)
qed (use assms(4) in \<open>auto\<close>)

text \<open>The same holds of the other remotes.\<close>

theorem gate_tx_key_saved_and_sent:
  assumes "plain (protocol_name g)" and "protocol_name g \<noteq> []" and "\<not> strict_mode ff"
    and "data_count_bit g = 24"
  shows "\<exists>ff1 ff2 inst. subghz_block_generic_serialize g preset ff = (SubGhzProtocolStatusOk, ff1) \<and>
    subghz_protocol_encoder_gate_tx_deserialize subghz_protocol_encoder_gate_tx_alloc ff1 = Inr (SubGhzProtocolStatusOk, inst, ff2) \<and>
    is_running (encoder inst) \<and>
    (\<forall>n ps. jitter 100 (concat (replicate (Suc n) (sent_pulses inst))) ps \<longrightarrow>
      snd (feed_all (subghz_protocol_decoder_gate_tx_feed (Some log_frames)) (subghz_protocol_decoder_gate_tx_alloc, []) ps) =
      replicate n (take_bit 24 (data g), 24))"
proof (rule key_saved_and_sent [OF gate_tx_deserialize_shape assms(1-3)])
  let ?inst = "with_key (data g) (data_count_bit g) subghz_protocol_encoder_gate_tx_alloc"
  have "encoder_ready ?inst" by (simp add: subghz_protocol_encoder_gate_tx_alloc_def)
  then show "\<exists>inst'. subghz_protocol_encoder_gate_tx_get_upload ?inst = Inr (True, inst') \<and>
    (\<forall>n ps. jitter 100 (concat (replicate (Suc n) (sent_pulses inst'))) ps \<longrightarrow>
      snd (feed_all (subghz_protocol_decoder_gate_tx_feed (Some log_frames)) (subghz_protocol_decoder_gate_tx_alloc, []) ps) =
      replicate n (take_bit 24 (data g), 24))"
    using gate_tx_transmission_received [of ?inst] assms(4) by (auto simp: subghz_protocol_encoder_gate_tx_alloc_def simp del: replicate_Suc)
qed (use assms(4) in \<open>auto\<close>)

theorem ansonic_key_saved_and_sent:
  assumes "plain (protocol_name g)" and "protocol_name g \<noteq> []" and "\<not> strict_mode ff"
    and "data_count_bit g = 12"
  shows "\<exists>ff1 ff2 inst. subghz_block_generic_serialize g preset ff = (SubGhzProtocolStatusOk, ff1) \<and>
    subghz_protocol_encoder_ansonic_deserialize subghz_protocol_encoder_ansonic_alloc ff1 = Inr (SubGhzProtocolStatusOk, inst, ff2) \<and>
    is_running (encoder inst) \<and>
    (\<forall>n ps. jitter 120 (concat (replicate (Suc n) (sent_pulses inst))) ps \<longrightarrow>
      snd (feed_all (subghz_protocol_decoder_ansonic_feed (Some log_frames)) (subghz_protocol_decoder_ansonic_alloc, []) ps) =
      replicate n (take_bit 12 (data g), 12))"
proof (rule key_saved_and_sent [OF ansonic_deserialize_shape assms(1-3)])
  let ?inst = "with_key (data g) (data_count_bit g) subghz_protocol_encoder_ansonic_alloc"
  have "encoder_ready ?inst" by (simp add: subghz_protocol_encoder_ansonic_alloc_def)
  then show "\<exists>inst'. subghz_protocol_encoder_ansonic_get_upload ?inst = Inr (True, inst') \<and>
    (\<forall>n ps. jitter 120 (concat (replicate (Suc n) (sent_pulses inst'))) ps \<longrightarrow>
      snd (feed_all (subghz_protocol_decoder_ansonic_feed (Some log_frames)) (subghz_protocol_decoder_ansonic_alloc, []) ps) =
      replicate n (take_bit 12 (data g), 12))"
    using ansonic_transmission_received [of ?inst] assms(4) by (auto simp: subghz_protocol_encoder_ansonic_alloc_def simp del: replicate_Suc)
qed (use assms(4) in \<open>auto\<close>)

theorem nice_flo_key_saved_and_sent:
  assumes "plain (protocol_name g)" and "protocol_name g \<noteq> []" and "\<not> strict_mode ff"
    and "data_count_bit g \<in> {12..24}"
  shows "\<exists>ff1 ff2 inst. subghz_block_generic_serialize g preset ff = (SubGhzProtocolStatusOk, ff1) \<and>
    subghz_protocol_encoder_nice_flo_deserialize subghz_protocol_encoder_nice_flo_alloc ff1 = Inr (SubGhzProtocolStatusOk, inst, ff2) \<and>
    is_running (encoder inst) \<and>
    (\<forall>n ps. jitter 250 (concat (replicate (Suc n) (sent_pulses inst))) ps \<longrightarrow>
      snd (feed_all (subghz_protocol_decoder_nice_flo_feed (Some log_frames)) (subghz_protocol_decoder_nice_flo_alloc, []) ps) =
      replicate n (take_bit (unat (data_count_bit g)) (data g), data_count_bit g))"
proof (rule key_saved_and_sent [OF nice_flo_deserialize_shape assms(1-3)])
  let ?inst = "with_key (data g) (data_count_bit g) subghz_protocol_encoder_nice_flo_alloc"
  have "encoder_ready ?inst" by (simp add: subghz_protocol_encoder_nice_flo_alloc_def)
  then show "\<exists>inst'. subghz_protocol_encoder_nice_flo_get_upload ?inst = Inr (True, inst') \<and>
    (\<forall>n ps. jitter 250 (concat (replicate (Suc n) (sent_pulses inst'))) ps \<longrightarrow>
      snd (feed_all (subghz_protocol_decoder_nice_flo_feed (Some log_frames)) (subghz_protocol_decoder_nice_flo_alloc, []) ps) =
      replicate n (take_bit (unat (data_count_bit g)) (data g), data_count_bit g))"
    using nice_flo_transmission_received [of ?inst] assms(4)
    by (auto simp: subghz_protocol_encoder_nice_flo_alloc_def word_le_nat_alt simp del: replicate_Suc)
qed (use assms(4) in \<open>auto simp: word_le_nat_alt\<close>)

theorem holtek_key_saved_and_sent:
  assumes "plain (protocol_name g)" and "protocol_name g \<noteq> []" and "\<not> strict_mode ff"
    and "data_count_bit g = 40"
  shows "\<exists>ff1 ff2 inst. subghz_block_generic_serialize g preset ff = (SubGhzProtocolStatusOk, ff1) \<and>
    subghz_protocol_encoder_holtek_deserialize subghz_protocol_encoder_holtek_alloc ff1 = Inr (SubGhzProtocolStatusOk, inst, ff2) \<and>
    is_running (encoder inst) \<and>
    (\<forall>n ps. jitter 100 (concat (replicate (Suc n) (sent_pulses inst))) ps \<longrightarrow>
      snd (feed_all (subghz_protocol_decoder_holtek_feed (Some log_frames)) (subghz_protocol_decoder_holtek_alloc, []) ps) =
      (if data g AND HOLTEK_HEADER_MASK = HOLTEK_HEADER then replicate n (take_bit 40 (data g), 40) else []))"
proof (rule key_saved_and_sent [OF holtek_deserialize_shape assms(1-3)])
  let ?inst = "with_key (data g) (data_count_bit g) subghz_protocol_encoder_holtek_alloc"
  have "encoder_ready ?inst" by (simp add: subghz_protocol_encoder_holtek_alloc_def)
  then show "\<exists>inst'. subghz_protocol_encoder_holtek_get_upload ?inst = Inr (True, inst') \<and>
    (\<forall>n ps. jitter 100 (concat (replicate (Suc n) (sent_pulses inst'))) ps \<longrightarrow>
      snd (feed_all (subghz_protocol_decoder_holtek_feed (Some log_frames)) (subghz_protocol_decoder_holtek_alloc, []) ps) =
      (if data g AND HOLTEK_HEADER_MASK = HOLTEK_HEADER then replicate n (take_bit 40 (data g), 40) else []))"
    using holtek_transmission_received [of ?inst] assms(4) by (auto simp: subghz_protocol_encoder_holtek_alloc_def simp del: replicate_Suc)
qed (use assms(4) in \<open>auto\<close>)

end
