(* ===== verification/Spec2Isabelle.thy ===== *)
theory Spec2Isabelle
  imports SubGhz_Worker GateTX Came NiceFlo Holtek Ansonic Manchester Varint Bit_Lib Infrared_Roundtrip Keeloq
    Nfc_Crypto1 Expansion_Worker Expansion_Control Scene_Manager Strint Em4100
    Datetime Iso14443_4a_Session Input_Service Event_Loop Saved_Struct Dolphin Flipper_Format_Text SubGhz_Remotes
begin

text \<open>
  Verification development for the firmware of a handheld radio and tag tool. Paths are below \<^verbatim>\<open>src/\<close>.

  The program. Libraries under \<^verbatim>\<open>lib/\<close> turn pulses and bytes of several media into data and back:
  remote controls on Sub-GHz radio (\<^verbatim>\<open>lib/subghz\<close>), infrared remotes (\<^verbatim>\<open>lib/infrared\<close>), contactless
  cards (\<^verbatim>\<open>lib/nfc\<close>), 125 kHz tags (\<^verbatim>\<open>lib/lfrfid\<close>); they share coders and containers of
  \<^verbatim>\<open>lib/toolbox\<close> and \<^verbatim>\<open>lib/bit_lib\<close>. Services under \<^verbatim>\<open>applications/services\<close> are threads that
  talk through queues, flags and callbacks, such as the expansion service, which serves a module on the serial
  port, and the GUI, whose scene manager drives every application. A received Sub-GHz signal takes the way
  radio interrupt, stream buffer, worker thread with its glitch filter, protocol decoders; the last section of this
  theory composes these parts.

  Conventions. Words have the width of the source (\<open>u8\<close> to \<open>u64\<close>). Whatever ends a C function other than
  returning is a value of \<open>fault\<close>: a failed \<^verbatim>\<open>furi_check\<close>, a crash, an access outside an array, undefined
  behaviour of the arithmetic. State is passed explicitly. Callbacks, the RPC service, the ports of the board and the handlers
  of applications are parameters. \<^verbatim>\<open>furi_assert\<close> and logging have no counterpart: the first is compiled out
  of the release build; in \<open>Dolphin\<close> an argument \<open>debug\<close> turns it on.

  Theories and what they model.

  \<^item> \<open>Flipper_Prelude\<close>: faults, checked reads and writes, error composition, generic facts on words and
  lists.

  \<^item> \<open>SubGhz_Blocks\<close>: \<^verbatim>\<open>lib/toolbox/level_duration.h\<close>, \<^verbatim>\<open>lib/subghz/blocks/math.c\<close>,
  \<^verbatim>\<open>decoder.c\<close>, \<^verbatim>\<open>encoder.c\<close>. The checksums are linear, a message closed by its CRC has CRC zero, the
  long shift register is one 128 bit number, a pulse train spells the bits it was made of.

  \<^item> \<open>SubGhz_Worker\<close>: \<^verbatim>\<open>lib/subghz/subghz_worker.c\<close>; the filter keeps the total time and alternates levels.

  \<^item> \<open>SubGhz_Common\<close>: \<^verbatim>\<open>blocks/const.h\<close>, \<^verbatim>\<open>generic.c\<close>, \<^verbatim>\<open>custom_btn.c\<close>,
  \<^verbatim>\<open>protocols/common.c\<close>, and the locales of the gap framed protocols: from what a decoder does with one pulse pair
  and what an upload generator writes follows what a decoder reports of whole transmissions. \<open>GateTX\<close>, \<open>Came\<close>,
  \<open>NiceFlo\<close>, \<open>Holtek\<close> and \<open>Ansonic\<close> (\<^verbatim>\<open>protocols/gate_tx.c\<close> and so on) interpret them on the protocols'
  upload generators and decoders.

  \<^item> \<open>Keeloq\<close>: \<^verbatim>\<open>protocols/keeloq_common.c\<close>. The cipher is a permutation, the derivations are
  injective in the serial number, one derivation is undefined.

  \<^item> \<open>Manchester\<close>, \<open>Varint\<close>, \<open>Strint\<close>: \<^verbatim>\<open>manchester_encoder.c\<close>, \<^verbatim>\<open>manchester_decoder.c\<close>,
  \<^verbatim>\<open>varint.c\<close>, \<^verbatim>\<open>strint.c\<close> of \<^verbatim>\<open>lib/toolbox\<close>. Round trips of the two coders; the parsers agree
  with a reader on unbounded integers, but for the least signed numbers, whose negation overflows in the code.

  \<^item> \<open>Bit_Lib\<close>: \<^verbatim>\<open>lib/bit_lib/bit_lib.c\<close>; every operation is described bit by bit.

  \<^item> \<open>Infrared_Common\<close>, \<open>Infrared_Protocols\<close>, \<open>Infrared_Frames\<close>, \<open>Infrared_Roundtrip\<close>:
  \<^verbatim>\<open>lib/infrared/encoder_decoder/common\<close> with the protocols of \<^verbatim>\<open>nec\<close>, \<^verbatim>\<open>samsung\<close> and
  \<^verbatim>\<open>pioneer\<close>. An invariant of the decoder under every sequence of edges, and the round trip of messages.

  \<^item> \<open>Bit_Buffer\<close>, \<open>Nfc_Crc\<close>, \<open>Nfc_Crypto1\<close>: \<^verbatim>\<open>lib/toolbox/bit_buffer.c\<close> and
  \<^verbatim>\<open>nfc_util.c\<close>, \<^verbatim>\<open>iso14443_crc.c\<close>, \<^verbatim>\<open>iso13239_crc.c\<close>, \<^verbatim>\<open>felica_crc.c\<close>, \<^verbatim>\<open>crypto1.c\<close> of
  \<^verbatim>\<open>lib/nfc/helpers\<close>. Memory safety of all calls whose arguments are as their callers must
  provide them (\<open>call_ok\<close>; one reader overruns otherwise), round trips of parity, checksum and encryption, rollback.

  \<^item> \<open>Iso14443_4_Layer\<close>: \<^verbatim>\<open>iso14443_4_layer.c\<close> of \<^verbatim>\<open>lib/nfc/helpers\<close>, and the predicate \<open>holds\<close>, which describes
  the operations of a bit buffer by the bytes in it. No block stops the listener.

  \<^item> \<open>Iso14443_3a\<close>, \<open>Iso14443_3a_Poller\<close>: the poller of \<^verbatim>\<open>lib/nfc/protocols/iso14443_3a\<close>. The locale
  \<open>nfc_radio\<close> states that a call of the radio returns with an intact buffer; under it the collision resolution ends and
  stays in its arrays. A card that follows the standard interprets the locale, and its identifier is read.

  \<^item> \<open>Iso14443_4a\<close>, \<open>Iso14443_4a_Session\<close>: \<^verbatim>\<open>lib/nfc/protocols/iso14443_4a\<close> and the listener of
  \<^verbatim>\<open>iso14443_3a\<close>. The answer to select survives its frame; the stacks of poller and listener, put in front of each other,
  carry a session of commands and answers; time extensions are bounded in one of the two ways to send.

  \<^item> \<open>Em4100\<close>: \<^verbatim>\<open>lib/lfrfid/protocols/protocol_em4100.c\<close>. The frame as rows and columns of bits, what the
  encoder sends, how its half bits join to pulses, and that the decoder reads the tag from them.

  \<^item> \<open>Expansion_Protocol\<close>, \<open>Expansion_Worker\<close>, \<open>Expansion_Control\<close>: \<^verbatim>\<open>expansion_protocol.h\<close>,
  \<^verbatim>\<open>expansion_worker.c\<close>, \<^verbatim>\<open>expansion.c\<close> of \<^verbatim>\<open>applications/services/expansion\<close>. The locale
  \<open>byte_source\<close> states what a receive callback does with the bytes to come, \<open>finite_source\<close> that it uses them up; the
  worker's callback interprets both. The state machine refines a protocol on messages, the thread ends and gives back
  what it took, and the service keeps exactly one worker while it runs.

  \<^item> \<open>Datetime\<close>: \<^verbatim>\<open>lib/datetime/datetime.c\<close> against the proleptic Gregorian calendar.

  \<^item> \<open>Scene_Manager\<close>: \<^verbatim>\<open>applications/services/gui/scene_manager.c\<close> with the handlers of the application as
  functions on the manager; they may call it themselves.

  \<^item> \<open>Input_Service\<close>: \<^verbatim>\<open>applications/services/input/input.c\<close>. The passes of the thread and the expiries
  of its timers are steps of one relation; the invariant ties the events of each button to the state of its pin, in every
  reachable state. The choices of the environment make the relation executable.

  \<^item> \<open>Event_Loop_Timer\<close>, \<open>Event_Loop\<close>: \<^verbatim>\<open>event_loop_timer.c\<close>, \<^verbatim>\<open>event_loop.c\<close>,
  \<^verbatim>\<open>event_loop_tick.c\<close> of \<^verbatim>\<open>furi/core\<close>, on which the services run. Timers are objects in a store, reached through the queue of
  requests and the sorted list; a callback is a function on the thread's state. The loop sleeps no longer than to the first timer and
  never over work that is there; the lemmas at the end show where notifications are lost and memory is used after it was freed.

  \<^item> \<open>Saved_Struct\<close>: \<^verbatim>\<open>lib/toolbox/saved_struct.c\<close> and the settings of the input service, over a record of the storage
  service's functions. The predicate \<open>keeps_files\<close> states the documented behaviour of files; \<open>memory_storage\<close> has it.
  What was saved is loaded, what was damaged in one byte is not.

  \<^item> \<open>Dolphin\<close>: \<^verbatim>\<open>applications/services/dolphin\<close>. Experience and mood stay in their bounds whatever deeds of applications a day
  brings, the limits are cleared at five, a saved state comes back.

  \<^item> \<open>String_Stream\<close>, \<open>Flipper_Format\<close>, \<open>Flipper_Format_Text\<close>: \<^verbatim>\<open>lib/toolbox/stream/string_stream.c\<close> and
  \<^verbatim>\<open>stream.c\<close>, \<^verbatim>\<open>lib/toolbox/hex.c\<close>, and \<^verbatim>\<open>lib/flipper_format\<close> on a stream in memory. The loops over
  blocks of a stream end because each pass shortens the rest of it. The search for a key in blocks of 32 bytes is a search line by line in the
  text; what was written in plain, non-empty
  texts is read back with its type, and a text of keys and values behaves as a dictionary. The lemmas at the end of
  \<open>Flipper_Format_Text\<close> show texts that are not read the way they were meant. The numbers of values of a line are
  unbounded here; the code counts them in 16 bits.

  \<^item> \<open>SubGhz_Files\<close>, \<open>SubGhz_Remotes\<close>: the saving and loading of keys in \<^verbatim>\<open>blocks/generic.c\<close>,
  \<^verbatim>\<open>protocols/common.c\<close> and the five remotes, on the text format. A saved key is loaded, on every branch the result is that of
  the list of entries, and an encoder that loads what a decoder saved sends the same key.

  Bounds. The endless loop of the infrared decoder takes fuel; 22 rounds per edge are enough (three for each of six held
  timings, and the distance of the state to its end). Encoding a message takes at most 68 calls. Decoding an expansion
  frame takes at most 67 calls of its callback. The state machine of the worker takes one round more than there are bytes to come,
  since each round that goes on has used up a byte. The loop of the worker's receive callback needs no fuel: each pass consumes a
  batch of events or a set flag, and when neither is left the wait times out. The loop of the collision resolution
  takes six passes, two for each of three cascade levels; the loop that grants time extensions has no bound, its fuel is the number
  of extensions a card asks for. 273 half bits of the EM4100 encoder are two frames, the header of
  a third and the edge that ends it.

  Not modelled. Register and bus drivers and the kernel wrappers under \<^verbatim>\<open>targets\<close> and \<^verbatim>\<open>furi\<close>, other than the event
  loop; of the kernel only the objects the expansion worker and the event loop use are fields of their states. The storage service, the streams over its
  files, and the floating point values of FlipperFormat; drawing and text output; the
  remaining codecs of the radio, infrared and tag libraries, which have the interfaces of the modelled ones and come next; the card
  protocols other than ISO 14443-3A and 4A; vendored libraries and generated code.
\<close>

unbundle bit_operations_syntax

section \<open>From the radio interrupt to the decoder\<close>

text \<open>A worker fresh from \<^verbatim>\<open>subghz_worker_alloc\<close>, in cleared memory with the default filter.\<close>

definition subghz_worker_alloc :: SubGhzWorker where
  "subghz_worker_alloc = \<lparr>filter_level = False, filter_sum = 0, filter_duration = 30\<rparr>"

fun event_pulses :: "worker_event list \<Rightarrow> pulse list" where
  "event_pulses [] = []"
| "event_pulses (Overrun # es) = event_pulses es"
| "event_pulses (Pair l d # es) = (l, d) # event_pulses es"

definition through_worker :: "pulse list \<Rightarrow> pulse list" where
  "through_worker ps = event_pulses (snd (subghz_worker_run subghz_worker_alloc
     (map (\<lambda>(l, d). level_duration_make l d) ps)))"

text \<open>Edges as a receiver reports them: the levels alternate, no pulse is a glitch and all fit 30 bits.\<close>

fun clean_edges :: "bool \<Rightarrow> pulse list \<Rightarrow> bool" where
  "clean_edges l [] \<longleftrightarrow> True"
| "clean_edges l ((l', d) # ps) \<longleftrightarrow> l' = l \<and> 30 \<le> unat d \<and> unat d < 2 ^ 30 \<and> clean_edges (\<not> l) ps"

lemma thirty_bits: "unat d < 2 ^ 30 \<Longrightarrow> take_bit 30 d = (d :: u32)"
  by (rule unsigned_word_eqI [where 'a = nat]) (simp add: unsigned_take_bit_eq take_bit_nat_eq_self)

lemma thirty_bits_sum: "unat d < 2 ^ 30 \<Longrightarrow> ucast (ucast d :: 30 word) = (d :: u32)"
  by (rule unsigned_word_eqI [where 'a = nat])
     (simp add: unsigned_ucast_eq unsigned_take_bit_eq take_bit_nat_eq_self)

lemma worker_passes_edges:
  assumes "clean_edges (\<not> filter_level w) ps" and "filter_duration w = 30"
  shows "event_pulses (snd (subghz_worker_run w (map (\<lambda>(l, d). level_duration_make l d) ps))) =
    butlast ((filter_level w, ucast (filter_sum w)) # ps)"
  using assms
proof (induction ps arbitrary: w)
  case Nil
  then show ?case by simp
next
  case (Cons p ps)
  obtain d where p: "p = (\<not> filter_level w, d)" "30 \<le> unat d" "unat d < 2 ^ 30" "clean_edges (filter_level w) ps"
    using Cons.prems(1) by (cases p) auto
  let ?w = "w\<lparr>filter_sum := ucast d, filter_level := \<not> filter_level w\<rparr>"
  have "subghz_worker_step w (level_duration_make (\<not> filter_level w) d) =
      (?w, [Pair (filter_level w) (ucast (filter_sum w))])"
    using p(2,3) Cons.prems(2)
    by (simp add: subghz_worker_step_def Let_def thirty_bits word_less_nat_alt)
  moreover have "event_pulses (snd (subghz_worker_run ?w (map (\<lambda>(l, d). level_duration_make l d) ps))) =
      butlast ((\<not> filter_level w, d) # ps)"
    using Cons.IH [of ?w] p(3,4) Cons.prems(2) by (simp add: thirty_bits_sum)
  moreover obtain w2 ev2 where "subghz_worker_run ?w (map (\<lambda>(l, d). level_duration_make l d) ps) = (w2, ev2)"
    by force
  ultimately show ?case
    by (simp add: p(1))
qed

lemma through_worker_clean:
  assumes "clean_edges False (ps @ [(l, d)])" and "ps \<noteq> []"
  shows "through_worker (ps @ [(l, d)]) = ps"
proof -
  obtain d1 ps1 where ps: "ps = (False, d1) # ps1" "unat d1 < 2 ^ 30" "clean_edges True (ps1 @ [(l, d)])"
    using assms by (cases ps) auto
  let ?w = "subghz_worker_alloc\<lparr>filter_sum := ucast d1\<rparr>"
  have "subghz_worker_step subghz_worker_alloc (level_duration_make False d1) = (?w, [])"
    using ps(2) by (simp add: subghz_worker_step_def subghz_worker_alloc_def thirty_bits)
  moreover have "event_pulses (snd (subghz_worker_run ?w (map (\<lambda>(l, d). level_duration_make l d) (ps1 @ [(l, d)])))) = ps"
    using worker_passes_edges [of ?w "ps1 @ [(l, d)]"] ps by (simp add: subghz_worker_alloc_def thirty_bits_sum)
  ultimately show ?thesis
    by (simp add: through_worker_def ps(1) split: prod.splits)
qed

text \<open>What is sent: levels in alternation from low to high, far from the limits.\<close>

fun sent_edges :: "bool \<Rightarrow> pulse list \<Rightarrow> bool" where
  "sent_edges l [] \<longleftrightarrow> \<not> l"
| "sent_edges l ((l', d) # ps) \<longleftrightarrow> l' = l \<and> 180 \<le> unat d \<and> unat d \<le> 2 ^ 29 \<and> sent_edges (\<not> l) ps"

lemma sent_edges_append: "sent_edges l xs \<Longrightarrow> sent_edges False ys \<Longrightarrow> sent_edges l (xs @ ys)"
  by (induction l xs rule: sent_edges.induct) auto

lemma sent_edges_concat: "(\<And>xs. xs \<in> set xss \<Longrightarrow> sent_edges False xs) \<Longrightarrow> sent_edges False (concat xss)"
  by (induction xss) (auto intro: sent_edges_append)

lemma jitter_clean:
  assumes "jitter 150 sent got" and "sent_edges l sent" and "30 \<le> unat d" and "unat d < 2 ^ 30"
  shows "clean_edges l (got @ [(False, d)])"
  using assms(1,2)
proof (induction sent arbitrary: got l)
  case Nil
  then show ?case using assms(3,4) by (simp add: jitter_def)
next
  case (Cons p sent)
  then show ?case
    by (cases p) (auto simp: jitter_Cons1 duration_diff_less)
qed

lemma came_sends_edges:
  assumes "encoder_ready inst" and "data_count_bit (encoder_generic inst) \<in> {12, 18, 24, 25, 42}"
    and "2 * unat (data_count_bit (encoder_generic inst)) + 2 \<le> size_upload (encoder inst)"
    and "subghz_protocol_encoder_came_get_upload inst = Inr (True, inst')"
  shows "sent_edges False (sent_pulses inst') \<and> sent_pulses inst' \<noteq> []"
proof -
  have "came.fits inst" using assms(3) by (simp add: came.fits_def key_bits_def)
  then have "sent_pulses inst' = map pulse_of (came_lead (data_count_bit (encoder_generic inst))) @
      concat (map (map pulse_of \<circ> came_bit) (key_bits inst))"
    using came.upload_total [OF assms(1)] assms(4) by auto
  moreover have "sent_edges False (map pulse_of (came_lead (data_count_bit (encoder_generic inst))))"
    using assms(2) by (auto simp: came_lead_def came_header_te_def pulse_of_def firmware_const Let_def)
  moreover have "sent_edges False (map pulse_of (came_bit b))" for b
    by (simp add: came_bit_def pulse_of_def firmware_const Let_def)
  then have "sent_edges False (concat (map (map pulse_of \<circ> came_bit) (key_bits inst)))"
    by (intro sent_edges_concat) auto
  ultimately have "sent_edges False (sent_pulses inst')" using sent_edges_append by simp
  moreover have "sent_pulses inst' \<noteq> []"
    using \<open>sent_pulses inst' = _\<close> by (simp add: came_lead_def Let_def)
  ultimately show ?thesis by simp
qed

text \<open>C1 The receiving path as a whole: a CAME key of 12, 18, 24, 25 or 42 bits is turned into an upload;
  when its pulses reach the radio some times in a row, each off by less than \<^verbatim>\<open>te_delta\<close>, and an edge
  ends the last, the worker thread hands them to the decoder, which reports the key once for each
  repetition that is followed by another.\<close>

theorem came_received_through_worker:
  assumes "encoder_ready inst" and "data_count_bit (encoder_generic inst) \<in> {12, 18, 24, 25, 42}"
    and "2 * unat (data_count_bit (encoder_generic inst)) + 2 \<le> size_upload (encoder inst)"
  shows "\<exists>inst'. subghz_protocol_encoder_came_get_upload inst = Inr (True, inst') \<and>
    (\<forall>n ps d. jitter 150 (concat (replicate (Suc n) (sent_pulses inst'))) ps \<and> 30 \<le> unat d \<and> unat d < 2 ^ 30 \<longrightarrow>
      snd (feed_all (subghz_protocol_decoder_came_feed (Some log_frames))
        (subghz_protocol_decoder_came_alloc, []) (through_worker (ps @ [(False, d)]))) =
      replicate n (take_bit (unat (data_count_bit (encoder_generic inst))) (data (encoder_generic inst)),
        data_count_bit (encoder_generic inst)))"
proof -
  obtain inst' where i: "subghz_protocol_encoder_came_get_upload inst = Inr (True, inst')"
    "\<And>n ps. jitter 150 (concat (replicate (Suc n) (sent_pulses inst'))) ps \<Longrightarrow>
      snd (feed_all (subghz_protocol_decoder_came_feed (Some log_frames)) (subghz_protocol_decoder_came_alloc, []) ps) =
      replicate n (take_bit (unat (data_count_bit (encoder_generic inst))) (data (encoder_generic inst)),
        data_count_bit (encoder_generic inst))"
    using came_reception [OF assms] by blast
  note edges = came_sends_edges [OF assms i(1)]
  show ?thesis
  proof (intro exI [of _ inst'] conjI allI impI, rule i(1))
    fix n ps and d :: u32
    assume *: "jitter 150 (concat (replicate (Suc n) (sent_pulses inst'))) ps \<and> 30 \<le> unat d \<and> unat d < 2 ^ 30"
    have "sent_edges False (concat (replicate (Suc n) (sent_pulses inst')))"
      using edges by (intro sent_edges_concat) auto
    then have "clean_edges False (ps @ [(False, d)])" using jitter_clean * by blast
    moreover have "ps \<noteq> []" using * edges by (auto simp: jitter_def)
    ultimately have "through_worker (ps @ [(False, d)]) = ps" by (rule through_worker_clean)
    then show "snd (feed_all (subghz_protocol_decoder_came_feed (Some log_frames))
        (subghz_protocol_decoder_came_alloc, []) (through_worker (ps @ [(False, d)]))) =
      replicate n (take_bit (unat (data_count_bit (encoder_generic inst))) (data (encoder_generic inst)),
        data_count_bit (encoder_generic inst))"
      using i(2) * by simp
  qed
qed

theorem came_received_through_worker_witness:
  "\<exists>inst'. subghz_protocol_encoder_came_get_upload (with_key 0xABCDEF 24 subghz_protocol_encoder_came_alloc) = Inr (True, inst') \<and>
    snd (feed_all (subghz_protocol_decoder_came_feed (Some log_frames))
      (subghz_protocol_decoder_came_alloc, [])
      (through_worker (concat (replicate (Suc 2) (sent_pulses inst')) @ [(False, 500)]))) = replicate 2 (0xABCDEF, 24)"
proof -
  have t: "take_bit 24 (0xABCDEF :: u64) = 0xABCDEF" by code_simp
  have j: "jitter 150 ps ps" for ps by (rule jitter_refl) code_simp
  have "30 \<le> unat (500 :: u32)" "unat (500 :: u32) < 2 ^ 30" by simp_all
  with came_received_through_worker [of "with_key 0xABCDEF 24 subghz_protocol_encoder_came_alloc"] j
  show ?thesis
    by (fastforce simp: subghz_protocol_encoder_came_alloc_def t simp del: replicate_Suc)
qed

end
